(* ===== verification/Bm_Prelude.thy ===== *)
theory Bm_Prelude
  imports Main "HOL-Library.Word"
begin

text \<open>
  Shared vocabulary of the development: the C integer types as words, byte strings, C strings,
  big-endian packing and unpacking, and the outcome type that separates an ordinary result of a C
  function from an access outside an object (undefined behaviour).

  The collection \<open>wire\<close> gathers the length and round-trip facts of the codecs; the components
  extend it and their proofs are \<open>simp add: wire\<close>.
\<close>

unbundle bit_operations_syntax

named_theorems wire \<open>length and decode-after-encode facts of the codecs\<close>

type_synonym byte = "8 word"
type_synonym bytes = "8 word list"
type_synonym u16 = "16 word"
type_synonym u32 = "32 word"
type_synonym u64 = "64 word"

text \<open>
  A C function that only touches memory it owns ends in \<open>Done\<close>; one that reads or writes outside
  an array, or through a null pointer, ends in \<open>Fault\<close>.
\<close>

datatype 'a outcome = Done 'a | Fault

fun bind_outcome :: "'a outcome \<Rightarrow> ('a \<Rightarrow> 'b outcome) \<Rightarrow> 'b outcome" where
  "bind_outcome (Done x) f = f x"
| "bind_outcome Fault f = Fault"

lemma bind_outcome_Done_iff [simp]:
  "bind_outcome m f = Done y \<longleftrightarrow> (\<exists>x. m = Done x \<and> f x = Done y)"
  by (cases m) auto

lemma bind_outcome_Fault_iff [simp]:
  "bind_outcome m f = Fault \<longleftrightarrow> m = Fault \<or> (\<exists>x. m = Done x \<and> f x = Fault)"
  by (cases m) auto

section \<open>C strings\<close>

text \<open>
  A \<open>char *\<close> argument is the byte list stored from that address on; the string ends before the
  first zero byte (the terminator that follows the list when it holds none).
\<close>

definition c_str :: "bytes \<Rightarrow> bytes" where
  "c_str s = takeWhile (\<lambda>b. b \<noteq> 0) s"

definition strlen :: "bytes \<Rightarrow> nat" where
  "strlen s = length (c_str s)"

abbreviation lit :: "string \<Rightarrow> bytes" where
  "lit s \<equiv> map of_char s"

lemma c_str_id: "0 \<notin> set s \<Longrightarrow> c_str s = s"
  by (auto simp: c_str_def takeWhile_eq_all_conv)

lemma c_str_no_zero [simp]: "0 \<notin> set (c_str s)"
  by (auto simp: c_str_def dest: set_takeWhileD)

lemma c_str_idem [simp]: "c_str (c_str s) = c_str s"
  by (rule c_str_id) simp

section \<open>Bytes of a word\<close>

text \<open>\<open>(unsigned char)((v >> k) & 0xff)\<close>\<close>

definition byte_at :: "'a::len word \<Rightarrow> nat \<Rightarrow> byte" where
  "byte_at v k = ucast (drop_bit k v AND 0xff)"

lemma and_255: "v AND 255 = take_bit 8 (v :: 'a::len word)"
  by (simp add: take_bit_eq_mask mask_eq_exp_minus_1)

lemma bit_byte_at: "bit (byte_at v k) n \<longleftrightarrow> n < 8 \<and> bit v (k + n)"
  by (auto simp: byte_at_def and_255 bit_simps dest: bit_imp_le_length)

text \<open>One more byte in front of the low \<open>k\<close> bits gives the low \<open>k + 8\<close> bits.\<close>

lemma byte_join:
  "push_bit k (ucast (byte_at v k)) OR take_bit k v = take_bit (k + 8) (v :: 'a::len word)"
  by (rule bit_word_eqI) (auto simp: bit_simps bit_byte_at not_less)

lemma byte_join_0: "ucast (byte_at v 0) = take_bit 8 (v :: 'a::len word)"
  by (rule bit_word_eqI) (auto simp: bit_simps bit_byte_at)

lemma take_bit_word_less: "unat v < 2 ^ n \<Longrightarrow> take_bit n v = (v :: 'a::len word)"
  by (simp add: word_unat_eq_iff unsigned_take_bit_eq take_bit_nat_eq_self)

lemma unat_ucast_byte [simp]:
  "8 \<le> LENGTH('a) \<Longrightarrow> unat (ucast (b :: byte) :: 'a::len word) = unat b"
proof -
  assume "8 \<le> LENGTH('a)"
  then have "(2::nat) ^ 8 \<le> 2 ^ LENGTH('a)" by (rule power_increasing) simp
  then have "unat b < 2 ^ LENGTH('a)" using unsigned_less [of b, where 'a = nat] by simp
  then show ?thesis by (simp add: unsigned_ucast_eq take_bit_nat_eq_self)
qed

lemma unat_of_nat_lt: "n < 2 ^ LENGTH('a) \<Longrightarrow> unat (of_nat n :: 'a::len word) = n"
  by (simp add: unat_of_nat)

lemma unat_of_nat_byte [simp]: "n < 256 \<Longrightarrow> unat (of_nat n :: byte) = n"
  by (simp add: unat_of_nat)

section \<open>Big-endian packing\<close>

text \<open>The loop \<open>v = (v << 8) | p[i]\<close> over the bytes of \<open>p\<close>.\<close>

definition be_join :: "bytes \<Rightarrow> 'a::len word" where
  "be_join bs = fold (\<lambda>b v. push_bit 8 v OR ucast b) bs 0"

text \<open>The \<open>n\<close> low bytes of \<open>v\<close>, most significant first.\<close>

fun be_octets :: "nat \<Rightarrow> 'a::len word \<Rightarrow> bytes" where
  "be_octets 0 v = []"
| "be_octets (Suc n) v = byte_at v (8 * n) # be_octets n v"

abbreviation be16 :: "u16 \<Rightarrow> bytes" where "be16 \<equiv> be_octets 2"
abbreviation be32 :: "u32 \<Rightarrow> bytes" where "be32 \<equiv> be_octets 4"
abbreviation be64 :: "u64 \<Rightarrow> bytes" where "be64 \<equiv> be_octets 8"

lemma length_be_octets [simp, wire]: "length (be_octets n v) = n"
  by (induction n) auto

lemma fold_be_join:
  "fold (\<lambda>b v. push_bit 8 v OR ucast b) bs (acc :: 'a::len word) =
     push_bit (8 * length bs) acc OR be_join bs"
proof (induction bs arbitrary: acc)
  case Nil
  then show ?case by (simp add: be_join_def)
next
  case (Cons b bs)
  have "be_join (b # bs) = push_bit (8 * length bs) (ucast b) OR (be_join bs :: 'a word)"
    using Cons.IH [of "ucast b"] by (simp add: be_join_def)
  with Cons.IH [of "push_bit 8 acc OR ucast b"] show ?case
    by (simp add: push_bit_or push_bit_push_bit or.assoc add.commute)
qed

lemma be_join_Nil [simp]: "be_join [] = 0"
  by (simp add: be_join_def)

lemma be_join_Cons: "be_join (b # bs) = push_bit (8 * length bs) (ucast b) OR be_join bs"
  using fold_be_join [of bs "ucast b"] by (simp add: be_join_def)

lemma be_join_octets: "be_join (be_octets n v) = take_bit (8 * n) v"
  by (induction n) (simp_all add: be_join_Cons byte_join add.commute)

lemma be_join_be64 [simp, wire]: "be_join (be64 v) = v"
  by (simp add: be_join_octets take_bit_word_eq_self)

lemma be_join_be32 [simp, wire]: "be_join (be32 v) = v"
  by (simp add: be_join_octets take_bit_word_eq_self)

lemma be_join_be16 [simp, wire]: "be_join (be16 v) = v"
  by (simp add: be_join_octets take_bit_word_eq_self)

section \<open>The natural number a byte string denotes\<close>

definition be_nat :: "bytes \<Rightarrow> nat" where
  "be_nat bs = foldl (\<lambda>n b. 256 * n + unat b) 0 bs"

lemma foldl_be_nat:
  "foldl (\<lambda>n b. 256 * n + unat b) k bs = k * 256 ^ length bs + be_nat (bs :: bytes)"
  unfolding be_nat_def
proof (induction bs arbitrary: k)
  case Nil
  then show ?case by simp
next
  case (Cons b bs)
  show ?case
    using Cons.IH [of "256 * k + unat b"] Cons.IH [of "unat b"] by (simp add: algebra_simps)
qed

lemma be_nat_Nil [simp]: "be_nat [] = 0"
  by (simp add: be_nat_def)

lemma be_nat_Cons: "be_nat (b # bs) = unat b * 256 ^ length bs + be_nat bs"
  using foldl_be_nat [of "unat b" bs] by (simp add: be_nat_def)

lemma be_nat_append: "be_nat (xs @ ys) = be_nat xs * 256 ^ length ys + be_nat ys"
  using foldl_be_nat [of "be_nat xs" ys] by (simp add: be_nat_def)

lemma unat_lt_256 [simp]: "unat (b :: byte) < 256"
  using unsigned_less [of b, where 'a = nat] by simp

lemma be_nat_bound: "be_nat bs < 256 ^ length bs"
proof (induction bs)
  case Nil
  then show ?case by simp
next
  case (Cons b bs)
  have "unat b \<le> 255" using unat_lt_256 [of b] by linarith
  then have "unat b * 256 ^ length bs \<le> 255 * 256 ^ length bs" by simp
  with Cons.IH have "unat b * 256 ^ length bs + be_nat bs < 256 * 256 ^ length bs" by linarith
  then show ?case by (simp add: be_nat_Cons)
qed

lemma be_nat_eq_0_iff: "be_nat bs = 0 \<longleftrightarrow> (\<forall>b\<in>set bs. b = 0)"
  by (induction bs) (auto simp: be_nat_Cons unat_eq_zero)

lemma be_nat_dropWhile [simp]: "be_nat (dropWhile (\<lambda>b. b = 0) bs) = be_nat bs"
  by (induction bs) (auto simp: be_nat_Cons)

lemma be_nat_lower: "bs \<noteq> [] \<Longrightarrow> hd bs \<noteq> 0 \<Longrightarrow> 256 ^ (length bs - 1) \<le> be_nat bs"
  by (cases bs) (auto simp: be_nat_Cons unat_gt_0 Suc_leI intro: trans_le_add1)

text \<open>Without leading zero bytes the byte string is determined by its number.\<close>

lemma be_nat_canonical:
  assumes "be_nat xs = be_nat ys" "xs \<noteq> [] \<longrightarrow> hd xs \<noteq> 0" "ys \<noteq> [] \<longrightarrow> hd ys \<noteq> 0"
  shows "length xs \<le> length ys"
proof (rule ccontr)
  assume "\<not> length xs \<le> length ys"
  then have "xs \<noteq> []" "length ys \<le> length xs - 1" by auto
  then have "(256::nat) ^ length ys \<le> 256 ^ (length xs - 1)" by (intro power_increasing) simp_all
  also have "\<dots> \<le> be_nat xs" using \<open>xs \<noteq> []\<close> assms(2) by (intro be_nat_lower) auto
  finally show False using assms(1) be_nat_bound [of ys] by simp
qed

lemma be_nat_inj: "length xs = length ys \<Longrightarrow> be_nat xs = be_nat ys \<Longrightarrow> xs = ys"
proof (induction xs ys rule: list_induct2)
  case Nil
  then show ?case by simp
next
  case (Cons x xs y ys)
  let ?k = "256 ^ length ys :: nat"
  have bx: "be_nat xs < ?k" and by': "be_nat ys < ?k"
    using be_nat_bound [of xs] be_nat_bound [of ys] Cons.hyps by simp_all
  have eq: "unat x * ?k + be_nat xs = unat y * ?k + be_nat ys"
    using Cons.prems Cons.hyps by (simp add: be_nat_Cons)
  then have "(unat x * ?k + be_nat xs) div ?k = (unat y * ?k + be_nat ys) div ?k" by simp
  with bx by' have xy: "unat x = unat y" by simp
  with eq have "be_nat xs = be_nat ys" by simp
  with Cons.IH xy show ?case by (simp add: word_unat_eq_iff)
qed

lemma be_nat_unique:
  assumes "be_nat xs = be_nat ys" "xs \<noteq> [] \<longrightarrow> hd xs \<noteq> 0" "ys \<noteq> [] \<longrightarrow> hd ys \<noteq> 0"
  shows "xs = ys"
  by (rule be_nat_inj) (use assms be_nat_canonical [of xs ys] be_nat_canonical [of ys xs] in auto)

lemma push_bit_or_nat: "(y::nat) < 2 ^ k \<Longrightarrow> push_bit k m OR y = m * 2 ^ k + y"
proof -
  assume "y < 2 ^ k"
  then have y: "take_bit k y = y" by (simp add: take_bit_nat_eq_self)
  have "push_bit k m + y = push_bit k m OR y"
    by (rule disjunctive_add) (use y in \<open>metis bit_push_bit_iff bit_take_bit_iff not_le\<close>)
  then show ?thesis by (simp add: push_bit_eq_mult)
qed

text \<open>A word wide enough for all the bytes holds exactly the number they denote.\<close>

lemma unat_be_join:
  "8 * length bs \<le> LENGTH('a) \<Longrightarrow> unat (be_join bs :: 'a::len word) = be_nat bs"
proof (induction bs)
  case Nil
  then show ?case by simp
next
  case (Cons b bs)
  let ?k = "8 * length bs"
  have len: "?k + 8 \<le> LENGTH('a)" using Cons.prems by simp
  have ih: "unat (be_join bs :: 'a word) = be_nat bs" using Cons by simp
  have small: "be_nat bs < 2 ^ ?k" using be_nat_bound [of bs] by (simp add: power_mult)
  have b: "unat (ucast b :: 'a word) = unat b" using len by simp
  have "unat b * 2 ^ ?k < 2 ^ 8 * 2 ^ ?k" using unat_lt_256 [of b] by simp
  also have "\<dots> = 2 ^ (?k + 8)" by (simp add: power_add)
  also have "\<dots> \<le> 2 ^ LENGTH('a)" using len by (intro power_increasing) simp_all
  finally have "push_bit ?k (unat b) < 2 ^ LENGTH('a)" by (simp add: push_bit_eq_mult)
  with b have sh: "unat (push_bit ?k (ucast b) :: 'a word) = push_bit ?k (unat b)"
    by (simp add: unsigned_push_bit_eq take_bit_nat_eq_self)
  have "unat (be_join (b # bs) :: 'a word) = push_bit ?k (unat b) OR be_nat bs"
    by (simp add: be_join_Cons unsigned_or_eq sh ih)
  also have "\<dots> = unat b * 2 ^ ?k + be_nat bs" using small by (rule push_bit_or_nat)
  finally show ?case by (simp add: be_nat_Cons power_mult)
qed

lemma be_octets_be_join:
  assumes "8 * length bs \<le> LENGTH('a)"
  shows "be_octets (length bs) (be_join bs :: 'a::len word) = bs"
proof -
  let ?w = "be_join bs :: 'a word"
  have w: "unat ?w = be_nat bs" using assms by (rule unat_be_join)
  then have "unat ?w < 2 ^ (8 * length bs)" using be_nat_bound [of bs] by (simp add: power_mult)
  then have "be_join (be_octets (length bs) ?w) = ?w"
    by (simp add: be_join_octets take_bit_word_less)
  then have "be_nat (be_octets (length bs) ?w) = be_nat bs"
    using unat_be_join [of "be_octets (length bs) ?w", where 'a = 'a] assms w by simp
  then show ?thesis by (intro be_nat_inj) simp_all
qed

section \<open>Lists\<close>

lemma take_append_exact [simp]: "length xs = n \<Longrightarrow> take n (xs @ ys) = xs"
  by simp

lemma drop_append_exact [simp]: "length xs = n \<Longrightarrow> drop n (xs @ ys) = ys"
  by simp

lemma dropWhile_replicate_append:
  "dropWhile (\<lambda>b. b = z) (replicate n z @ xs) = dropWhile (\<lambda>b. b = z) xs"
  by (induction n) auto

lemma takeWhile_eq_replicate:
  "takeWhile (\<lambda>b. b = z) xs = replicate (length (takeWhile (\<lambda>b. b = z) xs)) z"
  by (induction xs) auto

lemma replicate_dropWhile_zero:
  "replicate (length xs - length (dropWhile (\<lambda>b. b = z) xs)) z @ dropWhile (\<lambda>b. b = z) xs = xs"
proof -
  have "length xs = length (takeWhile (\<lambda>b. b = z) xs) + length (dropWhile (\<lambda>b. b = z) xs)"
    by (metis length_append takeWhile_dropWhile_id)
  then have "replicate (length xs - length (dropWhile (\<lambda>b. b = z) xs)) z = takeWhile (\<lambda>b. b = z) xs"
    by (metis add_diff_cancel_right' takeWhile_eq_replicate)
  then show ?thesis by simp
qed

end
