(* ===== verification/Varint.thy ===== *)
theory Varint
  imports Bm_Prelude
begin

text \<open>
  The varint, varstr and varbytes codec of \<open>src/common/varint.c\<close>: one to nine bytes, multi-byte
  values in big-endian order behind a marker byte.
\<close>

section \<open>Varint\<close>

definition bm_varint_size :: "u64 \<Rightarrow> nat" where
  "bm_varint_size v =
     (if v < 0xfd then 1
      else if v \<le> 0xffff then 3
      else if v \<le> 0xffffffff then 5
      else 9)"

text \<open>The bytes \<open>bm_varint_encode\<close> stores at \<open>out[0 .. bm_varint_size v)\<close>.\<close>

definition varint_octets :: "u64 \<Rightarrow> bytes" where
  "varint_octets v =
     (if v < 0xfd then [byte_at v 0]
      else if v \<le> 0xffff then [0xfd, byte_at v 8, byte_at v 0]
      else if v \<le> 0xffffffff then [0xfe, byte_at v 24, byte_at v 16, byte_at v 8, byte_at v 0]
      else [0xff, byte_at v 56, byte_at v 48, byte_at v 40, byte_at v 32,
            byte_at v 24, byte_at v 16, byte_at v 8, byte_at v 0])"

text \<open>
  The pointer \<open>out\<close> is the memory from that address on (\<open>None\<close> for NULL); the result is that
  memory after the call.
\<close>

definition bm_varint_encode :: "bytes option \<Rightarrow> u64 \<Rightarrow> bytes option" where
  "bm_varint_encode out v =
     (case out of
        None \<Rightarrow> None
      | Some mem \<Rightarrow> Some (varint_octets v @ drop (length (varint_octets v)) mem))"

text \<open>\<open>None\<close> is the return value 0 (nothing is stored in \<open>*value\<close>).\<close>

definition bm_varint_decode :: "bytes \<Rightarrow> (nat \<times> u64) option" where
  "bm_varint_decode data =
     (if length data < 1 then None
      else if data ! 0 < 0xfd then Some (1, ucast (data ! 0))
      else if data ! 0 = 0xfd then
        (if length data < 3 then None
         else Some (3, push_bit 8 (ucast (data ! 1)) OR ucast (data ! 2)))
      else if data ! 0 = 0xfe then
        (if length data < 5 then None
         else Some (5, push_bit 24 (ucast (data ! 1)) OR push_bit 16 (ucast (data ! 2))
                     OR push_bit 8 (ucast (data ! 3)) OR ucast (data ! 4)))
      else
        (if length data < 9 then None
         else Some (9, push_bit 56 (ucast (data ! 1)) OR push_bit 48 (ucast (data ! 2))
                     OR push_bit 40 (ucast (data ! 3)) OR push_bit 32 (ucast (data ! 4))
                     OR push_bit 24 (ucast (data ! 5)) OR push_bit 16 (ucast (data ! 6))
                     OR push_bit 8 (ucast (data ! 7)) OR ucast (data ! 8))))"

section \<open>Varstr and varbytes\<close>

definition bm_varstr_size :: "bytes \<Rightarrow> nat" where
  "bm_varstr_size str = bm_varint_size (of_nat (strlen str)) + strlen str"

definition varstr_octets :: "bytes \<Rightarrow> bytes" where
  "varstr_octets str = varint_octets (of_nat (strlen str)) @ c_str str"

definition bm_varstr_encode :: "bytes option \<Rightarrow> bytes \<Rightarrow> bytes option" where
  "bm_varstr_encode out str =
     (case out of
        None \<Rightarrow> None
      | Some mem \<Rightarrow> Some (varstr_octets str @ drop (length (varstr_octets str)) mem))"

definition bm_varbytes_size :: "nat \<Rightarrow> nat" where
  "bm_varbytes_size len = bm_varint_size (of_nat len) + len"

definition varbytes_octets :: "bytes \<Rightarrow> bytes" where
  "varbytes_octets data =
     varint_octets (of_nat (length data)) @ (if length data > 0 then data else [])"

definition bm_varbytes_encode :: "bytes option \<Rightarrow> bytes \<Rightarrow> bytes option" where
  "bm_varbytes_encode out data =
     (case out of
        None \<Rightarrow> None
      | Some mem \<Rightarrow> Some (varbytes_octets data @ drop (length (varbytes_octets data)) mem))"

section \<open>Lemmas\<close>

lemma length_varint_octets [simp, wire]: "length (varint_octets v) = bm_varint_size v"
  by (simp add: varint_octets_def bm_varint_size_def)

lemma bm_varint_size_bounds: "1 \<le> bm_varint_size v" "bm_varint_size v \<le> 9"
  by (simp_all add: bm_varint_size_def)

lemma varint_octets_not_Nil [simp]: "varint_octets v \<noteq> []"
  by (simp add: varint_octets_def)

lemma u64_le_unat: "v \<le> 0xffff \<Longrightarrow> unat (v::u64) < 2 ^ 16" "v \<le> 0xffffffff \<Longrightarrow> unat (v::u64) < 2 ^ 32"
  "v < 0xfd \<Longrightarrow> unat (v::u64) < 2 ^ 8"
  by (simp_all add: word_le_nat_alt word_less_nat_alt)

lemma take_bit_u64:
  fixes v :: u64
  shows "v \<le> 0xffff \<Longrightarrow> take_bit 16 v = v" "v \<le> 0xffffffff \<Longrightarrow> take_bit 32 v = v"
  by (rule take_bit_word_less, erule u64_le_unat)+

lemma varint_small:
  fixes v :: u64
  assumes "v < 0xfd"
  shows "byte_at v 0 < 0xfd" "ucast (byte_at v 0) = v"
proof -
  show eq: "ucast (byte_at v 0) = v"
    using u64_le_unat(3) [OF assms] by (simp add: byte_join_0 take_bit_word_less)
  have "unat (ucast (byte_at v 0) :: u64) = unat (byte_at v 0)" by simp
  with assms eq show "byte_at v 0 < 0xfd" by (simp add: word_less_nat_alt)
qed

lemma bm_varint_decode_octets [simp, wire]:
  "bm_varint_decode (varint_octets v @ rest) = Some (bm_varint_size v, v)"
proof -
  consider "v < 0xfd" | "\<not> v < 0xfd" "v \<le> 0xffff" | "\<not> v \<le> 0xffff" "\<not> v < 0xfd" "v \<le> 0xffffffff"
    | "\<not> v \<le> 0xffffffff" "\<not> v \<le> 0xffff" "\<not> v < 0xfd"
    by (metis linorder_not_le order_less_le_trans order_le_less_trans order_less_imp_le
        word_le_nat_alt)
  then show ?thesis
  proof cases
    case 1
    then show ?thesis
      by (simp add: varint_octets_def bm_varint_decode_def bm_varint_size_def varint_small)
  next
    case 2
    then show ?thesis
      by (simp add: varint_octets_def bm_varint_decode_def bm_varint_size_def byte_join_0 byte_join
          take_bit_u64)
  next
    case 3
    then show ?thesis
      by (simp add: varint_octets_def bm_varint_decode_def bm_varint_size_def byte_join_0 byte_join
          take_bit_u64)
  next
    case 4
    then show ?thesis
      by (simp add: varint_octets_def bm_varint_decode_def bm_varint_size_def byte_join_0 byte_join
          take_bit_word_eq_self)
  qed
qed

lemma bm_varint_decode_take:
  assumes "bm_varint_decode data = Some (n, v)"
  shows "n \<in> {1, 3, 5, 9}" "n \<le> length data"
  using assms by (auto simp: bm_varint_decode_def Suc_le_eq split: if_splits)

lemma take_Cons_nth:
  "3 \<le> length xs \<Longrightarrow> take 3 xs = [xs ! 0, xs ! 1, xs ! 2]"
  "5 \<le> length xs \<Longrightarrow> take 5 xs = [xs ! 0, xs ! 1, xs ! 2, xs ! 3, xs ! 4]"
  "9 \<le> length xs \<Longrightarrow> take 9 xs = [xs ! 0, xs ! 1, xs ! 2, xs ! 3, xs ! 4, xs ! 5, xs ! 6, xs ! 7, xs ! 8]"
  by (simp_all add: list_eq_iff_nth_eq nth_Cons less_Suc_eq numeral_eq_Suc split: nat.splits)

text \<open>The decoder in terms of \<open>be_join\<close>: a marker byte selects how many bytes follow.\<close>

lemma bm_varint_decode_cases:
  assumes "bm_varint_decode data = Some (n, v)"
  shows "(n = 1 \<and> data ! 0 < 0xfd \<and> take n data = [data ! 0] \<and> v = ucast (data ! 0)) \<or>
    (\<exists>m bs. take n data = m # bs \<and> v = be_join bs \<and> n = Suc (length bs) \<and>
       (m, length bs) \<in> {(0xfd, 2), (0xfe, 4), (0xff, 8)})"
proof -
  have ff: "b = 0xff" if "\<not> b < 0xfd" "b \<noteq> 0xfd" "b \<noteq> 0xfe" for b :: byte
    using that unat_lt_256 [of b] unfolding word_less_nat_alt word_unat_eq_iff
    by (simp del: unat_lt_256)
  from assms show ?thesis
    by (auto simp: bm_varint_decode_def take_Cons_nth be_join_Cons take_Suc_conv_app_nth ff
        split: if_splits)
qed

lemma bm_varint_decode_local:
  assumes "bm_varint_decode data = Some (n, v)" "n \<le> length xs" "\<And>i. i < n \<Longrightarrow> xs ! i = data ! i"
  shows "bm_varint_decode xs = Some (n, v)"
proof -
  consider "n = 1" "1 \<le> length data" | "n = 3" "3 \<le> length data" | "n = 5" "5 \<le> length data"
    | "n = 9" "9 \<le> length data"
    using bm_varint_decode_take [OF assms(1)] by auto
  moreover from this assms(2) have "xs \<noteq> []" by cases auto
  ultimately show ?thesis
    using assms by cases (auto simp: bm_varint_decode_def split: if_split_asm)
qed

lemma bm_varint_decode_prefix:
  assumes "bm_varint_decode data = Some (n, v)"
  shows "bm_varint_decode (take n data @ rest) = Some (n, v)"
  using assms
  by (rule bm_varint_decode_local)
    (use bm_varint_decode_take(2) [OF assms] in \<open>simp_all add: nth_append\<close>)

lemma bm_varint_size_le:
  "v < 0xfd \<Longrightarrow> bm_varint_size v = 1"
  "unat v < 2 ^ 16 \<Longrightarrow> bm_varint_size v \<le> 3"
  "unat v < 2 ^ 32 \<Longrightarrow> bm_varint_size v \<le> 5"
  by (simp_all add: bm_varint_size_def word_le_nat_alt)

lemma varint_octets_3: "bm_varint_size v = 3 \<Longrightarrow> varint_octets v = 0xfd # be_octets 2 v"
  and varint_octets_5: "bm_varint_size v = 5 \<Longrightarrow> varint_octets v = 0xfe # be_octets 4 v"
  and varint_octets_9: "bm_varint_size v = 9 \<Longrightarrow> varint_octets v = 0xff # be_octets 8 v"
  by (auto simp: bm_varint_size_def varint_octets_def numeral_eq_Suc split: if_splits)

lemmas varint_octets_be = varint_octets_3 varint_octets_5 varint_octets_9

text \<open>A successful decode never reads a shorter form than the canonical one.\<close>

lemma bm_varint_decode_size:
  assumes "bm_varint_decode data = Some (n, v)"
  shows "bm_varint_size v \<le> n" "n = bm_varint_size v \<Longrightarrow> take n data = varint_octets v"
proof -
  consider "n = 1" "data ! 0 < 0xfd" "take n data = [data ! 0]" "v = ucast (data ! 0)"
    | m bs where "take n data = m # bs" "v = be_join bs" "n = Suc (length bs)"
        "(m, length bs) \<in> {(0xfd, 2), (0xfe, 4), (0xff, 8)}"
    using bm_varint_decode_cases [OF assms] by blast
  then have "bm_varint_size v \<le> n \<and> (n = bm_varint_size v \<longrightarrow> take n data = varint_octets v)"
  proof cases
    case 1
    then have "v < 0xfd" by (simp add: word_less_nat_alt)
    moreover have "byte_at (ucast b :: u64) 0 = b" for b :: byte
      by (rule bit_word_eqI) (auto simp: bit_byte_at bit_simps)
    ultimately show ?thesis using 1 by (simp add: bm_varint_size_le varint_octets_def)
  next
    case 2
    have "unat v < 2 ^ (8 * length bs)"
      using 2(2,4) unat_be_join [of bs, where 'a = 64] be_nat_bound [of bs]
      by (auto simp: power_mult)
    moreover have "be_octets (length bs) v = bs"
      using 2(2,4) be_octets_be_join [of bs, where 'a = 64] by auto
    ultimately show ?thesis
      using 2 bm_varint_size_le [of v] bm_varint_size_bounds(2) [of v]
      by (auto simp: varint_octets_be)
  qed
  then show "bm_varint_size v \<le> n" "n = bm_varint_size v \<Longrightarrow> take n data = varint_octets v"
    by blast+
qed

section \<open>Properties\<close>

text \<open>
  Storing a value with \<open>bm_varint_encode\<close> in memory and reading it back with
  \<open>bm_varint_decode\<close> gives the value and the length that \<open>bm_varint_size\<close> announces, whatever
  follows, and the memory behind those bytes is untouched; a NULL destination stores nothing.
\<close>

theorem varint_roundtrip:
  "bm_varint_encode None v = None \<and>
   (\<exists>mem'. bm_varint_encode (Some mem) v = Some mem' \<and>
      bm_varint_decode mem' = Some (bm_varint_size v, v) \<and>
      drop (bm_varint_size v) mem' = drop (bm_varint_size v) mem)"
  by (simp add: bm_varint_encode_def)

text \<open>
  when \<open>bm_varint_decode\<close> succeeds it consumes 1, 3, 5 or 9 bytes that are all present, never
  fewer than the canonical form of the value has, depends on no byte behind them, and the form read
  is the encoder's exactly when it is no longer than canonical (longer forms are accepted).
\<close>

theorem varint_decode_sound:
  assumes "bm_varint_decode data = Some (n, v)"
  shows "n \<in> {1, 3, 5, 9} \<and> n \<le> length data \<and> bm_varint_size v \<le> n \<and>
    bm_varint_decode (take n data @ rest) = Some (n, v) \<and>
    (take n data = varint_octets v \<longleftrightarrow> n = bm_varint_size v)"
proof -
  have "n = bm_varint_size v" if "take n data = varint_octets v"
    using arg_cong [OF that, of length] bm_varint_decode_take(2) [OF assms] by simp
  then show ?thesis
    using bm_varint_decode_take [OF assms] bm_varint_decode_size [OF assms]
      bm_varint_decode_prefix [OF assms] by blast
qed

theorem varint_decode_sound_witness:
  "bm_varint_decode [0xfd, 0, 5] = Some (3, 5) \<and> bm_varint_size 5 \<le> 3 \<and>
   take 3 [0xfd, 0, 5] \<noteq> varint_octets 5"
proof -
  have dec: "bm_varint_decode [0xfd, 0, 5] = Some (3, 5)" by (simp add: bm_varint_decode_def)
  show ?thesis
    using dec varint_decode_sound [OF dec] by (simp add: bm_varint_size_def)
qed

end
