(* ===== verification/Hashing.thy ===== *)
theory Hashing
  imports Bm_Prelude
begin

text \<open>
  The OpenSSL primitives the program calls, as a record of functions that every definition using
  them takes as an argument, with what OpenSSL documents of them as the predicate \<open>openssl_ok\<close>;
  and the digest helpers of \<open>src/common/hash.c\<close> on top of them.
\<close>

section \<open>The OpenSSL interface\<close>

text \<open>
  \<^item> \<open>EVP_SHA256\<close>, \<open>EVP_SHA512\<close>, \<open>EVP_RIPEMD160\<close>: \<open>EVP_Digest\<close> with that algorithm;
  \<^item> \<open>HMAC_SHA256 key data\<close>: \<open>HMAC(EVP_sha256(), \<dots>)\<close>;
  \<^item> \<open>EC_mul_G priv\<close>: \<open>BN_bin2bn\<close>, \<open>EC_POINT_mul\<close> of the secp256k1 base point and
    \<open>EC_POINT_point2oct\<close> uncompressed, \<open>None\<close> when a call fails;
  \<^item> \<open>EC_mul_x priv pub\<close>: \<open>EC_POINT_oct2point\<close>, \<open>EC_POINT_mul\<close>, the affine x coordinate and
    \<open>BN_bn2binpad\<close> to 32 bytes, \<open>None\<close> when a call fails;
  \<^item> \<open>AES_encrypt key iv data\<close>, \<open>AES_decrypt key iv data\<close>: the \<open>EVP_aes_256_cbc\<close> sequences;
  \<^item> \<open>EC_KEY_priv_ok\<close>, \<open>EC_KEY_pub_ok\<close>: \<open>EC_KEY_set_private_key\<close> and \<open>o2i_ECPublicKey\<close>
    accept the bytes;
  \<^item> \<open>ECDSA_sign priv pub digest\<close>, \<open>ECDSA_verify pub digest sig\<close>.
\<close>

record openssl =
  EVP_SHA256 :: "bytes \<Rightarrow> bytes"
  EVP_SHA512 :: "bytes \<Rightarrow> bytes"
  EVP_RIPEMD160 :: "bytes \<Rightarrow> bytes"
  HMAC_SHA256 :: "bytes \<Rightarrow> bytes \<Rightarrow> bytes"
  EC_mul_G :: "bytes \<Rightarrow> bytes option"
  EC_mul_x :: "bytes \<Rightarrow> bytes \<Rightarrow> bytes option"
  AES_encrypt :: "bytes \<Rightarrow> bytes \<Rightarrow> bytes \<Rightarrow> bytes option"
  AES_decrypt :: "bytes \<Rightarrow> bytes \<Rightarrow> bytes \<Rightarrow> bytes option"
  EC_KEY_priv_ok :: "bytes \<Rightarrow> bool"
  EC_KEY_pub_ok :: "bytes \<Rightarrow> bool"
  ECDSA_sign :: "bytes \<Rightarrow> bytes \<Rightarrow> bytes \<Rightarrow> bytes option"
  ECDSA_verify :: "bytes \<Rightarrow> bytes \<Rightarrow> bytes \<Rightarrow> bool"

text \<open>The output sizes of the digests.\<close>

definition digests_ok :: "openssl \<Rightarrow> bool" where
  "digests_ok ssl \<longleftrightarrow>
     (\<forall>d. length (EVP_SHA256 ssl d) = 32) \<and> (\<forall>d. length (EVP_SHA512 ssl d) = 64) \<and>
     (\<forall>d. length (EVP_RIPEMD160 ssl d) = 20) \<and> (\<forall>k d. length (HMAC_SHA256 ssl k d) = 32)"

text \<open>
  Uncompressed points start with the byte 4; x coordinates have 32 bytes; Diffie-Hellman commutes;
  CBC decryption with the key and the initialisation vector of the encryption inverts it, and
  padding adds at most one block of 16 bytes; a signature made with a key pair verifies with its public
  key and has at most 72 bytes (\<open>ECDSA_size\<close> of the curve).
\<close>

definition openssl_ok :: "openssl \<Rightarrow> bool" where
  "openssl_ok ssl \<longleftrightarrow>
     digests_ok ssl \<and>
     (\<forall>a A. EC_mul_G ssl a = Some A \<longrightarrow> length A = 65 \<longrightarrow> A ! 0 = 4) \<and>
     (\<forall>a A x. EC_mul_x ssl a A = Some x \<longrightarrow> length x = 32) \<and>
     (\<forall>a b A B. EC_mul_G ssl a = Some A \<longrightarrow> length A = 65 \<longrightarrow>
        EC_mul_G ssl b = Some B \<longrightarrow> length B = 65 \<longrightarrow> EC_mul_x ssl a B = EC_mul_x ssl b A) \<and>
     (\<forall>k iv d c. AES_encrypt ssl k iv d = Some c \<longrightarrow>
        AES_decrypt ssl k iv c = Some d \<and> length c \<le> length d + 16) \<and>
     (\<forall>a A d s. EC_mul_G ssl a = Some A \<longrightarrow> length A = 65 \<longrightarrow> EC_KEY_pub_ok ssl A \<longrightarrow>
        ECDSA_sign ssl a A d = Some s \<longrightarrow> ECDSA_verify ssl A d s) \<and>
     (\<forall>a A d s. ECDSA_sign ssl a A d = Some s \<longrightarrow> length s \<le> 72)"

text \<open>The first bytes of the SHA-512 digest of the empty message (FIPS 180-4 test vector).\<close>

definition sha512_empty_ok :: "openssl \<Rightarrow> bool" where
  "sha512_empty_ok ssl \<longleftrightarrow> take 4 (EVP_SHA512 ssl []) = [0xcf, 0x83, 0xe1, 0x35]"

section \<open>hash.c\<close>

definition bm_sha256 :: "openssl \<Rightarrow> bytes \<Rightarrow> bytes" where
  "bm_sha256 ssl data = EVP_SHA256 ssl data"

definition bm_sha512 :: "openssl \<Rightarrow> bytes \<Rightarrow> bytes" where
  "bm_sha512 ssl data = EVP_SHA512 ssl data"

definition bm_double_sha256 :: "openssl \<Rightarrow> bytes \<Rightarrow> bytes" where
  "bm_double_sha256 ssl data = bm_sha256 ssl (bm_sha256 ssl data)"

definition bm_double_sha512 :: "openssl \<Rightarrow> bytes \<Rightarrow> bytes" where
  "bm_double_sha512 ssl data = bm_sha512 ssl (bm_sha512 ssl data)"

definition bm_ripemd160 :: "openssl \<Rightarrow> bytes \<Rightarrow> bytes" where
  "bm_ripemd160 ssl data = EVP_RIPEMD160 ssl data"

definition bm_inventory_hash :: "openssl \<Rightarrow> bytes \<Rightarrow> bytes" where
  "bm_inventory_hash ssl payload = take 32 (bm_double_sha512 ssl payload)"

definition bm_hmac_sha256 :: "openssl \<Rightarrow> bytes \<Rightarrow> bytes \<Rightarrow> bytes" where
  "bm_hmac_sha256 ssl key data = HMAC_SHA256 ssl key data"

section \<open>Lemmas\<close>

lemma openssl_ok_digests: "openssl_ok ssl \<Longrightarrow> digests_ok ssl"
  by (simp add: openssl_ok_def)

text \<open>The laws one by one; the commutation law is never a rewrite rule.\<close>

lemma openssl_point:
  "openssl_ok ssl \<Longrightarrow> EC_mul_G ssl a = Some A \<Longrightarrow> length A = 65 \<Longrightarrow> A ! 0 = 4"
  unfolding openssl_ok_def by (elim conjE) metis

lemma openssl_ecdh:
  "openssl_ok ssl \<Longrightarrow> EC_mul_G ssl a = Some A \<Longrightarrow> length A = 65 \<Longrightarrow>
    EC_mul_G ssl b = Some B \<Longrightarrow> length B = 65 \<Longrightarrow> EC_mul_x ssl a B = EC_mul_x ssl b A"
  unfolding openssl_ok_def by (elim conjE) metis

lemma openssl_aes:
  "openssl_ok ssl \<Longrightarrow> AES_encrypt ssl k iv d = Some c \<Longrightarrow>
    AES_decrypt ssl k iv c = Some d \<and> length c \<le> length d + 16"
  unfolding openssl_ok_def by (elim conjE) metis

lemma openssl_ecdsa:
  "openssl_ok ssl \<Longrightarrow> EC_mul_G ssl a = Some A \<Longrightarrow> length A = 65 \<Longrightarrow> EC_KEY_pub_ok ssl A \<Longrightarrow>
    ECDSA_sign ssl a A d = Some s \<Longrightarrow> ECDSA_verify ssl A d s"
  unfolding openssl_ok_def by (elim conjE) metis

lemma openssl_sig_len: "openssl_ok ssl \<Longrightarrow> ECDSA_sign ssl a A d = Some s \<Longrightarrow> length s \<le> 72"
  unfolding openssl_ok_def by (elim conjE) metis

lemma digest_lengths [simp, wire]:
  assumes "digests_ok ssl"
  shows "length (bm_sha256 ssl d) = 32" "length (bm_sha512 ssl d) = 64"
    "length (bm_double_sha256 ssl d) = 32" "length (bm_double_sha512 ssl d) = 64"
    "length (bm_ripemd160 ssl d) = 20" "length (bm_inventory_hash ssl d) = 32"
    "length (bm_hmac_sha256 ssl k d) = 32"
  using assms
  by (simp_all add: digests_ok_def bm_sha256_def bm_sha512_def bm_double_sha256_def
      bm_double_sha512_def bm_ripemd160_def bm_inventory_hash_def bm_hmac_sha256_def)

section \<open>An instance that satisfies the contract\<close>

text \<open>
  Constant digests, the identity as cipher and a key agreement with one shared value: weak, but all
  the documented laws hold, so theorems that assume them are not vacuous.
\<close>

definition pad_to :: "nat \<Rightarrow> bytes \<Rightarrow> bytes" where
  "pad_to n d = take n (d @ replicate n 0)"

definition plain_ssl :: openssl where
  "plain_ssl = \<lparr>EVP_SHA256 = pad_to 32,
     EVP_SHA512 = (\<lambda>d. if d = [] then pad_to 64 [0xcf, 0x83, 0xe1, 0x35] else pad_to 64 d),
     EVP_RIPEMD160 = pad_to 20,
     HMAC_SHA256 = (\<lambda>k d. pad_to 32 d), EC_mul_G = (\<lambda>a. Some (4 # pad_to 64 a)),
     EC_mul_x = (\<lambda>a A. Some (replicate 32 7)), AES_encrypt = (\<lambda>k iv d. Some d),
     AES_decrypt = (\<lambda>k iv c. Some c), EC_KEY_priv_ok = (\<lambda>_. True), EC_KEY_pub_ok = (\<lambda>_. True),
     ECDSA_sign = (\<lambda>a A d. Some (take 8 d)), ECDSA_verify = (\<lambda>A d s. s = take 8 d)\<rparr>"

lemma length_pad_to [simp]: "length (pad_to n d) = n"
  by (simp add: pad_to_def)

lemma plain_ssl_ok: "openssl_ok plain_ssl"
  by (simp add: openssl_ok_def digests_ok_def plain_ssl_def min.coboundedI2)

lemma plain_ssl_sha512_empty: "sha512_empty_ok plain_ssl"
  by (simp add: sha512_empty_ok_def plain_ssl_def pad_to_def)

end
