(* ===== verification/Protocol.thy ===== *)
theory Protocol
  imports Varint Hashing
begin

text \<open>
  \<open>src/infra/protocol.c\<close>: the packet framing of the peer-to-peer protocol and the payloads of its
  \<open>version\<close>, \<open>addr\<close>, \<open>inv\<close>/\<open>getdata\<close>/\<open>dinv\<close> and \<open>error\<close> commands.

  Parsers that the source runs without a bounds check on data of the peer end in \<open>Fault\<close> when they
  read past the payload or write past an allocation. \<open>mem\<close> says which \<open>malloc\<close> sizes succeed where
  the peer chooses the size.
\<close>

abbreviation BM_MESSAGE_HEADER_SIZE :: nat where "BM_MESSAGE_HEADER_SIZE \<equiv> 24"
abbreviation BM_MAX_MESSAGE_LENGTH :: u32 where "BM_MAX_MESSAGE_LENGTH \<equiv> 4194304"
abbreviation BM_SERVICE_NODE_DANDELION :: u64 where "BM_SERVICE_NODE_DANDELION \<equiv> 8"

section \<open>Network selection\<close>

record protocol_globals =
  bm_magicbytes :: bytes
  g_is_testnet :: bool

definition MAGIC_MAINNET :: bytes where
  "MAGIC_MAINNET = [0xe9, 0xbe, 0xb4, 0xd9]"

definition MAGIC_TESTNET :: bytes where
  "MAGIC_TESTNET = [0xfb, 0x11, 0x09, 0x07]"

definition protocol_init :: protocol_globals where
  "protocol_init = \<lparr>bm_magicbytes = MAGIC_MAINNET, g_is_testnet = False\<rparr>"

definition bm_empty_payload_checksum :: bytes where
  "bm_empty_payload_checksum = [0xcf, 0x83, 0xe1, 0x35]"

definition bm_protocol_set_testnet :: "bool \<Rightarrow> protocol_globals \<Rightarrow> protocol_globals" where
  "bm_protocol_set_testnet enabled g =
     g\<lparr>g_is_testnet := enabled, bm_magicbytes := (if enabled then MAGIC_TESTNET else MAGIC_MAINNET)\<rparr>"

definition bm_protocol_is_testnet :: "protocol_globals \<Rightarrow> bool" where
  "bm_protocol_is_testnet g = g_is_testnet g"

section \<open>Packets\<close>

definition read_be32 :: "bytes \<Rightarrow> u32" where
  "read_be32 p = be_join (take 4 p)"

definition read_be64 :: "bytes \<Rightarrow> u64" where
  "read_be64 p = be_join (take 8 p)"

record bm_message =
  msg_command :: bytes
  msg_length :: u32
  msg_checksum :: u32
  msg_payload :: "bytes option"

text \<open>The results carry what the call stores in \<open>*out_msg\<close> and \<open>*out_consumed\<close>.\<close>

datatype bm_parse_result =
  BM_PARSE_OK bm_message nat
| BM_PARSE_INCOMPLETE
| BM_PARSE_BAD_CHECKSUM nat
| BM_PARSE_BAD_MAGIC nat
| BM_PARSE_MESSAGE_TOO_LARGE

definition bm_parse_message :: "protocol_globals \<Rightarrow> openssl \<Rightarrow> bytes \<Rightarrow> bm_parse_result" where
  "bm_parse_message g ssl data =
     (if length data < BM_MESSAGE_HEADER_SIZE then BM_PARSE_INCOMPLETE
      else if take 4 data \<noteq> bm_magicbytes g then BM_PARSE_BAD_MAGIC 1
      else
        let len = read_be32 (drop 16 data)
        in if BM_MAX_MESSAGE_LENGTH < len then BM_PARSE_MESSAGE_TOO_LARGE
           else
             let total = BM_MESSAGE_HEADER_SIZE + unat len
             in if length data < total then BM_PARSE_INCOMPLETE
                else
                  let body = take (unat len) (drop BM_MESSAGE_HEADER_SIZE data)
                  in if take 4 (bm_sha512 ssl body) \<noteq> take 4 (drop 20 data) then BM_PARSE_BAD_CHECKSUM total
                     else BM_PARSE_OK
                       \<lparr>msg_command = take 12 (drop 4 data), msg_length = len,
                         msg_checksum = read_be32 (drop 20 data),
                         msg_payload = (if 0 < len then Some body else None)\<rparr> total)"

text \<open>The \<open>command\<close> array of a packet: at most 12 bytes of the name, zero-filled.\<close>

definition command_field :: "bytes \<Rightarrow> bytes" where
  "command_field cmd =
     (let cmd_len = min (strlen cmd) 12 in take cmd_len cmd @ replicate (12 - cmd_len) 0)"

definition bm_create_packet :: "protocol_globals \<Rightarrow> openssl \<Rightarrow> bytes \<Rightarrow> bytes \<Rightarrow> bytes" where
  "bm_create_packet g ssl cmd body =
     bm_magicbytes g @ command_field cmd @ be32 (word_of_nat (length body)) @
     (if 0 < length body then take 4 (bm_sha512 ssl body) @ body else bm_empty_payload_checksum)"

section \<open>Network addresses\<close>

datatype sockaddr = AF_INET bytes bytes | AF_INET6 bytes bytes | AF_OTHER

text \<open>\<open>memcpy(mem + off, src, length src)\<close> inside a buffer of fixed size.\<close>

definition memcpy :: "bytes \<Rightarrow> nat \<Rightarrow> bytes \<Rightarrow> bytes" where
  "memcpy mem off src = take off mem @ src @ drop (off + length src) mem"

definition bm_encode_time_and_stream :: "u64 \<Rightarrow> u32 \<Rightarrow> bytes" where
  "bm_encode_time_and_stream time_val stream = be64 time_val @ be32 stream"

definition bm_encode_network_address :: "sockaddr \<Rightarrow> bytes" where
  "bm_encode_network_address local_addr =
     (let addr = replicate 26 0
      in case local_addr of
           AF_INET sin_addr sin_port \<Rightarrow>
             memcpy (memcpy (addr[10 := 0xff, 11 := 0xff]) 12 sin_addr) 24 sin_port
         | AF_INET6 sin6_addr sin6_port \<Rightarrow> memcpy (memcpy addr 8 sin6_addr) 24 sin6_port
         | AF_OTHER \<Rightarrow> addr)"

definition bm_unspecified_ipv4_address :: sockaddr where
  "bm_unspecified_ipv4_address = AF_INET (replicate 4 0) (replicate 2 0)"

section \<open>version\<close>

record bm_version_message =
  vm_version :: u32
  vm_services :: u64
  vm_timestamp :: u64
  vm_addr_recv :: bytes
  vm_addr_from :: bytes
  vm_nonce :: u64
  vm_user_agent :: bytes
  vm_stream_numbers :: "u64 list"

text \<open>The next \<open>n\<close> bytes of what is left of the payload.\<close>

definition read_bytes :: "nat \<Rightarrow> bytes \<Rightarrow> (bytes \<times> bytes) outcome" where
  "read_bytes n rest = (if length rest < n then Fault else Done (take n rest, drop n rest))"

text \<open>\<open>bm_varint_decode\<close> with the value preset to 0: nothing is consumed when it fails.\<close>

definition varint_or_zero :: "bytes \<Rightarrow> u64 \<times> bytes" where
  "varint_or_zero rest =
     (case bm_varint_decode rest of None \<Rightarrow> (0, rest) | Some (consumed, v) \<Rightarrow> (v, drop consumed rest))"

text \<open>
  The bytes \<open>malloc(size * count)\<close> provides, in elements: the product wraps at 64 bits, and a
  failed call provides none.
\<close>

definition array_room :: "(u64 \<Rightarrow> bool) \<Rightarrow> u64 \<Rightarrow> u64 \<Rightarrow> nat" where
  "array_room mem elem_size count =
     (if mem (elem_size * count) then unat (elem_size * count) div unat elem_size else 0)"

fun version_streams :: "nat \<Rightarrow> nat \<Rightarrow> bytes \<Rightarrow> u64 list outcome" where
  "version_streams room 0 rest = Done []"
| "version_streams room (Suc n) rest =
     (case room of
        0 \<Rightarrow> Fault
      | Suc room' \<Rightarrow>
          let (v, rest') = varint_or_zero rest
          in bind_outcome (version_streams room' n rest') (\<lambda>vs. Done (v # vs)))"

definition bm_parse_version_message :: "(u64 \<Rightarrow> bool) \<Rightarrow> bytes \<Rightarrow> bm_version_message outcome" where
  "bm_parse_version_message mem body =
     bind_outcome (read_bytes 80 body) (\<lambda>(fixed, rest).
       let (ua_len, rest1) = varint_or_zero rest
       in bind_outcome (read_bytes (unat ua_len) rest1) (\<lambda>(ua, rest2).
            let (stream_count, rest3) = varint_or_zero rest2
            in bind_outcome (version_streams (array_room mem 8 stream_count) (unat stream_count) rest3)
                 (\<lambda>streams. Done
                    \<lparr>vm_version = read_be32 fixed, vm_services = read_be64 (drop 4 fixed),
                      vm_timestamp = read_be64 (drop 12 fixed), vm_addr_recv = take 26 (drop 20 fixed),
                      vm_addr_from = take 26 (drop 46 fixed), vm_nonce = read_be64 (drop 72 fixed),
                      vm_user_agent = ua, vm_stream_numbers = streams\<rparr>)))"

definition bm_version_payload_size :: "bytes \<Rightarrow> nat" where
  "bm_version_payload_size ua = 80 + bm_varstr_size ua + 2"

definition bm_version_message_size :: "bytes \<Rightarrow> nat" where
  "bm_version_message_size ua = BM_MESSAGE_HEADER_SIZE + bm_version_payload_size ua"

text \<open>\<open>now\<close> is \<open>time(NULL)\<close>; \<open>rnd\<close> the eight bytes of \<open>getrandom\<close>, \<open>None\<close> when it fails.\<close>

definition bm_create_version_payload ::
  "u64 \<Rightarrow> u64 option \<Rightarrow> bytes \<Rightarrow> u32 \<Rightarrow> sockaddr \<Rightarrow> sockaddr \<Rightarrow> bytes" where
  "bm_create_version_payload now rnd ua ver peer_addr local_addr =
     be32 ver @ be64 BM_SERVICE_NODE_DANDELION @ be64 now @
     bm_encode_network_address peer_addr @ bm_encode_network_address local_addr @
     be64 (case rnd of None \<Rightarrow> 0 | Some r \<Rightarrow> r) @ varstr_octets ua @ [1, 1]"

definition bm_new_version_message ::
  "protocol_globals \<Rightarrow> openssl \<Rightarrow> u64 \<Rightarrow> u64 option \<Rightarrow> bytes \<Rightarrow> u32 \<Rightarrow> sockaddr \<Rightarrow> sockaddr \<Rightarrow> bytes" where
  "bm_new_version_message g ssl now rnd ua ver peer_addr local_addr =
     (let body = bm_create_version_payload now rnd ua ver peer_addr local_addr
      in bm_magicbytes g @ lit ''version'' @ replicate 5 0 @
         be32 (word_of_nat (bm_version_payload_size ua)) @ take 4 (bm_sha512 ssl body) @ body)"

section \<open>addr\<close>

record bm_address_info =
  ai_time :: u64
  ai_stream :: u32
  ai_services :: u64
  ai_ip :: bytes
  ai_port :: u16

definition address_info_of :: "bytes \<Rightarrow> bm_address_info" where
  "address_info_of p =
     \<lparr>ai_time = read_be64 p, ai_stream = read_be32 (drop 8 p), ai_services = read_be64 (drop 12 p),
       ai_ip = take 16 (drop 20 p), ai_port = be_join (take 2 (drop 36 p))\<rparr>"

fun parse_addr_loop :: "nat \<Rightarrow> nat \<Rightarrow> bytes \<Rightarrow> bm_address_info list option outcome" where
  "parse_addr_loop room 0 rest = Done (Some [])"
| "parse_addr_loop room (Suc n) rest =
     (if length rest < 38 then Done None
      else case room of
        0 \<Rightarrow> Fault
      | Suc room' \<Rightarrow>
          bind_outcome (parse_addr_loop room' n (drop 38 rest))
            (\<lambda>r. Done (map_option ((#) (address_info_of rest)) r)))"

text \<open>\<open>sizeof(struct bm_address_info)\<close> is 48.\<close>

definition bm_parse_addr_message :: "(u64 \<Rightarrow> bool) \<Rightarrow> bytes \<Rightarrow> bm_address_info list option outcome" where
  "bm_parse_addr_message mem body =
     (case bm_varint_decode body of
        None \<Rightarrow> Done None
      | Some (consumed, count) \<Rightarrow>
          parse_addr_loop (array_room mem 48 count) (unat count) (drop consumed body))"

definition address_info_octets :: "bm_address_info \<Rightarrow> bytes" where
  "address_info_octets a =
     be64 (ai_time a) @ be32 (ai_stream a) @ be64 (ai_services a) @ ai_ip a @ be16 (ai_port a)"

definition addr_payload :: "bm_address_info list \<Rightarrow> bytes" where
  "addr_payload addresses =
     varint_octets (word_of_nat (length addresses)) @ concat (map address_info_octets addresses)"

definition bm_create_addr_message ::
  "protocol_globals \<Rightarrow> openssl \<Rightarrow> bm_address_info list \<Rightarrow> bytes option" where
  "bm_create_addr_message g ssl addresses =
     (if addresses = [] then None
      else Some (bm_create_packet g ssl (lit ''addr'') (addr_payload addresses)))"

section \<open>inv, getdata and dinv\<close>

fun inventory_items :: "nat \<Rightarrow> bytes \<Rightarrow> bytes list" where
  "inventory_items 0 rest = []"
| "inventory_items (Suc n) rest = take 32 rest # inventory_items n (drop 32 rest)"

definition bm_parse_inventory_message :: "bytes \<Rightarrow> bytes list option" where
  "bm_parse_inventory_message body =
     (case bm_varint_decode body of
        None \<Rightarrow> None
      | Some (offset, declared_count) \<Rightarrow>
          if (length body - offset) mod 32 \<noteq> 0 then None
          else Some (inventory_items ((length body - offset) div 32) (drop offset body)))"

definition inventory_payload :: "bytes list \<Rightarrow> bytes" where
  "inventory_payload hashes = varint_octets (word_of_nat (length hashes)) @ concat hashes"

definition bm_create_inventory_message ::
  "protocol_globals \<Rightarrow> openssl \<Rightarrow> bytes \<Rightarrow> bytes list \<Rightarrow> bytes" where
  "bm_create_inventory_message g ssl cmd hashes = bm_create_packet g ssl cmd (inventory_payload hashes)"

section \<open>error\<close>

definition error_payload :: "u64 \<Rightarrow> u64 \<Rightarrow> bytes \<Rightarrow> bytes" where
  "error_payload fatal ban_time error_text =
     varint_octets fatal @ varint_octets ban_time @ varint_octets 0 @
     varint_octets (word_of_nat (strlen error_text)) @ c_str error_text"

definition bm_create_error_message :: "protocol_globals \<Rightarrow> openssl \<Rightarrow> u64 \<Rightarrow> u64 \<Rightarrow> bytes \<Rightarrow> bytes" where
  "bm_create_error_message g ssl fatal ban_time error_text =
     bm_create_packet g ssl (lit ''error'') (error_payload fatal ban_time error_text)"

section \<open>Lemmas: packets\<close>

text \<open>The globals only ever hold one of the two magic values.\<close>

definition protocol_ok :: "protocol_globals \<Rightarrow> bool" where
  "protocol_ok g \<longleftrightarrow> bm_magicbytes g = (if g_is_testnet g then MAGIC_TESTNET else MAGIC_MAINNET)"

lemma protocol_ok_init [simp]: "protocol_ok protocol_init"
  by (simp add: protocol_ok_def protocol_init_def)

lemma protocol_ok_set_testnet [simp]: "protocol_ok (bm_protocol_set_testnet b g)"
  by (simp add: protocol_ok_def bm_protocol_set_testnet_def)

lemma length_magic [simp, wire]: "protocol_ok g \<Longrightarrow> length (bm_magicbytes g) = 4"
  by (simp add: protocol_ok_def MAGIC_TESTNET_def MAGIC_MAINNET_def)

lemma length_command_field [simp, wire]: "length (command_field cmd) = 12"
proof -
  have "strlen cmd \<le> length cmd" by (simp add: strlen_def c_str_def length_takeWhile_le)
  then show ?thesis by (simp add: command_field_def Let_def)
qed

lemma length_empty_checksum [simp, wire]: "length bm_empty_payload_checksum = 4"
  by (simp add: bm_empty_payload_checksum_def)

lemma read_be_append [simp, wire]:
  "read_be32 (be32 v @ rest) = v" "read_be64 (be64 w @ rest) = w"
  "read_be32 (be32 v) = v" "read_be64 (be64 w) = w"
  by (simp_all add: read_be32_def read_be64_def)

lemma sha512_empty: "sha512_empty_ok ssl \<Longrightarrow> take 4 (bm_sha512 ssl []) = bm_empty_payload_checksum"
  by (simp add: sha512_empty_ok_def bm_sha512_def bm_empty_payload_checksum_def)

text \<open>A packet is a header of four fields and the body.\<close>

lemma bm_create_packet_fields:
  assumes "sha512_empty_ok ssl"
  shows "bm_create_packet g ssl cmd body =
    bm_magicbytes g @ command_field cmd @ be32 (word_of_nat (length body)) @
    take 4 (bm_sha512 ssl body) @ body"
  using assms by (cases body) (simp_all add: bm_create_packet_def sha512_empty)

lemma bm_parse_message_fields:
  assumes "protocol_ok g" "length cmd = 12" "length ck = 4" "unat len \<le> 4194304"
    "length body = unat len"
  shows "bm_parse_message g ssl (bm_magicbytes g @ cmd @ be32 len @ ck @ body @ rest) =
    (if take 4 (bm_sha512 ssl body) \<noteq> ck then BM_PARSE_BAD_CHECKSUM (24 + unat len)
     else BM_PARSE_OK \<lparr>msg_command = cmd, msg_length = len, msg_checksum = read_be32 ck,
       msg_payload = (if 0 < len then Some body else None)\<rparr> (24 + unat len))"
proof -
  have "\<not> BM_MAX_MESSAGE_LENGTH < len" using assms(4) by (simp add: word_less_nat_alt)
  moreover have "read_be32 (ck @ body @ rest) = read_be32 ck"
    using assms(3) by (simp add: read_be32_def)
  ultimately show ?thesis using assms by (simp add: bm_parse_message_def Let_def)
qed

lemma bm_parse_created [wire]:
  assumes "protocol_ok g" "digests_ok ssl" "sha512_empty_ok ssl" "length body \<le> 4194304"
  shows "bm_parse_message g ssl (bm_create_packet g ssl cmd body @ rest) =
    BM_PARSE_OK \<lparr>msg_command = command_field cmd, msg_length = word_of_nat (length body),
      msg_checksum = read_be32 (bm_sha512 ssl body),
      msg_payload = (if body = [] then None else Some body)\<rparr> (24 + length body)"
proof -
  define len :: u32 where "len = word_of_nat (length body)"
  have len: "unat len = length body" using assms(4) by (simp add: len_def unat_of_nat)
  then have pos: "0 < len \<longleftrightarrow> body \<noteq> []" by (auto simp: word_less_nat_alt)
  have small: "unat len \<le> 4194304" using assms(4) unfolding len .
  have ck: "length (take 4 (bm_sha512 ssl body)) = 4" using assms(2) by simp
  have "bm_parse_message g ssl (bm_create_packet g ssl cmd body @ rest) =
      bm_parse_message g ssl (bm_magicbytes g @ command_field cmd @ be32 len @
        take 4 (bm_sha512 ssl body) @ body @ rest)"
    by (simp add: bm_create_packet_fields [OF assms(3)] len_def)
  also have "\<dots> = BM_PARSE_OK \<lparr>msg_command = command_field cmd, msg_length = len,
      msg_checksum = read_be32 (take 4 (bm_sha512 ssl body)),
      msg_payload = (if 0 < len then Some body else None)\<rparr> (24 + unat len)"
    unfolding bm_parse_message_fields [OF assms(1) length_command_field ck small len [symmetric]]
    by (rule if_not_P) simp
  finally show ?thesis using len pos by (auto simp: read_be32_def len_def)
qed

text \<open>What an accepted packet says about the received bytes.\<close>

lemma bm_parse_message_ok:
  assumes "bm_parse_message g ssl data = BM_PARSE_OK m n"
  shows "n \<le> length data" "n = 24 + unat (msg_length m)" "msg_length m \<le> BM_MAX_MESSAGE_LENGTH"
    "msg_payload m = (if msg_length m = 0 then None else Some (take (unat (msg_length m)) (drop 24 data)))"
    "take 4 data = bm_magicbytes g" "msg_command m = take 12 (drop 4 data)"
    "take 4 (bm_sha512 ssl (take (unat (msg_length m)) (drop 24 data))) = take 4 (drop 20 data)"
    "msg_length m = read_be32 (drop 16 data)"
proof -
  define len where "len = read_be32 (drop 16 data)"
  define body where "body = take (unat len) (drop 24 data)"
  have "\<not> BM_MAX_MESSAGE_LENGTH < len \<and> \<not> length data < 24 + unat len \<and> take 4 data = bm_magicbytes g \<and>
      take 4 (bm_sha512 ssl body) = take 4 (drop 20 data) \<and> n = 24 + unat len \<and>
      m = \<lparr>msg_command = take 12 (drop 4 data), msg_length = len,
        msg_checksum = read_be32 (drop 20 data), msg_payload = (if 0 < len then Some body else None)\<rparr>"
    using assms unfolding bm_parse_message_def Let_def len_def [symmetric] body_def [symmetric]
    by (simp split: if_split_asm)
  then show "n \<le> length data" "n = 24 + unat (msg_length m)" "msg_length m \<le> BM_MAX_MESSAGE_LENGTH"
    "msg_payload m = (if msg_length m = 0 then None else Some (take (unat (msg_length m)) (drop 24 data)))"
    "take 4 data = bm_magicbytes g" "msg_command m = take 12 (drop 4 data)"
    "take 4 (bm_sha512 ssl (take (unat (msg_length m)) (drop 24 data))) = take 4 (drop 20 data)"
    "msg_length m = read_be32 (drop 16 data)"
    by (simp_all add: body_def word_gt_0 not_less len_def)
qed

lemma bm_parse_message_consumed:
  "bm_parse_message g ssl data = BM_PARSE_OK m n \<Longrightarrow> 24 \<le> n \<and> n \<le> length data"
  "bm_parse_message g ssl data = BM_PARSE_BAD_CHECKSUM n \<Longrightarrow> 24 \<le> n \<and> n \<le> length data"
  "bm_parse_message g ssl data = BM_PARSE_BAD_MAGIC n \<Longrightarrow> n = 1 \<and> n \<le> length data"
  by (auto simp: bm_parse_message_def Let_def split: if_splits)

section \<open>Lemmas: payloads\<close>

lemma length_memcpy [simp]: "off + length src \<le> length mem \<Longrightarrow> length (memcpy mem off src) = length mem"
  by (simp add: memcpy_def)

definition sockaddr_ok :: "sockaddr \<Rightarrow> bool" where
  "sockaddr_ok a = (case a of AF_INET ip port \<Rightarrow> length ip = 4 \<and> length port = 2
     | AF_INET6 ip port \<Rightarrow> length ip = 16 \<and> length port = 2 | AF_OTHER \<Rightarrow> True)"

lemma length_network_address [simp, wire]:
  "sockaddr_ok a \<Longrightarrow> length (bm_encode_network_address a) = 26"
  by (auto simp: bm_encode_network_address_def sockaddr_ok_def Let_def split: sockaddr.splits)

lemma varint_or_zero_octets [simp, wire]: "varint_or_zero (varint_octets v @ rest) = (v, rest)"
  by (simp add: varint_or_zero_def)

lemma read_bytes_append [simp, wire]: "length xs = n \<Longrightarrow> read_bytes n (xs @ ys) = Done (xs, ys)"
  by (simp add: read_bytes_def)

lemma array_room_exact:
  assumes "mem (k * count)" "0 < k" "unat k * unat count < 2 ^ 64"
  shows "array_room mem k count = unat count"
proof -
  have "unat (k * count) = unat k * unat count" using assms(3) by (simp add: unat_word_ariths)
  moreover have "0 < unat k" using assms(2) by (simp add: word_less_nat_alt)
  ultimately show ?thesis using assms(1) by (simp add: array_room_def)
qed

lemma strlen_word: "strlen ua < 2 ^ 64 \<Longrightarrow> unat (word_of_nat (strlen ua) :: u64) = strlen ua"
  by (rule unat_of_nat_lt) simp

lemma bm_parse_created_version:
  assumes "sockaddr_ok peer" "sockaddr_ok local" "strlen ua < 2 ^ 64" "mem 8"
  shows "bm_parse_version_message mem (bm_create_version_payload now rnd ua ver peer local) =
    Done \<lparr>vm_version = ver, vm_services = 8, vm_timestamp = now,
      vm_addr_recv = bm_encode_network_address peer, vm_addr_from = bm_encode_network_address local,
      vm_nonce = (case rnd of None \<Rightarrow> 0 | Some r \<Rightarrow> r), vm_user_agent = c_str ua,
      vm_stream_numbers = [1]\<rparr>"
proof -
  let ?n = "case rnd of None \<Rightarrow> 0 | Some r \<Rightarrow> r"
  define fixed where "fixed = be32 ver @ be64 8 @ be64 now @ bm_encode_network_address peer @
    bm_encode_network_address local @ be64 ?n"
  have split: "bm_create_version_payload now rnd ua ver peer local =
      fixed @ varint_octets (of_nat (strlen ua)) @ c_str ua @ [1, 1]"
    by (simp add: bm_create_version_payload_def fixed_def varstr_octets_def)
  have len: "length fixed = 80" using assms(1,2) by (simp add: fixed_def)
  have one: "varint_or_zero (1 # rest) = (1, rest)" for rest
    using varint_or_zero_octets [of 1 rest] by (simp add: varint_octets_def byte_at_def)
  have ua: "length (c_str ua) = unat (word_of_nat (strlen ua) :: u64)"
    using assms(3) by (simp only: strlen_word) (simp add: strlen_def)
  have room: "array_room mem 8 1 = 1" using assms(4) by (simp add: array_room_def)
  show ?thesis
    unfolding split bm_parse_version_message_def
    using len ua assms(1,2)
    by (simp add: room one) (simp add: fixed_def)
qed

lemma length_version_payload:
  assumes "sockaddr_ok peer" "sockaddr_ok local"
  shows "length (bm_create_version_payload now rnd ua ver peer local) = bm_version_payload_size ua"
  using assms
  by (simp add: bm_create_version_payload_def bm_version_payload_size_def bm_varstr_size_def
      varstr_octets_def strlen_def)

lemma length_address_info [simp, wire]:
  "length (ai_ip a) = 16 \<Longrightarrow> length (address_info_octets a) = 38"
  by (simp add: address_info_octets_def)

lemma address_info_of_octets [simp, wire]:
  "length (ai_ip a) = 16 \<Longrightarrow> address_info_of (address_info_octets a @ rest) = a"
  by (simp add: address_info_of_def address_info_octets_def)

lemma parse_addr_loop_concat:
  assumes "\<forall>a\<in>set as. length (ai_ip a) = 16" "length as \<le> room"
  shows "parse_addr_loop room (length as) (concat (map address_info_octets as) @ rest) = Done (Some as)"
  using assms
proof (induction as arbitrary: room)
  case Nil
  then show ?case by simp
next
  case (Cons a as)
  then obtain room' where "room = Suc room'" by (cases room) auto
  with Cons show ?case by simp
qed

text \<open>The loop faults exactly when a complete record comes after the allocation is full.\<close>

lemma parse_addr_loop_fault_iff:
  "parse_addr_loop room n rest = Fault \<longleftrightarrow> room < n \<and> room < length rest div 38"
proof (induction room n rest rule: parse_addr_loop.induct)
  case (1 room rest)
  then show ?case by simp
next
  case (2 room n rest)
  show ?case
  proof (cases "length rest < 38 \<or> room = 0")
    case True
    then show ?thesis by (auto simp: div_greater_zero_iff)
  next
    case False
    then obtain room' where room: "room = Suc room'" by (cases room) auto
    have "parse_addr_loop room' n (drop 38 rest) = Fault \<longleftrightarrow>
        room' < n \<and> room' < length (drop 38 rest) div 38"
      using 2 [of room'] False room by simp
    moreover have "length rest div 38 = Suc ((length rest - 38) div 38)"
      using False by (simp add: le_div_geq)
    ultimately show ?thesis
      using False room by (cases "parse_addr_loop room' n (drop 38 rest)") auto
  qed
qed

lemma inventory_items_concat:
  "\<forall>h\<in>set hs. length h = 32 \<Longrightarrow> inventory_items (length hs) (concat hs) = hs"
  by (induction hs) auto

lemma length_concat_32: "\<forall>h\<in>set hs. length h = 32 \<Longrightarrow> length (concat hs) = 32 * length hs"
  by (induction hs) auto

lemma inventory_items_partition:
  "length rest = 32 * n \<Longrightarrow> concat (inventory_items n rest) = rest \<and>
    length (inventory_items n rest) = n \<and> (\<forall>h\<in>set (inventory_items n rest). length h = 32)"
proof (induction n arbitrary: rest)
  case 0
  then show ?case by simp
next
  case (Suc n)
  have "length (drop 32 rest) = 32 * n" using Suc.prems by simp
  from Suc.IH [OF this] show ?case using Suc.prems by simp
qed

lemma bm_parse_inventory_payload [wire]:
  assumes "\<forall>h\<in>set hs. length h = 32"
  shows "bm_parse_inventory_message (inventory_payload hs) = Some hs"
  using assms
  by (simp add: bm_parse_inventory_message_def inventory_payload_def length_concat_32 inventory_items_concat)

section \<open>Properties\<close>

text \<open>
  A packet built by \<open>bm_create_packet\<close> for a body of at most 4 MiB is accepted by
  \<open>bm_parse_message\<close> on the same network, with the command, the checksum and the body it was built
  from and exactly its own length consumed, whatever bytes follow in the receive buffer.
\<close>

theorem packet_roundtrip:
  assumes "protocol_ok g" "digests_ok ssl" "sha512_empty_ok ssl" "length body \<le> 4194304"
  shows "bm_parse_message g ssl (bm_create_packet g ssl cmd body @ rest) =
    BM_PARSE_OK \<lparr>msg_command = command_field cmd, msg_length = word_of_nat (length body),
      msg_checksum = read_be32 (bm_sha512 ssl body),
      msg_payload = (if body = [] then None else Some body)\<rparr>
      (length (bm_create_packet g ssl cmd body))"
  using bm_parse_created [OF assms] assms(1,2)
  by (simp add: bm_create_packet_fields [OF assms(3)])

theorem packet_roundtrip_witness:
  "\<exists>m. bm_parse_message protocol_init plain_ssl
      (bm_create_packet protocol_init plain_ssl (lit ''verack'') [] @ [1, 2]) = BM_PARSE_OK m 24 \<and>
    msg_payload m = None"
  using packet_roundtrip [OF protocol_ok_init openssl_ok_digests [OF plain_ssl_ok]
      plain_ssl_sha512_empty, of "[]" "lit ''verack''" "[1, 2]"]
  by (simp add: bm_create_packet_def)

text \<open>
  C17: \<open>bm_parse_message\<close> never looks past the received bytes: whatever it accepts or skips lies
  inside the buffer and is at least one byte long, and an accepted packet has the network's magic, a
  length of at most 4 MiB and the checksum of exactly its payload, an empty one included. More bytes are asked for only while
  the header or the payload it announces is incomplete, a byte is skipped only if the magic is not the network's, and a packet is dropped
  only if its checksum is wrong.
\<close>

theorem packet_parse_sound:
  "case bm_parse_message g ssl data of
     BM_PARSE_OK m n \<Rightarrow>
       n = 24 + unat (msg_length m) \<and> n \<le> length data \<and> unat (msg_length m) \<le> 4194304 \<and>
       msg_length m = read_be32 (drop 16 data) \<and>
       take 4 data = bm_magicbytes g \<and> msg_command m = take 12 (drop 4 data) \<and>
       take 4 (bm_sha512 ssl (take (n - 24) (drop 24 data))) = take 4 (drop 20 data) \<and>
       msg_payload m = (if n = 24 then None else Some (take (n - 24) (drop 24 data)))
   | BM_PARSE_INCOMPLETE \<Rightarrow>
       length data < 24 \<or> length data < 24 + unat (read_be32 (drop 16 data)) \<and> unat (read_be32 (drop 16 data)) \<le> 4194304
   | BM_PARSE_BAD_CHECKSUM n \<Rightarrow>
       n = 24 + unat (read_be32 (drop 16 data)) \<and> n \<le> length data \<and>
       take 4 (bm_sha512 ssl (take (n - 24) (drop 24 data))) \<noteq> take 4 (drop 20 data)
   | BM_PARSE_BAD_MAGIC n \<Rightarrow> n = 1 \<and> 24 \<le> length data \<and> take 4 data \<noteq> bm_magicbytes g
   | BM_PARSE_MESSAGE_TOO_LARGE \<Rightarrow> 24 \<le> length data \<and> 4194304 < unat (read_be32 (drop 16 data))"
proof (cases "bm_parse_message g ssl data")
  case (BM_PARSE_OK m n)
  have "unat (msg_length m) \<le> 4194304"
    using bm_parse_message_ok(3) [OF BM_PARSE_OK] by (simp add: word_le_nat_alt)
  then show ?thesis using bm_parse_message_ok [OF BM_PARSE_OK] BM_PARSE_OK by (simp add: unat_eq_zero)
next
  case BM_PARSE_INCOMPLETE
  then show ?thesis
    by (auto simp: bm_parse_message_def Let_def word_less_nat_alt not_less split: if_splits)
next
  case (BM_PARSE_BAD_CHECKSUM n)
  then show ?thesis by (auto simp: bm_parse_message_def Let_def not_less split: if_splits)
next
  case (BM_PARSE_BAD_MAGIC n)
  then show ?thesis by (auto simp: bm_parse_message_def Let_def not_less split: if_splits)
next
  case BM_PARSE_MESSAGE_TOO_LARGE
  then show ?thesis
    by (auto simp: bm_parse_message_def Let_def word_less_nat_alt split: if_splits)
qed

text \<open>
  The version message the node sends is an ordinary packet of the \<open>version\<close> command, and the
  parser of the receiving side reads from its payload the fields it was made from.
\<close>

theorem version_roundtrip:
  assumes "sockaddr_ok peer" "sockaddr_ok local" "strlen ua < 2 ^ 32" "mem 8"
  shows "bm_new_version_message g ssl now rnd ua ver peer local =
      bm_create_packet g ssl (lit ''version'') (bm_create_version_payload now rnd ua ver peer local) \<and>
    bm_parse_version_message mem (bm_create_version_payload now rnd ua ver peer local) =
      Done \<lparr>vm_version = ver, vm_services = BM_SERVICE_NODE_DANDELION, vm_timestamp = now,
        vm_addr_recv = bm_encode_network_address peer, vm_addr_from = bm_encode_network_address local,
        vm_nonce = (case rnd of None \<Rightarrow> 0 | Some r \<Rightarrow> r), vm_user_agent = c_str ua,
        vm_stream_numbers = [1]\<rparr>"
proof -
  have cmd: "command_field (lit ''version'') = lit ''version'' @ replicate 5 0"
    by (simp add: command_field_def strlen_def c_str_def Let_def)
  have len: "length (bm_create_version_payload now rnd ua ver peer local) = bm_version_payload_size ua"
    by (rule length_version_payload [OF assms(1,2)])
  have "0 < bm_version_payload_size ua" by (simp add: bm_version_payload_size_def)
  with len have "bm_new_version_message g ssl now rnd ua ver peer local =
      bm_create_packet g ssl (lit ''version'') (bm_create_version_payload now rnd ua ver peer local)"
    unfolding bm_new_version_message_def bm_create_packet_def cmd Let_def by simp
  moreover have "strlen ua < 2 ^ 64" using assms(3) by simp
  ultimately show ?thesis using bm_parse_created_version [OF assms(1,2), of ua mem] assms(4) by blast
qed

theorem version_roundtrip_witness:
  "\<exists>m. bm_parse_version_message (\<lambda>_. True) (bm_create_version_payload 7 (Some 5) (lit ''/bm/'') 3
      bm_unspecified_ipv4_address AF_OTHER) = Done m \<and> vm_nonce m = 5 \<and> vm_user_agent m = lit ''/bm/''"
proof -
  have "sockaddr_ok bm_unspecified_ipv4_address" "sockaddr_ok AF_OTHER"
    by (simp_all add: sockaddr_ok_def bm_unspecified_ipv4_address_def)
  moreover have "strlen (lit ''/bm/'') < 2 ^ 32" by (simp add: strlen_def c_str_def)
  ultimately show ?thesis
    using version_roundtrip [of bm_unspecified_ipv4_address AF_OTHER "lit ''/bm/''" "\<lambda>_. True"
        protocol_init plain_ssl 7 "Some 5" 3]
    by (simp add: c_str_def)
qed

text \<open>
  The version parser has no bounds check: a payload shorter than the 80 bytes of its fixed
  fields makes it read past the end of the payload.
\<close>

theorem version_parse_short_faults:
  assumes "length body < 80"
  shows "bm_parse_version_message mem body = Fault"
  using assms by (simp add: bm_parse_version_message_def read_bytes_def)

theorem version_parse_short_faults_witness:
  "bm_parse_version_message (\<lambda>_. True) [] = Fault"
  by (rule version_parse_short_faults) simp

text \<open>
  The addr parser reads back every address list the node can send.
\<close>

theorem addr_roundtrip:
  assumes "length as < 2 ^ 58" "\<forall>a\<in>set as. length (ai_ip a) = 16" "mem (48 * word_of_nat (length as))"
  shows "bm_parse_addr_message mem (addr_payload as) = Done (Some as)"
proof -
  have n: "unat (word_of_nat (length as) :: u64) = length as"
    using assms(1) by (intro unat_of_nat_lt) simp
  have "array_room mem 48 (word_of_nat (length as)) = length as"
    using array_room_exact [of mem 48 "word_of_nat (length as)"] assms(1,3) n by simp
  then show ?thesis
    using parse_addr_loop_concat [OF assms(2), of "length as" "[]"] n
    by (simp add: bm_parse_addr_message_def addr_payload_def)
qed

theorem addr_roundtrip_witness:
  "bm_parse_addr_message (\<lambda>_. True) (addr_payload
     [\<lparr>ai_time = 1, ai_stream = 1, ai_services = 1, ai_ip = replicate 16 7, ai_port = 8444\<rparr>]) =
   Done (Some [\<lparr>ai_time = 1, ai_stream = 1, ai_services = 1, ai_ip = replicate 16 7, ai_port = 8444\<rparr>])"
  by (rule addr_roundtrip) simp_all

text \<open>
  The addr parser leaves its allocation exactly when the announced count is larger than the
  number of records the wrapped allocation size holds and the payload has a complete record for the
  first one outside; in particular never when the size does not wrap and the allocation succeeds.
\<close>

theorem addr_parse_fault_iff:
  "bm_parse_addr_message mem body = Fault \<longleftrightarrow>
     (\<exists>consumed count. bm_varint_decode body = Some (consumed, count) \<and>
        array_room mem 48 count < unat count \<and>
        array_room mem 48 count < (length body - consumed) div 38)"
  by (auto simp: bm_parse_addr_message_def parse_addr_loop_fault_iff split: option.splits)

text \<open>
  With an announced count of \<open>2 ^ 60\<close> the allocation size of the addr parser wraps to 0, and
  storing the first complete address record writes outside the allocation.
\<close>

theorem addr_count_overflow_faults:
  assumes "38 \<le> length recs"
  shows "bm_parse_addr_message mem (varint_octets (2 ^ 60) @ recs) = Fault"
proof -
  have room: "array_room mem 48 (2 ^ 60) = 0" by (simp add: array_room_def)
  have "0 < unat (2 ^ 60 :: u64)" by simp
  then obtain n where n: "unat (2 ^ 60 :: u64) = Suc n" using gr0_implies_Suc by blast
  have "bm_parse_addr_message mem (varint_octets (2 ^ 60) @ recs) =
      parse_addr_loop (array_room mem 48 (2 ^ 60)) (unat (2 ^ 60 :: u64)) recs"
    unfolding bm_parse_addr_message_def bm_varint_decode_octets by simp
  then show ?thesis using assms unfolding n room by simp
qed

theorem addr_count_overflow_faults_witness:
  "bm_parse_addr_message (\<lambda>_. True) (varint_octets (2 ^ 60) @ replicate 38 1) = Fault"
  by (rule addr_count_overflow_faults) simp

end
