(* ===== verification/Queue.thy ===== *)
theory Queue
  imports Bm_Prelude
begin

text \<open>
  Singly linked lists with head and tail pointers on an explicit heap, the way the program keeps its
  queues (\<open>src/common/queue.c\<close>, the jobs of \<open>src/pow/pow_queue.c\<close>, the send chunks of
  \<open>src/infra/network.c\<close>), the first-in-first-out contract they share as the locale \<open>fifo\<close>, and
  \<open>queue.c\<close> itself with the interleavings of its producers and consumers.
\<close>

section \<open>Linked lists on the heap\<close>

record 'a node =
  node_data :: 'a
  node_next :: "nat option"

type_synonym 'a heap = "nat \<rightharpoonup> 'a node"

record 'a anchor =
  heap :: "'a heap"
  head :: "nat option"
  tail :: "nat option"

definition empty_list :: "'a anchor" where
  "empty_list = \<lparr>heap = Map.empty, head = None, tail = None\<rparr>"

text \<open>
  Storing a new node (at the address \<open>a\<close> that \<open>malloc\<close> returned) behind the tail, and taking the
  head node off the list without freeing it. Following a pointer to no node is a fault.
\<close>

definition link_tail :: "nat \<Rightarrow> 'a \<Rightarrow> 'a anchor \<Rightarrow> 'a anchor outcome" where
  "link_tail a v q =
     (let h = (heap q)(a \<mapsto> \<lparr>node_data = v, node_next = None\<rparr>)
      in case tail q of
           None \<Rightarrow> Done \<lparr>heap = h, head = Some a, tail = Some a\<rparr>
         | Some t \<Rightarrow>
             (case h t of
                None \<Rightarrow> Fault
              | Some n \<Rightarrow> Done \<lparr>heap = h(t \<mapsto> n\<lparr>node_next := Some a\<rparr>), head = head q, tail = Some a\<rparr>))"

definition unlink_head :: "'a anchor \<Rightarrow> (nat \<times> 'a \<times> 'a anchor) option outcome" where
  "unlink_head q =
     (case head q of
        None \<Rightarrow> Done None
      | Some p \<Rightarrow>
          (case heap q p of
             None \<Rightarrow> Fault
           | Some n \<Rightarrow>
               Done (Some (p, node_data n,
                 q\<lparr>head := node_next n, tail := (if node_next n = None then None else tail q)\<rparr>))))"

definition free_node :: "nat \<Rightarrow> 'a anchor \<Rightarrow> 'a anchor" where
  "free_node p q = q\<lparr>heap := (heap q)(p := None)\<rparr>"

text \<open>The nodes from \<open>p\<close> to the end of the list, with their addresses.\<close>

fun chain :: "'a heap \<Rightarrow> nat option \<Rightarrow> (nat \<times> 'a) list \<Rightarrow> bool" where
  "chain h p [] = (p = None)"
| "chain h p ((a, v) # ns) =
     (p = Some a \<and> (case h a of None \<Rightarrow> False | Some n \<Rightarrow> node_data n = v \<and> chain h (node_next n) ns))"

definition list_at :: "'a anchor \<Rightarrow> (nat \<times> 'a) list \<Rightarrow> bool" where
  "list_at q ns \<longleftrightarrow>
     chain (heap q) (head q) ns \<and> distinct (map fst ns) \<and>
     tail q = (if ns = [] then None else Some (fst (last ns)))"

lemma chain_update: "a \<notin> fst ` set ns \<Longrightarrow> chain (h(a := x)) p ns = chain h p ns"
  by (induction h p ns rule: chain.induct) (auto split: option.splits)

lemma chain_allocated: "chain h p ns \<Longrightarrow> a \<in> fst ` set ns \<Longrightarrow> h a \<noteq> None"
  by (induction h p ns rule: chain.induct) (auto split: option.splits)

lemma chain_unique: "chain h p ns \<Longrightarrow> chain h p ms \<Longrightarrow> ns = ms"
proof (induction h p ns arbitrary: ms rule: chain.induct)
  case (1 h p)
  then show ?case by (cases ms) auto
next
  case (2 h p a v ns)
  then show ?case by (cases ms) (auto split: option.splits)
qed

lemma chain_snoc:
  assumes "chain h p (ns @ [(t, v)])" "distinct (map fst (ns @ [(t, v)]))"
    "a \<notin> fst ` set (ns @ [(t, v)])"
  shows "\<exists>n. h t = Some n \<and>
    chain (h(a \<mapsto> \<lparr>node_data = w, node_next = None\<rparr>, t \<mapsto> n\<lparr>node_next := Some a\<rparr>)) p
      (ns @ [(t, v), (a, w)])"
  using assms
proof (induction ns arbitrary: p)
  case Nil
  then show ?case by (auto split: option.splits)
next
  case (Cons x ns)
  obtain b u where x: "x = (b, u)" by (cases x)
  obtain m where m: "h b = Some m" "node_data m = u" "p = Some b" "chain h (node_next m) (ns @ [(t, v)])"
    using Cons.prems(1) x by (auto split: option.splits)
  have "b \<noteq> t" "b \<noteq> a" using Cons.prems x by auto
  then show ?case using Cons.IH [OF m(4)] Cons.prems x m by auto
qed

lemma list_at_empty [simp]: "list_at empty_list []"
  by (simp add: list_at_def empty_list_def)

lemma list_at_link_tail:
  assumes "list_at q ns" "heap q a = None"
  shows "\<exists>q'. link_tail a v q = Done q' \<and> list_at q' (ns @ [(a, v)])"
proof (cases ns rule: rev_cases)
  case Nil
  with assms show ?thesis by (simp add: list_at_def link_tail_def)
next
  case (snoc ms n)
  obtain t w where n: "n = (t, w)" by (cases n)
  have a: "a \<notin> fst ` set ns"
    using assms chain_allocated [of "heap q" "head q" ns a] by (auto simp: list_at_def)
  obtain m where m: "heap q t = Some m"
    "chain ((heap q)(a \<mapsto> \<lparr>node_data = v, node_next = None\<rparr>, t \<mapsto> m\<lparr>node_next := Some a\<rparr>)) (head q)
      (ms @ [(t, w), (a, v)])"
    using chain_snoc [of "heap q" "head q" ms t w a v] assms(1) a
    unfolding list_at_def snoc n by blast
  have "t \<noteq> a" using m(1) assms(2) by auto
  with assms(1) m a show ?thesis by (auto simp: list_at_def link_tail_def Let_def snoc n)
qed

text \<open>Appending touches the new node and the last node of the list only.\<close>

lemma link_tail_frame:
  assumes "list_at q ns" "link_tail a v q = Done q'" "p \<noteq> a" "p \<notin> fst ` set ns"
  shows "heap q' p = heap q p"
proof (cases ns rule: rev_cases)
  case Nil
  with assms show ?thesis by (auto simp: list_at_def link_tail_def)
next
  case (snoc ms n)
  with assms have "tail q = Some (fst n)" "p \<noteq> fst n" by (auto simp: list_at_def)
  with assms(2,3) show ?thesis by (auto simp: link_tail_def Let_def split: option.splits if_splits)
qed

lemma unlink_head_empty [simp]: "list_at q [] \<Longrightarrow> unlink_head q = Done None"
  by (simp add: list_at_def unlink_head_def)

lemma list_at_unlink_head:
  assumes "list_at q ((a, v) # ns)"
  shows "\<exists>q'. unlink_head q = Done (Some (a, v, q')) \<and> list_at q' ns \<and> heap q' = heap q \<and>
    list_at (free_node a q') ns"
proof -
  obtain n where n: "heap q a = Some n" "node_data n = v" "head q = Some a"
    "chain (heap q) (node_next n) ns"
    using assms by (auto simp: list_at_def split: option.splits)
  have "node_next n = None \<longleftrightarrow> ns = []" using n(4) by (cases ns) auto
  moreover have "chain ((heap q)(a := None)) (node_next n) ns"
    using assms n(4) by (subst chain_update) (auto simp: list_at_def)
  ultimately show ?thesis
    using n assms by (auto simp: unlink_head_def list_at_def free_node_def)
qed

section \<open>The first-in-first-out contract\<close>

text \<open>
  \<open>rep q xs\<close>: the queue holds \<open>xs\<close>, oldest first. \<open>loc\<close> is what \<open>malloc\<close> returns for a new element,
  \<open>fresh q loc\<close> that it is not in use.
\<close>

locale fifo =
  fixes rep :: "'q \<Rightarrow> 'a list \<Rightarrow> bool"
    and fresh :: "'q \<Rightarrow> 'loc \<Rightarrow> bool"
    and enq :: "'loc \<Rightarrow> 'a \<Rightarrow> 'q \<Rightarrow> 'q outcome"
    and deq :: "'q \<Rightarrow> ('a \<times> 'q) option outcome"
  assumes enq_rep: "rep q xs \<Longrightarrow> fresh q loc \<Longrightarrow> \<exists>q'. enq loc x q = Done q' \<and> rep q' (xs @ [x])"
    and deq_rep: "rep q (x # xs) \<Longrightarrow> \<exists>q'. deq q = Done (Some (x, q')) \<and> rep q' xs"
    and deq_empty: "rep q [] \<Longrightarrow> deq q = Done None"
begin

text \<open>Taking elements until the queue is empty, at most \<open>n\<close> of them.\<close>

fun drain :: "nat \<Rightarrow> 'q \<Rightarrow> ('a list \<times> 'q) outcome" where
  "drain 0 q = Done ([], q)"
| "drain (Suc n) q =
     bind_outcome (deq q) (\<lambda>r. case r of None \<Rightarrow> Done ([], q)
       | Some (x, q') \<Rightarrow> bind_outcome (drain n q') (\<lambda>(xs, q''). Done (x # xs, q'')))"

lemma drain_in_order:
  "rep q xs \<Longrightarrow> length xs \<le> n \<Longrightarrow> \<exists>q'. drain n q = Done (xs, q') \<and> rep q' []"
proof (induction xs arbitrary: n q)
  case Nil
  then show ?case using deq_empty by (cases n) auto
next
  case (Cons x xs)
  then obtain m where m: "n = Suc m" "length xs \<le> m" by (cases n) auto
  obtain q' where q': "deq q = Done (Some (x, q'))" "rep q' xs" using deq_rep Cons.prems(1) by blast
  with Cons.IH [OF q'(2) m(2)] m(1) show ?case by auto
qed

lemma deq_cases:
  assumes "rep q xs"
  obtains "xs = []" "deq q = Done None"
    | x ys q' where "xs = x # ys" "deq q = Done (Some (x, q'))" "rep q' ys"
  using assms deq_rep deq_empty by (cases xs) blast+

lemma never_faults: "rep q xs \<Longrightarrow> deq q \<noteq> Fault" "rep q xs \<Longrightarrow> fresh q loc \<Longrightarrow> enq loc x q \<noteq> Fault"
  using deq_cases enq_rep by (metis outcome.distinct(1))+

end

text \<open>Every linked list with head and tail keeps the contract.\<close>

definition linked :: "'a anchor \<Rightarrow> 'a list \<Rightarrow> bool" where
  "linked l xs \<longleftrightarrow> (\<exists>ns. list_at l ns \<and> xs = map snd ns)"

definition take_head :: "'a anchor \<Rightarrow> ('a \<times> 'a anchor) option outcome" where
  "take_head l = bind_outcome (unlink_head l) (\<lambda>r. Done (map_option (\<lambda>(p, v, l'). (v, free_node p l')) r))"

interpretation linked: fifo linked "\<lambda>l a. heap l a = None" link_tail take_head
proof unfold_locales
  fix l :: "'a anchor" and xs a x
  assume "linked l xs" "heap l a = None"
  then obtain ns where ns: "list_at l ns" "xs = map snd ns" "heap l a = None" by (auto simp: linked_def)
  have "linked l' (xs @ [x])" if "list_at l' (ns @ [(a, x)])" for l'
    unfolding linked_def using that ns(2) by (intro exI [of _ "ns @ [(a, x)]"]) simp
  then show "\<exists>l'. link_tail a x l = Done l' \<and> linked l' (xs @ [x])"
    using list_at_link_tail [OF ns(1,3), of x] by metis
next
  fix l :: "'a anchor" and x xs
  assume "linked l (x # xs)"
  then obtain a ns where "list_at l ((a, x) # ns)" "xs = map snd ns"
    by (auto simp: linked_def Cons_eq_map_conv)
  with list_at_unlink_head [of l a x ns] show "\<exists>l'. take_head l = Done (Some (x, l')) \<and> linked l' xs"
    by (auto simp: take_head_def linked_def)
next
  fix l :: "'a anchor"
  assume "linked l []"
  then show "take_head l = Done None" by (auto simp: take_head_def linked_def)
qed

section \<open>queue.c\<close>

record 'a bm_queue = "'a anchor" +
  shutdown :: bool

definition bm_queue_init :: "'a heap \<Rightarrow> 'a bm_queue" where
  "bm_queue_init h = \<lparr>heap = h, head = None, tail = None, shutdown = False\<rparr>"

definition bm_queue_push :: "nat \<Rightarrow> 'a \<Rightarrow> 'a bm_queue \<Rightarrow> 'a bm_queue outcome" where
  "bm_queue_push new_node data q =
     bind_outcome (link_tail new_node data (anchor.truncate q))
       (\<lambda>l. Done (anchor.extend l (bm_queue.fields (shutdown q))))"

datatype 'a pop_result = Blocked | Closed | Popped 'a

text \<open>
  One pass of the consumer with the mutex held: \<open>Blocked\<close> when it goes to sleep on the condition
  variable, \<open>Closed\<close> for the result \<open>false\<close>.
\<close>

definition bm_queue_pop :: "'a bm_queue \<Rightarrow> ('a pop_result \<times> 'a bm_queue) outcome" where
  "bm_queue_pop q =
     (if head q = None \<and> \<not> shutdown q then Done (Blocked, q)
      else
        bind_outcome (unlink_head (anchor.truncate q))
          (\<lambda>r. case r of
             None \<Rightarrow> Done (Closed, q)
           | Some (node, data, l) \<Rightarrow>
               Done (Popped data, anchor.extend (free_node node l) (bm_queue.fields (shutdown q)))))"

definition bm_queue_shutdown :: "'a bm_queue \<Rightarrow> 'a bm_queue" where
  "bm_queue_shutdown q = q\<lparr>shutdown := True\<rparr>"

text \<open>The loop of \<open>bm_queue_destroy\<close>, for at most \<open>fuel\<close> nodes.\<close>

fun destroy_loop :: "nat \<Rightarrow> nat option \<Rightarrow> 'a heap \<Rightarrow> 'a heap outcome" where
  "destroy_loop 0 cur h = Fault"
| "destroy_loop (Suc fuel) cur h =
     (case cur of
        None \<Rightarrow> Done h
      | Some c \<Rightarrow>
          (case h c of
             None \<Rightarrow> Fault
           | Some n \<Rightarrow> destroy_loop fuel (node_next n) (h(c := None))))"

definition bm_queue_destroy :: "nat \<Rightarrow> 'a bm_queue \<Rightarrow> 'a bm_queue outcome" where
  "bm_queue_destroy fuel q =
     bind_outcome (destroy_loop fuel (head q) (heap q))
       (\<lambda>h. Done (q\<lparr>heap := h, head := None, tail := None\<rparr>))"

lemma anchor_extend_truncate [simp]:
  "anchor.truncate (anchor.extend l m) = l"
  by (simp add: anchor.defs)

lemma anchor_sel_truncate [simp]:
  "heap (anchor.truncate q) = heap q" "head (anchor.truncate q) = head q"
  "tail (anchor.truncate q) = tail q"
  by (simp_all add: anchor.defs)

lemma shutdown_extend [simp]: "shutdown (anchor.extend l (bm_queue.fields b)) = b"
  by (simp add: anchor.defs bm_queue.defs)

lemma head_None_iff: "list_at q ns \<Longrightarrow> head q = None \<longleftrightarrow> ns = []"
  by (cases ns) (auto simp: list_at_def)

lemma push_list_at:
  assumes "list_at (anchor.truncate q) ns" "heap q a = None"
  shows "\<exists>q'. bm_queue_push a x q = Done q' \<and> list_at (anchor.truncate q') (ns @ [(a, x)]) \<and>
    shutdown q' = shutdown q"
  using list_at_link_tail [OF assms(1), of a x] assms(2) by (auto simp: bm_queue_push_def)

lemma pop_list_at:
  assumes "list_at (anchor.truncate q) ((a, x) # ns)"
  shows "\<exists>q'. bm_queue_pop q = Done (Popped x, q') \<and> list_at (anchor.truncate q') ns \<and>
    shutdown q' = shutdown q"
proof -
  have "head q \<noteq> None" using head_None_iff [OF assms] by simp
  with list_at_unlink_head [OF assms] show ?thesis by (auto simp: bm_queue_pop_def)
qed

lemma pop_empty:
  assumes "list_at (anchor.truncate q) []"
  shows "bm_queue_pop q = Done (if shutdown q then Closed else Blocked, q)"
  using assms head_None_iff [OF assms] by (simp add: bm_queue_pop_def)

definition queue_holds :: "'a bm_queue \<Rightarrow> 'a list \<Rightarrow> bool" where
  "queue_holds q xs \<longleftrightarrow> (\<exists>ns. list_at (anchor.truncate q) ns \<and> xs = map snd ns)"

definition queue_get :: "'a bm_queue \<Rightarrow> ('a \<times> 'a bm_queue) option outcome" where
  "queue_get q = bind_outcome (bm_queue_pop q)
     (\<lambda>(r, q'). Done (case r of Popped x \<Rightarrow> Some (x, q') | _ \<Rightarrow> None))"

interpretation bmq: fifo queue_holds "\<lambda>q a. heap q a = None" bm_queue_push queue_get
proof unfold_locales
  fix q :: "'a bm_queue" and xs a x
  assume "queue_holds q xs" "heap q a = None"
  then obtain ns where "list_at (anchor.truncate q) ns" "xs = map snd ns" "heap q a = None"
    by (auto simp: queue_holds_def)
  with push_list_at [of q ns a x] show "\<exists>q'. bm_queue_push a x q = Done q' \<and> queue_holds q' (xs @ [x])"
    unfolding queue_holds_def by (metis map_append list.simps(8,9) snd_conv)
next
  fix q :: "'a bm_queue" and x xs
  assume "queue_holds q (x # xs)"
  then obtain a ns where "list_at (anchor.truncate q) ((a, x) # ns)" "xs = map snd ns"
    by (auto simp: queue_holds_def Cons_eq_map_conv)
  with pop_list_at [of q a x ns]
  show "\<exists>q'. queue_get q = Done (Some (x, q')) \<and> queue_holds q' xs"
    by (auto simp: queue_get_def queue_holds_def)
next
  fix q :: "'a bm_queue"
  assume "queue_holds q []"
  then show "queue_get q = Done None"
    by (auto simp: queue_holds_def queue_get_def pop_empty)
qed

section \<open>Producers and consumers\<close>

text \<open>
  Every operation holds the mutex, so a run of the threads is a sequence of whole operations. The
  state adds to the queue the values pushed and the values popped so far, in order.
\<close>

inductive queue_step ::
  "'a bm_queue \<times> 'a list \<times> 'a list \<Rightarrow> 'a bm_queue \<times> 'a list \<times> 'a list \<Rightarrow> bool" where
  step_push: "heap q a = None \<Longrightarrow> bm_queue_push a x q = Done q' \<Longrightarrow>
    queue_step (q, pushed, popped) (q', pushed @ [x], popped)"
| step_pop: "bm_queue_pop q = Done (Popped x, q') \<Longrightarrow>
    queue_step (q, pushed, popped) (q', pushed, popped @ [x])"
| step_sleep: "bm_queue_pop q = Done (Blocked, q') \<Longrightarrow>
    queue_step (q, pushed, popped) (q', pushed, popped)"
| step_shutdown: "queue_step (q, pushed, popped) (bm_queue_shutdown q, pushed, popped)"

inductive_cases queue_stepE: "queue_step (q, pushed, popped) s"

definition queue_start :: "'a bm_queue \<times> 'a list \<times> 'a list" where
  "queue_start = (bm_queue_init Map.empty, [], [])"

text \<open>The invariant: what has been pushed is what has been popped followed by what is queued.\<close>

definition queue_inv :: "'a bm_queue \<times> 'a list \<times> 'a list \<Rightarrow> bool" where
  "queue_inv s = (case s of (q, pushed, popped) \<Rightarrow> \<exists>xs. queue_holds q xs \<and> pushed = popped @ xs)"

lemma queue_inv_start: "queue_inv queue_start"
  by (simp add: queue_inv_def queue_start_def bm_queue_init_def queue_holds_def list_at_def anchor.defs)

lemma pop_popped:
  assumes "queue_holds q xs" "bm_queue_pop q = Done (Popped x, q')"
  shows "\<exists>ys. xs = x # ys \<and> queue_holds q' ys"
proof -
  have "queue_get q = Done (Some (x, q'))" using assms(2) by (simp add: queue_get_def)
  with bmq.deq_cases [OF assms(1)] show ?thesis by (metis Pair_inject option.distinct(1) option.inject outcome.inject)
qed

lemma pop_not_popped:
  assumes "queue_holds q xs" "bm_queue_pop q = Done (r, q')" "r = Blocked \<or> r = Closed"
  shows "xs = [] \<and> q' = q \<and> (r = Closed \<longleftrightarrow> shutdown q)"
proof (cases xs)
  case Nil
  with assms have "bm_queue_pop q = Done (if shutdown q then Closed else Blocked, q)"
    by (auto simp: queue_holds_def pop_empty)
  with assms Nil show ?thesis by (auto split: if_splits)
next
  case (Cons x ys)
  then have "queue_get q \<noteq> Done None" using bmq.deq_rep assms(1) by force
  with assms(2,3) show ?thesis by (auto simp: queue_get_def)
qed

lemma queue_inv_step: "queue_step s t \<Longrightarrow> queue_inv s \<Longrightarrow> queue_inv t"
proof (induction rule: queue_step.induct)
  case (step_push q a x q' pushed popped)
  then obtain xs where "queue_holds q xs" "pushed = popped @ xs" by (auto simp: queue_inv_def)
  with bmq.enq_rep [of q xs a x] step_push show ?case by (auto simp: queue_inv_def)
next
  case (step_pop q x q' pushed popped)
  then show ?case by (auto simp: queue_inv_def dest: pop_popped)
next
  case (step_sleep q q' pushed popped)
  then show ?case by (auto simp: queue_inv_def dest: pop_not_popped)
next
  case (step_shutdown q pushed popped)
  then show ?case by (auto simp: queue_inv_def bm_queue_shutdown_def queue_holds_def anchor.defs)
qed

lemma queue_inv_reachable: "queue_step\<^sup>*\<^sup>* queue_start s \<Longrightarrow> queue_inv s"
  by (induction rule: rtranclp_induct) (auto intro: queue_inv_start queue_inv_step)

lemma destroy_loop_frees:
  "chain h p ns \<Longrightarrow> distinct (map fst ns) \<Longrightarrow> length ns < fuel \<Longrightarrow>
    destroy_loop fuel p h = Done (h |` (- fst ` set ns))"
proof (induction ns arbitrary: fuel p h)
  case Nil
  then show ?case by (cases fuel) (auto simp: restrict_map_def)
next
  case (Cons n ns)
  obtain a v where n: "n = (a, v)" by (cases n)
  obtain m where m: "h a = Some m" "chain h (node_next m) ns" "p = Some a"
    using Cons.prems(1) n by (auto split: option.splits)
  obtain f where f: "fuel = Suc f" "length ns < f" using Cons.prems(3) by (cases fuel) auto
  have "chain (h(a := None)) (node_next m) ns"
    using Cons.prems(2) n m(2) by (subst chain_update) auto
  then have "destroy_loop f (node_next m) (h(a := None)) = Done ((h(a := None)) |` (- fst ` set ns))"
    using Cons.prems(2) f(2) by (intro Cons.IH) (assumption | simp)+
  moreover have "(h(a := None)) |` (- fst ` set ns) = h |` (- fst ` set (n # ns))"
    by (auto simp: restrict_map_def n)
  ultimately show ?case using m f by simp
qed

section \<open>Properties\<close>

text \<open>
  C18: under every interleaving of pushes, pops, sleeps and shutdown, the consumers receive the
  values in the order of the pushes, each once: the pushed values are the popped values followed by
  the values still linked in the queue; no operation follows a dangling pointer; a consumer sleeps
  only on an empty queue, and \<open>bm_queue_pop\<close> returns false only after shutdown when every pushed
  value has been delivered.
\<close>

theorem queue_fifo_delivery:
  assumes "queue_step\<^sup>*\<^sup>* queue_start (q, pushed, popped)"
  shows "(\<exists>xs. queue_holds q xs \<and> pushed = popped @ xs) \<and> bm_queue_pop q \<noteq> Fault \<and>
    (\<forall>a x. heap q a = None \<longrightarrow> bm_queue_push a x q \<noteq> Fault) \<and>
    (\<forall>q'. bm_queue_pop q = Done (Blocked, q') \<longrightarrow> pushed = popped \<and> \<not> shutdown q) \<and>
    (\<forall>q'. bm_queue_pop q = Done (Closed, q') \<longrightarrow> pushed = popped \<and> shutdown q)"
proof -
  obtain xs where xs: "queue_holds q xs" "pushed = popped @ xs"
    using queue_inv_reachable [OF assms] by (auto simp: queue_inv_def)
  have "queue_get q \<noteq> Fault" by (rule bmq.never_faults(1) [OF xs(1)])
  then have "bm_queue_pop q \<noteq> Fault" by (auto simp: queue_get_def)
  moreover have "bm_queue_push a x q \<noteq> Fault" if "heap q a = None" for a x
    using bmq.never_faults(2) [OF xs(1) that] .
  ultimately show ?thesis using xs pop_not_popped [OF xs(1)] by auto
qed

theorem queue_fifo_delivery_witness:
  "\<exists>q. queue_step\<^sup>*\<^sup>* queue_start (q, [5 :: nat], []) \<and> queue_holds q [5]"
proof -
  obtain q where q: "bm_queue_push 0 (5::nat) (bm_queue_init Map.empty) = Done q"
    by (simp add: bm_queue_push_def bm_queue_init_def link_tail_def anchor.defs)
  have r: "queue_step\<^sup>*\<^sup>* queue_start (q, [5], [])"
    using step_push [OF _ q, of "[]" "[]"] by (simp add: queue_start_def bm_queue_init_def r_into_rtranclp)
  show ?thesis using r queue_fifo_delivery [OF r] by auto
qed

text \<open>
  \<open>bm_queue_destroy\<close> ends after as many rounds as there are nodes, frees every node of the
  queue and no other memory, and leaves an empty queue.
\<close>

theorem queue_destroy_frees:
  assumes "list_at (anchor.truncate q) ns" "length ns < fuel"
  shows "\<exists>q'. bm_queue_destroy fuel q = Done q' \<and> head q' = None \<and> tail q' = None \<and>
    (\<forall>a. heap q' a = (if a \<in> fst ` set ns then None else heap q a))"
  using destroy_loop_frees [of "heap q" "head q" ns fuel] assms
  by (auto simp: bm_queue_destroy_def list_at_def restrict_map_def)

theorem queue_destroy_frees_witness:
  "\<exists>q. list_at (anchor.truncate q) [(0, True)] \<and>
     (\<exists>q'. bm_queue_destroy 2 q = Done q' \<and> head q' = None \<and> heap q' 0 = None)"
proof -
  define q where "q = \<lparr>heap = [0 \<mapsto> \<lparr>node_data = True, node_next = None\<rparr>], head = Some 0,
    tail = Some 0, shutdown = False\<rparr>"
  have l: "list_at (anchor.truncate q) [(0, True)]" by (simp add: q_def list_at_def anchor.defs)
  then show ?thesis using queue_destroy_frees [OF l, of 2] by auto
qed

end
