(* ===== verification/Network.thy ===== *)
theory Network
  imports Protocol Queue
begin

text \<open>
  One connection of the node (\<open>src/infra/network.c\<close>): its send queue, a linked list of chunks that
  several threads append to and that is written to a non-blocking socket, its receive buffer with the
  packet loop, the pacing of a large inventory and the limiter of inbound connections.

  The kernel's side is explicit. What \<open>send\<close>, \<open>write\<close> and \<open>read\<close> return is a list of answers, an
  argument of the operation; a loop that has used up its answers has not returned (\<open>None\<close>).
  \<open>on_wire\<close> is the sequence of bytes the kernel has taken from the socket. The send lock is held
  during every operation on the queue, so the operations of the threads do not overlap.
\<close>

abbreviation INIT_RECV_BUFFER_SIZE :: nat where "INIT_RECV_BUFFER_SIZE \<equiv> 131072"
abbreviation MAX_RECV_BUFFER_SIZE :: nat where "MAX_RECV_BUFFER_SIZE \<equiv> 2 * (24 + 4194304)"
abbreviation BM_SEND_QUEUE_HARD_LIMIT_BYTES :: nat where "BM_SEND_QUEUE_HARD_LIMIT_BYTES \<equiv> 16 * 1024 * 1024"
abbreviation BM_SEND_STALL_TIMEOUT_SECONDS :: int where "BM_SEND_STALL_TIMEOUT_SECONDS \<equiv> 120"
abbreviation BM_BIG_INV_CHUNK_SIZE :: nat where "BM_BIG_INV_CHUNK_SIZE \<equiv> 1000"
abbreviation BM_INBOUND_ACCEPT_WINDOW_SECONDS :: int where "BM_INBOUND_ACCEPT_WINDOW_SECONDS \<equiv> 10"
abbreviation BM_INBOUND_ACCEPT_MAX_PER_WINDOW :: int where "BM_INBOUND_ACCEPT_MAX_PER_WINDOW \<equiv> 20"

section \<open>Connections\<close>

record net_stats =
  net_bytes_sent :: u64
  net_bytes_received :: u64

datatype bm_fd_type = BM_FD_CLIENT_SOCKET | BM_FD_SERVER_SOCKET | BM_FD_LISTEN_SOCKET

text \<open>The length of a chunk is the length of its data.\<close>

record bm_send_chunk =
  chunk_data :: bytes
  chunk_off :: nat

text \<open>
  The receive buffer holds the bytes received and not yet consumed (\<open>length\<close> of them, in an
  allocation of \<open>buf_size\<close>). An array of hashes waiting to be announced is a list, \<open>None\<close> for NULL;
  \<open>upload_pending\<close> is an array of \<open>upload_pending_cap\<close> hashes. The reason of a disconnection is only logged.
\<close>

record bm_fd_data =
  fd_type :: bm_fd_type
  generation :: u64
  buf_size :: nat
  recv_buffer :: bytes
  fd_local_addr :: sockaddr
  fd_peer_addr :: sockaddr
  logical_peer_ip :: bytes
  logical_peer_port :: int
  fd_services :: u64
  last_activity :: int
  handshake_complete :: bool
  should_disconnect :: bool
  disconnect_log_quiet :: bool
  pending_eviction :: bool
  fd_user_agent :: "bytes option"
  fd_bytes_sent :: u64
  fd_bytes_received :: u64
  pending_inv_hashes :: "bytes list option"
  pending_inv_total :: nat
  pending_inv_sent :: nat
  pending_inv_last_chunk_time :: int
  pending_verack_reply_at :: int
  send_queue :: "bm_send_chunk anchor"
  send_queued_bytes :: nat
  last_write_progress :: int
  epoll_registered :: bool
  send_out_armed :: bool
  upload_pending :: "bytes list"
  upload_pending_head :: nat
  upload_pending_count :: nat
  upload_pending_cap :: nat
  upload_sent :: nat
  upload_not_found :: nat
  on_wire :: bytes

text \<open>
  \<open>malloc\<close> for a chunk: an address for a given heap, or nothing. It returns memory that is not in use.
\<close>

type_synonym allocator = "bm_send_chunk heap \<Rightarrow> nat option"

definition alloc_ok :: "allocator \<Rightarrow> bool" where
  "alloc_ok alloc \<longleftrightarrow> (\<forall>h c. alloc h = Some c \<longrightarrow> h c = None)"

definition bm_network_get_stats :: "net_stats \<Rightarrow> u64 \<times> u64" where
  "bm_network_get_stats st = (net_bytes_sent st, net_bytes_received st)"

definition net_stats_add_sent :: "u64 \<Rightarrow> net_stats \<Rightarrow> net_stats" where
  "net_stats_add_sent n st = st\<lparr>net_bytes_sent := net_bytes_sent st + n\<rparr>"

definition net_stats_add_received :: "u64 \<Rightarrow> net_stats \<Rightarrow> net_stats" where
  "net_stats_add_received n st = st\<lparr>net_bytes_received := net_bytes_received st + n\<rparr>"

text \<open>
  \<open>local_name\<close> and \<open>peer_name\<close> are the results of \<open>getsockname\<close> and \<open>getpeername\<close>, \<open>mem\<close> says whether
  the two allocations succeed, \<open>h\<close> is the memory the chunks will live in.
\<close>

definition bm_fd_data_new ::
  "bool \<times> bool \<Rightarrow> bm_fd_type \<Rightarrow> sockaddr option \<Rightarrow> sockaddr option \<Rightarrow> int \<Rightarrow> bm_send_chunk heap \<Rightarrow> bm_fd_data option" where
  "bm_fd_data_new mem type local_name peer_name now h =
     (if \<not> fst mem then None
      else case local_name of
        None \<Rightarrow> None
      | Some local \<Rightarrow>
          (case (if type \<noteq> BM_FD_LISTEN_SOCKET then peer_name else Some AF_OTHER) of
             None \<Rightarrow> None
           | Some peer \<Rightarrow>
               if \<not> snd mem then None
               else Some \<lparr>fd_type = type, generation = 0, buf_size = INIT_RECV_BUFFER_SIZE, recv_buffer = [],
                 fd_local_addr = local, fd_peer_addr = peer, logical_peer_ip = [], logical_peer_port = 0,
                 fd_services = 0, last_activity = now, handshake_complete = False, should_disconnect = False,
                 disconnect_log_quiet = False, pending_eviction = False, fd_user_agent = None, fd_bytes_sent = 0, fd_bytes_received = 0, pending_inv_hashes = None,
                 pending_inv_total = 0, pending_inv_sent = 0, pending_inv_last_chunk_time = 0, pending_verack_reply_at = 0,
                 send_queue = \<lparr>heap = h, head = None, tail = None\<rparr>, send_queued_bytes = 0,
                 last_write_progress = 0, epoll_registered = False, send_out_armed = False,
                 upload_pending = [], upload_pending_head = 0, upload_pending_count = 0, upload_pending_cap = 0,
                 upload_sent = 0, upload_not_found = 0, on_wire = []\<rparr>))"

text \<open>The chunks freed with a connection; the loop is the one of \<open>bm_queue_destroy\<close>.\<close>

definition bm_fd_data_free :: "nat \<Rightarrow> bm_fd_data \<Rightarrow> bm_send_chunk heap outcome" where
  "bm_fd_data_free fuel conn = destroy_loop fuel (head (send_queue conn)) (heap (send_queue conn))"

section \<open>Blocking writes\<close>

text \<open>A socket takes at most as many bytes as it is offered; \<open>Wrote 0\<close> is the end of the stream.\<close>

datatype select_answer = Select_ready | Select_timeout | Select_error
datatype write_answer = Wrote nat | Write_eintr | Write_again select_answer | Write_error

fun write_loop :: "write_answer list \<Rightarrow> bytes \<Rightarrow> bytes \<Rightarrow> (bool \<times> bytes) option" where
  "write_loop as [] out = Some (True, out)"
| "write_loop [] (b # bs) out = None"
| "write_loop (a # as) (b # bs) out =
     (let rest = b # bs
      in case a of
           Wrote k \<Rightarrow>
             (let n = min k (length rest)
              in if n = 0 then Some (False, out) else write_loop as (drop n rest) (out @ take n rest))
         | Write_eintr \<Rightarrow> write_loop as rest out
         | Write_again Select_ready \<Rightarrow> write_loop as rest out
         | Write_again _ \<Rightarrow> Some (False, out)
         | Write_error \<Rightarrow> Some (False, out))"

definition bm_network_write_all :: "write_answer list \<Rightarrow> bytes \<Rightarrow> net_stats \<Rightarrow> (int \<times> bytes \<times> net_stats) option" where
  "bm_network_write_all as data st =
     map_option (\<lambda>(ok, out). if ok then (0, out, net_stats_add_sent (word_of_nat (length data)) st) else (-1, out, st))
       (write_loop as data [])"

section \<open>The send queue\<close>

text \<open>Whether \<open>epoll_ctl\<close> succeeds is \<open>ctl\<close>.\<close>

definition update_out_interest_locked :: "bool \<Rightarrow> bm_fd_data \<Rightarrow> bm_fd_data" where
  "update_out_interest_locked ctl conn =
     (let want = head (send_queue conn) \<noteq> None
      in if \<not> epoll_registered conn \<or> want = send_out_armed conn then conn
         else if ctl then conn\<lparr>send_out_armed := want\<rparr> else conn)"

datatype send_answer = Sent nat | Send_eintr | Send_again | Send_error

text \<open>
  The accounting after \<open>n > 0\<close> bytes of the head chunk, and the head chunk written back with its new
  offset or taken off the list and freed.
\<close>

definition count_sent :: "nat \<Rightarrow> bytes \<Rightarrow> int \<Rightarrow> net_stats \<times> bm_fd_data \<Rightarrow> net_stats \<times> bm_fd_data" where
  "count_sent n data now s =
     (case s of (st, conn) \<Rightarrow>
        (net_stats_add_sent (word_of_nat n) st,
         conn\<lparr>send_queued_bytes := send_queued_bytes conn - n, fd_bytes_sent := fd_bytes_sent conn + word_of_nat n,
           last_write_progress := now, on_wire := on_wire conn @ data\<rparr>))"

definition advance_head :: "nat \<Rightarrow> bm_send_chunk node \<Rightarrow> nat \<Rightarrow> bm_send_chunk anchor \<Rightarrow> bm_send_chunk anchor" where
  "advance_head p nd n q =
     (let c = node_data nd
      in if chunk_off c + n = length (chunk_data c)
         then free_node p (q\<lparr>head := node_next nd, tail := (if node_next nd = None then None else tail q)\<rparr>)
         else q\<lparr>heap := (heap q)(p \<mapsto> nd\<lparr>node_data := c\<lparr>chunk_off := chunk_off c + n\<rparr>\<rparr>)\<rparr>)"

text \<open>The loop ends with \<open>True\<close> when the queue is empty or the socket full, with \<open>False\<close> on an error.\<close>

fun flush_loop ::
  "send_answer list \<Rightarrow> int \<Rightarrow> net_stats \<times> bm_fd_data \<Rightarrow> (bool \<times> net_stats \<times> bm_fd_data) option outcome" where
  "flush_loop as now (st, conn) =
     (case head (send_queue conn) of
        None \<Rightarrow> Done (Some (True, st, conn))
      | Some p \<Rightarrow>
          (case heap (send_queue conn) p of
             None \<Rightarrow> Fault
           | Some nd \<Rightarrow>
               (case as of
                  [] \<Rightarrow> Done None
                | Sent k # as' \<Rightarrow>
                    (let c = node_data nd;
                         offered = drop (chunk_off c) (chunk_data c);
                         n = min k (length offered)
                     in if n = 0 then Done (Some (False, st, conn))
                        else flush_loop as' now (count_sent n (take n offered) now
                          (st, conn\<lparr>send_queue := advance_head p nd n (send_queue conn)\<rparr>)))
                | Send_eintr # as' \<Rightarrow> flush_loop as' now (st, conn)
                | Send_again # as' \<Rightarrow> Done (Some (True, st, conn))
                | Send_error # as' \<Rightarrow> Done (Some (False, st, conn)))))"

declare flush_loop.simps [simp del]

definition flush_locked ::
  "bool \<Rightarrow> send_answer list \<Rightarrow> int \<Rightarrow> net_stats \<times> bm_fd_data \<Rightarrow> (int \<times> net_stats \<times> bm_fd_data) option outcome" where
  "flush_locked ctl as now s =
     bind_outcome (flush_loop as now s)
       (\<lambda>r. Done (map_option (\<lambda>(ok, st, conn).
          if ok then (0, st, update_out_interest_locked ctl conn) else (-1, st, conn)) r))"

text \<open>\<open>new_chunk\<close> is what \<open>malloc\<close> returns.\<close>

definition bm_network_send ::
  "nat option \<Rightarrow> bool \<Rightarrow> send_answer list \<Rightarrow> bytes \<Rightarrow> int \<Rightarrow> net_stats \<times> bm_fd_data
     \<Rightarrow> (int \<times> net_stats \<times> bm_fd_data) option outcome" where
  "bm_network_send new_chunk ctl as data now s =
     (case s of (st, conn) \<Rightarrow>
        if data = [] then Done (Some (0, st, conn))
        else if BM_SEND_QUEUE_HARD_LIMIT_BYTES < send_queued_bytes conn + length data
        then Done (Some (-1, st, conn\<lparr>pending_eviction := True\<rparr>))
        else (case new_chunk of
                None \<Rightarrow> Done (Some (-1, st, conn))
              | Some c \<Rightarrow>
                  bind_outcome (link_tail c \<lparr>chunk_data = data, chunk_off = 0\<rparr> (send_queue conn)) (\<lambda>q.
                  bind_outcome (flush_locked ctl as now (st,
                      conn\<lparr>send_queue := q,
                        last_write_progress := (if tail (send_queue conn) = None then now else last_write_progress conn),
                        send_queued_bytes := send_queued_bytes conn + length data\<rparr>)) (\<lambda>r.
                  Done (map_option (\<lambda>(rc, st', conn').
                    if rc \<noteq> 0 then (-1, st', conn'\<lparr>pending_eviction := True\<rparr>) else (0, st', conn')) r)))))"

definition bm_network_flush ::
  "bool \<Rightarrow> send_answer list \<Rightarrow> int \<Rightarrow> net_stats \<times> bm_fd_data \<Rightarrow> (int \<times> net_stats \<times> bm_fd_data) option outcome" where
  "bm_network_flush ctl as now s = flush_locked ctl as now s"

definition bm_network_queued_bytes :: "bm_fd_data \<Rightarrow> nat" where
  "bm_network_queued_bytes conn = send_queued_bytes conn"

definition bm_network_epoll_register :: "bool \<Rightarrow> bm_fd_data \<Rightarrow> int \<times> bm_fd_data" where
  "bm_network_epoll_register ctl conn =
     (if ctl then (0, conn\<lparr>epoll_registered := True, send_out_armed := head (send_queue conn) \<noteq> None\<rparr>) else (-1, conn))"

definition send_stalled :: "bm_fd_data \<Rightarrow> int \<Rightarrow> bool" where
  "send_stalled conn now \<longleftrightarrow>
     0 < send_queued_bytes conn \<and> BM_SEND_STALL_TIMEOUT_SECONDS < now - last_write_progress conn"

section \<open>Large inventories\<close>

definition send_header_only ::
  "protocol_globals \<Rightarrow> openssl \<Rightarrow> nat option \<Rightarrow> bool \<Rightarrow> send_answer list \<Rightarrow> bytes \<Rightarrow> int \<Rightarrow> net_stats \<times> bm_fd_data
     \<Rightarrow> (int \<times> net_stats \<times> bm_fd_data) option outcome" where
  "send_header_only g ssl new_chunk ctl as command now s =
     bm_network_send new_chunk ctl as (bm_create_packet g ssl command []) now s"

definition bm_reply_verack where
  "bm_reply_verack g ssl new_chunk ctl as now s = send_header_only g ssl new_chunk ctl as (lit ''verack'') now s"

definition bm_reply_pong where
  "bm_reply_pong g ssl new_chunk ctl as now s = send_header_only g ssl new_chunk ctl as (lit ''pong'') now s"

text \<open>\<open>time\<close> and \<open>rnd\<close>: the time and the random nonce of the message.\<close>

definition bm_post_version ::
  "protocol_globals \<Rightarrow> openssl \<Rightarrow> u64 \<Rightarrow> u64 option \<Rightarrow> nat option \<Rightarrow> bool \<Rightarrow> send_answer list \<Rightarrow> bytes \<Rightarrow> u32 \<Rightarrow> sockaddr
     \<Rightarrow> sockaddr \<Rightarrow> int \<Rightarrow> net_stats \<times> bm_fd_data \<Rightarrow> (int \<times> net_stats \<times> bm_fd_data) option outcome" where
  "bm_post_version g ssl time rnd new_chunk ctl as user_agent version peer_addr local_addr now s =
     bm_network_send new_chunk ctl as (bm_new_version_message g ssl time rnd user_agent version peer_addr local_addr) now s"

text \<open>
  The next chunk of the hashes waiting to be announced. \<open>packet_mem\<close> says whether the packet could be
  allocated; an array with fewer hashes than \<open>pending_inv_total\<close> would be read out of bounds.
\<close>

definition send_inv_chunk ::
  "protocol_globals \<Rightarrow> openssl \<Rightarrow> bool \<Rightarrow> nat option \<Rightarrow> bool \<Rightarrow> send_answer list \<Rightarrow> int \<Rightarrow> net_stats \<times> bm_fd_data
     \<Rightarrow> (net_stats \<times> bm_fd_data) option outcome" where
  "send_inv_chunk g ssl packet_mem new_chunk ctl as now s =
     (case s of (st, conn) \<Rightarrow>
        let remaining = pending_inv_total conn - pending_inv_sent conn;
            n = (if remaining < BM_BIG_INV_CHUNK_SIZE then remaining else BM_BIG_INV_CHUNK_SIZE)
        in case pending_inv_hashes conn of
             None \<Rightarrow> Fault
           | Some hashes \<Rightarrow>
               if length hashes < pending_inv_sent conn + n then Fault
               else
                 let packet = bm_create_inventory_message g ssl (lit ''inv'')
                       (take n (drop (pending_inv_sent conn) hashes));
                     conn1 = conn\<lparr>pending_inv_last_chunk_time := now\<rparr>
                 in if \<not> packet_mem then Done (Some (st, conn1\<lparr>pending_inv_hashes := None\<rparr>))
                    else bind_outcome (bm_network_send new_chunk ctl as packet now (st, conn1)) (\<lambda>r.
                      Done (map_option (\<lambda>(rc, st', conn').
                        if rc \<noteq> 0 then (st', conn'\<lparr>pending_inv_hashes := None\<rparr>)
                        else
                          let sent = pending_inv_sent conn' + n
                          in (st', conn'\<lparr>pending_inv_sent := sent,
                                pending_inv_hashes := (if pending_inv_total conn' \<le> sent then None
                                  else pending_inv_hashes conn')\<rparr>)) r)))"

definition bm_network_begin_big_inv ::
  "protocol_globals \<Rightarrow> openssl \<Rightarrow> bool \<Rightarrow> nat option \<Rightarrow> bool \<Rightarrow> send_answer list \<Rightarrow> bytes list \<Rightarrow> nat \<Rightarrow> int
     \<Rightarrow> net_stats \<times> bm_fd_data \<Rightarrow> (net_stats \<times> bm_fd_data) option outcome" where
  "bm_network_begin_big_inv g ssl packet_mem new_chunk ctl as hashes count now s =
     (case s of (st, conn) \<Rightarrow>
        send_inv_chunk g ssl packet_mem new_chunk ctl as now
          (st, conn\<lparr>pending_inv_hashes := Some hashes, pending_inv_total := count, pending_inv_sent := 0\<rparr>))"

section \<open>Receiving\<close>

datatype read_answer = Read bytes | Read_eof | Read_again | Read_error

text \<open>Doubling the receive buffer until it holds \<open>need\<close> bytes.\<close>

function grow_buffer :: "nat \<Rightarrow> nat \<Rightarrow> nat" where
  "grow_buffer new_size need = (if new_size = 0 then 0 else if new_size < need then grow_buffer (2 * new_size) need else new_size)"
  by auto
termination
  by (relation "measure (\<lambda>(new_size, need). need - new_size)") auto

declare grow_buffer.simps [simp del]

text \<open>
  The first loop of \<open>bm_network_handle_readable\<close>: the result of the function when it returns from
  this loop (\<open>Inl\<close>), else the connection with the bytes appended. \<open>mem\<close> says which sizes \<open>realloc\<close>
  can give. A copy that would not fit the buffer is a fault.
\<close>

fun read_loop ::
  "(nat \<Rightarrow> bool) \<Rightarrow> read_answer list \<Rightarrow> int \<Rightarrow> net_stats \<times> bm_fd_data
     \<Rightarrow> ((int + unit) \<times> net_stats \<times> bm_fd_data) option outcome" where
  "read_loop mem [] now s = Done None"
| "read_loop mem (Read_again # as) now s = Done (Some (Inr (), s))"
| "read_loop mem (Read_error # as) now s = Done (Some (Inl (-1), s))"
| "read_loop mem (Read_eof # as) now s = Done (Some (Inl 1, s))"
| "read_loop mem (Read bs # as) now (st, conn) =
     (let st' = net_stats_add_received (word_of_nat (length bs)) st;
          conn1 = conn\<lparr>last_activity := now, fd_bytes_received := fd_bytes_received conn + word_of_nat (length bs)\<rparr>;
          need = length (recv_buffer conn1) + length bs;
          new_size = (if buf_size conn1 < need then grow_buffer (buf_size conn1) need else buf_size conn1)
      in if buf_size conn1 < need \<and> (MAX_RECV_BUFFER_SIZE < new_size \<or> \<not> mem new_size)
         then Done (Some (Inl (-1), st', conn1))
         else if new_size < need then Fault
         else read_loop mem as now (st', conn1\<lparr>buf_size := new_size, recv_buffer := recv_buffer conn1 @ bs\<rparr>))"

text \<open>
  The packet loop. \<open>handler\<close> is the command handler with its \<open>user_data\<close> \<open>u\<close>; it changes the connection
  but not the receive buffer, which the loop owns.
\<close>

function parse_loop ::
  "protocol_globals \<Rightarrow> openssl \<Rightarrow> (bm_message \<Rightarrow> 'u \<times> bm_fd_data \<Rightarrow> 'u \<times> bm_fd_data) \<Rightarrow> bytes \<Rightarrow> 'u \<times> bm_fd_data
     \<Rightarrow> int \<times> 'u \<times> bm_fd_data" where
  "parse_loop g ssl handler buf (u, conn) =
     (case bm_parse_message g ssl buf of
        BM_PARSE_INCOMPLETE \<Rightarrow> (0, u, conn\<lparr>recv_buffer := buf\<rparr>)
      | BM_PARSE_BAD_CHECKSUM consumed \<Rightarrow> parse_loop g ssl handler (drop consumed buf) (u, conn)
      | BM_PARSE_BAD_MAGIC consumed \<Rightarrow> parse_loop g ssl handler (drop consumed buf) (u, conn)
      | BM_PARSE_MESSAGE_TOO_LARGE \<Rightarrow> (-1, u, conn\<lparr>recv_buffer := buf\<rparr>)
      | BM_PARSE_OK msg consumed \<Rightarrow>
          (let rest = drop consumed buf;
               (u', conn') = handler msg (u, conn\<lparr>recv_buffer := rest\<rparr>)
           in if should_disconnect conn' then (-1, u', conn'\<lparr>recv_buffer := rest\<rparr>)
              else parse_loop g ssl handler rest (u', conn')))"
  by pat_completeness auto
termination
  by (relation "measure (\<lambda>(g, ssl, handler, buf, s). length buf)") (auto dest: bm_parse_message_consumed)

declare parse_loop.simps [simp del]

definition bm_network_handle_readable ::
  "protocol_globals \<Rightarrow> openssl \<Rightarrow> (bm_message \<Rightarrow> 'u \<times> bm_fd_data \<Rightarrow> 'u \<times> bm_fd_data) \<Rightarrow> (nat \<Rightarrow> bool)
     \<Rightarrow> read_answer list \<Rightarrow> int \<Rightarrow> net_stats \<Rightarrow> 'u \<times> bm_fd_data \<Rightarrow> (int \<times> net_stats \<times> 'u \<times> bm_fd_data) option outcome" where
  "bm_network_handle_readable g ssl handler mem as now st s =
     (case s of (u, conn) \<Rightarrow>
        bind_outcome (read_loop mem as now (st, conn)) (\<lambda>r. Done (map_option (\<lambda>(ret, st', conn').
          case ret of
            Inl rc \<Rightarrow> (rc, st', u, conn')
          | Inr _ \<Rightarrow> (case parse_loop g ssl handler (recv_buffer conn') (u, conn') of (rc, s') \<Rightarrow> (rc, st', s'))) r)))"

section \<open>The inbound limiter\<close>

record bm_inbound_rate_limiter =
  window_start :: int
  count_in_window :: int

definition bm_inbound_rate_limiter_init :: bm_inbound_rate_limiter where
  "bm_inbound_rate_limiter_init = \<lparr>window_start = 0, count_in_window = 0\<rparr>"

definition bm_inbound_rate_limiter_allow :: "int \<Rightarrow> bm_inbound_rate_limiter \<Rightarrow> bool \<times> bm_inbound_rate_limiter" where
  "bm_inbound_rate_limiter_allow now rl =
     (let rl1 = (if BM_INBOUND_ACCEPT_WINDOW_SECONDS \<le> now - window_start rl
                 then \<lparr>window_start = now, count_in_window = 0\<rparr> else rl);
          rl2 = rl1\<lparr>count_in_window := count_in_window rl1 + 1\<rparr>
      in (count_in_window rl2 \<le> BM_INBOUND_ACCEPT_MAX_PER_WINDOW, rl2))"

section \<open>Peer names\<close>

text \<open>\<open>ntop\<close> is \<open>inet_ntop\<close>: the text of an address.\<close>

definition bm_network_extract_ip_port :: "(sockaddr \<Rightarrow> bytes) \<Rightarrow> sockaddr \<Rightarrow> bytes \<times> int" where
  "bm_network_extract_ip_port ntop addr =
     (case addr of
        AF_INET sin_addr sin_port \<Rightarrow> (ntop addr, int (be_nat sin_port))
      | AF_INET6 sin6_addr sin6_port \<Rightarrow> (ntop addr, int (be_nat sin6_port))
      | AF_OTHER \<Rightarrow> ([], 0))"

definition bm_network_resolve_peer_ip_port :: "(sockaddr \<Rightarrow> bytes) \<Rightarrow> bm_fd_data \<Rightarrow> bytes \<times> int" where
  "bm_network_resolve_peer_ip_port ntop conn =
     (if c_str (logical_peer_ip conn) \<noteq> [] then (c_str (logical_peer_ip conn), logical_peer_port conn)
      else bm_network_extract_ip_port ntop (fd_peer_addr conn))"

section \<open>Lemmas: the queue holds a byte stream\<close>

definition unsent :: "bm_send_chunk list \<Rightarrow> bytes" where
  "unsent cs = concat (map (\<lambda>c. drop (chunk_off c) (chunk_data c)) cs)"

text \<open>\<open>pend\<close> is queued: the unsent parts of the linked chunks, none of them empty, correctly counted.\<close>

definition send_holds :: "bm_fd_data \<Rightarrow> bytes \<Rightarrow> bool" where
  "send_holds conn pend \<longleftrightarrow>
     (\<exists>cs. linked (send_queue conn) cs \<and> (\<forall>c\<in>set cs. chunk_off c < length (chunk_data c)) \<and> pend = unsent cs) \<and>
     send_queued_bytes conn = length pend"

lemma unsent_simps [simp]:
  "unsent [] = []" "unsent (c # cs) = drop (chunk_off c) (chunk_data c) @ unsent cs"
  "unsent (cs @ ds) = unsent cs @ unsent ds"
  by (simp_all add: unsent_def)

lemma unsent_eq_Nil: "\<forall>c\<in>set cs. chunk_off c < length (chunk_data c) \<Longrightarrow> unsent cs = [] \<longleftrightarrow> cs = []"
  by (cases cs) auto

lemma linked_head: "linked q cs \<Longrightarrow> head q = None \<longleftrightarrow> cs = []" "linked q cs \<Longrightarrow> tail q = None \<longleftrightarrow> cs = []"
  by (auto simp: linked_def list_at_def head_None_iff split: if_splits dest: head_None_iff)
    (metis chain.simps(1) list.exhaust option.distinct(1) chain.simps(2) surj_pair)+

lemma send_holds_head: "send_holds conn pend \<Longrightarrow> head (send_queue conn) = None \<longleftrightarrow> pend = []"
  by (auto simp: send_holds_def linked_head unsent_eq_Nil)

lemma linked_Cons:
  assumes "linked q (c # cs)"
  obtains p nd where "head q = Some p" "heap q p = Some nd" "node_data nd = c"
    "\<And>c'. linked (q\<lparr>heap := (heap q)(p \<mapsto> nd\<lparr>node_data := c'\<rparr>)\<rparr>) (c' # cs)"
    "linked (free_node p (q\<lparr>head := node_next nd, tail := (if node_next nd = None then None else tail q)\<rparr>)) cs"
proof -
  obtain p ns where l: "list_at q ((p, c) # ns)" "cs = map snd ns"
    using assms by (auto simp: linked_def Cons_eq_map_conv)
  then obtain nd where nd: "head q = Some p" "heap q p = Some nd" "node_data nd = c" "chain (heap q) (node_next nd) ns"
    by (auto simp: list_at_def split: option.splits)
  have "list_at (q\<lparr>heap := (heap q)(p \<mapsto> nd\<lparr>node_data := c'\<rparr>)\<rparr>) ((p, c') # ns)" for c'
    using l(1) nd by (auto simp: list_at_def chain_update)
  then have upd: "linked (q\<lparr>heap := (heap q)(p \<mapsto> nd\<lparr>node_data := c'\<rparr>)\<rparr>) (c' # cs)" for c'
    unfolding linked_def l(2) by (metis list.simps(9) snd_conv)
  have "linked (free_node p (q\<lparr>head := node_next nd, tail := (if node_next nd = None then None else tail q)\<rparr>)) cs"
    using list_at_unlink_head [OF l(1)] nd(1,2) l(2) by (auto simp: unlink_head_def linked_def)
  with that nd(1-3) upd show thesis by blast
qed

text \<open>One answer of the socket moves a piece of the stream from the queue to the wire.\<close>

lemma send_holds_Cons:
  assumes "send_holds conn pend" "head (send_queue conn) = Some p"
  shows "\<exists>nd ds. heap (send_queue conn) p = Some nd \<and> linked (send_queue conn) (node_data nd # ds) \<and>
    (\<forall>c\<in>set (node_data nd # ds). chunk_off c < length (chunk_data c)) \<and>
    pend = drop (chunk_off (node_data nd)) (chunk_data (node_data nd)) @ unsent ds"
proof -
  obtain cs where cs: "linked (send_queue conn) cs" "\<forall>c\<in>set cs. chunk_off c < length (chunk_data c)" "pend = unsent cs"
    using assms(1) by (auto simp: send_holds_def)
  then obtain c ds where c: "cs = c # ds" using assms(2) linked_head(1) [OF cs(1)] by (cases cs) auto
  obtain p' nd where "head (send_queue conn) = Some p'" "heap (send_queue conn) p' = Some nd" "node_data nd = c"
    using linked_Cons [of "send_queue conn" c ds] cs(1) c by metis
  with assms(2) cs c show ?thesis by auto
qed

lemma linked_advance_head:
  assumes "linked q (c # ds)" "head q = Some p" "heap q p = Some nd" "node_data nd = c" "0 < n"
    "chunk_off c + n \<le> length (chunk_data c)"
  shows "linked (advance_head p nd n q)
    (if chunk_off c + n = length (chunk_data c) then ds else c\<lparr>chunk_off := chunk_off c + n\<rparr> # ds)"
proof -
  obtain p' nd' where "head q = Some p'" "heap q p' = Some nd'"
    and l: "linked (q\<lparr>heap := (heap q)(p' \<mapsto> nd'\<lparr>node_data := c\<lparr>chunk_off := chunk_off c + n\<rparr>\<rparr>)\<rparr>)
        (c\<lparr>chunk_off := chunk_off c + n\<rparr> # ds)"
      "linked (free_node p' (q\<lparr>head := node_next nd', tail := (if node_next nd' = None then None else tail q)\<rparr>)) ds"
    using linked_Cons [OF assms(1)] by metis
  then have "p' = p" "nd' = nd" using assms(2,3) by simp_all
  with l assms(4) show ?thesis by (simp add: advance_head_def)
qed

lemma flush_round:
  assumes "send_holds conn pend" "head (send_queue conn) = Some p" "heap (send_queue conn) p = Some nd"
    and n: "0 < n" "n \<le> length (drop (chunk_off (node_data nd)) (chunk_data (node_data nd)))"
    and "count_sent n (take n (drop (chunk_off (node_data nd)) (chunk_data (node_data nd)))) now
        (st, conn\<lparr>send_queue := advance_head p nd n (send_queue conn)\<rparr>) = (st', conn')"
  shows "send_holds conn' (drop n pend) \<and> n \<le> length pend \<and> on_wire conn' = on_wire conn @ take n pend \<and>
    epoll_registered conn' = epoll_registered conn \<and> pending_eviction conn' = pending_eviction conn"
proof -
  let ?c = "node_data nd"
  obtain ds where ds: "linked (send_queue conn) (?c # ds)" "\<forall>c\<in>set (?c # ds). chunk_off c < length (chunk_data c)"
    "pend = drop (chunk_off ?c) (chunk_data ?c) @ unsent ds"
    using send_holds_Cons [OF assms(1,2)] assms(3) by auto
  define es where "es = (if chunk_off ?c + n = length (chunk_data ?c) then ds
    else ?c\<lparr>chunk_off := chunk_off ?c + n\<rparr> # ds)"
  have "linked (advance_head p nd n (send_queue conn)) es"
    unfolding es_def using n by (intro linked_advance_head [OF ds(1) assms(2,3) refl]) auto
  moreover have u: "drop n pend = unsent es" using n by (auto simp: es_def ds(3) add.commute)
  moreover have "length pend - n = length (unsent es)" unfolding u [symmetric] by simp
  moreover have "\<forall>c\<in>set es. chunk_off c < length (chunk_data c)" using ds(2) n by (auto simp: es_def)
  moreover have "send_queued_bytes conn = length pend" using assms(1) by (simp add: send_holds_def)
  ultimately show ?thesis using assms(6) n by (auto simp: count_sent_def send_holds_def ds(3) simp del: drop_append)
qed

definition progress :: "send_answer list \<Rightarrow> nat" where
  "progress as = length (filter (\<lambda>a. a \<noteq> Send_eintr) as)"

text \<open>
  Flushing never faults; when it returns, it has moved a prefix of the queued bytes to the wire, and it
  returns as soon as the socket has given as many answers other than \<open>EINTR\<close> as there are bytes queued.
\<close>

lemma flush_loop_stream:
  "send_holds conn pend \<Longrightarrow>
    \<exists>r. flush_loop as now (st, conn) = Done r \<and> (length pend \<le> progress as \<longrightarrow> r \<noteq> None) \<and>
      (\<forall>ok st' conn'. r = Some (ok, st', conn') \<longrightarrow>
        (\<exists>k. send_holds conn' (drop k pend) \<and> on_wire conn' = on_wire conn @ take k pend) \<and>
        epoll_registered conn' = epoll_registered conn \<and> pending_eviction conn' = pending_eviction conn)"
proof (induction as arbitrary: conn pend st)
  case Nil
  show ?case
  proof (cases "head (send_queue conn)")
    case None
    then show ?thesis using Nil by (subst flush_loop.simps) (auto intro: exI [of _ 0])
  next
    case (Some p)
    then obtain nd where "heap (send_queue conn) p = Some nd" using send_holds_Cons [OF Nil] by blast
    then show ?thesis using Some send_holds_head [OF Nil] by (subst flush_loop.simps) (auto simp: progress_def)
  qed
next
  case (Cons a as)
  show ?case
  proof (cases "head (send_queue conn)")
    case None
    then show ?thesis using Cons.prems by (subst flush_loop.simps) (auto intro: exI [of _ 0])
  next
    case (Some p)
    obtain nd where nd: "heap (send_queue conn) p = Some nd" using send_holds_Cons [OF Cons.prems Some] by blast
    let ?offered = "drop (chunk_off (node_data nd)) (chunk_data (node_data nd))"
    have stop: ?thesis if "flush_loop (a # as) now (st, conn) = Done (Some (b, st, conn))" for b
      using that Cons.prems by (auto intro: exI [of _ 0])
    show ?thesis
    proof (cases a)
      case (Sent k)
      show ?thesis
      proof (cases "min k (length ?offered) = 0")
        case True
        then show ?thesis using Some nd Sent by (intro stop [of False]) (subst flush_loop.simps, simp add: Let_def)
      next
        case False
        let ?n = "min k (length ?offered)"
        obtain st1 conn1 where c: "count_sent ?n (take ?n ?offered) now
            (st, conn\<lparr>send_queue := advance_head p nd ?n (send_queue conn)\<rparr>) = (st1, conn1)" by force
        have c1: "send_holds conn1 (drop ?n pend)" "?n \<le> length pend" "on_wire conn1 = on_wire conn @ take ?n pend"
          "epoll_registered conn1 = epoll_registered conn" "pending_eviction conn1 = pending_eviction conn"
          using flush_round [OF Cons.prems Some nd _ _ c] False by auto
        have eq: "flush_loop (a # as) now (st, conn) = flush_loop as now (st1, conn1)"
          unfolding flush_loop.simps [of "a # as"] Some
          by (simp only: nd Sent option.case list.case send_answer.case Let_def c if_not_P [OF False])
        obtain r where r: "flush_loop as now (st1, conn1) = Done r" "length (drop ?n pend) \<le> progress as \<longrightarrow> r \<noteq> None"
          "\<forall>ok st' conn'. r = Some (ok, st', conn') \<longrightarrow>
            (\<exists>k. send_holds conn' (drop k (drop ?n pend)) \<and> on_wire conn' = on_wire conn1 @ take k (drop ?n pend)) \<and>
            epoll_registered conn' = epoll_registered conn1 \<and> pending_eviction conn' = pending_eviction conn1"
          using Cons.IH [OF c1(1), of st1] by blast
        have join: "on_wire conn1 @ take j (drop ?n pend) = on_wire conn @ take (?n + j) pend" for j
          by (simp add: c1(3) take_add)
        have "progress (a # as) = Suc (progress as)" by (simp add: progress_def Sent)
        with r(2) False c1(2) have "length pend \<le> progress (a # as) \<longrightarrow> r \<noteq> None" by auto
        then show ?thesis unfolding eq using r(1,3) c1(4,5) join by (auto simp: add.commute)
      qed
    next
      case Send_eintr
      then have "flush_loop (a # as) now (st, conn) = flush_loop as now (st, conn)"
        using Some nd by (subst flush_loop.simps) simp
      then show ?thesis using Cons.IH [OF Cons.prems, of st] by (simp add: progress_def Send_eintr)
    next
      case Send_again
      then show ?thesis using Some nd by (intro stop [of True]) (subst flush_loop.simps, simp)
    next
      case Send_error
      then show ?thesis using Some nd by (intro stop [of False]) (subst flush_loop.simps, simp)
    qed
  qed
qed


text \<open>What holds between operations: the queue is within its limit and the socket is watched while bytes wait.\<close>

definition send_ok :: "bm_fd_data \<Rightarrow> bytes \<Rightarrow> bool" where
  "send_ok conn pend \<longleftrightarrow>
     send_holds conn pend \<and> length pend \<le> BM_SEND_QUEUE_HARD_LIMIT_BYTES \<and>
     (epoll_registered conn \<longrightarrow> pending_eviction conn \<or> (send_out_armed conn \<longleftrightarrow> pend \<noteq> []))"

lemma send_holds_update [simp]:
  "send_holds (conn\<lparr>send_out_armed := b\<rparr>) pend = send_holds conn pend"
  "send_holds (conn\<lparr>pending_eviction := b\<rparr>) pend = send_holds conn pend"
  "send_holds (conn\<lparr>epoll_registered := b\<rparr>) pend = send_holds conn pend"
  by (simp_all add: send_holds_def)

lemma update_out_interest_holds [simp]:
  "send_holds (update_out_interest_locked ctl conn) pend = send_holds conn pend"
  "on_wire (update_out_interest_locked ctl conn) = on_wire conn"
  "epoll_registered (update_out_interest_locked ctl conn) = epoll_registered conn"
  "pending_eviction (update_out_interest_locked ctl conn) = pending_eviction conn"
  by (auto simp: update_out_interest_locked_def Let_def)

lemma update_out_interest_armed:
  "send_holds conn pend \<Longrightarrow> epoll_registered conn \<Longrightarrow>
    send_out_armed (update_out_interest_locked True conn) \<longleftrightarrow> pend \<noteq> []"
  by (auto simp: update_out_interest_locked_def Let_def send_holds_head)

lemma flush_locked_stream:
  assumes "send_holds conn pend"
  shows "\<exists>r. flush_locked True as now (st, conn) = Done r \<and> (length pend \<le> progress as \<longrightarrow> r \<noteq> None) \<and>
    (\<forall>rc st' conn'. r = Some (rc, st', conn') \<longrightarrow> rc \<in> {0, -1} \<and>
      (\<exists>k. send_holds conn' (drop k pend) \<and> on_wire conn' = on_wire conn @ take k pend \<and>
        (rc = 0 \<longrightarrow> epoll_registered conn' \<longrightarrow> (send_out_armed conn' \<longleftrightarrow> drop k pend \<noteq> []))) \<and>
      epoll_registered conn' = epoll_registered conn \<and> pending_eviction conn' = pending_eviction conn)"
proof -
  obtain r where r: "flush_loop as now (st, conn) = Done r" "length pend \<le> progress as \<longrightarrow> r \<noteq> None"
    "\<forall>ok st' conn'. r = Some (ok, st', conn') \<longrightarrow>
      (\<exists>k. send_holds conn' (drop k pend) \<and> on_wire conn' = on_wire conn @ take k pend) \<and>
      epoll_registered conn' = epoll_registered conn \<and> pending_eviction conn' = pending_eviction conn"
    using flush_loop_stream [OF assms, of as now st] by (elim exE conjE) (rule that)
  show ?thesis
  proof (cases r)
    case None
    then show ?thesis using r(1,2) by (auto simp: flush_locked_def)
  next
    case (Some x)
    obtain ok st' conn' where x: "x = (ok, st', conn')" by (cases x)
    obtain k where k: "send_holds conn' (drop k pend)" "on_wire conn' = on_wire conn @ take k pend"
      "epoll_registered conn' = epoll_registered conn" "pending_eviction conn' = pending_eviction conn"
      using r(3) Some x by blast
    have "flush_locked True as now (st, conn) =
        Done (Some (if ok then (0, st', update_out_interest_locked True conn') else (-1, st', conn')))"
      using r(1) Some x by (simp add: flush_locked_def)
    then show ?thesis using k update_out_interest_armed [OF k(1)]
      by (auto intro!: exI [of _ k] split: if_splits)
  qed
qed

text \<open>The data of a send enters the stream when it is within the limit and a chunk could be allocated.\<close>

definition accepts :: "nat option \<Rightarrow> bytes \<Rightarrow> bm_fd_data \<Rightarrow> bool" where
  "accepts new_chunk data conn \<longleftrightarrow>
     new_chunk \<noteq> None \<and> send_queued_bytes conn + length data \<le> BM_SEND_QUEUE_HARD_LIMIT_BYTES"

lemma send_stream_step:
  fixes data :: bytes
  assumes ok: "send_ok conn pend" and new: "\<forall>c. new_chunk = Some c \<longrightarrow> heap (send_queue conn) c = None"
  defines "pend' \<equiv> (if accepts new_chunk data conn then pend @ data else pend)"
  shows "\<exists>r. bm_network_send new_chunk True as data now (st, conn) = Done r \<and>
    (length pend' \<le> progress as \<longrightarrow> r \<noteq> None) \<and>
    (\<forall>rc st' conn'. r = Some (rc, st', conn') \<longrightarrow> rc \<in> {0, -1} \<and> (rc = 0 \<longrightarrow> accepts new_chunk data conn \<or> data = []) \<and>
      (\<exists>k. send_ok conn' (drop k pend') \<and> on_wire conn' = on_wire conn @ take k pend'))"
proof -
  have h: "send_holds conn pend" using ok by (simp add: send_ok_def)
  have q: "send_queued_bytes conn = length pend" using h by (simp add: send_holds_def)
  consider "data = []" | "data \<noteq> []" "BM_SEND_QUEUE_HARD_LIMIT_BYTES < length pend + length data"
    | "data \<noteq> []" "length pend + length data \<le> BM_SEND_QUEUE_HARD_LIMIT_BYTES" "new_chunk = None"
    | c where "data \<noteq> []" "length pend + length data \<le> BM_SEND_QUEUE_HARD_LIMIT_BYTES" "new_chunk = Some c"
    by (cases new_chunk) force+
  then show ?thesis
  proof cases
    case 1
    then show ?thesis using ok by (auto simp: bm_network_send_def pend'_def intro: exI [of _ 0])
  next
    case 2
    then have "send_ok (conn\<lparr>pending_eviction := True\<rparr>) pend" using ok by (simp add: send_ok_def send_holds_def)
    then show ?thesis using 2 q by (auto simp: bm_network_send_def pend'_def accepts_def intro: exI [of _ 0])
  next
    case 3
    then show ?thesis using ok q by (auto simp: bm_network_send_def pend'_def accepts_def intro: exI [of _ 0])
  next
    case (4 c)
    let ?q = "send_queue conn" and ?new = "\<lparr>chunk_data = data, chunk_off = 0\<rparr>"
    have acc: "accepts new_chunk data conn" "pend' = pend @ data" using 4 q by (simp_all add: accepts_def pend'_def)
    obtain cs where cs: "linked ?q cs" "\<forall>c\<in>set cs. chunk_off c < length (chunk_data c)" "pend = unsent cs"
      using h by (auto simp: send_holds_def)
    obtain q' where q': "link_tail c ?new ?q = Done q'" "linked q' (cs @ [?new])"
      using linked.enq_rep [OF cs(1)] new 4(3) by blast
    define conn1 where "conn1 = conn\<lparr>send_queue := q',
      last_write_progress := (if tail ?q = None then now else last_write_progress conn),
      send_queued_bytes := send_queued_bytes conn + length data\<rparr>"
    have h1: "send_holds conn1 pend'"
      unfolding send_holds_def acc(2) using q' cs(2,3) 4(1) q
      by (auto simp: conn1_def intro!: exI [of _ "cs @ [?new]"])
    obtain r where r: "flush_locked True as now (st, conn1) = Done r" "length pend' \<le> progress as \<longrightarrow> r \<noteq> None"
      "\<forall>rc st' conn'. r = Some (rc, st', conn') \<longrightarrow> rc \<in> {0, -1} \<and>
        (\<exists>k. send_holds conn' (drop k pend') \<and> on_wire conn' = on_wire conn1 @ take k pend' \<and>
          (rc = 0 \<longrightarrow> epoll_registered conn' \<longrightarrow> (send_out_armed conn' \<longleftrightarrow> drop k pend' \<noteq> []))) \<and>
        epoll_registered conn' = epoll_registered conn1 \<and> pending_eviction conn' = pending_eviction conn1"
      using flush_locked_stream [OF h1, of as now st] by (elim exE conjE) (rule that)
    have eq: "bm_network_send new_chunk True as data now (st, conn) = Done (map_option (\<lambda>(rc, st', conn').
        if rc \<noteq> 0 then (-1, st', conn'\<lparr>pending_eviction := True\<rparr>) else (0, st', conn')) r)"
      using 4 q q'(1) r(1) by (simp add: bm_network_send_def conn1_def)
    have small: "length (drop k pend') \<le> BM_SEND_QUEUE_HARD_LIMIT_BYTES" for k using 4(2) acc(2) by simp
    have "on_wire conn1 = on_wire conn" by (simp add: conn1_def)
    then show ?thesis
    proof (cases r)
      case None
      then show ?thesis unfolding eq using r(2) by simp
    next
      case (Some x)
      obtain rc st' conn' where x: "x = (rc, st', conn')" by (cases x)
      obtain k where k: "send_holds conn' (drop k pend')" "on_wire conn' = on_wire conn1 @ take k pend'"
        "rc = 0 \<longrightarrow> epoll_registered conn' \<longrightarrow> (send_out_armed conn' \<longleftrightarrow> drop k pend' \<noteq> [])"
        using r(3) Some x by blast
      have "send_ok (if rc \<noteq> 0 then conn'\<lparr>pending_eviction := True\<rparr> else conn') (drop k pend')"
        using k(1,3) small [of k] by (auto simp: send_ok_def)
      then show ?thesis
        unfolding eq using k(2) acc(1) Some x \<open>on_wire conn1 = on_wire conn\<close>
        by (auto intro!: exI [of _ k] split: if_splits)
    qed
  qed
qed

section \<open>Threads sharing a connection\<close>

text \<open>
  Operations on a connection, in any order and from any thread; the log is the data accepted so far. A
  connection whose flush fails is closed by the thread that flushed it, so that step has no successor
  here. \<open>epoll_ctl\<close> succeeds on a descriptor that is registered.
\<close>

inductive send_step :: "net_stats \<times> bm_fd_data \<times> bytes \<Rightarrow> net_stats \<times> bm_fd_data \<times> bytes \<Rightarrow> bool" where
  step_send: "\<forall>c. new_chunk = Some c \<longrightarrow> heap (send_queue conn) c = None \<Longrightarrow>
    bm_network_send new_chunk True as data now (st, conn) = Done (Some (rc, st', conn')) \<Longrightarrow>
    send_step (st, conn, log) (st', conn', if accepts new_chunk data conn then log @ data else log)"
| step_flush: "bm_network_flush True as now (st, conn) = Done (Some (0, st', conn')) \<Longrightarrow>
    send_step (st, conn, log) (st', conn', log)"
| step_register: "bm_network_epoll_register True conn = (0, conn') \<Longrightarrow> send_step (st, conn, log) (st, conn', log)"
| step_evict: "send_step (st, conn, log) (st, conn\<lparr>pending_eviction := True\<rparr>, log)"

definition send_inv :: "net_stats \<times> bm_fd_data \<times> bytes \<Rightarrow> bool" where
  "send_inv s = (case s of (st, conn, log) \<Rightarrow> \<exists>pend. send_ok conn pend \<and> log = on_wire conn @ pend)"

lemma send_inv_new:
  "bm_fd_data_new mem type local_name peer_name now h = Some conn \<Longrightarrow> send_inv (st, conn, [])"
  by (auto simp: bm_fd_data_new_def send_inv_def send_ok_def send_holds_def linked_def list_at_def
      intro!: exI [of _ "[]"] split: if_splits option.splits)

lemma flush_stream_step:
  assumes "send_ok conn pend" "bm_network_flush True as now (st, conn) = Done (Some (0, st', conn'))"
  shows "\<exists>k. send_ok conn' (drop k pend) \<and> on_wire conn' = on_wire conn @ take k pend"
proof -
  have h: "send_holds conn pend" "length pend \<le> BM_SEND_QUEUE_HARD_LIMIT_BYTES" using assms(1) by (simp_all add: send_ok_def)
  then obtain k where "send_holds conn' (drop k pend)" "on_wire conn' = on_wire conn @ take k pend"
    "epoll_registered conn' \<longrightarrow> (send_out_armed conn' \<longleftrightarrow> drop k pend \<noteq> [])"
    using flush_locked_stream [OF h(1), of as now st] assms(2) by (auto simp: bm_network_flush_def)
  with h(2) show ?thesis by (auto simp: send_ok_def intro!: exI [of _ k])
qed

lemma send_inv_step: "send_step s t \<Longrightarrow> send_inv s \<Longrightarrow> send_inv t"
proof (induction rule: send_step.induct)
  case (step_send new_chunk conn as data now st rc st' conn' log)
  then obtain pend where pend: "send_ok conn pend" "log = on_wire conn @ pend" by (auto simp: send_inv_def)
  let ?p = "if accepts new_chunk data conn then pend @ data else pend"
  obtain k where "send_ok conn' (drop k ?p)" "on_wire conn' = on_wire conn @ take k ?p"
    using send_stream_step [OF pend(1) step_send.hyps(1), where data = data and as = as and now = now and st = st] step_send.hyps(2) by auto
  moreover have "(if accepts new_chunk data conn then log @ data else log) = on_wire conn @ ?p" using pend(2) by simp
  ultimately show ?case unfolding send_inv_def split by (metis append.assoc append_take_drop_id)
next
  case (step_flush as now st conn st' conn' log)
  then obtain pend where pend: "send_ok conn pend" "log = on_wire conn @ pend" by (auto simp: send_inv_def)
  with flush_stream_step [OF pend(1) step_flush.hyps] show ?case
    unfolding send_inv_def split by (metis append.assoc append_take_drop_id)
next
  case (step_register conn conn' st log)
  then obtain pend where pend: "send_ok conn pend" "log = on_wire conn @ pend" by (auto simp: send_inv_def)
  have "conn' = conn\<lparr>epoll_registered := True, send_out_armed := head (send_queue conn) \<noteq> None\<rparr>"
    using step_register.hyps by (simp add: bm_network_epoll_register_def)
  with pend send_holds_head [of conn pend] show ?case
    by (auto simp: send_inv_def send_ok_def intro!: exI [of _ pend])
next
  case (step_evict st conn log)
  then show ?case by (auto simp: send_inv_def send_ok_def)
qed

lemma send_inv_reachable: "send_step\<^sup>*\<^sup>* s t \<Longrightarrow> send_inv s \<Longrightarrow> send_inv t"
  by (induction rule: rtranclp_induct) (auto intro: send_inv_step)

section \<open>Properties\<close>

text \<open>
  C28: the send queue is a byte stream. Whatever sequence of sends, flushes, epoll registrations and
  eviction marks runs on a new connection, and however the socket splits the data, the bytes the kernel
  has taken followed by the bytes still queued are the accepted data in order, nothing lost, doubled
  or reordered; the byte count is right and within the 16 MiB limit; a registered connection with
  bytes left is watched for writability unless it is being evicted; and the next send does not follow
  a dangling pointer, returns once the socket has answered as often as there are bytes queued, and
  reports success only for accepted data.
\<close>

theorem send_stream_integrity:
  assumes "bm_fd_data_new mem type local_name peer_name now0 h = Some conn0"
    and "send_step\<^sup>*\<^sup>* (st0, conn0, []) (st, conn, log)"
  shows "\<exists>pend. log = on_wire conn @ pend \<and> send_queued_bytes conn = length pend \<and>
    length pend \<le> BM_SEND_QUEUE_HARD_LIMIT_BYTES \<and>
    (epoll_registered conn \<longrightarrow> pending_eviction conn \<or> (send_out_armed conn \<longleftrightarrow> pend \<noteq> [])) \<and>
    (\<forall>new_chunk data as now. (\<forall>c. new_chunk = Some c \<longrightarrow> heap (send_queue conn) c = None) \<longrightarrow>
      bm_network_send new_chunk True as data now (st, conn) \<noteq> Fault \<and>
      (length pend + length data \<le> progress as \<longrightarrow> bm_network_send new_chunk True as data now (st, conn) \<noteq> Done None) \<and>
      (\<forall>st' conn'. bm_network_send new_chunk True as data now (st, conn) = Done (Some (0, st', conn')) \<longrightarrow>
        accepts new_chunk data conn \<or> data = []))"
proof -
  obtain pend where pend: "send_ok conn pend" "log = on_wire conn @ pend"
    using send_inv_reachable [OF assms(2) send_inv_new [OF assms(1)]] by (auto simp: send_inv_def)
  have "bm_network_send new_chunk True as data now (st, conn) \<noteq> Fault \<and>
      (length pend + length data \<le> progress as \<longrightarrow> bm_network_send new_chunk True as data now (st, conn) \<noteq> Done None) \<and>
      (\<forall>st' conn'. bm_network_send new_chunk True as data now (st, conn) = Done (Some (0, st', conn')) \<longrightarrow>
        accepts new_chunk data conn \<or> data = [])"
    if "\<forall>c. new_chunk = Some c \<longrightarrow> heap (send_queue conn) c = None" for new_chunk data as now
    using send_stream_step [OF pend(1) that, where data = data and as = as and now = now and st = st] by (auto split: if_splits)
  then show ?thesis using pend by (auto simp: send_ok_def send_holds_def)
qed

definition sample_conn :: bm_fd_data where
  "sample_conn = the (bm_fd_data_new (True, True) BM_FD_SERVER_SOCKET (Some AF_OTHER) (Some AF_OTHER) 5 Map.empty)"

lemma sample_conn_new:
  "bm_fd_data_new (True, True) BM_FD_SERVER_SOCKET (Some AF_OTHER) (Some AF_OTHER) 5 Map.empty = Some sample_conn"
  by (simp add: sample_conn_def bm_fd_data_new_def)

theorem send_stream_integrity_witness:
  "\<exists>st conn. send_step\<^sup>*\<^sup>* (\<lparr>net_bytes_sent = 0, net_bytes_received = 0\<rparr>, sample_conn, []) (st, conn, [1, 2, 3]) \<and>
     on_wire conn = [1, 2] \<and> send_queued_bytes conn = 1"
proof -
  let ?st = "\<lparr>net_bytes_sent = 0, net_bytes_received = 0\<rparr>"
  obtain st conn where s: "bm_network_send (Some 0) True [Sent 2, Send_again] [1, 2, 3] 7 (?st, sample_conn) =
      Done (Some (0, st, conn))" "on_wire conn = [1, 2]"
    by (simp add: bm_network_send_def sample_conn_def bm_fd_data_new_def link_tail_def flush_locked_def
        flush_loop.simps count_sent_def advance_head_def Let_def update_out_interest_locked_def)
  have "heap (send_queue sample_conn) c = None" for c by (simp add: sample_conn_def bm_fd_data_new_def)
  then have "send_step (?st, sample_conn, []) (st, conn, [1, 2, 3])"
    using step_send [OF _ s(1), of "[]"] by (simp add: accepts_def sample_conn_def bm_fd_data_new_def)
  then have r: "send_step\<^sup>*\<^sup>* (?st, sample_conn, []) (st, conn, [1, 2, 3])" by (rule r_into_rtranclp)
  obtain pend where "[1, 2, 3] = on_wire conn @ pend" "send_queued_bytes conn = length pend"
    using send_stream_integrity [OF sample_conn_new r] by blast
  then have "send_queued_bytes conn = 1" using s(2) by auto
  then show ?thesis using r s(2) by blast
qed

end
