(* ===== verification/Dandelion.thy ===== *)
theory Dandelion
  imports Bm_Prelude
begin

text \<open>
  \<open>src/infra/dandelion.c\<close>: the stem and fluff phases of object propagation. The known objects are an
  array with an open-addressing index of their hashes; the index is shown to implement a map from
  hashes to entries.

  Times are integers (the values stay far from the limits of \<open>int64_t\<close>); the outcome of an
  allocation is the argument \<open>mem\<close>, and the random part of a deadline the argument \<open>delay\<close>. A probe
  loop that never meets an empty slot is a \<open>Fault\<close>.
\<close>

abbreviation BM_DANDELION_EPOCH_SECONDS :: int where "BM_DANDELION_EPOCH_SECONDS \<equiv> 600"
abbreviation BM_DANDELION_TIMEOUT_BASE_SECONDS :: int where "BM_DANDELION_TIMEOUT_BASE_SECONDS \<equiv> 10"
abbreviation BM_DANDELION_ENTRY_PRUNE_AGE_SECONDS :: int where "BM_DANDELION_ENTRY_PRUNE_AGE_SECONDS \<equiv> 300"
abbreviation BM_DANDELION_MAX_EXPIRE_PER_CALL :: nat where "BM_DANDELION_MAX_EXPIRE_PER_CALL \<equiv> 64"
abbreviation BM_DANDELION_INDEX_INITIAL_CAPACITY :: nat where "BM_DANDELION_INDEX_INITIAL_CAPACITY \<equiv> 128"

abbreviation BM_PEER_IP_STRLEN :: nat where "BM_PEER_IP_STRLEN \<equiv> 64"

section \<open>State\<close>

record dandelion_entry =
  de_hash :: bytes
  fluff_deadline :: int
  fluffed_at :: int
  learned_via_plain_inv :: bool

text \<open>
  \<open>entries\<close> is the initialised part of the array, of which the first \<open>entry_count\<close> elements are in
  use; an empty slot of the index is \<open>None\<close>, and its capacity is its length.
\<close>

record dandelion_state =
  stem_ip :: bytes
  stem_port :: int
  has_stem :: bool
  epoch_started :: int
  entries :: "dandelion_entry list"
  entry_count :: nat
  entry_capacity :: nat
  index_slots :: "nat option list"

definition bm_dandelion_module_init :: dandelion_state where
  "bm_dandelion_module_init =
     \<lparr>stem_ip = [], stem_port = 0, has_stem = False, epoch_started = 0, entries = [], entry_count = 0,
      entry_capacity = 0, index_slots = []\<rparr>"

section \<open>The index\<close>

text \<open>\<open>memcpy\<close> of the first eight bytes into a \<open>uint64_t\<close> on a little-endian machine.\<close>

definition index_key :: "bytes \<Rightarrow> u64" where
  "index_key hash = be_join (rev (take 8 hash))"

definition home_slot :: "nat \<Rightarrow> bytes \<Rightarrow> nat" where
  "home_slot capacity hash = unat (index_key hash) mod capacity"

text \<open>
  \<open>while (slots[slot] != EMPTY) slot = (slot + 1) % capacity\<close>: after as many probes as there are
  slots the loop has seen them all.
\<close>

fun probe_free :: "nat \<Rightarrow> nat option list \<Rightarrow> nat \<Rightarrow> nat outcome" where
  "probe_free 0 slots slot = Fault"
| "probe_free (Suc n) slots slot =
     (case slots ! slot of
        None \<Rightarrow> Done slot
      | Some _ \<Rightarrow> probe_free n slots ((slot + 1) mod length slots))"

definition index_put :: "bytes \<Rightarrow> nat \<Rightarrow> nat option list \<Rightarrow> nat option list outcome" where
  "index_put hash i slots =
     bind_outcome (probe_free (length slots) slots (home_slot (length slots) hash))
       (\<lambda>slot. Done (slots[slot := Some i]))"

fun rebuild_loop :: "dandelion_entry list \<Rightarrow> nat list \<Rightarrow> nat option list \<Rightarrow> nat option list outcome" where
  "rebuild_loop es [] slots = Done slots"
| "rebuild_loop es (i # is) slots = bind_outcome (index_put (de_hash (es ! i)) i slots) (rebuild_loop es is)"

definition index_rebuild :: "bool \<Rightarrow> nat \<Rightarrow> dandelion_state \<Rightarrow> dandelion_state outcome" where
  "index_rebuild mem capacity s =
     (if \<not> mem then Done s
      else bind_outcome (rebuild_loop (entries s) [0..<entry_count s] (replicate capacity None))
        (\<lambda>slots. Done (s\<lparr>index_slots := slots\<rparr>)))"

definition index_ensure_capacity :: "bool \<Rightarrow> dandelion_state \<Rightarrow> dandelion_state outcome" where
  "index_ensure_capacity mem s =
     (let capacity = length (index_slots s)
      in if capacity = 0 then index_rebuild mem BM_DANDELION_INDEX_INITIAL_CAPACITY s
         else if capacity < (entry_count s + 1) * 2 then index_rebuild mem (capacity * 2) s
         else Done s)"

fun lookup_loop :: "nat \<Rightarrow> dandelion_entry list \<Rightarrow> nat option list \<Rightarrow> bytes \<Rightarrow> nat \<Rightarrow> nat option" where
  "lookup_loop 0 es slots hash slot = None"
| "lookup_loop (Suc probes) es slots hash slot =
     (case slots ! slot of
        None \<Rightarrow> None
      | Some idx \<Rightarrow>
          if de_hash (es ! idx) = hash then Some idx
          else lookup_loop probes es slots hash ((slot + 1) mod length slots))"

definition index_lookup :: "bytes \<Rightarrow> dandelion_state \<Rightarrow> nat option" where
  "index_lookup hash s =
     (let capacity = length (index_slots s)
      in if capacity = 0 then None
         else lookup_loop capacity (entries s) (index_slots s) hash (home_slot capacity hash))"

section \<open>Operations\<close>

definition new_entry :: "bytes \<Rightarrow> int \<Rightarrow> int \<Rightarrow> dandelion_entry" where
  "new_entry hash now delay =
     \<lparr>de_hash = hash, fluff_deadline = now + BM_DANDELION_TIMEOUT_BASE_SECONDS + delay,
      fluffed_at = 0, learned_via_plain_inv = False\<rparr>"

text \<open>
  The result is the position of the entry, \<open>None\<close> for NULL. \<open>mem\<close> has the outcome of \<open>realloc\<close> and
  of the \<open>malloc\<close> in the index.
\<close>

definition find_or_create_entry ::
  "bool \<times> bool \<Rightarrow> int \<Rightarrow> bytes \<Rightarrow> int \<Rightarrow> dandelion_state \<Rightarrow> (nat option \<times> dandelion_state) outcome" where
  "find_or_create_entry mem delay hash now s =
     (case index_lookup hash s of
        Some existing \<Rightarrow> Done (Some existing, s)
      | None \<Rightarrow>
          if entry_capacity s \<le> entry_count s \<and> \<not> fst mem then Done (None, s)
          else
            let s1 = (if entry_capacity s \<le> entry_count s
                      then s\<lparr>entry_capacity := (if entry_capacity s = 0 then 64 else entry_capacity s * 2)\<rparr>
                      else s);
                new_index = entry_count s1;
                s2 = s1\<lparr>entries := take new_index (entries s1) @ [new_entry hash now delay] @
                               drop (new_index + 1) (entries s1),
                        entry_count := entry_count s1 + 1\<rparr>
            in bind_outcome (index_ensure_capacity (snd mem) s2)
                 (\<lambda>s3. if length (index_slots s3) = 0 then Done (Some new_index, s3)
                        else bind_outcome (index_put hash new_index (index_slots s3))
                               (\<lambda>slots. Done (Some new_index, s3\<lparr>index_slots := slots\<rparr>))))"

definition bm_dandelion_note_source ::
  "bool \<times> bool \<Rightarrow> int \<Rightarrow> bytes \<Rightarrow> bool \<Rightarrow> int \<Rightarrow> dandelion_state \<Rightarrow> dandelion_state outcome" where
  "bm_dandelion_note_source mem delay hash is_dinv now s =
     (if is_dinv then Done s
      else bind_outcome (find_or_create_entry mem delay hash now s)
        (\<lambda>(e, s'). Done (case e of
           None \<Rightarrow> s'
         | Some i \<Rightarrow> s'\<lparr>entries := (entries s')[i := (entries s' ! i)\<lparr>learned_via_plain_inv := True\<rparr>]\<rparr>)))"

text \<open>\<open>picked\<close> is what \<open>bm_peer_registry_pick_random_dandelion_peer\<close> found.\<close>

definition bm_dandelion_maybe_reshuffle :: "(bytes \<times> int) option \<Rightarrow> int \<Rightarrow> dandelion_state \<Rightarrow> dandelion_state" where
  "bm_dandelion_maybe_reshuffle picked now s =
     (if epoch_started s \<noteq> 0 \<and> now - epoch_started s < BM_DANDELION_EPOCH_SECONDS then s
      else let s1 = s\<lparr>epoch_started := now\<rparr>
           in case picked of
                None \<Rightarrow> s1\<lparr>has_stem := False\<rparr>
              | Some (ip, port) \<Rightarrow> s1\<lparr>stem_ip := take (BM_PEER_IP_STRLEN - 1) (c_str ip), stem_port := port, has_stem := True\<rparr>)"

datatype bm_propagation_mode = BM_PROPAGATE_FLUFF | BM_PROPAGATE_STEM | BM_PROPAGATE_SKIP

text \<open>\<open>target\<close>: address and port of the connection, \<open>None\<close> for NULL.\<close>

definition bm_dandelion_decide ::
  "bool \<times> bool \<Rightarrow> int \<Rightarrow> bytes \<Rightarrow> (bytes \<times> int) option \<Rightarrow> int \<Rightarrow> dandelion_state
     \<Rightarrow> (bm_propagation_mode \<times> dandelion_state) outcome" where
  "bm_dandelion_decide mem delay hash target now s =
     bind_outcome (find_or_create_entry mem delay hash now s)
       (\<lambda>(e, s'). Done (case e of
          None \<Rightarrow> (BM_PROPAGATE_FLUFF, s')
        | Some i \<Rightarrow>
            let en = entries s' ! i
            in if fluffed_at en \<noteq> 0 \<or> fluff_deadline en \<le> now \<or> \<not> has_stem s' \<or> learned_via_plain_inv en
               then (BM_PROPAGATE_FLUFF,
                     if fluffed_at en = 0 then s'\<lparr>entries := (entries s')[i := en\<lparr>fluffed_at := now\<rparr>]\<rparr> else s')
               else (case target of
                       None \<Rightarrow> (BM_PROPAGATE_SKIP, s')
                     | Some (ip, port) \<Rightarrow>
                         (if port = stem_port s' \<and> c_str ip = c_str (stem_ip s')
                          then BM_PROPAGATE_STEM else BM_PROPAGATE_SKIP, s'))))"

text \<open>The first loop of the expiry: mark at most \<open>n\<close> overdue entries and collect their hashes.\<close>

fun expire_loop :: "nat \<Rightarrow> int \<Rightarrow> dandelion_entry list \<Rightarrow> bytes list \<times> dandelion_entry list" where
  "expire_loop n now [] = ([], [])"
| "expire_loop n now (e # es) =
     (if n = 0 then ([], e # es)
      else if fluffed_at e = 0 \<and> fluff_deadline e \<le> now then
        (let (hs, es') = expire_loop (n - 1) now es in (de_hash e # hs, e\<lparr>fluffed_at := now\<rparr> # es'))
      else (let (hs, es') = expire_loop n now es in (hs, e # es')))"

definition prunable :: "int \<Rightarrow> dandelion_entry \<Rightarrow> bool" where
  "prunable now e = (fluffed_at e \<noteq> 0 \<and> BM_DANDELION_ENTRY_PRUNE_AGE_SECONDS < now - fluffed_at e)"

text \<open>
  \<open>store\<close> is the object store (\<open>None\<close> for NULL). The results are the number of expired entries, the
  hashes announced to all peers, and the state.
\<close>

definition bm_dandelion_expire_and_refluff ::
  "bool \<Rightarrow> (bytes \<Rightarrow> bool) option \<Rightarrow> int \<Rightarrow> dandelion_state \<Rightarrow> (nat \<times> bytes list \<times> dandelion_state) outcome" where
  "bm_dandelion_expire_and_refluff mem store now s =
     (let used = take (entry_count s) (entries s);
          (to_fluff, marked) = expire_loop BM_DANDELION_MAX_EXPIRE_PER_CALL now used;
          kept = filter (\<lambda>e. \<not> prunable now e) marked;
          arr = kept @ drop (length kept) (marked @ drop (entry_count s) (entries s));
          s1 = s\<lparr>entries := arr, entry_count := length kept\<rparr>
      in bind_outcome
           (if length kept \<noteq> entry_count s \<and> 0 < length (index_slots s)
            then index_rebuild mem (length (index_slots s)) s1 else Done s1)
           (\<lambda>s2. Done (length to_fluff,
              filter (\<lambda>h. case store of None \<Rightarrow> False | Some has \<Rightarrow> has h) to_fluff, s2)))"

definition bm_dandelion_is_stemming :: "bytes \<Rightarrow> dandelion_state \<Rightarrow> bool" where
  "bm_dandelion_is_stemming hash s =
     (case index_lookup hash s of None \<Rightarrow> False | Some idx \<Rightarrow> fluffed_at (entries s ! idx) = 0)"

section \<open>Probing\<close>

text \<open>Slot \<open>k\<close> of the probe sequence that starts at \<open>slot\<close>.\<close>

abbreviation probe :: "'a list \<Rightarrow> nat \<Rightarrow> nat \<Rightarrow> 'a" where
  "probe slots slot k \<equiv> slots ! ((slot + k) mod length slots)"

lemma probe_Suc: "probe slots ((slot + 1) mod length slots) k = probe slots slot (Suc k)"
  by (simp add: mod_add_left_eq)

lemma probe_0: "slot < length slots \<Longrightarrow> probe slots slot 0 = slots ! slot"
  by simp

lemma next_slot_less: "slot < length slots \<Longrightarrow> (slot + 1) mod length slots < length slots"
  by (rule mod_less_divisor) linarith

lemma probe_free_Done:
  assumes "probe_free n slots slot = Done t" "slot < length slots"
  shows "\<exists>k<n. t = (slot + k) mod length slots \<and> slots ! t = None \<and> (\<forall>j<k. probe slots slot j \<noteq> None)"
  using assms
proof (induction n arbitrary: slot)
  case 0
  then show ?case by simp
next
  case (Suc n)
  show ?case
  proof (cases "slots ! slot")
    case None
    with Suc.prems show ?thesis by (intro exI [of _ 0]) simp
  next
    case (Some i)
    let ?s = "(slot + 1) mod length slots"
    have "probe_free n slots ?s = Done t" using Suc.prems(1) Some by simp
    moreover have "?s < length slots" using Suc.prems(2) by (rule next_slot_less)
    ultimately obtain k where k: "k < n" "t = (?s + k) mod length slots" "slots ! t = None"
      "\<forall>j<k. probe slots ?s j \<noteq> None" using Suc.IH by blast
    have "probe slots slot j \<noteq> None" if "j < Suc k" for j
      using that k(4) Some Suc.prems(2) by (cases j) (auto simp: mod_add_left_eq)
    with k show ?thesis by (intro exI [of _ "Suc k"]) (simp add: mod_add_left_eq)
  qed
qed

lemma probe_free_ends:
  assumes "k < n" "probe slots slot k = None" "slot < length slots"
  shows "\<exists>t. probe_free n slots slot = Done t"
  using assms
proof (induction n arbitrary: slot k)
  case 0
  then show ?case by simp
next
  case (Suc n)
  let ?s = "(slot + 1) mod length slots"
  have s: "?s < length slots" using Suc.prems(3) by (rule next_slot_less)
  show ?case
  proof (cases k)
    case 0
    with Suc.prems show ?thesis by simp
  next
    case (Suc k')
    then have "probe slots ?s k' = None" "k' < n"
      using Suc.prems(1,2) by (simp_all add: mod_add_left_eq)
    from Suc.IH [OF this(2,1) s] show ?thesis by (simp split: option.split)
  qed
qed

lemma home_slot_less: "0 < capacity \<Longrightarrow> home_slot capacity hash < capacity"
  by (simp add: home_slot_def)

text \<open>Every slot is met by a probe sequence within one round.\<close>

lemma probe_reaches:
  assumes "t < c" "slot < (c::nat)"
  shows "\<exists>k<c. (slot + k) mod c = t"
proof (cases "slot \<le> t")
  case True
  then show ?thesis using assms by (intro exI [of _ "t - slot"]) auto
next
  case False
  then show ?thesis using assms by (intro exI [of _ "t + c - slot"]) auto
qed

lemma probe_free_total:
  assumes "None \<in> set slots" "slot < length slots"
  shows "\<exists>t. probe_free (length slots) slots slot = Done t"
proof -
  obtain t where "t < length slots" "slots ! t = None" using assms(1) by (auto simp: in_set_conv_nth)
  with probe_reaches [of t "length slots" slot] assms(2) show ?thesis
    using probe_free_ends [of _ "length slots" slots slot] by metis
qed

section \<open>The index as a map\<close>

text \<open>Position \<open>i\<close> is found by probing for \<open>hash\<close> before any empty slot.\<close>

definition indexed :: "nat option list \<Rightarrow> bytes \<Rightarrow> nat \<Rightarrow> bool" where
  "indexed slots hash i \<longleftrightarrow>
     (\<exists>k<length slots. probe slots (home_slot (length slots) hash) k = Some i \<and>
        (\<forall>j<k. probe slots (home_slot (length slots) hash) j \<noteq> None))"

lemma indexed_update:
  assumes "indexed slots hash i" "slots ! t = None" "t < length slots"
  shows "indexed (slots[t := Some x]) hash i"
proof -
  let ?h = "home_slot (length slots) hash"
  obtain k where k: "k < length slots" "probe slots ?h k = Some i" "\<forall>j<k. probe slots ?h j \<noteq> None"
    using assms(1) by (auto simp: indexed_def)
  have "(?h + k) mod length slots \<noteq> t" using k(2) assms(2) by auto
  with k assms(3) show ?thesis
    unfolding indexed_def by (intro exI [of _ k]) (auto simp: nth_list_update)
qed

lemma index_put_spec:
  assumes "None \<in> set slots"
  shows "\<exists>t. index_put hash i slots = Done (slots[t := Some i]) \<and> t < length slots \<and> slots ! t = None \<and>
    indexed (slots[t := Some i]) hash i"
proof -
  let ?h = "home_slot (length slots) hash"
  have c: "0 < length slots" using assms by (cases slots) auto
  then obtain t where t: "probe_free (length slots) slots ?h = Done t"
    using probe_free_total [OF assms] home_slot_less by blast
  obtain k where k: "k < length slots" "t = (?h + k) mod length slots" "slots ! t = None"
    "\<forall>j<k. probe slots ?h j \<noteq> None"
    using probe_free_Done [OF t home_slot_less [OF c]] by blast
  have "t < length slots" using k(2) c by simp
  moreover have "indexed (slots[t := Some i]) hash i"
    unfolding indexed_def using k calculation by (intro exI [of _ k]) (auto simp: nth_list_update)
  ultimately show ?thesis using t k(3) by (auto simp: index_put_def)
qed

lemma lookup_loop_Some:
  assumes "lookup_loop n es slots hash slot = Some i" "slot < length slots"
  shows "de_hash (es ! i) = hash \<and> Some i \<in> set slots"
  using assms
proof (induction n arbitrary: slot)
  case 0
  then show ?case by simp
next
  case (Suc n)
  have "(slot + 1) mod length slots < length slots" using Suc.prems(2) by (rule next_slot_less)
  with Suc show ?case by (auto split: option.splits if_splits dest: nth_mem)
qed

lemma lookup_loop_finds:
  assumes "k < n" "probe slots slot k = Some i" "de_hash (es ! i) = hash"
    "\<forall>j<k. probe slots slot j \<noteq> None" "slot < length slots"
  shows "lookup_loop n es slots hash slot \<noteq> None"
  using assms
proof (induction n arbitrary: slot k)
  case 0
  then show ?case by simp
next
  case (Suc n)
  let ?s = "(slot + 1) mod length slots"
  have s: "?s < length slots" using Suc.prems(5) by (rule next_slot_less)
  show ?case
  proof (cases k)
    case 0
    with Suc.prems show ?thesis by simp
  next
    case (Suc k')
    have "probe slots ?s k' = Some i" "k' < n" "\<forall>j<k'. probe slots ?s j \<noteq> None"
      using Suc.prems(1,2,4) Suc by (auto simp: mod_add_left_eq)
    with Suc.IH [of k' ?s] s Suc.prems(3) have "lookup_loop n es slots hash ?s \<noteq> None" by blast
    moreover have "slots ! slot \<noteq> None"
      using Suc.prems(4) Suc by (metis Suc.prems(5) probe_0 zero_less_Suc)
    ultimately show ?thesis by (auto split: option.splits)
  qed
qed

definition occupied :: "nat option list \<Rightarrow> nat" where
  "occupied slots = length (filter (\<lambda>x. x \<noteq> None) slots)"

lemma occupied_update: "occupied (slots[t := x]) \<le> Suc (occupied slots)"
  unfolding occupied_def
proof (induction slots arbitrary: t)
  case Nil
  then show ?case by simp
next
  case (Cons a slots)
  then show ?case by (cases t) (auto simp: le_SucI)
qed

lemma occupied_room: "occupied slots < length slots \<Longrightarrow> None \<in> set slots"
  unfolding occupied_def by (metis (mono_tags) filter_True less_irrefl)

lemma rebuild_loop_spec:
  "occupied slots + length is \<le> length slots \<Longrightarrow>
    \<exists>slots'. rebuild_loop es is slots = Done slots' \<and> length slots' = length slots \<and>
      occupied slots' \<le> occupied slots + length is \<and>
      (\<forall>i. Some i \<in> set slots' \<longrightarrow> Some i \<in> set slots \<or> i \<in> set is) \<and>
      (\<forall>h i. indexed slots h i \<longrightarrow> indexed slots' h i) \<and>
      (\<forall>i\<in>set is. indexed slots' (de_hash (es ! i)) i)"
proof (induction "is" arbitrary: slots)
  case Nil
  then show ?case by simp
next
  case (Cons i "is")
  have "None \<in> set slots" using Cons.prems by (intro occupied_room) simp
  from index_put_spec [OF this, of "de_hash (es ! i)" i] obtain t where
    t: "index_put (de_hash (es ! i)) i slots = Done (slots[t := Some i])" "t < length slots"
    "slots ! t = None" "indexed (slots[t := Some i]) (de_hash (es ! i)) i" by blast
  let ?s = "slots[t := Some i]"
  have occ: "occupied ?s \<le> Suc (occupied slots)" by (rule occupied_update)
  with Cons.prems have "occupied ?s + length is \<le> length ?s" by simp
  from Cons.IH [OF this] obtain slots' where r: "rebuild_loop es is ?s = Done slots'"
    "length slots' = length ?s" "occupied slots' \<le> occupied ?s + length is"
    "\<forall>j. Some j \<in> set slots' \<longrightarrow> Some j \<in> set ?s \<or> j \<in> set is"
    "\<forall>h j. indexed ?s h j \<longrightarrow> indexed slots' h j" "\<forall>j\<in>set is. indexed slots' (de_hash (es ! j)) j"
    by blast
  have "Some j \<in> set slots \<or> j \<in> set (i # is)" if "Some j \<in> set slots'" for j
    using that r(4) set_update_subset_insert [of slots t "Some i"] by auto
  moreover have "indexed slots' h j" if "indexed slots h j" for h j
    using r(5) indexed_update [OF that t(3,2)] by blast
  ultimately show ?case using t r occ by auto
qed

text \<open>The invariant of the entries and their index.\<close>

definition index_ok :: "dandelion_state \<Rightarrow> bool" where
  "index_ok s \<longleftrightarrow>
     entry_count s \<le> length (entries s) \<and> distinct (map de_hash (take (entry_count s) (entries s))) \<and>
     (\<forall>i. Some i \<in> set (index_slots s) \<longrightarrow> i < entry_count s) \<and>
     (\<forall>i<entry_count s. indexed (index_slots s) (de_hash (entries s ! i)) i) \<and>
     occupied (index_slots s) \<le> entry_count s + 1 \<and>
     (index_slots s \<noteq> [] \<longrightarrow> 128 \<le> length (index_slots s) \<and> 2 * entry_count s \<le> length (index_slots s))"

text \<open>The map the index stands for: the entry of a hash.\<close>

definition entry_map :: "dandelion_state \<Rightarrow> bytes \<rightharpoonup> dandelion_entry" where
  "entry_map s = map_of (map (\<lambda>e. (de_hash e, e)) (take (entry_count s) (entries s)))"

lemma index_ok_init: "index_ok bm_dandelion_module_init"
  by (simp add: index_ok_def bm_dandelion_module_init_def occupied_def)

lemma index_ok_empty: "index_ok s \<Longrightarrow> index_slots s = [] \<Longrightarrow> entry_count s = 0"
  by (auto simp: index_ok_def indexed_def)

lemma entry_map_nth:
  assumes "index_ok s" "i < entry_count s"
  shows "entry_map s (de_hash (entries s ! i)) = Some (entries s ! i)"
proof -
  have "distinct (map fst (map (\<lambda>e. (de_hash e, e)) (take (entry_count s) (entries s))))"
    using assms(1) by (simp add: index_ok_def comp_def)
  moreover have "entries s ! i \<in> set (take (entry_count s) (entries s))"
    using assms by (auto simp: in_set_conv_nth index_ok_def intro!: exI [of _ i])
  ultimately show ?thesis unfolding entry_map_def by (intro map_of_is_SomeI) auto
qed

lemma entry_map_SomeD:
  assumes "entry_map s h = Some e"
  shows "\<exists>i<entry_count s. entries s ! i = e \<and> de_hash e = h"
proof -
  have "e \<in> set (take (entry_count s) (entries s))" "de_hash e = h"
    using map_of_SomeD [OF assms [unfolded entry_map_def]] by auto
  then show ?thesis by (auto simp: in_set_conv_nth)
qed

lemma lookup_spec:
  assumes "index_ok s"
  shows "case index_lookup h s of
      None \<Rightarrow> entry_map s h = None
    | Some i \<Rightarrow> i < entry_count s \<and> de_hash (entries s ! i) = h \<and> entry_map s h = Some (entries s ! i)"
proof (cases "index_lookup h s")
  case (Some i)
  then have c: "0 < length (index_slots s)" by (auto simp: index_lookup_def Let_def split: if_splits)
  then have "de_hash (entries s ! i) = h \<and> Some i \<in> set (index_slots s)"
    using Some by (intro lookup_loop_Some [OF _ home_slot_less [OF c]]) (simp add: index_lookup_def Let_def)
  then have "i < entry_count s" "de_hash (entries s ! i) = h" using assms by (auto simp: index_ok_def)
  with entry_map_nth [OF assms] Some show ?thesis by auto
next
  case None
  have "entry_map s h = None"
  proof (rule ccontr)
    assume "entry_map s h \<noteq> None"
    then obtain e where "entry_map s h = Some e" by blast
    from entry_map_SomeD [OF this] obtain i where i: "i < entry_count s" "de_hash (entries s ! i) = h"
      by blast
    then have ix: "indexed (index_slots s) h i" using assms by (auto simp: index_ok_def)
    then have c: "0 < length (index_slots s)" by (auto simp: indexed_def)
    obtain k where "k < length (index_slots s)"
      "probe (index_slots s) (home_slot (length (index_slots s)) h) k = Some i"
      "\<forall>j<k. probe (index_slots s) (home_slot (length (index_slots s)) h) j \<noteq> None"
      using ix by (auto simp: indexed_def)
    from lookup_loop_finds [OF this(1,2) i(2) this(3) home_slot_less [OF c]] None c show False
      by (simp add: index_lookup_def Let_def)
  qed
  with None show ?thesis by simp
qed

text \<open>The entries alone: in bounds and without duplicates.\<close>

definition entries_ok :: "dandelion_state \<Rightarrow> bool" where
  "entries_ok s \<longleftrightarrow>
     entry_count s \<le> length (entries s) \<and> distinct (map de_hash (take (entry_count s) (entries s)))"

lemma index_ok_entries: "index_ok s \<Longrightarrow> entries_ok s"
  by (simp add: index_ok_def entries_ok_def)

lemma index_rebuild_spec:
  assumes "entries_ok s" "128 \<le> capacity" "2 * entry_count s \<le> capacity"
  shows "\<exists>slots. index_rebuild True capacity s = Done (s\<lparr>index_slots := slots\<rparr>) \<and>
    index_ok (s\<lparr>index_slots := slots\<rparr>) \<and> length slots = capacity \<and> occupied slots \<le> entry_count s"
proof -
  have "occupied (replicate capacity None) = 0" by (simp add: occupied_def)
  then have "\<exists>slots'. rebuild_loop (entries s) [0..<entry_count s] (replicate capacity None) = Done slots' \<and>
      length slots' = capacity \<and> occupied slots' \<le> entry_count s \<and>
      (\<forall>i. Some i \<in> set slots' \<longrightarrow> i < entry_count s) \<and>
      (\<forall>i<entry_count s. indexed slots' (de_hash (entries s ! i)) i)"
    using rebuild_loop_spec [of "replicate capacity None" "[0..<entry_count s]" "entries s"] assms(3) by auto
  then show ?thesis using assms by (auto simp: index_rebuild_def index_ok_def entries_ok_def)
qed

text \<open>Indexing the last entry once the others are indexed.\<close>

lemma index_put_last:
  assumes "entries_ok s" "entry_count s = Suc n" "de_hash (entries s ! n) = h"
    and slots: "\<forall>i. Some i \<in> set (index_slots s) \<longrightarrow> i < entry_count s"
      "\<forall>i<n. indexed (index_slots s) (de_hash (entries s ! i)) i"
      "occupied (index_slots s) \<le> Suc n" "128 \<le> length (index_slots s)"
      "2 * Suc n \<le> length (index_slots s)"
  shows "\<exists>slots'. index_put h n (index_slots s) = Done slots' \<and> index_ok (s\<lparr>index_slots := slots'\<rparr>)"
proof -
  have "None \<in> set (index_slots s)" using slots(3,5) by (intro occupied_room) simp
  from index_put_spec [OF this, of h n] obtain t where
    t: "index_put h n (index_slots s) = Done ((index_slots s)[t := Some n])" "t < length (index_slots s)"
    "index_slots s ! t = None" "indexed ((index_slots s)[t := Some n]) h n" by blast
  let ?slots = "(index_slots s)[t := Some n]"
  have "indexed ?slots (de_hash (entries s ! i)) i" if "i < Suc n" for i
    using that t(4) assms(3) slots(2) indexed_update [OF _ t(3,2)] by (cases "i = n") auto
  moreover have "i < Suc n" if "Some i \<in> set ?slots" for i
    using that slots(1) assms(2) set_update_subset_insert [of "index_slots s" t "Some n"] by auto
  moreover have "occupied ?slots \<le> Suc (Suc n)"
    using occupied_update [of "index_slots s" t "Some n"] slots(3) by simp
  moreover have "length ?slots = length (index_slots s)" by simp
  ultimately have "index_ok (s\<lparr>index_slots := ?slots\<rparr>)"
    using assms(1,2) slots(4,5) by (auto simp: index_ok_def entries_ok_def)
  with t(1) show ?thesis by blast
qed

lemma append_entry_ok:
  assumes "entries_ok s" "entry_map s h = None" "de_hash e = h"
  defines "s' \<equiv> s\<lparr>entries := take (entry_count s) (entries s) @ [e] @ drop (entry_count s + 1) (entries s),
    entry_count := entry_count s + 1\<rparr>"
  shows "entries_ok s' \<and> entry_map s' = (entry_map s)(h \<mapsto> e) \<and> entries s' ! entry_count s = e \<and>
    (\<forall>i<entry_count s. entries s' ! i = entries s ! i)"
proof -
  let ?n = "entry_count s" and ?es = "entries s"
  have len: "length (take ?n ?es) = ?n" using assms(1) by (simp add: entries_ok_def)
  have tk: "take (Suc ?n) (entries s') = take ?n ?es @ [e]"
    using len by (simp add: s'_def take_Suc_conv_app_nth nth_append)
  have new: "h \<notin> de_hash ` set (take ?n ?es)"
    using assms(2) by (auto simp: entry_map_def map_of_eq_None_iff image_image)
  have "entries_ok s'"
    using assms(1,3) new tk len by (auto simp: entries_ok_def s'_def)
  moreover have "entry_map s' = (entry_map s)(h \<mapsto> e)"
  proof -
    have "entry_map s' = map_of (map (\<lambda>e. (de_hash e, e)) (take ?n ?es @ [e]))"
      using tk by (simp add: entry_map_def s'_def)
    also have "\<dots> = (entry_map s)(h \<mapsto> e)"
      using assms(2,3) by (auto simp: entry_map_def map_add_def split: option.splits)
    finally show ?thesis .
  qed
  moreover have "entries s' ! ?n = e" "\<forall>i<?n. entries s' ! i = ?es ! i"
    using len by (auto simp: s'_def nth_append)
  ultimately show ?thesis by blast
qed

text \<open>What is outside the entries and their index.\<close>

definition same_stem :: "dandelion_state \<Rightarrow> dandelion_state \<Rightarrow> bool" where
  "same_stem s s' \<longleftrightarrow> stem_ip s' = stem_ip s \<and> stem_port s' = stem_port s \<and> has_stem s' = has_stem s \<and>
     epoch_started s' = epoch_started s"

text \<open>Appending an entry, making room in the index and indexing the entry.\<close>

lemma create_spec:
  fixes cap :: nat
  assumes ok: "index_ok s" and new: "entry_map s h = None" and h: "de_hash e = h"
  defines "s2 \<equiv> s\<lparr>entry_capacity := cap, entries := take (entry_count s) (entries s) @ [e] @
      drop (entry_count s + 1) (entries s), entry_count := entry_count s + 1\<rparr>"
  shows "\<exists>s'. bind_outcome (index_ensure_capacity True s2)
      (\<lambda>s3. if length (index_slots s3) = 0 then Done (Some (entry_count s), s3)
        else bind_outcome (index_put h (entry_count s) (index_slots s3))
          (\<lambda>slots. Done (Some (entry_count s), s3\<lparr>index_slots := slots\<rparr>))) = Done (Some (entry_count s), s') \<and>
    index_ok s' \<and> entry_map s' = (entry_map s)(h \<mapsto> e) \<and> entries s' ! entry_count s = e \<and>
    entry_count s' = Suc (entry_count s) \<and> same_stem s s'"
proof -
  let ?n = "entry_count s" and ?cap = "length (index_slots s)"
  have ap: "entries_ok s2" "entry_map s2 = (entry_map s)(h \<mapsto> e)" "entries s2 ! ?n = e"
    "\<forall>i<?n. entries s2 ! i = entries s ! i"
    using append_entry_ok [OF index_ok_entries [OF ok] new h]
    by (simp_all add: s2_def entries_ok_def entry_map_def)
  have cnt: "entry_count s2 = Suc ?n" "index_slots s2 = index_slots s" by (simp_all add: s2_def)
  have cap: "?cap = 0 \<longrightarrow> ?n = 0" "?cap \<noteq> 0 \<longrightarrow> 128 \<le> ?cap \<and> 2 * ?n \<le> ?cap"
    using ok index_ok_empty [OF ok] by (auto simp: index_ok_def)
  have "\<exists>slots. index_ensure_capacity True s2 = Done (s2\<lparr>index_slots := slots\<rparr>) \<and>
      (\<forall>i. Some i \<in> set slots \<longrightarrow> i < Suc ?n) \<and> (\<forall>i<?n. indexed slots (de_hash (entries s2 ! i)) i) \<and>
      occupied slots \<le> Suc ?n \<and> 128 \<le> length slots \<and> 2 * Suc ?n \<le> length slots"
  proof (cases "?cap = 0 \<or> ?cap < (Suc ?n + 1) * 2")
    case True
    define c where "c = (if ?cap = 0 then 128 else ?cap * 2)"
    have c: "128 \<le> c" "2 * entry_count s2 \<le> c"
      using cap cnt by (auto simp: c_def)
    have "index_ensure_capacity True s2 = index_rebuild True c s2"
      using True cnt by (auto simp: index_ensure_capacity_def c_def Let_def)
    with index_rebuild_spec [OF ap(1) c] c cnt show ?thesis by (force simp: index_ok_def)
  next
    case False
    then have "index_ensure_capacity True s2 = Done (s2\<lparr>index_slots := index_slots s\<rparr>)"
      using cnt by (simp add: index_ensure_capacity_def Let_def)
    moreover have "\<forall>i. Some i \<in> set (index_slots s) \<longrightarrow> i < Suc ?n"
      "\<forall>i<?n. indexed (index_slots s) (de_hash (entries s2 ! i)) i" "occupied (index_slots s) \<le> Suc ?n"
      using ok ap(4) by (auto simp: index_ok_def)
    ultimately show ?thesis using False cap by (intro exI [of _ "index_slots s"]) auto
  qed
  then obtain slots where sl: "index_ensure_capacity True s2 = Done (s2\<lparr>index_slots := slots\<rparr>)"
      "\<forall>i. Some i \<in> set slots \<longrightarrow> i < Suc ?n" "\<forall>i<?n. indexed slots (de_hash (entries s2 ! i)) i"
      "occupied slots \<le> Suc ?n" "128 \<le> length slots" "2 * Suc ?n \<le> length slots" by blast
  have "\<exists>slots'. index_put h ?n slots = Done slots' \<and> index_ok (s2\<lparr>index_slots := slots'\<rparr>)"
    using index_put_last [of "s2\<lparr>index_slots := slots\<rparr>" ?n h] ap(1,3) h cnt sl
    by (simp add: entries_ok_def)
  then obtain slots' where "index_put h ?n slots = Done slots'" "index_ok (s2\<lparr>index_slots := slots'\<rparr>)" by blast
  with sl(1,5) ap(2,3) show ?thesis
    by (auto simp: entry_map_def same_stem_def s2_def)
qed

lemma find_or_create_spec:
  assumes "index_ok s" "snd mem"
  shows "\<exists>r s'. find_or_create_entry mem delay h now s = Done (r, s') \<and> index_ok s' \<and> same_stem s s' \<and>
    (case r of
       None \<Rightarrow> s' = s \<and> \<not> fst mem \<and> entry_map s h = None
     | Some i \<Rightarrow> i < entry_count s' \<and> de_hash (entries s' ! i) = h \<and>
         entry_map s' = (case entry_map s h of Some _ \<Rightarrow> entry_map s
           | None \<Rightarrow> (entry_map s)(h \<mapsto> new_entry h now delay)))"
proof (cases "index_lookup h s")
  case (Some i)
  then show ?thesis
    using lookup_spec [OF assms(1), of h]
    by (auto simp: find_or_create_entry_def same_stem_def assms(1))
next
  case None
  then have new: "entry_map s h = None" using lookup_spec [OF assms(1), of h] by simp
  show ?thesis
  proof (cases "entry_capacity s \<le> entry_count s \<and> \<not> fst mem")
    case True
    with None new assms(1) show ?thesis by (simp add: find_or_create_entry_def same_stem_def)
  next
    case False
    define cap where "cap = (if entry_capacity s \<le> entry_count s
      then (if entry_capacity s = 0 then 64 else entry_capacity s * 2) else entry_capacity s)"
    have hash: "de_hash (new_entry h now delay) = h" by (simp add: new_entry_def)
    have s1: "(if entry_capacity s \<le> entry_count s
        then s\<lparr>entry_capacity := (if entry_capacity s = 0 then 64 else entry_capacity s * 2)\<rparr> else s) =
        s\<lparr>entry_capacity := cap\<rparr>"
      by (simp add: cap_def)
    have sel: "entry_count (s\<lparr>entry_capacity := cap\<rparr>) = entry_count s"
      "entries (s\<lparr>entry_capacity := cap\<rparr>) = entries s" by simp_all
    have "find_or_create_entry mem delay h now s =
        bind_outcome (index_ensure_capacity True (s\<lparr>entry_capacity := cap, entries :=
          take (entry_count s) (entries s) @ [new_entry h now delay] @ drop (entry_count s + 1) (entries s),
          entry_count := entry_count s + 1\<rparr>))
        (\<lambda>s3. if length (index_slots s3) = 0 then Done (Some (entry_count s), s3)
          else bind_outcome (index_put h (entry_count s) (index_slots s3))
            (\<lambda>slots. Done (Some (entry_count s), s3\<lparr>index_slots := slots\<rparr>)))"
      unfolding find_or_create_entry_def None option.case Let_def s1 sel if_not_P [OF False]
      using assms(2) by simp
    note eq = this
    from create_spec [OF assms(1) new hash, of cap, folded eq] obtain s' where
      s': "find_or_create_entry mem delay h now s = Done (Some (entry_count s), s')" "index_ok s'"
      "entry_map s' = (entry_map s)(h \<mapsto> new_entry h now delay)"
      "entries s' ! entry_count s = new_entry h now delay" "entry_count s' = Suc (entry_count s)"
      "same_stem s s'" by blast
    show ?thesis unfolding s'(1) using s'(2-) new hash by simp
  qed
qed

section \<open>The operations on the map\<close>

lemma map_of_update:
  assumes "distinct (map de_hash es)" "i < length es" "de_hash e = de_hash (es ! i)"
  shows "map_of (map (\<lambda>e. (de_hash e, e)) (es[i := e])) =
    (map_of (map (\<lambda>e. (de_hash e, e)) es))(de_hash e \<mapsto> e)"
  using assms
proof (induction es arbitrary: i)
  case Nil
  then show ?case by simp
next
  case (Cons a es)
  have "de_hash a \<noteq> de_hash (es ! j)" if "j < length es" for j
    using Cons.prems(1) that by (auto dest: nth_mem)
  with Cons show ?case by (cases i) (auto simp: fun_eq_iff)
qed

lemma update_entry:
  assumes ok: "index_ok s" and i: "i < entry_count s" and h: "de_hash e = de_hash (entries s ! i)"
  shows "index_ok (s\<lparr>entries := (entries s)[i := e]\<rparr>) \<and>
    entry_map (s\<lparr>entries := (entries s)[i := e]\<rparr>) = (entry_map s)(de_hash e \<mapsto> e)"
proof -
  let ?n = "entry_count s" and ?es = "entries s"
  have len: "?n \<le> length ?es" using ok by (simp add: index_ok_def)
  have tk: "take ?n (?es[i := e]) = (take ?n ?es)[i := e]" by (simp add: take_update_swap)
  have hashes: "map de_hash (?es[i := e]) = map de_hash ?es"
    using h i len by (simp add: map_update list_update_same_conv)
  have "de_hash (?es[i := e] ! j) = de_hash (?es ! j)" for j
    using h i len by (cases "j = i") auto
  moreover have "map de_hash (take ?n (?es[i := e])) = map de_hash (take ?n ?es)"
    using hashes by (simp add: take_map [symmetric])
  ultimately have "index_ok (s\<lparr>entries := ?es[i := e]\<rparr>)" using ok by (simp add: index_ok_def)
  moreover have "distinct (map de_hash (take ?n ?es))" using ok by (simp add: index_ok_def)
  from map_of_update [OF this, of i e] have "entry_map (s\<lparr>entries := ?es[i := e]\<rparr>) = (entry_map s)(de_hash e \<mapsto> e)"
    using i h len tk by (simp add: entry_map_def)
  ultimately show ?thesis ..
qed

text \<open>What the decision does to the map: \<open>stem\<close> is the stem peer of the epoch.\<close>

definition decide_spec ::
  "(bytes \<times> int) option \<Rightarrow> (bytes \<times> int) option \<Rightarrow> int \<Rightarrow> int \<Rightarrow> bytes \<Rightarrow> (bytes \<rightharpoonup> dandelion_entry)
     \<Rightarrow> bm_propagation_mode \<times> (bytes \<rightharpoonup> dandelion_entry)" where
  "decide_spec stem target now delay hash m =
     (let e = (case m hash of Some e \<Rightarrow> e | None \<Rightarrow> new_entry hash now delay)
      in if fluffed_at e \<noteq> 0 \<or> fluff_deadline e \<le> now \<or> stem = None \<or> learned_via_plain_inv e
         then (BM_PROPAGATE_FLUFF, m(hash \<mapsto> if fluffed_at e = 0 then e\<lparr>fluffed_at := now\<rparr> else e))
         else (if target = stem then BM_PROPAGATE_STEM else BM_PROPAGATE_SKIP, m(hash \<mapsto> e)))"

definition stem_peer :: "dandelion_state \<Rightarrow> (bytes \<times> int) option" where
  "stem_peer s = (if has_stem s then Some (c_str (stem_ip s), stem_port s) else None)"

abbreviation peer_of :: "(bytes \<times> int) option \<Rightarrow> (bytes \<times> int) option" where
  "peer_of \<equiv> map_option (\<lambda>(ip, port). (c_str ip, port))"

text \<open>The entry a call works on, after it was found or created.\<close>

lemma find_or_create_entry_of:
  assumes "index_ok s"
  obtains i s' where "find_or_create_entry (True, True) delay h now s = Done (Some i, s')" "index_ok s'"
    "same_stem s s'" "i < entry_count s'" "de_hash (entries s' ! i) = h"
    "entries s' ! i = (case entry_map s h of Some e \<Rightarrow> e | None \<Rightarrow> new_entry h now delay)"
    "entry_map s' = (entry_map s)(h \<mapsto> entries s' ! i)"
proof -
  obtain r s' where f: "find_or_create_entry (True, True) delay h now s = Done (r, s')" "index_ok s'"
    "same_stem s s'" "case r of
       None \<Rightarrow> s' = s \<and> \<not> fst (True, True) \<and> entry_map s h = None
     | Some i \<Rightarrow> i < entry_count s' \<and> de_hash (entries s' ! i) = h \<and>
         entry_map s' = (case entry_map s h of Some _ \<Rightarrow> entry_map s
           | None \<Rightarrow> (entry_map s)(h \<mapsto> new_entry h now delay))"
    using find_or_create_spec [OF assms, of "(True, True)" delay h now] by auto
  then obtain i where r: "r = Some i" by (cases r) auto
  have "entry_map s' h = Some (entries s' ! i)"
    using f(4) r entry_map_nth [OF f(2), of i] by auto
  then have "entries s' ! i = (case entry_map s h of Some e \<Rightarrow> e | None \<Rightarrow> new_entry h now delay)"
    "entry_map s' = (entry_map s)(h \<mapsto> entries s' ! i)"
    using f(4) r by (auto split: option.splits)
  then show ?thesis using that f r by auto
qed

lemma decide_refines:
  assumes "index_ok s"
  shows "\<exists>mode s'. bm_dandelion_decide (True, True) delay h target now s = Done (mode, s') \<and> index_ok s' \<and>
    same_stem s s' \<and> (mode, entry_map s') = decide_spec (stem_peer s) (peer_of target) now delay h (entry_map s)"
proof -
  obtain i s' where f: "find_or_create_entry (True, True) delay h now s = Done (Some i, s')" "index_ok s'"
    "same_stem s s'" "i < entry_count s'" "de_hash (entries s' ! i) = h"
    "entries s' ! i = (case entry_map s h of Some e \<Rightarrow> e | None \<Rightarrow> new_entry h now delay)"
    "entry_map s' = (entry_map s)(h \<mapsto> entries s' ! i)"
    using find_or_create_entry_of [OF assms] by metis
  let ?e = "entries s' ! i"
  have stem: "stem_peer s' = stem_peer s" "has_stem s' = has_stem s"
    using f(3) by (simp_all add: same_stem_def stem_peer_def)
  note up = update_entry [OF f(2,4), of "?e\<lparr>fluffed_at := now\<rparr>"]
  show ?thesis
    unfolding bm_dandelion_decide_def f(1) decide_spec_def f(6) [symmetric] Let_def
    using f(2,3,5,7) up stem
    by (cases target) (auto simp: same_stem_def stem_peer_def)
qed

lemma note_source_spec:
  assumes "index_ok s"
  shows "\<exists>s'. bm_dandelion_note_source (True, True) delay h is_dinv now s = Done s' \<and> index_ok s' \<and>
    same_stem s s' \<and>
    entry_map s' = (if is_dinv then entry_map s
      else (entry_map s)(h \<mapsto> (case entry_map s h of Some e \<Rightarrow> e | None \<Rightarrow> new_entry h now delay)
             \<lparr>learned_via_plain_inv := True\<rparr>))"
proof (cases is_dinv)
  case True
  with assms show ?thesis by (simp add: bm_dandelion_note_source_def same_stem_def)
next
  case False
  obtain i s' where f: "find_or_create_entry (True, True) delay h now s = Done (Some i, s')" "index_ok s'"
    "same_stem s s'" "i < entry_count s'" "de_hash (entries s' ! i) = h"
    "entries s' ! i = (case entry_map s h of Some e \<Rightarrow> e | None \<Rightarrow> new_entry h now delay)"
    "entry_map s' = (entry_map s)(h \<mapsto> entries s' ! i)"
    using find_or_create_entry_of [OF assms] by metis
  note up = update_entry [OF f(2,4), of "(entries s' ! i)\<lparr>learned_via_plain_inv := True\<rparr>"]
  show ?thesis
    using False f up unfolding f(6) [symmetric]
    by (simp add: bm_dandelion_note_source_def same_stem_def)
qed

lemma reshuffle_spec:
  "index_ok s \<Longrightarrow> index_ok (bm_dandelion_maybe_reshuffle picked now s) \<and>
    entry_map (bm_dandelion_maybe_reshuffle picked now s) = entry_map s"
  by (auto simp: bm_dandelion_maybe_reshuffle_def index_ok_def entry_map_def Let_def split: option.split)

section \<open>Expiry\<close>

definition overdue :: "int \<Rightarrow> dandelion_entry \<Rightarrow> bool" where
  "overdue now e \<longleftrightarrow> fluffed_at e = 0 \<and> fluff_deadline e \<le> now"

definition expired :: "int \<Rightarrow> dandelion_entry \<Rightarrow> dandelion_entry \<Rightarrow> bool" where
  "expired now e e' \<longleftrightarrow> e' = e \<or> overdue now e \<and> e' = e\<lparr>fluffed_at := now\<rparr>"

lemma expire_loop_spec:
  assumes "expire_loop n now es = (hs, es')"
  shows "list_all2 (expired now) es es' \<and> length hs \<le> n \<and>
    (\<forall>h\<in>set hs. \<exists>e\<in>set es. de_hash e = h \<and> overdue now e) \<and>
    (length hs < n \<and> now \<noteq> 0 \<longrightarrow> (\<forall>e\<in>set es'. \<not> overdue now e))"
  using assms
proof (induction n now es arbitrary: hs es' rule: expire_loop.induct)
  case (1 n now)
  then show ?case by simp
next
  case (2 n now e es)
  consider "n = 0" | "n \<noteq> 0" "\<not> overdue now e" | "n \<noteq> 0" "overdue now e" by blast
  then show ?case
  proof cases
    case 1
    then show ?thesis using 2(3) by (auto simp: expired_def intro: list.rel_refl)
  next
    case c: 2
    then have nd: "\<not> (fluffed_at e = 0 \<and> fluff_deadline e \<le> now)" by (simp add: overdue_def)
    obtain hs1 es1 where r: "expire_loop n now es = (hs1, es1)" by fastforce
    then have "hs = hs1" "es' = e # es1" using c nd 2(3) by auto
    with 2(2) [OF c(1) nd r] c show ?thesis by (auto simp: expired_def)
  next
    case 3
    obtain hs1 es1 where r: "expire_loop (n - 1) now es = (hs1, es1)" by fastforce
    then have "hs = de_hash e # hs1" "es' = e\<lparr>fluffed_at := now\<rparr> # es1"
      using 3 2(3) by (auto simp: overdue_def)
    with 2(1) [OF 3(1) _ r] 3 show ?thesis by (auto simp: expired_def overdue_def)
  qed
qed

lemma expired_hashes: "list_all2 (expired now) es es' \<Longrightarrow> map de_hash es' = map de_hash es"
  by (induction rule: list_all2_induct) (auto simp: expired_def)

lemma expired_back: "list_all2 (expired now) es es' \<Longrightarrow> e' \<in> set es' \<Longrightarrow>
    \<exists>e\<in>set es. expired now e e' \<and> de_hash e = de_hash e'"
  by (induction rule: list_all2_induct) (auto simp: expired_def)

lemma expired_forward: "list_all2 (expired now) es es' \<Longrightarrow> e \<in> set es \<Longrightarrow> \<exists>e'\<in>set es'. expired now e e'"
  by (induction rule: list_all2_induct) auto

lemma map_of_entries_iff:
  "distinct (map de_hash es) \<Longrightarrow>
    map_of (map (\<lambda>e. (de_hash e, e)) es) h = Some e \<longleftrightarrow> e \<in> set es \<and> de_hash e = h"
  by (subst map_of_eq_Some_iff) (auto simp: comp_def)

text \<open>
  Compacting the array to the entries \<open>kept\<close> of \<open>marked\<close> and rebuilding the index when something was
  dropped keeps the invariant.
\<close>

definition compacted :: "dandelion_entry list \<Rightarrow> dandelion_entry list \<Rightarrow> dandelion_state \<Rightarrow> dandelion_state" where
  "compacted kept marked s = s\<lparr>entries := kept @ drop (length kept) (marked @ drop (entry_count s) (entries s)),
     entry_count := length kept\<rparr>"

lemma compacted_used: "take (entry_count (compacted kept marked s)) (entries (compacted kept marked s)) = kept"
  by (simp add: compacted_def)

lemma compacted_index:
  assumes ok: "index_ok s" and hash: "map de_hash marked = map de_hash (take (entry_count s) (entries s))"
    and kept: "kept = filter P marked"
  defines "s1 \<equiv> compacted kept marked s"
  shows "\<exists>slots. (if length kept \<noteq> entry_count s \<and> 0 < length (index_slots s)
      then index_rebuild True (length (index_slots s)) s1 else Done s1) = Done (s1\<lparr>index_slots := slots\<rparr>) \<and>
    index_ok (s1\<lparr>index_slots := slots\<rparr>)"
proof -
  have "distinct (map de_hash (take (entry_count s) (entries s)))" using ok by (simp add: index_ok_def)
  then have dk: "distinct (map de_hash kept)" unfolding kept hash [symmetric] by (rule distinct_map_filter)
  have len: "length marked = entry_count s" using arg_cong [OF hash, of length] ok by (simp add: index_ok_def)
  then have kl: "length kept \<le> entry_count s" unfolding kept using length_filter_le [of P marked] by simp
  have e1: "entries_ok s1"
    using dk compacted_used [of kept marked s] by (simp add: entries_ok_def s1_def compacted_def)
  show ?thesis
  proof (cases "length kept \<noteq> entry_count s \<and> 0 < length (index_slots s)")
    case True
    then have "128 \<le> length (index_slots s)" "2 * entry_count s1 \<le> length (index_slots s)"
      using ok kl by (auto simp: index_ok_def s1_def compacted_def)
    from index_rebuild_spec [OF e1 this] show ?thesis using True by auto
  next
    case False
    have kn: "length kept = entry_count s" using False kl index_ok_empty [OF ok] by auto
    then have "kept = marked"
      unfolding kept using len by (metis filter_id_conv length_filter_less nat_less_le)
    then have "de_hash (entries s1 ! i) = de_hash (entries s ! i)" if "i < entry_count s" for i
      using that nth_map [of i marked de_hash] len ok
      by (simp add: s1_def compacted_def nth_append hash index_ok_def)
    then have "index_ok s1"
      using ok e1 kn by (auto simp: index_ok_def entries_ok_def s1_def compacted_def)
    then show ?thesis using False by (intro exI [of _ "index_slots s"]) (auto simp: s1_def compacted_def)
  qed
qed

text \<open>
  The expiry keeps the invariant. An entry survives unchanged or marked as fluffed; it goes away only
  when it was fluffed more than 300 seconds ago.
\<close>

lemma expire_spec:
  assumes ok: "index_ok s"
  shows "\<exists>n hs s'. bm_dandelion_expire_and_refluff True store now s = Done (n, hs, s') \<and> index_ok s' \<and>
    same_stem s s' \<and> n \<le> 64 \<and>
    (\<forall>h\<in>set hs. (\<exists>has. store = Some has \<and> has h) \<and> (\<exists>e. entry_map s h = Some e \<and> overdue now e)) \<and>
    (\<forall>h e'. entry_map s' h = Some e' \<longrightarrow> (\<exists>e. entry_map s h = Some e \<and> expired now e e')) \<and>
    (\<forall>h e. entry_map s h = Some e \<and> entry_map s' h = None \<longrightarrow> prunable now e) \<and>
    (n < 64 \<and> now \<noteq> 0 \<longrightarrow> (\<forall>h e. entry_map s' h = Some e \<longrightarrow> \<not> overdue now e))"
proof -
  let ?used = "take (entry_count s) (entries s)"
  obtain hs marked where x: "expire_loop 64 now ?used = (hs, marked)" by fastforce
  note X = expire_loop_spec [OF x]
  define kept where "kept = filter (\<lambda>e. \<not> prunable now e) marked"
  define s1 where "s1 = compacted kept marked s"
  have hash: "map de_hash marked = map de_hash ?used" by (rule expired_hashes) (use X in blast)
  have d: "distinct (map de_hash ?used)" using ok by (simp add: index_ok_def)
  then have dk: "distinct (map de_hash kept)" unfolding kept_def hash [symmetric] by (rule distinct_map_filter)
  have em: "entry_map s h = Some e \<longleftrightarrow> e \<in> set ?used \<and> de_hash e = h" for h e
    unfolding entry_map_def by (rule map_of_entries_iff [OF d])
  have em1: "entry_map s1 h = Some e \<longleftrightarrow> e \<in> set kept \<and> de_hash e = h" for h e
    unfolding entry_map_def s1_def compacted_used by (rule map_of_entries_iff [OF dk])
  obtain slots where r: "(if length kept \<noteq> entry_count s \<and> 0 < length (index_slots s)
      then index_rebuild True (length (index_slots s)) s1 else Done s1) = Done (s1\<lparr>index_slots := slots\<rparr>)"
    "index_ok (s1\<lparr>index_slots := slots\<rparr>)"
    using compacted_index [OF ok hash kept_def] unfolding s1_def by blast
  have eq: "bm_dandelion_expire_and_refluff True store now s = Done (length hs,
      filter (\<lambda>h. case store of None \<Rightarrow> False | Some has \<Rightarrow> has h) hs, s1\<lparr>index_slots := slots\<rparr>)"
    unfolding bm_dandelion_expire_and_refluff_def Let_def x split kept_def [symmetric]
      compacted_def [symmetric] s1_def [symmetric] r(1) by simp
  have same: "entry_map (s1\<lparr>index_slots := slots\<rparr>) = entry_map s1" by (simp add: entry_map_def)
  have orig: "\<exists>e. entry_map s h = Some e \<and> expired now e e'" if "entry_map s1 h = Some e'" for h e'
    using that expired_back [of now ?used marked e'] X unfolding em em1 kept_def by auto
  have gone: "prunable now e" if "entry_map s h = Some e" "entry_map s1 h = None" for h e
  proof -
    from that(1) obtain e' where "e' \<in> set marked" "expired now e e'"
      using expired_forward [of now ?used marked e] X unfolding em by blast
    then have e': "e' \<in> set marked" "expired now e e'" "de_hash e' = h"
      using that(1) by (auto simp: em expired_def)
    then have "e' \<notin> set kept" using that(2) em1 [of h e'] by auto
    with e' have "prunable now e'" by (simp add: kept_def)
    with e'(2) show ?thesis by (auto simp: expired_def prunable_def)
  qed
  have complete: "\<not> overdue now e" if "length hs < 64" "now \<noteq> 0" "entry_map s1 h = Some e" for h e
    using that X unfolding em1 kept_def by auto
  have "\<exists>e. entry_map s h = Some e \<and> overdue now e" if "h \<in> set hs" for h
    using that X unfolding em by blast
  moreover have "same_stem s (s1\<lparr>index_slots := slots\<rparr>)" by (simp add: same_stem_def s1_def compacted_def)
  ultimately show ?thesis
    unfolding eq using r(2) X orig gone complete by (auto simp: same split: option.splits)
qed

section \<open>Sequences of calls\<close>

text \<open>All calls hold the lock of the module, so a run of the threads is a sequence of calls.\<close>

datatype dandelion_op =
  Note_Source bytes bool int int
| Decide bytes "(bytes \<times> int) option" int int
| Expire "(bytes \<Rightarrow> bool) option" int
| Reshuffle "(bytes \<times> int) option" int

fun dandelion_exec :: "dandelion_op \<Rightarrow> dandelion_state \<Rightarrow> dandelion_state outcome" where
  "dandelion_exec (Note_Source h is_dinv now delay) s =
     bm_dandelion_note_source (True, True) delay h is_dinv now s"
| "dandelion_exec (Decide h target now delay) s =
     bind_outcome (bm_dandelion_decide (True, True) delay h target now s) (\<lambda>(_, s'). Done s')"
| "dandelion_exec (Expire store now) s =
     bind_outcome (bm_dandelion_expire_and_refluff True store now s) (\<lambda>(_, _, s'). Done s')"
| "dandelion_exec (Reshuffle picked now) s = Done (bm_dandelion_maybe_reshuffle picked now s)"

fun dandelion_run :: "dandelion_op list \<Rightarrow> dandelion_state \<Rightarrow> dandelion_state outcome" where
  "dandelion_run [] s = Done s"
| "dandelion_run (op # ops) s = bind_outcome (dandelion_exec op s) (dandelion_run ops)"

lemma dandelion_exec_ok: "index_ok s \<Longrightarrow> \<exists>s'. dandelion_exec op s = Done s' \<and> index_ok s'"
proof (cases op)
  case (Note_Source h is_dinv now delay)
  assume "index_ok s"
  from note_source_spec [OF this, of delay h is_dinv now] Note_Source show ?thesis by auto
next
  case (Decide h target now delay)
  assume "index_ok s"
  from decide_refines [OF this, of delay h target now] Decide show ?thesis by auto
next
  case (Expire store now)
  assume "index_ok s"
  from expire_spec [OF this, of store now] Expire show ?thesis by auto
next
  case (Reshuffle picked now)
  assume "index_ok s"
  with Reshuffle reshuffle_spec show ?thesis by simp
qed

lemma dandelion_run_ok: "index_ok s \<Longrightarrow> \<exists>s'. dandelion_run ops s = Done s' \<and> index_ok s'"
proof (induction ops arbitrary: s)
  case Nil
  then show ?case by simp
next
  case (Cons op ops)
  then show ?case using dandelion_exec_ok [OF Cons.prems, of op] by auto
qed

text \<open>An entry that has been fluffed keeps its time in every later state that still has it.\<close>

lemma fluffed_stays:
  assumes "index_ok s" "entry_map s h = Some e" "fluffed_at e \<noteq> 0" "dandelion_exec op s = Done s'"
  shows "(\<exists>e'. entry_map s' h = Some e' \<and> fluffed_at e' = fluffed_at e) \<or>
    (\<exists>store now. op = Expire store now \<and> 300 < now - fluffed_at e \<and> entry_map s' h = None)"
proof (cases op)
  case (Note_Source h' is_dinv now delay)
  then show ?thesis using note_source_spec [OF assms(1), of delay h' is_dinv now] assms(2,4) by auto
next
  case (Decide h' target now delay)
  then show ?thesis
    using decide_refines [OF assms(1), of delay h' target now] assms(2-4)
    by (auto simp: decide_spec_def Let_def split: if_splits)
next
  case (Expire store now)
  obtain n hs where x: "bm_dandelion_expire_and_refluff True store now s = Done (n, hs, s')"
    using assms(4) Expire by auto
  show ?thesis
  proof (cases "entry_map s' h")
    case None
    then have "prunable now e" using expire_spec [OF assms(1), of store now] x assms(2) by auto
    with None Expire show ?thesis by (simp add: prunable_def)
  next
    case (Some e')
    then have "expired now e e'" using expire_spec [OF assms(1), of store now] x assms(2) by force
    with Some assms(3) show ?thesis by (auto simp: expired_def overdue_def)
  qed
next
  case (Reshuffle picked now)
  then show ?thesis using reshuffle_spec [OF assms(1), of picked now] assms(2,4) by auto
qed

section \<open>Properties\<close>

text \<open>
  C23: after every sequence of calls since the initialisation, with successful allocations, no probe
  loop ran forever, and the open-addressing index answers exactly like a map from hashes to entries:
  a lookup finds the position of the entry of that hash, or nothing when there is none.
\<close>

theorem dandelion_index_is_map:
  "\<exists>s. dandelion_run ops bm_dandelion_module_init = Done s \<and>
     (\<forall>h. case index_lookup h s of
        None \<Rightarrow> entry_map s h = None
      | Some i \<Rightarrow> i < entry_count s \<and> de_hash (entries s ! i) = h \<and> entry_map s h = Some (entries s ! i))"
  using dandelion_run_ok [OF index_ok_init, of ops] lookup_spec by blast

text \<open>
  C24: \<open>bm_dandelion_decide\<close> refines the decision on that map: FLUFF when the object was fluffed
  before, its deadline has passed, there is no stem peer or it was learned through a plain inv (and
  then the object is marked fluffed); otherwise STEM exactly for the stem peer of the epoch and SKIP
  for everybody else.
\<close>

theorem dandelion_decide_refines:
  assumes "index_ok s"
  shows "\<exists>mode s'. bm_dandelion_decide (True, True) delay h target now s = Done (mode, s') \<and> index_ok s' \<and>
    (mode, entry_map s') = decide_spec (stem_peer s) (peer_of target) now delay h (entry_map s)"
  using decide_refines [OF assms] by blast

theorem dandelion_decide_refines_witness:
  "\<exists>s'. bm_dandelion_decide (True, True) 5 (replicate 32 1) None 100 bm_dandelion_module_init =
     Done (BM_PROPAGATE_FLUFF, s')"
  using dandelion_decide_refines [OF index_ok_init, of 5 "replicate 32 1" None 100]
  by (auto simp: decide_spec_def entry_map_def bm_dandelion_module_init_def stem_peer_def new_entry_def)

text \<open>
  A fluffed object stays fluffed: after any single call its entry still carries the same time of
  fluffing, or the call was an expiry more than 300 seconds after it; and while the entry is there
  every decision about the object, for every connection and time, is FLUFF.
\<close>

theorem dandelion_fluff_permanent:
  assumes "index_ok s" "entry_map s h = Some e" "fluffed_at e \<noteq> 0" "dandelion_exec op s = Done s'"
  shows "((\<exists>e'. entry_map s' h = Some e' \<and> fluffed_at e' = fluffed_at e) \<or>
      (\<exists>store now. op = Expire store now \<and> 300 < now - fluffed_at e \<and> entry_map s' h = None)) \<and>
    (\<exists>s2. bm_dandelion_decide (True, True) delay h target now s = Done (BM_PROPAGATE_FLUFF, s2))"
  using fluffed_stays [OF assms] decide_refines [OF assms(1), of delay h target now] assms(2,3)
  by (auto simp: decide_spec_def Let_def)

theorem dandelion_fluff_permanent_witness:
  "\<exists>s e s2. entry_map s [1] = Some e \<and> fluffed_at e = 7 \<and>
     bm_dandelion_decide (True, True) 0 [1] None 8 s = Done (BM_PROPAGATE_FLUFF, s2)"
proof -
  have "entry_map bm_dandelion_module_init = Map.empty" "stem_peer bm_dandelion_module_init = None"
    by (simp_all add: entry_map_def stem_peer_def bm_dandelion_module_init_def)
  then obtain s where s: "index_ok s" "entry_map s [1] = Some ((new_entry [1] 7 0)\<lparr>fluffed_at := 7\<rparr>)"
    using decide_refines [OF index_ok_init, of 0 "[1]" None 7]
    by (auto simp: decide_spec_def Let_def new_entry_def)
  have "dandelion_exec (Reshuffle None 0) s = Done (bm_dandelion_maybe_reshuffle None 0 s)" by simp
  from dandelion_fluff_permanent [OF s _ this, of 0 None 8]
  obtain s2 where s2: "bm_dandelion_decide (True, True) 0 [1] None 8 s = Done (BM_PROPAGATE_FLUFF, s2)" by auto
  have "fluffed_at ((new_entry [1] 7 0)\<lparr>fluffed_at := 7\<rparr>) = 7" by simp
  with s(2) s2 show ?thesis by blast
qed

text \<open>
  An expiry call announces only overdue objects the store holds, at most 64; when it expired
  fewer than 64, no overdue object is left in its stem phase; an entry disappears only when it was
  fluffed more than 300 seconds ago.
\<close>

theorem dandelion_expire_complete:
  assumes "index_ok s" "now \<noteq> 0"
  shows "\<exists>n hs s'. bm_dandelion_expire_and_refluff True store now s = Done (n, hs, s') \<and> index_ok s' \<and> n \<le> 64 \<and>
    (\<forall>h\<in>set hs. (\<exists>has. store = Some has \<and> has h) \<and> (\<exists>e. entry_map s h = Some e \<and> overdue now e)) \<and>
    (n < 64 \<longrightarrow> (\<forall>h e. entry_map s' h = Some e \<longrightarrow> \<not> overdue now e)) \<and>
    (\<forall>h e. entry_map s h = Some e \<and> entry_map s' h = None \<longrightarrow> fluffed_at e \<noteq> 0 \<and> 300 < now - fluffed_at e)"
  using expire_spec [OF assms(1), of store now] assms(2) by (fastforce simp: prunable_def)

theorem dandelion_expire_complete_witness:
  "\<exists>n hs s'. bm_dandelion_expire_and_refluff True None 5 bm_dandelion_module_init = Done (n, hs, s') \<and> n \<le> 64"
  using dandelion_expire_complete [OF index_ok_init, of 5 None] by auto

end
