(* ===== verification/Peer_Registry.thy ===== *)
theory Peer_Registry
  imports Network Dandelion
begin

text \<open>
  The registry of connections (\<open>src/infra/peer_registry.c\<close>). A connection is a pointer into \<open>conn_mem\<close>;
  following a pointer to freed memory is a fault. Every operation holds the registry lock from
  beginning to end, so operations of different threads do not overlap. The registry implements a set
  with removal by swapping in the last element; the generation number of a registration tells a
  pointer from a later one to the same memory.
\<close>

type_synonym conn_mem = "nat \<rightharpoonup> bm_fd_data"

record bm_peer_registry =
  reg_conns :: "nat list"
  reg_capacity :: nat
  next_generation :: u64

definition bm_peer_registry_init :: bm_peer_registry where
  "bm_peer_registry_init = \<lparr>reg_conns = [], reg_capacity = 0, next_generation = 1\<rparr>"

definition bm_peer_registry_destroy :: "bm_peer_registry \<Rightarrow> bm_peer_registry" where
  "bm_peer_registry_destroy reg = reg\<lparr>reg_conns := [], reg_capacity := 0\<rparr>"

text \<open>\<open>grow\<close>: whether \<open>realloc\<close> succeeds.\<close>

definition bm_peer_registry_add ::
  "bool \<Rightarrow> nat \<Rightarrow> conn_mem \<times> bm_peer_registry \<Rightarrow> (conn_mem \<times> bm_peer_registry) outcome" where
  "bm_peer_registry_add grow conn s =
     (case s of (m, reg) \<Rightarrow>
        if reg_capacity reg \<le> length (reg_conns reg) \<and> \<not> grow then Done (m, reg)
        else
          let reg1 = (if reg_capacity reg \<le> length (reg_conns reg)
                      then reg\<lparr>reg_capacity := (if reg_capacity reg = 0 then 8 else reg_capacity reg * 2)\<rparr> else reg)
          in case m conn of
               None \<Rightarrow> Fault
             | Some d \<Rightarrow>
                 Done (m(conn \<mapsto> d\<lparr>generation := next_generation reg1\<rparr>),
                   reg1\<lparr>next_generation := next_generation reg1 + 1, reg_conns := reg_conns reg1 @ [conn]\<rparr>))"

text \<open>The position of a pointer in the array.\<close>

fun find_conn :: "nat \<Rightarrow> nat list \<Rightarrow> nat option" where
  "find_conn conn [] = None"
| "find_conn conn (c # cs) = (if c = conn then Some 0 else map_option Suc (find_conn conn cs))"

definition bm_peer_registry_remove :: "nat \<Rightarrow> bm_peer_registry \<Rightarrow> bm_peer_registry" where
  "bm_peer_registry_remove conn reg =
     (case find_conn conn (reg_conns reg) of
        None \<Rightarrow> reg
      | Some i \<Rightarrow> reg\<lparr>reg_conns := butlast ((reg_conns reg)[i := last (reg_conns reg)])\<rparr>)"

definition bm_peer_registry_evict_if_current ::
  "nat \<Rightarrow> u64 \<Rightarrow> conn_mem \<times> bm_peer_registry \<Rightarrow> (bool \<times> conn_mem) outcome" where
  "bm_peer_registry_evict_if_current conn gen s =
     (case s of (m, reg) \<Rightarrow>
        (case find_conn conn (reg_conns reg) of
           None \<Rightarrow> Done (False, m)
         | Some i \<Rightarrow>
             (case m conn of
                None \<Rightarrow> Fault
              | Some d \<Rightarrow> if generation d = gen then Done (True, m(conn \<mapsto> d\<lparr>pending_eviction := True\<rparr>))
                  else Done (False, m))))"

definition bm_peer_registry_count :: "bm_peer_registry \<Rightarrow> nat" where
  "bm_peer_registry_count reg = length (reg_conns reg)"

text \<open>Reading every registered connection in turn.\<close>

fun deref_all :: "conn_mem \<Rightarrow> nat list \<Rightarrow> bm_fd_data list outcome" where
  "deref_all m [] = Done []"
| "deref_all m (c # cs) =
     (case m c of None \<Rightarrow> Fault | Some d \<Rightarrow> bind_outcome (deref_all m cs) (\<lambda>ds. Done (d # ds)))"

definition bm_peer_registry_count_by_type :: "bm_fd_type \<Rightarrow> conn_mem \<times> bm_peer_registry \<Rightarrow> nat outcome" where
  "bm_peer_registry_count_by_type type s =
     (case s of (m, reg) \<Rightarrow>
        bind_outcome (deref_all m (reg_conns reg)) (\<lambda>ds. Done (length (filter (\<lambda>d. fd_type d = type) ds))))"

fun has_peer_loop :: "(sockaddr \<Rightarrow> bytes) \<Rightarrow> conn_mem \<Rightarrow> bytes \<Rightarrow> int \<Rightarrow> nat list \<Rightarrow> bool outcome" where
  "has_peer_loop ntop m ip port [] = Done False"
| "has_peer_loop ntop m ip port (c # cs) =
     (case m c of
        None \<Rightarrow> Fault
      | Some d \<Rightarrow>
          (case bm_network_resolve_peer_ip_port ntop d of (current_ip, current_port) \<Rightarrow>
             if current_port = port \<and> c_str current_ip = c_str ip then Done True
             else has_peer_loop ntop m ip port cs))"

definition bm_peer_registry_has_peer ::
  "(sockaddr \<Rightarrow> bytes) \<Rightarrow> bytes \<Rightarrow> int \<Rightarrow> conn_mem \<times> bm_peer_registry \<Rightarrow> bool outcome" where
  "bm_peer_registry_has_peer ntop ip port s = (case s of (m, reg) \<Rightarrow> has_peer_loop ntop m ip port (reg_conns reg))"

text \<open>
  A callback run on every registered connection: on a copy of the array taken under the lock (empty
  when it cannot be allocated), or under the lock.
\<close>

fun visit :: "(nat \<Rightarrow> 's \<Rightarrow> 's outcome) \<Rightarrow> nat list \<Rightarrow> 's \<Rightarrow> 's outcome" where
  "visit callback [] s = Done s"
| "visit callback (c # cs) s = bind_outcome (callback c s) (visit callback cs)"

definition bm_peer_registry_for_each ::
  "bool \<Rightarrow> bm_peer_registry \<Rightarrow> (nat \<Rightarrow> 's \<Rightarrow> 's outcome) \<Rightarrow> 's \<Rightarrow> 's outcome" where
  "bm_peer_registry_for_each mem reg callback s = (if mem then visit callback (reg_conns reg) s else Done s)"

definition bm_peer_registry_for_each_locked ::
  "bm_peer_registry \<Rightarrow> (nat \<Rightarrow> 's \<Rightarrow> 's outcome) \<Rightarrow> 's \<Rightarrow> 's outcome" where
  "bm_peer_registry_for_each_locked reg callback s = visit callback (reg_conns reg) s"

section \<open>Announcing objects\<close>

text \<open>\<open>env\<close>: whether memory is available and the random delay for a new entry, and the time.\<close>

definition bm_decide_propagation ::
  "(sockaddr \<Rightarrow> bytes) \<Rightarrow> (bool \<times> bool) \<times> int \<times> int \<Rightarrow> bytes \<Rightarrow> bm_fd_data option \<Rightarrow> dandelion_state
     \<Rightarrow> (bm_propagation_mode \<times> dandelion_state) outcome" where
  "bm_decide_propagation ntop env object_hash target_connection d =
     (case env of (mem, delay, time) \<Rightarrow>
        bm_dandelion_decide mem delay object_hash
          (map_option (bm_network_resolve_peer_ip_port ntop) target_connection) time d)"

text \<open>
  What the system provides while the announcements for one connection are queued: memory for the two
  arrays, for the packets and chunks, the answers of the socket, and the environment of each decision.
\<close>

record inv_env =
  ie_arrays :: bool
  ie_decide :: "nat \<Rightarrow> (bool \<times> bool) \<times> int \<times> int"
  ie_ctl :: bool
  ie_inv :: "bool \<times> allocator \<times> send_answer list"
  ie_dinv :: "bool \<times> allocator \<times> send_answer list"

fun decide_loop ::
  "(sockaddr \<Rightarrow> bytes) \<Rightarrow> (nat \<Rightarrow> (bool \<times> bool) \<times> int \<times> int) \<Rightarrow> bm_fd_data \<Rightarrow> nat \<Rightarrow> bytes list \<Rightarrow> dandelion_state
     \<Rightarrow> (bytes list \<times> bytes list \<times> dandelion_state) outcome" where
  "decide_loop ntop env conn i [] d = Done ([], [], d)"
| "decide_loop ntop env conn i (h # hs) d =
     bind_outcome (bm_decide_propagation ntop (env i) h (Some conn) d) (\<lambda>(mode, d1).
     bind_outcome (decide_loop ntop env conn (Suc i) hs d1) (\<lambda>(fluff, stem, d2).
       Done (if mode = BM_PROPAGATE_FLUFF then h # fluff else fluff,
             if mode = BM_PROPAGATE_STEM then h # stem else stem, d2)))"

text \<open>One packet of announcements: the bit \<open>sent\<close> when it was queued, 4 when sending failed.\<close>

definition queue_hashes ::
  "protocol_globals \<Rightarrow> openssl \<Rightarrow> bool \<Rightarrow> bool \<times> allocator \<times> send_answer list \<Rightarrow> bytes \<Rightarrow> nat \<Rightarrow> bytes list \<Rightarrow> int
     \<Rightarrow> net_stats \<times> bm_fd_data \<Rightarrow> (nat \<times> net_stats \<times> bm_fd_data) option outcome" where
  "queue_hashes g ssl ctl env command sent hashes now s =
     (case env of (packet_mem, alloc, as) \<Rightarrow>
        if hashes = [] \<or> \<not> packet_mem then Done (Some (0, s))
        else bind_outcome (bm_network_send (alloc (heap (send_queue (snd s)))) ctl as (bm_create_inventory_message g ssl command hashes) now s)
          (\<lambda>r. Done (map_option (\<lambda>(rc, s'). (if rc = 0 then sent else 4, s')) r)))"

definition queue_inv_for_conn ::
  "protocol_globals \<Rightarrow> openssl \<Rightarrow> (sockaddr \<Rightarrow> bytes) \<Rightarrow> inv_env \<Rightarrow> bytes list \<Rightarrow> int
     \<Rightarrow> dandelion_state \<times> net_stats \<times> bm_fd_data \<Rightarrow> (nat \<times> dandelion_state \<times> net_stats \<times> bm_fd_data) option outcome" where
  "queue_inv_for_conn g ssl ntop env hashes now s =
     (case s of (d, st, conn) \<Rightarrow>
        if \<not> ie_arrays env then Done (Some (0, d, st, conn))
        else
          bind_outcome (decide_loop ntop (ie_decide env) conn 0 hashes d) (\<lambda>(fluff, stem, d1).
          bind_outcome (queue_hashes g ssl (ie_ctl env) (ie_inv env) (lit ''inv'') 1 fluff now (st, conn)) (\<lambda>r.
            case r of
              None \<Rightarrow> Done None
            | Some (result, st1, conn1) \<Rightarrow>
                if result AND 4 = 0 then
                  bind_outcome (queue_hashes g ssl (ie_ctl env) (ie_dinv env) (lit ''dinv'') 2 stem now (st1, conn1)) (\<lambda>r2.
                    Done (map_option (\<lambda>(result2, st2, conn2). (result OR result2, d1, st2, conn2)) r2))
                else Done (Some (result, d1, st1, conn1)))))"

text \<open>
  The loop over the registered connections; \<open>env\<close> gives the environment of each. The counts that the
  source only logs are left out.
\<close>

fun broadcast_loop ::
  "protocol_globals \<Rightarrow> openssl \<Rightarrow> (sockaddr \<Rightarrow> bytes) \<Rightarrow> (nat \<Rightarrow> inv_env) \<Rightarrow> bytes list \<Rightarrow> nat option \<Rightarrow> int \<Rightarrow> nat list
     \<Rightarrow> dandelion_state \<times> net_stats \<times> conn_mem \<Rightarrow> (dandelion_state \<times> net_stats \<times> conn_mem) option outcome" where
  "broadcast_loop g ssl ntop env hashes except now [] s = Done (Some s)"
| "broadcast_loop g ssl ntop env hashes except now (c # cs) (d, st, m) =
     (case m c of
        None \<Rightarrow> if except = Some c then broadcast_loop g ssl ntop env hashes except now cs (d, st, m) else Fault
      | Some conn \<Rightarrow>
          if except = Some c \<or> fd_type conn = BM_FD_LISTEN_SOCKET
          then broadcast_loop g ssl ntop env hashes except now cs (d, st, m)
          else bind_outcome (queue_inv_for_conn g ssl ntop (env c) hashes now (d, st, conn)) (\<lambda>r.
            case r of
              None \<Rightarrow> Done None
            | Some (_, d1, st1, conn1) \<Rightarrow>
                broadcast_loop g ssl ntop env hashes except now cs (d1, st1, m(c \<mapsto> conn1))))"

definition bm_peer_registry_broadcast_inv ::
  "protocol_globals \<Rightarrow> openssl \<Rightarrow> (sockaddr \<Rightarrow> bytes) \<Rightarrow> (nat \<Rightarrow> inv_env) \<Rightarrow> bytes list \<Rightarrow> nat option \<Rightarrow> int
     \<Rightarrow> bm_peer_registry \<Rightarrow> dandelion_state \<times> net_stats \<times> conn_mem \<Rightarrow> (dandelion_state \<times> net_stats \<times> conn_mem) option outcome" where
  "bm_peer_registry_broadcast_inv g ssl ntop env hashes except now reg s =
     (if hashes = [] then Done (Some s) else broadcast_loop g ssl ntop env hashes except now (reg_conns reg) s)"

section \<open>A random stem peer\<close>

definition dandelion_eligible :: "bm_fd_data \<Rightarrow> bool" where
  "dandelion_eligible conn \<longleftrightarrow>
     fd_type conn = BM_FD_CLIENT_SOCKET \<and> fd_services conn AND BM_SERVICE_NODE_DANDELION \<noteq> 0"

text \<open>\<open>rs\<close>: the random bytes drawn, one for every eligible connection.\<close>

fun pick_loop ::
  "(sockaddr \<Rightarrow> bytes) \<Rightarrow> byte list \<Rightarrow> nat \<Rightarrow> (bytes \<times> int) option \<Rightarrow> conn_mem \<Rightarrow> nat list \<Rightarrow> (bytes \<times> int) option outcome" where
  "pick_loop ntop rs eligible_seen chosen m [] = Done chosen"
| "pick_loop ntop rs eligible_seen chosen m (c # cs) =
     (case m c of
        None \<Rightarrow> Fault
      | Some conn \<Rightarrow>
          if \<not> dandelion_eligible conn then pick_loop ntop rs eligible_seen chosen m cs
          else
            let r = (case rs of [] \<Rightarrow> 0 | r # _ \<Rightarrow> unat r);
                seen = eligible_seen + 1
            in pick_loop ntop (tl rs) seen
                 (if r mod seen = 0 then Some (bm_network_resolve_peer_ip_port ntop conn) else chosen) m cs)"

definition bm_peer_registry_pick_random_dandelion_peer ::
  "(sockaddr \<Rightarrow> bytes) \<Rightarrow> byte list \<Rightarrow> nat \<Rightarrow> conn_mem \<times> bm_peer_registry \<Rightarrow> (bytes \<times> int) option outcome" where
  "bm_peer_registry_pick_random_dandelion_peer ntop rs out_ip_len s =
     (case s of (m, reg) \<Rightarrow>
        bind_outcome (pick_loop ntop rs 0 None m (reg_conns reg)) (\<lambda>chosen.
          Done (map_option (\<lambda>(ip, port). (take (out_ip_len - 1) (take (BM_PEER_IP_STRLEN - 1) (c_str ip)), port)) chosen)))"

section \<open>The registry is a set\<close>

text \<open>What the users of a registry rely on, whatever the order in which it keeps its members.\<close>

locale conn_set =
  fixes members :: "'r \<Rightarrow> nat set"
    and ok :: "'r \<Rightarrow> bool"
    and del :: "nat \<Rightarrow> 'r \<Rightarrow> 'r"
  assumes members_del: "ok r \<Longrightarrow> members (del c r) = members r - {c}"
    and ok_del: "ok r \<Longrightarrow> ok (del c r)"
begin

lemma del_unknown: "ok r \<Longrightarrow> c \<notin> members r \<Longrightarrow> members (del c r) = members r"
  by (simp add: members_del)

lemma del_all: "ok r \<Longrightarrow> ok (fold del cs r) \<and> members (fold del cs r) = members r - set cs"
proof (induction cs arbitrary: r)
  case Nil
  then show ?case by simp
next
  case (Cons c cs)
  from Cons.IH [OF ok_del [OF Cons.prems, of c]] members_del [OF Cons.prems, of c] show ?case by auto
qed

end

definition reg_members :: "bm_peer_registry \<Rightarrow> nat set" where
  "reg_members reg = set (reg_conns reg)"

definition reg_ok :: "bm_peer_registry \<Rightarrow> bool" where
  "reg_ok reg \<longleftrightarrow> distinct (reg_conns reg) \<and> length (reg_conns reg) \<le> reg_capacity reg"

lemma find_conn_split:
  "find_conn c xs = Some i \<Longrightarrow> \<exists>as bs. xs = as @ c # bs \<and> length as = i \<and> c \<notin> set as"
proof (induction xs arbitrary: i)
  case Nil
  then show ?case by simp
next
  case (Cons x xs)
  show ?case
  proof (cases "x = c")
    case True
    then show ?thesis using Cons.prems by (intro exI [of _ "[]"] exI [of _ xs]) simp
  next
    case False
    then obtain j where j: "find_conn c xs = Some j" "i = Suc j" using Cons.prems by auto
    obtain as bs where "xs = as @ c # bs" "length as = j" "c \<notin> set as" using Cons.IH [OF j(1)] by blast
    then show ?thesis using False j(2) by (intro exI [of _ "x # as"] exI [of _ bs]) simp
  qed
qed

lemma find_conn_None: "find_conn c xs = None \<longleftrightarrow> c \<notin> set xs"
  by (induction xs) auto

lemma swap_remove:
  assumes "distinct xs" "find_conn c xs = Some i"
  shows "distinct (butlast (xs[i := last xs])) \<and> set (butlast (xs[i := last xs])) = set xs - {c} \<and>
    length (butlast (xs[i := last xs])) \<le> length xs"
proof -
  obtain as bs where s: "xs = as @ c # bs" "length as = i" using find_conn_split [OF assms(2)] by blast
  show ?thesis
  proof (cases bs rule: rev_cases)
    case Nil
    then show ?thesis using s assms(1) by auto
  next
    case (snoc bs' l)
    then have "butlast (xs[i := last xs]) = as @ l # bs'" using s by (auto simp: butlast_append)
    then show ?thesis using s assms(1) snoc by auto
  qed
qed

interpretation registry: conn_set reg_members reg_ok bm_peer_registry_remove
proof unfold_locales
  fix reg c
  assume ok: "reg_ok reg"
  show "reg_members (bm_peer_registry_remove c reg) = reg_members reg - {c}"
    using ok swap_remove [of "reg_conns reg" c] find_conn_None [of c "reg_conns reg"]
    by (auto simp: reg_ok_def reg_members_def bm_peer_registry_remove_def split: option.splits)
  show "reg_ok (bm_peer_registry_remove c reg)"
    using ok swap_remove [of "reg_conns reg" c]
    by (auto simp: reg_ok_def bm_peer_registry_remove_def split: option.splits)
qed

lemma registry_remove_generation [simp]:
  "next_generation (bm_peer_registry_remove c reg) = next_generation reg"
  by (simp add: bm_peer_registry_remove_def split: option.splits)

section \<open>Registrations and their generations\<close>

text \<open>
  The registered connections are allocated; their generations are distinct and smaller than the next
  one. A registration is a pointer with the generation it got.
\<close>

definition registry_inv :: "conn_mem \<times> bm_peer_registry \<Rightarrow> bool" where
  "registry_inv s = (case s of (m, reg) \<Rightarrow>
     reg_ok reg \<and> reg_members reg \<subseteq> dom m \<and>
     inj_on (\<lambda>c. generation (the (m c))) (reg_members reg) \<and>
     (\<forall>c\<in>reg_members reg. generation (the (m c)) < next_generation reg))"

definition registrations :: "conn_mem \<times> bm_peer_registry \<Rightarrow> (nat \<times> u64) set" where
  "registrations s = (case s of (m, reg) \<Rightarrow> (\<lambda>c. (c, generation (the (m c)))) ` reg_members reg)"

lemma registry_inv_init: "registry_inv (m, bm_peer_registry_init)"
  by (simp add: registry_inv_def reg_ok_def reg_members_def bm_peer_registry_init_def)

lemma word_next:
  assumes "(n :: u64) \<noteq> - 1"
  shows "n < n + 1" "g < n \<Longrightarrow> g < n + 1"
proof -
  have "1 + n \<noteq> 0" using assms by (simp add: add_eq_0_iff)
  then have "unat (n + 1) = Suc (unat n)" using unatSuc [of n] by (simp add: add.commute)
  then show "n < n + 1" "g < n \<Longrightarrow> g < n + 1" by (simp_all add: word_less_nat_alt)
qed

lemma registry_add:
  assumes inv: "registry_inv (m, reg)" and d: "m c = Some d" and new: "c \<notin> reg_members reg"
    and gen: "next_generation reg \<noteq> - 1"
  shows "\<exists>m' reg'. bm_peer_registry_add grow c (m, reg) = Done (m', reg') \<and> registry_inv (m', reg') \<and> dom m' = dom m \<and>
    (registrations (m', reg') = registrations (m, reg) \<or>
     registrations (m', reg') = insert (c, next_generation reg) (registrations (m, reg)))"
proof (cases "reg_capacity reg \<le> length (reg_conns reg) \<and> \<not> grow")
  case True
  then show ?thesis using inv by (simp add: bm_peer_registry_add_def)
next
  case False
  let ?cap = "if reg_capacity reg \<le> length (reg_conns reg)
    then (if reg_capacity reg = 0 then 8 else reg_capacity reg * 2) else reg_capacity reg"
  let ?m = "m(c \<mapsto> d\<lparr>generation := next_generation reg\<rparr>)"
  let ?reg = "reg\<lparr>reg_capacity := ?cap, next_generation := next_generation reg + 1, reg_conns := reg_conns reg @ [c]\<rparr>"
  have add: "bm_peer_registry_add grow c (m, reg) = Done (?m, ?reg)"
    using False d by (cases reg) (auto simp: bm_peer_registry_add_def Let_def)
  have mem: "reg_members ?reg = insert c (reg_members reg)" by (simp add: reg_members_def)
  have gens: "generation (the (?m x)) = generation (the (m x))" if "x \<in> reg_members reg" for x
    using that new by auto
  have "reg_ok ?reg" using inv new by (auto simp: registry_inv_def reg_ok_def reg_members_def)
  moreover have "inj_on (\<lambda>x. generation (the (?m x))) (reg_members ?reg)"
  proof -
    have "inj_on (\<lambda>x. generation (the (?m x))) (reg_members reg) = inj_on (\<lambda>x. generation (the (m x))) (reg_members reg)"
      by (rule inj_on_cong) (rule gens)
    then have "inj_on (\<lambda>x. generation (the (?m x))) (reg_members reg)" using inv by (simp add: registry_inv_def)
    moreover have "generation (the (?m c)) \<notin> (\<lambda>x. generation (the (?m x))) ` (reg_members reg - {c})"
      using inv new gens by (force simp: registry_inv_def)
    ultimately show ?thesis unfolding mem inj_on_insert by (rule conjI)
  qed
  moreover have "\<forall>x\<in>reg_members ?reg. generation (the (?m x)) < next_generation ?reg"
    unfolding mem using inv new gens word_next [OF gen] by (auto simp: registry_inv_def)
  moreover have "reg_members ?reg \<subseteq> dom ?m" unfolding mem using inv by (auto simp: registry_inv_def)
  ultimately have "registry_inv (?m, ?reg)" by (simp add: registry_inv_def)
  moreover have "registrations (?m, ?reg) = insert (c, next_generation reg) (registrations (m, reg))"
    unfolding registrations_def split mem image_insert using gens by (auto intro!: image_cong)
  moreover have "dom ?m = dom m" using d by auto
  ultimately show ?thesis using add by blast
qed

lemma registry_remove:
  assumes "registry_inv (m, reg)"
  shows "registry_inv (m(c := None), bm_peer_registry_remove c reg)"
    "registrations (m(c := None), bm_peer_registry_remove c reg) = {r \<in> registrations (m, reg). fst r \<noteq> c}"
proof -
  have ok: "reg_ok reg" using assms by (simp add: registry_inv_def)
  note del = registry.members_del [OF ok, of c] registry.ok_del [OF ok, of c]
  have gens: "generation (the ((m(c := None)) x)) = generation (the (m x))" if "x \<in> reg_members reg - {c}" for x
    using that by simp
  have "inj_on (\<lambda>x. generation (the (m x))) (reg_members reg - {c})"
    using assms by (auto simp: registry_inv_def intro: inj_on_subset)
  moreover have "inj_on (\<lambda>x. generation (the ((m(c := None)) x))) (reg_members reg - {c}) =
      inj_on (\<lambda>x. generation (the (m x))) (reg_members reg - {c})" by (rule inj_on_cong) (rule gens)
  ultimately have "inj_on (\<lambda>x. generation (the ((m(c := None)) x))) (reg_members reg - {c})" by (simp only:)
  moreover have "reg_members reg - {c} \<subseteq> dom (m(c := None))"
    "\<forall>x\<in>reg_members reg - {c}. generation (the ((m(c := None)) x)) < next_generation reg"
    using assms by (auto simp: registry_inv_def)
  ultimately show "registry_inv (m(c := None), bm_peer_registry_remove c reg)"
    unfolding registry_inv_def split del(1) registry_remove_generation using del(2) by (intro conjI)
  show "registrations (m(c := None), bm_peer_registry_remove c reg) = {r \<in> registrations (m, reg). fst r \<noteq> c}"
  proof -
    have "(\<lambda>x. (x, generation (the ((m(c := None)) x)))) ` (reg_members reg - {c}) =
        (\<lambda>x. (x, generation (the (m x)))) ` (reg_members reg - {c})" by (rule image_cong [OF refl]) simp
    then show ?thesis unfolding registrations_def split del(1) by fastforce
  qed
qed

text \<open>Updating a connection without touching its generation keeps the registrations.\<close>

lemma registry_update:
  assumes "registry_inv (m, reg)" "m c = Some d" "generation d' = generation d"
  shows "registry_inv (m(c \<mapsto> d'), reg)" "registrations (m(c \<mapsto> d'), reg) = registrations (m, reg)"
proof -
  have g: "generation (the ((m(c \<mapsto> d')) x)) = generation (the (m x))" for x using assms(2,3) by simp
  show "registry_inv (m(c \<mapsto> d'), reg)" using assms(1) unfolding registry_inv_def split g by auto
  show "registrations (m(c \<mapsto> d'), reg) = registrations (m, reg)" unfolding registrations_def split g ..
qed

text \<open>A handle marks the connection exactly when it names a current registration.\<close>

lemma evict_current:
  assumes "registry_inv (m, reg)"
  shows "\<exists>m'. bm_peer_registry_evict_if_current c g (m, reg) = Done ((c, g) \<in> registrations (m, reg), m') \<and>
    registry_inv (m', reg) \<and> registrations (m', reg) = registrations (m, reg) \<and>
    (\<forall>x. m' x = (if x = c \<and> (c, g) \<in> registrations (m, reg)
       then map_option (\<lambda>d. d\<lparr>pending_eviction := True\<rparr>) (m x) else m x))"
proof (cases "c \<in> reg_members reg")
  case False
  then have "find_conn c (reg_conns reg) = None" "(c, g) \<notin> registrations (m, reg)"
    by (auto simp: find_conn_None reg_members_def registrations_def)
  then show ?thesis using assms by (simp add: bm_peer_registry_evict_if_current_def)
next
  case True
  then obtain i where i: "find_conn c (reg_conns reg) = Some i"
    using find_conn_None [of c "reg_conns reg"] by (auto simp: reg_members_def)
  obtain d where d: "m c = Some d" using True assms by (auto simp: registry_inv_def)
  have cur: "(c, g) \<in> registrations (m, reg) \<longleftrightarrow> generation d = g"
    using True d by (auto simp: registrations_def)
  show ?thesis
    using i d cur assms registry_update [OF assms d, of "d\<lparr>pending_eviction := True\<rparr>"]
    by (auto simp: bm_peer_registry_evict_if_current_def)
qed

end
