(* ===== verification/Event_Loop.thy ===== *)
theory Event_Loop
  imports Peer_Registry
begin

text \<open>
  The network thread (\<open>bm_network_epoll_thread\<close> of \<open>src/infra/network.c\<close>) and the threads it shares its
  connections with. Only the network thread closes connections; the other threads reach them through
  the registry, under its lock. The registry pointer is never null, as in \<open>src/main.c\<close>.

  The theory shows that no thread touches a freed connection and none is freed twice, as long as the network thread and the
  connector do not free a connection that the other one still uses while it is being opened;
  \<open>src/infra/peer_connector.c\<close> does not ensure that, and the race it leaves is exhibited.
\<close>

abbreviation BM_HANDSHAKE_TIMEOUT_SECONDS :: int where "BM_HANDSHAKE_TIMEOUT_SECONDS \<equiv> 20"
abbreviation BM_IDLE_PING_TIMEOUT_SECONDS :: int where "BM_IDLE_PING_TIMEOUT_SECONDS \<equiv> 300"
abbreviation BM_BIG_INV_CHUNK_INTERVAL_SECONDS :: int where "BM_BIG_INV_CHUNK_INTERVAL_SECONDS \<equiv> 1"
abbreviation BM_MAX_INBOUND_CONNECTIONS :: nat where "BM_MAX_INBOUND_CONNECTIONS \<equiv> 64"

section \<open>The state of the network thread\<close>

text \<open>
  \<open>n_failures\<close> lists the failures recorded with the peer manager, \<open>n_user\<close> is the \<open>user_data\<close> of the
  command handler.
\<close>

record 'u net_node =
  n_mem :: conn_mem
  n_reg :: bm_peer_registry
  n_stats :: net_stats
  n_limiter :: bm_inbound_rate_limiter
  n_failures :: "(bytes \<times> int) list"
  n_user :: 'u

text \<open>Sequencing of operations that may fault or may not have returned.\<close>

definition bind_run :: "'a option outcome \<Rightarrow> ('a \<Rightarrow> 'b option outcome) \<Rightarrow> 'b option outcome" where
  "bind_run m f = bind_outcome m (\<lambda>r. case r of None \<Rightarrow> Done None | Some x \<Rightarrow> f x)"

text \<open>\<open>has_db\<close>: whether the peers database is open. The chunks of the queue bound the loop that frees them.\<close>

definition close_connection :: "(sockaddr \<Rightarrow> bytes) \<Rightarrow> bool \<Rightarrow> nat \<Rightarrow> 'u net_node \<Rightarrow> 'u net_node option outcome" where
  "close_connection ntop has_db c w =
     (case n_mem w c of
        None \<Rightarrow> Fault
      | Some conn \<Rightarrow>
          let (ip, port) = bm_network_resolve_peer_ip_port ntop conn;
              failures = (if fd_type conn = BM_FD_CLIENT_SOCKET \<and> has_db \<and> c_str ip \<noteq> []
                          then n_failures w @ [(ip, port)] else n_failures w)
          in bind_outcome (bm_fd_data_free (send_queued_bytes conn + 1) conn) (\<lambda>_.
               Done (Some (w\<lparr>n_failures := failures, n_reg := bm_peer_registry_remove c (n_reg w),
                 n_mem := (n_mem w)(c := None)\<rparr>))))"

section \<open>Accepting connections\<close>

text \<open>What the system gives for one accepted descriptor; \<open>ae_addr\<close> gives the address of the new structure.\<close>

record accept_env =
  ae_mem :: "bool \<times> bool"
  ae_local :: "sockaddr option"
  ae_peer :: "sockaddr option"
  ae_time :: int
  ae_addr :: "conn_mem \<Rightarrow> nat"
  ae_heap :: "bm_send_chunk heap"
  ae_ctl :: bool
  ae_grow :: bool

datatype accept_answer = Accept_none | Accepted accept_env

definition accept_one :: "accept_env \<Rightarrow> int \<Rightarrow> 'u net_node \<Rightarrow> 'u net_node option outcome" where
  "accept_one e now w =
     (let (allowed, rl) = bm_inbound_rate_limiter_allow now (n_limiter w);
          w1 = w\<lparr>n_limiter := rl\<rparr>
      in if \<not> allowed then Done (Some w1)
         else bind_outcome (bm_peer_registry_count_by_type BM_FD_SERVER_SOCKET (n_mem w1, n_reg w1)) (\<lambda>n.
           if BM_MAX_INBOUND_CONNECTIONS \<le> n then Done (Some w1)
           else case bm_fd_data_new (ae_mem e) BM_FD_SERVER_SOCKET (ae_local e) (ae_peer e) (ae_time e) (ae_heap e) of
             None \<Rightarrow> Done (Some w1)
           | Some conn \<Rightarrow>
               (case bm_network_epoll_register (ae_ctl e) conn of (rc, conn1) \<Rightarrow>
                  if rc \<noteq> 0 then bind_outcome (bm_fd_data_free (send_queued_bytes conn1 + 1) conn1) (\<lambda>_. Done (Some w1))
                  else bind_outcome (bm_peer_registry_add (ae_grow e) (ae_addr e (n_mem w1))
                      ((n_mem w1)(ae_addr e (n_mem w1) \<mapsto> conn1), n_reg w1)) (\<lambda>(m, reg).
                    Done (Some (w1\<lparr>n_mem := m, n_reg := reg\<rparr>))))))"

fun bm_network_handle_accept :: "accept_answer list \<Rightarrow> int \<Rightarrow> 'u net_node \<Rightarrow> 'u net_node option outcome" where
  "bm_network_handle_accept [] now w = Done None"
| "bm_network_handle_accept (Accept_none # as) now w = Done (Some w)"
| "bm_network_handle_accept (Accepted e # as) now w =
     bind_run (accept_one e now w) (bm_network_handle_accept as now)"

section \<open>The idle sweep\<close>

record sweep_env =
  sw_ctl :: bool
  sw_inv :: "bool \<times> allocator \<times> send_answer list"
  sw_ping :: "allocator \<times> send_answer list"

text \<open>\<open>refill\<close> is the upload callback, \<open>None\<close> for NULL.\<close>

type_synonym 'u refill = "(int \<Rightarrow> 'u \<times> bm_fd_data \<Rightarrow> 'u \<times> bm_fd_data) option"

definition run_refill :: "'u refill \<Rightarrow> int \<Rightarrow> 'u \<times> bm_fd_data \<Rightarrow> 'u \<times> bm_fd_data" where
  "run_refill refill now s =
     (case refill of None \<Rightarrow> s | Some f \<Rightarrow> if 0 < upload_pending_count (snd s) then f now s else s)"

definition idle_sweep_one ::
  "protocol_globals \<Rightarrow> openssl \<Rightarrow> (sockaddr \<Rightarrow> bytes) \<Rightarrow> bool \<Rightarrow> 'u refill \<Rightarrow> sweep_env \<Rightarrow> int \<Rightarrow> nat \<Rightarrow> 'u net_node
     \<Rightarrow> 'u net_node option outcome" where
  "idle_sweep_one g ssl ntop has_db refill env now c w =
     (case n_mem w c of
        None \<Rightarrow> Fault
      | Some conn \<Rightarrow>
          if fd_type conn = BM_FD_LISTEN_SOCKET then Done (Some w)
          else if pending_eviction conn \<or> send_stalled conn now then close_connection ntop has_db c w
          else
            bind_run
              (if pending_inv_hashes conn \<noteq> None \<and>
                  BM_BIG_INV_CHUNK_INTERVAL_SECONDS \<le> now - pending_inv_last_chunk_time conn \<and>
                  bm_network_queued_bytes conn = 0
               then (case sw_inv env of (packet_mem, alloc, as) \<Rightarrow>
                  send_inv_chunk g ssl packet_mem (alloc (heap (send_queue conn))) (sw_ctl env) as now (n_stats w, conn))
               else Done (Some (n_stats w, conn)))
              (\<lambda>(st1, conn1).
                let (u2, conn2) = run_refill refill now (n_user w, conn1);
                    w2 = w\<lparr>n_stats := st1, n_user := u2, n_mem := (n_mem w)(c \<mapsto> conn2)\<rparr>;
                    idle_seconds = now - last_activity conn2
                in if \<not> handshake_complete conn2
                   then (if BM_HANDSHAKE_TIMEOUT_SECONDS < idle_seconds then close_connection ntop has_db c w2
                         else Done (Some w2))
                   else if BM_IDLE_PING_TIMEOUT_SECONDS < idle_seconds
                   then bind_run (send_header_only g ssl (fst (sw_ping env) (heap (send_queue conn2))) (sw_ctl env) (snd (sw_ping env))
                            (lit ''ping'') now (st1, conn2))
                          (\<lambda>(rc, st3, conn3). Done (Some (w2\<lparr>n_stats := st3,
                            n_mem := (n_mem w)(c \<mapsto> (if rc = 0 then conn3\<lparr>last_activity := now\<rparr> else conn3))\<rparr>)))
                   else Done (Some w2)))"

fun sweep_loop ::
  "protocol_globals \<Rightarrow> openssl \<Rightarrow> (sockaddr \<Rightarrow> bytes) \<Rightarrow> bool \<Rightarrow> 'u refill \<Rightarrow> (nat \<Rightarrow> sweep_env) \<Rightarrow> int \<Rightarrow> nat list \<Rightarrow> 'u net_node
     \<Rightarrow> 'u net_node option outcome" where
  "sweep_loop g ssl ntop has_db refill env now [] w = Done (Some w)"
| "sweep_loop g ssl ntop has_db refill env now (c # cs) w =
     bind_run (idle_sweep_one g ssl ntop has_db refill (env c) now c w) (sweep_loop g ssl ntop has_db refill env now cs)"

text \<open>\<open>mem\<close>: whether the snapshot of the registry can be allocated.\<close>

definition bm_network_idle_sweep ::
  "protocol_globals \<Rightarrow> openssl \<Rightarrow> (sockaddr \<Rightarrow> bytes) \<Rightarrow> bool \<Rightarrow> 'u refill \<Rightarrow> (nat \<Rightarrow> sweep_env) \<Rightarrow> bool \<Rightarrow> int \<Rightarrow> 'u net_node
     \<Rightarrow> 'u net_node option outcome" where
  "bm_network_idle_sweep g ssl ntop has_db refill env mem now w =
     (if mem then sweep_loop g ssl ntop has_db refill env now (reg_conns (n_reg w)) w else Done (Some w))"

section \<open>Events\<close>

record net_event =
  ev_conn :: nat
  ev_out :: bool
  ev_in :: bool
  ev_accept :: "accept_answer list"
  ev_ctl :: bool
  ev_flush :: "send_answer list"
  ev_mem :: "nat \<Rightarrow> bool"
  ev_read :: "read_answer list"

type_synonym 'u handler = "bm_message \<Rightarrow> 'u \<times> bm_fd_data \<Rightarrow> 'u \<times> bm_fd_data"

text \<open>The write half of an event: whether the connection is still open, and the state.\<close>

definition event_out :: "(sockaddr \<Rightarrow> bytes) \<Rightarrow> bool \<Rightarrow> 'u refill \<Rightarrow> net_event \<Rightarrow> int \<Rightarrow> bm_fd_data \<Rightarrow> 'u net_node
     \<Rightarrow> (bool \<times> 'u net_node) option outcome" where
  "event_out ntop has_db refill ev now conn w =
     bind_run (bm_network_flush (ev_ctl ev) (ev_flush ev) now (n_stats w, conn)) (\<lambda>(rc, st1, conn1).
       if rc \<noteq> 0 then
         bind_run (close_connection ntop has_db (ev_conn ev) (w\<lparr>n_stats := st1, n_mem := (n_mem w)(ev_conn ev \<mapsto> conn1)\<rparr>))
           (\<lambda>w1. Done (Some (False, w1)))
       else let (u2, conn2) = run_refill refill now (n_user w, conn1)
            in Done (Some (True, w\<lparr>n_stats := st1, n_user := u2, n_mem := (n_mem w)(ev_conn ev \<mapsto> conn2)\<rparr>)))"

text \<open>The read half.\<close>

definition event_in :: "protocol_globals \<Rightarrow> openssl \<Rightarrow> (sockaddr \<Rightarrow> bytes) \<Rightarrow> bool \<Rightarrow> 'u handler \<Rightarrow> net_event \<Rightarrow> int \<Rightarrow> 'u net_node
     \<Rightarrow> 'u net_node option outcome" where
  "event_in g ssl ntop has_db handler ev now w =
     (case n_mem w (ev_conn ev) of
        None \<Rightarrow> Fault
      | Some conn \<Rightarrow>
          bind_run (bm_network_handle_readable g ssl handler (ev_mem ev) (ev_read ev) now (n_stats w) (n_user w, conn))
            (\<lambda>(rc, st, u, conn').
              let w1 = w\<lparr>n_stats := st, n_user := u, n_mem := (n_mem w)(ev_conn ev \<mapsto> conn')\<rparr>
              in if rc \<noteq> 0 then close_connection ntop has_db (ev_conn ev) w1 else Done (Some w1)))"

definition handle_event ::
  "protocol_globals \<Rightarrow> openssl \<Rightarrow> (sockaddr \<Rightarrow> bytes) \<Rightarrow> bool \<Rightarrow> 'u handler \<Rightarrow> 'u refill \<Rightarrow> net_event \<Rightarrow> int \<Rightarrow> 'u net_node
     \<Rightarrow> 'u net_node option outcome" where
  "handle_event g ssl ntop has_db handler refill ev now w =
     (case n_mem w (ev_conn ev) of
        None \<Rightarrow> Fault
      | Some conn \<Rightarrow>
          if fd_type conn = BM_FD_LISTEN_SOCKET then bm_network_handle_accept (ev_accept ev) now w
          else
            bind_run (if ev_out ev then event_out ntop has_db refill ev now conn w else Done (Some (True, w)))
              (\<lambda>(is_open, w1).
                if \<not> is_open \<or> \<not> ev_in ev then Done (Some w1)
                else event_in g ssl ntop has_db handler ev now w1))"

fun event_loop ::
  "protocol_globals \<Rightarrow> openssl \<Rightarrow> (sockaddr \<Rightarrow> bytes) \<Rightarrow> bool \<Rightarrow> 'u handler \<Rightarrow> 'u refill \<Rightarrow> net_event list \<Rightarrow> int \<Rightarrow> 'u net_node
     \<Rightarrow> 'u net_node option outcome" where
  "event_loop g ssl ntop has_db handler refill [] now w = Done (Some w)"
| "event_loop g ssl ntop has_db handler refill (ev # evs) now w =
     bind_run (handle_event g ssl ntop has_db handler refill ev now w)
       (event_loop g ssl ntop has_db handler refill evs now)"

text \<open>One round of \<open>bm_network_epoll_thread\<close> after \<open>epoll_wait\<close> returned \<open>evs\<close>; \<open>on_sweep\<close> is the callback.\<close>

definition epoll_round ::
  "protocol_globals \<Rightarrow> openssl \<Rightarrow> (sockaddr \<Rightarrow> bytes) \<Rightarrow> bool \<Rightarrow> 'u handler \<Rightarrow> 'u refill \<Rightarrow> (int \<Rightarrow> 'u net_node \<Rightarrow> 'u net_node)
     \<Rightarrow> net_event list \<Rightarrow> (nat \<Rightarrow> sweep_env) \<Rightarrow> bool \<Rightarrow> int \<Rightarrow> 'u net_node \<Rightarrow> 'u net_node option outcome" where
  "epoll_round g ssl ntop has_db handler refill on_sweep evs env mem now w =
     bind_run (event_loop g ssl ntop has_db handler refill evs now w) (\<lambda>w1.
     bind_run (bm_network_idle_sweep g ssl ntop has_db refill env mem now w1) (\<lambda>w2. Done (Some (on_sweep now w2))))"

section \<open>Lemmas: well-formed connections\<close>

text \<open>
  The queue of a connection holds a byte stream, its receive buffer has a size, and the hashes it still
  has to announce exist.
\<close>

definition inv_hashes_ok :: "bm_fd_data \<Rightarrow> bool" where
  "inv_hashes_ok conn \<longleftrightarrow>
     0 < buf_size conn \<and>
     (\<forall>hs. pending_inv_hashes conn = Some hs \<longrightarrow>
       pending_inv_sent conn \<le> pending_inv_total conn \<and> pending_inv_total conn \<le> length hs)"

definition conn_ok :: "bm_fd_data \<Rightarrow> bool" where
  "conn_ok conn \<longleftrightarrow> (\<exists>pend. send_ok conn pend) \<and> inv_hashes_ok conn"

text \<open>Sending leaves everything but the queue and its accounting alone, and the memory in use finite.\<close>

definition mem_finite :: "bm_fd_data \<Rightarrow> bool" where
  "mem_finite conn \<longleftrightarrow> finite (dom (heap (send_queue conn)))"

definition same_rest :: "bm_fd_data \<Rightarrow> bm_fd_data \<Rightarrow> bool" where
  "same_rest conn conn' \<longleftrightarrow>
     generation conn' = generation conn \<and> buf_size conn' = buf_size conn \<and> fd_type conn' = fd_type conn \<and>
     logical_peer_ip conn' = logical_peer_ip conn \<and> logical_peer_port conn' = logical_peer_port conn \<and>
     pending_inv_hashes conn' = pending_inv_hashes conn \<and> pending_inv_total conn' = pending_inv_total conn \<and>
     pending_inv_sent conn' = pending_inv_sent conn \<and> upload_pending conn' = upload_pending conn \<and>
     upload_pending_head conn' = upload_pending_head conn \<and> upload_pending_count conn' = upload_pending_count conn \<and>
     upload_pending_cap conn' = upload_pending_cap conn \<and> upload_sent conn' = upload_sent conn \<and>
     upload_not_found conn' = upload_not_found conn \<and> recv_buffer conn' = recv_buffer conn \<and>
     handshake_complete conn' = handshake_complete conn \<and> should_disconnect conn' = should_disconnect conn \<and>
     fd_services conn' = fd_services conn \<and> pending_verack_reply_at conn' = pending_verack_reply_at conn \<and>
     (mem_finite conn \<longrightarrow> mem_finite conn') \<and> (pending_eviction conn \<longrightarrow> pending_eviction conn')"

lemma same_rest_refl [simp]: "same_rest conn conn"
  by (simp add: same_rest_def)

lemma same_rest_trans: "same_rest a b \<Longrightarrow> same_rest b c \<Longrightarrow> same_rest a c"
  by (simp add: same_rest_def)

lemma same_rest_inv_hashes: "same_rest a b \<Longrightarrow> inv_hashes_ok b = inv_hashes_ok a"
  by (simp add: same_rest_def inv_hashes_ok_def)

lemma mem_finite_advance [simp]: "finite (dom (heap q)) \<Longrightarrow> finite (dom (heap (advance_head p nd n q)))"
  by (simp add: advance_head_def free_node_def Let_def)

lemma mem_finite_link: "link_tail c x q = Done q' \<Longrightarrow> finite (dom (heap q)) \<Longrightarrow> finite (dom (heap q'))"
  by (auto simp: link_tail_def Let_def split: option.splits if_splits)

lemma flush_loop_frame:
  "flush_loop as now (st, conn) = Done (Some (ok, st', conn')) \<Longrightarrow> same_rest conn conn'"
proof (induction as arbitrary: st conn)
  case Nil
  then show ?case by (subst (asm) flush_loop.simps) (auto split: option.splits)
next
  case (Cons a as)
  show ?case
  proof (cases "head (send_queue conn)")
    case None
    then show ?thesis using Cons.prems by (subst (asm) flush_loop.simps) simp
  next
    case (Some p)
    then obtain nd where nd: "heap (send_queue conn) p = Some nd"
      using Cons.prems by (subst (asm) flush_loop.simps) (auto split: option.splits)
    show ?thesis
    proof (cases a)
      case (Sent k)
      let ?offered = "drop (chunk_off (node_data nd)) (chunk_data (node_data nd))"
      let ?n = "min k (length ?offered)"
      show ?thesis
      proof (cases "?n = 0")
        case True
        then show ?thesis using Cons.prems Some nd Sent by (subst (asm) flush_loop.simps) (simp add: Let_def)
      next
        case False
        obtain st1 conn1 where c: "count_sent ?n (take ?n ?offered) now
            (st, conn\<lparr>send_queue := advance_head p nd ?n (send_queue conn)\<rparr>) = (st1, conn1)" by force
        have "flush_loop (a # as) now (st, conn) = flush_loop as now (st1, conn1)"
          unfolding flush_loop.simps [of "a # as"] Some
          by (simp only: nd Sent option.case list.case send_answer.case Let_def c if_not_P [OF False])
        with Cons.prems have "same_rest conn1 conn'" by (intro Cons.IH) simp
        moreover have "same_rest conn conn1" using c by (auto simp: count_sent_def same_rest_def mem_finite_def)
        ultimately show ?thesis by (rule same_rest_trans [rotated])
      qed
    next
      case Send_eintr
      then have "flush_loop (a # as) now (st, conn) = flush_loop as now (st, conn)"
        using Some nd by (subst flush_loop.simps) simp
      with Cons.prems show ?thesis by (intro Cons.IH) simp
    next
      case Send_again
      then show ?thesis using Cons.prems Some nd by (subst (asm) flush_loop.simps) simp
    next
      case Send_error
      then show ?thesis using Cons.prems Some nd by (subst (asm) flush_loop.simps) simp
    qed
  qed
qed

lemma flush_locked_frame:
  "flush_locked ctl as now (st, conn) = Done (Some (rc, st', conn')) \<Longrightarrow> same_rest conn conn'"
  by (auto simp: flush_locked_def update_out_interest_locked_def Let_def split: if_splits dest!: flush_loop_frame)
    (auto simp: same_rest_def mem_finite_def)

lemma send_frame:
  assumes "bm_network_send new_chunk ctl as data now (st, conn) = Done (Some (rc, st', conn'))"
  shows "same_rest conn conn'"
proof -
  let ?c = "\<lambda>q. conn\<lparr>send_queue := q,
    last_write_progress := (if tail (send_queue conn) = None then now else last_write_progress conn),
    send_queued_bytes := send_queued_bytes conn + length data\<rparr>"
  show ?thesis
  proof (cases "data = [] \<or> BM_SEND_QUEUE_HARD_LIMIT_BYTES < send_queued_bytes conn + length data \<or> new_chunk = None")
    case True
    then have "conn' = conn \<or> conn' = conn\<lparr>pending_eviction := True\<rparr>"
      using assms by (cases new_chunk) (simp_all add: bm_network_send_def split: if_splits)
    then show ?thesis by (auto simp: same_rest_def mem_finite_def)
  next
    case False
    then obtain c where c: "new_chunk = Some c" by auto
    have eq: "bm_network_send new_chunk ctl as data now (st, conn) =
        bind_outcome (link_tail c \<lparr>chunk_data = data, chunk_off = 0\<rparr> (send_queue conn)) (\<lambda>q.
        bind_outcome (flush_locked ctl as now (st, ?c q)) (\<lambda>r. Done (map_option (\<lambda>(rc, st', conn').
          if rc \<noteq> 0 then (-1, st', conn'\<lparr>pending_eviction := True\<rparr>) else (0, st', conn')) r)))"
      using False c by (simp add: bm_network_send_def)
    obtain q r where link: "link_tail c \<lparr>chunk_data = data, chunk_off = 0\<rparr> (send_queue conn) = Done q"
      and "flush_locked ctl as now (st, ?c q) = Done r"
      and r: "map_option (\<lambda>(rc, st', conn'). if rc \<noteq> 0 then (-1, st', conn'\<lparr>pending_eviction := True\<rparr>)
        else (0, st', conn')) r = Some (rc, st', conn')"
      using assms unfolding eq bind_outcome_Done_iff outcome.inject by blast
    moreover obtain rc1 st1 conn1 where "r = Some (rc1, st1, conn1)" "conn' = conn1 \<or> conn' = conn1\<lparr>pending_eviction := True\<rparr>"
      using r by (auto split: if_splits)
    ultimately have "same_rest (?c q) conn1" "conn' = conn1 \<or> conn' = conn1\<lparr>pending_eviction := True\<rparr>"
      using flush_locked_frame by blast+
    then show ?thesis using mem_finite_link [OF link] by (auto simp: same_rest_def mem_finite_def)
  qed
qed

lemma send_ok_send:
  assumes "send_ok conn pend" "\<forall>c. new_chunk = Some c \<longrightarrow> heap (send_queue conn) c = None"
  shows "\<exists>r. bm_network_send new_chunk True as data now (st, conn) = Done r \<and>
    (\<forall>rc st' conn'. r = Some (rc, st', conn') \<longrightarrow> (\<exists>p. send_ok conn' p))"
  using send_stream_step [OF assms, where data = data and as = as and now = now and st = st]
  by (elim exE conjE) (intro exI conjI, assumption, blast)

lemma send_holds_flush:
  assumes "send_holds conn pend"
  shows "\<exists>r. bm_network_flush True as now (st, conn) = Done r \<and>
    (\<forall>rc st' conn'. r = Some (rc, st', conn') \<longrightarrow> (\<exists>p. send_holds conn' p))"
  unfolding bm_network_flush_def using flush_locked_stream [OF assms, of as now st]
  by (elim exE conjE) (intro exI conjI, assumption, blast)

lemma conn_ok_send:
  assumes "conn_ok conn" "alloc_ok alloc"
  shows "\<exists>r. bm_network_send (alloc (heap (send_queue conn))) True as data now (st, conn) = Done r \<and>
    (\<forall>rc st' conn'. r = Some (rc, st', conn') \<longrightarrow> conn_ok conn' \<and> same_rest conn conn')"
proof -
  obtain pend where pend: "send_ok conn pend" "inv_hashes_ok conn" using assms(1) by (auto simp: conn_ok_def)
  have new: "\<forall>c. alloc (heap (send_queue conn)) = Some c \<longrightarrow> heap (send_queue conn) c = None"
    using assms(2) by (auto simp: alloc_ok_def)
  obtain r where r: "bm_network_send (alloc (heap (send_queue conn))) True as data now (st, conn) = Done r"
    "\<forall>rc st' conn'. r = Some (rc, st', conn') \<longrightarrow> (\<exists>p. send_ok conn' p)"
    using send_ok_send [OF pend(1) new, of as data now st] by blast
  have "conn_ok conn' \<and> same_rest conn conn'" if "r = Some (rc, st', conn')" for rc st' conn'
    using r(2) that send_frame [of "alloc (heap (send_queue conn))" True as data now st conn rc st' conn'] r(1) that
      same_rest_inv_hashes [of conn conn'] pend(2) by (auto simp: conn_ok_def)
  then show ?thesis using r(1) by blast
qed

lemma flush_fault_free:
  assumes "conn_ok conn"
  shows "\<exists>r. bm_network_flush True as now (st, conn) = Done r \<and>
    (\<forall>rc st' conn'. r = Some (rc, st', conn') \<longrightarrow>
      same_rest conn conn' \<and> (\<exists>p. send_holds conn' p) \<and> (rc = 0 \<longrightarrow> conn_ok conn'))"
proof -
  obtain pend where pend: "send_ok conn pend" "inv_hashes_ok conn" using assms by (auto simp: conn_ok_def)
  then have h: "send_holds conn pend" by (simp add: send_ok_def)
  obtain r where r: "bm_network_flush True as now (st, conn) = Done r"
    "\<forall>rc st' conn'. r = Some (rc, st', conn') \<longrightarrow> (\<exists>p. send_holds conn' p)"
    using send_holds_flush [OF h, of as now st] by blast
  have "same_rest conn conn' \<and> (\<exists>p. send_holds conn' p) \<and> (rc = 0 \<longrightarrow> conn_ok conn')" if "r = Some (rc, st', conn')" for rc st' conn'
  proof -
    have s: "same_rest conn conn'"
      using flush_locked_frame [of True as now st conn rc st' conn'] r(1) that by (simp add: bm_network_flush_def)
    moreover have "rc = 0 \<longrightarrow> conn_ok conn'"
      using flush_stream_step [OF pend(1), of as now st st' conn'] r(1) that same_rest_inv_hashes [OF s] pend(2)
      by (auto simp: conn_ok_def)
    ultimately show ?thesis using r(2) that by blast
  qed
  then show ?thesis using r(1) by blast
qed

text \<open>Freeing a connection frees its chunks and ends.\<close>

lemma unsent_length: "\<forall>c\<in>set cs. chunk_off c < length (chunk_data c) \<Longrightarrow> length cs \<le> length (unsent cs)"
  by (induction cs) (auto simp: Suc_le_eq add_strict_mono intro: le_trans [OF _ add_le_mono])

lemma free_fault_free: "send_holds conn pend \<Longrightarrow> \<exists>h. bm_fd_data_free (send_queued_bytes conn + 1) conn = Done h"
proof -
  assume "send_holds conn pend"
  then obtain ns where ns: "list_at (send_queue conn) ns" "\<forall>c\<in>set (map snd ns). chunk_off c < length (chunk_data c)"
    "send_queued_bytes conn = length (unsent (map snd ns))" by (auto simp: send_holds_def linked_def)
  have "length ns < send_queued_bytes conn + 1" using unsent_length [OF ns(2)] ns(3) by simp
  moreover have "chain (heap (send_queue conn)) (head (send_queue conn)) ns" "distinct (map fst ns)"
    using ns(1) by (simp_all add: list_at_def)
  ultimately show ?thesis unfolding bm_fd_data_free_def using destroy_loop_frees by blast
qed

text \<open>
  The state of the node: the memory in use is finite, the registry is consistent and every connection in memory is well formed.
\<close>

definition node_ok :: "'u net_node \<Rightarrow> bool" where
  "node_ok w \<longleftrightarrow> finite (dom (n_mem w)) \<and> registry_inv (n_mem w, n_reg w) \<and> (\<forall>c conn. n_mem w c = Some conn \<longrightarrow> conn_ok conn)"

lemma close_connection_ok:
  assumes "finite (dom (n_mem w))" "registry_inv (n_mem w, n_reg w)" "\<forall>x d. x \<noteq> c \<longrightarrow> n_mem w x = Some d \<longrightarrow> conn_ok d"
    and "n_mem w c = Some conn" "send_holds conn pend"
  shows "\<exists>w'. close_connection ntop has_db c w = Done (Some w') \<and> node_ok w' \<and> n_mem w' = (n_mem w)(c := None) \<and>
    n_reg w' = bm_peer_registry_remove c (n_reg w)"
proof -
  obtain h where h: "bm_fd_data_free (send_queued_bytes conn + 1) conn = Done h" using free_fault_free [OF assms(5)] by blast
  let ?f = "if fd_type conn = BM_FD_CLIENT_SOCKET \<and> has_db \<and> c_str (fst (bm_network_resolve_peer_ip_port ntop conn)) \<noteq> []
    then n_failures w @ [bm_network_resolve_peer_ip_port ntop conn] else n_failures w"
  let ?w = "w\<lparr>n_failures := ?f, n_reg := bm_peer_registry_remove c (n_reg w), n_mem := (n_mem w)(c := None)\<rparr>"
  have "close_connection ntop has_db c w = Done (Some ?w)"
    using assms(4) h by (simp add: close_connection_def split: prod.splits)
  moreover have "node_ok ?w" using registry_remove(1) [OF assms(2), of c] assms(1,3) by (simp add: node_ok_def)
  ultimately show ?thesis by (intro exI [of _ ?w]) simp
qed

lemma conn_ok_update [simp]:
  "conn_ok (conn\<lparr>recv_buffer := b\<rparr>) = conn_ok conn" "conn_ok (conn\<lparr>last_activity := t\<rparr>) = conn_ok conn"
  "conn_ok (conn\<lparr>fd_bytes_received := n\<rparr>) = conn_ok conn" "conn_ok (conn\<lparr>generation := gen\<rparr>) = conn_ok conn"
  "conn_ok (conn\<lparr>pending_inv_last_chunk_time := t\<rparr>) = conn_ok conn"
  by (simp_all add: conn_ok_def send_ok_def send_holds_def inv_hashes_ok_def)

lemma conn_ok_size: "conn_ok conn \<Longrightarrow> 0 < s \<Longrightarrow> conn_ok (conn\<lparr>buf_size := s\<rparr>)"
  by (auto simp: conn_ok_def send_ok_def send_holds_def inv_hashes_ok_def)

lemma conn_ok_holds: "conn_ok conn \<Longrightarrow> \<exists>p. send_holds conn p"
  by (auto simp: conn_ok_def send_ok_def)

section \<open>Lemmas: the operations of the thread\<close>

lemma grow_buffer_enough: "0 < s \<Longrightarrow> need \<le> grow_buffer s need \<and> s \<le> grow_buffer s need"
proof (induction s need rule: grow_buffer.induct)
  case (1 s need)
  show ?case
  proof (cases "s < need")
    case True
    then have "grow_buffer s need = grow_buffer (2 * s) need" using 1(2) by (subst grow_buffer.simps) simp
    with 1(1) 1(2) True show ?thesis by force
  next
    case False
    then show ?thesis using 1(2) by (subst (1 2) grow_buffer.simps) simp
  qed
qed

lemma read_loop_keeps:
  "conn_ok conn \<Longrightarrow> \<exists>r. read_loop mem as now (st, conn) = Done r \<and>
    (\<forall>ret st' conn'. r = Some (ret, st', conn') \<longrightarrow> conn_ok conn' \<and> generation conn' = generation conn)"
proof (induction as arbitrary: st conn)
  case Nil
  then show ?case by simp
next
  case (Cons a as)
  show ?case
  proof (cases a)
    case (Read bs)
    let ?need = "length (recv_buffer conn) + length bs"
    define size' where "size' = (if buf_size conn < ?need then grow_buffer (buf_size conn) ?need else buf_size conn)"
    let ?st = "net_stats_add_received (word_of_nat (length bs)) st"
    let ?c1 = "conn\<lparr>last_activity := now, fd_bytes_received := fd_bytes_received conn + word_of_nat (length bs)\<rparr>"
    let ?c2 = "?c1\<lparr>buf_size := size', recv_buffer := recv_buffer conn @ bs\<rparr>"
    have pos: "0 < buf_size conn" using Cons.prems by (simp add: conn_ok_def inv_hashes_ok_def)
    have size': "?need \<le> size'" "0 < size'" using grow_buffer_enough [OF pos, of ?need] pos by (auto simp: size'_def)
    have step: "read_loop mem (a # as) now (st, conn) =
        (if buf_size conn < ?need \<and> (MAX_RECV_BUFFER_SIZE < size' \<or> \<not> mem size') then Done (Some (Inl (-1), ?st, ?c1))
         else read_loop mem as now (?st, ?c2))"
      using size'(1) unfolding Read by (cases "buf_size conn < ?need") (simp_all add: Let_def size'_def)
    have "conn_ok ?c2" using Cons.prems conn_ok_size [of ?c1 size'] size'(2) by simp
    from Cons.IH [OF this, of ?st] show ?thesis unfolding step using Cons.prems by auto
  qed (use Cons.prems in auto)
qed

definition handler_keeps :: "'u handler \<Rightarrow> bool" where
  "handler_keeps h \<longleftrightarrow>
     (\<forall>m u c. conn_ok c \<longrightarrow> conn_ok (snd (h m (u, c))) \<and> generation (snd (h m (u, c))) = generation c)"

definition refill_keeps :: "'u refill \<Rightarrow> bool" where
  "refill_keeps refill \<longleftrightarrow>
     (\<forall>now u c. conn_ok c \<longrightarrow> conn_ok (snd (run_refill refill now (u, c))) \<and>
       generation (snd (run_refill refill now (u, c))) = generation c)"

lemma parse_loop_keeps:
  assumes "handler_keeps h"
  shows "conn_ok conn \<Longrightarrow> parse_loop g ssl h buf (u, conn) = (rc, u', conn') \<Longrightarrow>
    conn_ok conn' \<and> generation conn' = generation conn"
proof (induction "length buf" arbitrary: buf u conn rule: less_induct)
  case less
  show ?case
  proof (cases "bm_parse_message g ssl buf")
    case (BM_PARSE_OK m n)
    obtain u1 conn1 where h: "h m (u, conn\<lparr>recv_buffer := drop n buf\<rparr>) = (u1, conn1)" by force
    let ?c = "conn\<lparr>recv_buffer := drop n buf\<rparr>"
    have "conn_ok ?c" using less.prems(1) by simp
    then have "conn_ok (snd (h m (u, ?c))) \<and> generation (snd (h m (u, ?c))) = generation ?c"
      using assms unfolding handler_keeps_def by blast
    then have c1: "conn_ok conn1" "generation conn1 = generation conn" unfolding h by simp_all
    have lt: "length (drop n buf) < length buf" using bm_parse_message_consumed(1) [OF BM_PARSE_OK] by (simp only: length_drop) linarith
    show ?thesis
    proof (cases "should_disconnect conn1")
      case True
      then show ?thesis using less.prems(2) BM_PARSE_OK h c1 by (subst (asm) parse_loop.simps) (auto simp: Let_def)
    next
      case False
      then have "parse_loop g ssl h (drop n buf) (u1, conn1) = (rc, u', conn')"
        using less.prems(2) BM_PARSE_OK h by (subst (asm) parse_loop.simps) (auto simp: Let_def)
      from less.hyps [OF lt c1(1) this] c1(2) show ?thesis by simp
    qed
  next
    case BM_PARSE_INCOMPLETE
    then show ?thesis using less.prems by (subst (asm) parse_loop.simps) auto
  next
    case (BM_PARSE_BAD_CHECKSUM n)
    have lt: "length (drop n buf) < length buf" using bm_parse_message_consumed(2) [OF BM_PARSE_BAD_CHECKSUM] by (simp only: length_drop) linarith
    show ?thesis using less.prems(2) BM_PARSE_BAD_CHECKSUM less.hyps [OF lt less.prems(1)]
      by (subst (asm) parse_loop.simps) auto
  next
    case (BM_PARSE_BAD_MAGIC n)
    have lt: "length (drop n buf) < length buf" using bm_parse_message_consumed(3) [OF BM_PARSE_BAD_MAGIC] by (simp only: length_drop) linarith
    show ?thesis using less.prems(2) BM_PARSE_BAD_MAGIC less.hyps [OF lt less.prems(1)]
      by (subst (asm) parse_loop.simps) auto
  next
    case BM_PARSE_MESSAGE_TOO_LARGE
    then show ?thesis using less.prems by (subst (asm) parse_loop.simps) auto
  qed
qed

lemma handle_readable_keeps:
  assumes "handler_keeps h" "conn_ok conn"
  shows "\<exists>r. bm_network_handle_readable g ssl h mem as now st (u, conn) = Done r \<and>
    (\<forall>rc st' u' conn'. r = Some (rc, st', u', conn') \<longrightarrow> conn_ok conn' \<and> generation conn' = generation conn)"
proof -
  obtain r where r: "read_loop mem as now (st, conn) = Done r"
    "\<forall>ret st' conn'. r = Some (ret, st', conn') \<longrightarrow> conn_ok conn' \<and> generation conn' = generation conn"
    using read_loop_keeps [OF assms(2), of mem as now st] by blast
  show ?thesis
  proof (cases r)
    case None
    then show ?thesis using r(1) by (simp add: bm_network_handle_readable_def)
  next
    case (Some x)
    obtain ret st1 conn1 where x: "x = (ret, st1, conn1)" by (cases x)
    have c1: "conn_ok conn1" "generation conn1 = generation conn" using r(2) Some x by blast+
    show ?thesis
    proof (cases ret)
      case (Inl rc)
      then show ?thesis using r(1) Some x c1 by (simp add: bm_network_handle_readable_def)
    next
      case (Inr i)
      obtain rc u2 conn2 where p: "parse_loop g ssl h (recv_buffer conn1) (u, conn1) = (rc, u2, conn2)" by (metis surj_pair)
      from parse_loop_keeps [OF assms(1) c1(1) p] show ?thesis
        using r(1) Some x Inr p c1(2) by (simp add: bm_network_handle_readable_def)
    qed
  qed
qed

lemma send_inv_chunk_keeps:
  assumes "conn_ok conn" "alloc_ok alloc" "pending_inv_hashes conn \<noteq> None"
  shows "\<exists>r. send_inv_chunk g ssl packet_mem (alloc (heap (send_queue conn))) True as now (st, conn) = Done r \<and>
    (\<forall>st' conn'. r = Some (st', conn') \<longrightarrow> conn_ok conn' \<and> generation conn' = generation conn)"
proof -
  obtain hs where hs: "pending_inv_hashes conn = Some hs" using assms(3) by blast
  have le: "pending_inv_sent conn \<le> pending_inv_total conn" "pending_inv_total conn \<le> length hs"
    using assms(1) hs by (simp_all add: conn_ok_def inv_hashes_ok_def)
  define n where "n = (if pending_inv_total conn - pending_inv_sent conn < BM_BIG_INV_CHUNK_SIZE
    then pending_inv_total conn - pending_inv_sent conn else BM_BIG_INV_CHUNK_SIZE)"
  have n: "pending_inv_sent conn + n \<le> pending_inv_total conn" using le(1) by (auto simp: n_def)
  let ?c1 = "conn\<lparr>pending_inv_last_chunk_time := now\<rparr>"
  let ?packet = "bm_create_inventory_message g ssl (lit ''inv'') (take n (drop (pending_inv_sent conn) hs))"
  have ok1: "conn_ok ?c1" using assms(1) by simp
  have drop_ok: "conn_ok (c\<lparr>pending_inv_hashes := None\<rparr>)" if "conn_ok c" for c
    using that by (auto simp: conn_ok_def send_ok_def send_holds_def inv_hashes_ok_def)
  obtain r where r: "bm_network_send (alloc (heap (send_queue ?c1))) True as ?packet now (st, ?c1) = Done r"
    "\<forall>rc st' conn'. r = Some (rc, st', conn') \<longrightarrow> conn_ok conn' \<and> same_rest ?c1 conn'"
    using conn_ok_send [OF ok1 assms(2), of as ?packet now st] by blast
  have step: "send_inv_chunk g ssl packet_mem (alloc (heap (send_queue conn))) True as now (st, conn) =
      (if \<not> packet_mem then Done (Some (st, ?c1\<lparr>pending_inv_hashes := None\<rparr>))
       else Done (map_option (\<lambda>(rc, st', conn').
          if rc \<noteq> 0 then (st', conn'\<lparr>pending_inv_hashes := None\<rparr>)
          else let sent = pending_inv_sent conn' + n
               in (st', conn'\<lparr>pending_inv_sent := sent,
                 pending_inv_hashes := (if pending_inv_total conn' \<le> sent then None else pending_inv_hashes conn')\<rparr>)) r))"
    unfolding send_inv_chunk_def split Let_def n_def [symmetric] hs option.case using n le(2) r(1) by simp
  have sent_ok: "conn_ok (c\<lparr>pending_inv_sent := pending_inv_sent c + n,
      pending_inv_hashes := (if pending_inv_total c \<le> pending_inv_sent c + n then None else pending_inv_hashes c)\<rparr>)"
    if "conn_ok c" "same_rest ?c1 c" for c
    using that n hs le by (auto simp: conn_ok_def send_ok_def send_holds_def inv_hashes_ok_def same_rest_def)
  show ?thesis
  proof (cases r)
    case None
    then show ?thesis unfolding step using drop_ok [OF ok1] by simp
  next
    case (Some x)
    obtain rc st' c where x: "x = (rc, st', c)" by (cases x)
    then have c: "conn_ok c" "same_rest ?c1 c" using r(2) Some by blast+
    then have "generation c = generation conn" by (simp add: same_rest_def)
    then show ?thesis unfolding step Some x using drop_ok [OF ok1] drop_ok [OF c(1)] sent_ok [OF c] by (simp add: Let_def)
  qed
qed

text \<open>What an operation on the connection \<open>c\<close> leaves: a sound node in which the other connections still exist.\<close>

definition kept :: "nat \<Rightarrow> 'u net_node \<Rightarrow> 'u net_node \<Rightarrow> bool" where
  "kept c w w' \<longleftrightarrow> node_ok w' \<and> dom (n_mem w) - {c} \<subseteq> dom (n_mem w') \<and>
     reg_members (n_reg w') \<inter> dom (n_mem w) \<subseteq> reg_members (n_reg w)"

lemma node_ok_update:
  assumes "node_ok w" "n_mem w c = Some d" "conn_ok d'" "generation d' = generation d"
    and "n_mem w' = (n_mem w)(c \<mapsto> d')" "n_reg w' = n_reg w"
  shows "kept c w w'"
  using assms registry_update(1) [of "n_mem w" "n_reg w" c d d'] by (auto simp: node_ok_def kept_def)

lemma close_kept:
  assumes "node_ok w" "n_mem w c = Some d" "send_holds d' pend" "generation d' = generation d"
    and "n_mem w1 = (n_mem w)(c \<mapsto> d')" "n_reg w1 = n_reg w"
  shows "\<exists>w'. close_connection ntop has_db c w1 = Done (Some w') \<and> kept c w w' \<and> n_mem w' c = None \<and>
    c \<notin> reg_members (n_reg w') \<and> next_generation (n_reg w') = next_generation (n_reg w)"
proof -
  have inv: "registry_inv (n_mem w1, n_reg w1)"
    using registry_update(1) [of "n_mem w" "n_reg w" c d d'] assms by (simp add: node_ok_def)
  have ok: "reg_ok (n_reg w)" using assms(1) by (simp add: node_ok_def registry_inv_def)
  obtain w' where "close_connection ntop has_db c w1 = Done (Some w')" "node_ok w'" "n_mem w' = (n_mem w1)(c := None)"
    "n_reg w' = bm_peer_registry_remove c (n_reg w1)"
    using close_connection_ok [OF _ inv, of c d' pend ntop has_db] assms by (auto simp: node_ok_def)
  then show ?thesis using registry.members_del [OF ok, of c] assms(5,6) by (auto simp: kept_def)
qed

definition sweep_env_ok :: "sweep_env \<Rightarrow> bool" where
  "sweep_env_ok env \<longleftrightarrow> sw_ctl env \<and> alloc_ok (fst (snd (sw_inv env))) \<and> alloc_ok (fst (sw_ping env))"

lemma bind_run_simps [simp]:
  "bind_run (Done None) f = Done None" "bind_run (Done (Some x)) f = f x" "bind_run Fault f = Fault"
  by (simp_all add: bind_run_def)

text \<open>The first part of a sweep: the next chunk of a large inventory.\<close>

lemma sweep_chunk:
  assumes "conn_ok conn" "sweep_env_ok env"
  shows "\<exists>r. (if pending_inv_hashes conn \<noteq> None \<and>
        BM_BIG_INV_CHUNK_INTERVAL_SECONDS \<le> now - pending_inv_last_chunk_time conn \<and> bm_network_queued_bytes conn = 0
      then (case sw_inv env of (packet_mem, alloc, as) \<Rightarrow>
        send_inv_chunk g ssl packet_mem (alloc (heap (send_queue conn))) (sw_ctl env) as now (st, conn))
      else Done (Some (st, conn))) = Done r \<and>
    (\<forall>st' conn'. r = Some (st', conn') \<longrightarrow> conn_ok conn' \<and> generation conn' = generation conn)"
proof -
  obtain packet_mem alloc as where e: "sw_inv env = (packet_mem, alloc, as)" by (cases "sw_inv env")
  have "alloc_ok alloc" "sw_ctl env" using assms(2) e by (simp_all add: sweep_env_ok_def)
  with send_inv_chunk_keeps [OF assms(1) this(1), of g ssl packet_mem as now st] assms(1) show ?thesis by (simp add: e)
qed

lemma idle_sweep_one_ok:
  assumes w: "node_ok w" "n_mem w c = Some conn" and refill: "refill_keeps refill" and env: "sweep_env_ok env"
  shows "\<exists>r. idle_sweep_one g ssl ntop has_db refill env now c w = Done r \<and>
    (\<forall>w'. r = Some w' \<longrightarrow> kept c w w' \<and> next_generation (n_reg w') = next_generation (n_reg w) \<and>
      (fd_type conn \<noteq> BM_FD_LISTEN_SOCKET \<and> (pending_eviction conn \<or> send_stalled conn now) \<longrightarrow>
        n_mem w' c = None \<and> c \<notin> reg_members (n_reg w')))"
proof -
  have ok: "conn_ok conn" using w by (auto simp: node_ok_def)
  show ?thesis
  proof (cases "fd_type conn = BM_FD_LISTEN_SOCKET")
    case True
    then show ?thesis using w by (simp add: idle_sweep_one_def kept_def)
  next
    case open_conn: False
    show ?thesis
    proof (cases "pending_eviction conn \<or> send_stalled conn now")
      case True
      obtain p where "send_holds conn p" using conn_ok_holds [OF ok] by blast
      moreover have "n_mem w = (n_mem w)(c \<mapsto> conn)" using w(2) by (simp add: fun_upd_idem)
      ultimately show ?thesis
        using close_kept [OF w _ refl, of p w ntop has_db] True open_conn w(2) by (auto simp: idle_sweep_one_def)
    next
      case False
      obtain r where r: "(if pending_inv_hashes conn \<noteq> None \<and>
            BM_BIG_INV_CHUNK_INTERVAL_SECONDS \<le> now - pending_inv_last_chunk_time conn \<and> bm_network_queued_bytes conn = 0
          then (case sw_inv env of (packet_mem, alloc, as) \<Rightarrow>
            send_inv_chunk g ssl packet_mem (alloc (heap (send_queue conn))) (sw_ctl env) as now (n_stats w, conn))
          else Done (Some (n_stats w, conn))) = Done r"
        "\<forall>st' conn'. r = Some (st', conn') \<longrightarrow> conn_ok conn' \<and> generation conn' = generation conn"
        using sweep_chunk [OF ok env, of now g ssl "n_stats w"] by blast
      show ?thesis
      proof (cases r)
        case None
        then show ?thesis unfolding idle_sweep_one_def w(2) option.case r(1) using open_conn False by simp
      next
        case (Some x)
        obtain st1 conn1 where x: "x = (st1, conn1)" by (cases x)
        obtain u2 conn2 where rf: "run_refill refill now (n_user w, conn1) = (u2, conn2)" by force
        have c1: "conn_ok conn1" "generation conn1 = generation conn" using r(2) Some x by blast+
        then have "conn_ok (snd (run_refill refill now (n_user w, conn1))) \<and>
            generation (snd (run_refill refill now (n_user w, conn1))) = generation conn1"
          using refill unfolding refill_keeps_def by blast
        then have c2: "conn_ok conn2" "generation conn2 = generation conn" using c1 by (simp_all add: rf)
        let ?w2 = "w\<lparr>n_stats := st1, n_user := u2, n_mem := (n_mem w)(c \<mapsto> conn2)\<rparr>"
        have k2: "kept c w ?w2" by (rule node_ok_update [OF w c2]) simp_all
        obtain p where p: "send_holds conn2 p" using conn_ok_holds [OF c2(1)] by blast
        have close: "\<exists>w'. close_connection ntop has_db c ?w2 = Done (Some w') \<and> kept c w w' \<and>
            next_generation (n_reg w') = next_generation (n_reg w)"
          using close_kept [OF w p c2(2), of ?w2 ntop has_db] by auto
        let ?ping = "send_header_only g ssl (fst (sw_ping env) (heap (send_queue conn2))) (sw_ctl env) (snd (sw_ping env))
          (lit ''ping'') now (st1, conn2)"
        have a: "alloc_ok (fst (sw_ping env))" "sw_ctl env" using env by (simp_all add: sweep_env_ok_def)
        obtain r3 where r3: "?ping = Done r3" "\<forall>rc st' conn'. r3 = Some (rc, st', conn') \<longrightarrow> conn_ok conn' \<and> same_rest conn2 conn'"
          using conn_ok_send [OF c2(1) a(1), of "snd (sw_ping env)" "bm_create_packet g ssl (lit ''ping'') []" now st1] a(2)
          by (auto simp: send_header_only_def)
        have k3: "kept c w (?w2\<lparr>n_stats := st3, n_mem := (n_mem w)(c \<mapsto> (if rc = 0 then conn3\<lparr>last_activity := now\<rparr> else conn3))\<rparr>)"
          if "r3 = Some (rc, st3, conn3)" for rc st3 conn3
        proof -
          have "conn_ok conn3" "generation conn3 = generation conn" using r3(2) that c2(2) by (auto simp: same_rest_def)
          then show ?thesis by (intro node_ok_update [OF w]) (auto simp del: fun_upd_apply)
        qed
        have "idle_sweep_one g ssl ntop has_db refill env now c w =
            (if \<not> handshake_complete conn2
             then (if BM_HANDSHAKE_TIMEOUT_SECONDS < now - last_activity conn2 then close_connection ntop has_db c ?w2
                   else Done (Some ?w2))
             else if BM_IDLE_PING_TIMEOUT_SECONDS < now - last_activity conn2
             then bind_run ?ping (\<lambda>(rc, st3, conn3). Done (Some (?w2\<lparr>n_stats := st3,
               n_mem := (n_mem w)(c \<mapsto> (if rc = 0 then conn3\<lparr>last_activity := now\<rparr> else conn3))\<rparr>)))
             else Done (Some ?w2))"
          unfolding idle_sweep_one_def w(2) option.case r(1) Some x using open_conn False by (simp add: rf Let_def)
        then show ?thesis using False k2 k3 close r3(1) by (cases r3) auto
      qed
    qed
  qed
qed

lemma deref_all_Done: "set cs \<subseteq> dom m \<Longrightarrow> \<exists>ds. deref_all m cs = Done ds"
  by (induction cs) auto

text \<open>Accepting: a new connection gets memory that is not in use.\<close>

definition accept_ok :: "accept_answer \<Rightarrow> bool" where
  "accept_ok a \<longleftrightarrow> (case a of Accept_none \<Rightarrow> True | Accepted e \<Rightarrow> \<forall>m. finite (dom m) \<longrightarrow> m (ae_addr e m) = None)"

lemma conn_ok_new:
  assumes "bm_fd_data_new mem type l p now h = Some conn"
  shows "conn_ok conn" "conn_ok (snd (bm_network_epoll_register ctl conn))"
proof -
  have "send_inv (st, conn, [])" for st by (rule send_inv_new [OF assms])
  then obtain pend where pend: "send_ok conn pend" by (auto simp: send_inv_def)
  have i: "inv_hashes_ok conn" using assms by (auto simp: bm_fd_data_new_def inv_hashes_ok_def split: if_splits option.splits)
  then show "conn_ok conn" using pend by (auto simp: conn_ok_def)
  show "conn_ok (snd (bm_network_epoll_register ctl conn))"
    using pend i send_holds_head [of conn pend]
    by (auto simp: bm_network_epoll_register_def conn_ok_def send_ok_def inv_hashes_ok_def intro!: exI [of _ pend])
qed

lemma accept_one_ok:
  assumes "node_ok w" "\<forall>m. finite (dom m) \<longrightarrow> m (ae_addr e m) = None" "next_generation (n_reg w) \<noteq> - 1"
  shows "\<exists>w'. accept_one e now w = Done (Some w') \<and> node_ok w' \<and> dom (n_mem w) \<subseteq> dom (n_mem w') \<and>
    reg_members (n_reg w') \<inter> dom (n_mem w) \<subseteq> reg_members (n_reg w) \<and>
    (next_generation (n_reg w') = next_generation (n_reg w) \<or> next_generation (n_reg w') = next_generation (n_reg w) + 1)"
proof -
  obtain allowed rl where a: "bm_inbound_rate_limiter_allow now (n_limiter w) = (allowed, rl)" by force
  let ?w1 = "w\<lparr>n_limiter := rl\<rparr>" and ?a = "ae_addr e (n_mem w)"
  have ok1: "node_ok ?w1" using assms(1) by (simp add: node_ok_def)
  have inv: "registry_inv (n_mem w, n_reg w)" using assms(1) by (simp add: node_ok_def)
  then have "set (reg_conns (n_reg w)) \<subseteq> dom (n_mem w)" by (simp add: registry_inv_def reg_members_def)
  then obtain n where n: "bm_peer_registry_count_by_type BM_FD_SERVER_SOCKET (n_mem w, n_reg w) = Done n"
    using deref_all_Done [of "reg_conns (n_reg w)" "n_mem w"] by (auto simp: bm_peer_registry_count_by_type_def)
  show ?thesis
  proof (cases "bm_fd_data_new (ae_mem e) BM_FD_SERVER_SOCKET (ae_local e) (ae_peer e) (ae_time e) (ae_heap e)")
    case None
    then show ?thesis using a n ok1 by (auto simp: accept_one_def Let_def)
  next
    case (Some conn)
    obtain rc conn1 where reg: "bm_network_epoll_register (ae_ctl e) conn = (rc, conn1)" by force
    have c1: "conn_ok conn1" using conn_ok_new(2) [OF Some, of "ae_ctl e"] reg by simp
    obtain p where p: "send_holds conn1 p" using conn_ok_holds [OF c1] by blast
    obtain h where h: "bm_fd_data_free (send_queued_bytes conn1 + 1) conn1 = Done h" using free_fault_free [OF p] by blast
    let ?m = "(n_mem w)(?a \<mapsto> conn1)"
    have new: "n_mem w ?a = None" using assms(1,2) by (simp add: node_ok_def)
    then have fresh: "?a \<notin> reg_members (n_reg w)" using inv by (auto simp: registry_inv_def)
    have "generation (the (?m x)) = generation (the (n_mem w x))" if "x \<in> reg_members (n_reg w)" for x
      using that fresh by auto
    then have inv1: "registry_inv (?m, n_reg w)"
      using inv inj_on_cong [of "reg_members (n_reg w)" "\<lambda>x. generation (the (?m x))" "\<lambda>x. generation (the (n_mem w x))"]
      unfolding registry_inv_def split by auto
    obtain m' reg' where add: "bm_peer_registry_add (ae_grow e) ?a (?m, n_reg w) = Done (m', reg')"
      "registry_inv (m', reg')" "dom m' = dom ?m"
      using registry_add [OF inv1 _ fresh assms(3), of conn1 "ae_grow e"] by auto
    have m': "m' x = ?m x \<or> (\<exists>gen. m' x = Some (conn1\<lparr>generation := gen\<rparr>))" for x
      using add(1) by (auto simp: bm_peer_registry_add_def Let_def split: if_splits)
    have "conn_ok d" if "m' x = Some d" for x d
      using m' [of x] that c1 assms(1) by (auto simp: node_ok_def split: if_splits)
    then have "node_ok (?w1\<lparr>n_mem := m', n_reg := reg'\<rparr>)" using add(2,3) assms(1) by (simp add: node_ok_def)
    moreover have "next_generation reg' = next_generation (n_reg w) \<or> next_generation reg' = next_generation (n_reg w) + 1"
      using add(1) by (auto simp: bm_peer_registry_add_def Let_def split: if_splits)
    moreover have "reg_members reg' \<inter> dom (n_mem w) \<subseteq> reg_members (n_reg w)"
      using add(1) new by (auto simp: bm_peer_registry_add_def reg_members_def Let_def split: if_splits)
    ultimately show ?thesis using a n Some reg h add(1,3) ok1 by (auto simp: accept_one_def Let_def)
  qed
qed

text \<open>Fewer than \<open>2 ^ 64\<close> registrations: the generation counter does not wrap during the call.\<close>

definition room_for :: "nat \<Rightarrow> bm_peer_registry \<Rightarrow> bool" where
  "room_for n reg \<longleftrightarrow> unat (next_generation reg) + n < 2 ^ 64"

lemma room_for_step:
  assumes "room_for (Suc n) reg"
    "next_generation reg' = next_generation reg \<or> next_generation reg' = next_generation reg + 1"
  shows "next_generation reg \<noteq> - 1" "room_for n reg'"
proof -
  have lt: "unat (next_generation reg) + 1 < 2 ^ 64" using assms(1) by (simp add: room_for_def)
  then show ne: "next_generation reg \<noteq> - 1" by (auto simp: unsigned_minus_1_eq_mask mask_eq_exp_minus_1)
  have "1 + next_generation reg \<noteq> 0" using ne by (simp add: add_eq_0_iff)
  then have "unat (next_generation reg + 1) = Suc (unat (next_generation reg))"
    using unatSuc [of "next_generation reg"] by (simp add: add.commute)
  then show "room_for n reg'" using assms by (auto simp: room_for_def)
qed

lemma handle_accept_ok:
  "node_ok w \<Longrightarrow> \<forall>a\<in>set as. accept_ok a \<Longrightarrow> room_for (length as) (n_reg w) \<Longrightarrow>
    \<exists>r. bm_network_handle_accept as now w = Done r \<and>
      (\<forall>w'. r = Some w' \<longrightarrow> node_ok w' \<and> dom (n_mem w) \<subseteq> dom (n_mem w') \<and>
        reg_members (n_reg w') \<inter> dom (n_mem w) \<subseteq> reg_members (n_reg w))"
proof (induction as arbitrary: w)
  case Nil
  then show ?case by simp
next
  case (Cons a as)
  show ?case
  proof (cases a)
    case Accept_none
    then show ?thesis using Cons.prems by simp
  next
    case (Accepted e)
    have room: "room_for (Suc (length as)) (n_reg w)" using Cons.prems(3) by simp
    have e: "\<forall>m. finite (dom m) \<longrightarrow> m (ae_addr e m) = None" using Cons.prems(2) Accepted by (simp add: accept_ok_def)
    obtain w1 where w1: "accept_one e now w = Done (Some w1)" "node_ok w1"
      "dom (n_mem w) \<subseteq> dom (n_mem w1) \<and> reg_members (n_reg w1) \<inter> dom (n_mem w) \<subseteq> reg_members (n_reg w)"
      "next_generation (n_reg w1) = next_generation (n_reg w) \<or> next_generation (n_reg w1) = next_generation (n_reg w) + 1"
      using accept_one_ok [OF Cons.prems(1) e room_for_step(1) [OF room disjI1 [OF refl]], of now] by blast
    have "\<forall>a\<in>set as. accept_ok a" using Cons.prems(2) by simp
    from Cons.IH [OF w1(2) this room_for_step(2) [OF room w1(4)]] obtain r where
      r: "bm_network_handle_accept as now w1 = Done r"
        "\<forall>w'. r = Some w' \<longrightarrow> node_ok w' \<and> dom (n_mem w1) \<subseteq> dom (n_mem w') \<and>
          reg_members (n_reg w') \<inter> dom (n_mem w1) \<subseteq> reg_members (n_reg w1)" by blast
    have "\<forall>w'. r = Some w' \<longrightarrow> node_ok w' \<and> dom (n_mem w) \<subseteq> dom (n_mem w') \<and>
        reg_members (n_reg w') \<inter> dom (n_mem w) \<subseteq> reg_members (n_reg w)" using r(2) w1(3) by blast
    then show ?thesis unfolding Accepted using w1(1) r(1) by simp
  qed
qed

definition event_ok :: "net_event \<Rightarrow> 'u net_node \<Rightarrow> bool" where
  "event_ok ev w \<longleftrightarrow> ev_ctl ev \<and> (\<forall>a\<in>set (ev_accept ev). accept_ok a) \<and> room_for (length (ev_accept ev)) (n_reg w)"

lemma event_out_ok:
  assumes w: "node_ok w" "n_mem w (ev_conn ev) = Some conn" and refill: "refill_keeps refill" and ev: "ev_ctl ev"
  shows "\<exists>r. event_out ntop has_db refill ev now conn w = Done r \<and>
    (\<forall>is_open w'. r = Some (is_open, w') \<longrightarrow> kept (ev_conn ev) w w' \<and> (is_open \<longrightarrow> n_mem w' (ev_conn ev) \<noteq> None))"
proof -
  have ok: "conn_ok conn" using w by (auto simp: node_ok_def)
  obtain r where r: "bm_network_flush True (ev_flush ev) now (n_stats w, conn) = Done r"
    "\<forall>rc st' conn'. r = Some (rc, st', conn') \<longrightarrow>
      same_rest conn conn' \<and> (\<exists>p. send_holds conn' p) \<and> (rc = 0 \<longrightarrow> conn_ok conn')"
    using flush_fault_free [OF ok, of "ev_flush ev" now "n_stats w"] by blast
  show ?thesis
  proof (cases r)
    case None
    then show ?thesis using r(1) ev by (simp add: event_out_def)
  next
    case (Some x)
    obtain rc st1 conn1 where x: "x = (rc, st1, conn1)" by (cases x)
    have c1: "generation conn1 = generation conn" "\<exists>p. send_holds conn1 p" "rc = 0 \<longrightarrow> conn_ok conn1"
      using r(2) Some x by (auto simp: same_rest_def)
    show ?thesis
    proof (cases "rc = 0")
      case False
      let ?w1 = "w\<lparr>n_stats := st1, n_mem := (n_mem w)(ev_conn ev \<mapsto> conn1)\<rparr>"
      obtain p where "send_holds conn1 p" using c1(2) by blast
      from close_kept [OF w this c1(1), of ?w1 ntop has_db]
      obtain w' where "close_connection ntop has_db (ev_conn ev) ?w1 = Done (Some w')" "kept (ev_conn ev) w w'" by auto
      then show ?thesis using r(1) Some x False ev by (simp add: event_out_def)
    next
      case True
      obtain u2 conn2 where rf: "run_refill refill now (n_user w, conn1) = (u2, conn2)" by force
      have "conn_ok (snd (run_refill refill now (n_user w, conn1))) \<and>
          generation (snd (run_refill refill now (n_user w, conn1))) = generation conn1"
        using refill c1(3) True unfolding refill_keeps_def by blast
      then have c2: "conn_ok conn2" "generation conn2 = generation conn" using c1(1) by (simp_all add: rf)
      have "kept (ev_conn ev) w (w\<lparr>n_stats := st1, n_user := u2, n_mem := (n_mem w)(ev_conn ev \<mapsto> conn2)\<rparr>)"
        by (rule node_ok_update [OF w c2]) simp_all
      then show ?thesis using r(1) Some x True ev rf by (simp add: event_out_def)
    qed
  qed
qed

lemma event_in_ok:
  assumes w: "node_ok w" "n_mem w (ev_conn ev) = Some conn" and handler: "handler_keeps handler"
  shows "\<exists>r. event_in g ssl ntop has_db handler ev now w = Done r \<and> (\<forall>w'. r = Some w' \<longrightarrow> kept (ev_conn ev) w w')"
proof -
  have ok: "conn_ok conn" using w by (auto simp: node_ok_def)
  obtain r where r: "bm_network_handle_readable g ssl handler (ev_mem ev) (ev_read ev) now (n_stats w) (n_user w, conn) = Done r"
    "\<forall>rc st' u' conn'. r = Some (rc, st', u', conn') \<longrightarrow> conn_ok conn' \<and> generation conn' = generation conn"
    using handle_readable_keeps [OF handler ok, of g ssl "ev_mem ev" "ev_read ev" now "n_stats w" "n_user w"] by blast
  show ?thesis
  proof (cases r)
    case None
    then show ?thesis using r(1) w(2) by (simp add: event_in_def)
  next
    case (Some x)
    obtain rc st u conn' where x: "x = (rc, st, u, conn')" by (cases x)
    have c: "conn_ok conn'" "generation conn' = generation conn" using r(2) Some x by blast+
    let ?w1 = "w\<lparr>n_stats := st, n_user := u, n_mem := (n_mem w)(ev_conn ev \<mapsto> conn')\<rparr>"
    obtain p where p: "send_holds conn' p" using conn_ok_holds [OF c(1)] by blast
    obtain w' where "close_connection ntop has_db (ev_conn ev) ?w1 = Done (Some w')" "kept (ev_conn ev) w w'"
      using close_kept [OF w p c(2), of ?w1 ntop has_db] by auto
    moreover have "kept (ev_conn ev) w ?w1" by (rule node_ok_update [OF w c]) simp_all
    ultimately show ?thesis using r(1) Some x w(2) by (simp add: event_in_def Let_def)
  qed
qed

lemma handle_event_ok:
  assumes w: "node_ok w" "n_mem w (ev_conn ev) \<noteq> None" and refill: "refill_keeps refill" and handler: "handler_keeps handler"
    and ev: "event_ok ev w"
  shows "\<exists>r. handle_event g ssl ntop has_db handler refill ev now w = Done r \<and> (\<forall>w'. r = Some w' \<longrightarrow> kept (ev_conn ev) w w')"
proof -
  obtain conn where conn: "n_mem w (ev_conn ev) = Some conn" using w(2) by blast
  show ?thesis
  proof (cases "fd_type conn = BM_FD_LISTEN_SOCKET")
    case True
    have "\<forall>a\<in>set (ev_accept ev). accept_ok a" "room_for (length (ev_accept ev)) (n_reg w)"
      using ev by (simp_all add: event_ok_def)
    from handle_accept_ok [OF w(1) this, of now] show ?thesis
      using True conn by (auto simp: handle_event_def kept_def) (meson domI domIff in_mono)
  next
    case False
    have ctl: "ev_ctl ev" using ev by (simp add: event_ok_def)
    have "\<exists>r. (if ev_out ev then event_out ntop has_db refill ev now conn w else Done (Some (True, w))) = Done r \<and>
        (\<forall>is_open w'. r = Some (is_open, w') \<longrightarrow> kept (ev_conn ev) w w' \<and> (is_open \<longrightarrow> n_mem w' (ev_conn ev) \<noteq> None))"
      using event_out_ok [OF w(1) conn refill ctl, of ntop has_db now] w by (auto simp: kept_def)
    then obtain r where r: "(if ev_out ev then event_out ntop has_db refill ev now conn w else Done (Some (True, w))) = Done r"
      "\<forall>is_open w'. r = Some (is_open, w') \<longrightarrow> kept (ev_conn ev) w w' \<and> (is_open \<longrightarrow> n_mem w' (ev_conn ev) \<noteq> None)"
      by blast
    show ?thesis
    proof (cases r)
      case None
      then show ?thesis unfolding handle_event_def conn option.case r(1) using False by simp
    next
      case (Some x)
      obtain is_open w1 where x: "x = (is_open, w1)" by (cases x)
      have k: "kept (ev_conn ev) w w1" "is_open \<longrightarrow> n_mem w1 (ev_conn ev) \<noteq> None" using r(2) Some x by blast+
      show ?thesis
      proof (cases "\<not> is_open \<or> \<not> ev_in ev")
        case True
        then show ?thesis unfolding handle_event_def conn option.case r(1) Some x using False k(1) by simp
      next
        case inn: False
        obtain conn1 where c1: "n_mem w1 (ev_conn ev) = Some conn1" using inn k(2) by auto
        have ok1: "node_ok w1" using k(1) by (simp add: kept_def)
        obtain r2 where "event_in g ssl ntop has_db handler ev now w1 = Done r2" "\<forall>w'. r2 = Some w' \<longrightarrow> kept (ev_conn ev) w1 w'"
          using event_in_ok [OF ok1 c1 handler] by blast
        moreover have "kept (ev_conn ev) w w'" if "kept (ev_conn ev) w1 w'" for w'
          using that k(1) c1 unfolding kept_def by (auto simp: domIff) blast+
        ultimately show ?thesis unfolding handle_event_def conn option.case r(1) Some x using False inn by auto
      qed
    qed
  qed
qed

section \<open>Threads\<close>

text \<open>
  The network thread works through the events \<open>todo\<close> of a batch and the snapshot \<open>sweep\<close> of the
  registry; other threads announce objects and mark connections for eviction by the handle they kept.
  The connector opens outgoing connections in the steps of \<open>src/infra/peer_connector.c\<close>: the new structure is added to the
  epoll set (\<open>net_open\<close>), the first message is sent (\<open>net_greet\<close>), after a failure the structure is freed
  (\<open>net_abandon\<close>), else it is entered in the registry (\<open>net_enter\<close>); \<open>held\<close> is the connection it holds, and whether the
  message was sent. Between the steps of one thread any number of steps of the others may happen. \<open>epoll_wait\<close> reports every
  connection at most once, and only connections that were registered with it, also one that is being opened.

  \<open>raced\<close> records that a thread freed a connection that another one was still using: the network thread closed the connection
  that the connector holds, or the connector freed a connection whose event the network thread has in its batch.
\<close>

type_synonym 'u net_state = "nat list \<times> nat list \<times> (nat \<times> bool) option \<times> bool \<times> dandelion_state \<times> 'u net_node"

definition inv_env_ok :: "inv_env \<Rightarrow> bool" where
  "inv_env_ok env \<longleftrightarrow> ie_ctl env \<and> (\<forall>i. fst (ie_decide env i) = (True, True)) \<and> alloc_ok (fst (snd (ie_inv env))) \<and> alloc_ok (fst (snd (ie_dinv env)))"

inductive net_step ::
  "protocol_globals \<Rightarrow> openssl \<Rightarrow> (sockaddr \<Rightarrow> bytes) \<Rightarrow> bool \<Rightarrow> 'u handler \<Rightarrow> 'u refill \<Rightarrow> 'u net_state \<Rightarrow> 'u net_state \<Rightarrow> bool"
  for g ssl ntop has_db handler refill where
  net_wait: "distinct evs \<Longrightarrow> set evs \<subseteq> dom (n_mem w) \<Longrightarrow>
    net_step g ssl ntop has_db handler refill ([], [], held, raced, d, w) (evs, [], held, raced, d, w)"
| net_event: "ev_conn ev = c \<Longrightarrow> event_ok ev w \<Longrightarrow>
    handle_event g ssl ntop has_db handler refill ev now w = Done (Some w') \<Longrightarrow>
    raced' = (raced \<or> (\<exists>sent. held = Some (c, sent)) \<and> n_mem w' c = None) \<Longrightarrow>
    net_step g ssl ntop has_db handler refill (c # todo, sweep, held, raced, d, w) (todo, sweep, held, raced', d, w')"
| net_snapshot: "net_step g ssl ntop has_db handler refill ([], [], held, raced, d, w) ([], reg_conns (n_reg w), held, raced, d, w)"
| net_sweep: "sweep_env_ok env \<Longrightarrow>
    idle_sweep_one g ssl ntop has_db refill env now c w = Done (Some w') \<Longrightarrow>
    net_step g ssl ntop has_db handler refill ([], c # sweep, held, raced, d, w) ([], sweep, held, raced, d, w')"
| net_evict: "bm_peer_registry_evict_if_current c gen (n_mem w, n_reg w) = Done (marked, m) \<Longrightarrow>
    net_step g ssl ntop has_db handler refill (todo, sweep, held, raced, d, w) (todo, sweep, held, raced, d, w\<lparr>n_mem := m\<rparr>)"
| net_broadcast: "\<forall>c. inv_env_ok (env c) \<Longrightarrow>
    bm_peer_registry_broadcast_inv g ssl ntop env hashes except now (n_reg w) (d, n_stats w, n_mem w) =
      Done (Some (d', st, m)) \<Longrightarrow>
    net_step g ssl ntop has_db handler refill (todo, sweep, held, raced, d, w)
      (todo, sweep, held, raced, d', w\<lparr>n_stats := st, n_mem := m\<rparr>)"
| net_open: "n_mem w a = None \<Longrightarrow> bm_fd_data_new mem BM_FD_CLIENT_SOCKET local_name peer_name t h = Some conn \<Longrightarrow>
    bm_network_epoll_register True (conn\<lparr>logical_peer_ip := ip, logical_peer_port := port\<rparr>) = (0, conn') \<Longrightarrow>
    net_step g ssl ntop has_db handler refill (todo, sweep, None, raced, d, w)
      (todo, sweep, Some (a, False), raced, d, w\<lparr>n_mem := (n_mem w)(a \<mapsto> conn')\<rparr>)"
| net_greet: "n_mem w a = Some conn \<Longrightarrow> alloc_ok alloc \<Longrightarrow>
    bm_post_version g ssl time rnd (alloc (heap (send_queue conn))) True as user_agent 3 (fd_peer_addr conn) bm_unspecified_ipv4_address now
      (n_stats w, conn) = Done (Some (0, st, conn')) \<Longrightarrow>
    net_step g ssl ntop has_db handler refill (todo, sweep, Some (a, False), raced, d, w)
      (todo, sweep, Some (a, True), raced, d, w\<lparr>n_stats := st, n_mem := (n_mem w)(a \<mapsto> conn')\<rparr>)"
| net_abandon: "n_mem w a = Some conn \<Longrightarrow> alloc_ok alloc \<Longrightarrow>
    bm_post_version g ssl time rnd (alloc (heap (send_queue conn))) True as user_agent 3 (fd_peer_addr conn) bm_unspecified_ipv4_address now
      (n_stats w, conn) = Done (Some (rc, st, conn')) \<Longrightarrow> rc \<noteq> 0 \<Longrightarrow>
    bm_fd_data_free (send_queued_bytes conn' + 1) conn' = Done freed \<Longrightarrow>
    net_step g ssl ntop has_db handler refill (todo, sweep, Some (a, False), raced, d, w)
      (todo, sweep, None, raced \<or> a \<in> set todo, d, w\<lparr>n_stats := st, n_mem := (n_mem w)(a := None)\<rparr>)"
| net_enter: "room_for 1 (n_reg w) \<Longrightarrow> bm_peer_registry_add grow a (n_mem w, n_reg w) = Done (m, reg) \<Longrightarrow>
    net_step g ssl ntop has_db handler refill (todo, sweep, Some (a, True), raced, d, w)
      (todo, sweep, None, raced, d, w\<lparr>n_mem := m, n_reg := reg\<rparr>)"

text \<open>The connection that is being opened exists, is not registered yet and is not in the snapshot.\<close>

definition net_inv :: "'u net_state \<Rightarrow> bool" where
  "net_inv s = (case s of (todo, sweep, held, raced, d, w) \<Rightarrow> raced \<or>
     node_ok w \<and> index_ok d \<and> distinct todo \<and> set todo \<subseteq> dom (n_mem w) \<and> distinct sweep \<and> set sweep \<subseteq> dom (n_mem w) \<and>
     (todo = [] \<or> sweep = []) \<and>
     (\<forall>a sent. held = Some (a, sent) \<longrightarrow> a \<in> dom (n_mem w) \<and> a \<notin> reg_members (n_reg w) \<and> a \<notin> set sweep))"

lemma queue_hashes_keeps:
  assumes "conn_ok conn" "alloc_ok (fst (snd env))"
  shows "\<exists>r. queue_hashes g ssl True env command sent hashes now (st, conn) = Done r \<and>
    (\<forall>n st' conn'. r = Some (n, st', conn') \<longrightarrow> conn_ok conn' \<and> generation conn' = generation conn)"
proof -
  obtain packet_mem alloc as where e: "env = (packet_mem, alloc, as)" by (cases env)
  obtain r where "bm_network_send (alloc (heap (send_queue conn))) True as (bm_create_inventory_message g ssl command hashes)
      now (st, conn) = Done r"
    "\<forall>rc st' conn'. r = Some (rc, st', conn') \<longrightarrow> conn_ok conn' \<and> same_rest conn conn'"
    using conn_ok_send [OF assms(1), of alloc as "bm_create_inventory_message g ssl command hashes" now st] assms(2) e by auto
  then show ?thesis using assms(1) by (cases r) (auto simp: queue_hashes_def e same_rest_def)
qed

lemma decide_loop_ok:
  "index_ok d \<Longrightarrow> \<forall>i. fst (env i) = (True, True) \<Longrightarrow>
    \<exists>fluff stem d'. decide_loop ntop env conn i hs d = Done (fluff, stem, d') \<and> index_ok d'"
proof (induction hs arbitrary: i d)
  case Nil
  then show ?case by simp
next
  case (Cons h hs)
  obtain delay time where e: "env i = ((True, True), delay, time)" using Cons.prems(2) by (metis prod.collapse)
  obtain mode d1 where d1: "bm_decide_propagation ntop (env i) h (Some conn) d = Done (mode, d1)" "index_ok d1"
    using decide_refines [OF Cons.prems(1), of delay h "map_option (bm_network_resolve_peer_ip_port ntop) (Some conn)" time]
    by (auto simp: bm_decide_propagation_def e)
  obtain fluff stem d2 where d2: "decide_loop ntop env conn (Suc i) hs d1 = Done (fluff, stem, d2)" "index_ok d2"
    using Cons.IH [OF d1(2) Cons.prems(2), of "Suc i"] by (elim exE conjE) (rule that)
  have "decide_loop ntop env conn i (h # hs) d =
      Done (if mode = BM_PROPAGATE_FLUFF then h # fluff else fluff, if mode = BM_PROPAGATE_STEM then h # stem else stem, d2)"
    by (simp only: decide_loop.simps d1(1) d2(1) bind_outcome.simps split)
  with d2(2) show ?case by (intro exI conjI)
qed

lemma queue_inv_for_conn_keeps:
  assumes "conn_ok conn" "index_ok d" "inv_env_ok env"
  shows "\<exists>r. queue_inv_for_conn g ssl ntop env hashes now (d, st, conn) = Done r \<and>
    (\<forall>n d' st' conn'. r = Some (n, d', st', conn') \<longrightarrow>
      index_ok d' \<and> conn_ok conn' \<and> generation conn' = generation conn)"
proof -
  have e: "ie_ctl env" "alloc_ok (fst (snd (ie_inv env)))" "alloc_ok (fst (snd (ie_dinv env)))"
    "\<forall>i. fst (ie_decide env i) = (True, True)" using assms(3) by (simp_all add: inv_env_ok_def)
  obtain fluff stem d1 where d1: "decide_loop ntop (ie_decide env) conn 0 hashes d = Done (fluff, stem, d1)" "index_ok d1"
    using decide_loop_ok [OF assms(2) e(4)] by blast
  obtain r where r: "queue_hashes g ssl True (ie_inv env) (lit ''inv'') 1 fluff now (st, conn) = Done r"
    "\<forall>n st' conn'. r = Some (n, st', conn') \<longrightarrow> conn_ok conn' \<and> generation conn' = generation conn"
    using queue_hashes_keeps [OF assms(1) e(2), of g ssl "lit ''inv''" 1 fluff now st] by blast
  show ?thesis
  proof (cases "ie_arrays env")
    case False
    then show ?thesis using assms(1,2) by (simp add: queue_inv_for_conn_def)
  next
    case arrays: True
    show ?thesis
    proof (cases r)
      case None
      then show ?thesis using r(1) d1(1) e(1) arrays by (simp add: queue_inv_for_conn_def)
    next
      case (Some x)
      obtain n st1 conn1 where x: "x = (n, st1, conn1)" by (cases x)
      have c1: "conn_ok conn1" "generation conn1 = generation conn" using r(2) Some x by blast+
      obtain r2 where r2: "queue_hashes g ssl True (ie_dinv env) (lit ''dinv'') 2 stem now (st1, conn1) = Done r2"
        "\<forall>n st' conn'. r2 = Some (n, st', conn') \<longrightarrow> conn_ok conn' \<and> generation conn' = generation conn1"
        using queue_hashes_keeps [OF c1(1) e(3), of g ssl "lit ''dinv''" 2 stem now st1] by blast
      have eq: "queue_inv_for_conn g ssl ntop env hashes now (d, st, conn) =
          (if n AND 4 = 0 then Done (map_option (\<lambda>(result2, st2, conn2). (n OR result2, d1, st2, conn2)) r2)
           else Done (Some (n, d1, st1, conn1)))"
        using r(1) r2(1) d1(1) e(1) arrays Some x by (simp add: queue_inv_for_conn_def)
      show ?thesis unfolding eq using d1(2) c1 r2(2) by (cases r2) auto
    qed
  qed
qed

lemma broadcast_loop_keeps:
  assumes "\<forall>c. inv_env_ok (env c)"
  shows "set cs \<subseteq> dom m \<Longrightarrow> registry_inv (m, reg) \<Longrightarrow> \<forall>c conn. m c = Some conn \<longrightarrow> conn_ok conn \<Longrightarrow> index_ok d \<Longrightarrow>
    \<exists>r. broadcast_loop g ssl ntop env hashes except now cs (d, st, m) = Done r \<and>
      (\<forall>d' st' m'. r = Some (d', st', m') \<longrightarrow>
        registry_inv (m', reg) \<and> (\<forall>c conn. m' c = Some conn \<longrightarrow> conn_ok conn) \<and> index_ok d' \<and> dom m' = dom m)"
proof (induction cs arbitrary: d st m)
  case Nil
  then show ?case by simp
next
  case (Cons c cs)
  obtain conn where conn: "m c = Some conn" using Cons.prems(1) by auto
  have cs: "set cs \<subseteq> dom m" using Cons.prems(1) by simp
  show ?case
  proof (cases "except = Some c \<or> fd_type conn = BM_FD_LISTEN_SOCKET")
    case True
    then show ?thesis using Cons.IH [OF cs Cons.prems(2-4), of st] conn by simp
  next
    case False
    have ok: "conn_ok conn" using Cons.prems(3) conn by blast
    have ec: "inv_env_ok (env c)" using assms by blast
    obtain r where r: "queue_inv_for_conn g ssl ntop (env c) hashes now (d, st, conn) = Done r"
      "\<forall>n d' st' conn'. r = Some (n, d', st', conn') \<longrightarrow> index_ok d' \<and> conn_ok conn' \<and> generation conn' = generation conn"
      using queue_inv_for_conn_keeps [OF ok Cons.prems(4) ec, of g ssl ntop hashes now st] by blast
    show ?thesis
    proof (cases r)
      case None
      then show ?thesis using r(1) conn False by simp
    next
      case (Some x)
      obtain n d1 st1 conn1 where x: "x = (n, d1, st1, conn1)" by (cases x)
      have c1: "index_ok d1" "conn_ok conn1" "generation conn1 = generation conn" using r(2) Some x by blast+
      let ?m = "m(c \<mapsto> conn1)"
      have m: "registry_inv (?m, reg)" by (rule registry_update(1) [OF Cons.prems(2) conn c1(3)])
      have oks: "\<forall>c conn. ?m c = Some conn \<longrightarrow> conn_ok conn" using Cons.prems(3) c1(2) by simp
      have d: "dom ?m = dom m" using conn by auto
      have cs1: "set cs \<subseteq> dom ?m" using cs unfolding d .
      have "broadcast_loop g ssl ntop env hashes except now (c # cs) (d, st, m) =
          broadcast_loop g ssl ntop env hashes except now cs (d1, st1, ?m)"
        using conn False r(1) Some x by simp
      then show ?thesis using Cons.IH [OF cs1 m oks c1(1), of st1] unfolding d by (simp only:)
    qed
  qed
qed

lemma broadcast_keeps:
  assumes "node_ok w" "index_ok d" "\<forall>c. inv_env_ok (env c)"
  shows "\<exists>r. bm_peer_registry_broadcast_inv g ssl ntop env hashes except now (n_reg w) (d, n_stats w, n_mem w) = Done r \<and>
    (\<forall>d' st m. r = Some (d', st, m) \<longrightarrow> node_ok (w\<lparr>n_stats := st, n_mem := m\<rparr>) \<and> index_ok d' \<and> dom m = dom (n_mem w))"
proof -
  have inv: "registry_inv (n_mem w, n_reg w)" and oks: "\<forall>c conn. n_mem w c = Some conn \<longrightarrow> conn_ok conn"
    using assms(1) by (simp_all add: node_ok_def)
  then have sub: "set (reg_conns (n_reg w)) \<subseteq> dom (n_mem w)" by (simp add: registry_inv_def reg_members_def)
  obtain r where r: "broadcast_loop g ssl ntop env hashes except now (reg_conns (n_reg w)) (d, n_stats w, n_mem w) = Done r"
    "\<forall>d' st' m'. r = Some (d', st', m') \<longrightarrow> registry_inv (m', n_reg w) \<and> (\<forall>c conn. m' c = Some conn \<longrightarrow> conn_ok conn) \<and>
      index_ok d' \<and> dom m' = dom (n_mem w)"
    using broadcast_loop_keeps [OF assms(3) sub inv oks assms(2), of g ssl ntop hashes except now "n_stats w"]
    by (elim exE conjE) (rule that)
  show ?thesis
  proof (cases "hashes = []")
    case True
    then show ?thesis using assms(1,2) by (simp add: bm_peer_registry_broadcast_inv_def node_ok_def)
  next
    case False
    then show ?thesis using r assms(1) by (simp add: bm_peer_registry_broadcast_inv_def node_ok_def)
  qed
qed

lemma conn_ok_evict [simp]: "conn_ok conn \<Longrightarrow> conn_ok (conn\<lparr>pending_eviction := True\<rparr>)"
  by (auto simp: conn_ok_def send_ok_def inv_hashes_ok_def)

lemma evict_keeps:
  assumes "node_ok w" "bm_peer_registry_evict_if_current c gen (n_mem w, n_reg w) = Done (marked, m)"
  shows "node_ok (w\<lparr>n_mem := m\<rparr>)" "dom m = dom (n_mem w)"
proof -
  have inv: "registry_inv (n_mem w, n_reg w)" using assms(1) by (simp add: node_ok_def)
  have m: "registry_inv (m, n_reg w)"
    "\<forall>x. m x = (if x = c \<and> (c, gen) \<in> registrations (n_mem w, n_reg w)
       then map_option (\<lambda>d. d\<lparr>pending_eviction := True\<rparr>) (n_mem w x) else n_mem w x)"
    using evict_current [OF inv, of c gen] assms(2) by auto
  show d: "dom m = dom (n_mem w)" using m(2) by (auto simp: dom_def split: if_splits)
  show "node_ok (w\<lparr>n_mem := m\<rparr>)" unfolding node_ok_def using m assms(1) d by (auto simp: node_ok_def split: if_splits)
qed

lemma registry_inv_alloc:
  assumes "registry_inv (m, reg)" "m a = None"
  shows "registry_inv (m(a \<mapsto> conn), reg)" "a \<notin> reg_members reg"
proof -
  show fresh: "a \<notin> reg_members reg" using assms by (auto simp: registry_inv_def)
  then have "generation (the ((m(a \<mapsto> conn)) x)) = generation (the (m x))" if "x \<in> reg_members reg" for x
    using that by auto
  then show "registry_inv (m(a \<mapsto> conn), reg)"
    using assms(1) inj_on_cong [of "reg_members reg" "\<lambda>x. generation (the ((m(a \<mapsto> conn)) x))" "\<lambda>x. generation (the (m x))"]
    unfolding registry_inv_def split by auto
qed

lemma enter_keeps:
  assumes "node_ok w" "n_mem w a = Some conn" "a \<notin> reg_members (n_reg w)" "room_for 1 (n_reg w)"
  shows "\<exists>m reg. bm_peer_registry_add grow a (n_mem w, n_reg w) = Done (m, reg) \<and>
    node_ok (w\<lparr>n_mem := m, n_reg := reg\<rparr>) \<and> dom m = dom (n_mem w)"
proof -
  have inv: "registry_inv (n_mem w, n_reg w)" using assms(1) by (simp add: node_ok_def)
  have "next_generation (n_reg w) \<noteq> - 1" using assms(4) by (intro room_for_step(1) [of 0 _ "n_reg w"]) simp_all
  from registry_add [OF inv assms(2,3) this, of grow] obtain m reg where
    add: "bm_peer_registry_add grow a (n_mem w, n_reg w) = Done (m, reg)" "registry_inv (m, reg)" "dom m = dom (n_mem w)" by auto
  have m: "m x = n_mem w x \<or> (\<exists>gen. m x = Some (conn\<lparr>generation := gen\<rparr>))" for x
    using add(1) assms(2) by (auto simp: bm_peer_registry_add_def Let_def split: if_splits)
  have "conn_ok d" if "m x = Some d" for x d
    using m [of x] that assms(1,2) by (auto simp: node_ok_def split: if_splits)
  then show ?thesis using assms(1) add by (simp add: node_ok_def)
qed

lemma alloc_keeps:
  assumes "node_ok w" "n_mem w a = None" "conn_ok conn"
  shows "node_ok (w\<lparr>n_mem := (n_mem w)(a \<mapsto> conn)\<rparr>)" "a \<notin> reg_members (n_reg w)"
proof -
  have inv: "registry_inv (n_mem w, n_reg w)" using assms(1) by (simp add: node_ok_def)
  show "a \<notin> reg_members (n_reg w)" by (rule registry_inv_alloc(2) [OF inv assms(2)])
  show "node_ok (w\<lparr>n_mem := (n_mem w)(a \<mapsto> conn)\<rparr>)"
    using registry_inv_alloc(1) [OF inv assms(2), of conn] assms(1,3) by (auto simp: node_ok_def)
qed

lemma connect_keeps:
  assumes "node_ok w" "n_mem w a = None" "conn_ok conn" "room_for 1 (n_reg w)"
    and add: "bm_peer_registry_add grow a ((n_mem w)(a \<mapsto> conn), n_reg w) = Done (m, reg)"
  shows "node_ok (w\<lparr>n_mem := m, n_reg := reg\<rparr>)"
proof -
  let ?w = "w\<lparr>n_mem := (n_mem w)(a \<mapsto> conn)\<rparr>"
  have "node_ok ?w" "a \<notin> reg_members (n_reg ?w)" using alloc_keeps [OF assms(1-3)] by simp_all
  from enter_keeps [OF this(1) _ this(2), of conn grow] assms(4) add show ?thesis by auto
qed

lemma unregistered_freed_keeps:
  assumes "node_ok w" "a \<notin> reg_members (n_reg w)"
  shows "node_ok (w\<lparr>n_stats := st, n_mem := (n_mem w)(a := None)\<rparr>)"
proof -
  have inv: "registry_inv (n_mem w, n_reg w)" using assms(1) by (simp add: node_ok_def)
  have g: "generation (the (((n_mem w)(a := None)) x)) = generation (the (n_mem w x))" if "x \<in> reg_members (n_reg w)" for x
    using that assms(2) by auto
  have "registry_inv ((n_mem w)(a := None), n_reg w)"
    using inv assms(2) inj_on_cong [OF g, where A = "reg_members (n_reg w)"] unfolding registry_inv_def split by auto
  then show ?thesis using assms(1) by (auto simp: node_ok_def)
qed

lemma conn_ok_named [simp]: "conn_ok (conn\<lparr>logical_peer_ip := ip, logical_peer_port := port\<rparr>) = conn_ok conn"
  by (simp add: conn_ok_def send_ok_def send_holds_def inv_hashes_ok_def)

lemma conn_ok_registered: "conn_ok conn \<Longrightarrow> conn_ok (snd (bm_network_epoll_register ctl conn))"
proof -
  assume ok: "conn_ok conn"
  then obtain pend where pend: "send_ok conn pend" "inv_hashes_ok conn" by (auto simp: conn_ok_def)
  then show ?thesis using send_holds_head [of conn pend]
    by (auto simp: bm_network_epoll_register_def conn_ok_def send_ok_def inv_hashes_ok_def intro!: exI [of _ pend])
qed

text \<open>The first message on a connection that is being opened.\<close>

lemma post_version_keeps:
  assumes "node_ok w" "n_mem w a = Some conn" "alloc_ok alloc"
  shows "\<exists>r. bm_post_version g ssl time rnd (alloc (heap (send_queue conn))) True as user_agent 3 (fd_peer_addr conn) bm_unspecified_ipv4_address now
      (n_stats w, conn) = Done r \<and>
    (\<forall>rc st conn'. r = Some (rc, st, conn') \<longrightarrow> node_ok (w\<lparr>n_stats := st, n_mem := (n_mem w)(a \<mapsto> conn')\<rparr>) \<and>
      bm_fd_data_free (send_queued_bytes conn' + 1) conn' \<noteq> Fault)"
proof -
  have ok: "conn_ok conn" using assms by (auto simp: node_ok_def)
  obtain r where r: "bm_post_version g ssl time rnd (alloc (heap (send_queue conn))) True as user_agent 3 (fd_peer_addr conn)
      bm_unspecified_ipv4_address now (n_stats w, conn) = Done r"
    "\<forall>rc st' conn'. r = Some (rc, st', conn') \<longrightarrow> conn_ok conn' \<and> same_rest conn conn'"
    using conn_ok_send [OF ok assms(3)] unfolding bm_post_version_def by blast
  have "node_ok (w\<lparr>n_stats := st, n_mem := (n_mem w)(a \<mapsto> conn')\<rparr>) \<and> bm_fd_data_free (send_queued_bytes conn' + 1) conn' \<noteq> Fault"
    if "r = Some (rc, st, conn')" for rc st conn'
  proof -
    have c: "conn_ok conn'" "generation conn' = generation conn" using r(2) that by (auto simp: same_rest_def)
    obtain p where "send_holds conn' p" using conn_ok_holds [OF c(1)] by blast
    moreover have "kept a w (w\<lparr>n_stats := st, n_mem := (n_mem w)(a \<mapsto> conn')\<rparr>)" by (rule node_ok_update [OF assms(1,2) c]) simp_all
    ultimately show ?thesis using free_fault_free by (fastforce simp: kept_def)
  qed
  then show ?thesis using r(1) by blast
qed

lemma net_step_inv:
  assumes "handler_keeps handler" "refill_keeps refill"
    and "net_step g ssl ntop has_db handler refill s s'" "net_inv s"
  shows "net_inv s'"
  using assms(3,4)
proof cases
  case (net_wait evs w held raced d)
  then show ?thesis using assms(4) by (auto simp: net_inv_def)
next
  case (net_event ev c w now w' raced' raced held todo sweep d)
  show ?thesis
  proof (cases raced')
    case False
    then have r: "\<not> raced" "\<And>sent. held = Some (c, sent) \<Longrightarrow> n_mem w' c \<noteq> None" using net_event(6) by auto
    have w: "node_ok w" "n_mem w (ev_conn ev) \<noteq> None" "sweep = []" "distinct (c # todo)" "set todo \<subseteq> dom (n_mem w)" "index_ok d"
        "\<And>a sent. held = Some (a, sent) \<Longrightarrow> a \<in> dom (n_mem w) \<and> a \<notin> reg_members (n_reg w)"
      using assms(4) net_event(1,3) r(1) by (auto simp: net_inv_def)
    from handle_event_ok [OF w(1,2) assms(2,1) net_event(4), of g ssl ntop has_db now] net_event(5)
    have k: "kept c w w'" using net_event(3) by auto
    have "a \<in> dom (n_mem w') \<and> a \<notin> reg_members (n_reg w')" if "held = Some (a, sent)" for a sent
      using w(7) [OF that] r(2) [of sent] that k by (cases "a = c") (auto simp: kept_def)
    moreover have "node_ok w'" "set todo \<subseteq> dom (n_mem w')" using w(4,5) k by (auto simp: kept_def)
    ultimately show ?thesis using w(3,4,6) unfolding net_event(2) net_inv_def by auto
  qed (simp add: net_inv_def net_event(2))
next
  case (net_snapshot held raced d w)
  then show ?thesis using assms(4) by (auto simp: net_inv_def node_ok_def registry_inv_def reg_ok_def reg_members_def)
next
  case (net_sweep env now c w w' sweep held raced d)
  show ?thesis
  proof (cases raced)
    case False
    have w: "node_ok w" "n_mem w c \<noteq> None" "distinct (c # sweep)" "set sweep \<subseteq> dom (n_mem w)" "index_ok d"
        "\<And>a sent. held = Some (a, sent) \<Longrightarrow> a \<in> dom (n_mem w) \<and> a \<notin> reg_members (n_reg w) \<and> a \<noteq> c \<and> a \<notin> set sweep"
      using assms(4) net_sweep False by (auto simp: net_inv_def)
    then obtain conn where "n_mem w c = Some conn" by blast
    from idle_sweep_one_ok [OF w(1) this assms(2) net_sweep(3), of g ssl ntop has_db now] net_sweep(4)
    have k: "kept c w w'" by auto
    have "a \<in> dom (n_mem w') \<and> a \<notin> reg_members (n_reg w') \<and> a \<notin> set sweep" if "held = Some (a, sent)" for a sent
      using w(6) [OF that] k by (auto simp: kept_def)
    moreover have "node_ok w'" "set sweep \<subseteq> dom (n_mem w')" using w(3,4) k by (auto simp: kept_def)
    ultimately show ?thesis using w(3,5) unfolding net_sweep(2) net_inv_def by auto
  qed (simp add: net_inv_def net_sweep(2))
next
  case (net_evict c gen w marked m todo sweep held raced d)
  show ?thesis
  proof (cases raced)
    case False
    then have "node_ok w" using assms(4) net_evict by (simp add: net_inv_def)
    from evict_keeps [OF this net_evict(3)] show ?thesis using assms(4) net_evict(1,2) False by (simp add: net_inv_def)
  qed (simp add: net_inv_def net_evict(2))
next
  case (net_broadcast env hashes except now w d d' st m todo sweep held raced)
  show ?thesis
  proof (cases raced)
    case False
    then have w: "node_ok w" "index_ok d" using assms(4) net_broadcast by (simp_all add: net_inv_def)
    from broadcast_keeps [OF this net_broadcast(3), of g ssl ntop hashes except now] net_broadcast(4)
    have "node_ok (w\<lparr>n_stats := st, n_mem := m\<rparr>)" "index_ok d'" "dom m = dom (n_mem w)" by auto
    then show ?thesis using assms(4) net_broadcast(1,2) False by (simp add: net_inv_def)
  qed (simp add: net_inv_def net_broadcast(2))
next
  case (net_open w a mem local_name peer_name t h conn port ip conn' todo sweep raced d)
  show ?thesis
  proof (cases raced)
    case False
    then have w: "node_ok w" "set sweep \<subseteq> dom (n_mem w)" using assms(4) net_open by (simp_all add: net_inv_def)
    have "conn_ok conn'" using conn_ok_registered [of "conn\<lparr>logical_peer_ip := ip, logical_peer_port := port\<rparr>" True] conn_ok_new(1) [OF net_open(4)] net_open(5)
      by simp
    from alloc_keeps [OF w(1) net_open(3) this] show ?thesis using assms(4) net_open(1-3) w(2) False by (auto simp: net_inv_def)
  qed (simp add: net_inv_def net_open(2))
next
  case (net_greet w a conn alloc time rnd as user_agent now st conn' todo sweep raced d)
  show ?thesis
  proof (cases raced)
    case False
    then have "node_ok w" using assms(4) net_greet by (simp add: net_inv_def)
    from post_version_keeps [OF this net_greet(3,4), of g ssl time rnd as user_agent now] net_greet(5)
    show ?thesis using assms(4) net_greet(1,2) False by (auto simp: net_inv_def)
  qed (simp add: net_inv_def net_greet(2))
next
  case (net_abandon w a conn alloc time rnd as user_agent now rc st conn' freed todo sweep raced d)
  show ?thesis
  proof (cases "raced \<or> a \<in> set todo")
    case False
    then have w: "node_ok w" "a \<notin> reg_members (n_reg w)" using assms(4) net_abandon(1) by (auto simp: net_inv_def)
    from unregistered_freed_keeps [OF w, of st] show ?thesis using assms(4) net_abandon(1,2) False by (auto simp: net_inv_def)
  qed (simp add: net_inv_def net_abandon(2))
next
  case (net_enter w grow a m reg todo sweep raced d)
  show ?thesis
  proof (cases raced)
    case False
    then obtain conn where w: "node_ok w" "n_mem w a = Some conn" "a \<notin> reg_members (n_reg w)"
      using assms(4) net_enter(1) by (auto simp: net_inv_def)
    from enter_keeps [OF w net_enter(3), of grow] net_enter(4) show ?thesis using assms(4) net_enter(1,2) False by (auto simp: net_inv_def)
  qed (simp add: net_inv_def net_enter(2))
qed

lemma net_reachable_inv:
  assumes "handler_keeps handler" "refill_keeps refill"
    and "(net_step g ssl ntop has_db handler refill)\<^sup>*\<^sup>* s s'" "net_inv s"
  shows "net_inv s'"
  using assms(3,4) by induction (auto intro: net_step_inv [OF assms(1,2)])

section \<open>Properties\<close>

text \<open>
  C29: No thread touches a freed connection. From a sound node, after any interleaving of the steps of
  the network thread with announcements and evictions of other threads and with the opening of outgoing connections by the connector,
  step by step as in the code, in which no thread has freed a connection that another one was just using for its opening
  (C30 shows that the code does not exclude that): the
  registered connections exist, are distinct and have distinct generations; handling the next event
  of the batch and sweeping the next connection of the snapshot find their connection and do not
  fault; a swept connection that was marked for eviction or whose peer has stopped reading is freed
  and unregistered; an announcement does not fault; an eviction handle marks a connection exactly
  when it names a current registration; and the connection being opened exists and is not registered, sending its first message,
  freeing it after a failure and entering it in the registry do not fault.
\<close>

theorem net_threads_safe:
  assumes "handler_keeps handler" "refill_keeps refill" "node_ok w0" "index_ok d0"
    and "(net_step g ssl ntop has_db handler refill)\<^sup>*\<^sup>* ([], [], None, False, d0, w0) (todo, sweep, held, raced, d, w)" "\<not> raced"
  shows "registry_inv (n_mem w, n_reg w) \<and>
    (\<forall>c cs ev now. todo = c # cs \<and> ev_conn ev = c \<and> event_ok ev w \<longrightarrow>
      n_mem w c \<noteq> None \<and> handle_event g ssl ntop has_db handler refill ev now w \<noteq> Fault) \<and>
    (\<forall>c cs env now. sweep = c # cs \<and> sweep_env_ok env \<longrightarrow>
      (\<exists>conn r. n_mem w c = Some conn \<and> idle_sweep_one g ssl ntop has_db refill env now c w = Done r \<and>
        (\<forall>w'. r = Some w' \<and> fd_type conn \<noteq> BM_FD_LISTEN_SOCKET \<and> (pending_eviction conn \<or> send_stalled conn now) \<longrightarrow>
          n_mem w' c = None \<and> c \<notin> reg_members (n_reg w')))) \<and>
    (\<forall>env hashes except now. (\<forall>c. inv_env_ok (env c)) \<longrightarrow>
      bm_peer_registry_broadcast_inv g ssl ntop env hashes except now (n_reg w) (d, n_stats w, n_mem w) \<noteq> Fault) \<and>
    (\<forall>c gen. \<exists>m. bm_peer_registry_evict_if_current c gen (n_mem w, n_reg w) =
      Done ((c, gen) \<in> registrations (n_mem w, n_reg w), m)) \<and>
    (\<forall>a sent. held = Some (a, sent) \<longrightarrow> (\<exists>conn. n_mem w a = Some conn \<and> a \<notin> reg_members (n_reg w) \<and>
      (\<forall>alloc time rnd as user_agent now. alloc_ok alloc \<longrightarrow>
        (\<exists>r. bm_post_version g ssl time rnd (alloc (heap (send_queue conn))) True as user_agent 3 (fd_peer_addr conn)
            bm_unspecified_ipv4_address now (n_stats w, conn) = Done r \<and>
          (\<forall>rc st conn'. r = Some (rc, st, conn') \<longrightarrow> bm_fd_data_free (send_queued_bytes conn' + 1) conn' \<noteq> Fault))) \<and>
      (\<forall>grow. room_for 1 (n_reg w) \<longrightarrow> bm_peer_registry_add grow a (n_mem w, n_reg w) \<noteq> Fault)))"
proof -
  have "net_inv ([], [], None, False, d0, w0)" using assms(3,4) by (simp add: net_inv_def)
  then have inv: "net_inv (todo, sweep, held, False, d, w)" using net_reachable_inv [OF assms(1,2,5)] assms(6) by simp
  then have w: "node_ok w" "index_ok d" by (simp_all add: net_inv_def)
  then have reg: "registry_inv (n_mem w, n_reg w)" by (simp add: node_ok_def)
  have ev: "\<forall>c cs ev now. todo = c # cs \<and> ev_conn ev = c \<and> event_ok ev w \<longrightarrow>
      n_mem w c \<noteq> None \<and> handle_event g ssl ntop has_db handler refill ev now w \<noteq> Fault"
  proof (intro allI impI)
    fix c cs ev now assume a: "todo = c # cs \<and> ev_conn ev = c \<and> event_ok ev w"
    then have "n_mem w (ev_conn ev) \<noteq> None" using inv by (auto simp: net_inv_def)
    from handle_event_ok [OF w(1) this assms(2,1), of g ssl ntop has_db now] a this
    show "n_mem w c \<noteq> None \<and> handle_event g ssl ntop has_db handler refill ev now w \<noteq> Fault" by auto
  qed
  have sw: "\<forall>c cs env now. sweep = c # cs \<and> sweep_env_ok env \<longrightarrow>
      (\<exists>conn r. n_mem w c = Some conn \<and> idle_sweep_one g ssl ntop has_db refill env now c w = Done r \<and>
        (\<forall>w'. r = Some w' \<and> fd_type conn \<noteq> BM_FD_LISTEN_SOCKET \<and> (pending_eviction conn \<or> send_stalled conn now) \<longrightarrow>
          n_mem w' c = None \<and> c \<notin> reg_members (n_reg w')))"
  proof (intro allI impI)
    fix c cs env now assume a: "sweep = c # cs \<and> sweep_env_ok env"
    then obtain conn where conn: "n_mem w c = Some conn" using inv by (auto simp: net_inv_def)
    show "\<exists>conn r. n_mem w c = Some conn \<and> idle_sweep_one g ssl ntop has_db refill env now c w = Done r \<and>
        (\<forall>w'. r = Some w' \<and> fd_type conn \<noteq> BM_FD_LISTEN_SOCKET \<and> (pending_eviction conn \<or> send_stalled conn now) \<longrightarrow>
          n_mem w' c = None \<and> c \<notin> reg_members (n_reg w'))"
      using idle_sweep_one_ok [OF w(1) conn assms(2), of env g ssl ntop has_db now] conn a by blast
  qed
  have br: "\<forall>env hashes except now. (\<forall>c. inv_env_ok (env c)) \<longrightarrow>
      bm_peer_registry_broadcast_inv g ssl ntop env hashes except now (n_reg w) (d, n_stats w, n_mem w) \<noteq> Fault"
  proof (intro allI impI)
    fix env :: "nat \<Rightarrow> inv_env" and hashes except now assume "\<forall>c. inv_env_ok (env c)"
    from broadcast_keeps [OF w this, of g ssl ntop hashes except now]
    show "bm_peer_registry_broadcast_inv g ssl ntop env hashes except now (n_reg w) (d, n_stats w, n_mem w) \<noteq> Fault" by auto
  qed
  have evict: "\<forall>c gen. \<exists>m. bm_peer_registry_evict_if_current c gen (n_mem w, n_reg w) =
      Done ((c, gen) \<in> registrations (n_mem w, n_reg w), m)"
    using evict_current [OF reg] by blast
  have op: "\<exists>conn. n_mem w a = Some conn \<and> a \<notin> reg_members (n_reg w) \<and>
      (\<forall>alloc time rnd as user_agent now. alloc_ok alloc \<longrightarrow>
        (\<exists>r. bm_post_version g ssl time rnd (alloc (heap (send_queue conn))) True as user_agent 3 (fd_peer_addr conn)
            bm_unspecified_ipv4_address now (n_stats w, conn) = Done r \<and>
          (\<forall>rc st conn'. r = Some (rc, st, conn') \<longrightarrow> bm_fd_data_free (send_queued_bytes conn' + 1) conn' \<noteq> Fault))) \<and>
      (\<forall>grow. room_for 1 (n_reg w) \<longrightarrow> bm_peer_registry_add grow a (n_mem w, n_reg w) \<noteq> Fault)" if open_now: "held = Some (a, sent)" for a sent
  proof -
    obtain conn where conn: "n_mem w a = Some conn" "a \<notin> reg_members (n_reg w)" using inv open_now by (auto simp: net_inv_def)
    show ?thesis
    proof (intro exI [of _ conn] conjI conn allI impI)
      fix alloc and time :: u64 and rnd :: "u64 option" and as :: "send_answer list" and user_agent :: bytes and now :: int
      assume "alloc_ok alloc"
      from post_version_keeps [OF w(1) conn(1) this, of g ssl time rnd as user_agent now]
      show "\<exists>r. bm_post_version g ssl time rnd (alloc (heap (send_queue conn))) True as user_agent 3 (fd_peer_addr conn)
            bm_unspecified_ipv4_address now (n_stats w, conn) = Done r \<and>
          (\<forall>rc st conn'. r = Some (rc, st, conn') \<longrightarrow> bm_fd_data_free (send_queued_bytes conn' + 1) conn' \<noteq> Fault)"
        by (elim exE conjE) (intro exI conjI, assumption, blast)
    next
      fix grow assume "room_for 1 (n_reg w)"
      from enter_keeps [OF w(1) conn this, of grow] show "bm_peer_registry_add grow a (n_mem w, n_reg w) \<noteq> Fault" by auto
    qed
  qed
  show ?thesis using op by (intro conjI reg ev sw br evict) blast
qed

lemma first_conn_ok:
  "conn_ok (the (bm_fd_data_new (True, True) BM_FD_CLIENT_SOCKET (Some AF_OTHER) (Some AF_OTHER) 0 Map.empty))"
proof -
  obtain conn where "bm_fd_data_new (True, True) BM_FD_CLIENT_SOCKET (Some AF_OTHER) (Some AF_OTHER) 0 Map.empty = Some conn"
    by (simp add: bm_fd_data_new_def)
  then show ?thesis using conn_ok_new(1) by fastforce
qed

definition one_conn_node :: "unit net_node" where
  "one_conn_node = \<lparr>n_mem = [5 \<mapsto> the (bm_fd_data_new (True, True) BM_FD_CLIENT_SOCKET (Some AF_OTHER) (Some AF_OTHER) 0 Map.empty)],
     n_reg = bm_peer_registry_init, n_stats = \<lparr>net_bytes_sent = 0, net_bytes_received = 0\<rparr>,
     n_limiter = bm_inbound_rate_limiter_init,
     n_failures = [], n_user = ()\<rparr>"

lemma one_conn_node_ok: "node_ok one_conn_node"
  using first_conn_ok registry_inv_init by (auto simp: node_ok_def one_conn_node_def split: if_splits)

text \<open>An allocator that does not reuse memory below the highest address in use.\<close>

definition fresh_addr :: "conn_mem \<Rightarrow> nat" where
  "fresh_addr m = Suc (Max (insert 0 (dom m)))"

lemma fresh_addr_new: "finite (dom m) \<Longrightarrow> m (fresh_addr m) = None"
proof -
  assume fin: "finite (dom m)"
  have "a \<le> Max (insert 0 (dom m))" if "a \<in> dom m" for a using fin that by simp
  then have "fresh_addr m \<notin> dom m" unfolding fresh_addr_def by fastforce
  then show ?thesis by (simp add: domIff)
qed

definition sample_accept :: accept_env where
  "sample_accept = \<lparr>ae_mem = (True, True), ae_local = Some AF_OTHER, ae_peer = Some AF_OTHER, ae_time = 0, ae_addr = fresh_addr,
     ae_heap = Map.empty, ae_ctl = True, ae_grow = True\<rparr>"

definition eof_event :: net_event where
  "eof_event = \<lparr>ev_conn = 5, ev_out = False, ev_in = True, ev_accept = [Accepted sample_accept, Accept_none], ev_ctl = True, ev_flush = [],
     ev_mem = (\<lambda>_. True), ev_read = [Read_eof]\<rparr>"

text \<open>A run in which the connector has added a connection to the epoll set and an event of another one was reported.\<close>

definition opened_node :: "unit net_node" where
  "opened_node = one_conn_node\<lparr>n_mem := (n_mem one_conn_node)(7 \<mapsto> snd (bm_network_epoll_register True
     ((the (bm_fd_data_new (True, True) BM_FD_CLIENT_SOCKET (Some AF_OTHER) (Some AF_OTHER) 0 Map.empty))\<lparr>logical_peer_ip := lit ''1'', logical_peer_port := 8444\<rparr>)))\<rparr>"

lemma sample_opening:
  "(net_step protocol_init plain_ssl (\<lambda>_. []) False (\<lambda>_ s. s) None)\<^sup>*\<^sup>* ([], [], None, False, bm_dandelion_module_init, one_conn_node)
    ([5], [], Some (7, False), False, bm_dandelion_module_init, opened_node)"
proof (rule rtranclp_trans [OF r_into_rtranclp r_into_rtranclp])
  let ?new = "bm_fd_data_new (True, True) BM_FD_CLIENT_SOCKET (Some AF_OTHER) (Some AF_OTHER) 0 Map.empty"
  show "net_step protocol_init plain_ssl (\<lambda>_. []) False (\<lambda>_ s. s) None ([], [], None, False, bm_dandelion_module_init, one_conn_node)
      ([], [], Some (7, False), False, bm_dandelion_module_init, opened_node)"
    unfolding opened_node_def
    by (rule net_open [where conn = "the ?new" and ip = "lit ''1''" and port = 8444 and mem = "(True, True)" and local_name = "Some AF_OTHER"
          and peer_name = "Some AF_OTHER" and t = 0 and h = Map.empty])
      (simp_all add: one_conn_node_def bm_fd_data_new_def bm_network_epoll_register_def)
  show "net_step protocol_init plain_ssl (\<lambda>_. []) False (\<lambda>_ s. s) None ([], [], Some (7, False), False, bm_dandelion_module_init, opened_node)
      ([5], [], Some (7, False), False, bm_dandelion_module_init, opened_node)"
    by (rule net_wait) (simp_all add: opened_node_def one_conn_node_def)
qed

theorem net_threads_safe_witness:
  "handle_event protocol_init plain_ssl (\<lambda>_. []) False (\<lambda>_ s. s) None eof_event 0 opened_node \<noteq> Fault \<and>
    n_mem opened_node 7 \<noteq> None \<and> bm_peer_registry_add True 7 (n_mem opened_node, n_reg opened_node) \<noteq> Fault"
proof -
  have "handler_keeps (\<lambda>_ s. s)" "refill_keeps None" by (simp_all add: handler_keeps_def refill_keeps_def run_refill_def)
  note safe = net_threads_safe [OF this one_conn_node_ok index_ok_init sample_opening not_False_eq_True [THEN eqTrueE]]
  have e: "event_ok eof_event opened_node" "ev_conn eof_event = 5" "room_for 1 (n_reg opened_node)"
    by (simp_all add: event_ok_def eof_event_def room_for_def opened_node_def one_conn_node_def bm_peer_registry_init_def accept_ok_def
        sample_accept_def fresh_addr_new)
  have "\<exists>conn. n_mem opened_node 7 = Some conn \<and> (\<forall>grow. room_for 1 (n_reg opened_node) \<longrightarrow>
      bm_peer_registry_add grow 7 (n_mem opened_node, n_reg opened_node) \<noteq> Fault)"
    using safe [THEN conjunct2, THEN conjunct2, THEN conjunct2, THEN conjunct2, THEN conjunct2, rule_format, OF refl] by (elim exE conjE) (intro exI conjI)
  moreover have "handle_event protocol_init plain_ssl (\<lambda>_. []) False (\<lambda>_ s. s) None eof_event 0 opened_node \<noteq> Fault"
    using safe [THEN conjunct2, THEN conjunct1, rule_format, of 5 "[]" eof_event 0] e by simp
  ultimately show ?thesis using e(3) by auto
qed

text \<open>
  C30: \<open>peer_connector_thread\<close> adds a new outgoing connection to the epoll set before it enters it in the
  registry (\<open>src/infra/peer_connector.c\<close>, lines 536 to 563), so the network thread may handle an event
  of the connection in between. When the peer has closed, the event frees the connection, and the
  registration that follows writes to freed memory: for every new connection \<open>a\<close>, the event leaves no
  connection at \<open>a\<close> and \<open>bm_peer_registry_add\<close> then faults.
\<close>

theorem connector_race_faults:
  assumes "node_ok w" "n_mem w a = None"
    and "bm_fd_data_new mem BM_FD_CLIENT_SOCKET local peer t h = Some conn0"
    and "bm_network_epoll_register True conn0 = (0, conn)"
    and "ev_conn ev = a" "\<not> ev_out ev" "ev_in ev" "ev_read ev = Read_eof # rs"
    and "reg_capacity (n_reg w) \<le> length (reg_conns (n_reg w)) \<longrightarrow> grow"
  shows "\<exists>w'. handle_event g ssl ntop has_db handler refill ev now (w\<lparr>n_mem := (n_mem w)(a \<mapsto> conn)\<rparr>) = Done (Some w') \<and>
    n_mem w' a = None \<and> bm_peer_registry_add grow a (n_mem w', n_reg w') = Fault"
proof -
  let ?w = "w\<lparr>n_mem := (n_mem w)(a \<mapsto> conn)\<rparr>"
  have inv: "registry_inv (n_mem w, n_reg w)" using assms(1) by (simp add: node_ok_def)
  note new = registry_inv_alloc(1) [OF inv assms(2), of conn] registry_inv_alloc(2) [OF inv assms(2)]
  have ok: "conn_ok conn" using conn_ok_new(2) [OF assms(3), of True] assms(4) by simp
  have fd: "fd_type conn = BM_FD_CLIENT_SOCKET"
    using assms(3,4) by (auto simp: bm_fd_data_new_def bm_network_epoll_register_def split: if_splits option.splits)
  have regw: "registry_inv (n_mem ?w, n_reg ?w)" and others: "\<forall>x d. x \<noteq> a \<longrightarrow> n_mem ?w x = Some d \<longrightarrow> conn_ok d"
    and memw: "n_mem ?w a = Some conn" using new(1) assms(1) by (simp_all add: node_ok_def)
  obtain p where "send_holds conn p" using conn_ok_holds [OF ok] by blast
  then obtain w' where w': "close_connection ntop has_db a ?w = Done (Some w')" "n_mem w' = (n_mem ?w)(a := None)"
      "n_reg w' = bm_peer_registry_remove a (n_reg ?w)"
    using close_connection_ok [OF _ regw others memw, of p ntop has_db] assms(1) by (auto simp: node_ok_def)
  have "handle_event g ssl ntop has_db handler refill ev now ?w = Done (Some w')"
    using assms(5-8) fd w'(1)
    by (simp add: handle_event_def event_in_def bm_network_handle_readable_def Let_def fun_upd_idem)
  moreover have "n_reg w' = n_reg w"
    using w'(3) new(2) by (simp add: bm_peer_registry_remove_def reg_members_def find_conn_None [THEN iffD2])
  ultimately show ?thesis using w'(2) assms(9) by (auto simp: bm_peer_registry_add_def Let_def)
qed

theorem connector_race_faults_witness:
  "\<exists>w'. handle_event protocol_init plain_ssl (\<lambda>_. []) False (\<lambda>_ s. s) None (eof_event\<lparr>ev_conn := 7\<rparr>) 0
      (one_conn_node\<lparr>n_mem := (n_mem one_conn_node)(7 \<mapsto> snd (bm_network_epoll_register True
        (the (bm_fd_data_new (True, True) BM_FD_CLIENT_SOCKET (Some AF_OTHER) (Some AF_OTHER) 0 Map.empty))))\<rparr>) = Done (Some w') \<and>
    n_mem w' 7 = None \<and> bm_peer_registry_add True 7 (n_mem w', n_reg w') = Fault"
proof -
  let ?new = "bm_fd_data_new (True, True) BM_FD_CLIENT_SOCKET (Some AF_OTHER) (Some AF_OTHER) 0 Map.empty"
  have new: "?new = Some (the ?new)" by (simp add: bm_fd_data_new_def)
  have reg: "bm_network_epoll_register True (the ?new) = (0, snd (bm_network_epoll_register True (the ?new)))"
    by (simp add: bm_network_epoll_register_def)
  have "n_mem one_conn_node 7 = None" "\<not> ev_out (eof_event\<lparr>ev_conn := 7\<rparr>)" "ev_in (eof_event\<lparr>ev_conn := 7\<rparr>)"
    "ev_conn (eof_event\<lparr>ev_conn := 7\<rparr>) = 7" "ev_read (eof_event\<lparr>ev_conn := 7\<rparr>) = Read_eof # []"
    by (simp_all add: one_conn_node_def eof_event_def)
  from connector_race_faults [OF one_conn_node_ok this(1) new reg this(4,2,3,5)] show ?thesis by blast
qed

end
