(* ===== verification/Object_Store.thy ===== *)
theory Object_Store
  imports Bm_Prelude "HOL-Library.AList"
begin

text \<open>
  The pool of objects (\<open>src/infra/object_store.c\<close>), a table of SQLite with the hash as its key. The table
  is the list of its rows in the order of insertion; \<open>ok\<close> says whether SQLite carries out a
  statement, \<open>mem\<close> whether the array of results can be allocated. The column \<open>processed\<close> is never read.
\<close>

record object_row =
  or_object_type :: int
  or_stream :: int
  or_payload :: bytes
  or_expires_time :: int
  or_received_time :: int

type_synonym object_pool = "(bytes \<times> object_row) list"

text \<open>\<open>INSERT OR IGNORE\<close>\<close>

definition bm_object_store_insert ::
  "bool \<Rightarrow> bytes \<Rightarrow> int \<Rightarrow> int \<Rightarrow> bytes \<Rightarrow> int \<Rightarrow> int \<Rightarrow> object_pool \<Rightarrow> int \<times> object_pool" where
  "bm_object_store_insert ok hash object_type stream payload expires_time received_time db =
     (if \<not> ok then (-1, db)
      else (0, if map_of db hash \<noteq> None then db
               else db @ [(hash, \<lparr>or_object_type = object_type, or_stream = stream, or_payload = payload,
                 or_expires_time = expires_time, or_received_time = received_time\<rparr>)]))"

definition bm_object_store_has :: "bool \<Rightarrow> bytes \<Rightarrow> object_pool \<Rightarrow> bool" where
  "bm_object_store_has ok hash db \<longleftrightarrow> ok \<and> map_of db hash \<noteq> None"

definition bm_object_store_get :: "bool \<Rightarrow> bytes \<Rightarrow> object_pool \<Rightarrow> bytes option" where
  "bm_object_store_get ok hash db = (if ok then map_option or_payload (map_of db hash) else None)"

text \<open>The number of rows deleted, or -1.\<close>

definition bm_object_store_delete_expired :: "bool \<Rightarrow> int \<Rightarrow> object_pool \<Rightarrow> int \<times> object_pool" where
  "bm_object_store_delete_expired ok now db =
     (if \<not> ok then (-1, db)
      else let kept = filter (\<lambda>(_, r). now \<le> or_expires_time r) db
           in (int (length db) - int (length kept), kept))"

text \<open>
  The two queries of a listing: the count, for the size of the array, and the rows. Blobs that are not
  32 bytes long are skipped.
\<close>

definition list_rows :: "bool \<times> bool \<times> bool \<Rightarrow> (object_row \<Rightarrow> bool) \<Rightarrow> object_pool \<Rightarrow> bytes list option" where
  "list_rows env P db =
     (case env of (ok, mem, ok2) \<Rightarrow>
        if \<not> ok \<or> \<not> mem \<or> \<not> ok2 then None
        else let rows = filter (\<lambda>(_, r). P r) db;
                 count = length rows
             in Some (take count (filter (\<lambda>h. length h = 32) (map fst rows))))"

definition bm_object_store_list_hashes_by_stream ::
  "bool \<times> bool \<times> bool \<Rightarrow> int \<Rightarrow> int \<Rightarrow> object_pool \<Rightarrow> bytes list option" where
  "bm_object_store_list_hashes_by_stream env stream now db =
     list_rows env (\<lambda>r. or_stream r = stream \<and> now < or_expires_time r) db"

definition bm_object_store_list_hashes_by_type ::
  "bool \<times> bool \<times> bool \<Rightarrow> int \<Rightarrow> object_pool \<Rightarrow> bytes list option" where
  "bm_object_store_list_hashes_by_type env object_type db = list_rows env (\<lambda>r. or_object_type r = object_type) db"

definition bm_object_store_list_hashes_by_tag ::
  "bool \<times> bool \<Rightarrow> int \<Rightarrow> nat \<Rightarrow> bytes \<Rightarrow> object_pool \<Rightarrow> bytes list option" where
  "bm_object_store_list_hashes_by_tag env object_type tag_offset tag db =
     (if \<not> fst env \<or> \<not> snd env then None
      else Some (filter (\<lambda>h. length h = 32) (map fst
        (sort_key (\<lambda>(_, r). - or_expires_time r)
          (filter (\<lambda>(_, r). or_object_type r = object_type \<and> take 32 (drop tag_offset (or_payload r)) = tag) db)))))"

section \<open>The pool as a map\<close>

text \<open>
  What the users of the pool rely on: an object once stored is found under its hash, whatever else is
  stored, until it expires; storing it again changes nothing.
\<close>

locale content_pool =
  fixes get :: "'s \<Rightarrow> 'k \<Rightarrow> 'v option"
    and ins :: "'k \<Rightarrow> 'v \<Rightarrow> 's \<Rightarrow> 's"
    and expire :: "'t \<Rightarrow> 's \<Rightarrow> 's"
    and live :: "'t \<Rightarrow> 'v \<Rightarrow> bool"
    and ok :: "'s \<Rightarrow> bool"
  assumes get_ins: "get (ins k v s) k' = (if k' = k \<and> get s k = None then Some v else get s k')"
    and ok_ins: "ok s \<Longrightarrow> ok (ins k v s)"
    and get_expire: "ok s \<Longrightarrow> get (expire t s) k = (case get s k of None \<Rightarrow> None | Some v \<Rightarrow> if live t v then Some v else None)"
    and ok_expire: "ok s \<Longrightarrow> ok (expire t s)"
begin

lemma ins_again: "get s k = Some v \<Longrightarrow> get (ins k w s) = get s"
  by (rule ext) (simp add: get_ins)

lemma get_ins_mono: "get s k = Some v \<Longrightarrow> get (ins k' w s) k = Some v"
  by (auto simp: get_ins)

lemma get_ins_all: "get (fold (\<lambda>(k, v). ins k v) kvs s) k = (case get s k of None \<Rightarrow> map_of kvs k | Some v \<Rightarrow> Some v)"
proof (induction kvs arbitrary: s)
  case Nil
  then show ?case by (simp split: option.splits)
next
  case (Cons kv kvs)
  obtain k' v where kv: "kv = (k', v)" by (cases kv)
  show ?case by (simp add: kv Cons.IH get_ins split: option.splits)
qed

lemma expire_keeps: "ok s \<Longrightarrow> get s k = Some v \<Longrightarrow> live t v \<Longrightarrow> get (expire t s) k = Some v"
  by (simp add: get_expire)

end

definition pool_insert :: "bytes \<Rightarrow> object_row \<Rightarrow> object_pool \<Rightarrow> object_pool" where
  "pool_insert h r db =
     snd (bm_object_store_insert True h (or_object_type r) (or_stream r) (or_payload r) (or_expires_time r) (or_received_time r) db)"

interpretation pool: content_pool map_of pool_insert "\<lambda>now db. snd (bm_object_store_delete_expired True now db)"
  "\<lambda>now r. now \<le> or_expires_time r" "\<lambda>db. distinct (map fst db)"
proof unfold_locales
  fix k k' :: bytes and v :: object_row and s :: object_pool and t :: int
  show "map_of (pool_insert k v s) k' = (if k' = k \<and> map_of s k = None then Some v else map_of s k')"
    by (auto simp: pool_insert_def bm_object_store_insert_def map_add_def split: option.splits)
  show "distinct (map fst s) \<Longrightarrow> distinct (map fst (pool_insert k v s))"
    by (auto simp: pool_insert_def bm_object_store_insert_def map_of_eq_None_iff)
  show "distinct (map fst s) \<Longrightarrow> distinct (map fst (snd (bm_object_store_delete_expired True t s)))"
    by (simp add: bm_object_store_delete_expired_def Let_def distinct_map_filter)
  show "distinct (map fst s) \<Longrightarrow> map_of (snd (bm_object_store_delete_expired True t s)) k =
      (case map_of s k of None \<Rightarrow> None | Some v \<Rightarrow> if t \<le> or_expires_time v then Some v else None)"
    by (induction s) (auto simp: bm_object_store_delete_expired_def Let_def split: option.splits dest: map_of_SomeD intro: rev_image_eqI)
qed

end
