(* ===== verification/Inventory.thy ===== *)
theory Inventory
  imports Event_Loop Object_Store
begin

text \<open>
  The exchange of objects in \<open>src/infra/object_sync.c\<close>: answering \<open>inv\<close> with a request for the objects
  that are missing, and serving \<open>getdata\<close> from the pool through the backlog of a connection.

  Seen from outside, a connection has accepted a stream of bytes, what it has written followed by what
  its queue holds, and it has a backlog of hashes it still has to serve. The theory shows what each
  handler appends to the stream and leaves in the backlog, and that no handler leaves its arrays.
\<close>

abbreviation BM_MAX_INVENTORY_ITEMS :: nat where "BM_MAX_INVENTORY_ITEMS \<equiv> 50000"
abbreviation BM_UPLOAD_REFILL_THRESHOLD_BYTES :: nat where "BM_UPLOAD_REFILL_THRESHOLD_BYTES \<equiv> 2 * 1024 * 1024"

text \<open>\<open>strncmp (msg->command, s, 12) == 0\<close> for a literal shorter than 12, and the payload of a message.\<close>

definition command_is :: "bytes \<Rightarrow> bm_message \<Rightarrow> bool" where
  "command_is s msg \<longleftrightarrow> c_str (take 12 (msg_command msg)) = s"

definition payload_of :: "bm_message \<Rightarrow> bytes" where
  "payload_of msg = (case msg_payload msg of None \<Rightarrow> [] | Some p \<Rightarrow> p)"

text \<open>What the system gives for one packet: memory for it and for its chunk, and the answers of the socket.\<close>

record send_env =
  se_mem :: bool
  se_alloc :: allocator
  se_ctl :: bool
  se_answers :: "send_answer list"

definition send_packet ::
  "send_env \<Rightarrow> bytes \<Rightarrow> int \<Rightarrow> net_stats \<times> bm_fd_data \<Rightarrow> (int \<times> net_stats \<times> bm_fd_data) option outcome" where
  "send_packet env packet now s =
     bm_network_send (se_alloc env (heap (send_queue (snd s)))) (se_ctl env) (se_answers env) packet now s"

section \<open>inv\<close>

text \<open>
  For each item: whether SQLite answers, and the memory and random delay for a new entry of Dandelion.
\<close>

record inv_handler_env =
  ih_has :: "nat \<Rightarrow> bool"
  ih_note :: "nat \<Rightarrow> (bool \<times> bool) \<times> int"
  ih_array :: bool
  ih_send :: send_env
  ih_send_time :: int

fun missing_loop ::
  "inv_handler_env \<Rightarrow> object_pool \<Rightarrow> bool \<Rightarrow> int \<Rightarrow> nat \<Rightarrow> bytes list \<Rightarrow> dandelion_state \<Rightarrow> (bytes list \<times> dandelion_state) outcome" where
  "missing_loop env pool is_dinv now i [] d = Done ([], d)"
| "missing_loop env pool is_dinv now i (h # hs) d =
     (if bm_object_store_has (ih_has env i) h pool then missing_loop env pool is_dinv now (Suc i) hs d
      else if \<not> ih_array env then Fault
      else bind_outcome (bm_dandelion_note_source (fst (ih_note env i)) (snd (ih_note env i)) h is_dinv now d) (\<lambda>d1.
           bind_outcome (missing_loop env pool is_dinv now (Suc i) hs d1) (\<lambda>(missing, d2).
             Done (h # missing, d2))))"

definition handle_inv ::
  "protocol_globals \<Rightarrow> openssl \<Rightarrow> inv_handler_env \<Rightarrow> object_pool \<Rightarrow> bm_message \<Rightarrow> int
     \<Rightarrow> dandelion_state \<times> net_stats \<times> bm_fd_data \<Rightarrow> (dandelion_state \<times> net_stats \<times> bm_fd_data) option outcome" where
  "handle_inv g ssl env pool msg now s =
     (case s of (d, st, conn) \<Rightarrow>
        case bm_parse_inventory_message (payload_of msg) of
          None \<Rightarrow> Done (Some s)
        | Some items \<Rightarrow>
            if BM_MAX_INVENTORY_ITEMS < length items then Done (Some s)
            else bind_outcome (missing_loop env pool (command_is (lit ''dinv'') msg) now 0 items d) (\<lambda>(missing, d1).
              if missing = [] \<or> \<not> se_mem (ih_send env) then Done (Some (d1, st, conn))
              else bind_outcome (send_packet (ih_send env) (bm_create_inventory_message g ssl (lit ''getdata'') missing)
                     (ih_send_time env) (st, conn))
                   (\<lambda>r. Done (map_option (\<lambda>(rc, st', conn'). (d1, st', conn')) r))))"

section \<open>The upload backlog\<close>

function upload_grow :: "nat \<Rightarrow> nat \<Rightarrow> nat" where
  "upload_grow cap need = (if 0 < cap \<and> cap < need then upload_grow (2 * cap) need else cap)"
  by auto
termination by (relation "measure (\<lambda>(c, need). need - c)") auto

declare upload_grow.simps [simp del]

text \<open>
  \<open>mem\<close>: whether \<open>realloc\<close> succeeds. The array is accessed from \<open>head\<close> on; an access outside it is a
  fault. New elements of the array are empty until they are written.
\<close>

definition upload_pending_append :: "bool \<Rightarrow> bytes list \<Rightarrow> nat \<Rightarrow> bm_fd_data \<Rightarrow> (int \<times> bm_fd_data) outcome" where
  "upload_pending_append mem items n conn =
     (if n = 0 then Done (0, conn)
      else
        let move = 0 < upload_pending_head conn \<and>
              upload_pending_cap conn < upload_pending_head conn + upload_pending_count conn + n
        in if move \<and> length (upload_pending conn) < upload_pending_head conn + upload_pending_count conn then Fault
        else
          let conn1 = (if move
                then conn\<lparr>upload_pending := take (upload_pending_count conn) (drop (upload_pending_head conn) (upload_pending conn)) @
                       drop (upload_pending_count conn) (upload_pending conn),
                     upload_pending_head := 0\<rparr>
                else conn);
              need = upload_pending_head conn1 + upload_pending_count conn1 + n;
              grow = upload_pending_cap conn1 < need;
              cap = upload_grow (if 0 < upload_pending_cap conn1 then upload_pending_cap conn1 else 64) need
          in if grow \<and> \<not> mem then Done (-1, conn1)
             else
               let conn2 = (if grow
                     then conn1\<lparr>upload_pending := upload_pending conn1 @ replicate (cap - length (upload_pending conn1)) [],
                          upload_pending_cap := cap\<rparr>
                     else conn1);
                   at = upload_pending_head conn2 + upload_pending_count conn2
               in if length items < n \<or> length (upload_pending conn2) < at + n then Fault
                  else Done (0, conn2\<lparr>upload_pending := take at (upload_pending conn2) @ take n items @ drop (at + n) (upload_pending conn2),
                         upload_pending_count := upload_pending_count conn2 + n\<rparr>))"

text \<open>
  The refill loop takes at most as many rounds as the backlog is long. For each round: whether SQLite
  answers, and what the system gives for the packet.
\<close>

fun refill_loop ::
  "protocol_globals \<Rightarrow> openssl \<Rightarrow> (nat \<Rightarrow> bool \<times> send_env) \<Rightarrow> object_pool \<Rightarrow> int \<Rightarrow> nat \<Rightarrow> nat
     \<Rightarrow> net_stats \<times> bm_fd_data \<Rightarrow> (net_stats \<times> bm_fd_data) option outcome" where
  "refill_loop g ssl env pool now 0 i s = Done (Some s)"
| "refill_loop g ssl env pool now (Suc n) i (st, conn) =
     (if upload_pending_count conn = 0 \<or> pending_eviction conn \<or>
         BM_UPLOAD_REFILL_THRESHOLD_BYTES \<le> bm_network_queued_bytes conn then Done (Some (st, conn))
      else if length (upload_pending conn) \<le> upload_pending_head conn then Fault
      else
        let hash = upload_pending conn ! upload_pending_head conn;
            conn1 = conn\<lparr>upload_pending_head := upload_pending_head conn + 1,
                         upload_pending_count := upload_pending_count conn - 1\<rparr>
        in case bm_object_store_get (fst (env i)) hash pool of
             None \<Rightarrow> refill_loop g ssl env pool now n (Suc i) (st, conn1\<lparr>upload_not_found := upload_not_found conn1 + 1\<rparr>)
           | Some payload \<Rightarrow>
               if \<not> se_mem (snd (env i)) then refill_loop g ssl env pool now n (Suc i) (st, conn1)
               else bind_run (send_packet (snd (env i)) (bm_create_packet g ssl (lit ''object'') payload) now (st, conn1))
                 (\<lambda>(rc, st2, conn2).
                    if rc \<noteq> 0 then Done (Some (st2, conn2\<lparr>upload_pending_count := 0\<rparr>))
                    else refill_loop g ssl env pool now n (Suc i) (st2, conn2\<lparr>upload_sent := upload_sent conn2 + 1\<rparr>)))"

definition refill_done :: "bm_fd_data \<Rightarrow> bm_fd_data" where
  "refill_done conn =
     (if upload_pending_count conn = 0
      then conn\<lparr>upload_sent := 0, upload_not_found := 0, upload_pending_head := 0\<rparr> else conn)"

definition bm_object_sync_refill_uploads ::
  "protocol_globals \<Rightarrow> openssl \<Rightarrow> (nat \<Rightarrow> bool \<times> send_env) \<Rightarrow> object_pool \<Rightarrow> int
     \<Rightarrow> net_stats \<times> bm_fd_data \<Rightarrow> (net_stats \<times> bm_fd_data) option outcome" where
  "bm_object_sync_refill_uploads g ssl env pool now s =
     (if upload_pending_count (snd s) = 0 then Done (Some s)
      else bind_run (refill_loop g ssl env pool now (upload_pending_count (snd s)) 0 s)
        (\<lambda>(st, conn). Done (Some (st, refill_done conn))))"

definition handle_getdata ::
  "protocol_globals \<Rightarrow> openssl \<Rightarrow> bool \<Rightarrow> (nat \<Rightarrow> bool \<times> send_env) \<Rightarrow> object_pool \<Rightarrow> bm_message \<Rightarrow> int
     \<Rightarrow> net_stats \<times> bm_fd_data \<Rightarrow> (net_stats \<times> bm_fd_data) option outcome" where
  "handle_getdata g ssl mem env pool msg now s =
     (case s of (st, conn) \<Rightarrow>
        case bm_parse_inventory_message (payload_of msg) of
          None \<Rightarrow> Done (Some s)
        | Some items \<Rightarrow>
            if BM_MAX_INVENTORY_ITEMS < length items then Done (Some s)
            else
              let pending_before = upload_pending_count conn;
                  room = (if pending_before < BM_MAX_INVENTORY_ITEMS then BM_MAX_INVENTORY_ITEMS - pending_before else 0);
                  accepted = (if length items < room then length items else room)
              in bind_outcome (upload_pending_append mem items accepted conn) (\<lambda>(rc, conn1).
                   bm_object_sync_refill_uploads g ssl env pool now (st, conn1)))"

section \<open>Lemmas: packets on a connection\<close>

text \<open>What a connection has accepted: the bytes written, then the bytes queued.\<close>

definition carries :: "bm_fd_data \<Rightarrow> bytes \<Rightarrow> bool" where
  "carries conn str \<longleftrightarrow> mem_finite conn \<and> (\<exists>pend. send_ok conn pend \<and> str = on_wire conn @ pend)"

text \<open>The system gives memory while the memory in use is finite, and the socket answers often enough.\<close>

definition send_env_ok :: "send_env \<Rightarrow> bool" where
  "send_env_ok env \<longleftrightarrow> se_mem env \<and> se_ctl env \<and> alloc_ok (se_alloc env) \<and>
     (\<forall>h. finite (dom h) \<longrightarrow> se_alloc env h \<noteq> None) \<and> BM_SEND_QUEUE_HARD_LIMIT_BYTES \<le> progress (se_answers env)"

lemma send_failure_evicts:
  assumes "bm_network_send (Some c) ctl as data now (st, conn) = Done (Some (rc, st', conn'))" "rc \<noteq> 0"
  shows "pending_eviction conn'"
  using assms by (auto simp: bm_network_send_def bind_outcome_Done_iff split: if_splits)

lemma carries_send:
  assumes "carries conn str" "send_env_ok env"
  obtains rc st' conn' where "send_packet env data now (st, conn) = Done (Some (rc, st', conn'))" "same_rest conn conn'"
    "carries conn' (str @ data) \<or> carries conn' str" "rc = 0 \<Longrightarrow> carries conn' (str @ data)"
    "rc \<noteq> 0 \<Longrightarrow> pending_eviction conn'"
proof -
  obtain pend where pend: "send_ok conn pend" "str = on_wire conn @ pend" and fin: "mem_finite conn"
    using assms(1) by (auto simp: carries_def)
  obtain c where c: "se_alloc env (heap (send_queue conn)) = Some c"
    using assms(2) fin by (auto simp: send_env_ok_def mem_finite_def)
  have new: "\<forall>x. Some c = Some x \<longrightarrow> heap (send_queue conn) x = None"
    using assms(2) c by (auto simp: send_env_ok_def alloc_ok_def)
  let ?p = "if accepts (Some c) data conn then pend @ data else pend"
  have q: "send_queued_bytes conn = length pend" "length pend \<le> BM_SEND_QUEUE_HARD_LIMIT_BYTES"
    using pend(1) by (simp_all add: send_ok_def send_holds_def)
  then have "length ?p \<le> progress (se_answers env)" using assms(2) by (auto simp: send_env_ok_def accepts_def)
  then obtain rc st' conn' k where r: "bm_network_send (Some c) True (se_answers env) data now (st, conn) = Done (Some (rc, st', conn'))"
      "rc = 0 \<longrightarrow> accepts (Some c) data conn \<or> data = []"
      "send_ok conn' (drop k ?p)" "on_wire conn' = on_wire conn @ take k ?p"
    using send_stream_step [OF pend(1) new, where data = data and as = "se_answers env" and now = now and st = st] by auto
  have s: "same_rest conn conn'" by (rule send_frame [OF r(1)])
  have "on_wire conn' @ drop k ?p = on_wire conn @ ?p" unfolding r(4) append.assoc append_take_drop_id ..
  then have "carries conn' (on_wire conn @ ?p)" using r(3) s fin by (auto simp: carries_def same_rest_def intro: exI [of _ "drop k ?p"])
  then have car: "carries conn' (if accepts (Some c) data conn then str @ data else str)" by (simp add: pend(2) split: if_splits)
  show thesis
  proof (rule that)
    show "send_packet env data now (st, conn) = Done (Some (rc, st', conn'))"
      using r(1) assms(2) by (simp add: send_packet_def c send_env_ok_def)
    show "carries conn' (str @ data)" if "rc = 0" using r(2) that car by (auto split: if_splits)
    show "pending_eviction conn'" if "rc \<noteq> 0" using send_failure_evicts [OF r(1) that] .
  qed (use s car in \<open>auto split: if_splits\<close>)
qed

lemma carries_update [simp]:
  "carries (conn\<lparr>upload_pending := a\<rparr>) str = carries conn str"
  "carries (conn\<lparr>upload_pending_head := n\<rparr>) str = carries conn str"
  "carries (conn\<lparr>upload_pending_count := n\<rparr>) str = carries conn str"
  "carries (conn\<lparr>upload_pending_cap := n\<rparr>) str = carries conn str"
  "carries (conn\<lparr>upload_sent := n\<rparr>) str = carries conn str"
  "carries (conn\<lparr>upload_not_found := n\<rparr>) str = carries conn str"
  by (simp_all add: carries_def send_ok_def send_holds_def mem_finite_def)

section \<open>Lemmas: the backlog is a queue\<close>

definition backlog :: "bm_fd_data \<Rightarrow> bytes list" where
  "backlog conn = take (upload_pending_count conn) (drop (upload_pending_head conn) (upload_pending conn))"

definition upload_ok :: "bm_fd_data \<Rightarrow> bool" where
  "upload_ok conn \<longleftrightarrow> upload_pending_head conn + upload_pending_count conn \<le> upload_pending_cap conn \<and>
     length (upload_pending conn) = upload_pending_cap conn \<and> upload_pending_count conn \<le> BM_MAX_INVENTORY_ITEMS"

lemma length_backlog: "upload_ok conn \<Longrightarrow> length (backlog conn) = upload_pending_count conn"
  by (auto simp: backlog_def upload_ok_def min_def)

lemma upload_grow_enough: "0 < cap \<Longrightarrow> need \<le> upload_grow cap need \<and> cap \<le> upload_grow cap need"
proof (induction cap need rule: upload_grow.induct)
  case (1 cap need)
  then show ?case by (cases "cap < need") (force simp: upload_grow.simps [of cap need])+
qed

text \<open>The part of a connection that the backlog does not touch.\<close>

definition without_upload :: "bm_fd_data \<Rightarrow> bm_fd_data" where
  "without_upload conn = conn\<lparr>upload_pending := [], upload_pending_head := 0, upload_pending_count := 0, upload_pending_cap := 0,
     upload_sent := 0, upload_not_found := 0\<rparr>"

lemma carries_without_upload [simp]: "carries (without_upload conn) str = carries conn str"
  by (simp add: without_upload_def)

lemma without_upload_simps [simp]:
  "send_queued_bytes (without_upload conn) = send_queued_bytes conn"
  "pending_eviction (without_upload conn) = pending_eviction conn"
  by (simp_all add: without_upload_def)

lemma upload_pending_append_queue:
  assumes "upload_ok conn" "n \<le> length items" "upload_pending_count conn + n \<le> BM_MAX_INVENTORY_ITEMS"
  obtains rc conn' where "upload_pending_append mem items n conn = Done (rc, conn')" "upload_ok conn'"
    "backlog conn' = backlog conn @ (if rc = 0 then take n items else [])" "mem \<Longrightarrow> rc = 0" "without_upload conn' = without_upload conn"
proof (cases "n = 0")
  case True
  then show thesis using assms(1) by (intro that [of 0 conn]) (simp_all add: upload_pending_append_def without_upload_def)
next
  case False
  let ?h = "upload_pending_head conn" and ?c = "upload_pending_count conn" and ?arr = "upload_pending conn"
  define move where "move \<longleftrightarrow> 0 < ?h \<and> upload_pending_cap conn < ?h + ?c + n"
  define conn1 where "conn1 = (if move
    then conn\<lparr>upload_pending := take ?c (drop ?h ?arr) @ drop ?c ?arr, upload_pending_head := 0\<rparr> else conn)"
  have fits: "\<not> (move \<and> length ?arr < ?h + ?c)" using assms(1) by (simp add: upload_ok_def)
  have c1: "upload_ok conn1" "backlog conn1 = backlog conn" "upload_pending_count conn1 = ?c"
    "upload_pending_cap conn1 = upload_pending_cap conn" "without_upload conn1 = without_upload conn"
    using assms(1) by (auto simp: conn1_def upload_ok_def backlog_def without_upload_def)
  define need where "need = upload_pending_head conn1 + upload_pending_count conn1 + n"
  define cap where "cap = upload_grow (if 0 < upload_pending_cap conn1 then upload_pending_cap conn1 else 64) need"
  define grow where "grow \<longleftrightarrow> upload_pending_cap conn1 < need"
  define conn2 where "conn2 = (if grow
    then conn1\<lparr>upload_pending := upload_pending conn1 @ replicate (cap - length (upload_pending conn1)) [],
      upload_pending_cap := cap\<rparr> else conn1)"
  define at where "at = upload_pending_head conn2 + upload_pending_count conn2"
  have cap: "need \<le> cap" "upload_pending_cap conn1 \<le> cap"
    using upload_grow_enough [of "if 0 < upload_pending_cap conn1 then upload_pending_cap conn1 else 64" need]
    by (auto simp: cap_def split: if_splits)
  have c2: "upload_ok conn2" "backlog conn2 = backlog conn" "upload_pending_count conn2 = ?c" "without_upload conn2 = without_upload conn"
    "at + n \<le> length (upload_pending conn2)"
    using c1 cap by (auto simp: conn2_def upload_ok_def backlog_def without_upload_def grow_def need_def at_def)
  define conn3 where "conn3 = conn2\<lparr>upload_pending := take at (upload_pending conn2) @ take n items @ drop (at + n) (upload_pending conn2),
    upload_pending_count := upload_pending_count conn2 + n\<rparr>"
  have eq: "upload_pending_append mem items n conn = (if grow \<and> \<not> mem then Done (-1, conn1)
      else if length items < n \<or> length (upload_pending conn2) < at + n then Fault else Done (0, conn3))"
    unfolding upload_pending_append_def Let_def if_not_P [OF False] move_def [symmetric] if_not_P [OF fits] conn1_def [symmetric]
      need_def [symmetric] grow_def [symmetric] cap_def [symmetric] conn2_def [symmetric] at_def [symmetric] conn3_def [symmetric] ..
  show thesis
  proof (cases "grow \<and> \<not> mem")
    case True
    then have "upload_pending_append mem items n conn = Done (-1, conn1)" unfolding eq by simp
    then show thesis using c1 True by (intro that [of "-1" conn1]) simp_all
  next
    case ok: False
    have "upload_ok conn3" using c2 assms(2,3) by (auto simp: conn3_def upload_ok_def at_def)
    moreover have "backlog conn3 = backlog conn2 @ take n items"
      using c2(1,5) assms(2) by (auto simp: conn3_def backlog_def at_def upload_ok_def drop_take min_def)
    moreover have "upload_pending_append mem items n conn = Done (0, conn3)"
      unfolding eq if_not_P [OF ok] using assms(2) c2(5) by simp
    ultimately show thesis using c2(2,4) by (intro that [of 0 conn3]) (simp_all add: conn3_def without_upload_def)
  qed
qed

section \<open>Lemmas: serving the backlog\<close>

text \<open>What happens on a connection: a request is answered with an object or found to be unknown, or another packet is sent.\<close>

datatype upload_event = Served bytes bytes | Not_found bytes | Other bytes

definition event_of :: "object_pool \<Rightarrow> bytes \<Rightarrow> upload_event" where
  "event_of pool h = (case map_of pool h of None \<Rightarrow> Not_found h | Some r \<Rightarrow> Served h (or_payload r))"

primrec event_bytes :: "protocol_globals \<Rightarrow> openssl \<Rightarrow> upload_event \<Rightarrow> bytes" where
  "event_bytes g ssl (Served h p) = bm_create_packet g ssl (lit ''object'') p"
| "event_bytes g ssl (Not_found h) = []"
| "event_bytes g ssl (Other bs) = bs"

definition wire_of :: "protocol_globals \<Rightarrow> openssl \<Rightarrow> upload_event list \<Rightarrow> bytes" where
  "wire_of g ssl es = concat (map (event_bytes g ssl) es)"

lemma wire_of_simps [simp]:
  "wire_of g ssl [] = []" "wire_of g ssl (e # es) = event_bytes g ssl e @ wire_of g ssl es"
  "wire_of g ssl (es @ fs) = wire_of g ssl es @ wire_of g ssl fs"
  by (simp_all add: wire_of_def)

definition refill_env_ok :: "(nat \<Rightarrow> bool \<times> send_env) \<Rightarrow> bool" where
  "refill_env_ok env \<longleftrightarrow> (\<forall>i. fst (env i) \<and> send_env_ok (snd (env i)))"

text \<open>Taking a hash off the backlog.\<close>

lemma backlog_Cons:
  assumes "upload_ok conn" "upload_pending_count conn \<noteq> 0"
  defines "conn1 \<equiv> conn\<lparr>upload_pending_head := upload_pending_head conn + 1,
    upload_pending_count := upload_pending_count conn - 1\<rparr>"
  shows "upload_pending_head conn < length (upload_pending conn)"
    "backlog conn = upload_pending conn ! upload_pending_head conn # backlog conn1" "upload_ok conn1"
    "without_upload conn1 = without_upload conn"
proof -
  have c: "0 < upload_pending_count conn"
      "upload_pending_head conn + upload_pending_count conn \<le> length (upload_pending conn)"
    using assms(1,2) by (auto simp: upload_ok_def)
  then show l: "upload_pending_head conn < length (upload_pending conn)" by simp
  show "backlog conn = upload_pending conn ! upload_pending_head conn # backlog conn1"
    unfolding backlog_def conn1_def using c(1) Cons_nth_drop_Suc [OF l, symmetric] by (simp add: take_Cons')
  show "upload_ok conn1" "without_upload conn1 = without_upload conn"
    using assms(1) c(1) by (auto simp: conn1_def upload_ok_def without_upload_def)
qed

text \<open>The rest of the connection is kept, except that it may have been marked for eviction.\<close>

definition kept :: "bm_fd_data \<Rightarrow> bm_fd_data \<Rightarrow> bool" where
  "kept conn conn' \<longleftrightarrow> same_rest (without_upload conn) (without_upload conn')"

definition refilled ::
  "protocol_globals \<Rightarrow> openssl \<Rightarrow> object_pool \<Rightarrow> bytes \<Rightarrow> bytes list \<Rightarrow> bm_fd_data \<Rightarrow> bool" where
  "refilled g ssl pool str q conn' \<longleftrightarrow> upload_ok conn' \<and>
     (\<exists>k. carries conn' (str @ wire_of g ssl (map (event_of pool) (take k q))) \<and>
       (pending_eviction conn' \<or>
        backlog conn' = drop k q \<and> (length q \<le> k \<or> BM_UPLOAD_REFILL_THRESHOLD_BYTES \<le> bm_network_queued_bytes conn')))"

lemma refilled_now:
  assumes "upload_ok conn" "carries conn str"
    "upload_pending_count conn = 0 \<or> pending_eviction conn \<or> BM_UPLOAD_REFILL_THRESHOLD_BYTES \<le> bm_network_queued_bytes conn"
  shows "refilled g ssl pool str (backlog conn) conn"
  using assms length_backlog [OF assms(1)] unfolding refilled_def by (intro conjI exI [of _ 0]) auto

lemma refilled_later:
  "refilled g ssl pool (str @ event_bytes g ssl (event_of pool h)) q conn' \<Longrightarrow> refilled g ssl pool str (h # q) conn'"
  unfolding refilled_def by (elim conjE exE, rule conjI, assumption, rule_tac x = "Suc k" in exI) simp

lemma upload_counters [simp]:
  "upload_ok (conn\<lparr>upload_sent := n\<rparr>) = upload_ok conn" "upload_ok (conn\<lparr>upload_not_found := n\<rparr>) = upload_ok conn"
  "backlog (conn\<lparr>upload_sent := n\<rparr>) = backlog conn" "backlog (conn\<lparr>upload_not_found := n\<rparr>) = backlog conn"
  "without_upload (conn\<lparr>upload_sent := n\<rparr>) = without_upload conn"
  "without_upload (conn\<lparr>upload_not_found := n\<rparr>) = without_upload conn"
  "without_upload (conn\<lparr>upload_pending_count := n\<rparr>) = without_upload conn"
  "without_upload (conn\<lparr>upload_pending_head := n\<rparr>) = without_upload conn"
  by (simp_all add: upload_ok_def backlog_def without_upload_def)

lemma kept_trans: "kept a b \<Longrightarrow> kept b c \<Longrightarrow> kept a c"
  unfolding kept_def by (rule same_rest_trans)

lemma kept_upload: "without_upload b = without_upload a \<Longrightarrow> kept a b"
  by (simp add: kept_def)

lemma same_rest_without_upload: "same_rest a b \<Longrightarrow> kept a b"
  by (simp add: kept_def same_rest_def without_upload_def mem_finite_def)

lemma same_rest_upload: "same_rest a b \<Longrightarrow> upload_ok b = upload_ok a \<and> backlog b = backlog a \<and> upload_pending_count b = upload_pending_count a"
  by (simp add: same_rest_def upload_ok_def backlog_def)

lemma refill_loop_serves:
  assumes env: "refill_env_ok env"
  shows "upload_ok conn \<Longrightarrow> carries conn str \<Longrightarrow> upload_pending_count conn \<le> n \<Longrightarrow>
    \<exists>st' conn'. refill_loop g ssl env pool now n i (st, conn) = Done (Some (st', conn')) \<and>
      refilled g ssl pool str (backlog conn) conn' \<and> kept conn conn'"
proof (induction n arbitrary: i st conn str)
  case 0
  then show ?case using refilled_now [OF 0(1,2)] by (simp add: kept_upload)
next
  case (Suc n)
  show ?case
  proof (cases "upload_pending_count conn = 0 \<or> pending_eviction conn \<or> BM_UPLOAD_REFILL_THRESHOLD_BYTES \<le> bm_network_queued_bytes conn")
    case True
    then show ?thesis using refilled_now [OF Suc.prems(1,2) True] by (simp add: kept_upload)
  next
    case False
    define hash where "hash = upload_pending conn ! upload_pending_head conn"
    define conn1 where "conn1 = conn\<lparr>upload_pending_head := upload_pending_head conn + 1,
      upload_pending_count := upload_pending_count conn - 1\<rparr>"
    have c1: "upload_pending_head conn < length (upload_pending conn)" "backlog conn = hash # backlog conn1" "upload_ok conn1"
        "without_upload conn1 = without_upload conn"
      using backlog_Cons [OF Suc.prems(1)] False unfolding hash_def conn1_def by auto
    have n1: "upload_pending_count conn1 \<le> n" using Suc.prems(3) by (simp add: conn1_def)
    have car1: "carries conn1 str" using Suc.prems(2) by (simp add: conn1_def)
    have db: "fst (env i)" "send_env_ok (snd (env i))" using env by (simp_all add: refill_env_ok_def)
    have mem: "se_mem (snd (env i))" using db(2) by (simp add: send_env_ok_def)
    have next_round: "\<exists>st' conn'. refill_loop g ssl env pool now n (Suc i) (s, c) = Done (Some (st', conn')) \<and>
        refilled g ssl pool str (hash # backlog conn1) conn' \<and> kept conn conn'"
      if "upload_ok c" "carries c str'" "upload_pending_count c \<le> n" "backlog c = backlog conn1" "kept conn c"
        "str' = str @ event_bytes g ssl (event_of pool hash)" for s c str'
      using Suc.IH [OF that(1-3), of "Suc i" s] that(4-6) by (elim exE) (auto intro: refilled_later kept_trans)
    note step = refill_loop.simps(2) [of g ssl env pool now n i st conn, unfolded Let_def, folded hash_def conn1_def]
    show ?thesis
    proof (cases "map_of pool hash")
      case None
      let ?c = "conn1\<lparr>upload_not_found := upload_not_found conn1 + 1\<rparr>"
      have b: "upload_ok ?c" "carries ?c str" "upload_pending_count ?c \<le> n" "backlog ?c = backlog conn1" "kept conn ?c"
        using c1(3,4) car1 n1 by (simp_all add: kept_def)
      have eq: "refill_loop g ssl env pool now (Suc n) i (st, conn) = refill_loop g ssl env pool now n (Suc i) (st, ?c)"
        unfolding step using False c1(1) None db(1) by (simp add: bm_object_store_get_def)
      have e: "event_bytes g ssl (event_of pool hash) = []" using None by (simp add: event_of_def)
      show ?thesis unfolding eq c1(2) by (rule next_round [OF b]) (simp add: e)
    next
      case (Some row)
      let ?packet = "bm_create_packet g ssl (lit ''object'') (or_payload row)"
      have e: "event_bytes g ssl (event_of pool hash) = ?packet" using Some by (simp add: event_of_def)
      obtain rc st2 conn2 where s: "send_packet (snd (env i)) ?packet now (st, conn1) = Done (Some (rc, st2, conn2))"
          "same_rest conn1 conn2" "carries conn2 (str @ ?packet) \<or> carries conn2 str"
          "rc = 0 \<Longrightarrow> carries conn2 (str @ ?packet)" "rc \<noteq> 0 \<Longrightarrow> pending_eviction conn2"
        by (rule carries_send [OF car1 db(2)]) blast
      have k2: "kept conn conn2" using s(2) c1(4) by (auto intro: kept_trans kept_upload same_rest_without_upload)
      have eq: "refill_loop g ssl env pool now (Suc n) i (st, conn) =
          (if rc \<noteq> 0 then Done (Some (st2, conn2\<lparr>upload_pending_count := 0\<rparr>))
           else refill_loop g ssl env pool now n (Suc i) (st2, conn2\<lparr>upload_sent := upload_sent conn2 + 1\<rparr>))"
        unfolding step using False c1(1) Some db(1) mem s(1) by (simp add: bm_object_store_get_def bind_run_def)
      show ?thesis
      proof (cases "rc = 0")
        case True
        let ?c = "conn2\<lparr>upload_sent := upload_sent conn2 + 1\<rparr>"
        have b: "upload_ok ?c" "carries ?c (str @ ?packet)" "upload_pending_count ?c \<le> n" "backlog ?c = backlog conn1" "kept conn ?c"
          using same_rest_upload [OF s(2)] c1(3) s(4) [OF True] n1 k2 by (simp_all add: kept_def)
        show ?thesis unfolding eq if_not_P [OF iffD2 [OF not_not True]] c1(2) by (rule next_round [OF b]) (simp add: e)
      next
        case rc: False
        let ?c = "conn2\<lparr>upload_pending_count := 0\<rparr>"
        have ev: "pending_eviction ?c" "upload_ok ?c" "kept conn ?c"
          using s(5) [OF rc] same_rest_upload [OF s(2)] c1(3) k2 by (auto simp: upload_ok_def kept_def)
        have "\<exists>k. carries ?c (str @ wire_of g ssl (map (event_of pool) (take k (hash # backlog conn1))))"
          using s(3)
        proof
          assume "carries conn2 (str @ ?packet)"
          then show ?thesis by (intro exI [of _ "Suc 0"]) (simp add: e)
        next
          assume "carries conn2 str"
          then show ?thesis by (intro exI [of _ 0]) simp
        qed
        then have "refilled g ssl pool str (hash # backlog conn1) ?c" using ev by (auto simp: refilled_def)
        then show ?thesis using rc ev(3) unfolding eq c1(2) by simp
      qed
    qed
  qed
qed

lemma refill_done_keeps:
  "refilled g ssl pool str q conn \<Longrightarrow> refilled g ssl pool str q (refill_done conn)"
  "without_upload (refill_done conn) = without_upload conn"
proof -
  have b: "upload_ok (refill_done conn) = upload_ok conn \<or> \<not> upload_ok conn" "upload_ok conn \<longrightarrow> upload_ok (refill_done conn)"
    "backlog (refill_done conn) = backlog conn" "carries (refill_done conn) s = carries conn s"
    "pending_eviction (refill_done conn) = pending_eviction conn"
    "bm_network_queued_bytes (refill_done conn) = bm_network_queued_bytes conn" for s
    by (auto simp: refill_done_def upload_ok_def backlog_def bm_network_queued_bytes_def)
  then show "refilled g ssl pool str q conn \<Longrightarrow> refilled g ssl pool str q (refill_done conn)" by (auto simp: refilled_def)
  show "without_upload (refill_done conn) = without_upload conn" by (simp add: refill_done_def)
qed

lemma refill_uploads_serves:
  assumes "refill_env_ok env" "upload_ok conn" "carries conn str"
  shows "\<exists>st' conn'. bm_object_sync_refill_uploads g ssl env pool now (st, conn) = Done (Some (st', conn')) \<and>
    refilled g ssl pool str (backlog conn) conn' \<and> kept conn conn'"
proof (cases "upload_pending_count conn = 0")
  case True
  then show ?thesis using refilled_now [OF assms(2,3)] by (simp add: bm_object_sync_refill_uploads_def kept_upload)
next
  case False
  obtain st' conn' where r: "refill_loop g ssl env pool now (upload_pending_count conn) 0 (st, conn) = Done (Some (st', conn'))"
      "refilled g ssl pool str (backlog conn) conn'" "kept conn conn'"
    using refill_loop_serves [OF assms order_refl, of g ssl pool now 0 st] by blast
  have "bm_object_sync_refill_uploads g ssl env pool now (st, conn) = Done (Some (st', refill_done conn'))"
    using False r(1) by (simp add: bm_object_sync_refill_uploads_def bind_run_def)
  then show ?thesis using refill_done_keeps(1) [OF r(2)] kept_trans [OF r(3) kept_upload [OF refill_done_keeps(2)]] by blast
qed

text \<open>The requests of a \<open>getdata\<close> that are accepted: as many as the backlog has room for.\<close>

definition accepted_requests :: "bytes list \<Rightarrow> bm_fd_data \<Rightarrow> bytes list" where
  "accepted_requests items conn =
     (if BM_MAX_INVENTORY_ITEMS < length items then [] else take (BM_MAX_INVENTORY_ITEMS - length (backlog conn)) items)"

lemma getdata_appends:
  assumes "upload_ok conn" "bm_parse_inventory_message (payload_of msg) = Some items" "length items \<le> BM_MAX_INVENTORY_ITEMS"
  obtains conn1 where "handle_getdata g ssl True env pool msg now (st, conn) = bm_object_sync_refill_uploads g ssl env pool now (st, conn1)"
    "upload_ok conn1" "backlog conn1 = backlog conn @ accepted_requests items conn" "without_upload conn1 = without_upload conn"
proof -
  let ?p = "upload_pending_count conn"
  define accepted where "accepted = (if length items < (if ?p < BM_MAX_INVENTORY_ITEMS then BM_MAX_INVENTORY_ITEMS - ?p else 0)
    then length items else if ?p < BM_MAX_INVENTORY_ITEMS then BM_MAX_INVENTORY_ITEMS - ?p else 0)"
  have p: "?p \<le> BM_MAX_INVENTORY_ITEMS" using assms(1) by (simp add: upload_ok_def)
  have a: "accepted \<le> length items" "?p + accepted \<le> BM_MAX_INVENTORY_ITEMS" "take accepted items = accepted_requests items conn"
    using p assms(3) length_backlog [OF assms(1)] by (auto simp: accepted_def accepted_requests_def)
  obtain rc conn1 where c1: "upload_pending_append True items accepted conn = Done (rc, conn1)" "upload_ok conn1"
      "backlog conn1 = backlog conn @ (if rc = 0 then take accepted items else [])" "rc = 0" "without_upload conn1 = without_upload conn"
    by (rule upload_pending_append_queue [OF assms(1) a(1,2), of True]) blast
  have "handle_getdata g ssl True env pool msg now (st, conn) = bm_object_sync_refill_uploads g ssl env pool now (st, conn1)"
    unfolding handle_getdata_def prod.case assms(2) option.case Let_def accepted_def [symmetric] using assms(3) c1(1) by simp
  then show thesis using that c1(2-5) a(3) by simp
qed

lemma without_upload_carries: "without_upload a = without_upload b \<Longrightarrow> carries a str = carries b str"
  by (metis carries_without_upload)

lemma without_upload_evict: "without_upload a = without_upload b \<Longrightarrow> pending_eviction a = pending_eviction b"
  by (metis without_upload_simps(2))

lemma getdata_serves:
  assumes "refill_env_ok env" "upload_ok conn" "carries conn str"
    "bm_parse_inventory_message (payload_of msg) = Some items" "length items \<le> BM_MAX_INVENTORY_ITEMS"
  shows "\<exists>st' conn'. handle_getdata g ssl True env pool msg now (st, conn) = Done (Some (st', conn')) \<and>
    refilled g ssl pool str (backlog conn @ accepted_requests items conn) conn' \<and> kept conn conn'"
proof -
  obtain conn1 where c1: "handle_getdata g ssl True env pool msg now (st, conn) = bm_object_sync_refill_uploads g ssl env pool now (st, conn1)"
    "upload_ok conn1" "backlog conn1 = backlog conn @ accepted_requests items conn" "without_upload conn1 = without_upload conn"
    by (rule getdata_appends [OF assms(2,4,5)])
  have "carries conn1 str" using assms(3) without_upload_carries [OF c1(4)] by simp
  from refill_uploads_serves [OF assms(1) c1(2) this, of g ssl pool now st] show ?thesis
    unfolding c1(1,3) using c1(4) by (elim exE conjE) (intro exI conjI, assumption, assumption, blast intro: kept_trans kept_upload)
qed

section \<open>The life of a connection\<close>

text \<open>
  What happens to the uploads of a connection between its opening and its end, with the pool changing
  in between; \<open>asked\<close> collects the requests that were accepted, and \<open>acts\<close> what was done: a refill with the pool it found, and
  a packet that someone else sent with the result of the send.
\<close>

datatype upload_act = Act_refill object_pool | Act_send int bytes

definition pool_ok :: "openssl \<Rightarrow> object_pool \<Rightarrow> bool" where
  "pool_ok ssl pool \<longleftrightarrow> (\<forall>(h, r)\<in>set pool. bm_inventory_hash ssl (or_payload r) = h)"

type_synonym upload_state = "net_stats \<times> bm_fd_data \<times> bytes list \<times> upload_act list"

inductive upload_step :: "protocol_globals \<Rightarrow> openssl \<Rightarrow> upload_state \<Rightarrow> upload_state \<Rightarrow> bool" for g ssl where
  up_getdata: "refill_env_ok env \<Longrightarrow> pool_ok ssl pool \<Longrightarrow> bm_parse_inventory_message (payload_of msg) = Some items \<Longrightarrow>
    handle_getdata g ssl True env pool msg now (st, conn) = Done (Some (st', conn')) \<Longrightarrow>
    upload_step g ssl (st, conn, asked, acts) (st', conn', asked @ accepted_requests items conn, acts @ [Act_refill pool])"
| up_refill: "refill_env_ok env \<Longrightarrow> pool_ok ssl pool \<Longrightarrow>
    bm_object_sync_refill_uploads g ssl env pool now (st, conn) = Done (Some (st', conn')) \<Longrightarrow>
    upload_step g ssl (st, conn, asked, acts) (st', conn', asked, acts @ [Act_refill pool])"
| up_send: "send_env_ok env \<Longrightarrow> send_packet env packet now (st, conn) = Done (Some (rc, st', conn')) \<Longrightarrow>
    upload_step g ssl (st, conn, asked, acts) (st', conn', asked, acts @ [Act_send rc packet])"
| up_flush: "bm_network_flush True as now (st, conn) = Done (Some (0, st', conn')) \<Longrightarrow>
    upload_step g ssl (st, conn, asked, acts) (st', conn', asked, acts)"
| up_evict: "upload_step g ssl (st, conn, asked, acts) (st, conn\<lparr>pending_eviction := True\<rparr>, asked, acts)"

primrec answers :: "upload_event \<Rightarrow> bytes list" where
  "answers (Served h p) = [h]" | "answers (Not_found h) = [h]" | "answers (Other bs) = []"

definition answered :: "upload_event list \<Rightarrow> bytes list" where
  "answered es = concat (map answers es)"

text \<open>
  The events that an act may have: a refill answers requests, with the payload that its pool has for the hash, and with nothing only if
  its pool has no such hash; a packet of another sender is in the stream as it is, or nothing of it if the send failed.
\<close>

primrec explains :: "upload_act \<Rightarrow> upload_event list \<Rightarrow> bool" where
  "explains (Act_refill pool) es \<longleftrightarrow> (\<forall>e\<in>set es. case e of
     Served h payload \<Rightarrow> \<exists>r. map_of pool h = Some r \<and> or_payload r = payload | Not_found h \<Rightarrow> map_of pool h = None | Other p \<Rightarrow> False)"
| "explains (Act_send rc p) es \<longleftrightarrow> es = [Other p] \<or> rc \<noteq> 0 \<and> es = []"

definition logged :: "upload_act list \<Rightarrow> upload_event list \<Rightarrow> bool" where
  "logged acts log \<longleftrightarrow> (\<exists>segs. list_all2 explains acts segs \<and> log = concat segs)"

lemma logged_nil: "logged [] []"
  by (auto simp: logged_def)

lemma logged_snoc: "logged acts log \<Longrightarrow> explains act es \<Longrightarrow> logged (acts @ [act]) (log @ es)"
proof -
  assume "logged acts log" "explains act es"
  then obtain segs where "list_all2 explains acts segs" "log = concat segs" by (auto simp: logged_def)
  then have "list_all2 explains (acts @ [act]) (segs @ [es])" "log @ es = concat (segs @ [es])"
    using \<open>explains act es\<close> by (simp_all add: list_all2_appendI)
  then show ?thesis unfolding logged_def by blast
qed

lemma logged_refill: "logged acts log \<Longrightarrow> logged (acts @ [Act_refill pool]) (log @ map (event_of pool) hs)"
  by (rule logged_snoc) (auto simp: event_of_def split: option.splits)

lemma logged_refill_nothing: "logged acts log \<Longrightarrow> logged (acts @ [Act_refill pool]) log"
  using logged_refill [of acts log pool "[]"] by simp

definition honest :: "openssl \<Rightarrow> upload_event list \<Rightarrow> bool" where
  "honest ssl es \<longleftrightarrow> (\<forall>h p. Served h p \<in> set es \<longrightarrow> bm_inventory_hash ssl p = h)"

lemma answered_simps [simp]:
  "answered [] = []" "answered (es @ fs) = answered es @ answered fs" "answered (e # es) = answers e @ answered es"
  by (simp_all add: answered_def)

lemma answers_event_of [simp]: "answers (event_of pool h) = [h]"
  by (simp add: event_of_def split: option.splits)

lemma answered_events_of [simp]: "answered (map (event_of pool) hs) = hs"
  by (induction hs) simp_all

lemma honest_events_of: "pool_ok ssl pool \<Longrightarrow> honest ssl (map (event_of pool) hs)"
  by (auto simp: honest_def event_of_def pool_ok_def split: option.splits dest!: map_of_SomeD)

definition upload_inv :: "protocol_globals \<Rightarrow> openssl \<Rightarrow> upload_state \<Rightarrow> bool" where
  "upload_inv g ssl s = (case s of (st, conn, asked, acts) \<Rightarrow> upload_ok conn \<and>
     (\<exists>log. carries conn (wire_of g ssl log) \<and> honest ssl log \<and> logged acts log \<and>
       (if pending_eviction conn then \<exists>rest. asked = answered log @ rest else asked = answered log @ backlog conn)))"

lemma upload_inv_refilled:
  assumes "honest ssl log" "pool_ok ssl pool" "refilled g ssl pool (wire_of g ssl log) q conn'" "logged acts log"
  shows "upload_inv g ssl (st', conn', answered log @ q, acts @ [Act_refill pool])"
proof -
  obtain k where k: "carries conn' (wire_of g ssl log @ wire_of g ssl (map (event_of pool) (take k q)))"
      "pending_eviction conn' \<or> backlog conn' = drop k q" and ok: "upload_ok conn'"
    using assms(3) by (auto simp: refilled_def)
  let ?log = "log @ map (event_of pool) (take k q)"
  have "answered ?log = answered log @ take k q" by simp
  moreover have "honest ssl ?log" using assms(1) honest_events_of [OF assms(2), of "take k q"] by (auto simp: honest_def)
  moreover have "\<exists>rest. q = take k q @ rest" by (rule exI [of _ "drop k q"]) simp
  ultimately show ?thesis using k ok logged_refill [OF assms(4), of pool "take k q"]
    unfolding upload_inv_def prod.case by (intro conjI exI [of _ ?log]) auto
qed

text \<open>A connection that is being evicted is not served any more.\<close>

lemma refill_evicting:
  assumes "pending_eviction conn"
  shows "bm_object_sync_refill_uploads g ssl env pool now (st, conn) = Done (Some (st, if upload_pending_count conn = 0 then conn else refill_done conn))"
proof -
  have "refill_loop g ssl env pool now n i (st, conn) = Done (Some (st, conn))" for n i using assms by (cases n) simp_all
  then show ?thesis by (simp add: bm_object_sync_refill_uploads_def bind_run_def)
qed

lemma refill_done_simps [simp]:
  "upload_ok conn \<Longrightarrow> upload_ok (refill_done conn)" "carries (refill_done conn) str = carries conn str"
  "pending_eviction (refill_done conn) = pending_eviction conn"
  by (auto simp: refill_done_def upload_ok_def)

lemma kept_eviction: "kept conn conn' \<Longrightarrow> pending_eviction conn \<Longrightarrow> pending_eviction conn'"
  by (simp add: kept_def same_rest_def)

lemma upload_inv_evicting:
  "upload_ok conn' \<Longrightarrow> carries conn' (wire_of g ssl log) \<Longrightarrow> honest ssl log \<Longrightarrow> pending_eviction conn' \<Longrightarrow>
    logged acts log \<Longrightarrow> upload_inv g ssl (st', conn', answered log @ rest, acts)"
  by (auto simp: upload_inv_def)

lemma getdata_evicting:
  assumes "upload_ok conn" "pending_eviction conn" "handle_getdata g ssl True env pool msg now (st, conn) = Done (Some (st', conn'))"
  shows "upload_ok conn' \<and> pending_eviction conn' \<and> carries conn' str = carries conn str"
proof (cases "bm_parse_inventory_message (payload_of msg)")
  case None
  then show ?thesis using assms unfolding handle_getdata_def prod.case None option.case by simp
next
  case (Some items)
  show ?thesis
  proof (cases "BM_MAX_INVENTORY_ITEMS < length items")
    case True
    then show ?thesis using assms unfolding handle_getdata_def prod.case Some option.case if_P [OF True] by simp
  next
    case False
    then have le: "length items \<le> BM_MAX_INVENTORY_ITEMS" by simp
    obtain conn1 where c1: "handle_getdata g ssl True env pool msg now (st, conn) = bm_object_sync_refill_uploads g ssl env pool now (st, conn1)"
      "upload_ok conn1" "without_upload conn1 = without_upload conn"
      by (rule getdata_appends [OF assms(1) Some le])
    have ev: "pending_eviction conn1" using assms(2) without_upload_evict [OF c1(3)] by simp
    have "conn' = (if upload_pending_count conn1 = 0 then conn1 else refill_done conn1)"
      using assms(3) unfolding c1(1) refill_evicting [OF ev] by simp
    then show ?thesis using c1(2) ev without_upload_carries [OF c1(3), of str] by (simp split: if_splits)
  qed
qed

lemma upload_inv_step:
  assumes "upload_step g ssl s t" "upload_inv g ssl s"
  shows "upload_inv g ssl t"
  using assms
proof (cases rule: upload_step.cases)
  case (up_getdata env pool msg items now st conn st' conn' asked acts)
  obtain log where log: "upload_ok conn" "carries conn (wire_of g ssl log)" "honest ssl log" "logged acts log"
    "if pending_eviction conn then \<exists>rest. asked = answered log @ rest else asked = answered log @ backlog conn"
    using assms(2) up_getdata(1) by (auto simp: upload_inv_def)
  show ?thesis
  proof (cases "pending_eviction conn")
    case True
    then show ?thesis using getdata_evicting [OF log(1) True up_getdata(6)] log upload_inv_evicting [of conn' g ssl log]
        logged_refill_nothing [OF log(4)] unfolding up_getdata(2) by auto
  next
    case False
    show ?thesis
    proof (cases "length items \<le> BM_MAX_INVENTORY_ITEMS")
      case True
      have "refilled g ssl pool (wire_of g ssl log) (backlog conn @ accepted_requests items conn) conn'"
        using getdata_serves [OF up_getdata(3) log(1,2) up_getdata(5) True, of g ssl pool now st] up_getdata(6) by auto
      from upload_inv_refilled [OF log(3) up_getdata(4) this log(4), of st'] show ?thesis
        using log(5) False unfolding up_getdata(2) by simp
    next
      case many: False
      then have "(st', conn') = (st, conn)" "accepted_requests items conn = []"
        using up_getdata(5,6) by (simp_all add: handle_getdata_def accepted_requests_def)
      then show ?thesis using log logged_refill_nothing [OF log(4)] unfolding up_getdata(1,2) by (auto simp: upload_inv_def)
    qed
  qed
next
  case (up_refill env pool now st conn st' conn' asked acts)
  obtain log where log: "upload_ok conn" "carries conn (wire_of g ssl log)" "honest ssl log" "logged acts log"
    "if pending_eviction conn then \<exists>rest. asked = answered log @ rest else asked = answered log @ backlog conn"
    using assms(2) up_refill(1) by (auto simp: upload_inv_def)
  show ?thesis
  proof (cases "pending_eviction conn")
    case True
    then have "conn' = conn \<or> conn' = refill_done conn" using refill_evicting [OF True] up_refill(5) by (auto split: if_splits)
    then have "upload_ok conn'" "carries conn' (wire_of g ssl log)" "pending_eviction conn'" using log True by auto
    then show ?thesis using log(3,5) True upload_inv_evicting [of conn' g ssl log] logged_refill_nothing [OF log(4)] unfolding up_refill(2) by auto
  next
    case False
    have "refilled g ssl pool (wire_of g ssl log) (backlog conn) conn'"
      using refill_uploads_serves [OF up_refill(3) log(1,2), of g ssl pool now st] up_refill(5) by auto
    from upload_inv_refilled [OF log(3) up_refill(4) this log(4), of st'] show ?thesis using log(5) False unfolding up_refill(2) by simp
  qed
next
  case (up_send env packet now st conn rc st' conn' asked acts)
  obtain log where log: "upload_ok conn" "carries conn (wire_of g ssl log)" "honest ssl log" "logged acts log"
    "if pending_eviction conn then \<exists>rest. asked = answered log @ rest else asked = answered log @ backlog conn"
    using assms(2) up_send(1) by (auto simp: upload_inv_def)
  have s: "same_rest conn conn'" "carries conn' (wire_of g ssl log @ packet) \<or> carries conn' (wire_of g ssl log)"
      "rc = 0 \<Longrightarrow> carries conn' (wire_of g ssl log @ packet)"
    using up_send(4) by - (rule carries_send [OF log(2) up_send(3), of packet now st], simp)+
  then obtain es where es: "carries conn' (wire_of g ssl (log @ es))" "explains (Act_send rc packet) es" "answered es = []" "honest ssl es"
    using that [of "[]"] that [of "[Other packet]"] by (cases "carries conn' (wire_of g ssl log @ packet)") (auto simp: honest_def)
  have "honest ssl (log @ es)" "answered (log @ es) = answered log" using es(3,4) log(3) by (auto simp: honest_def)
  moreover have "logged (acts @ [Act_send rc packet]) (log @ es)" by (rule logged_snoc [OF log(4) es(2)])
  moreover have "pending_eviction conn \<longrightarrow> pending_eviction conn'" using s(1) by (simp add: same_rest_def)
  ultimately show ?thesis using log(1,5) es(1) same_rest_upload [OF s(1)]
    unfolding up_send(2) upload_inv_def prod.case by (intro conjI exI [of _ "log @ es"]) (auto split: if_splits)
next
  case (up_flush as now st conn st' conn' asked acts)
  obtain log pend where log: "upload_ok conn" "send_ok conn pend" "wire_of g ssl log = on_wire conn @ pend" "mem_finite conn" "honest ssl log" "logged acts log"
    "if pending_eviction conn then \<exists>rest. asked = answered log @ rest else asked = answered log @ backlog conn"
    using assms(2) up_flush(1) by (auto simp: upload_inv_def carries_def)
  have s: "same_rest conn conn'" using flush_locked_frame up_flush(3) by (auto simp: bm_network_flush_def)
  obtain k where k: "send_ok conn' (drop k pend)" "on_wire conn' = on_wire conn @ take k pend"
    using flush_stream_step [OF log(2) up_flush(3)] by blast
  have "carries conn' (wire_of g ssl log)"
    using k(1) s log(4) unfolding carries_def log(3) k(2) by (auto simp: same_rest_def intro!: exI [of _ "drop k pend"])
  moreover have "pending_eviction conn \<longrightarrow> pending_eviction conn'" using s by (simp add: same_rest_def)
  ultimately show ?thesis using log(1,5-7) same_rest_upload [OF s]
    unfolding up_flush(2) upload_inv_def prod.case by (intro conjI exI [of _ log]) (auto split: if_splits)
next
  case (up_evict st conn asked acts)
  have "carries (conn\<lparr>pending_eviction := True\<rparr>) str" if "carries conn str" for str
    using that by (auto simp: carries_def send_ok_def mem_finite_def)
  moreover have "upload_ok (conn\<lparr>pending_eviction := True\<rparr>) = upload_ok conn" by (simp add: upload_ok_def)
  ultimately show ?thesis using assms(2) unfolding up_evict by (auto simp: upload_inv_def split: if_splits)
qed

lemma upload_inv_reachable: "(upload_step g ssl)\<^sup>*\<^sup>* s t \<Longrightarrow> upload_inv g ssl s \<Longrightarrow> upload_inv g ssl t"
  by (induction rule: rtranclp_induct) (auto intro: upload_inv_step)

lemma fresh_connection:
  assumes "bm_fd_data_new mem type local_name peer_name now0 h = Some conn" "finite (dom h)"
  shows "carries conn []" "upload_ok conn" "backlog conn = []" "\<not> pending_eviction conn"
proof -
  obtain pend where "send_ok conn pend" "[] = on_wire conn @ pend"
    using send_inv_new [OF assms(1), of undefined] by (auto simp: send_inv_def)
  moreover have "mem_finite conn" "upload_ok conn" "backlog conn = []" "\<not> pending_eviction conn"
    using assms by (auto simp: bm_fd_data_new_def mem_finite_def upload_ok_def backlog_def split: if_splits option.splits)
  ultimately show "carries conn []" "upload_ok conn" "backlog conn = []" "\<not> pending_eviction conn"
    by (auto simp: carries_def)
qed

section \<open>Properties\<close>

text \<open>
  C36: requested objects are served in order, exactly once. Take a new connection and any sequence of
  \<open>getdata\<close> messages, refills, other packets, flushes and eviction marks, with a pool that may change
  in between. The bytes written and queued are then a sequence of whole packets, and each of them is accounted for by what was done,
  in the order in which it was done: a packet of another sender is there exactly once (or not at all if its send failed), and a
  refill added only \<open>object\<close> packets, each with the payload that its pool has for the hash. The requests accepted
  so far are the requests answered, each with the object of that hash or, when the pool of that refill did not have it,
  with nothing, followed by the backlog, which never exceeds 50000 hashes (a connection being evicted
  drops its backlog). A refill never leaves the array of the backlog, returns, and then either the
  backlog is empty, or 2 MiB wait in the send queue, or the connection is being evicted.
\<close>

theorem uploads_in_order:
  assumes "bm_fd_data_new mem type local_name peer_name now0 h = Some conn0" "finite (dom h)"
    and "(upload_step g ssl)\<^sup>*\<^sup>* (st0, conn0, [], []) (st, conn, asked, acts)"
  shows "length (backlog conn) \<le> BM_MAX_INVENTORY_ITEMS \<and>
    (\<exists>log pend. on_wire conn @ pend = wire_of g ssl log \<and> length pend = bm_network_queued_bytes conn \<and>
      logged acts log \<and>
      (\<forall>hash payload. Served hash payload \<in> set log \<longrightarrow> bm_inventory_hash ssl payload = hash) \<and>
      (if pending_eviction conn then \<exists>rest. asked = answered log @ rest else asked = answered log @ backlog conn)) \<and>
    (\<forall>env pool now. refill_env_ok env \<longrightarrow>
      (\<exists>st' conn'. bm_object_sync_refill_uploads g ssl env pool now (st, conn) = Done (Some (st', conn')) \<and>
        (pending_eviction conn' \<or> backlog conn' = [] \<or> BM_UPLOAD_REFILL_THRESHOLD_BYTES \<le> bm_network_queued_bytes conn')))"
proof -
  have "upload_inv g ssl (st0, conn0, [], [])"
    using fresh_connection [OF assms(1,2)] logged_nil by (auto simp: upload_inv_def honest_def intro!: exI [of _ "[]"])
  from upload_inv_reachable [OF assms(3) this] obtain log where log: "upload_ok conn" "carries conn (wire_of g ssl log)" "honest ssl log" "logged acts log"
      "if pending_eviction conn then \<exists>rest. asked = answered log @ rest else asked = answered log @ backlog conn"
    by (auto simp: upload_inv_def)
  obtain pend where pend: "send_ok conn pend" "wire_of g ssl log = on_wire conn @ pend" using log(2) by (auto simp: carries_def)
  have "length (backlog conn) \<le> BM_MAX_INVENTORY_ITEMS" using length_backlog [OF log(1)] log(1) by (simp add: upload_ok_def)
  moreover have "\<exists>log pend. on_wire conn @ pend = wire_of g ssl log \<and> length pend = bm_network_queued_bytes conn \<and>
      logged acts log \<and>
      (\<forall>hash payload. Served hash payload \<in> set log \<longrightarrow> bm_inventory_hash ssl payload = hash) \<and>
      (if pending_eviction conn then \<exists>rest. asked = answered log @ rest else asked = answered log @ backlog conn)"
    using pend log(3-5)
    by (intro exI [of _ log] exI [of _ pend]) (auto simp: honest_def send_ok_def send_holds_def bm_network_queued_bytes_def)
  moreover have "\<exists>st' conn'. bm_object_sync_refill_uploads g ssl env pool now (st, conn) = Done (Some (st', conn')) \<and>
      (pending_eviction conn' \<or> backlog conn' = [] \<or> BM_UPLOAD_REFILL_THRESHOLD_BYTES \<le> bm_network_queued_bytes conn')"
    if "refill_env_ok env" for env pool now
    using refill_uploads_serves [OF that log(1,2), of g ssl pool now st] by (fastforce simp: refilled_def)
  ultimately show ?thesis by blast
qed

text \<open>An environment in which nothing fails.\<close>

definition plain_send :: send_env where
  "plain_send = \<lparr>se_mem = True, se_alloc = (\<lambda>h. if finite (dom h) then Some (LEAST c. h c = None) else None),
     se_ctl = True, se_answers = replicate BM_SEND_QUEUE_HARD_LIMIT_BYTES (Sent 1)\<rparr>"

lemma plain_send_ok: "send_env_ok plain_send"
proof -
  have "h (LEAST c. h c = None) = None" if fin: "finite (dom h)" for h :: "bm_send_chunk heap"
  proof -
    obtain c where "h c = None" using ex_new_if_finite [OF infinite_UNIV_nat fin] by auto
    then show ?thesis by (rule LeastI)
  qed
  moreover have "progress (replicate n (Sent 1)) = n" for n by (simp add: progress_def)
  ultimately show ?thesis by (auto simp: send_env_ok_def plain_send_def alloc_ok_def split: if_splits)
qed

lemma plain_refill_ok: "refill_env_ok (\<lambda>i. (True, plain_send))"
  by (simp add: refill_env_ok_def plain_send_ok)

definition sample_object :: object_row where
  "sample_object = \<lparr>or_object_type = 2, or_stream = 1, or_payload = [1, 2, 3], or_expires_time = 9, or_received_time = 5\<rparr>"

definition sample_hash :: bytes where "sample_hash = bm_inventory_hash plain_ssl [1, 2, 3]"

definition sample_request :: bm_message where
  "sample_request = \<lparr>msg_command = lit ''getdata'', msg_length = 33, msg_checksum = 0,
     msg_payload = Some (inventory_payload [sample_hash])\<rparr>"

lemma sample_request_items: "bm_parse_inventory_message (payload_of sample_request) = Some [sample_hash]"
proof -
  have "length sample_hash = 32"
    by (simp add: sample_hash_def bm_inventory_hash_def bm_double_sha512_def bm_sha512_def plain_ssl_def pad_to_def)
  then show ?thesis by (simp add: payload_of_def sample_request_def bm_parse_inventory_payload)
qed

theorem uploads_in_order_witness:
  "\<exists>st conn log pend. (upload_step protocol_init plain_ssl)\<^sup>*\<^sup>*
      (\<lparr>net_bytes_sent = 0, net_bytes_received = 0\<rparr>, sample_conn, [], [])
      (st, conn, [sample_hash], [Act_refill [(sample_hash, sample_object)]]) \<and>
    on_wire conn @ pend = wire_of protocol_init plain_ssl log \<and>
    (pending_eviction conn \<or> answered log @ backlog conn = [sample_hash]) \<and> set log \<subseteq> {Served sample_hash [1, 2, 3]}"
proof -
  let ?st = "\<lparr>net_bytes_sent = 0, net_bytes_received = 0\<rparr>" and ?pool = "[(sample_hash, sample_object)]"
  have pool: "pool_ok plain_ssl ?pool" by (simp add: pool_ok_def sample_hash_def sample_object_def)
  have fin: "finite (dom (Map.empty :: bm_send_chunk heap))" by simp
  note new = fresh_connection [OF sample_conn_new fin]
  obtain st conn where r: "handle_getdata protocol_init plain_ssl True (\<lambda>i. (True, plain_send)) ?pool sample_request 7 (?st, sample_conn) =
      Done (Some (st, conn))"
    using getdata_serves [OF plain_refill_ok new(2,1) sample_request_items, of protocol_init plain_ssl ?pool 7 ?st] by auto
  have "accepted_requests [sample_hash] sample_conn = [sample_hash]" using new(3) by (simp add: accepted_requests_def)
  then have "upload_step protocol_init plain_ssl (?st, sample_conn, [], []) (st, conn, [sample_hash], [Act_refill ?pool])"
    using up_getdata [OF plain_refill_ok pool sample_request_items r, of "[]" "[]"] by simp
  then have s: "(upload_step protocol_init plain_ssl)\<^sup>*\<^sup>* (?st, sample_conn, [], []) (st, conn, [sample_hash], [Act_refill ?pool])"
    by (rule r_into_rtranclp)
  from uploads_in_order [OF sample_conn_new fin s] obtain log pend where log: "on_wire conn @ pend = wire_of protocol_init plain_ssl log"
      "logged [Act_refill ?pool] log"
      "if pending_eviction conn then \<exists>rest. [sample_hash] = answered log @ rest else [sample_hash] = answered log @ backlog conn"
    by blast
  have "explains (Act_refill ?pool) log" using log(2) by (auto simp: logged_def list_all2_Cons1 simp del: explains.simps)
  then have "e = Served sample_hash [1, 2, 3] \<or> (\<exists>h. e = Not_found h \<and> h \<noteq> sample_hash)" if "e \<in> set log" for e
    unfolding explains.simps by - (drule bspec [OF _ that], cases e, auto simp: sample_object_def split: if_splits)
  moreover have "h = sample_hash" if "Not_found h \<in> set log" for h
  proof -
    have "h \<in> set (answered log)" using that by (force simp: answered_def)
    moreover obtain rest where "[sample_hash] = answered log @ rest" using log(3) by (auto split: if_splits)
    ultimately show ?thesis by (cases "answered log") auto
  qed
  ultimately have "set log \<subseteq> {Served sample_hash [1, 2, 3]}" by blast
  moreover have "pending_eviction conn \<or> answered log @ backlog conn = [sample_hash]" using log(3) by (auto split: if_splits)
  ultimately show ?thesis using s log(1) by blast
qed

end
