(* ===== verification/Base58.thy ===== *)
theory Base58
  imports Bm_Prelude
begin

text \<open>
  Base58 of \<open>src/common/base58.c\<close>. The encoder divides a scratch copy of the input by 58 in place
  and fills a buffer of twice the input's length from its end; the model keeps both arrays and ends
  in \<open>Fault\<close> where the C code would write in front of the buffer. The decoder works on OpenSSL
  big numbers, which are a parameter here.
\<close>

definition ALPHABET :: bytes where
  "ALPHABET = lit ''123456789ABCDEFGHJKLMNPQRSTUVWXYZabcdefghijkmnopqrstuvwxyz''"

section \<open>Encoder\<close>

text \<open>The loop of \<open>divmod58\<close> from the current index on, with the remainder carried in.\<close>

fun divmod58_loop :: "nat \<Rightarrow> bytes \<Rightarrow> bytes \<times> nat" where
  "divmod58_loop rem [] = ([], rem)"
| "divmod58_loop rem (digit256 # ds) =
     (let temp = rem * 256 + unat digit256;
          (qs, r) = divmod58_loop (temp mod 58) ds
      in (of_nat (temp div 58) # qs, r))"

definition divmod58 :: "bytes \<Rightarrow> nat \<Rightarrow> bytes \<times> nat" where
  "divmod58 number start_at =
     (let (qs, r) = divmod58_loop 0 (drop start_at number)
      in (take start_at number @ qs, r))"

text \<open>\<open>while (start_at < length)\<close>: one digit per round, stored at \<open>temp[--j]\<close>.\<close>

function b58_digits :: "bytes \<Rightarrow> nat \<Rightarrow> bytes \<Rightarrow> nat \<Rightarrow> (bytes \<times> nat) outcome" where
  "b58_digits work start_at temp j =
     (if start_at < length work then
        let (work', m) = divmod58 work start_at;
            start' = (if work' ! start_at = 0 then Suc start_at else start_at)
        in if j = 0 then Fault
           else b58_digits work' start' (temp[j - 1 := ALPHABET ! m]) (j - 1)
      else Done (temp, j))"
  by pat_completeness auto
termination
  by (relation "measure (\<lambda>(work, start_at, temp, j). j)") auto

text \<open>\<open>while (j < temp_len && temp[j] == ALPHABET[0]) ++j\<close>\<close>

function b58_skip :: "bytes \<Rightarrow> nat \<Rightarrow> nat" where
  "b58_skip temp j =
     (if j < length temp \<and> temp ! j = ALPHABET ! 0 then b58_skip temp (Suc j) else j)"
  by pat_completeness auto
termination
  by (relation "measure (\<lambda>(temp, j). length temp - j)") auto

text \<open>\<open>while (zero_count--) temp[--j] = ALPHABET[0]\<close>\<close>

fun b58_ones :: "nat \<Rightarrow> bytes \<Rightarrow> nat \<Rightarrow> (bytes \<times> nat) outcome" where
  "b58_ones 0 temp j = Done (temp, j)"
| "b58_ones (Suc n) temp j =
     (if j = 0 then Fault else b58_ones n (temp[j - 1 := ALPHABET ! 0]) (j - 1))"

text \<open>\<open>Done None\<close> is the NULL result for a NULL or empty input; allocation succeeds.\<close>

definition bm_base58_encode :: "bytes option \<Rightarrow> bytes option outcome" where
  "bm_base58_encode input =
     (case input of
        None \<Rightarrow> Done None
      | Some work \<Rightarrow>
          if length work = 0 then Done None
          else
            let zero_count = length (takeWhile (\<lambda>b. b = 0) work);
                temp_len = length work * 2;
                temp = replicate temp_len 0
            in bind_outcome (b58_digits work zero_count temp temp_len) (\<lambda>(temp, j).
               bind_outcome (b58_ones zero_count temp (b58_skip temp j)) (\<lambda>(temp, j).
               Done (Some (drop j temp)))))"

declare b58_digits.simps [simp del] b58_skip.simps [simp del]

section \<open>Decoder\<close>

text \<open>The operations of \<open>openssl/bn.h\<close> the decoder calls; \<open>None\<close> is a failure return.\<close>

record 'b bignum =
  BN_zero :: 'b
  BN_set_word :: "nat \<Rightarrow> 'b"
  BN_mul :: "'b \<Rightarrow> 'b \<Rightarrow> 'b option"
  BN_add :: "'b \<Rightarrow> 'b \<Rightarrow> 'b option"
  BN_bn2bin :: "'b \<Rightarrow> bytes"

text \<open>
  What OpenSSL documents: the operations compute on non-negative integers, and \<open>BN_bn2bin\<close> stores
  the \<open>BN_num_bytes\<close> bytes of the value, most significant first, without leading zero bytes.
\<close>

definition bn_spec :: "'b bignum \<Rightarrow> ('b \<Rightarrow> nat) \<Rightarrow> bool" where
  "bn_spec bn val \<longleftrightarrow>
     val (BN_zero bn) = 0 \<and>
     (\<forall>n. val (BN_set_word bn n) = n) \<and>
     (\<forall>a b. \<exists>c. BN_mul bn a b = Some c \<and> val c = val a * val b) \<and>
     (\<forall>a b. \<exists>c. BN_add bn a b = Some c \<and> val c = val a + val b) \<and>
     (\<forall>a. be_nat (BN_bn2bin bn a) = val a \<and> (BN_bn2bin bn a \<noteq> [] \<longrightarrow> hd (BN_bn2bin bn a) \<noteq> 0))"

text \<open>\<open>strchr(ALPHABET, c) - ALPHABET\<close>\<close>

definition alphabet_index :: "byte \<Rightarrow> nat option" where
  "alphabet_index c =
     (if c \<in> set ALPHABET then Some (length (takeWhile (\<lambda>a. a \<noteq> c) ALPHABET)) else None)"

fun b58_accumulate :: "'b bignum \<Rightarrow> 'b \<Rightarrow> bytes \<Rightarrow> 'b option" where
  "b58_accumulate bn value [] = Some value"
| "b58_accumulate bn value (p # ps) =
     (case alphabet_index p of
        None \<Rightarrow> None
      | Some digit \<Rightarrow>
          (case BN_mul bn value (BN_set_word bn 58) of
             None \<Rightarrow> None
           | Some value1 \<Rightarrow>
               (case BN_add bn value1 (BN_set_word bn digit) of
                  None \<Rightarrow> None
                | Some value2 \<Rightarrow> b58_accumulate bn value2 ps)))"

text \<open>\<open>None\<close> is the return value -1.\<close>

definition bm_base58_decode :: "'b bignum \<Rightarrow> bytes option \<Rightarrow> bytes option" where
  "bm_base58_decode bn input =
     (case input of
        None \<Rightarrow> None
      | Some s \<Rightarrow>
          if c_str s = [] then None
          else map_option (BN_bn2bin bn) (b58_accumulate bn (BN_zero bn) (c_str s)))"

section \<open>Lemmas\<close>

lemma length_ALPHABET [simp]: "length ALPHABET = 58"
  by (simp add: ALPHABET_def)

lemma distinct_ALPHABET: "distinct ALPHABET"
  by (simp add: ALPHABET_def)

lemma zero_notin_ALPHABET: "0 \<notin> set ALPHABET"
  by (simp add: ALPHABET_def)

lemma takeWhile_neq_nth:
  "distinct xs \<Longrightarrow> i < length xs \<Longrightarrow> length (takeWhile (\<lambda>a. a \<noteq> xs ! i) xs) = i"
  by (induction xs arbitrary: i) (auto simp: nth_Cons split: nat.splits)

lemma alphabet_index_nth [simp]: "i < 58 \<Longrightarrow> alphabet_index (ALPHABET ! i) = Some i"
  using takeWhile_neq_nth [OF distinct_ALPHABET, of i] by (simp add: alphabet_index_def)

text \<open>The number a string of Base58 digits denotes.\<close>

definition b58_nat :: "bytes \<Rightarrow> nat" where
  "b58_nat cs = foldl (\<lambda>n c. 58 * n + the (alphabet_index c)) 0 cs"

lemma b58_nat_snoc [simp]: "b58_nat (cs @ [c]) = 58 * b58_nat cs + the (alphabet_index c)"
  by (simp add: b58_nat_def)

lemma b58_nat_Nil [simp]: "b58_nat [] = 0"
  by (simp add: b58_nat_def)

lemma b58_nat_leading_one: "b58_nat (ALPHABET ! 0 # cs) = b58_nat cs"
  by (simp add: b58_nat_def)

lemma b58_nat_ones: "b58_nat (replicate n (ALPHABET ! 0) @ cs) = b58_nat cs"
  by (induction n) (simp_all add: b58_nat_leading_one)

lemma b58_nat_dropWhile: "b58_nat (dropWhile (\<lambda>c. c = ALPHABET ! 0) cs) = b58_nat cs"
  by (induction cs) (auto simp: b58_nat_leading_one)

lemma divmod58_loop:
  assumes "r < 58" "divmod58_loop r ds = (qs, r')"
  shows "length qs = length ds \<and> r' < 58 \<and> 58 * be_nat qs + r' = r * 256 ^ length ds + be_nat ds"
  using assms
proof (induction ds arbitrary: r qs)
  case Nil
  then show ?case by simp
next
  case (Cons d ds)
  define t where "t = r * 256 + unat d"
  obtain qs1 where qs: "qs = of_nat (t div 58) # qs1" and rest: "divmod58_loop (t mod 58) ds = (qs1, r')"
    using Cons.prems(2) by (auto simp: t_def Let_def split: prod.splits)
  have ih: "length qs1 = length ds" "r' < 58"
      "58 * be_nat qs1 + r' = t mod 58 * 256 ^ length ds + be_nat ds"
    using Cons.IH [OF _ rest] by simp_all
  have "t < 58 * 256" using Cons.prems(1) unat_lt_256 [of d] unfolding t_def by linarith
  then have "t div 58 < 256" by (simp add: less_mult_imp_div_less)
  then have u: "unat (of_nat (t div 58) :: byte) = t div 58"
    by simp
  have "58 * be_nat qs + r' = 58 * (t div 58) * 256 ^ length ds + (58 * be_nat qs1 + r')"
    using ih(1) by (simp add: qs be_nat_Cons u)
  also have "\<dots> = (58 * (t div 58) + t mod 58) * 256 ^ length ds + be_nat ds"
    unfolding ih(3) by (simp only: add_mult_distrib add.assoc)
  also have "\<dots> = t * 256 ^ length ds + be_nat ds" by (simp only: mult_div_mod_eq)
  finally show ?case using ih by (simp add: qs be_nat_Cons t_def algebra_simps)
qed

lemma divmod58:
  assumes "divmod58 w s = (w', m)" "s < length w"
  shows "length w' = length w" "m < 58" "58 * be_nat (drop s w') + m = be_nat (drop s w)"
    "unat (w' ! s) = unat (w ! s) div 58"
proof -
  obtain qs where w': "w' = take s w @ qs" and l: "divmod58_loop 0 (drop s w) = (qs, m)"
    using assms(1) by (auto simp: divmod58_def Let_def split: prod.splits)
  note d = divmod58_loop [OF _ l]
  show "length w' = length w" "m < 58" "58 * be_nat (drop s w') + m = be_nat (drop s w)"
    using d assms(2) by (simp_all add: w')
  have "drop s w = w ! s # drop (Suc s) w" using assms(2) by (simp add: Cons_nth_drop_Suc)
  with l obtain qs1 where "qs = of_nat (unat (w ! s) div 58) # qs1"
    by (auto simp: Let_def split: prod.splits)
  moreover have "unat (w ! s) div 58 < 256" 
    using unat_lt_256 [of "w ! s"] div_le_dividend [of "unat (w ! s)" 58] by linarith
  ultimately show "unat (w' ! s) = unat (w ! s) div 58"
    using assms(2) by (simp add: w' nth_append)
qed

text \<open>How many rounds the digit loop still needs: at most two per byte position.\<close>

definition b58_rounds :: "bytes \<Rightarrow> nat \<Rightarrow> nat" where
  "b58_rounds w s =
     (if s < length w then 2 * (length w - s) - (if unat (w ! s) < 58 then 1 else 0) else 0)"

lemma b58_rounds_le: "b58_rounds w s \<le> 2 * (length w - s)"
  by (simp add: b58_rounds_def)

lemma b58_rounds_step:
  assumes "divmod58 w s = (w', m)" "s < length w"
  shows "b58_rounds w' (if w' ! s = 0 then Suc s else s) < b58_rounds w s"
proof -
  note d = divmod58 [OF assms]
  have "unat (w ! s) < 58 * 58" using unat_lt_256 [of "w ! s"] by linarith
  then have "unat (w ! s) div 58 < 58" by (simp add: less_mult_imp_div_less)
  moreover have "w' ! s = 0 \<longleftrightarrow> unat (w ! s) < 58"
    using d(4) by (simp add: unat_eq_zero [symmetric] div_eq_0_iff)
  ultimately show ?thesis
    using assms(2) d(1,4) b58_rounds_le [of w' "Suc s"] by (auto simp: b58_rounds_def)
qed

lemma b58_digits_step:
  assumes "s < length w" "divmod58 w s = (w', m)"
  shows "b58_digits w s temp (Suc j) =
    b58_digits w' (if w' ! s = 0 then Suc s else s) (temp[j := ALPHABET ! m]) j"
  using assms by (simp add: b58_digits.simps [of w s temp "Suc j"] Let_def)

lemma drop_list_update_last:
  "j < length xs \<Longrightarrow> drop j (xs[j := x]) = x # drop (Suc j) xs"
  by (simp add: Cons_nth_drop_Suc [symmetric])

text \<open>
  The digit loop stays inside the buffer and leaves the Base58 digits of the remaining number in
  front of what was already there.
\<close>

lemma b58_digits_correct:
  assumes "b58_rounds w s \<le> j" "s \<le> length w" "j \<le> length temp"
  shows "\<exists>temp' j' ds. b58_digits w s temp j = Done (temp', j') \<and>
    j' + length ds = j \<and> length ds \<le> b58_rounds w s \<and> length temp' = length temp \<and>
    drop j' temp' = ds @ drop j temp \<and> set ds \<subseteq> set ALPHABET \<and> b58_nat ds = be_nat (drop s w)"
  using assms
proof (induction j arbitrary: w s temp)
  case 0
  have "\<not> s < length w"
    using 0 by (auto simp: b58_rounds_def split: if_splits)
  then show ?case by (simp add: b58_digits.simps [of w s temp 0])
next
  case (Suc j)
  show ?case
  proof (cases "s < length w")
    case False
    then show ?thesis
      by (auto simp: b58_digits.simps [of w s temp "Suc j"] intro!: exI [of _ "[]"])
  next
    case True
    obtain w' m where dm: "divmod58 w s = (w', m)" by (cases "divmod58 w s")
    let ?s = "if w' ! s = 0 then Suc s else s"
    note d = divmod58 [OF dm True]
    have rj: "b58_rounds w' ?s \<le> j" and r: "Suc (b58_rounds w' ?s) \<le> b58_rounds w s"
      using b58_rounds_step [OF dm True] Suc.prems(1) by simp_all
    have sl: "?s \<le> length w'" and jl: "j \<le> length (temp[j := ALPHABET ! m])"
      using True d(1) Suc.prems(3) by simp_all
    from Suc.IH [OF rj sl jl] obtain temp' j' ds where ih: "b58_digits w' ?s (temp[j := ALPHABET ! m]) j = Done (temp', j')"
        "j' + length ds = j" "length ds \<le> b58_rounds w' ?s" "length temp' = length temp"
        "drop j' temp' = ds @ drop j (temp[j := ALPHABET ! m])" "set ds \<subseteq> set ALPHABET"
        "b58_nat ds = be_nat (drop ?s w')"
      by (auto simp only: length_list_update)
    have "be_nat (drop ?s w') = be_nat (drop s w')"
      using True d(1) by (simp add: Cons_nth_drop_Suc [symmetric] be_nat_Cons)
    then have "b58_nat (ds @ [ALPHABET ! m]) = be_nat (drop s w)"
      using ih(7) d(2,3) by simp
    then show ?thesis
      using ih d(2) r Suc.prems(3) b58_digits_step [OF True dm, of temp j]
      by (intro exI [of _ temp'] exI [of _ j'] exI [of _ "ds @ [ALPHABET ! m]"])
        (simp add: drop_list_update_last)
  qed
qed

lemma b58_skip_eq: "b58_skip temp j = j + length (takeWhile (\<lambda>c. c = ALPHABET ! 0) (drop j temp))"
proof (induction temp j rule: b58_skip.induct)
  case (1 temp j)
  show ?case
  proof (cases "j < length temp")
    case True
    then show ?thesis
      using 1 by (subst b58_skip.simps) (simp add: Cons_nth_drop_Suc [symmetric])
  next
    case False
    then show ?thesis by (subst b58_skip.simps) simp
  qed
qed

lemma b58_ones_eq:
  "n \<le> j \<Longrightarrow> j \<le> length temp \<Longrightarrow>
   \<exists>temp'. b58_ones n temp j = Done (temp', j - n) \<and>
     drop (j - n) temp' = replicate n (ALPHABET ! 0) @ drop j temp"
proof (induction n arbitrary: temp j)
  case 0
  then show ?case by simp
next
  case (Suc n)
  then obtain k where j: "j = Suc k" by (cases j) auto
  obtain temp' where "b58_ones n (temp[k := ALPHABET ! 0]) k = Done (temp', k - n)"
      "drop (k - n) temp' = replicate n (ALPHABET ! 0) @ drop k (temp[k := ALPHABET ! 0])"
    using Suc.IH [of k "temp[k := ALPHABET ! 0]"] Suc.prems j by auto
  then show ?case
    using Suc.prems j by (simp add: drop_list_update_last replicate_app_Cons_same)
qed

text \<open>The encoder as a whole: ones for the leading zero bytes, then the digits of the number.\<close>

lemma bm_base58_encode_correct:
  assumes "d \<noteq> []"
  shows "\<exists>cs. bm_base58_encode (Some d) = Done (Some (replicate (length (takeWhile (\<lambda>b. b = 0) d)) (ALPHABET ! 0) @ cs)) \<and>
    set cs \<subseteq> set ALPHABET \<and> b58_nat cs = be_nat d \<and>
    length (takeWhile (\<lambda>b. b = 0) d) + length cs \<le> 2 * length d"
proof -
  define z where "z = length (takeWhile (\<lambda>b. b = 0) d)"
  define L where "L = length d * 2"
  have z: "z \<le> length d" by (simp add: z_def length_takeWhile_le)
  have rounds: "b58_rounds d z \<le> L" using b58_rounds_le [of d z] by (simp add: L_def)
  have "L \<le> length (replicate L (0::byte))" by simp
  from b58_digits_correct [OF rounds z this]
  obtain temp j ds where dig: "b58_digits d z (replicate L 0) L = Done (temp, j)"
      "j + length ds = L" "length ds \<le> b58_rounds d z" "length temp = length (replicate L (0::byte))"
      "drop j temp = ds @ drop L (replicate L 0)" "set ds \<subseteq> set ALPHABET"
      "b58_nat ds = be_nat (drop z d)"
    by blast
  define k where "k = b58_skip temp j"
  let ?cs = "dropWhile (\<lambda>c. c = ALPHABET ! 0) ds"
  have k: "k = j + length (takeWhile (\<lambda>c. c = ALPHABET ! 0) ds)"
    by (simp add: k_def b58_skip_eq dig(5))
  have "length (takeWhile (\<lambda>c. c = ALPHABET ! 0) ds) \<le> length ds" by (rule length_takeWhile_le)
  then have kl: "k \<le> length temp" using k dig(2,4) by simp
  have zk: "z \<le> k"
    using k dig(2,3) b58_rounds_le [of d z] z by (simp add: L_def)
  obtain temp' where ones: "b58_ones z temp k = Done (temp', k - z)"
      "drop (k - z) temp' = replicate z (ALPHABET ! 0) @ drop k temp"
    using b58_ones_eq [OF zk kl] by (elim exE conjE)
  have "drop k temp = drop (length (takeWhile (\<lambda>c. c = ALPHABET ! 0) ds)) (drop j temp)"
    by (simp add: k add.commute)
  then have "drop k temp = ?cs" by (simp add: dig(5) dropWhile_eq_drop)
  moreover have "be_nat (drop z d) = be_nat d"
    by (simp add: z_def dropWhile_eq_drop [symmetric])
  moreover have "set ?cs \<subseteq> set ALPHABET" using dig(6) by (meson set_dropWhileD subset_iff)
  moreover have "z + length ?cs \<le> 2 * length d"
    using dig(3) b58_rounds_le [of d z] z length_dropWhile_le [of "\<lambda>c. c = ALPHABET ! 0" ds] by linarith
  ultimately show ?thesis
    using assms dig(1,7) ones k_def
    by (intro exI [of _ ?cs])
      (auto simp: bm_base58_encode_def z_def L_def Let_def b58_nat_dropWhile)
qed

lemma b58_accumulate_correct:
  assumes "bn_spec bn val" "set cs \<subseteq> set ALPHABET"
  shows "\<exists>w. b58_accumulate bn v cs = Some w \<and>
    val w = foldl (\<lambda>n c. 58 * n + the (alphabet_index c)) (val v) cs"
  using assms(2)
proof (induction cs arbitrary: v)
  case Nil
  then show ?case by simp
next
  case (Cons c cs)
  then obtain i where i: "alphabet_index c = Some i" by (auto simp: alphabet_index_def)
  have val58: "val (BN_set_word bn n) = n" for n using assms(1) by (simp add: bn_spec_def)
  obtain p where p: "BN_mul bn v (BN_set_word bn 58) = Some p" "val p = val v * 58"
    using assms(1) val58 [of 58] unfolding bn_spec_def by metis
  obtain t where t: "BN_add bn p (BN_set_word bn i) = Some t" "val t = val p + i"
    using assms(1) val58 [of i] unfolding bn_spec_def by metis
  show ?case
    using Cons.IH [of t] Cons.prems i p t by (simp add: mult.commute)
qed

lemma bm_base58_decode_correct:
  assumes bn: "bn_spec bn val" and cs: "cs \<noteq> []" "set cs \<subseteq> set ALPHABET"
  shows "\<exists>out. bm_base58_decode bn (Some cs) = Some out \<and> be_nat out = b58_nat cs \<and>
    (out \<noteq> [] \<longrightarrow> hd out \<noteq> 0)"
proof -
  have c: "c_str cs = cs" using cs(2) zero_notin_ALPHABET by (intro c_str_id) blast
  obtain w where "b58_accumulate bn (BN_zero bn) cs = Some w" "val w = b58_nat cs"
    using b58_accumulate_correct [OF bn cs(2), of "BN_zero bn"] bn
    by (auto simp: b58_nat_def bn_spec_def)
  then show ?thesis
    using bn c cs(1) by (auto simp: bm_base58_decode_def bn_spec_def)
qed

lemma bm_base58_roundtrip:
  assumes bn: "bn_spec bn val" and d: "d \<noteq> []"
  shows "\<exists>s. bm_base58_encode (Some d) = Done (Some s) \<and> 0 \<notin> set s \<and>
    bm_base58_decode bn (Some s) = Some (dropWhile (\<lambda>b. b = 0) d)"
proof -
  let ?z = "length (takeWhile (\<lambda>b. b = 0) d)"
  let ?one = "ALPHABET ! 0"
  from bm_base58_encode_correct [OF d] obtain cs
    where enc: "bm_base58_encode (Some d) = Done (Some (replicate ?z ?one @ cs))"
      and cs: "set cs \<subseteq> set ALPHABET" "b58_nat cs = be_nat d" by blast
  let ?s = "replicate ?z ?one @ cs"
  have "?one \<in> set ALPHABET" by (rule nth_mem) simp
  with cs have alpha: "set ?s \<subseteq> set ALPHABET" by auto
  have "?s \<noteq> []"
  proof
    assume "?s = []"
    with cs(2) have "takeWhile (\<lambda>b. b = 0) d = []" "\<forall>b\<in>set d. b = 0"
      by (simp_all add: be_nat_eq_0_iff [symmetric])
    with d show False by (cases d) auto
  qed
  from bm_base58_decode_correct [OF bn this alpha] obtain out
    where out: "bm_base58_decode bn (Some ?s) = Some out" "be_nat out = b58_nat ?s"
      "out \<noteq> [] \<longrightarrow> hd out \<noteq> 0" by blast
  have "out = dropWhile (\<lambda>b. b = 0) d"
    using out(2,3) cs(2) hd_dropWhile [of "\<lambda>b. b = 0" d]
    by (intro be_nat_unique) (auto simp: b58_nat_ones)
  with enc out(1) alpha zero_notin_ALPHABET show ?thesis by blast
qed

section \<open>Properties\<close>

text \<open>
  \<open>bm_base58_encode\<close> never writes outside its digit buffer: on a NULL or empty input it
  returns NULL, on any other it returns a string over the alphabet that is at most twice as long as
  the input.
\<close>

theorem base58_encode_in_bounds:
  "case input of
     None \<Rightarrow> bm_base58_encode input = Done None
   | Some d \<Rightarrow>
       (if d = [] then bm_base58_encode input = Done None
        else \<exists>s. bm_base58_encode input = Done (Some s) \<and> set s \<subseteq> set ALPHABET \<and>
               length s \<le> 2 * length d)"
proof -
  have one: "ALPHABET ! 0 \<in> set ALPHABET" by (rule nth_mem) simp
  show ?thesis
  proof (cases input)
    case None
    then show ?thesis by (simp add: bm_base58_encode_def)
  next
    case (Some d)
    then show ?thesis
      using bm_base58_encode_correct [of d] one
      by (cases "d = []") (auto simp: bm_base58_encode_def)
  qed
qed

text \<open>
  Decoding what \<open>bm_base58_encode\<close> returns gives the input back up to its leading zero bytes
  (the encoder keeps them as ones, the decoder is a plain integer conversion), for every big-number
  library that computes as OpenSSL documents.
\<close>

theorem base58_roundtrip:
  assumes "bn_spec bn val" "d \<noteq> []"
  shows "\<exists>s. bm_base58_encode (Some d) = Done (Some s) \<and>
    bm_base58_decode bn (Some s) = Some (dropWhile (\<lambda>b. b = 0) d)"
  using bm_base58_roundtrip [OF assms] by blast

text \<open>Natural numbers with their minimal big-endian bytes satisfy the big-number contract.\<close>

fun nat_to_bytes :: "nat \<Rightarrow> bytes" where
  "nat_to_bytes n = (if n = 0 then [] else nat_to_bytes (n div 256) @ [of_nat (n mod 256)])"

declare nat_to_bytes.simps [simp del]

lemma nat_to_bytes_correct:
  "be_nat (nat_to_bytes n) = n \<and> (nat_to_bytes n \<noteq> [] \<longrightarrow> hd (nat_to_bytes n) \<noteq> 0)"
proof (induction n rule: nat_to_bytes.induct)
  case (1 n)
  show ?case
  proof (cases "n = 0")
    case True
    then show ?thesis by (simp add: nat_to_bytes.simps)
  next
    case False
    then have ih: "be_nat (nat_to_bytes (n div 256)) = n div 256"
        "nat_to_bytes (n div 256) \<noteq> [] \<longrightarrow> hd (nat_to_bytes (n div 256)) \<noteq> 0"
      using 1 by auto
    have "of_nat (n mod 256) \<noteq> (0::byte)" if "n div 256 = 0"
      using that False by (simp add: word_unat_eq_iff div_eq_0_iff)
    then show ?thesis
      using False ih
      by (subst (1 2 3) nat_to_bytes.simps)
        (auto simp: be_nat_append be_nat_Cons hd_append nat_to_bytes.simps [of 0])
  qed
qed

definition nat_bignum :: "nat bignum" where
  "nat_bignum = \<lparr>BN_zero = 0, BN_set_word = id, BN_mul = (\<lambda>a b. Some (a * b)),
     BN_add = (\<lambda>a b. Some (a + b)), BN_bn2bin = nat_to_bytes\<rparr>"

lemma nat_bignum_spec: "bn_spec nat_bignum id"
  by (simp add: bn_spec_def nat_bignum_def nat_to_bytes_correct)

theorem base58_roundtrip_witness:
  "\<exists>s. bm_base58_encode (Some [0, 7, 255]) = Done (Some s) \<and>
    bm_base58_decode nat_bignum (Some s) = Some [7, 255]"
  using base58_roundtrip [OF nat_bignum_spec, of "[0, 7, 255]"] by simp

end
