(* ===== verification/Address.thy ===== *)
theory Address
  imports Varint Base58 Hashing
begin

text \<open>
  \<open>src/core/address.c\<close>: key derivation, the RIPE digest of a key pair, the printed form of
  addresses (\<open>BM-\<dots>\<close>) and of private keys (WIF), and the deterministic address search.
  \<open>None\<close> is a non-zero return code or a NULL result.
\<close>

abbreviation BM_RIPE_LEN :: nat where "BM_RIPE_LEN \<equiv> 20"
abbreviation BM_PRIVATE_KEY_LEN :: nat where "BM_PRIVATE_KEY_LEN \<equiv> 32"
abbreviation BM_PUBLIC_KEY_LEN :: nat where "BM_PUBLIC_KEY_LEN \<equiv> 65"

section \<open>Keys\<close>

definition bm_address_derive_private_key :: "openssl \<Rightarrow> bytes \<Rightarrow> u64 \<Rightarrow> bytes" where
  "bm_address_derive_private_key ssl passphrase nonce =
     take BM_PRIVATE_KEY_LEN (bm_sha512 ssl (c_str passphrase @ varint_octets nonce))"

definition bm_address_get_public_key :: "openssl \<Rightarrow> bytes \<Rightarrow> bytes option" where
  "bm_address_get_public_key ssl priv =
     (case EC_mul_G ssl priv of
        None \<Rightarrow> None
      | Some pub \<Rightarrow> if length pub = BM_PUBLIC_KEY_LEN then Some pub else None)"

definition bm_address_calc_ripe :: "openssl \<Rightarrow> bytes \<Rightarrow> bytes \<Rightarrow> bytes" where
  "bm_address_calc_ripe ssl sign_pub enc_pub = bm_ripemd160 ssl (bm_sha512 ssl (sign_pub @ enc_pub))"

text \<open>The pair of \<open>out_secret\<close> and \<open>out_tag\<close>.\<close>

definition bm_address_derive_secret_and_tag :: "openssl \<Rightarrow> u64 \<Rightarrow> u64 \<Rightarrow> bytes \<Rightarrow> bytes \<times> bytes" where
  "bm_address_derive_secret_and_tag ssl version stream ripe =
     (let full = bm_sha512 ssl (varint_octets version @ varint_octets stream @ ripe)
      in (take 32 full, take 32 (drop 32 full)))"

section \<open>Address strings\<close>

definition trim_ripe :: "u64 \<Rightarrow> bytes \<Rightarrow> bytes" where
  "trim_ripe version work =
     (if 2 \<le> version \<and> version < 4 then
        (if work ! 0 = 0 \<and> work ! 1 = 0 then drop 2 work
         else if work ! 0 = 0 then drop 1 work
         else work)
      else if version = 4 then drop (length (takeWhile (\<lambda>b. b = 0) work)) work
      else work)"

definition bm_address_encode :: "openssl \<Rightarrow> u64 \<Rightarrow> u64 \<Rightarrow> bytes \<Rightarrow> bytes option outcome" where
  "bm_address_encode ssl version stream ripe =
     (if length ripe \<noteq> BM_RIPE_LEN then Done None
      else
        let data = varint_octets version @ varint_octets stream @ trim_ripe version ripe;
            checksum = take 4 (bm_double_sha512 ssl data)
        in bind_outcome (bm_base58_encode (Some (data @ checksum)))
             (\<lambda>b58. Done (map_option (\<lambda>s. lit ''BM-'' @ s) b58)))"

definition bm_address_encode_wif :: "openssl \<Rightarrow> bytes \<Rightarrow> bytes option outcome" where
  "bm_address_encode_wif ssl priv =
     (let raw = 0x80 # priv
      in bm_base58_encode (Some (raw @ take 4 (bm_double_sha256 ssl raw))))"

definition bm_address_decode_wif :: "'b bignum \<Rightarrow> openssl \<Rightarrow> bytes \<Rightarrow> bytes option" where
  "bm_address_decode_wif bn ssl wif =
     (case bm_base58_decode bn (Some wif) of
        None \<Rightarrow> None
      | Some data \<Rightarrow>
          if length data \<noteq> 1 + BM_PRIVATE_KEY_LEN + 4 \<or> data ! 0 \<noteq> 0x80 then None
          else if take 4 (bm_double_sha256 ssl (take (1 + BM_PRIVATE_KEY_LEN) data))
                    \<noteq> drop (1 + BM_PRIVATE_KEY_LEN) data then None
          else Some (take BM_PRIVATE_KEY_LEN (drop 1 data)))"

text \<open>The RIPE of the bytes behind the stream number, zero bytes restored in front.\<close>

definition restore_ripe :: "u64 \<Rightarrow> bytes \<Rightarrow> bytes option" where
  "restore_ripe version ripe_data =
     (if version = 2 \<or> version = 3 then
        (if length ripe_data > BM_RIPE_LEN then None
         else Some (replicate (BM_RIPE_LEN - length ripe_data) 0 @ ripe_data))
      else if length ripe_data < 4 \<or> length ripe_data > 20 then None
      else if ripe_data ! 0 = 0 then None
      else Some (replicate (20 - length ripe_data) 0 @ ripe_data))"

definition bm_address_decode :: "'b bignum \<Rightarrow> openssl \<Rightarrow> bytes \<Rightarrow> (u64 \<times> u64 \<times> bytes) option" where
  "bm_address_decode bn ssl address =
     (let b58_part = (if take 3 (c_str address) = lit ''BM-'' then drop 3 address else address)
      in case bm_base58_decode bn (Some b58_part) of
        None \<Rightarrow> None
      | Some data \<Rightarrow>
          if length data < 4 then None
          else
            let payload = take (length data - 4) data
            in if take 4 (bm_double_sha512 ssl payload) \<noteq> drop (length data - 4) data then None
            else case bm_varint_decode payload of
              None \<Rightarrow> None
            | Some (consumed, version) \<Rightarrow>
                if version < 2 \<or> 4 < version then None
                else case bm_varint_decode (drop consumed payload) of
                  None \<Rightarrow> None
                | Some (consumed2, stream) \<Rightarrow>
                    map_option (\<lambda>r. (version, stream, r))
                      (restore_ripe version (drop (consumed + consumed2) payload)))"

section \<open>Deterministic generation\<close>

record bm_generated_address =
  priv_signing :: bytes
  priv_encryption :: bytes
  pub_signing :: bytes
  pub_encryption :: bytes
  ripe :: bytes
  signing_nonce :: u64
  encryption_nonce :: u64

text \<open>One round of the search for given nonces: the keys and their RIPE, \<open>None\<close> when a key is refused.\<close>

definition address_candidate :: "openssl \<Rightarrow> bytes \<Rightarrow> u64 \<Rightarrow> u64 \<Rightarrow> bm_generated_address option" where
  "address_candidate ssl passphrase sn en =
     (let priv_sign = bm_address_derive_private_key ssl passphrase sn;
          priv_enc = bm_address_derive_private_key ssl passphrase en
      in case (bm_address_get_public_key ssl priv_sign, bm_address_get_public_key ssl priv_enc) of
           (Some pub_sign, Some pub_enc) \<Rightarrow>
             Some \<lparr>priv_signing = priv_sign, priv_encryption = priv_enc, pub_signing = pub_sign,
               pub_encryption = pub_enc, ripe = bm_address_calc_ripe ssl pub_sign pub_enc,
               signing_nonce = sn, encryption_nonce = en\<rparr>
         | _ \<Rightarrow> None)"

text \<open>
  The endless \<open>for\<close> loop; not returning is the outer \<open>None\<close>, the return value -1 is
  \<open>Some None\<close>. \<open>null_bytes\<close> is at most the length of a RIPE.
\<close>

partial_function (option) generate_loop ::
  "openssl \<Rightarrow> bytes \<Rightarrow> nat \<Rightarrow> u64 \<Rightarrow> u64 \<Rightarrow> bm_generated_address option option" where
  "generate_loop ssl passphrase null_bytes sn en =
     (case address_candidate ssl passphrase sn en of
        None \<Rightarrow> Some None
      | Some c \<Rightarrow>
          if list_all (\<lambda>b. b = 0) (take null_bytes (ripe c)) then Some (Some c)
          else generate_loop ssl passphrase null_bytes (sn + 2) (en + 2))"

definition bm_address_generate_deterministic ::
  "openssl \<Rightarrow> bytes \<Rightarrow> nat \<Rightarrow> bm_generated_address option option" where
  "bm_address_generate_deterministic ssl passphrase null_bytes = generate_loop ssl passphrase null_bytes 0 1"

section \<open>Lemmas\<close>

lemma trim_ripe_pad:
  assumes "length r = 20" "2 \<le> version" "version \<le> 4"
  shows "replicate (20 - length (trim_ripe version r)) 0 @ trim_ripe version r = r"
proof (cases "version = 4")
  case True
  then have "trim_ripe version r = dropWhile (\<lambda>b. b = 0) r"
    by (simp add: trim_ripe_def dropWhile_eq_drop)
  then show ?thesis using assms(1) replicate_dropWhile_zero [where xs = r and z = 0] by simp
next
  case False
  with assms(3) have v: "version < 4" by simp
  obtain a b r' where r: "r = a # b # r'"
    using assms(1) by (metis Suc_length_conv numeral_eq_Suc pred_numeral_simps(2)
        pred_numeral_simps(3))
  show ?thesis using assms(1,2) v by (auto simp: trim_ripe_def r numeral_eq_Suc)
qed

lemma length_trim_ripe: "length (trim_ripe version r) \<le> length r"
  by (auto simp: trim_ripe_def)

text \<open>What decoding does once Base58 is undone and the checksum holds.\<close>

lemma bm_address_decode_payload:
  assumes "bm_base58_decode bn (Some b) = Some (payload @ take 4 (bm_double_sha512 ssl payload))"
    and "digests_ok ssl" "0 \<notin> set b"
    and "payload = varint_octets version @ varint_octets stream @ t"
    and "2 \<le> version" "version \<le> 4" "length t \<le> 20"
    and "version = 4 \<longrightarrow> 4 \<le> length t \<and> t ! 0 \<noteq> 0"
  shows "bm_address_decode bn ssl (lit ''BM-'' @ b) = Some (version, stream, replicate (20 - length t) 0 @ t)"
proof -
  have "c_str (lit ''BM-'' @ b) = lit ''BM-'' @ b" using assms(3) by (intro c_str_id) auto
  moreover have "version = 2 \<or> version = 3 \<or> version = 4"
    using assms(5,6) unfolding word_le_nat_alt word_unat_eq_iff by simp linarith
  moreover have "drop (bm_varint_size version) payload = varint_octets stream @ t"
    "drop (bm_varint_size version + bm_varint_size stream) payload = t"
    unfolding assms(4) by (simp_all add: drop_append)
  ultimately show ?thesis
    using assms by (auto simp: bm_address_decode_def restore_ripe_def Let_def simp del: append_assoc)
qed

lemma varint_octets_hd: "2 \<le> v \<Longrightarrow> v \<le> 4 \<Longrightarrow> hd (varint_octets v @ xs) \<noteq> 0"
proof -
  assume v: "2 \<le> v" "v \<le> 4"
  then have "v < 0xfd" by (simp add: word_le_nat_alt word_less_nat_alt)
  moreover from this have "byte_at v 0 \<noteq> 0" using varint_small(2) [of v] v(1) by auto
  ultimately show ?thesis by (simp add: varint_octets_def)
qed

lemma dropWhile_zero_id: "xs \<noteq> [] \<Longrightarrow> hd xs \<noteq> 0 \<Longrightarrow> dropWhile (\<lambda>b. b = 0) xs = xs"
  by (cases xs) auto

lemma address_encode_returns: "\<exists>a. bm_address_encode ssl v st r = Done a \<and> (length r = 20 \<longrightarrow> (\<exists>s. a = Some (lit ''BM-'' @ s)))"
proof -
  let ?d = "(varint_octets v @ varint_octets st @ trim_ripe v r) @
    take 4 (bm_double_sha512 ssl (varint_octets v @ varint_octets st @ trim_ripe v r))"
  obtain a where "bm_base58_encode (Some ?d) = Done (Some a)" using bm_base58_encode_correct [of ?d] by auto
  then show ?thesis by (simp add: bm_address_encode_def Let_def)
qed

lemma bm_address_encode_decode:
  assumes bn: "bn_spec bn val" and ssl: "digests_ok ssl" and r: "length r = 20"
    and v: "2 \<le> version" "version \<le> 4"
    and v4: "version = 4 \<longrightarrow> 4 \<le> length (dropWhile (\<lambda>b. b = 0) r)"
  shows "\<exists>a. bm_address_encode ssl version stream r = Done (Some a) \<and>
    bm_address_decode bn ssl a = Some (version, stream, r)"
proof -
  let ?t = "trim_ripe version r"
  let ?p = "varint_octets version @ varint_octets stream @ ?t"
  let ?d = "?p @ take 4 (bm_double_sha512 ssl ?p)"
  have "?d \<noteq> []" by simp
  from bm_base58_roundtrip [OF bn this] obtain b
    where b: "bm_base58_encode (Some ?d) = Done (Some b)" "0 \<notin> set b"
      "bm_base58_decode bn (Some b) = Some (dropWhile (\<lambda>b. b = 0) ?d)" by blast
  have "hd ?d \<noteq> 0" using varint_octets_hd [OF v, of "varint_octets stream @ ?t @ _"] by simp
  then have dec: "bm_base58_decode bn (Some b) = Some ?d" using b(3) by (simp add: dropWhile_zero_id)
  have t4: "version = 4 \<longrightarrow> 4 \<le> length ?t \<and> ?t ! 0 \<noteq> 0"
  proof
    assume v4': "version = 4"
    then have t: "?t = dropWhile (\<lambda>b. b = 0) r" by (simp add: trim_ripe_def dropWhile_eq_drop)
    moreover from v4 v4' have "dropWhile (\<lambda>b. b = 0) r \<noteq> []"
      by (metis list.size(3) not_numeral_le_zero)
    ultimately show "4 \<le> length ?t \<and> ?t ! 0 \<noteq> 0"
      using v4 v4' hd_dropWhile [of "\<lambda>b. b = 0" r] by (auto simp: hd_conv_nth)
  qed
  have "bm_address_decode bn ssl (lit ''BM-'' @ b) = Some (version, stream, replicate (20 - length ?t) 0 @ ?t)"
    using dec ssl b(2) refl v _ t4
    by (rule bm_address_decode_payload) (use length_trim_ripe [of version r] r in simp)
  then show ?thesis
    using b(1) r trim_ripe_pad [OF r v] by (simp add: bm_address_encode_def Let_def)
qed

lemma restore_ripe_contents:
  assumes "restore_ripe version rd = Some r"
  shows "length r = 20 \<and> (version = 4 \<longrightarrow> 4 \<le> length (dropWhile (\<lambda>b. b = 0) r))"
proof -
  have "dropWhile (\<lambda>b. b = 0) (replicate n 0 @ rd) = rd" if "4 \<le> length rd" "rd ! 0 \<noteq> 0" for n
    using that by (simp add: dropWhile_replicate_append) (cases rd, auto)
  with assms show ?thesis by (auto simp: restore_ripe_def split: if_splits)
qed

text \<open>What an accepted address string guarantees about its contents.\<close>

lemma bm_address_decode_contents:
  assumes "bm_address_decode bn ssl a = Some (version, stream, r)"
  shows "2 \<le> version" "version \<le> 4" "length r = 20"
    "version = 4 \<longrightarrow> 4 \<le> length (dropWhile (\<lambda>b. b = 0) r)"
proof -
  obtain rd where "2 \<le> version" "version \<le> 4" "restore_ripe version rd = Some r"
    using assms by (auto simp: bm_address_decode_def Let_def not_less split: option.splits if_splits)
  then show "2 \<le> version" "version \<le> 4" "length r = 20"
    "version = 4 \<longrightarrow> 4 \<le> length (dropWhile (\<lambda>b. b = 0) r)"
    using restore_ripe_contents [of version rd r] by auto
qed

text \<open>The \<open>k\<close>-th round of the deterministic search.\<close>

abbreviation candidate_at :: "openssl \<Rightarrow> bytes \<Rightarrow> nat \<Rightarrow> bm_generated_address option" where
  "candidate_at ssl pass k \<equiv> address_candidate ssl pass (of_nat (2 * k)) (of_nat (2 * k + 1))"

abbreviation ripe_hit :: "nat \<Rightarrow> bm_generated_address \<Rightarrow> bool" where
  "ripe_hit n c \<equiv> list_all (\<lambda>b. b = 0) (take n (ripe c))"

lemma generate_loop_finds:
  assumes "candidate_at ssl pass k = Some c" "ripe_hit n c"
    and "\<And>i. m \<le> i \<Longrightarrow> i < k \<Longrightarrow> \<exists>c'. candidate_at ssl pass i = Some c' \<and> \<not> ripe_hit n c'"
    and "m \<le> k"
  shows "generate_loop ssl pass n (of_nat (2 * m)) (of_nat (2 * m + 1)) = Some (Some c)"
  using assms(4,3)
proof (induction rule: inc_induct)
  case base
  then show ?case using assms(1,2) by (simp add: generate_loop.simps)
next
  case (step m)
  have "generate_loop ssl pass n (of_nat (2 * Suc m)) (of_nat (2 * Suc m + 1)) = Some (Some c)"
    using step.prems by (intro step.IH) simp
  moreover obtain c' where "candidate_at ssl pass m = Some c'" "\<not> ripe_hit n c'"
    using step.prems [of m] step.hyps by auto
  ultimately show ?case
    by (subst generate_loop.simps) (simp add: algebra_simps)
qed

section \<open>Properties\<close>

text \<open>
  C16: an address string made by \<open>bm_address_encode\<close> decodes to the version, stream and RIPE it was
  made from, for versions 2 to 4; a version 4 RIPE must keep at least four bytes after its leading
  zeros, as the decoder demands.
\<close>

theorem address_roundtrip:
  assumes "bn_spec bn val" "digests_ok ssl" "length r = 20" "2 \<le> version" "version \<le> 4"
    and "version = 4 \<longrightarrow> 4 \<le> length (dropWhile (\<lambda>b. b = 0) r)"
  shows "\<exists>a. bm_address_encode ssl version stream r = Done (Some a) \<and>
    bm_address_decode bn ssl a = Some (version, stream, r)"
  using assms by (rule bm_address_encode_decode)

theorem address_roundtrip_witness:
  "\<exists>a. bm_address_encode plain_ssl 4 1 (replicate 2 0 @ replicate 18 9) = Done (Some a) \<and>
    bm_address_decode nat_bignum plain_ssl a = Some (4, 1, replicate 2 0 @ replicate 18 9)"
proof (rule address_roundtrip [OF nat_bignum_spec openssl_ok_digests [OF plain_ssl_ok]])
  show "4 = (4::u64) \<longrightarrow>
      4 \<le> length (dropWhile (\<lambda>b. b = 0) (replicate 2 0 @ replicate 18 9 :: bytes))"
    by (simp add: dropWhile_append)
qed simp_all

text \<open>
  Whatever string \<open>bm_address_decode\<close> accepts, its contents are an address of version 2 to 4
  with a 20-byte RIPE that \<open>bm_address_encode\<close> can print, and the printed form decodes to the same
  address.
\<close>

theorem address_decode_canonical:
  assumes "bn_spec bn val" "digests_ok ssl" "bm_address_decode bn ssl a = Some (version, stream, r)"
  shows "2 \<le> version \<and> version \<le> 4 \<and> length r = 20 \<and>
    (\<exists>a'. bm_address_encode ssl version stream r = Done (Some a') \<and>
       bm_address_decode bn ssl a' = Some (version, stream, r))"
  using bm_address_decode_contents [OF assms(3)] bm_address_encode_decode [OF assms(1,2)] by blast

theorem address_decode_canonical_witness:
  "\<exists>a a'. bm_address_decode nat_bignum plain_ssl a = Some (3, 1, replicate 20 9) \<and>
     bm_address_encode plain_ssl 3 1 (replicate 20 9) = Done (Some a')"
proof -
  have "\<exists>a. bm_address_encode plain_ssl 3 1 (replicate 20 9) = Done (Some a) \<and>
      bm_address_decode nat_bignum plain_ssl a = Some (3, 1, replicate 20 9)"
    by (rule bm_address_encode_decode [OF nat_bignum_spec openssl_ok_digests [OF plain_ssl_ok]]) simp_all
  then obtain a where a: "bm_address_decode nat_bignum plain_ssl a = Some (3, 1, replicate 20 9)"
    by blast
  show ?thesis
    using a address_decode_canonical [OF nat_bignum_spec openssl_ok_digests [OF plain_ssl_ok] a] by blast
qed

text \<open>
  The WIF string of a 32-byte private key decodes to that key.
\<close>

theorem wif_roundtrip:
  assumes "bn_spec bn val" "digests_ok ssl" "length priv = 32"
  shows "\<exists>w. bm_address_encode_wif ssl priv = Done (Some w) \<and>
    bm_address_decode_wif bn ssl w = Some priv"
proof -
  let ?raw = "0x80 # priv"
  let ?d = "?raw @ take 4 (bm_double_sha256 ssl ?raw)"
  have "dropWhile (\<lambda>b. b = 0) ?d = ?d" by simp
  with bm_base58_roundtrip [OF assms(1), of ?d] obtain w
    where "bm_base58_encode (Some ?d) = Done (Some w)" "bm_base58_decode bn (Some w) = Some ?d"
    by auto
  then show ?thesis
    using assms(2,3) by (simp add: bm_address_encode_wif_def bm_address_decode_wif_def Let_def)
qed

theorem wif_roundtrip_witness:
  "\<exists>w. bm_address_encode_wif plain_ssl (replicate 32 1) = Done (Some w) \<and>
    bm_address_decode_wif nat_bignum plain_ssl w = Some (replicate 32 1)"
  by (rule wif_roundtrip [OF nat_bignum_spec openssl_ok_digests [OF plain_ssl_ok]]) simp

text \<open>
  The deterministic search returns, and it returns the first nonce pair (2k, 2k + 1) whose RIPE
  starts with the wanted zero bytes, provided there is one and no earlier pair gives a key the
  curve code refuses.
\<close>

theorem generate_deterministic_first_hit:
  assumes "candidate_at ssl pass k = Some c" "ripe_hit n c"
    and "\<And>i. i < k \<Longrightarrow> \<exists>c'. candidate_at ssl pass i = Some c' \<and> \<not> ripe_hit n c'"
  shows "bm_address_generate_deterministic ssl pass n = Some (Some c) \<and>
    signing_nonce c = of_nat (2 * k) \<and> encryption_nonce c = signing_nonce c + 1 \<and>
    ripe c = bm_address_calc_ripe ssl (pub_signing c) (pub_encryption c)"
proof -
  have "generate_loop ssl pass n (of_nat (2 * 0)) (of_nat (2 * 0 + 1)) = Some (Some c)"
    using assms by (intro generate_loop_finds [of ssl pass k]) simp_all
  moreover have "signing_nonce c = of_nat (2 * k) \<and> encryption_nonce c = of_nat (2 * k + 1) \<and>
      ripe c = bm_address_calc_ripe ssl (pub_signing c) (pub_encryption c)"
    using assms(1) by (auto simp: address_candidate_def Let_def split: option.splits)
  ultimately show ?thesis by (simp add: bm_address_generate_deterministic_def add.commute)
qed

theorem generate_deterministic_first_hit_witness:
  "\<exists>c. bm_address_generate_deterministic plain_ssl [1] 0 = Some (Some c) \<and>
     signing_nonce c = 0 \<and> encryption_nonce c = 1"
proof -
  have key: "bm_address_get_public_key plain_ssl k = Some (4 # pad_to 64 k)" for k
    by (simp add: bm_address_get_public_key_def plain_ssl_def)
  have "candidate_at plain_ssl [1] 0 \<noteq> None"
    by (simp add: address_candidate_def Let_def key)
  then obtain c where c: "candidate_at plain_ssl [1] 0 = Some c" by blast
  have "bm_address_generate_deterministic plain_ssl [1] 0 = Some (Some c) \<and>
     signing_nonce c = of_nat (2 * 0) \<and> encryption_nonce c = signing_nonce c + 1 \<and>
     ripe c = bm_address_calc_ripe plain_ssl (pub_signing c) (pub_encryption c)"
    by (rule generate_deterministic_first_hit [OF c]) simp_all
  then show ?thesis by auto
qed

end
