(* ===== verification/Crypto.thy ===== *)
theory Crypto
  imports Address
begin

text \<open>
  \<open>src/core/crypto.c\<close>: the ECIES envelope of object payloads and ECDSA signatures. The bytes that
  \<open>RAND_bytes\<close> delivers are arguments, \<open>None\<close> when the call fails. \<open>None\<close> as a result is the
  return code -1.
\<close>

abbreviation ECIES_IV_LEN :: nat where "ECIES_IV_LEN \<equiv> 16"
abbreviation ECIES_PUBKEY_TLV_LEN :: nat where "ECIES_PUBKEY_TLV_LEN \<equiv> 70"
abbreviation ECIES_MAC_LEN :: nat where "ECIES_MAC_LEN \<equiv> 32"
abbreviation SECP256K1_CURVE_ID :: u16 where "SECP256K1_CURVE_ID \<equiv> 714"

section \<open>Key agreement and the point encoding\<close>

definition ecdh_shared_secret :: "openssl \<Rightarrow> bytes \<Rightarrow> bytes \<Rightarrow> bytes option" where
  "ecdh_shared_secret ssl priv pub = EC_mul_x ssl priv pub"

definition encode_pubkey_tlv :: "bytes \<Rightarrow> bytes" where
  "encode_pubkey_tlv pub =
     [byte_at SECP256K1_CURVE_ID 8, byte_at SECP256K1_CURVE_ID 0, 0x00, 0x20] @
     take 32 (drop 1 pub) @ [0x00, 0x20] @ take 32 (drop 33 pub)"

definition decode_pubkey_tlv :: "bytes \<Rightarrow> bytes option" where
  "decode_pubkey_tlv tlv =
     (let curve_id = push_bit 8 (ucast (tlv ! 0)) OR ucast (tlv ! 1) :: u16;
          len_x = push_bit 8 (ucast (tlv ! 2)) OR ucast (tlv ! 3) :: u16;
          len_y = push_bit 8 (ucast (tlv ! 36)) OR ucast (tlv ! 37) :: u16
      in if curve_id \<noteq> SECP256K1_CURVE_ID \<or> len_x \<noteq> 32 \<or> len_y \<noteq> 32 then None
         else Some (0x04 # take 32 (drop 4 tlv) @ take 32 (drop 38 tlv)))"

section \<open>AES-256-CBC\<close>

text \<open>
  The length argument of the \<open>EVP\<close> update calls is an \<open>int\<close>: the cast keeps the low 32 bits, and a
  negative length is refused.
\<close>

definition evp_input :: "bytes \<Rightarrow> bytes option" where
  "evp_input data =
     (let n = sint (word_of_nat (length data) :: u32)
      in if n < 0 then None else Some (take (nat n) data))"

definition aes256cbc_encrypt :: "openssl \<Rightarrow> bytes \<Rightarrow> bytes \<Rightarrow> bytes \<Rightarrow> bytes option" where
  "aes256cbc_encrypt ssl key iv plaintext =
     (case evp_input plaintext of None \<Rightarrow> None | Some d \<Rightarrow> AES_encrypt ssl key iv d)"

definition aes256cbc_decrypt :: "openssl \<Rightarrow> bytes \<Rightarrow> bytes \<Rightarrow> bytes \<Rightarrow> bytes option" where
  "aes256cbc_decrypt ssl key iv ciphertext =
     (case evp_input ciphertext of None \<Rightarrow> None | Some d \<Rightarrow> AES_decrypt ssl key iv d)"

section \<open>ECIES\<close>

definition bm_crypto_ecies_encrypt ::
  "openssl \<Rightarrow> bytes option \<Rightarrow> bytes option \<Rightarrow> bytes \<Rightarrow> bytes \<Rightarrow> bytes option" where
  "bm_crypto_ecies_encrypt ssl rand_priv rand_iv plaintext recipient_pub =
     (case rand_priv of
        None \<Rightarrow> None
      | Some eph_priv \<Rightarrow>
        (case bm_address_get_public_key ssl eph_priv of
           None \<Rightarrow> None
         | Some eph_pub \<Rightarrow>
           (case ecdh_shared_secret ssl eph_priv recipient_pub of
              None \<Rightarrow> None
            | Some shared \<Rightarrow>
                let k = bm_sha512 ssl shared; key_e = take 32 k; key_m = drop 32 k
                in case rand_iv of
                     None \<Rightarrow> None
                   | Some iv \<Rightarrow>
                     (case aes256cbc_encrypt ssl key_e iv plaintext of
                        None \<Rightarrow> None
                      | Some ciphertext \<Rightarrow>
                          let output = iv @ encode_pubkey_tlv eph_pub @ ciphertext
                          in Some (output @ bm_hmac_sha256 ssl key_m output)))))"

text \<open>The constant-time comparison: the OR of all byte differences.\<close>

definition mac_diff :: "bytes \<Rightarrow> bytes \<Rightarrow> byte" where
  "mac_diff computed mac = fold (\<lambda>i diff. diff OR (computed ! i XOR mac ! i)) [0..<ECIES_MAC_LEN] 0"

definition bm_crypto_ecies_decrypt :: "openssl \<Rightarrow> bytes \<Rightarrow> bytes \<Rightarrow> bytes option" where
  "bm_crypto_ecies_decrypt ssl ciphertext priv =
     (let prefix_len = ECIES_IV_LEN + ECIES_PUBKEY_TLV_LEN; n = length ciphertext
      in if n < prefix_len + ECIES_MAC_LEN then None
         else
           let iv = take ECIES_IV_LEN ciphertext;
               pub_tlv = take ECIES_PUBKEY_TLV_LEN (drop ECIES_IV_LEN ciphertext);
               enc_body = take (n - prefix_len - ECIES_MAC_LEN) (drop prefix_len ciphertext);
               mac = drop (n - ECIES_MAC_LEN) ciphertext
           in case decode_pubkey_tlv pub_tlv of
                None \<Rightarrow> None
              | Some eph_pub \<Rightarrow>
                (case ecdh_shared_secret ssl priv eph_pub of
                   None \<Rightarrow> None
                 | Some shared \<Rightarrow>
                     let k = bm_sha512 ssl shared; key_e = take 32 k; key_m = drop 32 k;
                         computed_mac = bm_hmac_sha256 ssl key_m (take (n - ECIES_MAC_LEN) ciphertext)
                     in if mac_diff computed_mac mac \<noteq> 0 then None
                        else aes256cbc_decrypt ssl key_e iv enc_body))"

section \<open>Signatures\<close>

definition build_ec_key :: "openssl \<Rightarrow> bytes option \<Rightarrow> bytes option \<Rightarrow> bool" where
  "build_ec_key ssl priv pub =
     ((case priv of None \<Rightarrow> True | Some p \<Rightarrow> EC_KEY_priv_ok ssl p) \<and>
      (case pub of None \<Rightarrow> True | Some p \<Rightarrow> EC_KEY_pub_ok ssl p))"

definition bm_crypto_sign :: "openssl \<Rightarrow> bytes \<Rightarrow> bytes \<Rightarrow> bytes option" where
  "bm_crypto_sign ssl data priv =
     (case bm_address_get_public_key ssl priv of
        None \<Rightarrow> None
      | Some pub \<Rightarrow>
          if \<not> build_ec_key ssl (Some priv) (Some pub) then None
          else ECDSA_sign ssl priv pub (bm_sha256 ssl data))"

definition bm_crypto_verify :: "openssl \<Rightarrow> bytes \<Rightarrow> bytes \<Rightarrow> bytes \<Rightarrow> bool" where
  "bm_crypto_verify ssl data sig pub =
     (if \<not> build_ec_key ssl None (Some pub) then False
      else ECDSA_verify ssl pub (bm_sha256 ssl data) sig)"

section \<open>Lemmas\<close>

lemma length_encode_pubkey_tlv [simp, wire]:
  "length pub = 65 \<Longrightarrow> length (encode_pubkey_tlv pub) = 70"
  by (simp add: encode_pubkey_tlv_def)

lemma decode_encode_pubkey_tlv [wire]:
  assumes "length pub = 65" "pub ! 0 = 4"
  shows "decode_pubkey_tlv (encode_pubkey_tlv pub) = Some pub"
proof -
  obtain p where p: "pub = 4 # p" "length p = 64" using assms by (cases pub) auto
  have curve: "push_bit 8 (ucast (byte_at SECP256K1_CURVE_ID 8)) OR
      ucast (byte_at SECP256K1_CURVE_ID 0) = SECP256K1_CURVE_ID"
    by (simp add: byte_at_def push_bit_eq_mult drop_bit_eq_div)
  have "take 32 p @ take 32 (drop 32 p) = p"
    using p(2) by simp
  then show ?thesis
    using p curve by (simp add: decode_pubkey_tlv_def encode_pubkey_tlv_def nth_append)
qed

lemma fold_or_zero: "fold (\<lambda>i d. d OR f i) xs (z :: 'a::len word) = 0 \<longleftrightarrow> z = 0 \<and> (\<forall>i\<in>set xs. f i = 0)"
  by (induction xs arbitrary: z) (auto simp: or_eq_0_iff)

lemma xor_eq_zero_iff: "a XOR b = 0 \<longleftrightarrow> a = (b :: 'a::len word)"
  by (metis xor.assoc xor.left_neutral xor_self_eq)

lemma mac_diff_zero_iff:
  "length a = 32 \<Longrightarrow> length b = 32 \<Longrightarrow> mac_diff a b = 0 \<longleftrightarrow> a = b"
  unfolding mac_diff_def fold_or_zero by (auto simp: list_eq_iff_nth_eq xor_eq_zero_iff)

lemma evp_input_small: "length d < 2 ^ 31 \<Longrightarrow> evp_input d = Some d"
proof -
  assume d: "length d < 2 ^ 31"
  then have "sint (word_of_nat (length d) :: u32) = int (length d)"
    by (simp add: signed_of_nat signed_take_bit_int_eq_self)
  then show ?thesis by (simp add: evp_input_def Let_def)
qed

lemma aes_roundtrip:
  assumes "openssl_ok ssl" "length d + 16 < 2 ^ 31" "aes256cbc_encrypt ssl k iv d = Some c"
  shows "aes256cbc_decrypt ssl k iv c = Some d"
proof -
  have d: "evp_input d = Some d" using assms(2) by (intro evp_input_small) simp
  with assms(3) have c: "AES_encrypt ssl k iv d = Some c" by (simp add: aes256cbc_encrypt_def)
  then have "AES_decrypt ssl k iv c = Some d \<and> length c \<le> length d + 16"
    by (rule openssl_aes [OF assms(1)])
  then show ?thesis using assms(2) by (simp add: aes256cbc_decrypt_def evp_input_small)
qed

lemma ecies_decrypt_envelope:
  assumes ok: "openssl_ok ssl"
    and iv: "length iv = 16" and pub: "length eph_pub = 65" "eph_pub ! 0 = 4"
    and shared: "ecdh_shared_secret ssl priv eph_pub = Some shared"
  shows "bm_crypto_ecies_decrypt ssl
      (let output = iv @ encode_pubkey_tlv eph_pub @ c
       in output @ bm_hmac_sha256 ssl (drop 32 (bm_sha512 ssl shared)) output) priv =
    aes256cbc_decrypt ssl (take 32 (bm_sha512 ssl shared)) iv c"
proof -
  note dig = openssl_ok_digests [OF ok]
  show ?thesis
    using iv pub shared dig
    by (simp add: bm_crypto_ecies_decrypt_def Let_def decode_encode_pubkey_tlv mac_diff_zero_iff)
qed

lemma public_key_shape:
  assumes "openssl_ok ssl" "bm_address_get_public_key ssl a = Some A"
  shows "EC_mul_G ssl a = Some A" "length A = 65" "A ! 0 = 4"
proof -
  show *: "EC_mul_G ssl a = Some A" "length A = 65"
    using assms(2) by (auto simp: bm_address_get_public_key_def split: option.splits if_splits)
  then show "A ! 0 = 4" by (rule openssl_point [OF assms(1)])
qed

text \<open>
  A message encrypted for the public key of \<open>priv\<close> decrypts under \<open>priv\<close> to itself.
\<close>

lemma ecies_decrypt_encrypt [wire]:
  assumes ok: "openssl_ok ssl" and pub: "bm_address_get_public_key ssl priv = Some pub"
    and iv: "length iv = 16" and small: "length m + 16 < 2 ^ 31"
    and enc: "bm_crypto_ecies_encrypt ssl rand_priv (Some iv) m pub = Some c"
  shows "bm_crypto_ecies_decrypt ssl c priv = Some m"
proof -
  from enc obtain e E sh ct where
    e: "bm_address_get_public_key ssl e = Some E" and
    sh: "ecdh_shared_secret ssl e pub = Some sh" and
    ct: "aes256cbc_encrypt ssl (take 32 (bm_sha512 ssl sh)) iv m = Some ct" and
    c: "c = (let output = iv @ encode_pubkey_tlv E @ ct
             in output @ bm_hmac_sha256 ssl (drop 32 (bm_sha512 ssl sh)) output)"
    by (auto simp: bm_crypto_ecies_encrypt_def Let_def split: option.splits)
  note P = public_key_shape [OF ok pub] and E = public_key_shape [OF ok e]
  have "EC_mul_x ssl priv E = EC_mul_x ssl e pub"
    by (rule openssl_ecdh [OF ok P(1,2) E(1,2)])
  then have "ecdh_shared_secret ssl priv E = Some sh" using sh by (simp add: ecdh_shared_secret_def)
  from ecies_decrypt_envelope [OF ok iv E(2,3) this] show ?thesis
    using aes_roundtrip [OF ok small ct] c by simp
qed

lemma verify_sign [wire]:
  assumes "openssl_ok ssl" "bm_address_get_public_key ssl priv = Some pub"
    "bm_crypto_sign ssl d priv = Some s"
  shows "bm_crypto_verify ssl d s pub"
proof -
  note P = public_key_shape [OF assms(1,2)]
  have k: "EC_KEY_pub_ok ssl pub" "ECDSA_sign ssl priv pub (bm_sha256 ssl d) = Some s"
    using assms(2,3) by (auto simp: bm_crypto_sign_def build_ec_key_def split: if_splits)
  then have "ECDSA_verify ssl pub (bm_sha256 ssl d) s"
    by (intro openssl_ecdsa [OF assms(1) P(1,2)])
  then show ?thesis using k(1) by (simp add: bm_crypto_verify_def build_ec_key_def)
qed

lemma sign_length: "openssl_ok ssl \<Longrightarrow> bm_crypto_sign ssl d priv = Some s \<Longrightarrow> length s \<le> 72"
  by (auto simp: bm_crypto_sign_def split: option.splits if_splits dest: openssl_sig_len)

text \<open>The instance of the OpenSSL contract never fails.\<close>

lemma plain_public_key: "bm_address_get_public_key plain_ssl k = Some (4 # pad_to 64 k)"
  by (simp add: bm_address_get_public_key_def plain_ssl_def)

lemma plain_sign: "\<exists>s. bm_crypto_sign plain_ssl d k = Some s"
  by (simp add: bm_crypto_sign_def plain_public_key build_ec_key_def) (simp add: plain_ssl_def)

lemma plain_encrypt: "length m < 2 ^ 31 \<Longrightarrow>
    \<exists>c. bm_crypto_ecies_encrypt plain_ssl (Some e) (Some iv) m pub = Some c"
proof -
  assume "length m < 2 ^ 31"
  then have "aes256cbc_encrypt plain_ssl k iv m = Some m" for k
    by (simp add: aes256cbc_encrypt_def evp_input_small plain_ssl_def)
  moreover have "ecdh_shared_secret plain_ssl e pub = Some (replicate 32 7)"
    by (simp add: ecdh_shared_secret_def plain_ssl_def)
  ultimately show ?thesis by (simp add: bm_crypto_ecies_encrypt_def plain_public_key Let_def)
qed

section \<open>Properties\<close>

text \<open>
  A payload encrypted by \<open>bm_crypto_ecies_encrypt\<close> for the public key of \<open>priv\<close> is recovered
  exactly by \<open>bm_crypto_ecies_decrypt\<close> with \<open>priv\<close>, whatever ephemeral key and initialisation
  vector were drawn, for payloads whose padded length fits an \<open>int\<close>.
\<close>

theorem ecies_roundtrip:
  assumes "openssl_ok ssl" "bm_address_get_public_key ssl priv = Some pub"
    "length iv = 16" "length m + 16 < 2 ^ 31"
    "bm_crypto_ecies_encrypt ssl rand_priv (Some iv) m pub = Some c"
  shows "bm_crypto_ecies_decrypt ssl c priv = Some m"
  using assms by (rule ecies_decrypt_encrypt)

theorem ecies_roundtrip_witness:
  "\<exists>pub c. bm_address_get_public_key plain_ssl (replicate 32 5) = Some pub \<and>
     bm_crypto_ecies_encrypt plain_ssl (Some (replicate 32 3)) (Some (replicate 16 1)) [1, 2, 3] pub
       = Some c \<and>
     bm_crypto_ecies_decrypt plain_ssl c (replicate 32 5) = Some [1, 2, 3]"
proof -
  define pub :: bytes where "pub = 4 # pad_to 64 (replicate 32 5)"
  have pub: "bm_address_get_public_key plain_ssl (replicate 32 5) = Some pub"
    by (simp add: bm_address_get_public_key_def plain_ssl_def pub_def)
  have "bm_crypto_ecies_encrypt plain_ssl (Some (replicate 32 3)) (Some (replicate 16 1)) [1, 2, 3] pub
      \<noteq> None"
    by (simp add: bm_crypto_ecies_encrypt_def bm_address_get_public_key_def ecdh_shared_secret_def
        aes256cbc_encrypt_def evp_input_small Let_def plain_ssl_def)
  then obtain c where
    c: "bm_crypto_ecies_encrypt plain_ssl (Some (replicate 32 3)) (Some (replicate 16 1)) [1, 2, 3] pub
      = Some c" by blast
  show ?thesis using pub c ecies_roundtrip [OF plain_ssl_ok pub _ _ c] by simp
qed

text \<open>
  \<open>bm_crypto_ecies_decrypt\<close> returns a plaintext only for an envelope of at least 118 bytes whose
  last 32 bytes are exactly the HMAC of everything before them, under the MAC key derived from the
  shared secret of \<open>priv\<close> and the point in the envelope: no byte of the envelope can be changed
  without a new HMAC.
\<close>

theorem ecies_decrypt_authenticated:
  assumes "digests_ok ssl" "bm_crypto_ecies_decrypt ssl c priv = Some m"
  shows "118 \<le> length c \<and> (\<exists>eph shared.
    decode_pubkey_tlv (take 70 (drop 16 c)) = Some eph \<and>
    ecdh_shared_secret ssl priv eph = Some shared \<and>
    drop (length c - 32) c =
      bm_hmac_sha256 ssl (drop 32 (bm_sha512 ssl shared)) (take (length c - 32) c))"
  using assms
  by (auto simp: bm_crypto_ecies_decrypt_def Let_def mac_diff_zero_iff split: if_splits option.splits)

theorem ecies_decrypt_authenticated_witness:
  "\<exists>c m. bm_crypto_ecies_decrypt plain_ssl c [5] = Some m \<and> 118 \<le> length c"
proof -
  define E :: bytes where "E = 4 # replicate 64 2"
  have "ecdh_shared_secret plain_ssl [5] E = Some (replicate 32 7)"
    by (simp add: ecdh_shared_secret_def plain_ssl_def)
  from ecies_decrypt_envelope [OF plain_ssl_ok _ _ _ this, of "replicate 16 1" "[1, 2]"]
  obtain c where "bm_crypto_ecies_decrypt plain_ssl c [5] =
      aes256cbc_decrypt plain_ssl (take 32 (bm_sha512 plain_ssl (replicate 32 7))) (replicate 16 1) [1, 2]"
    by (auto simp: E_def)
  then have c: "bm_crypto_ecies_decrypt plain_ssl c [5] = Some [1, 2]"
    by (simp add: aes256cbc_decrypt_def evp_input_small plain_ssl_def)
  show ?thesis
    using c ecies_decrypt_authenticated [OF openssl_ok_digests [OF plain_ssl_ok] c] by blast
qed

text \<open>
  a signature made by \<open>bm_crypto_sign\<close> is accepted by \<open>bm_crypto_verify\<close> with the public key
  of the signing key, on the same data.
\<close>

theorem sign_verify:
  assumes "openssl_ok ssl" "bm_address_get_public_key ssl priv = Some pub"
    "bm_crypto_sign ssl d priv = Some s"
  shows "bm_crypto_verify ssl d s pub"
  using assms by (rule verify_sign)

theorem sign_verify_witness:
  "bm_crypto_verify plain_ssl [1, 2] (take 8 (bm_sha256 plain_ssl [1, 2])) (4 # pad_to 64 [9])"
proof (rule sign_verify [OF plain_ssl_ok, where priv = "[9]"])
  show "bm_address_get_public_key plain_ssl [9] = Some (4 # pad_to 64 [9])"
    by (simp add: bm_address_get_public_key_def plain_ssl_def)
  then show "bm_crypto_sign plain_ssl [1, 2] [9] = Some (take 8 (bm_sha256 plain_ssl [1, 2]))"
    by (simp add: bm_crypto_sign_def build_ec_key_def) (simp add: plain_ssl_def)
qed

end
