(* ===== verification/Objects.thy ===== *)
theory Objects
  imports Crypto
begin

text \<open>
  The objects of the network: their common header (\<open>src/infra/object.c\<close>) and the builders of
  getpubkey, pubkey, msg, broadcast, acknowledgement and onionpeer objects
  (\<open>src/core/message_builder.c\<close>), on the growing buffer the builders use. A builder's \<open>None\<close> is NULL;
  the bytes that \<open>RAND_bytes\<close> delivers are arguments.
\<close>

abbreviation BM_OBJECT_GETPUBKEY :: u32 where "BM_OBJECT_GETPUBKEY \<equiv> 0"
abbreviation BM_OBJECT_PUBKEY :: u32 where "BM_OBJECT_PUBKEY \<equiv> 1"
abbreviation BM_OBJECT_MSG :: u32 where "BM_OBJECT_MSG \<equiv> 2"
abbreviation BM_OBJECT_BROADCAST :: u32 where "BM_OBJECT_BROADCAST \<equiv> 3"
abbreviation BM_OBJECT_ONIONPEER :: u32 where "BM_OBJECT_ONIONPEER \<equiv> 0x746f72"
abbreviation BM_OBJECT_I2P :: u32 where "BM_OBJECT_I2P \<equiv> 0x493250"

section \<open>The object header\<close>

record bm_object_header =
  oh_nonce :: u64
  oh_expires_time :: u64
  oh_object_type :: u32
  oh_version :: u64
  oh_stream :: u64
  header_len :: nat

definition obj_read_be32 :: "bytes \<Rightarrow> u32" where
  "obj_read_be32 p =
     push_bit 24 (ucast (p ! 0)) OR push_bit 16 (ucast (p ! 1)) OR push_bit 8 (ucast (p ! 2)) OR ucast (p ! 3)"

definition obj_read_be64 :: "bytes \<Rightarrow> u64" where
  "obj_read_be64 p = fold (\<lambda>i v. push_bit 8 v OR ucast (p ! i)) [0..<8] 0"

definition bm_object_parse_header :: "bytes \<Rightarrow> bm_object_header option" where
  "bm_object_parse_header data =
     (if length data < 8 + 8 + 4 then None
      else case bm_varint_decode (drop 20 data) of
        None \<Rightarrow> None
      | Some (consumed, version) \<Rightarrow>
          (case bm_varint_decode (drop (20 + consumed) data) of
             None \<Rightarrow> None
           | Some (consumed2, stream) \<Rightarrow>
               Some \<lparr>oh_nonce = obj_read_be64 data, oh_expires_time = obj_read_be64 (drop 8 data),
                 oh_object_type = obj_read_be32 (drop 16 data), oh_version = version,
                 oh_stream = stream, header_len = 20 + consumed + consumed2\<rparr>))"

section \<open>The growing buffer\<close>

text \<open>\<open>bb_data\<close> is the part in use (\<open>len\<close> bytes), \<open>cap\<close> the allocated size.\<close>

record bytebuf =
  bb_data :: bytes
  cap :: nat

definition bb_init :: bytebuf where
  "bb_init = \<lparr>bb_data = [], cap = 0\<rparr>"

text \<open>The doubling loop; the capacity it starts from is never 0.\<close>

function grow_cap :: "nat \<Rightarrow> nat \<Rightarrow> nat" where
  "grow_cap new_cap need = (if new_cap = 0 \<or> need \<le> new_cap then new_cap else grow_cap (new_cap * 2) need)"
  by auto
termination
  by (relation "measure (\<lambda>(n, need). need - n)") auto

declare grow_cap.simps [simp del]

definition bb_reserve :: "bytebuf \<Rightarrow> nat \<Rightarrow> bytebuf" where
  "bb_reserve b additional =
     (if length (bb_data b) + additional \<le> cap b then b
      else b\<lparr>cap := grow_cap (if cap b = 0 then 64 else cap b) (length (bb_data b) + additional)\<rparr>)"

definition bb_append :: "bytebuf \<Rightarrow> bytes \<Rightarrow> bytebuf" where
  "bb_append b data =
     (if length data = 0 then b
      else let b' = bb_reserve b (length data) in b'\<lparr>bb_data := bb_data b' @ data\<rparr>)"

definition bb_append_be64 :: "bytebuf \<Rightarrow> u64 \<Rightarrow> bytebuf" where
  "bb_append_be64 b v = bb_append b (be64 v)"

definition bb_append_be32 :: "bytebuf \<Rightarrow> u32 \<Rightarrow> bytebuf" where
  "bb_append_be32 b v = bb_append b (be32 v)"

definition bb_append_varint :: "bytebuf \<Rightarrow> u64 \<Rightarrow> bytebuf" where
  "bb_append_varint b v = bb_append b (varint_octets v)"

definition bb_append_varbytes :: "bytebuf \<Rightarrow> bytes \<Rightarrow> bytebuf" where
  "bb_append_varbytes b data = bb_append (bb_append_varint b (word_of_nat (length data))) data"

definition bb_take :: "bytebuf \<Rightarrow> bytes" where
  "bb_take b = bb_data b"

section \<open>Common parts\<close>

definition append_common_header :: "bytebuf \<Rightarrow> u64 \<Rightarrow> u32 \<Rightarrow> u64 \<Rightarrow> u64 \<Rightarrow> bytebuf" where
  "append_common_header b expires_time object_type version stream =
     bb_append_varint (bb_append_varint (bb_append_be32 (bb_append_be64 b expires_time) object_type) version) stream"

definition append_bitfield :: "bytebuf \<Rightarrow> bool \<Rightarrow> bytebuf" where
  "append_bitfield b does_ack = bb_append_be32 b (if does_ack then 1 else 0)"

definition append_pubkey64 :: "bytebuf \<Rightarrow> bytes \<Rightarrow> bytebuf" where
  "append_pubkey64 b pub65 = bb_append b (take 64 (drop 1 pub65))"

definition append_simple_encoded_message :: "bytebuf \<Rightarrow> bytes \<Rightarrow> bytes \<Rightarrow> bytebuf" where
  "append_simple_encoded_message b subject body =
     (let msg = bb_append (bb_append (bb_append (bb_append bb_init
                  (lit ''Subject:'')) (c_str subject)) (0x0a # lit ''Body:'')) (c_str body)
      in bb_append_varbytes (bb_append_varint b 2) (bb_data msg))"

record bm_identity_info =
  ii_address_version :: u64
  ii_stream :: u64
  ii_pub_signing :: bytes
  ii_pub_encryption :: bytes
  ii_priv_signing :: bytes
  ii_nonce_trials_per_byte :: u64
  ii_payload_length_extra_bytes :: u64
  ii_does_ack :: bool

section \<open>getpubkey and pubkey\<close>

definition bm_build_getpubkey :: "openssl \<Rightarrow> u64 \<Rightarrow> u64 \<Rightarrow> bytes \<Rightarrow> u64 \<Rightarrow> bytes" where
  "bm_build_getpubkey ssl address_version stream r expires_time =
     (let b = append_common_header bb_init expires_time BM_OBJECT_GETPUBKEY address_version stream
      in bb_take (if address_version \<le> 3 then bb_append b (take 20 r)
                  else bb_append b (snd (bm_address_derive_secret_and_tag ssl address_version stream r))))"

definition bm_build_pubkey_v2 :: "bm_identity_info \<Rightarrow> u64 \<Rightarrow> bytes" where
  "bm_build_pubkey_v2 ident expires_time =
     (let b = append_common_header bb_init expires_time BM_OBJECT_PUBKEY 2 (ii_stream ident)
      in bb_take (append_pubkey64 (append_pubkey64 (append_bitfield b (ii_does_ack ident))
           (ii_pub_signing ident)) (ii_pub_encryption ident)))"

text \<open>The key data of a pubkey of version 3 and later.\<close>

definition append_key_data :: "bytebuf \<Rightarrow> bm_identity_info \<Rightarrow> bytebuf" where
  "append_key_data b ident =
     bb_append_varint (bb_append_varint (append_pubkey64 (append_pubkey64
       (append_bitfield b (ii_does_ack ident)) (ii_pub_signing ident)) (ii_pub_encryption ident))
       (ii_nonce_trials_per_byte ident)) (ii_payload_length_extra_bytes ident)"

definition bm_build_pubkey_v3 :: "openssl \<Rightarrow> bm_identity_info \<Rightarrow> u64 \<Rightarrow> bytes option" where
  "bm_build_pubkey_v3 ssl ident expires_time =
     (let b = append_key_data (append_common_header bb_init expires_time BM_OBJECT_PUBKEY 3 (ii_stream ident)) ident
      in case bm_crypto_sign ssl (bb_data b) (ii_priv_signing ident) of
           None \<Rightarrow> None
         | Some sig \<Rightarrow> Some (bb_take (bb_append_varbytes b sig)))"

type_synonym ecies_random = "bytes option \<times> bytes option"

definition bm_build_pubkey_v4 ::
  "openssl \<Rightarrow> ecies_random \<Rightarrow> bm_identity_info \<Rightarrow> bytes \<Rightarrow> u64 \<Rightarrow> bytes option" where
  "bm_build_pubkey_v4 ssl rnd ident r expires_time =
     (let (priv_enc, tag) = bm_address_derive_secret_and_tag ssl 4 (ii_stream ident) r;
          plain = bb_append (append_common_header bb_init expires_time BM_OBJECT_PUBKEY 4 (ii_stream ident)) tag;
          to_encrypt = append_key_data bb_init ident;
          to_sign = bb_append (bb_append bb_init (bb_data plain)) (bb_data to_encrypt)
      in case bm_crypto_sign ssl (bb_data to_sign) (ii_priv_signing ident) of
           None \<Rightarrow> None
         | Some sig \<Rightarrow>
             let to_encrypt' = bb_append_varbytes to_encrypt sig
             in case bm_address_get_public_key ssl priv_enc of
                  None \<Rightarrow> None
                | Some pub_enc \<Rightarrow>
                    (case bm_crypto_ecies_encrypt ssl (fst rnd) (snd rnd) (bb_data to_encrypt') pub_enc of
                       None \<Rightarrow> None
                     | Some ciphertext \<Rightarrow> Some (bb_take (bb_append plain ciphertext))))"

section \<open>msg and broadcast\<close>

text \<open>The sender fields at the start of the encrypted part.\<close>

definition append_sender :: "bytebuf \<Rightarrow> bm_identity_info \<Rightarrow> bytebuf" where
  "append_sender b from =
     (let b1 = append_pubkey64 (append_pubkey64 (append_bitfield
                 (bb_append_varint (bb_append_varint b (ii_address_version from)) (ii_stream from))
                 (ii_does_ack from)) (ii_pub_signing from)) (ii_pub_encryption from)
      in if 3 \<le> ii_address_version from
         then bb_append_varint (bb_append_varint b1 (ii_nonce_trials_per_byte from)) (ii_payload_length_extra_bytes from)
         else b1)"

definition bm_build_msg ::
  "openssl \<Rightarrow> ecies_random \<Rightarrow> bm_identity_info \<Rightarrow> u64 \<Rightarrow> bytes \<Rightarrow> bytes \<Rightarrow> bytes \<Rightarrow> bytes \<Rightarrow> bytes option
     \<Rightarrow> u64 \<Rightarrow> bytes option" where
  "bm_build_msg ssl rnd from to_stream to_ripe to_pub_encryption subject body ack_payload expires_time =
     (let header = append_common_header bb_init expires_time BM_OBJECT_MSG 1 to_stream;
          payload = bb_append_varbytes (append_simple_encoded_message
            (bb_append (append_sender bb_init from) (take 20 to_ripe)) subject body)
            (case ack_payload of None \<Rightarrow> [] | Some a \<Rightarrow> a);
          to_sign = bb_append (bb_append bb_init (bb_data header)) (bb_data payload)
      in case bm_crypto_sign ssl (bb_data to_sign) (ii_priv_signing from) of
           None \<Rightarrow> None
         | Some sig \<Rightarrow>
             (case bm_crypto_ecies_encrypt ssl (fst rnd) (snd rnd) (bb_data (bb_append_varbytes payload sig))
                     to_pub_encryption of
                None \<Rightarrow> None
              | Some ciphertext \<Rightarrow> Some (bb_take (bb_append header ciphertext))))"

definition bm_build_broadcast ::
  "openssl \<Rightarrow> ecies_random \<Rightarrow> bm_identity_info \<Rightarrow> bytes \<Rightarrow> bytes \<Rightarrow> bytes \<Rightarrow> u64 \<Rightarrow> bytes option" where
  "bm_build_broadcast ssl rnd from from_ripe subject body expires_time =
     (let is_v5 = 4 \<le> ii_address_version from;
          object_version = (if is_v5 then 5 else 4);
          header = append_common_header bb_init expires_time BM_OBJECT_BROADCAST object_version (ii_stream from);
          (priv_enc, tag) = bm_address_derive_secret_and_tag ssl (ii_address_version from) (ii_stream from) from_ripe;
          plain = (if is_v5 then bb_append header tag else header);
          to_encrypt = append_simple_encoded_message (append_sender bb_init from) subject body;
          to_sign = bb_append (bb_append bb_init (bb_data plain)) (bb_data to_encrypt)
      in case bm_crypto_sign ssl (bb_data to_sign) (ii_priv_signing from) of
           None \<Rightarrow> None
         | Some sig \<Rightarrow>
             let to_encrypt' = bb_append_varbytes to_encrypt sig
             in case bm_address_get_public_key ssl priv_enc of
                  None \<Rightarrow> None
                | Some pub_enc \<Rightarrow>
                    (case bm_crypto_ecies_encrypt ssl (fst rnd) (snd rnd) (bb_data to_encrypt') pub_enc of
                       None \<Rightarrow> None
                     | Some ciphertext \<Rightarrow> Some (bb_take (bb_append plain ciphertext))))"

section \<open>Acknowledgements\<close>

definition ack_header :: "u32 \<Rightarrow> u64 \<Rightarrow> u64 \<Rightarrow> bytebuf" where
  "ack_header object_type version stream =
     bb_append_varint (bb_append_varint (bb_append_be32 bb_init object_type) version) stream"

definition build_ack_level0 :: "bytes option \<Rightarrow> u64 \<Rightarrow> bytes option" where
  "build_ack_level0 random32 stream =
     map_option (\<lambda>r. bb_take (bb_append (ack_header BM_OBJECT_MSG 1 stream) r)) random32"

definition build_ack_level1 :: "bytes option \<Rightarrow> u64 \<Rightarrow> bytes option" where
  "build_ack_level1 random32 stream =
     map_option (\<lambda>r. bb_take (bb_append (ack_header BM_OBJECT_GETPUBKEY 4 stream) r)) random32"

text \<open>\<open>dummy_message n\<close> is what the third \<open>RAND_bytes\<close> call stores for \<open>n\<close> bytes.\<close>

definition build_ack_level2 ::
  "openssl \<Rightarrow> bytes option \<Rightarrow> u32 option \<Rightarrow> (nat \<Rightarrow> bytes option) \<Rightarrow> ecies_random \<Rightarrow> u64 \<Rightarrow> bytes option" where
  "build_ack_level2 ssl dummy_priv rand_len_seed dummy_message rnd stream =
     (case dummy_priv of None \<Rightarrow> None | Some priv \<Rightarrow>
      (case bm_address_get_public_key ssl priv of None \<Rightarrow> None | Some dummy_pub \<Rightarrow>
       (case rand_len_seed of None \<Rightarrow> None | Some seed \<Rightarrow>
        (case dummy_message (234 + unat seed mod (800 - 234 + 1)) of None \<Rightarrow> None | Some dummy \<Rightarrow>
         (case bm_crypto_ecies_encrypt ssl (fst rnd) (snd rnd) dummy dummy_pub of None \<Rightarrow> None | Some ciphertext \<Rightarrow>
            Some (bb_take (bb_append (ack_header BM_OBJECT_MSG 1 stream) ciphertext)))))))"

definition bm_build_ack_object ::
  "openssl \<Rightarrow> bytes option \<Rightarrow> u32 option \<Rightarrow> (nat \<Rightarrow> bytes option) \<Rightarrow> ecies_random \<Rightarrow> int \<Rightarrow> u64 \<Rightarrow> bytes option" where
  "bm_build_ack_object ssl random32 rand_len_seed dummy_message rnd stealth_level stream =
     (if stealth_level = 1 then build_ack_level1 random32 stream
      else if stealth_level = 2 then build_ack_level2 ssl random32 rand_len_seed dummy_message rnd stream
      else build_ack_level0 random32 stream)"

section \<open>onionpeer\<close>

definition base32_value :: "byte \<Rightarrow> u64 option" where
  "base32_value c =
     (if 0x61 \<le> c \<and> c \<le> 0x7a then Some (ucast (c - 0x61))
      else if 0x32 \<le> c \<and> c \<le> 0x37 then Some (ucast (c - 0x32) + 26)
      else None)"

fun base32_loop :: "bytes \<Rightarrow> u64 \<Rightarrow> nat \<Rightarrow> bytes option" where
  "base32_loop [] buffer bits = Some []"
| "base32_loop (c # cs) buffer bits =
     (case base32_value c of
        None \<Rightarrow> None
      | Some val \<Rightarrow>
          let buffer' = push_bit 5 buffer OR val
          in if 8 \<le> bits + 5
             then map_option ((#) (byte_at buffer' (bits + 5 - 8))) (base32_loop cs buffer' (bits + 5 - 8))
             else base32_loop cs buffer' (bits + 5))"

definition base32_decode_lower :: "bytes \<Rightarrow> bytes" where
  "base32_decode_lower input = (case base32_loop input 0 0 of None \<Rightarrow> [] | Some out \<Rightarrow> out)"

definition bm_build_onionpeer :: "bytes \<Rightarrow> u16 \<Rightarrow> u64 \<Rightarrow> u64 \<Rightarrow> bytes option" where
  "bm_build_onionpeer onion_address port stream expires_time =
     (if strlen onion_address \<noteq> 56 + 6 \<or> c_str (drop 56 onion_address) \<noteq> lit ''.onion'' then None
      else
        let key_bytes = base32_decode_lower (take 56 onion_address)
        in if length key_bytes \<noteq> 35 then None
           else Some (bb_take (bb_append (bb_append (bb_append_varint
             (append_common_header bb_init expires_time BM_OBJECT_ONIONPEER 1 stream) (ucast port))
             [0xfd, 0x87, 0xd8, 0x7e, 0xeb, 0x43]) key_bytes)))"

section \<open>Lemmas\<close>

lemma grow_cap_enough: "0 < n \<Longrightarrow> need \<le> grow_cap n need \<and> n \<le> grow_cap n need"
proof (induction n need rule: grow_cap.induct)
  case (1 n need)
  then show ?case by (subst grow_cap.simps, subst (2) grow_cap.simps) force
qed

text \<open>The buffer never holds more than it has room for.\<close>

definition bb_ok :: "bytebuf \<Rightarrow> bool" where
  "bb_ok b \<longleftrightarrow> length (bb_data b) \<le> cap b"

lemma bb_ok_append: "bb_ok b \<Longrightarrow> bb_ok (bb_append b d) \<and> length (bb_data b) + length d \<le> cap (bb_append b d)"
  using grow_cap_enough [of "if cap b = 0 then 64 else cap b" "length (bb_data b) + length d"]
  by (auto simp: bb_ok_def bb_append_def bb_reserve_def Let_def)

lemma bb_data_init [simp]: "bb_data bb_init = []"
  by (simp add: bb_init_def)

lemma bb_data_append [simp]: "bb_data (bb_append b d) = bb_data b @ d"
  by (simp add: bb_append_def bb_reserve_def Let_def)

lemma bb_data_appends [simp]:
  "bb_data (bb_append_be64 b v) = bb_data b @ be64 v"
  "bb_data (bb_append_be32 b w) = bb_data b @ be32 w"
  "bb_data (bb_append_varint b v) = bb_data b @ varint_octets v"
  "bb_data (bb_append_varbytes b d) = bb_data b @ varint_octets (word_of_nat (length d)) @ d"
  by (simp_all add: bb_append_be64_def bb_append_be32_def bb_append_varint_def bb_append_varbytes_def)

lemma take_map_nth: "n \<le> length xs \<Longrightarrow> map ((!) xs) [0..<n] = take n xs"
  by (simp add: list_eq_iff_nth_eq)

lemma obj_read_be64_join: "8 \<le> length p \<Longrightarrow> obj_read_be64 p = be_join (take 8 p)"
  unfolding obj_read_be64_def be_join_def
  by (subst take_map_nth [symmetric]) (auto simp: fold_map comp_def)

lemma obj_read_be32_join: "4 \<le> length p \<Longrightarrow> obj_read_be32 p = be_join (take 4 p)"
  by (subst take_map_nth [symmetric])
    (simp_all add: obj_read_be32_def be_join_Cons upt_rec or.assoc numeral_2_eq_2 numeral_3_eq_3)

lemma obj_read_append [simp, wire]:
  "obj_read_be64 (be64 v @ rest) = v" "obj_read_be32 (be32 w @ rest) = w"
  by (simp_all add: obj_read_be64_join obj_read_be32_join)

text \<open>The header without its nonce, as the builders write it.\<close>

definition common_header :: "u64 \<Rightarrow> u32 \<Rightarrow> u64 \<Rightarrow> u64 \<Rightarrow> bytes" where
  "common_header expires_time object_type version stream =
     be64 expires_time @ be32 object_type @ varint_octets version @ varint_octets stream"

lemma append_common_header_data [simp]:
  "bb_data (append_common_header b e t v s) = bb_data b @ common_header e t v s"
  by (simp add: append_common_header_def common_header_def)

lemma length_common_header [simp]:
  "length (common_header e t v s) = 12 + bm_varint_size v + bm_varint_size s"
  by (simp add: common_header_def)

lemma bm_object_parse_common_header [wire]:
  "bm_object_parse_header (be64 n @ common_header e t v s @ rest) =
    Some \<lparr>oh_nonce = n, oh_expires_time = e, oh_object_type = t, oh_version = v, oh_stream = s,
      header_len = 20 + bm_varint_size v + bm_varint_size s\<rparr>"
proof -
  let ?d = "be64 n @ common_header e t v s @ rest"
  have d20: "drop 20 ?d = varint_octets v @ varint_octets s @ rest"
    "drop (20 + bm_varint_size v) ?d = varint_octets s @ rest" by (simp_all add: common_header_def)
  have "obj_read_be64 ?d = n" "obj_read_be64 (drop 8 ?d) = e" "obj_read_be32 (drop 16 ?d) = t"
    by (simp_all add: common_header_def)
  with d20 show ?thesis unfolding bm_object_parse_header_def by simp
qed

text \<open>What an accepted header says: it lies inside the data.\<close>

lemma bm_object_parse_header_len:
  assumes "bm_object_parse_header data = Some h"
  shows "22 \<le> header_len h \<and> header_len h \<le> 38 \<and> header_len h \<le> length data"
proof -
  obtain c v c' s where d: "20 \<le> length data" "bm_varint_decode (drop 20 data) = Some (c, v)"
    "bm_varint_decode (drop (20 + c) data) = Some (c', s)" "header_len h = 20 + c + c'"
    using assms by (auto simp: bm_object_parse_header_def split: if_splits option.splits)
  from bm_varint_decode_take [OF d(2)] bm_varint_decode_take [OF d(3)] show ?thesis
    using d(1,4) by auto
qed

lemma append_bitfield_data [simp]:
  "bb_data (append_bitfield b a) = bb_data b @ be32 (if a then 1 else 0)"
  by (simp add: append_bitfield_def)

lemma append_pubkey64_data [simp]: "bb_data (append_pubkey64 b k) = bb_data b @ take 64 (drop 1 k)"
  by (simp add: append_pubkey64_def)

definition simple_message :: "bytes \<Rightarrow> bytes \<Rightarrow> bytes" where
  "simple_message subject body = lit ''Subject:'' @ c_str subject @ (0x0a # lit ''Body:'') @ c_str body"

lemma append_simple_encoded_message_data [simp]:
  "bb_data (append_simple_encoded_message b subject body) =
    bb_data b @ varint_octets 2 @ varint_octets (word_of_nat (length (simple_message subject body))) @
    simple_message subject body"
  by (simp add: append_simple_encoded_message_def simple_message_def)

definition sender_octets :: "bm_identity_info \<Rightarrow> bytes" where
  "sender_octets from =
     varint_octets (ii_address_version from) @ varint_octets (ii_stream from) @
     be32 (if ii_does_ack from then 1 else 0) @
     take 64 (drop 1 (ii_pub_signing from)) @ take 64 (drop 1 (ii_pub_encryption from)) @
     (if 3 \<le> ii_address_version from
      then varint_octets (ii_nonce_trials_per_byte from) @ varint_octets (ii_payload_length_extra_bytes from)
      else [])"

lemma append_sender_data [simp]: "bb_data (append_sender b from) = bb_data b @ sender_octets from"
  by (simp add: append_sender_def sender_octets_def)

text \<open>The keys of an identity belong together.\<close>

definition identity_ok :: "openssl \<Rightarrow> bm_identity_info \<Rightarrow> bool" where
  "identity_ok ssl ident \<longleftrightarrow>
     bm_address_get_public_key ssl (ii_priv_signing ident) = Some (ii_pub_signing ident) \<and>
     length (ii_pub_encryption ident) = 65 \<and> ii_pub_encryption ident ! 0 = 4"

lemma pubkey64_restore: "length k = 65 \<Longrightarrow> k ! 0 = 4 \<Longrightarrow> 4 # take 64 (drop 1 k) = k"
  by (cases k) auto

lemma base32_loop_length:
  "bits < 8 \<Longrightarrow> base32_loop cs buffer bits = Some out \<Longrightarrow> length out = (bits + 5 * length cs) div 8"
proof (induction cs arbitrary: buffer bits out)
  case Nil
  then show ?case by simp
next
  case (Cons c cs)
  obtain val where val: "base32_value c = Some val" using Cons.prems by (auto split: option.splits)
  define buffer' where "buffer' = push_bit 5 buffer OR val"
  show ?case
  proof (cases "8 \<le> bits + 5")
    case True
    then obtain out' where "base32_loop cs buffer' (bits + 5 - 8) = Some out'" "length out = Suc (length out')"
      using Cons.prems(2) val by (auto simp: Let_def buffer'_def)
    with Cons.IH [of "bits + 5 - 8" buffer' out'] Cons.prems(1) True show ?thesis by simp
  next
    case False
    then have "base32_loop cs buffer' (bits + 5) = Some out"
      using Cons.prems(2) val by (simp add: Let_def buffer'_def)
    with Cons.IH [of "bits + 5" buffer' out] False show ?thesis by (simp add: algebra_simps)
  qed
qed

end
