(* ===== verification/Trial_Decrypt.thy ===== *)
theory Trial_Decrypt
  imports Objects
begin

text \<open>
  \<open>src/core/trial_decrypt.c\<close> and \<open>src/core/broadcast_decrypt.c\<close>: trying the unlocked keys on a msg
  object and the key of a subscription on a broadcast, and reading the decrypted contents.

  Results: \<open>Done None\<close> is the return code -1, \<open>Fault\<close> a read or write outside a buffer. Positions and
  lengths follow the code: a length from the message is added to the position at 64 bits, so the sum
  may wrap. \<open>mem\<close> says which \<open>malloc\<close> sizes succeed.
\<close>

abbreviation BM_ADDRESS_STR_MAX :: nat where "BM_ADDRESS_STR_MAX \<equiv> 64"

section \<open>Strings out of a message\<close>

text \<open>\<open>data\<close> is what follows the pointer up to the end of its buffer.\<close>

definition dup_bytes_as_cstr :: "(u64 \<Rightarrow> bool) \<Rightarrow> bytes \<Rightarrow> u64 \<Rightarrow> bytes option outcome" where
  "dup_bytes_as_cstr mem data len =
     (if \<not> mem (len + 1) then Done None
      else if length data < unat len then Fault
      else Done (Some (take (unat len) data)))"

definition body_needle :: bytes where
  "body_needle = 0x0a # lit ''Body:''"

text \<open>The search for the needle from position \<open>i\<close> on.\<close>

function find_body :: "nat \<Rightarrow> nat \<Rightarrow> bytes \<Rightarrow> nat option outcome" where
  "find_body len i rest =
     (if len < i + 6 then Done None
      else if length rest < 6 then Fault
      else if take 6 rest = body_needle then Done (Some i)
      else find_body len (i + 1) (tl rest))"
  by auto
termination
  by (relation "measure (\<lambda>(_, _, rest). length rest)") auto

declare find_body.simps [simp del]

definition decode_simple :: "(u64 \<Rightarrow> bool) \<Rightarrow> bytes \<Rightarrow> u64 \<Rightarrow> (bytes option \<times> bytes option) outcome" where
  "decode_simple mem data len =
     bind_outcome (if 6 \<le> len then find_body (unat len) 0 data else Done None)
       (\<lambda>body_idx.
         case body_idx of
           Some i \<Rightarrow>
             if 1 < i then
               (let subject_len = min (if 8 \<le> i then i - 8 else 0) 500;
                    first_line = takeWhile (\<lambda>b. b \<noteq> 0x0a) (take subject_len (drop 8 data))
                in bind_outcome (dup_bytes_as_cstr mem (drop 8 data) (word_of_nat (length first_line)))
                     (\<lambda>subject. bind_outcome (dup_bytes_as_cstr mem (drop (i + 6) data) (len - word_of_nat (i + 6)))
                        (\<lambda>body. Done (subject, body))))
             else bind_outcome (dup_bytes_as_cstr mem [] 0)
                    (\<lambda>subject. bind_outcome (dup_bytes_as_cstr mem data len) (\<lambda>body. Done (subject, body)))
         | None \<Rightarrow> bind_outcome (dup_bytes_as_cstr mem [] 0)
                    (\<lambda>subject. bind_outcome (dup_bytes_as_cstr mem data len) (\<lambda>body. Done (subject, body))))"

definition decode_contents :: "(u64 \<Rightarrow> bool) \<Rightarrow> u64 \<Rightarrow> bytes \<Rightarrow> u64 \<Rightarrow> (bytes option \<times> bytes option) outcome" where
  "decode_contents mem encoding data len =
     (if encoding = 2 then decode_simple mem data len
      else bind_outcome (dup_bytes_as_cstr mem [] 0)
             (\<lambda>subject. bind_outcome (dup_bytes_as_cstr mem data len) (\<lambda>body. Done (subject, body))))"

section \<open>Fields of the decrypted part\<close>

text \<open>A varint at position \<open>p\<close>, with the position behind it.\<close>

definition varint_at :: "bytes \<Rightarrow> nat \<Rightarrow> (u64 \<times> nat) option" where
  "varint_at d p = map_option (\<lambda>(consumed, v). (v, p + consumed)) (bm_varint_decode (drop p d))"

text \<open>
  A length-prefixed field: \<open>p + consumed + len > decrypted_len\<close> is computed at 64 bits. The results
  are where the field starts, its length and the position behind it.
\<close>

definition field_at :: "bytes \<Rightarrow> nat \<Rightarrow> (nat \<times> u64 \<times> nat) option" where
  "field_at d p =
     Option.bind (varint_at d p) (\<lambda>(len, p1).
       let end_pos = word_of_nat p1 + len :: u64
       in if word_of_nat (length d) < end_pos then None else Some (p1, len, unat end_pos))"

record sender =
  from_ver :: u64
  from_stream :: u64
  from_pub_signing :: bytes
  from_pub_encryption :: bytes

definition parse_sender :: "bytes \<Rightarrow> (sender \<times> nat) option" where
  "parse_sender d =
     Option.bind (varint_at d 0) (\<lambda>(ver, p1).
     Option.bind (varint_at d p1) (\<lambda>(stream, p2).
       if length d < p2 + 4 + 64 + 64 then None
       else
         let s = \<lparr>from_ver = ver, from_stream = stream,
                  from_pub_signing = 0x04 # take 64 (drop (p2 + 4) d),
                  from_pub_encryption = 0x04 # take 64 (drop (p2 + 68) d)\<rparr>;
             p = p2 + 132
         in if 3 \<le> ver
            then Option.bind (varint_at d p) (\<lambda>(nonce_trials, p3).
                 Option.bind (varint_at d p3) (\<lambda>(extra_bytes, p4). Some (s, p4)))
            else Some (s, p)))"

text \<open>
  The signature check over \<open>content\<close>. The signature length is cast to \<open>int\<close>: a length that wrapped the
  position is negative there and is refused.
\<close>

definition signature_ok :: "openssl \<Rightarrow> bytes \<Rightarrow> bytes \<Rightarrow> nat \<Rightarrow> u64 \<Rightarrow> bytes \<Rightarrow> bool" where
  "signature_ok ssl content d start sig_len pub =
     (if length d < start + unat sig_len then False
      else bm_crypto_verify ssl content (take (unat sig_len) (drop start d)) pub)"

text \<open>The printed sender address, cut to the field of the result.\<close>

definition sender_address :: "openssl \<Rightarrow> sender \<Rightarrow> bytes outcome" where
  "sender_address ssl s =
     bind_outcome (bm_address_encode ssl (from_ver s) (from_stream s)
         (bm_address_calc_ripe ssl (from_pub_signing s) (from_pub_encryption s)))
       (\<lambda>a. Done (case a of None \<Rightarrow> [] | Some str \<Rightarrow> take (BM_ADDRESS_STR_MAX - 1) (c_str str)))"

section \<open>msg\<close>

record bm_unlocked_identity =
  ui_address :: bytes
  ui_ripe :: bytes
  ui_priv_signing :: bytes
  ui_priv_encryption :: bytes
  ui_pub_signing :: bytes
  ui_pub_encryption :: bytes
  ui_address_version :: u64
  ui_stream :: u64
  ui_nonce_trials_per_byte :: u64
  ui_payload_length_extra_bytes :: u64
  ui_is_chan :: bool
  ui_unlocked_at :: int

record bm_decoded_msg =
  dm_from_address_version :: u64
  dm_from_stream :: u64
  dm_from_address :: bytes
  dm_to_address :: bytes
  dm_subject :: "bytes option"
  dm_body :: "bytes option"
  dm_ack_payload :: "bytes option"

text \<open>The fields behind the sender: the receiver, the encoding, the message, the acknowledgement.\<close>

definition parse_msg_fields :: "bytes \<Rightarrow> bytes \<Rightarrow> nat \<Rightarrow> (u64 \<times> (nat \<times> u64) \<times> (nat \<times> u64) \<times> nat) option" where
  "parse_msg_fields r d p =
     (if length d < p + 20 then None
      else if take 20 (drop p d) \<noteq> r then None
      else Option.bind (varint_at d (p + 20)) (\<lambda>(encoding, p1).
           Option.bind (field_at d p1) (\<lambda>(msg_start, msg_len, p2).
           Option.bind (field_at d p2) (\<lambda>(ack_start, ack_len, p3).
             Some (encoding, (msg_start, msg_len), (ack_start, ack_len), p3)))))"

definition copy_ack :: "(u64 \<Rightarrow> bool) \<Rightarrow> bool \<Rightarrow> bytes \<Rightarrow> u64 \<Rightarrow> bytes option outcome" where
  "copy_ack mem is_chan data ack_len =
     (if 0 < ack_len \<and> \<not> is_chan then
        (if mem ack_len \<and> unat ack_len \<le> length data then Done (Some (take (unat ack_len) data)) else Fault)
      else Done None)"

definition trial_decrypt_body ::
  "openssl \<Rightarrow> (u64 \<Rightarrow> bool) \<Rightarrow> bm_unlocked_identity \<Rightarrow> bm_object_header \<Rightarrow> bytes \<Rightarrow> bytes
     \<Rightarrow> bm_decoded_msg option outcome" where
  "trial_decrypt_body ssl mem ident hdr object d =
     (case Option.bind (parse_sender d) (\<lambda>(s, p).
           Option.bind (parse_msg_fields (ui_ripe ident) d p) (\<lambda>(encoding, msg, ack, presig_offset).
           Option.bind (field_at d presig_offset) (\<lambda>(sig_start, sig_len, _).
             let to_sign = take (header_len hdr - 8) (drop 8 object) @ take presig_offset d
             in if signature_ok ssl to_sign d sig_start sig_len (from_pub_signing s)
                then Some (s, encoding, msg, ack) else None))) of
        None \<Rightarrow> Done None
      | Some (s, encoding, (msg_start, msg_len), (ack_start, ack_len)) \<Rightarrow>
          bind_outcome (sender_address ssl s) (\<lambda>from_address.
          bind_outcome (decode_contents mem encoding (drop msg_start d) msg_len) (\<lambda>(subject, body).
          bind_outcome (copy_ack mem (ui_is_chan ident) (drop ack_start d) ack_len) (\<lambda>ack_payload.
            Done (Some \<lparr>dm_from_address_version = from_ver s, dm_from_stream = from_stream s,
              dm_from_address = from_address,
              dm_to_address = take (BM_ADDRESS_STR_MAX - 1) (c_str (ui_address ident)),
              dm_subject = subject, dm_body = body, dm_ack_payload = ack_payload\<rparr>)))))"

text \<open>The walk over the keyring: the first identity whose key opens the ciphertext.\<close>

fun keyring_open :: "openssl \<Rightarrow> bm_unlocked_identity list \<Rightarrow> bytes \<Rightarrow> (bm_unlocked_identity \<times> bytes) option" where
  "keyring_open ssl [] ciphertext = None"
| "keyring_open ssl (cur # kr) ciphertext =
     (case bm_crypto_ecies_decrypt ssl ciphertext (ui_priv_encryption cur) of
        Some decrypted \<Rightarrow> Some (cur, decrypted)
      | None \<Rightarrow> keyring_open ssl kr ciphertext)"

definition bm_trial_decrypt_msg ::
  "openssl \<Rightarrow> (u64 \<Rightarrow> bool) \<Rightarrow> bm_unlocked_identity list \<Rightarrow> bytes \<Rightarrow> bm_decoded_msg option outcome" where
  "bm_trial_decrypt_msg ssl mem kr object =
     (case bm_object_parse_header object of
        None \<Rightarrow> Done None
      | Some hdr \<Rightarrow>
          if oh_object_type hdr \<noteq> BM_OBJECT_MSG \<or> oh_version hdr \<noteq> 1 then Done None
          else (case keyring_open ssl kr (drop (header_len hdr) object) of
                  None \<Rightarrow> Done None
                | Some (matched, decrypted) \<Rightarrow> trial_decrypt_body ssl mem matched hdr object decrypted))"

definition bm_trial_decrypt_msg_single ::
  "openssl \<Rightarrow> (u64 \<Rightarrow> bool) \<Rightarrow> bm_unlocked_identity \<Rightarrow> bytes \<Rightarrow> bm_decoded_msg option outcome" where
  "bm_trial_decrypt_msg_single ssl mem ident object =
     (case bm_object_parse_header object of
        None \<Rightarrow> Done None
      | Some hdr \<Rightarrow>
          if oh_object_type hdr \<noteq> BM_OBJECT_MSG \<or> oh_version hdr \<noteq> 1 then Done None
          else (case bm_crypto_ecies_decrypt ssl (drop (header_len hdr) object) (ui_priv_encryption ident) of
                  None \<Rightarrow> Done None
                | Some decrypted \<Rightarrow> trial_decrypt_body ssl mem ident hdr object decrypted))"

section \<open>Lemmas: reading what the builders wrote\<close>

lemma varint_at_octets:
  "drop p d = varint_octets v @ rest \<Longrightarrow> varint_at d p = Some (v, p + bm_varint_size v)"
  by (simp add: varint_at_def)

lemma drop_more: "drop p d = xs @ ys \<Longrightarrow> length xs = n \<Longrightarrow> drop (p + n) d = ys"
  by (metis drop_append_exact drop_drop add.commute)

lemma drop_bound: "drop p d = xs @ ys \<Longrightarrow> xs \<noteq> [] \<Longrightarrow> p + length xs \<le> length d"
  by (metis Nil_is_append_conv add_le_cancel_left drop_eq_Nil length_append length_drop le_add1
      nat_le_linear le_add_diff_inverse)

lemma unat_sum_small: "a + unat (n :: u64) < 2 ^ 64 \<Longrightarrow> unat (word_of_nat a + n) = a + unat n"
  by (simp add: unat_word_ariths unat_of_nat)

lemma field_at_octets:
  assumes "drop p d = varint_octets (word_of_nat (length f)) @ f @ rest" "length d < 2 ^ 63"
  shows "field_at d p = Some (p + bm_varint_size (word_of_nat (length f)), word_of_nat (length f),
    p + bm_varint_size (word_of_nat (length f)) + length f)"
proof -
  let ?n = "word_of_nat (length f) :: u64" and ?p1 = "p + bm_varint_size (word_of_nat (length f))"
  have "drop p d = (varint_octets ?n @ f) @ rest" using assms(1) by simp
  from drop_bound [OF this] have le: "?p1 + length f \<le> length d" by simp
  then have f: "unat ?n = length f" using assms(2) by (intro unat_of_nat_lt) simp
  have e: "unat (word_of_nat ?p1 + ?n) = ?p1 + length f"
    using le assms(2) f by (subst unat_sum_small) simp_all
  have "unat (word_of_nat (length d) :: u64) = length d" using assms(2) by (intro unat_of_nat_lt) simp
  then have "\<not> (word_of_nat (length d) :: u64) < word_of_nat ?p1 + ?n"
    unfolding word_less_nat_alt e using le by simp
  then show ?thesis
    unfolding field_at_def varint_at_octets [OF assms(1)] Option.bind.bind_lunit split Let_def e by simp
qed

lemma find_body_prefix:
  "0x0a \<notin> set pre \<Longrightarrow> i + length pre + 6 \<le> len \<Longrightarrow>
    find_body len i (pre @ body_needle @ post) = Done (Some (i + length pre))"
proof (induction pre arbitrary: i)
  case Nil
  then show ?case by (subst find_body.simps) (simp add: body_needle_def)
next
  case (Cons x pre)
  have "take 6 ((x # pre) @ body_needle @ post) \<noteq> body_needle"
    using Cons.prems(1) by (auto simp: body_needle_def)
  moreover have "find_body len (i + 1) (pre @ body_needle @ post) = Done (Some (i + 1 + length pre))"
    using Cons.prems by (intro Cons.IH) simp_all
  ultimately show ?case using Cons.prems(2) by (subst find_body.simps) (simp add: body_needle_def)
qed

definition plain_subject :: "bytes \<Rightarrow> bool" where
  "plain_subject subject \<longleftrightarrow> 0x0a \<notin> set (c_str subject) \<and> strlen subject \<le> 500"

lemma dup_prefix:
  "length f < 2 ^ 64 \<Longrightarrow> dup_bytes_as_cstr (\<lambda>_. True) (f @ r) (word_of_nat (length f)) = Done (Some f)"
  using unat_of_nat_lt [of "length f", where 'a = 64] by (simp add: dup_bytes_as_cstr_def)

lemma decode_simple_message:
  assumes "plain_subject subject" "length (simple_message subject body) < 2 ^ 63"
  shows "decode_simple (\<lambda>_. True) (simple_message subject body @ rest)
      (word_of_nat (length (simple_message subject body))) =
    Done (Some (c_str subject), Some (c_str body))"
proof -
  let ?m = "simple_message subject body" and ?s = "c_str subject" and ?b = "c_str body"
  let ?n = "word_of_nat (length ?m) :: u64"
  have n: "unat ?n = length ?m" using assms(2) by (intro unat_of_nat_lt) simp
  have m: "?m @ rest = (lit ''Subject:'' @ ?s) @ body_needle @ (?b @ rest)"
    by (simp add: simple_message_def body_needle_def)
  have len: "length ?m = 8 + length ?s + 6 + length ?b" by (simp add: simple_message_def)
  have "find_body (unat ?n) 0 (?m @ rest) = Done (Some (0 + length (lit ''Subject:'' @ ?s)))"
    unfolding m n by (rule find_body_prefix) (use assms(1) len in \<open>auto simp: plain_subject_def\<close>)
  then have find: "find_body (unat ?n) 0 (?m @ rest) = Done (Some (8 + length ?s))" by simp
  have six: "6 \<le> ?n" using n len by (simp add: word_le_nat_alt)
  have "take (length ?s) (drop 8 (?m @ rest)) = ?s" unfolding m by simp
  then have first: "takeWhile (\<lambda>b. b \<noteq> 0x0a) (take (length ?s) (drop 8 (?m @ rest))) = ?s"
    using assms(1) by (auto simp: plain_subject_def takeWhile_eq_all_conv)
  have m2: "?m @ rest = (lit ''Subject:'' @ ?s @ body_needle) @ (?b @ rest)" unfolding m by simp
  have body: "drop (8 + length ?s + 6) (?m @ rest) = ?b @ rest"
    unfolding m2 by (rule drop_append_exact) (simp add: body_needle_def)
  have rest_len: "?n - word_of_nat (8 + length ?s + 6) = word_of_nat (length ?b)" by (simp add: len)
  have drop8: "drop 8 (?m @ rest) = ?s @ body_needle @ ?b @ rest" unfolding m by simp
  have sl: "min (if 8 \<le> 8 + length ?s then 8 + length ?s - 8 else 0) 500 = length ?s"
    using assms(1) by (simp add: plain_subject_def strlen_def)
  have "length ?s < 2 ^ 64" "length ?b < 2 ^ 64" using assms(2) len by simp_all
  then have dup: "dup_bytes_as_cstr (\<lambda>_. True) (drop 8 (?m @ rest)) (word_of_nat (length ?s)) = Done (Some ?s)"
    "dup_bytes_as_cstr (\<lambda>_. True) (?b @ rest) (word_of_nat (length ?b)) = Done (Some ?b)"
    unfolding drop8 by (simp_all only: dup_prefix)
  have "1 < 8 + length ?s" by simp
  then show ?thesis
    unfolding decode_simple_def if_P [OF six] find bind_outcome.simps option.case Let_def sl first body rest_len dup
    by (simp only: if_P)
qed

lemma parse_sender_octets:
  assumes "length (ii_pub_signing from) = 65" "ii_pub_signing from ! 0 = 4"
    "length (ii_pub_encryption from) = 65" "ii_pub_encryption from ! 0 = 4"
  shows "parse_sender (sender_octets from @ rest) =
    Some (\<lparr>from_ver = ii_address_version from, from_stream = ii_stream from,
      from_pub_signing = ii_pub_signing from, from_pub_encryption = ii_pub_encryption from\<rparr>,
      length (sender_octets from))"
proof -
  let ?d = "sender_octets from @ rest"
  let ?v = "bm_varint_size (ii_address_version from)" and ?w = "bm_varint_size (ii_stream from)"
  let ?tail = "(if 3 \<le> ii_address_version from then varint_octets (ii_nonce_trials_per_byte from) @
    varint_octets (ii_payload_length_extra_bytes from) else []) @ rest"
  have 1: "varint_at ?d 0 = Some (ii_address_version from, ?v)"
    by (subst varint_at_octets) (simp_all add: sender_octets_def)
  have 2: "varint_at ?d ?v = Some (ii_stream from, ?v + ?w)"
    by (rule varint_at_octets) (simp add: sender_octets_def)
  have "take 64 (drop (?v + ?w + 4) ?d) = take 64 (drop 1 (ii_pub_signing from))"
    "take 64 (drop (?v + ?w + 68) ?d) = take 64 (drop 1 (ii_pub_encryption from))"
    using assms(1,3) by (simp_all add: sender_octets_def)
  then have keys: "0x04 # take 64 (drop (?v + ?w + 4) ?d) = ii_pub_signing from"
    "0x04 # take 64 (drop (?v + ?w + 68) ?d) = ii_pub_encryption from"
    using pubkey64_restore [OF assms(1,2)] pubkey64_restore [OF assms(3,4)] by simp_all
  have tl: "drop (?v + ?w + 132) ?d = ?tail" using assms(1,3) by (simp add: sender_octets_def)
  have len: "length ?d = ?v + ?w + 132 + length ?tail" using assms(1,3) by (simp add: sender_octets_def)
  have len0: "\<not> 3 \<le> ii_address_version from \<Longrightarrow> length (sender_octets from) = ?v + ?w + 132"
    using assms(1,3) by (simp add: sender_octets_def)
  have more: "Option.bind (varint_at ?d (?v + ?w + 132)) (\<lambda>(nonce_trials, p3).
      Option.bind (varint_at ?d p3) (\<lambda>(extra_bytes, p4). Some (x, p4))) =
    Some (x, length (sender_octets from))" if "3 \<le> ii_address_version from" for x :: sender
  proof -
    let ?t = "bm_varint_size (ii_nonce_trials_per_byte from)"
    have t: "drop (?v + ?w + 132) ?d = varint_octets (ii_nonce_trials_per_byte from) @
        varint_octets (ii_payload_length_extra_bytes from) @ rest" using tl that by simp
    from drop_more [OF this length_varint_octets] varint_at_octets [OF t] show ?thesis
      using assms(1,3) that by (simp add: varint_at_octets) (simp add: sender_octets_def)
  qed
  show ?thesis
    unfolding parse_sender_def 1 2 Option.bind.bind_lunit split Let_def keys
    using len len0 more by (cases "3 \<le> ii_address_version from") simp_all
qed

lemma parse_msg_fields_octets:
  assumes "drop p d = r @ varint_octets enc @ varint_octets (word_of_nat (length m)) @ m @
      varint_octets (word_of_nat (length a)) @ a @ rest"
    "length r = 20" "length d < 2 ^ 63"
  obtains ms as p3 where "parse_msg_fields r d p = Some (enc, (ms, word_of_nat (length m)), (as, word_of_nat (length a)), p3)"
    "drop ms d = m @ varint_octets (word_of_nat (length a)) @ a @ rest" "drop as d = a @ rest"
    "p3 + length rest = length d" "drop p3 d = rest"
proof -
  let ?m = "word_of_nat (length m) :: u64" and ?a = "word_of_nat (length a) :: u64"
  have "r \<noteq> []" using assms(2) by auto
  then have le: "p + 20 \<le> length d" using drop_bound [OF assms(1)] assms(2) by simp
  have d1: "drop (p + 20) d = varint_octets enc @ varint_octets ?m @ m @ varint_octets ?a @ a @ rest"
    by (rule drop_more [OF assms(1,2)])
  let ?p1 = "p + 20 + bm_varint_size enc"
  have d2: "drop ?p1 d = varint_octets ?m @ m @ varint_octets ?a @ a @ rest"
    by (rule drop_more [OF d1 length_varint_octets])
  let ?ms = "?p1 + bm_varint_size ?m"
  have d3: "drop ?ms d = m @ varint_octets ?a @ a @ rest" by (rule drop_more [OF d2 length_varint_octets])
  have d4: "drop (?ms + length m) d = varint_octets ?a @ a @ rest" by (rule drop_more [OF d3 refl])
  let ?as = "?ms + length m + bm_varint_size ?a"
  have d5: "drop ?as d = a @ rest" by (rule drop_more [OF d4 length_varint_octets])
  have d6: "drop (?as + length a) d = rest" by (rule drop_more [OF d5 refl])
  have p3: "?as + length a + length rest = length d"
    using arg_cong [OF d4, of length] drop_bound [OF d4 varint_octets_not_Nil] by simp
  have tk: "take 20 (drop p d) = r" using assms(1,2) by simp
  have "parse_msg_fields r d p = Some (enc, (?ms, ?m), (?as, ?a), ?as + length a)"
    unfolding parse_msg_fields_def varint_at_octets [OF d1] field_at_octets [OF d2 assms(3)]
      field_at_octets [OF d4 assms(3)] Option.bind.bind_lunit split
    using le tk by simp
  from that [OF this d3 d5 p3 d6] show thesis .
qed

text \<open>The encrypted part of a msg before its signature.\<close>

definition msg_plain :: "bm_identity_info \<Rightarrow> bytes \<Rightarrow> bytes \<Rightarrow> bytes \<Rightarrow> bytes \<Rightarrow> bytes" where
  "msg_plain from to_ripe subject body ack =
     sender_octets from @ to_ripe @ varint_octets 2 @
     varint_octets (word_of_nat (length (simple_message subject body))) @ simple_message subject body @
     varint_octets (word_of_nat (length ack)) @ ack"

definition signed_part :: "bytes \<Rightarrow> bytes \<Rightarrow> bytes" where
  "signed_part plain sig = plain @ varint_octets (word_of_nat (length sig)) @ sig"

lemma bm_build_msg_cases:
  assumes "bm_build_msg ssl rnd from to_stream to_ripe to_pub subject body ack expires = Some obj" "length to_ripe = 20"
  defines "header \<equiv> common_header expires BM_OBJECT_MSG 1 to_stream"
    and "plain \<equiv> msg_plain from to_ripe subject body (case ack of None \<Rightarrow> [] | Some a \<Rightarrow> a)"
  obtains sig ct where "bm_crypto_sign ssl (header @ plain) (ii_priv_signing from) = Some sig"
    "bm_crypto_ecies_encrypt ssl (fst rnd) (snd rnd) (signed_part plain sig) to_pub = Some ct" "obj = header @ ct"
  using assms(1,2)
  by (auto simp: bm_build_msg_def Let_def bb_take_def header_def plain_def msg_plain_def signed_part_def
      split: option.splits)

lemma sender_address_ok: "\<exists>a. sender_address ssl s = Done a"
  using address_encode_returns [of ssl "from_ver s" "from_stream s" "bm_address_calc_ripe ssl (from_pub_signing s) (from_pub_encryption s)"]
  by (auto simp: sender_address_def)

lemma sender_address_printed:
  assumes "openssl_ok ssl"
  obtains a where "bm_address_encode ssl (from_ver s) (from_stream s)
      (bm_ripemd160 ssl (bm_sha512 ssl (from_pub_signing s @ from_pub_encryption s))) = Done (Some a)"
    "sender_address ssl s = Done (take 63 (c_str a))"
proof -
  let ?r = "bm_ripemd160 ssl (bm_sha512 ssl (from_pub_signing s @ from_pub_encryption s))"
  have "length ?r = 20" using openssl_ok_digests [OF assms] by (simp add: digests_ok_def bm_ripemd160_def)
  then obtain a where "bm_address_encode ssl (from_ver s) (from_stream s) ?r = Done (Some a)"
    using address_encode_returns [of ssl "from_ver s" "from_stream s" ?r] by auto
  then show ?thesis using that [of a] by (simp add: sender_address_def bm_address_calc_ripe_def)
qed

lemma trial_decrypt_body_msg:
  assumes ok: "openssl_ok ssl" and ident: "identity_ok ssl from" and r: "length (ui_ripe ident) = 20"
    and subj: "plain_subject subject" and small: "length (signed_part plain sig) < 2 ^ 63"
    and sig: "bm_crypto_sign ssl (header @ plain) (ii_priv_signing from) = Some sig"
    and hl: "header_len hdr = 8 + length header" and obj: "object = nonce8 @ header @ ct" "length nonce8 = 8"
    and plain: "plain = msg_plain from (ui_ripe ident) subject body ack"
  shows "\<exists>addr. sender_address ssl \<lparr>from_ver = ii_address_version from, from_stream = ii_stream from,
        from_pub_signing = ii_pub_signing from, from_pub_encryption = ii_pub_encryption from\<rparr> = Done addr \<and>
    trial_decrypt_body ssl (\<lambda>_. True) ident hdr object (signed_part plain sig) =
      Done (Some \<lparr>dm_from_address_version = ii_address_version from, dm_from_stream = ii_stream from,
        dm_from_address = addr, dm_to_address = take 63 (c_str (ui_address ident)),
        dm_subject = Some (c_str subject), dm_body = Some (c_str body),
        dm_ack_payload = (if ack = [] \<or> ui_is_chan ident then None else Some ack)\<rparr>)"
proof -
  let ?d = "signed_part plain sig" and ?pub = "ii_pub_signing from"
  let ?s = "\<lparr>from_ver = ii_address_version from, from_stream = ii_stream from,
    from_pub_signing = ?pub, from_pub_encryption = ii_pub_encryption from\<rparr>"
  let ?m = "simple_message subject body" and ?sig = "varint_octets (word_of_nat (length sig)) @ sig"
  have pub: "bm_address_get_public_key ssl (ii_priv_signing from) = Some ?pub"
    using ident by (simp add: identity_ok_def)
  note K = public_key_shape [OF ok pub]
  obtain addr where addr: "sender_address ssl ?s = Done addr"
    using sender_address_ok by blast
  have d: "?d = sender_octets from @ (ui_ripe ident @ varint_octets 2 @ varint_octets (word_of_nat (length ?m)) @
      ?m @ varint_octets (word_of_nat (length ack)) @ ack @ ?sig)"
    by (simp add: signed_part_def plain msg_plain_def)
  have sender: "parse_sender ?d = Some (?s, length (sender_octets from))"
    unfolding d by (rule parse_sender_octets) (use K ident in \<open>simp_all add: identity_ok_def\<close>)
  have "drop (length (sender_octets from)) ?d = ui_ripe ident @ varint_octets 2 @
      varint_octets (word_of_nat (length ?m)) @ ?m @ varint_octets (word_of_nat (length ack)) @ ack @ ?sig"
    unfolding d by simp
  from parse_msg_fields_octets [OF this r small] obtain ms as p3 where
    fields: "parse_msg_fields (ui_ripe ident) ?d (length (sender_octets from)) =
      Some (2, (ms, word_of_nat (length ?m)), (as, word_of_nat (length ack)), p3)"
    "drop ms ?d = ?m @ varint_octets (word_of_nat (length ack)) @ ack @ ?sig" "drop as ?d = ack @ ?sig"
    "p3 + length ?sig = length ?d" "drop p3 ?d = ?sig" by blast
  have p3: "p3 = length plain" using fields(4) by (simp add: signed_part_def)
  have sf: "field_at ?d p3 = Some (p3 + bm_varint_size (word_of_nat (length sig)), word_of_nat (length sig),
      p3 + bm_varint_size (word_of_nat (length sig)) + length sig)"
    by (rule field_at_octets [of _ _ sig "[]"]) (use fields(5) small in simp_all)
  have lens: "length sig < 2 ^ 64" "length ack < 2 ^ 64" "length ?m < 2 ^ 63"
    using small by (simp_all add: signed_part_def plain msg_plain_def)
  have n: "unat (word_of_nat (length sig) :: u64) = length sig" "unat (word_of_nat (length ack) :: u64) = length ack"
    using lens by (simp_all add: unat_of_nat)
  have to_sign: "take (header_len hdr - 8) (drop 8 object) @ take p3 ?d = header @ plain"
    using hl obj by (simp add: p3 signed_part_def)
  have sg: "signature_ok ssl (header @ plain) ?d (p3 + bm_varint_size (word_of_nat (length sig)))
      (word_of_nat (length sig)) ?pub"
    using verify_sign [OF ok pub sig] n by (simp add: signature_ok_def p3 signed_part_def)
  have cont: "decode_contents (\<lambda>_. True) 2 (drop ms ?d) (word_of_nat (length ?m)) =
      Done (Some (c_str subject), Some (c_str body))"
    unfolding fields(2) decode_contents_def using decode_simple_message [OF subj lens(3)] by simp
  have ackc: "copy_ack (\<lambda>_. True) (ui_is_chan ident) (drop as ?d) (word_of_nat (length ack)) =
      Done (if ack = [] \<or> ui_is_chan ident then None else Some ack)"
    unfolding fields(3) copy_ack_def using n(2) by (auto simp: word_less_nat_alt)
  show ?thesis
    unfolding trial_decrypt_body_def sender fields(1) sf Option.bind.bind_lunit split Let_def to_sign
    using sg addr cont ackc by simp
qed

lemma length_sender_octets:
  assumes "length (ii_pub_signing from) = 65" "length (ii_pub_encryption from) = 65"
  shows "length (sender_octets from) \<le> 168"
  using assms bm_varint_size_bounds(2) [of "ii_address_version from"] bm_varint_size_bounds(2) [of "ii_stream from"]
    bm_varint_size_bounds(2) [of "ii_nonce_trials_per_byte from"]
    bm_varint_size_bounds(2) [of "ii_payload_length_extra_bytes from"]
  by (simp add: sender_octets_def)

lemma identity_keys:
  assumes "openssl_ok ssl" "identity_ok ssl from"
  shows "length (ii_pub_signing from) = 65" "ii_pub_signing from ! 0 = 4"
    "length (ii_pub_encryption from) = 65" "ii_pub_encryption from ! 0 = 4"
  using assms public_key_shape [OF assms(1), of "ii_priv_signing from" "ii_pub_signing from"]
  by (simp_all add: identity_ok_def)

lemma length_msg_plain:
  assumes "openssl_ok ssl" "identity_ok ssl from" "length r = 20"
    "strlen subject + strlen body + length ack \<le> 2 ^ 20"
    "bm_crypto_sign ssl c (ii_priv_signing from) = Some sig"
  shows "length (signed_part (msg_plain from r subject body ack) sig) \<le> 2 ^ 20 + 400"
  using length_sender_octets [OF identity_keys(1,3) [OF assms(1,2)]] sign_length [OF assms(1,5)] assms(3,4)
    bm_varint_size_bounds(2) [of "word_of_nat (length ack)"] bm_varint_size_bounds(2) [of "word_of_nat (length sig)"]
    bm_varint_size_bounds(2) [of "word_of_nat (length (simple_message subject body))"]
    bm_varint_size_bounds(2) [of 2]
  by (simp add: signed_part_def msg_plain_def simple_message_def strlen_def)

lemma keyring_open_skip:
  "\<forall>i\<in>set pre. bm_crypto_ecies_decrypt ssl c (ui_priv_encryption i) = None \<Longrightarrow>
    keyring_open ssl (pre @ kr) c = keyring_open ssl kr c"
  by (induction pre) auto

lemma keyring_open_in:
  "keyring_open ssl kr c = Some (i, d) \<Longrightarrow>
    i \<in> set kr \<and> bm_crypto_ecies_decrypt ssl c (ui_priv_encryption i) = Some d"
  by (induction kr) (auto split: option.splits)

text \<open>A built message is delivered.\<close>

lemma msg_delivered:
  assumes "openssl_ok ssl" "identity_ok ssl from" "length (ui_ripe ident) = 20" "length iv = 16"
    and "bm_address_get_public_key ssl (ui_priv_encryption ident) = Some to_pub"
    and "plain_subject subject" "strlen subject + strlen body + length ack \<le> 2 ^ 20"
    and "bm_build_msg ssl (rp, Some iv) from to_stream (ui_ripe ident) to_pub subject body (Some ack) expires = Some obj"
    and "\<forall>i\<in>set pre. bm_crypto_ecies_decrypt ssl (drop (13 + bm_varint_size to_stream) obj) (ui_priv_encryption i) = None"
  shows "\<exists>m. bm_trial_decrypt_msg ssl (\<lambda>_. True) (pre @ ident # post) (be64 nonce @ obj) = Done (Some m) \<and>
    dm_from_address_version m = ii_address_version from \<and> dm_from_stream m = ii_stream from \<and>
    (\<exists>a. bm_address_encode ssl (ii_address_version from) (ii_stream from)
        (bm_ripemd160 ssl (bm_sha512 ssl (ii_pub_signing from @ ii_pub_encryption from))) = Done (Some a) \<and>
      dm_from_address m = take 63 (c_str a)) \<and>
    dm_to_address m = take 63 (c_str (ui_address ident)) \<and>
    dm_subject m = Some (c_str subject) \<and> dm_body m = Some (c_str body) \<and>
    dm_ack_payload m = (if ack = [] \<or> ui_is_chan ident then None else Some ack)"
proof -
  let ?h = "common_header expires BM_OBJECT_MSG 1 to_stream" and ?plain = "msg_plain from (ui_ripe ident) subject body ack"
  obtain sig ct where sig: "bm_crypto_sign ssl (?h @ ?plain) (ii_priv_signing from) = Some sig"
    and ct: "bm_crypto_ecies_encrypt ssl rp (Some iv) (signed_part ?plain sig) to_pub = Some ct" and obj: "obj = ?h @ ct"
    using bm_build_msg_cases [OF assms(8,3)] by auto
  have len: "length (signed_part ?plain sig) \<le> 2 ^ 20 + 400"
    by (rule length_msg_plain [OF assms(1-3,7) sig])
  have dec: "bm_crypto_ecies_decrypt ssl ct (ui_priv_encryption ident) = Some (signed_part ?plain sig)"
    by (rule ecies_decrypt_encrypt [OF assms(1,5,4) _ ct]) (use len in simp)
  have size1: "bm_varint_size 1 = 1" by (simp add: bm_varint_size_def)
  have hdr: "bm_object_parse_header (be64 nonce @ obj) =
      Some \<lparr>oh_nonce = nonce, oh_expires_time = expires, oh_object_type = BM_OBJECT_MSG, oh_version = 1,
        oh_stream = to_stream, header_len = 21 + bm_varint_size to_stream\<rparr>"
    using bm_object_parse_common_header [of nonce expires BM_OBJECT_MSG 1 to_stream ct] by (simp add: obj size1)
  have ctd: "drop (21 + bm_varint_size to_stream) (be64 nonce @ obj) = ct"
    "drop (13 + bm_varint_size to_stream) obj = ct" by (simp_all add: obj size1)
  have "keyring_open ssl (pre @ ident # post) ct = Some (ident, signed_part ?plain sig)"
    using keyring_open_skip [of pre ssl ct "ident # post"] assms(9) dec ctd by simp
  moreover let ?from = "\<lparr>from_ver = ii_address_version from, from_stream = ii_stream from,
    from_pub_signing = ii_pub_signing from, from_pub_encryption = ii_pub_encryption from\<rparr>"
  obtain addr where "sender_address ssl ?from = Done addr" "trial_decrypt_body ssl (\<lambda>_. True) ident
      \<lparr>oh_nonce = nonce, oh_expires_time = expires, oh_object_type = BM_OBJECT_MSG, oh_version = 1,
        oh_stream = to_stream, header_len = 21 + bm_varint_size to_stream\<rparr> (be64 nonce @ obj) (signed_part ?plain sig) =
      Done (Some \<lparr>dm_from_address_version = ii_address_version from, dm_from_stream = ii_stream from,
        dm_from_address = addr, dm_to_address = take 63 (c_str (ui_address ident)),
        dm_subject = Some (c_str subject), dm_body = Some (c_str body),
        dm_ack_payload = (if ack = [] \<or> ui_is_chan ident then None else Some ack)\<rparr>)"
    using trial_decrypt_body_msg [OF assms(1-3,6) _ sig _ _ _ refl, of
        "\<lparr>oh_nonce = nonce, oh_expires_time = expires, oh_object_type = BM_OBJECT_MSG, oh_version = 1,
          oh_stream = to_stream, header_len = 21 + bm_varint_size to_stream\<rparr>" "be64 nonce @ obj" "be64 nonce" ct] len
    by (auto simp: obj size1)
  moreover obtain a where "bm_address_encode ssl (ii_address_version from) (ii_stream from)
        (bm_ripemd160 ssl (bm_sha512 ssl (ii_pub_signing from @ ii_pub_encryption from))) = Done (Some a)"
      "sender_address ssl ?from = Done (take 63 (c_str a))"
    using sender_address_printed [OF assms(1), of ?from] by auto
  ultimately show ?thesis unfolding bm_trial_decrypt_msg_def hdr by (simp add: ctd)
qed

text \<open>A sender and a receiver for the witnesses.\<close>

definition sample_sender :: bm_identity_info where
  "sample_sender = \<lparr>ii_address_version = 4, ii_stream = 1, ii_pub_signing = 4 # pad_to 64 [9],
     ii_pub_encryption = 4 # pad_to 64 [8], ii_priv_signing = [9], ii_nonce_trials_per_byte = 1000,
     ii_payload_length_extra_bytes = 1000, ii_does_ack = True\<rparr>"

definition sample_receiver :: bm_unlocked_identity where
  "sample_receiver = \<lparr>ui_address = lit ''BM-x'', ui_ripe = replicate 20 7, ui_priv_signing = [6],
     ui_priv_encryption = [5], ui_pub_signing = 4 # pad_to 64 [4], ui_pub_encryption = 4 # pad_to 64 [5],
     ui_address_version = 4, ui_stream = 1, ui_nonce_trials_per_byte = 1000, ui_payload_length_extra_bytes = 1000,
     ui_is_chan = False, ui_unlocked_at = 0\<rparr>"

lemma sample_sender_ok: "identity_ok plain_ssl sample_sender"
  by (simp add: identity_ok_def sample_sender_def plain_public_key)

lemma sample_delivery_built:
  "\<exists>obj. bm_build_msg plain_ssl (Some [2], Some (replicate 16 1)) sample_sender 1 (ui_ripe sample_receiver)
      (4 # pad_to 64 [5]) (lit ''hi'') (lit ''yo'') (Some [1]) 0 = Some obj"
proof -
  let ?plain = "msg_plain sample_sender (replicate 20 7) (lit ''hi'') (lit ''yo'') [1]"
  let ?h = "common_header 0 BM_OBJECT_MSG 1 1"
  obtain sig where sig: "bm_crypto_sign plain_ssl (?h @ ?plain) (ii_priv_signing sample_sender) = Some sig"
    using plain_sign by blast
  have "length (signed_part ?plain sig) \<le> 2 ^ 20 + 400"
    by (rule length_msg_plain [OF plain_ssl_ok sample_sender_ok _ _ sig]) (simp_all add: strlen_def c_str_def)
  then obtain ct where
    "bm_crypto_ecies_encrypt plain_ssl (Some [2]) (Some (replicate 16 1)) (signed_part ?plain sig) (4 # pad_to 64 [5]) = Some ct"
    using plain_encrypt [of "signed_part ?plain sig" "[2]" "replicate 16 1" "4 # pad_to 64 [5]"] by auto
  then show ?thesis
    using sig unfolding bm_build_msg_def Let_def
    by (simp add: bb_take_def msg_plain_def signed_part_def sample_receiver_def)
qed

lemma sample_delivery:
  "\<exists>obj m. bm_trial_decrypt_msg plain_ssl (\<lambda>_. True) [sample_receiver] obj = Done (Some m)"
proof -
  obtain obj where b: "bm_build_msg plain_ssl (Some [2], Some (replicate 16 1)) sample_sender 1
      (ui_ripe sample_receiver) (4 # pad_to 64 [5]) (lit ''hi'') (lit ''yo'') (Some [1]) 0 = Some obj"
    using sample_delivery_built by blast
  have "\<exists>m. bm_trial_decrypt_msg plain_ssl (\<lambda>_. True) ([] @ sample_receiver # []) (be64 3 @ obj) = Done (Some m)"
    using msg_delivered [OF plain_ssl_ok sample_sender_ok _ _ _ _ _ b, of "[]" "[]" 3]
    by (auto simp: sample_receiver_def plain_public_key plain_subject_def strlen_def c_str_def)
  then show ?thesis by auto
qed

section \<open>Properties\<close>



text \<open>
  C26: whatever \<open>bm_trial_decrypt_msg\<close> returns is authentic: the object opens under the key of an
  identity of the keyring, it names the RIPE of that identity as its receiver, and a signature in it
  verifies, over the object header without the nonce and the fields before the signature, under the
  signing key whose RIPE gives the returned sender address.
\<close>

theorem msg_authentic:
  assumes "bm_trial_decrypt_msg ssl mem kr object = Done (Some m)"
  shows "\<exists>hdr ident d s p encoding msg ack presig sig_start sig_len q.
    bm_object_parse_header object = Some hdr \<and> oh_object_type hdr = BM_OBJECT_MSG \<and> oh_version hdr = 1 \<and>
    ident \<in> set kr \<and>
    bm_crypto_ecies_decrypt ssl (drop (header_len hdr) object) (ui_priv_encryption ident) = Some d \<and>
    parse_sender d = Some (s, p) \<and> take 20 (drop p d) = ui_ripe ident \<and>
    parse_msg_fields (ui_ripe ident) d p = Some (encoding, msg, ack, presig) \<and>
    field_at d presig = Some (sig_start, sig_len, q) \<and>
    bm_crypto_verify ssl (take (header_len hdr - 8) (drop 8 object) @ take presig d)
      (take (unat sig_len) (drop sig_start d)) (from_pub_signing s) \<and>
    sender_address ssl s = Done (dm_from_address m) \<and> dm_from_address_version m = from_ver s \<and>
    dm_from_stream m = from_stream s"
proof -
  obtain hdr ident d where h: "bm_object_parse_header object = Some hdr" "oh_object_type hdr = BM_OBJECT_MSG"
    "oh_version hdr = 1" "keyring_open ssl kr (drop (header_len hdr) object) = Some (ident, d)"
    "trial_decrypt_body ssl mem ident hdr object d = Done (Some m)"
    using assms by (auto simp: bm_trial_decrypt_msg_def split: option.splits if_splits)
  from h(5) obtain s p encoding msg ack presig sig_start sig_len q where
    f: "parse_sender d = Some (s, p)" "parse_msg_fields (ui_ripe ident) d p = Some (encoding, msg, ack, presig)"
    "field_at d presig = Some (sig_start, sig_len, q)"
    "signature_ok ssl (take (header_len hdr - 8) (drop 8 object) @ take presig d) d sig_start sig_len (from_pub_signing s)"
    "sender_address ssl s = Done (dm_from_address m)" "dm_from_address_version m = from_ver s"
    "dm_from_stream m = from_stream s"
    by (auto simp: trial_decrypt_body_def Let_def bind_eq_Some_conv split: option.splits if_splits)
  have "take 20 (drop p d) = ui_ripe ident" using f(2) by (auto simp: parse_msg_fields_def split: if_splits)
  moreover have "bm_crypto_verify ssl (take (header_len hdr - 8) (drop 8 object) @ take presig d)
      (take (unat sig_len) (drop sig_start d)) (from_pub_signing s)"
    using f(4) by (simp add: signature_ok_def split: if_splits)
  ultimately show ?thesis using h(1-3) f keyring_open_in [OF h(4)] by blast
qed

theorem msg_authentic_witness:
  "\<exists>obj m. bm_trial_decrypt_msg plain_ssl (\<lambda>_. True) [sample_receiver] obj = Done (Some m) \<and>
     (\<exists>hdr. bm_object_parse_header obj = Some hdr \<and> oh_object_type hdr = BM_OBJECT_MSG)"
proof -
  obtain obj m where m: "bm_trial_decrypt_msg plain_ssl (\<lambda>_. True) [sample_receiver] obj = Done (Some m)"
    using sample_delivery by blast
  show ?thesis using m msg_authentic [OF m] by blast
qed

section \<open>A length that wraps\<close>

text \<open>
  The fields a malicious sender writes: encoding 1, a message length of \<open>2 ^ 64 - 1\<close> and eight zero
  bytes. The position behind the message wraps to the last byte of the length itself.
\<close>

definition wrapping_plain :: "bm_identity_info \<Rightarrow> bytes \<Rightarrow> bytes" where
  "wrapping_plain from r = sender_octets from @ r @ varint_octets 1 @ replicate 8 0xff @ [0xff] @ replicate 8 0"

lemma replicate_8: "replicate 8 x = [x, x, x, x, x, x, x, x]"
  by (simp add: numeral_eq_Suc)

lemma varint_octets_max: "varint_octets (2 ^ 64 - 1) = replicate 8 0xff @ [0xff]"
  by (simp add: varint_octets_def byte_at_def drop_bit_eq_div replicate_8)

lemma varint_zero_wide: "bm_varint_decode ([0xff] @ replicate 8 0 @ rest) = Some (9, 0)"
  by (simp add: bm_varint_decode_def replicate_8)

lemma wrapping_fields:
  fixes ident :: bm_identity_info
  assumes "length r = 20" "length sig \<le> 72"
  defines "d \<equiv> signed_part (wrapping_plain ident r) sig" and "P \<equiv> length (sender_octets ident)"
  assumes "P \<le> 168"
  shows "parse_msg_fields r d P = Some (1, (P + 30, 2 ^ 64 - 1), (P + 38, 0), P + 38)"
proof -
  let ?s = "varint_octets (word_of_nat (length sig)) @ sig"
  have len: "length d < 2 ^ 32" "P + 38 \<le> length d"
    using assms(1,2,5) bm_varint_size_bounds(2) [of "word_of_nat (length sig)"] bm_varint_size_bounds(2) [of 1]
    by (simp_all add: d_def signed_part_def wrapping_plain_def P_def bm_varint_size_def [of 1])
  have d0: "drop P d = r @ varint_octets 1 @ replicate 8 0xff @ [0xff] @ replicate 8 0 @ ?s"
    by (simp add: d_def P_def signed_part_def wrapping_plain_def)
  have one: "bm_varint_size 1 = 1" by (simp add: bm_varint_size_def)
  have d1: "drop (P + 20) d = varint_octets 1 @ varint_octets (2 ^ 64 - 1) @ replicate 8 0 @ ?s"
    unfolding varint_octets_max append.assoc using drop_more [OF d0 assms(1)] .
  have d2: "drop (P + 21) d = varint_octets (2 ^ 64 - 1) @ replicate 8 0 @ ?s"
    using drop_more [OF d1 length_varint_octets] one by (simp add: add.commute)
  have "drop (P + 21 + 8) d = [0xff] @ replicate 8 0 @ ?s"
    by (rule drop_more [OF d2 [unfolded varint_octets_max append.assoc]]) simp
  then have d3: "drop (P + 29) d = [0xff] @ replicate 8 0 @ ?s" by (simp add: add.commute)
  have v1: "varint_at d (P + 20) = Some (1, P + 21)" using varint_at_octets [OF d1] one by simp
  have v2: "varint_at d (P + 21) = Some (2 ^ 64 - 1, P + 30)"
    using varint_at_octets [OF d2] by (simp add: bm_varint_size_def)
  have v3: "varint_at d (P + 29) = Some (0, P + 38)"
    unfolding varint_at_def d3 varint_zero_wide by simp
  have P: "unat (word_of_nat (P + n) :: u64) = P + n" if "n \<le> 38" for n
    using assms(5) that by (intro unat_of_nat_lt) simp
  have ld: "unat (word_of_nat (length d) :: u64) = length d" using len(1) by (intro unat_of_nat_lt) simp
  have e1: "word_of_nat (P + 30) + (2 ^ 64 - 1) = (word_of_nat (P + 29) :: u64)" by simp
  have f1: "field_at d (P + 21) = Some (P + 30, 2 ^ 64 - 1, P + 29)"
    unfolding field_at_def v2 Option.bind.bind_lunit split Let_def e1 word_less_nat_alt ld
    using len(2) P [of 29] by simp
  have f2: "field_at d (P + 29) = Some (P + 38, 0, P + 38)"
    unfolding field_at_def v3 Option.bind.bind_lunit split Let_def word_less_nat_alt ld add_0_right
    using len(2) P [of 38] by simp
  show ?thesis
    unfolding parse_msg_fields_def v1 f1 f2 Option.bind.bind_lunit split
    using len(2) d0 assms(1) by simp
qed

lemma wrapping_copy_faults:
  assumes "mem 0" "length d < 2 ^ 63"
  shows "dup_bytes_as_cstr mem (drop k d) (2 ^ 64 - 1) = Fault"
proof -
  have "(2 ^ 64 - 1 + 1 :: u64) = 0" by (simp only: diff_add_cancel) simp
  moreover have "unat (2 ^ 64 - 1 :: u64) = 2 ^ 64 - 1"
  proof -
    have "(2 ^ 64 - 1 :: u64) = word_of_nat (2 ^ 64 - 1)" by simp
    then show ?thesis by (simp only:) (rule unat_of_nat_lt, simp)
  qed
  ultimately show ?thesis
    unfolding dup_bytes_as_cstr_def using assms by (simp only: if_True) (simp add: le_diff_conv)
qed

lemma wrapping_body_faults:
  assumes ok: "openssl_ok ssl" and ident: "identity_ok ssl attacker" and r: "length (ui_ripe ident) = 20"
    and sig: "bm_crypto_sign ssl (header @ wrapping_plain attacker (ui_ripe ident)) (ii_priv_signing attacker) = Some sig"
    and hl: "header_len hdr = 8 + length header" and obj: "object = nonce8 @ header @ ct" "length nonce8 = 8"
    and mem: "mem 0"
  shows "trial_decrypt_body ssl mem ident hdr object (signed_part (wrapping_plain attacker (ui_ripe ident)) sig) = Fault"
proof -
  let ?plain = "wrapping_plain attacker (ui_ripe ident)" and ?P = "length (sender_octets attacker)"
  let ?d = "signed_part ?plain sig" and ?n = "word_of_nat (length sig) :: u64"
  let ?s = "\<lparr>from_ver = ii_address_version attacker, from_stream = ii_stream attacker,
    from_pub_signing = ii_pub_signing attacker, from_pub_encryption = ii_pub_encryption attacker\<rparr>"
  note K = identity_keys [OF ok ident]
  have pub: "bm_address_get_public_key ssl (ii_priv_signing attacker) = Some (ii_pub_signing attacker)"
    using ident by (simp add: identity_ok_def)
  have s72: "length sig \<le> 72" by (rule sign_length [OF ok sig])
  have sender: "parse_sender ?d = Some (?s, ?P)"
    unfolding signed_part_def wrapping_plain_def append.assoc by (rule parse_sender_octets [OF K])
  note fields = wrapping_fields [OF r s72 length_sender_octets [OF K(1,3)]]
  have presig: "?P + 38 = length ?plain" by (simp add: wrapping_plain_def r bm_varint_size_def)
  have small: "length ?d < 2 ^ 63"
    using s72 length_sender_octets [OF K(1,3)] presig bm_varint_size_bounds(2) [of ?n] by (simp add: signed_part_def)
  have dsig: "drop (?P + 38) ?d = varint_octets ?n @ sig @ []" by (simp add: presig signed_part_def)
  note sf = field_at_octets [OF dsig small]
  have n: "unat ?n = length sig" using s72 by (intro unat_of_nat_lt) simp
  have to_sign: "take (header_len hdr - 8) (drop 8 object) @ take (?P + 38) ?d = header @ ?plain"
    using hl obj by (simp add: presig signed_part_def)
  have sg: "signature_ok ssl (header @ ?plain) ?d (?P + 38 + bm_varint_size ?n) ?n (ii_pub_signing attacker)"
    using verify_sign [OF ok pub sig] n by (simp add: signature_ok_def presig signed_part_def)
  obtain addr where "sender_address ssl ?s = Done addr" using sender_address_ok by blast
  moreover have "decode_contents mem 1 (drop (?P + 30) ?d) (2 ^ 64 - 1) = Fault"
    unfolding decode_contents_def by (simp only: wrapping_copy_faults [where mem = mem, OF mem small]) (simp add: dup_bytes_as_cstr_def mem)
  ultimately show ?thesis
    unfolding trial_decrypt_body_def sender fields sf Option.bind.bind_lunit split Let_def to_sign
    using sg by simp
qed

text \<open>
  The bounds check of the message length wraps at 64 bits. Anybody who knows the public key of an
  unlocked identity can encrypt a signed message with a length of \<open>2 ^ 64 - 1\<close>; decrypting it allocates
  \<open>malloc(0)\<close> and copies \<open>2 ^ 64 - 1\<close> bytes, which leaves both buffers.
\<close>

theorem msg_length_wrap_faults:
  assumes "openssl_ok ssl" "identity_ok ssl attacker" "length (ui_ripe ident) = 20" "length iv = 16" "mem 0"
    and "bm_address_get_public_key ssl (ui_priv_encryption ident) = Some to_pub"
    and "bm_crypto_sign ssl (common_header expires BM_OBJECT_MSG 1 stream @ wrapping_plain attacker (ui_ripe ident))
      (ii_priv_signing attacker) = Some sig"
    and "bm_crypto_ecies_encrypt ssl rp (Some iv) (signed_part (wrapping_plain attacker (ui_ripe ident)) sig) to_pub
      = Some ct"
  shows "bm_trial_decrypt_msg ssl mem (ident # kr)
      (be64 nonce @ common_header expires BM_OBJECT_MSG 1 stream @ ct) = Fault"
proof -
  let ?h = "common_header expires BM_OBJECT_MSG 1 stream" and ?plain = "wrapping_plain attacker (ui_ripe ident)"
  have "length (signed_part ?plain sig) \<le> 400"
    using sign_length [OF assms(1,7)] length_sender_octets [OF identity_keys(1,3) [OF assms(1,2)]] assms(3)
      bm_varint_size_bounds(2) [of "word_of_nat (length sig)"] bm_varint_size_bounds(2) [of 1]
    by (simp add: signed_part_def wrapping_plain_def)
  then have dec: "bm_crypto_ecies_decrypt ssl ct (ui_priv_encryption ident) = Some (signed_part ?plain sig)"
    by (intro ecies_decrypt_encrypt [OF assms(1,6,4) _ assms(8)]) simp
  have hdr: "bm_object_parse_header (be64 nonce @ ?h @ ct) =
      Some \<lparr>oh_nonce = nonce, oh_expires_time = expires, oh_object_type = BM_OBJECT_MSG, oh_version = 1,
        oh_stream = stream, header_len = 20 + bm_varint_size 1 + bm_varint_size stream\<rparr>"
    by (rule bm_object_parse_common_header)
  have "drop (20 + bm_varint_size 1 + bm_varint_size stream) (be64 nonce @ ?h @ ct) = ct" by simp
  then show ?thesis
    unfolding bm_trial_decrypt_msg_def hdr
    using dec wrapping_body_faults [OF assms(1-3,7), of
      "\<lparr>oh_nonce = nonce, oh_expires_time = expires, oh_object_type = BM_OBJECT_MSG, oh_version = 1,
        oh_stream = stream, header_len = 20 + bm_varint_size 1 + bm_varint_size stream\<rparr>"
      "be64 nonce @ ?h @ ct" "be64 nonce" ct mem] assms(5)
    by simp
qed

theorem msg_length_wrap_faults_witness:
  "\<exists>ct. bm_trial_decrypt_msg plain_ssl (\<lambda>n. n < 1000) [sample_receiver]
     (be64 3 @ common_header 0 BM_OBJECT_MSG 1 1 @ ct) = Fault"
proof -
  let ?h = "common_header 0 BM_OBJECT_MSG 1 1" and ?plain = "wrapping_plain sample_sender (ui_ripe sample_receiver)"
  obtain sig where sig: "bm_crypto_sign plain_ssl (?h @ ?plain) (ii_priv_signing sample_sender) = Some sig"
    using plain_sign by blast
  have "length (signed_part ?plain sig) < 2 ^ 31"
    using sign_length [OF plain_ssl_ok sig] bm_varint_size_bounds(2) [of "word_of_nat (length sig)"]
      length_sender_octets [of sample_sender] bm_varint_size_bounds(2) [of 1]
    by (simp add: signed_part_def wrapping_plain_def sample_receiver_def) (simp add: sample_sender_def)
  then obtain ct where ct: "bm_crypto_ecies_encrypt plain_ssl (Some [2]) (Some (replicate 16 1))
      (signed_part ?plain sig) (4 # pad_to 64 [5]) = Some ct"
    using plain_encrypt [of "signed_part ?plain sig" "[2]" "replicate 16 1" "4 # pad_to 64 [5]"] by auto
  have "bm_trial_decrypt_msg plain_ssl (\<lambda>n. n < 1000) [sample_receiver] (be64 3 @ ?h @ ct) = Fault"
    by (rule msg_length_wrap_faults [OF plain_ssl_ok sample_sender_ok _ _ _ _ sig ct])
      (simp_all add: sample_receiver_def plain_public_key)
  then show ?thesis by blast
qed

end
