(* ===== verification/Identity_Store.thy ===== *)
theory Identity_Store
  imports Bm_Prelude "HOL-Library.List_Lexorder" "HOL-Library.Product_Lexorder"
begin

text \<open>
  The table of the user's identities with their wrapped private keys, and the vault
  (\<open>src/core/identity_store.c\<close>). A table is the list of its rows in the order of insertion; \<open>ok\<close> says
  whether SQLite carries out a statement. The pubkey tables of the same database are in \<open>Pubkey_Cache\<close>.
\<close>

abbreviation BM_IDENTITY_ADDRESS_MAX :: nat where "BM_IDENTITY_ADDRESS_MAX \<equiv> 64"
abbreviation BM_IDENTITY_LABEL_MAX :: nat where "BM_IDENTITY_LABEL_MAX \<equiv> 128"
abbreviation BM_IDENTITY_KDF_ALGO_MAX :: nat where "BM_IDENTITY_KDF_ALGO_MAX \<equiv> 16"
abbreviation BM_IDENTITY_KDF_PARAMS_MAX :: nat where "BM_IDENTITY_KDF_PARAMS_MAX \<equiv> 128"
abbreviation BM_IDENTITY_KDF_SALT_LEN :: nat where "BM_IDENTITY_KDF_SALT_LEN \<equiv> 16"
abbreviation BM_IDENTITY_WRAPPED_KEY_LEN :: nat where "BM_IDENTITY_WRAPPED_KEY_LEN \<equiv> 60"

record bm_identity_row =
  ir_address :: bytes
  ir_label :: bytes
  ir_enabled :: int
  ir_is_chan :: int
  ir_address_version :: int
  ir_stream :: int
  ir_signing_pubkey :: bytes
  ir_encryption_pubkey :: bytes
  ir_kdf_algo :: bytes
  ir_kdf_salt :: bytes
  ir_kdf_params :: bytes
  ir_wrapped_priv_signing_key :: bytes
  ir_wrapped_priv_encryption_key :: bytes
  ir_nonce_trials_per_byte :: u64
  ir_payload_length_extra_bytes :: u64
  ir_created_time :: int

record kdf_vault =
  vault_salt :: bytes
  vault_kdf_params :: bytes
  vault_canary :: bytes

record identity_db =
  identities :: "bm_identity_row list"
  vault :: "kdf_vault option"

text \<open>The primary key refuses a second row with the same address.\<close>

definition bm_identity_store_insert :: "bool \<Rightarrow> bm_identity_row \<Rightarrow> identity_db \<Rightarrow> int \<times> identity_db" where
  "bm_identity_store_insert ok row db =
     (if \<not> ok \<or> c_str (ir_address row) \<in> ir_address ` set (identities db) then (-1, db)
      else (0, db\<lparr>identities := identities db @ [row\<lparr>ir_address := c_str (ir_address row), ir_label := c_str (ir_label row),
             ir_kdf_algo := c_str (ir_kdf_algo row), ir_kdf_params := c_str (ir_kdf_params row)\<rparr>]\<rparr>))"

definition find_row :: "bytes \<Rightarrow> identity_db \<Rightarrow> bm_identity_row option" where
  "find_row address db = find (\<lambda>r. ir_address r = c_str address) (identities db)"

text \<open>A row as the struct: the strings are cut to their arrays.\<close>

definition bm_identity_store_load :: "bool \<Rightarrow> bytes \<Rightarrow> identity_db \<Rightarrow> bm_identity_row option" where
  "bm_identity_store_load ok address db =
     (if \<not> ok then None
      else (case find_row address db of
              None \<Rightarrow> None
            | Some r \<Rightarrow>
                if length (ir_signing_pubkey r) \<noteq> 65 \<or> length (ir_encryption_pubkey r) \<noteq> 65 then None
                else if length (ir_kdf_salt r) \<noteq> BM_IDENTITY_KDF_SALT_LEN then None
                else if length (ir_wrapped_priv_signing_key r) \<noteq> BM_IDENTITY_WRAPPED_KEY_LEN \<or>
                  length (ir_wrapped_priv_encryption_key r) \<noteq> BM_IDENTITY_WRAPPED_KEY_LEN then None
                else Some (r\<lparr>ir_address := take (BM_IDENTITY_ADDRESS_MAX - 1) (ir_address r),
                  ir_label := take (BM_IDENTITY_LABEL_MAX - 1) (ir_label r),
                  ir_kdf_algo := take (BM_IDENTITY_KDF_ALGO_MAX - 1) (ir_kdf_algo r),
                  ir_kdf_params := take (BM_IDENTITY_KDF_PARAMS_MAX - 1) (ir_kdf_params r)\<rparr>)))"

definition bm_identity_store_delete :: "bool \<Rightarrow> bytes \<Rightarrow> identity_db \<Rightarrow> int \<times> identity_db" where
  "bm_identity_store_delete ok address db =
     (if \<not> ok then (-1, db)
      else (0, db\<lparr>identities := filter (\<lambda>r. ir_address r \<noteq> c_str address) (identities db)\<rparr>))"

definition update_row :: "bytes \<Rightarrow> (bm_identity_row \<Rightarrow> bm_identity_row) \<Rightarrow> identity_db \<Rightarrow> identity_db" where
  "update_row address f db = db\<lparr>identities := map (\<lambda>r. if ir_address r = c_str address then f r else r) (identities db)\<rparr>"

definition bm_identity_store_set_is_chan :: "bool \<Rightarrow> bytes \<Rightarrow> int \<Rightarrow> identity_db \<Rightarrow> int \<times> identity_db" where
  "bm_identity_store_set_is_chan ok address is_chan db =
     (if \<not> ok then (-1, db) else (0, update_row address (\<lambda>r. r\<lparr>ir_is_chan := is_chan\<rparr>) db))"

definition bm_identity_store_update_label :: "bool \<Rightarrow> bytes \<Rightarrow> bytes \<Rightarrow> identity_db \<Rightarrow> int \<times> identity_db" where
  "bm_identity_store_update_label ok address label db =
     (if \<not> ok then (-1, db)
      else (if find_row address db = None then -1 else 0, update_row address (\<lambda>r. r\<lparr>ir_label := c_str label\<rparr>) db))"

record bm_identity_summary =
  is_address :: bytes
  is_label :: bytes
  is_enabled :: int
  is_is_chan :: int

definition collect_identity_summaries :: "bm_identity_row list \<Rightarrow> bm_identity_summary list" where
  "collect_identity_summaries rows =
     map (\<lambda>r. \<lparr>is_address = take (BM_IDENTITY_ADDRESS_MAX - 1) (ir_address r),
       is_label = take (BM_IDENTITY_LABEL_MAX - 1) (ir_label r), is_enabled = ir_enabled r, is_is_chan = ir_is_chan r\<rparr>) rows"

definition bm_identity_store_list :: "bool \<Rightarrow> identity_db \<Rightarrow> bm_identity_summary list option" where
  "bm_identity_store_list ok db =
     (if \<not> ok then None else Some (collect_identity_summaries (sort_key ir_created_time (identities db))))"

definition bm_identity_store_list_by_version ::
  "bool \<Rightarrow> int \<Rightarrow> nat \<Rightarrow> nat \<Rightarrow> identity_db \<Rightarrow> bm_identity_summary list option" where
  "bm_identity_store_list_by_version ok address_version limit offset db =
     (if \<not> ok then None
      else Some (collect_identity_summaries (take limit (drop offset
        (sort_key (\<lambda>r. (ir_created_time r, ir_address r))
          (filter (\<lambda>r. ir_address_version r = address_version) (identities db)))))))"

definition bm_identity_store_count_by_version :: "bool \<Rightarrow> int \<Rightarrow> identity_db \<Rightarrow> nat option" where
  "bm_identity_store_count_by_version ok address_version db =
     (if \<not> ok then None else Some (length (filter (\<lambda>r. ir_address_version r = address_version) (identities db))))"

definition bm_identity_store_load_vault :: "bool \<Rightarrow> identity_db \<Rightarrow> kdf_vault option" where
  "bm_identity_store_load_vault ok db =
     (if \<not> ok then None
      else (case vault db of
              None \<Rightarrow> None
            | Some v \<Rightarrow>
                if length (vault_salt v) \<noteq> BM_IDENTITY_KDF_SALT_LEN \<or> length (vault_canary v) \<noteq> BM_IDENTITY_WRAPPED_KEY_LEN
                then None
                else Some (v\<lparr>vault_kdf_params := take (BM_IDENTITY_KDF_PARAMS_MAX - 1) (vault_kdf_params v)\<rparr>)))"

text \<open>There is at most one vault: its row has the key 0.\<close>

definition bm_identity_store_create_vault :: "bool \<Rightarrow> bytes \<Rightarrow> bytes \<Rightarrow> bytes \<Rightarrow> identity_db \<Rightarrow> int \<times> identity_db" where
  "bm_identity_store_create_vault ok salt params canary db =
     (if \<not> ok \<or> vault db \<noteq> None then (-1, db)
      else (0, db\<lparr>vault := Some \<lparr>vault_salt = salt, vault_kdf_params = c_str params, vault_canary = canary\<rparr>\<rparr>))"

definition bm_identity_store_update_wrapped_keys ::
  "bool \<Rightarrow> bytes \<Rightarrow> bytes \<Rightarrow> bytes \<Rightarrow> bytes \<Rightarrow> bytes \<Rightarrow> identity_db \<Rightarrow> int \<times> identity_db" where
  "bm_identity_store_update_wrapped_keys ok address kdf_algo kdf_salt wrapped_signing wrapped_encryption db =
     (if \<not> ok then (-1, db)
      else (0, update_row address (\<lambda>r. r\<lparr>ir_kdf_algo := c_str kdf_algo, ir_kdf_salt := kdf_salt, ir_kdf_params := [],
             ir_wrapped_priv_signing_key := wrapped_signing, ir_wrapped_priv_encryption_key := wrapped_encryption\<rparr>) db))"

section \<open>The table as a map\<close>

lemma find_row_update:
  assumes "\<And>r. ir_address (f r) = ir_address r"
  shows "find_row a (update_row b f db) = (if c_str a = c_str b then map_option f (find_row a db) else find_row a db)"
proof -
  have "find (\<lambda>r. ir_address r = x) (map (\<lambda>r. if ir_address r = y then f r else r) rows) =
      (if x = y then map_option f (find (\<lambda>r. ir_address r = x) rows) else find (\<lambda>r. ir_address r = x) rows)" for x y rows
    by (induction rows) (auto simp: assms)
  then show ?thesis by (simp add: find_row_def update_row_def)
qed

lemma find_append: "find P (xs @ ys) = (case find P xs of None \<Rightarrow> find P ys | Some x \<Rightarrow> Some x)"
  by (induction xs) auto

lemma find_row_insert:
  assumes "bm_identity_store_insert ok row db = (0, db')"
  shows "find_row a db' = (if c_str a = c_str (ir_address row)
      then Some (row\<lparr>ir_address := c_str (ir_address row), ir_label := c_str (ir_label row),
        ir_kdf_algo := c_str (ir_kdf_algo row), ir_kdf_params := c_str (ir_kdf_params row)\<rparr>) else find_row a db)"
    "find_row (ir_address row) db = None" "vault db' = vault db"
proof -
  have new: "c_str (ir_address row) \<notin> ir_address ` set (identities db)"
    using assms by (auto simp: bm_identity_store_insert_def split: if_splits)
  then show none: "find_row (ir_address row) db = None" by (auto simp: find_row_def find_None_iff image_iff)
  then show "find_row a db' = (if c_str a = c_str (ir_address row)
      then Some (row\<lparr>ir_address := c_str (ir_address row), ir_label := c_str (ir_label row),
        ir_kdf_algo := c_str (ir_kdf_algo row), ir_kdf_params := c_str (ir_kdf_params row)\<rparr>) else find_row a db)"
    "vault db' = vault db"
    using assms by (auto simp: bm_identity_store_insert_def find_row_def find_append split: if_splits option.splits)
qed

lemma find_row_delete:
  "find_row a (snd (bm_identity_store_delete True b db)) = (if c_str a = c_str b then None else find_row a db)"
proof -
  have "find (\<lambda>r. ir_address r = x) (filter (\<lambda>r. ir_address r \<noteq> y) rows) =
      (if x = y then None else find (\<lambda>r. ir_address r = x) rows)" for x y rows
    by (induction rows) auto
  from this [of "c_str a" "c_str b" "identities db"] show ?thesis by (simp add: bm_identity_store_delete_def find_row_def)
qed

end
