(* ===== verification/Keyring.thy ===== *)
theory Keyring
  imports Trial_Decrypt Identity_Store
begin

text \<open>
  The life of the private keys (\<open>src/core/keyring.c\<close>, without the post-quantum build): they are stored
  wrapped under a key derived from a passphrase, either by scrypt for each identity or through the vault,
  whose master key gives the wrapping keys by HKDF, and unwrapped into the keyring in memory. The keyring
  is the list of its entries, the newest first; every operation holds its lock.

  The theory shows that no operation loses a key: what was stored or moved under a passphrase can be
  exported with that passphrase until the identity is deleted.
\<close>

abbreviation BM_KEYRING_MAX_ADDRESS_LEN :: nat where "BM_KEYRING_MAX_ADDRESS_LEN \<equiv> 64"
abbreviation BM_KEYRING_WRAP_OVERHEAD :: nat where "BM_KEYRING_WRAP_OVERHEAD \<equiv> 28"
abbreviation BM_KEYRING_SCRYPT_N :: u64 where "BM_KEYRING_SCRYPT_N \<equiv> 32768"
abbreviation BM_KEYRING_SCRYPT_R :: u64 where "BM_KEYRING_SCRYPT_R \<equiv> 8"
abbreviation BM_KEYRING_SCRYPT_P :: u64 where "BM_KEYRING_SCRYPT_P \<equiv> 1"
abbreviation BM_KEYRING_UNLOCK_ALL_MAX_IDENTITIES :: nat where "BM_KEYRING_UNLOCK_ALL_MAX_IDENTITIES \<equiv> 10000"

section \<open>Key derivation and wrapping\<close>

text \<open>
  The primitives of OpenSSL: scrypt (passphrase, salt, N, r, p), the expansion of HKDF with SHA-256
  (key, salt, info), and AES-256-GCM (key, nonce, associated data), which returns the ciphertext and
  the tag and checks the tag when it opens.
\<close>

record kdf_lib =
  EVP_PBE_scrypt :: "bytes \<Rightarrow> bytes \<Rightarrow> u64 \<Rightarrow> u64 \<Rightarrow> u64 \<Rightarrow> bytes option"
  HKDF_expand :: "bytes \<Rightarrow> bytes \<Rightarrow> bytes \<Rightarrow> bytes option"
  GCM_seal :: "bytes \<Rightarrow> bytes \<Rightarrow> bytes \<Rightarrow> bytes \<Rightarrow> (bytes \<times> bytes) option"
  GCM_open :: "bytes \<Rightarrow> bytes \<Rightarrow> bytes \<Rightarrow> bytes \<Rightarrow> bytes \<Rightarrow> bytes option"

text \<open>
  What opening relies on: a sealed text opens under the key, nonce and associated data it was sealed with,
  and ciphertexts are as long as their texts.
\<close>

definition gcm_ok :: "kdf_lib \<Rightarrow> bool" where
  "gcm_ok lib \<longleftrightarrow> (\<forall>key nonce aad m c tag. GCM_seal lib key nonce aad m = Some (c, tag) \<longrightarrow>
     length c = length m \<and> length tag = 16 \<and> GCM_open lib key nonce aad c tag = Some m) \<and>
     (\<forall>key nonce aad m c tag. GCM_open lib key nonce aad c tag = Some m \<longrightarrow> length m = length c)"

text \<open>\<open>sscanf\<close> with the format \<open>{"N":%llu,"r":%u,"p":%u}\<close>.\<close>

definition scan_lit :: "bytes \<Rightarrow> bytes \<Rightarrow> bytes option" where
  "scan_lit p s = (if take (length p) s = p then Some (drop (length p) s) else None)"

definition is_space :: "byte \<Rightarrow> bool" where "is_space b \<longleftrightarrow> b = 32 \<or> 9 \<le> b \<and> b \<le> 13"
definition scan_digit :: "byte \<Rightarrow> bool" where "scan_digit b \<longleftrightarrow> 48 \<le> b \<and> b \<le> 57"

definition scan_unsigned :: "bytes \<Rightarrow> (u64 \<times> bytes) option" where
  "scan_unsigned s =
     (let s1 = dropWhile is_space s;
          neg = (case s1 of [] \<Rightarrow> False | c # _ \<Rightarrow> c = 45);
          s2 = (case s1 of [] \<Rightarrow> [] | c # t \<Rightarrow> if c = 45 \<or> c = 43 then t else s1);
          ds = takeWhile scan_digit s2;
          v = foldl (\<lambda>n d. 10 * n + int (unat (d - 48))) 0 ds
      in if ds = [] then None
         else Some (if 2 ^ 64 \<le> v then 0xffffffffffffffff else word_of_int (if neg then - v else v), drop (length ds) s2))"

definition parse_kdf_params :: "bytes \<Rightarrow> (u64 \<times> u64 \<times> u64) option" where
  "parse_kdf_params json =
     Option.bind (scan_lit (lit ''{\"N\":'') (c_str json)) (\<lambda>s1. Option.bind (scan_unsigned s1) (\<lambda>(n, s2).
     Option.bind (scan_lit (lit '',\"r\":'') s2) (\<lambda>s3. Option.bind (scan_unsigned s3) (\<lambda>(r, s4).
     Option.bind (scan_lit (lit '',\"p\":'') s4) (\<lambda>s5. Option.bind (scan_unsigned s5) (\<lambda>(p, s6).
       Some (n, take_bit 32 r, take_bit 32 p)))))))"

definition scrypt_params :: bytes where
  "scrypt_params = lit ''{\"N\":32768,\"r\":8,\"p\":1}''"

definition derive_kek :: "kdf_lib \<Rightarrow> bytes \<Rightarrow> bytes \<Rightarrow> u64 \<Rightarrow> u64 \<Rightarrow> u64 \<Rightarrow> bytes option" where
  "derive_kek lib passphrase salt n r p = EVP_PBE_scrypt lib (c_str passphrase) salt n r p"

text \<open>\<open>nonce\<close>: what \<open>RAND_bytes\<close> gives.\<close>

definition bm_keyring_internal_wrap :: "kdf_lib \<Rightarrow> bytes option \<Rightarrow> bytes \<Rightarrow> bytes \<Rightarrow> bytes \<Rightarrow> bytes option" where
  "bm_keyring_internal_wrap lib nonce kek aad plaintext =
     Option.bind nonce (\<lambda>n. map_option (\<lambda>(ciphertext, tag). n @ ciphertext @ tag) (GCM_seal lib kek n aad plaintext))"

definition bm_keyring_internal_unwrap :: "kdf_lib \<Rightarrow> bytes \<Rightarrow> bytes \<Rightarrow> bytes \<Rightarrow> bytes option" where
  "bm_keyring_internal_unwrap lib kek aad inp =
     (if length inp < BM_KEYRING_WRAP_OVERHEAD then None
      else
        let pt_len = length inp - BM_KEYRING_WRAP_OVERHEAD
        in GCM_open lib kek (take 12 inp) aad (take pt_len (drop 12 inp)) (take 16 (drop (12 + pt_len) inp)))"

definition hkdf_expand_wrap_key :: "kdf_lib \<Rightarrow> bytes \<Rightarrow> bytes \<Rightarrow> bytes \<Rightarrow> bytes option" where
  "hkdf_expand_wrap_key lib master_kek row_salt address = HKDF_expand lib master_kek row_salt (c_str address)"

definition derive_master_kek :: "kdf_lib \<Rightarrow> bytes \<Rightarrow> bytes \<Rightarrow> bytes \<Rightarrow> bytes option" where
  "derive_master_kek lib passphrase salt params =
     Option.bind (parse_kdf_params params) (\<lambda>(n, r, p). derive_kek lib passphrase salt n r p)"

definition VAULT_CANARY_PLAINTEXT :: bytes where
  "VAULT_CANARY_PLAINTEXT = lit ''bm-vault-canary-v1-ok'' @ replicate 11 0"

definition VAULT_CANARY_AAD :: bytes where
  "VAULT_CANARY_AAD = lit ''bm-vault-canary-v1-ctx''"

definition verify_vault_canary :: "kdf_lib \<Rightarrow> bytes \<Rightarrow> bytes \<Rightarrow> bool" where
  "verify_vault_canary lib master_kek canary \<longleftrightarrow>
     bm_keyring_internal_unwrap lib master_kek VAULT_CANARY_AAD canary = Some VAULT_CANARY_PLAINTEXT"

section \<open>The keyring in memory\<close>

type_synonym keyring = "bm_unlocked_identity list"

definition bm_keyring_init :: keyring where "bm_keyring_init = []"

definition bm_keyring_destroy :: "keyring \<Rightarrow> keyring" where "bm_keyring_destroy kr = []"

text \<open>\<open>mem\<close>: the entry is allocated; \<open>now\<close> is the time.\<close>

definition add_unlocked_entry ::
  "openssl \<Rightarrow> bool \<Rightarrow> int \<Rightarrow> bm_identity_row \<Rightarrow> bytes \<Rightarrow> bytes \<Rightarrow> keyring \<Rightarrow> int \<times> keyring" where
  "add_unlocked_entry ssl mem now row sign_priv enc_priv kr =
     (if \<not> mem then (-1, kr)
      else (0, \<lparr>ui_address = take (BM_KEYRING_MAX_ADDRESS_LEN - 1) (c_str (ir_address row)),
        ui_ripe = bm_address_calc_ripe ssl (ir_signing_pubkey row) (ir_encryption_pubkey row),
        ui_priv_signing = sign_priv, ui_priv_encryption = enc_priv,
        ui_pub_signing = ir_signing_pubkey row, ui_pub_encryption = ir_encryption_pubkey row,
        ui_address_version = word_of_int (ir_address_version row), ui_stream = word_of_int (ir_stream row),
        ui_nonce_trials_per_byte = ir_nonce_trials_per_byte row,
        ui_payload_length_extra_bytes = ir_payload_length_extra_bytes row,
        ui_is_chan = (ir_is_chan row \<noteq> 0), ui_unlocked_at = now\<rparr> # kr))"

fun mark_unlocked_entry_as_chan :: "bytes \<Rightarrow> keyring \<Rightarrow> keyring" where
  "mark_unlocked_entry_as_chan address [] = []"
| "mark_unlocked_entry_as_chan address (cur # kr) =
     (if c_str (ui_address cur) = c_str address then cur\<lparr>ui_is_chan := True\<rparr> # kr
      else cur # mark_unlocked_entry_as_chan address kr)"

text \<open>\<open>strncmp\<close> over the length of the array\<close>

definition same_address :: "bytes \<Rightarrow> bm_unlocked_identity \<Rightarrow> bool" where
  "same_address address cur \<longleftrightarrow>
     take BM_KEYRING_MAX_ADDRESS_LEN (c_str (ui_address cur)) = take BM_KEYRING_MAX_ADDRESS_LEN (c_str address)"

definition bm_keyring_find_by_ripe :: "bytes \<Rightarrow> keyring \<Rightarrow> bm_unlocked_identity option" where
  "bm_keyring_find_by_ripe r kr = find (\<lambda>cur. ui_ripe cur = take 20 r) kr"

definition bm_keyring_find_by_ripe_version :: "bytes \<Rightarrow> u64 \<Rightarrow> u64 \<Rightarrow> keyring \<Rightarrow> bm_unlocked_identity option" where
  "bm_keyring_find_by_ripe_version r address_version stream kr =
     find (\<lambda>cur. ui_address_version cur = address_version \<and> ui_stream cur = stream \<and> ui_ripe cur = take 20 r) kr"

definition bm_keyring_find_by_tag :: "openssl \<Rightarrow> bytes \<Rightarrow> keyring \<Rightarrow> bm_unlocked_identity option" where
  "bm_keyring_find_by_tag ssl tag kr =
     find (\<lambda>cur. 4 \<le> ui_address_version cur \<and>
       snd (bm_address_derive_secret_and_tag ssl (ui_address_version cur) (ui_stream cur) (ui_ripe cur)) = take 32 tag) kr"

definition bm_keyring_find_by_address :: "bytes \<Rightarrow> keyring \<Rightarrow> bm_unlocked_identity option" where
  "bm_keyring_find_by_address address kr = find (same_address address) kr"

text \<open>The first entry with the address is removed.\<close>

fun bm_keyring_lock :: "bytes \<Rightarrow> keyring \<Rightarrow> int \<times> keyring" where
  "bm_keyring_lock address [] = (-1, [])"
| "bm_keyring_lock address (cur # kr) =
     (if same_address address cur then (0, kr)
      else (case bm_keyring_lock address kr of (rc, kr') \<Rightarrow> (rc, cur # kr')))"

definition bm_keyring_lock_all :: "keyring \<Rightarrow> keyring" where "bm_keyring_lock_all kr = []"

section \<open>Storing keys\<close>

text \<open>The two nonces are drawn one after the other.\<close>

definition store_new_identity_with_kek ::
  "kdf_lib \<Rightarrow> bool \<Rightarrow> bytes option \<times> bytes option \<Rightarrow> int \<Rightarrow> bytes \<Rightarrow> bytes option \<Rightarrow> int \<Rightarrow> int \<Rightarrow> bytes \<Rightarrow> bytes \<Rightarrow> bytes \<Rightarrow> bytes
     \<Rightarrow> bytes \<Rightarrow> bytes \<Rightarrow> bytes \<Rightarrow> bytes \<Rightarrow> u64 \<Rightarrow> u64 \<Rightarrow> identity_db \<Rightarrow> int \<times> identity_db" where
  "store_new_identity_with_kek lib ok nonces now address label address_version stream sign_pub enc_pub
       sign_priv enc_priv kdf_algo kdf_salt kdf_params kek nonce_trials extra_bytes db =
     (case (bm_keyring_internal_wrap lib (fst nonces) kek (c_str address) sign_priv,
            bm_keyring_internal_wrap lib (snd nonces) kek (c_str address) enc_priv) of
        (Some ws, Some we) \<Rightarrow>
          bm_identity_store_insert ok
            \<lparr>ir_address = take (BM_IDENTITY_ADDRESS_MAX - 1) (c_str address),
             ir_label = take (BM_IDENTITY_LABEL_MAX - 1) (case label of None \<Rightarrow> [] | Some l \<Rightarrow> c_str l),
             ir_enabled = 1, ir_is_chan = 0, ir_address_version = address_version, ir_stream = stream,
             ir_signing_pubkey = sign_pub, ir_encryption_pubkey = enc_pub,
             ir_kdf_algo = take (BM_IDENTITY_KDF_ALGO_MAX - 1) (c_str kdf_algo), ir_kdf_salt = kdf_salt,
             ir_kdf_params = take (BM_IDENTITY_KDF_PARAMS_MAX - 1) (c_str kdf_params),
             ir_wrapped_priv_signing_key = ws, ir_wrapped_priv_encryption_key = we,
             ir_nonce_trials_per_byte = nonce_trials, ir_payload_length_extra_bytes = extra_bytes,
             ir_created_time = now\<rparr> db
      | _ \<Rightarrow> (-1, db))"

definition bm_keyring_internal_new_scrypt_kek :: "kdf_lib \<Rightarrow> bytes option \<Rightarrow> bytes \<Rightarrow> (bytes \<times> bytes \<times> bytes) option" where
  "bm_keyring_internal_new_scrypt_kek lib salt passphrase =
     Option.bind salt (\<lambda>s. map_option (\<lambda>kek. (s, scrypt_params, kek))
       (derive_kek lib passphrase s BM_KEYRING_SCRYPT_N BM_KEYRING_SCRYPT_R BM_KEYRING_SCRYPT_P))"

text \<open>What the system gives for one call: the answers of SQLite and the random bytes in the order of the calls, the time, memory.\<close>

record kr_env =
  ke_ok :: "nat \<Rightarrow> bool"
  ke_rnd :: "nat \<Rightarrow> bytes option"
  ke_now :: int
  ke_mem :: bool

definition bm_keyring_create_identity ::
  "kdf_lib \<Rightarrow> kr_env \<Rightarrow> bytes \<Rightarrow> bytes option \<Rightarrow> int \<Rightarrow> int \<Rightarrow> bytes \<Rightarrow> bytes \<Rightarrow> bytes \<Rightarrow> bytes \<Rightarrow> bytes \<Rightarrow> u64 \<Rightarrow> u64
     \<Rightarrow> identity_db \<Rightarrow> int \<times> identity_db" where
  "bm_keyring_create_identity lib env address label address_version stream sign_pub enc_pub
       sign_priv enc_priv passphrase nonce_trials extra_bytes db =
     (case bm_keyring_internal_new_scrypt_kek lib (ke_rnd env 0) passphrase of
        None \<Rightarrow> (-1, db)
      | Some (salt, params, kek) \<Rightarrow>
          store_new_identity_with_kek lib (ke_ok env 0) (ke_rnd env 1, ke_rnd env 2) (ke_now env) address label
            address_version stream sign_pub enc_pub sign_priv enc_priv (lit ''scrypt'') salt params kek
            nonce_trials extra_bytes db)"

text \<open>The master key of the vault, which is created when there is none.\<close>

definition bm_keyring_resolve_or_create_vault_master_kek ::
  "kdf_lib \<Rightarrow> kr_env \<Rightarrow> bytes \<Rightarrow> identity_db \<Rightarrow> bytes option \<times> identity_db" where
  "bm_keyring_resolve_or_create_vault_master_kek lib env passphrase db =
     (case bm_identity_store_load_vault (ke_ok env 0) db of
        Some v \<Rightarrow>
          (case derive_master_kek lib passphrase (vault_salt v) (vault_kdf_params v) of
             None \<Rightarrow> (None, db)
           | Some master \<Rightarrow> (if verify_vault_canary lib master (vault_canary v) then Some master else None, db))
      | None \<Rightarrow>
          (case ke_rnd env 0 of
             None \<Rightarrow> (None, db)
           | Some salt \<Rightarrow>
               (case derive_kek lib passphrase salt BM_KEYRING_SCRYPT_N BM_KEYRING_SCRYPT_R BM_KEYRING_SCRYPT_P of
                  None \<Rightarrow> (None, db)
                | Some master \<Rightarrow>
                    (case bm_keyring_internal_wrap lib (ke_rnd env 1) master VAULT_CANARY_AAD VAULT_CANARY_PLAINTEXT of
                       None \<Rightarrow> (None, db)
                     | Some canary \<Rightarrow>
                         (case bm_identity_store_create_vault (ke_ok env 1) salt scrypt_params canary db of
                            (rc, db') \<Rightarrow> (if rc \<noteq> 0 then None else Some master, db'))))))"

text \<open>\<open>i\<close> and \<open>j\<close>: how many answers and random strings the caller has used up.\<close>

definition bm_keyring_import_identity_with_master_kek ::
  "kdf_lib \<Rightarrow> kr_env \<Rightarrow> nat \<Rightarrow> nat \<Rightarrow> bytes \<Rightarrow> bytes option \<Rightarrow> int \<Rightarrow> int \<Rightarrow> bytes \<Rightarrow> bytes \<Rightarrow> bytes \<Rightarrow> bytes \<Rightarrow> bytes \<Rightarrow> u64 \<Rightarrow> u64
     \<Rightarrow> identity_db \<Rightarrow> int \<times> identity_db" where
  "bm_keyring_import_identity_with_master_kek lib env i j address label address_version stream sign_pub enc_pub
       sign_priv enc_priv master_kek nonce_trials extra_bytes db =
     (case ke_rnd env j of
        None \<Rightarrow> (-1, db)
      | Some row_salt \<Rightarrow>
          (case hkdf_expand_wrap_key lib master_kek row_salt address of
             None \<Rightarrow> (-1, db)
           | Some kek \<Rightarrow>
               store_new_identity_with_kek lib (ke_ok env i) (ke_rnd env (j + 1), ke_rnd env (j + 2)) (ke_now env) address label
                 address_version stream sign_pub enc_pub sign_priv enc_priv (lit ''vault-hkdf'') row_salt []
                 kek nonce_trials extra_bytes db))"

definition bm_keyring_import_identity ::
  "kdf_lib \<Rightarrow> kr_env \<Rightarrow> bytes \<Rightarrow> bytes option \<Rightarrow> int \<Rightarrow> int \<Rightarrow> bytes \<Rightarrow> bytes \<Rightarrow> bytes \<Rightarrow> bytes \<Rightarrow> bytes \<Rightarrow> u64 \<Rightarrow> u64
     \<Rightarrow> identity_db \<Rightarrow> int \<times> identity_db" where
  "bm_keyring_import_identity lib env address label address_version stream sign_pub enc_pub
       sign_priv enc_priv passphrase nonce_trials extra_bytes db =
     (case bm_keyring_resolve_or_create_vault_master_kek lib env passphrase db of
        (None, db1) \<Rightarrow> (-1, db1)
      | (Some master, db1) \<Rightarrow>
          bm_keyring_import_identity_with_master_kek lib env 2 2 address label address_version stream sign_pub enc_pub
            sign_priv enc_priv master nonce_trials extra_bytes db1)"

section \<open>Unlocking and exporting\<close>

definition bm_keyring_internal_resolve_kek ::
  "kdf_lib \<Rightarrow> bool \<Rightarrow> bytes \<Rightarrow> bytes \<Rightarrow> bytes \<Rightarrow> bytes \<Rightarrow> bytes \<Rightarrow> identity_db \<Rightarrow> bytes option" where
  "bm_keyring_internal_resolve_kek lib ok kdf_algo kdf_salt kdf_params address passphrase db =
     (if c_str kdf_algo = lit ''vault-hkdf''
      then Option.bind (bm_identity_store_load_vault ok db) (\<lambda>v.
           Option.bind (derive_master_kek lib passphrase (vault_salt v) (vault_kdf_params v)) (\<lambda>master.
             if \<not> verify_vault_canary lib master (vault_canary v) then None
             else hkdf_expand_wrap_key lib master kdf_salt address))
      else Option.bind (parse_kdf_params kdf_params) (\<lambda>(n, r, p). derive_kek lib passphrase kdf_salt n r p))"

definition resolve_kek_for_row :: "kdf_lib \<Rightarrow> bool \<Rightarrow> bm_identity_row \<Rightarrow> bytes \<Rightarrow> identity_db \<Rightarrow> bytes option" where
  "resolve_kek_for_row lib ok row passphrase db =
     bm_keyring_internal_resolve_kek lib ok (ir_kdf_algo row) (ir_kdf_salt row) (ir_kdf_params row) (ir_address row) passphrase db"

definition unwrap_row :: "kdf_lib \<Rightarrow> bytes \<Rightarrow> bytes \<Rightarrow> bm_identity_row \<Rightarrow> (bytes \<times> bytes) option" where
  "unwrap_row lib kek address row =
     Option.bind (bm_keyring_internal_unwrap lib kek (c_str address) (ir_wrapped_priv_signing_key row)) (\<lambda>ps.
       map_option (Pair ps) (bm_keyring_internal_unwrap lib kek (c_str address) (ir_wrapped_priv_encryption_key row)))"

definition unlock_with_kek ::
  "openssl \<Rightarrow> kdf_lib \<Rightarrow> bool \<Rightarrow> int \<Rightarrow> bm_identity_row \<Rightarrow> bytes \<Rightarrow> keyring \<Rightarrow> int \<times> keyring" where
  "unlock_with_kek ssl lib mem now row kek kr =
     (case unwrap_row lib kek (ir_address row) row of
        None \<Rightarrow> (-1, kr)
      | Some (ps, pe) \<Rightarrow> add_unlocked_entry ssl mem now row ps pe kr)"

definition unlock_with_vault ::
  "openssl \<Rightarrow> kdf_lib \<Rightarrow> bool \<Rightarrow> int \<Rightarrow> bm_identity_row \<Rightarrow> bytes \<Rightarrow> keyring \<Rightarrow> int \<times> keyring" where
  "unlock_with_vault ssl lib mem now row master_kek kr =
     (case hkdf_expand_wrap_key lib master_kek (ir_kdf_salt row) (ir_address row) of
        None \<Rightarrow> (-1, kr)
      | Some kek \<Rightarrow> unlock_with_kek ssl lib mem now row kek kr)"

definition bm_keyring_unlock ::
  "openssl \<Rightarrow> kdf_lib \<Rightarrow> kr_env \<Rightarrow> nat \<Rightarrow> bytes \<Rightarrow> bytes \<Rightarrow> identity_db \<Rightarrow> keyring \<Rightarrow> int \<times> keyring" where
  "bm_keyring_unlock ssl lib env i address passphrase db kr =
     (case bm_identity_store_load (ke_ok env i) address db of
        None \<Rightarrow> (-1, kr)
      | Some row \<Rightarrow>
          (case resolve_kek_for_row lib (ke_ok env (i + 1)) row passphrase db of
             None \<Rightarrow> (-1, kr)
           | Some kek \<Rightarrow> unlock_with_kek ssl lib (ke_mem env) (ke_now env) row kek kr))"

definition bm_keyring_export :: "kdf_lib \<Rightarrow> bool \<times> bool \<Rightarrow> bytes \<Rightarrow> bytes \<Rightarrow> identity_db \<Rightarrow> (bytes \<times> bytes) option" where
  "bm_keyring_export lib ok address passphrase db =
     Option.bind (bm_identity_store_load (fst ok) address db) (\<lambda>row.
     Option.bind (resolve_kek_for_row lib (snd ok) row passphrase db) (\<lambda>kek. unwrap_row lib kek address row))"

text \<open>The keys of an unlocked identity are wrapped again under the vault.\<close>

definition rewrap_to_vault ::
  "kdf_lib \<Rightarrow> kr_env \<Rightarrow> nat \<Rightarrow> nat \<Rightarrow> bytes \<Rightarrow> bytes \<Rightarrow> keyring \<Rightarrow> identity_db \<Rightarrow> int \<times> identity_db" where
  "rewrap_to_vault lib env i j address master_kek kr db =
     (case bm_keyring_find_by_address address kr of
        None \<Rightarrow> (-1, db)
      | Some u \<Rightarrow>
          (case ke_rnd env j of
             None \<Rightarrow> (-1, db)
           | Some salt \<Rightarrow>
               (case hkdf_expand_wrap_key lib master_kek salt address of
                  None \<Rightarrow> (-1, db)
                | Some kek \<Rightarrow>
                    (case (bm_keyring_internal_wrap lib (ke_rnd env (j + 1)) kek (c_str address) (ui_priv_signing u),
                           bm_keyring_internal_wrap lib (ke_rnd env (j + 2)) kek (c_str address) (ui_priv_encryption u)) of
                       (Some ws, Some we) \<Rightarrow>
                         bm_identity_store_update_wrapped_keys (ke_ok env i) address (lit ''vault-hkdf'') salt ws we db
                     | _ \<Rightarrow> (-1, db)))))"

definition bm_keyring_delete_identity :: "bool \<Rightarrow> bytes \<Rightarrow> identity_db \<Rightarrow> keyring \<Rightarrow> int \<times> identity_db \<times> keyring" where
  "bm_keyring_delete_identity ok address db kr =
     (case bm_identity_store_delete ok address db of (rc, db') \<Rightarrow> (rc, db', snd (bm_keyring_lock address kr)))"

definition bm_keyring_mark_as_chan :: "bool \<Rightarrow> bytes \<Rightarrow> identity_db \<Rightarrow> int \<times> identity_db" where
  "bm_keyring_mark_as_chan ok address db = bm_identity_store_set_is_chan ok address 1 db"

section \<open>Unlocking many identities\<close>

record unlock_bulk_state =
  ub_passphrase :: bytes
  ub_vault_exists :: bool
  ub_master_kek :: "bytes option"

text \<open>\<open>ub_master_kek\<close> is the key while \<open>have_master_kek\<close> is set.\<close>

definition unlock_bulk_begin :: "kdf_lib \<Rightarrow> bool \<Rightarrow> bytes \<Rightarrow> identity_db \<Rightarrow> unlock_bulk_state" where
  "unlock_bulk_begin lib ok passphrase db =
     (case bm_identity_store_load_vault ok db of
        None \<Rightarrow> \<lparr>ub_passphrase = passphrase, ub_vault_exists = False, ub_master_kek = None\<rparr>
      | Some v \<Rightarrow> \<lparr>ub_passphrase = passphrase, ub_vault_exists = True,
          ub_master_kek = Option.bind (derive_master_kek lib passphrase (vault_salt v) (vault_kdf_params v)) (\<lambda>m.
            if verify_vault_canary lib m (vault_canary v) then Some m else None)\<rparr>)"

definition unlock_bulk_end :: "unlock_bulk_state \<Rightarrow> unlock_bulk_state" where
  "unlock_bulk_end st = st\<lparr>ub_master_kek := None\<rparr>"

record bm_unlock_all_entry =
  ua_address :: bytes
  ua_unlocked :: bool
  ua_not_found :: bool

text \<open>
  The vault is created on the first identity that the passphrase opens. SQLite is asked for the row,
  by \<open>bm_keyring_unlock\<close> for the row and the vault, for the new vault and for the new keys; random are
  the salt and the nonce of the vault, and the salt and the two nonces of the keys.
\<close>

definition bulk_vault :: "kdf_lib \<Rightarrow> kr_env \<Rightarrow> unlock_bulk_state \<Rightarrow> identity_db \<Rightarrow> unlock_bulk_state \<times> identity_db" where
  "bulk_vault lib env st db =
     (if ub_master_kek st \<noteq> None \<or> ub_vault_exists st then (st, db)
      else (case ke_rnd env 0 of
              None \<Rightarrow> (st, db)
            | Some salt \<Rightarrow>
                (case derive_kek lib (ub_passphrase st) salt BM_KEYRING_SCRYPT_N BM_KEYRING_SCRYPT_R BM_KEYRING_SCRYPT_P of
                   None \<Rightarrow> (st, db)
                 | Some master \<Rightarrow>
                     (case bm_keyring_internal_wrap lib (ke_rnd env 1) master VAULT_CANARY_AAD VAULT_CANARY_PLAINTEXT of
                        None \<Rightarrow> (st, db)
                      | Some canary \<Rightarrow>
                          (case bm_identity_store_create_vault (ke_ok env 3) salt scrypt_params canary db of
                             (rc, db') \<Rightarrow>
                               if rc \<noteq> 0 then (st, db')
                               else (st\<lparr>ub_master_kek := Some master, ub_vault_exists := True\<rparr>, db'))))))"

definition unlock_bulk_one ::
  "openssl \<Rightarrow> kdf_lib \<Rightarrow> kr_env \<Rightarrow> bytes \<Rightarrow> unlock_bulk_state \<times> identity_db \<times> keyring
     \<Rightarrow> bm_unlock_all_entry \<times> unlock_bulk_state \<times> identity_db \<times> keyring" where
  "unlock_bulk_one ssl lib env address s =
     (case s of (st, db, kr) \<Rightarrow>
        let out = \<lparr>ua_address = take (BM_KEYRING_MAX_ADDRESS_LEN - 1) (c_str address), ua_unlocked = False, ua_not_found = False\<rparr>
        in if bm_keyring_find_by_address address kr \<noteq> None then (out\<lparr>ua_unlocked := True\<rparr>, st, db, kr)
           else (case bm_identity_store_load (ke_ok env 0) address db of
                   None \<Rightarrow> (out\<lparr>ua_not_found := True\<rparr>, st, db, kr)
                 | Some row \<Rightarrow>
                     if c_str (ir_kdf_algo row) = lit ''vault-hkdf''
                     then (case ub_master_kek st of
                             None \<Rightarrow> (out, st, db, kr)
                           | Some master \<Rightarrow>
                               (case unlock_with_vault ssl lib (ke_mem env) (ke_now env) row master kr of
                                  (rc, kr') \<Rightarrow> (out\<lparr>ua_unlocked := (rc = 0)\<rparr>, st, db, kr')))
                     else (case bm_keyring_unlock ssl lib env 1 address (ub_passphrase st) db kr of
                             (rc, kr') \<Rightarrow>
                               if rc \<noteq> 0 then (out, st, db, kr')
                               else (case bulk_vault lib env st db of
                                       (st1, db1) \<Rightarrow>
                                         (case ub_master_kek st1 of
                                            None \<Rightarrow> (out\<lparr>ua_unlocked := True\<rparr>, st1, db1, kr')
                                          | Some master \<Rightarrow>
                                              (out\<lparr>ua_unlocked := True\<rparr>, st1,
                                               snd (rewrap_to_vault lib env 4 2 address master kr' db1), kr'))))))"

fun unlock_bulk_loop ::
  "openssl \<Rightarrow> kdf_lib \<Rightarrow> kr_env list \<Rightarrow> bytes list \<Rightarrow> unlock_bulk_state \<times> identity_db \<times> keyring
     \<Rightarrow> bm_unlock_all_entry list \<times> unlock_bulk_state \<times> identity_db \<times> keyring" where
  "unlock_bulk_loop ssl lib envs [] s = ([], s)"
| "unlock_bulk_loop ssl lib [] (a # as) s = ([], s)"
| "unlock_bulk_loop ssl lib (env # envs) (a # as) s =
     (case unlock_bulk_one ssl lib env a s of (e, s1) \<Rightarrow>
        (case unlock_bulk_loop ssl lib envs as s1 of (es, s2) \<Rightarrow> (e # es, s2)))"

text \<open>One environment for each address; \<open>ok\<close>: the answers of SQLite for the listing and the vault.\<close>

definition bm_keyring_unlock_addresses ::
  "openssl \<Rightarrow> kdf_lib \<Rightarrow> bool \<Rightarrow> kr_env list \<Rightarrow> bytes \<Rightarrow> bytes list \<Rightarrow> identity_db \<times> keyring
     \<Rightarrow> bm_unlock_all_entry list \<times> identity_db \<times> keyring" where
  "bm_keyring_unlock_addresses ssl lib ok envs passphrase addresses s =
     (case unlock_bulk_loop ssl lib envs addresses (unlock_bulk_begin lib ok passphrase (fst s), s) of
        (es, st, db, kr) \<Rightarrow> (es, db, kr))"

definition bm_keyring_unlock_all_with_limit ::
  "openssl \<Rightarrow> kdf_lib \<Rightarrow> bool \<times> bool \<times> bool \<Rightarrow> kr_env list \<Rightarrow> bytes \<Rightarrow> nat \<Rightarrow> identity_db \<times> keyring
     \<Rightarrow> int \<times> bm_unlock_all_entry list \<times> identity_db \<times> keyring" where
  "bm_keyring_unlock_all_with_limit ssl lib env envs passphrase max_identities s =
     (case env of (ok, mem, ok2) \<Rightarrow>
        case bm_identity_store_list ok (fst s) of
          None \<Rightarrow> (-1, [], s)
        | Some l \<Rightarrow>
            if max_identities < length l then (-2, [], s)
            else if \<not> mem then (-1, [], s)
            else (0, bm_keyring_unlock_addresses ssl lib ok2 envs passphrase (map is_address l) s))"

definition bm_keyring_unlock_all where
  "bm_keyring_unlock_all ssl lib env envs passphrase s =
     bm_keyring_unlock_all_with_limit ssl lib env envs passphrase BM_KEYRING_UNLOCK_ALL_MAX_IDENTITIES s"

section \<open>Version 4 siblings of version 3 identities\<close>

record bm_keyring_convert_session =
  cs_passphrase :: bytes
  cs_master_kek_state :: int
  cs_master_kek :: bytes

definition bm_keyring_convert_session_init :: "bytes \<Rightarrow> bm_keyring_convert_session" where
  "bm_keyring_convert_session_init passphrase =
     \<lparr>cs_passphrase = passphrase, cs_master_kek_state = 0, cs_master_kek = replicate 32 0\<rparr>"

definition bm_keyring_convert_session_clear :: "bm_keyring_convert_session \<Rightarrow> bm_keyring_convert_session" where
  "bm_keyring_convert_session_clear session = session\<lparr>cs_master_kek := replicate 32 0, cs_master_kek_state := 0\<rparr>"

definition session_master_kek ::
  "kdf_lib \<Rightarrow> bool \<Rightarrow> identity_db \<Rightarrow> bm_keyring_convert_session \<Rightarrow> bool \<times> bm_keyring_convert_session" where
  "session_master_kek lib ok db session =
     (let session' =
        (if cs_master_kek_state session \<noteq> 0 then session
         else (case Option.bind (bm_identity_store_load_vault ok db) (\<lambda>v.
                 Option.bind (derive_master_kek lib (cs_passphrase session) (vault_salt v) (vault_kdf_params v)) (\<lambda>m.
                   if verify_vault_canary lib m (vault_canary v) then Some m else None)) of
                 Some m \<Rightarrow> session\<lparr>cs_master_kek := m, cs_master_kek_state := 1\<rparr>
               | None \<Rightarrow> session\<lparr>cs_master_kek := replicate 32 0, cs_master_kek_state := -1\<rparr>))
      in (cs_master_kek_state session' = 1, session'))"

definition BM_KEYRING_CONVERT_ERR_NOT_FOUND :: int where "BM_KEYRING_CONVERT_ERR_NOT_FOUND = -2"
definition BM_KEYRING_CONVERT_ERR_NOT_V3 :: int where "BM_KEYRING_CONVERT_ERR_NOT_V3 = -3"
definition BM_KEYRING_CONVERT_ERR_PASSPHRASE :: int where "BM_KEYRING_CONVERT_ERR_PASSPHRASE = -4"

text \<open>The row of the sibling: the one that is there, brought up to date, or a new one. \<open>Inl\<close> is the error.\<close>

definition existing_sibling ::
  "kr_env \<Rightarrow> bm_identity_row \<Rightarrow> bm_identity_row \<Rightarrow> bytes \<Rightarrow> identity_db \<times> keyring
     \<Rightarrow> (int + bm_identity_row) \<times> identity_db \<times> keyring" where
  "existing_sibling env v3 v4 v4_address s =
     (case s of (db, kr) \<Rightarrow>
        if ir_signing_pubkey v4 \<noteq> ir_signing_pubkey v3 \<or> ir_encryption_pubkey v4 \<noteq> ir_encryption_pubkey v3 then (Inl (-1), db, kr)
        else
          let db1 = (if ir_label v4 = [] \<and> ir_label v3 \<noteq> []
                then snd (bm_identity_store_update_label (ke_ok env 3) v4_address (ir_label v3) db) else db)
          in if ir_is_chan v3 \<noteq> 0 \<and> ir_is_chan v4 = 0
             then (Inr (v4\<lparr>ir_is_chan := 1\<rparr>), snd (bm_identity_store_set_is_chan (ke_ok env 4) v4_address 1 db1),
                   mark_unlocked_entry_as_chan v4_address kr)
             else (Inr v4, db1, kr))"

definition new_sibling ::
  "kdf_lib \<Rightarrow> kr_env \<Rightarrow> bm_keyring_convert_session \<Rightarrow> bool \<Rightarrow> bm_identity_row \<Rightarrow> bytes \<Rightarrow> bytes \<Rightarrow> bytes \<Rightarrow> identity_db
     \<Rightarrow> (int + bm_identity_row) \<times> identity_db" where
  "new_sibling lib env session is_vault v3 v4_address sign_priv enc_priv db =
     (case (if is_vault
            then bm_keyring_import_identity_with_master_kek lib env 3 0 v4_address (Some (ir_label v3)) 4 (ir_stream v3)
                   (ir_signing_pubkey v3) (ir_encryption_pubkey v3) sign_priv enc_priv (cs_master_kek session)
                   (ir_nonce_trials_per_byte v3) (ir_payload_length_extra_bytes v3) db
            else bm_keyring_create_identity lib (env\<lparr>ke_ok := (\<lambda>i. ke_ok env (i + 3))\<rparr>) v4_address (Some (ir_label v3)) 4 (ir_stream v3)
                   (ir_signing_pubkey v3) (ir_encryption_pubkey v3) sign_priv enc_priv (cs_passphrase session)
                   (ir_nonce_trials_per_byte v3) (ir_payload_length_extra_bytes v3) db) of
        (rc, db1) \<Rightarrow>
          if rc \<noteq> 0 then (Inl (-1), db1)
          else (case bm_identity_store_load (ke_ok env 4) v4_address db1 of
                  None \<Rightarrow> (Inl (-1), db1)
                | Some v4 \<Rightarrow>
                    if ir_is_chan v3 \<noteq> 0
                    then (Inr (v4\<lparr>ir_is_chan := 1\<rparr>), snd (bm_identity_store_set_is_chan (ke_ok env 5) v4_address 1 db1))
                    else (Inr v4, db1)))"

text \<open>The result: the error or 0, the address of the sibling, whether it was created.\<close>

definition bm_keyring_ensure_v4_sibling ::
  "openssl \<Rightarrow> kdf_lib \<Rightarrow> kr_env \<Rightarrow> bytes \<Rightarrow> bm_keyring_convert_session \<times> identity_db \<times> keyring
     \<Rightarrow> ((int \<times> bytes \<times> bool) \<times> bm_keyring_convert_session \<times> identity_db \<times> keyring) outcome" where
  "bm_keyring_ensure_v4_sibling ssl lib env v3_address s =
     (case s of (session, db, kr) \<Rightarrow>
        case bm_identity_store_load (ke_ok env 0) v3_address db of
          None \<Rightarrow> Done ((BM_KEYRING_CONVERT_ERR_NOT_FOUND, [], False), s)
        | Some v3 \<Rightarrow>
            if ir_address_version v3 \<noteq> 3 then Done ((BM_KEYRING_CONVERT_ERR_NOT_V3, [], False), s)
            else
              let is_vault = c_str (ir_kdf_algo v3) = lit ''vault-hkdf'';
                  (have, session1) = (if is_vault then session_master_kek lib (ke_ok env 1) db session else (True, session));
                  kek_rc = (if is_vault
                    then (if have then hkdf_expand_wrap_key lib (cs_master_kek session1) (ir_kdf_salt v3) (ir_address v3) else None)
                    else resolve_kek_for_row lib (ke_ok env 1) v3 (cs_passphrase session1) db)
              in case Option.bind kek_rc (\<lambda>kek. unwrap_row lib kek (ir_address v3) v3) of
                   None \<Rightarrow> Done ((BM_KEYRING_CONVERT_ERR_PASSPHRASE, [], False), session1, db, kr)
                 | Some (sign_priv, enc_priv) \<Rightarrow>
                     bind_outcome (bm_address_encode ssl 4 (word_of_int (ir_stream v3))
                       (bm_address_calc_ripe ssl (ir_signing_pubkey v3) (ir_encryption_pubkey v3))) (\<lambda>enc.
                     Done (case enc of
                       None \<Rightarrow> ((-1, [], False), session1, db, kr)
                     | Some addr \<Rightarrow>
                         let v4_address = take (BM_KEYRING_MAX_ADDRESS_LEN - 1) addr;
                             existing = bm_identity_store_load (ke_ok env 2) v4_address db;
                             (res, db1, kr1) = (case existing of
                                 Some v4 \<Rightarrow> existing_sibling env v3 v4 v4_address (db, kr)
                               | None \<Rightarrow> (case new_sibling lib env session1 is_vault v3 v4_address sign_priv enc_priv db of
                                           (r, d) \<Rightarrow> (r, d, kr)))
                         in case res of
                              Inl e \<Rightarrow> ((e, v4_address, False), session1, db1, kr1)
                            | Inr v4 \<Rightarrow>
                                let (rc, kr2) =
                                  (if bm_keyring_find_by_address (ir_address v3) kr1 \<noteq> None \<and>
                                      bm_keyring_find_by_address v4_address kr1 = None
                                   then add_unlocked_entry ssl (ke_mem env) (ke_now env) v4 sign_priv enc_priv kr1
                                   else (0, kr1))
                                in ((rc, v4_address, existing = None), session1, db1, kr2))))"

section \<open>Lemmas: wrapped keys\<close>

lemma wrap_unwrap:
  assumes "gcm_ok lib" "bm_keyring_internal_wrap lib nonce kek aad m = Some w" "\<And>n. nonce = Some n \<Longrightarrow> length n = 12"
  shows "bm_keyring_internal_unwrap lib kek aad w = Some m" "length w = BM_KEYRING_WRAP_OVERHEAD + length m"
proof -
  obtain n c tag where n: "nonce = Some n" "length n = 12" and s: "GCM_seal lib kek n aad m = Some (c, tag)" "w = n @ c @ tag"
    using assms(2,3) by (auto simp: bm_keyring_internal_wrap_def bind_eq_Some_conv)
  have g: "length c = length m" "length tag = 16" "GCM_open lib kek n aad c tag = Some m"
    using assms(1) s(1) by (auto simp: gcm_ok_def)
  then show "length w = BM_KEYRING_WRAP_OVERHEAD + length m" using n(2) s(2) by simp
  show "bm_keyring_internal_unwrap lib kek aad w = Some m"
    using g n(2) unfolding s(2) by (simp add: bm_keyring_internal_unwrap_def Let_def)
qed

lemma unwrap_length:
  "gcm_ok lib \<Longrightarrow> bm_keyring_internal_unwrap lib kek aad w = Some m \<Longrightarrow> length w = BM_KEYRING_WRAP_OVERHEAD + length m"
  by (force simp: bm_keyring_internal_unwrap_def gcm_ok_def Let_def split: if_splits)

text \<open>The keys in a row, given the vault.\<close>

definition row_keys :: "kdf_lib \<Rightarrow> kdf_vault option \<Rightarrow> bytes \<Rightarrow> bytes \<Rightarrow> bm_identity_row \<Rightarrow> (bytes \<times> bytes) option" where
  "row_keys lib v address passphrase r =
     (if length (ir_signing_pubkey r) \<noteq> 65 \<or> length (ir_encryption_pubkey r) \<noteq> 65 \<or> length (ir_kdf_salt r) \<noteq> 16 \<or>
         length (ir_wrapped_priv_signing_key r) \<noteq> 60 \<or> length (ir_wrapped_priv_encryption_key r) \<noteq> 60 then None
      else Option.bind (bm_keyring_internal_resolve_kek lib True (take 15 (ir_kdf_algo r)) (ir_kdf_salt r) (take 127 (ir_kdf_params r))
             (take 63 (ir_address r)) passphrase \<lparr>identities = [], vault = v\<rparr>) (\<lambda>kek. unwrap_row lib kek address r))"

lemma resolve_kek_vault:
  "vault db = v \<Longrightarrow> bm_keyring_internal_resolve_kek lib ok algo salt params a p db =
    bm_keyring_internal_resolve_kek lib ok algo salt params a p \<lparr>identities = [], vault = v\<rparr>"
  by (simp add: bm_keyring_internal_resolve_kek_def bm_identity_store_load_vault_def)

lemma export_row_keys:
  "bm_keyring_export lib (True, True) a p db = Option.bind (find_row a db) (row_keys lib (vault db) a p)"
proof (cases "find_row a db")
  case None
  then show ?thesis by (simp add: bm_keyring_export_def bm_identity_store_load_def)
next
  case (Some r)
  have v: "bm_keyring_internal_resolve_kek lib True algo salt params b p db =
      bm_keyring_internal_resolve_kek lib True algo salt params b p \<lparr>identities = [], vault = vault db\<rparr>" for algo salt params b
    by (rule resolve_kek_vault) simp
  show ?thesis
    by (simp add: Some bm_keyring_export_def resolve_kek_for_row_def bm_identity_store_load_def row_keys_def v unwrap_row_def)
qed

lemma row_keys_vault: "row_keys lib None a p r = Some k \<Longrightarrow> row_keys lib v a p r = Some k"
  by (auto simp: row_keys_def bm_keyring_internal_resolve_kek_def bm_identity_store_load_vault_def
      split: if_splits)

lemma row_keys_update [simp]:
  "row_keys lib v a p (r\<lparr>ir_label := l\<rparr>) = row_keys lib v a p r"
  "row_keys lib v a p (r\<lparr>ir_is_chan := c\<rparr>) = row_keys lib v a p r"
  by (simp_all add: row_keys_def unwrap_row_def)

text \<open>The vault once made is never changed.\<close>

definition vault_grows :: "identity_db \<Rightarrow> identity_db \<Rightarrow> bool" where
  "vault_grows db db' \<longleftrightarrow> vault db = None \<or> vault db' = vault db"

lemma vault_grows_refl [simp]: "vault_grows db db" "vault db' = vault db \<Longrightarrow> vault_grows db db'"
  by (simp_all add: vault_grows_def)

lemma vault_grows_trans: "vault_grows a b \<Longrightarrow> vault_grows b c \<Longrightarrow> vault_grows a c"
  by (auto simp: vault_grows_def)

lemma export_mono:
  assumes "bm_keyring_export lib (True, True) a p db = Some k" "vault_grows db db'" "find_row a db' = find_row a db"
  shows "bm_keyring_export lib (True, True) a p db' = Some k"
proof -
  obtain r where r: "find_row a db = Some r" "row_keys lib (vault db) a p r = Some k"
    using assms(1) unfolding export_row_keys bind_eq_Some_conv by (elim exE conjE)
  have "row_keys lib (vault db') a p r = Some k"
    using assms(2) r(2) row_keys_vault [of lib a p r k "vault db'"] unfolding vault_grows_def by (elim disjE) simp_all
  then show ?thesis unfolding export_row_keys assms(3) r(1) by simp
qed

text \<open>The master key that a passphrase gives for the vault.\<close>

definition master_of :: "kdf_lib \<Rightarrow> identity_db \<Rightarrow> bytes \<Rightarrow> bytes \<Rightarrow> bool" where
  "master_of lib db passphrase master \<longleftrightarrow>
     (\<exists>v. bm_identity_store_load_vault True db = Some v \<and>
       derive_master_kek lib passphrase (vault_salt v) (vault_kdf_params v) = Some master \<and>
       verify_vault_canary lib master (vault_canary v))"

lemma master_of_vault: "master_of lib db p m \<Longrightarrow> vault_grows db db' \<Longrightarrow> master_of lib db' p m"
  unfolding master_of_def vault_grows_def bm_identity_store_load_vault_def by (cases "vault db") auto

lemma scrypt_params_c_str: "c_str scrypt_params = scrypt_params" "take 127 scrypt_params = scrypt_params"
  by (simp_all add: c_str_def scrypt_params_def)

lemma scrypt_params_bytes:
  "scrypt_params = [123, 34, 78, 34, 58, 51, 50, 55, 54, 56, 44, 34, 114, 34, 58, 56, 44, 34, 112, 34, 58, 49, 125]"
  "lit ''{\"N\":'' = [123, 34, 78, 34, 58]" "lit '',\"r\":'' = [44, 34, 114, 34, 58]" "lit '',\"p\":'' = [44, 34, 112, 34, 58]"
  by (simp_all add: scrypt_params_def)

lemma scan_digits:
  assumes "scan_digit d" "list_all scan_digit ds" "rest = [] \<or> \<not> scan_digit (hd rest)"
  shows "scan_unsigned (d # ds @ rest) =
    (let v = foldl (\<lambda>n d. 10 * n + int (unat (d - 48))) 0 (d # ds)
     in Some (if 2 ^ 64 \<le> v then 0xffffffffffffffff else word_of_int v, rest))"
proof -
  have d: "\<not> is_space d" "d \<noteq> 45" "d \<noteq> 43"
    using assms(1) by (auto simp: scan_digit_def is_space_def word_le_nat_alt unat_arith_simps)
  have t: "takeWhile scan_digit (d # ds @ rest) = d # ds"
    using assms by (cases rest) (simp_all add: list_all_iff takeWhile_append2)
  have s: "drop (length (d # ds)) (d # ds @ rest) = rest" by simp
  show ?thesis unfolding scan_unsigned_def Let_def using d t s by simp
qed

lemma scrypt_params_parse: "parse_kdf_params scrypt_params = Some (32768, 8, 1)"
proof -
  have "scan_unsigned [51, 50, 55, 54, 56, 44, 34, 114, 34, 58, 56, 44, 34, 112, 34, 58, 49, 125] =
      Some (32768, [44, 34, 114, 34, 58, 56, 44, 34, 112, 34, 58, 49, 125])"
    using scan_digits [of 51 "[50, 55, 54, 56]" "[44, 34, 114, 34, 58, 56, 44, 34, 112, 34, 58, 49, 125]"]
    by (simp add: scan_digit_def)
  moreover have "scan_unsigned [56, 44, 34, 112, 34, 58, 49, 125] = Some (8, [44, 34, 112, 34, 58, 49, 125])"
    using scan_digits [of 56 "[]" "[44, 34, 112, 34, 58, 49, 125]"] by (simp add: scan_digit_def)
  moreover have "scan_unsigned [49, 125] = Some (1, [125])"
    using scan_digits [of 49 "[]" "[125]"] by (simp add: scan_digit_def)
  ultimately show ?thesis
    unfolding parse_kdf_params_def scrypt_params_bytes by (simp add: scan_lit_def c_str_def)
qed

lemma algo_names [simp]: "c_str (take 15 (c_str (lit ''scrypt''))) = lit ''scrypt''"
    "c_str (take 15 (c_str (lit ''vault-hkdf''))) = lit ''vault-hkdf''" "lit ''scrypt'' \<noteq> lit ''vault-hkdf''"
  by (simp_all add: c_str_def)

text \<open>The random strings have the lengths that were asked for.\<close>

definition rnd_fills :: "kr_env \<Rightarrow> nat list \<Rightarrow> bool" where
  "rnd_fills env lens \<longleftrightarrow> (\<forall>i<length lens. \<forall>b. ke_rnd env i = Some b \<longrightarrow> length b = lens ! i)"

lemma store_new_keys:
  assumes "gcm_ok lib" "strlen a < 64" "length spub = 65" "length epub = 65" "length sk = 32" "length ek = 32" "length salt = 16"
    and "\<And>b. fst nonces = Some b \<Longrightarrow> length b = 12" "\<And>b. snd nonces = Some b \<Longrightarrow> length b = 12"
    and "store_new_identity_with_kek lib ok nonces now a label ver stream spub epub sk ek algo salt params kek nt eb db = (0, db')"
    and "bm_keyring_internal_resolve_kek lib True (take 15 (c_str algo)) salt (take 127 (c_str params)) (c_str a) p db = Some kek"
  shows "bm_keyring_export lib (True, True) a p db' = Some (sk, ek)" "vault db' = vault db"
    "\<And>b. c_str b \<noteq> c_str a \<Longrightarrow> find_row b db' = find_row b db"
proof -
  obtain ws we where w: "bm_keyring_internal_wrap lib (fst nonces) kek (c_str a) sk = Some ws"
      "bm_keyring_internal_wrap lib (snd nonces) kek (c_str a) ek = Some we"
    using assms(10) by (auto simp: store_new_identity_with_kek_def split: option.splits)
  define row where "row = \<lparr>ir_address = take 63 (c_str a),
     ir_label = take 127 (case label of None \<Rightarrow> [] | Some l \<Rightarrow> c_str l),
     ir_enabled = 1, ir_is_chan = 0, ir_address_version = ver, ir_stream = stream,
     ir_signing_pubkey = spub, ir_encryption_pubkey = epub,
     ir_kdf_algo = take 15 (c_str algo), ir_kdf_salt = salt, ir_kdf_params = take 127 (c_str params),
     ir_wrapped_priv_signing_key = ws, ir_wrapped_priv_encryption_key = we,
     ir_nonce_trials_per_byte = nt, ir_payload_length_extra_bytes = eb, ir_created_time = now\<rparr>"
  have ins: "bm_identity_store_insert ok row db = (0, db')"
    using assms(10) w by (simp add: store_new_identity_with_kek_def row_def)
  have addr: "take 63 (c_str a) = c_str a" using assms(2) by (simp add: strlen_def)
  have key: "c_str (ir_address row) = c_str a" by (simp add: row_def addr)
  have cut: "c_str (take n (c_str s)) = take n (c_str s)" for n s
    by (rule c_str_id) (meson c_str_no_zero in_set_takeD)
  have len: "length ws = 60" "length we = 60"
    using wrap_unwrap(2) [OF assms(1) w(1) assms(8)] wrap_unwrap(2) [OF assms(1) w(2) assms(9)] assms(5,6) by simp_all
  have "unwrap_row lib kek a row = Some (sk, ek)"
    using wrap_unwrap(1) [OF assms(1) w(1) assms(8)] wrap_unwrap(1) [OF assms(1) w(2) assms(9)] by (simp add: unwrap_row_def row_def)
  then have keys: "row_keys lib (vault db') a p row = Some (sk, ek)"
    using assms(3,4,7) len assms(11) resolve_kek_vault [OF refl, of lib True "take 15 (c_str algo)" salt "take 127 (c_str params)" "c_str a" p db]
      find_row_insert(3) [OF ins]
    by (simp add: row_keys_def row_def addr unwrap_row_def)
  have "row\<lparr>ir_address := c_str (ir_address row), ir_label := c_str (ir_label row), ir_kdf_algo := c_str (ir_kdf_algo row),
      ir_kdf_params := c_str (ir_kdf_params row)\<rparr> = row\<lparr>ir_label := c_str (ir_label row)\<rparr>"
    by (simp add: row_def addr cut)
  then show "bm_keyring_export lib (True, True) a p db' = Some (sk, ek)"
    using keys row_keys_update(1) [where r = row]
    unfolding export_row_keys find_row_insert(1) [OF ins] by (simp add: key addr)
  show "vault db' = vault db" by (rule find_row_insert(3) [OF ins])
  show "find_row b db' = find_row b db" if "c_str b \<noteq> c_str a" for b
    using that unfolding find_row_insert(1) [OF ins] by (simp add: key)
qed

lemma rnd_fillsD: "rnd_fills env lens \<Longrightarrow> i < length lens \<Longrightarrow> ke_rnd env i = Some b \<Longrightarrow> length b = lens ! i"
  by (simp add: rnd_fills_def)

lemma store_new_fails:
  assumes "store_new_identity_with_kek lib ok nonces now a label ver stream spub epub sk ek algo salt params kek nt eb db = (rc, db')" "rc \<noteq> 0"
  shows "db' = db"
  using assms by (auto simp: store_new_identity_with_kek_def bm_identity_store_insert_def split: option.splits if_splits)

lemma create_keys:
  assumes "gcm_ok lib" "strlen a < 64" "length spub = 65" "length epub = 65" "length sk = 32" "length ek = 32"
    and "rnd_fills env [16, 12, 12]"
    and "bm_keyring_create_identity lib env a label ver stream spub epub sk ek p nt eb db = (0, db')"
  shows "bm_keyring_export lib (True, True) a p db' = Some (sk, ek)" "vault db' = vault db"
    "\<And>b. c_str b \<noteq> c_str a \<Longrightarrow> find_row b db' = find_row b db"
proof -
  obtain salt kek where s: "ke_rnd env 0 = Some salt"
      "derive_kek lib p salt BM_KEYRING_SCRYPT_N BM_KEYRING_SCRYPT_R BM_KEYRING_SCRYPT_P = Some kek"
      "store_new_identity_with_kek lib (ke_ok env 0) (ke_rnd env 1, ke_rnd env 2) (ke_now env) a label ver stream spub epub sk ek
        (lit ''scrypt'') salt scrypt_params kek nt eb db = (0, db')"
    using assms(8) unfolding bm_keyring_create_identity_def bm_keyring_internal_new_scrypt_kek_def
    by (cases "ke_rnd env 0") (auto split: option.splits)
  have kek: "bm_keyring_internal_resolve_kek lib True (take 15 (c_str (lit ''scrypt''))) salt (take 127 (c_str scrypt_params)) (c_str a) p db = Some kek"
    unfolding bm_keyring_internal_resolve_kek_def algo_names if_not_P [OF algo_names(3)] scrypt_params_c_str scrypt_params_parse
    using s(2) by simp
  have lens: "length salt = 16" "\<And>b. fst (ke_rnd env 1, ke_rnd env 2) = Some b \<Longrightarrow> length b = 12"
      "\<And>b. snd (ke_rnd env 1, ke_rnd env 2) = Some b \<Longrightarrow> length b = 12"
    using rnd_fillsD [OF assms(7), of 0] rnd_fillsD [OF assms(7), of 1] rnd_fillsD [OF assms(7), of 2] s(1) by simp_all
  note new = store_new_keys [OF assms(1-6) lens s(3) kek]
  show "bm_keyring_export lib (True, True) a p db' = Some (sk, ek)" "vault db' = vault db"
    "\<And>b. c_str b \<noteq> c_str a \<Longrightarrow> find_row b db' = find_row b db"
    by (rule new; assumption)+
qed

lemma create_fails:
  "bm_keyring_create_identity lib env a label ver stream spub epub sk ek p nt eb db = (rc, db') \<Longrightarrow> rc \<noteq> 0 \<Longrightarrow> db' = db"
  by (auto simp: bm_keyring_create_identity_def split: option.splits dest: store_new_fails)

text \<open>The vault that is created opens under the master key of its passphrase.\<close>

lemma new_vault_master:
  assumes "gcm_ok lib" "length salt = 16" "\<And>b. nonce = Some b \<Longrightarrow> length b = 12"
    and "derive_kek lib p salt BM_KEYRING_SCRYPT_N BM_KEYRING_SCRYPT_R BM_KEYRING_SCRYPT_P = Some master"
    and "bm_keyring_internal_wrap lib nonce master VAULT_CANARY_AAD VAULT_CANARY_PLAINTEXT = Some canary"
    and "bm_identity_store_create_vault ok salt scrypt_params canary db = (0, db')"
  shows "master_of lib db' p master" "vault_grows db db'" "identities db' = identities db"
proof -
  have db': "vault db = None" "db' = db\<lparr>vault := Some \<lparr>vault_salt = salt, vault_kdf_params = scrypt_params, vault_canary = canary\<rparr>\<rparr>"
    using assms(6) by (auto simp: bm_identity_store_create_vault_def scrypt_params_c_str split: if_splits)
  show "vault_grows db db'" "identities db' = identities db" using db' by (simp_all add: vault_grows_def)
  have "length canary = 60"
    using wrap_unwrap(2) [OF assms(1,5,3)] by (simp add: VAULT_CANARY_PLAINTEXT_def)
  then have "bm_identity_store_load_vault True db' = Some \<lparr>vault_salt = salt, vault_kdf_params = scrypt_params, vault_canary = canary\<rparr>"
    using assms(2) unfolding db'(2) by (simp add: bm_identity_store_load_vault_def scrypt_params_c_str)
  then show "master_of lib db' p master"
    using assms(4) wrap_unwrap(1) [OF assms(1,5,3)]
    by (simp add: master_of_def derive_master_kek_def scrypt_params_parse verify_vault_canary_def)
qed

lemma create_vault_fails: "bm_identity_store_create_vault ok salt ps canary db = (rc, db') \<Longrightarrow> rc \<noteq> 0 \<Longrightarrow> db' = db"
  by (auto simp: bm_identity_store_create_vault_def split: if_splits)

lemma load_vault_ok: "bm_identity_store_load_vault ok db = Some v \<Longrightarrow> bm_identity_store_load_vault True db = Some v"
  by (simp add: bm_identity_store_load_vault_def split: if_splits)

lemma resolve_or_create_master:
  assumes "gcm_ok lib" "rnd_fills env lens" "2 \<le> length lens" "lens ! 0 = 16" "lens ! 1 = 12"
    and "bm_keyring_resolve_or_create_vault_master_kek lib env p db = (m, db')"
  shows "vault_grows db db'" "identities db' = identities db" "m = Some master \<Longrightarrow> master_of lib db' p master"
proof -
  have "vault_grows db db' \<and> identities db' = identities db \<and> (\<forall>master. m = Some master \<longrightarrow> master_of lib db' p master)"
  proof (cases "bm_identity_store_load_vault (ke_ok env 0) db")
    case (Some v)
    then show ?thesis
      using assms(6) load_vault_ok [OF Some] by (auto simp: bm_keyring_resolve_or_create_vault_master_kek_def master_of_def split: option.splits if_splits)
  next
    case None
    show ?thesis
    proof (cases "db' = db \<and> m = None")
      case False
      then obtain salt master canary rc where v: "ke_rnd env 0 = Some salt"
          "derive_kek lib p salt BM_KEYRING_SCRYPT_N BM_KEYRING_SCRYPT_R BM_KEYRING_SCRYPT_P = Some master"
          "bm_keyring_internal_wrap lib (ke_rnd env 1) master VAULT_CANARY_AAD VAULT_CANARY_PLAINTEXT = Some canary"
          "bm_identity_store_create_vault (ke_ok env 1) salt scrypt_params canary db = (rc, db')" "m = (if rc \<noteq> 0 then None else Some master)"
        using assms(6) None unfolding bm_keyring_resolve_or_create_vault_master_kek_def
        by (auto split: option.splits prod.splits)
      have len: "length salt = 16" "\<And>b. ke_rnd env 1 = Some b \<Longrightarrow> length b = 12"
        using rnd_fillsD [OF assms(2), of 0] rnd_fillsD [OF assms(2), of 1] assms(3-5) v(1) by fastforce+
      show ?thesis
      proof (cases "rc = 0")
        case True
        then show ?thesis using new_vault_master [OF assms(1) len v(2,3)] v(4,5) by simp
      next
        case False
        then show ?thesis using create_vault_fails [OF v(4)] v(5) by simp
      qed
    qed simp
  qed
  then show "vault_grows db db'" "identities db' = identities db" "m = Some master \<Longrightarrow> master_of lib db' p master" by auto
qed

lemma import_with_master_keys:
  assumes "gcm_ok lib" "strlen a < 64" "length spub = 65" "length epub = 65" "length sk = 32" "length ek = 32"
    and "\<And>b. ke_rnd env j = Some b \<Longrightarrow> length b = 16" "\<And>b. ke_rnd env (j + 1) = Some b \<Longrightarrow> length b = 12"
      "\<And>b. ke_rnd env (j + 2) = Some b \<Longrightarrow> length b = 12"
    and "master_of lib db p master"
    and "bm_keyring_import_identity_with_master_kek lib env i j a label ver stream spub epub sk ek master nt eb db = (0, db')"
  shows "bm_keyring_export lib (True, True) a p db' = Some (sk, ek)" "vault db' = vault db"
    "\<And>b. c_str b \<noteq> c_str a \<Longrightarrow> find_row b db' = find_row b db"
proof -
  obtain salt kek where s: "ke_rnd env j = Some salt" "hkdf_expand_wrap_key lib master salt a = Some kek"
      "store_new_identity_with_kek lib (ke_ok env i) (ke_rnd env (j + 1), ke_rnd env (j + 2)) (ke_now env) a label ver stream spub epub sk ek
        (lit ''vault-hkdf'') salt [] kek nt eb db = (0, db')"
    using assms(11) unfolding bm_keyring_import_identity_with_master_kek_def
    by (cases "ke_rnd env j") (auto split: option.splits)
  have kek: "bm_keyring_internal_resolve_kek lib True (take 15 (c_str (lit ''vault-hkdf''))) salt (take 127 (c_str [])) (c_str a) p db = Some kek"
    unfolding bm_keyring_internal_resolve_kek_def algo_names if_P [OF refl]
    using assms(10) s(2) by (auto simp: master_of_def hkdf_expand_wrap_key_def)
  have lens: "\<And>b. fst (ke_rnd env (j + 1), ke_rnd env (j + 2)) = Some b \<Longrightarrow> length b = 12"
      "\<And>b. snd (ke_rnd env (j + 1), ke_rnd env (j + 2)) = Some b \<Longrightarrow> length b = 12"
    using assms(8,9) by simp_all
  note new = store_new_keys [OF assms(1-6) assms(7) [OF s(1)] lens s(3) kek]
  show "bm_keyring_export lib (True, True) a p db' = Some (sk, ek)" "vault db' = vault db"
    "\<And>b. c_str b \<noteq> c_str a \<Longrightarrow> find_row b db' = find_row b db"
    by (rule new; assumption)+
qed

lemma import_with_master_fails:
  "bm_keyring_import_identity_with_master_kek lib env i j a label ver stream spub epub sk ek master nt eb db = (rc, db') \<Longrightarrow>
    rc \<noteq> 0 \<Longrightarrow> db' = db"
  by (auto simp: bm_keyring_import_identity_with_master_kek_def split: option.splits dest: store_new_fails)

lemma import_keys:
  assumes "gcm_ok lib" "strlen a < 64" "length spub = 65" "length epub = 65" "length sk = 32" "length ek = 32"
    and "rnd_fills env [16, 12, 16, 12, 12]"
    and "bm_keyring_import_identity lib env a label ver stream spub epub sk ek p nt eb db = (rc, db')"
  shows "rc = 0 \<Longrightarrow> bm_keyring_export lib (True, True) a p db' = Some (sk, ek)" "vault_grows db db'"
    "\<And>b. c_str b \<noteq> c_str a \<or> rc \<noteq> 0 \<Longrightarrow> find_row b db' = find_row b db"
proof -
  obtain m db1 where r: "bm_keyring_resolve_or_create_vault_master_kek lib env p db = (m, db1)" by (rule prod.exhaust)
  have g: "vault_grows db db1" "identities db1 = identities db" "\<And>master. m = Some master \<Longrightarrow> master_of lib db1 p master"
    using resolve_or_create_master [OF assms(1,7) _ _ _ r] by simp_all
  have f: "find_row b db1 = find_row b db" for b by (simp add: find_row_def g(2))
  have "(rc = 0 \<longrightarrow> bm_keyring_export lib (True, True) a p db' = Some (sk, ek)) \<and> vault_grows db db' \<and>
      (\<forall>b. c_str b \<noteq> c_str a \<or> rc \<noteq> 0 \<longrightarrow> find_row b db' = find_row b db)"
  proof (cases m)
    case None
    then show ?thesis using assms(8) r g f by (simp add: bm_keyring_import_identity_def)
  next
    case (Some master)
    have i: "bm_keyring_import_identity_with_master_kek lib env 2 2 a label ver stream spub epub sk ek master nt eb db1 = (rc, db')"
      using assms(8) r Some by (simp add: bm_keyring_import_identity_def)
    have len: "\<And>b. ke_rnd env 2 = Some b \<Longrightarrow> length b = 16" "\<And>b. ke_rnd env (2 + 1) = Some b \<Longrightarrow> length b = 12"
        "\<And>b. ke_rnd env (2 + 2) = Some b \<Longrightarrow> length b = 12"
      using rnd_fillsD [OF assms(7), of 2] rnd_fillsD [OF assms(7), of "2 + 1"] rnd_fillsD [OF assms(7), of "2 + 2"] by simp_all
    show ?thesis
    proof (cases "rc = 0")
      case True
      note k = import_with_master_keys [OF assms(1-6) len g(3) [OF Some] i [unfolded True]]
      show ?thesis using k(1) k(2) k(3) True f vault_grows_trans [OF g(1) vault_grows_refl(2) [OF k(2)]] by auto
    next
      case False
      then show ?thesis using import_with_master_fails [OF i False] g(1) f by simp
    qed
  qed
  then show "rc = 0 \<Longrightarrow> bm_keyring_export lib (True, True) a p db' = Some (sk, ek)" "vault_grows db db'"
    "\<And>b. c_str b \<noteq> c_str a \<or> rc \<noteq> 0 \<Longrightarrow> find_row b db' = find_row b db" by blast+
qed

section \<open>Lemmas: unlocking\<close>

lemma find_row_address: "find_row a db = Some r \<Longrightarrow> ir_address r = c_str a"
  by (auto simp: find_row_def find_Some_iff)

lemma load_row:
  assumes "bm_identity_store_load ok a db = Some row"
  obtains r where "ok" "find_row a db = Some r" "row = r\<lparr>ir_address := take 63 (ir_address r), ir_label := take 127 (ir_label r),
      ir_kdf_algo := take 15 (ir_kdf_algo r), ir_kdf_params := take 127 (ir_kdf_params r)\<rparr>"
    "length (ir_signing_pubkey r) = 65" "length (ir_encryption_pubkey r) = 65" "length (ir_kdf_salt r) = 16"
    "length (ir_wrapped_priv_signing_key r) = 60" "length (ir_wrapped_priv_encryption_key r) = 60"
  using assms by (simp add: bm_identity_store_load_def split: if_splits option.splits)

lemma load_vault_cases: "bm_identity_store_load_vault ok db = (if ok then bm_identity_store_load_vault True db else None)"
  by (simp add: bm_identity_store_load_vault_def)

lemma resolve_kek_ok:
  "bm_keyring_internal_resolve_kek lib ok algo salt ps a p db = Some kek \<Longrightarrow> bm_keyring_internal_resolve_kek lib True algo salt ps a p db = Some kek"
  unfolding bm_keyring_internal_resolve_kek_def by (cases ok) (simp_all add: bm_identity_store_load_vault_def split: if_splits)

lemma unlock_keys:
  assumes "bm_keyring_unlock ssl lib env i a p db kr = (0, kr')" "strlen a < 64"
  obtains e where "kr' = e # kr" "same_address a e"
    "bm_keyring_export lib (True, True) a p db = Some (ui_priv_signing e, ui_priv_encryption e)"
proof -
  obtain row kek where r: "bm_identity_store_load (ke_ok env i) a db = Some row"
      "resolve_kek_for_row lib (ke_ok env (i + 1)) row p db = Some kek" "unlock_with_kek ssl lib (ke_mem env) (ke_now env) row kek kr = (0, kr')"
    using assms(1) by (auto simp: bm_keyring_unlock_def split: option.splits)
  have addr: "ir_address row = c_str a"
    using r(1) assms(2) by (auto elim!: load_row dest!: find_row_address simp: strlen_def)
  obtain sk ek where k: "unwrap_row lib kek (c_str a) row = Some (sk, ek)" "add_unlocked_entry ssl (ke_mem env) (ke_now env) row sk ek kr = (0, kr')"
    using r(3) by (auto simp: unlock_with_kek_def addr split: option.splits)
  obtain e where e: "kr' = e # kr" "ui_address e = take 63 (c_str a)" "ui_priv_signing e = sk" "ui_priv_encryption e = ek"
    using k(2) by (auto simp: add_unlocked_entry_def addr split: if_splits)
  have "bm_identity_store_load True a db = Some row" "resolve_kek_for_row lib True row p db = Some kek"
    using r(1,2) by (auto simp: bm_identity_store_load_def resolve_kek_for_row_def dest: resolve_kek_ok split: if_splits)
  then have "bm_keyring_export lib (True, True) a p db = Some (ui_priv_signing e, ui_priv_encryption e)"
    using k(1) e(3,4) by (simp add: bm_keyring_export_def unwrap_row_def)
  moreover have "same_address a e" using e(2) assms(2) by (simp add: same_address_def strlen_def)
  ultimately show thesis using e(1) that by blast
qed

lemma unlock_keyring: "bm_keyring_unlock ssl lib env i a p db kr = (rc, kr') \<Longrightarrow> rc \<noteq> 0 \<Longrightarrow> kr' = kr"
  by (auto simp: bm_keyring_unlock_def unlock_with_kek_def add_unlocked_entry_def split: option.splits if_splits)

lemma vault_update_row [simp]: "vault (update_row a f db) = vault db"
  by (simp add: update_row_def)

lemma update_wrapped_row:
  assumes "bm_identity_store_update_wrapped_keys ok a algo salt ws we db = (rc, db')"
  shows "vault db' = vault db" "c_str b \<noteq> c_str a \<Longrightarrow> find_row b db' = find_row b db" "rc \<noteq> 0 \<Longrightarrow> db' = db"
    "rc = 0 \<Longrightarrow> find_row a db' = map_option (\<lambda>r. r\<lparr>ir_kdf_algo := c_str algo, ir_kdf_salt := salt, ir_kdf_params := [],
       ir_wrapped_priv_signing_key := ws, ir_wrapped_priv_encryption_key := we\<rparr>) (find_row a db)"
  using assms by (auto simp: bm_identity_store_update_wrapped_keys_def find_row_update split: if_splits)

lemma export_lengths:
  assumes "gcm_ok lib" "bm_keyring_export lib (True, True) a p db = Some (sk, ek)"
  obtains r where "find_row a db = Some r" "length (ir_signing_pubkey r) = 65" "length (ir_encryption_pubkey r) = 65"
    "length sk = 32" "length ek = 32"
proof -
  obtain r where r: "find_row a db = Some r" "row_keys lib (vault db) a p r = Some (sk, ek)"
    using assms(2) unfolding export_row_keys bind_eq_Some_conv by (elim exE conjE)
  have len: "length (ir_signing_pubkey r) = 65" "length (ir_encryption_pubkey r) = 65"
      "length (ir_wrapped_priv_signing_key r) = 60" "length (ir_wrapped_priv_encryption_key r) = 60"
    using r(2) by (simp_all add: row_keys_def split: if_splits)
  obtain kek where k: "unwrap_row lib kek a r = Some (sk, ek)"
    using r(2) by (auto simp: row_keys_def bind_eq_Some_conv split: if_splits)
  have "bm_keyring_internal_unwrap lib kek (c_str a) (ir_wrapped_priv_signing_key r) = Some sk"
      "bm_keyring_internal_unwrap lib kek (c_str a) (ir_wrapped_priv_encryption_key r) = Some ek"
    using k by (auto simp: unwrap_row_def bind_eq_Some_conv)
  then have "length sk = 32" "length ek = 32" using unwrap_length [OF assms(1)] len(3,4) by force+
  then show thesis by (rule that [OF r(1) len(1,2)])
qed

lemma rewrap_keys:
  assumes "gcm_ok lib" "strlen a < 64" "same_address a e"
    and "\<And>b. ke_rnd env j = Some b \<Longrightarrow> length b = 16" "\<And>b. ke_rnd env (j + 1) = Some b \<Longrightarrow> length b = 12"
      "\<And>b. ke_rnd env (j + 2) = Some b \<Longrightarrow> length b = 12"
    and "master_of lib db p master" "find_row a db = Some r" "length (ir_signing_pubkey r) = 65" "length (ir_encryption_pubkey r) = 65"
    and "length (ui_priv_signing e) = 32" "length (ui_priv_encryption e) = 32"
    and "rewrap_to_vault lib env i j a master (e # kr) db = (0, db')"
  shows "bm_keyring_export lib (True, True) a p db' = Some (ui_priv_signing e, ui_priv_encryption e)"
proof -
  obtain salt kek ws we where s: "ke_rnd env j = Some salt" "hkdf_expand_wrap_key lib master salt a = Some kek"
      "bm_keyring_internal_wrap lib (ke_rnd env (j + 1)) kek (c_str a) (ui_priv_signing e) = Some ws"
      "bm_keyring_internal_wrap lib (ke_rnd env (j + 2)) kek (c_str a) (ui_priv_encryption e) = Some we"
      "bm_identity_store_update_wrapped_keys (ke_ok env i) a (lit ''vault-hkdf'') salt ws we db = (0, db')"
    using assms(13) unfolding rewrap_to_vault_def bm_keyring_find_by_address_def
    by (simp add: assms(3)) (auto split: option.splits)
  define r' where "r' = r\<lparr>ir_kdf_algo := c_str (lit ''vault-hkdf''), ir_kdf_salt := salt, ir_kdf_params := [],
       ir_wrapped_priv_signing_key := ws, ir_wrapped_priv_encryption_key := we\<rparr>"
  have row: "find_row a db' = Some r'" using update_wrapped_row(4) [OF s(5)] assms(8) by (simp add: r'_def)
  have w: "bm_keyring_internal_unwrap lib kek (c_str a) ws = Some (ui_priv_signing e)" "length ws = 60"
      "bm_keyring_internal_unwrap lib kek (c_str a) we = Some (ui_priv_encryption e)" "length we = 60"
    using wrap_unwrap [OF assms(1) s(3) assms(5)] wrap_unwrap [OF assms(1) s(4) assms(6)] assms(11,12) by simp_all
  have addr: "take 63 (ir_address r) = c_str a" using find_row_address [OF assms(8)] assms(2) by (simp add: strlen_def)
  have "master_of lib \<lparr>identities = [], vault = vault db'\<rparr> p master"
    using assms(7) update_wrapped_row(1) [OF s(5)] by (simp add: master_of_def bm_identity_store_load_vault_def)
  then have kek: "bm_keyring_internal_resolve_kek lib True (take 15 (c_str (lit ''vault-hkdf''))) salt (take 127 []) (c_str a) p
      \<lparr>identities = [], vault = vault db'\<rparr> = Some kek"
    unfolding bm_keyring_internal_resolve_kek_def algo_names if_P [OF refl]
    using s(2) by (auto simp: master_of_def hkdf_expand_wrap_key_def)
  have "row_keys lib (vault db') a p r' = Some (ui_priv_signing e, ui_priv_encryption e)"
    unfolding row_keys_def r'_def using kek assms(4) [OF s(1)] assms(9,10) w addr by (simp add: unwrap_row_def)
  then show ?thesis unfolding export_row_keys row by simp
qed

lemma rewrap_rows:
  assumes "rewrap_to_vault lib env i j a master kr db = (rc, db')"
  shows "vault db' = vault db" "c_str b \<noteq> c_str a \<Longrightarrow> find_row b db' = find_row b db" "rc \<noteq> 0 \<Longrightarrow> db' = db"
  using assms by (auto simp: rewrap_to_vault_def split: option.splits dest: update_wrapped_row(1) update_wrapped_row(2) update_wrapped_row(3))

definition bulk_master_ok :: "kdf_lib \<Rightarrow> unlock_bulk_state \<Rightarrow> identity_db \<Rightarrow> bool" where
  "bulk_master_ok lib st db \<longleftrightarrow> (\<forall>m. ub_master_kek st = Some m \<longrightarrow> master_of lib db (ub_passphrase st) m)"

lemma bulk_begin_ok: "bulk_master_ok lib (unlock_bulk_begin lib ok p db) db"
  using load_vault_ok [of ok db]
  by (auto simp: bulk_master_ok_def unlock_bulk_begin_def master_of_def bind_eq_Some_conv split: option.splits if_splits)

lemma bulk_vault_ok:
  assumes "gcm_ok lib" "rnd_fills env [16, 12, 16, 12, 12]" "bulk_master_ok lib st db" "bulk_vault lib env st db = (st', db')"
  shows "bulk_master_ok lib st' db' \<and> vault_grows db db' \<and> identities db' = identities db \<and> ub_passphrase st' = ub_passphrase st"
proof (cases "db' = db \<and> st' = st")
  case True
  then show ?thesis using assms(3) by simp
next
  case False
  have "\<not> (ub_master_kek st \<noteq> None \<or> ub_vault_exists st)" using False assms(4) by (auto simp: bulk_vault_def split: if_splits)
  with False obtain salt master canary rc where v: "ke_rnd env 0 = Some salt"
      "derive_kek lib (ub_passphrase st) salt BM_KEYRING_SCRYPT_N BM_KEYRING_SCRYPT_R BM_KEYRING_SCRYPT_P = Some master"
      "bm_keyring_internal_wrap lib (ke_rnd env 1) master VAULT_CANARY_AAD VAULT_CANARY_PLAINTEXT = Some canary"
      "bm_identity_store_create_vault (ke_ok env 3) salt scrypt_params canary db = (rc, db')"
      "st' = (if rc \<noteq> 0 then st else st\<lparr>ub_master_kek := Some master, ub_vault_exists := True\<rparr>)"
    using assms(4) unfolding bulk_vault_def by (auto split: option.splits prod.splits if_splits)
  have rc: "rc = 0" using False create_vault_fails [OF v(4)] v(5) by (auto split: if_splits)
  have len: "length salt = 16" "\<And>b. ke_rnd env 1 = Some b \<Longrightarrow> length b = 12"
    using rnd_fillsD [OF assms(2), of 0] rnd_fillsD [OF assms(2), of 1] v(1) by simp_all
  show ?thesis using new_vault_master [OF assms(1) len v(2,3) v(4) [unfolded rc]] v(5) rc by (simp add: bulk_master_ok_def)
qed

text \<open>What \<open>unlock_bulk_one\<close> does to the table: at most the row of its address is wrapped again, and then it keeps its keys.\<close>

lemma bulk_one_ok:
  assumes "gcm_ok lib" "rnd_fills env [16, 12, 16, 12, 12]" "bulk_master_ok lib st db"
    and "unlock_bulk_one ssl lib env a (st, db, kr) = (out, st', db', kr')"
  shows "bulk_master_ok lib st' db' \<and> vault_grows db db' \<and> ub_passphrase st' = ub_passphrase st \<and>
    (\<forall>b. c_str b \<noteq> c_str a \<longrightarrow> find_row b db' = find_row b db) \<and>
    (find_row a db' = find_row a db \<or> 64 \<le> strlen a \<or>
     (\<exists>k. bm_keyring_export lib (True, True) a (ub_passphrase st) db = Some k \<and>
          bm_keyring_export lib (True, True) a (ub_passphrase st) db' = Some k))"
proof (cases "db' = db \<and> st' = st")
  case True
  then show ?thesis using assms(3) by simp
next
  case False
  obtain u where u: "bm_keyring_unlock ssl lib env 1 a (ub_passphrase st) db kr = u" by blast
  obtain st1 db1 where v: "bulk_vault lib env st db = (st1, db1)" by (rule prod.exhaust)
  have res: "fst u = 0" "kr' = snd u" "st' = st1"
      "db' = (case ub_master_kek st1 of None \<Rightarrow> db1 | Some m \<Rightarrow> snd (rewrap_to_vault lib env 4 2 a m (snd u) db1))"
    using False assms(4) u v unfolding unlock_bulk_one_def Let_def
    by (auto split: if_splits option.splits prod.splits)
  have b: "bulk_master_ok lib st1 db1" "vault_grows db db1" "identities db1 = identities db" "ub_passphrase st1 = ub_passphrase st"
    using bulk_vault_ok [OF assms(1-3) v] by simp_all
  have f: "find_row b db1 = find_row b db" for b by (simp add: find_row_def b(3))
  show ?thesis
  proof (cases "ub_master_kek st1")
    case None
    then show ?thesis using b f res by simp
  next
    case (Some m)
    obtain rc where w: "rewrap_to_vault lib env 4 2 a m (snd u) db1 = (rc, db')"
      using res(4) Some by (cases "rewrap_to_vault lib env 4 2 a m (snd u) db1") simp
    note rows = rewrap_rows [OF w]
    have "find_row a db' = find_row a db \<or> 64 \<le> strlen a \<or>
     (\<exists>k. bm_keyring_export lib (True, True) a (ub_passphrase st) db = Some k \<and>
          bm_keyring_export lib (True, True) a (ub_passphrase st) db' = Some k)"
    proof (cases "rc = 0 \<and> strlen a < 64")
      case True
      have "bm_keyring_unlock ssl lib env 1 a (ub_passphrase st) db kr = (0, snd u)" using u res(1) by (cases u) simp
      then obtain e where e: "snd u = e # kr" "same_address a e"
          "bm_keyring_export lib (True, True) a (ub_passphrase st) db = Some (ui_priv_signing e, ui_priv_encryption e)"
        by (rule unlock_keys) (use True in simp_all)
      obtain r where r: "find_row a db = Some r" "length (ir_signing_pubkey r) = 65" "length (ir_encryption_pubkey r) = 65"
          "length (ui_priv_signing e) = 32" "length (ui_priv_encryption e) = 32"
        by (rule export_lengths [OF assms(1) e(3)])
      have len: "\<And>b. ke_rnd env 2 = Some b \<Longrightarrow> length b = 16" "\<And>b. ke_rnd env (2 + 1) = Some b \<Longrightarrow> length b = 12"
          "\<And>b. ke_rnd env (2 + 2) = Some b \<Longrightarrow> length b = 12"
        using rnd_fillsD [OF assms(2), of 2] rnd_fillsD [OF assms(2), of "2 + 1"] rnd_fillsD [OF assms(2), of "2 + 2"] by simp_all
      have "master_of lib db1 (ub_passphrase st) m" using b(1,4) Some by (simp add: bulk_master_ok_def)
      from rewrap_keys [OF assms(1) _ e(2) len this f [of a, unfolded r(1)] r(2-5), where env = env and j = 2 and i = 4 and kr = kr and db' = db'] e(3) w True
      show ?thesis unfolding e(1) by simp
    next
      case False
      then show ?thesis using rows(3) f by auto
    qed
    moreover have "bulk_master_ok lib st' db'" using b(1) rows(1) unfolding res(3) bulk_master_ok_def
      by (auto intro: master_of_vault)
    ultimately show ?thesis
      using vault_grows_trans [OF b(2) vault_grows_refl(2) [OF rows(1)]] rows(2) f b(4) res(3) by auto
  qed
qed

section \<open>Lemmas: siblings\<close>

definition session_ok :: "kdf_lib \<Rightarrow> bm_keyring_convert_session \<Rightarrow> identity_db \<Rightarrow> bool" where
  "session_ok lib session db \<longleftrightarrow>
     (cs_master_kek_state session = 1 \<longrightarrow> master_of lib db (cs_passphrase session) (cs_master_kek session))"

lemma session_master_ok:
  assumes "session_ok lib session db" "session_master_kek lib ok db session = (have, session')"
  shows "session_ok lib session' db" "cs_passphrase session' = cs_passphrase session"
    "have \<Longrightarrow> master_of lib db (cs_passphrase session) (cs_master_kek session')"
proof -
  have "session_ok lib session' db \<and> cs_passphrase session' = cs_passphrase session \<and>
      (have \<longrightarrow> cs_master_kek_state session' = 1)"
    using assms load_vault_ok [of ok db] unfolding session_master_kek_def Let_def session_ok_def
    by (auto simp: master_of_def bind_eq_Some_conv split: option.splits if_splits)
  then show "session_ok lib session' db" "cs_passphrase session' = cs_passphrase session"
    "have \<Longrightarrow> master_of lib db (cs_passphrase session) (cs_master_kek session')"
    by (auto simp: session_ok_def)
qed

text \<open>The keys of all rows stay as they are when only labels and flags change.\<close>

definition bare_row :: "bm_identity_row \<Rightarrow> bm_identity_row" where
  "bare_row r = r\<lparr>ir_label := [], ir_is_chan := 0\<rparr>"

definition same_keys :: "identity_db \<Rightarrow> identity_db \<Rightarrow> bool" where
  "same_keys db db' \<longleftrightarrow> vault db' = vault db \<and> (\<forall>b. map_option bare_row (find_row b db') = map_option bare_row (find_row b db))"

lemma same_keys_refl [simp]: "same_keys db db"
  by (simp add: same_keys_def)

lemma same_keys_trans: "same_keys a b \<Longrightarrow> same_keys b c \<Longrightarrow> same_keys a c"
  by (simp add: same_keys_def)

lemma row_keys_bare: "row_keys lib v a p (bare_row r) = row_keys lib v a p r"
  by (simp add: bare_row_def)

lemma export_bare:
  "bm_keyring_export lib (True, True) a p db = Option.bind (map_option bare_row (find_row a db)) (row_keys lib (vault db) a p)"
  unfolding export_row_keys by (cases "find_row a db") (simp_all add: row_keys_bare)

lemma same_keys_export: "same_keys db db' \<Longrightarrow> bm_keyring_export lib (True, True) a p db' = bm_keyring_export lib (True, True) a p db"
  unfolding export_bare same_keys_def by simp

lemma same_keys_update:
  assumes "\<And>r. bare_row (f r) = bare_row r"
  shows "same_keys db (update_row a f db)"
proof -
  have addr: "ir_address (f r) = ir_address r" for r using arg_cong [OF assms [of r], of ir_address] by (simp add: bare_row_def)
  have "map_option bare_row (map_option f x) = map_option bare_row x" for x by (cases x) (simp_all add: assms)
  then show ?thesis by (simp add: same_keys_def find_row_update [of f, OF addr])
qed

lemma same_keys_label: "same_keys db (snd (bm_identity_store_update_label ok a l db))"
  by (simp add: bm_identity_store_update_label_def same_keys_update bare_row_def)

lemma same_keys_chan: "same_keys db (snd (bm_identity_store_set_is_chan ok a c db))"
  by (simp add: bm_identity_store_set_is_chan_def same_keys_update bare_row_def)

text \<open>No row is lost and no key in a row changes.\<close>

definition rows_kept :: "identity_db \<Rightarrow> identity_db \<Rightarrow> bool" where
  "rows_kept db db' \<longleftrightarrow> vault_grows db db' \<and>
     (\<forall>b. find_row b db \<noteq> None \<longrightarrow> map_option bare_row (find_row b db') = map_option bare_row (find_row b db))"

lemma rows_keptI: "vault_grows db db' \<Longrightarrow> (\<And>b. find_row b db \<noteq> None \<Longrightarrow> find_row b db' = find_row b db) \<Longrightarrow> rows_kept db db'"
  by (simp add: rows_kept_def)

lemma rows_kept_same: "same_keys db db' \<Longrightarrow> rows_kept db db'"
  by (simp add: same_keys_def rows_kept_def)

lemma rows_kept_refl [simp]: "rows_kept db db"
  by (simp add: rows_kept_def)

lemma rows_kept_trans:
  assumes "rows_kept a b" "rows_kept b c"
  shows "rows_kept a c"
proof -
  have "find_row x b \<noteq> None" if "find_row x a \<noteq> None" for x
    using assms(1) that unfolding rows_kept_def by (metis option.map_disc_iff)
  then show ?thesis using assms unfolding rows_kept_def by (auto intro: vault_grows_trans)
qed

lemma rows_kept_export:
  assumes "rows_kept db db'" "bm_keyring_export lib (True, True) a p db = Some k"
  shows "bm_keyring_export lib (True, True) a p db' = Some k"
proof -
  obtain r where r: "find_row a db = Some r" "row_keys lib (vault db) a p (bare_row r) = Some k"
    using assms(2) unfolding export_bare by (auto simp: bind_eq_Some_conv)
  have "row_keys lib (vault db') a p (bare_row r) = Some k"
    using assms(1) r(2) row_keys_vault [of lib a p "bare_row r" k "vault db'"]
    unfolding rows_kept_def vault_grows_def by (elim conjE disjE) simp_all
  then show ?thesis using assms(1) r(1) unfolding export_bare rows_kept_def by simp
qed

lemma store_new_kept:
  assumes "store_new_identity_with_kek lib ok nonces now a label ver stream spub epub sk ek algo salt params kek nt eb db = (rc, db')"
  shows "rows_kept db db'" "vault db' = vault db"
proof -
  obtain row where r: "rc = 0 \<Longrightarrow> bm_identity_store_insert ok row db = (0, db')"
    using assms by (auto simp: store_new_identity_with_kek_def split: option.splits)
  show "vault db' = vault db" using r find_row_insert(3) store_new_fails [OF assms] by (cases "rc = 0") auto
  show "rows_kept db db'"
  proof (cases "rc = 0")
    case True
    have "find_row b db' = find_row b db" if "find_row b db \<noteq> None" for b
      using find_row_insert(1,2) [OF r [OF True]] that by (auto simp: find_row_def split: if_splits)
    then show ?thesis using find_row_insert(3) [OF r [OF True]] by (auto intro: rows_keptI)
  next
    case False
    then show ?thesis using store_new_fails [OF assms] by simp
  qed
qed

lemma create_kept:
  "bm_keyring_create_identity lib env a label ver stream spub epub sk ek p nt eb db = (rc, db') \<Longrightarrow> rows_kept db db' \<and> vault db' = vault db"
  by (auto simp: bm_keyring_create_identity_def split: option.splits dest: store_new_kept)

lemma import_with_master_kept:
  "bm_keyring_import_identity_with_master_kek lib env i j a label ver stream spub epub sk ek master nt eb db = (rc, db') \<Longrightarrow>
    rows_kept db db' \<and> vault db' = vault db"
  by (auto simp: bm_keyring_import_identity_with_master_kek_def split: option.splits dest: store_new_kept)

lemma new_sibling_ok:
  assumes "new_sibling lib env session is_vault v3 v4a sk ek db = (res, db')"
  shows "rows_kept db db' \<and> vault db' = vault db"
    "\<lbrakk>res = Inr v4; gcm_ok lib; strlen v4a < 64; length (ir_signing_pubkey v3) = 65; length (ir_encryption_pubkey v3) = 65;
      length sk = 32; length ek = 32; rnd_fills env [16, 12, 12];
      is_vault \<Longrightarrow> master_of lib db (cs_passphrase session) (cs_master_kek session)\<rbrakk>
     \<Longrightarrow> bm_keyring_export lib (True, True) v4a (cs_passphrase session) db' = Some (sk, ek)"
proof -
  obtain rc db1 where c: "(if is_vault
            then bm_keyring_import_identity_with_master_kek lib env 3 0 v4a (Some (ir_label v3)) 4 (ir_stream v3)
                   (ir_signing_pubkey v3) (ir_encryption_pubkey v3) sk ek (cs_master_kek session)
                   (ir_nonce_trials_per_byte v3) (ir_payload_length_extra_bytes v3) db
            else bm_keyring_create_identity lib (env\<lparr>ke_ok := (\<lambda>i. ke_ok env (i + 3))\<rparr>) v4a (Some (ir_label v3)) 4 (ir_stream v3)
                   (ir_signing_pubkey v3) (ir_encryption_pubkey v3) sk ek (cs_passphrase session)
                   (ir_nonce_trials_per_byte v3) (ir_payload_length_extra_bytes v3) db) = (rc, db1)" by (rule prod.exhaust)
  have db': "db' = db1 \<or> (\<exists>ok. db' = snd (bm_identity_store_set_is_chan ok v4a 1 db1))"
    using assms unfolding new_sibling_def c by (auto split: if_splits option.splits)
  have k: "rows_kept db db1" "vault db1 = vault db"
    using c create_kept import_with_master_kept by (cases is_vault; simp; blast)+
  have same: "same_keys db1 db'" using db' same_keys_chan by auto
  then show "rows_kept db db' \<and> vault db' = vault db"
    using rows_kept_trans [OF k(1) rows_kept_same] k(2) by (simp add: same_keys_def)
  assume a: "res = Inr v4" "gcm_ok lib" "strlen v4a < 64" "length (ir_signing_pubkey v3) = 65" "length (ir_encryption_pubkey v3) = 65"
      "length sk = 32" "length ek = 32" "rnd_fills env [16, 12, 12]"
      and m: "is_vault \<Longrightarrow> master_of lib db (cs_passphrase session) (cs_master_kek session)"
  have rc: "rc = 0" using assms a(1) unfolding new_sibling_def c by (simp split: if_splits)
  have "bm_keyring_export lib (True, True) v4a (cs_passphrase session) db1 = Some (sk, ek)"
  proof (cases is_vault)
    case True
    have len: "\<And>b. ke_rnd env 0 = Some b \<Longrightarrow> length b = 16" "\<And>b. ke_rnd env (0 + 1) = Some b \<Longrightarrow> length b = 12"
        "\<And>b. ke_rnd env (0 + 2) = Some b \<Longrightarrow> length b = 12"
      using rnd_fillsD [OF a(8), of 0] rnd_fillsD [OF a(8), of 1] rnd_fillsD [OF a(8), of 2] by (simp_all add: numeral_2_eq_2)
    show ?thesis by (rule import_with_master_keys(1) [OF a(2-7) len m [OF True]])
        (use c rc in \<open>simp_all add: True\<close>)
  next
    case False
    have rnd: "rnd_fills (env\<lparr>ke_ok := (\<lambda>i. ke_ok env (i + 3))\<rparr>) [16, 12, 12]" using a(8) by (simp add: rnd_fills_def)
    show ?thesis by (rule create_keys(1) [OF a(2-7) rnd]) (use c rc in \<open>simp add: False\<close>)
  qed
  then show "bm_keyring_export lib (True, True) v4a (cs_passphrase session) db' = Some (sk, ek)"
    unfolding same_keys_export [OF same] .
qed

lemma existing_sibling_kept:
  "existing_sibling env v3 v4 v4a (db, kr) = (res, db', kr') \<Longrightarrow> rows_kept db db' \<and> vault db' = vault db"
  using same_keys_label [of db] same_keys_chan
  by (auto simp: existing_sibling_def Let_def same_keys_def split: if_splits intro!: rows_kept_same)

lemma take_c_str: "strlen (take 63 s) < 64"
proof -
  have "length (takeWhile (\<lambda>b. b \<noteq> 0) (take 63 s)) \<le> 63" by (rule le_trans [OF length_takeWhile_le]) simp
  then show ?thesis by (simp add: strlen_def c_str_def)
qed

lemma sibling_kek:
  assumes "gcm_ok lib" "bm_identity_store_load ok a db = Some v3" "strlen a < 64"
    and "kek_rc = (if is_vault then (if have then hkdf_expand_wrap_key lib master (ir_kdf_salt v3) (ir_address v3) else None)
           else resolve_kek_for_row lib ok' v3 p db)"
    and "is_vault = (c_str (ir_kdf_algo v3) = lit ''vault-hkdf'')" "is_vault \<and> have \<Longrightarrow> master_of lib db p master"
    and "Option.bind kek_rc (\<lambda>kek. unwrap_row lib kek (ir_address v3) v3) = Some k"
  shows "bm_keyring_export lib (True, True) a p db = Some k"
proof -
  have addr: "ir_address v3 = c_str a"
    using assms(2,3) by (auto elim!: load_row dest!: find_row_address simp: strlen_def)
  obtain kek where kek: "kek_rc = Some kek" "unwrap_row lib kek (ir_address v3) v3 = Some k"
    using assms(7) by (auto simp: bind_eq_Some_conv)
  have "resolve_kek_for_row lib True v3 p db = Some kek"
  proof (cases is_vault)
    case True
    then show ?thesis using kek(1) assms(4-6)
      by (auto simp: resolve_kek_for_row_def bm_keyring_internal_resolve_kek_def master_of_def split: if_splits)
  next
    case False
    then show ?thesis using kek(1) assms(4) by (simp add: resolve_kek_for_row_def resolve_kek_ok)
  qed
  moreover have "bm_identity_store_load True a db = Some v3"
    using assms(2) by (auto simp: bm_identity_store_load_def split: if_splits)
  ultimately show ?thesis using kek(2) by (simp add: bm_keyring_export_def unwrap_row_def addr)
qed

lemma sibling_ok:
  assumes "gcm_ok lib" "session_ok lib session db"
    and "bm_keyring_ensure_v4_sibling ssl lib env a (session, db, kr) = Done ((rc, v4a, created), session', db', kr')"
  shows "rows_kept db db' \<and> session_ok lib session' db' \<and> cs_passphrase session' = cs_passphrase session \<and>
    (rc = 0 \<and> created \<and> strlen a < 64 \<and> rnd_fills env [16, 12, 12] \<longrightarrow> strlen v4a < 64 \<and>
      (\<exists>k. bm_keyring_export lib (True, True) a (cs_passphrase session) db = Some k \<and>
           bm_keyring_export lib (True, True) v4a (cs_passphrase session) db' = Some k))"
proof (cases "bm_identity_store_load (ke_ok env 0) a db")
  case None
  then show ?thesis using assms(2,3) by (simp add: bm_keyring_ensure_v4_sibling_def BM_KEYRING_CONVERT_ERR_NOT_FOUND_def)
next
  case load: (Some v3)
  define is_vault where "is_vault = (c_str (ir_kdf_algo v3) = lit ''vault-hkdf'')"
  obtain have1 session1 where m: "(if is_vault then session_master_kek lib (ke_ok env 1) db session else (True, session)) = (have1, session1)"
    by (rule prod.exhaust)
  have s1: "session_ok lib session1 db" "cs_passphrase session1 = cs_passphrase session"
      "is_vault \<and> have1 \<Longrightarrow> master_of lib db (cs_passphrase session) (cs_master_kek session1)"
    using session_master_ok [OF assms(2)] m assms(2) by (cases is_vault; auto)+
  show ?thesis
  proof (cases "ir_address_version v3 = 3")
    case False
    then show ?thesis using load assms(2,3) by (simp add: bm_keyring_ensure_v4_sibling_def BM_KEYRING_CONVERT_ERR_NOT_V3_def)
  next
    case True
    define kek_rc where "kek_rc = (if is_vault
        then (if have1 then hkdf_expand_wrap_key lib (cs_master_kek session1) (ir_kdf_salt v3) (ir_address v3) else None)
        else resolve_kek_for_row lib (ke_ok env 1) v3 (cs_passphrase session1) db)"
    have cut: "BM_KEYRING_MAX_ADDRESS_LEN - 1 = 63" by simp
    note eq = assms(3) [unfolded bm_keyring_ensure_v4_sibling_def cut prod.case load option.case Let_def,
        folded is_vault_def, unfolded m prod.case, folded kek_rc_def]
    show ?thesis
    proof (cases "Option.bind kek_rc (\<lambda>kek. unwrap_row lib kek (ir_address v3) v3)")
      case None
      then show ?thesis using eq True s1 by (simp add: BM_KEYRING_CONVERT_ERR_PASSPHRASE_def)
    next
      case (Some k)
      obtain sk ek where k: "k = (sk, ek)" by (rule prod.exhaust)
      obtain enc where enc: "bm_address_encode ssl 4 (word_of_int (ir_stream v3))
          (bm_address_calc_ripe ssl (ir_signing_pubkey v3) (ir_encryption_pubkey v3)) = Done enc"
        using eq True Some k by auto
      show ?thesis
      proof (cases enc)
        case None
        then show ?thesis using eq True Some k enc s1 by simp
      next
        case addr: (Some addr)
        define ex where "ex = bm_identity_store_load (ke_ok env 2) (take 63 addr) db"
        obtain res db1 kr1 where r: "(case ex of Some v4 \<Rightarrow> existing_sibling env v3 v4 (take 63 addr) (db, kr)
              | None \<Rightarrow> (case new_sibling lib env session1 is_vault v3 (take 63 addr) sk ek db of (r, d) \<Rightarrow> (r, d, kr))) = (res, db1, kr1)"
          by (rule prod_cases3)
        have fin: "session' = session1" "db' = db1" "v4a = take 63 addr" "rc = 0 \<and> created \<Longrightarrow> ex = None \<and> (\<exists>v4. res = Inr v4)"
          using eq True Some k enc addr r by (auto simp: ex_def split: sum.splits prod.splits)
        have kept: "rows_kept db db1 \<and> vault db1 = vault db"
          using r new_sibling_ok(1) existing_sibling_kept by (cases ex) (auto split: prod.splits)
        have "session_ok lib session1 db1" using s1(1) kept by (auto simp: session_ok_def intro: master_of_vault)
        moreover have "bm_keyring_export lib (True, True) a (cs_passphrase session) db = Some k \<and>
            bm_keyring_export lib (True, True) v4a (cs_passphrase session) db' = Some k"
          if c: "rc = 0 \<and> created \<and> strlen a < 64 \<and> rnd_fills env [16, 12, 12]"
        proof -
          have e: "bm_keyring_export lib (True, True) a (cs_passphrase session) db = Some k"
            by (rule sibling_kek [OF assms(1) load _ kek_rc_def [unfolded s1(2)] is_vault_def s1(3) Some]) (use c in simp_all)
          obtain v4 where v4: "new_sibling lib env session1 is_vault v3 (take 63 addr) sk ek db = (Inr v4, db1)"
            using r fin(4) c by (auto split: prod.splits)
          obtain r3 where r3: "find_row a db = Some r3" "length (ir_signing_pubkey r3) = 65" "length (ir_encryption_pubkey r3) = 65"
              "length sk = 32" "length ek = 32"
            by (rule export_lengths [OF assms(1) e [unfolded k]])
          have pub: "length (ir_signing_pubkey v3) = 65" "length (ir_encryption_pubkey v3) = 65" using load by (auto elim!: load_row)
          have have1: "is_vault \<Longrightarrow> have1" using Some kek_rc_def by (auto split: if_splits)
          show ?thesis using e new_sibling_ok(2) [OF v4 refl assms(1) take_c_str pub r3(4,5)] c s1(2,3) have1 fin(2,3) k by simp
        qed
        ultimately show ?thesis using kept s1(2) fin take_c_str [of addr] by auto
      qed
    qed
  qed
qed

section \<open>No operation loses a key\<close>

text \<open>
  The state of the keyring module: the database, the keyring, one bulk unlock and one conversion under way, and,
  for the specification, what was stored: for each address the passphrase and the two private keys.
\<close>

record key_world =
  kw_db :: identity_db
  kw_keyring :: keyring
  kw_bulk :: unlock_bulk_state
  kw_session :: bm_keyring_convert_session
  kw_stored :: "bytes \<Rightarrow> (bytes \<times> bytes \<times> bytes) option"

definition fresh_world :: "identity_db \<Rightarrow> key_world" where
  "fresh_world db = \<lparr>kw_db = db, kw_keyring = [], kw_bulk = \<lparr>ub_passphrase = [], ub_vault_exists = True, ub_master_kek = None\<rparr>,
     kw_session = bm_keyring_convert_session_init [], kw_stored = Map.empty\<rparr>"

text \<open>
  One call of the module. The random strings have the lengths that are asked for, addresses fit their arrays and keys have
  their lengths; in the bulk unlock, a stored identity does not open under another passphrase than its own.
\<close>

inductive keyring_step :: "openssl \<Rightarrow> kdf_lib \<Rightarrow> key_world \<Rightarrow> key_world \<Rightarrow> bool" for ssl lib where
  create: "\<lbrakk>bm_keyring_create_identity lib env a label ver stream spub epub sk ek p nt eb (kw_db w) = (rc, db');
    rnd_fills env [16, 12, 12]; strlen a < 64; length spub = 65; length epub = 65; length sk = 32; length ek = 32\<rbrakk>
    \<Longrightarrow> keyring_step ssl lib w (w\<lparr>kw_db := db', kw_stored := if rc = 0 then (kw_stored w)(c_str a \<mapsto> (p, sk, ek)) else kw_stored w\<rparr>)"
| import_key: "\<lbrakk>bm_keyring_import_identity lib env a label ver stream spub epub sk ek p nt eb (kw_db w) = (rc, db');
    rnd_fills env [16, 12, 16, 12, 12]; strlen a < 64; length spub = 65; length epub = 65; length sk = 32; length ek = 32\<rbrakk>
    \<Longrightarrow> keyring_step ssl lib w (w\<lparr>kw_db := db', kw_stored := if rc = 0 then (kw_stored w)(c_str a \<mapsto> (p, sk, ek)) else kw_stored w\<rparr>)"
| unlock: "bm_keyring_unlock ssl lib env 0 a p (kw_db w) (kw_keyring w) = (rc, kr') \<Longrightarrow> keyring_step ssl lib w (w\<lparr>kw_keyring := kr'\<rparr>)"
| bulk_begin: "keyring_step ssl lib w (w\<lparr>kw_bulk := unlock_bulk_begin lib ok p (kw_db w)\<rparr>)"
| bulk_one: "\<lbrakk>unlock_bulk_one ssl lib env a (kw_bulk w, kw_db w, kw_keyring w) = (out, st', db', kr');
    rnd_fills env [16, 12, 16, 12, 12];
    \<And>q k. kw_stored w (c_str a) = Some (q, k) \<Longrightarrow>
      q = ub_passphrase (kw_bulk w) \<or> bm_keyring_export lib (True, True) a (ub_passphrase (kw_bulk w)) (kw_db w) = None\<rbrakk>
    \<Longrightarrow> keyring_step ssl lib w (w\<lparr>kw_bulk := st', kw_db := db', kw_keyring := kr'\<rparr>)"
| bulk_end: "keyring_step ssl lib w (w\<lparr>kw_bulk := unlock_bulk_end (kw_bulk w)\<rparr>)"
| convert_begin: "keyring_step ssl lib w (w\<lparr>kw_session := bm_keyring_convert_session_init p\<rparr>)"
| convert: "\<lbrakk>bm_keyring_ensure_v4_sibling ssl lib env a (kw_session w, kw_db w, kw_keyring w) = Done ((rc, v4a, created), session', db', kr');
    rnd_fills env [16, 12, 12]; strlen a < 64\<rbrakk>
    \<Longrightarrow> keyring_step ssl lib w (w\<lparr>kw_session := session', kw_db := db', kw_keyring := kr', kw_stored :=
          if rc = 0 \<and> created
          then (kw_stored w)(c_str v4a := map_option (Pair (cs_passphrase (kw_session w)))
                 (bm_keyring_export lib (True, True) a (cs_passphrase (kw_session w)) (kw_db w)))
          else kw_stored w\<rparr>)"
| convert_end: "keyring_step ssl lib w (w\<lparr>kw_session := bm_keyring_convert_session_clear (kw_session w)\<rparr>)"
| lock: "keyring_step ssl lib w (w\<lparr>kw_keyring := snd (bm_keyring_lock a (kw_keyring w))\<rparr>)"
| lock_all: "keyring_step ssl lib w (w\<lparr>kw_keyring := bm_keyring_lock_all (kw_keyring w)\<rparr>)"
| delete: "bm_keyring_delete_identity ok a (kw_db w) (kw_keyring w) = (rc, db', kr') \<Longrightarrow>
    keyring_step ssl lib w (w\<lparr>kw_db := db', kw_keyring := kr', kw_stored := (kw_stored w)(c_str a := None)\<rparr>)"
| mark_as_chan: "keyring_step ssl lib w (w\<lparr>kw_db := snd (bm_keyring_mark_as_chan ok a (kw_db w))\<rparr>)"
| relabel: "keyring_step ssl lib w (w\<lparr>kw_db := snd (bm_identity_store_update_label ok a l (kw_db w))\<rparr>)"

definition custody :: "kdf_lib \<Rightarrow> (bytes \<Rightarrow> (bytes \<times> bytes \<times> bytes) option) \<Rightarrow> identity_db \<Rightarrow> bool" where
  "custody lib stored db \<longleftrightarrow>
     (\<forall>a p k. stored (c_str a) = Some (p, k) \<longrightarrow> strlen a < 64 \<and> bm_keyring_export lib (True, True) a p db = Some k)"

definition world_ok :: "kdf_lib \<Rightarrow> key_world \<Rightarrow> bool" where
  "world_ok lib w \<longleftrightarrow> custody lib (kw_stored w) (kw_db w) \<and> bulk_master_ok lib (kw_bulk w) (kw_db w) \<and> session_ok lib (kw_session w) (kw_db w)"

lemma fresh_world_ok: "world_ok lib (fresh_world db)"
  by (simp add: world_ok_def fresh_world_def custody_def bulk_master_ok_def session_ok_def bm_keyring_convert_session_init_def)

lemma masters_grow:
  "bulk_master_ok lib st db \<Longrightarrow> vault_grows db db' \<Longrightarrow> bulk_master_ok lib st db'"
  "session_ok lib session db \<Longrightarrow> vault_grows db db' \<Longrightarrow> session_ok lib session db'"
  by (auto simp: bulk_master_ok_def session_ok_def intro: master_of_vault)

lemma custody_kept: "custody lib stored db \<Longrightarrow> rows_kept db db' \<Longrightarrow> custody lib stored db'"
  by (auto simp: custody_def intro: rows_kept_export)

lemma export_c_str: "c_str b = c_str a \<Longrightarrow> bm_keyring_export lib ok b p db = bm_keyring_export lib ok a p db"
  by (simp add: bm_keyring_export_def bm_identity_store_load_def find_row_def unwrap_row_def)

lemma custodyD: "custody lib stored db \<Longrightarrow> stored (c_str b) = Some (q, k) \<Longrightarrow> strlen b < 64 \<and> bm_keyring_export lib (True, True) b q db = Some k"
  unfolding custody_def by blast

lemma find_row_c_str: "c_str b = c_str a \<Longrightarrow> find_row b db = find_row a db"
  by (simp add: find_row_def)

lemma custody_new:
  assumes "custody lib stored db" "strlen a < 64" "bm_keyring_export lib (True, True) a p db = Some k"
  shows "custody lib (stored(c_str a \<mapsto> (p, k))) db"
  unfolding custody_def
proof (intro allI impI)
  fix b q k'
  assume b: "(stored(c_str a \<mapsto> (p, k))) (c_str b) = Some (q, k')"
  show "strlen b < 64 \<and> bm_keyring_export lib (True, True) b q db = Some k'"
  proof (cases "c_str b = c_str a")
    case True
    then show ?thesis using b assms(2,3) export_c_str [OF True, of lib "(True, True)" p db] by (simp add: strlen_def)
  next
    case False
    then have "stored (c_str b) = Some (q, k')" using b by simp
    then show ?thesis by (rule custodyD [OF assms(1)])
  qed
qed

lemma rows_kept_vault: "rows_kept db db' \<Longrightarrow> vault_grows db db'"
  by (simp add: rows_kept_def)

lemma import_kept:
  assumes "gcm_ok lib" "rnd_fills env [16, 12, 16, 12, 12]"
    and "bm_keyring_import_identity lib env a label ver stream spub epub sk ek p nt eb db = (rc, db')"
  shows "rows_kept db db'"
proof -
  obtain m db1 where r: "bm_keyring_resolve_or_create_vault_master_kek lib env p db = (m, db1)" by (rule prod.exhaust)
  have k: "rows_kept db db1"
    using resolve_or_create_master [OF assms(1,2) _ _ _ r] by (intro rows_keptI) (simp_all add: find_row_def)
  show ?thesis
  proof (cases m)
    case None
    then show ?thesis using assms(3) r k by (simp add: bm_keyring_import_identity_def)
  next
    case (Some master)
    then have "rows_kept db1 db'" using assms(3) r import_with_master_kept by (auto simp: bm_keyring_import_identity_def)
    then show ?thesis by (rule rows_kept_trans [OF k])
  qed
qed

lemma bulk_one_custody:
  assumes "gcm_ok lib" "rnd_fills env [16, 12, 16, 12, 12]" "bulk_master_ok lib st db" "custody lib stored db"
    and "unlock_bulk_one ssl lib env a (st, db, kr) = (out, st', db', kr')"
    and "\<And>q k. stored (c_str a) = Some (q, k) \<Longrightarrow>
      q = ub_passphrase st \<or> bm_keyring_export lib (True, True) a (ub_passphrase st) db = None"
  shows "custody lib stored db'"
  unfolding custody_def
proof (intro allI impI)
  note one = bulk_one_ok [OF assms(1-3,5)]
  fix b q k
  assume b: "stored (c_str b) = Some (q, k)"
  then have len: "strlen b < 64" and e: "bm_keyring_export lib (True, True) b q db = Some k" using assms(4) unfolding custody_def by blast+
  have "bm_keyring_export lib (True, True) b q db' = Some k"
  proof (cases "find_row b db' = find_row b db")
    case True
    then show ?thesis using export_mono [OF e] one by simp
  next
    case False
    then have ab: "c_str b = c_str a" using one by blast
    have fa: "find_row a db' \<noteq> find_row a db" using False find_row_c_str [OF ab] by simp
    have la: "\<not> 64 \<le> strlen a" using len ab by (simp add: strlen_def)
    obtain k' where k': "bm_keyring_export lib (True, True) a (ub_passphrase st) db = Some k'"
        "bm_keyring_export lib (True, True) a (ub_passphrase st) db' = Some k'"
      using one fa la by blast
    have q: "q = ub_passphrase st" using assms(6) [of q k] b k'(1) unfolding ab by auto
    then show ?thesis using e k' export_c_str [OF ab, of lib "(True, True)"] by simp
  qed
  with len show "strlen b < 64 \<and> bm_keyring_export lib (True, True) b q db' = Some k" by simp
qed

lemma delete_custody:
  assumes "custody lib stored db" "bm_keyring_delete_identity ok a db kr = (rc, db', kr')"
  shows "custody lib (stored(c_str a := None)) db'" "vault db' = vault db"
proof -
  have db': "db' = snd (bm_identity_store_delete ok a db)"
    using assms(2) by (simp add: bm_keyring_delete_identity_def split: prod.splits)
  show v: "vault db' = vault db" by (simp add: db' bm_identity_store_delete_def)
  have f: "find_row b db' = find_row b db" if "c_str b \<noteq> c_str a" for b
    using that find_row_delete [of b a db] unfolding db' by (cases ok) (simp_all add: bm_identity_store_delete_def)
  show "custody lib (stored(c_str a := None)) db'"
    unfolding custody_def
  proof (intro allI impI)
    fix b q k
    assume "(stored(c_str a := None)) (c_str b) = Some (q, k)"
    then have b: "c_str b \<noteq> c_str a" "stored (c_str b) = Some (q, k)" by (auto split: if_splits)
    then have e: "strlen b < 64" "bm_keyring_export lib (True, True) b q db = Some k" using custodyD [OF assms(1) b(2)] by simp_all
    show "strlen b < 64 \<and> bm_keyring_export lib (True, True) b q db' = Some k"
      using e(1) export_mono [OF e(2) vault_grows_refl(2) [OF v] f [OF b(1)]] by simp
  qed
qed

lemma world_okI:
  "world_ok lib w \<Longrightarrow> rows_kept (kw_db w) db' \<Longrightarrow> world_ok lib (w\<lparr>kw_db := db'\<rparr>)"
  using custody_kept masters_grow rows_kept_vault by (auto simp: world_ok_def)

lemma keyring_step_ok:
  assumes "gcm_ok lib" "keyring_step ssl lib w w'" "world_ok lib w"
  shows "world_ok lib w'"
proof -
  note w = assms(3) [unfolded world_ok_def]
  from assms(2) show ?thesis
  proof cases
    case (create env a label ver stream spub epub sk ek p nt eb rc db')
    have k: "rows_kept (kw_db w) db'" using create_kept [OF create(2)] by simp
    have "rc = 0 \<Longrightarrow> bm_keyring_export lib (True, True) a p db' = Some (sk, ek)"
      using create_keys(1) [OF assms(1) create(4-8,3)] create(2) by simp
    then show ?thesis using world_okI [OF assms(3) k] custody_new [OF _ create(4)] by (auto simp: create(1) world_ok_def)
  next
    case (import_key env a label ver stream spub epub sk ek p nt eb rc db')
    have k: "rows_kept (kw_db w) db'" by (rule import_kept [OF assms(1) import_key(3,2)])
    have "rc = 0 \<Longrightarrow> bm_keyring_export lib (True, True) a p db' = Some (sk, ek)"
      by (rule import_keys(1) [OF assms(1) import_key(4-8,3,2)])
    then show ?thesis using world_okI [OF assms(3) k] custody_new [OF _ import_key(4)] by (auto simp: import_key(1) world_ok_def)
  next
    case (bulk_begin ok p)
    then show ?thesis using w bulk_begin_ok by (simp add: world_ok_def)
  next
    case (bulk_one env a out st' db' kr')
    have b: "bulk_master_ok lib (kw_bulk w) (kw_db w)" "custody lib (kw_stored w) (kw_db w)" "session_ok lib (kw_session w) (kw_db w)"
      using w by simp_all
    note ok = bulk_one_ok [OF assms(1) bulk_one(3) b(1) bulk_one(2)]
    have "custody lib (kw_stored w) db'" by (rule bulk_one_custody [OF assms(1) bulk_one(3) b(1,2) bulk_one(2,4)])
    then show ?thesis using ok masters_grow(2) [OF b(3)] by (simp add: bulk_one(1) world_ok_def)
  next
    case (convert env a rc v4a created session' db' kr')
    note ok = sibling_ok [OF assms(1) _ convert(2)]
    have k: "rows_kept (kw_db w) db'" "session_ok lib session' db'" using ok w by simp_all
    have "custody lib (if rc = 0 \<and> created then (kw_stored w)(c_str v4a := map_option (Pair (cs_passphrase (kw_session w)))
                 (bm_keyring_export lib (True, True) a (cs_passphrase (kw_session w)) (kw_db w))) else kw_stored w) db'"
    proof (cases "rc = 0 \<and> created")
      case True
      then obtain x where x: "strlen v4a < 64" "bm_keyring_export lib (True, True) a (cs_passphrase (kw_session w)) (kw_db w) = Some x"
          "bm_keyring_export lib (True, True) v4a (cs_passphrase (kw_session w)) db' = Some x"
        using ok w convert(3,4) by blast
      then show ?thesis using True custody_new [OF custody_kept [OF _ k(1)] x(1,3)] w by simp
    next
      case False
      then show ?thesis using custody_kept [OF _ k(1)] w by (simp only: if_False)
    qed
    then show ?thesis using world_okI [OF assms(3) k(1)] k(2) by (simp add: convert(1) world_ok_def)
  next
    case (delete ok a rc db' kr')
    note d = delete_custody [OF _ delete(2)]
    show ?thesis using d w masters_grow vault_grows_refl(2) by (auto simp: delete(1) world_ok_def)
  next
    case (mark_as_chan ok a)
    then show ?thesis
      using world_okI [OF assms(3) rows_kept_same [OF same_keys_chan [of "kw_db w" ok a 1]]] by (simp add: bm_keyring_mark_as_chan_def)
  next
    case (relabel ok a l)
    then show ?thesis using world_okI [OF assms(3) rows_kept_same [OF same_keys_label [of "kw_db w" ok a l]]] by simp
  qed (use w in \<open>simp_all add: world_ok_def unlock_bulk_end_def bulk_master_ok_def session_ok_def bm_keyring_convert_session_init_def
      bm_keyring_convert_session_clear_def\<close>)
qed

lemma keyring_steps_ok:
  assumes "gcm_ok lib" "(keyring_step ssl lib)\<^sup>*\<^sup>* w w'" "world_ok lib w"
  shows "world_ok lib w'"
  using assms(2,3) by induction (auto intro: keyring_step_ok [OF assms(1)])

lemma unlock_succeeds:
  assumes "bm_keyring_export lib (True, True) a p db = Some (sk, ek)" "strlen a < 64" "ke_ok env i" "ke_ok env (i + 1)" "ke_mem env"
  obtains e where "bm_keyring_unlock ssl lib env i a p db kr = (0, e # kr)" "same_address a e"
    "ui_priv_signing e = sk" "ui_priv_encryption e = ek"
proof -
  obtain row kek where r: "bm_identity_store_load True a db = Some row" "resolve_kek_for_row lib True row p db = Some kek"
      "unwrap_row lib kek a row = Some (sk, ek)"
    using assms(1) by (auto simp: bm_keyring_export_def bind_eq_Some_conv)
  have addr: "ir_address row = c_str a"
    using r(1) assms(2) by (auto elim!: load_row dest!: find_row_address simp: strlen_def)
  obtain e where e: "add_unlocked_entry ssl (ke_mem env) (ke_now env) row sk ek kr = (0, e # kr)" "ui_address e = take 63 (c_str a)"
      "ui_priv_signing e = sk" "ui_priv_encryption e = ek"
    using assms(5) by (simp add: add_unlocked_entry_def addr)
  have "unwrap_row lib kek (ir_address row) row = Some (sk, ek)" using r(3) by (simp add: unwrap_row_def addr)
  then have "bm_keyring_unlock ssl lib env i a p db kr = (0, e # kr)"
    using r(1,2) assms(3,4) e(1) by (simp add: bm_keyring_unlock_def unlock_with_kek_def)
  moreover have "same_address a e" using e(2) assms(2) by (simp add: same_address_def strlen_def)
  ultimately show thesis using that e(3,4) by blast
qed

section \<open>Properties\<close>

text \<open>A library for examples: the wrapping leaves the text readable.\<close>

definition plain_kdf :: kdf_lib where
  "plain_kdf = \<lparr>EVP_PBE_scrypt = (\<lambda>p s n r q. Some p), HKDF_expand = (\<lambda>k s i. Some k),
     GCM_seal = (\<lambda>k n a m. Some (m, replicate 16 0)), GCM_open = (\<lambda>k n a c t. Some c)\<rparr>"

definition plain_kr_env :: kr_env where
  "plain_kr_env = \<lparr>ke_ok = (\<lambda>_. True), ke_rnd = (\<lambda>i. Some (replicate (if i = 0 then 16 else 12) 7)), ke_now = 5, ke_mem = True\<rparr>"

lemma plain_kdf_ok: "gcm_ok plain_kdf"
  by (simp add: gcm_ok_def plain_kdf_def)

text \<open>
  C37: No key is lost. However the module is used (identities are created and imported, the vault is made, unlocking moves
  identities from scrypt to the vault, version 4 siblings are created, entries are locked, relabelled and marked), the private
  keys stored for an address under a passphrase can still be exported with that passphrase, and unlocking puts exactly them into
  the keyring, unless the identity was deleted.
\<close>

theorem keyring_custody:
  assumes "gcm_ok lib" "(keyring_step ssl lib)\<^sup>*\<^sup>* (fresh_world db) w" "kw_stored w (c_str a) = Some (p, sk, ek)"
    and "ke_ok env 0" "ke_ok env 1" "ke_mem env"
  shows "bm_keyring_export lib (True, True) a p (kw_db w) = Some (sk, ek) \<and>
    (\<exists>e. bm_keyring_unlock ssl lib env 0 a p (kw_db w) kr = (0, e # kr) \<and> bm_keyring_find_by_address a (e # kr) = Some e \<and>
      ui_priv_signing e = sk \<and> ui_priv_encryption e = ek)"
proof -
  have "custody lib (kw_stored w) (kw_db w)"
    using keyring_steps_ok [OF assms(1,2) fresh_world_ok] by (simp add: world_ok_def)
  from custodyD [OF this assms(3)] have len: "strlen a < 64" and e: "bm_keyring_export lib (True, True) a p (kw_db w) = Some (sk, ek)" by simp_all
  obtain u where u: "bm_keyring_unlock ssl lib env 0 a p (kw_db w) kr = (0, u # kr)" "same_address a u"
      "ui_priv_signing u = sk" "ui_priv_encryption u = ek"
    by (rule unlock_succeeds [OF e len, of env 0 ssl kr]) (use assms(4-6) in simp_all)
  then have "bm_keyring_find_by_address a (u # kr) = Some u" by (simp add: bm_keyring_find_by_address_def)
  with e u show ?thesis by blast
qed

theorem keyring_custody_witness:
  "\<exists>w. (keyring_step plain_ssl plain_kdf)\<^sup>*\<^sup>* (fresh_world \<lparr>identities = [], vault = None\<rparr>) w \<and>
    bm_keyring_export plain_kdf (True, True) [66, 77] [1] (kw_db w) = Some (replicate 32 3, replicate 32 4)"
proof -
  let ?w = "fresh_world \<lparr>identities = [], vault = None\<rparr>"
  obtain rc db' where c: "bm_keyring_create_identity plain_kdf plain_kr_env [66, 77] None 4 1 (replicate 65 1) (replicate 65 2)
      (replicate 32 3) (replicate 32 4) [1] 1000 1000 (kw_db ?w) = (rc, db')" by (rule prod.exhaust)
  have "rc = 0" using c
    by (auto simp: bm_keyring_create_identity_def bm_keyring_internal_new_scrypt_kek_def plain_kr_env_def derive_kek_def plain_kdf_def
        store_new_identity_with_kek_def bm_keyring_internal_wrap_def bm_identity_store_insert_def fresh_world_def)
  define w where "w = ?w\<lparr>kw_db := db', kw_stored := (kw_stored ?w)(c_str [66, 77] \<mapsto> ([1], replicate 32 3, replicate 32 4))\<rparr>"
  have "keyring_step plain_ssl plain_kdf ?w w"
    using keyring_step.create [OF c, of plain_ssl] unfolding w_def
    by (simp add: \<open>rc = 0\<close> rnd_fills_def plain_kr_env_def strlen_def c_str_def less_Suc_eq)
  then have s: "(keyring_step plain_ssl plain_kdf)\<^sup>*\<^sup>* ?w w" by blast
  have st: "kw_stored w (c_str [66, 77]) = Some ([1], replicate 32 3, replicate 32 4)" by (simp add: w_def)
  have "bm_keyring_export plain_kdf (True, True) [66, 77] [1] (kw_db w) = Some (replicate 32 3, replicate 32 4)"
    using keyring_custody [OF plain_kdf_ok s st, of plain_kr_env] by (simp add: plain_kr_env_def)
  with s show ?thesis by blast
qed

text \<open>
  C38: Unlocking does not look for an entry of the same address, and locking and deleting remove one entry only: after an identity was
  unlocked twice, \<open>bm_keyring_lock\<close> and \<open>bm_keyring_delete_identity\<close> report success and its private keys stay in the keyring,
  where the lookups still find them.
\<close>

theorem double_unlock_survives_lock:
  assumes "strlen a < 64" "bm_keyring_unlock ssl lib env1 0 a p db kr = (0, kr1)" "bm_keyring_unlock ssl lib env2 0 a p db kr1 = (0, kr2)"
  shows "\<exists>e. bm_keyring_export lib (True, True) a p db = Some (ui_priv_signing e, ui_priv_encryption e) \<and>
    fst (bm_keyring_lock a kr2) = 0 \<and> bm_keyring_find_by_address a (snd (bm_keyring_lock a kr2)) = Some e \<and>
    (\<exists>db3 kr3. bm_keyring_delete_identity True a db kr2 = (0, db3, kr3) \<and> find_row a db3 = None \<and>
       bm_keyring_find_by_address a kr3 = Some e)"
proof -
  obtain e where e: "kr1 = e # kr" "same_address a e"
      "bm_keyring_export lib (True, True) a p db = Some (ui_priv_signing e, ui_priv_encryption e)"
    by (rule unlock_keys [OF assms(2,1)])
  obtain e' where e': "kr2 = e' # kr1" "same_address a e'" by (rule unlock_keys [OF assms(3,1)])
  have "bm_keyring_find_by_address a kr1 = Some e" by (simp add: e(1,2) bm_keyring_find_by_address_def)
  moreover have "bm_keyring_lock a kr2 = (0, kr1)" by (simp add: e')
  moreover have "\<exists>db3. bm_keyring_delete_identity True a db kr2 = (0, db3, kr1) \<and> find_row a db3 = None"
    using find_row_delete [of a a db] e' by (simp add: bm_keyring_delete_identity_def bm_identity_store_delete_def)
  ultimately show ?thesis using e(3) by auto
qed

theorem double_unlock_survives_lock_witness:
  "\<exists>db kr1 kr2. bm_keyring_unlock plain_ssl plain_kdf plain_kr_env 0 [66, 77] [1] db [] = (0, kr1) \<and>
    bm_keyring_unlock plain_ssl plain_kdf plain_kr_env 0 [66, 77] [1] db kr1 = (0, kr2) \<and>
    bm_keyring_find_by_address [66, 77] (snd (bm_keyring_lock [66, 77] kr2)) \<noteq> None"
proof -
  obtain rc db where c: "bm_keyring_create_identity plain_kdf plain_kr_env [66, 77] None 4 1 (replicate 65 1) (replicate 65 2)
      (replicate 32 3) (replicate 32 4) [1] 1000 1000 \<lparr>identities = [], vault = None\<rparr> = (rc, db)" by (rule prod.exhaust)
  have "rc = 0" using c
    by (auto simp: bm_keyring_create_identity_def bm_keyring_internal_new_scrypt_kek_def plain_kr_env_def derive_kek_def plain_kdf_def
        store_new_identity_with_kek_def bm_keyring_internal_wrap_def bm_identity_store_insert_def)
  have rnd: "rnd_fills plain_kr_env [16, 12, 12]" by (simp add: rnd_fills_def plain_kr_env_def less_Suc_eq)
  have len: "strlen [66, 77] < 64" by (simp add: strlen_def c_str_def)
  have e: "bm_keyring_export plain_kdf (True, True) [66, 77] [1] db = Some (replicate 32 3, replicate 32 4)"
    by (rule create_keys(1) [OF plain_kdf_ok len _ _ _ _ rnd c [unfolded \<open>rc = 0\<close>]]) simp_all
  have env: "ke_ok plain_kr_env i" "ke_mem plain_kr_env" for i by (simp_all add: plain_kr_env_def)
  obtain e1 where u1: "bm_keyring_unlock plain_ssl plain_kdf plain_kr_env 0 [66, 77] [1] db [] = (0, [e1])"
    by (rule unlock_succeeds [OF e len, of plain_kr_env 0 plain_ssl "[]"]) (use env in simp_all)
  obtain e2 where u2: "bm_keyring_unlock plain_ssl plain_kdf plain_kr_env 0 [66, 77] [1] db [e1] = (0, [e2, e1])"
    by (rule unlock_succeeds [OF e len, of plain_kr_env 0 plain_ssl "[e1]"]) (use env in simp_all)
  show ?thesis using double_unlock_survives_lock [OF len u1 u2] u1 u2 by (intro exI conjI) (assumption | fastforce)+
qed

end
