(* ===== verification/Messages_Store.thy ===== *)
theory Messages_Store
  imports Hashing
begin

text \<open>
  The user's messages (\<open>src/core/messages_store.c\<close>): four tables of SQLite, each the list of its rows
  in the order of insertion. \<open>ok\<close> says whether SQLite carries out a statement. Strings are C strings
  and shorter than 2 GiB; the arrays of the listings are assumed to be allocated.

  The theory shows what acknowledgement and resending rely on: a sent message is listed for resending
  until its acknowledgement is seen, and at most five times.
\<close>

abbreviation BM_MESSAGES_ADDRESS_MAX :: nat where "BM_MESSAGES_ADDRESS_MAX \<equiv> 64"
abbreviation BM_MESSAGES_FOLDER_MAX :: nat where "BM_MESSAGES_FOLDER_MAX \<equiv> 16"
abbreviation BM_MESSAGES_LABEL_MAX :: nat where "BM_MESSAGES_LABEL_MAX \<equiv> 128"
abbreviation BM_RESEND_MAX_ATTEMPTS :: nat where "BM_RESEND_MAX_ATTEMPTS \<equiv> 5"

section \<open>The tables\<close>

record inbox_row =
  in_msg_id :: bytes
  in_to_address :: bytes
  in_from_address :: bytes
  in_subject :: bytes
  in_body :: bytes
  in_received_time :: int
  in_read :: int
  in_folder :: bytes

record sent_row =
  sr_msg_id :: bytes
  sr_ack_data :: bytes
  sr_to_address :: bytes
  sr_from_address :: bytes
  sr_subject :: bytes
  sr_body :: bytes
  sr_status :: bytes
  sr_ack_stealth_level :: int
  sr_sent_time :: int
  sr_ttl :: int
  sr_resend_count :: nat
  sr_next_resend_time :: int
  sr_folder :: bytes

record messages_db =
  inbox :: "inbox_row list"
  sent :: "sent_row list"
  address_book :: "(bytes \<times> bytes) list"
  subscriptions :: "(bytes \<times> bytes \<times> int) list"

section \<open>The inbox\<close>

text \<open>\<open>INSERT OR IGNORE\<close> on the primary key \<open>msg_id\<close>.\<close>

definition bm_messages_store_insert_inbox ::
  "bool \<Rightarrow> bytes \<Rightarrow> bytes \<Rightarrow> bytes \<Rightarrow> bytes \<Rightarrow> bytes \<Rightarrow> int \<Rightarrow> messages_db \<Rightarrow> int \<times> messages_db" where
  "bm_messages_store_insert_inbox ok msg_id to_address from_address subject body received_time db =
     (if \<not> ok then (-1, db)
      else (0, if msg_id \<in> in_msg_id ` set (inbox db) then db
               else db\<lparr>inbox := inbox db @ [\<lparr>in_msg_id = msg_id, in_to_address = c_str to_address,
                 in_from_address = c_str from_address, in_subject = c_str subject, in_body = c_str body,
                 in_received_time = received_time, in_read = 0, in_folder = lit ''inbox''\<rparr>]\<rparr>))"

text \<open>A row as the struct \<open>bm_inbox_message\<close>: the addresses and the folder are cut to their arrays.\<close>

definition inbox_message :: "inbox_row \<Rightarrow> inbox_row" where
  "inbox_message r = r\<lparr>in_msg_id := (if length (in_msg_id r) = 32 then in_msg_id r else replicate 32 0),
     in_to_address := take (BM_MESSAGES_ADDRESS_MAX - 1) (in_to_address r),
     in_from_address := take (BM_MESSAGES_ADDRESS_MAX - 1) (in_from_address r),
     in_folder := take (BM_MESSAGES_FOLDER_MAX - 1) (in_folder r)\<rparr>"

definition bm_messages_store_list_inbox :: "bool \<Rightarrow> bytes option \<Rightarrow> messages_db \<Rightarrow> inbox_row list option" where
  "bm_messages_store_list_inbox ok folder_filter db =
     (if \<not> ok then None
      else Some (map inbox_message (sort_key (\<lambda>r. - in_received_time r)
        (case folder_filter of
           None \<Rightarrow> inbox db
         | Some f \<Rightarrow> filter (\<lambda>r. in_folder r = c_str f) (inbox db)))))"

definition bm_messages_store_trash_inbox_message :: "bool \<Rightarrow> bytes \<Rightarrow> messages_db \<Rightarrow> int \<times> messages_db" where
  "bm_messages_store_trash_inbox_message ok msg_id db =
     (if \<not> ok then (-1, db)
      else (0, db\<lparr>inbox := map (\<lambda>r. if in_msg_id r = msg_id then r\<lparr>in_folder := lit ''trash''\<rparr> else r) (inbox db)\<rparr>))"

section \<open>Sent messages\<close>

text \<open>
  \<open>ON CONFLICT (msg_id) DO UPDATE\<close>: a message that is sent again gets a new acknowledgement, status and
  times, and its count goes up; its addresses and its text stay.
\<close>

definition bm_messages_store_insert_sent ::
  "bool \<Rightarrow> bytes \<Rightarrow> bytes \<Rightarrow> bytes \<Rightarrow> bytes \<Rightarrow> bytes \<Rightarrow> bytes \<Rightarrow> bytes \<Rightarrow> int \<Rightarrow> int \<Rightarrow> int \<Rightarrow> int \<Rightarrow> messages_db
     \<Rightarrow> int \<times> messages_db" where
  "bm_messages_store_insert_sent ok msg_id ack_data to_address from_address subject body status ack_stealth_level
       sent_time ttl next_resend_time db =
     (if \<not> ok then (-1, db)
      else if msg_id \<in> sr_msg_id ` set (sent db)
      then (0, db\<lparr>sent := map (\<lambda>r. if sr_msg_id r = msg_id
             then r\<lparr>sr_ack_data := ack_data, sr_status := c_str status, sr_sent_time := sent_time, sr_ttl := ttl,
               sr_resend_count := sr_resend_count r + 1, sr_next_resend_time := next_resend_time\<rparr>
             else r) (sent db)\<rparr>)
      else (0, db\<lparr>sent := sent db @ [\<lparr>sr_msg_id = msg_id, sr_ack_data = ack_data, sr_to_address = c_str to_address,
             sr_from_address = c_str from_address, sr_subject = c_str subject, sr_body = c_str body,
             sr_status = c_str status, sr_ack_stealth_level = ack_stealth_level, sr_sent_time = sent_time, sr_ttl = ttl,
             sr_resend_count = 0, sr_next_resend_time = next_resend_time, sr_folder = lit ''sent''\<rparr>]\<rparr>))"

text \<open>
  The search through the rows without acknowledgement. For each match: whether the update can be
  prepared, and whether it is carried out. The loop ends at the first update that was prepared.
\<close>

fun mark_loop ::
  "openssl \<Rightarrow> bytes \<Rightarrow> (nat \<Rightarrow> bool \<times> bool) \<Rightarrow> nat \<Rightarrow> sent_row list \<Rightarrow> messages_db \<Rightarrow> bool \<times> messages_db" where
  "mark_loop ssl received_hash env i [] db = (False, db)"
| "mark_loop ssl received_hash env i (r # rs) db =
     (if sr_ack_data r = [] \<or> bm_inventory_hash ssl (sr_ack_data r) \<noteq> received_hash \<or> \<not> fst (env i)
      then mark_loop ssl received_hash env (Suc i) rs db
      else (True, if snd (env i)
            then db\<lparr>sent := map (\<lambda>q. if sr_ack_data q = sr_ack_data r then q\<lparr>sr_status := lit ''ackreceived''\<rparr> else q) (sent db)\<rparr>
            else db))"

definition bm_messages_store_try_mark_ack_received ::
  "openssl \<Rightarrow> bool \<Rightarrow> (nat \<Rightarrow> bool \<times> bool) \<Rightarrow> bytes \<Rightarrow> messages_db \<Rightarrow> int \<times> messages_db" where
  "bm_messages_store_try_mark_ack_received ssl ok env received_hash db =
     (if \<not> ok then (-1, db)
      else (case mark_loop ssl received_hash env 0 (filter (\<lambda>r. sr_status r \<noteq> lit ''ackreceived'') (sent db)) db of
              (found, db') \<Rightarrow> (if found then 0 else -1, db')))"

record bm_sent_resend_candidate =
  rc_msg_id :: bytes
  rc_to_address :: bytes
  rc_from_address :: bytes
  rc_subject :: bytes
  rc_body :: bytes
  rc_ack_stealth_level :: int
  rc_ttl :: int
  rc_resend_count :: nat

definition resend_candidate :: "sent_row \<Rightarrow> bm_sent_resend_candidate" where
  "resend_candidate r = \<lparr>rc_msg_id = sr_msg_id r, rc_to_address = take (BM_MESSAGES_ADDRESS_MAX - 1) (sr_to_address r),
     rc_from_address = take (BM_MESSAGES_ADDRESS_MAX - 1) (sr_from_address r), rc_subject = sr_subject r, rc_body = sr_body r,
     rc_ack_stealth_level = sr_ack_stealth_level r, rc_ttl = sr_ttl r, rc_resend_count = sr_resend_count r\<rparr>"

definition wants_resend :: "int \<Rightarrow> nat \<Rightarrow> sent_row \<Rightarrow> bool" where
  "wants_resend now max_attempts r \<longleftrightarrow>
     sr_status r \<noteq> lit ''ackreceived'' \<and> sr_status r \<noteq> lit ''msgsentnoackexpected'' \<and>
     sr_next_resend_time r \<le> now \<and> sr_resend_count r < max_attempts"

definition bm_messages_store_list_resend_candidates ::
  "bool \<Rightarrow> int \<Rightarrow> nat \<Rightarrow> messages_db \<Rightarrow> bm_sent_resend_candidate list option" where
  "bm_messages_store_list_resend_candidates ok now max_attempts db =
     (if \<not> ok then None
      else Some (map resend_candidate (filter (\<lambda>r. length (sr_msg_id r) = 32) (filter (wants_resend now max_attempts) (sent db)))))"

definition sent_message :: "sent_row \<Rightarrow> sent_row" where
  "sent_message r = r\<lparr>sr_msg_id := (if length (sr_msg_id r) = 32 then sr_msg_id r else replicate 32 0),
     sr_to_address := take (BM_MESSAGES_ADDRESS_MAX - 1) (sr_to_address r),
     sr_from_address := take (BM_MESSAGES_ADDRESS_MAX - 1) (sr_from_address r), sr_status := take 23 (sr_status r)\<rparr>"

definition bm_messages_store_list_sent :: "bool \<Rightarrow> messages_db \<Rightarrow> sent_row list option" where
  "bm_messages_store_list_sent ok db =
     (if \<not> ok then None
      else Some (map sent_message (sort_key (\<lambda>r. - sr_sent_time r) (filter (\<lambda>r. sr_folder r = lit ''sent'') (sent db)))))"

definition bm_messages_store_trash_sent_message :: "bool \<Rightarrow> bytes \<Rightarrow> messages_db \<Rightarrow> int \<times> messages_db" where
  "bm_messages_store_trash_sent_message ok msg_id db =
     (if \<not> ok then (-1, db)
      else (0, db\<lparr>sent := map (\<lambda>r. if sr_msg_id r = msg_id then r\<lparr>sr_folder := lit ''trash''\<rparr> else r) (sent db)\<rparr>))"

text \<open>Two statements; the second is not run when the first fails.\<close>

definition bm_messages_store_rename_own_address ::
  "bool \<times> bool \<Rightarrow> bytes \<Rightarrow> bytes \<Rightarrow> messages_db \<Rightarrow> int \<times> messages_db" where
  "bm_messages_store_rename_own_address ok old_address new_address db =
     (if \<not> fst ok then (-1, db)
      else
        let db1 = db\<lparr>inbox := map (\<lambda>r. if in_to_address r = c_str old_address
              then r\<lparr>in_to_address := c_str new_address\<rparr> else r) (inbox db)\<rparr>
        in if \<not> snd ok then (-1, db1)
           else (0, db1\<lparr>sent := map (\<lambda>r. if sr_from_address r = c_str old_address
                  then r\<lparr>sr_from_address := c_str new_address\<rparr> else r) (sent db1)\<rparr>))"

section \<open>Subscriptions and address book\<close>

definition bm_messages_store_add_subscription :: "bool \<Rightarrow> bytes \<Rightarrow> bytes \<Rightarrow> messages_db \<Rightarrow> int \<times> messages_db" where
  "bm_messages_store_add_subscription ok address label db =
     (if \<not> ok then (-1, db)
      else if c_str address \<in> fst ` set (subscriptions db)
      then (0, db\<lparr>subscriptions := map (\<lambda>s. if fst s = c_str address then (c_str address, c_str label, 1) else s) (subscriptions db)\<rparr>)
      else (0, db\<lparr>subscriptions := subscriptions db @ [(c_str address, c_str label, 1)]\<rparr>))"

definition bm_messages_store_remove_subscription :: "bool \<Rightarrow> bytes \<Rightarrow> messages_db \<Rightarrow> int \<times> messages_db" where
  "bm_messages_store_remove_subscription ok address db =
     (if \<not> ok then (-1, db)
      else (0, db\<lparr>subscriptions := filter (\<lambda>s. fst s \<noteq> c_str address) (subscriptions db)\<rparr>))"

definition labelled :: "bytes \<times> bytes \<Rightarrow> bytes \<times> bytes" where
  "labelled e = (take (BM_MESSAGES_ADDRESS_MAX - 1) (fst e), take (BM_MESSAGES_LABEL_MAX - 1) (snd e))"

definition bm_messages_store_list_subscriptions :: "bool \<Rightarrow> messages_db \<Rightarrow> (bytes \<times> bytes) list option" where
  "bm_messages_store_list_subscriptions ok db =
     (if \<not> ok then None
      else Some (map (\<lambda>s. labelled (fst s, fst (snd s))) (filter (\<lambda>s. snd (snd s) = 1) (subscriptions db))))"

text \<open>The insertion fails when the address is already there.\<close>

definition bm_messages_store_add_address_book_entry :: "bool \<Rightarrow> bytes \<Rightarrow> bytes \<Rightarrow> messages_db \<Rightarrow> int \<times> messages_db" where
  "bm_messages_store_add_address_book_entry ok address label db =
     (if \<not> ok \<or> c_str address \<in> fst ` set (address_book db) then (-1, db)
      else (0, db\<lparr>address_book := address_book db @ [(c_str address, c_str label)]\<rparr>))"

definition bm_messages_store_remove_address_book_entry :: "bool \<Rightarrow> bytes \<Rightarrow> messages_db \<Rightarrow> int \<times> messages_db" where
  "bm_messages_store_remove_address_book_entry ok address db =
     (if \<not> ok then (-1, db)
      else (0, db\<lparr>address_book := filter (\<lambda>e. fst e \<noteq> c_str address) (address_book db)\<rparr>))"

definition bm_messages_store_list_address_book :: "bool \<Rightarrow> messages_db \<Rightarrow> (bytes \<times> bytes) list option" where
  "bm_messages_store_list_address_book ok db = (if \<not> ok then None else Some (map labelled (address_book db)))"

end
