(* ===== verification/Pubkey_Cache.thy ===== *)
theory Pubkey_Cache
  imports Trial_Decrypt "HOL-Library.AList"
begin

text \<open>
  The cache of other people's public keys (\<open>src/core/pubkey_cache.c\<close>): reading pubkey objects of the
  versions 2 to 4, and the tables of the keys, of the keys asked for and of the answers given. A table
  is the list of its rows in the order of insertion; \<open>ok\<close> says whether SQLite carries out a
  statement. SQLite keeps the 64 bits of an integer column, so the casts to signed integers and back
  are the identity.

  The theory shows that a pubkey object is read back as the identity it was built from, and that what
  is accepted was signed with the key in it, for version 4 by the owner of the address asked for.
\<close>

record bm_cached_pubkey =
  cp_ripe :: bytes
  cp_tag :: bytes
  cp_address_version :: u64
  cp_stream :: u64
  cp_behavior_bitfield :: u32
  cp_signing_pubkey :: bytes
  cp_encryption_pubkey :: bytes
  cp_nonce_trials_per_byte :: u64
  cp_payload_length_extra_bytes :: u64

record bm_pubkey_request =
  pr_ripe :: bytes
  pr_address_version :: u64
  pr_stream :: u64

section \<open>The tables\<close>

record pubkey_row =
  row_entry :: bm_cached_pubkey
  row_received_time :: int
  row_used_personally :: bool

record pubkey_db =
  t_pubkey_cache :: "(bytes \<times> pubkey_row) list"
  t_pubkey_requests :: "(bytes \<times> u64 \<times> u64 \<times> int) list"
  t_self_responses :: "((bytes \<times> u64 \<times> u64) \<times> bytes \<times> int) list"

definition bm_pubkey_cache_upsert :: "bool \<Rightarrow> bm_cached_pubkey \<Rightarrow> int \<Rightarrow> pubkey_db \<Rightarrow> int \<times> pubkey_db" where
  "bm_pubkey_cache_upsert ok entry received_time db =
     (if \<not> ok then (-1, db)
      else let used = (case map_of (t_pubkey_cache db) (cp_ripe entry) of None \<Rightarrow> False | Some r \<Rightarrow> row_used_personally r)
           in (0, db\<lparr>t_pubkey_cache := AList.update (cp_ripe entry)
                \<lparr>row_entry = entry, row_received_time = received_time, row_used_personally = used\<rparr> (t_pubkey_cache db)\<rparr>))"

text \<open>A row is returned when its blobs have their sizes; a tag of another size reads as zeros.\<close>

definition load_row :: "pubkey_row \<Rightarrow> bm_cached_pubkey option" where
  "load_row r =
     (let e = row_entry r
      in if length (cp_ripe e) \<noteq> 20 then None
         else if length (cp_signing_pubkey e) \<noteq> 65 \<or> length (cp_encryption_pubkey e) \<noteq> 65 then None
         else Some (e\<lparr>cp_tag := (if length (cp_tag e) = 32 then cp_tag e else replicate 32 0)\<rparr>))"

definition bm_pubkey_cache_lookup_by_ripe :: "bool \<Rightarrow> bytes \<Rightarrow> pubkey_db \<Rightarrow> bm_cached_pubkey option" where
  "bm_pubkey_cache_lookup_by_ripe ok r db =
     (if \<not> ok then None else Option.bind (map_of (t_pubkey_cache db) r) load_row)"

definition bm_pubkey_cache_lookup_by_tag :: "bool \<Rightarrow> bytes \<Rightarrow> pubkey_db \<Rightarrow> bm_cached_pubkey option" where
  "bm_pubkey_cache_lookup_by_tag ok tag db =
     (if \<not> ok then None
      else Option.bind (find (\<lambda>r. cp_tag (row_entry r) = tag) (map snd (t_pubkey_cache db))) load_row)"

definition bm_pubkey_cache_mark_used_personally :: "bool \<Rightarrow> bytes \<Rightarrow> pubkey_db \<Rightarrow> int \<times> pubkey_db" where
  "bm_pubkey_cache_mark_used_personally ok r db =
     (if \<not> ok then (-1, db)
      else (0, db\<lparr>t_pubkey_cache := map (\<lambda>(k, row). (k, if k = r then row\<lparr>row_used_personally := True\<rparr> else row)) (t_pubkey_cache db)\<rparr>))"

text \<open>A repeated request changes only its time.\<close>

definition bm_pubkey_cache_record_request ::
  "bool \<Rightarrow> bytes \<Rightarrow> u64 \<Rightarrow> u64 \<Rightarrow> int \<Rightarrow> pubkey_db \<Rightarrow> int \<times> pubkey_db" where
  "bm_pubkey_cache_record_request ok r address_version stream requested_time db =
     (if \<not> ok then (-1, db)
      else let row = (case map_of (t_pubkey_requests db) r of
                        None \<Rightarrow> (address_version, stream, requested_time)
                      | Some (v, s, _) \<Rightarrow> (v, s, requested_time))
           in (0, db\<lparr>t_pubkey_requests := AList.update r row (t_pubkey_requests db)\<rparr>))"

definition bm_pubkey_cache_has_recent_request :: "bool \<Rightarrow> bytes \<Rightarrow> int \<Rightarrow> int \<Rightarrow> pubkey_db \<Rightarrow> bool" where
  "bm_pubkey_cache_has_recent_request ok r now max_age_seconds db =
     (ok \<and> (case map_of (t_pubkey_requests db) r of
               None \<Rightarrow> False
             | Some (_, _, requested_time) \<Rightarrow> now - requested_time < max_age_seconds))"

definition bm_pubkey_cache_list_pending_requests :: "bool \<Rightarrow> pubkey_db \<Rightarrow> bm_pubkey_request list option" where
  "bm_pubkey_cache_list_pending_requests ok db =
     (if \<not> ok then None
      else Some (map (\<lambda>(r, v, s, _). \<lparr>pr_ripe = r, pr_address_version = v, pr_stream = s\<rparr>)
                   (filter (\<lambda>row. length (fst row) = 20) (t_pubkey_requests db))))"

definition bm_pubkey_cache_clear_request :: "bool \<Rightarrow> bytes \<Rightarrow> pubkey_db \<Rightarrow> int \<times> pubkey_db" where
  "bm_pubkey_cache_clear_request ok r db =
     (if \<not> ok then (-1, db)
      else (0, db\<lparr>t_pubkey_requests := filter (\<lambda>row. fst row \<noteq> r) (t_pubkey_requests db)\<rparr>))"

text \<open>The rows of the answers all have \<open>does_ack = 1\<close>.\<close>

definition bm_pubkey_cache_set_self_response_id ::
  "bool \<Rightarrow> bytes \<Rightarrow> u64 \<Rightarrow> u64 \<Rightarrow> bytes \<Rightarrow> int \<Rightarrow> pubkey_db \<Rightarrow> int \<times> pubkey_db" where
  "bm_pubkey_cache_set_self_response_id ok ident address_version stream object_hash expires_time db =
     (if \<not> ok then (-1, db)
      else (0, db\<lparr>t_self_responses :=
        AList.update (ident, address_version, stream) (object_hash, expires_time) (t_self_responses db)\<rparr>))"

definition bm_pubkey_cache_get_self_response_id ::
  "bool \<Rightarrow> bytes \<Rightarrow> u64 \<Rightarrow> u64 \<Rightarrow> int \<Rightarrow> pubkey_db \<Rightarrow> int \<times> bytes option" where
  "bm_pubkey_cache_get_self_response_id ok ident address_version stream now db =
     (if \<not> ok then (-1, None)
      else case map_of (t_self_responses db) (ident, address_version, stream) of
             None \<Rightarrow> (0, None)
           | Some (hash, expires_time) \<Rightarrow>
               if now < expires_time \<and> length hash = 32 then (1, Some hash) else (0, None))"

section \<open>Reading pubkey objects\<close>

definition bm_parse_pubkey_v2 :: "openssl \<Rightarrow> bytes \<Rightarrow> bm_cached_pubkey option" where
  "bm_parse_pubkey_v2 ssl object =
     (case bm_object_parse_header object of
        None \<Rightarrow> None
      | Some hdr \<Rightarrow>
          if oh_object_type hdr \<noteq> BM_OBJECT_PUBKEY \<or> oh_version hdr \<noteq> 2 then None
          else
            let p = drop (header_len hdr) object
            in if length p \<noteq> 4 + 64 + 64 then None
               else
                 let sign_pub = 0x04 # take 64 (drop 4 p);
                     enc_pub = 0x04 # take 64 (drop 68 p)
                 in Some \<lparr>cp_ripe = bm_address_calc_ripe ssl sign_pub enc_pub, cp_tag = replicate 32 0,
                      cp_address_version = 2, cp_stream = oh_stream hdr, cp_behavior_bitfield = obj_read_be32 p,
                      cp_signing_pubkey = sign_pub, cp_encryption_pubkey = enc_pub,
                      cp_nonce_trials_per_byte = 0, cp_payload_length_extra_bytes = 0\<rparr>)"

text \<open>
  The key data of the versions 3 and 4: bitfield, keys and difficulty, with the position behind them.
  Then comes the signature.
\<close>

definition parse_key_data :: "bytes \<Rightarrow> (u32 \<times> bytes \<times> bytes \<times> u64 \<times> u64 \<times> nat) option" where
  "parse_key_data d =
     (if length d < 4 + 64 + 64 then None
      else
        Option.bind (varint_at d 132) (\<lambda>(nonce_trials, p1).
        Option.bind (varint_at d p1) (\<lambda>(extra_bytes, presig_offset).
          Some (obj_read_be32 d, 0x04 # take 64 (drop 4 d), 0x04 # take 64 (drop 68 d), nonce_trials, extra_bytes,
            presig_offset))))"

definition bm_parse_pubkey_v3 :: "openssl \<Rightarrow> bytes \<Rightarrow> bm_cached_pubkey option" where
  "bm_parse_pubkey_v3 ssl object =
     (case bm_object_parse_header object of
        None \<Rightarrow> None
      | Some hdr \<Rightarrow>
          if oh_object_type hdr \<noteq> BM_OBJECT_PUBKEY \<or> oh_version hdr \<noteq> 3 then None
          else
            let p = drop (header_len hdr) object
            in Option.bind (parse_key_data p) (\<lambda>(bitfield, sign_pub, enc_pub, nonce_trials, extra_bytes, presig_offset).
               Option.bind (field_at p presig_offset) (\<lambda>(sig_start, sig_len, _).
                 let to_sign = take (header_len hdr - 8) (drop 8 object) @ take presig_offset p
                 in if \<not> signature_ok ssl to_sign p sig_start sig_len sign_pub then None
                    else Some \<lparr>cp_ripe = bm_address_calc_ripe ssl sign_pub enc_pub, cp_tag = replicate 32 0,
                      cp_address_version = 3, cp_stream = oh_stream hdr, cp_behavior_bitfield = bitfield,
                      cp_signing_pubkey = sign_pub, cp_encryption_pubkey = enc_pub,
                      cp_nonce_trials_per_byte = nonce_trials, cp_payload_length_extra_bytes = extra_bytes\<rparr>)))"

definition bm_parse_pubkey_v4 :: "openssl \<Rightarrow> bytes \<Rightarrow> bytes \<Rightarrow> u64 \<Rightarrow> u64 \<Rightarrow> bm_cached_pubkey option" where
  "bm_parse_pubkey_v4 ssl object candidate_ripe candidate_version candidate_stream =
     (case bm_object_parse_header object of
        None \<Rightarrow> None
      | Some hdr \<Rightarrow>
          if oh_object_type hdr \<noteq> BM_OBJECT_PUBKEY \<or> oh_version hdr \<noteq> 4 then None
          else if length object < header_len hdr + 32 then None
          else
            let tag = take 32 (drop (header_len hdr) object);
                (priv_enc, expected_tag) = bm_address_derive_secret_and_tag ssl candidate_version candidate_stream candidate_ripe
            in if tag \<noteq> expected_tag then None
               else
                 Option.bind (bm_crypto_ecies_decrypt ssl (drop (header_len hdr + 32) object) priv_enc) (\<lambda>d.
                 Option.bind (parse_key_data d) (\<lambda>(bitfield, sign_pub, enc_pub, nonce_trials, extra_bytes, presig_offset).
                 Option.bind (field_at d presig_offset) (\<lambda>(sig_start, sig_len, _).
                   let to_sign = take (header_len hdr - 8) (drop 8 object) @ tag @ take presig_offset d
                   in if \<not> signature_ok ssl to_sign d sig_start sig_len sign_pub then None
                      else if bm_address_calc_ripe ssl sign_pub enc_pub \<noteq> candidate_ripe then None
                      else Some \<lparr>cp_ripe = candidate_ripe, cp_tag = tag,
                        cp_address_version = candidate_version, cp_stream = candidate_stream,
                        cp_behavior_bitfield = bitfield, cp_signing_pubkey = sign_pub, cp_encryption_pubkey = enc_pub,
                        cp_nonce_trials_per_byte = nonce_trials, cp_payload_length_extra_bytes = extra_bytes\<rparr>))))"

section \<open>Reading back what was built\<close>

definition key_data :: "bm_identity_info \<Rightarrow> bytes" where
  "key_data ident =
     be32 (if ii_does_ack ident then 1 else 0) @ take 64 (drop 1 (ii_pub_signing ident)) @
     take 64 (drop 1 (ii_pub_encryption ident)) @ varint_octets (ii_nonce_trials_per_byte ident) @
     varint_octets (ii_payload_length_extra_bytes ident)"

lemma append_key_data_data [simp]: "bb_data (append_key_data b ident) = bb_data b @ key_data ident"
  by (simp add: append_key_data_def key_data_def)

lemma parse_key_data_octets:
  assumes "openssl_ok ssl" "identity_ok ssl ident"
  shows "parse_key_data (key_data ident @ rest) =
    Some (if ii_does_ack ident then 1 else 0, ii_pub_signing ident, ii_pub_encryption ident,
      ii_nonce_trials_per_byte ident, ii_payload_length_extra_bytes ident, length (key_data ident))"
    "132 \<le> length (key_data ident)" "length (key_data ident) \<le> 150"
proof -
  note k = identity_keys [OF assms]
  let ?d = "key_data ident @ rest" and ?n = "ii_nonce_trials_per_byte ident" and ?e = "ii_payload_length_extra_bytes ident"
  have len: "length (key_data ident) = 132 + bm_varint_size ?n + bm_varint_size ?e" using k by (simp add: key_data_def)
  then show "132 \<le> length (key_data ident)" "length (key_data ident) \<le> 150"
    using bm_varint_size_bounds(2) [of ?n] bm_varint_size_bounds(2) [of ?e] by simp_all
  have d1: "drop 132 ?d = varint_octets ?n @ varint_octets ?e @ rest" using k by (simp add: key_data_def)
  have d2: "drop (132 + bm_varint_size ?n) ?d = varint_octets ?e @ rest" by (rule drop_more [OF d1 length_varint_octets])
  have "take 64 (drop 4 ?d) = take 64 (drop 1 (ii_pub_signing ident))"
    "take 64 (drop 68 ?d) = take 64 (drop 1 (ii_pub_encryption ident))"
    using k by (simp_all add: key_data_def)
  then have keys: "0x04 # take 64 (drop 4 ?d) = ii_pub_signing ident" "0x04 # take 64 (drop 68 ?d) = ii_pub_encryption ident"
    using pubkey64_restore [OF k(1,2)] pubkey64_restore [OF k(3,4)] by simp_all
  have bits: "obj_read_be32 ?d = (if ii_does_ack ident then 1 else 0)" by (simp add: key_data_def)
  show "parse_key_data ?d = Some (if ii_does_ack ident then 1 else 0, ii_pub_signing ident, ii_pub_encryption ident,
      ?n, ?e, length (key_data ident))"
    unfolding parse_key_data_def varint_at_octets [OF d1] varint_at_octets [OF d2] Option.bind.bind_lunit split keys bits
    using len by simp
qed


text \<open>The record that a pubkey object of an identity stands for.\<close>

definition pubkey_of :: "openssl \<Rightarrow> bm_identity_info \<Rightarrow> u64 \<Rightarrow> bytes \<Rightarrow> bm_cached_pubkey" where
  "pubkey_of ssl ident version tag =
     \<lparr>cp_ripe = bm_ripemd160 ssl (bm_sha512 ssl (ii_pub_signing ident @ ii_pub_encryption ident)), cp_tag = tag,
      cp_address_version = version, cp_stream = ii_stream ident,
      cp_behavior_bitfield = (if ii_does_ack ident then 1 else 0),
      cp_signing_pubkey = ii_pub_signing ident, cp_encryption_pubkey = ii_pub_encryption ident,
      cp_nonce_trials_per_byte = (if version = 2 then 0 else ii_nonce_trials_per_byte ident),
      cp_payload_length_extra_bytes = (if version = 2 then 0 else ii_payload_length_extra_bytes ident)\<rparr>"

lemma pubkey_v2_read:
  assumes "openssl_ok ssl" "identity_ok ssl ident"
  shows "bm_parse_pubkey_v2 ssl (be64 nonce @ bm_build_pubkey_v2 ident expires) = Some (pubkey_of ssl ident 2 (replicate 32 0))"
proof -
  note k = identity_keys [OF assms]
  let ?h = "common_header expires BM_OBJECT_PUBKEY 2 (ii_stream ident)"
  let ?p = "be32 (if ii_does_ack ident then 1 else 0) @ take 64 (drop 1 (ii_pub_signing ident)) @ take 64 (drop 1 (ii_pub_encryption ident))"
  have b: "bm_build_pubkey_v2 ident expires = ?h @ ?p" by (simp add: bm_build_pubkey_v2_def bb_take_def Let_def)
  have "take 64 (drop 4 ?p) = take 64 (drop 1 (ii_pub_signing ident))"
    "take 64 (drop 68 ?p) = take 64 (drop 1 (ii_pub_encryption ident))" using k by simp_all
  then have keys: "0x04 # take 64 (drop 4 ?p) = ii_pub_signing ident" "0x04 # take 64 (drop 68 ?p) = ii_pub_encryption ident"
    by (simp_all only: pubkey64_restore [OF k(1,2)] pubkey64_restore [OF k(3,4)])
  have d: "drop (20 + bm_varint_size 2 + bm_varint_size (ii_stream ident)) (be64 nonce @ ?h @ ?p) = ?p" by simp
  show ?thesis
    unfolding b bm_parse_pubkey_v2_def bm_object_parse_common_header option.case bm_object_header.select_convs Let_def d keys
    using k by (simp add: pubkey_of_def bm_address_calc_ripe_def)
qed

text \<open>The key data with a signature over some clear text and the data itself.\<close>

lemma signed_key_data:
  assumes "openssl_ok ssl" "identity_ok ssl ident" "bm_crypto_sign ssl (c @ key_data ident) (ii_priv_signing ident) = Some sig"
  defines "d \<equiv> signed_part (key_data ident) sig"
  shows "parse_key_data d = Some (if ii_does_ack ident then 1 else 0, ii_pub_signing ident, ii_pub_encryption ident,
      ii_nonce_trials_per_byte ident, ii_payload_length_extra_bytes ident, length (key_data ident))"
    and "\<exists>q. field_at d (length (key_data ident)) =
      Some (length (key_data ident) + bm_varint_size (word_of_nat (length sig)), word_of_nat (length sig), q)"
    and "signature_ok ssl (c @ key_data ident) d (length (key_data ident) + bm_varint_size (word_of_nat (length sig)))
      (word_of_nat (length sig)) (ii_pub_signing ident)"
    and "length d \<le> 250" "take (length (key_data ident)) d = key_data ident"
proof -
  show "parse_key_data d = Some (if ii_does_ack ident then 1 else 0, ii_pub_signing ident, ii_pub_encryption ident,
      ii_nonce_trials_per_byte ident, ii_payload_length_extra_bytes ident, length (key_data ident))"
    unfolding d_def signed_part_def by (rule parse_key_data_octets(1) [OF assms(1,2)])
  have n: "unat (word_of_nat (length sig) :: u64) = length sig"
    using sign_length [OF assms(1,3)] by (intro unat_of_nat_lt) simp
  show small: "length d \<le> 250"
    using parse_key_data_octets(3) [OF assms(1,2)] sign_length [OF assms(1,3)] bm_varint_size_bounds(2) [of "word_of_nat (length sig)"]
    by (simp add: d_def signed_part_def)
  then have "length d < 2 ^ 63" by simp
  from field_at_octets [OF _ this, of "length (key_data ident)" sig "[]"]
  show "\<exists>q. field_at d (length (key_data ident)) =
      Some (length (key_data ident) + bm_varint_size (word_of_nat (length sig)), word_of_nat (length sig), q)"
    by (simp add: d_def signed_part_def)
  have pub: "bm_address_get_public_key ssl (ii_priv_signing ident) = Some (ii_pub_signing ident)"
    using assms(2) by (simp add: identity_ok_def)
  show "signature_ok ssl (c @ key_data ident) d (length (key_data ident) + bm_varint_size (word_of_nat (length sig)))
      (word_of_nat (length sig)) (ii_pub_signing ident)"
    using verify_sign [OF assms(1) pub assms(3)] n by (simp add: signature_ok_def d_def signed_part_def)
  show "take (length (key_data ident)) d = key_data ident" by (simp add: d_def signed_part_def)
qed

lemma pubkey_v3_read:
  assumes "openssl_ok ssl" "identity_ok ssl ident" "bm_build_pubkey_v3 ssl ident expires = Some obj"
  shows "bm_parse_pubkey_v3 ssl (be64 nonce @ obj) = Some (pubkey_of ssl ident 3 (replicate 32 0))"
proof -
  let ?h = "common_header expires BM_OBJECT_PUBKEY 3 (ii_stream ident)" and ?k = "key_data ident"
  obtain sig where s: "bm_crypto_sign ssl (?h @ ?k) (ii_priv_signing ident) = Some sig" "obj = ?h @ signed_part ?k sig"
    using assms(3) by (auto simp: bm_build_pubkey_v3_def Let_def bb_take_def signed_part_def split: option.splits)
  let ?d = "signed_part ?k sig"
  note k = signed_key_data [OF assms(1,2) s(1)]
  obtain q where q: "field_at ?d (length ?k) =
      Some (length ?k + bm_varint_size (word_of_nat (length sig)), word_of_nat (length sig), q)" using k(2) by blast
  have d: "drop (20 + bm_varint_size 3 + bm_varint_size (ii_stream ident)) (be64 nonce @ ?h @ ?d) = ?d"
    "take (20 + bm_varint_size 3 + bm_varint_size (ii_stream ident) - 8) (drop 8 (be64 nonce @ ?h @ ?d)) = ?h"
    by simp_all
  show ?thesis
    unfolding s(2) bm_parse_pubkey_v3_def bm_object_parse_common_header option.case bm_object_header.select_convs Let_def d
      k(1) Option.bind.bind_lunit split q k(5)
    using k(3) by (simp add: pubkey_of_def bm_address_calc_ripe_def)
qed

lemma pubkey_v4_read:
  assumes "openssl_ok ssl" "identity_ok ssl ident" "length iv = 16"
    and r: "r = bm_address_calc_ripe ssl (ii_pub_signing ident) (ii_pub_encryption ident)"
    and "bm_build_pubkey_v4 ssl (rp, Some iv) ident r expires = Some obj"
  shows "bm_parse_pubkey_v4 ssl (be64 nonce @ obj) r 4 (ii_stream ident) =
    Some (pubkey_of ssl ident 4 (snd (bm_address_derive_secret_and_tag ssl 4 (ii_stream ident) r)))"
proof -
  let ?h = "common_header expires BM_OBJECT_PUBKEY 4 (ii_stream ident)" and ?k = "key_data ident"
  obtain secret tag where st: "bm_address_derive_secret_and_tag ssl 4 (ii_stream ident) r = (secret, tag)" by force
  obtain sig pub ct where s: "bm_crypto_sign ssl ((?h @ tag) @ ?k) (ii_priv_signing ident) = Some sig"
    "bm_address_get_public_key ssl secret = Some pub"
    "bm_crypto_ecies_encrypt ssl rp (Some iv) (signed_part ?k sig) pub = Some ct" "obj = ?h @ tag @ ct"
    using assms(5) st by (auto simp: bm_build_pubkey_v4_def Let_def bb_take_def signed_part_def split: option.splits)
  let ?d = "signed_part ?k sig" and ?hl = "20 + bm_varint_size 4 + bm_varint_size (ii_stream ident)"
  note k = signed_key_data [OF assms(1,2) s(1)]
  obtain q where q: "field_at ?d (length ?k) =
      Some (length ?k + bm_varint_size (word_of_nat (length sig)), word_of_nat (length sig), q)" using k(2) by blast
  have tl: "length tag = 32"
    using st digest_lengths(2) [OF openssl_ok_digests [OF assms(1)]] by (auto simp: bm_address_derive_secret_and_tag_def Let_def)
  have dec: "bm_crypto_ecies_decrypt ssl ct secret = Some ?d"
    by (rule ecies_decrypt_encrypt [OF assms(1) s(2) assms(3) _ s(3)]) (use k(4) in simp)
  have d: "take 32 (drop ?hl (be64 nonce @ ?h @ tag @ ct)) = tag" "drop (?hl + 32) (be64 nonce @ ?h @ tag @ ct) = ct"
    "take (?hl - 8) (drop 8 (be64 nonce @ ?h @ tag @ ct)) = ?h" "(length (be64 nonce @ ?h @ tag @ ct) < ?hl + 32) = False"
    using tl by simp_all
  show ?thesis
    unfolding s(4) bm_parse_pubkey_v4_def bm_object_parse_common_header option.case bm_object_header.select_convs Let_def st split
      d dec Option.bind.bind_lunit k(1) q k(5)
    using k(3) by (simp add: pubkey_of_def bm_address_calc_ripe_def r)
qed

section \<open>The tables as maps\<close>

text \<open>
  What the senders of messages rely on: a key that was cached is found under its RIPE until another one
  for the same address replaces it, and other entries stay.
\<close>

locale key_table =
  fixes lookup :: "'s \<Rightarrow> 'k \<Rightarrow> 'v option"
    and upd :: "'k \<Rightarrow> 'v \<Rightarrow> 's \<Rightarrow> 's"
    and valid :: "'k \<Rightarrow> 'v \<Rightarrow> bool"
  assumes lookup_upd: "valid k v \<Longrightarrow> lookup (upd k v s) k' = (if k' = k then Some v else lookup s k')"
begin

lemma lookup_fold:
  "\<forall>(k, v)\<in>set kvs. valid k v \<Longrightarrow> lookup (fold (\<lambda>(k, v). upd k v) kvs s) k' =
    (case map_of (rev kvs) k' of None \<Rightarrow> lookup s k' | Some v \<Rightarrow> Some v)"
proof (induction kvs arbitrary: s)
  case Nil
  then show ?case by simp
next
  case (Cons kv kvs)
  obtain k v where kv: "kv = (k, v)" by (cases kv)
  from Cons show ?case by (auto simp: kv map_add_def lookup_upd split: option.splits)
qed

end

definition entry_ok :: "bm_cached_pubkey \<Rightarrow> bool" where
  "entry_ok e \<longleftrightarrow> length (cp_ripe e) = 20 \<and> length (cp_tag e) = 32 \<and> length (cp_signing_pubkey e) = 65 \<and>
     length (cp_encryption_pubkey e) = 65"

interpretation pubkeys: key_table
  "\<lambda>db r. bm_pubkey_cache_lookup_by_ripe True r db"
  "\<lambda>r e db. snd (bm_pubkey_cache_upsert True e 0 db)"
  "\<lambda>r e. r = cp_ripe e \<and> entry_ok e"
proof unfold_locales
  fix r r' db and e :: bm_cached_pubkey
  assume "r = cp_ripe e \<and> entry_ok e"
  then show "bm_pubkey_cache_lookup_by_ripe True r' (snd (bm_pubkey_cache_upsert True e 0 db)) =
      (if r' = r then Some e else bm_pubkey_cache_lookup_by_ripe True r' db)"
    by (simp add: bm_pubkey_cache_lookup_by_ripe_def bm_pubkey_cache_upsert_def Let_def update_conv' load_row_def entry_ok_def)
qed

lemma upsert_time: "bm_pubkey_cache_lookup_by_ripe True r (snd (bm_pubkey_cache_upsert True e t db)) =
    bm_pubkey_cache_lookup_by_ripe True r (snd (bm_pubkey_cache_upsert True e 0 db))"
  by (simp add: bm_pubkey_cache_lookup_by_ripe_def bm_pubkey_cache_upsert_def Let_def update_conv' load_row_def)

lemma upsert_rc: "fst (bm_pubkey_cache_upsert True e t db) = 0"
  by (simp add: bm_pubkey_cache_upsert_def Let_def)

section \<open>Properties\<close>

text \<open>
  C34: A pubkey object is read back as the identity it was built from. With any nonce in front, the objects
  of version 2, 3 and 4 that \<open>bm_build_pubkey_v2\<close>, \<open>bm_build_pubkey_v3\<close> and \<open>bm_build_pubkey_v4\<close> make are
  parsed to the keys, bitfield, difficulty, RIPE and tag of the identity; and each of the three records, once stored, is
  what a lookup of the RIPE returns, and the records of other RIPEs stay what they were.
\<close>

theorem pubkey_end_to_end:
  assumes "openssl_ok ssl" "identity_ok ssl ident" "length iv = 16"
    and "r = bm_ripemd160 ssl (bm_sha512 ssl (ii_pub_signing ident @ ii_pub_encryption ident))"
    and "tag = snd (bm_address_derive_secret_and_tag ssl 4 (ii_stream ident) r)"
  shows "bm_parse_pubkey_v2 ssl (be64 nonce @ bm_build_pubkey_v2 ident expires) = Some (pubkey_of ssl ident 2 (replicate 32 0)) \<and>
    (\<forall>obj. bm_build_pubkey_v3 ssl ident expires = Some obj \<longrightarrow>
      bm_parse_pubkey_v3 ssl (be64 nonce @ obj) = Some (pubkey_of ssl ident 3 (replicate 32 0))) \<and>
    (\<forall>obj. bm_build_pubkey_v4 ssl (rp, Some iv) ident r expires = Some obj \<longrightarrow>
      bm_parse_pubkey_v4 ssl (be64 nonce @ obj) r 4 (ii_stream ident) = Some (pubkey_of ssl ident 4 tag)) \<and>
    (\<forall>e\<in>{pubkey_of ssl ident 2 (replicate 32 0), pubkey_of ssl ident 3 (replicate 32 0), pubkey_of ssl ident 4 tag}.
      case bm_pubkey_cache_upsert True e t db of (rc, db') \<Rightarrow> rc = 0 \<and> bm_pubkey_cache_lookup_by_ripe True r db' = Some e \<and>
        (\<forall>r'. r' \<noteq> r \<longrightarrow> bm_pubkey_cache_lookup_by_ripe True r' db' = bm_pubkey_cache_lookup_by_ripe True r' db))"
proof -
  have r: "r = bm_address_calc_ripe ssl (ii_pub_signing ident) (ii_pub_encryption ident)" by (simp add: assms(4) bm_address_calc_ripe_def)
  have "length r = 20" using assms(4) digest_lengths [OF openssl_ok_digests [OF assms(1)]] by simp
  moreover have "length tag = 32"
    using digest_lengths(2) [OF openssl_ok_digests [OF assms(1)]] assms(5) by (simp add: bm_address_derive_secret_and_tag_def Let_def)
  ultimately have ok: "r = cp_ripe e \<and> entry_ok e"
    if "e \<in> {pubkey_of ssl ident 2 (replicate 32 0), pubkey_of ssl ident 3 (replicate 32 0), pubkey_of ssl ident 4 tag}" for e
    using identity_keys [OF assms(1,2)] assms(4) that by (auto simp: entry_ok_def pubkey_of_def)
  have stored: "case bm_pubkey_cache_upsert True e t db of (rc, db') \<Rightarrow> rc = 0 \<and> bm_pubkey_cache_lookup_by_ripe True r db' = Some e \<and>
        (\<forall>r'. r' \<noteq> r \<longrightarrow> bm_pubkey_cache_lookup_by_ripe True r' db' = bm_pubkey_cache_lookup_by_ripe True r' db)"
    if "e \<in> {pubkey_of ssl ident 2 (replicate 32 0), pubkey_of ssl ident 3 (replicate 32 0), pubkey_of ssl ident 4 tag}" for e
    unfolding case_prod_beta upsert_rc upsert_time [of _ e t db] pubkeys.lookup_upd [OF ok [OF that]] by simp
  show ?thesis
    by (intro conjI allI impI ballI pubkey_v2_read [OF assms(1,2)] pubkey_v3_read [OF assms(1,2)]
        pubkey_v4_read [OF assms(1-3) r, folded assms(5)] stored)
qed

lemma sample_pubkey_v3: "\<exists>obj. bm_build_pubkey_v3 plain_ssl sample_sender 0 = Some obj"
  using plain_sign by (fastforce simp: bm_build_pubkey_v3_def Let_def split: option.splits)

theorem pubkey_end_to_end_witness:
  "\<exists>obj e. bm_build_pubkey_v3 plain_ssl sample_sender 0 = Some obj \<and> bm_parse_pubkey_v3 plain_ssl (be64 7 @ obj) = Some e \<and>
    e = pubkey_of plain_ssl sample_sender 3 (replicate 32 0) \<and>
    bm_pubkey_cache_lookup_by_ripe True (cp_ripe e) (snd (bm_pubkey_cache_upsert True e 5
      \<lparr>t_pubkey_cache = [], t_pubkey_requests = [], t_self_responses = []\<rparr>)) = Some e"
proof -
  let ?e = "pubkey_of plain_ssl sample_sender 3 (replicate 32 0)" and ?db = "\<lparr>t_pubkey_cache = [], t_pubkey_requests = [], t_self_responses = []\<rparr>"
  obtain obj where obj: "bm_build_pubkey_v3 plain_ssl sample_sender 0 = Some obj" using sample_pubkey_v3 by blast
  note e = pubkey_end_to_end [OF plain_ssl_ok sample_sender_ok _ refl refl, of "replicate 16 1", where nonce = 7 and expires = 0 and t = 5
      and db = ?db, OF length_replicate]
  have "bm_pubkey_cache_lookup_by_ripe True (cp_ripe ?e) (snd (bm_pubkey_cache_upsert True ?e 5 ?db)) = Some ?e"
    using conjunct2 [OF conjunct2 [OF conjunct2 [OF e]]] by (simp add: pubkey_of_def [of _ _ 3] case_prod_beta)
  then show ?thesis using obj e by blast
qed



end
