(* ===== verification/Pow_Engine.thy ===== *)
theory Pow_Engine
  imports Hashing
begin

text \<open>
  \<open>src/pow/pow_engine.c\<close>: the proof-of-work target, the trial value and the search for a nonce, with
  one thread and with several threads that share a found flag and a result.
\<close>

section \<open>Target and trial value\<close>

text \<open>
  The arithmetic is on \<open>__uint128_t\<close>: every operation wraps at 128 bits, and a zero denominator is
  a division by zero.
\<close>

definition bm_pow_get_target :: "u64 \<Rightarrow> u64 \<Rightarrow> u64 \<Rightarrow> u64 \<Rightarrow> u64 outcome" where
  "bm_pow_get_target payload_length ttl nonce_trials_per_byte payload_length_extra_bytes =
     (let l = ucast payload_length + 8 + ucast payload_length_extra_bytes :: 128 word;
          denom = ucast nonce_trials_per_byte * (l + drop_bit 16 (ucast ttl * l));
          target = push_bit 64 1 div denom
      in if denom = 0 then Fault
         else Done (ucast (if 0xffffffffffffffff < target then 0xffffffffffffffff else target)))"

definition bm_pow_trial_value :: "openssl \<Rightarrow> u64 \<Rightarrow> bytes \<Rightarrow> u64" where
  "bm_pow_trial_value ssl nonce initial_hash =
     be_join (take 8 (bm_double_sha512 ssl (be64 nonce @ initial_hash)))"

section \<open>One thread\<close>

text \<open>
  \<open>cancel\<close> gives what the cancel flag shows when it is read at a nonce; not returning is \<open>None\<close>, the
  return code -1 is \<open>Some None\<close>.
\<close>

partial_function (option) pow_single :: "openssl \<Rightarrow> bytes \<Rightarrow> u64 \<Rightarrow> (u64 \<Rightarrow> bool) \<Rightarrow> u64 \<Rightarrow> u64 option option" where
  "pow_single ssl initial_hash target cancel nonce =
     (if target < bm_pow_trial_value ssl nonce initial_hash then
        (let nonce' = nonce + 1
         in if nonce' AND 0x3f = 0 \<and> cancel nonce' then Some None
            else pow_single ssl initial_hash target cancel nonce')
      else Some (Some nonce))"

section \<open>Several threads\<close>

text \<open>
  Each thread alternates between reading the flags (every 64 rounds) and trying a nonce; the thread
  whose compare-and-exchange sets \<open>found\<close> stores its nonce afterwards.
\<close>

datatype pow_phase = Check | Try | Claim | Store | Exited

record pow_thread =
  phase :: pow_phase
  round :: u64
  thread_nonce :: u64

record pow_shared =
  found :: bool
  result_nonce :: u64
  cancelled :: bool
  threads :: "pow_thread list"

definition pow_start :: "nat \<Rightarrow> pow_shared" where
  "pow_start num_threads =
     \<lparr>found = False, result_nonce = 0, cancelled = False,
      threads = map (\<lambda>i. \<lparr>phase = Check, round = 0, thread_nonce = word_of_nat i\<rparr>) [0..<num_threads]\<rparr>"

text \<open>One atomic action of thread \<open>i\<close>.\<close>

definition pow_worker :: "openssl \<Rightarrow> bytes \<Rightarrow> u64 \<Rightarrow> nat \<Rightarrow> pow_shared \<Rightarrow> pow_shared" where
  "pow_worker ssl initial_hash target i s =
     (let t = threads s ! i; put = (\<lambda>t'. threads_update (\<lambda>ts. ts[i := t']))
      in case phase t of
           Check \<Rightarrow>
             if round t AND 0x3f = 0 \<and> (found s \<or> cancelled s) then put (t\<lparr>phase := Exited\<rparr>) s
             else put (t\<lparr>phase := Try\<rparr>) s
         | Try \<Rightarrow>
             if bm_pow_trial_value ssl (thread_nonce t) initial_hash \<le> target then put (t\<lparr>phase := Claim\<rparr>) s
             else put (t\<lparr>phase := Check, round := round t + 1,
                    thread_nonce := thread_nonce t + word_of_nat (length (threads s))\<rparr>) s
         | Claim \<Rightarrow>
             if found s then put (t\<lparr>phase := Exited\<rparr>) s
             else put (t\<lparr>phase := Store\<rparr>) (s\<lparr>found := True\<rparr>)
         | Store \<Rightarrow> put (t\<lparr>phase := Exited\<rparr>) (s\<lparr>result_nonce := thread_nonce t\<rparr>)
         | Exited \<Rightarrow> s)"

inductive pow_step :: "openssl \<Rightarrow> bytes \<Rightarrow> u64 \<Rightarrow> pow_shared \<Rightarrow> pow_shared \<Rightarrow> bool"
  for ssl initial_hash target where
  pow_act: "i < length (threads s) \<Longrightarrow> phase (threads s ! i) \<noteq> Exited \<Longrightarrow>
    pow_step ssl initial_hash target s (pow_worker ssl initial_hash target i s)"
| pow_cancel: "pow_step ssl initial_hash target s (s\<lparr>cancelled := True\<rparr>)"

definition pow_joined :: "pow_shared \<Rightarrow> bool" where
  "pow_joined s = list_all (\<lambda>t. phase t = Exited) (threads s)"

text \<open>What \<open>bm_pow_run_cancellable\<close> returns once every thread is joined.\<close>

definition pow_result :: "pow_shared \<Rightarrow> u64 option" where
  "pow_result s = (if found s then Some (result_nonce s) else None)"

definition bm_pow_run :: "openssl \<Rightarrow> bytes \<Rightarrow> u64 \<Rightarrow> u64 option option" where
  "bm_pow_run ssl payload target = pow_single ssl (bm_sha512 ssl payload) target (\<lambda>_. False) 0"

section \<open>Lemmas\<close>

abbreviation pow_valid :: "openssl \<Rightarrow> bytes \<Rightarrow> u64 \<Rightarrow> u64 \<Rightarrow> bool" where
  "pow_valid ssl initial_hash target n \<equiv> bm_pow_trial_value ssl n initial_hash \<le> target"

text \<open>
  Claiming and storing threads hold a valid nonce; at most one thread is between setting the flag
  and storing; without such a thread a set flag means a valid result; a thread that exits leaves the
  flag set or saw the cancel flag.
\<close>

definition thread_ok :: "openssl \<Rightarrow> bytes \<Rightarrow> u64 \<Rightarrow> bool \<Rightarrow> bool \<Rightarrow> pow_thread \<Rightarrow> bool" where
  "thread_ok ssl initial_hash target fnd canc t \<longleftrightarrow>
     (phase t = Claim \<or> phase t = Store \<longrightarrow> pow_valid ssl initial_hash target (thread_nonce t)) \<and>
     (phase t = Store \<longrightarrow> fnd) \<and> (phase t = Exited \<longrightarrow> fnd \<or> canc)"

definition pow_inv :: "openssl \<Rightarrow> bytes \<Rightarrow> u64 \<Rightarrow> pow_shared \<Rightarrow> bool" where
  "pow_inv ssl initial_hash target s \<longleftrightarrow>
     (\<forall>t\<in>set (threads s). thread_ok ssl initial_hash target (found s) (cancelled s) t) \<and>
     (found s \<longrightarrow> pow_valid ssl initial_hash target (result_nonce s) \<or>
        (\<exists>t\<in>set (threads s). phase t = Store))"

lemma pow_inv_start: "pow_inv ssl initial_hash target (pow_start n)"
  by (simp add: pow_inv_def pow_start_def thread_ok_def)

lemma all_set_update: "\<forall>t\<in>set ts. P t \<Longrightarrow> P x \<Longrightarrow> \<forall>t\<in>set (ts[i := x]). P t"
  using set_update_subset_insert [of ts i x] by auto

lemma ex_set_update:
  assumes "\<exists>t\<in>set ts. phase t = Store" "phase (ts ! i) \<noteq> Store"
  shows "\<exists>t\<in>set (ts[i := x]). phase t = Store"
proof -
  from assms(1) obtain j where "j < length ts" "phase (ts ! j) = Store" by (auto simp: in_set_conv_nth)
  with assms(2) show ?thesis by (metis length_list_update nth_list_update_neq nth_mem)
qed

text \<open>
  A thread may be replaced by one that is still well-formed, as long as a storing thread is not lost
  before the result is valid.
\<close>

lemma pow_inv_put:
  assumes "pow_inv ssl ih target s" "thread_ok ssl ih target (found s) (cancelled s) x"
    "phase (threads s ! i) \<noteq> Store"
  shows "pow_inv ssl ih target (threads_update (\<lambda>ts. ts[i := x]) s)"
  using assms unfolding pow_inv_def by (auto intro!: ex_set_update dest: all_set_update [THEN bspec])

lemma pow_inv_worker:
  assumes inv: "pow_inv ssl ih target s" and i: "i < length (threads s)"
  shows "pow_inv ssl ih target (pow_worker ssl ih target i s)"
proof -
  let ?t = "threads s ! i"
  have t: "thread_ok ssl ih target (found s) (cancelled s) ?t" using inv i by (simp add: pow_inv_def)
  show ?thesis
  proof (cases "phase ?t")
    case Claim
    show ?thesis
    proof (cases "found s")
      case True
      with Claim t show ?thesis
        using pow_inv_put [OF inv, of "?t\<lparr>phase := Exited\<rparr>" i]
        by (simp add: pow_worker_def Let_def thread_ok_def)
    next
      case False
      have "\<forall>t\<in>set ((threads s)[i := ?t\<lparr>phase := Store\<rparr>]). thread_ok ssl ih target True (cancelled s) t"
        by (rule all_set_update) (use inv t Claim in \<open>auto simp: pow_inv_def thread_ok_def\<close>)
      moreover have "?t\<lparr>phase := Store\<rparr> \<in> set ((threads s)[i := ?t\<lparr>phase := Store\<rparr>])"
        using i by (rule set_update_memI)
      ultimately show ?thesis
        using Claim False by (force simp: pow_worker_def Let_def pow_inv_def)
    qed
  next
    case Store
    have "\<forall>t\<in>set ((threads s)[i := ?t\<lparr>phase := Exited\<rparr>]). thread_ok ssl ih target (found s) (cancelled s) t"
      by (rule all_set_update) (use inv t Store in \<open>auto simp: pow_inv_def thread_ok_def\<close>)
    with Store t show ?thesis by (simp add: pow_worker_def Let_def pow_inv_def thread_ok_def)
  next
    case Exited
    then show ?thesis using inv by (simp add: pow_worker_def Let_def)
  qed (use t in \<open>auto simp: pow_worker_def Let_def thread_ok_def intro!: pow_inv_put [OF inv]\<close>)
qed

lemma pow_inv_cancel: "pow_inv ssl ih target s \<Longrightarrow> pow_inv ssl ih target (s\<lparr>cancelled := True\<rparr>)"
  by (auto simp: pow_inv_def thread_ok_def)

lemma pow_inv_step: "pow_step ssl ih target s s' \<Longrightarrow> pow_inv ssl ih target s \<Longrightarrow> pow_inv ssl ih target s'"
  by (induction rule: pow_step.induct) (auto intro: pow_inv_worker pow_inv_cancel)

lemma pow_inv_reachable:
  "(pow_step ssl ih target)\<^sup>*\<^sup>* (pow_start n) s \<Longrightarrow> pow_inv ssl ih target s"
  by (induction rule: rtranclp_induct) (auto intro: pow_inv_start pow_inv_step)

lemma unat_ucast_u128 [simp]: "unat (ucast (v :: u64) :: 128 word) = unat v"
proof -
  have "unat v < 2 ^ 128" using unsigned_less [of v, where 'a = nat] by simp
  then show ?thesis by (simp add: unsigned_ucast_eq take_bit_nat_eq_self)
qed

lemma unat_u128_add: "unat a + unat b < 2 ^ 128 \<Longrightarrow> unat (a + b :: 128 word) = unat a + unat b"
  by (simp add: unat_word_ariths)

lemma unat_u128_mult: "unat a * unat b < 2 ^ 128 \<Longrightarrow> unat (a * b :: 128 word) = unat a * unat b"
  by (simp add: unat_word_ariths)

lemma pow_single_finds:
  assumes "pow_valid ssl ih target (word_of_nat k)"
    and "\<And>i. m \<le> i \<Longrightarrow> i < k \<Longrightarrow> \<not> pow_valid ssl ih target (word_of_nat i)" and "m \<le> k"
  shows "pow_single ssl ih target (\<lambda>_. False) (word_of_nat m) = Some (Some (word_of_nat k))"
  using assms(3,2)
proof (induction m rule: inc_induct)
  case base
  show ?case using assms(1) by (subst pow_single.simps) (simp add: not_less [symmetric])
next
  case (step m)
  have "pow_single ssl ih target (\<lambda>_. False) (word_of_nat (Suc m)) = Some (Some (word_of_nat k))"
    by (rule step.IH) (use step.prems in simp)
  moreover have "\<not> pow_valid ssl ih target (word_of_nat m)" using step.prems step.hyps by simp
  ultimately show ?case by (subst pow_single.simps) (simp add: Let_def add.commute not_le)
qed

definition nonce_ok :: "openssl \<Rightarrow> bytes \<Rightarrow> u64 \<Rightarrow> u64 option \<Rightarrow> bool" where
  "nonce_ok ssl ih target r = (case r of None \<Rightarrow> True | Some n \<Rightarrow> pow_valid ssl ih target n)"

lemma pow_single_sound: "pow_single ssl ih target cancel n = Some r \<Longrightarrow> nonce_ok ssl ih target r"
proof (rule pow_single.raw_induct [where P = "\<lambda>ssl ih target cancel n r. nonce_ok ssl ih target r"])
  fix f ssl ih target cancel n r
  assume "\<And>ssl ih target cancel n r. f ssl ih target cancel n = Some r \<Longrightarrow> nonce_ok ssl ih target r"
    and "(if target < bm_pow_trial_value ssl n ih then
        (let nonce' = n + 1
         in if nonce' AND 0x3f = 0 \<and> cancel nonce' then Some None else f ssl ih target cancel nonce')
      else Some (Some n)) = Some r"
  then show "nonce_ok ssl ih target r" by (auto simp: nonce_ok_def Let_def not_less split: if_splits)
qed

lemma pow_target_value:
  fixes len ttl trials extra :: u64
  defines "L \<equiv> unat len + 8 + unat extra"
  assumes "0 < trials" "unat ttl * L < 2 ^ 128" "unat trials * (L + unat ttl * L div 2 ^ 16) < 2 ^ 128"
  shows "\<exists>t. bm_pow_get_target len ttl trials extra = Done t \<and>
    unat t = min (2 ^ 64 - 1) (2 ^ 64 div (unat trials * (L + unat ttl * L div 2 ^ 16)))"
proof -
  define l :: "128 word" where "l = ucast len + 8 + ucast extra"
  define denom where "denom = ucast trials * (l + drop_bit 16 (ucast ttl * l))"
  define D where "D = unat trials * (L + unat ttl * L div 2 ^ 16)"
  have b: "unat len < 2 ^ 64" "unat extra < 2 ^ 64"
    using unsigned_less [of len, where 'a = nat] unsigned_less [of extra, where 'a = nat] by simp_all
  have e8: "unat (ucast len + 8 :: 128 word) = unat len + 8"
    using b by (subst unat_u128_add) simp_all
  have l: "unat l = L" unfolding l_def L_def
    using b e8 by (subst unat_u128_add) simp_all
  have pos: "0 < unat trials" "0 < L" using assms(2) by (simp_all add: word_less_nat_alt L_def)
  have dr: "unat (drop_bit 16 (ucast ttl * l)) = unat ttl * L div 2 ^ 16"
    using assms(3) l by (simp add: drop_bit_eq_div unat_div_distrib unat_u128_mult)
  have "L + unat ttl * L div 2 ^ 16 \<le> D" using pos(1) by (simp add: D_def)
  then have "L + unat ttl * L div 2 ^ 16 < 2 ^ 128" using assms(4) unfolding D_def by linarith
  then have "unat (l + drop_bit 16 (ucast ttl * l)) = L + unat ttl * L div 2 ^ 16"
    using l dr by (subst unat_u128_add) simp_all
  then have denom: "unat denom = D"
    unfolding denom_def D_def using assms(4) by (subst unat_u128_mult) simp_all
  have Dpos: "0 < D" using pos by (simp add: D_def)
  define q where "q = (push_bit 64 1 :: 128 word) div denom"
  have q: "unat q = 2 ^ 64 div D"
    by (simp add: q_def unat_div_distrib denom push_bit_eq_mult)
  have "denom \<noteq> 0" using denom Dpos by auto
  then have "bm_pow_get_target len ttl trials extra =
      Done (ucast (if 0xffffffffffffffff < q then 0xffffffffffffffff else q))"
    unfolding bm_pow_get_target_def Let_def l_def [symmetric] denom_def [symmetric] q_def by simp
  moreover have "unat (ucast (if 0xffffffffffffffff < q then 0xffffffffffffffff else q) :: u64) =
      min (2 ^ 64 - 1) (unat q)"
    by (auto simp: word_less_nat_alt unsigned_ucast_eq take_bit_nat_eq_self)
  ultimately show ?thesis using q unfolding D_def by auto
qed

section \<open>Properties\<close>

text \<open>
  C19: the target is exactly \<open>2^64 / (trials * (L + ttl * L / 2^16))\<close>, rounded down and capped at
  \<open>2^64 - 1\<close>, with \<open>L\<close> the payload length plus 8 plus the extra bytes, whenever the trials are not
  zero and the two products fit 128 bits; no intermediate value wraps.
\<close>

theorem pow_target_exact:
  fixes len ttl trials extra :: u64
  defines "L \<equiv> unat len + 8 + unat extra"
  assumes "0 < trials" "unat ttl * L < 2 ^ 128" "unat trials * (L + unat ttl * L div 2 ^ 16) < 2 ^ 128"
  shows "\<exists>t. bm_pow_get_target len ttl trials extra = Done t \<and>
    unat t = min (2 ^ 64 - 1) (2 ^ 64 div (unat trials * (L + unat ttl * L div 2 ^ 16)))"
  unfolding L_def by (rule pow_target_value) (use assms(2-4) in \<open>simp_all only: L_def\<close>)

theorem pow_target_exact_witness:
  "\<exists>t. bm_pow_get_target 1000 2419200 1000 1000 = Done t \<and> unat t = 242302663484"
  using pow_target_exact [of 1000 2419200 1000 1000] by simp

text \<open>
  C20: under every schedule of the worker threads and of the cancel request, once all threads are
  joined a returned nonce satisfies the target, and -1 is returned only after a cancel request.
\<close>

theorem pow_parallel_result:
  assumes "(pow_step ssl ih target)\<^sup>*\<^sup>* (pow_start num_threads) s" "pow_joined s" "0 < length (threads s)"
  shows "case pow_result s of Some n \<Rightarrow> bm_pow_trial_value ssl n ih \<le> target | None \<Rightarrow> cancelled s"
proof -
  have inv: "pow_inv ssl ih target s" by (rule pow_inv_reachable [OF assms(1)])
  have all: "\<forall>t\<in>set (threads s). phase t = Exited" using assms(2) by (simp add: pow_joined_def list_all_iff)
  have "threads s ! 0 \<in> set (threads s)" using assms(3) by simp
  then have "found s \<or> cancelled s" using inv all by (force simp: pow_inv_def thread_ok_def)
  then show ?thesis using inv all by (auto simp: pow_result_def pow_inv_def)
qed

theorem pow_parallel_result_witness:
  "\<exists>s. (pow_step plain_ssl [] 0)\<^sup>*\<^sup>* (pow_start 1) s \<and> pow_joined s \<and>
     (case pow_result s of Some n \<Rightarrow> bm_pow_trial_value plain_ssl n [] \<le> 0 | None \<Rightarrow> cancelled s)"
proof -
  let ?t = "\<lparr>phase = Check, round = 0, thread_nonce = 0\<rparr>"
  let ?s1 = "(pow_start 1)\<lparr>cancelled := True\<rparr>"
  let ?s2 = "pow_worker plain_ssl [] 0 0 ?s1"
  have th: "threads (pow_start (Suc 0)) = [?t]" by (simp add: pow_start_def)
  have "pow_step plain_ssl [] 0 (pow_start 1) ?s1" by (rule pow_cancel)
  moreover have "pow_step plain_ssl [] 0 ?s1 ?s2" by (rule pow_act) (simp_all add: th)
  ultimately have r: "(pow_step plain_ssl [] 0)\<^sup>*\<^sup>* (pow_start 1) ?s2"
    by (rule rtranclp.rtrancl_into_rtrancl [OF r_into_rtranclp])
  have "threads ?s2 = [?t\<lparr>phase := Exited\<rparr>]" by (simp add: pow_worker_def Let_def th)
  then have "pow_joined ?s2" "0 < length (threads ?s2)" by (simp_all add: pow_joined_def)
  with r pow_parallel_result [OF r] show ?thesis by blast
qed

text \<open>
  With one thread \<open>bm_pow_run\<close> returns, and it returns the smallest nonce that satisfies the
  target, provided some nonce does.
\<close>

theorem pow_run_least_nonce:
  assumes "bm_pow_trial_value ssl (word_of_nat k) (bm_sha512 ssl payload) \<le> target"
    and "\<And>i. i < k \<Longrightarrow> target < bm_pow_trial_value ssl (word_of_nat i) (bm_sha512 ssl payload)"
  shows "bm_pow_run ssl payload target = Some (Some (word_of_nat k))"
proof -
  have "pow_single ssl (bm_sha512 ssl payload) target (\<lambda>_. False) (word_of_nat 0) = Some (Some (word_of_nat k))"
    by (rule pow_single_finds) (use assms in \<open>simp_all add: not_le\<close>)
  then show ?thesis by (simp add: bm_pow_run_def)
qed

theorem pow_run_least_nonce_witness:
  "bm_pow_run plain_ssl [1] 0xffffffffffffffff = Some (Some 0)"
proof -
  have max: "v \<le> 0xffffffffffffffff" for v :: u64
    using unsigned_less [of v, where 'a = nat] by (simp add: word_le_nat_alt)
  show ?thesis using pow_run_least_nonce [of plain_ssl 0 "[1]" "0xffffffffffffffff", OF max] by simp
qed

end
