(* ===== verification/Pow_Queue.thy ===== *)
theory Pow_Queue
  imports Queue Pow_Engine "HOL-Library.Multiset"
begin

text \<open>
  \<open>src/pow/pow_queue.c\<close>: the job queue in front of the proof-of-work search. The sections of the
  code that hold the mutex are functions on the queue; the worker thread, the submitting threads and
  the thread that shuts the queue down interleave them, as the step relation \<open>pow_queue_step\<close>.
  The completion callback is a log of its calls.
\<close>

abbreviation BM_POW_QUEUE_KEY_MAX :: nat where "BM_POW_QUEUE_KEY_MAX \<equiv> 40"

section \<open>Jobs and the queue\<close>

record bm_pow_job =
  job_payload :: bytes
  job_target :: u64
  job_key :: bytes
  job_user_data :: nat

record bm_pow_queue =
  jobs :: "bm_pow_job anchor"
  pending :: nat
  max_pending :: nat
  running :: "nat option"
  stopping :: bool
  cancel :: bool
  completed :: u64

definition bm_pow_queue_init :: "nat \<Rightarrow> bm_pow_queue" where
  "bm_pow_queue_init n =
     \<lparr>jobs = empty_list, pending = 0, max_pending = n, running = None, stopping = False,
      cancel = False, completed = 0\<rparr>"

text \<open>\<open>mem_ok\<close>: the allocation of the object succeeds.\<close>

definition build_object :: "bool \<Rightarrow> bytes \<Rightarrow> u64 \<Rightarrow> bytes option" where
  "build_object mem_ok payload nonce = (if mem_ok then Some (be64 nonce @ payload) else None)"

text \<open>
  The walk over the waiting jobs. Its fuel is one more than the number of waiting jobs; running out
  of it would be a list that does not end.
\<close>

fun key_walk :: "nat \<Rightarrow> bm_pow_job heap \<Rightarrow> nat option \<Rightarrow> bytes \<Rightarrow> bool outcome" where
  "key_walk 0 h j key = Fault"
| "key_walk (Suc fuel) h j key =
     (case j of
        None \<Rightarrow> Done False
      | Some p \<Rightarrow>
          (case h p of
             None \<Rightarrow> Fault
           | Some n \<Rightarrow>
               if job_key (node_data n) = key then Done True else key_walk fuel h (node_next n) key))"

text \<open>\<open>on_worker\<close>: the caller is the worker thread itself, inside a completion callback.\<close>

definition key_in_flight :: "bool \<Rightarrow> bm_pow_queue \<Rightarrow> bytes \<Rightarrow> bool outcome" where
  "key_in_flight on_worker q key =
     (let walk = key_walk (Suc (pending q)) (heap (jobs q)) (head (jobs q)) key
      in case running q of
           None \<Rightarrow> walk
         | Some r \<Rightarrow>
             if on_worker then walk
             else (case heap (jobs q) r of
                     None \<Rightarrow> Fault
                   | Some n \<Rightarrow> if job_key (node_data n) = key then Done True else walk))"

datatype submit_result = SUBMITTED | DUPLICATE | REJECTED

text \<open>\<open>new_job\<close> is what \<open>calloc\<close> returns.\<close>

definition bm_pow_queue_submit ::
  "bool \<Rightarrow> nat option \<Rightarrow> bytes \<Rightarrow> u64 \<Rightarrow> bytes option \<Rightarrow> nat \<Rightarrow> bm_pow_queue
     \<Rightarrow> (submit_result \<times> bm_pow_queue) outcome" where
  "bm_pow_queue_submit on_worker new_job payload target key_arg user_data q =
     (let key = (case key_arg of None \<Rightarrow> [] | Some k \<Rightarrow> k)
      in if BM_POW_QUEUE_KEY_MAX < length key then Done (REJECTED, q)
         else if stopping q \<or> max_pending q \<le> pending q then Done (REJECTED, q)
         else bind_outcome (if 0 < length key then key_in_flight on_worker q key else Done False)
           (\<lambda>dup.
             if dup then Done (DUPLICATE, q)
             else case new_job of
                    None \<Rightarrow> Done (REJECTED, q)
                  | Some a \<Rightarrow>
                      bind_outcome
                        (link_tail a \<lparr>job_payload = payload, job_target = target, job_key = key,
                           job_user_data = user_data\<rparr> (jobs q))
                        (\<lambda>l. Done (SUBMITTED, q\<lparr>jobs := l, pending := pending q + 1\<rparr>))))"

text \<open>The call with \<open>q == NULL\<close>: the search runs in the caller, then the callback.\<close>

definition bm_pow_queue_submit_sync :: "openssl \<Rightarrow> bool \<Rightarrow> bytes \<Rightarrow> u64 \<Rightarrow> bytes option option" where
  "bm_pow_queue_submit_sync ssl mem_ok payload target =
     (case bm_pow_run ssl payload target of
        None \<Rightarrow> None
      | Some None \<Rightarrow> None
      | Some (Some nonce) \<Rightarrow> Some (build_object mem_ok payload nonce))"

text \<open>The worker takes the oldest job (lines 62-69); \<open>None\<close> while it sleeps.\<close>

definition pow_queue_take :: "bm_pow_queue \<Rightarrow> (nat \<times> bm_pow_queue) option outcome" where
  "pow_queue_take q =
     (if stopping q then Done None
      else bind_outcome (unlink_head (jobs q))
        (\<lambda>r. Done (map_option (\<lambda>(job, _, l).
           (job, q\<lparr>jobs := l, pending := pending q - 1, running := Some job\<rparr>)) r)))"

text \<open>The worker is done with a job (lines 86-89).\<close>

definition pow_queue_finish :: "nat \<Rightarrow> bm_pow_queue \<Rightarrow> bm_pow_queue" where
  "pow_queue_finish job q =
     q\<lparr>running := None, completed := completed q + 1, jobs := free_node job (jobs q)\<rparr>"

text \<open>
  The part of \<open>bm_pow_queue_shutdown\<close> under the mutex, with the list it takes over, and the loop
  that discards that list after the worker is joined.
\<close>

definition shutdown_begin :: "bm_pow_queue \<Rightarrow> nat option \<times> bm_pow_queue" where
  "shutdown_begin q =
     (head (jobs q),
      q\<lparr>stopping := True, cancel := True, jobs := (jobs q)\<lparr>head := None, tail := None\<rparr>, pending := 0\<rparr>)"

type_synonym pow_call = "nat \<times> bytes option"

fun discard_loop :: "nat \<Rightarrow> nat option \<Rightarrow> bm_pow_job heap \<Rightarrow> (pow_call list \<times> bm_pow_job heap) outcome" where
  "discard_loop 0 l h = Fault"
| "discard_loop (Suc fuel) l h =
     (case l of
        None \<Rightarrow> Done ([], h)
      | Some p \<Rightarrow>
          (case h p of
             None \<Rightarrow> Fault
           | Some n \<Rightarrow>
               bind_outcome (discard_loop fuel (node_next n) (h(p := None)))
                 (\<lambda>(calls, h'). Done ((job_user_data (node_data n), None) # calls, h'))))"

section \<open>The threads\<close>

datatype worker_state = Waiting | Searching nat | Calling nat | Gone
datatype stopper_state = Running | Joining "nat option" | Stopped

record pow_world =
  queue :: bm_pow_queue
  worker :: worker_state
  stopper :: stopper_state
  calls :: "pow_call list"
  accepted :: "bm_pow_job list"

definition pow_world_start :: "nat \<Rightarrow> pow_world" where
  "pow_world_start n =
     \<lparr>queue = bm_pow_queue_init n, worker = Waiting, stopper = Running, calls = [], accepted = []\<rparr>"

definition submitted_job :: "bytes \<Rightarrow> u64 \<Rightarrow> bytes option \<Rightarrow> nat \<Rightarrow> bm_pow_job" where
  "submitted_job payload target key_arg user_data =
     \<lparr>job_payload = payload, job_target = target,
      job_key = (case key_arg of None \<Rightarrow> [] | Some k \<Rightarrow> k), job_user_data = user_data\<rparr>"

inductive pow_queue_step :: "openssl \<Rightarrow> pow_world \<Rightarrow> pow_world \<Rightarrow> bool" for ssl where
  submit_ok: "bm_pow_queue_submit on_worker (Some a) payload target key ud (queue w) = Done (SUBMITTED, q') \<Longrightarrow>
    (on_worker \<Longrightarrow> \<exists>p. worker w = Calling p) \<Longrightarrow> heap (jobs (queue w)) a = None \<Longrightarrow>
    pow_queue_step ssl w
      (w\<lparr>queue := q', accepted := accepted w @ [submitted_job payload target key ud]\<rparr>)"
| submit_refused: "bm_pow_queue_submit on_worker new_job payload target key ud (queue w) = Done (r, q') \<Longrightarrow>
    r \<noteq> SUBMITTED \<Longrightarrow> (on_worker \<Longrightarrow> \<exists>p. worker w = Calling p) \<Longrightarrow>
    pow_queue_step ssl w (w\<lparr>queue := q'\<rparr>)"
| take: "worker w = Waiting \<Longrightarrow> pow_queue_take (queue w) = Done (Some (p, q')) \<Longrightarrow>
    pow_queue_step ssl w (w\<lparr>queue := q', worker := Searching p\<rparr>)"
| leave: "worker w = Waiting \<Longrightarrow> stopping (queue w) \<Longrightarrow> pow_queue_step ssl w (w\<lparr>worker := Gone\<rparr>)"
| solved: "worker w = Searching p \<Longrightarrow> heap (jobs (queue w)) p = Some n \<Longrightarrow>
    bm_pow_trial_value ssl nonce (bm_sha512 ssl (job_payload (node_data n))) \<le> job_target (node_data n) \<Longrightarrow>
    pow_queue_step ssl w (w\<lparr>worker := Calling p, calls := calls w @
      [(job_user_data (node_data n), build_object mem_ok (job_payload (node_data n)) nonce)]\<rparr>)"
| cancelled: "worker w = Searching p \<Longrightarrow> heap (jobs (queue w)) p = Some n \<Longrightarrow> cancel (queue w) \<Longrightarrow>
    pow_queue_step ssl w (w\<lparr>worker := Calling p, calls := calls w @ [(job_user_data (node_data n), None)]\<rparr>)"
| finish: "worker w = Calling p \<Longrightarrow>
    pow_queue_step ssl w (w\<lparr>worker := Waiting, queue := pow_queue_finish p (queue w)\<rparr>)"
| stop: "\<not> stopping (queue w) \<Longrightarrow> shutdown_begin (queue w) = (l, q') \<Longrightarrow>
    pow_queue_step ssl w (w\<lparr>queue := q', stopper := Joining l\<rparr>)"
| discard: "stopper w = Joining l \<Longrightarrow> worker w = Gone \<Longrightarrow>
    discard_loop fuel l (heap (jobs (queue w))) = Done (cs, h) \<Longrightarrow>
    pow_queue_step ssl w (w\<lparr>stopper := Stopped, calls := calls w @ cs,
      queue := (queue w)\<lparr>jobs := (jobs (queue w))\<lparr>heap := h\<rparr>\<rparr>\<rparr>)"

section \<open>The queue as a list of jobs\<close>

lemma key_walk_chain:
  "chain h p ns \<Longrightarrow> length ns < fuel \<Longrightarrow>
    key_walk fuel h p key = Done (\<exists>n\<in>set ns. job_key (snd n) = key)"
proof (induction ns arbitrary: fuel p)
  case Nil
  then show ?case by (cases fuel) auto
next
  case (Cons n ns)
  then show ?case by (cases fuel; cases n) (auto split: option.splits)
qed

definition waiting_keys :: "(nat \<times> bm_pow_job) list \<Rightarrow> bytes list" where
  "waiting_keys ns = filter (\<lambda>k. k \<noteq> []) (map (\<lambda>n. job_key (snd n)) ns)"

text \<open>The queue with its mutex free: its list, its count, its bound and its keys.\<close>

definition queue_at :: "bm_pow_queue \<Rightarrow> (nat \<times> bm_pow_job) list \<Rightarrow> bool" where
  "queue_at q ns \<longleftrightarrow> list_at (jobs q) ns \<and> pending q = length ns \<and> length ns \<le> max_pending q \<and>
     distinct (waiting_keys ns)"

lemma queue_at_init [simp]: "queue_at (bm_pow_queue_init n) []"
  by (simp add: queue_at_def bm_pow_queue_init_def waiting_keys_def)

lemma key_in_flight_at:
  assumes "queue_at q ns" "\<forall>r. running q = Some r \<longrightarrow> heap (jobs q) r \<noteq> None"
  shows "\<exists>b. key_in_flight on_worker q key = Done b \<and>
    (b \<longleftrightarrow> (\<exists>n\<in>set ns. job_key (snd n) = key) \<or>
       \<not> on_worker \<and> (\<exists>r n. running q = Some r \<and> heap (jobs q) r = Some n \<and> job_key (node_data n) = key))"
  using assms key_walk_chain [of "heap (jobs q)" "head (jobs q)" ns "Suc (pending q)" key]
  by (auto simp: key_in_flight_def queue_at_def list_at_def Let_def split: option.splits)

lemma submit_at:
  assumes "queue_at q ns" "\<forall>r. running q = Some r \<longrightarrow> heap (jobs q) r \<noteq> None" "heap (jobs q) a = None"
  shows "\<exists>r q'. bm_pow_queue_submit on_worker (Some a) payload target key ud q = Done (r, q') \<and>
    (if r = SUBMITTED
     then \<not> stopping q \<and> queue_at q' (ns @ [(a, submitted_job payload target key ud)]) \<and>
       link_tail a (submitted_job payload target key ud) (jobs q) = Done (jobs q') \<and>
       running q' = running q \<and> stopping q' = stopping q
     else q' = q)"
proof -
  let ?k = "case key of None \<Rightarrow> [] | Some k \<Rightarrow> k"
  let ?j = "submitted_job payload target key ud"
  have "\<exists>b. (if 0 < length k then key_in_flight on_worker q k else Done False) = Done b \<and>
      (\<not> b \<longrightarrow> k \<noteq> [] \<longrightarrow> (\<forall>n\<in>set ns. job_key (snd n) \<noteq> k))" for k
    using key_in_flight_at [OF assms(1,2), of on_worker k] by (cases "k = []") auto
  from this [of ?k] obtain b where
    b: "(if 0 < length ?k then key_in_flight on_worker q ?k else Done False) = Done b"
    "\<not> b \<Longrightarrow> ?k \<noteq> [] \<Longrightarrow> \<forall>n\<in>set ns. job_key (snd n) \<noteq> ?k" by blast
  obtain l where l: "link_tail a ?j (jobs q) = Done l" "list_at l (ns @ [(a, ?j)])"
    using list_at_link_tail [of "jobs q" ns a ?j] assms by (auto simp: queue_at_def)
  have "distinct (waiting_keys (ns @ [(a, ?j)]))" if "\<not> b"
    using assms(1) b(2) [OF that] by (fastforce simp: queue_at_def waiting_keys_def submitted_job_def)
  then have "queue_at (q\<lparr>jobs := l, pending := pending q + 1\<rparr>) (ns @ [(a, ?j)])"
    if "\<not> b" "\<not> max_pending q \<le> pending q"
    using that l assms(1) by (simp add: queue_at_def)
  then show ?thesis
    using b(1) l(1) unfolding bm_pow_queue_submit_def submitted_job_def [symmetric] Let_def
    by (cases b) (auto simp: submitted_job_def)
qed

lemma submit_refused_same:
  assumes "bm_pow_queue_submit on_worker new_job payload target key ud q = Done (r, q')" "r \<noteq> SUBMITTED"
  shows "q' = q"
  using assms
  by (auto simp: bm_pow_queue_submit_def Let_def split: if_splits option.splits)

lemma take_at:
  assumes "queue_at q ns" "pow_queue_take q = Done (Some (p, q'))"
  shows "\<exists>j ms. ns = (p, j) # ms \<and> queue_at q' ms \<and> \<not> stopping q \<and> running q' = Some p \<and>
    heap (jobs q') = heap (jobs q) \<and> (\<exists>n. heap (jobs q) p = Some n \<and> node_data n = j) \<and>
    p \<notin> fst ` set ms \<and> stopping q' = stopping q"
proof (cases ns)
  case Nil
  with assms show ?thesis by (auto simp: queue_at_def pow_queue_take_def split: if_splits)
next
  case (Cons m ms)
  obtain a j where m: "m = (a, j)" by (cases m)
  have at: "list_at (jobs q) ((a, j) # ms)" using assms(1) Cons m by (simp add: queue_at_def)
  obtain l where l: "unlink_head (jobs q) = Done (Some (a, j, l))" "list_at l ms" "heap l = heap (jobs q)"
    using list_at_unlink_head [OF at] by auto
  have q': "p = a" "q' = q\<lparr>jobs := l, pending := pending q - 1, running := Some a\<rparr>" "\<not> stopping q"
    using assms(2) l(1) by (auto simp: pow_queue_take_def split: if_splits)
  have "\<exists>n. heap (jobs q) a = Some n \<and> node_data n = j" "a \<notin> fst ` set ms"
    using at by (auto simp: list_at_def split: option.splits)
  moreover have "queue_at q' ms"
    using assms(1) l(2) q'(2) Cons by (auto simp: queue_at_def waiting_keys_def split: if_splits)
  ultimately show ?thesis using q' l(3) Cons m by auto
qed

lemma discard_loop_chain:
  "chain h l ds \<Longrightarrow> distinct (map fst ds) \<Longrightarrow>
    \<exists>h'. discard_loop fuel l h =
      (if length ds < fuel then Done (map (\<lambda>d. (job_user_data (snd d), None)) ds, h') else Fault)"
proof (induction ds arbitrary: fuel l h)
  case Nil
  then show ?case by (cases fuel) auto
next
  case (Cons d ds)
  obtain a j where d: "d = (a, j)" by (cases d)
  obtain n where n: "h a = Some n" "node_data n = j" "l = Some a" "chain h (node_next n) ds"
    using Cons.prems(1) d by (auto split: option.splits)
  have "chain (h(a := None)) (node_next n) ds"
    using Cons.prems(2) d n(4) by (subst chain_update) auto
  then have "\<exists>h'. discard_loop f (node_next n) (h(a := None)) =
      (if length ds < f then Done (map (\<lambda>d. (job_user_data (snd d), None)) ds, h') else Fault)" for f
    using Cons.prems(2) by (intro Cons.IH) (assumption | simp)+
  from this [of "fuel - 1"] show ?case using n d by (cases fuel) auto
qed

section \<open>The invariant of the threads\<close>

text \<open>\<open>ns\<close>: the waiting jobs; \<open>ds\<close>: the jobs the shutdown took over and has not discarded yet.\<close>

definition running_of :: "worker_state \<Rightarrow> nat option" where
  "running_of x = (case x of Searching p \<Rightarrow> Some p | Calling p \<Rightarrow> Some p | _ \<Rightarrow> None)"

definition shape :: "pow_world \<Rightarrow> (nat \<times> bm_pow_job) list \<Rightarrow> (nat \<times> bm_pow_job) list \<Rightarrow> bool" where
  "shape w ns ds \<longleftrightarrow>
     queue_at (queue w) ns \<and> running (queue w) = running_of (worker w) \<and>
     (\<forall>p. running_of (worker w) = Some p \<longrightarrow>
        heap (jobs (queue w)) p \<noteq> None \<and> p \<notin> fst ` set ns \<and> p \<notin> fst ` set ds) \<and>
     (worker w = Gone \<longrightarrow> stopping (queue w)) \<and>
     (case stopper w of
        Running \<Rightarrow> ds = [] \<and> \<not> stopping (queue w)
      | Joining l \<Rightarrow> ns = [] \<and> stopping (queue w) \<and> chain (heap (jobs (queue w))) l ds \<and> distinct (map fst ds)
      | Stopped \<Rightarrow> ns = [] \<and> ds = [] \<and> stopping (queue w) \<and> worker w = Gone)"

text \<open>The job the worker searches a nonce for.\<close>

definition searched :: "pow_world \<Rightarrow> bm_pow_job list" where
  "searched w = (case worker w of
     Searching p \<Rightarrow> (case heap (jobs (queue w)) p of None \<Rightarrow> [] | Some n \<Rightarrow> [node_data n]) | _ \<Rightarrow> [])"

text \<open>
  Every accepted job is waiting, searched, taken over by the shutdown, or has had its one callback.
\<close>

definition ledger :: "pow_world \<Rightarrow> (nat \<times> bm_pow_job) list \<Rightarrow> (nat \<times> bm_pow_job) list \<Rightarrow> bool" where
  "ledger w ns ds \<longleftrightarrow>
     (\<exists>js. mset (accepted w) = mset js + mset (map snd ns) + mset (map snd ds) + mset (searched w) \<and>
        map job_user_data js = map fst (calls w))"

definition call_ok :: "openssl \<Rightarrow> bm_pow_job list \<Rightarrow> pow_call \<Rightarrow> bool" where
  "call_ok ssl js c \<longleftrightarrow> (case snd c of None \<Rightarrow> True | Some object \<Rightarrow>
     \<exists>j\<in>set js. \<exists>nonce. fst c = job_user_data j \<and> object = be64 nonce @ job_payload j \<and>
       bm_pow_trial_value ssl nonce (bm_sha512 ssl (job_payload j)) \<le> job_target j)"

definition world_inv :: "openssl \<Rightarrow> pow_world \<Rightarrow> bool" where
  "world_inv ssl w \<longleftrightarrow>
     (\<exists>ns ds. shape w ns ds \<and> ledger w ns ds) \<and> (\<forall>c\<in>set (calls w). call_ok ssl (accepted w) c)"

lemma world_inv_start: "world_inv ssl (pow_world_start n)"
  by (auto simp: world_inv_def pow_world_start_def shape_def ledger_def running_of_def searched_def
      bm_pow_queue_init_def [of n] intro!: exI [of _ "[]"])
    (metis bm_pow_queue_init_def queue_at_init)

lemma call_ok_mono: "call_ok ssl js c \<Longrightarrow> set js \<subseteq> set js' \<Longrightarrow> call_ok ssl js' c"
  by (auto simp: call_ok_def split: option.splits)

lemma shape_heap: "shape w ns ds \<Longrightarrow> \<forall>r. running (queue w) = Some r \<longrightarrow> heap (jobs (queue w)) r \<noteq> None"
  by (simp add: shape_def)

lemma shape_submit:
  assumes "shape w ns ds" "heap (jobs (queue w)) a = None"
    "bm_pow_queue_submit on_worker (Some a) payload target key ud (queue w) = Done (SUBMITTED, q')"
  defines "w' \<equiv> w\<lparr>queue := q', accepted := accepted w @ [submitted_job payload target key ud]\<rparr>"
  shows "shape w' (ns @ [(a, submitted_job payload target key ud)]) ds \<and> searched w' = searched w"
proof -
  let ?j = "submitted_job payload target key ud"
  have at: "queue_at (queue w) ns" using assms(1) by (simp add: shape_def)
  have q': "queue_at q' (ns @ [(a, ?j)])" "link_tail a ?j (jobs (queue w)) = Done (jobs q')"
    "running q' = running (queue w)" "stopping q' = stopping (queue w)" "\<not> stopping (queue w)"
    using submit_at [OF at shape_heap [OF assms(1)] assms(2), of on_worker payload target key ud] assms(3)
    by auto
  have st: "stopper w = Running" "ds = []"
    using assms(1) q'(5) by (auto simp: shape_def split: stopper_state.splits)
  have same: "heap (jobs q') p = heap (jobs (queue w)) p" if "running_of (worker w) = Some p" for p
  proof (rule link_tail_frame [OF _ q'(2)])
    show "list_at (jobs (queue w)) ns" using at by (simp add: queue_at_def)
    show "p \<noteq> a" "p \<notin> fst ` set ns" using assms(1,2) that by (auto simp: shape_def)
  qed
  have "shape w' (ns @ [(a, ?j)]) ds"
    using assms(1,2) q' st same by (auto simp: shape_def w'_def)
  moreover have "searched w' = searched w"
    using same by (auto simp: searched_def w'_def running_of_def split: worker_state.splits)
  ultimately show ?thesis ..
qed

lemma shape_take:
  assumes "shape w ns ds" "worker w = Waiting" "pow_queue_take (queue w) = Done (Some (p, q'))"
  defines "w' \<equiv> w\<lparr>queue := q', worker := Searching p\<rparr>"
  shows "\<exists>j ms. ns = (p, j) # ms \<and> shape w' ms ds \<and> searched w' = [j]"
proof -
  have at: "queue_at (queue w) ns" using assms(1) by (simp add: shape_def)
  from take_at [OF at assms(3)] obtain j ms n where
    t: "ns = (p, j) # ms" "queue_at q' ms" "\<not> stopping (queue w)" "running q' = Some p"
    "heap (jobs q') = heap (jobs (queue w))" "heap (jobs (queue w)) p = Some n" "node_data n = j"
    "p \<notin> fst ` set ms" "stopping q' = stopping (queue w)" by blast
  have "stopper w = Running" "ds = []"
    using assms(1) t(3) by (auto simp: shape_def split: stopper_state.splits)
  then show ?thesis using t assms(1) by (auto simp: shape_def w'_def running_of_def searched_def)
qed

lemma shape_worker:
  assumes "shape w ns ds" "running_of x = running_of (worker w)"
    "x = Gone \<Longrightarrow> stopping (queue w)" "stopper w \<noteq> Stopped"
  shows "shape (w\<lparr>worker := x, calls := cs\<rparr>) ns ds"
  using assms by (auto simp: shape_def split: stopper_state.splits)

lemma shape_not_stopped: "shape w ns ds \<Longrightarrow> worker w \<noteq> Gone \<Longrightarrow> stopper w \<noteq> Stopped"
  by (auto simp: shape_def)

lemma shape_finish:
  assumes "shape w ns ds" "worker w = Calling p"
  shows "shape (w\<lparr>worker := Waiting, queue := pow_queue_finish p (queue w)\<rparr>) ns ds"
proof -
  have p: "p \<notin> fst ` set ns" "p \<notin> fst ` set ds" using assms by (auto simp: shape_def running_of_def)
  have "list_at (jobs (queue w)) ns" using assms(1) by (simp add: shape_def queue_at_def)
  then have "list_at (free_node p (jobs (queue w))) ns"
    using p(1) by (simp add: list_at_def free_node_def chain_update)
  moreover have "stopper w \<noteq> Stopped" using shape_not_stopped [OF assms(1)] assms(2) by simp
  ultimately show ?thesis
    using assms p
    by (auto simp: shape_def queue_at_def pow_queue_finish_def running_of_def free_node_def chain_update
        split: stopper_state.splits)
qed

lemma searched_cong:
  "worker w' = worker w \<Longrightarrow> heap (jobs (queue w')) = heap (jobs (queue w)) \<Longrightarrow> searched w' = searched w"
  unfolding searched_def by presburger

lemma shape_stop:
  assumes "shape w ns ds" "\<not> stopping (queue w)" "shutdown_begin (queue w) = (l, q')"
  shows "ds = [] \<and> shape (w\<lparr>queue := q', stopper := Joining l\<rparr>) [] ns \<and>
    searched (w\<lparr>queue := q', stopper := Joining l\<rparr>) = searched w"
  using assms
  by (auto simp: shape_def shutdown_begin_def queue_at_def list_at_def waiting_keys_def
      intro!: searched_cong split: stopper_state.splits)

lemma shape_discard:
  assumes "shape w ns ds" "stopper w = Joining l" "worker w = Gone"
    "discard_loop fuel l (heap (jobs (queue w))) = Done (cs, h)"
  shows "ns = [] \<and> cs = map (\<lambda>d. (job_user_data (snd d), None)) ds \<and>
    shape (w\<lparr>stopper := Stopped, calls := calls w @ cs,
      queue := (queue w)\<lparr>jobs := (jobs (queue w))\<lparr>heap := h\<rparr>\<rparr>\<rparr>) [] []"
proof -
  have "chain (heap (jobs (queue w))) l ds" "distinct (map fst ds)" "ns = []"
    using assms(1,2) by (auto simp: shape_def)
  then show ?thesis
    using discard_loop_chain [of "heap (jobs (queue w))" l ds fuel] assms
    by (auto simp: shape_def queue_at_def list_at_def waiting_keys_def running_of_def split: if_splits)
qed

lemma world_invI:
  assumes "shape w ns ds" "mset (accepted w) = mset js + mset (map snd ns) + mset (map snd ds) + mset (searched w)"
    "map job_user_data js = map fst (calls w)" "\<forall>c\<in>set (calls w). call_ok ssl (accepted w) c"
  shows "world_inv ssl w"
  using assms unfolding world_inv_def ledger_def by blast

lemma searched_accepted:
  assumes "mset (accepted w) = mset js + mset xs + mset ys + mset (searched w)" "worker w = Searching p"
    "heap (jobs (queue w)) p = Some n"
  shows "searched w = [node_data n]" "node_data n \<in> set (accepted w)"
proof -
  show *: "searched w = [node_data n]" using assms(2,3) by (simp add: searched_def)
  have "node_data n \<in># mset (accepted w)" by (simp add: assms(1) *)
  then show "node_data n \<in> set (accepted w)" by simp
qed

lemma world_inv_step:
  assumes "pow_queue_step ssl w w'" "world_inv ssl w"
  shows "world_inv ssl w'"
proof -
  from assms(2) obtain ns ds js where sh: "shape w ns ds"
    and led: "mset (accepted w) = mset js + mset (map snd ns) + mset (map snd ds) + mset (searched w)"
      "map job_user_data js = map fst (calls w)"
    and ok: "\<forall>c\<in>set (calls w). call_ok ssl (accepted w) c"
    unfolding world_inv_def ledger_def by blast
  from assms(1) show ?thesis
  proof cases
    case (submit_ok on_worker a payload target key ud q')
    have "call_ok ssl (accepted w') c" if "c \<in> set (calls w)" for c
      using that ok call_ok_mono [of ssl "accepted w" c "accepted w'"] submit_ok(1) by auto
    then show ?thesis
      using shape_submit [OF sh submit_ok(4,2)] led submit_ok(1) by (intro world_invI) auto
  next
    case (submit_refused on_worker new_job payload target key ud r q')
    have "q' = queue w"
      by (rule submit_refused_same [OF submit_refused(2,3)])
    then show ?thesis using submit_refused(1) assms(2) by simp
  next
    case (take p q')
    from shape_take [OF sh take(2,3)] obtain j ms where
      t: "ns = (p, j) # ms" "shape w' ms ds" "searched w' = [j]" using take(1) by blast
    have "searched w = []" using take(2) by (simp add: searched_def)
    then have "mset (accepted w) = mset js + mset (map snd ms) + mset (map snd ds) + mset (searched w')"
      using led(1) t(1,3) by (simp add: ac_simps)
    then show ?thesis using led(2) ok take(1) by (intro world_invI [OF t(2)]) simp_all
  next
    case leave
    have "shape w' ns ds"
      using shape_worker [OF sh, of Gone "calls w"] leave shape_not_stopped [OF sh]
      by (simp add: running_of_def)
    moreover have "searched w' = searched w" using leave by (simp add: searched_def)
    ultimately show ?thesis using led ok leave(1) by (intro world_invI) simp_all
  next
    case (solved p n nonce mem_ok)
    note j = searched_accepted [OF led(1) solved(2,3)]
    have "shape w' ns ds"
      unfolding solved(1)
      by (rule shape_worker [OF sh]) (simp_all add: running_of_def solved(2) shape_not_stopped [OF sh])
    moreover have "searched w' = []" using solved(1) by (simp add: searched_def)
    moreover have "call_ok ssl (accepted w)
        (job_user_data (node_data n), build_object mem_ok (job_payload (node_data n)) nonce)"
      using j(2) solved(4) by (auto simp: call_ok_def build_object_def)
    ultimately show ?thesis
      using led ok j(1) solved(1) by (intro world_invI [where js = "js @ [node_data n]"]) auto
  next
    case (cancelled p n)
    note j = searched_accepted [OF led(1) cancelled(2,3)]
    have "shape w' ns ds"
      unfolding cancelled(1)
      by (rule shape_worker [OF sh]) (simp_all add: running_of_def cancelled(2) shape_not_stopped [OF sh])
    moreover have "searched w' = []" using cancelled(1) by (simp add: searched_def)
    ultimately show ?thesis
      using led ok j(1) cancelled(1)
      by (intro world_invI [where js = "js @ [node_data n]"]) (auto simp: call_ok_def)
  next
    case (finish p)
    have "searched w' = searched w" using finish by (simp add: searched_def)
    then show ?thesis
      using shape_finish [OF sh finish(2)] led ok finish(1) by (intro world_invI) simp_all
  next
    case (stop l q')
    show ?thesis
      using shape_stop [OF sh stop(2,3)] led ok stop(1) by (intro world_invI [where ns = "[]" and ds = ns]) auto
  next
    case (discard l fuel cs h)
    note d = shape_discard [OF sh discard(2,3,4)]
    have "searched w' = []" "searched w = []" using discard by (simp_all add: searched_def)
    then show ?thesis
      using d led ok discard(1)
      by (intro world_invI [where ns = "[]" and ds = "[]" and js = "js @ map snd ds"])
        (auto simp: call_ok_def comp_def)
  qed
qed

lemma world_inv_reachable: "(pow_queue_step ssl)\<^sup>*\<^sup>* (pow_world_start n) w \<Longrightarrow> world_inv ssl w"
  by (induction rule: rtranclp_induct) (auto intro: world_inv_start world_inv_step)

section \<open>Properties\<close>

text \<open>
  C21: when the queue has been shut down, every accepted job has had its completion callback exactly
  once, whatever the threads did: none is lost and none is reported twice.
\<close>

theorem pow_queue_exactly_once:
  assumes "(pow_queue_step ssl)\<^sup>*\<^sup>* (pow_world_start n) w" "stopper w = Stopped"
  shows "mset (map fst (calls w)) = mset (map job_user_data (accepted w))"
proof -
  from world_inv_reachable [OF assms(1)] obtain ns ds js where sh: "shape w ns ds"
    and led: "mset (accepted w) = mset js + mset (map snd ns) + mset (map snd ds) + mset (searched w)"
      "map job_user_data js = map fst (calls w)"
    unfolding world_inv_def ledger_def by blast
  from sh assms(2) have "ns = []" "ds = []" "searched w = []" by (simp_all add: shape_def searched_def)
  with led(1) have "mset (accepted w) = mset js" by simp
  then have "image_mset job_user_data (mset (accepted w)) = image_mset job_user_data (mset js)" by simp
  then show ?thesis by (simp flip: led(2) mset_map)
qed

theorem pow_queue_exactly_once_witness:
  "\<exists>w. (pow_queue_step plain_ssl)\<^sup>*\<^sup>* (pow_world_start 4) w \<and> stopper w = Stopped \<and>
     mset (map fst (calls w)) = mset (map job_user_data (accepted w))"
proof -
  let ?w0 = "pow_world_start 4"
  obtain l q1 where b: "shutdown_begin (queue ?w0) = (l, q1)" by (cases "shutdown_begin (queue ?w0)")
  then have l: "l = None" "stopping q1" "jobs q1 = empty_list"
    by (auto simp: shutdown_begin_def pow_world_start_def bm_pow_queue_init_def empty_list_def)
  let ?w1 = "?w0\<lparr>queue := q1, stopper := Joining l\<rparr>"
  have 1: "pow_queue_step plain_ssl ?w0 ?w1"
    by (rule stop) (use b in \<open>simp_all add: pow_world_start_def bm_pow_queue_init_def\<close>)
  let ?w2 = "?w1\<lparr>worker := Gone\<rparr>"
  have 2: "pow_queue_step plain_ssl ?w1 ?w2" by (rule leave) (simp_all add: l pow_world_start_def)
  have d: "discard_loop (Suc 0) l (heap (jobs (queue ?w2))) = Done ([], heap (jobs (queue ?w2)))"
    by (simp add: l)
  have "stopper ?w2 = Joining l" "worker ?w2 = Gone" by simp_all
  from discard [OF this d] have "\<exists>w3. pow_queue_step plain_ssl ?w2 w3 \<and> stopper w3 = Stopped" by force
  then obtain w3 where 3: "pow_queue_step plain_ssl ?w2 w3" "stopper w3 = Stopped" by blast
  have r: "(pow_queue_step plain_ssl)\<^sup>*\<^sup>* ?w0 w3"
    by (rule converse_rtranclp_into_rtranclp [of "pow_queue_step plain_ssl", OF 1],
        rule converse_rtranclp_into_rtranclp [of "pow_queue_step plain_ssl", OF 2], rule r_into_rtranclp, rule 3(1))
  show ?thesis using r 3(2) pow_queue_exactly_once [OF r 3(2)] by blast
qed

text \<open>
  C22: in every reachable state the count of waiting jobs is the length of the list and within its
  limit, no two waiting jobs share a key, taking and submitting follow no dangling pointer, and every
  object handed to a callback is the big-endian nonce followed by the payload of an accepted job with
  a trial value within the target of that job.
\<close>

theorem pow_queue_safe:
  assumes "(pow_queue_step ssl)\<^sup>*\<^sup>* (pow_world_start n) w"
  shows "(\<exists>ns. list_at (jobs (queue w)) ns \<and> pending (queue w) = length ns \<and>
      length ns \<le> max_pending (queue w) \<and> distinct (waiting_keys ns)) \<and>
    (\<forall>a. heap (jobs (queue w)) a = None \<longrightarrow>
      bm_pow_queue_submit on_worker (Some a) payload target key ud (queue w) \<noteq> Fault) \<and>
    pow_queue_take (queue w) \<noteq> Fault \<and>
    (\<forall>(user_data, object)\<in>set (calls w). \<forall>obj. object = Some obj \<longrightarrow>
      (\<exists>j\<in>set (accepted w). \<exists>nonce. user_data = job_user_data j \<and> obj = be64 nonce @ job_payload j \<and>
        bm_pow_trial_value ssl nonce (bm_sha512 ssl (job_payload j)) \<le> job_target j))"
proof -
  from world_inv_reachable [OF assms] obtain ns ds where sh: "shape w ns ds"
    and ok: "\<forall>c\<in>set (calls w). call_ok ssl (accepted w) c"
    unfolding world_inv_def by blast
  have at: "queue_at (queue w) ns" using sh by (simp add: shape_def)
  have "bm_pow_queue_submit on_worker (Some a) payload target key ud (queue w) \<noteq> Fault"
    if "heap (jobs (queue w)) a = None" for a
    using submit_at [OF at shape_heap [OF sh] that, of on_worker payload target key ud] by auto
  moreover have "linked (jobs (queue w)) (map snd ns)" using at by (auto simp: queue_at_def linked_def)
  then have "take_head (jobs (queue w)) \<noteq> Fault" by (rule linked.never_faults(1))
  then have "pow_queue_take (queue w) \<noteq> Fault" by (auto simp: pow_queue_take_def take_head_def)
  moreover have "\<forall>(user_data, object)\<in>set (calls w). \<forall>obj. object = Some obj \<longrightarrow>
      (\<exists>j\<in>set (accepted w). \<exists>nonce. user_data = job_user_data j \<and> obj = be64 nonce @ job_payload j \<and>
        bm_pow_trial_value ssl nonce (bm_sha512 ssl (job_payload j)) \<le> job_target j)"
    using ok by (fastforce simp: call_ok_def)
  ultimately show ?thesis using at unfolding queue_at_def by blast
qed

theorem pow_queue_safe_witness:
  "pow_queue_take (queue (pow_world_start 4)) \<noteq> Fault"
  using pow_queue_safe [of plain_ssl 4 "pow_world_start 4"] by blast

end
