(* ===== verification/Send_Pipeline.thy ===== *)
theory Send_Pipeline
  imports Keyring Messages_Store Pubkey_Cache Pow_Queue Protocol
begin

text \<open>
  Sending (\<open>src/core/send_pipeline.c\<close>, without the post-quantum build): a message is prepared from the
  keyring and the caches, its acknowledgement is built and given a proof of work, then the message that
  carries the acknowledgement, and then the message is entered in the table of sent messages. Each proof of
  work is a job of the queue whose callback continues the work; \<open>'d\<close> is the type of what the caller gives as
  \<open>done\<close> and \<open>user_data\<close>, and a call of \<open>done\<close> is a value. Callbacks of other modules are \<open>'o\<close>.
\<close>

abbreviation BM_ACK_NONCE_TRIALS_PER_BYTE :: u64 where "BM_ACK_NONCE_TRIALS_PER_BYTE \<equiv> 1000"
abbreviation BM_ACK_PAYLOAD_LENGTH_EXTRA_BYTES :: u64 where "BM_ACK_PAYLOAD_LENGTH_EXTRA_BYTES \<equiv> 1000"

section \<open>Jobs and callbacks\<close>

record 'd send_msg_job =
  sj_from_info :: bm_identity_info
  sj_to_stream :: u64
  sj_to_ripe :: bytes
  sj_to_pub_encryption :: bytes
  sj_is_self :: bool
  sj_from_address :: bytes
  sj_to_address :: bytes
  sj_subject :: bytes
  sj_body :: bytes
  sj_ttl_seconds :: u64
  sj_ack_stealth_level :: int
  sj_expires_time :: u64
  sj_required_nonce_trials :: u64
  sj_required_extra_bytes :: u64
  sj_msg_id :: bytes
  sj_next_resend_time :: int
  sj_ack_data :: "bytes option"
  sj_key :: bytes
  sj_done :: 'd

definition cleansed_info :: bm_identity_info where
  "cleansed_info = \<lparr>ii_address_version = 0, ii_stream = 0, ii_pub_signing = replicate 65 0, ii_pub_encryption = replicate 65 0,
     ii_priv_signing = replicate 32 0, ii_nonce_trials_per_byte = 0, ii_payload_length_extra_bytes = 0, ii_does_ack = False\<rparr>"

text \<open>The functions that the queue calls back, with their \<open>user_data\<close>, and the memory that holds it.\<close>

datatype ('d, 'o) pow_callback =
    Ack_pow_done "'d send_msg_job"
  | Msg_pow_done "'d send_msg_job"
  | Broadcast_pow_done 'd
  | Other_done 'o

record ('d, 'o) pow_state =
  ps_queue :: bm_pow_queue
  ps_callbacks :: "nat \<Rightarrow> ('d, 'o) pow_callback option"

text \<open>
  \<open>user_data\<close> is the address of the job structure, \<open>new_job\<close> what the queue allocates. A structure that the
  queue does not accept is freed by the caller.
\<close>

definition submit_pow ::
  "bool \<Rightarrow> nat option \<Rightarrow> nat \<Rightarrow> bytes \<Rightarrow> u64 \<Rightarrow> bytes option \<Rightarrow> ('d, 'o) pow_callback \<Rightarrow> ('d, 'o) pow_state
     \<Rightarrow> (submit_result \<times> ('d, 'o) pow_state) outcome" where
  "submit_pow on_worker new_job user_data payload target key cb ps =
     bind_outcome (bm_pow_queue_submit on_worker new_job payload target key user_data (ps_queue ps)) (\<lambda>(r, q).
       Done (r, ps\<lparr>ps_queue := q,
         ps_callbacks := (if r = SUBMITTED then (ps_callbacks ps)(user_data \<mapsto> cb) else ps_callbacks ps)\<rparr>))"

fun submit_rc :: "submit_result \<Rightarrow> int" where
  "submit_rc SUBMITTED = 0" | "submit_rc DUPLICATE = 1" | "submit_rc REJECTED = -1"

text \<open>A call \<open>done(user_data, rc, object, object_len, now)\<close>\<close>

type_synonym 'd send_done_call = "'d \<times> int \<times> bytes option \<times> int"

definition msg_job_fail :: "'d send_msg_job \<Rightarrow> int \<Rightarrow> 'd send_done_call" where
  "msg_job_fail job now = (sj_done job, -1, None, now)"

section \<open>Messages\<close>

text \<open>
  What the system gives for one message: SQLite's answers in the order of the statements, whether the job,
  its strings, the payload of the acknowledgement and its packet are allocated, and the random data.
\<close>

record pipe_env =
  pe_ok :: "nat \<Rightarrow> bool"
  pe_mem_job :: bool
  pe_mem_strings :: bool
  pe_mem_ack :: bool
  pe_mem_packet :: bool
  pe_msg_id :: "bytes option"
  pe_ack_random :: "bytes option"
  pe_ack_seed :: "u32 option"
  pe_ack_dummy :: "nat \<Rightarrow> bytes option"
  pe_ack_rnd :: ecies_random
  pe_msg_rnd :: ecies_random

definition identity_info :: "u64 \<Rightarrow> bm_unlocked_identity \<Rightarrow> bm_identity_info" where
  "identity_info version u = \<lparr>ii_address_version = version, ii_stream = ui_stream u, ii_pub_signing = ui_pub_signing u,
     ii_pub_encryption = ui_pub_encryption u, ii_priv_signing = ui_priv_signing u,
     ii_nonce_trials_per_byte = ui_nonce_trials_per_byte u, ii_payload_length_extra_bytes = ui_payload_length_extra_bytes u,
     ii_does_ack = True\<rparr>"

text \<open>The key of the receiver: from the table of identities if the address is the user's own, or from the cache.\<close>

definition recipient_key ::
  "(nat \<Rightarrow> bool) \<Rightarrow> bytes \<Rightarrow> bytes \<Rightarrow> identity_db \<Rightarrow> pubkey_db \<Rightarrow> bool \<times> bytes option \<times> pubkey_db" where
  "recipient_key ok to_address to_ripe idb pdb =
     (case bm_identity_store_load (ok 0) to_address idb of
        Some row \<Rightarrow> (True, Some (ir_encryption_pubkey row), pdb)
      | None \<Rightarrow>
          (case bm_pubkey_cache_lookup_by_ripe (ok 1) to_ripe pdb of
             None \<Rightarrow> (False, None, pdb)
           | Some cached \<Rightarrow> (False, Some (cp_encryption_pubkey cached), snd (bm_pubkey_cache_mark_used_personally (ok 2) to_ripe pdb))))"

definition prepare_legacy_msg ::
  "'b bignum \<Rightarrow> openssl \<Rightarrow> (nat \<Rightarrow> bool) \<Rightarrow> keyring \<Rightarrow> identity_db \<Rightarrow> bytes \<Rightarrow> bytes \<Rightarrow> 'd send_msg_job \<Rightarrow> pubkey_db
     \<Rightarrow> 'd send_msg_job option \<times> pubkey_db" where
  "prepare_legacy_msg bn ssl ok kr idb from_address to_address job pdb =
     (case bm_keyring_find_by_address from_address kr of
        None \<Rightarrow> (None, pdb)
      | Some from_id \<Rightarrow>
          (case bm_address_decode bn ssl to_address of
             None \<Rightarrow> (None, pdb)
           | Some (to_version, to_stream, to_ripe) \<Rightarrow>
               (case recipient_key ok to_address to_ripe idb pdb of
                  (is_self, None, pdb1) \<Rightarrow> (None, pdb1)
                | (is_self, Some to_pub, pdb1) \<Rightarrow>
                    let recipient_info = Option.bind (bm_pubkey_cache_lookup_by_ripe (ok 3) to_ripe pdb1)
                          (\<lambda>c. if 3 \<le> cp_address_version c then Some c else None);
                        (trials, extra) = (case recipient_info of
                            None \<Rightarrow> (ui_nonce_trials_per_byte from_id, ui_payload_length_extra_bytes from_id)
                          | Some c \<Rightarrow> (max (ui_nonce_trials_per_byte from_id) (cp_nonce_trials_per_byte c),
                              max (ui_payload_length_extra_bytes from_id) (cp_payload_length_extra_bytes c)))
                    in (Some (job\<lparr>sj_from_info := identity_info (ui_address_version from_id) from_id,
                          sj_to_stream := to_stream, sj_to_ripe := to_ripe, sj_to_pub_encryption := to_pub,
                          sj_is_self := is_self, sj_required_nonce_trials := trials, sj_required_extra_bytes := extra\<rparr>), pdb1))))"

definition build_msg_payload :: "openssl \<Rightarrow> ecies_random \<Rightarrow> bytes option \<Rightarrow> 'd send_msg_job \<Rightarrow> bytes option \<times> 'd send_msg_job" where
  "build_msg_payload ssl rnd ack_packet job =
     (bm_build_msg ssl rnd (sj_from_info job) (sj_to_stream job) (sj_to_ripe job) (sj_to_pub_encryption job)
        (sj_subject job) (sj_body job) ack_packet (sj_expires_time job),
      job\<lparr>sj_from_info := cleansed_info\<rparr>)"

definition build_ack_payload :: "openssl \<Rightarrow> pipe_env \<Rightarrow> int \<Rightarrow> u64 \<Rightarrow> u64 \<Rightarrow> bytes option" where
  "build_ack_payload ssl env stealth_level stream expires_time =
     (case bm_build_ack_object ssl (pe_ack_random env) (pe_ack_seed env) (pe_ack_dummy env) (pe_ack_rnd env) stealth_level stream of
        None \<Rightarrow> None
      | Some ack_body \<Rightarrow> if pe_mem_ack env then Some (be64 expires_time @ ack_body) else None)"

text \<open>What is submitted: the payload, the target, the key and the callback.\<close>

type_synonym ('d, 'o) pow_request = "bytes \<times> u64 \<times> bytes option \<times> ('d, 'o) pow_callback"

text \<open>\<open>bm_send_pipeline_send_message_async\<close> up to the submission; \<open>Inl\<close> is the value it returns before.\<close>

definition send_message_start ::
  "'b bignum \<Rightarrow> openssl \<Rightarrow> pipe_env \<Rightarrow> keyring \<Rightarrow> identity_db \<Rightarrow> bytes \<Rightarrow> bytes \<Rightarrow> bytes \<Rightarrow> bytes \<Rightarrow> u64 \<Rightarrow> int \<Rightarrow> bytes option
     \<Rightarrow> int \<Rightarrow> int \<Rightarrow> 'd \<Rightarrow> pubkey_db \<Rightarrow> ((int + ('d, 'o) pow_request) \<times> pubkey_db) outcome" where
  "send_message_start bn ssl env kr idb from_address to_address subject body ttl_seconds ack_stealth_level reuse_msg_id
       next_resend_time now done pdb =
     (if \<not> pe_mem_job env then Done (Inl (-1), pdb)
      else
        case prepare_legacy_msg bn ssl (pe_ok env) kr idb from_address to_address
          \<lparr>sj_from_info = cleansed_info, sj_to_stream = 0, sj_to_ripe = replicate 20 0, sj_to_pub_encryption = replicate 65 0,
           sj_is_self = False, sj_from_address = c_str from_address, sj_to_address = c_str to_address,
           sj_subject = c_str subject, sj_body = c_str body, sj_ttl_seconds = ttl_seconds,
           sj_ack_stealth_level = ack_stealth_level, sj_expires_time = word_of_int now + ttl_seconds,
           sj_required_nonce_trials = 0, sj_required_extra_bytes = 0, sj_msg_id = replicate 32 0,
           sj_next_resend_time = next_resend_time, sj_ack_data = None, sj_key = replicate 33 0, sj_done = done\<rparr> pdb of
          (None, pdb1) \<Rightarrow> Done (Inl (-1), pdb1)
        | (Some job, pdb1) \<Rightarrow>
            (case (case reuse_msg_id of Some m \<Rightarrow> Some m | None \<Rightarrow> pe_msg_id env) of
               None \<Rightarrow> Done (Inl (-1), pdb1)
             | Some msg_id \<Rightarrow>
                 if \<not> pe_mem_strings env then Done (Inl (-1), pdb1)
                 else
                   let job1 = job\<lparr>sj_msg_id := msg_id, sj_key := 0x53 # msg_id\<rparr>
                   in if sj_is_self job1
                      then (case build_msg_payload ssl (pe_msg_rnd env) None job1 of
                              (None, _) \<Rightarrow> Done (Inl (-1), pdb1)
                            | (Some payload, job2) \<Rightarrow>
                                bind_outcome (bm_pow_get_target (word_of_nat (length payload)) ttl_seconds
                                    (sj_required_nonce_trials job2) (sj_required_extra_bytes job2)) (\<lambda>target.
                                  Done (Inr (payload, target, Some (sj_key job2), Msg_pow_done job2), pdb1)))
                      else (case build_ack_payload ssl env ack_stealth_level (sj_to_stream job1) (sj_expires_time job1) of
                              None \<Rightarrow> Done (Inl (-1), pdb1)
                            | Some ack_payload \<Rightarrow>
                                bind_outcome (bm_pow_get_target (word_of_nat (length ack_payload)) ttl_seconds
                                    BM_ACK_NONCE_TRIALS_PER_BYTE BM_ACK_PAYLOAD_LENGTH_EXTRA_BYTES) (\<lambda>target.
                                  Done (Inr (ack_payload, target, Some (sj_key job1), Ack_pow_done job1), pdb1)))))"

definition bm_send_pipeline_send_message_async ::
  "'b bignum \<Rightarrow> openssl \<Rightarrow> pipe_env \<Rightarrow> nat option \<Rightarrow> nat \<Rightarrow> keyring \<Rightarrow> identity_db \<Rightarrow> bytes \<Rightarrow> bytes \<Rightarrow> bytes \<Rightarrow> bytes \<Rightarrow> u64
     \<Rightarrow> int \<Rightarrow> bytes option \<Rightarrow> int \<Rightarrow> int \<Rightarrow> 'd \<Rightarrow> pubkey_db \<times> ('d, 'o) pow_state
     \<Rightarrow> (int \<times> pubkey_db \<times> ('d, 'o) pow_state) outcome" where
  "bm_send_pipeline_send_message_async bn ssl env new_job user_data kr idb from_address to_address subject body ttl_seconds
       ack_stealth_level reuse_msg_id next_resend_time now done s =
     (case s of (pdb, ps) \<Rightarrow>
        bind_outcome (send_message_start bn ssl env kr idb from_address to_address subject body ttl_seconds
          ack_stealth_level reuse_msg_id next_resend_time now done pdb) (\<lambda>(r, pdb1).
          case r of
            Inl rc \<Rightarrow> Done (rc, pdb1, ps)
          | Inr (payload, target, key, cb) \<Rightarrow>
              bind_outcome (submit_pow False new_job user_data payload target key cb ps) (\<lambda>(r, ps1). Done (submit_rc r, pdb1, ps1))))"

text \<open>\<open>build_and_submit_msg\<close> and \<open>ack_pow_done\<close> up to the submission; \<open>None\<close>: \<open>msg_job_fail\<close>\<close>

definition build_msg_request :: "openssl \<Rightarrow> ecies_random \<Rightarrow> bytes \<Rightarrow> 'd send_msg_job \<Rightarrow> ('d, 'o) pow_request option outcome" where
  "build_msg_request ssl rnd ack_packet job =
     (case build_msg_payload ssl rnd (Some ack_packet) job of
        (None, _) \<Rightarrow> Done None
      | (Some payload, job1) \<Rightarrow>
          bind_outcome (bm_pow_get_target (word_of_nat (length payload)) (sj_ttl_seconds job1)
              (sj_required_nonce_trials job1) (sj_required_extra_bytes job1)) (\<lambda>target.
            Done (Some (payload, target, Some (sj_key job1), Msg_pow_done job1))))"

definition ack_msg_request ::
  "protocol_globals \<Rightarrow> openssl \<Rightarrow> pipe_env \<Rightarrow> bytes option \<Rightarrow> 'd send_msg_job \<Rightarrow> ('d, 'o) pow_request option outcome" where
  "ack_msg_request g ssl env object job =
     (case object of
        None \<Rightarrow> Done None
      | Some ack \<Rightarrow>
          if \<not> pe_mem_packet env then Done None
          else build_msg_request ssl (pe_msg_rnd env) (bm_create_packet g ssl (lit ''object'') ack) (job\<lparr>sj_ack_data := Some ack\<rparr>))"

definition ack_pow_done ::
  "protocol_globals \<Rightarrow> openssl \<Rightarrow> pipe_env \<Rightarrow> nat option \<Rightarrow> nat \<Rightarrow> 'd send_msg_job \<Rightarrow> bytes option \<Rightarrow> int \<Rightarrow> ('d, 'o) pow_state
     \<Rightarrow> ('d send_done_call list \<times> ('d, 'o) pow_state) outcome" where
  "ack_pow_done g ssl env new_job user_data job object now ps =
     bind_outcome (ack_msg_request g ssl env object job) (\<lambda>request.
       case request of
         None \<Rightarrow> Done ([msg_job_fail job now], ps)
       | Some (payload, target, key, cb) \<Rightarrow>
           bind_outcome (submit_pow True new_job user_data payload target key cb ps) (\<lambda>(r, ps1).
             Done (if r = SUBMITTED then [] else [msg_job_fail job now], ps1)))"

text \<open>The message is entered in the tables; \<open>ok\<close>: the answers for the two.\<close>

definition msg_pow_done ::
  "openssl \<Rightarrow> bool \<times> bool \<Rightarrow> 'd send_msg_job \<Rightarrow> bytes option \<Rightarrow> int \<Rightarrow> messages_db \<Rightarrow> 'd send_done_call \<times> messages_db" where
  "msg_pow_done ssl ok job object now mdb =
     (case object of
        None \<Rightarrow> (msg_job_fail job now, mdb)
      | Some obj \<Rightarrow>
          let ack_data = (case sj_ack_data job of None \<Rightarrow> [] | Some a \<Rightarrow> a);
              status = (if sj_is_self job then lit ''msgsentnoackexpected'' else lit ''sent'')
          in case bm_messages_store_insert_sent (fst ok) (sj_msg_id job) ack_data (sj_to_address job) (sj_from_address job)
                    (sj_subject job) (sj_body job) status (sj_ack_stealth_level job) now (sint (sj_ttl_seconds job))
                    (sj_next_resend_time job) mdb of
               (rc, mdb1) \<Rightarrow>
                 if rc \<noteq> 0 then (msg_job_fail job now, mdb1)
                 else ((sj_done job, 0, Some obj, now),
                   if sj_is_self job
                   then snd (bm_messages_store_insert_inbox (snd ok) (bm_inventory_hash ssl obj) (sj_to_address job)
                     (sj_from_address job) (sj_subject job) (sj_body job) now mdb1)
                   else mdb1))"

section \<open>Broadcasts\<close>

definition build_legacy_broadcast ::
  "openssl \<Rightarrow> ecies_random \<Rightarrow> keyring \<Rightarrow> bytes \<Rightarrow> bytes \<Rightarrow> bytes \<Rightarrow> u64 \<Rightarrow> int \<Rightarrow> (bytes \<times> u64) option outcome" where
  "build_legacy_broadcast ssl rnd kr from_address subject body ttl_seconds now =
     (case bm_keyring_find_by_address from_address kr of
        None \<Rightarrow> Done None
      | Some from_id \<Rightarrow>
          (case bm_build_broadcast ssl rnd (identity_info (ui_address_version from_id) from_id) (ui_ripe from_id) subject body
                  (word_of_int now + ttl_seconds) of
             None \<Rightarrow> Done None
           | Some payload \<Rightarrow>
               bind_outcome (bm_pow_get_target (word_of_nat (length payload)) ttl_seconds
                   (ui_nonce_trials_per_byte from_id) (ui_payload_length_extra_bytes from_id)) (\<lambda>target.
                 Done (Some (payload, target)))))"

definition bm_send_pipeline_send_broadcast_async ::
  "openssl \<Rightarrow> ecies_random \<Rightarrow> bool \<Rightarrow> nat option \<Rightarrow> nat \<Rightarrow> keyring \<Rightarrow> bytes \<Rightarrow> bytes \<Rightarrow> bytes \<Rightarrow> u64 \<Rightarrow> int \<Rightarrow> 'd
     \<Rightarrow> ('d, 'o) pow_state \<Rightarrow> (int \<times> ('d, 'o) pow_state) outcome" where
  "bm_send_pipeline_send_broadcast_async ssl rnd mem new_job user_data kr from_address subject body ttl_seconds now done ps =
     bind_outcome (build_legacy_broadcast ssl rnd kr from_address subject body ttl_seconds now) (\<lambda>built.
       case built of
         None \<Rightarrow> Done (-1, ps)
       | Some (payload, target) \<Rightarrow>
           if \<not> mem then Done (-1, ps)
           else bind_outcome (submit_pow False new_job user_data payload target None (Broadcast_pow_done done) ps) (\<lambda>(r, ps1).
             Done (submit_rc r, ps1)))"

definition broadcast_pow_done :: "'d \<Rightarrow> bytes option \<Rightarrow> int \<Rightarrow> 'd send_done_call" where
  "broadcast_pow_done done object now = (case object of None \<Rightarrow> (done, -1, None, now) | Some obj \<Rightarrow> (done, 0, Some obj, now))"

section \<open>The calls that wait\<close>

text \<open>
  With no queue the proofs of work run inside the calls. \<open>None\<close>: a search does not end. The callbacks
  receive the time of the submission.
\<close>

definition bm_send_pipeline_send_message ::
  "'b bignum \<Rightarrow> protocol_globals \<Rightarrow> openssl \<Rightarrow> pipe_env \<Rightarrow> bool \<times> bool \<Rightarrow> bool \<times> bool \<Rightarrow> keyring \<Rightarrow> identity_db \<Rightarrow> bytes \<Rightarrow> bytes
     \<Rightarrow> bytes \<Rightarrow> bytes \<Rightarrow> u64 \<Rightarrow> int \<Rightarrow> bytes option \<Rightarrow> int \<Rightarrow> int \<Rightarrow> pubkey_db \<times> messages_db
     \<Rightarrow> ((int \<times> bytes option) \<times> pubkey_db \<times> messages_db) option outcome" where
  "bm_send_pipeline_send_message bn g ssl env ok mem kr idb from_address to_address subject body ttl_seconds ack_stealth_level
       reuse_msg_id next_resend_time now s =
     (case s of (pdb, mdb) \<Rightarrow>
        bind_outcome (send_message_start bn ssl env kr idb from_address to_address subject body ttl_seconds
          ack_stealth_level reuse_msg_id next_resend_time now () pdb :: ((int + (unit, unit) pow_request) \<times> pubkey_db) outcome)
        (\<lambda>(r, pdb1).
          let finish = (\<lambda>job object. case msg_pow_done ssl ok job object now mdb of
                  ((_, rc, out, _), mdb1) \<Rightarrow> Done (Some ((if rc \<noteq> 0 then (-1, None) else (0, out)), pdb1, mdb1)));
              failed = Done (Some ((-1, None), pdb1, mdb))
          in case r of
               Inl rc \<Rightarrow> failed
             | Inr (payload, target, key, Msg_pow_done job) \<Rightarrow>
                 (case bm_pow_queue_submit_sync ssl (fst mem) payload target of None \<Rightarrow> Done None | Some object \<Rightarrow> finish job object)
             | Inr (payload, target, key, Ack_pow_done job) \<Rightarrow>
                 (case bm_pow_queue_submit_sync ssl (fst mem) payload target of
                    None \<Rightarrow> Done None
                  | Some ack \<Rightarrow>
                      bind_outcome (ack_msg_request g ssl env ack job :: (unit, unit) pow_request option outcome) (\<lambda>request.
                        case request of
                          Some (payload2, target2, key2, Msg_pow_done job2) \<Rightarrow>
                            (case bm_pow_queue_submit_sync ssl (snd mem) payload2 target2 of
                               None \<Rightarrow> Done None
                             | Some object \<Rightarrow> finish job2 object)
                        | _ \<Rightarrow> failed))
             | _ \<Rightarrow> failed))"

definition bm_send_pipeline_send_broadcast ::
  "openssl \<Rightarrow> ecies_random \<Rightarrow> bool \<times> bool \<Rightarrow> keyring \<Rightarrow> bytes \<Rightarrow> bytes \<Rightarrow> bytes \<Rightarrow> u64 \<Rightarrow> int \<Rightarrow> (int \<times> bytes option) option outcome" where
  "bm_send_pipeline_send_broadcast ssl rnd mem kr from_address subject body ttl_seconds now =
     bind_outcome (build_legacy_broadcast ssl rnd kr from_address subject body ttl_seconds now) (\<lambda>built.
       case built of
         None \<Rightarrow> Done (Some (-1, None))
       | Some (payload, target) \<Rightarrow>
           if \<not> fst mem then Done (Some (-1, None))
           else (case bm_pow_queue_submit_sync ssl (snd mem) payload target of
                   None \<Rightarrow> Done None
                 | Some object \<Rightarrow>
                     (case broadcast_pow_done () object now of (_, rc, out, _) \<Rightarrow>
                        Done (Some (if rc \<noteq> 0 then (-1, None) else (0, out))))))"

end
