(* ===== verification/Double.thy ===== *)
theory Double
  imports Bm_Prelude Complex_Main "HOL-Library.Log_Nat"
begin

text \<open>
  The part of C's floating-point numbers that \<open>src/common/json.c\<close> uses: IEEE doubles, \<open>strtod\<close> on
  decimal text, and the conversions \<open>%lld\<close> and \<open>%.17g\<close> of \<open>snprintf\<close>, in the C locale and with
  rounding to nearest. A finite double is its rational value, so the two zeros are one; \<open>strtod\<close> gives
  no NaN on decimal text.

  The main result is that seventeen significant digits determine a double.
\<close>

datatype double = Finite rat | Infinite bool

text \<open>The exponent of the greatest power of \<open>b\<close> that is at most \<open>q\<close>.\<close>

definition ilog :: "nat \<Rightarrow> rat \<Rightarrow> int" where
  "ilog b q = (if 1 \<le> q then int (floorlog b (nat \<lfloor>q\<rfloor>)) - 1 else - int (floorlog b (nat (\<lceil>1 / q\<rceil> - 1))))"

definition round_even :: "rat \<Rightarrow> int" where
  "round_even q =
     (let f = \<lfloor>q\<rfloor>; r = q - of_int f in if r < 1 / 2 \<or> r = 1 / 2 \<and> even f then f else f + 1)"

text \<open>53 bits of precision, down to the least subnormal number \<open>2 ^ -1074\<close>.\<close>

definition ulp_exp :: "rat \<Rightarrow> int" where
  "ulp_exp q = max (ilog 2 q - 52) (- 1074)"

definition round_double :: "rat \<Rightarrow> double" where
  "round_double q =
     (if q = 0 then Finite 0
      else let e = ulp_exp \<bar>q\<bar>;
               v = of_int (round_even (\<bar>q\<bar> / 2 powi e)) * 2 powi e
           in if 2 ^ 1024 \<le> v then Infinite (q < 0) else Finite (if q < 0 then - v else v))"

text \<open>The rational numbers that are doubles.\<close>

definition is_double :: "rat \<Rightarrow> bool" where
  "is_double q \<longleftrightarrow> round_double q = Finite q"

section \<open>Decimal text\<close>

abbreviation is_digit :: "byte \<Rightarrow> bool" where
  "is_digit b \<equiv> 48 \<le> b \<and> b \<le> 57"

definition digits_val :: "bytes \<Rightarrow> nat" where
  "digits_val ds = foldl (\<lambda>a d. 10 * a + (unat d - 48)) 0 ds"

fun dec :: "nat \<Rightarrow> bytes" where
  "dec n = (if n < 10 then [48 + of_nat n] else dec (n div 10) @ [48 + of_nat (n mod 10)])"

declare dec.simps [simp del]

text \<open>
  \<open>strtod\<close> on an optional sign, digits, an optional fraction and an optional exponent: the value of
  the longest such prefix, rounded.
\<close>

definition strtod_exp :: "bytes \<Rightarrow> int" where
  "strtod_exp s =
     (case s of
        [] \<Rightarrow> 0
      | c # t \<Rightarrow>
          if c = 101 \<or> c = 69 then
            (case t of
               [] \<Rightarrow> 0
             | sg # u \<Rightarrow>
                 if sg = 45 then - int (digits_val (takeWhile is_digit u))
                 else if sg = 43 then int (digits_val (takeWhile is_digit u))
                 else int (digits_val (takeWhile is_digit t)))
          else 0)"

definition strtod_unsigned :: "bytes \<Rightarrow> rat" where
  "strtod_unsigned s =
     (let i = takeWhile is_digit s; s1 = dropWhile is_digit s;
          f = (if s1 \<noteq> [] \<and> hd s1 = 46 then takeWhile is_digit (tl s1) else []);
          s2 = (if s1 \<noteq> [] \<and> hd s1 = 46 then dropWhile is_digit (tl s1) else s1)
      in of_nat (digits_val (i @ f)) * 10 powi (strtod_exp s2 - int (length f)))"

definition strtod :: "bytes \<Rightarrow> double" where
  "strtod s = (if s \<noteq> [] \<and> hd s = 45 then round_double (- strtod_unsigned (tl s)) else round_double (strtod_unsigned s))"

text \<open>\<open>%lld\<close>\<close>

definition fmt_lld :: "int \<Rightarrow> bytes" where
  "fmt_lld i = (if i < 0 then 45 # dec (nat (- i)) else dec (nat i))"

text \<open>
  \<open>%.17g\<close> of a number that is not zero: the seventeen digits and the exponent, and their text with
  the trailing zeros removed, in scientific form when the exponent is less than -4 or at least 17.
\<close>

definition sig_digits :: "rat \<Rightarrow> nat \<times> int" where
  "sig_digits q =
     (let x = ilog 10 q; n = nat (round_even (q / 10 powi (x - 16)))
      in if n = 10 ^ 17 then (10 ^ 16, x + 1) else (n, x))"

definition strip_zeros :: "bytes \<Rightarrow> bytes" where
  "strip_zeros ds = rev (dropWhile (\<lambda>d. d = 48) (rev ds))"

definition point_text :: "bytes \<Rightarrow> bytes \<Rightarrow> bytes" where
  "point_text i f = (let f' = strip_zeros f in if f' = [] then i else i @ 46 # f')"

definition exp_text :: "int \<Rightarrow> bytes" where
  "exp_text x =
     (let ds = dec (nat \<bar>x\<bar>)
      in 101 # (if x < 0 then 45 else 43) # (if length ds < 2 then 48 # ds else ds))"

definition fmt_g17 :: "rat \<Rightarrow> bytes" where
  "fmt_g17 q =
     (let (n, x) = sig_digits \<bar>q\<bar>; ds = dec n;
          body =
            (if - 4 \<le> x \<and> x < 17
             then if 0 \<le> x then point_text (take (nat x + 1) ds) (drop (nat x + 1) ds)
                  else point_text [48] (replicate (nat (- x - 1)) 48 @ ds)
             else point_text (take 1 ds) (drop 1 ds) @ exp_text x)
      in if q < 0 then 45 # body else body)"

section \<open>Rounding\<close>

lemma ilog_bounds:
  assumes "1 < b" "0 < q"
  shows "of_nat b powi ilog b q \<le> q" "q < of_nat b powi (ilog b q + 1)"
proof -
  have b: "(of_nat b :: rat) \<noteq> 0" using assms(1) by simp
  have "of_nat b powi ilog b q \<le> q \<and> q < of_nat b powi (ilog b q + 1)"
  proof (cases "1 \<le> q")
    case True
    let ?n = "nat \<lfloor>q\<rfloor>" let ?l = "floorlog b ?n"
    have pos: "0 < ?n" using True by simp
    have l: "0 < ?l" using pos assms(1) floorlog_eq_zero_iff [of b ?n] by auto
    have n: "(of_nat ?n :: rat) = of_int \<lfloor>q\<rfloor>" using True by simp
    note fb = floorlog_bounds [OF pos assms(1)]
    have "(of_nat (b ^ (?l - 1)) :: rat) \<le> of_nat ?n" using fb by (simp only: of_nat_le_iff)
    then have lo: "of_nat b ^ (?l - 1) \<le> q" unfolding n by (simp add: le_floor_iff) linarith
    have "?n + 1 \<le> b ^ ?l" using fb by simp
    then have "(of_nat (?n + 1) :: rat) \<le> of_nat (b ^ ?l)" by (simp only: of_nat_le_iff)
    then have "of_int \<lfloor>q\<rfloor> + 1 \<le> (of_nat b ^ ?l :: rat)" using n by simp
    then have hi: "q < of_nat b ^ ?l" using floor_correct [of q] by linarith
    have "ilog b q = int (?l - 1)" "ilog b q + 1 = int ?l" using True l by (simp_all add: ilog_def)
    then show ?thesis using lo hi by (simp only: power_int_of_nat)
  next
    case False
    let ?r = "1 / q" let ?n = "nat (\<lceil>?r\<rceil> - 1)" let ?l = "floorlog b ?n"
    have r: "1 < ?r" using False assms(2) by simp
    then have c: "1 < \<lceil>?r\<rceil>" by (simp add: less_ceiling_iff)
    then have pos: "0 < ?n" by simp
    have "0 \<le> \<lceil>?r\<rceil> - 1" using c by linarith
    then have "int ?n = \<lceil>?r\<rceil> - 1" by (rule nat_0_le)
    then have "(of_int (int ?n) :: rat) = of_int (\<lceil>?r\<rceil> - 1)" by (simp only:)
    then have n: "(of_nat ?n :: rat) = of_int \<lceil>?r\<rceil> - 1" by (simp only: of_int_of_nat_eq of_int_diff of_int_1)
    have l: "0 < ?l" using pos assms(1) floorlog_eq_zero_iff [of b ?n] by auto
    note fb = floorlog_bounds [OF pos assms(1)]
    have "(of_nat (b ^ (?l - 1)) :: rat) \<le> of_nat ?n" using fb by (simp only: of_nat_le_iff)
    then have lo: "of_nat b ^ (?l - 1) < ?r" unfolding n using ceiling_correct [of ?r] by simp
    have "?n + 1 \<le> b ^ ?l" using fb by simp
    then have "(of_nat (?n + 1) :: rat) \<le> of_nat (b ^ ?l)" by (simp only: of_nat_le_iff)
    then have hi: "?r \<le> of_nat b ^ ?l" using n le_of_int_ceiling [of ?r] by (simp only: of_nat_add of_nat_power of_nat_1)
    have e: "ilog b q = - int ?l" "ilog b q + 1 = - int (?l - 1)" using False l by (simp_all add: ilog_def)
    have bp: "0 < (of_nat b :: rat)" using assms(1) by simp
    have "of_nat b powi ilog b q \<le> q"
      unfolding e(1) power_int_minus power_int_of_nat using hi assms(2) bp by (simp add: field_simps)
    moreover have "q < of_nat b powi (ilog b q + 1)"
      unfolding e(2) power_int_minus power_int_of_nat using lo assms(2) bp by (simp add: field_simps)
    ultimately show ?thesis ..
  qed
  then show "of_nat b powi ilog b q \<le> q" "q < of_nat b powi (ilog b q + 1)" by simp_all
qed

lemma ilog_unique:
  assumes "1 < b" "0 < q" "of_nat b powi k \<le> q" "q < of_nat b powi (k + 1)"
  shows "ilog b q = k"
proof (rule antisym)
  have b: "1 < (of_nat b :: rat)" using assms(1) by simp
  note i = ilog_bounds [OF assms(1,2)]
  have "of_nat b powi ilog b q < (of_nat b powi (k + 1) :: rat)" using i(1) assms(4) by linarith
  then show "ilog b q \<le> k" using b power_int_increasing [of "k + 1" "ilog b q" "of_nat b :: rat"] by fastforce
  have "of_nat b powi k < (of_nat b powi (ilog b q + 1) :: rat)" using i(2) assms(3) by linarith
  then show "k \<le> ilog b q" using b power_int_increasing [of "ilog b q + 1" k "of_nat b :: rat"] by fastforce
qed

lemma round_even_int [simp]: "round_even (of_int m) = m"
  by (simp add: round_even_def)

lemma round_even_near:
  assumes "\<bar>q - of_int m\<bar> < 1 / 2"
  shows "round_even q = m"
proof (cases "of_int m \<le> q")
  case True
  then have "\<lfloor>q\<rfloor> = m" using assms by (intro floor_unique) auto
  then show ?thesis using assms True by (simp add: round_even_def Let_def)
next
  case False
  then have "\<lfloor>q\<rfloor> = m - 1" using assms by (intro floor_unique) auto
  then show ?thesis using assms False by (simp add: round_even_def Let_def field_simps)
qed

lemma round_even_error: "\<bar>of_int (round_even q) - q\<bar> \<le> 1 / 2"
  using floor_correct [of q] by (auto simp: round_even_def Let_def field_simps abs_le_iff)

lemma round_double_grid:
  assumes "0 < y" "x = of_int m * 2 powi ulp_exp y" "\<bar>y - x\<bar> < 2 powi ulp_exp y / 2" "x < 2 ^ 1024"
  shows "round_double y = Finite x"
proof -
  let ?u = "2 powi ulp_exp y :: rat"
  have u: "0 < ?u" by simp
  have "y / ?u - of_int m = (y - x) / ?u" using u assms(2) by (simp add: diff_divide_distrib)
  then have "\<bar>y / ?u - of_int m\<bar> = \<bar>y - x\<bar> / ?u" by (simp only: abs_divide abs_of_pos [OF u])
  also have "\<dots> < 1 / 2" using assms(3) u by (simp add: divide_less_eq)
  finally have "round_even (y / ?u) = m" by (rule round_even_near)
  then show ?thesis using assms(1,2,4) by (simp add: round_double_def)
qed

lemma is_double_grid:
  assumes "is_double x" "0 < x"
  obtains m where "x = of_int m * 2 powi ulp_exp x" "x < 2 ^ 1024"
proof -
  let ?v = "of_int (round_even (x / 2 powi ulp_exp x)) * 2 powi ulp_exp x :: rat"
  have sgn: "\<bar>x\<bar> = x" "(x = 0) = False" "(x < 0) = False" using assms(2) by simp_all
  have "(if 2 ^ 1024 \<le> ?v then Infinite False else Finite ?v) = Finite x"
    using assms(1) unfolding is_double_def round_double_def Let_def sgn if_False .
  then have "?v = x" "\<not> 2 ^ 1024 \<le> ?v" by (simp_all split: if_splits)
  then show thesis using that by (metis not_le)
qed

lemma round_double_uminus:
  "round_double (- q) = (case round_double q of Finite x \<Rightarrow> Finite (- x) | Infinite s \<Rightarrow> Infinite (\<not> s))"
  by (auto simp: round_double_def Let_def)

lemma is_double_uminus: "is_double (- q) = is_double q"
  by (cases "round_double q") (auto simp: is_double_def round_double_uminus)

text \<open>The numbers of a binade are multiples of its unit in the last place.\<close>

lemma powi_multiple:
  assumes "e \<le> k"
  obtains j :: int where "(2 :: rat) powi k = of_int j * 2 powi e"
proof -
  have "(2 :: rat) powi k = 2 powi (int (nat (k - e))) * 2 powi e"
    using assms by (simp flip: power_int_add)
  then have "(2 :: rat) powi k = of_int (2 ^ nat (k - e)) * 2 powi e" by (simp only: power_int_of_nat of_int_power of_int_numeral)
  then show thesis by (rule that)
qed

lemma grid_less:
  assumes "(of_int a * u :: rat) < of_int b * u" "0 < u"
  shows "of_int a * u + u \<le> of_int b * u"
proof -
  have "a < b" using assms by (simp add: mult_less_cancel_right_disj)
  then have "(of_int (a + 1) :: rat) \<le> of_int b" by (simp only: of_int_le_iff)
  then have "of_int (a + 1) * u \<le> of_int b * u" using assms(2) by (intro mult_right_mono) simp_all
  then show ?thesis by (simp add: algebra_simps)
qed

text \<open>A number that differs from a double by less than one part in \<open>2 * 10 ^ 16\<close> is rounded to it.\<close>

lemma round_double_near:
  assumes x: "is_double x" "0 < x" and near: "\<bar>y - x\<bar> * (2 * 10 ^ 16) \<le> x"
  shows "round_double y = Finite x"
proof -
  obtain m where m: "x = of_int m * 2 powi ulp_exp x" and big: "x < 2 ^ 1024" by (rule is_double_grid [OF x])
  define k where "k = ilog 2 x"
  define e where "e = ulp_exp x"
  define u where "u = (2 powi e :: rat)"
  have u: "0 < u" by (simp add: u_def)
  have kb: "2 powi k \<le> x" "x < 2 powi (k + 1)" using ilog_bounds [of 2 x] x(2) by (simp_all add: k_def)
  have e: "e = max (k - 52) (- 1074)" by (simp add: e_def k_def ulp_exp_def)
  have xm: "x = of_int m * u" using m by (simp add: e_def u_def)
  have mpos: "1 \<le> m" using x(2) xm u by (simp add: zero_less_mult_iff)
  have half: "x * 2 ^ 52 < 2 powi k * 2 ^ 53"  using kb(2) by (simp add: power_int_add)
  have ku: "2 powi k \<le> u * 2 ^ 52"
  proof -
    have "(2 :: rat) powi k \<le> 2 powi (e + 52)" using e by (intro power_int_increasing) auto
    then show ?thesis by (simp add: power_int_add u_def)
  qed
  have small: "\<bar>y - x\<bar> < u / 2"
  proof -
    have "x < u * 2 ^ 53" using half ku by simp
    then show ?thesis using near u by simp
  qed
  have ypos: "0 < y" using near x(2) by (simp add: abs_le_iff abs_if split: if_splits)
  have ke: "e \<le> k" 
  proof (rule ccontr)
    assume "\<not> e \<le> k"
    then have "2 powi (k + 1) \<le> u" unfolding u_def by (intro power_int_increasing) auto
    moreover have "u \<le> x" using mpos xm u by simp
    ultimately show False using kb(2) by simp
  qed
  obtain j where j: "(2 :: rat) powi k = of_int j * u" unfolding u_def by (rule powi_multiple [OF ke])
  obtain j' where j': "(2 :: rat) powi (k + 1) = of_int j' * u" unfolding u_def using powi_multiple [of e "k + 1"] ke by (metis zle_add1_eq_le order.strict_iff_order)
  have hi: "y < 2 powi (k + 1)"
    using grid_less [of m u j'] kb(2) small u unfolding xm [symmetric] j' [symmetric] by linarith
  have same: ?thesis if "ulp_exp y = e"
    using round_double_grid [OF ypos _ _ big, of m] xm small unfolding that u_def [symmetric] by blast
  show ?thesis
  proof (cases "2 powi k \<le> y")
    case True
    then have "ilog 2 y = k" using hi ypos by (intro ilog_unique) simp_all
    then show ?thesis by (intro same) (simp add: ulp_exp_def e)
  next
    case False
    have x': "x = 2 powi k"
      using grid_less [of j u m] kb(1) small u False unfolding xm [symmetric] j [symmetric] by linarith
    have lo: "2 powi (k - 1) \<le> y"
    proof -
      have "2 powi (k - 1) = x / 2" unfolding x' by (simp add: power_int_diff)
      then show ?thesis using near x(2) by (simp add: abs_if split: if_splits)
    qed
    have "ilog 2 y = k - 1" using False lo ypos by (intro ilog_unique) simp_all
    then have e': "ulp_exp y = (if e = - 1074 then e else e - 1)" by (auto simp: ulp_exp_def e max_def)
    show ?thesis
    proof (cases "e = - 1074")
      case True
      then show ?thesis using e' by (intro same) simp
    next
      case False
      then have "e = k - 52" using e by (auto simp: max_def split: if_splits)
      then have "x = u * 2 ^ 52" using x' by (simp add: power_int_diff u_def)
      then have "\<bar>y - x\<bar> < u / 2 / 2" using near u by simp
      moreover have "2 powi ulp_exp y = u / 2" using e' False by (simp add: power_int_diff u_def)
      ultimately show ?thesis using round_double_grid [OF ypos, of x "2 * m"] xm big by simp
    qed
  qed
qed

section \<open>Digits\<close>

lemma digits_val_append: "digits_val (ds @ es) = digits_val ds * 10 ^ length es + digits_val es"
proof (induction es rule: rev_induct)
  case Nil
  then show ?case by (simp add: digits_val_def)
next
  case (snoc e es)
  have "digits_val ((ds @ es) @ [e]) = 10 * digits_val (ds @ es) + (unat e - 48)"
    "digits_val (es @ [e]) = 10 * digits_val es + (unat e - 48)" by (simp_all add: digits_val_def)
  with snoc show ?case by (simp add: algebra_simps)
qed

lemma digits_val_simps [simp]: "digits_val [] = 0" "digits_val [d] = unat d - 48"
  by (simp_all add: digits_val_def)

lemma digits_val_zeros [simp]: "digits_val (replicate k 48) = 0"
proof (induction k)
  case (Suc k)
  then show ?case using digits_val_append [of "[48]" "replicate k 48"] by simp
qed simp

lemma digit_of_nat: "k < 10 \<Longrightarrow> unat (48 + of_nat k :: byte) = 48 + k"
  by (simp add: unat_word_ariths unat_of_nat)

lemma digit_range: "k < 10 \<Longrightarrow> is_digit (48 + of_nat k :: byte)"
  by (simp add: word_le_nat_alt digit_of_nat)

lemma dec_val [simp]: "digits_val (dec n) = n"
proof (induction n rule: dec.induct)
  case (1 n)
  show ?case
  proof (cases "n < 10")
    case True
    then show ?thesis by (subst dec.simps) (simp add: digit_of_nat)
  next
    case False
    then have "digits_val (dec n) = digits_val (dec (n div 10)) * 10 + n mod 10"
      by (subst dec.simps) (simp add: digits_val_append digit_of_nat)
    then show ?thesis using 1 [OF False] by simp
  qed
qed

lemma dec_digits: "d \<in> set (dec n) \<Longrightarrow> is_digit d"
proof (induction n rule: dec.induct)
  case (1 n)
  then show ?case by (subst (asm) (2) dec.simps) (auto simp: digit_range split: if_splits)
qed

lemma dec_nonempty [simp]: "dec n \<noteq> []"
  by (subst dec.simps) simp

lemma dec_length: "10 ^ k \<le> n \<Longrightarrow> n < 10 ^ Suc k \<Longrightarrow> length (dec n) = Suc k"
proof (induction k arbitrary: n)
  case 0
  then show ?case by (subst dec.simps) simp
next
  case (Suc k)
  have "1 \<le> (10 ^ k :: nat)" by simp
  then have "\<not> n < 10" using Suc.prems(1) unfolding power_Suc by linarith
  moreover have "10 ^ k \<le> n div 10" "n div 10 < 10 ^ Suc k" using Suc.prems by (simp_all add: less_mult_imp_div_less mult.commute)
  ultimately show ?case using Suc.IH [of "n div 10"] by (subst dec.simps) simp
qed

lemma strip_zeros_split: obtains k where "ds = strip_zeros ds @ replicate k 48"
proof -
  let ?k = "length (takeWhile (\<lambda>d. d = 48) (rev ds))"
  have "rev ds = replicate ?k 48 @ dropWhile (\<lambda>d. d = 48) (rev ds)"
    unfolding takeWhile_eq_replicate [symmetric] by simp
  then have "rev (rev ds) = rev (replicate ?k 48 @ dropWhile (\<lambda>d. d = 48) (rev ds))" by (rule arg_cong)
  then have "ds = strip_zeros ds @ replicate ?k 48" by (simp only: strip_zeros_def rev_rev_ident rev_append rev_replicate)
  then show thesis by (rule that)
qed

section \<open>Numbers as text\<close>

definition num_text :: "bool \<Rightarrow> bytes \<Rightarrow> bytes \<Rightarrow> bytes \<Rightarrow> bytes" where
  "num_text neg i f ex = (if neg then [45] else []) @ i @ (if f = [] then [] else 46 # f) @ ex"

definition exp_shape :: "bytes \<Rightarrow> bool" where
  "exp_shape ex \<longleftrightarrow> (\<exists>s ds. ex = 101 # s # ds \<and> (s = 43 \<or> s = 45) \<and> ds \<noteq> [] \<and> (\<forall>d\<in>set ds. is_digit d))"

definition num_shape :: "bytes \<Rightarrow> bytes \<Rightarrow> bytes \<Rightarrow> bool" where
  "num_shape i f ex \<longleftrightarrow> i \<noteq> [] \<and> (\<forall>d\<in>set i. is_digit d) \<and> (\<forall>d\<in>set f. is_digit d) \<and> (ex = [] \<or> exp_shape ex)"

lemma span_digits:
  assumes "\<forall>d\<in>set ds. is_digit d" "s = [] \<or> \<not> is_digit (hd s)"
  shows "takeWhile is_digit (ds @ s) = ds" "dropWhile is_digit (ds @ s) = s"
proof -
  have s: "takeWhile is_digit s = []" "dropWhile is_digit s = s" using assms(2) by (cases s; auto)+
  have "takeWhile is_digit (ds @ s) = ds \<and> dropWhile is_digit (ds @ s) = s"
    using assms(1) by (induction ds) (simp_all add: s)
  then show "takeWhile is_digit (ds @ s) = ds" "dropWhile is_digit (ds @ s) = s" by simp_all
qed

lemma strtod_num_text:
  assumes "num_shape i f ex"
  shows "strtod (num_text neg i f ex) =
    round_double ((if neg then - 1 else 1) * (of_nat (digits_val (i @ f)) * 10 powi (strtod_exp ex - int (length f))))"
proof -
  have i: "i \<noteq> []" "\<forall>d\<in>set i. is_digit d" and f: "\<forall>d\<in>set f. is_digit d" and ex: "ex = [] \<or> \<not> is_digit (hd ex)" "ex = [] \<or> hd ex \<noteq> 46"
    using assms by (auto simp: num_shape_def exp_shape_def)
  let ?p = "if f = [] then [] else 46 # f"
  have p: "?p @ ex = [] \<or> \<not> is_digit (hd (?p @ ex))" using ex by (cases "f = []") simp_all
  note sp = span_digits [OF i(2) p]
  have u: "strtod_unsigned (i @ ?p @ ex) = of_nat (digits_val (i @ f)) * 10 powi (strtod_exp ex - int (length f))"
  proof (cases "f = []")
    case True
    then show ?thesis using sp ex(2) by (auto simp add: strtod_unsigned_def Let_def)
  next
    case False
    then show ?thesis using sp span_digits [OF f ex(1)] by (simp add: strtod_unsigned_def Let_def)
  qed
  have h: "hd (i @ ?p @ ex) \<noteq> 45" using i by (cases i) auto
  show ?thesis
  proof (cases neg)
    case True
    then show ?thesis using u by (simp add: strtod_def num_text_def)
  next
    case False
    then show ?thesis using u h i(1) by (simp add: strtod_def num_text_def)
  qed
qed

lemma strtod_exp_text: "strtod_exp (exp_text x) = x" "exp_shape (exp_text x)" "strtod_exp [] = 0"
proof -
  have all: "takeWhile is_digit ds = ds" if "\<forall>d\<in>set ds. is_digit d" for ds using span_digits(1) [OF that, of "[]"] by simp
  have d: "\<forall>d\<in>set (dec (nat \<bar>x\<bar>)). is_digit d" using dec_digits by blast
  have z: "digits_val (48 # ds) = digits_val ds" for ds using digits_val_append [of "[48]" ds] by simp
  define t where "t = (if length (dec (nat \<bar>x\<bar>)) < 2 then 48 # dec (nat \<bar>x\<bar>) else dec (nat \<bar>x\<bar>))"
  have t: "\<forall>d\<in>set t. is_digit d" "digits_val t = nat \<bar>x\<bar>" "t \<noteq> []" using d z by (auto simp: t_def)
  have e: "exp_text x = 101 # (if x < 0 then 45 else 43) # t" by (simp only: exp_text_def Let_def t_def)
  show "strtod_exp (exp_text x) = x" unfolding e strtod_exp_def list.case all [OF t(1)] using t(2) by simp
  show "exp_shape (exp_text x)" unfolding e exp_shape_def using t(1,3) by auto
  show "strtod_exp [] = 0" by (simp add: strtod_exp_def)
qed

text \<open>Removing the zeros at the end of the fraction keeps the value.\<close>

lemma point_text_shape:
  assumes "i \<noteq> []" "\<forall>d\<in>set i. is_digit d" "\<forall>d\<in>set f. is_digit d" "ex = [] \<or> exp_shape ex"
  shows "num_shape i (strip_zeros f) ex" "point_text i f @ ex = num_text False i (strip_zeros f) ex"
    "of_nat (digits_val (i @ strip_zeros f)) * 10 powi (x - int (length (strip_zeros f))) =
      (of_nat (digits_val (i @ f)) * 10 powi (x - int (length f)) :: rat)"
proof -
  obtain k where k: "f = strip_zeros f @ replicate k 48" by (rule strip_zeros_split)
  have "set (strip_zeros f) \<subseteq> set f" by (subst (2) k) auto
  then show "num_shape i (strip_zeros f) ex" using assms by (auto simp: num_shape_def)
  show "point_text i f @ ex = num_text False i (strip_zeros f) ex" by (simp add: point_text_def num_text_def Let_def)
  have "digits_val (i @ f) = digits_val (i @ strip_zeros f) * 10 ^ k"
    by (subst (1) k) (simp add: digits_val_append [of "i @ strip_zeros f" "replicate k 48", simplified])
  moreover have "int (length f) = int (length (strip_zeros f)) + int k" by (subst (1) k) simp
  ultimately show "of_nat (digits_val (i @ strip_zeros f)) * 10 powi (x - int (length (strip_zeros f))) =
      (of_nat (digits_val (i @ f)) * 10 powi (x - int (length f)) :: rat)"
    by (simp add: power_int_diff power_int_add)
qed

lemma num_text_neg: "num_text True i f ex = 45 # num_text False i f ex"
  by (simp add: num_text_def)

lemma sig_digits_near:
  assumes "0 < q" "sig_digits q = (n, x)"
  shows "length (dec n) = 17" "\<bar>of_nat n * 10 powi (x - 16) - q\<bar> * (2 * 10 ^ 16) \<le> q"
proof -
  define x0 where "x0 = ilog 10 q"
  define s where "s = (10 powi (x0 - 16) :: rat)"
  define t where "t = q / s"
  define n0 where "n0 = round_even t"
  have s: "0 < s" by (simp add: s_def)
  have "10 powi x0 \<le> q" "q < 10 powi (x0 + 1)" using ilog_bounds [of 10 q] assms(1) by (simp_all add: x0_def)
  then have b: "s * 10 ^ 16 \<le> q" "q < s * 10 ^ 17" by (simp_all add: s_def power_int_diff power_int_add)
  then have t: "10 ^ 16 \<le> t" "t < 10 ^ 17" using s by (simp_all add: t_def field_simps)
  have r: "\<bar>of_int n0 - t\<bar> \<le> 1 / 2" unfolding n0_def by (rule round_even_error)
  have "of_int n0 - t \<le> 1 / 2" "t - of_int n0 \<le> 1 / 2" using r by (simp_all only: abs_le_iff minus_diff_eq)
  then have "10 ^ 16 - 1 < (of_int n0 :: rat)" "(of_int n0 :: rat) < 10 ^ 17 + 1" using t by linarith+
  then have "of_int (10 ^ 16 - 1) < (of_int n0 :: rat)" "(of_int n0 :: rat) < of_int (10 ^ 17 + 1)"
    by (simp_all only: of_int_diff of_int_add of_int_power of_int_numeral of_int_1)
  then have n0: "10 ^ 16 \<le> n0" "n0 \<le> 10 ^ 17" unfolding of_int_less_iff by simp_all
  have near: "\<bar>of_int n0 * s - q\<bar> * (2 * 10 ^ 16) \<le> q"
  proof -
    have "of_int n0 * s - q = (of_int n0 - t) * s" using s by (simp add: t_def algebra_simps)
    then have "\<bar>of_int n0 * s - q\<bar> = \<bar>of_int n0 - t\<bar> * s" using s by (simp add: abs_mult)
    also have "\<dots> \<le> 1 / 2 * s" using r s by (intro mult_right_mono) simp_all
    finally show ?thesis using b(1) by simp
  qed
  have sd: "(n, x) = (if nat n0 = 10 ^ 17 then (10 ^ 16, x0 + 1) else (nat n0, x0))"
    using assms(2) unfolding sig_digits_def Let_def x0_def [symmetric] s_def [symmetric] t_def [symmetric] n0_def [symmetric] by (rule sym)
  have val: "of_nat n * 10 powi (x - 16) = (of_int n0 * s :: rat)" and n: "10 ^ 16 \<le> n" "n < 10 ^ Suc 16"
  proof -
    show "of_nat n * 10 powi (x - 16) = (of_int n0 * s :: rat)"
    proof (cases "nat n0 = 10 ^ 17")
      case True
      then have "n0 = 10 ^ 17" using n0 by simp
      then show ?thesis using sd by (simp add: s_def power_int_diff power_int_add)
    next
      case False
      then show ?thesis using sd n0 by (simp add: s_def)
    qed
    show "10 ^ 16 \<le> n" using sd n0 by (simp split: if_splits)
    have "nat n0 \<noteq> 10 ^ 17 \<longrightarrow> nat n0 < 10 ^ 17" using n0 nat_mono [OF n0(2)] by simp
    then show "n < 10 ^ Suc 16" using sd by (simp split: if_splits)
  qed
  show "length (dec n) = 17" using dec_length [OF n] by simp
  show "\<bar>of_nat n * 10 powi (x - 16) - q\<bar> * (2 * 10 ^ 16) \<le> q" unfolding val by (rule near)
qed

lemma fmt_g17_text:
  assumes "q \<noteq> 0" "sig_digits \<bar>q\<bar> = (n, x)"
  shows "\<exists>i f ex. fmt_g17 q = num_text (q < 0) i f ex \<and> num_shape i f ex \<and>
    of_nat (digits_val (i @ f)) * 10 powi (strtod_exp ex - int (length f)) = (of_nat n * 10 powi (x - 16) :: rat)"
proof -
  let ?ds = "dec n"
  have len: "length ?ds = 17" using sig_digits_near(1) [OF _ assms(2)] assms(1) by simp
  have dig: "\<forall>d\<in>set ?ds. is_digit d" using dec_digits by blast
  then have part: "\<forall>d\<in>set (take k ?ds). is_digit d" "\<forall>d\<in>set (drop k ?ds). is_digit d" for k
    by (auto dest: in_set_takeD in_set_dropD)
  obtain i f ex where body: "(if - 4 \<le> x \<and> x < 17
        then if 0 \<le> x then point_text (take (nat x + 1) ?ds) (drop (nat x + 1) ?ds)
             else point_text [48] (replicate (nat (- x - 1)) 48 @ ?ds)
        else point_text (take 1 ?ds) (drop 1 ?ds) @ exp_text x) = point_text i f @ ex"
    and shape: "i \<noteq> []" "\<forall>d\<in>set i. is_digit d" "\<forall>d\<in>set f. is_digit d" "ex = [] \<or> exp_shape ex"
    and val: "digits_val (i @ f) = n" "strtod_exp ex - int (length f) = x - 16"
  proof (cases "- 4 \<le> x \<and> x < 17")
    case True
    show thesis
    proof (cases "0 \<le> x")
      case nonneg: True
      show thesis
        by (rule that [of "take (nat x + 1) ?ds" "drop (nat x + 1) ?ds" "[]"])
          (use True nonneg part len in \<open>auto simp: strtod_exp_text\<close>)
    next
      case False
      have "digits_val ([48] @ replicate k 48 @ ?ds) = n" for k
        using digits_val_append [of "replicate (Suc k) 48" ?ds] digits_val_zeros [of "Suc k"] by simp
      then show thesis
        by (intro that [of "[48]" "replicate (nat (- x - 1)) 48 @ ?ds" "[]"])
          (use True False dig len in \<open>auto simp: strtod_exp_text\<close>)
    qed
  next
    case False
    show thesis
      by (rule that [of "take 1 ?ds" "drop 1 ?ds" "exp_text x"]) (use False part [of 1] len in \<open>auto simp: strtod_exp_text\<close>)
  qed
  note pt = point_text_shape(1,2) [OF shape] point_text_shape(3) [OF shape, of "strtod_exp ex"]
  have "fmt_g17 q = num_text (q < 0) i (strip_zeros f) ex"
    unfolding fmt_g17_def assms(2) Let_def split body pt(2) by (simp add: num_text_neg)
  then show ?thesis using pt(1,3) val by (intro exI conjI) auto
qed

text \<open>Seventeen significant digits determine a double.\<close>

lemma strtod_fmt_g17:
  assumes "is_double q" "q \<noteq> 0"
  shows "\<exists>i f ex. fmt_g17 q = num_text (q < 0) i f ex \<and> num_shape i f ex" "strtod (fmt_g17 q) = Finite q"
proof -
  obtain n x where nx: "sig_digits \<bar>q\<bar> = (n, x)" by (cases "sig_digits \<bar>q\<bar>")
  obtain i f ex where t: "fmt_g17 q = num_text (q < 0) i f ex" "num_shape i f ex"
    "of_nat (digits_val (i @ f)) * 10 powi (strtod_exp ex - int (length f)) = (of_nat n * 10 powi (x - 16) :: rat)"
    using fmt_g17_text [OF assms(2) nx] by (elim exE conjE) (rule that)
  show "\<exists>i f ex. fmt_g17 q = num_text (q < 0) i f ex \<and> num_shape i f ex" using t by blast
  have d: "is_double \<bar>q\<bar>" using assms(1) by (simp add: abs_if is_double_uminus)
  have r: "round_double (of_nat n * 10 powi (x - 16)) = Finite \<bar>q\<bar>"
    using round_double_near [OF d _ sig_digits_near(2) [OF _ nx]] assms(2) by simp
  have "strtod (fmt_g17 q) = round_double ((if q < 0 then - 1 else 1) * (of_nat n * 10 powi (x - 16)))"
    unfolding t(1) strtod_num_text [OF t(2)] t(3) ..
  also have "\<dots> = Finite q" using r round_double_uminus [of "of_nat n * 10 powi (x - 16)"] by (cases "q < 0") simp_all
  finally show "strtod (fmt_g17 q) = Finite q" .
qed

lemma fmt_lld_text:
  "fmt_lld z = num_text (z < 0) (dec (nat \<bar>z\<bar>)) [] []" "num_shape (dec (nat \<bar>z\<bar>)) [] []"
  "strtod (fmt_lld z) = round_double (of_int z)"
proof -
  let ?i = "dec (nat \<bar>z\<bar>)"
  show t: "fmt_lld z = num_text (z < 0) ?i [] []" "num_shape ?i [] []"
    using dec_digits by (auto simp: fmt_lld_def num_text_def num_shape_def abs_if)
  have "strtod (fmt_lld z) = round_double ((if z < 0 then - 1 else 1) * of_nat (nat \<bar>z\<bar>))"
    unfolding t(1) strtod_num_text [OF t(2)] by (simp add: strtod_exp_text)
  also have "(if z < 0 then - 1 else 1) * of_nat (nat \<bar>z\<bar>) = (of_int z :: rat)" by simp
  finally show "strtod (fmt_lld z) = round_double (of_int z)" .
qed

end
