(* ===== verification/Peer_Manager.thy ===== *)
theory Peer_Manager
  imports Double
begin

text \<open>
  The known peers (\<open>src/core/peer_manager.c\<close>): the table \<open>hosts\<close> of SQLite with the address, port and
  stream as its key, as the list of its rows in the order of insertion. \<open>ok\<close> says whether SQLite carries
  out a statement. Ratings are doubles.

  The theory shows that the keys stay unique and the ratings within -1 and 1, that hearsay does not touch
  a rating, and which peers may be connected to or named to others.
\<close>

abbreviation BM_PEER_CLEANUP_MAX_AGE_SECONDS :: int where "BM_PEER_CLEANUP_MAX_AGE_SECONDS \<equiv> 28 * 24 * 60 * 60"
abbreviation BM_PEER_CLEANUP_MIN_AGE_SECONDS :: int where "BM_PEER_CLEANUP_MIN_AGE_SECONDS \<equiv> 3 * 60 * 60"
abbreviation BM_PEER_SHARE_MAX_AGE_SECONDS :: int where "BM_PEER_SHARE_MAX_AGE_SECONDS \<equiv> 3 * 60 * 60"

section \<open>The table\<close>

record host_row =
  hr_ip_address :: bytes
  hr_port :: int
  hr_stream :: int
  hr_services :: u64
  hr_last_seen :: int
  hr_rating :: rat
  hr_source :: bytes
  hr_is_self :: int
  hr_last_attempt :: int

type_synonym peers_db = "host_row list"

record bm_peer_entry =
  bp_ip_address :: bytes
  bp_port :: int
  bp_stream :: int
  bp_services :: u64
  bp_last_seen :: int
  bp_rating :: rat
  bp_source :: bytes
  bp_last_attempt :: int

definition host_key :: "host_row \<Rightarrow> bytes \<times> int \<times> int" where
  "host_key r = (hr_ip_address r, hr_port r, hr_stream r)"

text \<open>\<open>INSERT \<dots> ON CONFLICT DO UPDATE\<close>: the row is added, or the row with its key is changed.\<close>

definition insert_or_update :: "host_row \<Rightarrow> (host_row \<Rightarrow> host_row) \<Rightarrow> peers_db \<Rightarrow> peers_db" where
  "insert_or_update row f db =
     (if host_key row \<in> host_key ` set db then map (\<lambda>r. if host_key r = host_key row then f r else r) db else db @ [row])"

definition bm_peer_manager_upsert :: "bool \<Rightarrow> bm_peer_entry \<Rightarrow> peers_db \<Rightarrow> int \<times> peers_db" where
  "bm_peer_manager_upsert ok e db =
     (if \<not> ok then (-1, db)
      else (0, insert_or_update
        \<lparr>hr_ip_address = c_str (bp_ip_address e), hr_port = bp_port e, hr_stream = bp_stream e, hr_services = bp_services e,
         hr_last_seen = bp_last_seen e, hr_rating = bp_rating e, hr_source = c_str (bp_source e), hr_is_self = 0, hr_last_attempt = 0\<rparr>
        (\<lambda>r. r\<lparr>hr_services := bp_services e, hr_last_seen := bp_last_seen e, hr_rating := bp_rating e, hr_source := c_str (bp_source e)\<rparr>)
        db))"

text \<open>A row as the struct: the strings are cut to their arrays. \<open>ORDER BY rating DESC LIMIT\<close>\<close>

definition peer_entry :: "host_row \<Rightarrow> bm_peer_entry" where
  "peer_entry r = \<lparr>bp_ip_address = take 63 (hr_ip_address r), bp_port = hr_port r, bp_stream = hr_stream r,
     bp_services = hr_services r, bp_last_seen = hr_last_seen r, bp_rating = hr_rating r, bp_source = take 15 (hr_source r),
     bp_last_attempt = hr_last_attempt r\<rparr>"

definition best_rated :: "nat \<Rightarrow> (host_row \<Rightarrow> bool) \<Rightarrow> peers_db \<Rightarrow> host_row list" where
  "best_rated max_results P db = take max_results (sort_key (\<lambda>r. - hr_rating r) (filter P db))"

definition bm_peer_manager_list_top :: "bool \<Rightarrow> int \<Rightarrow> nat \<Rightarrow> peers_db \<Rightarrow> bm_peer_entry list option" where
  "bm_peer_manager_list_top ok stream max_results db =
     (if \<not> ok then None
      else Some (map peer_entry (best_rated max_results (\<lambda>r. hr_stream r = stream \<and> hr_is_self r = 0) db)))"

text \<open>\<open>LIKE '%.onion'\<close> does not look at the case of ASCII letters. The query does not read \<open>last_attempt\<close>.\<close>

definition lower :: "byte \<Rightarrow> byte" where "lower b = (if 0x41 \<le> b \<and> b \<le> 0x5a then b + 0x20 else b)"

definition like_onion :: "bytes \<Rightarrow> bool" where
  "like_onion s \<longleftrightarrow> 6 \<le> length s \<and> map lower (drop (length s - 6) s) = lit ''.onion''"

definition bm_peer_manager_list_shareable :: "bool \<Rightarrow> int \<Rightarrow> int \<Rightarrow> nat \<Rightarrow> peers_db \<Rightarrow> bm_peer_entry list option" where
  "bm_peer_manager_list_shareable ok stream now max_results db =
     (if \<not> ok then None
      else Some (map (\<lambda>r. (peer_entry r)\<lparr>bp_last_attempt := 0\<rparr>) (best_rated max_results (\<lambda>r. hr_stream r = stream \<and> hr_is_self r = 0 \<and>
        0 \<le> hr_rating r \<and> now - BM_PEER_SHARE_MAX_AGE_SECONDS < hr_last_seen r \<and> \<not> like_onion (hr_ip_address r)) db)))"

definition bm_peer_manager_upsert_learned ::
  "bool \<Rightarrow> bytes \<Rightarrow> int \<Rightarrow> int \<Rightarrow> u64 \<Rightarrow> int \<Rightarrow> bytes \<Rightarrow> peers_db \<Rightarrow> int \<times> peers_db" where
  "bm_peer_manager_upsert_learned ok ip_address port stream services last_seen source db =
     (if \<not> ok then (-1, db)
      else (0, insert_or_update
        \<lparr>hr_ip_address = c_str ip_address, hr_port = port, hr_stream = stream, hr_services = services, hr_last_seen = last_seen,
         hr_rating = 0, hr_source = c_str source, hr_is_self = 0, hr_last_attempt = 0\<rparr>
        (\<lambda>r. r\<lparr>hr_services := services, hr_last_seen := last_seen\<rparr>) db))"

definition bm_peer_manager_mark_self :: "bool \<Rightarrow> int \<Rightarrow> bytes \<Rightarrow> int \<Rightarrow> int \<Rightarrow> peers_db \<Rightarrow> int \<times> peers_db" where
  "bm_peer_manager_mark_self ok now ip_address port stream db =
     (if \<not> ok then (-1, db)
      else (0, insert_or_update
        \<lparr>hr_ip_address = c_str ip_address, hr_port = port, hr_stream = stream, hr_services = 0, hr_last_seen = now,
         hr_rating = 0, hr_source = lit ''self'', hr_is_self = 1, hr_last_attempt = 0\<rparr>
        (\<lambda>r. r\<lparr>hr_is_self := 1\<rparr>) db))"

definition forgotten :: "int \<Rightarrow> host_row \<Rightarrow> bool" where
  "forgotten now r \<longleftrightarrow> BM_PEER_CLEANUP_MAX_AGE_SECONDS < now - hr_last_seen r \<or>
     BM_PEER_CLEANUP_MIN_AGE_SECONDS < now - hr_last_seen r \<and> hr_rating r \<le> - (1 / 2)"

definition bm_peer_manager_cleanup :: "bool \<Rightarrow> int \<Rightarrow> peers_db \<Rightarrow> int \<times> peers_db" where
  "bm_peer_manager_cleanup ok now db =
     (if \<not> ok then (-1, db)
      else let kept = filter (\<lambda>r. \<not> forgotten now r) db in (int (length db) - int (length kept), kept))"

text \<open>Addition of doubles; \<open>0.1\<close> is the double nearest to a tenth.\<close>

definition plus_double :: "rat \<Rightarrow> rat \<Rightarrow> double" where
  "plus_double x y = round_double (x + y)"

definition tenth :: rat where "tenth = 3602879701896397 / 2 ^ 55"

fun min_one :: "double \<Rightarrow> rat" where
  "min_one (Finite x) = min 1 x"
| "min_one (Infinite neg) = 1"

fun max_minus_one :: "double \<Rightarrow> rat" where
  "max_minus_one (Finite x) = max (-1) x"
| "max_minus_one (Infinite neg) = -1"

definition update_host :: "bytes \<Rightarrow> int \<Rightarrow> int \<Rightarrow> (host_row \<Rightarrow> host_row) \<Rightarrow> peers_db \<Rightarrow> peers_db" where
  "update_host ip_address port stream f db = map (\<lambda>r. if host_key r = (c_str ip_address, port, stream) then f r else r) db"

definition bm_peer_manager_record_result :: "bool \<Rightarrow> int \<Rightarrow> bytes \<Rightarrow> int \<Rightarrow> int \<Rightarrow> bool \<Rightarrow> peers_db \<Rightarrow> int \<times> peers_db" where
  "bm_peer_manager_record_result ok now ip_address port stream success db =
     (if \<not> ok then (-1, db)
      else (0, update_host ip_address port stream (\<lambda>r.
        if success then r\<lparr>hr_rating := min_one (plus_double (hr_rating r) tenth), hr_last_seen := now\<rparr>
        else r\<lparr>hr_rating := max_minus_one (plus_double (hr_rating r) (- tenth))\<rparr>) db))"

definition bm_peer_manager_record_attempt :: "bool \<Rightarrow> bytes \<Rightarrow> int \<Rightarrow> int \<Rightarrow> int \<Rightarrow> peers_db \<Rightarrow> int \<times> peers_db" where
  "bm_peer_manager_record_attempt ok ip_address port stream now db =
     (if \<not> ok then (-1, db) else (0, update_host ip_address port stream (\<lambda>r. r\<lparr>hr_last_attempt := now\<rparr>) db))"

section \<open>Bootstrap nodes\<close>

text \<open>\<open>fgets\<close> with an array of 256: a line with its newline, or 255 characters.\<close>

definition fgets_line :: "bytes \<Rightarrow> bytes" where
  "fgets_line s = (let l = takeWhile (\<lambda>c. c \<noteq> 10) (take 255 s) in take (min 255 (length l + 1)) s)"

lemma fgets_line_progress: "s \<noteq> [] \<Longrightarrow> fgets_line s \<noteq> []"
  by (simp add: fgets_line_def Let_def)

function fgets_lines :: "bytes \<Rightarrow> bytes list" where
  "fgets_lines s = (if s = [] then [] else fgets_line s # fgets_lines (drop (length (fgets_line s)) s))"
  by auto
termination
  by (relation "measure length") (auto intro!: diff_less dest: fgets_line_progress)

declare fgets_lines.simps [simp del]

text \<open>\<open>sscanf\<close> with \<open>%63s %d\<close>; a number is read as by \<open>strtol\<close> and stored in 32 bits.\<close>

definition white :: "byte \<Rightarrow> bool" where "white b \<longleftrightarrow> b = 32 \<or> 9 \<le> b \<and> b \<le> 13"

definition scan_int :: "bytes \<Rightarrow> int option" where
  "scan_int s =
     (let s1 = dropWhile white s;
          neg = (s1 \<noteq> [] \<and> hd s1 = 45);
          ds = takeWhile is_digit (if s1 \<noteq> [] \<and> (hd s1 = 45 \<or> hd s1 = 43) then tl s1 else s1);
          v = (if neg then - int (digits_val ds) else int (digits_val ds))
      in if ds = [] then None
         else Some (sint (word_of_int (max (- (2 ^ 63)) (min (2 ^ 63 - 1) v)) :: 32 word)))"

definition observed_node :: "bytes \<Rightarrow> (bytes \<times> int) option" where
  "observed_node line =
     (let p = dropWhile (\<lambda>c. c = 32 \<or> c = 9) (c_str line)
      in if p = [] \<or> hd p = 35 \<or> hd p = 10 then None
         else let p1 = dropWhile white p; ip = take 63 (takeWhile (\<lambda>c. \<not> white c) p1)
              in if ip = [] then None
                 else (case scan_int (drop (length ip) p1) of
                         None \<Rightarrow> None
                       | Some port \<Rightarrow> if port \<le> 0 \<or> 65535 < port then None else Some (ip, port)))"

definition seed_entry :: "bytes \<Rightarrow> int \<Rightarrow> int \<Rightarrow> bytes \<Rightarrow> bm_peer_entry" where
  "seed_entry ip port now source = \<lparr>bp_ip_address = take 63 (c_str ip), bp_port = port, bp_stream = 1, bp_services = 1,
     bp_last_seen = now, bp_rating = 0, bp_source = take 15 (c_str source), bp_last_attempt = 0\<rparr>"

fun load_nodes :: "(nat \<Rightarrow> bool) \<Rightarrow> int \<Rightarrow> nat \<Rightarrow> (bytes \<times> int) list \<Rightarrow> peers_db \<Rightarrow> nat \<times> peers_db" where
  "load_nodes ok now i [] db = (0, db)"
| "load_nodes ok now i ((ip, port) # ns) db =
     (case bm_peer_manager_upsert (ok i) (seed_entry ip port now (lit ''observed_seed'')) db of
        (rc, db1) \<Rightarrow> (case load_nodes ok now (Suc i) ns db1 of (n, db2) \<Rightarrow> (if rc = 0 then Suc n else n, db2)))"

text \<open>\<open>file\<close> is \<open>None\<close> when it cannot be opened.\<close>

definition bm_peer_manager_load_observed_nodes :: "(nat \<Rightarrow> bool) \<Rightarrow> int \<Rightarrow> bytes option \<Rightarrow> peers_db \<Rightarrow> nat \<times> peers_db" where
  "bm_peer_manager_load_observed_nodes ok now file db =
     (case file of None \<Rightarrow> (0, db) | Some s \<Rightarrow> load_nodes ok now 0 (List.map_filter observed_node (fgets_lines s)) db)"

definition MAINNET_SEEDS :: "(bytes \<times> int) list" where
  "MAINNET_SEEDS = [(lit ''5.45.99.75'', 8444), (lit ''75.167.159.54'', 8444), (lit ''95.165.168.168'', 8444),
     (lit ''85.180.139.241'', 8444), (lit ''158.222.217.190'', 8080), (lit ''178.62.12.187'', 8448),
     (lit ''24.188.198.204'', 8111), (lit ''109.147.204.113'', 1195), (lit ''178.11.46.221'', 8444)]"

definition TESTNET_SEEDS :: "(bytes \<times> int) list" where
  "TESTNET_SEEDS = [(lit ''46.62.252.34'', 8444), (lit ''5.78.198.100'', 8444)]"

fun seed_loop :: "(nat \<Rightarrow> bool) \<Rightarrow> int \<Rightarrow> nat \<Rightarrow> (bytes \<times> int) list \<Rightarrow> peers_db \<Rightarrow> bool \<times> peers_db" where
  "seed_loop ok now i [] db = (True, db)"
| "seed_loop ok now i ((ip, port) # ns) db =
     (case bm_peer_manager_upsert (ok i) (seed_entry ip port now (lit ''seed'')) db of
        (rc, db1) \<Rightarrow> if rc \<noteq> 0 then (False, db1) else seed_loop ok now (Suc i) ns db1)"

text \<open>SQLite's answers: for the query and its row, for the seeds and for the observed nodes.\<close>

definition bm_peer_manager_seed_bootstrap ::
  "bool \<times> bool \<times> (nat \<Rightarrow> bool) \<times> (nat \<Rightarrow> bool) \<Rightarrow> int \<times> int \<Rightarrow> bool \<Rightarrow> bytes option \<Rightarrow> peers_db \<Rightarrow> int \<times> peers_db" where
  "bm_peer_manager_seed_bootstrap env now testnet file db =
     (case env of (ok, row, ok_seeds, ok_nodes) \<Rightarrow>
        if \<not> ok then (-1, db)
        else if row \<and> filter (\<lambda>r. hr_is_self r = 0) db \<noteq> [] then (0, db)
        else (case seed_loop ok_seeds (fst now) 0 (if testnet then TESTNET_SEEDS else MAINNET_SEEDS) db of
                (False, db1) \<Rightarrow> (-1, db1)
              | (True, db1) \<Rightarrow> (0, if testnet then db1 else snd (bm_peer_manager_load_observed_nodes ok_nodes (snd now) file db1))))"

section \<open>Lemmas\<close>

text \<open>The table is well formed: unique keys, ratings within -1 and 1, flags 0 or 1.\<close>

definition peers_ok :: "peers_db \<Rightarrow> bool" where
  "peers_ok db \<longleftrightarrow> distinct (map host_key db) \<and> (\<forall>r\<in>set db. - 1 \<le> hr_rating r \<and> hr_rating r \<le> 1 \<and> hr_is_self r \<in> {0, 1})"

lemma map_host_key: "(\<And>r. host_key (f r) = host_key r) \<Longrightarrow> map host_key (map (\<lambda>r. if P r then f r else r) db) = map host_key db"
  by (induction db) auto

lemma peers_ok_map:
  assumes "peers_ok db" "\<And>r. host_key (f r) = host_key r"
    "\<And>r. r \<in> set db \<Longrightarrow> - 1 \<le> hr_rating (f r) \<and> hr_rating (f r) \<le> 1 \<and> hr_is_self (f r) \<in> {0, 1}"
  shows "peers_ok (map (\<lambda>r. if P r then f r else r) db)"
proof -
  have "distinct (map host_key (map (\<lambda>r. if P r then f r else r) db))"
    unfolding map_host_key [of f P db, OF assms(2)] using assms(1) by (simp add: peers_ok_def)
  then show ?thesis using assms(1,3) unfolding peers_ok_def by auto
qed

lemma peers_ok_insert:
  assumes "peers_ok db" "- 1 \<le> hr_rating row \<and> hr_rating row \<le> 1 \<and> hr_is_self row \<in> {0, 1}" "\<And>r. host_key (f r) = host_key r"
    "\<And>r. r \<in> set db \<Longrightarrow> - 1 \<le> hr_rating (f r) \<and> hr_rating (f r) \<le> 1 \<and> hr_is_self (f r) \<in> {0, 1}"
  shows "peers_ok (insert_or_update row f db)"
  using peers_ok_map [OF assms(1,3,4), of "\<lambda>r. host_key r = host_key row"] assms(1,2)
  by (auto simp: insert_or_update_def peers_ok_def)

lemma peers_ok_row: "peers_ok db \<Longrightarrow> r \<in> set db \<Longrightarrow> - 1 \<le> hr_rating r \<and> hr_rating r \<le> 1 \<and> hr_is_self r \<in> {0, 1}"
  unfolding peers_ok_def by blast

text \<open>Rounding does not cross zero, so a rating within its bounds stays within them.\<close>

lemma round_double_sign: "0 \<le> q \<Longrightarrow> round_double q = Finite x \<Longrightarrow> 0 \<le> x"
  using round_even_error [of "\<bar>q\<bar> / 2 powi ulp_exp \<bar>q\<bar>"]
  by (auto simp: round_double_def Let_def round_even_def split: if_splits)

lemma round_even_le:
  assumes "q \<le> of_int n"
  shows "round_even q \<le> n"
proof (cases "\<lfloor>q\<rfloor> < n")
  case True
  then show ?thesis by (simp add: round_even_def Let_def)
next
  case False
  then have "q = of_int n" using assms by (metis antisym floor_le_iff le_floor_iff not_less_iff_gr_or_eq not_less)
  then show ?thesis by simp
qed

lemma round_double_unit:
  assumes "\<bar>q\<bar> \<le> 1"
  shows "\<exists>x. round_double q = Finite x \<and> \<bar>x\<bar> \<le> 1"
proof (cases "q = 0")
  case True
  then show ?thesis by (simp add: round_double_def)
next
  case False
  let ?e = "ulp_exp \<bar>q\<bar>"
  let ?v = "of_int (round_even (\<bar>q\<bar> / 2 powi ?e)) * 2 powi ?e :: rat"
  have "ilog 2 \<bar>q\<bar> \<le> 0"
  proof (cases "\<bar>q\<bar> = 1")
    case True
    then show ?thesis by (simp add: ilog_def floorlog_def)
  next
    case False
    then have "\<not> 1 \<le> \<bar>q\<bar>" using assms by simp
    then show ?thesis unfolding ilog_def by simp
  qed
  then have e: "?e \<le> 0" by (simp add: ulp_exp_def)
  have n: "2 powi - ?e = (of_int (2 ^ nat (- ?e)) :: rat)" using e by (simp add: power_int_def)
  have "\<bar>q\<bar> / 2 powi ?e \<le> of_int (2 ^ nat (- ?e))"
    using assms unfolding n [symmetric] by (simp add: power_int_minus field_simps)
  then have "of_int (round_even (\<bar>q\<bar> / 2 powi ?e)) \<le> (of_int (2 ^ nat (- ?e)) :: rat)"
    by (simp only: of_int_le_iff round_even_le)
  then have le: "?v \<le> 1" unfolding n [symmetric] by (simp add: power_int_minus field_simps)
  have ge: "0 \<le> ?v"
    using round_even_error [of "\<bar>q\<bar> / 2 powi ?e"] by (auto simp: round_even_def Let_def)
  have "\<not> 2 ^ 1024 \<le> ?v" using le by (meson dual_order.trans not_le one_less_numeral_iff one_less_power semiring_norm(76) zero_less_numeral)
  moreover have "\<bar>if q < 0 then - v else v\<bar> \<le> 1" if "0 \<le> v" "v \<le> 1" for v :: rat using that by auto
  from this [OF ge le] have "\<bar>if q < 0 then - ?v else ?v\<bar> \<le> 1" .
  ultimately show ?thesis unfolding round_double_def Let_def using False by (simp only: if_False) blast
qed

lemma rating_up:
  assumes "- 1 \<le> r" "r \<le> 1"
  shows "- 1 \<le> min_one (plus_double r tenth) \<and> min_one (plus_double r tenth) \<le> 1"
proof (cases "r + tenth \<le> 1")
  case True
  then have "\<bar>r + tenth\<bar> \<le> 1" using assms(1) by (auto simp: tenth_def abs_le_iff)
  from round_double_unit [OF this] show ?thesis by (auto simp: plus_double_def abs_le_iff)
next
  case False
  then show ?thesis using round_double_sign [of "r + tenth"] by (cases "round_double (r + tenth)") (auto simp: plus_double_def)
qed

lemma rating_down:
  assumes "- 1 \<le> r" "r \<le> 1"
  shows "- 1 \<le> max_minus_one (plus_double r (- tenth)) \<and> max_minus_one (plus_double r (- tenth)) \<le> 1"
proof (cases "- 1 \<le> r + - tenth")
  case True
  then have "\<bar>r + - tenth\<bar> \<le> 1" using assms(2) by (auto simp: tenth_def abs_le_iff)
  from round_double_unit [OF this] show ?thesis unfolding plus_double_def by (auto simp: abs_le_iff)
next
  case False
  have "round_double (r + - tenth) = (case round_double (tenth - r) of Finite x \<Rightarrow> Finite (- x) | Infinite s \<Rightarrow> Infinite (\<not> s))"
    using round_double_uminus [of "tenth - r"] by simp
  then show ?thesis
    using False round_double_sign [of "tenth - r"] unfolding plus_double_def by (cases "round_double (tenth - r)") auto
qed

text \<open>One call of the module.\<close>

inductive peer_step :: "peers_db \<Rightarrow> peers_db \<Rightarrow> bool" where
  learned: "peer_step db (snd (bm_peer_manager_upsert_learned ok ip port stream services last_seen source db))"
| seeded: "peer_step db (snd (bm_peer_manager_seed_bootstrap env now testnet file db))"
| result: "peer_step db (snd (bm_peer_manager_record_result ok now ip port stream success db))"
| attempt: "peer_step db (snd (bm_peer_manager_record_attempt ok ip port stream now db))"
| mark_self: "peer_step db (snd (bm_peer_manager_mark_self ok now ip port stream db))"
| cleanup: "peer_step db (snd (bm_peer_manager_cleanup ok now db))"

lemma host_key_update [simp]:
  "host_key (r\<lparr>hr_services := a\<rparr>) = host_key r" "host_key (r\<lparr>hr_last_seen := b\<rparr>) = host_key r"
  "host_key (r\<lparr>hr_rating := c\<rparr>) = host_key r" "host_key (r\<lparr>hr_source := d\<rparr>) = host_key r"
  "host_key (r\<lparr>hr_is_self := e\<rparr>) = host_key r" "host_key (r\<lparr>hr_last_attempt := f\<rparr>) = host_key r"
  by (simp_all add: host_key_def)

lemma peers_ok_seed_entry: "peers_ok db \<Longrightarrow> peers_ok (snd (bm_peer_manager_upsert ok (seed_entry ip port now source) db))"
  unfolding bm_peer_manager_upsert_def by (auto simp: seed_entry_def intro!: peers_ok_insert dest: peers_ok_row)

lemma peers_ok_load: "peers_ok db \<Longrightarrow> peers_ok (snd (load_nodes ok now i ns db))"
proof (induction ok now i ns db rule: load_nodes.induct)
  case (2 ok now i ip port ns db)
  obtain rc db1 where u: "bm_peer_manager_upsert (ok i) (seed_entry ip port now (lit ''observed_seed'')) db = (rc, db1)" by (rule prod.exhaust)
  have "peers_ok db1" using peers_ok_seed_entry [OF 2(2), of "ok i" ip port now "lit ''observed_seed''"] unfolding u by simp
  then show ?case using 2(1) [OF u [symmetric]] unfolding load_nodes.simps u prod.case by (auto split: prod.splits)
qed simp

lemma peers_ok_seeds: "peers_ok db \<Longrightarrow> peers_ok (snd (seed_loop ok now i ns db))"
proof (induction ok now i ns db rule: seed_loop.induct)
  case (2 ok now i ip port ns db)
  obtain rc db1 where u: "bm_peer_manager_upsert (ok i) (seed_entry ip port now (lit ''seed'')) db = (rc, db1)" by (rule prod.exhaust)
  have "peers_ok db1" using peers_ok_seed_entry [OF 2(2), of "ok i" ip port now "lit ''seed''"] unfolding u by simp
  then show ?case using 2(1) [OF u [symmetric]] unfolding seed_loop.simps u prod.case by (cases "rc = 0") simp_all
qed simp

lemma peer_step_ok:
  assumes "peer_step db db'" "peers_ok db"
  shows "peers_ok db'"
  using assms
proof cases
  case (learned ok ip port stream services last_seen source)
  then show ?thesis using assms(2)
    by (auto simp: bm_peer_manager_upsert_learned_def intro!: peers_ok_insert dest: peers_ok_row)
next
  case (seeded env now testnet f)
  then show ?thesis
    using assms(2) peers_ok_seeds [OF assms(2)] peers_ok_load
    by (auto simp: bm_peer_manager_seed_bootstrap_def bm_peer_manager_load_observed_nodes_def split: prod.splits bool.splits option.splits)
      (metis snd_conv)+
next
  case (result ok now ip port stream success)
  have "peers_ok (update_host ip port stream (\<lambda>r.
      if success then r\<lparr>hr_rating := min_one (plus_double (hr_rating r) tenth), hr_last_seen := now\<rparr>
      else r\<lparr>hr_rating := max_minus_one (plus_double (hr_rating r) (- tenth))\<rparr>) db)"
    unfolding update_host_def using peers_ok_row [OF assms(2)] rating_up rating_down
    by (intro peers_ok_map [OF assms(2)]) (cases success; fastforce)+
  then show ?thesis using assms(2) by (simp add: result bm_peer_manager_record_result_def)
next
  case (attempt ok ip port stream now)
  have "peers_ok (update_host ip port stream (\<lambda>r. r\<lparr>hr_last_attempt := now\<rparr>) db)"
    unfolding update_host_def using peers_ok_row [OF assms(2)] by (intro peers_ok_map [OF assms(2)]) auto
  then show ?thesis using assms(2) by (simp add: attempt bm_peer_manager_record_attempt_def)
next
  case (mark_self ok now ip port stream)
  then show ?thesis using assms(2)
    by (auto simp: bm_peer_manager_mark_self_def intro!: peers_ok_insert dest: peers_ok_row)
next
  case (cleanup ok now)
  then show ?thesis using assms(2) by (auto simp: bm_peer_manager_cleanup_def Let_def peers_ok_def distinct_map inj_on_filter_key_eq intro: inj_on_subset)
qed

lemma peers_ok_reachable: "peer_step\<^sup>*\<^sup>* [] db \<Longrightarrow> peers_ok db"
proof (induction rule: rtranclp_induct)
  case base
  then show ?case by (simp add: peers_ok_def)
next
  case (step db db')
  then show ?case by (metis peer_step_ok)
qed

lemma best_rated_props:
  "set (best_rated n P db) \<subseteq> {r \<in> set db. P r}" "sorted (map (\<lambda>r. - hr_rating r) (best_rated n P db))"
  "length (best_rated n P db) \<le> n"
  "r \<in> set db \<Longrightarrow> P r \<Longrightarrow> r \<notin> set (best_rated n P db) \<Longrightarrow>
    length (best_rated n P db) = n \<and> (\<forall>r'\<in>set (best_rated n P db). hr_rating r \<le> hr_rating r')"
proof -
  show "set (best_rated n P db) \<subseteq> {r \<in> set db. P r}" unfolding best_rated_def using set_take_subset by fastforce
  show "sorted (map (\<lambda>r. - hr_rating r) (best_rated n P db))"
    unfolding best_rated_def take_map [symmetric] by (intro sorted_wrt_take) (simp add: sorted_sort_key)
  show "length (best_rated n P db) \<le> n" by (simp add: best_rated_def)
  let ?all = "sort_key (\<lambda>r. - hr_rating r) (filter P db)"
  assume "r \<in> set db" "P r" "r \<notin> set (best_rated n P db)"
  moreover have "set ?all = set (take n ?all) \<union> set (drop n ?all)" by (simp only: set_append [symmetric] append_take_drop_id)
  ultimately have r: "r \<in> set (drop n ?all)" unfolding best_rated_def by auto
  have "sorted_wrt (\<lambda>a b. hr_rating b \<le> hr_rating a) (take n ?all @ drop n ?all)"
    using sorted_sort_key [of "\<lambda>r. - hr_rating r" "filter P db"] by (simp add: sorted_map)
  then show "length (best_rated n P db) = n \<and> (\<forall>r'\<in>set (best_rated n P db). hr_rating r \<le> hr_rating r')"
    using r unfolding best_rated_def sorted_wrt_append by (cases "n \<le> length ?all") auto
qed

text \<open>The row of a key.\<close>

definition host_at :: "bytes \<Rightarrow> int \<Rightarrow> int \<Rightarrow> peers_db \<Rightarrow> host_row option" where
  "host_at ip port stream db = find (\<lambda>r. host_key r = (c_str ip, port, stream)) db"

lemma host_at_insert:
  assumes "\<And>r. host_key (f r) = host_key r" "host_key row = (c_str ip, port, stream)"
  shows "host_at ip port stream (insert_or_update row f db) =
    Some (case host_at ip port stream db of None \<Rightarrow> row | Some r \<Rightarrow> f r)"
proof (cases "host_key row \<in> host_key ` set db")
  case True
  then have "\<exists>r. find (\<lambda>r. host_key r = k) db = Some r \<and>
      find (\<lambda>r. host_key r = k) (map (\<lambda>r. if host_key r = k then f r else r) db) = Some (f r)" if "k = host_key row" for k
    unfolding that by (induction db) (auto simp: assms(1))
  from this [OF refl] True show ?thesis unfolding host_at_def insert_or_update_def assms(2) by auto
next
  case False
  then have "find (\<lambda>r. host_key r = host_key row) db = None" unfolding find_None_iff by (metis image_eqI)
  moreover have "find P (db @ [row]) = Some row" if "find P db = None" "P row" for P
    using that by (induction db) (auto split: if_splits)
  ultimately show ?thesis using False assms(2) unfolding host_at_def insert_or_update_def by auto
qed

section \<open>Properties\<close>

text \<open>
  C40: However the module is used, the table of peers is well formed: no two rows have the same address, port and stream, and every
  rating is within -1 and 1, with the arithmetic of doubles. The peers offered for a connection are at most as many as asked for, of
  the stream, never the node's own address, and in the order of their ratings, and no such peer is left out for one with a worse
  rating; the peers named to others, in the order of their ratings too, moreover have no bad rating, were seen in the last three hours and
  are not onion addresses. An address learned by hearsay enters with the rating 0, and
  hearsay about a known peer changes neither its rating nor the mark of the node's own address.
\<close>

theorem peers_well_formed:
  assumes "peer_step\<^sup>*\<^sup>* [] db"
  shows "distinct (map host_key db) \<and> (\<forall>r\<in>set db. - 1 \<le> hr_rating r \<and> hr_rating r \<le> 1) \<and>
    (\<forall>stream n es. bm_peer_manager_list_top True stream n db = Some es \<longrightarrow> length es \<le> n \<and>
      sorted (map (\<lambda>e. - bp_rating e) es) \<and>
      (\<forall>e\<in>set es. \<exists>r\<in>set db. e = peer_entry r \<and> hr_stream r = stream \<and> hr_is_self r = 0) \<and>
      (\<forall>r\<in>set db. hr_stream r = stream \<and> hr_is_self r = 0 \<and> peer_entry r \<notin> set es \<longrightarrow>
        length es = n \<and> (\<forall>e\<in>set es. hr_rating r \<le> bp_rating e))) \<and>
    (\<forall>stream now n es. bm_peer_manager_list_shareable True stream now n db = Some es \<longrightarrow> length es \<le> n \<and>
      sorted (map (\<lambda>e. - bp_rating e) es) \<and>
      (\<forall>e\<in>set es. \<exists>r\<in>set db. e = (peer_entry r)\<lparr>bp_last_attempt := 0\<rparr> \<and> hr_stream r = stream \<and> hr_is_self r = 0 \<and>
        0 \<le> hr_rating r \<and> now - 10800 < hr_last_seen r \<and> \<not> like_onion (hr_ip_address r)) \<and>
      (\<forall>r\<in>set db. hr_stream r = stream \<and> hr_is_self r = 0 \<and> 0 \<le> hr_rating r \<and> now - 10800 < hr_last_seen r \<and>
          \<not> like_onion (hr_ip_address r) \<and> (peer_entry r)\<lparr>bp_last_attempt := 0\<rparr> \<notin> set es \<longrightarrow>
        length es = n \<and> (\<forall>e\<in>set es. hr_rating r \<le> bp_rating e))) \<and>
    (\<forall>ip port stream services seen source. \<exists>r. host_at ip port stream
        (snd (bm_peer_manager_upsert_learned True ip port stream services seen source db)) = Some r \<and>
      (case host_at ip port stream db of
         None \<Rightarrow> hr_rating r = 0 \<and> hr_is_self r = 0
       | Some r0 \<Rightarrow> r = r0\<lparr>hr_services := services, hr_last_seen := seen\<rparr>))"
proof (intro conjI allI impI)
  have ok: "peers_ok db" by (rule peers_ok_reachable [OF assms])
  show "distinct (map host_key db)" using ok by (simp add: peers_ok_def)
  show "\<forall>r\<in>set db. - 1 \<le> hr_rating r \<and> hr_rating r \<le> 1" using peers_ok_row [OF ok] by blast
next
  fix stream n es
  assume "bm_peer_manager_list_top True stream n db = Some es"
  then have es: "es = map peer_entry (best_rated n (\<lambda>r. hr_stream r = stream \<and> hr_is_self r = 0) db)"
    by (simp add: bm_peer_manager_list_top_def)
  note b = best_rated_props [where n = n and P = "\<lambda>r. hr_stream r = stream \<and> hr_is_self r = 0" and db = db]
  show "length es \<le> n" using b(3) by (simp add: es)
  show "sorted (map (\<lambda>e. - bp_rating e) es)" using b(2) by (simp add: es peer_entry_def comp_def)
  show "\<forall>e\<in>set es. \<exists>r\<in>set db. e = peer_entry r \<and> hr_stream r = stream \<and> hr_is_self r = 0" using b(1) by (auto simp: es)
  show "\<forall>r\<in>set db. hr_stream r = stream \<and> hr_is_self r = 0 \<and> peer_entry r \<notin> set es \<longrightarrow>
      length es = n \<and> (\<forall>e\<in>set es. hr_rating r \<le> bp_rating e)"
  proof (intro ballI impI)
    fix r assume "r \<in> set db" "hr_stream r = stream \<and> hr_is_self r = 0 \<and> peer_entry r \<notin> set es"
    with b(4) [where r = r] show "length es = n \<and> (\<forall>e\<in>set es. hr_rating r \<le> bp_rating e)" by (auto simp: es peer_entry_def)
  qed
next
  fix stream now n es
  assume "bm_peer_manager_list_shareable True stream now n db = Some es"
  then have es: "es = map (\<lambda>r. (peer_entry r)\<lparr>bp_last_attempt := 0\<rparr>) (best_rated n (\<lambda>r. hr_stream r = stream \<and> hr_is_self r = 0 \<and>
      0 \<le> hr_rating r \<and> now - 10800 < hr_last_seen r \<and> \<not> like_onion (hr_ip_address r)) db)"
    by (simp add: bm_peer_manager_list_shareable_def)
  note b = best_rated_props [where n = n and P = "\<lambda>r. hr_stream r = stream \<and> hr_is_self r = 0 \<and>
      0 \<le> hr_rating r \<and> now - 10800 < hr_last_seen r \<and> \<not> like_onion (hr_ip_address r)" and db = db]
  show "length es \<le> n" using b(3) by (simp add: es)
  show "\<forall>e\<in>set es. \<exists>r\<in>set db. e = (peer_entry r)\<lparr>bp_last_attempt := 0\<rparr> \<and> hr_stream r = stream \<and> hr_is_self r = 0 \<and>
      0 \<le> hr_rating r \<and> now - 10800 < hr_last_seen r \<and> \<not> like_onion (hr_ip_address r)"
    using b(1) by (auto simp: es)
  show "sorted (map (\<lambda>e. - bp_rating e) es)" using b(2) by (simp add: es peer_entry_def comp_def)
  show "\<forall>r\<in>set db. hr_stream r = stream \<and> hr_is_self r = 0 \<and> 0 \<le> hr_rating r \<and> now - 10800 < hr_last_seen r \<and>
        \<not> like_onion (hr_ip_address r) \<and> (peer_entry r)\<lparr>bp_last_attempt := 0\<rparr> \<notin> set es \<longrightarrow>
      length es = n \<and> (\<forall>e\<in>set es. hr_rating r \<le> bp_rating e)"
  proof (intro ballI impI)
    fix r
    assume "r \<in> set db" "hr_stream r = stream \<and> hr_is_self r = 0 \<and> 0 \<le> hr_rating r \<and> now - 10800 < hr_last_seen r \<and>
      \<not> like_onion (hr_ip_address r) \<and> (peer_entry r)\<lparr>bp_last_attempt := 0\<rparr> \<notin> set es"
    with b(4) [where r = r] show "length es = n \<and> (\<forall>e\<in>set es. hr_rating r \<le> bp_rating e)" by (auto simp: es peer_entry_def)
  qed
next
  fix ip :: bytes and port stream services seen source
  show "\<exists>r. host_at ip port stream (snd (bm_peer_manager_upsert_learned True ip port stream services seen source db)) = Some r \<and>
      (case host_at ip port stream db of
         None \<Rightarrow> hr_rating r = 0 \<and> hr_is_self r = 0
       | Some r0 \<Rightarrow> r = r0\<lparr>hr_services := services, hr_last_seen := seen\<rparr>)"
    unfolding bm_peer_manager_upsert_learned_def
    by (simp add: host_at_insert host_key_def split: option.splits)
qed

theorem peers_well_formed_witness:
  "\<exists>db. peer_step\<^sup>*\<^sup>* [] db \<and> db \<noteq> [] \<and> distinct (map host_key db)"
proof -
  let ?db = "snd (bm_peer_manager_upsert_learned True [49] 8444 1 1 5 [97] [])"
  have s: "peer_step\<^sup>*\<^sup>* [] ?db" by (rule r_into_rtranclp) (rule peer_step.learned)
  have "?db \<noteq> []" by (simp add: bm_peer_manager_upsert_learned_def insert_or_update_def)
  then show ?thesis using s peers_well_formed [OF s] by blast
qed

end
