(* ===== verification/Broadcast.thy ===== *)
theory Broadcast
  imports Trial_Decrypt
begin

text \<open>
  Opening a broadcast object with the address of its sender (\<open>src/core/broadcast_decrypt.c\<close>). The helpers
  \<open>dup_bytes_as_cstr\<close> and \<open>decode_simple\<close> of that file repeat those of \<open>src/core/trial_decrypt.c\<close>
  word for word, and so does the parsing of the sender; the definitions of \<open>Trial_Decrypt\<close> serve both.
  An accepted broadcast is the one that was built: what \<open>bm_build_broadcast\<close> writes is read back, and
  nothing is accepted that the candidate did not sign.
\<close>

section \<open>Opening a broadcast\<close>

record bm_decoded_broadcast =
  db_from_address_version :: u64
  db_from_stream :: u64
  db_from_address :: bytes
  db_subject :: "bytes option"
  db_body :: "bytes option"

definition bm_trial_decrypt_broadcast ::
  "openssl \<Rightarrow> (u64 \<Rightarrow> bool) \<Rightarrow> bytes \<Rightarrow> u64 \<Rightarrow> u64 \<Rightarrow> bytes \<Rightarrow> bm_decoded_broadcast option outcome" where
  "bm_trial_decrypt_broadcast ssl mem object candidate_version candidate_stream candidate_ripe =
     (case bm_object_parse_header object of
        None \<Rightarrow> Done None
      | Some hdr \<Rightarrow>
          if oh_object_type hdr \<noteq> BM_OBJECT_BROADCAST \<or> (oh_version hdr \<noteq> 4 \<and> oh_version hdr \<noteq> 5) then Done None
          else
            let (secret, expected_tag) =
                  bm_address_derive_secret_and_tag ssl candidate_version candidate_stream candidate_ripe;
                hl = header_len hdr;
                tagged = (oh_version hdr = 5)
            in if tagged \<and> (length object < hl + 32 \<or> take 32 (drop hl object) \<noteq> expected_tag) then Done None
               else
                 let offset = (if tagged then hl + 32 else hl)
                 in case Option.bind (bm_crypto_ecies_decrypt ssl (drop offset object) secret) (\<lambda>d.
                      Option.bind (parse_sender d) (\<lambda>(s, p).
                      Option.bind (varint_at d p) (\<lambda>(encoding, p1).
                      Option.bind (field_at d p1) (\<lambda>(msg_start, msg_len, presig_offset).
                      Option.bind (field_at d presig_offset) (\<lambda>(sig_start, sig_len, _).
                        let to_sign = take (hl - 8) (drop 8 object) @
                              (if tagged then take 32 (drop hl object) else []) @ take presig_offset d
                        in if \<not> signature_ok ssl to_sign d sig_start sig_len (from_pub_signing s) then None
                           else if bm_address_calc_ripe ssl (from_pub_signing s) (from_pub_encryption s)
                                     \<noteq> candidate_ripe then None
                           else Some (d, s, encoding, msg_start, msg_len)))))) of
                      None \<Rightarrow> Done None
                    | Some (d, s, encoding, msg_start, msg_len) \<Rightarrow>
                        bind_outcome (sender_address ssl s) (\<lambda>from_address.
                        bind_outcome (decode_contents mem encoding (drop msg_start d) msg_len) (\<lambda>(subject, body).
                          Done (Some \<lparr>db_from_address_version = from_ver s, db_from_stream = from_stream s,
                            db_from_address = from_address, db_subject = subject, db_body = body\<rparr>))))"

section \<open>Delivery\<close>

text \<open>The encrypted part before its signature.\<close>

definition broadcast_plain :: "bm_identity_info \<Rightarrow> bytes \<Rightarrow> bytes \<Rightarrow> bytes" where
  "broadcast_plain from subject body =
     sender_octets from @ varint_octets 2 @
     varint_octets (word_of_nat (length (simple_message subject body))) @ simple_message subject body"

text \<open>The clear part after the nonce: the header, and the tag from address version 4 on.\<close>

definition broadcast_clear :: "openssl \<Rightarrow> bm_identity_info \<Rightarrow> bytes \<Rightarrow> u64 \<Rightarrow> bytes" where
  "broadcast_clear ssl from from_ripe expires =
     (if 4 \<le> ii_address_version from
      then common_header expires BM_OBJECT_BROADCAST 5 (ii_stream from) @
        snd (bm_address_derive_secret_and_tag ssl (ii_address_version from) (ii_stream from) from_ripe)
      else common_header expires BM_OBJECT_BROADCAST 4 (ii_stream from))"

lemma bm_build_broadcast_cases:
  assumes "bm_build_broadcast ssl rnd from from_ripe subject body expires = Some obj"
  defines "clear \<equiv> broadcast_clear ssl from from_ripe expires" and "plain \<equiv> broadcast_plain from subject body"
    and "secret \<equiv> fst (bm_address_derive_secret_and_tag ssl (ii_address_version from) (ii_stream from) from_ripe)"
  obtains sig pub ct where "bm_crypto_sign ssl (clear @ plain) (ii_priv_signing from) = Some sig"
    "bm_address_get_public_key ssl secret = Some pub"
    "bm_crypto_ecies_encrypt ssl (fst rnd) (snd rnd) (signed_part plain sig) pub = Some ct" "obj = clear @ ct"
  using assms(1)
  by (auto simp: bm_build_broadcast_def Let_def bb_take_def clear_def plain_def secret_def broadcast_plain_def
      broadcast_clear_def signed_part_def split: option.splits prod.splits if_splits)

lemma length_broadcast_plain:
  assumes "openssl_ok ssl" "identity_ok ssl from" "strlen subject + strlen body \<le> 2 ^ 20"
    "bm_crypto_sign ssl c (ii_priv_signing from) = Some sig"
  shows "length (signed_part (broadcast_plain from subject body) sig) \<le> 2 ^ 20 + 400"
  using length_sender_octets [OF identity_keys(1,3) [OF assms(1,2)]] sign_length [OF assms(1,4)] assms(3)
    bm_varint_size_bounds(2) [of "word_of_nat (length sig)"] bm_varint_size_bounds(2) [of 2]
    bm_varint_size_bounds(2) [of "word_of_nat (length (simple_message subject body))"]
  by (simp add: signed_part_def broadcast_plain_def simple_message_def strlen_def)

text \<open>The fields of the encrypted part are found where they were written.\<close>

lemma broadcast_fields:
  assumes "openssl_ok ssl" "identity_ok ssl from" "length (signed_part (broadcast_plain from subject body) sig) < 2 ^ 63"
  defines "d \<equiv> signed_part (broadcast_plain from subject body) sig" and "P \<equiv> length (sender_octets from)"
    and "m \<equiv> simple_message subject body" and "B \<equiv> length (broadcast_plain from subject body)"
  shows "parse_sender d = Some (\<lparr>from_ver = ii_address_version from, from_stream = ii_stream from,
      from_pub_signing = ii_pub_signing from, from_pub_encryption = ii_pub_encryption from\<rparr>, P)"
    and "varint_at d P = Some (2, P + bm_varint_size 2)"
    and "field_at d (P + bm_varint_size 2) =
      Some (P + bm_varint_size 2 + bm_varint_size (word_of_nat (length m)), word_of_nat (length m), B)"
    and "drop (P + bm_varint_size 2 + bm_varint_size (word_of_nat (length m))) d =
      m @ varint_octets (word_of_nat (length sig)) @ sig"
    and "field_at d B = Some (B + bm_varint_size (word_of_nat (length sig)), word_of_nat (length sig),
      B + bm_varint_size (word_of_nat (length sig)) + length sig)"
proof -
  let ?sig = "varint_octets (word_of_nat (length sig)) @ sig"
  have d: "d = sender_octets from @ varint_octets 2 @ varint_octets (word_of_nat (length m)) @ m @ ?sig"
    by (simp add: d_def signed_part_def broadcast_plain_def m_def)
  have d1: "drop P d = varint_octets 2 @ varint_octets (word_of_nat (length m)) @ m @ ?sig"
    by (simp add: d P_def)
  have d2: "drop (P + bm_varint_size 2) d = varint_octets (word_of_nat (length m)) @ m @ ?sig"
    by (rule drop_more [OF d1 length_varint_octets])
  have small: "length d < 2 ^ 63" using assms(3) by (simp add: d_def)
  have B: "P + bm_varint_size 2 + bm_varint_size (word_of_nat (length m)) + length m = B"
    by (simp add: B_def P_def m_def broadcast_plain_def)
  have dB: "drop B d = varint_octets (word_of_nat (length sig)) @ sig @ []"
    by (simp add: d_def B_def signed_part_def)
  show "parse_sender d = Some (\<lparr>from_ver = ii_address_version from, from_stream = ii_stream from,
      from_pub_signing = ii_pub_signing from, from_pub_encryption = ii_pub_encryption from\<rparr>, P)"
    unfolding d P_def by (rule parse_sender_octets [OF identity_keys [OF assms(1,2)]])
  show "varint_at d P = Some (2, P + bm_varint_size 2)" by (rule varint_at_octets [OF d1])
  show "field_at d (P + bm_varint_size 2) =
      Some (P + bm_varint_size 2 + bm_varint_size (word_of_nat (length m)), word_of_nat (length m), B)"
    unfolding field_at_octets [OF d2 small] B ..
  show "drop (P + bm_varint_size 2 + bm_varint_size (word_of_nat (length m))) d = m @ ?sig"
    by (rule drop_more [OF d2 length_varint_octets])
  show "field_at d B = Some (B + bm_varint_size (word_of_nat (length sig)), word_of_nat (length sig),
      B + bm_varint_size (word_of_nat (length sig)) + length sig)"
    by (rule field_at_octets [OF dB small])
qed

lemma broadcast_header:
  "bm_object_parse_header (be64 nonce @ broadcast_clear ssl from from_ripe expires @ ct) =
    Some \<lparr>oh_nonce = nonce, oh_expires_time = expires, oh_object_type = BM_OBJECT_BROADCAST,
      oh_version = (if 4 \<le> ii_address_version from then 5 else 4),
      oh_stream = ii_stream from, header_len = 21 + bm_varint_size (ii_stream from)\<rparr>"
  using bm_object_parse_common_header [of nonce expires BM_OBJECT_BROADCAST 5 "ii_stream from"]
    bm_object_parse_common_header [of nonce expires BM_OBJECT_BROADCAST 4 "ii_stream from"]
  by (simp add: broadcast_clear_def bm_varint_size_def)

lemma secret_and_tag_length:
  assumes "openssl_ok ssl" "bm_address_derive_secret_and_tag ssl v s r = (secret, tag)"
  shows "length tag = 32"
  using assms(2) digest_lengths(2) [OF openssl_ok_digests [OF assms(1)]] by (auto simp: bm_address_derive_secret_and_tag_def Let_def)

lemma broadcast_delivered:
  assumes ok: "openssl_ok ssl" and ident: "identity_ok ssl from" and iv: "length iv = 16"
    and subj: "plain_subject subject" and len: "strlen subject + strlen body \<le> 2 ^ 20"
    and r: "from_ripe = bm_address_calc_ripe ssl (ii_pub_signing from) (ii_pub_encryption from)"
    and build: "bm_build_broadcast ssl (rp, Some iv) from from_ripe subject body expires = Some obj"
  shows "\<exists>m. bm_trial_decrypt_broadcast ssl (\<lambda>_. True) (be64 nonce @ obj) (ii_address_version from) (ii_stream from)
      from_ripe = Done (Some m) \<and>
    db_from_address_version m = ii_address_version from \<and> db_from_stream m = ii_stream from \<and>
    db_subject m = Some (c_str subject) \<and> db_body m = Some (c_str body)"
proof -
  let ?clear = "broadcast_clear ssl from from_ripe expires" and ?plain = "broadcast_plain from subject body"
  let ?v = "4 \<le> ii_address_version from" and ?hl = "21 + bm_varint_size (ii_stream from)"
  let ?s = "\<lparr>from_ver = ii_address_version from, from_stream = ii_stream from,
    from_pub_signing = ii_pub_signing from, from_pub_encryption = ii_pub_encryption from\<rparr>"
  obtain secret tag where st:
    "bm_address_derive_secret_and_tag ssl (ii_address_version from) (ii_stream from) from_ripe = (secret, tag)"
    by force
  obtain sig pub ct where b: "bm_crypto_sign ssl (?clear @ ?plain) (ii_priv_signing from) = Some sig"
    "bm_address_get_public_key ssl secret = Some pub"
    "bm_crypto_ecies_encrypt ssl rp (Some iv) (signed_part ?plain sig) pub = Some ct" "obj = ?clear @ ct"
    using bm_build_broadcast_cases [OF build] by (auto simp: st)
  have small: "length (signed_part ?plain sig) \<le> 2 ^ 20 + 400" by (rule length_broadcast_plain [OF ok ident len b(1)])
  then have dec: "bm_crypto_ecies_decrypt ssl ct secret = Some (signed_part ?plain sig)"
    by (intro ecies_decrypt_encrypt [OF ok b(2) iv _ b(3)]) simp
  have small63: "length (signed_part ?plain sig) < 2 ^ 63" using small by simp
  note F = broadcast_fields [OF ok ident small63]
  note T = secret_and_tag_length [OF ok st]
  have tag: "?v \<Longrightarrow> take 32 (drop ?hl (be64 nonce @ obj)) = tag" "?v \<Longrightarrow> ?hl + 32 \<le> length (be64 nonce @ obj)"
    "drop (if ?v then ?hl + 32 else ?hl) (be64 nonce @ obj) = ct"
    using T by (simp_all add: b(4) broadcast_clear_def st bm_varint_size_def)
  have to_sign: "take (?hl - 8) (drop 8 (be64 nonce @ obj)) @ (if ?v then take 32 (drop ?hl (be64 nonce @ obj)) else []) @
      take (length ?plain) (signed_part ?plain sig) = ?clear @ ?plain"
    using T by (simp add: b(4) broadcast_clear_def st bm_varint_size_def signed_part_def)
  have pub: "bm_address_get_public_key ssl (ii_priv_signing from) = Some (ii_pub_signing from)"
    using ident by (simp add: identity_ok_def)
  have n: "unat (word_of_nat (length sig) :: u64) = length sig"
    using sign_length [OF ok b(1)] by (intro unat_of_nat_lt) simp
  have sg: "signature_ok ssl (?clear @ ?plain) (signed_part ?plain sig)
      (length ?plain + bm_varint_size (word_of_nat (length sig))) (word_of_nat (length sig)) (ii_pub_signing from)"
    using verify_sign [OF ok pub b(1)] n by (simp add: signature_ok_def signed_part_def)
  obtain addr where addr: "sender_address ssl ?s = Done addr" using sender_address_ok by blast
  have "length (simple_message subject body) < 2 ^ 63"
    using small by (simp add: signed_part_def broadcast_plain_def)
  from decode_simple_message [OF subj this]
  have cont: "decode_contents (\<lambda>_. True) 2 (drop (length (sender_octets from) + bm_varint_size 2 +
      bm_varint_size (word_of_nat (length (simple_message subject body)))) (signed_part ?plain sig))
      (word_of_nat (length (simple_message subject body))) = Done (Some (c_str subject), Some (c_str body))"
    unfolding F(4) decode_contents_def by simp
  have v: "((if ?v then 5 else 4 :: u64) = 5) = ?v" by simp
  have t: "\<not> (?v \<and> (length (be64 nonce @ obj) < ?hl + 32 \<or> take 32 (drop ?hl (be64 nonce @ obj)) \<noteq> tag))"
    using tag(1,2) by auto
  show ?thesis
    unfolding bm_trial_decrypt_broadcast_def broadcast_header [of nonce ssl "from" from_ripe expires ct, folded b(4)]
      option.case bm_object_header.select_convs st Let_def split v if_not_P [OF t] tag(3) dec Option.bind.bind_lunit
      F(1,2,3,5) to_sign
    using sg addr cont by (simp add: r)
qed

section \<open>Properties\<close>

text \<open>
  C27: a subscriber reads what was broadcast: an object built by \<open>bm_build_broadcast\<close> opens, with any nonce
  in front, for whoever knows the address of its sender, and gives the sender's version and stream,
  the subject and the body (subjects of one line and at most 500 bytes, allocations succeed).
\<close>

theorem broadcast_end_to_end:
  assumes "openssl_ok ssl" "identity_ok ssl from" "length iv = 16"
    and "plain_subject subject" "strlen subject + strlen body \<le> 2 ^ 20"
    and "from_ripe = bm_address_calc_ripe ssl (ii_pub_signing from) (ii_pub_encryption from)"
    and "bm_build_broadcast ssl (rp, Some iv) from from_ripe subject body expires = Some obj"
  shows "\<exists>m. bm_trial_decrypt_broadcast ssl (\<lambda>_. True) (be64 nonce @ obj) (ii_address_version from) (ii_stream from)
      from_ripe = Done (Some m) \<and>
    db_from_address_version m = ii_address_version from \<and> db_from_stream m = ii_stream from \<and>
    db_subject m = Some (c_str subject) \<and> db_body m = Some (c_str body)"
  using assms by (rule broadcast_delivered)

lemma sample_broadcast_built:
  "\<exists>obj. bm_build_broadcast plain_ssl (Some [2], Some (replicate 16 1)) sample_sender r (lit ''hi'') (lit ''yo'') expires
     = Some obj"
proof -
  let ?plain = "broadcast_plain sample_sender (lit ''hi'') (lit ''yo'')" and ?h = "broadcast_clear plain_ssl sample_sender r expires"
  obtain secret tag where st: "bm_address_derive_secret_and_tag plain_ssl (ii_address_version sample_sender)
      (ii_stream sample_sender) r = (secret, tag)" by force
  obtain sig where sig: "bm_crypto_sign plain_ssl (?h @ ?plain) (ii_priv_signing sample_sender) = Some sig"
    using plain_sign by blast
  have "length (signed_part ?plain sig) \<le> 2 ^ 20 + 400"
    by (rule length_broadcast_plain [OF plain_ssl_ok sample_sender_ok _ sig]) (simp add: strlen_def c_str_def)
  then obtain ct where "bm_crypto_ecies_encrypt plain_ssl (Some [2]) (Some (replicate 16 1)) (signed_part ?plain sig)
      (4 # pad_to 64 secret) = Some ct"
    using plain_encrypt [of "signed_part ?plain sig" "[2]" "replicate 16 1" "4 # pad_to 64 secret"] by auto
  moreover have "4 \<le> ii_address_version sample_sender" by (simp add: sample_sender_def)
  ultimately show ?thesis
    using sig unfolding bm_build_broadcast_def Let_def
    by (simp add: bb_take_def broadcast_plain_def broadcast_clear_def signed_part_def st plain_public_key)
qed

theorem broadcast_end_to_end_witness:
  "\<exists>obj m. bm_trial_decrypt_broadcast plain_ssl (\<lambda>_. True) (be64 3 @ obj) 4 1
     (bm_address_calc_ripe plain_ssl (ii_pub_signing sample_sender) (ii_pub_encryption sample_sender)) = Done (Some m) \<and>
     db_subject m = Some (lit ''hi'') \<and> db_body m = Some (lit ''yo'')"
proof -
  let ?r = "bm_address_calc_ripe plain_ssl (ii_pub_signing sample_sender) (ii_pub_encryption sample_sender)"
  have v: "ii_address_version sample_sender = 4" "ii_stream sample_sender = 1" by (simp_all add: sample_sender_def)
  obtain obj where b: "bm_build_broadcast plain_ssl (Some [2], Some (replicate 16 1)) sample_sender ?r
      (lit ''hi'') (lit ''yo'') 0 = Some obj" using sample_broadcast_built by blast
  show ?thesis
    using broadcast_end_to_end [OF plain_ssl_ok sample_sender_ok _ _ _ refl b, of 3]
    by (auto simp: v plain_subject_def strlen_def c_str_def)
qed

text \<open>
  A broadcast is accepted only from the candidate: it opens under the secret derived from the candidate's
  address (and, in the tagged form, carries the tag of that address), the keys in it hash to the
  candidate's RIPE, and the signature over the clear part and the fields before it verifies under
  those keys.
\<close>

theorem broadcast_authentic:
  assumes "bm_trial_decrypt_broadcast ssl mem object version stream candidate_ripe = Done (Some m)"
  shows "\<exists>hdr secret tag offset d s p encoding p1 msg_start msg_len presig sig_start sig_len q.
    bm_object_parse_header object = Some hdr \<and> oh_object_type hdr = BM_OBJECT_BROADCAST \<and>
    bm_address_derive_secret_and_tag ssl version stream candidate_ripe = (secret, tag) \<and>
    (oh_version hdr = 5 \<and> offset = header_len hdr + 32 \<and> offset \<le> length object \<and>
       take 32 (drop (header_len hdr) object) = tag \<or>
     oh_version hdr = 4 \<and> offset = header_len hdr) \<and>
    bm_crypto_ecies_decrypt ssl (drop offset object) secret = Some d \<and> parse_sender d = Some (s, p) \<and>
    varint_at d p = Some (encoding, p1) \<and> field_at d p1 = Some (msg_start, msg_len, presig) \<and>
    field_at d presig = Some (sig_start, sig_len, q) \<and>
    bm_crypto_verify ssl (take (offset - 8) (drop 8 object) @ take presig d)
      (take (unat sig_len) (drop sig_start d)) (from_pub_signing s) \<and>
    bm_address_calc_ripe ssl (from_pub_signing s) (from_pub_encryption s) = candidate_ripe \<and>
    sender_address ssl s = Done (db_from_address m)"
proof -
  obtain hdr where h: "bm_object_parse_header object = Some hdr" "oh_object_type hdr = BM_OBJECT_BROADCAST"
    "oh_version hdr = 4 \<or> oh_version hdr = 5"
    using assms by (auto simp: bm_trial_decrypt_broadcast_def split: option.splits if_splits)
  obtain secret tag where st: "bm_address_derive_secret_and_tag ssl version stream candidate_ripe = (secret, tag)"
    by force
  let ?hl = "header_len hdr" and ?t = "oh_version hdr = 5"
  let ?off = "if ?t then ?hl + 32 else ?hl"
  have tag: "?t \<Longrightarrow> ?hl + 32 \<le> length object \<and> take 32 (drop ?hl object) = tag"
    using assms h st by (auto simp: bm_trial_decrypt_broadcast_def Let_def not_less split: if_splits)
  obtain d s p encoding p1 msg_start msg_len presig sig_start sig_len q where
    f: "bm_crypto_ecies_decrypt ssl (drop ?off object) secret = Some d" "parse_sender d = Some (s, p)"
    "varint_at d p = Some (encoding, p1)" "field_at d p1 = Some (msg_start, msg_len, presig)"
    "field_at d presig = Some (sig_start, sig_len, q)"
    "signature_ok ssl (take (?hl - 8) (drop 8 object) @ (if ?t then take 32 (drop ?hl object) else []) @ take presig d)
      d sig_start sig_len (from_pub_signing s)"
    "bm_address_calc_ripe ssl (from_pub_signing s) (from_pub_encryption s) = candidate_ripe"
    "sender_address ssl s = Done (db_from_address m)"
    using assms h st
    by (auto simp: bm_trial_decrypt_broadcast_def Let_def bind_eq_Some_conv split: option.splits if_splits)
  have hl: "22 \<le> ?hl" using bm_object_parse_header_len [OF h(1)] by simp
  have "take (?off - 8) (drop 8 object) = take (?hl - 8) (drop 8 object) @ (if ?t then take 32 (drop ?hl object) else [])"
    using hl take_add [of "?hl - 8" 32 "drop 8 object"] by simp
  then have "bm_crypto_verify ssl (take (?off - 8) (drop 8 object) @ take presig d)
      (take (unat sig_len) (drop sig_start d)) (from_pub_signing s)"
    using f(6) by (simp add: signature_ok_def split: if_splits)
  moreover have "oh_version hdr = 5 \<and> ?off = ?hl + 32 \<and> ?off \<le> length object \<and> take 32 (drop ?hl object) = tag \<or>
      oh_version hdr = 4 \<and> ?off = ?hl" using h(3) tag by auto
  ultimately show ?thesis using h(1,2) st f(1-5,7,8) by blast
qed

theorem broadcast_authentic_witness:
  "\<exists>obj m r. bm_trial_decrypt_broadcast plain_ssl (\<lambda>_. True) obj 4 1 r = Done (Some m) \<and>
     (\<exists>hdr. bm_object_parse_header obj = Some hdr \<and> oh_object_type hdr = BM_OBJECT_BROADCAST)"
proof -
  let ?r = "bm_address_calc_ripe plain_ssl (ii_pub_signing sample_sender) (ii_pub_encryption sample_sender)"
  have v: "ii_address_version sample_sender = 4" "ii_stream sample_sender = 1" by (simp_all add: sample_sender_def)
  obtain obj where b: "bm_build_broadcast plain_ssl (Some [2], Some (replicate 16 1)) sample_sender ?r
      (lit ''hi'') (lit ''yo'') 0 = Some obj" using sample_broadcast_built by blast
  obtain m where m: "bm_trial_decrypt_broadcast plain_ssl (\<lambda>_. True) (be64 3 @ obj) 4 1 ?r = Done (Some m)"
    using broadcast_delivered [OF plain_ssl_ok sample_sender_ok _ _ _ refl b, of 3]
    by (auto simp: v plain_subject_def strlen_def c_str_def)
  show ?thesis using m broadcast_authentic [OF m] by blast
qed

end
