(* ===== verification/Object_Sync.thy ===== *)
theory Object_Sync
  imports Inventory Send_Pipeline Peer_Manager Broadcast
begin

text \<open>
  What a node does with the objects of the network (\<open>src/infra/object_sync.c\<close> and the storing parts of
  \<open>src/core/trial_decrypt.c\<close> and \<open>src/core/broadcast_decrypt.c\<close>, without the post-quantum build). The
  context of the handlers is the record \<open>sync_node\<close>: the databases, the keyring, the proof-of-work queue and
  its callbacks. A call of \<open>bm_peer_registry_broadcast_inv\<close> is an entry of \<open>sn_announced\<close>: the hash, the
  connection left out and the time; what the call does to the connections is in \<open>Peer_Registry\<close> and
  \<open>Event_Loop\<close>.
\<close>

abbreviation BM_MAX_OBJECT_PAYLOAD_SIZE :: nat where "BM_MAX_OBJECT_PAYLOAD_SIZE \<equiv> 262144"
abbreviation BM_OBJECT_SYNC_GC_INTERVAL_SECONDS :: int where "BM_OBJECT_SYNC_GC_INTERVAL_SECONDS \<equiv> 300"
abbreviation BM_OBJECT_EXPIRE_GRACE_PERIOD_SECONDS :: int where "BM_OBJECT_EXPIRE_GRACE_PERIOD_SECONDS \<equiv> 3600"
abbreviation BM_OBJECT_GC_GRACE_PERIOD_SECONDS :: int where "BM_OBJECT_GC_GRACE_PERIOD_SECONDS \<equiv> 3 * 60 * 60"
abbreviation BM_OBJECT_SYNC_RESEND_CHECK_INTERVAL_SECONDS :: int where "BM_OBJECT_SYNC_RESEND_CHECK_INTERVAL_SECONDS \<equiv> 300"
abbreviation BM_NETWORK_MIN_NONCE_TRIALS_PER_BYTE :: u64 where "BM_NETWORK_MIN_NONCE_TRIALS_PER_BYTE \<equiv> 1000"
abbreviation BM_NETWORK_MIN_PAYLOAD_LENGTH_EXTRA_BYTES :: u64 where "BM_NETWORK_MIN_PAYLOAD_LENGTH_EXTRA_BYTES \<equiv> 1000"
abbreviation BM_PUBKEY_RESPONSE_TTL_SECONDS :: u64 where "BM_PUBKEY_RESPONSE_TTL_SECONDS \<equiv> 28 * 24 * 60 * 60"
abbreviation BM_POW_QUEUE_FULL_LOG_INTERVAL_SECONDS :: int where "BM_POW_QUEUE_FULL_LOG_INTERVAL_SECONDS \<equiv> 600"
abbreviation BM_TIME_OFFSET_LOG_INTERVAL_SECONDS :: int where "BM_TIME_OFFSET_LOG_INTERVAL_SECONDS \<equiv> 600"
abbreviation BM_ONIONPEER_ANNOUNCE_TTL_SECONDS :: u64 where "BM_ONIONPEER_ANNOUNCE_TTL_SECONDS \<equiv> 2 * 24 * 60 * 60"
abbreviation BM_ONIONPEER_REANNOUNCE_INTERVAL_SECONDS :: int where "BM_ONIONPEER_REANNOUNCE_INTERVAL_SECONDS \<equiv> 7380"
abbreviation BM_RESEND_INITIAL_INTERVAL_SECONDS :: int where "BM_RESEND_INITIAL_INTERVAL_SECONDS \<equiv> 4 * 60 * 60"

section \<open>Storing what was decrypted\<close>

text \<open>
  A subject or body that could not be allocated is a null pointer, whose length is taken. \<open>want_ack\<close>: the
  caller passes pointers for the acknowledgement. The result is the return value and the acknowledgement.
\<close>

definition store_decoded_msg ::
  "openssl \<Rightarrow> bool \<Rightarrow> bytes \<Rightarrow> bm_decoded_msg \<Rightarrow> int \<Rightarrow> bool \<Rightarrow> messages_db \<Rightarrow> (int \<times> bytes option \<times> messages_db) outcome" where
  "store_decoded_msg ssl ok object decoded now want_ack mdb =
     (case (dm_subject decoded, dm_body decoded) of
        (Some subject, Some body) \<Rightarrow>
          (case bm_messages_store_insert_inbox ok (bm_inventory_hash ssl object) (dm_to_address decoded) (dm_from_address decoded)
                  subject body now mdb of
             (rc, mdb1) \<Rightarrow> Done (rc, if want_ack then dm_ack_payload decoded else None, mdb1))
      | _ \<Rightarrow> Fault)"

definition bm_trial_decrypt_and_store ::
  "openssl \<Rightarrow> (u64 \<Rightarrow> bool) \<Rightarrow> bool \<Rightarrow> keyring \<Rightarrow> bytes \<Rightarrow> int \<Rightarrow> bool \<Rightarrow> messages_db \<Rightarrow> (int \<times> bytes option \<times> messages_db) outcome" where
  "bm_trial_decrypt_and_store ssl mem ok kr object now want_ack mdb =
     bind_outcome (bm_trial_decrypt_msg ssl mem kr object) (\<lambda>r.
       case r of None \<Rightarrow> Done (-1, None, mdb) | Some decoded \<Rightarrow> store_decoded_msg ssl ok object decoded now want_ack mdb)"

definition bm_trial_decrypt_and_store_single ::
  "openssl \<Rightarrow> (u64 \<Rightarrow> bool) \<Rightarrow> bool \<Rightarrow> bm_unlocked_identity \<Rightarrow> bytes \<Rightarrow> int \<Rightarrow> bool \<Rightarrow> messages_db
     \<Rightarrow> (int \<times> bytes option \<times> messages_db) outcome" where
  "bm_trial_decrypt_and_store_single ssl mem ok ident object now want_ack mdb =
     bind_outcome (bm_trial_decrypt_msg_single ssl mem ident object) (\<lambda>r.
       case r of None \<Rightarrow> Done (-1, None, mdb) | Some decoded \<Rightarrow> store_decoded_msg ssl ok object decoded now want_ack mdb)"

definition bm_trial_decrypt_broadcast_and_store ::
  "openssl \<Rightarrow> (u64 \<Rightarrow> bool) \<Rightarrow> bool \<Rightarrow> bytes \<Rightarrow> u64 \<Rightarrow> u64 \<Rightarrow> bytes \<Rightarrow> int \<Rightarrow> messages_db \<Rightarrow> (int \<times> messages_db) outcome" where
  "bm_trial_decrypt_broadcast_and_store ssl mem ok object version stream r now mdb =
     bind_outcome (bm_trial_decrypt_broadcast ssl mem object version stream r) (\<lambda>res.
       case res of
         None \<Rightarrow> Done (-1, mdb)
       | Some d \<Rightarrow>
           (case (db_subject d, db_body d) of
              (Some subject, Some body) \<Rightarrow>
                Done (bm_messages_store_insert_inbox ok (bm_inventory_hash ssl object) (db_from_address d) (db_from_address d)
                  subject body now mdb)
            | _ \<Rightarrow> Fault))"

section \<open>The context\<close>

record bm_log_throttle =
  lt_emitted :: bool
  lt_last_emit :: int
  lt_suppressed :: u64

definition bm_log_throttle_check :: "int \<Rightarrow> int \<Rightarrow> bm_log_throttle \<Rightarrow> bool \<times> u64 \<times> bm_log_throttle" where
  "bm_log_throttle_check now interval_seconds t =
     (if \<not> lt_emitted t \<or> interval_seconds \<le> now - lt_last_emit t \<or> now < lt_last_emit t
      then (True, lt_suppressed t, \<lparr>lt_emitted = True, lt_last_emit = now, lt_suppressed = 0\<rparr>)
      else (False, 0, t\<lparr>lt_suppressed := lt_suppressed t + 1\<rparr>))"

text \<open>The jobs of this module and the API's request for a key, and what is told when a message of the pipeline is done.\<close>

datatype sync_job =
    Pubkey_response (pj_id: bytes) (pj_address_version: u64) (pj_stream: u64) (pj_expires_time: u64)
  | Onionpeer_job (oj_onion_address: bytes) (oj_port: int) (oj_stream: u64) (oj_expires_time: u64)
  | Getpubkey_request

datatype send_done = Resend_done bytes int | Api_done nat

record sync_node =
  sn_pool :: object_pool
  sn_identities :: identity_db
  sn_pubkeys :: pubkey_db
  sn_messages :: messages_db
  sn_peers :: "peers_db option"
  sn_keyring :: keyring
  sn_has_registry :: bool
  sn_announced :: "(bytes \<times> nat option \<times> int) list"
  sn_pow :: "(send_done, sync_job) pow_state"
  sn_user_agent :: "bytes option"
  sn_last_gc :: int
  sn_last_resend_check :: int
  sn_last_onion_announce :: int
  sn_time_throttle :: bm_log_throttle
  sn_full_throttle :: bm_log_throttle
  sn_dandelion :: dandelion_state
  sn_stats :: net_stats

definition fresh_throttle :: bm_log_throttle where
  "fresh_throttle = \<lparr>lt_emitted = False, lt_last_emit = 0, lt_suppressed = 0\<rparr>"

definition bm_object_sync_ctx_init ::
  "object_pool \<Rightarrow> identity_db \<Rightarrow> pubkey_db \<Rightarrow> messages_db \<Rightarrow> peers_db option \<Rightarrow> keyring \<Rightarrow> bool \<Rightarrow> bytes option
     \<Rightarrow> (send_done, sync_job) pow_state \<Rightarrow> dandelion_state \<Rightarrow> net_stats \<Rightarrow> sync_node" where
  "bm_object_sync_ctx_init pool idb pdb mdb peers kr registry user_agent pow dandelion stats =
     \<lparr>sn_pool = pool, sn_identities = idb, sn_pubkeys = pdb, sn_messages = mdb, sn_peers = peers, sn_keyring = kr,
      sn_has_registry = registry, sn_announced = [], sn_pow = pow, sn_user_agent = user_agent, sn_last_gc = 0,
      sn_last_resend_check = 0, sn_last_onion_announce = 0, sn_time_throttle = fresh_throttle,
      sn_full_throttle = fresh_throttle, sn_dandelion = dandelion, sn_stats = stats\<rparr>"

definition announce :: "bytes \<Rightarrow> nat option \<Rightarrow> int \<Rightarrow> sync_node \<Rightarrow> sync_node" where
  "announce hash except now n = (if sn_has_registry n then n\<lparr>sn_announced := sn_announced n @ [(hash, except, now)]\<rparr> else n)"

text \<open>Insertion of an object with its header; types and streams are stored as \<open>int\<close>.\<close>

definition to_int32 :: "u64 \<Rightarrow> int" where "to_int32 w = sint (ucast w :: 32 word)"

definition pool_insert_object :: "openssl \<Rightarrow> bool \<Rightarrow> bytes \<Rightarrow> bm_object_header \<Rightarrow> int \<Rightarrow> sync_node \<Rightarrow> sync_node" where
  "pool_insert_object ssl ok object hdr now n =
     n\<lparr>sn_pool := snd (bm_object_store_insert ok (bm_inventory_hash ssl object) (sint (oh_object_type hdr)) (to_int32 (oh_stream hdr))
        object (sint (oh_expires_time hdr)) now (sn_pool n))\<rparr>"

section \<open>Garbage collection\<close>

definition bm_object_sync_gc :: "bool \<Rightarrow> int \<Rightarrow> sync_node \<Rightarrow> int \<times> sync_node" where
  "bm_object_sync_gc ok now n =
     (case bm_object_store_delete_expired ok (now - BM_OBJECT_GC_GRACE_PERIOD_SECONDS) (sn_pool n) of
        (deleted, pool) \<Rightarrow> (deleted, n\<lparr>sn_last_gc := now, sn_pool := pool\<rparr>))"

definition maybe_run_gc :: "bool \<Rightarrow> int \<Rightarrow> sync_node \<Rightarrow> sync_node" where
  "maybe_run_gc ok now n =
     (if BM_OBJECT_SYNC_GC_INTERVAL_SECONDS \<le> now - sn_last_gc n then snd (bm_object_sync_gc ok now n) else n)"

section \<open>Proof of work of received objects\<close>

definition object_pow_is_valid :: "openssl \<Rightarrow> bytes \<Rightarrow> bm_object_header \<Rightarrow> int \<Rightarrow> bool outcome" where
  "object_pow_is_valid ssl object hdr now =
     (let payload_no_nonce = drop 8 object;
          ttl = (if word_of_int now < oh_expires_time hdr then oh_expires_time hdr - word_of_int now else 0)
      in bind_outcome (bm_pow_get_target (word_of_nat (length payload_no_nonce)) ttl BM_NETWORK_MIN_NONCE_TRIALS_PER_BYTE
             BM_NETWORK_MIN_PAYLOAD_LENGTH_EXTRA_BYTES) (\<lambda>target.
           Done (bm_pow_trial_value ssl (oh_nonce hdr) (bm_sha512 ssl payload_no_nonce) \<le> target)))"

definition is_expired :: "bm_object_header \<Rightarrow> int \<Rightarrow> bool" where
  "is_expired hdr now \<longleftrightarrow> sint (oh_expires_time hdr) < now - BM_OBJECT_EXPIRE_GRACE_PERIOD_SECONDS"

text \<open>\<open>ok\<close>: whether SQLite answers the query and the insertion.\<close>

definition validate_and_store_ack ::
  "protocol_globals \<Rightarrow> openssl \<Rightarrow> bool \<times> bool \<Rightarrow> nat option \<Rightarrow> bytes \<Rightarrow> int \<Rightarrow> sync_node \<Rightarrow> sync_node outcome" where
  "validate_and_store_ack g ssl ok except ack_payload now n =
     (case bm_parse_message g ssl ack_payload of
        BM_PARSE_OK msg consumed \<Rightarrow>
          if consumed \<noteq> length ack_payload \<or> \<not> command_is (lit ''object'') msg then Done n
          else (case bm_object_parse_header (payload_of msg) of
                  None \<Rightarrow> Done n
                | Some hdr \<Rightarrow>
                    if is_expired hdr now then Done n
                    else bind_outcome (object_pow_is_valid ssl (payload_of msg) hdr now) (\<lambda>valid.
                      Done (if \<not> valid then n
                            else
                              let hash = bm_inventory_hash ssl (payload_of msg);
                                  already_known = bm_object_store_has (fst ok) hash (sn_pool n);
                                  n1 = pool_insert_object ssl (snd ok) (payload_of msg) hdr now n
                              in if already_known then n1 else announce hash except now n1)))
      | _ \<Rightarrow> Done n)"

section \<open>Answering getpubkey\<close>

text \<open>What the system gives for one submission: memory for the job, its address, and the node of the queue.\<close>

record job_env =
  je_mem :: bool
  je_user_data :: nat
  je_new_job :: "nat option"

text \<open>\<open>ok\<close>: SQLite's answers for the query and the two insertions.\<close>

definition pubkey_response_done :: "openssl \<Rightarrow> (nat \<Rightarrow> bool) \<Rightarrow> sync_job \<Rightarrow> bytes option \<Rightarrow> int \<Rightarrow> sync_node \<Rightarrow> sync_node" where
  "pubkey_response_done ssl ok job object now n =
     (case object of
        None \<Rightarrow> n
      | Some obj \<Rightarrow>
          let hash = bm_inventory_hash ssl obj
          in if bm_object_store_has (ok 0) hash (sn_pool n) then n
             else announce hash None now
               (n\<lparr>sn_pool := snd (bm_object_store_insert (ok 1) hash (sint BM_OBJECT_PUBKEY) (to_int32 (pj_stream job)) obj
                    (sint (pj_expires_time job)) now (sn_pool n)),
                  sn_pubkeys := snd (bm_pubkey_cache_set_self_response_id (ok 2) (pj_id job) (pj_address_version job) (pj_stream job)
                    hash (sint (pj_expires_time job)) (sn_pubkeys n))\<rparr>))"

definition reuse_cached_pubkey_response ::
  "bool \<times> bool \<Rightarrow> bytes \<Rightarrow> u64 \<Rightarrow> u64 \<Rightarrow> int \<Rightarrow> sync_node \<Rightarrow> bool \<times> sync_node" where
  "reuse_cached_pubkey_response ok ident address_version stream now n =
     (case bm_pubkey_cache_get_self_response_id (fst ok) ident address_version stream now (sn_pubkeys n) of
        (rc, Some cached_hash) \<Rightarrow>
          if rc \<noteq> 1 \<or> \<not> bm_object_store_has (snd ok) cached_hash (sn_pool n) then (False, n)
          else (True, announce cached_hash None now n)
      | (rc, None) \<Rightarrow> (False, n))"

definition submit_pubkey_response ::
  "job_env \<Rightarrow> bytes \<Rightarrow> u64 \<Rightarrow> bytes \<Rightarrow> u64 \<Rightarrow> u64 \<Rightarrow> u64 \<Rightarrow> bytes \<Rightarrow> int \<Rightarrow> sync_node \<Rightarrow> sync_node outcome" where
  "submit_pubkey_response env payload target ident address_version stream expires_time key now n =
     (if \<not> je_mem env then Done n
      else bind_outcome (submit_pow False (je_new_job env) (je_user_data env) payload target (Some key)
             (Other_done (Pubkey_response ident address_version stream expires_time)) (sn_pow n)) (\<lambda>(r, ps).
        Done (if submit_rc r < 0
              then n\<lparr>sn_pow := ps, sn_full_throttle :=
                snd (snd (bm_log_throttle_check now BM_POW_QUEUE_FULL_LOG_INTERVAL_SECONDS (sn_full_throttle n)))\<rparr>
              else n\<lparr>sn_pow := ps\<rparr>)))"

text \<open>The identity that a request asks for.\<close>

definition getpubkey_target :: "openssl \<Rightarrow> bm_object_header \<Rightarrow> bytes \<Rightarrow> keyring \<Rightarrow> bm_unlocked_identity option" where
  "getpubkey_target ssl hdr body kr =
     (if oh_version hdr < 2 \<or> 4 < oh_version hdr then None
      else if oh_version hdr \<le> 3
      then (if length body < 20 then None
            else (case bm_keyring_find_by_ripe_version body (oh_version hdr) (oh_stream hdr) kr of
                    Some u \<Rightarrow> Some u
                  | None \<Rightarrow> if oh_version hdr = 3 then bm_keyring_find_by_ripe_version body 4 (oh_stream hdr) kr else None))
      else (if length body < 32 then None
            else (case bm_keyring_find_by_tag ssl body kr of
                    None \<Rightarrow> None
                  | Some u \<Rightarrow> if ui_address_version u \<noteq> oh_version hdr \<or> ui_stream u \<noteq> oh_stream hdr then None else Some u)))"

record getpubkey_env =
  ge_now :: int
  ge_ok :: "bool \<times> bool"
  ge_rnd :: ecies_random
  ge_job :: job_env

definition handle_incoming_getpubkey ::
  "openssl \<Rightarrow> getpubkey_env \<Rightarrow> bm_object_header \<Rightarrow> bytes \<Rightarrow> sync_node \<Rightarrow> sync_node outcome" where
  "handle_incoming_getpubkey ssl env hdr object n =
     (case getpubkey_target ssl hdr (drop (header_len hdr) object) (sn_keyring n) of
        None \<Rightarrow> Done n
      | Some u \<Rightarrow>
          if ui_is_chan u then Done n
          else
            let info = identity_info (oh_version hdr) u; r = ui_ripe u; version = oh_version hdr; stream = ui_stream u
            in case reuse_cached_pubkey_response (ge_ok env) r version stream (ge_now env) n of
                 (True, n1) \<Rightarrow> Done n1
               | (False, n1) \<Rightarrow>
                   let expires_time = word_of_int (ge_now env) + BM_PUBKEY_RESPONSE_TTL_SECONDS
                   in case (if version = 2 then Some (bm_build_pubkey_v2 info expires_time)
                            else if version = 3 then bm_build_pubkey_v3 ssl info expires_time
                            else bm_build_pubkey_v4 ssl (ge_rnd env) info r expires_time) of
                        None \<Rightarrow> Done n1
                      | Some payload \<Rightarrow>
                          bind_outcome (bm_pow_get_target (word_of_nat (length payload)) BM_PUBKEY_RESPONSE_TTL_SECONDS
                              (ii_nonce_trials_per_byte info) (ii_payload_length_extra_bytes info)) (\<lambda>target.
                            submit_pubkey_response (ge_job env) payload target r version stream expires_time
                              ([0x50, ucast version] @ be64 stream @ r) (ge_now env) n1))"

section \<open>Broadcasts and onion peers\<close>

text \<open>For each subscription: memory for the decryption, SQLite's answer and the time.\<close>

fun broadcast_try ::
  "'b bignum \<Rightarrow> openssl \<Rightarrow> (nat \<Rightarrow> (u64 \<Rightarrow> bool) \<times> bool \<times> int) \<Rightarrow> bytes \<Rightarrow> nat \<Rightarrow> bytes list \<Rightarrow> messages_db \<Rightarrow> messages_db outcome" where
  "broadcast_try bn ssl env object i [] mdb = Done mdb"
| "broadcast_try bn ssl env object i (a # as) mdb =
     (case bm_address_decode bn ssl a of
        None \<Rightarrow> broadcast_try bn ssl env object (Suc i) as mdb
      | Some (version, stream, r) \<Rightarrow>
          (case env i of (mem, ok, now) \<Rightarrow>
             bind_outcome (bm_trial_decrypt_broadcast_and_store ssl mem ok object version stream r now mdb) (\<lambda>(rc, mdb1).
               if rc = 0 then Done mdb1 else broadcast_try bn ssl env object (Suc i) as mdb1)))"

definition handle_incoming_broadcast ::
  "'b bignum \<Rightarrow> openssl \<Rightarrow> bool \<Rightarrow> (nat \<Rightarrow> (u64 \<Rightarrow> bool) \<times> bool \<times> int) \<Rightarrow> bytes \<Rightarrow> sync_node \<Rightarrow> sync_node outcome" where
  "handle_incoming_broadcast bn ssl ok env object n =
     (case bm_messages_store_list_subscriptions ok (sn_messages n) of
        None \<Rightarrow> Done n
      | Some subs \<Rightarrow>
          bind_outcome (broadcast_try bn ssl env object 0 (map fst subs) (sn_messages n)) (\<lambda>mdb. Done (n\<lparr>sn_messages := mdb\<rparr>)))"

definition base32_alphabet :: bytes where
  "base32_alphabet = lit ''abcdefghijklmnopqrstuvwxyz234567''"

text \<open>At most two characters come out of one byte.\<close>

fun base32_drain :: "u64 \<Rightarrow> nat \<Rightarrow> bytes \<times> nat" where
  "base32_drain buffer bits =
     (if bits < 5 then ([], bits)
      else case base32_drain buffer (bits - 5) of (out, rest) \<Rightarrow>
        (base32_alphabet ! unat (drop_bit (bits - 5) buffer AND 0x1f) # out, rest))"

declare base32_drain.simps [simp del]

fun base32_encode_loop :: "bytes \<Rightarrow> u64 \<Rightarrow> nat \<Rightarrow> bytes" where
  "base32_encode_loop [] buffer bits =
     (if 0 < bits then [base32_alphabet ! unat (push_bit (5 - bits) buffer AND 0x1f)] else [])"
| "base32_encode_loop (b # bs) buffer bits =
     (let buffer' = push_bit 8 buffer OR ucast b
      in case base32_drain buffer' (bits + 8) of (out, rest) \<Rightarrow> out @ base32_encode_loop bs buffer' rest)"

definition base32_encode_lower :: "bytes \<Rightarrow> bytes" where
  "base32_encode_lower data = base32_encode_loop data 0 0"

definition ONIONCAT_PREFIX :: bytes where "ONIONCAT_PREFIX = [0xfd, 0x87, 0xd8, 0x7e, 0xeb, 0x43]"

definition handle_incoming_onionpeer :: "bool \<Rightarrow> int \<Rightarrow> bm_object_header \<Rightarrow> bytes \<Rightarrow> sync_node \<Rightarrow> sync_node" where
  "handle_incoming_onionpeer ok now hdr object n =
     (let body = drop (header_len hdr) object
      in case bm_varint_decode body of
           None \<Rightarrow> n
         | Some (port_len, port) \<Rightarrow>
             if port = 0 \<or> 65535 < port then n
             else
               let host = drop port_len body
               in if length host \<noteq> 6 + 35 \<or> take 6 host \<noteq> ONIONCAT_PREFIX then n
                  else
                    let onion_address = base32_encode_lower (drop 6 host) @ lit ''.onion''
                    in case sn_peers n of
                         None \<Rightarrow> n
                       | Some peers \<Rightarrow> n\<lparr>sn_peers := Some (snd (bm_peer_manager_upsert_learned ok onion_address (uint port)
                           (to_int32 (oh_stream hdr)) 1 now (lit ''onionpeer_obj'') peers))\<rparr>)"

definition onionpeer_done :: "openssl \<Rightarrow> bool \<times> bool \<Rightarrow> sync_job \<Rightarrow> bytes option \<Rightarrow> int \<Rightarrow> sync_node \<Rightarrow> sync_node" where
  "onionpeer_done ssl ok job object now n =
     (case object of
        None \<Rightarrow> n
      | Some obj \<Rightarrow>
          let hash = bm_inventory_hash ssl obj
          in if bm_object_store_has (fst ok) hash (sn_pool n) then n
             else announce hash None now
               (n\<lparr>sn_pool := snd (bm_object_store_insert (snd ok) hash (sint BM_OBJECT_ONIONPEER) (to_int32 (oj_stream job)) obj
                    (sint (oj_expires_time job)) now (sn_pool n))\<rparr>))"

definition bm_object_sync_announce_onion_peer :: "job_env \<Rightarrow> bytes \<Rightarrow> int \<Rightarrow> int \<Rightarrow> sync_node \<Rightarrow> (int \<times> sync_node) outcome" where
  "bm_object_sync_announce_onion_peer env onion_address port now n =
     (let expires_time = word_of_int now + BM_ONIONPEER_ANNOUNCE_TTL_SECONDS
      in case bm_build_onionpeer onion_address (word_of_int port) 1 expires_time of
           None \<Rightarrow> Done (-1, n)
         | Some payload \<Rightarrow>
             bind_outcome (bm_pow_get_target (word_of_nat (length payload)) BM_ONIONPEER_ANNOUNCE_TTL_SECONDS
                 BM_NETWORK_MIN_NONCE_TRIALS_PER_BYTE BM_NETWORK_MIN_PAYLOAD_LENGTH_EXTRA_BYTES) (\<lambda>target.
               if \<not> je_mem env then Done (0, n)
               else bind_outcome (submit_pow False (je_new_job env) (je_user_data env) payload target (Some [0x4f])
                      (Other_done (Onionpeer_job (take 63 (c_str onion_address)) port 1 expires_time)) (sn_pow n)) (\<lambda>(r, ps).
                 Done (0, n\<lparr>sn_pow := ps\<rparr>))))"

text \<open>A null pointer is \<open>None\<close>.\<close>

definition bm_object_sync_validate_onion_address :: "bytes option \<Rightarrow> int \<Rightarrow> int" where
  "bm_object_sync_validate_onion_address onion_address port =
     (case onion_address of
        None \<Rightarrow> -1
      | Some a \<Rightarrow> if c_str a = [] \<or> bm_build_onionpeer a (word_of_int port) 1 0 = None then -1 else 0)"

text \<open>\<open>peers\<close>: the number of connections in the registry.\<close>

definition bm_object_sync_maybe_reannounce_onion_peer ::
  "job_env \<Rightarrow> bytes option \<Rightarrow> int \<Rightarrow> nat \<Rightarrow> int \<Rightarrow> sync_node \<Rightarrow> sync_node outcome" where
  "bm_object_sync_maybe_reannounce_onion_peer env onion_address port peers now n =
     (case onion_address of
        None \<Rightarrow> Done n
      | Some a \<Rightarrow>
          if c_str a = [] then Done n
          else if sn_last_onion_announce n \<noteq> 0 \<and> now - sn_last_onion_announce n < BM_ONIONPEER_REANNOUNCE_INTERVAL_SECONDS then Done n
          else if sn_has_registry n \<and> peers = 0 then Done n
          else bind_outcome (bm_object_sync_announce_onion_peer env a port now (n\<lparr>sn_last_onion_announce := now\<rparr>)) (\<lambda>(rc, n1). Done n1))"

section \<open>Received objects\<close>

text \<open>
  What the system gives while one object is handled: the time at the start and at the later calls, SQLite's
  answers, and the memory for the decryption.
\<close>

record object_env =
  oe_now :: int
  oe_mark :: "bool \<times> (nat \<Rightarrow> bool \<times> bool)"
  oe_has :: bool
  oe_insert :: bool
  oe_mem :: "u64 \<Rightarrow> bool"
  oe_inbox :: bool
  oe_inbox_now :: int
  oe_ack :: "bool \<times> bool"
  oe_ack_now :: int
  oe_pending :: bool
  oe_pubkey :: "bool \<times> bool"
  oe_getpubkey :: getpubkey_env
  oe_subs :: bool
  oe_broadcast :: "nat \<Rightarrow> (u64 \<Rightarrow> bool) \<times> bool \<times> int"
  oe_onion :: "bool \<times> int"

fun first_pubkey_v4 :: "openssl \<Rightarrow> bytes \<Rightarrow> bm_pubkey_request list \<Rightarrow> bm_cached_pubkey option" where
  "first_pubkey_v4 ssl object [] = None"
| "first_pubkey_v4 ssl object (r # rs) =
     (case bm_parse_pubkey_v4 ssl object (pr_ripe r) (pr_address_version r) (pr_stream r) of
        Some c \<Rightarrow> Some c
      | None \<Rightarrow> first_pubkey_v4 ssl object rs)"

definition handle_incoming_pubkey ::
  "openssl \<Rightarrow> bool \<Rightarrow> bool \<times> bool \<Rightarrow> bm_object_header \<Rightarrow> bytes \<Rightarrow> int \<Rightarrow> sync_node \<Rightarrow> sync_node" where
  "handle_incoming_pubkey ssl ok_pending ok hdr object now n =
     (case (if oh_version hdr = 2 then bm_parse_pubkey_v2 ssl object
            else if oh_version hdr = 3 then bm_parse_pubkey_v3 ssl object
            else if oh_version hdr = 4
            then Option.bind (bm_pubkey_cache_list_pending_requests ok_pending (sn_pubkeys n)) (first_pubkey_v4 ssl object)
            else None) of
        None \<Rightarrow> n
      | Some cached \<Rightarrow>
          n\<lparr>sn_pubkeys := snd (bm_pubkey_cache_clear_request (snd ok) (cp_ripe cached)
              (snd (bm_pubkey_cache_upsert (fst ok) cached now (sn_pubkeys n))))\<rparr>)"

text \<open>The object by its type; \<open>conn\<close> is the connection it came from.\<close>

definition handle_new_object ::
  "'b bignum \<Rightarrow> protocol_globals \<Rightarrow> openssl \<Rightarrow> object_env \<Rightarrow> nat \<Rightarrow> bm_object_header \<Rightarrow> bytes \<Rightarrow> sync_node \<Rightarrow> sync_node outcome" where
  "handle_new_object bn g ssl env conn hdr object n =
     (if oh_object_type hdr = BM_OBJECT_MSG
      then bind_outcome (bm_trial_decrypt_and_store ssl (oe_mem env) (oe_inbox env) (sn_keyring n) object (oe_inbox_now env) True
             (sn_messages n)) (\<lambda>(decrypted, ack, mdb).
             let n1 = n\<lparr>sn_messages := mdb\<rparr>
             in case ack of
                  Some ack_payload \<Rightarrow>
                    if decrypted = 0 \<and> 0 < length ack_payload
                    then validate_and_store_ack g ssl (oe_ack env) (Some conn) ack_payload (oe_ack_now env) n1 else Done n1
                | None \<Rightarrow> Done n1)
      else if oh_object_type hdr = BM_OBJECT_PUBKEY
      then Done (handle_incoming_pubkey ssl (oe_pending env) (oe_pubkey env) hdr object (oe_now env) n)
      else if oh_object_type hdr = BM_OBJECT_GETPUBKEY then handle_incoming_getpubkey ssl (oe_getpubkey env) hdr object n
      else if oh_object_type hdr = BM_OBJECT_BROADCAST
      then handle_incoming_broadcast bn ssl (oe_subs env) (oe_broadcast env) object n
      else if oh_object_type hdr = BM_OBJECT_ONIONPEER
      then Done (handle_incoming_onionpeer (fst (oe_onion env)) (snd (oe_onion env)) hdr object n)
      else Done n)"

definition handle_object ::
  "'b bignum \<Rightarrow> protocol_globals \<Rightarrow> openssl \<Rightarrow> object_env \<Rightarrow> nat \<Rightarrow> bm_message \<Rightarrow> sync_node \<Rightarrow> sync_node outcome" where
  "handle_object bn g ssl env conn msg n =
     (let object = payload_of msg
      in if BM_MAX_OBJECT_PAYLOAD_SIZE < length object then Done n
         else case bm_object_parse_header object of
           None \<Rightarrow> Done n
         | Some hdr \<Rightarrow>
             if is_expired hdr (oe_now env) then Done n
             else bind_outcome (object_pow_is_valid ssl object hdr (oe_now env)) (\<lambda>valid.
               if \<not> valid then Done n
               else
                 let hash = bm_inventory_hash ssl object;
                     n1 = n\<lparr>sn_messages := snd (bm_messages_store_try_mark_ack_received ssl (fst (oe_mark env)) (snd (oe_mark env))
                            hash (sn_messages n))\<rparr>
                 in if bm_object_store_has (oe_has env) hash (sn_pool n1) then Done n1
                    else handle_new_object bn g ssl env conn hdr object
                      (announce hash (Some conn) (oe_now env) (pool_insert_object ssl (oe_insert env) object hdr (oe_now env) n1))))"

section \<open>Sending again\<close>

text \<open>\<open>resend_done\<close>; \<open>ok\<close>: the answers for the query and the insertion.\<close>

definition resend_done :: "openssl \<Rightarrow> bool \<times> bool \<Rightarrow> int \<Rightarrow> bytes option \<Rightarrow> int \<Rightarrow> sync_node \<Rightarrow> sync_node" where
  "resend_done ssl ok rc object now n =
     (case object of
        Some obj \<Rightarrow>
          if rc \<noteq> 0 then n
          else (case bm_object_parse_header obj of
                  None \<Rightarrow> n
                | Some hdr \<Rightarrow>
                    if bm_object_store_has (fst ok) (bm_inventory_hash ssl obj) (sn_pool n) then n
                    else announce (bm_inventory_hash ssl obj) None now (pool_insert_object ssl (snd ok) obj hdr now n))
      | None \<Rightarrow> n)"

fun resend_loop ::
  "'b bignum \<Rightarrow> openssl \<Rightarrow> (nat \<Rightarrow> pipe_env \<times> job_env) \<Rightarrow> int \<Rightarrow> nat \<Rightarrow> bm_sent_resend_candidate list \<Rightarrow> sync_node \<Rightarrow> sync_node outcome" where
  "resend_loop bn ssl env now i [] n = Done n"
| "resend_loop bn ssl env now i (c # cs) n =
     (case env i of (penv, jenv) \<Rightarrow>
        if \<not> je_mem jenv then resend_loop bn ssl env now (Suc i) cs n
        else
          let attempt = rc_resend_count c + 1
          in bind_outcome (bm_send_pipeline_send_message_async bn ssl penv (je_new_job jenv) (je_user_data jenv) (sn_keyring n)
               (sn_identities n) (rc_from_address c) (rc_to_address c) (rc_subject c) (rc_body c) (word_of_int (rc_ttl c))
               (rc_ack_stealth_level c) (Some (rc_msg_id c)) (now + BM_RESEND_INITIAL_INTERVAL_SECONDS * 2 ^ attempt) now
               (Resend_done (take 63 (c_str (rc_to_address c))) (int attempt)) (sn_pubkeys n, sn_pow n)) (\<lambda>(rc, pdb, ps).
               resend_loop bn ssl env now (Suc i) cs (n\<lparr>sn_pubkeys := pdb, sn_pow := ps\<rparr>)))"

definition bm_object_sync_check_resends ::
  "'b bignum \<Rightarrow> openssl \<Rightarrow> bool \<Rightarrow> (nat \<Rightarrow> pipe_env \<times> job_env) \<Rightarrow> int \<Rightarrow> sync_node \<Rightarrow> (nat \<times> sync_node) outcome" where
  "bm_object_sync_check_resends bn ssl ok env now n =
     (let n1 = n\<lparr>sn_last_resend_check := now\<rparr>
      in case bm_messages_store_list_resend_candidates ok now BM_RESEND_MAX_ATTEMPTS (sn_messages n1) of
           None \<Rightarrow> Done (0, n1)
         | Some cs \<Rightarrow> bind_outcome (resend_loop bn ssl env now 0 cs n1) (\<lambda>n2. Done (length cs, n2)))"

definition maybe_run_resend_check ::
  "'b bignum \<Rightarrow> openssl \<Rightarrow> bool \<Rightarrow> (nat \<Rightarrow> pipe_env \<times> job_env) \<Rightarrow> int \<Rightarrow> sync_node \<Rightarrow> sync_node outcome" where
  "maybe_run_resend_check bn ssl ok env now n =
     (if BM_OBJECT_SYNC_RESEND_CHECK_INTERVAL_SECONDS \<le> now - sn_last_resend_check n
      then bind_outcome (bm_object_sync_check_resends bn ssl ok env now n) (\<lambda>(c, n1). Done n1) else Done n)"

section \<open>The callbacks of the queue\<close>

text \<open>
  What happens when the worker calls back: the callback of the job runs, then what it reports as done. The
  report to the API, and the object of its request for a key, are left to its caller.
\<close>

record callback_env =
  ce_pipe :: pipe_env
  ce_job :: job_env
  ce_sent :: "bool \<times> bool"
  ce_ok :: "nat \<Rightarrow> bool"

definition run_send_done :: "openssl \<Rightarrow> callback_env \<Rightarrow> send_done send_done_call \<Rightarrow> sync_node \<Rightarrow> sync_node" where
  "run_send_done ssl env c n =
     (case c of (Resend_done to_address attempt, rc, object, now) \<Rightarrow> resend_done ssl (ce_ok env 0, ce_ok env 1) rc object now n
              | (Api_done i, rc, object, now) \<Rightarrow> n)"

definition run_pow_callback ::
  "protocol_globals \<Rightarrow> openssl \<Rightarrow> callback_env \<Rightarrow> nat \<Rightarrow> bytes option \<Rightarrow> int \<Rightarrow> sync_node \<Rightarrow> sync_node outcome" where
  "run_pow_callback g ssl env user_data object now n =
     (case ps_callbacks (sn_pow n) user_data of
        None \<Rightarrow> Fault
      | Some cb \<Rightarrow>
          let n0 = n\<lparr>sn_pow := (sn_pow n)\<lparr>ps_callbacks := (ps_callbacks (sn_pow n))(user_data := None)\<rparr>\<rparr>
          in case cb of
               Ack_pow_done job \<Rightarrow>
                 bind_outcome (ack_pow_done g ssl (ce_pipe env) (je_new_job (ce_job env)) user_data job object now (sn_pow n0))
                   (\<lambda>(calls, ps). Done (fold (run_send_done ssl env) calls (n0\<lparr>sn_pow := ps\<rparr>)))
             | Msg_pow_done job \<Rightarrow>
                 (case msg_pow_done ssl (ce_sent env) job object now (sn_messages n0) of
                    (call, mdb) \<Rightarrow> Done (run_send_done ssl env call (n0\<lparr>sn_messages := mdb\<rparr>)))
             | Broadcast_pow_done d \<Rightarrow> Done (run_send_done ssl env (broadcast_pow_done d object now) n0)
             | Other_done (Pubkey_response ident version stream expires) \<Rightarrow>
                 Done (pubkey_response_done ssl (ce_ok env) (Pubkey_response ident version stream expires) object now n0)
             | Other_done (Onionpeer_job address port stream expires) \<Rightarrow>
                 Done (onionpeer_done ssl (ce_ok env 0, ce_ok env 1) (Onionpeer_job address port stream expires) object now n0)
             | Other_done Getpubkey_request \<Rightarrow> Done n0)"

section \<open>Objects of the user\<close>

text \<open>One round of \<open>bm_object_sync_broadcast_thread\<close>: the object that the API put into the queue.\<close>

definition broadcast_thread_item :: "openssl \<Rightarrow> bool \<times> bool \<Rightarrow> bytes \<Rightarrow> int \<Rightarrow> sync_node \<Rightarrow> sync_node" where
  "broadcast_thread_item ssl ok object now n =
     (case bm_object_parse_header object of
        None \<Rightarrow> n
      | Some hdr \<Rightarrow>
          let hash = bm_inventory_hash ssl object;
              already_known = bm_object_store_has (fst ok) hash (sn_pool n);
              n1 = pool_insert_object ssl (snd ok) object hdr now n
          in if already_known then n1 else announce hash None now n1)"

text \<open>Messages that came before their key was unlocked. For each object: SQLite's answers, memory and the time.\<close>

fun backfill_loop ::
  "openssl \<Rightarrow> (nat \<Rightarrow> bool \<times> (u64 \<Rightarrow> bool) \<times> bool \<times> int) \<Rightarrow> object_pool \<Rightarrow> keyring \<Rightarrow> nat \<Rightarrow> bytes list \<Rightarrow> messages_db
     \<Rightarrow> (nat \<times> messages_db) outcome" where
  "backfill_loop ssl env pool kr i [] mdb = Done (0, mdb)"
| "backfill_loop ssl env pool kr i (h # hs) mdb =
     (case env i of (ok_get, mem, ok, now) \<Rightarrow>
        (case bm_object_store_get ok_get h pool of
           None \<Rightarrow> backfill_loop ssl env pool kr (Suc i) hs mdb
         | Some payload \<Rightarrow>
             bind_outcome (bm_trial_decrypt_and_store ssl mem ok kr payload now False mdb) (\<lambda>(rc, ack, mdb1).
             bind_outcome (backfill_loop ssl env pool kr (Suc i) hs mdb1) (\<lambda>(count, mdb2).
               Done (if rc = 0 then count + 1 else count, mdb2)))))"

fun backfill_first ::
  "openssl \<Rightarrow> (nat \<Rightarrow> (u64 \<Rightarrow> bool) \<times> bool) \<Rightarrow> bytes \<Rightarrow> int \<Rightarrow> nat \<Rightarrow> bm_unlocked_identity list \<Rightarrow> messages_db
     \<Rightarrow> (bool \<times> messages_db) outcome" where
  "backfill_first ssl env payload now j [] mdb = Done (False, mdb)"
| "backfill_first ssl env payload now j (u # us) mdb =
     bind_outcome (bm_trial_decrypt_and_store_single ssl (fst (env j)) (snd (env j)) u payload now False mdb) (\<lambda>(rc, ack, mdb1).
       if rc = 0 then Done (True, mdb1) else backfill_first ssl env payload now (Suc j) us mdb1)"

fun backfill_addresses_loop ::
  "openssl \<Rightarrow> (nat \<Rightarrow> bool \<times> (nat \<Rightarrow> (u64 \<Rightarrow> bool) \<times> bool)) \<Rightarrow> object_pool \<Rightarrow> bm_unlocked_identity list \<Rightarrow> int \<Rightarrow> nat \<Rightarrow> bytes list \<Rightarrow> messages_db
     \<Rightarrow> (nat \<times> messages_db) outcome" where
  "backfill_addresses_loop ssl env pool us now i [] mdb = Done (0, mdb)"
| "backfill_addresses_loop ssl env pool us now i (h # hs) mdb =
     (case env i of (ok_get, each) \<Rightarrow>
        (case bm_object_store_get ok_get h pool of
           None \<Rightarrow> backfill_addresses_loop ssl env pool us now (Suc i) hs mdb
         | Some payload \<Rightarrow>
             bind_outcome (backfill_first ssl each payload now 0 us mdb) (\<lambda>(matched, mdb1).
             bind_outcome (backfill_addresses_loop ssl env pool us now (Suc i) hs mdb1) (\<lambda>(count, mdb2).
               Done (if matched then count + 1 else count, mdb2)))))"

definition bm_object_sync_backfill_trial_decrypt_addresses ::
  "openssl \<Rightarrow> bool \<times> bool \<times> bool \<Rightarrow> bool \<Rightarrow> (nat \<Rightarrow> bool \<times> (nat \<Rightarrow> (u64 \<Rightarrow> bool) \<times> bool)) \<Rightarrow> object_pool \<Rightarrow> keyring \<Rightarrow> bytes list \<Rightarrow> int
     \<Rightarrow> messages_db \<Rightarrow> (int \<times> messages_db) outcome" where
  "bm_object_sync_backfill_trial_decrypt_addresses ssl list_env mem env pool kr addresses now mdb =
     (case bm_object_store_list_hashes_by_type list_env (sint BM_OBJECT_MSG) pool of
        None \<Rightarrow> Done (-1, mdb)
      | Some hashes \<Rightarrow>
          if addresses \<noteq> [] \<and> \<not> mem then Done (-1, mdb)
          else
            let us = List.map_filter (\<lambda>a. bm_keyring_find_by_address a kr) addresses
            in if us = [] then Done (0, mdb)
               else bind_outcome (backfill_addresses_loop ssl env pool us now 0 hashes mdb) (\<lambda>(count, mdb1). Done (int count, mdb1)))"

definition bm_object_sync_backfill_trial_decrypt ::
  "openssl \<Rightarrow> bool \<times> bool \<times> bool \<Rightarrow> bool \<Rightarrow> (nat \<Rightarrow> bool \<times> (u64 \<Rightarrow> bool) \<times> bool \<times> int) \<Rightarrow> object_pool \<Rightarrow> keyring \<Rightarrow> bytes option \<Rightarrow> int
     \<Rightarrow> messages_db \<Rightarrow> (int \<times> messages_db) outcome" where
  "bm_object_sync_backfill_trial_decrypt ssl list_env mem env pool kr address_filter now mdb =
     (case address_filter of
        Some a \<Rightarrow> bm_object_sync_backfill_trial_decrypt_addresses ssl list_env mem
          (\<lambda>i. case env i of (ok_get, m, ok, _) \<Rightarrow> (ok_get, \<lambda>_. (m, ok))) pool kr [a] now mdb
      | None \<Rightarrow>
          (case bm_object_store_list_hashes_by_type list_env (sint BM_OBJECT_MSG) pool of
             None \<Rightarrow> Done (-1, mdb)
           | Some hashes \<Rightarrow>
               bind_outcome (backfill_loop ssl env pool kr 0 hashes mdb) (\<lambda>(count, mdb1). Done (int count, mdb1))))"

end
