(* ===== verification/Dispatch.thy ===== *)
theory Dispatch
  imports Object_Sync
begin

text \<open>
  The handler of the messages of a connection, \<open>bm_object_sync_dispatch\<close> of \<open>src/infra/object_sync.c\<close>:
  handshake, addresses, inventories, objects and errors, and what is sent after the handshake. The state is
  the context of the node with the connection the message came from. As in \<open>Event_Loop\<close>, \<open>None\<close> inside the
  outcome stands for a send loop that the answers of the socket do not end.
\<close>

abbreviation BM_MIN_PROTOCOL_VERSION :: u32 where "BM_MIN_PROTOCOL_VERSION \<equiv> 3"
abbreviation BM_MAX_TIME_OFFSET_SECONDS :: int where "BM_MAX_TIME_OFFSET_SECONDS \<equiv> 3600"
abbreviation BM_VERACK_REPLY_DELAY_SECONDS :: int where "BM_VERACK_REPLY_DELAY_SECONDS \<equiv> 5"
abbreviation BM_ADDR_SHARE_MAX_COUNT :: nat where "BM_ADDR_SHARE_MAX_COUNT \<equiv> 500"

type_synonym node_conn = "sync_node \<times> bm_fd_data"

definition with_stats ::
  "(net_stats \<times> bm_fd_data \<Rightarrow> (int \<times> net_stats \<times> bm_fd_data) option outcome) \<Rightarrow> node_conn \<Rightarrow> (int \<times> node_conn) option outcome" where
  "with_stats f s =
     bind_outcome (f (sn_stats (fst s), snd s)) (\<lambda>r.
       Done (map_option (\<lambda>(rc, st, conn). (rc, (fst s)\<lparr>sn_stats := st\<rparr>, conn)) r))"

definition node_send :: "send_env \<Rightarrow> bytes \<Rightarrow> int \<Rightarrow> node_conn \<Rightarrow> (int \<times> node_conn) option outcome" where
  "node_send env packet now = with_stats (send_packet env packet now)"

text \<open>A packet that is sent if it can be allocated; the result of sending is only logged.\<close>

definition try_send :: "send_env \<Rightarrow> bytes \<Rightarrow> int \<Rightarrow> node_conn \<Rightarrow> node_conn option outcome" where
  "try_send env packet now s =
     (if se_mem env then bind_run (node_send env packet now s) (\<lambda>(rc, s1). Done (Some s1)) else Done (Some s))"

section \<open>Peers\<close>

definition is_routable_ipv4_peer_address :: "bytes \<Rightarrow> bool" where
  "is_routable_ipv4_peer_address v4 \<longleftrightarrow> \<not> (v4 ! 0 = 0 \<or> v4 ! 0 = 10 \<or> v4 ! 0 = 127 \<or> (v4 ! 0 = 169 \<and> v4 ! 1 = 254) \<or>
     (v4 ! 0 = 172 \<and> 16 \<le> v4 ! 1 \<and> v4 ! 1 \<le> 31) \<or> (v4 ! 0 = 192 \<and> v4 ! 1 = 168) \<or> 224 \<le> v4 ! 0)"

definition record_outbound_success :: "(sockaddr \<Rightarrow> bytes) \<Rightarrow> bool \<Rightarrow> int \<Rightarrow> bm_fd_data \<Rightarrow> sync_node \<Rightarrow> sync_node" where
  "record_outbound_success ntop ok now conn n =
     (case sn_peers n of
        None \<Rightarrow> n
      | Some peers \<Rightarrow>
          if fd_type conn \<noteq> BM_FD_CLIENT_SOCKET then n
          else (case bm_network_resolve_peer_ip_port ntop conn of (ip, port) \<Rightarrow>
                  if c_str ip = [] then n
                  else n\<lparr>sn_peers := Some (snd (bm_peer_manager_record_result ok now ip port 1 True peers))\<rparr>))"

definition IPV4_MAPPED_PREFIX :: bytes where "IPV4_MAPPED_PREFIX = [0, 0, 0, 0, 0, 0, 0, 0, 0, 0, 0xff, 0xff]"

text \<open>\<open>inet_ntop\<close> and \<open>inet_pton\<close> for IPv4: four decimal numbers without leading zeros.\<close>

definition ipv4_text :: "bytes \<Rightarrow> bytes" where
  "ipv4_text v4 = dec (unat (v4 ! 0)) @ [46] @ dec (unat (v4 ! 1)) @ [46] @ dec (unat (v4 ! 2)) @ [46] @ dec (unat (v4 ! 3))"

fun ipv4_octets :: "bytes \<Rightarrow> bytes \<Rightarrow> nat option \<Rightarrow> bytes option" where
  "ipv4_octets [] done cur =
     (case cur of None \<Rightarrow> None | Some v \<Rightarrow> if length done = 3 then Some (done @ [word_of_nat v]) else None)"
| "ipv4_octets (c # cs) done cur =
     (if is_digit c
      then (case cur of
              None \<Rightarrow> ipv4_octets cs done (Some (unat (c - 48)))
            | Some v \<Rightarrow> if v = 0 \<or> 255 < 10 * v + unat (c - 48) then None else ipv4_octets cs done (Some (10 * v + unat (c - 48))))
      else if c = 46
      then (case cur of None \<Rightarrow> None | Some v \<Rightarrow> if length done = 3 then None else ipv4_octets cs (done @ [word_of_nat v]) None)
      else None)"

definition inet_pton4 :: "bytes \<Rightarrow> bytes option" where
  "inet_pton4 s = ipv4_octets (c_str s) [] None"

section \<open>addr\<close>

definition addr_accepted :: "int \<Rightarrow> bm_address_info \<Rightarrow> bool" where
  "addr_accepted now e \<longleftrightarrow> ai_port e \<noteq> 0 \<and> take 12 (ai_ip e) = IPV4_MAPPED_PREFIX \<and>
     is_routable_ipv4_peer_address (drop 12 (ai_ip e)) \<and> sint (ai_time e) \<le> now"

fun addr_loop :: "(nat \<Rightarrow> bool) \<Rightarrow> int \<Rightarrow> nat \<Rightarrow> bm_address_info list \<Rightarrow> peers_db \<Rightarrow> peers_db" where
  "addr_loop ok now i [] peers = peers"
| "addr_loop ok now i (e # es) peers =
     addr_loop ok now (Suc i) es
       (if addr_accepted now e
        then snd (bm_peer_manager_upsert_learned (ok i) (ipv4_text (drop 12 (ai_ip e))) (uint (ai_port e)) (sint (ai_stream e))
               (ai_services e) (sint (ai_time e)) (lit ''addr_msg'') peers)
        else peers)"

definition handle_addr :: "(u64 \<Rightarrow> bool) \<Rightarrow> (nat \<Rightarrow> bool) \<Rightarrow> int \<Rightarrow> bytes \<Rightarrow> sync_node \<Rightarrow> sync_node outcome" where
  "handle_addr mem ok now payload n =
     bind_outcome (bm_parse_addr_message mem payload) (\<lambda>r.
       Done (case (r, sn_peers n) of
               (Some addresses, Some peers) \<Rightarrow> n\<lparr>sn_peers := Some (addr_loop ok now 0 (take BM_MAX_INVENTORY_ITEMS addresses) peers)\<rparr>
             | _ \<Rightarrow> n))"

section \<open>Handshake\<close>

record version_env =
  ve_mem :: "u64 \<Rightarrow> bool"
  ve_now :: int
  ve_strdup :: bool
  ve_error :: send_env
  ve_error_time :: int
  ve_ok :: bool
  ve_result_time :: int
  ve_verack :: send_env
  ve_verack_time :: int
  ve_version :: send_env
  ve_version_time :: int
  ve_version_rnd :: "u64 option"

definition disconnect :: "node_conn \<Rightarrow> node_conn" where
  "disconnect s = (fst s, (snd s)\<lparr>should_disconnect := True\<rparr>)"

text \<open>The difference of the clocks is taken at 64 bits. The first result says that the handler returns at once.\<close>

definition handle_version ::
  "protocol_globals \<Rightarrow> openssl \<Rightarrow> (sockaddr \<Rightarrow> bytes) \<Rightarrow> version_env \<Rightarrow> bytes \<Rightarrow> node_conn
     \<Rightarrow> (bool \<times> node_conn) option outcome" where
  "handle_version g ssl ntop env payload s =
     (case s of (n, conn) \<Rightarrow>
        bind_outcome (bm_parse_version_message (ve_mem env) payload) (\<lambda>ver.
          if vm_version ver < BM_MIN_PROTOCOL_VERSION
          then bind_run (try_send (ve_error env) (bm_create_error_message g ssl 2 0
                 (lit ''Your is using an old protocol. Closing connection.'')) (ve_error_time env) s) (\<lambda>s1. Done (Some (True, disconnect s1)))
          else
            let time_offset = sint (vm_timestamp ver - word_of_int (ve_now env))
            in if BM_MAX_TIME_OFFSET_SECONDS < time_offset \<or> time_offset < - BM_MAX_TIME_OFFSET_SECONDS
               then (case bm_log_throttle_check (ve_now env) BM_TIME_OFFSET_LOG_INTERVAL_SECONDS (sn_time_throttle n) of
                       (emit, _, t) \<Rightarrow>
                         bind_run (try_send (ve_error env) (bm_create_error_message g ssl 2 0
                           (if 0 < time_offset then lit ''Your time is too far in the future compared to mine. Closing connection.''
                            else lit ''Your time is too far in the past compared to mine. Closing connection.'')) (ve_now env)
                           (n\<lparr>sn_time_throttle := t\<rparr>, if emit then conn else conn\<lparr>disconnect_log_quiet := True\<rparr>))
                         (\<lambda>s1. Done (Some (True, disconnect s1))))
               else
                 let conn1 = conn\<lparr>fd_services := vm_services ver,
                       fd_user_agent := (if ve_strdup env then Some (c_str (vm_user_agent ver)) else None)\<rparr>;
                     n1 = record_outbound_success ntop (ve_ok env) (ve_result_time env) conn1 n
                 in bind_run (with_stats (\<lambda>(st, c). bm_reply_verack g ssl (se_alloc (ve_verack env) (heap (send_queue c))) (se_ctl (ve_verack env))
                        (se_answers (ve_verack env)) (ve_verack_time env) (st, c)) (n1, conn1)) (\<lambda>(rc, n2, conn2).
                      case sn_user_agent n2 of
                        None \<Rightarrow> Done (Some (False, n2, conn2))
                      | Some ua \<Rightarrow>
                          if fd_type conn2 \<noteq> BM_FD_SERVER_SOCKET then Done (Some (False, n2, conn2))
                          else bind_run (with_stats (\<lambda>(st, c). bm_post_version g ssl (word_of_int (ve_version_time env)) (ve_version_rnd env)
                                 (se_alloc (ve_version env) (heap (send_queue c))) (se_ctl (ve_version env)) (se_answers (ve_version env))
                                 ua 3 (fd_peer_addr c) bm_unspecified_ipv4_address (ve_version_time env) (st, c)) (n2, conn2))
                               (\<lambda>(rc, s3). Done (Some (False, s3))))))"

definition handle_verack :: "(sockaddr \<Rightarrow> bytes) \<Rightarrow> bool \<Rightarrow> int \<Rightarrow> node_conn \<Rightarrow> node_conn" where
  "handle_verack ntop ok now s =
     (case s of (n, conn) \<Rightarrow>
        let conn1 = conn\<lparr>handshake_complete := True\<rparr>
        in (record_outbound_success ntop ok now conn1 n,
            conn1\<lparr>pending_verack_reply_at := last_activity conn1 + BM_VERACK_REPLY_DELAY_SECONDS\<rparr>))"

section \<open>After the handshake\<close>

definition shared_address :: "bm_peer_entry \<Rightarrow> bm_address_info option" where
  "shared_address e = map_option (\<lambda>v4. \<lparr>ai_time = word_of_int (bp_last_seen e), ai_stream = word_of_int (bp_stream e),
     ai_services = bp_services e, ai_ip = IPV4_MAPPED_PREFIX @ v4, ai_port = word_of_int (bp_port e)\<rparr>) (inet_pton4 (bp_ip_address e))"

text \<open>The array is used without a check that it was allocated (\<open>mem\<close>).\<close>

record reply_env =
  re_ok :: bool
  re_now :: int
  re_mem :: bool
  re_addr :: send_env
  re_list :: "bool \<times> bool \<times> bool"
  re_plain :: bool
  re_inv :: send_env

definition send_addr_reply :: "protocol_globals \<Rightarrow> openssl \<Rightarrow> reply_env \<Rightarrow> node_conn \<Rightarrow> node_conn option outcome" where
  "send_addr_reply g ssl env s =
     (case Option.bind (sn_peers (fst s)) (bm_peer_manager_list_shareable (re_ok env) 1 (re_now env) BM_ADDR_SHARE_MAX_COUNT) of
        None \<Rightarrow> Done (Some s)
      | Some candidates \<Rightarrow>
          let addresses = List.map_filter shared_address candidates
          in if addresses \<noteq> [] \<and> \<not> re_mem env then Fault
             else (case bm_create_addr_message g ssl addresses of
                     None \<Rightarrow> Done (Some s)
                   | Some packet \<Rightarrow> try_send (re_addr env) packet (re_now env) s))"

definition send_big_inv :: "protocol_globals \<Rightarrow> openssl \<Rightarrow> reply_env \<Rightarrow> node_conn \<Rightarrow> node_conn option outcome" where
  "send_big_inv g ssl env s =
     (case s of (n, conn) \<Rightarrow>
        case bm_object_store_list_hashes_by_stream (re_list env) 1 (re_now env) (sn_pool n) of
          None \<Rightarrow> Done (Some s)
        | Some hashes \<Rightarrow>
            if hashes = [] \<or> \<not> re_plain env then Done (Some s)
            else
              let plain = filter (\<lambda>h. \<not> bm_dandelion_is_stemming h (sn_dandelion n)) hashes
              in if plain = [] then Done (Some s)
                 else bind_run (bm_network_begin_big_inv g ssl (se_mem (re_inv env)) (se_alloc (re_inv env) (heap (send_queue conn)))
                        (se_ctl (re_inv env)) (se_answers (re_inv env)) plain (length plain) (re_now env) (sn_stats n, conn))
                      (\<lambda>(st, conn1). Done (Some (n\<lparr>sn_stats := st\<rparr>, conn1))))"

definition send_verack_reply :: "protocol_globals \<Rightarrow> openssl \<Rightarrow> reply_env \<Rightarrow> node_conn \<Rightarrow> node_conn option outcome" where
  "send_verack_reply g ssl env s = bind_run (send_addr_reply g ssl env s) (send_big_inv g ssl env)"

definition flush_verack_reply_one :: "protocol_globals \<Rightarrow> openssl \<Rightarrow> reply_env \<Rightarrow> int \<Rightarrow> node_conn \<Rightarrow> node_conn option outcome" where
  "flush_verack_reply_one g ssl env now s =
     (if pending_verack_reply_at (snd s) \<noteq> 0 \<and> pending_verack_reply_at (snd s) \<le> now
      then bind_run (send_verack_reply g ssl env s) (\<lambda>(n, conn). Done (Some (n, conn\<lparr>pending_verack_reply_at := 0\<rparr>)))
      else Done (Some s))"

text \<open>For every connection of the registry, under its lock.\<close>

fun flush_verack_loop ::
  "protocol_globals \<Rightarrow> openssl \<Rightarrow> (nat \<Rightarrow> reply_env) \<Rightarrow> int \<Rightarrow> nat \<Rightarrow> nat list \<Rightarrow> sync_node \<times> conn_mem
     \<Rightarrow> (sync_node \<times> conn_mem) option outcome" where
  "flush_verack_loop g ssl env now i [] s = Done (Some s)"
| "flush_verack_loop g ssl env now i (c # cs) (n, m) =
     (case m c of
        None \<Rightarrow> Fault
      | Some conn \<Rightarrow>
          bind_run (flush_verack_reply_one g ssl (env i) now (n, conn)) (\<lambda>(n1, conn1).
            flush_verack_loop g ssl env now (Suc i) cs (n1, m(c \<mapsto> conn1))))"

definition bm_object_sync_flush_pending_verack_replies ::
  "protocol_globals \<Rightarrow> openssl \<Rightarrow> (nat \<Rightarrow> reply_env) \<Rightarrow> bm_peer_registry option \<Rightarrow> int \<Rightarrow> sync_node \<times> conn_mem
     \<Rightarrow> (sync_node \<times> conn_mem) option outcome" where
  "bm_object_sync_flush_pending_verack_replies g ssl env registry now s =
     (case registry of None \<Rightarrow> Done (Some s) | Some reg \<Rightarrow> flush_verack_loop g ssl env now 0 (reg_conns reg) s)"

text \<open>The hook of the network thread's sweep; without a context it does nothing.\<close>

definition bm_object_sync_on_network_sweep ::
  "protocol_globals \<Rightarrow> openssl \<Rightarrow> (nat \<Rightarrow> reply_env) \<Rightarrow> bm_peer_registry option \<Rightarrow> int \<Rightarrow> sync_node option \<times> conn_mem
     \<Rightarrow> (sync_node option \<times> conn_mem) option outcome" where
  "bm_object_sync_on_network_sweep g ssl env registry now s =
     (case s of
        (None, m) \<Rightarrow> Done (Some s)
      | (Some n, m) \<Rightarrow> bind_run (bm_object_sync_flush_pending_verack_replies g ssl env registry now (n, m)) (\<lambda>(n1, m1). Done (Some (Some n1, m1))))"

section \<open>Errors of the peer\<close>

text \<open>The fields behind the first number are only read for the log; the reads stay within the payload.\<close>

definition handle_error :: "(sockaddr \<Rightarrow> bytes) \<Rightarrow> bool \<Rightarrow> int \<Rightarrow> bytes \<Rightarrow> bm_fd_data \<Rightarrow> sync_node \<Rightarrow> sync_node" where
  "handle_error ntop ok now payload conn n =
     (let fatal = (case bm_varint_decode payload of None \<Rightarrow> 0 | Some (_, v) \<Rightarrow> v)
      in case sn_peers n of
           None \<Rightarrow> n
         | Some peers \<Rightarrow>
             if fatal < 1 \<or> fd_type conn \<noteq> BM_FD_CLIENT_SOCKET then n
             else (case bm_network_resolve_peer_ip_port ntop conn of (ip, port) \<Rightarrow>
                     if c_str ip = [] then n
                     else n\<lparr>sn_peers := Some (snd (bm_peer_manager_record_result ok now ip port 1 False peers))\<rparr>))"

section \<open>The handler\<close>

record dispatch_env =
  de_version :: version_env
  de_now :: int
  de_ok :: bool
  de_pong :: send_env
  de_addr_mem :: "u64 \<Rightarrow> bool"
  de_addr_ok :: "nat \<Rightarrow> bool"
  de_inv :: inv_handler_env
  de_upload_mem :: bool
  de_upload :: "nat \<Rightarrow> bool \<times> send_env"
  de_object :: object_env
  de_gc :: bool
  de_gc_now :: int
  de_resend :: bool
  de_resend_env :: "nat \<Rightarrow> pipe_env \<times> job_env"
  de_resend_now :: int

definition handle_command ::
  "'b bignum \<Rightarrow> protocol_globals \<Rightarrow> openssl \<Rightarrow> (sockaddr \<Rightarrow> bytes) \<Rightarrow> dispatch_env \<Rightarrow> nat \<Rightarrow> bm_message \<Rightarrow> node_conn
     \<Rightarrow> node_conn option outcome" where
  "handle_command bn g ssl ntop env fd msg s =
     (case s of (n, conn) \<Rightarrow>
        if command_is (lit ''verack'') msg then Done (Some (handle_verack ntop (de_ok env) (de_now env) s))
        else if command_is (lit ''ping'') msg
        then bind_run (with_stats (\<lambda>(st, c). bm_reply_pong g ssl (se_alloc (de_pong env) (heap (send_queue c))) (se_ctl (de_pong env))
               (se_answers (de_pong env)) (de_now env) (st, c)) s) (\<lambda>(rc, s1). Done (Some s1))
        else if command_is (lit ''pong'') msg then Done (Some s)
        else if command_is (lit ''addr'') msg
        then bind_outcome (handle_addr (de_addr_mem env) (de_addr_ok env) (de_now env) (payload_of msg) n) (\<lambda>n1. Done (Some (n1, conn)))
        else if command_is (lit ''inv'') msg \<or> command_is (lit ''dinv'') msg
        then bind_run (handle_inv g ssl (de_inv env) (sn_pool n) msg (de_now env) (sn_dandelion n, sn_stats n, conn))
               (\<lambda>(d, st, conn1). Done (Some (n\<lparr>sn_dandelion := d, sn_stats := st\<rparr>, conn1)))
        else if command_is (lit ''getdata'') msg
        then bind_run (handle_getdata g ssl (de_upload_mem env) (de_upload env) (sn_pool n) msg (de_now env) (sn_stats n, conn))
               (\<lambda>(st, conn1). Done (Some (n\<lparr>sn_stats := st\<rparr>, conn1)))
        else if command_is (lit ''object'') msg
        then bind_outcome (handle_object bn g ssl (de_object env) fd msg n) (\<lambda>n1. Done (Some (n1, conn)))
        else if command_is (lit ''error'') msg then Done (Some (handle_error ntop (de_ok env) (de_now env) (payload_of msg) conn n, conn))
        else Done (Some s))"

text \<open>A version message that is refused ends the call at once; otherwise the periodic work follows.\<close>

definition bm_object_sync_dispatch ::
  "'b bignum \<Rightarrow> protocol_globals \<Rightarrow> openssl \<Rightarrow> (sockaddr \<Rightarrow> bytes) \<Rightarrow> dispatch_env \<Rightarrow> nat \<Rightarrow> bm_message \<Rightarrow> node_conn
     \<Rightarrow> node_conn option outcome" where
  "bm_object_sync_dispatch bn g ssl ntop env fd msg s =
     bind_run (if command_is (lit ''version'') msg then handle_version g ssl ntop (de_version env) (payload_of msg) s
               else bind_run (handle_command bn g ssl ntop env fd msg s) (\<lambda>s1. Done (Some (False, s1)))) (\<lambda>(early, n, conn).
       if early then Done (Some (n, conn))
       else bind_outcome (maybe_run_resend_check bn ssl (de_resend env) (de_resend_env env) (de_resend_now env)
              (maybe_run_gc (de_gc env) (de_gc_now env) n)) (\<lambda>n1. Done (Some (n1, conn))))"

section \<open>What the handler keeps\<close>

text \<open>A connection stays usable and is still the same connection.\<close>

definition evolves :: "bm_fd_data \<Rightarrow> bm_fd_data \<Rightarrow> bool" where
  "evolves conn conn' \<longleftrightarrow> (conn_ok conn \<longrightarrow> conn_ok conn') \<and> (upload_ok conn \<longrightarrow> upload_ok conn') \<and> generation conn' = generation conn"

lemma evolves_refl [simp]: "evolves conn conn"
  by (simp add: evolves_def)

lemma evolves_trans [trans]: "evolves a b \<Longrightarrow> evolves b c \<Longrightarrow> evolves a c"
  by (simp add: evolves_def)

lemma evolves_update [simp]:
  "evolves conn (conn\<lparr>fd_services := a\<rparr>)" "evolves conn (conn\<lparr>fd_user_agent := b\<rparr>)" "evolves conn (conn\<lparr>should_disconnect := c\<rparr>)"
  "evolves conn (conn\<lparr>disconnect_log_quiet := c\<rparr>)" "evolves conn (conn\<lparr>handshake_complete := c\<rparr>)"
  "evolves conn (conn\<lparr>pending_verack_reply_at := t\<rparr>)" "evolves conn (conn\<lparr>upload_sent := k\<rparr>)" "evolves conn (conn\<lparr>upload_not_found := k\<rparr>)"
  by (simp_all add: evolves_def conn_ok_def send_ok_def send_holds_def inv_hashes_ok_def upload_ok_def)

text \<open>The node keeps its keys, the index of Dandelion and the table of peers stay well formed.\<close>

definition node_inv :: "sync_node \<Rightarrow> bool" where
  "node_inv n \<longleftrightarrow> index_ok (sn_dandelion n) \<and> (\<forall>p. sn_peers n = Some p \<longrightarrow> peers_ok p)"

definition node_evolves :: "sync_node \<Rightarrow> sync_node \<Rightarrow> bool" where
  "node_evolves n n' \<longleftrightarrow> (node_inv n \<longrightarrow> node_inv n') \<and> sn_keyring n' = sn_keyring n \<and> sn_identities n' = sn_identities n"

lemma node_evolves_refl [simp]: "node_evolves n n"
  by (simp add: node_evolves_def)

lemma node_evolves_trans [trans]: "node_evolves a b \<Longrightarrow> node_evolves b c \<Longrightarrow> node_evolves a c"
  by (simp add: node_evolves_def)

lemma node_evolves_update [simp]:
  "node_evolves n (n\<lparr>sn_pool := a\<rparr>)" "node_evolves n (n\<lparr>sn_pubkeys := b\<rparr>)" "node_evolves n (n\<lparr>sn_messages := c\<rparr>)"
  "node_evolves n (n\<lparr>sn_announced := d\<rparr>)" "node_evolves n (n\<lparr>sn_pow := e\<rparr>)" "node_evolves n (n\<lparr>sn_last_gc := t\<rparr>)"
  "node_evolves n (n\<lparr>sn_last_resend_check := t\<rparr>)" "node_evolves n (n\<lparr>sn_time_throttle := th\<rparr>)"
  "node_evolves n (n\<lparr>sn_full_throttle := th\<rparr>)" "node_evolves n (n\<lparr>sn_stats := st\<rparr>)"
  by (simp_all add: node_evolves_def node_inv_def)

lemma node_evolves_peers: "sn_peers n = Some p \<Longrightarrow> (peers_ok p \<Longrightarrow> peers_ok p') \<Longrightarrow> node_evolves n (n\<lparr>sn_peers := Some p'\<rparr>)"
  by (simp add: node_evolves_def node_inv_def)

lemma node_evolves_dandelion: "(index_ok (sn_dandelion n) \<Longrightarrow> index_ok d) \<Longrightarrow> node_evolves n (n\<lparr>sn_dandelion := d, sn_stats := st\<rparr>)"
  by (simp add: node_evolves_def node_inv_def)

text \<open>What is assumed of the system: it hands out free memory and the descriptor is watched.\<close>

definition system_ok :: "send_env \<Rightarrow> bool" where
  "system_ok env \<longleftrightarrow> se_ctl env \<and> alloc_ok (se_alloc env)"

lemma send_evolves:
  assumes "bm_network_send (alloc (heap (send_queue conn))) True as data now (st, conn) = Done (Some (rc, st', conn'))" "alloc_ok alloc"
  shows "evolves conn conn'"
proof -
  have f: "same_rest conn conn'" by (rule send_frame [OF assms(1)])
  have "conn_ok conn \<Longrightarrow> conn_ok conn'" using conn_ok_send [OF _ assms(2), of conn as data now st] assms(1) by auto
  moreover have "upload_ok conn' = upload_ok conn" using same_rest_upload [OF f] by simp
  ultimately show ?thesis using f by (simp add: evolves_def same_rest_def)
qed

lemma send_packet_evolves:
  "send_packet env data now (st, conn) = Done (Some (rc, st', conn')) \<Longrightarrow> system_ok env \<Longrightarrow> evolves conn conn'"
  unfolding send_packet_def system_ok_def by (auto dest: send_evolves)

lemma bind_run_Done: "bind_run m f = Done (Some y) \<longleftrightarrow> (\<exists>x. m = Done (Some x) \<and> f x = Done (Some y))"
  by (auto simp: bind_run_def bind_outcome_Done_iff split: option.splits)

lemma with_stats_Done:
  "with_stats f (n, conn) = Done (Some (rc, n', conn')) \<longleftrightarrow> (\<exists>st. f (sn_stats n, conn) = Done (Some (rc, st, conn')) \<and> n' = n\<lparr>sn_stats := st\<rparr>)"
  by (auto simp: with_stats_def bind_outcome_Done_iff)

lemma try_send_evolves:
  assumes "try_send env packet now (n, conn) = Done (Some (n', conn'))" "system_ok env"
  shows "evolves conn conn'" "node_evolves n n'"
  using assms by (auto simp: try_send_def bind_run_Done node_send_def with_stats_Done dest: send_packet_evolves split: if_splits)

text \<open>Inventories and uploads.\<close>

lemma missing_loop_index:
  assumes "\<forall>i. fst (ih_note env i) = (True, True)"
  shows "missing_loop env pool is_dinv now i hs d = Done (missing, d') \<Longrightarrow> index_ok d \<Longrightarrow> index_ok d'"
proof (induction hs arbitrary: i d missing)
  case (Cons h hs)
  then show ?case
    using note_source_spec [of d "snd (ih_note env i)" h is_dinv now] assms
    by (auto simp: bind_outcome_Done_iff split: if_splits)
qed simp

lemma handle_inv_evolves:
  assumes "handle_inv g ssl env pool msg now (d, st, conn) = Done (Some (d', st', conn'))"
    and "\<forall>i. fst (ih_note env i) = (True, True)" "system_ok (ih_send env)"
  shows "evolves conn conn'" "index_ok d \<Longrightarrow> index_ok d'"
  using assms(1) missing_loop_index [OF assms(2)] assms(3)
  by (auto simp: handle_inv_def bind_outcome_Done_iff dest: send_packet_evolves split: option.splits if_splits)

lemma refill_loop_evolves:
  assumes "\<forall>i. system_ok (snd (env i))"
  shows "refill_loop g ssl env pool now k i (st, conn) = Done (Some (st', conn')) \<Longrightarrow> evolves conn conn'"
proof (induction k arbitrary: i st conn)
  case (Suc k)
  let ?c = "conn\<lparr>upload_pending_head := upload_pending_head conn + 1, upload_pending_count := upload_pending_count conn - 1\<rparr>"
  have c: "upload_pending_count conn \<noteq> 0 \<Longrightarrow> evolves conn ?c"
    by (auto simp: evolves_def conn_ok_def send_ok_def send_holds_def inv_hashes_ok_def upload_ok_def)
  have z: "evolves x (x\<lparr>upload_pending_count := 0\<rparr>)" for x
    by (auto simp: evolves_def conn_ok_def send_ok_def send_holds_def inv_hashes_ok_def upload_ok_def)
  show ?case
  proof (cases "upload_pending_count conn = 0 \<or> pending_eviction conn \<or> BM_UPLOAD_REFILL_THRESHOLD_BYTES \<le> bm_network_queued_bytes conn")
    case True
    then show ?thesis using Suc.prems unfolding refill_loop.simps if_P [OF True] by simp
  next
    case False
    note prems = Suc.prems [unfolded refill_loop.simps if_not_P [OF False] Let_def]
    have c: "evolves conn ?c" using False c by blast
    show ?thesis
    proof (cases "bm_object_store_get (fst (env i)) (upload_pending conn ! upload_pending_head conn) pool")
      case None
      have "evolves (?c\<lparr>upload_not_found := upload_not_found ?c + 1\<rparr>) conn'"
        using prems unfolding None option.case by (intro Suc.IH) (simp split: if_splits)
      then show ?thesis using c evolves_update(8) evolves_trans by blast
    next
      case (Some payload)
      show ?thesis
      proof (cases "se_mem (snd (env i))")
        case False
        have "evolves ?c conn'" using prems False unfolding Some option.case by (intro Suc.IH) (simp split: if_splits)
        then show ?thesis using c evolves_trans by blast
      next
        case True
        obtain rc st2 conn2 where s: "send_packet (snd (env i)) (bm_create_packet g ssl (lit ''object'') payload) now (st, ?c) = Done (Some (rc, st2, conn2))"
          and r: "(if rc \<noteq> 0 then Done (Some (st2, conn2\<lparr>upload_pending_count := 0\<rparr>))
            else refill_loop g ssl env pool now k (Suc i) (st2, conn2\<lparr>upload_sent := upload_sent conn2 + 1\<rparr>)) = Done (Some (st', conn'))"
          using prems True unfolding Some option.case by (simp only: bind_run_Done if_True not_True_eq_False if_False split: if_splits) auto
        have "evolves ?c conn2" using send_packet_evolves [OF s] assms by simp
        moreover have "evolves conn2 conn'"
        proof (cases "rc = 0")
          case True
          have "evolves (conn2\<lparr>upload_sent := upload_sent conn2 + 1\<rparr>) conn'" by (rule Suc.IH) (use r True in simp)
          then show ?thesis using evolves_update(7) [of conn2] evolves_trans by blast
        next
          case False
          then show ?thesis using r z [of conn2] by simp
        qed
        ultimately show ?thesis using c evolves_trans by blast
      qed
    qed
  qed
qed simp

lemma refill_uploads_evolves:
  assumes "\<forall>i. system_ok (snd (env i))" "bm_object_sync_refill_uploads g ssl env pool now (st, conn) = Done (Some (st', conn'))"
  shows "evolves conn conn'"
proof -
  have "evolves x (refill_done x)" for x
    by (auto simp: refill_done_def evolves_def conn_ok_def send_ok_def send_holds_def inv_hashes_ok_def upload_ok_def)
  then show ?thesis using assms(2) refill_loop_evolves [OF assms(1)]
    by (auto simp: bm_object_sync_refill_uploads_def bind_run_Done split: if_splits) (meson evolves_trans)
qed

lemma append_without_upload:
  "upload_pending_append mem items n conn = Done (rc, conn') \<Longrightarrow> without_upload conn' = without_upload conn"
  by (auto simp: upload_pending_append_def Let_def without_upload_def split: if_splits)

lemma conn_ok_without_upload: "conn_ok (without_upload conn) = conn_ok conn" "generation (without_upload conn) = generation conn"
  by (simp_all add: without_upload_def conn_ok_def send_ok_def send_holds_def inv_hashes_ok_def)

lemma append_evolves:
  assumes "upload_pending_append mem items n conn = Done (rc, conn')" "n \<le> length items"
    and "upload_ok conn \<Longrightarrow> upload_pending_count conn + n \<le> BM_MAX_INVENTORY_ITEMS"
  shows "evolves conn conn'"
proof -
  have "conn_ok conn' = conn_ok conn" "generation conn' = generation conn"
    using append_without_upload [OF assms(1)] conn_ok_without_upload by metis+
  moreover have "upload_ok conn'" if "upload_ok conn"
    using upload_pending_append_queue [OF that assms(2) assms(3) [OF that], of mem] assms(1) by (metis outcome.inject prod.inject)
  ultimately show ?thesis by (simp add: evolves_def)
qed

lemma handle_getdata_evolves:
  assumes "handle_getdata g ssl mem env pool msg now (st, conn) = Done (Some (st', conn'))" "\<forall>i. system_ok (snd (env i))"
  shows "evolves conn conn'"
proof (cases "bm_parse_inventory_message (payload_of msg)")
  case None
  then show ?thesis using assms(1) by (simp add: handle_getdata_def)
next
  case (Some items)
  define room where "room = (if upload_pending_count conn < BM_MAX_INVENTORY_ITEMS then BM_MAX_INVENTORY_ITEMS - upload_pending_count conn else 0)"
  define n where "n = (if length items < room then length items else room)"
  show ?thesis
  proof (cases "BM_MAX_INVENTORY_ITEMS < length items")
    case True
    then show ?thesis using assms(1) Some by (simp add: handle_getdata_def)
  next
    case False
    obtain rc conn1 where a: "upload_pending_append mem items n conn = Done (rc, conn1)"
        "bm_object_sync_refill_uploads g ssl env pool now (st, conn1) = Done (Some (st', conn'))"
      using assms(1) unfolding handle_getdata_def prod.case Some option.case if_not_P [OF False] Let_def room_def [symmetric] n_def [symmetric]
      by (auto simp: bind_outcome_Done_iff)
    have "evolves conn conn1"
      by (rule append_evolves [OF a(1)]) (auto simp: n_def room_def upload_ok_def)
    then show ?thesis using refill_uploads_evolves [OF assms(2) a(2)] by (rule evolves_trans)
  qed
qed

text \<open>Peers.\<close>

lemma record_outbound_success_evolves: "node_evolves n (record_outbound_success ntop ok now conn n)"
  by (auto simp: record_outbound_success_def intro: node_evolves_peers peer_step_ok [OF peer_step.result] split: option.splits prod.splits)

lemma addr_loop_ok: "peers_ok p \<Longrightarrow> peers_ok (addr_loop ok now i es p)"
proof (induction es arbitrary: i p)
  case (Cons e es)
  then show ?case using peer_step_ok [OF peer_step.learned] by simp
qed simp

lemma handle_addr_evolves:
  assumes "handle_addr mem ok now payload n = Done n'"
  shows "node_evolves n n'"
proof -
  obtain r where "n' = (case (r, sn_peers n) of
      (Some addresses, Some peers) \<Rightarrow> n\<lparr>sn_peers := Some (addr_loop ok now 0 (take BM_MAX_INVENTORY_ITEMS addresses) peers)\<rparr> | _ \<Rightarrow> n)"
    using assms by (auto simp: handle_addr_def bind_outcome_Done_iff)
  then show ?thesis by (cases r; cases "sn_peers n") (auto intro: node_evolves_peers addr_loop_ok)
qed

lemma handle_error_evolves: "node_evolves n (handle_error ntop ok now payload conn n)"
  by (auto simp: handle_error_def Let_def intro: node_evolves_peers peer_step_ok [OF peer_step.result] split: option.splits prod.splits)

text \<open>The handshake.\<close>

lemma handle_verack_evolves:
  assumes "handle_verack ntop ok now (n, conn) = (n', conn')"
  shows "evolves conn conn'" "node_evolves n n'"
proof -
  have "conn' = conn\<lparr>handshake_complete := True, pending_verack_reply_at := last_activity conn + BM_VERACK_REPLY_DELAY_SECONDS\<rparr>"
    "n' = record_outbound_success ntop ok now (conn\<lparr>handshake_complete := True\<rparr>) n"
    using assms by (simp_all add: handle_verack_def Let_def)
  then show "evolves conn conn'" "node_evolves n n'"
    using evolves_trans [OF evolves_update(5) evolves_update(6)] record_outbound_success_evolves by simp_all
qed

definition version_env_ok :: "version_env \<Rightarrow> bool" where
  "version_env_ok env \<longleftrightarrow> system_ok (ve_error env) \<and> system_ok (ve_verack env) \<and> system_ok (ve_version env)"

lemma stats_send_evolves:
  assumes "with_stats (\<lambda>(st, c). bm_network_send (se_alloc env (heap (send_queue c))) (se_ctl env) (se_answers env) (data c) now (st, c)) (n, conn) =
      Done (Some (rc, n', conn'))" "system_ok env"
  shows "evolves conn conn'" "node_evolves n n'"
  using assms by (auto simp: with_stats_Done system_ok_def dest: send_evolves)

lemma handle_version_evolves:
  assumes "handle_version g ssl ntop env payload (n, conn) = Done (Some (early, n', conn'))" "version_env_ok env"
  shows "evolves conn conn' \<and> node_evolves n n'"
proof -
  have disc: "evolves a (snd (disconnect s)) \<and> node_evolves b (fst (disconnect s))" if "evolves a (snd s)" "node_evolves b (fst s)" for a b s
    using that evolves_trans evolves_update(3) by (auto simp: disconnect_def)
  have env: "system_ok (ve_error env)" "system_ok (ve_verack env)" "system_ok (ve_version env)"
    using assms(2) by (simp_all add: version_env_ok_def)
  obtain ver where ver: "bm_parse_version_message (ve_mem env) payload = Done ver"
    using assms(1) by (auto simp: handle_version_def bind_outcome_Done_iff)
  note main = assms(1) [unfolded handle_version_def prod.case ver bind_outcome.simps]
  define off where "off = sint (vm_timestamp ver - word_of_int (ve_now env))"
  consider "vm_version ver < BM_MIN_PROTOCOL_VERSION"
    | "\<not> vm_version ver < BM_MIN_PROTOCOL_VERSION" "BM_MAX_TIME_OFFSET_SECONDS < off \<or> off < - BM_MAX_TIME_OFFSET_SECONDS"
    | "\<not> vm_version ver < BM_MIN_PROTOCOL_VERSION" "\<not> (BM_MAX_TIME_OFFSET_SECONDS < off \<or> off < - BM_MAX_TIME_OFFSET_SECONDS)" by blast
  then show ?thesis
  proof cases
    case 1
    then obtain n1 c1 where "try_send (ve_error env) (bm_create_error_message g ssl 2 0
        (lit ''Your is using an old protocol. Closing connection.'')) (ve_error_time env) (n, conn) = Done (Some (n1, c1))"
        "(n', conn') = disconnect (n1, c1)"
      using main unfolding if_P [OF 1] bind_run_Done by auto
    then show ?thesis using try_send_evolves env(1) disc [of conn "(n1, c1)" n] by (metis fst_conv snd_conv)
  next
    case 2
    define t where "t = snd (snd (bm_log_throttle_check (ve_now env) BM_TIME_OFFSET_LOG_INTERVAL_SECONDS (sn_time_throttle n)))"
    obtain data c0 n1 c1 where d: "try_send (ve_error env) data (ve_now env) (n\<lparr>sn_time_throttle := t\<rparr>, c0) = Done (Some (n1, c1))"
        "(n', conn') = disconnect (n1, c1)" "c0 = conn \<or> c0 = conn\<lparr>disconnect_log_quiet := True\<rparr>"
      using main unfolding if_not_P [OF 2(1)] Let_def off_def [symmetric] if_P [OF 2(2)] t_def
      by (simp only: bind_run_Done split: prod.splits if_splits) auto
    have "evolves conn c0" "node_evolves n (n\<lparr>sn_time_throttle := t\<rparr>)" using d(3) by auto
    then have "evolves conn c1" "node_evolves n n1"
      using try_send_evolves [OF d(1) env(1)] evolves_trans node_evolves_trans by blast+
    then show ?thesis using d(2) disc [of conn "(n1, c1)" n] by (metis fst_conv snd_conv)
  next
    case 3
    define c1 where "c1 = conn\<lparr>fd_services := vm_services ver, fd_user_agent := (if ve_strdup env then Some (c_str (vm_user_agent ver)) else None)\<rparr>"
    define n1 where "n1 = record_outbound_success ntop (ve_ok env) (ve_result_time env) c1 n"
    have e1: "evolves conn c1" "node_evolves n n1"
      using evolves_trans [OF evolves_update(1) evolves_update(2)] record_outbound_success_evolves by (simp_all add: c1_def n1_def)
    obtain rc n2 c2 where s: "with_stats (\<lambda>(st, c). bm_network_send (se_alloc (ve_verack env) (heap (send_queue c))) (se_ctl (ve_verack env))
        (se_answers (ve_verack env)) (bm_create_packet g ssl (lit ''verack'') []) (ve_verack_time env) (st, c)) (n1, c1) = Done (Some (rc, n2, c2))"
      and r: "(case sn_user_agent n2 of None \<Rightarrow> Done (Some (False, n2, c2)) | Some ua \<Rightarrow>
          if fd_type c2 \<noteq> BM_FD_SERVER_SOCKET then Done (Some (False, n2, c2))
          else bind_run (with_stats (\<lambda>(st, c). bm_network_send (se_alloc (ve_version env) (heap (send_queue c))) (se_ctl (ve_version env))
                 (se_answers (ve_version env)) (bm_new_version_message g ssl (word_of_int (ve_version_time env)) (ve_version_rnd env) ua 3
                   (fd_peer_addr c) bm_unspecified_ipv4_address) (ve_version_time env) (st, c)) (n2, c2))
               (\<lambda>(rc, s3). Done (Some (False, s3)))) = Done (Some (early, n', conn'))"
      using main unfolding if_not_P [OF 3(1)] Let_def off_def [symmetric] if_not_P [OF 3(2)] c1_def [symmetric] n1_def [symmetric]
        bm_reply_verack_def send_header_only_def bm_post_version_def
      by (simp only: bind_run_Done split: prod.splits) auto
    have e2: "evolves conn c2" "node_evolves n n2"
      using stats_send_evolves [OF s env(2)] e1 evolves_trans node_evolves_trans by blast+
    then show ?thesis
      using r stats_send_evolves [OF _ env(3)] evolves_trans node_evolves_trans
      by (auto simp: bind_run_Done split: option.splits if_splits)
  qed
qed

text \<open>Objects.\<close>

lemma announce_evolves [simp]: "node_evolves n (announce h e t n)"
  by (simp add: announce_def)

lemma pool_insert_evolves [simp]: "node_evolves n (pool_insert_object ssl ok obj hdr t n)"
  by (simp add: pool_insert_object_def)

lemma insert_announce_evolves: "node_evolves n (announce h e t (pool_insert_object ssl ok obj hdr t' n))"
  by (rule node_evolves_trans [OF pool_insert_evolves announce_evolves])

lemma validate_ack_evolves: "validate_and_store_ack g ssl ok except ack now n = Done n' \<Longrightarrow> node_evolves n n'"
  by (auto simp: validate_and_store_ack_def Let_def bind_outcome_Done_iff insert_announce_evolves
      split: bm_parse_result.splits if_splits option.splits)

lemma reuse_evolves: "node_evolves n (snd (reuse_cached_pubkey_response ok r v st now n))"
  by (auto simp: reuse_cached_pubkey_response_def split: prod.splits option.splits)

lemma submit_pubkey_response_evolves:
  assumes "submit_pubkey_response env payload target r v st e key now n = Done n'"
  shows "node_evolves n n'"
proof -
  obtain ps t where "n' = n \<or> n' = n\<lparr>sn_pow := ps, sn_full_throttle := t\<rparr> \<or> n' = n\<lparr>sn_pow := ps\<rparr>"
    using assms by (auto simp: submit_pubkey_response_def bind_outcome_Done_iff split: if_splits)
  moreover have "node_evolves n (n\<lparr>sn_pow := ps, sn_full_throttle := t\<rparr>)"
    by (rule node_evolves_trans [OF node_evolves_update(5) node_evolves_update(9)])
  ultimately show ?thesis by auto
qed

lemma handle_getpubkey_evolves:
  assumes "handle_incoming_getpubkey ssl env hdr object n = Done n'"
  shows "node_evolves n n'"
proof (cases "getpubkey_target ssl hdr (drop (header_len hdr) object) (sn_keyring n)")
  case None
  then show ?thesis using assms by (simp add: handle_incoming_getpubkey_def)
next
  case (Some u)
  obtain b n1 where r: "reuse_cached_pubkey_response (ge_ok env) (ui_ripe u) (oh_version hdr) (ui_stream u) (ge_now env) n = (b, n1)"
    by (rule prod.exhaust)
  have n1: "node_evolves n n1" using reuse_evolves [of n "ge_ok env" "ui_ripe u" "oh_version hdr" "ui_stream u" "ge_now env"] by (simp add: r)
  have "n' = n \<or> n' = n1 \<or> (\<exists>p t e k. submit_pubkey_response (ge_job env) p t (ui_ripe u) (oh_version hdr) (ui_stream u) e k (ge_now env) n1 = Done n')"
    using assms unfolding handle_incoming_getpubkey_def Some option.case Let_def r
    by (auto simp: bind_outcome_Done_iff split: if_splits bool.splits option.splits)
  then show ?thesis using n1 submit_pubkey_response_evolves node_evolves_trans by (metis node_evolves_refl)
qed

lemma handle_new_object_evolves:
  assumes "handle_new_object bn g ssl env conn hdr object n = Done n'"
  shows "node_evolves n n'"
proof -
  consider "oh_object_type hdr = BM_OBJECT_MSG" | "oh_object_type hdr = BM_OBJECT_PUBKEY" | "oh_object_type hdr = BM_OBJECT_GETPUBKEY"
    | "oh_object_type hdr = BM_OBJECT_BROADCAST" | "oh_object_type hdr = BM_OBJECT_ONIONPEER"
    | "oh_object_type hdr \<notin> {BM_OBJECT_MSG, BM_OBJECT_PUBKEY, BM_OBJECT_GETPUBKEY, BM_OBJECT_BROADCAST, BM_OBJECT_ONIONPEER}" by blast
  then show ?thesis
  proof cases
    case 1
    obtain mdb where "n' = n\<lparr>sn_messages := mdb\<rparr> \<or>
        (\<exists>ack. validate_and_store_ack g ssl (oe_ack env) (Some conn) ack (oe_ack_now env) (n\<lparr>sn_messages := mdb\<rparr>) = Done n')"
      using assms 1 by (auto simp: handle_new_object_def bind_outcome_Done_iff Let_def split: option.splits if_splits)
    then show ?thesis using validate_ack_evolves node_evolves_trans [OF node_evolves_update(3)] by (metis node_evolves_update(3))
  next
    case 2
    then show ?thesis using assms by (auto simp: handle_new_object_def handle_incoming_pubkey_def split: option.splits)
  next
    case 3
    then show ?thesis using assms handle_getpubkey_evolves by (simp add: handle_new_object_def)
  next
    case 4
    then show ?thesis using assms
      by (auto simp: handle_new_object_def handle_incoming_broadcast_def bind_outcome_Done_iff split: option.splits)
  next
    case 5
    have "node_evolves n (handle_incoming_onionpeer ok now hdr object n)" for ok now
      by (auto simp: handle_incoming_onionpeer_def Let_def intro: node_evolves_peers peer_step_ok [OF peer_step.learned] split: option.splits)
    then show ?thesis using assms 5 by (auto simp: handle_new_object_def)
  next
    case 6
    then show ?thesis using assms by (simp add: handle_new_object_def)
  qed
qed

lemma handle_object_evolves:
  assumes "handle_object bn g ssl env conn msg n = Done n'"
  shows "node_evolves n n'"
proof -
  obtain mdb hdr where "n' = n \<or> n' = n\<lparr>sn_messages := mdb\<rparr> \<or> handle_new_object bn g ssl env conn hdr (payload_of msg)
      (announce (bm_inventory_hash ssl (payload_of msg)) (Some conn) (oe_now env)
        (pool_insert_object ssl (oe_insert env) (payload_of msg) hdr (oe_now env) (n\<lparr>sn_messages := mdb\<rparr>))) = Done n'"
    using assms by (auto simp: handle_object_def Let_def bind_outcome_Done_iff split: if_splits option.splits)
  moreover have "node_evolves n (announce h e t (pool_insert_object ssl ok obj hdr t' (n\<lparr>sn_messages := mdb\<rparr>)))" for h e t ok obj t'
    by (rule node_evolves_trans [OF node_evolves_update(3) insert_announce_evolves])
  ultimately show ?thesis using handle_new_object_evolves node_evolves_trans by (metis node_evolves_refl node_evolves_update(3))
qed

text \<open>The periodic work.\<close>

lemma gc_evolves: "node_evolves n (maybe_run_gc ok now n)"
proof -
  have "node_evolves n (n\<lparr>sn_last_gc := t, sn_pool := p\<rparr>)" for t p by (rule node_evolves_trans [OF node_evolves_update(6) node_evolves_update(1)])
  then show ?thesis by (auto simp: maybe_run_gc_def bm_object_sync_gc_def split: prod.splits)
qed

lemma resend_loop_evolves: "resend_loop bn ssl env now i cs n = Done n' \<Longrightarrow> node_evolves n n'"
proof (induction cs arbitrary: i n)
  case (Cons c cs)
  have two: "node_evolves n (n\<lparr>sn_pubkeys := a, sn_pow := b\<rparr>)" for a b by (rule node_evolves_trans [OF node_evolves_update(2) node_evolves_update(5)])
  obtain j m where "resend_loop bn ssl env now j cs m = Done n'" "m = n \<or> (\<exists>a b. m = n\<lparr>sn_pubkeys := a, sn_pow := b\<rparr>)"
    using Cons.prems by (auto simp: Let_def bind_outcome_Done_iff split: prod.splits if_splits)
  then show ?case using Cons.IH two node_evolves_trans by blast
qed simp

lemma resend_check_evolves: "maybe_run_resend_check bn ssl ok env now n = Done n' \<Longrightarrow> node_evolves n n'"
  using resend_loop_evolves node_evolves_trans [OF node_evolves_update(7)]
  by (auto simp: maybe_run_resend_check_def bm_object_sync_check_resends_def bind_outcome_Done_iff Let_def split: if_splits option.splits) blast

text \<open>The whole handler.\<close>

definition sound :: "sync_node \<Rightarrow> bm_fd_data \<Rightarrow> node_conn option outcome \<Rightarrow> bool" where
  "sound n conn r \<longleftrightarrow> (\<forall>n' conn'. r = Done (Some (n', conn')) \<longrightarrow> evolves conn conn' \<and> node_evolves n n')"

lemma soundI: "(\<And>n' conn'. r = Done (Some (n', conn')) \<Longrightarrow> evolves conn conn' \<and> node_evolves n n') \<Longrightarrow> sound n conn r"
  by (simp add: sound_def)

lemma sound_if: "sound n conn a \<Longrightarrow> sound n conn b \<Longrightarrow> sound n conn (if c then a else b)"
  by simp

definition dispatch_env_ok :: "dispatch_env \<Rightarrow> bool" where
  "dispatch_env_ok env \<longleftrightarrow> version_env_ok (de_version env) \<and> system_ok (de_pong env) \<and> system_ok (ih_send (de_inv env)) \<and>
     (\<forall>i. fst (ih_note (de_inv env) i) = (True, True)) \<and> (\<forall>i. system_ok (snd (de_upload env i)))"

lemma handle_command_sound:
  assumes "dispatch_env_ok env"
  shows "sound n conn (handle_command bn g ssl ntop env fd msg (n, conn))"
proof -
  have env: "system_ok (de_pong env)" "system_ok (ih_send (de_inv env))" "\<forall>i. fst (ih_note (de_inv env) i) = (True, True)"
      "\<forall>i. system_ok (snd (de_upload env i))"
    using assms by (simp_all add: dispatch_env_ok_def)
  let ?pong = "\<lambda>(st, c). bm_network_send (se_alloc (de_pong env) (heap (send_queue c))) (se_ctl (de_pong env)) (se_answers (de_pong env))
    (bm_create_packet g ssl (lit ''pong'') []) (de_now env) (st, c)"
  have verack: "sound n conn (Done (Some (handle_verack ntop (de_ok env) (de_now env) (n, conn))))"
    by (rule soundI) (use handle_verack_evolves in blast)
  have pong: "sound n conn (bind_run (with_stats ?pong (n, conn)) (\<lambda>(rc, s1). Done (Some s1)))"
    by (rule soundI) (use stats_send_evolves [OF _ env(1)] in \<open>auto simp: bind_run_Done\<close>)
  have addr: "sound n conn (bind_outcome (handle_addr (de_addr_mem env) (de_addr_ok env) (de_now env) (payload_of msg) n) (\<lambda>n1. Done (Some (n1, conn))))"
    by (rule soundI) (auto simp: bind_outcome_Done_iff handle_addr_evolves)
  have inv: "sound n conn (bind_run (handle_inv g ssl (de_inv env) (sn_pool n) msg (de_now env) (sn_dandelion n, sn_stats n, conn))
      (\<lambda>(d, st, conn1). Done (Some (n\<lparr>sn_dandelion := d, sn_stats := st\<rparr>, conn1))))"
    by (rule soundI) (use handle_inv_evolves [OF _ env(3,2)] node_evolves_dandelion in \<open>auto simp: bind_run_Done\<close>)
  have getdata: "sound n conn (bind_run (handle_getdata g ssl (de_upload_mem env) (de_upload env) (sn_pool n) msg (de_now env) (sn_stats n, conn))
      (\<lambda>(st, conn1). Done (Some (n\<lparr>sn_stats := st\<rparr>, conn1))))"
    by (rule soundI) (use handle_getdata_evolves [OF _ env(4)] in \<open>auto simp: bind_run_Done\<close>)
  have object: "sound n conn (bind_outcome (handle_object bn g ssl (de_object env) fd msg n) (\<lambda>n1. Done (Some (n1, conn))))"
    by (rule soundI) (auto simp: bind_outcome_Done_iff handle_object_evolves)
  have error: "sound n conn (Done (Some (handle_error ntop (de_ok env) (de_now env) (payload_of msg) conn n, conn)))"
    by (rule soundI) (auto simp: handle_error_evolves)
  have same: "sound n conn (Done (Some (n, conn)))" by (rule soundI) simp
  show ?thesis
    unfolding handle_command_def prod.case bm_reply_pong_def send_header_only_def
    by (intro sound_if verack pong addr inv getdata object error same)
qed

lemma dispatch_sound:
  assumes "dispatch_env_ok env"
  shows "sound n conn (bm_object_sync_dispatch bn g ssl ntop env fd msg (n, conn))"
proof (rule soundI)
  fix n' conn'
  assume "bm_object_sync_dispatch bn g ssl ntop env fd msg (n, conn) = Done (Some (n', conn'))"
  then obtain early n1 c1 where one: "(if command_is (lit ''version'') msg then handle_version g ssl ntop (de_version env) (payload_of msg) (n, conn)
        else bind_run (handle_command bn g ssl ntop env fd msg (n, conn)) (\<lambda>s1. Done (Some (False, s1)))) = Done (Some (early, n1, c1))"
      and two: "(if early then Done (Some (n1, c1))
        else bind_outcome (maybe_run_resend_check bn ssl (de_resend env) (de_resend_env env) (de_resend_now env)
              (maybe_run_gc (de_gc env) (de_gc_now env) n1)) (\<lambda>n2. Done (Some (n2, c1)))) = Done (Some (n', conn'))"
    unfolding bm_object_sync_dispatch_def bind_run_Done by (elim exE conjE) auto
  have "evolves conn c1 \<and> node_evolves n n1"
  proof (cases "command_is (lit ''version'') msg")
    case True
    then show ?thesis using one assms unfolding if_P [OF True] by (intro handle_version_evolves) (auto simp: dispatch_env_ok_def)
  next
    case False
    then show ?thesis using one handle_command_sound [OF assms, of n conn bn g ssl ntop fd msg]
      unfolding if_not_P [OF False] bind_run_Done sound_def by auto
  qed
  moreover have "conn' = c1" "node_evolves n1 n'"
    using two gc_evolves resend_check_evolves node_evolves_trans by (auto simp: bind_outcome_Done_iff split: if_splits) blast
  ultimately show "evolves conn conn' \<and> node_evolves n n'" using node_evolves_trans by blast
qed

text \<open>After the handshake.\<close>

lemma chunk_frame:
  assumes "send_inv_chunk g ssl mem new_chunk ctl as now (st, conn) = Done (Some (st', conn'))"
  shows "upload_ok conn' = upload_ok conn \<and> generation conn' = generation conn"
proof -
  let ?c1 = "conn\<lparr>pending_inv_last_chunk_time := now\<rparr>"
  have frame: "upload_ok c = upload_ok conn \<and> generation c = generation conn"
    if "bm_network_send new_chunk ctl as data now (st, ?c1) = Done (Some (rc, st2, c))" for data rc st2 c
    using send_frame [OF that] by (simp add: same_rest_def upload_ok_def)
  obtain hs where hs: "pending_inv_hashes conn = Some hs" using assms by (cases "pending_inv_hashes conn") (auto simp: send_inv_chunk_def)
  define n where "n = (if pending_inv_total conn - pending_inv_sent conn < BM_BIG_INV_CHUNK_SIZE
    then pending_inv_total conn - pending_inv_sent conn else BM_BIG_INV_CHUNK_SIZE)"
  define data where "data = bm_create_inventory_message g ssl (lit ''inv'') (take n (drop (pending_inv_sent conn) hs))"
  note main = assms [unfolded send_inv_chunk_def prod.case Let_def n_def [symmetric] hs option.case data_def [symmetric]]
  show ?thesis
  proof (cases mem)
    case False
    then have "conn' = ?c1\<lparr>pending_inv_hashes := None\<rparr>" using main by (simp split: if_splits)
    then show ?thesis by (simp add: upload_ok_def)
  next
    case True
    have len: "\<not> length hs < pending_inv_sent conn + n" using main by (simp split: if_splits)
    obtain x where x: "bm_network_send new_chunk ctl as data now (st, ?c1) = Done (Some x)"
        "(\<lambda>(rc, st', c2). if rc \<noteq> 0 then (st', c2\<lparr>pending_inv_hashes := None\<rparr>) else (st', c2\<lparr>pending_inv_sent := pending_inv_sent c2 + n,
          pending_inv_hashes := (if pending_inv_total c2 \<le> pending_inv_sent c2 + n then None else pending_inv_hashes c2)\<rparr>)) x = (st', conn')"
      using main True len unfolding if_not_P [OF len]
      by (simp only: bind_outcome_Done_iff outcome.inject map_option_eq_Some not_True_eq_False if_False) blast
    obtain rc st2 c2 where "x = (rc, st2, c2)" by (rule prod_cases3)
    then have "bm_network_send new_chunk ctl as data now (st, ?c1) = Done (Some (rc, st2, c2))"
        "upload_ok conn' = upload_ok c2 \<and> generation conn' = generation c2"
      using x by (auto simp: upload_ok_def split: if_splits)
    then show ?thesis using frame by (simp add: upload_ok_def)
  qed
qed

lemma send_big_inv_sound:
  assumes "system_ok (re_inv env)"
  shows "sound n conn (send_big_inv g ssl env (n, conn))"
proof (rule soundI)
  fix n' conn'
  assume r: "send_big_inv g ssl env (n, conn) = Done (Some (n', conn'))"
  have env: "se_ctl (re_inv env) = True" "alloc_ok (se_alloc (re_inv env))" using assms by (simp_all add: system_ok_def)
  consider "n' = n" "conn' = conn" | plain st where "n' = n\<lparr>sn_stats := st\<rparr>"
      "bm_network_begin_big_inv g ssl (se_mem (re_inv env)) (se_alloc (re_inv env) (heap (send_queue conn))) True
         (se_answers (re_inv env)) plain (length plain) (re_now env) (sn_stats n, conn) = Done (Some (st, conn'))"
    using r unfolding send_big_inv_def prod.case env Let_def by (auto simp: bind_run_Done split: option.splits if_splits)
  then show "evolves conn conn' \<and> node_evolves n n'"
  proof cases
    case (2 plain st)
    define c0 where "c0 = conn\<lparr>pending_inv_hashes := Some plain, pending_inv_total := length plain, pending_inv_sent := 0\<rparr>"
    have c0: "conn_ok conn \<Longrightarrow> conn_ok c0" "upload_ok c0 = upload_ok conn" "generation c0 = generation conn"
      "pending_inv_hashes c0 \<noteq> None" "send_queue c0 = send_queue conn"
      by (auto simp: c0_def conn_ok_def send_ok_def send_holds_def inv_hashes_ok_def upload_ok_def)
    have s: "send_inv_chunk g ssl (se_mem (re_inv env)) (se_alloc (re_inv env) (heap (send_queue c0))) True (se_answers (re_inv env))
        (re_now env) (sn_stats n, c0) = Done (Some (st, conn'))"
      using 2(2) by (simp add: bm_network_begin_big_inv_def c0_def)
    have "conn_ok conn'" if "conn_ok conn"
      using send_inv_chunk_keeps [OF c0(1) [OF that] env(2) c0(4), of g ssl "se_mem (re_inv env)" "se_answers (re_inv env)" "re_now env"
          "sn_stats n"] s by auto
    then show ?thesis using chunk_frame [OF s] c0(2,3) 2(1) by (simp add: evolves_def)
  qed simp
qed

definition reply_env_ok :: "reply_env \<Rightarrow> bool" where
  "reply_env_ok env \<longleftrightarrow> system_ok (re_addr env) \<and> system_ok (re_inv env)"

lemma flush_verack_sound:
  assumes "reply_env_ok env"
  shows "sound n conn (flush_verack_reply_one g ssl env now (n, conn))"
proof (rule soundI)
  fix n' conn'
  assume r: "flush_verack_reply_one g ssl env now (n, conn) = Done (Some (n', conn'))"
  have env: "system_ok (re_addr env)" "system_ok (re_inv env)" using assms by (simp_all add: reply_env_ok_def)
  have addr: "sound n conn (send_addr_reply g ssl env (n, conn))"
    by (rule soundI) (use try_send_evolves [OF _ env(1)] in \<open>auto simp: send_addr_reply_def Let_def split: option.splits if_splits\<close>)
  consider "n' = n" "conn' = conn" | n1 c1 c2 where "send_addr_reply g ssl env (n, conn) = Done (Some (n1, c1))"
      "send_big_inv g ssl env (n1, c1) = Done (Some (n', c2))" "conn' = c2\<lparr>pending_verack_reply_at := 0\<rparr>"
    using r by (auto simp: flush_verack_reply_one_def send_verack_reply_def bind_run_Done split: if_splits)
  then show "evolves conn conn' \<and> node_evolves n n'"
  proof cases
    case (2 n1 c1 c2)
    have "evolves conn c1" "node_evolves n n1" using addr 2(1) by (auto simp: sound_def)
    moreover have "evolves c1 c2" "node_evolves n1 n'" using send_big_inv_sound [OF env(2)] 2(2) by (auto simp: sound_def)
    ultimately show ?thesis using 2(3) evolves_update(6) evolves_trans node_evolves_trans by blast
  qed simp
qed

section \<open>The handler returns\<close>

text \<open>The socket answers often enough for everything that may be queued.\<close>

definition lively :: "send_env \<Rightarrow> bool" where
  "lively env \<longleftrightarrow> system_ok env \<and> BM_SEND_QUEUE_HARD_LIMIT_BYTES \<le> progress (se_answers env)"

definition returns :: "'a option outcome \<Rightarrow> bool" where
  "returns r \<longleftrightarrow> (\<exists>x. r = Done (Some x))"

lemma returns_Done [simp]: "returns (Done (Some x))"
  by (simp add: returns_def)

lemma returns_bind_run: "returns m \<Longrightarrow> (\<And>x. m = Done (Some x) \<Longrightarrow> returns (f x)) \<Longrightarrow> returns (bind_run m f)"
  by (auto simp: returns_def bind_run_def)

lemma returns_bind_outcome: "(\<exists>x. m = Done x) \<Longrightarrow> (\<And>x. m = Done x \<Longrightarrow> returns (f x)) \<Longrightarrow> returns (bind_outcome m f)"
  by auto

lemma returns_if: "(c \<Longrightarrow> returns a) \<Longrightarrow> (\<not> c \<Longrightarrow> returns b) \<Longrightarrow> returns (if c then a else b)"
  by simp

lemma send_returns_lively:
  assumes "conn_ok conn" "lively env"
  shows "returns (bm_network_send (se_alloc env (heap (send_queue conn))) (se_ctl env) (se_answers env) data now (st, conn))"
proof -
  obtain pend where pend: "send_ok conn pend" using assms(1) by (auto simp: conn_ok_def)
  have env: "se_ctl env = True" "alloc_ok (se_alloc env)" "BM_SEND_QUEUE_HARD_LIMIT_BYTES \<le> progress (se_answers env)"
    using assms(2) by (simp_all add: lively_def system_ok_def)
  let ?c = "se_alloc env (heap (send_queue conn))"
  have new: "\<forall>c. ?c = Some c \<longrightarrow> heap (send_queue conn) c = None" using env(2) by (auto simp: alloc_ok_def)
  have "length pend \<le> BM_SEND_QUEUE_HARD_LIMIT_BYTES" "send_queued_bytes conn = length pend" using pend by (simp_all add: send_ok_def send_holds_def)
  then have "length (if accepts ?c data conn then pend @ data else pend) \<le> progress (se_answers env)" using env(3) by (auto simp: accepts_def)
  then show ?thesis using send_stream_step [OF pend new, where data = data and as = "se_answers env" and now = now and st = st] env(1) by (auto simp: returns_def)
qed

lemma send_packet_returns: "conn_ok conn \<Longrightarrow> lively env \<Longrightarrow> returns (send_packet env data now (st, conn))"
  by (simp add: send_packet_def send_returns_lively)

lemma with_stats_returns: "returns (f (sn_stats n, conn)) \<Longrightarrow> returns (with_stats f (n, conn))"
  by (auto simp: returns_def with_stats_def)

lemma try_send_returns: "conn_ok conn \<Longrightarrow> lively env \<Longrightarrow> returns (try_send env packet now (n, conn))"
  unfolding try_send_def node_send_def
  by (intro returns_if returns_bind_run with_stats_returns send_packet_returns) (auto simp: returns_def split: prod.splits)

lemma missing_loop_done:
  assumes "\<forall>i. fst (ih_note env i) = (True, True)" "ih_array env"
  shows "index_ok d \<Longrightarrow> \<exists>r. missing_loop env pool is_dinv now i hs d = Done r"
proof (induction hs arbitrary: i d)
  case (Cons h hs)
  obtain d1 where d1: "bm_dandelion_note_source (fst (ih_note env i)) (snd (ih_note env i)) h is_dinv now d = Done d1" "index_ok d1"
    using note_source_spec [OF Cons.prems, of "snd (ih_note env i)" h is_dinv now] assms(1) by auto
  show ?case using Cons.IH [OF Cons.prems, of "Suc i"] Cons.IH [OF d1(2), of "Suc i"] d1(1) assms(2) by auto
qed simp

lemma handle_inv_returns:
  assumes "conn_ok conn" "index_ok d" "\<forall>i. fst (ih_note env i) = (True, True)" "ih_array env" "lively (ih_send env)"
  shows "returns (handle_inv g ssl env pool msg now (d, st, conn))"
proof -
  have s: "returns (bind_outcome (send_packet (ih_send env) data t (st, conn)) (\<lambda>r. Done (map_option (\<lambda>(rc, st', conn'). (d1, st', conn')) r)))"
    for data t and d1 :: dandelion_state using send_packet_returns [OF assms(1,5), of data t st] by (auto simp: returns_def)
  show ?thesis
  proof (cases "bm_parse_inventory_message (payload_of msg)")
    case (Some items)
    obtain missing d1 where "missing_loop env pool (command_is (lit ''dinv'') msg) now 0 items d = Done (missing, d1)"
      using missing_loop_done [OF assms(3,4,2)] by (metis prod.exhaust)
    then show ?thesis using Some s by (simp add: handle_inv_def)
  qed (simp add: handle_inv_def)
qed

lemma refill_loop_returns:
  assumes "\<forall>i. lively (snd (env i))"
  shows "conn_ok conn \<Longrightarrow> upload_ok conn \<Longrightarrow> returns (refill_loop g ssl env pool now k i (st, conn))"
proof (induction k arbitrary: i st conn)
  case (Suc k)
  show ?case
  proof (cases "upload_pending_count conn = 0 \<or> pending_eviction conn \<or> BM_UPLOAD_REFILL_THRESHOLD_BYTES \<le> bm_network_queued_bytes conn")
    case True
    then show ?thesis unfolding refill_loop.simps if_P [OF True] by simp
  next
    case False
    let ?c = "conn\<lparr>upload_pending_head := upload_pending_head conn + 1, upload_pending_count := upload_pending_count conn - 1\<rparr>"
    have c: "conn_ok ?c" "upload_ok ?c" "\<not> length (upload_pending conn) \<le> upload_pending_head conn"
      using Suc.prems False by (auto simp: conn_ok_def send_ok_def send_holds_def inv_hashes_ok_def upload_ok_def)
    have sys: "system_ok (snd (env i))" using assms by (simp add: lively_def)
    have miss: "returns (refill_loop g ssl env pool now k (Suc i) (st, ?c\<lparr>upload_not_found := upload_not_found ?c + 1\<rparr>))"
      by (rule Suc.IH) (use c(1,2) in \<open>simp_all add: conn_ok_def send_ok_def send_holds_def inv_hashes_ok_def upload_ok_def\<close>)
    have skip: "returns (refill_loop g ssl env pool now k (Suc i) (st, ?c))" by (rule Suc.IH [OF c(1,2)])
    have sent: "returns (bind_run (send_packet (snd (env i)) data now (st, ?c)) (\<lambda>(rc, st2, conn2).
        if rc \<noteq> 0 then Done (Some (st2, conn2\<lparr>upload_pending_count := 0\<rparr>))
        else refill_loop g ssl env pool now k (Suc i) (st2, conn2\<lparr>upload_sent := upload_sent conn2 + 1\<rparr>)))" for data
    proof (rule returns_bind_run [OF send_packet_returns])
      show "conn_ok ?c" "lively (snd (env i))" using c(1) assms by simp_all
      fix x assume "send_packet (snd (env i)) data now (st, ?c) = Done (Some x)"
      then obtain rc st2 conn2 where x: "x = (rc, st2, conn2)" "evolves ?c conn2" using send_packet_evolves [OF _ sys] by (metis prod.exhaust)
      have "conn_ok (conn2\<lparr>upload_sent := upload_sent conn2 + 1\<rparr>)" "upload_ok (conn2\<lparr>upload_sent := upload_sent conn2 + 1\<rparr>)"
        using x(2) c(1,2) evolves_update(7) [of conn2] by (simp_all add: evolves_def)
      then show "returns (case x of (rc, st2, conn2) \<Rightarrow> if rc \<noteq> 0 then Done (Some (st2, conn2\<lparr>upload_pending_count := 0\<rparr>))
          else refill_loop g ssl env pool now k (Suc i) (st2, conn2\<lparr>upload_sent := upload_sent conn2 + 1\<rparr>))"
        using Suc.IH by (simp add: x(1))
    qed
    show ?thesis
      unfolding refill_loop.simps if_not_P [OF False] if_not_P [OF c(3)] Let_def
      using miss skip sent by (simp split: option.split)
  qed
qed simp

lemma refill_uploads_returns:
  assumes "\<forall>i. lively (snd (env i))" "conn_ok conn" "upload_ok conn"
  shows "returns (bm_object_sync_refill_uploads g ssl env pool now (st, conn))"
  unfolding bm_object_sync_refill_uploads_def
  by (intro returns_if returns_bind_run refill_loop_returns [OF assms]) (auto split: prod.splits)

lemma handle_getdata_returns:
  assumes "\<forall>i. lively (snd (env i))" "conn_ok conn" "upload_ok conn"
  shows "returns (handle_getdata g ssl mem env pool msg now (st, conn))"
proof (cases "bm_parse_inventory_message (payload_of msg)")
  case (Some items)
  define room where "room = (if upload_pending_count conn < BM_MAX_INVENTORY_ITEMS then BM_MAX_INVENTORY_ITEMS - upload_pending_count conn else 0)"
  define n where "n = (if length items < room then length items else room)"
  have n: "n \<le> length items" "upload_pending_count conn + n \<le> BM_MAX_INVENTORY_ITEMS" using assms(3) by (auto simp: n_def room_def upload_ok_def)
  obtain rc conn1 where a: "upload_pending_append mem items n conn = Done (rc, conn1)" "upload_ok conn1"
    using upload_pending_append_queue [OF assms(3) n, of mem] by blast
  have "conn_ok conn1" using append_evolves [OF a(1) n(1) n(2)] assms(2) by (simp add: evolves_def)
  then have "returns (bm_object_sync_refill_uploads g ssl env pool now (st, conn1))" by (rule refill_uploads_returns [OF assms(1) _ a(2)])
  then show ?thesis
    unfolding handle_getdata_def prod.case Some option.case Let_def room_def [symmetric] n_def [symmetric] a(1) by simp
qed (simp add: handle_getdata_def)

lemma stats_send_returns:
  assumes "conn_ok conn" "lively env"
  shows "returns (with_stats (\<lambda>(st, c). bm_network_send (se_alloc env (heap (send_queue c))) (se_ctl env) (se_answers env) (data c) now (st, c)) (n, conn))"
  by (rule with_stats_returns) (simp add: send_returns_lively [OF assms])

lemma handle_version_returns:
  assumes "conn_ok conn" "lively (ve_error env)" "lively (ve_verack env)" "lively (ve_version env)"
    and "bm_parse_version_message (ve_mem env) payload \<noteq> Fault"
  shows "returns (handle_version g ssl ntop env payload (n, conn))"
proof -
  obtain ver where ver: "bm_parse_version_message (ve_mem env) payload = Done ver" using assms(5) by (cases "bm_parse_version_message (ve_mem env) payload") auto
  have err: "returns (bind_run (try_send (ve_error env) data t (n0, c)) (\<lambda>s1. Done (Some (True, disconnect s1))))" if "conn_ok c" for data t n0 c
    by (intro returns_bind_run try_send_returns that assms(2)) simp
  have quiet: "conn_ok (conn\<lparr>disconnect_log_quiet := True\<rparr>)" using assms(1) evolves_update(4) by (auto simp: evolves_def)
  define c1 where "c1 = conn\<lparr>fd_services := vm_services ver, fd_user_agent := (if ve_strdup env then Some (c_str (vm_user_agent ver)) else None)\<rparr>"
  have c1: "conn_ok c1" using assms(1) evolves_trans [OF evolves_update(1) evolves_update(2), of conn] by (simp add: c1_def evolves_def)
  let ?verack = "\<lambda>(st, c). bm_network_send (se_alloc (ve_verack env) (heap (send_queue c))) (se_ctl (ve_verack env))
    (se_answers (ve_verack env)) (bm_create_packet g ssl (lit ''verack'') []) (ve_verack_time env) (st, c)"
  have main: "returns (bind_run (with_stats ?verack (n1, c1)) (\<lambda>(rc, n2, conn2).
      case sn_user_agent n2 of
        None \<Rightarrow> Done (Some (False, n2, conn2))
      | Some ua \<Rightarrow>
          if fd_type conn2 \<noteq> BM_FD_SERVER_SOCKET then Done (Some (False, n2, conn2))
          else bind_run (with_stats (\<lambda>(st, c). bm_network_send (se_alloc (ve_version env) (heap (send_queue c))) (se_ctl (ve_version env))
                 (se_answers (ve_version env)) (bm_new_version_message g ssl (word_of_int (ve_version_time env)) (ve_version_rnd env) ua 3
                   (fd_peer_addr c) bm_unspecified_ipv4_address) (ve_version_time env) (st, c)) (n2, conn2))
               (\<lambda>(rc, s3). Done (Some (False, s3)))))" for n1
  proof (rule returns_bind_run [OF stats_send_returns [OF c1 assms(3)]])
    fix x assume x: "with_stats ?verack (n1, c1) = Done (Some x)"
    obtain rc n2 c2 where p: "x = (rc, n2, c2)" by (cases x)
    have "conn_ok c2" using stats_send_evolves(1) [OF x [unfolded p]] assms(3) c1 by (simp add: lively_def evolves_def)
    note sent = stats_send_returns [OF this assms(4)]
    show "returns (case x of (rc, n2, conn2) \<Rightarrow>
      case sn_user_agent n2 of
        None \<Rightarrow> Done (Some (False, n2, conn2))
      | Some ua \<Rightarrow>
          if fd_type conn2 \<noteq> BM_FD_SERVER_SOCKET then Done (Some (False, n2, conn2))
          else bind_run (with_stats (\<lambda>(st, c). bm_network_send (se_alloc (ve_version env) (heap (send_queue c))) (se_ctl (ve_version env))
                 (se_answers (ve_version env)) (bm_new_version_message g ssl (word_of_int (ve_version_time env)) (ve_version_rnd env) ua 3
                   (fd_peer_addr c) bm_unspecified_ipv4_address) (ve_version_time env) (st, c)) (n2, conn2))
               (\<lambda>(rc, s3). Done (Some (False, s3))))"
    proof (cases "sn_user_agent n2")
      case (Some ua)
      show ?thesis unfolding p prod.case Some option.case by (intro returns_if returns_bind_run sent) (simp_all split: prod.split)
    qed (simp add: p)
  qed
  show ?thesis
    unfolding handle_version_def prod.case ver bind_outcome.simps Let_def c1_def [symmetric] bm_reply_verack_def send_header_only_def bm_post_version_def
    by (intro returns_if main err assms(1)) (use err assms(1) quiet in \<open>auto split: prod.split\<close>)
qed

definition dispatch_lively :: "dispatch_env \<Rightarrow> bool" where
  "dispatch_lively env \<longleftrightarrow> lively (ve_error (de_version env)) \<and> lively (ve_verack (de_version env)) \<and> lively (ve_version (de_version env)) \<and>
     lively (de_pong env) \<and> lively (ih_send (de_inv env)) \<and> ih_array (de_inv env) \<and> (\<forall>i. lively (snd (de_upload env i)))"

text \<open>The parts that may fault: the parsers of \<open>version\<close> and \<open>addr\<close>, and the processing of an object.\<close>

definition parts_ok :: "'b bignum \<Rightarrow> protocol_globals \<Rightarrow> openssl \<Rightarrow> dispatch_env \<Rightarrow> nat \<Rightarrow> bm_message \<Rightarrow> sync_node \<Rightarrow> bool" where
  "parts_ok bn g ssl env fd msg n \<longleftrightarrow>
     (command_is (lit ''version'') msg \<longrightarrow> bm_parse_version_message (ve_mem (de_version env)) (payload_of msg) \<noteq> Fault) \<and>
     (command_is (lit ''addr'') msg \<longrightarrow> bm_parse_addr_message (de_addr_mem env) (payload_of msg) \<noteq> Fault) \<and>
     (command_is (lit ''object'') msg \<longrightarrow> handle_object bn g ssl (de_object env) fd msg n \<noteq> Fault)"

lemma not_Fault_Done: "m \<noteq> Fault \<Longrightarrow> \<exists>x. m = Done x"
  by (cases m) auto

lemma handle_command_returns:
  assumes "conn_ok conn" "upload_ok conn" "index_ok (sn_dandelion n)" "dispatch_env_ok env" "dispatch_lively env" "parts_ok bn g ssl env fd msg n"
  shows "returns (handle_command bn g ssl ntop env fd msg (n, conn))"
proof -
  have env: "lively (de_pong env)" "lively (ih_send (de_inv env))" "ih_array (de_inv env)" "\<forall>i. lively (snd (de_upload env i))"
      "\<forall>i. fst (ih_note (de_inv env) i) = (True, True)"
    using assms(4,5) by (simp_all add: dispatch_lively_def dispatch_env_ok_def)
  have addr: "\<exists>x. handle_addr (de_addr_mem env) (de_addr_ok env) (de_now env) (payload_of msg) n = Done x" if "command_is (lit ''addr'') msg"
    using not_Fault_Done [of "bm_parse_addr_message (de_addr_mem env) (payload_of msg)"] assms(6) that by (auto simp: parts_ok_def handle_addr_def)
  have object: "\<exists>x. handle_object bn g ssl (de_object env) fd msg n = Done x" if "command_is (lit ''object'') msg"
    using not_Fault_Done [of "handle_object bn g ssl (de_object env) fd msg n"] assms(6) that by (simp add: parts_ok_def)
  show ?thesis
    unfolding handle_command_def prod.case bm_reply_pong_def send_header_only_def
    by (intro returns_if returns_bind_run returns_bind_outcome stats_send_returns [OF assms(1) env(1)] addr object
        handle_inv_returns [OF assms(1,3) env(5,3,2)] handle_getdata_returns [OF env(4) assms(1,2)]) (simp_all split: prod.split)
qed

text \<open>The message is handled; after it only the periodic work is left.\<close>

lemma dispatch_handles:
  assumes "conn_ok conn" "upload_ok conn" "index_ok (sn_dandelion n)" "dispatch_env_ok env" "dispatch_lively env" "parts_ok bn g ssl env fd msg n"
  shows "\<exists>early n1 conn'. evolves conn conn' \<and> node_evolves n n1 \<and> bm_object_sync_dispatch bn g ssl ntop env fd msg (n, conn) =
    (if early then Done (Some (n1, conn'))
     else bind_outcome (maybe_run_resend_check bn ssl (de_resend env) (de_resend_env env) (de_resend_now env)
       (maybe_run_gc (de_gc env) (de_gc_now env) n1)) (\<lambda>n2. Done (Some (n2, conn'))))"
proof -
  let ?one = "if command_is (lit ''version'') msg then handle_version g ssl ntop (de_version env) (payload_of msg) (n, conn)
    else bind_run (handle_command bn g ssl ntop env fd msg (n, conn)) (\<lambda>s1. Done (Some (False, s1)))"
  have "returns ?one"
    using assms(5,6) handle_version_returns [OF assms(1), of "de_version env" "payload_of msg" g ssl ntop n] handle_command_returns [OF assms, of ntop]
    by (auto simp: dispatch_lively_def parts_ok_def intro: returns_bind_run)
  then obtain early n1 c1 where one: "?one = Done (Some (early, n1, c1))" unfolding returns_def by (metis prod.exhaust)
  have "evolves conn c1 \<and> node_evolves n n1"
  proof (cases "command_is (lit ''version'') msg")
    case True
    then show ?thesis using one assms(4) unfolding if_P [OF True] by (intro handle_version_evolves) (auto simp: dispatch_env_ok_def)
  next
    case False
    then show ?thesis using one handle_command_sound [OF assms(4), of n conn bn g ssl ntop fd msg]
      unfolding if_not_P [OF False] bind_run_Done sound_def by auto
  qed
  then show ?thesis unfolding bm_object_sync_dispatch_def one by (intro exI conjI) auto
qed

lemma chunk_returns:
  assumes "conn_ok conn" "pending_inv_hashes conn \<noteq> None" "lively env"
  shows "returns (send_inv_chunk g ssl mem (se_alloc env (heap (send_queue conn))) (se_ctl env) (se_answers env) now (st, conn))"
proof -
  have env: "se_ctl env = True" "alloc_ok (se_alloc env)" using assms(3) by (simp_all add: lively_def system_ok_def)
  let ?c1 = "conn\<lparr>pending_inv_last_chunk_time := now\<rparr>"
  have c1: "conn_ok ?c1" using assms(1) by (simp add: conn_ok_def send_ok_def send_holds_def inv_hashes_ok_def)
  have s: "bm_network_send (se_alloc env (heap (send_queue conn))) True (se_answers env) data now (st, ?c1) \<noteq> Done None" for data
    using send_returns_lively [OF c1 assms(3), of data now st] env(1) by (auto simp: returns_def)
  obtain r where "send_inv_chunk g ssl mem (se_alloc env (heap (send_queue conn))) True (se_answers env) now (st, conn) = Done r"
    using send_inv_chunk_keeps [OF assms(1) env(2) assms(2), of g ssl mem "se_answers env" now st] by blast
  moreover have "send_inv_chunk g ssl mem (se_alloc env (heap (send_queue conn))) True (se_answers env) now (st, conn) \<noteq> Done None"
    using s unfolding send_inv_chunk_def prod.case Let_def by (auto split: option.split if_splits)
  ultimately show ?thesis unfolding env(1) returns_def by (cases r) auto
qed

lemma flush_verack_returns:
  assumes "conn_ok conn" "lively (re_addr env)" "lively (re_inv env)" "re_mem env"
  shows "returns (flush_verack_reply_one g ssl env now (n, conn))"
proof -
  have env: "reply_env_ok env" using assms(2,3) by (simp add: reply_env_ok_def lively_def)
  have addr: "returns (send_addr_reply g ssl env (n, conn))"
    using try_send_returns [OF assms(1,2)] assms(4) by (simp add: send_addr_reply_def Let_def split: option.split)
  have inv: "returns (send_big_inv g ssl env (n1, c1))" if c1: "conn_ok c1" for n1 c1
  proof -
    have "returns (bm_network_begin_big_inv g ssl (se_mem (re_inv env)) (se_alloc (re_inv env) (heap (send_queue c1))) (se_ctl (re_inv env))
        (se_answers (re_inv env)) plain (length plain) (re_now env) (sn_stats n1, c1))" for plain
    proof -
      let ?c = "c1\<lparr>pending_inv_hashes := Some plain, pending_inv_total := length plain, pending_inv_sent := 0\<rparr>"
      have "conn_ok ?c" using c1 by (auto simp: conn_ok_def send_ok_def send_holds_def inv_hashes_ok_def)
      from chunk_returns [OF this _ assms(3), of g ssl "se_mem (re_inv env)" "re_now env" "sn_stats n1"]
      show ?thesis by (simp add: bm_network_begin_big_inv_def)
    qed
    then show ?thesis unfolding send_big_inv_def prod.case Let_def by (auto intro!: returns_bind_run split: option.split)
  qed
  have "conn_ok c1" if "send_addr_reply g ssl env (n, conn) = Done (Some (n1, c1))" for n1 c1
    using that try_send_evolves(1) [of "re_addr env"] assms(1) env
    by (auto simp: send_addr_reply_def reply_env_ok_def evolves_def Let_def split: option.splits if_splits)
  then have "returns (send_verack_reply g ssl env (n, conn))"
    unfolding send_verack_reply_def using addr inv by (intro returns_bind_run) auto
  then show ?thesis unfolding flush_verack_reply_one_def by (auto intro!: returns_bind_run)
qed

text \<open>The callbacks as the network thread calls them; a call that does not return has no result to go on with.\<close>

definition sync_handler ::
  "'b bignum \<Rightarrow> protocol_globals \<Rightarrow> openssl \<Rightarrow> (sockaddr \<Rightarrow> bytes) \<Rightarrow> (bm_message \<Rightarrow> sync_node \<Rightarrow> dispatch_env) \<Rightarrow> nat \<Rightarrow> sync_node handler" where
  "sync_handler bn g ssl ntop env fd msg s =
     (case bm_object_sync_dispatch bn g ssl ntop (env msg (fst s)) fd msg s of Done (Some s') \<Rightarrow> s' | _ \<Rightarrow> s)"

definition sync_refill ::
  "protocol_globals \<Rightarrow> openssl \<Rightarrow> (sync_node \<Rightarrow> nat \<Rightarrow> bool \<times> send_env) \<Rightarrow> int \<Rightarrow> node_conn \<Rightarrow> node_conn" where
  "sync_refill g ssl env now s =
     (case bm_object_sync_refill_uploads g ssl (env (fst s)) (sn_pool (fst s)) now (sn_stats (fst s), snd s) of
        Done (Some (st, conn)) \<Rightarrow> ((fst s)\<lparr>sn_stats := st\<rparr>, conn) | _ \<Rightarrow> s)"

text \<open>A node that knows one public key, and a system in which nothing fails, for the witnesses.\<close>

definition sample_penv :: pipe_env where
  "sample_penv = \<lparr>pe_ok = \<lambda>_. True, pe_mem_job = True, pe_mem_strings = True, pe_mem_ack = True, pe_mem_packet = True,
     pe_msg_id = Some (replicate 32 5), pe_ack_random = Some (replicate 32 3), pe_ack_seed = None, pe_ack_dummy = \<lambda>_. None,
     pe_ack_rnd = (None, None), pe_msg_rnd = (Some [2], Some (replicate 16 1))\<rparr>"

definition sample_cached :: bm_cached_pubkey where
  "sample_cached = \<lparr>cp_ripe = replicate 20 7, cp_tag = replicate 32 0, cp_address_version = 3, cp_stream = 1, cp_behavior_bitfield = 1,
     cp_signing_pubkey = 4 # pad_to 64 [4], cp_encryption_pubkey = 4 # pad_to 64 [5], cp_nonce_trials_per_byte = 2000,
     cp_payload_length_extra_bytes = 1000\<rparr>"

definition sample_pubkeys :: pubkey_db where
  "sample_pubkeys = \<lparr>t_pubkey_cache = [(replicate 20 7, \<lparr>row_entry = sample_cached, row_received_time = 0, row_used_personally = False\<rparr>)],
     t_pubkey_requests = [], t_self_responses = []\<rparr>"

definition no_identities :: identity_db where "no_identities = \<lparr>identities = [], vault = None\<rparr>"

definition no_messages :: messages_db where
  "no_messages = \<lparr>inbox = [], sent = [], address_book = [], subscriptions = []\<rparr>"

definition sample_node :: "keyring \<Rightarrow> messages_db \<Rightarrow> sync_node" where
  "sample_node kr mdb = bm_object_sync_ctx_init [] no_identities sample_pubkeys mdb None kr True None
     \<lparr>ps_queue = bm_pow_queue_init 4, ps_callbacks = \<lambda>_. None\<rparr> bm_dandelion_module_init \<lparr>net_bytes_sent = 0, net_bytes_received = 0\<rparr>"

definition sample_oenv :: object_env where
  "sample_oenv = \<lparr>oe_now = 3, oe_mark = (True, \<lambda>_. (True, True)), oe_has = True, oe_insert = True, oe_mem = \<lambda>_. True, oe_inbox = True,
     oe_inbox_now = 3, oe_ack = (True, True), oe_ack_now = 3, oe_pending = True, oe_pubkey = (True, True),
     oe_getpubkey = \<lparr>ge_now = 3, ge_ok = (True, True), ge_rnd = (None, None), ge_job = \<lparr>je_mem = False, je_user_data = 0, je_new_job = None\<rparr>\<rparr>,
     oe_subs = True, oe_broadcast = \<lambda>_. (\<lambda>_. True, True, 3), oe_onion = (True, 3)\<rparr>"

definition sample_denv :: dispatch_env where
  "sample_denv = \<lparr>de_version = \<lparr>ve_mem = \<lambda>_. True, ve_now = 3, ve_strdup = True, ve_error = plain_send, ve_error_time = 3, ve_ok = True,
       ve_result_time = 3, ve_verack = plain_send, ve_verack_time = 3, ve_version = plain_send, ve_version_time = 3, ve_version_rnd = Some 1\<rparr>,
     de_now = 3, de_ok = True, de_pong = plain_send, de_addr_mem = \<lambda>_. True, de_addr_ok = \<lambda>_. True,
     de_inv = \<lparr>ih_has = \<lambda>_. True, ih_note = \<lambda>_. ((True, True), 0), ih_array = True, ih_send = plain_send, ih_send_time = 3\<rparr>,
     de_upload_mem = True, de_upload = \<lambda>_. (True, plain_send), de_object = sample_oenv, de_gc = True, de_gc_now = 3, de_resend = True,
     de_resend_env = \<lambda>_. (sample_penv, \<lparr>je_mem = False, je_user_data = 0, je_new_job = None\<rparr>), de_resend_now = 3\<rparr>"

definition sample_renv :: reply_env where
  "sample_renv = \<lparr>re_ok = True, re_now = 3, re_mem = True, re_addr = plain_send, re_list = (True, True, True), re_plain = True, re_inv = plain_send\<rparr>"

lemma plain_system_ok: "system_ok plain_send"
  using plain_send_ok by (simp add: system_ok_def send_env_ok_def)

text \<open>What is kept, from a sound node and connection.\<close>

definition sound_after :: "sync_node \<Rightarrow> bm_fd_data \<Rightarrow> sync_node \<Rightarrow> bm_fd_data \<Rightarrow> bool" where
  "sound_after n conn n' conn' \<longleftrightarrow> conn_ok conn' \<and> upload_ok conn' \<and> generation conn' = generation conn \<and> index_ok (sn_dandelion n') \<and>
     (\<forall>p. sn_peers n' = Some p \<longrightarrow> peers_ok p) \<and> sn_keyring n' = sn_keyring n \<and> sn_identities n' = sn_identities n"

lemma sound_afterI:
  "conn_ok conn \<Longrightarrow> upload_ok conn \<Longrightarrow> index_ok (sn_dandelion n) \<Longrightarrow> \<forall>p. sn_peers n = Some p \<longrightarrow> peers_ok p \<Longrightarrow>
    evolves conn conn' \<Longrightarrow> node_evolves n n' \<Longrightarrow> sound_after n conn n' conn'"
  by (simp add: sound_after_def evolves_def node_evolves_def node_inv_def)

section \<open>Properties\<close>

text \<open>
  C39: A message of a peer is handled, and it leaves a sound node. While memory is there and the socket answers,
  \<open>bm_object_sync_dispatch\<close> handles every message without a fault and comes to its periodic work, where only the check of the
  resends is left; the exceptions are the parsers of \<open>version\<close> and \<open>addr\<close>, which read or write outside their memory for some
  payloads, and the processing of an object. After the message, and when the call returns, the send queue of the
  connection, its inventory still to be announced and its upload backlog are consistent, it is the same registration of the
  connection, the index of Dandelion and the table of peers are well formed, and the keys and the table of identities are
  unchanged. The answers after the handshake are sent, with the same result. So the handler and the upload callback meet the
  contract under which the network thread is safe.
\<close>

theorem dispatch_keeps_node:
  assumes "\<And>msg n. dispatch_env_ok (env msg n)" "\<And>n i. system_ok (snd (uenv n i))" "reply_env_ok renv"
  shows "handler_keeps (sync_handler bn g ssl ntop env fd) \<and> refill_keeps (Some (sync_refill g ssl uenv)) \<and>
    (\<forall>msg e n conn. conn_ok conn \<and> upload_ok conn \<and> index_ok (sn_dandelion n) \<and> (\<forall>p. sn_peers n = Some p \<longrightarrow> peers_ok p) \<longrightarrow>
      (dispatch_lively (env msg e) \<and> parts_ok bn g ssl (env msg e) fd msg n \<longrightarrow>
        (\<exists>early n1 conn'. sound_after n conn n1 conn' \<and> bm_object_sync_dispatch bn g ssl ntop (env msg e) fd msg (n, conn) =
          (if early then Done (Some (n1, conn'))
           else bind_outcome (maybe_run_resend_check bn ssl (de_resend (env msg e)) (de_resend_env (env msg e)) (de_resend_now (env msg e))
             (maybe_run_gc (de_gc (env msg e)) (de_gc_now (env msg e)) n1)) (\<lambda>n2. Done (Some (n2, conn')))))) \<and>
      (lively (re_addr renv) \<and> lively (re_inv renv) \<and> re_mem renv \<longrightarrow>
        (\<exists>s'. flush_verack_reply_one g ssl renv now (n, conn) = Done (Some s'))) \<and>
      (\<forall>n' conn'. bm_object_sync_dispatch bn g ssl ntop (env msg e) fd msg (n, conn) = Done (Some (n', conn')) \<or>
       flush_verack_reply_one g ssl renv now (n, conn) = Done (Some (n', conn')) \<longrightarrow> sound_after n conn n' conn'))"
proof (intro conjI)
  have d: "evolves conn conn' \<and> node_evolves n n'"
    if "bm_object_sync_dispatch bn g ssl ntop (env msg e) fd msg (n, conn) = Done (Some (n', conn'))" for msg e n conn n' conn'
    using dispatch_sound [OF assms(1)] that unfolding sound_def by blast
  show "handler_keeps (sync_handler bn g ssl ntop env fd)"
    unfolding handler_keeps_def
  proof (intro allI impI)
    fix msg n conn
    assume ok: "conn_ok conn"
    show "conn_ok (snd (sync_handler bn g ssl ntop env fd msg (n, conn))) \<and>
        generation (snd (sync_handler bn g ssl ntop env fd msg (n, conn))) = generation conn"
      using d [of msg n n conn] ok by (auto simp: sync_handler_def evolves_def split: outcome.splits option.splits)
  qed
  have r: "evolves conn conn'" if "bm_object_sync_refill_uploads g ssl (uenv n) pool now (st, conn) = Done (Some (st', conn'))"
    for n pool now st conn st' conn'
    by (rule refill_uploads_evolves [OF _ that]) (use assms(2) in blast)
  show "refill_keeps (Some (sync_refill g ssl uenv))"
    unfolding refill_keeps_def run_refill_def option.case sync_refill_def
    by (auto simp: evolves_def split: outcome.splits option.splits dest: r)
  show "\<forall>msg e n conn. conn_ok conn \<and> upload_ok conn \<and> index_ok (sn_dandelion n) \<and> (\<forall>p. sn_peers n = Some p \<longrightarrow> peers_ok p) \<longrightarrow>
      (dispatch_lively (env msg e) \<and> parts_ok bn g ssl (env msg e) fd msg n \<longrightarrow>
        (\<exists>early n1 conn'. sound_after n conn n1 conn' \<and> bm_object_sync_dispatch bn g ssl ntop (env msg e) fd msg (n, conn) =
          (if early then Done (Some (n1, conn'))
           else bind_outcome (maybe_run_resend_check bn ssl (de_resend (env msg e)) (de_resend_env (env msg e)) (de_resend_now (env msg e))
             (maybe_run_gc (de_gc (env msg e)) (de_gc_now (env msg e)) n1)) (\<lambda>n2. Done (Some (n2, conn')))))) \<and>
      (lively (re_addr renv) \<and> lively (re_inv renv) \<and> re_mem renv \<longrightarrow>
        (\<exists>s'. flush_verack_reply_one g ssl renv now (n, conn) = Done (Some s'))) \<and>
      (\<forall>n' conn'. bm_object_sync_dispatch bn g ssl ntop (env msg e) fd msg (n, conn) = Done (Some (n', conn')) \<or>
       flush_verack_reply_one g ssl renv now (n, conn) = Done (Some (n', conn')) \<longrightarrow> sound_after n conn n' conn')"
  proof (intro allI impI conjI, elim conjE, goal_cases)
    case (1 msg e n conn)
    from dispatch_handles [OF 1(1,4,5) assms(1) 1(2,3), of ntop] sound_afterI [OF 1(1,4-6)] show ?case
      by (elim exE conjE) (intro exI conjI, blast, assumption)
  next
    case (2 msg e n conn)
    then show ?case using flush_verack_returns [of conn renv g ssl now n] unfolding returns_def by blast
  next
    case (3 msg e n conn n' conn')
    then have "evolves conn conn' \<and> node_evolves n n'"
      using d flush_verack_sound [OF assms(3), of n conn g ssl now] unfolding sound_def by blast
    then show ?case using 3 by (intro sound_afterI) auto
  qed
qed

definition sample_ping :: bm_message where
  "sample_ping = sample_request\<lparr>msg_command := command_field (lit ''ping'')\<rparr>"

theorem dispatch_keeps_node_witness:
  "\<exists>n' conn'. bm_object_sync_dispatch nat_bignum protocol_init plain_ssl (\<lambda>_. []) sample_denv 7 sample_ping
      (sample_node [] no_messages, sample_conn) \<in> {Done (Some (n', conn')),
        bind_outcome (maybe_run_resend_check nat_bignum plain_ssl True (de_resend_env sample_denv) 3 (maybe_run_gc True 3 n')) (\<lambda>n2. Done (Some (n2, conn')))} \<and>
    conn_ok conn' \<and> upload_ok conn' \<and> sn_keyring n' = []"
proof -
  let ?n = "sample_node [] no_messages"
  have n: "sn_peers ?n = None" "index_ok (sn_dandelion ?n)" "sn_keyring ?n = []"
    by (simp_all add: sample_node_def bm_object_sync_ctx_init_def index_ok_init)
  have live: "lively plain_send" using plain_send_ok by (simp add: lively_def plain_system_ok send_env_ok_def)
  have env: "dispatch_env_ok sample_denv" "system_ok (snd (True, plain_send))" "reply_env_ok sample_renv" "dispatch_lively sample_denv"
    by (simp_all add: dispatch_env_ok_def version_env_ok_def reply_env_ok_def sample_denv_def sample_renv_def plain_system_ok dispatch_lively_def live)
  have "\<not> command_is (lit ''version'') sample_ping" "\<not> command_is (lit ''addr'') sample_ping" "\<not> command_is (lit ''object'') sample_ping"
    by (simp_all add: command_is_def sample_ping_def command_field_def strlen_def c_str_def)
  then have parts: "parts_ok nat_bignum protocol_init plain_ssl sample_denv 7 sample_ping ?n" by (simp add: parts_ok_def)
  have c: "conn_ok sample_conn" "upload_ok sample_conn"
    using conn_ok_new(1) [OF sample_conn_new] fresh_connection(2) [OF sample_conn_new] by simp_all
  note keeps = dispatch_keeps_node [where env = "\<lambda>_ _. sample_denv" and uenv = "\<lambda>_ _. (True, plain_send)" and bn = nat_bignum and g = protocol_init
      and ssl = plain_ssl and ntop = "\<lambda>_. []" and fd = 7 and now = 0, OF env(1) env(2) env(3), THEN conjunct2, THEN conjunct2, rule_format,
      of sample_conn ?n, THEN conjunct1, rule_format, of sample_ping]
  obtain early n1 conn' where "sound_after ?n sample_conn n1 conn'"
      "bm_object_sync_dispatch nat_bignum protocol_init plain_ssl (\<lambda>_. []) sample_denv 7 sample_ping (?n, sample_conn) =
        (if early then Done (Some (n1, conn'))
         else bind_outcome (maybe_run_resend_check nat_bignum plain_ssl (de_resend sample_denv) (de_resend_env sample_denv) (de_resend_now sample_denv)
             (maybe_run_gc (de_gc sample_denv) (de_gc_now sample_denv) n1)) (\<lambda>n2. Done (Some (n2, conn'))))"
    using keeps c n(1,2) env(4) parts by auto
  then show ?thesis
    by (intro exI [of _ n1] exI [of _ conn']) (auto simp: sound_after_def n(3) sample_denv_def split: if_splits)
qed

end
