(* ===== verification/Receiving.thy ===== *)
theory Receiving
  imports Network
begin

text \<open>
  The receiving side of \<open>src/infra/network.c\<close>: a sequence of packets, cut into reads and into calls of
  \<open>bm_network_handle_readable\<close> in any way, reaches the command handler as exactly those messages; the
  limiter bounds the connections accepted in any interval.
\<close>

section \<open>The receive buffer\<close>

text \<open>The sizes a buffer can have: the initial size doubled at most six times.\<close>

definition recv_ok :: "bm_fd_data \<Rightarrow> bool" where
  "recv_ok conn \<longleftrightarrow> (\<exists>k\<le>6. buf_size conn = INIT_RECV_BUFFER_SIZE * 2 ^ k) \<and> length (recv_buffer conn) \<le> buf_size conn"

lemma grow_buffer_size:
  assumes "k \<le> 6" "need \<le> 8388608"
  shows "\<exists>j\<le>6. k \<le> j \<and> grow_buffer (INIT_RECV_BUFFER_SIZE * 2 ^ k) need = INIT_RECV_BUFFER_SIZE * 2 ^ j \<and>
    need \<le> INIT_RECV_BUFFER_SIZE * 2 ^ j"
  using assms
proof (induction "6 - k" arbitrary: k)
  case 0
  then show ?case by (subst grow_buffer.simps) (auto intro!: exI [of _ 6])
next
  case (Suc d)
  show ?case
  proof (cases "INIT_RECV_BUFFER_SIZE * 2 ^ k < need")
    case True
    have "\<exists>j\<le>6. Suc k \<le> j \<and> grow_buffer (INIT_RECV_BUFFER_SIZE * 2 ^ Suc k) need = INIT_RECV_BUFFER_SIZE * 2 ^ j \<and>
        need \<le> INIT_RECV_BUFFER_SIZE * 2 ^ j" using Suc by (intro Suc.hyps(1)) auto
    moreover have "grow_buffer (INIT_RECV_BUFFER_SIZE * 2 ^ k) need = grow_buffer (INIT_RECV_BUFFER_SIZE * 2 ^ Suc k) need"
      using True by (subst grow_buffer.simps) (simp add: mult.left_commute)
    ultimately show ?thesis by (auto simp del: power_Suc dest: Suc_leD)
  next
    case False
    then show ?thesis using Suc.prems by (subst grow_buffer.simps) (auto intro!: exI [of _ k])
  qed
qed

definition reads :: "bytes list \<Rightarrow> read_answer list" where
  "reads bss = map Read bss @ [Read_again]"

lemma read_loop_Read:
  assumes "size' = (if buf_size conn < length (recv_buffer conn) + length bs
      then grow_buffer (buf_size conn) (length (recv_buffer conn) + length bs) else buf_size conn)"
    and "size' \<le> MAX_RECV_BUFFER_SIZE" "length (recv_buffer conn) + length bs \<le> size'"
  shows "read_loop (\<lambda>_. True) (Read bs # as) now (st, conn) =
    read_loop (\<lambda>_. True) as now (net_stats_add_received (word_of_nat (length bs)) st,
      conn\<lparr>last_activity := now, fd_bytes_received := fd_bytes_received conn + word_of_nat (length bs),
        buf_size := size', recv_buffer := recv_buffer conn @ bs\<rparr>)"
proof (cases "buf_size conn < length (recv_buffer conn) + length bs")
  case True
  then show ?thesis using assms by (simp add: Let_def)
next
  case False
  then have "size' = buf_size conn" using assms(1) by simp
  with False show ?thesis by (cases conn) (simp add: Let_def)
qed

text \<open>Reading until the socket is empty appends what was read; nothing else of the stream changes.\<close>

lemma read_loop_appends:
  assumes "recv_ok conn" "length (recv_buffer conn) + length (concat bss) \<le> 8388608"
  shows "\<exists>st' conn'. read_loop (\<lambda>_. True) (reads bss) now (st, conn) = Done (Some (Inr (), st', conn')) \<and>
    recv_ok conn' \<and> recv_buffer conn' = recv_buffer conn @ concat bss \<and> should_disconnect conn' = should_disconnect conn"
  using assms
proof (induction bss arbitrary: st conn)
  case Nil
  then show ?case by (simp add: reads_def)
next
  case (Cons bs bss)
  let ?need = "length (recv_buffer conn) + length bs"
  define size' where "size' = (if buf_size conn < ?need then grow_buffer (buf_size conn) ?need else buf_size conn)"
  obtain k where k: "k \<le> 6" "buf_size conn = INIT_RECV_BUFFER_SIZE * 2 ^ k" using Cons.prems(1) by (auto simp: recv_ok_def)
  have "\<exists>j\<le>6. size' = INIT_RECV_BUFFER_SIZE * 2 ^ j \<and> ?need \<le> size'"
    using grow_buffer_size [OF k(1), of ?need] Cons.prems(2) k by (auto simp: size'_def)
  then obtain j where j: "j \<le> 6" "size' = INIT_RECV_BUFFER_SIZE * 2 ^ j" "?need \<le> size'" by blast
  have "(2::nat) ^ j \<le> 2 ^ 6" using j(1) by (intro power_increasing) simp_all
  then have max: "size' \<le> MAX_RECV_BUFFER_SIZE" unfolding j(2) by simp
  let ?st = "net_stats_add_received (word_of_nat (length bs)) st"
  let ?conn = "conn\<lparr>last_activity := now, fd_bytes_received := fd_bytes_received conn + word_of_nat (length bs),
    buf_size := size', recv_buffer := recv_buffer conn @ bs\<rparr>"
  have ok: "recv_ok ?conn" using j by (auto simp: recv_ok_def)
  have "read_loop (\<lambda>_. True) (reads (bs # bss)) now (st, conn) = read_loop (\<lambda>_. True) (reads bss) now (?st, ?conn)"
    unfolding reads_def list.map append_Cons by (rule read_loop_Read [OF size'_def max j(3)])
  with Cons.IH [OF ok, of ?st] Cons.prems(2) show ?case by simp
qed

section \<open>The packet loop\<close>

definition packet_ok :: "bytes \<times> bytes \<Rightarrow> bool" where
  "packet_ok p \<longleftrightarrow> length (snd p) \<le> 4194304"

definition packet :: "protocol_globals \<Rightarrow> openssl \<Rightarrow> bytes \<times> bytes \<Rightarrow> bytes" where
  "packet g ssl p = bm_create_packet g ssl (fst p) (snd p)"

definition message_of :: "openssl \<Rightarrow> bytes \<times> bytes \<Rightarrow> bm_message" where
  "message_of ssl p = \<lparr>msg_command = command_field (fst p), msg_length = word_of_nat (length (snd p)),
     msg_checksum = read_be32 (bm_sha512 ssl (snd p)), msg_payload = (if snd p = [] then None else Some (snd p))\<rparr>"

text \<open>The setting of the lemmas: either network, and digests of the right length.\<close>

definition framing_ok :: "protocol_globals \<Rightarrow> openssl \<Rightarrow> bool" where
  "framing_ok g ssl \<longleftrightarrow> protocol_ok g \<and> digests_ok ssl \<and> sha512_empty_ok ssl"

lemma length_packet: "framing_ok g ssl \<Longrightarrow> length (packet g ssl p) = 24 + length (snd p)"
  by (simp add: framing_ok_def packet_def bm_create_packet_fields)

lemma parse_packet:
  "framing_ok g ssl \<Longrightarrow> packet_ok p \<Longrightarrow>
    bm_parse_message g ssl (packet g ssl p @ rest) = BM_PARSE_OK (message_of ssl p) (24 + length (snd p))"
  unfolding framing_ok_def packet_def message_of_def packet_ok_def by (elim conjE) (rule bm_parse_created)

lemma parse_partial_packet:
  assumes "framing_ok g ssl" "packet_ok p" "k < length (packet g ssl p)"
  shows "bm_parse_message g ssl (take k (packet g ssl p)) = BM_PARSE_INCOMPLETE"
proof (cases "k < 24")
  case True
  then show ?thesis using assms(3) by (simp add: bm_parse_message_def)
next
  case False
  let ?len = "word_of_nat (length (snd p)) :: u32"
  have len: "unat ?len = length (snd p)" using assms(2) by (simp add: packet_ok_def unat_of_nat)
  have f: "protocol_ok g" "digests_ok ssl" "sha512_empty_ok ssl" using assms(1) by (simp_all add: framing_ok_def)
  have pk: "packet g ssl p = bm_magicbytes g @ command_field (fst p) @ be32 ?len @
      take 4 (bm_sha512 ssl (snd p)) @ snd p" by (simp add: packet_def bm_create_packet_fields [OF f(3)])
  have "take 4 (take k (packet g ssl p)) = bm_magicbytes g" using False f by (simp add: pk min_def)
  moreover have "take 4 (drop 16 (take k (packet g ssl p))) = be32 ?len"
    using False f by (simp add: pk drop_take min_def)
  then have "read_be32 (drop 16 (take k (packet g ssl p))) = ?len" by (simp add: read_be32_def)
  moreover have "\<not> BM_MAX_MESSAGE_LENGTH < ?len" using assms(2) len by (simp add: word_less_nat_alt packet_ok_def)
  moreover have "length (take k (packet g ssl p)) = k" "k < 24 + length (snd p)"
    using assms(3) length_packet [OF assms(1), of p] by simp_all
  ultimately show ?thesis using False len by (simp add: bm_parse_message_def Let_def)
qed

text \<open>A prefix of a sequence of packets is some of the packets and an incomplete rest.\<close>

lemma packets_prefix:
  assumes "framing_ok g ssl" "\<forall>p\<in>set ps. packet_ok p" "t @ later = concat (map (packet g ssl) ps)"
  shows "\<exists>qs rs part. ps = qs @ rs \<and> t = concat (map (packet g ssl) qs) @ part \<and>
    bm_parse_message g ssl part = BM_PARSE_INCOMPLETE \<and> length part < 4194328 \<and>
    part @ later = concat (map (packet g ssl) rs)"
  using assms(2,3)
proof (induction ps arbitrary: t)
  case Nil
  then show ?case by (simp add: bm_parse_message_def)
next
  case (Cons p ps)
  show ?case
  proof (cases "length t < length (packet g ssl p)")
    case True
    then have t: "t = take (length t) (packet g ssl p)" using Cons.prems(2)
      by (metis append_eq_append_conv_if concat.simps(2) list.simps(9) less_or_eq_imp_le)
    have "bm_parse_message g ssl t = BM_PARSE_INCOMPLETE"
      by (subst t) (rule parse_partial_packet [OF assms(1) _ True], use Cons.prems(1) in simp)
    moreover have "length t < 4194328"
      using True length_packet [OF assms(1), of p] Cons.prems(1) by (simp add: packet_ok_def)
    ultimately show ?thesis using Cons.prems(2)
      by (intro exI [of _ "[]"] exI [of _ "p # ps"] exI [of _ t]) simp
  next
    case False
    let ?n = "length (packet g ssl p)"
    have "take ?n (t @ later) = packet g ssl p" "drop ?n (t @ later) = concat (map (packet g ssl) ps)"
      using Cons.prems(2) by simp_all
    then have t': "t = packet g ssl p @ drop ?n t" "drop ?n t @ later = concat (map (packet g ssl) ps)"
      using False append_take_drop_id [of ?n t] by simp_all
    obtain qs rs part where q: "ps = qs @ rs" "drop ?n t = concat (map (packet g ssl) qs) @ part"
      "bm_parse_message g ssl part = BM_PARSE_INCOMPLETE" "length part < 4194328"
      "part @ later = concat (map (packet g ssl) rs)"
      using Cons.IH [OF _ t'(2)] Cons.prems(1) by auto
    then show ?thesis using t'(1) by (intro exI [of _ "p # qs"] exI [of _ rs] exI [of _ part]) (simp only: list.map concat.simps append_Cons append.assoc simp_thms)
  qed
qed

text \<open>A handler that leaves the buffer size alone and does not hang up, with a log of its calls.\<close>

definition handler_ok :: "(bm_message \<Rightarrow> 'u \<times> bm_fd_data \<Rightarrow> 'u \<times> bm_fd_data) \<Rightarrow> bool" where
  "handler_ok h \<longleftrightarrow> (\<forall>m u c. buf_size (snd (h m (u, c))) = buf_size c \<and>
     (\<not> should_disconnect c \<longrightarrow> \<not> should_disconnect (snd (h m (u, c)))))"

definition logged ::
  "(bm_message \<Rightarrow> 'u \<times> bm_fd_data \<Rightarrow> 'u \<times> bm_fd_data) \<Rightarrow> bm_message \<Rightarrow> (bm_message list \<times> 'u) \<times> bm_fd_data
     \<Rightarrow> (bm_message list \<times> 'u) \<times> bm_fd_data" where
  "logged h m s = (case s of ((log, u), c) \<Rightarrow> case h m (u, c) of (u', c') \<Rightarrow> ((log @ [m], u'), c'))"

lemma parse_loop_packets:
  assumes "framing_ok g ssl" "\<forall>p\<in>set ps. packet_ok p" "handler_ok h" "\<not> should_disconnect conn"
    "bm_parse_message g ssl part = BM_PARSE_INCOMPLETE"
  shows "\<exists>u' conn'. parse_loop g ssl (logged h) (concat (map (packet g ssl) ps) @ part) ((log, u), conn) =
      (0, (log @ map (message_of ssl) ps, u'), conn') \<and>
    recv_buffer conn' = part \<and> \<not> should_disconnect conn' \<and> buf_size conn' = buf_size conn"
  using assms(2,4)
proof (induction ps arbitrary: log u conn)
  case Nil
  then show ?case using assms(5) by (subst parse_loop.simps) simp
next
  case (Cons p ps)
  let ?rest = "concat (map (packet g ssl) ps) @ part"
  obtain u1 conn1 where h: "h (message_of ssl p) (u, conn\<lparr>recv_buffer := ?rest\<rparr>) = (u1, conn1)" by force
  then have c1: "\<not> should_disconnect conn1" "buf_size conn1 = buf_size conn"
    using assms(3) Cons.prems(2) by (auto simp: handler_ok_def dest!: spec [of _ "message_of ssl p"]
      spec [of _ u] spec [of _ "conn\<lparr>recv_buffer := ?rest\<rparr>"])
  have parse: "bm_parse_message g ssl (packet g ssl p @ ?rest) = BM_PARSE_OK (message_of ssl p) (24 + length (snd p))"
    using Cons.prems(1) by (intro parse_packet [OF assms(1)]) simp
  have rest: "drop (24 + length (snd p)) (packet g ssl p @ ?rest) = ?rest"
    by (rule drop_append_exact) (rule length_packet [OF assms(1)])
  have "parse_loop g ssl (logged h) (packet g ssl p @ ?rest) ((log, u), conn) =
      parse_loop g ssl (logged h) ?rest ((log @ [message_of ssl p], u1), conn1)"
    using c1(1) by (subst parse_loop.simps) (simp only: parse bm_parse_result.case Let_def rest logged_def split h if_False)
  then show ?case using Cons.IH [of conn1 "log @ [message_of ssl p]" u1] Cons.prems(1) c1 by simp
qed

section \<open>Calls\<close>

text \<open>
  Successive calls of \<open>bm_network_handle_readable\<close>, each at a time and with the pieces that \<open>read\<close>
  returned before the socket was empty, as long as the calls return 0.
\<close>

fun handle_calls ::
  "protocol_globals \<Rightarrow> openssl \<Rightarrow> (bm_message \<Rightarrow> 'u \<times> bm_fd_data \<Rightarrow> 'u \<times> bm_fd_data) \<Rightarrow> (int \<times> bytes list) list
     \<Rightarrow> net_stats \<Rightarrow> 'u \<times> bm_fd_data \<Rightarrow> (int \<times> net_stats \<times> 'u \<times> bm_fd_data) option outcome" where
  "handle_calls g ssl h [] st s = Done (Some (0, st, s))"
| "handle_calls g ssl h ((now, bss) # calls) st s =
     bind_outcome (bm_network_handle_readable g ssl h (\<lambda>_. True) (reads bss) now st s) (\<lambda>r.
       case r of
         Some (rc, st', s') \<Rightarrow> if rc = 0 then handle_calls g ssl h calls st' s' else Done r
       | None \<Rightarrow> Done None)"

definition received :: "(int \<times> bytes list) list \<Rightarrow> bytes" where
  "received calls = concat (map (\<lambda>(now, bss). concat bss) calls)"

lemma handle_readable_packets:
  assumes "framing_ok g ssl" "\<forall>p\<in>set qs. packet_ok p" "handler_ok h" "\<not> should_disconnect conn" "recv_ok conn"
    "length (recv_buffer conn) + length (concat bss) \<le> 8388608"
    "recv_buffer conn @ concat bss = concat (map (packet g ssl) qs) @ part"
    "bm_parse_message g ssl part = BM_PARSE_INCOMPLETE"
  shows "\<exists>st' u' conn'. bm_network_handle_readable g ssl (logged h) (\<lambda>_. True) (reads bss) now st ((log, u), conn) =
      Done (Some (0, st', (log @ map (message_of ssl) qs, u'), conn')) \<and>
    recv_buffer conn' = part \<and> \<not> should_disconnect conn' \<and> recv_ok conn'"
proof -
  obtain st1 conn1 where r: "read_loop (\<lambda>_. True) (reads bss) now (st, conn) = Done (Some (Inr (), st1, conn1))"
    "recv_ok conn1" "recv_buffer conn1 = recv_buffer conn @ concat bss" "should_disconnect conn1 = should_disconnect conn"
    using read_loop_appends [OF assms(5,6)] by blast
  obtain u' conn' where "parse_loop g ssl (logged h) (recv_buffer conn1) ((log, u), conn1) =
      (0, (log @ map (message_of ssl) qs, u'), conn')"
    "recv_buffer conn' = part" "\<not> should_disconnect conn'" "buf_size conn' = buf_size conn1"
    using parse_loop_packets [OF assms(1-3) _ assms(8), of conn1 log u] r(3,4) assms(4,7) by auto
  moreover have "length part \<le> buf_size conn1"
    using r(2,3) assms(7) by (auto simp: recv_ok_def dest!: arg_cong [of _ _ length])
  ultimately show ?thesis using r by (auto simp: bm_network_handle_readable_def recv_ok_def)
qed

lemma handle_calls_packets:
  assumes "framing_ok g ssl" "handler_ok h"
  shows "\<forall>p\<in>set ps. packet_ok p \<Longrightarrow> \<forall>(now, bss)\<in>set calls. length (concat bss) \<le> 4194280 \<Longrightarrow>
    \<not> should_disconnect conn \<Longrightarrow> recv_ok conn \<Longrightarrow> length (recv_buffer conn) < 4194328 \<Longrightarrow>
    recv_buffer conn @ received calls @ later = concat (map (packet g ssl) ps) \<Longrightarrow>
    bm_parse_message g ssl (recv_buffer conn) = BM_PARSE_INCOMPLETE \<Longrightarrow>
    \<exists>qs rs st' u' conn'. handle_calls g ssl (logged h) calls st ((log, u), conn) =
        Done (Some (0, st', (log @ map (message_of ssl) qs, u'), conn')) \<and>
      ps = qs @ rs \<and> recv_buffer conn' @ later = concat (map (packet g ssl) rs) \<and>
      bm_parse_message g ssl (recv_buffer conn') = BM_PARSE_INCOMPLETE"
proof (induction calls arbitrary: ps conn log u st)
  case Nil
  then show ?case by (auto simp: received_def intro!: exI [of _ "[]"] exI [of _ ps])
next
  case (Cons c calls)
  obtain now bss where c: "c = (now, bss)" by (cases c)
  have "(recv_buffer conn @ concat bss) @ (received calls @ later) = concat (map (packet g ssl) ps)"
    using Cons.prems(6) by (simp add: received_def c)
  from packets_prefix [OF assms(1) Cons.prems(1) this] obtain qs rs part where
    q: "ps = qs @ rs" "recv_buffer conn @ concat bss = concat (map (packet g ssl) qs) @ part"
    "bm_parse_message g ssl part = BM_PARSE_INCOMPLETE" "length part < 4194328"
    "part @ received calls @ later = concat (map (packet g ssl) rs)" by auto
  have len: "length (recv_buffer conn) + length (concat bss) \<le> 8388608" using Cons.prems(2,5) c by simp
  have ok: "\<forall>p\<in>set qs. packet_ok p" "\<forall>p\<in>set rs. packet_ok p" using Cons.prems(1) q(1) by auto
  obtain st1 u1 conn1 where h: "bm_network_handle_readable g ssl (logged h) (\<lambda>_. True) (reads bss) now st ((log, u), conn) =
      Done (Some (0, st1, (log @ map (message_of ssl) qs, u1), conn1))"
    "recv_buffer conn1 = part" "\<not> should_disconnect conn1" "recv_ok conn1"
    using handle_readable_packets [OF assms(1) ok(1) assms(2) Cons.prems(3,4) len q(2,3)] by blast
  have calls: "\<forall>(now, bss)\<in>set calls. length (concat bss) \<le> 4194280" using Cons.prems(2) by simp
  obtain qs' rs' st' u' conn' where "handle_calls g ssl (logged h) calls st1 ((log @ map (message_of ssl) qs, u1), conn1) =
      Done (Some (0, st', ((log @ map (message_of ssl) qs) @ map (message_of ssl) qs', u'), conn'))"
    "rs = qs' @ rs'" "recv_buffer conn' @ later = concat (map (packet g ssl) rs')"
    "bm_parse_message g ssl (recv_buffer conn') = BM_PARSE_INCOMPLETE"
    using Cons.IH [OF ok(2) calls h(3,4), of st1 "log @ map (message_of ssl) qs" u1] q(3-5) h(2) by auto
  then show ?case using h(1) q(1) c
    by (intro exI [of _ "qs @ qs'"] exI [of _ rs'] exI [of _ st'] exI [of _ u'] exI [of _ conn']) simp
qed

lemma recv_ok_new:
  "bm_fd_data_new mem type local_name peer_name now h = Some conn \<Longrightarrow>
    recv_ok conn \<and> recv_buffer conn = [] \<and> \<not> should_disconnect conn"
  by (auto simp: bm_fd_data_new_def recv_ok_def intro!: exI [of _ 0] split: if_splits option.splits)

section \<open>The limiter over a sequence of connections\<close>

fun limiter_run :: "bm_inbound_rate_limiter \<Rightarrow> int list \<Rightarrow> (int \<times> bool) list" where
  "limiter_run rl [] = []"
| "limiter_run rl (t # ts) =
     (case bm_inbound_rate_limiter_allow t rl of (ok, rl') \<Rightarrow> (t, ok) # limiter_run rl' ts)"

definition accepted_in :: "int \<Rightarrow> (int \<times> bool) list \<Rightarrow> nat" where
  "accepted_in s run = length (filter (\<lambda>(t, ok). ok \<and> s \<le> t \<and> t < s + BM_INBOUND_ACCEPT_WINDOW_SECONDS) run)"

lemma accepted_in_simps [simp]:
  "accepted_in s [] = 0"
  "accepted_in s ((t, ok) # run) =
    (if ok \<and> s \<le> t \<and> t < s + BM_INBOUND_ACCEPT_WINDOW_SECONDS then 1 else 0) + accepted_in s run"
  by (simp_all add: accepted_in_def)

text \<open>An interval that starts before the window sees the rest of that window's allowance only.\<close>

lemma limiter_current_window:
  "sorted (window_start rl # ts) \<Longrightarrow> s \<le> window_start rl \<Longrightarrow>
    int (accepted_in s (limiter_run rl ts)) \<le> max 0 (BM_INBOUND_ACCEPT_MAX_PER_WINDOW - count_in_window rl)"
proof (induction ts arbitrary: rl)
  case Nil
  then show ?case by simp
next
  case (Cons t ts)
  show ?case
  proof (cases "BM_INBOUND_ACCEPT_WINDOW_SECONDS \<le> t - window_start rl")
    case True
    have "\<forall>x\<in>set (t # ts). s + 10 \<le> x" using Cons.prems True by fastforce
    then have "accepted_in s (limiter_run rl' (t # ts)) = 0" for rl'
    proof (induction "t # ts" arbitrary: t ts rl')
      case (Cons t ts)
      then show ?case by (cases ts) (auto split: prod.splits)
    qed
    then show ?thesis by simp
  next
    case False
    let ?rl = "rl\<lparr>count_in_window := count_in_window rl + 1\<rparr>"
    have "int (accepted_in s (limiter_run ?rl ts)) \<le> max 0 (BM_INBOUND_ACCEPT_MAX_PER_WINDOW - count_in_window ?rl)"
      using Cons.prems by (intro Cons.IH) auto
    then show ?thesis using False by (auto simp: bm_inbound_rate_limiter_allow_def Let_def)
  qed
qed

text \<open>An interval that starts inside a window also sees the next window.\<close>

lemma limiter_next_window:
  "sorted (window_start rl # ts) \<Longrightarrow> \<forall>t\<in>set ts. s \<le> t \<Longrightarrow>
    int (accepted_in s (limiter_run rl ts)) \<le> max 0 (BM_INBOUND_ACCEPT_MAX_PER_WINDOW - count_in_window rl) +
      BM_INBOUND_ACCEPT_MAX_PER_WINDOW"
proof (induction ts arbitrary: rl)
  case Nil
  then show ?case by simp
next
  case (Cons t ts)
  show ?case
  proof (cases "BM_INBOUND_ACCEPT_WINDOW_SECONDS \<le> t - window_start rl")
    case True
    let ?rl = "\<lparr>window_start = t, count_in_window = 1\<rparr>"
    have "int (accepted_in s (limiter_run ?rl ts)) \<le> max 0 (BM_INBOUND_ACCEPT_MAX_PER_WINDOW - count_in_window ?rl)"
      using Cons.prems by (intro limiter_current_window) auto
    then show ?thesis using True by (auto simp: bm_inbound_rate_limiter_allow_def Let_def)
  next
    case False
    let ?rl = "rl\<lparr>count_in_window := count_in_window rl + 1\<rparr>"
    have "int (accepted_in s (limiter_run ?rl ts)) \<le> max 0 (BM_INBOUND_ACCEPT_MAX_PER_WINDOW - count_in_window ?rl) +
        BM_INBOUND_ACCEPT_MAX_PER_WINDOW" using Cons.prems by (intro Cons.IH) auto
    then show ?thesis using False by (auto simp: bm_inbound_rate_limiter_allow_def Let_def)
  qed
qed

lemma limiter_any_interval:
  "sorted (window_start rl # ts) \<Longrightarrow> 0 \<le> count_in_window rl \<Longrightarrow>
    int (accepted_in s (limiter_run rl ts)) \<le> 2 * BM_INBOUND_ACCEPT_MAX_PER_WINDOW"
proof (induction ts arbitrary: rl)
  case Nil
  then show ?case by simp
next
  case (Cons t ts)
  show ?case
  proof (cases "s \<le> t")
    case True
    then have "\<forall>x\<in>set (t # ts). s \<le> x" using Cons.prems(1) by auto
    from limiter_next_window [OF Cons.prems(1) this] Cons.prems(2) show ?thesis by linarith
  next
    case False
    obtain ok rl' where a: "bm_inbound_rate_limiter_allow t rl = (ok, rl')" by force
    then have "sorted (window_start rl' # ts)" "0 \<le> count_in_window rl'"
      using Cons.prems by (auto simp: bm_inbound_rate_limiter_allow_def Let_def split: if_splits)
    from Cons.IH [OF this] show ?thesis using False by (simp add: a)
  qed
qed

section \<open>Properties\<close>

text \<open>
  C32: the receiver is independent of how the network cuts the stream. When a peer sends packets, and
  any prefix of them arrives in any pieces over any number of calls of at most 4194280 bytes each, no
  call faults or drops the connection, the handler is called with exactly the messages of the complete
  packets in order, and the buffer keeps the incomplete rest; once everything has arrived every
  message has been handled.
\<close>

theorem packets_reassembled:
  assumes "framing_ok g ssl" "handler_ok h" "\<forall>p\<in>set ps. packet_ok p"
    and "bm_fd_data_new mem type local_name peer_name now0 hp = Some conn"
    and "\<forall>(now, bss)\<in>set calls. length (concat bss) \<le> 4194280"
    and "received calls @ later = concat (map (packet g ssl) ps)"
  shows "\<exists>qs rs st' u' conn'. handle_calls g ssl (logged h) calls st (([], u), conn) =
      Done (Some (0, st', (map (message_of ssl) qs, u'), conn')) \<and>
    ps = qs @ rs \<and> recv_buffer conn' @ later = concat (map (packet g ssl) rs) \<and> (later = [] \<longrightarrow> qs = ps)"
proof -
  note new = recv_ok_new [OF assms(4)]
  have inc: "bm_parse_message g ssl (recv_buffer conn) = BM_PARSE_INCOMPLETE" using new by (simp add: bm_parse_message_def)
  obtain qs rs st' u' conn' where r: "handle_calls g ssl (logged h) calls st (([], u), conn) =
      Done (Some (0, st', (map (message_of ssl) qs, u'), conn'))"
    "ps = qs @ rs" "recv_buffer conn' @ later = concat (map (packet g ssl) rs)"
    "bm_parse_message g ssl (recv_buffer conn') = BM_PARSE_INCOMPLETE"
    using handle_calls_packets [OF assms(1,2,3,5) _ _ _ _ inc, of later st "[]" u] new assms(6) by auto
  have "rs = []" if "later = []"
  proof (cases rs)
    case (Cons p rs')
    have "packet_ok p" using assms(3) r(2) Cons by simp
    from parse_packet [OF assms(1) this, of "concat (map (packet g ssl) rs')"] r(3,4) that Cons show ?thesis by simp
  qed
  then show ?thesis using r(1-3) by auto
qed

theorem packets_reassembled_witness:
  "\<exists>st' conn'. handle_calls protocol_init plain_ssl (logged (\<lambda>m s. s))
      [(1, [take 10 (packet protocol_init plain_ssl (lit ''verack'', []))]),
       (2, [drop 10 (packet protocol_init plain_ssl (lit ''verack'', []))])]
      \<lparr>net_bytes_sent = 0, net_bytes_received = 0\<rparr> (([], ()), sample_conn) =
    Done (Some (0, st', ([message_of plain_ssl (lit ''verack'', [])], ()), conn'))"
proof -
  let ?p = "(lit ''verack'', []) :: bytes \<times> bytes"
  let ?calls = "[(1, [take 10 (packet protocol_init plain_ssl ?p)]), (2, [drop 10 (packet protocol_init plain_ssl ?p)])]"
  have f: "framing_ok protocol_init plain_ssl"
    by (simp add: framing_ok_def openssl_ok_digests [OF plain_ssl_ok] plain_ssl_sha512_empty)
  have h: "handler_ok (\<lambda>m (s :: unit \<times> bm_fd_data). s)" by (simp add: handler_ok_def)
  have "\<forall>p\<in>set [?p]. packet_ok p" "\<forall>(now, bss)\<in>set ?calls. length (concat bss) \<le> 4194280"
    "received ?calls @ [] = concat (map (packet protocol_init plain_ssl) [?p])"
    using length_packet [OF f, of ?p] by (simp_all add: packet_ok_def received_def)
  note r = packets_reassembled [OF f h this(1) sample_conn_new this(2,3),
      of "\<lparr>net_bytes_sent = 0, net_bytes_received = 0\<rparr>" "()"]
  obtain qs st' u' conn' where "handle_calls protocol_init plain_ssl (logged (\<lambda>m s. s)) ?calls
      \<lparr>net_bytes_sent = 0, net_bytes_received = 0\<rparr> (([], ()), sample_conn) =
    Done (Some (0, st', (map (message_of plain_ssl) qs, u'), conn'))" and q: "([] :: bytes) = [] \<longrightarrow> qs = [?p]"
    using r by (elim exE conjE) (rule that)
  then have "handle_calls protocol_init plain_ssl (logged (\<lambda>m s. s)) ?calls
      \<lparr>net_bytes_sent = 0, net_bytes_received = 0\<rparr> (([], ()), sample_conn) =
    Done (Some (0, st', ([message_of plain_ssl ?p], ()), conn'))" using q [THEN mp, OF refl] by (cases u') (simp only: list.map)
  then show ?thesis by (intro exI)
qed

text \<open>
  C33: for connection attempts at times that do not go back, the inbound limiter accepts at most 40 of
  them in any interval of ten seconds (a fixed window allows 20, and an interval can touch two
  windows).
\<close>

theorem inbound_rate_bounded:
  assumes "sorted ts" "\<forall>t\<in>set ts. 0 \<le> t"
  shows "accepted_in s (limiter_run bm_inbound_rate_limiter_init ts) \<le> 40"
  using limiter_any_interval [of bm_inbound_rate_limiter_init ts s] assms
  by (simp add: bm_inbound_rate_limiter_init_def)

theorem inbound_rate_bounded_witness:
  "accepted_in 0 (limiter_run bm_inbound_rate_limiter_init (replicate 30 5)) \<le> 40"
  by (rule inbound_rate_bounded) simp_all

end
