(* ===== verification/Delivery.thy ===== *)
theory Delivery
  imports Dispatch Receiving
begin

text \<open>
  How the nodes work together: a message that one node sends is accepted, decrypted and stored by the node
  of the receiver, which puts the acknowledgement it carries into circulation, and the acknowledgement ends
  the sending.
\<close>

section \<open>Proof of work between nodes\<close>

lemma pow_target_mono:
  fixes len ttl trials extra ttl' trials' extra' :: u64
  assumes "len < 2 ^ 32" "ttl < 2 ^ 32" "trials < 2 ^ 32" "extra < 2 ^ 32"
    and "0 < trials'" "trials' \<le> trials" "extra' \<le> extra" "ttl' \<le> ttl" "bm_pow_get_target len ttl trials extra = Done t"
  shows "\<exists>t'. bm_pow_get_target len ttl' trials' extra' = Done t' \<and> t \<le> t'"
proof -
  have b: "unat len < 2 ^ 32" "unat ttl < 2 ^ 32" "unat trials < 2 ^ 32" "unat extra < 2 ^ 32"
    using assms(1-4) by (simp_all add: word_less_nat_alt)
  have le: "unat trials' \<le> unat trials" "unat extra' \<le> unat extra" "unat ttl' \<le> unat ttl" "0 < unat trials'"
    using assms(5-8) by (simp_all add: word_le_nat_alt word_less_nat_alt)
  define L L' where "L = unat len + 8 + unat extra" and "L' = unat len + 8 + unat extra'"
  have L: "L' \<le> L" "L < 2 ^ 34" "0 < L'" using b le by (simp_all add: L_def L'_def)
  have "unat ttl * L \<le> 2 ^ 32 * 2 ^ 34" using b L by (intro mult_le_mono) simp_all
  then have p: "unat ttl * L \<le> 2 ^ 66" by simp
  have p': "unat ttl' * L' \<le> unat ttl * L" using le L by (intro mult_le_mono) simp_all
  have d: "unat ttl' * L' div 2 ^ 16 \<le> unat ttl * L div 2 ^ 16" using p' by (rule div_le_mono)
  have D': "unat trials' * (L' + unat ttl' * L' div 2 ^ 16) \<le> unat trials * (L + unat ttl * L div 2 ^ 16)"
    using le L d by (intro mult_le_mono add_mono) simp_all
  have "unat ttl * L div 2 ^ 16 \<le> 2 ^ 66" by (rule le_trans [OF div_le_dividend p])
  then have "L + unat ttl * L div 2 ^ 16 \<le> 2 ^ 34 + 2 ^ 66" using L by (intro add_mono) simp_all
  then have "unat trials * (L + unat ttl * L div 2 ^ 16) \<le> 2 ^ 32 * (2 ^ 34 + 2 ^ 66)" using b by (intro mult_le_mono) simp_all
  then have D: "unat trials * (L + unat ttl * L div 2 ^ 16) < 2 ^ 128" by simp
  have "0 < trials" using assms(5,6) by (rule order.strict_trans2)
  from pow_target_value [OF this, of ttl len extra] p D L_def assms(9)
  have t: "unat t = min (2 ^ 64 - 1) (2 ^ 64 div (unat trials * (L + unat ttl * L div 2 ^ 16)))" by simp
  obtain t' where t': "bm_pow_get_target len ttl' trials' extra' = Done t'"
      "unat t' = min (2 ^ 64 - 1) (2 ^ 64 div (unat trials' * (L' + unat ttl' * L' div 2 ^ 16)))"
    using pow_target_value [OF assms(5), of ttl' len extra'] p p' D D' L'_def by auto
  have "0 < unat trials' * (L' + unat ttl' * L' div 2 ^ 16)" using le L by simp
  then have "2 ^ 64 div (unat trials * (L + unat ttl * L div 2 ^ 16)) \<le> 2 ^ 64 div (unat trials' * (L' + unat ttl' * L' div 2 ^ 16))"
    using D' by (intro div_le_mono2)
  then have "t \<le> t'" using t t'(2) by (simp add: word_le_nat_alt)
  with t'(1) show ?thesis by blast
qed

text \<open>An object that the sender's queue accepted is accepted by every node until it expires, and a while after.\<close>

lemma object_pow_accepted:
  assumes "0 \<le> now" "now \<le> t" "now + uint ttl < 2 ^ 63" "t < 2 ^ 63" "ttl < 2 ^ 32" "length payload < 2 ^ 32"
    and "1000 \<le> trials" "trials < 2 ^ 32" "1000 \<le> extra" "extra < 2 ^ 32"
    and "bm_pow_get_target (word_of_nat (length payload)) ttl trials extra = Done target"
    and "bm_pow_trial_value ssl nonce (bm_sha512 ssl payload) \<le> target"
    and "oh_nonce hdr = nonce" "oh_expires_time hdr = word_of_int now + ttl"
  shows "object_pow_is_valid ssl (be64 nonce @ payload) hdr t = Done True"
proof -
  define ttl' where "ttl' = (if word_of_int t < oh_expires_time hdr then oh_expires_time hdr - word_of_int t else 0)"
  have u: "0 \<le> uint ttl" and a: "now + uint ttl < 9223372036854775808" using assms(3) by simp_all
  have m: "now mod 18446744073709551616 = now" "(now + uint ttl) mod 18446744073709551616 = now + uint ttl"
    by (rule mod_pos_pos_trivial; use assms(1) a u in linarith)+
  have e: "uint (oh_expires_time hdr) = now + uint ttl"
    by (simp add: assms(14) uint_word_ariths uint_word_of_int m)
  have n: "uint (word_of_int t :: u64) = t" using assms(1,2,4) by (simp add: uint_word_of_int mod_pos_pos_trivial)
  have "ttl' \<le> ttl"
  proof (cases "word_of_int t < oh_expires_time hdr")
    case True
    then have "t < now + uint ttl" unfolding word_less_def e n .
    then have "uint (oh_expires_time hdr - word_of_int t) = now + uint ttl - t"
      unfolding uint_word_ariths e n using assms(1-4) by (intro mod_pos_pos_trivial) simp_all
    then show ?thesis using True assms(2) by (simp add: ttl'_def word_le_def)
  next
    case False
    then show ?thesis by (simp add: ttl'_def)
  qed
  moreover have "word_of_nat (length payload) < (2 ^ 32 :: u64)" using assms(6) by (simp add: word_less_nat_alt unat_of_nat)
  ultimately obtain target' where "bm_pow_get_target (word_of_nat (length payload)) ttl' 1000 1000 = Done target'" "target \<le> target'"
    using pow_target_mono [OF _ assms(5,8,10) _ assms(7,9) _ assms(11), of ttl'] by auto
  then show ?thesis using assms(12,13) unfolding object_pow_is_valid_def Let_def ttl'_def [symmetric] by auto
qed

section \<open>The acknowledgement\<close>

text \<open>An acknowledgement is an object with the common header and some data.\<close>

lemma ack_payload_header:
  assumes "build_ack_payload ssl env level stream expires = Some payload"
  obtains t v rest where "payload = common_header expires t v stream @ rest" "t \<in> {BM_OBJECT_MSG, BM_OBJECT_GETPUBKEY}"
proof -
  obtain body where b: "bm_build_ack_object ssl (pe_ack_random env) (pe_ack_seed env) (pe_ack_dummy env) (pe_ack_rnd env) level stream = Some body"
      "payload = be64 expires @ body"
    using assms by (auto simp: build_ack_payload_def split: option.splits if_splits)
  obtain t v rest where "body = be32 t @ varint_octets v @ varint_octets stream @ rest" "t \<in> {BM_OBJECT_MSG, BM_OBJECT_GETPUBKEY}"
    using b(1) unfolding bm_build_ack_object_def build_ack_level0_def build_ack_level1_def build_ack_level2_def
    by (auto simp: ack_header_def bb_take_def split: option.splits if_splits)
  then show thesis using that b(2) by (simp add: common_header_def)
qed

text \<open>What the node of the receiver does with the packet it finds in a message.\<close>

lemma command_is_object: "command_is (lit ''object'') (message_of ssl (lit ''object'', body))"
  by (simp add: command_is_def message_of_def command_field_def strlen_def c_str_def)

lemma payload_of_message: "payload_of (message_of ssl (cmd, body)) = body"
  by (simp add: payload_of_def message_of_def)

lemma validate_ack_accepts:
  assumes "framing_ok g ssl" "length ack \<le> 4194304" "bm_object_parse_header ack = Some hdr" "\<not> is_expired hdr now"
    and "object_pow_is_valid ssl ack hdr now = Done True"
  shows "validate_and_store_ack g ssl ok except (bm_create_packet g ssl (lit ''object'') ack) now n =
    Done (let n1 = pool_insert_object ssl (snd ok) ack hdr now n
          in if bm_object_store_has (fst ok) (bm_inventory_hash ssl ack) (sn_pool n) then n1
             else announce (bm_inventory_hash ssl ack) except now n1)"
proof -
  have p: "bm_parse_message g ssl (bm_create_packet g ssl (lit ''object'') ack) =
      BM_PARSE_OK (message_of ssl (lit ''object'', ack)) (24 + length ack)"
    using parse_packet [OF assms(1), of "(lit ''object'', ack)" "[]"] assms(2) by (simp add: packet_ok_def packet_def)
  have l: "length (bm_create_packet g ssl (lit ''object'') ack) = 24 + length ack"
    using length_packet [OF assms(1), of "(lit ''object'', ack)"] by (simp add: packet_def)
  show ?thesis
    unfolding validate_and_store_ack_def p l bm_parse_result.case payload_of_message
    using assms(3-5) command_is_object [of ssl ack] by (simp add: Let_def)
qed

section \<open>The sender\<close>

lemma start_facts:
  assumes "send_message_start bn ssl env kr idb from to subject body ttl level reuse next now d pdb =
      Done (Inr (apay, atarget, key, Ack_pow_done job), pdb1)"
  shows "sj_subject job = c_str subject" "sj_body job = c_str body" "sj_expires_time job = word_of_int now + ttl"
    "sj_ttl_seconds job = ttl" "\<not> sj_is_self job" "sj_ack_stealth_level job = level"
    "build_ack_payload ssl env level (sj_to_stream job) (word_of_int now + ttl) = Some apay"
    "bm_pow_get_target (word_of_nat (length apay)) ttl 1000 1000 = Done atarget"
    "\<exists>u. bm_keyring_find_by_address from kr = Some u \<and> sj_from_info job = identity_info (ui_address_version u) u"
    "\<exists>v. bm_address_decode bn ssl to = Some (v, sj_to_stream job, sj_to_ripe job)"
proof -
  have "sj_subject job = c_str subject \<and> sj_body job = c_str body \<and> sj_expires_time job = word_of_int now + ttl \<and>
    sj_ttl_seconds job = ttl \<and> \<not> sj_is_self job \<and> sj_ack_stealth_level job = level \<and>
    build_ack_payload ssl env level (sj_to_stream job) (word_of_int now + ttl) = Some apay \<and>
    bm_pow_get_target (word_of_nat (length apay)) ttl 1000 1000 = Done atarget \<and>
    (\<exists>u. bm_keyring_find_by_address from kr = Some u \<and> sj_from_info job = identity_info (ui_address_version u) u) \<and>
    (\<exists>v. bm_address_decode bn ssl to = Some (v, sj_to_stream job, sj_to_ripe job))"
    using assms unfolding send_message_start_def prepare_legacy_msg_def Let_def build_msg_payload_def
    by (auto split: if_splits option.splits prod.splits)
  then show "sj_subject job = c_str subject" "sj_body job = c_str body" "sj_expires_time job = word_of_int now + ttl"
    "sj_ttl_seconds job = ttl" "\<not> sj_is_self job" "sj_ack_stealth_level job = level"
    "build_ack_payload ssl env level (sj_to_stream job) (word_of_int now + ttl) = Some apay"
    "bm_pow_get_target (word_of_nat (length apay)) ttl 1000 1000 = Done atarget"
    "\<exists>u. bm_keyring_find_by_address from kr = Some u \<and> sj_from_info job = identity_info (ui_address_version u) u"
    "\<exists>v. bm_address_decode bn ssl to = Some (v, sj_to_stream job, sj_to_ripe job)"
    by blast+
qed

lemma request_facts:
  assumes "ack_msg_request g ssl env (Some ack) job = Done (Some (mpay, mtarget, key, Msg_pow_done job2))"
  shows "bm_build_msg ssl (pe_msg_rnd env) (sj_from_info job) (sj_to_stream job) (sj_to_ripe job) (sj_to_pub_encryption job)
      (sj_subject job) (sj_body job) (Some (bm_create_packet g ssl (lit ''object'') ack)) (sj_expires_time job) = Some mpay"
    "bm_pow_get_target (word_of_nat (length mpay)) (sj_ttl_seconds job) (sj_required_nonce_trials job) (sj_required_extra_bytes job) =
      Done mtarget"
    "job2 = job\<lparr>sj_ack_data := Some ack, sj_from_info := cleansed_info\<rparr>"
  using assms by (auto simp: ack_msg_request_def build_msg_request_def build_msg_payload_def split: if_splits option.splits)

lemma c_str_status: "c_str (lit ''sent'') = lit ''sent''"
  by (simp add: c_str_def)

lemma msg_pow_done_stores:
  assumes "\<not> sj_is_self job" "sj_ack_data job = Some ack"
  shows "msg_pow_done ssl (True, ok) job (Some obj) t mdb = ((sj_done job, 0, Some obj, t),
    snd (bm_messages_store_insert_sent True (sj_msg_id job) ack (sj_to_address job) (sj_from_address job) (sj_subject job) (sj_body job)
      (lit ''sent'') (sj_ack_stealth_level job) t (sint (sj_ttl_seconds job)) (sj_next_resend_time job) mdb))"
proof -
  have rc: "fst (bm_messages_store_insert_sent True i ack rcpt fr s b st l t ttl nx mdb) = 0" for i rcpt fr s b st l ttl nx
    by (simp add: bm_messages_store_insert_sent_def)
  show ?thesis unfolding msg_pow_done_def Let_def
    using assms rc by (simp del: list.map split: prod.split) (metis fst_conv)
qed

lemma insert_sent_row:
  fixes mdb :: messages_db
  assumes "mdb' = snd (bm_messages_store_insert_sent True i ack rcpt fr s b st l t ttl nx mdb)"
  shows "i \<in> sr_msg_id ` set (sent mdb')"
    "r \<in> set (sent mdb') \<Longrightarrow> sr_msg_id r = i \<Longrightarrow> sr_ack_data r = ack \<and> sr_status r = c_str st"
    "r \<in> set (sent mdb') \<Longrightarrow> sr_msg_id r \<noteq> i \<Longrightarrow> r \<in> set (sent mdb)"
proof -
  define upd :: "sent_row \<Rightarrow> sent_row" where "upd = (\<lambda>r. if sr_msg_id r = i
    then r\<lparr>sr_ack_data := ack, sr_status := c_str st, sr_sent_time := t, sr_ttl := ttl,
      sr_resend_count := sr_resend_count r + 1, sr_next_resend_time := nx\<rparr> else r)"
  have upd: "sr_msg_id (upd r) = sr_msg_id r" "sr_msg_id r = i \<Longrightarrow> sr_ack_data (upd r) = ack \<and> sr_status (upd r) = c_str st"
    "sr_msg_id r \<noteq> i \<Longrightarrow> upd r = r" for r
    by (simp_all add: upd_def)
  define new :: sent_row where "new = \<lparr>sr_msg_id = i, sr_ack_data = ack, sr_to_address = c_str rcpt,
    sr_from_address = c_str fr, sr_subject = c_str s, sr_body = c_str b, sr_status = c_str st, sr_ack_stealth_level = l,
    sr_sent_time = t, sr_ttl = ttl, sr_resend_count = 0, sr_next_resend_time = nx, sr_folder = lit ''sent''\<rparr>"
  have new: "sr_msg_id new = i" "sr_ack_data new = ack" "sr_status new = c_str st" by (simp_all add: new_def)
  have sent: "sent mdb' = (if i \<in> sr_msg_id ` set (sent mdb) then map upd (sent mdb) else sent mdb @ [new])"
    by (simp add: assms bm_messages_store_insert_sent_def upd_def new_def)
  show "i \<in> sr_msg_id ` set (sent mdb')" using upd(1) new(1) by (force simp: sent image_image)
  show "r \<in> set (sent mdb') \<Longrightarrow> sr_msg_id r = i \<Longrightarrow> sr_ack_data r = ack \<and> sr_status r = c_str st"
    using upd(1,2) new by (auto simp: sent split: if_splits)
  show "r \<in> set (sent mdb') \<Longrightarrow> sr_msg_id r \<noteq> i \<Longrightarrow> r \<in> set (sent mdb)"
    using upd(1,3) new(1) by (auto simp: sent split: if_splits)
qed

text \<open>What a proof of work gives.\<close>

lemma submit_sync_solved:
  assumes "bm_pow_queue_submit_sync ssl mem payload target = Some (Some obj)"
  obtains nonce where "obj = be64 nonce @ payload" "bm_pow_trial_value ssl nonce (bm_sha512 ssl payload) \<le> target"
proof -
  obtain nonce where n: "pow_single ssl (bm_sha512 ssl payload) target (\<lambda>_. False) 0 = Some (Some nonce)" "build_object mem payload nonce = Some obj"
    using assms by (auto simp: bm_pow_queue_submit_sync_def bm_pow_run_def split: option.splits)
  have "obj = be64 nonce @ payload" using n(2) by (simp add: build_object_def split: if_splits)
  then show thesis using that pow_single_sound [OF n(1)] by (simp add: nonce_ok_def)
qed

text \<open>
  A call that waits and returns an object for the address of somebody else: the job, the acknowledgement
  and the object with their proofs of work, and the entry in the table.
\<close>

lemma send_message_facts:
  assumes "bm_send_pipeline_send_message bn g ssl env ok mem kr idb fr rcpt subject body ttl level reuse nx now (pdb, mdb) =
      Done (Some ((0, Some obj), pdb1, mdb1))"
    and "bm_identity_store_load (pe_ok env 0) rcpt idb = None" "fst ok"
  obtains job apay atarget key na ack mpay mtarget nm where
    "send_message_start bn ssl env kr idb fr rcpt subject body ttl level reuse nx now () pdb =
      Done (Inr (apay, atarget, key, Ack_pow_done job) :: int + (unit, unit) pow_request, pdb1)"
    "ack = be64 na @ apay" "bm_pow_trial_value ssl na (bm_sha512 ssl apay) \<le> atarget"
    "bm_build_msg ssl (pe_msg_rnd env) (sj_from_info job) (sj_to_stream job) (sj_to_ripe job) (sj_to_pub_encryption job)
      (sj_subject job) (sj_body job) (Some (bm_create_packet g ssl (lit ''object'') ack)) (sj_expires_time job) = Some mpay"
    "bm_pow_get_target (word_of_nat (length mpay)) (sj_ttl_seconds job) (sj_required_nonce_trials job) (sj_required_extra_bytes job) =
      Done mtarget"
    "obj = be64 nm @ mpay" "bm_pow_trial_value ssl nm (bm_sha512 ssl mpay) \<le> mtarget"
    "mdb1 = snd (bm_messages_store_insert_sent True (sj_msg_id job) ack (sj_to_address job) (sj_from_address job) (sj_subject job)
      (sj_body job) (lit ''sent'') level now (sint ttl) (sj_next_resend_time job) mdb)"
proof -
  let ?start = "send_message_start bn ssl env kr idb fr rcpt subject body ttl level reuse nx now () pdb ::
    ((int + (unit, unit) pow_request) \<times> pubkey_db) outcome"
  obtain r p where s: "?start = Done (r, p)" using assms(1) by (cases ?start) (auto simp: bm_send_pipeline_send_message_def)
  have ns: "\<nexists>payload target key job. r = Inr (payload, target, key, Msg_pow_done job)"
    using s assms(2) unfolding send_message_start_def prepare_legacy_msg_def recipient_key_def Let_def
    by (auto split: if_splits option.splits prod.splits)
  obtain apay atarget key job where r: "r = Inr (apay, atarget, key, Ack_pow_done job)"
    using assms(1) ns unfolding bm_send_pipeline_send_message_def prod.case s bind_outcome.simps Let_def
    by (auto split: sum.splits pow_callback.splits)
  note s = s [unfolded r]
  obtain ack request where a: "bm_pow_queue_submit_sync ssl (fst mem) apay atarget = Some ack"
      "(ack_msg_request g ssl env ack job :: (unit, unit) pow_request option outcome) = Done request"
    using assms(1) unfolding bm_send_pipeline_send_message_def prod.case s bind_outcome.simps Let_def
    by (cases "ack_msg_request g ssl env (the (bm_pow_queue_submit_sync ssl (fst mem) apay atarget)) job
          :: (unit, unit) pow_request option outcome") (auto split: option.splits)
  note main = assms(1) [unfolded bm_send_pipeline_send_message_def prod.case s bind_outcome.simps Let_def sum.case pow_callback.case
      a option.case]
  obtain ack' where ack': "ack = Some ack'" using a(2) main by (cases ack) (auto simp: ack_msg_request_def)
  obtain mpay mtarget key2 job2 where req: "request = Some (mpay, mtarget, key2, Msg_pow_done job2)"
    using main by (auto split: option.splits pow_callback.splits)
  note rf = request_facts [OF a(2) [unfolded ack' req]]
  obtain o2 where o2: "bm_pow_queue_submit_sync ssl (snd mem) mpay mtarget = Some (Some o2)"
    using main unfolding req by (auto split: option.splits simp: msg_pow_done_def msg_job_fail_def)
  have j: "\<not> sj_is_self job2" "sj_ack_data job2 = Some ack'" using rf(3) start_facts(5) [OF s] by simp_all
  have okT: "ok = (True, snd ok)" using assms(3) by (cases ok) simp
  have fin: "p = pdb1" "obj = o2" "mdb1 = snd (bm_messages_store_insert_sent True (sj_msg_id job2) ack' (sj_to_address job2)
      (sj_from_address job2) (sj_subject job2) (sj_body job2) (lit ''sent'') (sj_ack_stealth_level job2) now (sint (sj_ttl_seconds job2))
      (sj_next_resend_time job2) mdb)"
    using main msg_pow_done_stores [OF j, of ssl "snd ok" o2 now mdb] unfolding req o2 option.case prod.case pow_callback.case
    by (subst (asm) okT; simp)+
  obtain na where na: "ack' = be64 na @ apay" "bm_pow_trial_value ssl na (bm_sha512 ssl apay) \<le> atarget"
    using submit_sync_solved a(1) ack' by metis
  obtain nm where nm: "o2 = be64 nm @ mpay" "bm_pow_trial_value ssl nm (bm_sha512 ssl mpay) \<le> mtarget"
    using submit_sync_solved [OF o2] .
  show thesis
    by (rule that [OF s [unfolded fin(1)] na rf(1,2) nm [folded fin(2)]])
      (use fin(3) rf(3) start_facts(4,6) [OF s] in simp)
qed

text \<open>The job in terms of what the node knows of the two correspondents.\<close>

lemma lookup_after_mark:
  "bm_pubkey_cache_lookup_by_ripe ok r (snd (bm_pubkey_cache_mark_used_personally ok' r' db)) = bm_pubkey_cache_lookup_by_ripe ok r db"
proof -
  have "map_of (map (\<lambda>(k, row). (k, if k = r' then row\<lparr>row_used_personally := True\<rparr> else row)) xs) r =
      map_option (\<lambda>row. if r = r' then row\<lparr>row_used_personally := True\<rparr> else row) (map_of xs r)" for xs :: "(bytes \<times> pubkey_row) list"
    by (induction xs) auto
  then show ?thesis
    by (cases "map_of (t_pubkey_cache db) r")
      (simp_all add: bm_pubkey_cache_lookup_by_ripe_def bm_pubkey_cache_mark_used_personally_def load_row_def)
qed

lemma start_job:
  assumes "send_message_start bn ssl env kr idb fr rcpt subject body ttl level reuse nx now d pdb =
      Done (Inr (apay, atarget, key, Ack_pow_done job), pdb1)"
    and "bm_keyring_find_by_address fr kr = Some u" "bm_address_decode bn ssl rcpt = Some (v, stream, r)"
    and "bm_identity_store_load (pe_ok env 0) rcpt idb = None" "bm_pubkey_cache_lookup_by_ripe (pe_ok env 1) r pdb = Some c"
  shows "sj_from_info job = identity_info (ui_address_version u) u" "sj_to_stream job = stream" "sj_to_ripe job = r"
    "sj_to_pub_encryption job = cp_encryption_pubkey c"
    "sj_required_nonce_trials job \<in> {ui_nonce_trials_per_byte u, max (ui_nonce_trials_per_byte u) (cp_nonce_trials_per_byte c)}"
    "sj_required_extra_bytes job \<in> {ui_payload_length_extra_bytes u, max (ui_payload_length_extra_bytes u) (cp_payload_length_extra_bytes c)}"
    "case_option (pe_msg_id env) Some reuse = Some (sj_msg_id job)"
proof -
  have c: "bm_pubkey_cache_lookup_by_ripe k r pdb = (if k then Some c else None)" for k
    using assms(5) by (simp add: bm_pubkey_cache_lookup_by_ripe_def split: if_splits)
  have "sj_from_info job = identity_info (ui_address_version u) u \<and> sj_to_stream job = stream \<and> sj_to_ripe job = r \<and>
    sj_to_pub_encryption job = cp_encryption_pubkey c \<and>
    sj_required_nonce_trials job \<in> {ui_nonce_trials_per_byte u, max (ui_nonce_trials_per_byte u) (cp_nonce_trials_per_byte c)} \<and>
    sj_required_extra_bytes job \<in> {ui_payload_length_extra_bytes u, max (ui_payload_length_extra_bytes u) (cp_payload_length_extra_bytes c)} \<and>
    case_option (pe_msg_id env) Some reuse = Some (sj_msg_id job)"
    using assms(1) unfolding send_message_start_def prepare_legacy_msg_def recipient_key_def assms(2-5) option.case prod.case
      Let_def
    by (auto simp: lookup_after_mark c split: if_splits option.splits)
  then show "sj_from_info job = identity_info (ui_address_version u) u" "sj_to_stream job = stream" "sj_to_ripe job = r"
    "sj_to_pub_encryption job = cp_encryption_pubkey c"
    "sj_required_nonce_trials job \<in> {ui_nonce_trials_per_byte u, max (ui_nonce_trials_per_byte u) (cp_nonce_trials_per_byte c)}"
    "sj_required_extra_bytes job \<in> {ui_payload_length_extra_bytes u, max (ui_payload_length_extra_bytes u) (cp_payload_length_extra_bytes c)}"
    "case_option (pe_msg_id env) Some reuse = Some (sj_msg_id job)"
    by blast+
qed

section \<open>The receiver\<close>

lemma sint_of_small: "0 \<le> x \<Longrightarrow> x < 2 ^ 63 \<Longrightarrow> sint (word_of_int x :: u64) = x"
  by (simp add: sint_sbintrunc' signed_take_bit_int_eq_self)

lemma not_expired:
  assumes "oh_expires_time hdr = word_of_int now + ttl" "0 \<le> now" "now + uint ttl < 2 ^ 63" "t \<le> now + uint ttl"
  shows "\<not> is_expired hdr t"
proof -
  have "word_of_int now + ttl = word_of_int (now + uint ttl)" by simp
  then have "sint (oh_expires_time hdr) = now + uint ttl" unfolding assms(1) using sint_of_small assms(2,3) by (metis add_nonneg_nonneg uint_ge_0)
  then show ?thesis using assms(4) by (simp add: is_expired_def)
qed

text \<open>All the system calls succeed.\<close>

definition calls_ok :: "object_env \<Rightarrow> bool" where
  "calls_ok env \<longleftrightarrow> oe_mark env = (True, \<lambda>_. (True, True)) \<and> oe_has env \<and> oe_insert env \<and> oe_mem env = (\<lambda>_. True) \<and> oe_inbox env \<and>
     oe_ack env = (True, True)"

text \<open>The pool after an insertion, as a map.\<close>

lemma pool_insert_gets:
  "map_of (sn_pool n) (bm_inventory_hash ssl obj) = None \<Longrightarrow>
    bm_object_store_get True (bm_inventory_hash ssl obj) (sn_pool (pool_insert_object ssl True obj hdr now n)) = Some obj"
  by (simp add: pool_insert_object_def bm_object_store_insert_def bm_object_store_get_def map_add_def)

lemma get_keeps:
  "bm_object_store_get True h (sn_pool n) = Some p \<Longrightarrow>
    bm_object_store_get True h (sn_pool (pool_insert_object ssl ok obj hdr now n)) = Some p"
  by (auto simp: pool_insert_object_def bm_object_store_insert_def bm_object_store_get_def map_add_Some_iff)

lemma announce_simps [simp]:
  "sn_pool (announce h e t n) = sn_pool n" "sn_messages (announce h e t n) = sn_messages n"
  "sn_keyring (announce h e t n) = sn_keyring n" "sn_has_registry (announce h e t n) = sn_has_registry n"
  "sn_announced (announce h e t n) = sn_announced n @ (if sn_has_registry n then [(h, e, t)] else [])"
  by (simp_all add: announce_def)

lemma pool_insert_simps [simp]:
  "sn_messages (pool_insert_object ssl ok obj hdr t n) = sn_messages n" "sn_keyring (pool_insert_object ssl ok obj hdr t n) = sn_keyring n"
  "sn_has_registry (pool_insert_object ssl ok obj hdr t n) = sn_has_registry n"
  "sn_announced (pool_insert_object ssl ok obj hdr t n) = sn_announced n"
  by (simp_all add: pool_insert_object_def)

text \<open>An object that passes the checks and is not known.\<close>

lemma handle_object_new:
  assumes "calls_ok env" "length object \<le> 262144" "bm_object_parse_header object = Some hdr" "\<not> is_expired hdr (oe_now env)"
    and "object_pow_is_valid ssl object hdr (oe_now env) = Done True" "map_of (sn_pool n) (bm_inventory_hash ssl object) = None"
  shows "handle_object bn g ssl env conn (message_of ssl (cmd, object)) n =
    handle_new_object bn g ssl env conn hdr object (announce (bm_inventory_hash ssl object) (Some conn) (oe_now env)
      (pool_insert_object ssl True object hdr (oe_now env)
        (n\<lparr>sn_messages := snd (bm_messages_store_try_mark_ack_received ssl True (\<lambda>_. (True, True))
           (bm_inventory_hash ssl object) (sn_messages n))\<rparr>)))"
  using assms unfolding handle_object_def payload_of_message Let_def calls_ok_def
  by (simp add: bm_object_store_has_def)

text \<open>A node accepts an object: what is left to check when it arrives.\<close>

definition acceptable :: "openssl \<Rightarrow> bytes \<Rightarrow> int \<Rightarrow> bool" where
  "acceptable ssl object now \<longleftrightarrow> (case bm_object_parse_header object of
     None \<Rightarrow> False
   | Some hdr \<Rightarrow> \<not> is_expired hdr now \<and> object_pow_is_valid ssl object hdr now = Done True)"

lemma solved_acceptable:
  assumes "0 \<le> now" "now \<le> t" "t \<le> now + uint ttl" "now + uint ttl < 2 ^ 63" "ttl < 2 ^ 32" "length payload < 2 ^ 32"
    and "1000 \<le> trials" "trials < 2 ^ 32" "1000 \<le> extra" "extra < 2 ^ 32"
    and "bm_pow_get_target (word_of_nat (length payload)) ttl trials extra = Done target"
    and "bm_pow_trial_value ssl nonce (bm_sha512 ssl payload) \<le> target"
    and "payload = common_header (word_of_int now + ttl) oty v stream @ rest"
  shows "acceptable ssl (be64 nonce @ payload) t"
proof -
  define hdr where "hdr = \<lparr>oh_nonce = nonce, oh_expires_time = word_of_int now + ttl, oh_object_type = oty, oh_version = v, oh_stream = stream,
    header_len = 20 + bm_varint_size v + bm_varint_size stream\<rparr>"
  have "bm_object_parse_header (be64 nonce @ payload) = Some hdr"
    unfolding hdr_def assms(13) using bm_object_parse_common_header .
  moreover have "\<not> is_expired hdr t" by (rule not_expired [OF _ assms(1,4,3)]) (simp add: hdr_def)
  moreover have "object_pow_is_valid ssl (be64 nonce @ payload) hdr t = Done True"
    by (rule object_pow_accepted [OF assms(1,2,4) _ assms(5-12)]) (use assms(3,4) in \<open>simp_all add: hdr_def\<close>)
  ultimately show ?thesis by (simp add: acceptable_def)
qed

text \<open>The node of the receiver.\<close>

lemma mark_keeps_inbox: "inbox (snd (bm_messages_store_try_mark_ack_received ssl ok env h mdb)) = inbox mdb"
proof -
  have "inbox (snd (mark_loop ssl h env i rs db)) = inbox db" for i rs db
    by (induction rs arbitrary: i) auto
  then show ?thesis by (auto simp: bm_messages_store_try_mark_ack_received_def split: prod.splits) (metis snd_conv)
qed

lemma node_receives:
  fixes n :: sync_node
  assumes "openssl_ok ssl" "framing_ok g ssl" "calls_ok env"
    and built: "bm_build_msg ssl (rp, Some iv) from_info stream (ui_ripe ident) to_pub subject body
      (Some (bm_create_packet g ssl (lit ''object'') ack)) expires = Some mpay"
    and "obj = be64 nm @ mpay" "length obj \<le> 262144" "identity_ok ssl from_info" "length (ui_ripe ident) = 20" "length iv = 16"
    and "bm_address_get_public_key ssl (ui_priv_encryption ident) = Some to_pub" "plain_subject subject"
    and small: "strlen subject + strlen body + length ack \<le> 2 ^ 19"
    and "\<not> ui_is_chan ident" "sn_keyring n = pre @ ident # post"
    and "\<forall>i\<in>set pre. bm_crypto_ecies_decrypt ssl (drop (13 + bm_varint_size stream) mpay) (ui_priv_encryption i) = None"
    and "acceptable ssl obj (oe_now env)" "acceptable ssl ack (oe_ack_now env)" "sn_has_registry n"
    and fresh: "map_of (sn_pool n) (bm_inventory_hash ssl obj) = None" "map_of (sn_pool n) (bm_inventory_hash ssl ack) = None"
      "bm_inventory_hash ssl ack \<noteq> bm_inventory_hash ssl obj"
      "bm_inventory_hash ssl obj \<notin> in_msg_id ` set (inbox (sn_messages n))"
  shows "\<exists>n' q. handle_object bn g ssl env conn (message_of ssl (lit ''object'', obj)) n = Done n' \<and>
    inbox (sn_messages n') = inbox (sn_messages n) @ [q] \<and> in_msg_id q = bm_inventory_hash ssl obj \<and>
    in_to_address q = c_str (take 63 (c_str (ui_address ident))) \<and> in_subject q = c_str subject \<and> in_body q = c_str body \<and>
    bm_object_store_get True (bm_inventory_hash ssl obj) (sn_pool n') = Some obj \<and>
    bm_object_store_get True (bm_inventory_hash ssl ack) (sn_pool n') = Some ack \<and>
    sn_announced n' = sn_announced n @ [(bm_inventory_hash ssl obj, Some conn, oe_now env), (bm_inventory_hash ssl ack, Some conn, oe_ack_now env)]"
proof -
  let ?ho = "bm_inventory_hash ssl obj" and ?ha = "bm_inventory_hash ssl ack" and ?pk = "bm_create_packet g ssl (lit ''object'') ack"
  obtain hdr where hdr: "bm_object_parse_header obj = Some hdr" "\<not> is_expired hdr (oe_now env)"
      "object_pow_is_valid ssl obj hdr (oe_now env) = Done True"
    using assms(16) by (auto simp: acceptable_def split: option.splits)
  obtain hda where hda: "bm_object_parse_header ack = Some hda" "\<not> is_expired hda (oe_ack_now env)"
      "object_pow_is_valid ssl ack hda (oe_ack_now env) = Done True"
    using assms(17) by (auto simp: acceptable_def split: option.splits)
  have oty: "oh_object_type hdr = BM_OBJECT_MSG"
    using bm_build_msg_cases [OF built assms(8)] hdr(1) assms(5) by (metis bm_object_parse_common_header bm_object_header.select_convs(3) option.inject)
  have pk: "length ?pk = 24 + length ack"
    using length_packet [OF assms(2), of "(lit ''object'', ack)"] by (simp add: packet_def)
  then have pk0: "?pk \<noteq> []" by (metis add_is_0 list.size(3) zero_neq_numeral)
  obtain m where m: "bm_trial_decrypt_msg ssl (\<lambda>_. True) (pre @ ident # post) obj = Done (Some m)"
      "dm_to_address m = take 63 (c_str (ui_address ident))" "dm_subject m = Some (c_str subject)" "dm_body m = Some (c_str body)"
      "dm_ack_payload m = Some ?pk"
    using msg_delivered [OF assms(1,7,8,9,10,11) _ built assms(15), of post nm] small pk pk0 assms(5,13) by auto
  define n1 where "n1 = announce ?ho (Some conn) (oe_now env) (pool_insert_object ssl True obj hdr (oe_now env)
        (n\<lparr>sn_messages := snd (bm_messages_store_try_mark_ack_received ssl True (\<lambda>_. (True, True)) ?ho (sn_messages n))\<rparr>))"
  have n1: "sn_keyring n1 = pre @ ident # post" "inbox (sn_messages n1) = inbox (sn_messages n)" "sn_has_registry n1"
      "sn_announced n1 = sn_announced n @ [(?ho, Some conn, oe_now env)]"
      "bm_object_store_get True ?ho (sn_pool n1) = Some obj" "map_of (sn_pool n1) ?ha = None"
    using assms(14,18) fresh(1-3) pool_insert_gets [of _ ssl obj]
    by (simp_all add: n1_def mark_keeps_inbox pool_insert_object_def bm_object_store_insert_def map_add_def)
  define q where "q = \<lparr>in_msg_id = ?ho, in_to_address = c_str (dm_to_address m), in_from_address = c_str (dm_from_address m),
    in_subject = c_str subject, in_body = c_str body, in_received_time = oe_inbox_now env, in_read = 0, in_folder = lit ''inbox''\<rparr>"
  define n2 where "n2 = n1\<lparr>sn_messages := (sn_messages n1)\<lparr>inbox := inbox (sn_messages n1) @ [q]\<rparr>\<rparr>"
  define n3 where "n3 = announce ?ha (Some conn) (oe_ack_now env) (pool_insert_object ssl True ack hda (oe_ack_now env) n2)"
  have store: "bm_trial_decrypt_and_store ssl (oe_mem env) (oe_inbox env) (sn_keyring n1) obj (oe_inbox_now env) True (sn_messages n1) =
      Done (0, Some ?pk, (sn_messages n1)\<lparr>inbox := inbox (sn_messages n1) @ [q]\<rparr>)"
    using assms(3) m fresh(4)
    by (simp add: bm_trial_decrypt_and_store_def store_decoded_msg_def bm_messages_store_insert_inbox_def calls_ok_def n1 q_def)
  have ack: "validate_and_store_ack g ssl (oe_ack env) (Some conn) ?pk (oe_ack_now env) n2 = Done n3"
    using validate_ack_accepts [OF assms(2) _ hda, of "(True, True)"] small assms(3) n1(6)
    by (simp add: calls_ok_def n3_def n2_def bm_object_store_has_def Let_def)
  have "handle_object bn g ssl env conn (message_of ssl (lit ''object'', obj)) n = handle_new_object bn g ssl env conn hdr obj n1"
    unfolding n1_def by (rule handle_object_new [OF assms(3,6) hdr fresh(1)])
  also have "\<dots> = Done n3"
    using ack pk0 unfolding handle_new_object_def oty store n2_def by simp
  finally have "handle_object bn g ssl env conn (message_of ssl (lit ''object'', obj)) n = Done n3" .
  moreover have "inbox (sn_messages n3) = inbox (sn_messages n) @ [q]" "sn_announced n3 = sn_announced n @
      [(?ho, Some conn, oe_now env), (?ha, Some conn, oe_ack_now env)]"
    using n1 by (simp_all add: n3_def n2_def)
  moreover have "bm_object_store_get True ?ha (sn_pool n3) = Some ack" "bm_object_store_get True ?ho (sn_pool n3) = Some obj"
    using pool_insert_gets [of n2 ssl ack] get_keeps [of ?ho n2] n1(5,6) by (simp_all add: n3_def n2_def)
  moreover have "in_msg_id q = ?ho" "in_to_address q = c_str (take 63 (c_str (ui_address ident)))" "in_subject q = c_str subject" "in_body q = c_str body"
    using m(2) by (simp_all add: q_def)
  ultimately show ?thesis by blast
qed

section \<open>The acknowledgement comes back\<close>

text \<open>The mark, when the rows with this hash have the same data.\<close>

lemma mark_loop_marks:
  assumes "\<forall>r\<in>set rs. sr_ack_data r \<noteq> [] \<and> bm_inventory_hash ssl (sr_ack_data r) = bm_inventory_hash ssl ack \<longrightarrow> sr_ack_data r = ack"
    and "r \<in> set rs" "sr_ack_data r = ack" "ack \<noteq> []"
  shows "mark_loop ssl (bm_inventory_hash ssl ack) (\<lambda>_. (True, True)) i rs db =
    (True, db\<lparr>sent := map (\<lambda>q. if sr_ack_data q = ack then q\<lparr>sr_status := lit ''ackreceived''\<rparr> else q) (sent db)\<rparr>)"
  using assms
proof (induction rs arbitrary: i)
  case (Cons a rs)
  then show ?case by (cases "sr_ack_data a \<noteq> [] \<and> bm_inventory_hash ssl (sr_ack_data a) = bm_inventory_hash ssl ack") auto
qed simp

lemma mark_loop_none:
  assumes "\<forall>r\<in>set rs. sr_ack_data r = [] \<or> bm_inventory_hash ssl (sr_ack_data r) \<noteq> h"
  shows "mark_loop ssl h env i rs db = (False, db)"
  using assms by (induction rs arbitrary: i) auto

lemma same_status: "sr_status q = st \<Longrightarrow> q\<lparr>sr_status := st\<rparr> = (q :: sent_row)"
  by (cases q) simp

lemma mark_received:
  fixes mdb :: messages_db and ack :: bytes and ssl :: openssl
  defines "mdb' \<equiv> snd (bm_messages_store_try_mark_ack_received ssl True (\<lambda>_. (True, True)) (bm_inventory_hash ssl ack) mdb)"
  assumes "\<forall>r\<in>set (sent mdb). sr_ack_data r \<noteq> [] \<and> bm_inventory_hash ssl (sr_ack_data r) = bm_inventory_hash ssl ack \<longrightarrow> sr_ack_data r = ack"
    and "ack \<noteq> []"
  shows "sent mdb' = map (\<lambda>q. if sr_ack_data q = ack then q\<lparr>sr_status := lit ''ackreceived''\<rparr> else q) (sent mdb)"
proof -
  let ?rs = "filter (\<lambda>r. sr_status r \<noteq> lit ''ackreceived'') (sent mdb)"
  show ?thesis
  proof (cases "\<exists>r\<in>set ?rs. sr_ack_data r = ack")
    case True
    then obtain r where "r \<in> set ?rs" "sr_ack_data r = ack" by blast
    then have "mark_loop ssl (bm_inventory_hash ssl ack) (\<lambda>_. (True, True)) 0 ?rs mdb =
        (True, mdb\<lparr>sent := map (\<lambda>q. if sr_ack_data q = ack then q\<lparr>sr_status := lit ''ackreceived''\<rparr> else q) (sent mdb)\<rparr>)"
      using assms(2,3) by (intro mark_loop_marks) auto
    then show ?thesis unfolding mdb'_def bm_messages_store_try_mark_ack_received_def by simp
  next
    case False
    then have "mark_loop ssl (bm_inventory_hash ssl ack) (\<lambda>_. (True, True)) 0 ?rs mdb = (False, mdb)"
      using assms(2) by (intro mark_loop_none) auto
    then have m: "mdb' = mdb" unfolding mdb'_def bm_messages_store_try_mark_ack_received_def by simp
    have "(if sr_ack_data q = ack then q\<lparr>sr_status := lit ''ackreceived''\<rparr> else q) = q" if "q \<in> set (sent mdb)" for q
    proof -
      have "sr_ack_data q = ack \<Longrightarrow> sr_status q = lit ''ackreceived''" using False that by auto
      then show ?thesis using same_status [of q] by (simp del: list.map split: if_split)
    qed
    then show ?thesis unfolding m by (intro map_idI [symmetric]) simp
  qed
qed

text \<open>The node holds nothing that the object concerns: no key opens it and it asks for no key.\<close>

definition inert :: "openssl \<Rightarrow> keyring \<Rightarrow> bytes \<Rightarrow> bool" where
  "inert ssl kr object \<longleftrightarrow> (case bm_object_parse_header object of
     None \<Rightarrow> True
   | Some hdr \<Rightarrow>
       oh_object_type hdr = BM_OBJECT_MSG \<and> (\<forall>i\<in>set kr. bm_crypto_ecies_decrypt ssl (drop (header_len hdr) object) (ui_priv_encryption i) = None) \<or>
       oh_object_type hdr = BM_OBJECT_GETPUBKEY \<and> getpubkey_target ssl hdr (drop (header_len hdr) object) kr = None)"

lemma keyring_open_none:
  "\<forall>i\<in>set kr. bm_crypto_ecies_decrypt ssl c (ui_priv_encryption i) = None \<Longrightarrow> keyring_open ssl kr c = None"
  using keyring_open_skip [of kr ssl c "[]"] by simp

lemma inert_new_object:
  assumes "inert ssl (sn_keyring n) object" "bm_object_parse_header object = Some hdr"
  shows "handle_new_object bn g ssl env conn hdr object n = Done n"
proof (cases "oh_object_type hdr = BM_OBJECT_MSG")
  case True
  then have "keyring_open ssl (sn_keyring n) (drop (header_len hdr) object) = None"
    using assms by (intro keyring_open_none) (auto simp: inert_def)
  then have "bm_trial_decrypt_msg ssl (oe_mem env) (sn_keyring n) object = Done None"
    by (simp add: bm_trial_decrypt_msg_def assms(2))
  then show ?thesis using True by (simp add: handle_new_object_def bm_trial_decrypt_and_store_def)
next
  case False
  then show ?thesis using assms by (simp add: inert_def handle_new_object_def handle_incoming_getpubkey_def)
qed

lemma node_sees_ack:
  assumes "calls_ok env" "length ack \<le> 262144" "acceptable ssl ack (oe_now env)" "inert ssl (sn_keyring m) ack"
    and "\<forall>r\<in>set (sent (sn_messages m)). sr_ack_data r \<noteq> [] \<and> bm_inventory_hash ssl (sr_ack_data r) = bm_inventory_hash ssl ack \<longrightarrow>
      sr_ack_data r = ack"
  shows "\<exists>m'. handle_object bn g ssl env conn (message_of ssl (lit ''object'', ack)) m = Done m' \<and>
    sent (sn_messages m') = map (\<lambda>q. if sr_ack_data q = ack then q\<lparr>sr_status := lit ''ackreceived''\<rparr> else q) (sent (sn_messages m)) \<and>
    bm_object_store_has True (bm_inventory_hash ssl ack) (sn_pool m')"
proof -
  let ?h = "bm_inventory_hash ssl ack"
  obtain hdr where hdr: "bm_object_parse_header ack = Some hdr" "\<not> is_expired hdr (oe_now env)"
      "object_pow_is_valid ssl ack hdr (oe_now env) = Done True"
    using assms(3) by (auto simp: acceptable_def split: option.splits)
  have ne: "ack \<noteq> []" using hdr(1) by (auto simp: bm_object_parse_header_def)
  define m1 where "m1 = m\<lparr>sn_messages := snd (bm_messages_store_try_mark_ack_received ssl True (\<lambda>_. (True, True)) ?h (sn_messages m))\<rparr>"
  have m1: "sent (sn_messages m1) = map (\<lambda>q. if sr_ack_data q = ack then q\<lparr>sr_status := lit ''ackreceived''\<rparr> else q) (sent (sn_messages m))"
      "sn_pool m1 = sn_pool m" "sn_keyring m1 = sn_keyring m"
    using mark_received [OF assms(5) ne] by (simp_all add: m1_def)
  show ?thesis
  proof (cases "map_of (sn_pool m) ?h")
    case None
    let ?m2 = "announce ?h (Some conn) (oe_now env) (pool_insert_object ssl True ack hdr (oe_now env) m1)"
    have "handle_object bn g ssl env conn (message_of ssl (lit ''object'', ack)) m = Done ?m2"
      using handle_object_new [OF assms(1,2) hdr None, of bn g conn] inert_new_object [of ssl ?m2, OF _ hdr(1)] assms(4)
      by (simp add: m1_def [symmetric] m1)
    moreover have "bm_object_store_has True ?h (sn_pool ?m2)"
      by (simp add: pool_insert_object_def bm_object_store_insert_def bm_object_store_has_def map_add_def split: option.split)
    ultimately show ?thesis using m1(1) by simp
  next
    case (Some row)
    then have "handle_object bn g ssl env conn (message_of ssl (lit ''object'', ack)) m = Done m1"
      using assms(1,2) hdr unfolding handle_object_def payload_of_message Let_def calls_ok_def
      by (simp add: bm_object_store_has_def m1_def)
    then show ?thesis using m1(1,2) Some by (simp add: bm_object_store_has_def)
  qed
qed

text \<open>The sender, for the witnesses.\<close>

definition sample_home :: bm_unlocked_identity where
  "sample_home = \<lparr>ui_address = lit ''BM-a'', ui_ripe = replicate 20 1, ui_priv_signing = [9], ui_priv_encryption = [8],
     ui_pub_signing = 4 # pad_to 64 [9], ui_pub_encryption = 4 # pad_to 64 [8], ui_address_version = 4, ui_stream = 1,
     ui_nonce_trials_per_byte = 1000, ui_payload_length_extra_bytes = 1000, ui_is_chan = False, ui_unlocked_at = 0\<rparr>"

definition sample_ack :: bytes where
  "sample_ack = be64 0 @ common_header 100 BM_OBJECT_GETPUBKEY 4 1 @ replicate 32 3"

text \<open>With the instance of OpenSSL the nonce zero solves every proof of work.\<close>

lemma plain_trial_zero: "bm_pow_trial_value plain_ssl 0 h = 0"
proof -
  have ne: "be64 x \<noteq> []" for x by (rule notI, drule arg_cong [of _ _ length]) simp
  show ?thesis by (simp add: bm_pow_trial_value_def bm_double_sha512_def bm_sha512_def plain_ssl_def pad_to_def min_def ne)
qed

lemma plain_submit: "bm_pow_queue_submit_sync plain_ssl True payload target = Some (Some (be64 0 @ payload))"
proof -
  have "pow_single plain_ssl (bm_sha512 plain_ssl payload) target (\<lambda>_. False) (word_of_nat 0) = Some (Some (word_of_nat 0))"
    by (rule pow_single_finds) (simp_all add: plain_trial_zero)
  then show ?thesis by (simp add: bm_pow_queue_submit_sync_def bm_pow_run_def build_object_def)
qed

lemma small_target: "length p < 2 ^ 20 \<Longrightarrow> \<exists>t. bm_pow_get_target (word_of_nat (length p)) 100 2000 1000 = Done t"
  "length p < 2 ^ 20 \<Longrightarrow> \<exists>t. bm_pow_get_target (word_of_nat (length p)) 100 1000 1000 = Done t"
proof -
  assume l: "length p < 2 ^ 20"
  then have u: "unat (word_of_nat (length p) :: u64) < 2 ^ 20" by (simp add: unat_of_nat)
  have "100 * (unat (word_of_nat (length p) :: u64) + 8 + 1000) div 2 ^ 16 \<le> 100 * (2 ^ 20 + 1008)"
    using u by (intro order.trans [OF div_le_dividend]) simp
  with u pow_target_value [of 2000 100 "word_of_nat (length p)" 1000] pow_target_value [of 1000 100 "word_of_nat (length p)" 1000]
  show "\<exists>t. bm_pow_get_target (word_of_nat (length p)) 100 2000 1000 = Done t"
    "\<exists>t. bm_pow_get_target (word_of_nat (length p)) 100 1000 1000 = Done t" by auto
qed

lemma plain_ciphertext:
  assumes "bm_crypto_ecies_encrypt plain_ssl (Some e) (Some iv) msg pub = Some c" "length msg < 2 ^ 31" "length iv = 16"
  shows "length c = length msg + 118" "take 16 c = iv"
proof -
  have a: "aes256cbc_encrypt plain_ssl k iv msg = Some msg" for k
    using assms(2) by (simp add: aes256cbc_encrypt_def evp_input_small plain_ssl_def)
  have "ecdh_shared_secret plain_ssl e pub = Some (replicate 32 7)"
    by (simp add: ecdh_shared_secret_def plain_ssl_def)
  moreover have "length (bm_hmac_sha256 plain_ssl k d) = 32" for k d by (simp add: bm_hmac_sha256_def plain_ssl_def)
  ultimately show "length c = length msg + 118" "take 16 c = iv"
    using assms(1,3) by (auto simp: bm_crypto_ecies_encrypt_def plain_public_key Let_def a)
qed

text \<open>A message with its acknowledgement is sent.\<close>

lemma sample_home_info: "identity_info (ui_address_version sample_home) sample_home = sample_sender"
  by (simp add: identity_info_def sample_home_def sample_sender_def)

lemma sample_lookup: "bm_pubkey_cache_lookup_by_ripe True (replicate 20 7) sample_pubkeys = Some sample_cached"
  by (simp add: bm_pubkey_cache_lookup_by_ripe_def sample_pubkeys_def load_row_def sample_cached_def)

lemma sample_started:
  assumes "bm_address_decode nat_bignum plain_ssl a = Some (3, 1, replicate 20 7)"
  obtains job atarget pdb1 where
    "send_message_start nat_bignum plain_ssl sample_penv [sample_home] no_identities (lit ''BM-a'') a (lit ''hi'') (lit ''yo'') 100 1 None 0 0
      () sample_pubkeys = Done (Inr (drop 8 sample_ack, atarget, Some (sj_key job), Ack_pow_done job) :: int + (unit, unit) pow_request, pdb1)"
    "sj_from_info job = sample_sender" "sj_to_stream job = 1" "sj_to_ripe job = replicate 20 7" "sj_to_pub_encryption job = 4 # pad_to 64 [5]"
    "sj_subject job = lit ''hi''" "sj_body job = lit ''yo''" "sj_expires_time job = 100" "sj_ttl_seconds job = 100"
    "sj_required_nonce_trials job = 2000" "sj_required_extra_bytes job = 1000" "sj_msg_id job = replicate 32 5" "\<not> sj_is_self job"
proof -
  have f: "bm_keyring_find_by_address (lit ''BM-a'') [sample_home] = Some sample_home"
    by (simp add: bm_keyring_find_by_address_def same_address_def sample_home_def c_str_def)
  have i: "bm_identity_store_load True a no_identities = None"
    by (simp add: bm_identity_store_load_def find_row_def no_identities_def)
  have p: "build_ack_payload plain_ssl sample_penv 1 1 100 = Some (drop 8 sample_ack)"
    by (simp add: build_ack_payload_def bm_build_ack_object_def build_ack_level1_def sample_penv_def sample_ack_def ack_header_def
        bb_take_def common_header_def)
  obtain t where t: "bm_pow_get_target (word_of_nat (length (drop 8 sample_ack))) 100 1000 1000 = Done t"
    using small_target(2) [of "drop 8 sample_ack"] by (auto simp: sample_ack_def common_header_def bm_varint_size_def)
  have c: "c_str (lit ''hi'') = lit ''hi''" "c_str (lit ''yo'') = lit ''yo''" by (simp_all add: c_str_def)
  have env: "pe_ok sample_penv = (\<lambda>_. True)" "pe_mem_job sample_penv" "pe_mem_strings sample_penv" "pe_msg_id sample_penv = Some (replicate 32 5)"
    by (simp_all add: sample_penv_def)
  have cc: "3 \<le> cp_address_version sample_cached" "cp_encryption_pubkey sample_cached = 4 # pad_to 64 [5]"
    "max (ui_nonce_trials_per_byte sample_home) (cp_nonce_trials_per_byte sample_cached) = 2000"
    "max (ui_payload_length_extra_bytes sample_home) (cp_payload_length_extra_bytes sample_cached) = 1000"
    by (simp_all add: sample_cached_def sample_home_def max_def)
  define job :: "unit send_msg_job" where "job = \<lparr>sj_from_info = sample_sender, sj_to_stream = 1, sj_to_ripe = replicate 20 7,
    sj_to_pub_encryption = 4 # pad_to 64 [5], sj_is_self = False, sj_from_address = c_str (lit ''BM-a''), sj_to_address = c_str a,
    sj_subject = c_str (lit ''hi''), sj_body = c_str (lit ''yo''), sj_ttl_seconds = 100, sj_ack_stealth_level = 1, sj_expires_time = 100,
    sj_required_nonce_trials = 2000, sj_required_extra_bytes = 1000, sj_msg_id = replicate 32 5, sj_next_resend_time = 0,
    sj_ack_data = None, sj_key = 0x53 # replicate 32 5, sj_done = ()\<rparr>"
  let ?pdb = "snd (bm_pubkey_cache_mark_used_personally True (replicate 20 7) sample_pubkeys)"
  have prep: "prepare_legacy_msg nat_bignum plain_ssl (\<lambda>_. True) [sample_home] no_identities (lit ''BM-a'') a j sample_pubkeys =
      (Some (j\<lparr>sj_from_info := sample_sender, sj_to_stream := 1, sj_to_ripe := replicate 20 7, sj_to_pub_encryption := 4 # pad_to 64 [5],
        sj_is_self := False, sj_required_nonce_trials := 2000, sj_required_extra_bytes := 1000\<rparr>), ?pdb)" for j :: "unit send_msg_job"
    unfolding prepare_legacy_msg_def recipient_key_def assms f i option.case prod.case sample_home_info sample_lookup Let_def
      lookup_after_mark using cc by simp
  have "send_message_start nat_bignum plain_ssl sample_penv [sample_home] no_identities (lit ''BM-a'') a (lit ''hi'') (lit ''yo'') 100 1 None 0 0
      () sample_pubkeys = Done (Inr (drop 8 sample_ack, t, Some (sj_key job), Ack_pow_done job) :: int + (unit, unit) pow_request, ?pdb)"
    unfolding send_message_start_def env prep using p t env by (simp add: job_def)
  then show thesis by (rule that) (simp_all add: job_def c del: list.map)
qed

lemma length_msg_plain_small:
  assumes "identity_ok ssl from_info" "openssl_ok ssl" "length r = 20" "bm_crypto_sign ssl c (ii_priv_signing from_info) = Some sig"
  shows "length (signed_part (msg_plain from_info r subject body ack) sig) \<le> strlen subject + strlen body + length ack + 400"
  using length_sender_octets [OF identity_keys(1,3) [OF assms(2,1)]] sign_length [OF assms(2,4)] assms(3)
    bm_varint_size_bounds(2) [of "word_of_nat (length ack)"] bm_varint_size_bounds(2) [of "word_of_nat (length sig)"]
    bm_varint_size_bounds(2) [of "word_of_nat (length (simple_message subject body))"] bm_varint_size_bounds(2) [of 2]
  by (simp add: signed_part_def msg_plain_def simple_message_def strlen_def)

lemma length_sample_ack: "length sample_ack = 54"
  by (simp add: sample_ack_def common_header_def bm_varint_size_def)

lemma framing_plain: "framing_ok protocol_init plain_ssl"
  by (simp add: framing_ok_def openssl_ok_digests [OF plain_ssl_ok] plain_ssl_sha512_empty)

lemma sample_built:
  assumes "pk = bm_create_packet protocol_init plain_ssl (lit ''object'') sample_ack"
  obtains ct where "bm_build_msg plain_ssl (Some [2], Some (replicate 16 1)) sample_sender 1 (replicate 20 7) (4 # pad_to 64 [5])
      (lit ''hi'') (lit ''yo'') (Some pk) 100 = Some (common_header 100 BM_OBJECT_MSG 1 1 @ ct)"
    "length ct \<le> 1000" "take 16 ct = replicate 16 1"
proof -
  let ?plain = "msg_plain sample_sender (replicate 20 7) (lit ''hi'') (lit ''yo'') pk" and ?h = "common_header 100 BM_OBJECT_MSG 1 1"
  have pk: "length pk = 78"
    using length_packet [OF framing_plain, of "(lit ''object'', sample_ack)"] by (simp add: packet_def assms length_sample_ack)
  obtain sig where sig: "bm_crypto_sign plain_ssl (?h @ ?plain) (ii_priv_signing sample_sender) = Some sig"
    using plain_sign by blast
  have st: "strlen (lit ''hi'') = 2" "strlen (lit ''yo'') = 2" by (simp_all add: strlen_def c_str_def)
  have l: "length (signed_part ?plain sig) \<le> 490"
    using length_msg_plain_small [OF sample_sender_ok plain_ssl_ok _ sig, of "replicate 20 7" "lit ''hi''" "lit ''yo''" pk]
    unfolding st by (simp add: pk)
  then obtain ct where ct:
    "bm_crypto_ecies_encrypt plain_ssl (Some [2]) (Some (replicate 16 1)) (signed_part ?plain sig) (4 # pad_to 64 [5]) = Some ct"
    using plain_encrypt [of "signed_part ?plain sig" "[2]" "replicate 16 1" "4 # pad_to 64 [5]"] by auto
  have "bm_build_msg plain_ssl (Some [2], Some (replicate 16 1)) sample_sender 1 (replicate 20 7) (4 # pad_to 64 [5])
      (lit ''hi'') (lit ''yo'') (Some pk) 100 = Some (?h @ ct)"
    using sig ct unfolding bm_build_msg_def Let_def by (simp add: bb_take_def msg_plain_def signed_part_def)
  then show thesis using that plain_ciphertext [OF ct] l by simp
qed

lemma sample_sent:
  assumes "bm_address_decode nat_bignum plain_ssl a = Some (3, 1, replicate 20 7)"
  obtains ct pdb1 mdb1 r where
    "bm_send_pipeline_send_message nat_bignum protocol_init plain_ssl sample_penv (True, True) (True, True) [sample_home] no_identities
      (lit ''BM-a'') a (lit ''hi'') (lit ''yo'') 100 1 None 0 0 (sample_pubkeys, no_messages) =
      Done (Some ((0, Some (be64 0 @ common_header 100 BM_OBJECT_MSG 1 1 @ ct)), pdb1, mdb1))"
    "sent mdb1 = [r]" "sr_msg_id r = replicate 32 5" "sr_ack_data r = sample_ack" "length ct \<le> 1000" "take 16 ct = replicate 16 1"
proof -
  obtain job atarget pdb1 where
    s: "send_message_start nat_bignum plain_ssl sample_penv [sample_home] no_identities (lit ''BM-a'') a (lit ''hi'') (lit ''yo'') 100 1 None 0 0
      () sample_pubkeys = Done (Inr (drop 8 sample_ack, atarget, Some (sj_key job), Ack_pow_done job) :: int + (unit, unit) pow_request, pdb1)"
    and j: "sj_from_info job = sample_sender" "sj_to_stream job = 1" "sj_to_ripe job = replicate 20 7" "sj_to_pub_encryption job = 4 # pad_to 64 [5]"
    "sj_subject job = lit ''hi''" "sj_body job = lit ''yo''" "sj_expires_time job = 100" "sj_ttl_seconds job = 100"
    "sj_required_nonce_trials job = 2000" "sj_required_extra_bytes job = 1000" "sj_msg_id job = replicate 32 5" "\<not> sj_is_self job"
    using sample_started [OF assms] .
  let ?pk = "bm_create_packet protocol_init plain_ssl (lit ''object'') sample_ack"
  obtain ct where b: "bm_build_msg plain_ssl (Some [2], Some (replicate 16 1)) sample_sender 1 (replicate 20 7) (4 # pad_to 64 [5])
      (lit ''hi'') (lit ''yo'') (Some ?pk) 100 = Some (common_header 100 BM_OBJECT_MSG 1 1 @ ct)"
    and ct: "length ct \<le> 1000" "take 16 ct = replicate 16 1"
    using sample_built [OF refl] .
  let ?m = "common_header 100 BM_OBJECT_MSG 1 1 @ ct" and ?job = "job\<lparr>sj_ack_data := Some sample_ack, sj_from_info := cleansed_info\<rparr>"
  obtain t where t: "bm_pow_get_target (word_of_nat (length ?m)) 100 2000 1000 = Done t"
    using small_target(1) [of ?m] ct(1) by (auto simp: common_header_def bm_varint_size_def)
  have env: "pe_mem_packet sample_penv" "pe_msg_rnd sample_penv = (Some [2], Some (replicate 16 1))" by (simp_all add: sample_penv_def)
  have req: "ack_msg_request protocol_init plain_ssl sample_penv (Some sample_ack) job =
      Done (Some (?m, t, Some (sj_key job), Msg_pow_done ?job) :: (unit, unit) pow_request option)"
    using b t env unfolding ack_msg_request_def build_msg_request_def build_msg_payload_def by (simp add: j del: list.map)
  have ack: "be64 0 @ drop 8 sample_ack = sample_ack" by (simp add: sample_ack_def)
  define mdb1 where "mdb1 = snd (bm_messages_store_insert_sent True (sj_msg_id ?job) sample_ack (sj_to_address ?job) (sj_from_address ?job)
      (sj_subject ?job) (sj_body ?job) (lit ''sent'') (sj_ack_stealth_level ?job) 0 (sint (sj_ttl_seconds ?job)) (sj_next_resend_time ?job) no_messages)"
  have fin: "msg_pow_done plain_ssl (True, True) ?job (Some (be64 0 @ ?m)) 0 no_messages = ((sj_done ?job, 0, Some (be64 0 @ ?m), 0), mdb1)"
    unfolding mdb1_def by (rule msg_pow_done_stores) (use j in simp_all)
  have "bm_send_pipeline_send_message nat_bignum protocol_init plain_ssl sample_penv (True, True) (True, True) [sample_home] no_identities
      (lit ''BM-a'') a (lit ''hi'') (lit ''yo'') 100 1 None 0 0 (sample_pubkeys, no_messages) = Done (Some ((0, Some (be64 0 @ ?m)), pdb1, mdb1))"
    unfolding bm_send_pipeline_send_message_def prod.case s bind_outcome.simps Let_def sum.case pow_callback.case fst_conv snd_conv
      plain_submit option.case ack req fin by simp
  moreover obtain r where "sent mdb1 = [r]" "sr_msg_id r = replicate 32 5" "sr_ack_data r = sample_ack"
    using j by (simp add: mdb1_def bm_messages_store_insert_sent_def no_messages_def)
  ultimately show thesis using that ct by blast
qed

lemma sample_hashes:
  "bm_inventory_hash plain_ssl sample_ack \<noteq> bm_inventory_hash plain_ssl (be64 0 @ common_header 100 BM_OBJECT_MSG 1 1 @ ct)"
proof -
  have h: "take 20 (bm_inventory_hash plain_ssl d) = take 20 d" if "20 \<le> length d" for d
    using that by (auto simp: bm_inventory_hash_def bm_double_sha512_def bm_sha512_def plain_ssl_def pad_to_def min_def)
  have "take 20 sample_ack = be64 0 @ be64 100 @ be32 BM_OBJECT_GETPUBKEY" "20 \<le> length sample_ack"
    by (simp_all add: sample_ack_def common_header_def)
  moreover have "take 20 (be64 0 @ common_header 100 BM_OBJECT_MSG 1 1 @ ct) = be64 0 @ be64 100 @ be32 BM_OBJECT_MSG"
    "20 \<le> length (be64 0 @ common_header 100 BM_OBJECT_MSG 1 1 @ ct)"
    by (simp_all add: common_header_def)
  moreover have "be32 BM_OBJECT_GETPUBKEY \<noteq> be32 BM_OBJECT_MSG" by (rule notI, drule arg_cong [of _ _ "be_join :: bytes \<Rightarrow> u32"]) simp
  ultimately show ?thesis using h by (metis same_append_eq)
qed

section \<open>Properties\<close>

text \<open>
  C1: a message reaches its receiver, and its acknowledgement ends the sending. Suppose that
  \<open>bm_send_pipeline_send_message\<close> returns the object of a message to an address that is not the user's own,
  whose key is in the cache of public keys. When the object comes to a node that holds the receiver's key,
  within its time to live, \<open>handle_object\<close> there enters the message in the inbox, with the subject and the body
  that were sent, and puts the object and the acknowledgement inside it into the pool and announces both to the
  other connections. When that acknowledgement comes back, \<open>handle_object\<close> of the sender marks the message, and
  it is never listed for sending again. (System calls succeed; subject of one line; the sizes are within the
  limits of the network; no hash collisions; earlier identities of the receiver do not open the message; the
  acknowledgement concerns no key of the sender.)
\<close>

theorem message_acknowledged:
  fixes n m :: sync_node
  assumes ssl: "openssl_ok ssl" "framing_ok g ssl"
    and sent: "bm_send_pipeline_send_message bn g ssl penv ok mem kr idb fr rcpt subject body ttl level reuse nx now (pdb, mdb) =
      Done (Some ((0, Some obj), pdb1, mdb1))" "fst ok"
    and sender: "bm_keyring_find_by_address fr kr = Some u" "identity_ok ssl (identity_info (ui_address_version u) u)"
      "1000 \<le> ui_nonce_trials_per_byte u" "ui_nonce_trials_per_byte u < 2 ^ 32"
      "1000 \<le> ui_payload_length_extra_bytes u" "ui_payload_length_extra_bytes u < 2 ^ 32"
    and receiver: "bm_address_decode bn ssl rcpt = Some (v, stream, ui_ripe ident)"
      "bm_identity_store_load (pe_ok penv 0) rcpt idb = None"
      "bm_pubkey_cache_lookup_by_ripe (pe_ok penv 1) (ui_ripe ident) pdb = Some c"
      "bm_address_get_public_key ssl (ui_priv_encryption ident) = Some (cp_encryption_pubkey c)"
      "cp_nonce_trials_per_byte c < 2 ^ 32" "cp_payload_length_extra_bytes c < 2 ^ 32" "\<not> ui_is_chan ident"
    and random: "pe_msg_rnd penv = (rp, Some iv)" "length iv = 16"
    and times: "0 \<le> now" "now + uint ttl < 2 ^ 63" "ttl < 2 ^ 32" "now \<le> oe_now renv" "oe_now renv \<le> now + uint ttl"
      "now \<le> oe_ack_now renv" "oe_ack_now renv \<le> now + uint ttl" "now \<le> oe_now senv" "oe_now senv \<le> now + uint ttl"
    and row: "r \<in> set (sent mdb1)" "case_option (pe_msg_id penv) Some reuse = Some (sr_msg_id r)" "sr_ack_data r = ack"
    and sizes: "plain_subject (c_str subject)" "strlen subject + strlen body + length ack \<le> 2 ^ 17" "length obj \<le> 262144"
    and node: "calls_ok renv" "sn_has_registry n" "sn_keyring n = pre @ ident # post"
      "\<forall>i\<in>set pre. bm_crypto_ecies_decrypt ssl (drop (21 + bm_varint_size stream) obj) (ui_priv_encryption i) = None"
      "map_of (sn_pool n) (bm_inventory_hash ssl obj) = None" "map_of (sn_pool n) (bm_inventory_hash ssl ack) = None"
      "bm_inventory_hash ssl ack \<noteq> bm_inventory_hash ssl obj"
      "bm_inventory_hash ssl obj \<notin> in_msg_id ` set (inbox (sn_messages n))"
    and home: "calls_ok senv" "sn_messages m = mdb1" "inert ssl (sn_keyring m) ack"
      "\<forall>q\<in>set (sent mdb1). sr_ack_data q \<noteq> [] \<and> bm_inventory_hash ssl (sr_ack_data q) = bm_inventory_hash ssl ack \<longrightarrow> sr_ack_data q = ack"
  shows "\<exists>n' q m'. handle_object bn g ssl renv conn (message_of ssl (lit ''object'', obj)) n = Done n' \<and>
    inbox (sn_messages n') = inbox (sn_messages n) @ [q] \<and> in_msg_id q = bm_inventory_hash ssl obj \<and>
    in_to_address q = c_str (take 63 (c_str (ui_address ident))) \<and> in_subject q = c_str subject \<and> in_body q = c_str body \<and>
    bm_object_store_get True (bm_inventory_hash ssl obj) (sn_pool n') = Some obj \<and>
    bm_object_store_get True (bm_inventory_hash ssl ack) (sn_pool n') = Some ack \<and>
    sn_announced n' = sn_announced n @
      [(bm_inventory_hash ssl obj, Some conn, oe_now renv), (bm_inventory_hash ssl ack, Some conn, oe_ack_now renv)] \<and>
    handle_object bn g ssl senv conn' (message_of ssl (lit ''object'', ack)) m = Done m' \<and>
    (\<exists>p\<in>set (sent (sn_messages m')). sr_msg_id p = sr_msg_id r) \<and>
    (\<forall>p\<in>set (sent (sn_messages m')). sr_msg_id p = sr_msg_id r \<longrightarrow> (\<forall>t k. \<not> wants_resend t k p))"
proof -
  obtain job apay atarget key na ack1 mpay mtarget nm where
    s: "send_message_start bn ssl penv kr idb fr rcpt subject body ttl level reuse nx now () pdb =
      Done (Inr (apay, atarget, key, Ack_pow_done job) :: int + (unit, unit) pow_request, pdb1)"
    and a: "ack1 = be64 na @ apay" "bm_pow_trial_value ssl na (bm_sha512 ssl apay) \<le> atarget"
    and b: "bm_build_msg ssl (pe_msg_rnd penv) (sj_from_info job) (sj_to_stream job) (sj_to_ripe job) (sj_to_pub_encryption job)
      (sj_subject job) (sj_body job) (Some (bm_create_packet g ssl (lit ''object'') ack1)) (sj_expires_time job) = Some mpay"
    and t: "bm_pow_get_target (word_of_nat (length mpay)) (sj_ttl_seconds job) (sj_required_nonce_trials job) (sj_required_extra_bytes job) =
      Done mtarget"
    and o: "obj = be64 nm @ mpay" "bm_pow_trial_value ssl nm (bm_sha512 ssl mpay) \<le> mtarget"
    and i: "mdb1 = snd (bm_messages_store_insert_sent True (sj_msg_id job) ack1 (sj_to_address job) (sj_from_address job) (sj_subject job)
      (sj_body job) (lit ''sent'') level now (sint ttl) (sj_next_resend_time job) mdb)"
    using send_message_facts [OF sent(1) receiver(2) sent(2)] .
  have rl: "length (ui_ripe ident) = 20" using bm_address_decode_contents [OF receiver(1)] by simp
  note job = start_job [OF s sender(1) receiver(1,2,3)] and facts = start_facts [OF s]
  have mid: "sr_msg_id r = sj_msg_id job" using row(2) job(7) by simp
  then have ack: "ack1 = ack" using insert_sent_row(2) [OF i row(1)] row(3) by simp
  have req: "1000 \<le> sj_required_nonce_trials job" "sj_required_nonce_trials job < 2 ^ 32"
      "1000 \<le> sj_required_extra_bytes job" "sj_required_extra_bytes job < 2 ^ 32"
    using job(5,6) sender(3-6) receiver(5,6) by (auto simp: le_max_iff_disj)
  obtain ty av rest where ap: "apay = common_header (word_of_int now + ttl) ty av (sj_to_stream job) @ rest"
    using ack_payload_header [OF facts(7)] .
  obtain ct where mp: "mpay = common_header (word_of_int now + ttl) BM_OBJECT_MSG 1 (sj_to_stream job) @ ct"
    using bm_build_msg_cases [OF b] rl by (metis job(3) facts(3))
  have len: "length apay < 2 ^ 32" "length mpay < 2 ^ 32" "length ack \<le> 262144" using sizes a(1) o(1) ack by auto
  have acc_ack: "acceptable ssl ack tt" if "now \<le> tt" "tt \<le> now + uint ttl" for tt
    unfolding ack [symmetric] a(1)
    by (rule solved_acceptable [OF times(1) that times(2,3) len(1) _ _ _ _ facts(8) a(2) ap]) simp_all
  have acc_obj: "acceptable ssl obj (oe_now renv)"
    unfolding o(1) by (rule solved_acceptable [OF times(1,4,5,2,3) len(2) req _ o(2) mp]) (use t facts(4) in simp)
  obtain n' q where n': "handle_object bn g ssl renv conn (message_of ssl (lit ''object'', obj)) n = Done n'"
      "inbox (sn_messages n') = inbox (sn_messages n) @ [q]" "in_msg_id q = bm_inventory_hash ssl obj"
      "in_to_address q = c_str (take 63 (c_str (ui_address ident)))" "in_subject q = c_str (c_str subject)" "in_body q = c_str (c_str body)"
      "bm_object_store_get True (bm_inventory_hash ssl obj) (sn_pool n') = Some obj"
      "bm_object_store_get True (bm_inventory_hash ssl ack) (sn_pool n') = Some ack"
      "sn_announced n' = sn_announced n @
        [(bm_inventory_hash ssl obj, Some conn, oe_now renv), (bm_inventory_hash ssl ack, Some conn, oe_ack_now renv)]"
    using node_receives [OF ssl node(1) b [unfolded random(1) job(1-4) facts(1,2) ack] o(1) sizes(3) sender(2) rl random(2)
        receiver(4) sizes(1) _ receiver(7) node(3) _ acc_obj acc_ack node(2,5-8), of bn conn] node(4) sizes(2) times(6,7)
    by (auto simp: strlen_def o(1))
  obtain m' where m': "handle_object bn g ssl senv conn' (message_of ssl (lit ''object'', ack)) m = Done m'"
      "sent (sn_messages m') = map (\<lambda>q. if sr_ack_data q = ack then q\<lparr>sr_status := lit ''ackreceived''\<rparr> else q) (sent mdb1)"
    using node_sees_ack [OF home(1) len(3) acc_ack [OF times(8,9)] home(3)] home(2,4) by blast
  have p: "\<forall>t k. \<not> wants_resend t k p" if pm: "p \<in> set (sent (sn_messages m'))" "sr_msg_id p = sr_msg_id r" for p
  proof -
    obtain p0 where p0: "p0 \<in> set (sent mdb1)" "p = (if sr_ack_data p0 = ack then p0\<lparr>sr_status := lit ''ackreceived''\<rparr> else p0)"
      using pm(1) unfolding m'(2) by auto
    have "sr_msg_id p0 = sj_msg_id job" using p0(2) pm(2) mid by (auto split: if_splits)
    then have "sr_ack_data p0 = ack" using insert_sent_row(2) [OF i p0(1)] ack by simp
    then show ?thesis using p0(2) by (simp add: wants_resend_def)
  qed
  have "\<exists>p\<in>set (sent (sn_messages m')). sr_msg_id p = sr_msg_id r"
    unfolding m'(2) set_map using row(1,3) by (intro bexI [OF _ imageI [of r]]) simp_all
  then show ?thesis using n' m'(1) p by (auto simp: c_str_idem)
qed

theorem message_acknowledged_witness:
  "\<exists>obj ack mdb1 n' q m'. handle_object nat_bignum protocol_init plain_ssl sample_oenv 7 (message_of plain_ssl (lit ''object'', obj))
      (sample_node [sample_receiver] no_messages) = Done n' \<and> inbox (sn_messages n') = [q] \<and>
    in_subject q = c_str (lit ''hi'') \<and> in_body q = c_str (lit ''yo'') \<and>
    bm_object_store_get True (bm_inventory_hash plain_ssl ack) (sn_pool n') = Some ack \<and>
    handle_object nat_bignum protocol_init plain_ssl sample_oenv 9 (message_of plain_ssl (lit ''object'', ack)) (sample_node [] mdb1) = Done m' \<and>
    (\<forall>p\<in>set (sent (sn_messages m')). sr_msg_id p = replicate 32 5 \<longrightarrow> \<not> wants_resend 100000 5 p)"
proof -
  obtain a where a: "bm_address_decode nat_bignum plain_ssl a = Some (3, 1, replicate 20 7)"
    using bm_address_encode_decode [OF nat_bignum_spec openssl_ok_digests [OF plain_ssl_ok], of "replicate 20 7" 3 1] by auto
  obtain ct pdb1 mdb1 r where
    s: "bm_send_pipeline_send_message nat_bignum protocol_init plain_ssl sample_penv (True, True) (True, True) [sample_home] no_identities
      (lit ''BM-a'') a (lit ''hi'') (lit ''yo'') 100 1 None 0 0 (sample_pubkeys, no_messages) =
      Done (Some ((0, Some (be64 0 @ common_header 100 BM_OBJECT_MSG 1 1 @ ct)), pdb1, mdb1))"
    and r: "sent mdb1 = [r]" "sr_msg_id r = replicate 32 5" "sr_ack_data r = sample_ack" and ct: "length ct \<le> 1000"
    using sample_sent [OF a] .
  let ?obj = "be64 0 @ common_header 100 BM_OBJECT_MSG 1 1 @ ct"
  have rc: "ui_ripe sample_receiver = replicate 20 7" "\<not> ui_is_chan sample_receiver" "ui_priv_encryption sample_receiver = [5]"
    by (simp_all add: sample_receiver_def)
  have env: "pe_ok sample_penv k" "pe_msg_id sample_penv = Some (replicate 32 5)" "pe_msg_rnd sample_penv = (Some [2], Some (replicate 16 1))" for k
    by (simp_all add: sample_penv_def)
  have f: "bm_keyring_find_by_address (lit ''BM-a'') [sample_home] = Some sample_home"
    by (simp add: bm_keyring_find_by_address_def same_address_def sample_home_def c_str_def)
  have i: "bm_identity_store_load (pe_ok sample_penv 0) a no_identities = None"
    by (simp add: bm_identity_store_load_def find_row_def no_identities_def)
  have ok: "calls_ok sample_oenv" by (simp add: calls_ok_def sample_oenv_def)
  have inert: "inert plain_ssl (sn_keyring (sample_node [] mdb1)) sample_ack"
    by (simp add: inert_def sample_ack_def bm_object_parse_common_header sample_node_def bm_object_sync_ctx_init_def getpubkey_target_def
        bm_keyring_find_by_ripe_version_def bm_keyring_find_by_tag_def)
  have st: "strlen (lit ''hi'') = 2" "strlen (lit ''yo'') = 2" "plain_subject (c_str (lit ''hi''))"
    by (simp_all add: strlen_def c_str_def plain_subject_def)
  have node: "sn_keyring (sample_node k d) = k" "sn_messages (sample_node k d) = d" "sn_pool (sample_node k d) = []"
    "sn_has_registry (sample_node k d)" for k d
    by (simp_all add: sample_node_def bm_object_sync_ctx_init_def)
  have times: "oe_now sample_oenv = 3" "oe_ack_now sample_oenv = 3" by (simp_all add: sample_oenv_def)
  have bounds: "1000 \<le> ui_nonce_trials_per_byte sample_home" "ui_nonce_trials_per_byte sample_home < 2 ^ 32"
      "1000 \<le> ui_payload_length_extra_bytes sample_home" "ui_payload_length_extra_bytes sample_home < 2 ^ 32"
      "cp_nonce_trials_per_byte sample_cached < 2 ^ 32" "cp_payload_length_extra_bytes sample_cached < 2 ^ 32"
      "cp_encryption_pubkey sample_cached = 4 # pad_to 64 [5]"
    by (simp_all add: sample_home_def sample_cached_def)
  have corr: "identity_ok plain_ssl (identity_info (ui_address_version sample_home) sample_home)"
      "bm_address_decode nat_bignum plain_ssl a = Some (3, 1, ui_ripe sample_receiver)"
      "bm_pubkey_cache_lookup_by_ripe (pe_ok sample_penv 1) (ui_ripe sample_receiver) sample_pubkeys = Some sample_cached"
      "bm_address_get_public_key plain_ssl (ui_priv_encryption sample_receiver) = Some (cp_encryption_pubkey sample_cached)"
    using a by (simp_all add: sample_home_info sample_sender_ok rc env sample_lookup plain_public_key bounds(7))
  have row: "r \<in> set (sent mdb1)" "case_option (pe_msg_id sample_penv) Some None = Some (sr_msg_id r)"
    by (simp_all add: r env)
  have sizes: "strlen (lit ''hi'') + strlen (lit ''yo'') + length sample_ack \<le> 2 ^ 17" "length ?obj \<le> 262144"
    using ct unfolding st by (simp_all add: length_sample_ack common_header_def bm_varint_size_def)
  have fresh: "\<forall>i\<in>set []. bm_crypto_ecies_decrypt plain_ssl (drop (21 + bm_varint_size 1) ?obj) (ui_priv_encryption i) = None"
      "map_of (sn_pool (sample_node [sample_receiver] no_messages)) h = None"
      "h \<notin> in_msg_id ` set (inbox (sn_messages (sample_node [sample_receiver] no_messages)))"
      "sn_keyring (sample_node [sample_receiver] no_messages) = [] @ sample_receiver # []"
      "\<forall>q\<in>set (sent mdb1). sr_ack_data q \<noteq> [] \<and> bm_inventory_hash plain_ssl (sr_ack_data q) = bm_inventory_hash plain_ssl sample_ack
        \<longrightarrow> sr_ack_data q = sample_ack" for h
    by (simp_all add: node no_messages_def r)
  have tm: "(0::int) \<le> 0" "(0::int) + uint (100::u64) < 2 ^ 63" "(100::u64) < 2 ^ 32" "0 \<le> oe_now sample_oenv"
      "oe_now sample_oenv \<le> 0 + uint (100::u64)" "0 \<le> oe_ack_now sample_oenv" "oe_ack_now sample_oenv \<le> 0 + uint (100::u64)"
    by (simp_all add: times)
  have iv: "length (replicate 16 (1::8 word)) = 16" "fst (True, True)" by simp_all
  note th = message_acknowledged [OF plain_ssl_ok framing_plain s iv(2) f corr(1) bounds(1-4) corr(2) i corr(3,4) bounds(5,6) rc(2) env(3) iv(1)
      tm tm(4,5) row r(3) st(3) sizes ok node(4) fresh(4,1,2,2) sample_hashes fresh(3) ok node(2) inert fresh(5), of 7 9]
  obtain n' q m' where c: "handle_object nat_bignum protocol_init plain_ssl sample_oenv 7 (message_of plain_ssl (lit ''object'', ?obj))
      (sample_node [sample_receiver] no_messages) = Done n'"
    "inbox (sn_messages n') = inbox (sn_messages (sample_node [sample_receiver] no_messages)) @ [q]"
    "in_subject q = c_str (lit ''hi'')" "in_body q = c_str (lit ''yo'')"
    "bm_object_store_get True (bm_inventory_hash plain_ssl sample_ack) (sn_pool n') = Some sample_ack"
    "handle_object nat_bignum protocol_init plain_ssl sample_oenv 9 (message_of plain_ssl (lit ''object'', sample_ack)) (sample_node [] mdb1) = Done m'"
    "\<forall>p\<in>set (sent (sn_messages m')). sr_msg_id p = sr_msg_id r \<longrightarrow> (\<forall>t k. \<not> wants_resend t k p)"
    using th by blast
  show ?thesis using c by (intro exI [of _ ?obj] exI [of _ sample_ack] exI [of _ mdb1] exI [of _ n'] exI [of _ q] exI [of _ m'])
    (auto simp: node no_messages_def r(2))
qed

end
