(* ===== verification/Json.thy ===== *)
theory Json
  imports Double
begin

text \<open>
  The JSON values of the API (\<open>src/common/json.c\<close>): parser, accessors, constructors and serializer.
  A value stands for the pointer to it, so the null pointer is one of the values; ownership and
  \<open>bm_json_free\<close> are not modelled, and memory is always available, as the file assumes in most
  places. A dynamic array is a list. The cursor of the parser is the text that is left.

  The theory shows that every value whose strings hold no zero byte and whose numbers fit a
  \<open>long long\<close> is read back from its text.
\<close>

datatype bm_json_value =
    JSON_NULLPTR
  | BM_JSON_NULL
  | BM_JSON_BOOL bool
  | BM_JSON_NUMBER double
  | BM_JSON_STRING bytes
  | BM_JSON_ARRAY "bm_json_value list"
  | BM_JSON_OBJECT "(bytes \<times> bm_json_value) list"

section \<open>Construction and access\<close>

definition bm_json_new_string :: "bytes \<Rightarrow> bm_json_value" where
  "bm_json_new_string s = BM_JSON_STRING (c_str s)"

fun bm_json_array_append :: "bm_json_value \<Rightarrow> bm_json_value \<Rightarrow> bm_json_value" where
  "bm_json_array_append (BM_JSON_ARRAY items) item = BM_JSON_ARRAY (items @ [item])"
| "bm_json_array_append arr item = arr"

fun bm_json_object_set :: "bm_json_value \<Rightarrow> bytes \<Rightarrow> bm_json_value \<Rightarrow> bm_json_value" where
  "bm_json_object_set (BM_JSON_OBJECT pairs) key value = BM_JSON_OBJECT (pairs @ [(c_str key, value)])"
| "bm_json_object_set obj key value = obj"

fun get_loop :: "(bytes \<times> bm_json_value) list \<Rightarrow> bytes \<Rightarrow> bm_json_value" where
  "get_loop [] key = JSON_NULLPTR"
| "get_loop ((k, v) # pairs) key = (if c_str k = c_str key then v else get_loop pairs key)"

fun bm_json_object_get :: "bm_json_value \<Rightarrow> bytes \<Rightarrow> bm_json_value" where
  "bm_json_object_get (BM_JSON_OBJECT pairs) key = get_loop pairs key"
| "bm_json_object_get obj key = JSON_NULLPTR"

fun bm_json_array_get :: "bm_json_value \<Rightarrow> nat \<Rightarrow> bm_json_value" where
  "bm_json_array_get (BM_JSON_ARRAY items) i = (if i < length items then items ! i else JSON_NULLPTR)"
| "bm_json_array_get arr i = JSON_NULLPTR"

fun bm_json_as_string :: "bm_json_value \<Rightarrow> bytes option" where
  "bm_json_as_string (BM_JSON_STRING s) = Some s"
| "bm_json_as_string v = None"

fun bm_json_as_number :: "bm_json_value \<Rightarrow> double" where
  "bm_json_as_number (BM_JSON_NUMBER d) = d"
| "bm_json_as_number v = Finite 0"

section \<open>The parser\<close>

definition skip_ws :: "bytes \<Rightarrow> bytes" where
  "skip_ws s = dropWhile (\<lambda>b. b = 32 \<or> b = 9 \<or> b = 10 \<or> b = 13) s"

definition match_literal :: "bytes \<Rightarrow> bytes \<Rightarrow> bytes option" where
  "match_literal s l = (if length s < length l \<or> take (length l) s \<noteq> l then None else Some (drop (length l) s))"

definition some_digits :: "bytes \<Rightarrow> bytes option" where
  "some_digits s = (if s = [] \<or> \<not> is_digit (hd s) then None else Some (dropWhile is_digit s))"

definition parse_number :: "bytes \<Rightarrow> (bm_json_value \<times> bytes) option" where
  "parse_number s =
     (case some_digits (if s \<noteq> [] \<and> hd s = 45 then tl s else s) of
        None \<Rightarrow> None
      | Some s2 \<Rightarrow>
          (case (if s2 \<noteq> [] \<and> hd s2 = 46 then some_digits (tl s2) else Some s2) of
             None \<Rightarrow> None
           | Some s3 \<Rightarrow>
               (case (if s3 \<noteq> [] \<and> (hd s3 = 101 \<or> hd s3 = 69)
                      then some_digits (if tl s3 \<noteq> [] \<and> (hd (tl s3) = 43 \<or> hd (tl s3) = 45) then tl (tl s3) else tl s3)
                      else Some s3) of
                  None \<Rightarrow> None
                | Some s4 \<Rightarrow> Some (BM_JSON_NUMBER (strtod (take (length s - length s4) s)), s4))))"

text \<open>The bytes that \<open>append_utf8\<close> adds.\<close>

definition append_utf8 :: "u32 \<Rightarrow> bytes" where
  "append_utf8 cp =
     (if cp < 0x80 then [ucast cp]
      else if cp < 0x800 then [ucast (0xC0 OR drop_bit 6 cp), ucast (0x80 OR (cp AND 0x3F))]
      else [ucast (0xE0 OR drop_bit 12 cp), ucast (0x80 OR (drop_bit 6 cp AND 0x3F)), ucast (0x80 OR (cp AND 0x3F))])"

definition hex_digit :: "byte \<Rightarrow> nat option" where
  "hex_digit ch =
     (if 48 \<le> ch \<and> ch \<le> 57 then Some (unat ch - 48)
      else if 97 \<le> ch \<and> ch \<le> 102 then Some (unat ch - 97 + 10)
      else if 65 \<le> ch \<and> ch \<le> 70 then Some (unat ch - 65 + 10)
      else None)"

fun hex_loop :: "u32 \<Rightarrow> bytes \<Rightarrow> u32 option" where
  "hex_loop cp [] = Some cp"
| "hex_loop cp (ch # s) =
     (case hex_digit ch of None \<Rightarrow> None | Some d \<Rightarrow> hex_loop (push_bit 4 cp OR of_nat d) s)"

definition escape_char :: "byte \<Rightarrow> byte option" where
  "escape_char esc =
     (if esc = 34 then Some 34 else if esc = 92 then Some 92 else if esc = 47 then Some 47
      else if esc = 98 then Some 8 else if esc = 102 then Some 12 else if esc = 110 then Some 10
      else if esc = 114 then Some 13 else if esc = 116 then Some 9 else None)"

fun string_loop :: "bytes \<Rightarrow> bytes \<Rightarrow> (bytes \<times> bytes) option" where
  "string_loop out [] = None"
| "string_loop out (ch # s) =
     (if ch = 34 then Some (out, s)
      else if ch = 92 then
        (case s of
           [] \<Rightarrow> None
         | esc # t \<Rightarrow>
             (case escape_char esc of
                Some b \<Rightarrow> string_loop (out @ append_utf8 (ucast b)) t
              | None \<Rightarrow>
                  if esc \<noteq> 117 \<or> length t < 4 then None
                  else (case hex_loop 0 (take 4 t) of
                          None \<Rightarrow> None
                        | Some cp \<Rightarrow> string_loop (out @ append_utf8 cp) (drop 4 t))))
      else string_loop (out @ (if ch < 0x80 then append_utf8 (ucast ch) else [ch])) s)"

text \<open>The result is a C string: it ends at its first zero byte.\<close>

definition parse_string_raw :: "bytes \<Rightarrow> (bytes \<times> bytes) option" where
  "parse_string_raw s =
     (if s = [] \<or> hd s \<noteq> 34 then None
      else map_option (\<lambda>(out, r). (c_str out, r)) (string_loop [] (tl s)))"

definition parse_string :: "bytes \<Rightarrow> (bm_json_value \<times> bytes) option" where
  "parse_string s = map_option (\<lambda>(out, r). (BM_JSON_STRING out, r)) (parse_string_raw s)"

function (sequential) parse_value :: "bytes \<Rightarrow> (bm_json_value \<times> bytes) option"
  and array_loop :: "bm_json_value \<Rightarrow> bytes \<Rightarrow> (bm_json_value \<times> bytes) option"
  and object_loop :: "bm_json_value \<Rightarrow> bytes \<Rightarrow> (bm_json_value \<times> bytes) option" where
  "parse_value s =
     (case skip_ws s of
        [] \<Rightarrow> None
      | ch # t \<Rightarrow>
          if ch = 34 then parse_string (ch # t)
          else if ch = 91 then
            (case skip_ws t of
               [] \<Rightarrow> array_loop (BM_JSON_ARRAY []) []
             | c # u \<Rightarrow> if c = 93 then Some (BM_JSON_ARRAY [], u) else array_loop (BM_JSON_ARRAY []) (c # u))
          else if ch = 123 then
            (case skip_ws t of
               [] \<Rightarrow> object_loop (BM_JSON_OBJECT []) []
             | c # u \<Rightarrow> if c = 125 then Some (BM_JSON_OBJECT [], u) else object_loop (BM_JSON_OBJECT []) (c # u))
          else if ch = 116 then map_option (\<lambda>r. (BM_JSON_BOOL True, r)) (match_literal (ch # t) (lit ''true''))
          else if ch = 102 then map_option (\<lambda>r. (BM_JSON_BOOL False, r)) (match_literal (ch # t) (lit ''false''))
          else if ch = 110 then map_option (\<lambda>r. (BM_JSON_NULL, r)) (match_literal (ch # t) (lit ''null''))
          else parse_number (ch # t))"
| "array_loop v s =
     (case parse_value (skip_ws s) of
        None \<Rightarrow> None
      | Some (item, r) \<Rightarrow>
          (case skip_ws r of
             [] \<Rightarrow> None
           | c # u \<Rightarrow>
               if c = 44 then array_loop (bm_json_array_append v item) u
               else if c = 93 then Some (bm_json_array_append v item, u)
               else None))"
| "object_loop v s =
     (case parse_string_raw (skip_ws s) of
        None \<Rightarrow> None
      | Some (key, r) \<Rightarrow>
          (case skip_ws r of
             [] \<Rightarrow> None
           | c # u \<Rightarrow>
               if c \<noteq> 58 then None
               else
                 (case parse_value (skip_ws u) of
                    None \<Rightarrow> None
                  | Some (val, r2) \<Rightarrow>
                      (case skip_ws r2 of
                         [] \<Rightarrow> None
                       | c2 # u2 \<Rightarrow>
                           if c2 = 44 then object_loop (bm_json_object_set v key val) u2
                           else if c2 = 125 then Some (bm_json_object_set v key val, u2)
                           else None))))"
  by pat_completeness auto

text \<open>Every parser returns a part of the text it was given.\<close>

lemma skip_ws_length: "length (skip_ws s) \<le> length s"
  by (simp add: skip_ws_def length_dropWhile_le)

lemma some_digits_length: "some_digits s = Some r \<Longrightarrow> length r \<le> length s"
  by (auto simp: some_digits_def length_dropWhile_le split: if_splits)

lemma parse_number_length: "parse_number s = Some (v, r) \<Longrightarrow> length r \<le> length s"
  by (auto simp: parse_number_def split: option.splits if_splits dest!: some_digits_length)

lemma string_loop_length: "string_loop out s = Some (o', r) \<Longrightarrow> length r \<le> length s"
proof (induction out s rule: string_loop.induct)
  case (1 out)
  then show ?case by simp
next
  case (2 out ch s)
  show ?case
  proof (cases "ch = 34 \<or> ch \<noteq> 92")
    case True
    then show ?thesis using 2(3) 2(4) by (cases "ch = 34") (auto intro: le_SucI)
  next
    case False
    then obtain esc t where s: "s = esc # t" using 2(4) by (cases s) auto
    show ?thesis
    proof (cases "escape_char esc")
      case None
      then obtain cp where "\<not> (esc \<noteq> 117 \<or> length t < 4)" "hex_loop 0 (take 4 t) = Some cp"
        using 2(4) False s by (simp split: if_splits option.splits)
      then show ?thesis using 2(1) [OF _ _ s None] 2(4) False s None by simp
    next
      case (Some b)
      then show ?thesis using 2(2) [OF _ _ s Some] 2(4) False s Some by simp
    qed
  qed
qed

lemma parse_string_raw_length: "parse_string_raw s = Some (o', r) \<Longrightarrow> length r \<le> length s"
  by (cases s) (auto simp: parse_string_raw_def split: if_splits dest!: string_loop_length)

lemma match_literal_length: "match_literal s l = Some r \<Longrightarrow> length r \<le> length s"
  by (auto simp: match_literal_def split: if_splits)

lemma parse_length_dom:
  "parse_value_array_loop_object_loop_dom (Inl s) \<Longrightarrow> parse_value s = Some (v, r) \<Longrightarrow> length r \<le> length s"
  "parse_value_array_loop_object_loop_dom (Inr (Inl (a, s))) \<Longrightarrow> array_loop a s = Some (v, r) \<Longrightarrow> length r \<le> length s"
  "parse_value_array_loop_object_loop_dom (Inr (Inr (a, s))) \<Longrightarrow> object_loop a s = Some (v, r) \<Longrightarrow> length r \<le> length s"
proof (induction s and a s and a s arbitrary: v r and v r and v r rule: parse_value_array_loop_object_loop.pinduct)
  case (1 s)
  obtain ch t where sk: "skip_ws s = ch # t" using 1(1,6) by (cases "skip_ws s") (auto simp: parse_value.psimps)
  have t: "Suc (length t) \<le> length s" using skip_ws_length [of s] sk by simp
  note pv = 1(6) [unfolded parse_value.psimps [OF 1(1)] sk list.case]
  show ?case
  proof (cases "ch = 91 \<or> ch = 123")
    case False
    then have "length r \<le> length (ch # t)"
      using pv by (auto simp: parse_string_def split: if_splits dest: parse_string_raw_length match_literal_length parse_number_length)
    then show ?thesis using t by simp
  next
    case True
    note st = skip_ws_length [of t]
    show ?thesis
    proof (cases "skip_ws t")
      case Nil
      then have "length r \<le> 0"
        using True pv 1(2) [OF sk _ _ Nil] 1(4) [OF sk _ _ _ Nil] by (auto split: if_splits)
      then show ?thesis by simp
    next
      case (Cons c u)
      then have "length r \<le> length (c # u)"
        using True pv 1(3) [OF sk _ _ Cons] 1(5) [OF sk _ _ _ Cons] by (auto split: if_splits)
      then show ?thesis using st t Cons by simp
    qed
  qed
next
  case (2 a s)
  obtain item q where pv: "parse_value (skip_ws s) = Some (item, q)"
    using 2(1,4) by (auto simp: array_loop.psimps split: option.splits)
  obtain c u where sk: "skip_ws q = c # u"
    using 2(1,4) pv by (auto simp: array_loop.psimps split: list.splits)
  have "length u < length s" using 2(2) [OF pv] skip_ws_length [of s] skip_ws_length [of q] sk by simp
  moreover have "length r \<le> length u"
    using 2(4) 2(3) [OF pv refl sk] pv sk by (auto simp: array_loop.psimps [OF 2(1)] split: if_splits)
  ultimately show ?case by simp
next
  case (3 a s)
  obtain key q where pk: "parse_string_raw (skip_ws s) = Some (key, q)"
    using 3(1,4) by (auto simp: object_loop.psimps split: option.splits)
  obtain u where sk: "skip_ws q = 58 # u"
    using 3(1,4) pk by (auto simp: object_loop.psimps split: list.splits if_splits)
  obtain val q2 where pv: "parse_value (skip_ws u) = Some (val, q2)"
    using 3(1,4) pk sk by (auto simp: object_loop.psimps split: option.splits)
  obtain c u2 where sk2: "skip_ws q2 = c # u2"
    using 3(1,4) pk sk pv by (auto simp: object_loop.psimps split: list.splits)
  have "length u2 < length s"
    using 3(2) [OF pk refl sk _ pv] parse_string_raw_length [OF pk] skip_ws_length [of s] skip_ws_length [of q]
      skip_ws_length [of u] skip_ws_length [of q2] sk sk2 by simp
  moreover have "length r \<le> length u2"
    using 3(4) 3(3) [OF pk refl sk _ pv refl sk2] pk sk pv sk2 by (auto simp: object_loop.psimps [OF 3(1)] split: if_splits)
  ultimately show ?case by simp
qed

lemma skip_ws_Cons: "skip_ws s = c # t \<Longrightarrow> Suc (length t) \<le> length s"
  using skip_ws_length [of s] by simp

lemma parse_length_ws:
  "parse_string_raw (skip_ws s) = Some (k, r) \<Longrightarrow> length r \<le> length s"
  "parse_value (skip_ws s) = Some (v, r) \<Longrightarrow> parse_value_array_loop_object_loop_dom (Inl (skip_ws s)) \<Longrightarrow> length r \<le> length s"
  using parse_string_raw_length [of "skip_ws s" k r] parse_length_dom(1) [of "skip_ws s" v r] skip_ws_length [of s] by simp_all

termination parse_value
proof (relation "measure (\<lambda>x. case x of Inl s \<Rightarrow> 2 * length s | Inr (Inl (v, s)) \<Rightarrow> 2 * length s + 1
    | Inr (Inr (v, s)) \<Rightarrow> 2 * length s + 1)", simp_all)
  show "2 * length (skip_ws s) < Suc (2 * length s)" for s using skip_ws_length [of s] by simp
  show "2 * length (skip_ws u) < Suc (2 * length s)"
    if "parse_string_raw (skip_ws s) = Some p" "(x, y) = p" "skip_ws y = 58 # u" for s p x y u
    using that skip_ws_length [of u] by (auto dest!: skip_ws_Cons parse_length_ws)
qed (auto dest!: skip_ws_Cons parse_length_ws)

declare parse_value.simps [simp del] array_loop.simps [simp del] object_loop.simps [simp del]

definition bm_json_parse :: "bytes \<Rightarrow> bm_json_value" where
  "bm_json_parse text =
     (case parse_value text of
        None \<Rightarrow> JSON_NULLPTR
      | Some (v, r) \<Rightarrow> if skip_ws r \<noteq> [] then JSON_NULLPTR else v)"

section \<open>The serializer\<close>

record strbuf =
  sb_data :: bytes
  sb_cap :: nat

text \<open>The loop that doubles the capacity.\<close>

function sb_grow :: "nat \<Rightarrow> nat \<Rightarrow> nat" where
  "sb_grow new_cap need = (if 0 < new_cap \<and> new_cap < need then sb_grow (2 * new_cap) need else new_cap)"
  by auto
termination by (relation "measure (\<lambda>(c, need). need - c)") auto

declare sb_grow.simps [simp del]

definition sb_reserve :: "nat \<Rightarrow> strbuf \<Rightarrow> strbuf" where
  "sb_reserve additional b =
     (if length (sb_data b) + additional + 1 \<le> sb_cap b then b
      else b\<lparr>sb_cap := sb_grow (if sb_cap b = 0 then 64 else sb_cap b) (length (sb_data b) + additional + 1)\<rparr>)"

text \<open>Copying and terminating the string is a fault when the buffer has no room for it.\<close>

definition sb_append :: "bytes \<Rightarrow> strbuf \<Rightarrow> strbuf outcome" where
  "sb_append s b =
     (let b1 = sb_reserve (length s) b
      in if sb_cap b1 < length (sb_data b1) + length s + 1 then Fault
         else Done (b1\<lparr>sb_data := sb_data b1 @ s\<rparr>))"

definition sb_append_cstr :: "bytes \<Rightarrow> strbuf \<Rightarrow> strbuf outcome" where
  "sb_append_cstr s b = sb_append (c_str s) b"

text \<open>\<open>snprintf\<close> into a buffer of \<open>n\<close> bytes\<close>

definition snprintf :: "nat \<Rightarrow> bytes \<Rightarrow> bytes" where
  "snprintf n s = take (n - 1) s"

definition hex_char :: "nat \<Rightarrow> byte" where
  "hex_char d = (if d < 10 then 48 + of_nat d else 87 + of_nat d)"

text \<open>\<open>\u%04x\<close> of a byte\<close>

definition fmt_u04x :: "byte \<Rightarrow> bytes" where
  "fmt_u04x b = [92, 117, 48, 48, hex_char (unat b div 16), hex_char (unat b mod 16)]"

definition escaped :: "byte \<Rightarrow> bytes" where
  "escaped p =
     (if p = 34 then [92, 34] else if p = 92 then [92, 92] else if p = 10 then [92, 110]
      else if p = 13 then [92, 114] else if p = 9 then [92, 116]
      else if p < 0x20 then snprintf 8 (fmt_u04x p) else [p])"

fun escape_loop :: "bytes \<Rightarrow> strbuf \<Rightarrow> strbuf outcome" where
  "escape_loop [] b = Done b"
| "escape_loop (p # s) b = (if p = 0 then Done b else bind_outcome (sb_append (escaped p) b) (escape_loop s))"

definition sb_append_escaped_string :: "bytes \<Rightarrow> strbuf \<Rightarrow> strbuf outcome" where
  "sb_append_escaped_string s b =
     bind_outcome (sb_append_cstr [34] b) (\<lambda>b1. bind_outcome (escape_loop s b1) (sb_append_cstr [34]))"

text \<open>
  The text of a number. Converting a double to \<open>long long\<close> is undefined when its integral part is out
  of range.
\<close>

definition number_text :: "double \<Rightarrow> bytes outcome" where
  "number_text d =
     (case d of
        Infinite _ \<Rightarrow> Fault
      | Finite q \<Rightarrow>
          let i = (if 0 \<le> q then \<lfloor>q\<rfloor> else \<lceil>q\<rceil>)
          in if i < - (2 ^ 63) \<or> 2 ^ 63 \<le> i then Fault
             else Done (snprintf 64 (if d = round_double (of_int i) then fmt_lld i else fmt_g17 q)))"

text \<open>The separators are written before every element but the first.\<close>

fun serialize_value :: "bm_json_value \<Rightarrow> strbuf \<Rightarrow> strbuf outcome"
  and serialize_items :: "bool \<Rightarrow> bm_json_value list \<Rightarrow> strbuf \<Rightarrow> strbuf outcome"
  and serialize_pairs :: "bool \<Rightarrow> (bytes \<times> bm_json_value) list \<Rightarrow> strbuf \<Rightarrow> strbuf outcome" where
  "serialize_value JSON_NULLPTR b = sb_append_cstr (lit ''null'') b"
| "serialize_value BM_JSON_NULL b = sb_append_cstr (lit ''null'') b"
| "serialize_value (BM_JSON_BOOL x) b = sb_append_cstr (if x then lit ''true'' else lit ''false'') b"
| "serialize_value (BM_JSON_NUMBER d) b = bind_outcome (number_text d) (\<lambda>s. sb_append_cstr s b)"
| "serialize_value (BM_JSON_STRING s) b = sb_append_escaped_string s b"
| "serialize_value (BM_JSON_ARRAY items) b =
     bind_outcome (sb_append_cstr [91] b) (\<lambda>b1. bind_outcome (serialize_items True items b1) (sb_append_cstr [93]))"
| "serialize_value (BM_JSON_OBJECT pairs) b =
     bind_outcome (sb_append_cstr [123] b) (\<lambda>b1. bind_outcome (serialize_pairs True pairs b1) (sb_append_cstr [125]))"
| "serialize_items first [] b = Done b"
| "serialize_items first (v # vs) b =
     bind_outcome (if first then Done b else sb_append_cstr [44] b) (\<lambda>b1.
     bind_outcome (serialize_value v b1) (serialize_items False vs))"
| "serialize_pairs first [] b = Done b"
| "serialize_pairs first ((k, v) # kvs) b =
     bind_outcome (if first then Done b else sb_append_cstr [44] b) (\<lambda>b1.
     bind_outcome (sb_append_escaped_string k b1) (\<lambda>b2.
     bind_outcome (sb_append_cstr [58] b2) (\<lambda>b3.
     bind_outcome (serialize_value v b3) (serialize_pairs False kvs))))"

definition bm_json_serialize :: "bm_json_value \<Rightarrow> bytes outcome" where
  "bm_json_serialize v =
     bind_outcome (serialize_value v \<lparr>sb_data = [], sb_cap = 0\<rparr>) (\<lambda>b. Done (sb_data b))"

section \<open>Lemmas: the text of a value\<close>

text \<open>The text that the serializer writes, without its buffer.\<close>

definition string_text :: "bytes \<Rightarrow> bytes" where
  "string_text s = 34 # concat (map escaped s) @ [34]"

fun json_text :: "bm_json_value \<Rightarrow> bytes"
  and items_text :: "bool \<Rightarrow> bm_json_value list \<Rightarrow> bytes"
  and pairs_text :: "bool \<Rightarrow> (bytes \<times> bm_json_value) list \<Rightarrow> bytes" where
  "json_text JSON_NULLPTR = lit ''null''"
| "json_text BM_JSON_NULL = lit ''null''"
| "json_text (BM_JSON_BOOL x) = (if x then lit ''true'' else lit ''false'')"
| "json_text (BM_JSON_NUMBER d) = (case number_text d of Done s \<Rightarrow> c_str s | Fault \<Rightarrow> [])"
| "json_text (BM_JSON_STRING s) = string_text (c_str s)"
| "json_text (BM_JSON_ARRAY items) = 91 # items_text True items @ [93]"
| "json_text (BM_JSON_OBJECT pairs) = 123 # pairs_text True pairs @ [125]"
| "items_text first [] = []"
| "items_text first (v # vs) = (if first then [] else [44]) @ json_text v @ items_text False vs"
| "pairs_text first [] = []"
| "pairs_text first ((k, v) # kvs) =
     (if first then [] else [44]) @ string_text (c_str k) @ 58 # json_text v @ pairs_text False kvs"

text \<open>The values that the round trip is about.\<close>

fun number_ok :: "double \<Rightarrow> bool" where
  "number_ok (Infinite _) = False"
| "number_ok (Finite q) = (is_double q \<and> - (2 ^ 63) \<le> q \<and> q < 2 ^ 63)"

fun json_ok :: "bm_json_value \<Rightarrow> bool"
  and items_ok :: "bm_json_value list \<Rightarrow> bool"
  and pairs_ok :: "(bytes \<times> bm_json_value) list \<Rightarrow> bool" where
  "json_ok JSON_NULLPTR = False"
| "json_ok BM_JSON_NULL = True"
| "json_ok (BM_JSON_BOOL x) = True"
| "json_ok (BM_JSON_NUMBER d) = number_ok d"
| "json_ok (BM_JSON_STRING s) = (0 \<notin> set s)"
| "json_ok (BM_JSON_ARRAY items) = items_ok items"
| "json_ok (BM_JSON_OBJECT pairs) = pairs_ok pairs"
| "items_ok [] = True"
| "items_ok (v # vs) = (json_ok v \<and> items_ok vs)"
| "pairs_ok [] = True"
| "pairs_ok ((k, v) # kvs) = (0 \<notin> set k \<and> json_ok v \<and> pairs_ok kvs)"

lemma sb_grow_enough: "0 < c \<Longrightarrow> need \<le> sb_grow c need"
proof (induction c need rule: sb_grow.induct)
  case (1 c need)
  then show ?case by (subst sb_grow.simps) auto
qed

lemma sb_append_Done: "\<exists>b'. sb_append s b = Done b' \<and> sb_data b' = sb_data b @ s"
  using sb_grow_enough [of "if sb_cap b = 0 then 64 else sb_cap b" "length (sb_data b) + length s + 1"]
  by (auto simp: sb_append_def sb_reserve_def Let_def)

lemma sb_append_cstr_Done: "\<exists>b'. sb_append_cstr s b = Done b' \<and> sb_data b' = sb_data b @ c_str s"
  unfolding sb_append_cstr_def by (rule sb_append_Done)

lemma escape_loop_Done: "\<exists>b'. escape_loop s b = Done b' \<and> sb_data b' = sb_data b @ concat (map escaped (c_str s))"
proof (induction s arbitrary: b)
  case (Cons p s)
  obtain b1 where b1: "sb_append (escaped p) b = Done b1" "sb_data b1 = sb_data b @ escaped p" using sb_append_Done by blast
  from Cons.IH [of b1] b1 show ?case by (auto simp: c_str_def)
qed (simp add: c_str_def)

lemma c_str_simps [simp]: "c_str [] = []" "c_str (p # s) = (if p = 0 then [] else p # c_str s)"
  by (simp_all add: c_str_def)

lemma append_escaped_Done: "\<exists>b'. sb_append_escaped_string s b = Done b' \<and> sb_data b' = sb_data b @ string_text (c_str s)"
proof -
  obtain b1 where b1: "sb_append_cstr [34] b = Done b1" "sb_data b1 = sb_data b @ [34]" using sb_append_cstr_Done [of "[34]" b] by auto
  obtain b2 where b2: "escape_loop s b1 = Done b2" "sb_data b2 = sb_data b1 @ concat (map escaped (c_str s))"
    using escape_loop_Done by blast
  obtain b3 where b3: "sb_append_cstr [34] b2 = Done b3" "sb_data b3 = sb_data b2 @ [34]" using sb_append_cstr_Done [of "[34]" b2] by auto
  show ?thesis using b1 b2 b3 by (simp add: sb_append_escaped_string_def string_text_def)
qed

lemma separator_Done:
  "\<exists>b1. (if first then Done b else sb_append_cstr [44] b) = Done b1 \<and> sb_data b1 = sb_data b @ (if first then [] else [44])"
  using sb_append_cstr_Done [of "[44]" b] by simp

lemma serialize_Done:
  "json_ok v \<Longrightarrow> \<exists>b'. serialize_value v b = Done b' \<and> sb_data b' = sb_data b @ json_text v"
  "items_ok vs \<Longrightarrow> \<exists>b'. serialize_items first vs b = Done b' \<and> sb_data b' = sb_data b @ items_text first vs"
  "pairs_ok kvs \<Longrightarrow> \<exists>b'. serialize_pairs first kvs b = Done b' \<and> sb_data b' = sb_data b @ pairs_text first kvs"
proof (induction v b and first vs b and first kvs b rule: serialize_value_serialize_items_serialize_pairs.induct)
  case (2 b)
  then show ?case using sb_append_cstr_Done [of "lit ''null''" b] by simp
next
  case (3 x b)
  then show ?case using sb_append_cstr_Done [of "lit ''true''" b] sb_append_cstr_Done [of "lit ''false''" b] by simp
next
  case (4 d b)
  then obtain q where q: "d = Finite q" "- (2 ^ 63) \<le> q" "q < 2 ^ 63" by (cases d) auto
  define i where "i = (if 0 \<le> q then \<lfloor>q\<rfloor> else \<lceil>q\<rceil>)"
  have "\<not> (i < - (2 ^ 63) \<or> 2 ^ 63 \<le> i)"
    using q(2,3) by (auto simp: i_def less_ceiling_iff ceiling_less_iff floor_less_iff le_floor_iff not_le)
  then obtain s where s: "number_text d = Done s" using q(1) by (simp add: number_text_def Let_def i_def)
  then show ?case using sb_append_cstr_Done [of s b] by simp
next
  case (5 s b)
  then show ?case using append_escaped_Done [of s b] by simp
next
  case (6 items b)
  obtain b1 where b1: "sb_append_cstr [91] b = Done b1" "sb_data b1 = sb_data b @ [91]" using sb_append_cstr_Done [of "[91]" b] by auto
  obtain b2 where b2: "serialize_items True items b1 = Done b2" "sb_data b2 = sb_data b1 @ items_text True items"
    using 6(1) [of b1] 6(2) by auto
  then show ?case using b1 sb_append_cstr_Done [of "[93]" b2] by auto
next
  case (7 pairs b)
  obtain b1 where b1: "sb_append_cstr [123] b = Done b1" "sb_data b1 = sb_data b @ [123]" using sb_append_cstr_Done [of "[123]" b] by auto
  obtain b2 where b2: "serialize_pairs True pairs b1 = Done b2" "sb_data b2 = sb_data b1 @ pairs_text True pairs"
    using 7(1) [of b1] 7(2) by auto
  then show ?case using b1 sb_append_cstr_Done [of "[125]" b2] by auto
next
  case (9 first v vs b)
  obtain b1 where b1: "(if first then Done b else sb_append_cstr [44] b) = Done b1" "sb_data b1 = sb_data b @ (if first then [] else [44])"
    using separator_Done [of first b] by blast
  obtain b2 where b2: "serialize_value v b1 = Done b2" "sb_data b2 = sb_data b1 @ json_text v" using 9(1) [of b1] 9(3) by auto
  then show ?case using b1 9(2) [of b2] 9(3) by auto
next
  case (11 first k v kvs b)
  obtain b1 where b1: "(if first then Done b else sb_append_cstr [44] b) = Done b1" "sb_data b1 = sb_data b @ (if first then [] else [44])"
    using separator_Done [of first b] by blast
  obtain b2 where b2: "sb_append_escaped_string k b1 = Done b2" "sb_data b2 = sb_data b1 @ string_text (c_str k)"
    using append_escaped_Done by blast
  obtain b3 where b3: "sb_append_cstr [58] b2 = Done b3" "sb_data b3 = sb_data b2 @ [58]" using sb_append_cstr_Done [of "[58]" b2] by auto
  obtain b4 where b4: "serialize_value v b3 = Done b4" "sb_data b4 = sb_data b3 @ json_text v" using 11(1) [of b3] 11(3) by auto
  then show ?case using b1 b2 b3 11(2) [of b4] 11(3) by auto
qed simp_all

section \<open>Lemmas: reading the text back\<close>

lemma hex_u04x: "n < 32 \<Longrightarrow> hex_loop 0 (tl (tl (fmt_u04x (of_nat n)))) = Some (of_nat n)"
proof -
  assume "n < 32"
  then have "n \<in> set [0..<32]" by simp
  moreover have "\<forall>n\<in>set [0..<32]. hex_loop 0 (tl (tl (fmt_u04x (of_nat n)))) = Some (of_nat n)" by code_simp
  ultimately show ?thesis by blast
qed

lemma append_utf8_ascii: "b < 0x80 \<Longrightarrow> append_utf8 (ucast b) = [b]"
proof -
  assume "b < 0x80"
  then have "(ucast b :: u32) < 0x80" by (simp add: word_less_nat_alt)
  moreover have "ucast (ucast b :: u32) = b" by (rule bit_word_eqI) (simp add: bit_simps)
  ultimately show ?thesis by (simp add: append_utf8_def)
qed

lemma append_utf8_lits: "append_utf8 34 = [34]" "append_utf8 92 = [92]" "append_utf8 10 = [10]" "append_utf8 13 = [13]"
  "append_utf8 9 = [9]"
  by (simp_all add: append_utf8_def)

lemma of_nat_unat_u32: "(of_nat (unat p) :: u32) = ucast (p :: byte)"
proof -
  have "unat p < 2 ^ LENGTH(32)" by (rule order_less_trans [OF unat_lt_256]) simp
  then show ?thesis by (simp add: word_unat_eq_iff unat_of_nat_lt)
qed

lemma string_loop_escaped1: "p \<noteq> 0 \<Longrightarrow> string_loop out (escaped p @ t) = string_loop (out @ [p]) t"
proof (cases "p < 0x20 \<and> p \<noteq> 10 \<and> p \<noteq> 13 \<and> p \<noteq> 9")
  case True
  let ?h = "tl (tl (fmt_u04x p))"
  have p: "p = of_nat (unat p)" "unat p < 32" using True by (simp_all add: word_less_nat_alt)
  have h: "hex_loop 0 ?h = Some (ucast p)" using hex_u04x [OF p(2)] of_nat_unat_u32 [of p] by simp
  have "p < 0x80" using True by (simp add: word_less_nat_alt)
  then have u: "append_utf8 (ucast p) = [p]" by (rule append_utf8_ascii)
  have "p \<noteq> 34 \<and> p \<noteq> 92" using True by auto
  then have e: "escaped p @ t = 92 # 117 # ?h @ t" using True by (simp add: escaped_def fmt_u04x_def snprintf_def)
  have "take 4 (?h @ t) = ?h" "drop 4 (?h @ t) = t" "\<not> length (?h @ t) < 4" by (simp_all add: fmt_u04x_def)
  then show ?thesis unfolding e by (simp add: escape_char_def h u)
next
  case False
  then show ?thesis by (auto simp: escaped_def escape_char_def append_utf8_ascii append_utf8_lits)
qed

lemma string_loop_escaped:
  "0 \<notin> set s \<Longrightarrow> string_loop out (concat (map escaped s) @ 34 # r) = Some (out @ s, r)"
  by (induction s arbitrary: out) (auto simp: string_loop_escaped1)

lemma parse_string_raw_text: "0 \<notin> set s \<Longrightarrow> parse_string_raw (string_text s @ r) = Some (s, r)"
  by (simp add: parse_string_raw_def string_text_def string_loop_escaped c_str_id)

text \<open>Numbers: the text fits the buffer of 64 bytes and is scanned whole.\<close>

lemma dec_length_le: "n < 10 ^ Suc k \<Longrightarrow> length (dec n) \<le> Suc k"
proof (induction k arbitrary: n)
  case 0
  then show ?case by (subst dec.simps) simp
next
  case (Suc k)
  then have "length (dec (n div 10)) \<le> Suc k" by (intro Suc.IH) (simp add: less_mult_imp_div_less mult.commute)
  then show ?case by (subst dec.simps) simp
qed

lemma point_text_length: "length (point_text i f) \<le> length i + length f + 1"
proof -
  obtain k where "f = strip_zeros f @ replicate k 48" by (rule strip_zeros_split)
  then have "length f = length (strip_zeros f) + k" by (metis length_append length_replicate)
  then show ?thesis by (simp add: point_text_def Let_def)
qed

lemma sig_exponent_range:
  assumes "is_double q" "0 < q" "q \<le> 2 ^ 63" "sig_digits q = (n, x)"
  shows "- 325 < x" "x < 20"
proof -
  define x0 where "x0 = ilog 10 q"
  obtain m where m: "q = of_int m * 2 powi ulp_exp q" by (rule is_double_grid [OF assms(1,2)])
  have "0 < of_int m * (2 powi ulp_exp q :: rat)" using assms(2) by (subst m [symmetric])
  moreover have "0 < (2 powi ulp_exp q :: rat)" by simp
  ultimately have "0 < (of_int m :: rat)" by (rule zero_less_mult_pos2)
  then have "0 < m" by simp
  then have "(1 :: rat) \<le> of_int m" by simp
  moreover have "(2 powi (- 1074) :: rat) \<le> 2 powi ulp_exp q" by (rule power_int_increasing) (simp_all add: ulp_exp_def)
  ultimately have "1 * 2 powi (- 1074) \<le> of_int m * (2 powi ulp_exp q :: rat)" by (intro mult_mono) simp_all
  then have "2 powi (- 1074) \<le> q" using m by linarith
  moreover have "(10 powi (- 324) :: rat) \<le> 2 powi (- 1074)" by (simp add: power_int_minus)
  ultimately have lo: "10 powi (- 324) \<le> q" by linarith
  have b: "10 powi x0 \<le> q" "q < 10 powi (x0 + 1)" using ilog_bounds [of 10 q] assms(2) by (simp_all add: x0_def)
  have "(10 powi (- 324) :: rat) < 10 powi (x0 + 1)" using lo b(2) by linarith
  then have x1: "- 324 < x0 + 1" using power_int_increasing [of "x0 + 1" "- 324" "10 :: rat"] by fastforce
  have "(10 powi x0 :: rat) < 10 powi 19" using b(1) assms(3) by simp
  then have x2: "x0 < 19" using power_int_increasing [of 19 x0 "10 :: rat"] by fastforce
  have "x = x0 \<or> x = x0 + 1" using assms(4) by (auto simp: sig_digits_def Let_def x0_def split: if_splits)
  then show "- 325 < x" "x < 20" using x1 x2 by auto
qed

lemma exp_text_length: "\<bar>x\<bar> < 1000 \<Longrightarrow> length (exp_text x) \<le> 5"
  using dec_length_le [of "nat \<bar>x\<bar>" 2] by (simp add: exp_text_def Let_def)

lemma fmt_g17_length:
  assumes "is_double q" "q \<noteq> 0" "\<bar>q\<bar> \<le> 2 ^ 63"
  shows "length (fmt_g17 q) \<le> 63"
proof -
  obtain n x where nx: "sig_digits \<bar>q\<bar> = (n, x)" by (cases "sig_digits \<bar>q\<bar>")
  have d: "is_double \<bar>q\<bar>" "0 < \<bar>q\<bar>" using assms(1,2) by (auto simp: abs_if is_double_uminus)
  have len: "length (dec n) = 17" by (rule sig_digits_near(1) [OF d(2) nx])
  have x: "\<bar>x\<bar> < 1000" using sig_exponent_range [OF d assms(3) nx] by simp
  have p: "length (point_text (take k (dec n)) (drop k (dec n))) \<le> 18" for k
    using point_text_length [of "take k (dec n)" "drop k (dec n)"] len by simp
  have z: "- 4 \<le> x \<Longrightarrow> length (point_text [48] (replicate (nat (- x - 1)) 48 @ dec n)) \<le> 22"
    using point_text_length [of "[48]" "replicate (nat (- x - 1)) 48 @ dec n"] len by simp
  show ?thesis
    unfolding fmt_g17_def nx Let_def split
    using p [of "nat x + 1"] p [of 1] z exp_text_length [OF x] by (auto split: if_splits)
qed

lemma fmt_lld_length: "\<bar>i\<bar> \<le> 2 ^ 63 \<Longrightarrow> length (fmt_lld i) \<le> 63"
proof -
  assume "\<bar>i\<bar> \<le> 2 ^ 63"
  then have "nat \<bar>i\<bar> < 10 ^ Suc 19" by simp
  from dec_length_le [OF this] show ?thesis by (auto simp: fmt_lld_def abs_if split: if_splits)
qed

lemma digits_no_zero: "\<forall>d\<in>set ds. is_digit d \<Longrightarrow> 0 \<notin> set ds"
  by (auto dest: bspec)

lemma num_text_no_zero: "num_shape i f ex \<Longrightarrow> 0 \<notin> set (num_text neg i f ex)"
  by (auto simp: num_text_def num_shape_def exp_shape_def dest!: digits_no_zero)

lemma num_text_c_str: "num_shape i f ex \<Longrightarrow> c_str (num_text neg i f ex) = num_text neg i f ex"
  by (rule c_str_id) (rule num_text_no_zero)

lemma number_text_ok:
  assumes "number_ok d"
  shows "\<exists>neg i f ex. number_text d = Done (num_text neg i f ex) \<and> num_shape i f ex \<and> strtod (num_text neg i f ex) = d"
proof -
  obtain q where q: "d = Finite q" "is_double q" "- (2 ^ 63) \<le> q" "q < 2 ^ 63" using assms by (cases d) auto
  define z where "z = (if 0 \<le> q then \<lfloor>q\<rfloor> else \<lceil>q\<rceil>)"
  have z: "- (2 ^ 63) \<le> z" "z < 2 ^ 63"
    using q(3,4) by (auto simp: z_def less_ceiling_iff le_ceiling_iff ceiling_less_iff floor_less_iff le_floor_iff not_le)
  have eq: "number_text d = Done (snprintf 64 (if d = round_double (of_int z) then fmt_lld z else fmt_g17 q))"
    using z q(1) by (simp add: number_text_def Let_def z_def)
  show ?thesis
  proof (cases "d = round_double (of_int z)")
    case True
    have t: "fmt_lld z = num_text (z < 0) (dec (nat \<bar>z\<bar>)) [] []" "num_shape (dec (nat \<bar>z\<bar>)) [] []"
      "strtod (fmt_lld z) = round_double (of_int z)" by (rule fmt_lld_text)+
    have "length (fmt_lld z) \<le> 63" using z by (intro fmt_lld_length) simp
    then have "number_text d = Done (fmt_lld z)" using eq True by (simp add: snprintf_def)
    then show ?thesis using t True by metis
  next
    case False
    then have q0: "q \<noteq> 0" using q(1) by (auto simp: z_def round_double_def)
    have "length (fmt_g17 q) \<le> 63" using q q0 by (intro fmt_g17_length) auto
    then have "number_text d = Done (fmt_g17 q)" using eq False by (simp add: snprintf_def)
    then show ?thesis using strtod_fmt_g17 [OF q(2) q0] q(1) by metis
  qed
qed

lemma some_digits_span:
  assumes "ds \<noteq> []" "\<forall>d\<in>set ds. is_digit d" "s = [] \<or> \<not> is_digit (hd s)"
  shows "some_digits (ds @ s) = Some s"
proof -
  obtain d ds' where ds: "ds = d # ds'" using assms(1) by (cases ds) auto
  show ?thesis using assms(2) span_digits(2) [OF assms(2,3)] ds by (simp add: some_digits_def)
qed

text \<open>What follows a number in a text of the serializer does not continue it.\<close>

definition num_end :: "bytes \<Rightarrow> bool" where
  "num_end s \<longleftrightarrow> s = [] \<or> (\<not> is_digit (hd s) \<and> hd s \<noteq> 46 \<and> hd s \<noteq> 101 \<and> hd s \<noteq> 69)"

lemma exp_scan:
  assumes "ex = [] \<or> exp_shape ex" "num_end s"
  shows "(if ex @ s \<noteq> [] \<and> (hd (ex @ s) = 101 \<or> hd (ex @ s) = 69)
      then some_digits (if tl (ex @ s) \<noteq> [] \<and> (hd (tl (ex @ s)) = 43 \<or> hd (tl (ex @ s)) = 45)
        then tl (tl (ex @ s)) else tl (ex @ s))
      else Some (ex @ s)) = Some s"
proof (cases "ex = []")
  case True
  then show ?thesis using assms(2) by (auto simp: num_end_def)
next
  case False
  then obtain g ds where "ex = 101 # g # ds" "g = 43 \<or> g = 45" "ds \<noteq> []" "\<forall>d\<in>set ds. is_digit d"
    using assms(1) by (auto simp: exp_shape_def)
  then show ?thesis using some_digits_span [of ds s] assms(2) by (auto simp: num_end_def)
qed

lemma parse_number_text:
  assumes "num_shape i f ex" "num_end s"
  shows "parse_number (num_text neg i f ex @ s) = Some (BM_JSON_NUMBER (strtod (num_text neg i f ex)), s)"
proof -
  let ?p = "if f = [] then [] else 46 # f" and ?t = "num_text neg i f ex"
  have i: "i \<noteq> []" "\<forall>d\<in>set i. is_digit d" and f: "\<forall>d\<in>set f. is_digit d" and ex: "ex = [] \<or> exp_shape ex"
    using assms(1) by (simp_all add: num_shape_def)
  have e1: "ex @ s = [] \<or> \<not> is_digit (hd (ex @ s))" and e2: "ex @ s = [] \<or> hd (ex @ s) \<noteq> 46"
    using ex assms(2) by (auto simp: num_end_def exp_shape_def)
  have p1: "?p @ ex @ s = [] \<or> \<not> is_digit (hd (?p @ ex @ s))" using e1 by simp
  have m: "(if ?t @ s \<noteq> [] \<and> hd (?t @ s) = 45 then tl (?t @ s) else ?t @ s) = i @ ?p @ ex @ s"
    using i by (cases i) (auto simp: num_text_def)
  have d1: "some_digits (i @ ?p @ ex @ s) = Some (?p @ ex @ s)" by (rule some_digits_span [OF i p1])
  have d2: "(if ?p @ ex @ s \<noteq> [] \<and> hd (?p @ ex @ s) = 46 then some_digits (tl (?p @ ex @ s)) else Some (?p @ ex @ s)) = Some (ex @ s)"
    using some_digits_span [OF _ f e1] e2 by (cases "f = []") auto
  show ?thesis unfolding parse_number_def m d1 option.case d2 exp_scan [OF ex assms(2)] by simp
qed

lemma skip_ws_id: "c \<noteq> 32 \<Longrightarrow> c \<noteq> 9 \<Longrightarrow> c \<noteq> 10 \<Longrightarrow> c \<noteq> 13 \<Longrightarrow> skip_ws (c # s) = c # s"
  by (simp add: skip_ws_def)

lemma skip_ws_Nil [simp]: "skip_ws [] = []"
  by (simp add: skip_ws_def)

lemma num_text_head:
  assumes "num_shape i f ex"
  obtains c t where "num_text neg i f ex = c # t" "c = 45 \<or> is_digit c"
  using assms by (cases neg; cases i) (auto simp: num_shape_def num_text_def)

lemma number_head: "c = 45 \<or> is_digit c \<Longrightarrow>
    c \<noteq> 32 \<and> c \<noteq> 9 \<and> c \<noteq> 10 \<and> c \<noteq> 13 \<and> c \<noteq> 34 \<and> c \<noteq> 91 \<and> c \<noteq> 93 \<and> c \<noteq> 123 \<and> c \<noteq> 125 \<and> c \<noteq> 116 \<and> c \<noteq> 102 \<and> c \<noteq> 110"
  by auto

text \<open>The first character of a value is no white space and closes no array or object.\<close>

lemma json_text_head:
  assumes "json_ok v"
  obtains c t where "json_text v = c # t" "c \<noteq> 32" "c \<noteq> 9" "c \<noteq> 10" "c \<noteq> 13" "c \<noteq> 93"
proof (cases v)
  case (BM_JSON_NUMBER d)
  have "number_ok d" using assms BM_JSON_NUMBER by simp
  then obtain neg i f ex where t: "number_text d = Done (num_text neg i f ex)" "num_shape i f ex"
    using number_text_ok by blast
  obtain c u where "num_text neg i f ex = c # u" "c = 45 \<or> is_digit c" by (rule num_text_head [OF t(2)])
  then show thesis using that [of c u] number_head [of c] t BM_JSON_NUMBER num_text_c_str [OF t(2), of neg] by simp
next
  case (BM_JSON_BOOL x)
  then show thesis using that by (cases x) auto
qed (use assms that in \<open>auto simp: string_text_def\<close>)

lemma skip_ws_json_text: "json_ok v \<Longrightarrow> skip_ws (json_text v @ s) = json_text v @ s"
  by (elim json_text_head) (simp add: skip_ws_id)

lemma items_text_sep: "vs \<noteq> [] \<Longrightarrow> items_text False vs = 44 # items_text True vs"
  by (cases vs) simp_all

lemma pairs_text_sep: "kvs \<noteq> [] \<Longrightarrow> pairs_text False kvs = 44 # pairs_text True kvs"
  by (cases kvs) auto

lemma num_end_sep [simp]: "num_end (44 # s)" "num_end (93 # s)" "num_end (125 # s)" "num_end []"
  by (simp_all add: num_end_def)

lemma parse_text:
  "json_ok v \<Longrightarrow> (\<And>s. num_end s \<Longrightarrow> parse_value (json_text v @ s) = Some (v, s))"
  "items_ok vs \<Longrightarrow> (\<And>acc s. vs \<noteq> [] \<Longrightarrow>
    array_loop (BM_JSON_ARRAY acc) (items_text True vs @ 93 # s) = Some (BM_JSON_ARRAY (acc @ vs), s))"
  "pairs_ok kvs \<Longrightarrow> (\<And>acc s. kvs \<noteq> [] \<Longrightarrow>
    object_loop (BM_JSON_OBJECT acc) (pairs_text True kvs @ 125 # s) = Some (BM_JSON_OBJECT (acc @ kvs), s))"
proof (induction v and vs and kvs rule: json_ok_items_ok_pairs_ok.induct)
  case 2
  then show ?case by (subst parse_value.simps) (simp add: skip_ws_id match_literal_def)
next
  case (3 x)
  then show ?case by (subst parse_value.simps) (simp add: skip_ws_id match_literal_def)
next
  case (4 d)
  have "number_ok d" using 4 by simp
  then obtain neg i f ex where t: "number_text d = Done (num_text neg i f ex)" "num_shape i f ex" "strtod (num_text neg i f ex) = d"
    using number_text_ok by blast
  obtain c u where c: "num_text neg i f ex = c # u" "c = 45 \<or> is_digit c" by (rule num_text_head [OF t(2)])
  note p = parse_number_text [OF t(2) 4(2), of neg, unfolded t(3)]
  have "parse_value (num_text neg i f ex @ s) = parse_number (num_text neg i f ex @ s)"
    unfolding c(1) using number_head [OF c(2)] by (subst parse_value.simps) (simp add: skip_ws_id)
  then show ?case using p t(1) num_text_c_str [OF t(2), of neg] by simp
next
  case (5 str)
  then show ?case
    using parse_string_raw_text [of str s]
    by (subst parse_value.simps) (simp add: skip_ws_id c_str_id parse_string_def string_text_def)
next
  case (6 items)
  show ?case
  proof (cases items)
    case Nil
    then show ?thesis by (subst parse_value.simps) (simp add: skip_ws_id)
  next
    case (Cons v vs)
    have "json_ok v" using 6(2) Cons by simp
    then obtain c t where c: "json_text v = c # t" "c \<noteq> 32" "c \<noteq> 9" "c \<noteq> 10" "c \<noteq> 13" "c \<noteq> 93" by (rule json_text_head)
    have "parse_value (json_text (BM_JSON_ARRAY items) @ s) = array_loop (BM_JSON_ARRAY []) (items_text True items @ 93 # s)"
      using c unfolding Cons by (subst parse_value.simps) (simp add: skip_ws_id)
    then show ?thesis using 6(1) [of "[]" s] 6(2) Cons by simp
  qed
next
  case (7 pairs)
  show ?case
  proof (cases pairs)
    case Nil
    then show ?thesis by (subst parse_value.simps) (simp add: skip_ws_id)
  next
    case (Cons kv kvs)
    have "parse_value (json_text (BM_JSON_OBJECT pairs) @ s) = object_loop (BM_JSON_OBJECT []) (pairs_text True pairs @ 125 # s)"
      unfolding Cons by (subst parse_value.simps) (cases kv, simp add: skip_ws_id string_text_def)
    then show ?thesis using 7(1) [of "[]" s] 7(2) Cons by simp
  qed
next
  case (9 v vs)
  let ?r = "items_text False vs @ 93 # s"
  have v: "json_ok v" "items_ok vs" using 9(3) by simp_all
  have "num_end ?r" by (cases "vs = []") (simp_all add: items_text_sep)
  then have pv: "parse_value (json_text v @ ?r) = Some (v, ?r)" using 9(1) v by blast
  show ?case
  proof (cases "vs = []")
    case True
    then show ?thesis using pv v by (subst array_loop.simps) (simp add: skip_ws_json_text skip_ws_id)
  next
    case False
    then have "array_loop (BM_JSON_ARRAY acc) (items_text True (v # vs) @ 93 # s) =
        array_loop (BM_JSON_ARRAY (acc @ [v])) (items_text True vs @ 93 # s)"
      using pv v by (subst array_loop.simps) (simp add: skip_ws_json_text skip_ws_id items_text_sep)
    then show ?thesis using 9(2) [OF v(2) False, of "acc @ [v]" s] by simp
  qed
next
  case (11 k v kvs)
  let ?r = "pairs_text False kvs @ 125 # s"
  have v: "0 \<notin> set k" "json_ok v" "pairs_ok kvs" using 11(3) by simp_all
  have "num_end ?r" by (cases "kvs = []") (simp_all add: pairs_text_sep)
  then have pv: "parse_value (json_text v @ ?r) = Some (v, ?r)" using 11(1) v by blast
  have pk: "parse_string_raw (skip_ws (string_text k @ 58 # json_text v @ ?r)) = Some (k, 58 # json_text v @ ?r)"
    using parse_string_raw_text [OF v(1), of "58 # json_text v @ ?r"] by (simp add: string_text_def skip_ws_id)
  have w: "skip_ws (58 # json_text v @ ?r) = 58 # json_text v @ ?r" "skip_ws (json_text v @ ?r) = json_text v @ ?r"
    using skip_ws_json_text [OF v(2)] by (simp_all add: skip_ws_id)
  have eq: "object_loop (BM_JSON_OBJECT acc) (pairs_text True ((k, v) # kvs) @ 125 # s) =
      (case skip_ws ?r of [] \<Rightarrow> None | c2 # u2 \<Rightarrow>
        if c2 = 44 then object_loop (BM_JSON_OBJECT (acc @ [(k, v)])) u2
        else if c2 = 125 then Some (BM_JSON_OBJECT (acc @ [(k, v)]), u2) else None)"
    using pk w pv v(1) by (subst object_loop.simps) (simp add: c_str_id split: list.split)
  show ?case
  proof (cases "kvs = []")
    case True
    then show ?thesis unfolding eq by (simp add: skip_ws_id)
  next
    case False
    then show ?thesis unfolding eq using 11(2) [OF v(3) False, of "acc @ [(k, v)]" s] by (simp add: pairs_text_sep skip_ws_id)
  qed
qed simp_all

section \<open>Properties\<close>

text \<open>
  C31: The parser reads back what the serializer writes. For every value without null pointers whose
  strings and keys hold no zero byte and whose numbers are doubles in the range of \<open>long long\<close>,
  serializing does not leave its buffers or convert a number out of range, and parsing the text gives
  the same value; in particular the seventeen digits of a fraction determine it.
\<close>

theorem json_roundtrip:
  assumes "json_ok v"
  shows "\<exists>text. bm_json_serialize v = Done text \<and> bm_json_parse text = v"
proof -
  obtain b where "serialize_value v \<lparr>sb_data = [], sb_cap = 0\<rparr> = Done b" "sb_data b = json_text v"
    using serialize_Done(1) [OF assms, of "\<lparr>sb_data = [], sb_cap = 0\<rparr>"] by auto
  moreover have "bm_json_parse (json_text v) = v"
    using parse_text(1) [OF assms, of "[]"] by (simp add: bm_json_parse_def)
  ultimately show ?thesis by (simp add: bm_json_serialize_def)
qed

lemma is_double_half: "is_double (1 / 2)"
proof -
  have "ilog 2 (1 / 2) = - 1" by (rule ilog_unique) (simp_all add: power_int_minus)
  then have e: "ulp_exp (1 / 2) = - 53" by (simp add: ulp_exp_def)
  show ?thesis unfolding is_double_def by (rule round_double_grid [of _ _ "2 ^ 52"]) (simp_all add: e power_int_minus)
qed

theorem json_roundtrip_witness:
  "\<exists>text. bm_json_serialize (BM_JSON_OBJECT [(lit ''half'', BM_JSON_NUMBER (Finite (1 / 2))),
      (lit ''list'', BM_JSON_ARRAY [BM_JSON_NULL, BM_JSON_BOOL True, BM_JSON_STRING [1, 34, 200]])]) = Done text \<and>
    bm_json_parse text = BM_JSON_OBJECT [(lit ''half'', BM_JSON_NUMBER (Finite (1 / 2))),
      (lit ''list'', BM_JSON_ARRAY [BM_JSON_NULL, BM_JSON_BOOL True, BM_JSON_STRING [1, 34, 200]])]"
  by (rule json_roundtrip) (simp add: is_double_half)

text \<open>
  A number outside the range of \<open>long long\<close>, such as \<open>1e30\<close>, is accepted by the parser but serializing
  it converts it to \<open>long long\<close>, which is undefined.
\<close>

lemma json_number_out_of_range_faults: "2 ^ 63 \<le> q \<Longrightarrow> bm_json_serialize (BM_JSON_NUMBER (Finite q)) = Fault"
proof -
  assume q: "2 ^ 63 \<le> q"
  then have "of_int (2 ^ 63) \<le> q" by simp
  then have "2 ^ 63 \<le> \<lfloor>q\<rfloor>" by (simp only: le_floor_iff)
  then show ?thesis using q by (simp add: bm_json_serialize_def number_text_def Let_def)
qed

end
