(* ===== verification/Api_Async.thy ===== *)
theory Api_Async
  imports Hashing Double
begin

text \<open>
  Sends of the API that are answered later (\<open>src/core/api_server.c\<close>, from \<open>struct api_send_slot\<close> to
  \<open>finish_async_response\<close>): a send is a slot of the request it came with; the worker of the proof-of-work
  queue reports into the slot, and the connection is suspended until no send of its request is outstanding.

  Slots and requests are objects of a heap, so that a use of freed memory is a \<open>Fault\<close>. JSON values are those
  of cJSON; an object that is written to after it has become part of a response has an address
  (\<open>CJ_At\<close>) and its members are in \<open>am_objects\<close>. Memory for JSON is available. Of libmicrohttpd the model has
  which connections are suspended: to resume one that is not is a \<open>Fault\<close> too.

  The theory shows the invariant \<open>mem_inv\<close> of this memory and that every operation keeps it.
\<close>

section \<open>Values\<close>

datatype cjson =
    CJ_Null
  | CJ_Bool bool
  | CJ_Number double
  | CJ_String bytes
  | CJ_Array "cjson list"
  | CJ_Object "(bytes \<times> cjson) list"
  | CJ_At nat

type_synonym members = "(bytes \<times> cjson) list"

fun json_str :: "bytes option \<Rightarrow> cjson" where
  "json_str (Some s) = CJ_String (c_str s)"
| "json_str None = CJ_String []"

definition json_int :: "int \<Rightarrow> cjson" where
  "json_int i = CJ_Number (round_double (of_int i))"

definition hex_digits :: bytes where "hex_digits = lit ''0123456789abcdef''"

definition hex_encode :: "bytes \<Rightarrow> bytes" where
  "hex_encode data = concat (map (\<lambda>b. [hex_digits ! unat (drop_bit 4 b), hex_digits ! unat (b AND 0x0f)]) data)"

definition fill_send_result :: "nat \<Rightarrow> bytes \<Rightarrow> members \<Rightarrow> members" where
  "fill_send_result object_len inv_hash result =
     result @ [(lit ''objectLength'', json_int (int object_len)), (lit ''inventoryHash'', json_str (Some (hex_encode inv_hash)))]"

text \<open>The first member of that name is taken out.\<close>

fun delete_member :: "bytes \<Rightarrow> members \<Rightarrow> members" where
  "delete_member key [] = []"
| "delete_member key ((k, v) # ms) = (if k = key then ms else (k, v) # delete_member key ms)"

section \<open>Slots and requests\<close>

record api_send_slot =
  sl_state :: "nat option"
  sl_done :: bool
  sl_rc :: int
  sl_object_len :: nat
  sl_inv_hash :: bytes
  sl_placeholder :: "nat option"
  sl_resp :: "nat option"

record api_async_state =
  as_outstanding :: int
  as_suspended :: bool
  as_connection :: nat
  as_slots :: "nat list"
  as_slot_cap :: nat

text \<open>
  \<open>am_broadcast\<close> is what has been put into the queue of objects to send, \<open>None\<close> if the server has none.
  \<open>am_jobs\<close> are the slots whose completion callback is still owed by the send pipeline.
\<close>

record api_mem =
  am_slots :: "nat \<rightharpoonup> api_send_slot"
  am_states :: "nat \<rightharpoonup> api_async_state"
  am_objects :: "members list"
  am_current :: "nat option"
  am_suspended :: int
  am_mhd :: "nat \<Rightarrow> bool"
  am_broadcast :: "bytes list option"
  am_jobs :: "nat list"

definition api_mem_start :: "bytes list option \<Rightarrow> api_mem" where
  "api_mem_start queue = \<lparr>am_slots = Map.empty, am_states = Map.empty, am_objects = [], am_current = None, am_suspended = 0,
     am_mhd = (\<lambda>_. False), am_broadcast = queue, am_jobs = []\<rparr>"

definition fresh_slot :: "nat option \<Rightarrow> api_send_slot" where
  "fresh_slot state = \<lparr>sl_state = state, sl_done = False, sl_rc = 0, sl_object_len = 0, sl_inv_hash = replicate 32 0,
     sl_placeholder = None, sl_resp = None\<rparr>"

definition fresh_state :: api_async_state where
  "fresh_state = \<lparr>as_outstanding = 0, as_suspended = False, as_connection = 0, as_slots = [], as_slot_cap = 0\<rparr>"

fun free_slots :: "nat list \<Rightarrow> (nat \<rightharpoonup> api_send_slot) \<Rightarrow> (nat \<rightharpoonup> api_send_slot) outcome" where
  "free_slots [] h = Done h"
| "free_slots (s # ss) h = (if h s = None then Fault else free_slots ss (h(s := None)))"

definition api_async_state_free :: "nat option \<Rightarrow> api_mem \<Rightarrow> api_mem outcome" where
  "api_async_state_free state m =
     (case state of
        None \<Rightarrow> Done m
      | Some r \<Rightarrow>
          (case am_states m r of
             None \<Rightarrow> Fault
           | Some st \<Rightarrow>
               bind_outcome (free_slots (as_slots st) (am_slots m)) (\<lambda>h.
                 Done (m\<lparr>am_slots := h, am_states := (am_states m)(r := None)\<rparr>))))"

text \<open>\<open>item\<close>: the allocation of the queue's item succeeds.\<close>

definition getpubkey_request_done :: "bool \<Rightarrow> bytes option \<Rightarrow> bytes list option \<Rightarrow> bytes list option" where
  "getpubkey_request_done item object broadcast_queue =
     (case object of
        None \<Rightarrow> broadcast_queue
      | Some obj \<Rightarrow> if item then map_option (\<lambda>q. q @ [obj]) broadcast_queue else broadcast_queue)"

definition MHD_resume_connection :: "nat \<Rightarrow> api_mem \<Rightarrow> api_mem outcome" where
  "MHD_resume_connection c m = (if am_mhd m c then Done (m\<lparr>am_mhd := (am_mhd m)(c := False)\<rparr>) else Fault)"

definition MHD_suspend_connection :: "nat \<Rightarrow> api_mem \<Rightarrow> api_mem outcome" where
  "MHD_suspend_connection c m = (if am_mhd m c then Fault else Done (m\<lparr>am_mhd := (am_mhd m)(c := True)\<rparr>))"

text \<open>\<open>garbage\<close>: what the local array holds when no object came.\<close>

definition api_send_done :: "openssl \<Rightarrow> bool \<Rightarrow> bytes \<Rightarrow> nat \<Rightarrow> int \<Rightarrow> bytes option \<Rightarrow> api_mem \<Rightarrow> api_mem outcome" where
  "api_send_done ssl item garbage s rc object m =
     (case (am_slots m s, if rc = 0 then map_option (bm_inventory_hash ssl) object else Some garbage) of
        (Some sl, Some inv_hash) \<Rightarrow>
          let m1 = (if rc = 0 then m\<lparr>am_broadcast := getpubkey_request_done item object (am_broadcast m)\<rparr> else m);
              object_len = (case object of None \<Rightarrow> 0 | Some obj \<Rightarrow> length obj);
              sl1 = sl\<lparr>sl_done := True, sl_rc := rc, sl_object_len := object_len\<rparr>
          in (case sl_state sl of
                None \<Rightarrow> Done (m1\<lparr>am_slots := (am_slots m1)(s \<mapsto> sl1\<lparr>sl_inv_hash := inv_hash\<rparr>)\<rparr>)
              | Some r \<Rightarrow>
                  (case am_states m1 r of
                     None \<Rightarrow> Fault
                   | Some st \<Rightarrow>
                       let st1 = st\<lparr>as_outstanding := as_outstanding st - 1\<rparr>;
                           m2 = m1\<lparr>am_slots := (am_slots m1)(s \<mapsto> (if rc = 0 then sl1\<lparr>sl_inv_hash := inv_hash\<rparr> else sl1)),
                              am_states := (am_states m1)(r \<mapsto> st1)\<rparr>
                       in if as_outstanding st1 = 0 \<and> as_suspended st1 then MHD_resume_connection (as_connection st1) m2 else Done m2))
      | _ \<Rightarrow> Fault)"

text \<open>\<open>a\<close>: the address of the new slot; \<open>grow\<close>: the array of slots can be enlarged.\<close>

definition send_slot_begin :: "nat option \<Rightarrow> bool \<Rightarrow> api_mem \<Rightarrow> (nat option \<times> api_mem) outcome" where
  "send_slot_begin a grow m =
     (case a of
        None \<Rightarrow> Done (None, m)
      | Some s \<Rightarrow>
          let m1 = m\<lparr>am_slots := (am_slots m)(s \<mapsto> fresh_slot (am_current m))\<rparr>
          in (case am_current m of
                None \<Rightarrow> Done (Some s, m1)
              | Some r \<Rightarrow>
                  (case am_states m r of
                     None \<Rightarrow> Fault
                   | Some st \<Rightarrow>
                       if length (as_slots st) = as_slot_cap st \<and> \<not> grow then Done (None, m)
                       else
                         let cap = (if length (as_slots st) = as_slot_cap st then if as_slot_cap st = 0 then 4 else as_slot_cap st * 2
                                    else as_slot_cap st)
                         in Done (Some s, m1\<lparr>am_states := (am_states m)
                              (r \<mapsto> st\<lparr>as_slot_cap := cap, as_outstanding := as_outstanding st + 1\<rparr>)\<rparr>))))"

definition BM_API_SEND_FAILED_AFTER_QUEUED :: bytes where
  "BM_API_SEND_FAILED_AFTER_QUEUED = lit ''send failed after its PoW was queued (is the daemon shutting down?)''"

text \<open>\<open>mem\<close>: the container of the result is allocated. The result is the value and the error message.\<close>

definition send_slot_end :: "bool \<Rightarrow> nat \<Rightarrow> int \<Rightarrow> bytes \<Rightarrow> api_mem \<Rightarrow> (cjson option \<times> bytes option \<times> api_mem) outcome" where
  "send_slot_end mem s submit_rc fail_msg m =
     (case am_slots m s of
        None \<Rightarrow> Fault
      | Some sl \<Rightarrow>
          if submit_rc \<noteq> 0 then
            (case sl_state sl of
               None \<Rightarrow> Done (None, Some fail_msg, m\<lparr>am_slots := (am_slots m)(s := None)\<rparr>)
             | Some r \<Rightarrow>
                 (case am_states m r of
                    None \<Rightarrow> Fault
                  | Some st \<Rightarrow> Done (None, Some fail_msg, m\<lparr>am_slots := (am_slots m)(s := None),
                      am_states := (am_states m)(r \<mapsto> st\<lparr>as_outstanding := as_outstanding st - 1\<rparr>)\<rparr>)))
          else
            (case sl_state sl of
               None \<Rightarrow>
                 let m1 = m\<lparr>am_slots := (am_slots m)(s := None)\<rparr>
                 in if sl_rc sl = 0 then Done (Some (CJ_Object (fill_send_result (sl_object_len sl) (sl_inv_hash sl) [])), None, m1)
                    else Done (None, Some BM_API_SEND_FAILED_AFTER_QUEUED, m1)
             | Some r \<Rightarrow>
                 (case am_states m r of
                    None \<Rightarrow> Fault
                  | Some st \<Rightarrow>
                      if length (as_slots st) \<ge> as_slot_cap st then Fault
                      else
                        let cell = length (am_objects m);
                            place = (if mem then Some cell else None);
                            m1 = m\<lparr>am_objects := (if mem then am_objects m @ [[]] else am_objects m),
                              am_slots := (am_slots m)(s \<mapsto> sl\<lparr>sl_placeholder := place\<rparr>),
                              am_states := (am_states m)(r \<mapsto> st\<lparr>as_slots := as_slots st @ [s]\<rparr>)\<rparr>
                        in Done (map_option CJ_At place, None, m1))))"

text \<open>The loop at the end of \<open>process_one_request\<close> over the slots that the handler registered.\<close>

fun attach_slots :: "nat option \<Rightarrow> nat list \<Rightarrow> api_mem \<Rightarrow> api_mem outcome" where
  "attach_slots resp [] m = Done m"
| "attach_slots resp (s # ss) m =
     (case am_slots m s of
        None \<Rightarrow> Fault
      | Some sl \<Rightarrow> attach_slots resp ss (m\<lparr>am_slots := (am_slots m)(s \<mapsto>
          (if resp = None then sl\<lparr>sl_resp := resp, sl_placeholder := None\<rparr> else sl\<lparr>sl_resp := resp\<rparr>))\<rparr>))"

text \<open>A write to an object of the response.\<close>

definition update_object :: "nat \<Rightarrow> (members \<Rightarrow> members) \<Rightarrow> api_mem \<Rightarrow> api_mem outcome" where
  "update_object a f m = (if a < length (am_objects m) then Done (m\<lparr>am_objects := (am_objects m)[a := f (am_objects m ! a)]\<rparr>) else Fault)"

definition BM_JSONRPC_ERR_SERVER :: int where "BM_JSONRPC_ERR_SERVER = -32000"

definition send_failed_error :: cjson where
  "send_failed_error = CJ_Object [(lit ''code'', json_int BM_JSONRPC_ERR_SERVER),
     (lit ''message'', json_str (Some BM_API_SEND_FAILED_AFTER_QUEUED))]"

fun finish_slots :: "nat list \<Rightarrow> api_mem \<Rightarrow> api_mem outcome" where
  "finish_slots [] m = Done m"
| "finish_slots (s # ss) m =
     (case am_slots m s of
        None \<Rightarrow> Fault
      | Some sl \<Rightarrow>
          (case sl_resp sl of
             None \<Rightarrow> finish_slots ss m
           | Some a \<Rightarrow>
               if sl_rc sl = 0 then
                 (case sl_placeholder sl of
                    None \<Rightarrow> finish_slots ss m
                  | Some p \<Rightarrow> bind_outcome (update_object p (fill_send_result (sl_object_len sl) (sl_inv_hash sl)) m) (finish_slots ss))
               else
                 bind_outcome (update_object a (\<lambda>ms. delete_member (lit ''result'') ms @ [(lit ''error'', send_failed_error)]) m)
                   (\<lambda>m1. finish_slots ss (m1\<lparr>am_slots := (am_slots m1)(s \<mapsto> sl\<lparr>sl_placeholder := None\<rparr>)\<rparr>))))"

text \<open>\<open>finish_async_response\<close> up to the queueing of the response.\<close>

definition finish_async :: "nat \<Rightarrow> api_mem \<Rightarrow> api_mem outcome" where
  "finish_async r m =
     (case am_states m r of
        None \<Rightarrow> Fault
      | Some st \<Rightarrow>
          finish_slots (as_slots st)
            (if as_suspended st
             then m\<lparr>am_states := (am_states m)(r \<mapsto> st\<lparr>as_suspended := False\<rparr>), am_suspended := am_suspended m - 1\<rparr> else m))"

text \<open>The end of \<open>api_access_handler\<close>: the connection waits if a send is outstanding.\<close>

definition suspend_if_outstanding :: "nat \<Rightarrow> nat \<Rightarrow> api_mem \<Rightarrow> (bool \<times> api_mem) outcome" where
  "suspend_if_outstanding c r m =
     (case am_states m r of
        None \<Rightarrow> Fault
      | Some st \<Rightarrow>
          if 0 < as_outstanding st
          then bind_outcome (MHD_suspend_connection c (m\<lparr>am_states := (am_states m)(r \<mapsto> st\<lparr>as_suspended := True, as_connection := c\<rparr>),
                 am_suspended := am_suspended m + 1\<rparr>)) (\<lambda>m1. Done (True, m1))
          else Done (False, m))"

section \<open>The worker\<close>

text \<open>
  One report of the worker: the slot, the return code, the object, and what the system gives. A report for a
  slot that is not owed any does not happen. \<open>run_reports\<close> is what the worker does while another thread is at
  some point of its work.
\<close>

record send_report =
  rp_slot :: nat
  rp_rc :: int
  rp_object :: "bytes option"
  rp_item :: bool
  rp_garbage :: bytes

definition run_report :: "openssl \<Rightarrow> send_report \<Rightarrow> api_mem \<Rightarrow> api_mem outcome" where
  "run_report ssl rp m =
     (if rp_slot rp \<in> set (am_jobs m)
      then api_send_done ssl (rp_item rp) (rp_garbage rp) (rp_slot rp) (rp_rc rp) (rp_object rp) (m\<lparr>am_jobs := remove1 (rp_slot rp) (am_jobs m)\<rparr>)
      else Done m)"

fun run_reports :: "openssl \<Rightarrow> send_report list \<Rightarrow> api_mem \<Rightarrow> api_mem outcome" where
  "run_reports ssl [] m = Done m"
| "run_reports ssl (rp # rps) m = bind_outcome (run_report ssl rp m) (run_reports ssl rps)"

text \<open>Success comes with an object.\<close>

definition report_ok :: "send_report \<Rightarrow> bool" where
  "report_ok rp \<longleftrightarrow> (rp_rc rp = 0 \<longrightarrow> rp_object rp \<noteq> None)"

section \<open>The invariant\<close>

definition slot_of :: "api_mem \<Rightarrow> nat \<Rightarrow> nat \<Rightarrow> bool" where
  "slot_of m s r \<longleftrightarrow> (\<exists>sl. am_slots m s = Some sl \<and> sl_state sl = Some r)"

definition undone :: "api_mem \<Rightarrow> nat \<Rightarrow> bool" where
  "undone m s \<longleftrightarrow> (\<exists>sl. am_slots m s = Some sl \<and> \<not> sl_done sl)"

text \<open>
  \<open>p\<close> is a slot that a handler has begun and not ended: it counts, and it is not in the array yet.
\<close>

definition begun :: "nat option \<Rightarrow> api_mem \<Rightarrow> nat \<Rightarrow> api_async_state \<Rightarrow> nat list" where
  "begun p m r st = as_slots st @ (case p of None \<Rightarrow> [] | Some s \<Rightarrow> if slot_of m s r then [s] else [])"

lemma begun_None [simp]: "begun None m r st = as_slots st"
  by (simp add: begun_def)

definition state_inv :: "nat option \<Rightarrow> api_mem \<Rightarrow> nat \<Rightarrow> api_async_state \<Rightarrow> bool" where
  "state_inv p m r st \<longleftrightarrow>
     distinct (begun p m r st) \<and> length (begun p m r st) \<le> as_slot_cap st \<and>
     (\<forall>s\<in>set (as_slots st). slot_of m s r \<and> (undone m s \<longrightarrow> s \<in> set (am_jobs m))) \<and>
     as_outstanding st = int (length (filter (undone m) (begun p m r st))) \<and>
     (as_suspended st \<longrightarrow> am_mhd m (as_connection st) = (0 < as_outstanding st))"

text \<open>The request \<open>r\<close> has the connection \<open>c\<close> suspended, or resumed and not yet finished.\<close>

definition waits :: "api_mem \<Rightarrow> nat \<Rightarrow> nat \<Rightarrow> bool" where
  "waits m r c \<longleftrightarrow> (\<exists>st. am_states m r = Some st \<and> as_suspended st \<and> as_connection st = c)"

definition jobs_inv :: "nat option \<Rightarrow> api_mem \<Rightarrow> bool" where
  "jobs_inv p m \<longleftrightarrow> distinct (am_jobs m) \<and>
     (\<forall>s\<in>set (am_jobs m). undone m s \<and> (\<exists>r st. am_states m r = Some st \<and> slot_of m s r \<and> s \<in> set (begun p m r st)))"

definition conns_inv :: "api_mem \<Rightarrow> bool" where
  "conns_inv m \<longleftrightarrow> (\<forall>c. am_mhd m c \<longrightarrow> (\<exists>r. waits m r c)) \<and> (\<forall>r r' c. waits m r c \<longrightarrow> waits m r' c \<longrightarrow> r = r') \<and>
     finite {r. \<exists>c. waits m r c} \<and> int (card {r. \<exists>c. waits m r c}) \<le> am_suspended m"

definition objects_inv :: "api_mem \<Rightarrow> bool" where
  "objects_inv m \<longleftrightarrow> (\<forall>s sl a. am_slots m s = Some sl \<longrightarrow> sl_resp sl = Some a \<or> sl_placeholder sl = Some a \<longrightarrow> a < length (am_objects m))"

definition mem_inv :: "nat option \<Rightarrow> api_mem \<Rightarrow> bool" where
  "mem_inv p m \<longleftrightarrow> jobs_inv p m \<and> (\<forall>r st. am_states m r = Some st \<longrightarrow> state_inv p m r st) \<and> conns_inv m \<and> objects_inv m"

lemma mem_inv_start: "mem_inv None (api_mem_start queue)"
  by (simp add: mem_inv_def api_mem_start_def waits_def jobs_inv_def conns_inv_def objects_inv_def)

lemma mem_inv_jobs:
  "mem_inv p m \<Longrightarrow> s \<in> set (am_jobs m) \<Longrightarrow> \<exists>sl r st. am_slots m s = Some sl \<and> \<not> sl_done sl \<and> sl_state sl = Some r \<and> am_states m r = Some st"
  unfolding mem_inv_def jobs_inv_def undone_def slot_of_def by fastforce

text \<open>The parts of the invariant depend on these fields only.\<close>

definition same_slots :: "api_mem \<Rightarrow> api_mem \<Rightarrow> bool" where
  "same_slots m m' \<longleftrightarrow>
     (\<forall>s. map_option (\<lambda>sl. (sl_state sl, sl_done sl)) (am_slots m' s) = map_option (\<lambda>sl. (sl_state sl, sl_done sl)) (am_slots m s))"

lemma slot_frame:
  assumes "same_slots m m'"
  shows "undone m' = undone m" "slot_of m' = slot_of m" "begun p m' = begun p m"
proof -
  have "undone m' s = undone m s \<and> slot_of m' s r = slot_of m s r" for s r
    using assms [unfolded same_slots_def, THEN spec [of _ s]]
    by (cases "am_slots m s"; cases "am_slots m' s") (auto simp: undone_def slot_of_def)
  then show f: "undone m' = undone m" "slot_of m' = slot_of m" by (simp_all add: fun_eq_iff)
  show "begun p m' = begun p m" by (intro ext) (simp add: begun_def f cong: option.case_cong)
qed

lemma conns_inv_frame:
  assumes "am_mhd m' = am_mhd m" "am_suspended m' = am_suspended m"
    and "\<And>r. map_option (\<lambda>st. (as_suspended st, as_connection st)) (am_states m' r) = map_option (\<lambda>st. (as_suspended st, as_connection st)) (am_states m r)"
  shows "conns_inv m' = conns_inv m"
proof -
  have "waits m' r c = waits m r c" for r c
    using assms(3) [of r] by (cases "am_states m' r"; cases "am_states m r") (auto simp: waits_def)
  then show ?thesis by (simp add: conns_inv_def assms(1,2))
qed

lemma objects_inv_frame:
  assumes "length (am_objects m) \<le> length (am_objects m')"
    and "\<And>s sl. am_slots m' s = Some sl \<Longrightarrow> \<exists>sl0. am_slots m s = Some sl0 \<and>
      sl_resp sl \<in> {None, sl_resp sl0} \<and> sl_placeholder sl \<in> {None, sl_placeholder sl0}"
  shows "objects_inv m \<Longrightarrow> objects_inv m'"
  unfolding objects_inv_def
proof (intro allI impI)
  fix s sl a
  assume old: "\<forall>s sl a. am_slots m s = Some sl \<longrightarrow> sl_resp sl = Some a \<or> sl_placeholder sl = Some a \<longrightarrow> a < length (am_objects m)"
    and new: "am_slots m' s = Some sl" "sl_resp sl = Some a \<or> sl_placeholder sl = Some a"
  from assms(2) [OF new(1)] new(2) have "\<exists>sl0. am_slots m s = Some sl0 \<and> (sl_resp sl0 = Some a \<or> sl_placeholder sl0 = Some a)" by auto
  with old assms(1) show "a < length (am_objects m')" by (meson less_le_trans)
qed

lemma mem_inv_frame:
  assumes "same_slots m m'" "am_states m' = am_states m" "am_mhd m' = am_mhd m" "am_suspended m' = am_suspended m" "am_jobs m' = am_jobs m"
    and "objects_inv m'"
  shows "mem_inv p m \<Longrightarrow> mem_inv p m'"
proof -
  assume inv: "mem_inv p m"
  note f = slot_frame [OF assms(1)]
  have "jobs_inv p m' = jobs_inv p m" by (simp add: jobs_inv_def f assms)
  moreover have "state_inv p m' = state_inv p m" by (simp add: state_inv_def fun_eq_iff f assms)
  moreover have "conns_inv m' = conns_inv m" by (rule conns_inv_frame) (simp_all add: assms)
  ultimately show ?thesis using inv assms(6) by (simp add: mem_inv_def assms(2))
qed

text \<open>What the worker leaves alone.\<close>

definition state_view :: "api_mem \<Rightarrow> nat \<Rightarrow> (nat list \<times> nat \<times> bool \<times> nat) option" where
  "state_view m r = map_option (\<lambda>st. (as_slots st, as_slot_cap st, as_suspended st, as_connection st)) (am_states m r)"

definition less_outstanding :: "api_mem \<Rightarrow> api_mem \<Rightarrow> nat \<Rightarrow> bool" where
  "less_outstanding m m' r \<longleftrightarrow> (\<forall>st st'. am_states m r = Some st \<longrightarrow> am_states m' r = Some st' \<longrightarrow> as_outstanding st' \<le> as_outstanding st)"

lemma less_outstanding_trans:
  "less_outstanding a b r \<Longrightarrow> less_outstanding b c r \<Longrightarrow> state_view b r = state_view a r \<Longrightarrow> less_outstanding a c r"
  unfolding less_outstanding_def state_view_def by (cases "am_states b r") fastforce+

definition only_reports :: "api_mem \<Rightarrow> api_mem \<Rightarrow> bool" where
  "only_reports m m' \<longleftrightarrow> slot_of m' = slot_of m \<and> state_view m' = state_view m \<and> set (am_jobs m') \<subseteq> set (am_jobs m) \<and>
     am_current m' = am_current m \<and> am_objects m' = am_objects m \<and> (\<forall>c. am_mhd m' c \<longrightarrow> am_mhd m c) \<and>
     (\<forall>s. s \<notin> set (am_jobs m) \<longrightarrow> am_slots m' s = am_slots m s) \<and>
     (\<forall>s\<in>set (am_jobs m) - set (am_jobs m'). \<not> undone m' s) \<and> (\<forall>r. less_outstanding m m' r)"

lemma only_reports_refl [simp]: "only_reports m m"
  by (simp add: only_reports_def less_outstanding_def)

lemma only_reports_trans [trans]:
  assumes "only_reports a b" "only_reports b c"
  shows "only_reports a c"
proof -
  have "\<not> undone c s" if "s \<in> set (am_jobs a) - set (am_jobs c)" for s
    using that assms by (cases "s \<in> set (am_jobs b)") (auto simp: only_reports_def undone_def)
  moreover have "am_slots c s = am_slots a s" if "s \<notin> set (am_jobs a)" for s using that assms by (auto simp: only_reports_def)
  moreover have "less_outstanding a c r" for r using assms less_outstanding_trans [of a b r c] by (simp add: only_reports_def)
  ultimately show ?thesis using assms by (auto simp: only_reports_def)
qed

lemma filter_drop_one:
  "distinct xs \<Longrightarrow> s \<in> set xs \<Longrightarrow> P s \<Longrightarrow> \<not> Q s \<Longrightarrow> (\<And>x. x \<noteq> s \<Longrightarrow> Q x = P x) \<Longrightarrow>
     int (length (filter Q xs)) = int (length (filter P xs)) - 1"
proof (induction xs)
  case (Cons x xs)
  show ?case
  proof (cases "x = s")
    case True
    then have "\<forall>x\<in>set xs. Q x = P x" using Cons.prems(1,5) by (metis distinct.simps(2))
    then have "filter Q xs = filter P xs" by (intro filter_cong) auto
    then show ?thesis using Cons.prems True by simp
  next
    case False
    then show ?thesis using Cons by auto
  qed
qed simp

text \<open>A report of the worker.\<close>

lemma report_keeps_inv:
  assumes inv: "mem_inv p m" and job: "s \<in> set (am_jobs m)" and obj: "rc = 0 \<Longrightarrow> object \<noteq> None"
  shows "\<exists>m'. api_send_done ssl item garbage s rc object (m\<lparr>am_jobs := remove1 s (am_jobs m)\<rparr>) = Done m' \<and> mem_inv p m' \<and>
    am_jobs m' = remove1 s (am_jobs m) \<and> only_reports m m'"
proof -
  obtain sl r st where sl: "am_slots m s = Some sl" "\<not> sl_done sl" "sl_state sl = Some r" "am_states m r = Some st"
    using mem_inv_jobs [OF inv job] by blast
  obtain h where h: "(if rc = 0 then map_option (bm_inventory_hash ssl) object else Some garbage) = Some h" using obj by (cases "rc = 0") auto
  define q where "q = (if rc = 0 then getpubkey_request_done item object (am_broadcast m) else am_broadcast m)"
  define sl1 where "sl1 = (let x = sl\<lparr>sl_done := True, sl_rc := rc, sl_object_len := (case object of None \<Rightarrow> 0 | Some obj \<Rightarrow> length obj)\<rparr>
    in if rc = 0 then x\<lparr>sl_inv_hash := h\<rparr> else x)"
  define st1 where "st1 = st\<lparr>as_outstanding := as_outstanding st - 1\<rparr>"
  define mhd where "mhd = (if as_outstanding st1 = 0 \<and> as_suspended st then (am_mhd m)(as_connection st := False) else am_mhd m)"
  define m' where "m' = m\<lparr>am_jobs := remove1 s (am_jobs m), am_broadcast := q, am_slots := (am_slots m)(s \<mapsto> sl1), am_states := (am_states m)(r \<mapsto> st1), am_mhd := mhd\<rparr>"
  have sinv: "state_inv p m r' st'" if "am_states m r' = Some st'" for r' st' using inv that by (simp add: mem_inv_def)
  have s1: "sl_done sl1" "sl_state sl1 = Some r" "sl_resp sl1 = sl_resp sl" "sl_placeholder sl1 = sl_placeholder sl"
    using sl by (simp_all add: sl1_def Let_def)
  obtain r0 st0 where "slot_of m s r0" "am_states m r0 = Some st0" "s \<in> set (begun p m r0 st0)"
    using inv job unfolding mem_inv_def jobs_inv_def by blast
  then have b: "s \<in> set (begun p m r st)" using sl by (simp add: slot_of_def)
  have out: "0 < as_outstanding st" using sinv [OF sl(4)] b sl by (auto simp: state_inv_def undone_def filter_empty_conv)
  have res: "as_outstanding st1 = 0 \<Longrightarrow> as_suspended st \<Longrightarrow> am_mhd m (as_connection st)" using sinv [OF sl(4)] out by (simp add: state_inv_def)
  have "api_send_done ssl item garbage s rc object (m\<lparr>am_jobs := remove1 s (am_jobs m)\<rparr>) = Done m'"
    using res sl h by (auto simp: api_send_done_def m'_def st1_def q_def mhd_def sl1_def Let_def MHD_resume_connection_def)
  moreover have "mem_inv p m'"
  proof -
    have so: "slot_of m' x r' = slot_of m x r'" for x r' using sl s1 by (auto simp: slot_of_def m'_def)
    have un: "undone m' x = (undone m x \<and> x \<noteq> s)" for x using s1 by (auto simp: undone_def m'_def)
    have be: "begun p m' r' st' = begun p m r' st'" for r' st' by (simp add: begun_def so cong: option.case_cong)
    have be1: "begun p m r st1 = begun p m r st" by (simp add: begun_def st1_def)
    have dist: "distinct (am_jobs m)" using inv by (simp add: mem_inv_def jobs_inv_def)
    have jobs: "set (am_jobs m') = set (am_jobs m) - {s}" using dist by (simp add: m'_def set_remove1_eq)
    have other: "s \<notin> set (begun p m r' st')" if "r' \<noteq> r" "am_states m r' = Some st'" for r' st'
      using sinv [OF that(2)] sl that(1) by (fastforce simp: state_inv_def begun_def slot_of_def split: option.splits)
    have conn: "as_connection st' \<noteq> as_connection st" if "r' \<noteq> r" "am_states m r' = Some st'" "as_suspended st'" "as_suspended st" for r' st'
      using inv that sl(4) unfolding mem_inv_def conns_inv_def waits_def by blast
    have "state_inv p m' r' st'" if a: "am_states m' r' = Some st'" for r' st'
    proof (cases "r' = r")
      case True
      then have st': "st' = st1" using a by (simp add: m'_def)
      have "int (length (filter (undone m') (begun p m r st))) = as_outstanding st - 1"
        using sinv [OF sl(4)] filter_drop_one [of "begun p m r st" s "undone m" "undone m'"] b sl
        by (simp add: state_inv_def un) (simp add: undone_def)
      moreover have "as_slots st1 = as_slots st" "as_slot_cap st1 = as_slot_cap st" "as_outstanding st1 = as_outstanding st - 1"
        "as_suspended st1 = as_suspended st" "as_connection st1 = as_connection st" "am_mhd m' = mhd" by (simp_all add: st1_def m'_def)
      ultimately show ?thesis using sinv [OF sl(4)] out unfolding True st' state_inv_def be be1
        by (auto simp: so un jobs mhd_def)
    next
      case False
      then have a': "am_states m r' = Some st'" using a by (simp add: m'_def)
      have f: "filter (undone m') (begun p m r' st') = filter (undone m) (begun p m r' st')"
        using other [OF False a'] by (intro filter_cong) (auto simp: un)
      have "s \<notin> set (as_slots st')" using other [OF False a'] by (auto simp: begun_def)
      moreover have "as_suspended st' \<Longrightarrow> mhd (as_connection st') = am_mhd m (as_connection st')"
        using conn [OF False a'] by (auto simp: mhd_def)
      moreover have "am_mhd m' = mhd" by (simp add: m'_def)
      ultimately show ?thesis using sinv [OF a'] unfolding state_inv_def be f by (auto simp: so un jobs)
    qed
    moreover have "conns_inv m'"
    proof -
      have "conns_inv (m'\<lparr>am_mhd := am_mhd m\<rparr>)" using inv sl(4)
        by (subst conns_inv_frame [of _ m]) (auto simp: mem_inv_def m'_def st1_def)
      moreover have "am_mhd m' c \<Longrightarrow> am_mhd m c" for c by (auto simp: m'_def mhd_def split: if_splits)
      ultimately show ?thesis unfolding conns_inv_def waits_def by simp
    qed
    moreover have "objects_inv m'" by (rule objects_inv_frame [of m]) (use inv s1 sl in \<open>auto simp: mem_inv_def m'_def split: if_splits\<close>)
    moreover have "\<exists>r st. am_states m' r = Some st \<and> slot_of m' x r \<and> x \<in> set (begun p m' r st)" if x: "x \<in> set (am_jobs m')" for x
    proof -
      obtain r2 st2 where "am_states m r2 = Some st2" "slot_of m x r2" "x \<in> set (begun p m r2 st2)"
        using inv x jobs unfolding mem_inv_def jobs_inv_def by blast
      then show ?thesis using sl(4) be1 by (cases "r2 = r") (auto simp: so be, auto simp: m'_def)
    qed
    moreover have "undone m' x" if "x \<in> set (am_jobs m')" for x using inv that jobs unfolding mem_inv_def jobs_inv_def un by blast
    moreover have "distinct (am_jobs m')" using dist by (simp add: m'_def)
    ultimately show ?thesis unfolding mem_inv_def jobs_inv_def by blast
  qed
  moreover have "only_reports m m'"
  proof -
    have "x \<in> set (remove1 s (am_jobs m))" if "x \<in> set (am_jobs m)" "undone m' x" for x
      using that sl s1 by (cases "x = s") (auto simp: undone_def m'_def)
    moreover have "less_outstanding m m' r'" for r' using sl by (auto simp: less_outstanding_def m'_def st1_def)
    ultimately show ?thesis using sl s1 job
      by (auto simp: only_reports_def m'_def st1_def mhd_def slot_of_def state_view_def fun_eq_iff dest: set_remove1_subset [THEN subsetD] split: if_splits)
  qed
  ultimately show ?thesis by (auto simp: m'_def)
qed

lemma run_report_inv:
  assumes "mem_inv p m" "report_ok rp"
  shows "\<exists>m'. run_report ssl rp m = Done m' \<and> mem_inv p m' \<and> am_jobs m' = remove1 (rp_slot rp) (am_jobs m) \<and> only_reports m m'"
  using report_keeps_inv [OF assms(1), of "rp_slot rp" "rp_rc rp" "rp_object rp"] assms
  by (auto simp: run_report_def report_ok_def remove1_idem)

lemma run_reports_inv:
  "mem_inv p m \<Longrightarrow> \<forall>rp\<in>set rps. report_ok rp \<Longrightarrow> \<exists>m'. run_reports ssl rps m = Done m' \<and> mem_inv p m' \<and> only_reports m m'"
proof (induction rps arbitrary: m)
  case (Cons rp rps)
  obtain m1 where m1: "run_report ssl rp m = Done m1" "mem_inv p m1" "only_reports m m1"
    using run_report_inv [OF Cons.prems(1), of rp] Cons.prems(2) by auto
  obtain m2 where "run_reports ssl rps m1 = Done m2" "mem_inv p m2" "only_reports m1 m2" using Cons.IH [OF m1(2)] Cons.prems(2) by auto
  then show ?case using m1 only_reports_trans by auto
qed simp

text \<open>A handler begins a slot, submits its send and ends the slot.\<close>

lemma jobs_slots: "mem_inv p m \<Longrightarrow> am_slots m s = None \<Longrightarrow> s \<notin> set (am_jobs m)"
  using mem_inv_jobs by fastforce

lemma registered_slots: "mem_inv p m \<Longrightarrow> am_states m r = Some st \<Longrightarrow> s \<in> set (as_slots st) \<Longrightarrow> slot_of m s r"
  by (simp add: mem_inv_def state_inv_def)

lemma begin_keeps_inv:
  assumes inv: "mem_inv None m" and cur: "am_current m = Some r" "am_states m r = Some st" and new: "\<And>s. a = Some s \<Longrightarrow> am_slots m s = None"
    and live: "\<not> as_suspended st"
  shows "\<exists>q m'. send_slot_begin a grow m = Done (q, m') \<and> am_current m' = am_current m \<and> am_jobs m' = am_jobs m \<and> am_objects m' = am_objects m \<and>
    am_mhd m' = am_mhd m \<and> (q = None \<longrightarrow> m' = m) \<and>
    (\<forall>s. q = Some s \<longrightarrow> mem_inv (Some s) m' \<and> slot_of m' s r \<and> undone m' s \<and> s \<notin> set (am_jobs m') \<and>
      (\<exists>st'. am_states m' r = Some st' \<and> \<not> as_suspended st' \<and> as_slots st' = as_slots st) \<and> (\<forall>r'. r' \<noteq> r \<longrightarrow> am_states m' r' = am_states m r'))"
proof (cases "a = None \<or> length (as_slots st) = as_slot_cap st \<and> \<not> grow")
  case True
  then show ?thesis using cur by (auto simp: send_slot_begin_def Let_def split: option.split)
next
  case False
  then obtain s where s: "a = Some s" by auto
  define st1 where "st1 = st\<lparr>as_slot_cap := (if length (as_slots st) = as_slot_cap st then if as_slot_cap st = 0 then 4 else as_slot_cap st * 2
    else as_slot_cap st), as_outstanding := as_outstanding st + 1\<rparr>"
  define m' where "m' = m\<lparr>am_slots := (am_slots m)(s \<mapsto> fresh_slot (Some r)), am_states := (am_states m)(r \<mapsto> st1)\<rparr>"
  have run: "send_slot_begin a grow m = Done (Some s, m')"
    using False s cur by (auto simp: send_slot_begin_def m'_def st1_def Let_def)
  have free: "am_slots m s = None" by (rule new [OF s])
  have sinv: "state_inv None m r' st'" if "am_states m r' = Some st'" for r' st' using inv that by (simp add: mem_inv_def)
  have so: "slot_of m' x r' = (if x = s then r' = r else slot_of m x r')" for x r' by (auto simp: slot_of_def m'_def fresh_slot_def)
  have un: "undone m' x = (x = s \<or> undone m x)" for x by (auto simp: undone_def m'_def fresh_slot_def)
  have no: "s \<notin> set (as_slots st')" if "am_states m r' = Some st'" for r' st'
    using registered_slots [OF inv that, of s] free by (auto simp: slot_of_def)
  have st1: "as_slots st1 = as_slots st" "as_outstanding st1 = as_outstanding st + 1" "as_suspended st1 = as_suspended st"
    "as_connection st1 = as_connection st" "length (as_slots st) < as_slot_cap st1"
    using sinv [OF cur(2)] by (auto simp: st1_def state_inv_def begun_def)
  have nj: "s \<notin> set (am_jobs m)" by (rule jobs_slots [OF inv free])
  have fil: "filter (undone m') (as_slots st') = filter (undone m) (as_slots st')" if "am_states m r' = Some st'" for r' st'
    using no [OF that] by (intro filter_cong) (auto simp: un)
  have be: "begun (Some s) m' r' st' = as_slots st' @ (if r' = r then [s] else [])" for r' st' by (simp add: begun_def so)
  have "state_inv (Some s) m' r' st'" if x: "am_states m' r' = Some st'" for r' st'
  proof (cases "r' = r")
    case True
    then have "st' = st1" using x by (simp add: m'_def)
    moreover have "am_jobs m' = am_jobs m" by (simp add: m'_def)
    ultimately show ?thesis using sinv [OF cur(2)] st1 no [OF cur(2)] fil [OF cur(2)] live
      unfolding True state_inv_def be by (auto simp: so un begun_def)
  next
    case False
    then have x': "am_states m r' = Some st'" using x by (simp add: m'_def)
    moreover have "am_jobs m' = am_jobs m" "am_mhd m' = am_mhd m" by (simp_all add: m'_def)
    ultimately show ?thesis using sinv [OF x'] no [OF x'] fil [OF x'] False unfolding state_inv_def be by (auto simp: so un begun_def)
  qed
  moreover have "jobs_inv (Some s) m'"
  proof -
    have "undone m' x \<and> (\<exists>r' st'. am_states m' r' = Some st' \<and> slot_of m' x r' \<and> x \<in> set (begun (Some s) m' r' st'))" if x: "x \<in> set (am_jobs m)" for x
    proof -
      obtain r2 st2 where j: "undone m x" "am_states m r2 = Some st2" "slot_of m x r2" "x \<in> set (as_slots st2)"
        using inv x unfolding mem_inv_def jobs_inv_def begun_def by auto
      have "x \<noteq> s" using x nj by auto
      then show ?thesis using j cur(2) st1(1) by (cases "r2 = r") (auto simp: un so be, auto simp: m'_def)
    qed
    then show ?thesis using inv by (simp add: jobs_inv_def mem_inv_def) (simp add: m'_def)
  qed
  moreover have "conns_inv m'" using inv cur(2) st1 by (subst conns_inv_frame [of _ m]) (auto simp: mem_inv_def m'_def)
  moreover have "objects_inv m'" using inv by (auto simp: mem_inv_def objects_inv_def m'_def fresh_slot_def split: if_splits)
  ultimately have "mem_inv (Some s) m'" by (simp add: mem_inv_def)
  moreover have "am_states m' r = Some st1" "am_jobs m' = am_jobs m" "\<forall>r'. r' \<noteq> r \<longrightarrow> am_states m' r' = am_states m r'"
    "am_current m' = am_current m" "am_objects m' = am_objects m" "am_mhd m' = am_mhd m" by (simp_all add: m'_def)
  ultimately show ?thesis using run live st1 nj by (simp add: so un)
qed

lemma submit_keeps_inv:
  assumes inv: "mem_inv (Some s) m" and "slot_of m s r" "undone m s" "s \<notin> set (am_jobs m)" "am_states m r = Some st"
  shows "mem_inv (Some s) (m\<lparr>am_jobs := am_jobs m @ [s]\<rparr>)"
proof -
  let ?m = "m\<lparr>am_jobs := am_jobs m @ [s]\<rparr>"
  have "same_slots m ?m" by (simp add: same_slots_def)
  note f = slot_frame [OF this]
  have "s \<in> set (begun (Some s) m r st)" using assms(2) by (simp add: begun_def)
  then have "jobs_inv (Some s) ?m" using inv assms by (auto simp: mem_inv_def jobs_inv_def f)
  moreover have "state_inv (Some s) ?m r' st'" if "am_states m r' = Some st'" for r' st'
    using inv that by (auto simp: mem_inv_def state_inv_def f)
  moreover have "conns_inv ?m = conns_inv m" by (rule conns_inv_frame) simp_all
  ultimately show ?thesis using inv by (simp add: mem_inv_def objects_inv_def)
qed

text \<open>The open slot is gone, or has become the last slot of its request.\<close>

lemma open_slot_alone:
  assumes "mem_inv (Some s) m" "slot_of m s r" "am_states m r' = Some st'"
  shows "s \<notin> set (as_slots st')"
proof (cases "r' = r")
  case True
  have "distinct (begun (Some s) m r st')" using assms(1,3) True by (simp add: mem_inv_def state_inv_def)
  then show ?thesis using assms(2) by (simp add: begun_def)
next
  case False
  then show ?thesis using registered_slots [OF assms(1,3), of s] assms(2) by (auto simp: slot_of_def)
qed

lemma end_failed_keeps_inv:
  assumes inv: "mem_inv (Some s) m" and slot: "slot_of m s r" "undone m s" "s \<notin> set (am_jobs m)" "am_states m r = Some st"
    and live: "\<not> as_suspended st" and rc: "rc \<noteq> 0"
  shows "\<exists>m'. send_slot_end mem s rc fail_msg m = Done (None, Some fail_msg, m') \<and> mem_inv None m' \<and> am_current m' = am_current m \<and>
    am_objects m' = am_objects m \<and> am_mhd m' = am_mhd m \<and> state_view m' = state_view m \<and>
    (\<forall>r'. r' \<noteq> r \<longrightarrow> am_states m' r' = am_states m r')"
proof -
  obtain sl where sl: "am_slots m s = Some sl" "sl_state sl = Some r" "\<not> sl_done sl" using slot by (auto simp: slot_of_def undone_def)
  define st1 where "st1 = st\<lparr>as_outstanding := as_outstanding st - 1\<rparr>"
  define m' where "m' = m\<lparr>am_slots := (am_slots m)(s := None), am_states := (am_states m)(r \<mapsto> st1)\<rparr>"
  have run: "send_slot_end mem s rc fail_msg m = Done (None, Some fail_msg, m')"
    using rc sl slot(4) by (simp add: send_slot_end_def m'_def st1_def)
  have fields: "am_jobs m' = am_jobs m" "am_mhd m' = am_mhd m" by (simp_all add: m'_def)
  have sinv: "state_inv (Some s) m r' st'" if "am_states m r' = Some st'" for r' st' using inv that by (simp add: mem_inv_def)
  have so: "slot_of m' x r' = (x \<noteq> s \<and> slot_of m x r')" for x r' by (auto simp: slot_of_def m'_def)
  have un: "undone m' x = (x \<noteq> s \<and> undone m x)" for x by (auto simp: undone_def m'_def)
  have be: "begun (Some s) m r' st' = as_slots st' @ (if r' = r then [s] else [])" "begun None m' r' st' = as_slots st'" for r' st'
    using sl by (auto simp: begun_def slot_of_def)
  have fil: "filter (undone m') (as_slots st') = filter (undone m) (as_slots st')" if "am_states m r' = Some st'" for r' st'
    using open_slot_alone [OF inv slot(1) that] by (intro filter_cong) (auto simp: un)
  have "state_inv None m' r' st'" if x: "am_states m' r' = Some st'" for r' st'
  proof (cases "r' = r")
    case True
    then have "st' = st1" using x by (simp add: m'_def)
    then show ?thesis using sinv [OF slot(4)] open_slot_alone [OF inv slot(1,4)] fil [OF slot(4)] live slot(2)
      unfolding True state_inv_def be by (auto simp: so un fields st1_def)
  next
    case False
    then have x': "am_states m r' = Some st'" using x by (simp add: m'_def)
    then show ?thesis using sinv [OF x'] open_slot_alone [OF inv slot(1) x'] fil [OF x'] False
      unfolding state_inv_def be by (auto simp: so un fields)
  qed
  moreover have "jobs_inv None m'"
  proof -
    have "undone m' x \<and> (\<exists>r' st'. am_states m' r' = Some st' \<and> slot_of m' x r' \<and> x \<in> set (begun None m' r' st'))" if x: "x \<in> set (am_jobs m)" for x
    proof -
      obtain r2 st2 where j: "undone m x" "am_states m r2 = Some st2" "slot_of m x r2" "x \<in> set (as_slots st2 @ (if r2 = r then [s] else []))"
        using inv x unfolding mem_inv_def jobs_inv_def be by blast
      have "x \<noteq> s" using x slot(3) by auto
      then show ?thesis using j slot(4) by (cases "r2 = r") (auto simp: un so be, auto simp: m'_def st1_def split: if_splits)
    qed
    then show ?thesis using inv by (simp add: jobs_inv_def mem_inv_def fields)
  qed
  moreover have "conns_inv m'" using inv slot(4) by (subst conns_inv_frame [of _ m]) (auto simp: mem_inv_def m'_def st1_def)
  moreover have "objects_inv m'" using inv by (auto simp: mem_inv_def objects_inv_def m'_def split: if_splits)
  ultimately have "mem_inv None m'" by (simp add: mem_inv_def)
  then show ?thesis using run slot(4) by (auto simp: m'_def st1_def state_view_def fun_eq_iff)
qed

lemma end_done_keeps_inv:
  assumes inv: "mem_inv (Some s) m" and slot: "slot_of m s r" "undone m s \<Longrightarrow> s \<in> set (am_jobs m)" "am_states m r = Some st"
    and live: "\<not> as_suspended st"
  shows "\<exists>res m'. send_slot_end mem s 0 fail_msg m = Done (res, None, m') \<and> mem_inv None m' \<and> am_current m' = am_current m \<and>
    (\<exists>objs. am_objects m' = am_objects m @ objs) \<and> am_mhd m' = am_mhd m \<and>
    (\<exists>st'. am_states m' r = Some st' \<and> \<not> as_suspended st') \<and> (\<forall>r'. r' \<noteq> r \<longrightarrow> am_states m' r' = am_states m r')"
proof -
  obtain sl where sl: "am_slots m s = Some sl" "sl_state sl = Some r" using slot by (auto simp: slot_of_def)
  have sinv: "state_inv (Some s) m r' st'" if "am_states m r' = Some st'" for r' st' using inv that by (simp add: mem_inv_def)
  have be0: "begun (Some s) m r' st' = as_slots st' @ (if r' = r then [s] else [])" for r' st'
    using sl by (auto simp: begun_def slot_of_def)
  define st1 where "st1 = st\<lparr>as_slots := as_slots st @ [s]\<rparr>"
  define place where "place = (if mem then Some (length (am_objects m)) else None)"
  define m' where "m' = m\<lparr>am_objects := (if mem then am_objects m @ [[]] else am_objects m),
    am_slots := (am_slots m)(s \<mapsto> sl\<lparr>sl_placeholder := place\<rparr>), am_states := (am_states m)(r \<mapsto> st1)\<rparr>"
  have "length (as_slots st) < as_slot_cap st" using sinv [OF slot(3)] unfolding state_inv_def be0 by simp
  then have run: "send_slot_end mem s 0 fail_msg m = Done (map_option CJ_At place, None, m')"
    using sl slot(3) by (simp add: send_slot_end_def m'_def st1_def place_def Let_def)
  have "same_slots m m'" using sl by (auto simp: same_slots_def m'_def)
  note f = slot_frame [OF this]
  have fields: "am_jobs m' = am_jobs m" "am_mhd m' = am_mhd m" by (simp_all add: m'_def)
  have "state_inv None m' r' st'" if x: "am_states m' r' = Some st'" for r' st'
  proof (cases "r' = r")
    case True
    then have "st' = st1" using x by (simp add: m'_def)
    then show ?thesis using sinv [OF slot(3)] live slot(1,2)
      unfolding True state_inv_def be0 f by (auto simp: fields st1_def)
  next
    case False
    then have x': "am_states m r' = Some st'" using x by (simp add: m'_def)
    then show ?thesis using sinv [OF x'] False unfolding state_inv_def be0 f by (auto simp: fields)
  qed
  moreover have "jobs_inv None m'"
  proof -
    have "\<exists>r' st'. am_states m' r' = Some st' \<and> slot_of m x r' \<and> x \<in> set (as_slots st')" if x: "x \<in> set (am_jobs m)" for x
    proof -
      obtain r2 st2 where j: "am_states m r2 = Some st2" "slot_of m x r2" "x \<in> set (as_slots st2 @ (if r2 = r then [s] else []))"
        using inv x unfolding mem_inv_def jobs_inv_def be0 by blast
      then show ?thesis using slot(3) by (cases "r2 = r") (auto simp: m'_def st1_def split: if_splits)
    qed
    then show ?thesis using inv by (simp add: jobs_inv_def mem_inv_def fields f)
  qed
  moreover have "conns_inv m'" using inv slot(3) by (subst conns_inv_frame [of _ m]) (auto simp: mem_inv_def m'_def st1_def)
  moreover have "objects_inv m'"
    using inv sl unfolding mem_inv_def objects_inv_def by (fastforce simp: m'_def place_def split: if_splits)
  ultimately have "mem_inv None m'" by (simp add: mem_inv_def)
  then show ?thesis using run live by (auto simp: m'_def st1_def)
qed

text \<open>
  While a request is processed: it has its state, which is not suspended; the work on it leaves the other
  requests to the worker.
\<close>

definition in_request :: "nat \<Rightarrow> api_mem \<Rightarrow> bool" where
  "in_request r m \<longleftrightarrow> mem_inv None m \<and> am_current m = Some r \<and> (\<exists>st. am_states m r = Some st \<and> \<not> as_suspended st)"

definition apart :: "nat \<Rightarrow> api_mem \<Rightarrow> api_mem \<Rightarrow> bool" where
  "apart r m m' \<longleftrightarrow> (\<forall>r'. r' \<noteq> r \<longrightarrow> state_view m' r' = state_view m r' \<and> less_outstanding m m' r') \<and> (\<forall>c. am_mhd m' c \<longrightarrow> am_mhd m c) \<and>
     (\<exists>objs. am_objects m' = am_objects m @ objs)"

lemma apart_refl [simp]: "apart r m m"
  by (simp add: apart_def less_outstanding_def)

lemma apart_states:
  "\<forall>r'. r' \<noteq> r \<longrightarrow> am_states m' r' = am_states m r' \<Longrightarrow> am_mhd m' = am_mhd m \<Longrightarrow> \<exists>objs. am_objects m' = am_objects m @ objs \<Longrightarrow> apart r m m'"
  by (simp add: apart_def less_outstanding_def state_view_def)

lemma apart_trans [trans]: "apart r a b \<Longrightarrow> apart r b c \<Longrightarrow> apart r a c"
  using less_outstanding_trans [of a b _ c] by (auto simp: apart_def)

lemma only_reports_apart: "only_reports m m' \<Longrightarrow> apart r m m'"
  by (simp add: only_reports_def apart_def)

lemma view_live:
  "state_view m' = state_view m \<Longrightarrow> \<exists>st. am_states m r = Some st \<and> \<not> as_suspended st \<Longrightarrow> \<exists>st. am_states m' r = Some st \<and> \<not> as_suspended st"
  unfolding state_view_def by (drule fun_cong [of _ _ r]) (auto simp: map_option_case split: option.splits)

lemma reports_in_request:
  assumes "in_request r m" "\<forall>rp\<in>set rps. report_ok rp"
  shows "\<exists>m'. run_reports ssl rps m = Done m' \<and> in_request r m' \<and> apart r m m'"
proof -
  obtain m' where m': "run_reports ssl rps m = Done m'" "mem_inv None m'" "only_reports m m'"
    using run_reports_inv [of None m rps ssl] assms by (auto simp: in_request_def)
  moreover have "in_request r m'" using assms(1) m'(2,3) view_live [of m' m r] by (auto simp: in_request_def only_reports_def)
  ultimately show ?thesis using only_reports_apart by blast
qed

section \<open>A send of a handler\<close>

text \<open>
  What \<open>h_sendMessage\<close> and \<open>h_sendBroadcast\<close> have in common; \<open>submit\<close> is the call of the send pipeline with the
  slot. Reports may come as soon as the send is submitted. \<open>sv_alloc\<close> is the allocator, \<open>sv_grow\<close> and
  \<open>sv_container\<close> say whether the array of slots and the container of the result get memory.
\<close>

record slot_env =
  sv_alloc :: "(nat \<rightharpoonup> api_send_slot) \<Rightarrow> nat option"
  sv_grow :: bool
  sv_container :: bool
  sv_reports :: "send_report list"

definition send_in_slot ::
  "openssl \<Rightarrow> slot_env \<Rightarrow> bytes \<Rightarrow> (nat \<Rightarrow> 'n \<Rightarrow> (int \<times> 'n) outcome) \<Rightarrow> 'n \<Rightarrow> api_mem \<Rightarrow> (cjson option \<times> bytes option \<times> 'n \<times> api_mem) outcome" where
  "send_in_slot ssl env fail_msg submit n m =
     bind_outcome (send_slot_begin (sv_alloc env (am_slots m)) (sv_grow env) m) (\<lambda>(slot, m1).
       case slot of
         None \<Rightarrow> Done (None, Some (lit ''out of memory''), n, m1)
       | Some s \<Rightarrow>
           bind_outcome (submit s n) (\<lambda>(rc, n1).
           bind_outcome (run_reports ssl (sv_reports env) (if rc = 0 then m1\<lparr>am_jobs := am_jobs m1 @ [s]\<rparr> else m1)) (\<lambda>m2.
           bind_outcome (send_slot_end (sv_container env) s rc fail_msg m2) (\<lambda>(result, err, m3).
             Done (result, err, n1, m3)))))"

text \<open>What is assumed: the allocator gives memory that is not in use, and a send that succeeds comes with its object.\<close>

definition slot_env_ok :: "slot_env \<Rightarrow> bool" where
  "slot_env_ok env \<longleftrightarrow> (\<forall>h s. sv_alloc env h = Some s \<longrightarrow> h s = None) \<and> (\<forall>rp\<in>set (sv_reports env). report_ok rp)"

lemma send_in_slot_keeps:
  assumes "in_request r m" "slot_env_ok env" "send_in_slot ssl env fail_msg submit n m = Done (res, err, n', m')"
  shows "in_request r m' \<and> apart r m m'"
proof -
  obtain st where st: "mem_inv None m" "am_current m = Some r" "am_states m r = Some st" "\<not> as_suspended st"
    using assms(1) by (auto simp: in_request_def)
  have new: "sv_alloc env (am_slots m) = Some s \<Longrightarrow> am_slots m s = None" for s using assms(2) by (simp add: slot_env_ok_def)
  obtain q m1 where q: "send_slot_begin (sv_alloc env (am_slots m)) (sv_grow env) m = Done (q, m1)" "am_current m1 = am_current m" "am_jobs m1 = am_jobs m"
      "am_objects m1 = am_objects m" "am_mhd m1 = am_mhd m" "q = None \<longrightarrow> m1 = m"
    and qs: "\<And>s. q = Some s \<Longrightarrow> mem_inv (Some s) m1 \<and> slot_of m1 s r \<and> undone m1 s \<and> s \<notin> set (am_jobs m1) \<and>
      (\<exists>st'. am_states m1 r = Some st' \<and> \<not> as_suspended st' \<and> as_slots st' = as_slots st) \<and> (\<forall>r'. r' \<noteq> r \<longrightarrow> am_states m1 r' = am_states m r')"
    using begin_keeps_inv [OF st(1,2,3) _ st(4), of "sv_alloc env (am_slots m)" "sv_grow env"] new by blast
  show ?thesis
  proof (cases q)
    case None
    then show ?thesis using assms q by (auto simp: send_in_slot_def)
  next
    case (Some s)
    note o = qs [OF Some]
    obtain rc n1 m2 where r: "run_reports ssl (sv_reports env) (if rc = 0 then m1\<lparr>am_jobs := am_jobs m1 @ [s]\<rparr> else m1) = Done m2"
      "send_slot_end (sv_container env) s rc fail_msg m2 = Done (res, err, m')"
      using assms(3) q(1) Some by (auto simp: send_in_slot_def)
    define m1' where "m1' = (if rc = 0 then m1\<lparr>am_jobs := am_jobs m1 @ [s]\<rparr> else m1)"
    obtain st1 where st1: "am_states m1 r = Some st1" "\<not> as_suspended st1" using o by blast
    have inv1: "mem_inv (Some s) m1'" using o submit_keeps_inv [of s m1 r st1] st1 by (auto simp: m1'_def)
    have f1: "slot_of m1' = slot_of m1" "state_view m1' = state_view m1" "am_mhd m1' = am_mhd m1" "am_current m1' = am_current m1"
        "am_objects m1' = am_objects m1" by (auto simp: m1'_def slot_of_def state_view_def fun_eq_iff)
    obtain m2' where "run_reports ssl (sv_reports env) m1' = Done m2'" "mem_inv (Some s) m2'" "only_reports m1' m2'"
      using run_reports_inv [OF inv1, of "sv_reports env" ssl] assms(2) by (auto simp: slot_env_ok_def)
    then have m2: "mem_inv (Some s) m2" "only_reports m1' m2" using r(1) by (simp_all add: m1'_def)
    obtain st2 where st2: "am_states m2 r = Some st2" "\<not> as_suspended st2"
      using view_live [of m2 m1 r] st1 m2(2) f1(2) by (auto simp: only_reports_def)
    have so2: "slot_of m2 s r" using o m2(2) f1(1) by (simp add: only_reports_def)
    have ap2: "apart r m m2"
    proof -
      have "apart r m m1" by (rule apart_states) (use o q in auto)
      moreover have "apart r m1 m1'" by (rule apart_states) (auto simp: m1'_def)
      ultimately show ?thesis using only_reports_apart [OF m2(2)] apart_trans by blast
    qed
    have cur2: "am_current m2 = Some r" using m2(2) f1(4) q(2) st(2) by (simp add: only_reports_def)
    show ?thesis
    proof (cases "rc = 0")
      case True
      then have "s \<in> set (am_jobs m1')" by (simp add: m1'_def)
      then have "undone m2 s \<Longrightarrow> s \<in> set (am_jobs m2)" using m2(2) by (auto simp: only_reports_def)
      from end_done_keeps_inv [OF m2(1) so2 this st2, of "sv_container env" fail_msg]
      have "mem_inv None m'" "am_current m' = am_current m2" "\<exists>st'. am_states m' r = Some st' \<and> \<not> as_suspended st'" "apart r m2 m'"
        using r(2) True by (auto intro: apart_states)
      then show ?thesis using cur2 ap2 apart_trans by (auto simp: in_request_def)
    next
      case False
      then have "m1' = m1" by (simp add: m1'_def)
      then have "undone m2 s" "s \<notin> set (am_jobs m2)" using o m2(2) by (auto simp: only_reports_def undone_def)
      from end_failed_keeps_inv [OF m2(1) so2 this st2 False, of "sv_container env" fail_msg]
      have "mem_inv None m'" "am_current m' = am_current m2" "state_view m' = state_view m2" "apart r m2 m'"
        using r(2) by (auto intro: apart_states)
      then show ?thesis using cur2 ap2 apart_trans view_live [of m' m2 r] st2 by (auto simp: in_request_def)
    qed
  qed
qed

section \<open>The rest of a request\<close>

text \<open>A request gets its state, and becomes the current one.\<close>

definition request_begin :: "nat \<Rightarrow> api_mem \<Rightarrow> api_mem" where
  "request_begin r m = m\<lparr>am_states := (am_states m)(r \<mapsto> fresh_state), am_current := Some r\<rparr>"

lemma request_begin_keeps:
  assumes inv: "mem_inv None m" and new: "am_states m r = None"
  shows "in_request r (request_begin r m) \<and> apart r m (request_begin r m)"
proof -
  let ?m = "request_begin r m"
  have "same_slots m ?m" by (simp add: same_slots_def request_begin_def)
  note f = slot_frame [OF this]
  have jobs: "am_jobs ?m = am_jobs m" "am_mhd ?m = am_mhd m" "am_objects ?m = am_objects m" "am_slots ?m = am_slots m"
    "am_suspended ?m = am_suspended m" by (simp_all add: request_begin_def)
  have st: "am_states ?m r' = (if r' = r then Some fresh_state else am_states m r')" for r' by (simp add: request_begin_def)
  have "jobs_inv None ?m" using inv new unfolding mem_inv_def jobs_inv_def f jobs st by fastforce
  moreover have "state_inv None ?m r' st'" if "am_states ?m r' = Some st'" for r' st'
    using inv that unfolding mem_inv_def state_inv_def f jobs st by (auto simp: fresh_state_def split: if_splits)
  moreover have "waits ?m r' c = waits m r' c" for r' c using new by (auto simp: waits_def st fresh_state_def split: if_splits)
  then have "waits ?m = waits m" by (simp add: fun_eq_iff)
  then have "conns_inv ?m" using inv unfolding mem_inv_def conns_inv_def jobs by simp
  moreover have "objects_inv ?m" using inv by (simp add: mem_inv_def objects_inv_def jobs)
  ultimately show ?thesis by (auto simp: mem_inv_def in_request_def intro!: apart_states) (simp_all add: request_begin_def fresh_state_def)
qed

text \<open>Slots are told their response.\<close>

lemma attach_keeps:
  assumes "\<forall>a. resp = Some a \<longrightarrow> a < length (am_objects m)"
  shows "mem_inv p m \<Longrightarrow> \<forall>s\<in>set ss. am_slots m s \<noteq> None \<Longrightarrow> \<exists>m'. attach_slots resp ss m = Done m' \<and> mem_inv p m' \<and>
    am_states m' = am_states m \<and> am_current m' = am_current m \<and> am_mhd m' = am_mhd m \<and> am_objects m' = am_objects m \<and>
    am_suspended m' = am_suspended m \<and> am_jobs m' = am_jobs m"
  using assms
proof (induction ss arbitrary: m)
  case (Cons s ss)
  then obtain sl where sl: "am_slots m s = Some sl" by auto
  define sl1 where "sl1 = (if resp = None then sl\<lparr>sl_resp := resp, sl_placeholder := None\<rparr> else sl\<lparr>sl_resp := resp\<rparr>)"
  let ?m = "m\<lparr>am_slots := (am_slots m)(s \<mapsto> sl1)\<rparr>"
  have "sl_state sl1 = sl_state sl" "sl_done sl1 = sl_done sl" "sl_resp sl1 = resp" "sl_placeholder sl1 \<in> {None, sl_placeholder sl}"
    by (simp_all add: sl1_def)
  note s1 = this
  have "objects_inv ?m" using Cons.prems(1,3) sl s1 unfolding mem_inv_def objects_inv_def by (fastforce split: if_splits)
  moreover have "same_slots m ?m" using sl s1 by (simp add: same_slots_def)
  ultimately have "mem_inv p ?m" using mem_inv_frame [of m ?m p] Cons.prems(1) by simp
  moreover have "\<forall>s\<in>set ss. am_slots ?m s \<noteq> None" using Cons.prems(2) by auto
  moreover have "attach_slots resp (s # ss) m = attach_slots resp ss ?m" by (simp add: sl sl1_def)
  ultimately show ?case using Cons.IH [of ?m] Cons.prems(3) by (simp del: attach_slots.simps)
qed simp

lemma attach_in_request:
  assumes "in_request r m" "am_states m r = Some st" "set ss \<subseteq> set (as_slots st)" "\<And>a. resp = Some a \<Longrightarrow> a < length (am_objects m)"
  shows "\<exists>m'. attach_slots resp ss m = Done m' \<and> in_request r m' \<and> apart r m m' \<and> am_states m' = am_states m"
proof -
  have inv: "mem_inv None m" using assms(1) by (simp add: in_request_def)
  have "\<forall>s\<in>set ss. am_slots m s \<noteq> None"
    using registered_slots [OF inv assms(2)] assms(3) by (force simp: slot_of_def)
  then obtain m' where m': "attach_slots resp ss m = Done m'" "mem_inv None m'" "am_states m' = am_states m" "am_current m' = am_current m"
      "am_mhd m' = am_mhd m" "am_objects m' = am_objects m" using attach_keeps [OF _ inv, of resp ss] assms(4) by metis
  then show ?thesis using assms(1) by (auto simp: in_request_def intro: apart_states)
qed

text \<open>The connection is suspended.\<close>

lemma suspend_keeps:
  assumes inv: "mem_inv None m" and st: "am_states m r = Some st" "\<not> as_suspended st" and free: "\<And>r'. \<not> waits m r' c"
  shows "\<exists>b m' st'. suspend_if_outstanding c r m = Done (b, m') \<and> mem_inv None m' \<and> am_states m' r = Some st' \<and> as_slots st' = as_slots st \<and>
    as_outstanding st' = as_outstanding st \<and> b = (0 < as_outstanding st) \<and> (b \<longrightarrow> as_suspended st' \<and> as_connection st' = c) \<and> (\<not> b \<longrightarrow> m' = m) \<and>
    (\<forall>r'. r' \<noteq> r \<longrightarrow> am_states m' r' = am_states m r') \<and> am_mhd m' = (if b then (am_mhd m)(c := True) else am_mhd m) \<and>
    am_current m' = am_current m \<and> am_objects m' = am_objects m \<and> am_slots m' = am_slots m \<and> am_jobs m' = am_jobs m"
proof (cases "0 < as_outstanding st")
  case False
  then show ?thesis using inv st by (intro exI [of _ False] exI [of _ m] exI [of _ st]) (simp add: suspend_if_outstanding_def)
next
  case True
  define st1 where "st1 = st\<lparr>as_suspended := True, as_connection := c\<rparr>"
  define m' where "m' = m\<lparr>am_states := (am_states m)(r \<mapsto> st1), am_suspended := am_suspended m + 1, am_mhd := (am_mhd m)(c := True)\<rparr>"
  have "\<not> am_mhd m c" using inv free by (auto simp: mem_inv_def conns_inv_def)
  then have run: "suspend_if_outstanding c r m = Done (True, m')"
    using True st by (auto simp: suspend_if_outstanding_def MHD_suspend_connection_def m'_def st1_def)
  have "same_slots m m'" by (simp add: same_slots_def m'_def)
  note f = slot_frame [OF this]
  have fields: "am_jobs m' = am_jobs m" "am_states m' r' = (if r' = r then Some st1 else am_states m r')" for r' by (simp_all add: m'_def)
  have sinv: "state_inv None m r' st'" if "am_states m r' = Some st'" for r' st' using inv that by (simp add: mem_inv_def)
  have "\<exists>r' st'. am_states m' r' = Some st' \<and> slot_of m x r' \<and> x \<in> set (as_slots st')" if x: "x \<in> set (am_jobs m)" for x
  proof -
    obtain r2 st2 where "am_states m r2 = Some st2" "slot_of m x r2" "x \<in> set (as_slots st2)"
      using inv x unfolding mem_inv_def jobs_inv_def by auto
    then show ?thesis using st(1) by (cases "r2 = r") (auto simp: fields st1_def)
  qed
  then have "jobs_inv None m'" using inv by (simp add: mem_inv_def jobs_inv_def f fields(1))
  moreover have "state_inv None m' r' st'" if x: "am_states m' r' = Some st'" for r' st'
  proof (cases "r' = r")
    case True2: True
    then have "st' = st1" using x by (simp add: fields)
    then show ?thesis using sinv [OF st(1)] True unfolding True2 state_inv_def f by (auto simp: st1_def m'_def)
  next
    case False
    then have x': "am_states m r' = Some st'" using x by (simp add: fields)
    moreover have "as_suspended st' \<Longrightarrow> as_connection st' \<noteq> c" using free [of r'] x' by (auto simp: waits_def)
    ultimately show ?thesis using sinv [OF x'] unfolding state_inv_def f by (auto simp: fields(1)) (auto simp: m'_def)
  qed
  moreover have w: "waits m' r' d = (if r' = r then d = c else waits m r' d)" for r' d using st by (auto simp: waits_def fields st1_def)
  have "conns_inv m'"
  proof -
    have "{r'. \<exists>d. waits m' r' d} = insert r {r'. \<exists>d. waits m r' d}" by (auto simp: w split: if_splits)
    moreover have "r \<notin> {r'. \<exists>d. waits m r' d}" using st by (auto simp: waits_def)
    moreover have c: "finite {r'. \<exists>d. waits m r' d}" "int (card {r'. \<exists>d. waits m r' d}) \<le> am_suspended m"
      using inv by (simp_all add: mem_inv_def conns_inv_def)
    ultimately have "finite {r'. \<exists>d. waits m' r' d} \<and> int (card {r'. \<exists>d. waits m' r' d}) \<le> am_suspended m'" by (simp add: m'_def)
    moreover have "\<exists>r'. waits m' r' d" if d: "am_mhd m' d" for d
    proof (cases "d = c")
      case False
      then obtain r2 where "waits m r2 d" using inv d by (auto simp: mem_inv_def conns_inv_def m'_def)
      moreover have "r2 \<noteq> r" using calculation st by (auto simp: waits_def)
      ultimately show ?thesis using w by metis
    qed (use w in metis)
    moreover have "r1 = r2" if "waits m' r1 d" "waits m' r2 d" for r1 r2 d
      using that inv free by (auto simp: w mem_inv_def conns_inv_def split: if_splits)
    ultimately show ?thesis by (simp add: conns_inv_def)
  qed
  moreover have "objects_inv m'" using inv by (simp add: mem_inv_def objects_inv_def m'_def)
  ultimately have "mem_inv None m'" by (simp add: mem_inv_def)
  then show ?thesis using run True
    by (intro exI [of _ True] exI [of _ m'] exI [of _ st1]) (simp add: fields st1_def, simp add: m'_def)
qed

text \<open>The results are filled in.\<close>

lemma finish_slots_keeps:
  "mem_inv p m \<Longrightarrow> \<forall>s\<in>set ss. am_slots m s \<noteq> None \<Longrightarrow> \<exists>m'. finish_slots ss m = Done m' \<and> mem_inv p m' \<and>
    am_states m' = am_states m \<and> am_current m' = am_current m \<and> am_mhd m' = am_mhd m \<and> am_suspended m' = am_suspended m \<and>
    am_jobs m' = am_jobs m \<and> length (am_objects m') = length (am_objects m)"
proof (induction ss arbitrary: m)
  case (Cons s ss)
  then obtain sl where sl: "am_slots m s = Some sl" by auto
  have ok: "a < length (am_objects m)" if "sl_resp sl = Some a \<or> sl_placeholder sl = Some a" for a
    using Cons.prems(1) sl that by (auto simp: mem_inv_def objects_inv_def)
  define clear where "clear = sl\<lparr>sl_placeholder := None\<rparr>"
  have keep: "mem_inv p m1" if "m1 = m\<lparr>am_objects := os\<rparr> \<or> m1 = m\<lparr>am_objects := os, am_slots := (am_slots m)(s \<mapsto> clear)\<rparr>"
    "length os = length (am_objects m)" for m1 os
  proof (rule mem_inv_frame [of m])
    show "objects_inv m1" by (rule objects_inv_frame [of m])
      (use Cons.prems(1) that sl in \<open>auto simp: mem_inv_def clear_def split: if_splits\<close>)
    show "same_slots m m1" using that sl by (auto simp: same_slots_def clear_def)
  qed (use that Cons.prems(1) in auto)
  have "\<exists>os m1. finish_slots (s # ss) m = finish_slots ss m1 \<and> length os = length (am_objects m) \<and>
      (m1 = m\<lparr>am_objects := os\<rparr> \<or> m1 = m\<lparr>am_objects := os, am_slots := (am_slots m)(s \<mapsto> clear)\<rparr>)"
  proof (cases "sl_resp sl = None \<or> sl_rc sl = 0 \<and> sl_placeholder sl = None")
    case True
    then have "finish_slots (s # ss) m = finish_slots ss m" using sl by (auto split: option.split)
    then show ?thesis by (intro exI [of _ "am_objects m"] exI [of _ m]) simp
  next
    case False
    then obtain a where a: "sl_resp sl = Some a" by auto
    show ?thesis
    proof (cases "sl_rc sl = 0")
      case True
      then obtain q where q: "sl_placeholder sl = Some q" using False by auto
      let ?os = "(am_objects m)[q := fill_send_result (sl_object_len sl) (sl_inv_hash sl) (am_objects m ! q)]"
      have "finish_slots (s # ss) m = finish_slots ss (m\<lparr>am_objects := ?os\<rparr>)" using sl a q True ok by (simp add: update_object_def)
      then show ?thesis by (metis length_list_update)
    next
      case False
      let ?os = "(am_objects m)[a := delete_member (lit ''result'') (am_objects m ! a) @ [(lit ''error'', send_failed_error)]]"
      have "finish_slots (s # ss) m = finish_slots ss (m\<lparr>am_objects := ?os, am_slots := (am_slots m)(s \<mapsto> clear)\<rparr>)"
        using sl a False ok by (simp add: update_object_def clear_def)
      then show ?thesis by (metis length_list_update)
    qed
  qed
  then obtain os m1 where m1: "finish_slots (s # ss) m = finish_slots ss m1" "length os = length (am_objects m)"
    "m1 = m\<lparr>am_objects := os\<rparr> \<or> m1 = m\<lparr>am_objects := os, am_slots := (am_slots m)(s \<mapsto> clear)\<rparr>" by blast
  have "\<forall>x\<in>set ss. am_slots m1 x \<noteq> None" using m1(3) Cons.prems(2) by auto
  from Cons.IH [OF keep [OF m1(3,2)] this] m1 show ?case by (auto simp del: finish_slots.simps)
qed simp

lemma unsuspend_keeps:
  assumes inv: "mem_inv None m" and st: "am_states m r = Some st" "as_suspended st" "as_outstanding st = 0"
  shows "mem_inv None (m\<lparr>am_states := (am_states m)(r \<mapsto> st\<lparr>as_suspended := False\<rparr>), am_suspended := am_suspended m - 1\<rparr>)" (is "mem_inv None ?m")
proof -
  have "same_slots m ?m" by (simp add: same_slots_def)
  note f = slot_frame [OF this]
  have sinv: "state_inv None m r' st'" if "am_states m r' = Some st'" for r' st' using inv that by (simp add: mem_inv_def)
  have w: "waits ?m r' c = (r' \<noteq> r \<and> waits m r' c)" for r' c by (auto simp: waits_def)
  have wr: "waits m r (as_connection st)" using st by (auto simp: waits_def)
  have off: "\<not> am_mhd m (as_connection st)" using sinv [OF st(1)] st by (simp add: state_inv_def)
  have "\<exists>r' st'. am_states ?m r' = Some st' \<and> slot_of m x r' \<and> x \<in> set (as_slots st')" if x: "x \<in> set (am_jobs m)" for x
  proof -
    obtain r2 st2 where "am_states m r2 = Some st2" "slot_of m x r2" "x \<in> set (as_slots st2)"
      using inv x unfolding mem_inv_def jobs_inv_def by auto
    then show ?thesis using st(1) by (cases "r2 = r") auto
  qed
  then have "jobs_inv None ?m" using inv by (simp add: mem_inv_def jobs_inv_def f)
  moreover have "state_inv None ?m r' st'" if x: "am_states ?m r' = Some st'" for r' st'
    using x sinv [of r' st'] sinv [OF st(1)] unfolding state_inv_def f by (cases "r' = r") auto
  moreover have "conns_inv ?m"
  proof -
    have "{r'. \<exists>d. waits ?m r' d} = {r'. \<exists>d. waits m r' d} - {r}" by (auto simp: w)
    moreover have c: "finite {r'. \<exists>d. waits m r' d}" "int (card {r'. \<exists>d. waits m r' d}) \<le> am_suspended m" "r \<in> {r'. \<exists>d. waits m r' d}"
      using inv wr by (auto simp: mem_inv_def conns_inv_def)
    moreover have "0 < card {r'. \<exists>d. waits m r' d}" using c by (auto simp: card_gt_0_iff)
    ultimately have "finite {r'. \<exists>d. waits ?m r' d} \<and> int (card {r'. \<exists>d. waits ?m r' d}) \<le> am_suspended ?m" by (simp add: card_Diff_singleton)
    moreover have "\<exists>r'. waits ?m r' d" if d: "am_mhd m d" for d
    proof -
      obtain r2 where "waits m r2 d" using inv d by (auto simp: mem_inv_def conns_inv_def)
      moreover have "r2 \<noteq> r" using calculation off d st(1) by (auto simp: waits_def)
      ultimately show ?thesis by (auto simp: w)
    qed
    ultimately show ?thesis using inv by (auto simp: conns_inv_def w mem_inv_def)
  qed
  moreover have "objects_inv ?m" using inv by (simp add: mem_inv_def objects_inv_def)
  ultimately show ?thesis by (simp add: mem_inv_def)
qed

lemma finish_keeps:
  assumes inv: "mem_inv None m" and st: "am_states m r = Some st" "as_outstanding st = 0"
  shows "\<exists>m' st'. finish_async r m = Done m' \<and> mem_inv None m' \<and> am_states m' r = Some st' \<and> as_outstanding st' = 0 \<and> \<not> as_suspended st' \<and>
    as_slots st' = as_slots st \<and> (\<forall>r'. r' \<noteq> r \<longrightarrow> am_states m' r' = am_states m r') \<and> am_current m' = am_current m \<and> am_mhd m' = am_mhd m \<and>
    am_jobs m' = am_jobs m"
proof -
  define st1 where "st1 = st\<lparr>as_suspended := False\<rparr>"
  define m1 where "m1 = (if as_suspended st then m\<lparr>am_states := (am_states m)(r \<mapsto> st1), am_suspended := am_suspended m - 1\<rparr> else m)"
  have inv1: "mem_inv None m1" using inv unsuspend_keeps [OF inv st(1) _ st(2)] by (simp add: m1_def st1_def)
  have "\<forall>s\<in>set (as_slots st). am_slots m1 s \<noteq> None" using registered_slots [OF inv st(1)] by (force simp: slot_of_def m1_def)
  from finish_slots_keeps [OF inv1 this] obtain m' where m': "finish_slots (as_slots st) m1 = Done m'" "mem_inv None m'"
    "am_states m' = am_states m1" "am_current m' = am_current m1" "am_mhd m' = am_mhd m1" "am_jobs m' = am_jobs m1" by blast
  have "finish_async r m = Done m'" using m'(1) st(1) unfolding finish_async_def m1_def st1_def by simp
  moreover have "am_states m1 r = Some (if as_suspended st then st1 else st)" using st(1) by (simp add: m1_def)
  ultimately show ?thesis using m' st by (intro exI [of _ m'] exI [of _ "if as_suspended st then st1 else st"]) (auto simp: m1_def st1_def)
qed

text \<open>The request is over.\<close>

lemma free_slots_all:
  "distinct ss \<Longrightarrow> \<forall>s\<in>set ss. h s \<noteq> None \<Longrightarrow> free_slots ss h = Done (\<lambda>s. if s \<in> set ss then None else h s)"
proof (induction ss arbitrary: h)
  case (Cons s ss)
  have "\<forall>x\<in>set ss. (h(s := None)) x \<noteq> None" using Cons.prems by auto
  then have "free_slots ss (h(s := None)) = Done (\<lambda>x. if x \<in> set ss then None else (h(s := None)) x)"
    using Cons.prems(1) by (intro Cons.IH) simp_all
  then show ?case using Cons.prems by (auto simp: fun_eq_iff)
qed simp

lemma free_keeps:
  assumes inv: "mem_inv None m" and st: "am_states m r = Some st" "as_outstanding st = 0"
  shows "\<exists>m'. api_async_state_free (Some r) m = Done m' \<and> mem_inv None m' \<and> am_states m' = (am_states m)(r := None) \<and>
    am_current m' = am_current m \<and> am_mhd m' = am_mhd m \<and> am_jobs m' = am_jobs m"
proof -
  have sinv: "state_inv None m r' st'" if "am_states m r' = Some st'" for r' st' using inv that by (simp add: mem_inv_def)
  define h where "h = (\<lambda>s. if s \<in> set (as_slots st) then None else am_slots m s)"
  define m' where "m' = m\<lparr>am_slots := h, am_states := (am_states m)(r := None)\<rparr>"
  have "free_slots (as_slots st) (am_slots m) = Done h" unfolding h_def
    by (rule free_slots_all) (use sinv [OF st(1)] in \<open>auto simp: state_inv_def slot_of_def\<close>)
  then have run: "api_async_state_free (Some r) m = Done m'" using st by (simp add: api_async_state_free_def m'_def)
  have nj: "x \<notin> set (am_jobs m)" if "x \<in> set (as_slots st)" for x
  proof -
    have "\<not> undone m x" using sinv [OF st(1)] st(2) that by (auto simp: state_inv_def filter_empty_conv)
    then show ?thesis using inv by (auto simp: mem_inv_def jobs_inv_def)
  qed
  have out: "x \<notin> set (as_slots st)" if "slot_of m x r'" "r' \<noteq> r" for x r'
    using registered_slots [OF inv st(1), of x] that by (auto simp: slot_of_def)
  have sl: "x \<notin> set (as_slots st) \<Longrightarrow> slot_of m' x r' = slot_of m x r' \<and> undone m' x = undone m x" for x r'
    by (simp add: slot_of_def undone_def m'_def h_def)
  have fields: "am_jobs m' = am_jobs m" "am_mhd m' = am_mhd m" "am_states m' r' = (if r' = r then None else am_states m r')" for r'
    by (simp_all add: m'_def)
  have "state_inv None m' r' st'" if x: "am_states m' r' = Some st'" for r' st'
  proof -
    have x': "am_states m r' = Some st'" "r' \<noteq> r" using x by (auto simp: fields split: if_splits)
    have o: "\<forall>x\<in>set (as_slots st'). x \<notin> set (as_slots st)" using out registered_slots [OF inv x'(1)] x'(2) by blast
    then have "filter (undone m') (as_slots st') = filter (undone m) (as_slots st')" using sl by (intro filter_cong) auto
    then show ?thesis using sinv [OF x'(1)] o sl unfolding state_inv_def by (simp add: fields)
  qed
  moreover have "jobs_inv None m'"
  proof -
    have "undone m' x \<and> (\<exists>r' st'. am_states m' r' = Some st' \<and> slot_of m' x r' \<and> x \<in> set (as_slots st'))" if x: "x \<in> set (am_jobs m)" for x
    proof -
      obtain r2 st2 where j: "undone m x" "am_states m r2 = Some st2" "slot_of m x r2" "x \<in> set (as_slots st2)"
        using inv x unfolding mem_inv_def jobs_inv_def by auto
      have "x \<notin> set (as_slots st)" using nj x by blast
      moreover have "r2 \<noteq> r" using calculation j st by auto
      ultimately show ?thesis using j sl by (auto simp: fields)
    qed
    then show ?thesis using inv by (simp add: jobs_inv_def mem_inv_def fields)
  qed
  moreover have "conns_inv m'"
  proof -
    have w: "waits m' r' c = (r' \<noteq> r \<and> waits m r' c)" for r' c by (auto simp: waits_def fields)
    have "{r'. \<exists>d. waits m' r' d} \<subseteq> {r'. \<exists>d. waits m r' d}" by (auto simp: w)
    moreover have c: "finite {r'. \<exists>d. waits m r' d}" "int (card {r'. \<exists>d. waits m r' d}) \<le> am_suspended m'"
      using inv by (auto simp: mem_inv_def conns_inv_def m'_def)
    ultimately have "finite {r'. \<exists>d. waits m' r' d} \<and> int (card {r'. \<exists>d. waits m' r' d}) \<le> am_suspended m'"
      using card_mono [OF c(1), of "{r'. \<exists>d. waits m' r' d}"] finite_subset by auto
    moreover have "\<exists>r'. waits m' r' d" if d: "am_mhd m d" for d
    proof -
      obtain r2 where "waits m r2 d" using inv d by (auto simp: mem_inv_def conns_inv_def)
      moreover have "r2 \<noteq> r" using calculation sinv [OF st(1)] d st by (auto simp: waits_def state_inv_def)
      ultimately show ?thesis by (auto simp: w)
    qed
    moreover have "r1 = r2" if "waits m' r1 d" "waits m' r2 d" for r1 r2 d
      using that inv unfolding w mem_inv_def conns_inv_def by blast
    ultimately show ?thesis by (simp add: conns_inv_def fields(2))
  qed
  moreover have "objects_inv m'" by (rule objects_inv_frame [of m]) (use inv in \<open>auto simp: mem_inv_def m'_def h_def split: if_splits\<close>)
  ultimately have "mem_inv None m'" by (simp add: mem_inv_def)
  then show ?thesis using run by (auto simp: m'_def)
qed

section \<open>Every connection is resumed\<close>

lemma suspended_job:
  assumes "mem_inv None m" "am_mhd m c"
  shows "\<exists>r st s. am_states m r = Some st \<and> as_suspended st \<and> as_connection st = c \<and> s \<in> set (as_slots st) \<and> s \<in> set (am_jobs m)"
proof -
  obtain r st where st: "am_states m r = Some st" "as_suspended st" "as_connection st = c"
    using assms unfolding mem_inv_def conns_inv_def waits_def by blast
  then have si: "state_inv None m r st" using assms(1) by (simp add: mem_inv_def)
  then have "filter (undone m) (as_slots st) \<noteq> []" using st assms(2) by (auto simp: state_inv_def)
  then obtain s where "s \<in> set (as_slots st)" "undone m s" by (auto simp: filter_empty_conv)
  then show ?thesis using st si by (auto simp: state_inv_def)
qed

lemma all_reported:
  assumes "mem_inv None m" "\<forall>rp\<in>set rps. report_ok rp" "set (am_jobs m) \<subseteq> rp_slot ` set rps"
  shows "\<exists>m'. run_reports ssl rps m = Done m' \<and> am_jobs m' = [] \<and> (\<forall>c. \<not> am_mhd m' c)"
  using assms
proof (induction rps arbitrary: m)
  case Nil
  then show ?case using suspended_job by fastforce
next
  case (Cons rp rps)
  obtain m1 where m1: "run_report ssl rp m = Done m1" "mem_inv None m1" "am_jobs m1 = remove1 (rp_slot rp) (am_jobs m)"
    using run_report_inv [OF Cons.prems(1), of rp ssl] Cons.prems(2) by auto
  have "distinct (am_jobs m)" using Cons.prems(1) by (simp add: mem_inv_def jobs_inv_def)
  then have "set (am_jobs m1) \<subseteq> rp_slot ` set rps" using Cons.prems(3) m1(3) by (auto simp: set_remove1_eq)
  then show ?case using Cons.IH [OF m1(2)] Cons.prems(2) m1(1) by auto
qed

end
