(* ===== verification/Api_Server.thy ===== *)
theory Api_Server
  imports Api_Async
begin

text \<open>
  The JSON-RPC server (\<open>src/core/api_server.c\<close>) around its methods: HTTP basic authentication, the handling of
  one request and of a batch, the body of an HTTP request, the suspension of a connection and its end. The
  table of methods is an argument; theory \<open>Api_Methods\<close> has the methods of the program. cJSON's parser and
  printer and libmicrohttpd's view of a request are arguments too.

  Connections and the worker of the proof-of-work queue interleave as the step relation \<open>api_step\<close>.
\<close>

abbreviation MAX_REQUEST_SIZE :: nat where "MAX_REQUEST_SIZE \<equiv> 1024 * 1024"
abbreviation BM_JSONRPC_MAX_BATCH_SIZE :: nat where "BM_JSONRPC_MAX_BATCH_SIZE \<equiv> 256"
abbreviation INT_MAX :: nat where "INT_MAX \<equiv> 2147483647"

section \<open>Authentication\<close>

definition constant_time_equal :: "bytes \<Rightarrow> bytes \<Rightarrow> bool" where
  "constant_time_equal a b \<longleftrightarrow> length a = length b \<and> fold (\<lambda>(x, y) diff. diff OR (x XOR y)) (zip a b) 0 = 0"

text \<open>The credentials of the configuration, and what libmicrohttpd finds in the request.\<close>

record api_credentials =
  ac_username :: "bytes option"
  ac_password :: "bytes option"

type_synonym basic_auth_info = "(bytes \<times> bytes option) option"

definition check_basic_auth :: "api_credentials \<Rightarrow> basic_auth_info \<Rightarrow> bool" where
  "check_basic_auth config auth =
     (case ac_username config of
        None \<Rightarrow> True
      | Some username \<Rightarrow>
          (case auth of
             None \<Rightarrow> False
           | Some (user, pass) \<Rightarrow>
               let password = (case pass of Some p \<Rightarrow> p | None \<Rightarrow> []);
                   expected_password = (case ac_password config of Some p \<Rightarrow> c_str p | None \<Rightarrow> [])
               in constant_time_equal user (c_str username) \<and> constant_time_equal password expected_password))"

section \<open>Parameters of a request\<close>

fun param_at :: "cjson option \<Rightarrow> nat \<Rightarrow> cjson option" where
  "param_at (Some (CJ_Array xs)) i = (if i \<le> INT_MAX \<and> i < length xs then Some (xs ! i) else None)"
| "param_at params i = None"

fun json_cstr :: "cjson option \<Rightarrow> bytes option" where
  "json_cstr (Some (CJ_String s)) = Some (c_str s)"
| "json_cstr v = None"

fun json_num :: "cjson option \<Rightarrow> double" where
  "json_num (Some (CJ_Number d)) = d"
| "json_num v = Finite 0"

definition json_obj_get :: "members \<Rightarrow> bytes \<Rightarrow> cjson option" where
  "json_obj_get ms key = map_of ms key"

definition param_str :: "cjson option \<Rightarrow> nat \<Rightarrow> bytes option" where
  "param_str params i = json_cstr (param_at params i)"

section \<open>One request\<close>

text \<open>A method: what the system gives, the parameters, the node and the memory of the server.\<close>

type_synonym ('e, 'n) api_handler = "'e \<Rightarrow> cjson option \<Rightarrow> 'n \<Rightarrow> api_mem \<Rightarrow> (cjson option \<times> bytes option \<times> 'n \<times> api_mem) outcome"

definition BM_JSONRPC_ERR_PARSE :: int where "BM_JSONRPC_ERR_PARSE = -32700"
definition BM_JSONRPC_ERR_INVALID_REQUEST :: int where "BM_JSONRPC_ERR_INVALID_REQUEST = -32600"
definition BM_JSONRPC_ERR_METHOD_NOT_FOUND :: int where "BM_JSONRPC_ERR_METHOD_NOT_FOUND = -32601"

fun response_id :: "cjson option \<Rightarrow> cjson" where
  "response_id (Some (CJ_String s)) = CJ_String s"
| "response_id (Some (CJ_Number d)) = CJ_Number d"
| "response_id v = CJ_Null"

text \<open>The members of a response, and the response as a new object.\<close>

definition response_members :: "cjson option \<Rightarrow> cjson option \<Rightarrow> int \<Rightarrow> bytes option \<Rightarrow> members" where
  "response_members ident result error_code error_msg =
     [(lit ''jsonrpc'', json_str (Some (lit ''2.0''))),
      (case error_msg of
         Some msg \<Rightarrow> (lit ''error'', CJ_Object [(lit ''code'', json_int error_code), (lit ''message'', json_str (Some msg))])
       | None \<Rightarrow> (lit ''result'', case result of Some v \<Rightarrow> v | None \<Rightarrow> CJ_Null)),
      (lit ''id'', response_id ident)]"

definition build_response :: "cjson option \<Rightarrow> cjson option \<Rightarrow> int \<Rightarrow> bytes option \<Rightarrow> api_mem \<Rightarrow> nat \<times> api_mem" where
  "build_response ident result error_code error_msg m =
     (length (am_objects m), m\<lparr>am_objects := am_objects m @ [response_members ident result error_code error_msg]\<rparr>)"

text \<open>The slots of the current request.\<close>

definition current_slots :: "api_mem \<Rightarrow> nat list outcome" where
  "current_slots m =
     (case am_current m of
        None \<Rightarrow> Done []
      | Some r \<Rightarrow> (case am_states m r of None \<Rightarrow> Fault | Some st \<Rightarrow> Done (as_slots st)))"

text \<open>The response is the address of its object.\<close>

definition call_method ::
  "('e, 'n) api_handler \<Rightarrow> 'e \<Rightarrow> cjson option \<Rightarrow> cjson option \<Rightarrow> 'n \<Rightarrow> api_mem \<Rightarrow> (nat option \<times> 'n \<times> api_mem) outcome" where
  "call_method handler e ident params n m =
     bind_outcome (current_slots m) (\<lambda>before.
     bind_outcome (handler e params n m) (\<lambda>(result, error_msg, n1, m1).
       let (resp, m2) = (if ident = None then (None, m1)
                         else case build_response ident result BM_JSONRPC_ERR_SERVER error_msg m1 of (a, m2) \<Rightarrow> (Some a, m2))
       in bind_outcome (current_slots m2) (\<lambda>slots.
          bind_outcome (attach_slots resp (drop (length before) slots) m2) (\<lambda>m3. Done (resp, n1, m3)))))"

definition process_one_request ::
  "(bytes \<times> ('e, 'n) api_handler) list \<Rightarrow> 'e \<Rightarrow> cjson \<Rightarrow> 'n \<Rightarrow> api_mem \<Rightarrow> (nat option \<times> 'n \<times> api_mem) outcome" where
  "process_one_request methods e req n m =
     (case req of
        CJ_Object ms \<Rightarrow>
          let ident = json_obj_get ms (lit ''id'');
              params = json_obj_get ms (lit ''params'');
              refuse = (\<lambda>code msg. if ident = None then Done (None, n, m)
                else case build_response ident None code (Some msg) m of (a, m1) \<Rightarrow> Done (Some a, n, m1))
          in (case json_cstr (json_obj_get ms (lit ''method'')) of
                None \<Rightarrow> refuse BM_JSONRPC_ERR_INVALID_REQUEST (lit ''Invalid request: missing method'')
              | Some name \<Rightarrow>
                  (case map_of methods name of
                     Some handler \<Rightarrow> call_method handler e ident params n m
                   | None \<Rightarrow> refuse BM_JSONRPC_ERR_METHOD_NOT_FOUND (lit ''Method not found'')))
      | _ \<Rightarrow> (case build_response None None BM_JSONRPC_ERR_INVALID_REQUEST (Some (lit ''Invalid request: not a JSON object'')) m of
                (a, m1) \<Rightarrow> Done (Some a, n, m1)))"

section \<open>The body of a request\<close>

text \<open>
  For each request of a batch, what the worker reports before it and what the system gives to its method.
\<close>

type_synonym 'e call_env = "nat \<Rightarrow> send_report list \<times> 'e"

fun process_batch ::
  "openssl \<Rightarrow> (bytes \<times> ('e, 'n) api_handler) list \<Rightarrow> 'e call_env \<Rightarrow> nat \<Rightarrow> cjson list \<Rightarrow> 'n \<Rightarrow> api_mem \<Rightarrow> (nat list \<times> 'n \<times> api_mem) outcome" where
  "process_batch ssl methods env i [] n m = Done ([], n, m)"
| "process_batch ssl methods env i (req # reqs) n m =
     bind_outcome (run_reports ssl (fst (env i)) m) (\<lambda>m1.
     bind_outcome (process_one_request methods (snd (env i)) req n m1) (\<lambda>(resp, n1, m2).
     bind_outcome (process_batch ssl methods env (Suc i) reqs n1 m2) (\<lambda>(resps, n2, m3).
       Done (case resp of None \<Rightarrow> resps | Some a \<Rightarrow> a # resps, n2, m3))))"

definition jsonrpc_error :: "int \<Rightarrow> bytes \<Rightarrow> 'n \<Rightarrow> api_mem \<Rightarrow> (cjson option \<times> 'n \<times> api_mem) outcome" where
  "jsonrpc_error code msg n m = (case build_response None None code (Some msg) m of (a, m1) \<Rightarrow> Done (Some (CJ_At a), n, m1))"

definition process_jsonrpc_request ::
  "openssl \<Rightarrow> (bytes \<Rightarrow> cjson option) \<Rightarrow> (bytes \<times> ('e, 'n) api_handler) list \<Rightarrow> 'e call_env \<Rightarrow> bytes \<Rightarrow> 'n \<Rightarrow> api_mem
     \<Rightarrow> (cjson option \<times> 'n \<times> api_mem) outcome" where
  "process_jsonrpc_request ssl parse methods env body n m =
     (case parse body of
        None \<Rightarrow> jsonrpc_error BM_JSONRPC_ERR_PARSE (lit ''Parse error: invalid JSON'') n m
      | Some (CJ_Array reqs) \<Rightarrow>
          if reqs = [] then jsonrpc_error BM_JSONRPC_ERR_INVALID_REQUEST (lit ''Invalid request: empty batch'') n m
          else if BM_JSONRPC_MAX_BATCH_SIZE < length reqs
          then jsonrpc_error BM_JSONRPC_ERR_INVALID_REQUEST (lit ''Invalid request: batch too large (max 256 requests)'') n m
          else bind_outcome (process_batch ssl methods env 0 reqs n m) (\<lambda>(resps, n1, m1).
                 Done (if resps = [] then None else Some (CJ_Array (map CJ_At resps)), n1, m1))
      | Some req \<Rightarrow>
          bind_outcome (process_one_request methods (snd (env 0)) req n m) (\<lambda>(resp, n1, m1). Done (map_option CJ_At resp, n1, m1)))"

section \<open>HTTP\<close>

record api_request_ctx =
  cx_body :: bytes
  cx_body_cap :: nat
  cx_too_large :: bool
  cx_async :: "nat option"
  cx_tree :: "cjson option"

definition fresh_ctx :: api_request_ctx where
  "fresh_ctx = \<lparr>cx_body = [], cx_body_cap = 0, cx_too_large = False, cx_async = None, cx_tree = None\<rparr>"

datatype http_reply = Text_reply nat bytes | Auth_required | No_content | Json_reply bytes

text \<open>\<open>MHD_NO\<close>, or \<open>MHD_YES\<close> with the response that has been queued.\<close>

datatype mhd_result = MHD_NO | MHD_YES "http_reply option"

text \<open>\<open>ok\<close>: the response is allocated, and libmicrohttpd accepts it.\<close>

definition queue_reply :: "bool \<times> bool \<Rightarrow> http_reply \<Rightarrow> mhd_result" where
  "queue_reply ok reply = (if fst ok \<and> snd ok then MHD_YES (Some reply) else MHD_NO)"

text \<open>The tree with the objects that it refers to, to be printed.\<close>

lemma member_size: "kv \<in> set ms \<Longrightarrow> size (snd kv) < Suc (size_list (size_prod (\<lambda>x. 0) size) ms)"
  by (induction ms) auto

function resolve :: "nat \<Rightarrow> members list \<Rightarrow> cjson \<Rightarrow> cjson" where
  "resolve k objs (CJ_Array xs) = CJ_Array (map (resolve k objs) xs)"
| "resolve k objs (CJ_Object ms) = CJ_Object (map (\<lambda>kv. (fst kv, resolve k objs (snd kv))) ms)"
| "resolve (Suc k) objs (CJ_At a) = (if a < length objs then CJ_Object (map (\<lambda>kv. (fst kv, resolve k objs (snd kv))) (objs ! a)) else CJ_Null)"
| "resolve 0 objs (CJ_At a) = CJ_Null"
| "resolve k objs CJ_Null = CJ_Null"
| "resolve k objs (CJ_Bool b) = CJ_Bool b"
| "resolve k objs (CJ_Number d) = CJ_Number d"
| "resolve k objs (CJ_String s) = CJ_String s"
  by pat_completeness auto
termination
  by (relation "measures [\<lambda>(k, objs, v). k, \<lambda>(k, objs, v). size v]")
    (auto simp: less_Suc_eq_le size_list_estimation' member_size [unfolded less_Suc_eq_le])

text \<open>The loop that doubles the capacity.\<close>

function body_cap :: "nat \<Rightarrow> nat \<Rightarrow> nat" where
  "body_cap new_cap need = (if new_cap < need \<and> 0 < new_cap then body_cap (new_cap * 2) need else new_cap)"
  by pat_completeness auto
termination by (relation "measure (\<lambda>(new_cap, need). need - new_cap)") auto

declare body_cap.simps [simp del]

definition receive_chunk :: "bool \<Rightarrow> bytes \<Rightarrow> api_request_ctx \<Rightarrow> api_request_ctx outcome" where
  "receive_chunk mem chunk cx =
     (if cx_too_large cx \<or> MAX_REQUEST_SIZE < length (cx_body cx) + length chunk then Done (cx\<lparr>cx_too_large := True\<rparr>)
      else
        let need = length (cx_body cx) + length chunk + 1;
            grow = cx_body_cap cx < need;
            cap = (if grow then body_cap (if cx_body_cap cx = 0 then 4096 else cx_body_cap cx) need else cx_body_cap cx)
        in if grow \<and> \<not> mem then Done (cx\<lparr>cx_too_large := True\<rparr>)
           else if cap < length (cx_body cx) + length chunk then Fault
           else Done (cx\<lparr>cx_body := cx_body cx @ chunk, cx_body_cap := cap\<rparr>))"

text \<open>What the system gives for one call of the handler. \<open>ae_state\<close> is the allocator of the requests' states.\<close>

record 'e access_env =
  ae_ctx :: bool
  ae_grow :: bool
  ae_state :: "(nat \<rightharpoonup> api_async_state) \<Rightarrow> nat option"
  ae_response :: "bool \<times> bool"
  ae_calls :: "'e call_env"
  ae_late :: "send_report list"

text \<open>\<open>print\<close> is cJSON's printer.\<close>

definition queue_jsonrpc_response :: "(cjson \<Rightarrow> bytes option) \<Rightarrow> bool \<times> bool \<Rightarrow> members list \<Rightarrow> cjson option \<Rightarrow> mhd_result" where
  "queue_jsonrpc_response print ok objs tree =
     (case tree of
        None \<Rightarrow> queue_reply ok No_content
      | Some t \<Rightarrow>
          (case print (resolve (Suc (length objs)) objs t) of
             None \<Rightarrow> MHD_NO
           | Some text \<Rightarrow> queue_reply ok (Json_reply text)))"

definition finish_async_response ::
  "(cjson \<Rightarrow> bytes option) \<Rightarrow> bool \<times> bool \<Rightarrow> nat \<Rightarrow> api_request_ctx \<Rightarrow> api_mem \<Rightarrow> (mhd_result \<times> api_request_ctx \<times> api_mem) outcome" where
  "finish_async_response print ok r cx m =
     bind_outcome (finish_async r m) (\<lambda>m1.
       Done (queue_jsonrpc_response print ok (am_objects m1) (cx_tree cx), cx\<lparr>cx_tree := None\<rparr>, m1))"

text \<open>The last part of \<open>api_access_handler\<close>, when the body is complete.\<close>

definition process_body ::
  "openssl \<Rightarrow> (bytes \<Rightarrow> cjson option) \<Rightarrow> (cjson \<Rightarrow> bytes option) \<Rightarrow> (bytes \<times> ('e, 'n) api_handler) list \<Rightarrow> 'e access_env \<Rightarrow> nat
     \<Rightarrow> api_request_ctx \<Rightarrow> 'n \<Rightarrow> api_mem \<Rightarrow> (mhd_result \<times> api_request_ctx \<times> 'n \<times> api_mem) outcome" where
  "process_body ssl parse print methods env c cx n m =
     (case ae_state env (am_states m) of
        None \<Rightarrow> Done (MHD_NO, cx, n, m)
      | Some r \<Rightarrow>
          bind_outcome (process_jsonrpc_request ssl parse methods (ae_calls env) (cx_body cx) n (request_begin r m)) (\<lambda>(tree, n1, m1).
          bind_outcome (run_reports ssl (ae_late env) (m1\<lparr>am_current := None\<rparr>)) (\<lambda>m2.
          bind_outcome (suspend_if_outstanding c r m2) (\<lambda>(suspended, m3).
            let cx1 = cx\<lparr>cx_tree := tree, cx_async := Some r\<rparr>
            in if suspended then Done (MHD_YES None, cx1, n1, m3)
               else bind_outcome (finish_async_response print (ae_response env) r cx1 m3) (\<lambda>(res, cx2, m4). Done (res, cx2, n1, m4))))))"

text \<open>
  A call of the handler for the connection \<open>c\<close>: the context of the request (\<open>None\<close> in its first call), the HTTP method,
  the credentials found and the part of the body that has come.
\<close>

definition api_access_handler ::
  "openssl \<Rightarrow> (bytes \<Rightarrow> cjson option) \<Rightarrow> (cjson \<Rightarrow> bytes option) \<Rightarrow> api_credentials \<Rightarrow> (bytes \<times> ('e, 'n) api_handler) list \<Rightarrow> 'e access_env \<Rightarrow> nat
     \<Rightarrow> bytes \<Rightarrow> basic_auth_info \<Rightarrow> bytes \<Rightarrow> api_request_ctx option \<Rightarrow> 'n \<Rightarrow> api_mem
     \<Rightarrow> (mhd_result \<times> api_request_ctx option \<times> 'n \<times> api_mem) outcome" where
  "api_access_handler ssl parse print config methods env c http_method auth upload ctx n m =
     (case ctx of
        None \<Rightarrow>
          if http_method \<noteq> lit ''POST'' then Done (queue_reply (ae_response env) (Text_reply 405 (lit ''POST only'' @ [10])), None, n, m)
          else if \<not> check_basic_auth config auth then Done (queue_reply (ae_response env) Auth_required, None, n, m)
          else if ae_ctx env then Done (MHD_YES None, Some fresh_ctx, n, m)
          else Done (MHD_NO, None, n, m)
      | Some cx \<Rightarrow>
          if upload \<noteq> [] then bind_outcome (receive_chunk (ae_grow env) upload cx) (\<lambda>cx1. Done (MHD_YES None, Some cx1, n, m))
          else (case cx_async cx of
                  Some r \<Rightarrow> bind_outcome (finish_async_response print (ae_response env) r cx m) (\<lambda>(res, cx1, m1). Done (res, Some cx1, n, m1))
                | None \<Rightarrow>
                    if cx_too_large cx
                    then Done (queue_reply (ae_response env) (Text_reply 413 (lit ''request body too large'' @ [10])), Some cx, n, m)
                    else bind_outcome (process_body ssl parse print methods env c cx n m) (\<lambda>(res, cx1, n1, m1). Done (res, Some cx1, n1, m1))))"

definition api_request_completed :: "api_request_ctx option \<Rightarrow> api_mem \<Rightarrow> api_mem outcome" where
  "api_request_completed ctx m = (case ctx of None \<Rightarrow> Done m | Some cx \<Rightarrow> api_async_state_free (cx_async cx) m)"

section \<open>What the server keeps\<close>

text \<open>
  The interface of the methods: with what the system is assumed to give, a method leaves the memory of the
  server well formed and the other requests alone.
\<close>

locale api_methods =
  fixes methods :: "(bytes \<times> ('e, 'n) api_handler) list" and good :: "'e \<Rightarrow> bool"
  assumes method_keeps: "(name, handler) \<in> set methods \<Longrightarrow> good e \<Longrightarrow> in_request r m \<Longrightarrow>
    handler e params n m = Done (result, err, n', m') \<Longrightarrow> in_request r m' \<and> apart r m m'"
begin

lemma build_response_keeps:
  assumes "in_request r m" "build_response ident result code err m = (a, m')"
  shows "in_request r m'" "apart r m m'" "a < length (am_objects m')" "am_states m' = am_states m" "am_current m' = am_current m"
proof -
  have m': "m' = m\<lparr>am_objects := am_objects m @ [response_members ident result code err]\<rparr>" "a = length (am_objects m)"
    using assms(2) by (auto simp: build_response_def)
  have "objects_inv m'" by (rule objects_inv_frame [of m]) (use assms(1) m' in \<open>auto simp: in_request_def mem_inv_def\<close>)
  then have "mem_inv None m'" using assms(1) mem_inv_frame [of m m' None] m' by (simp add: in_request_def same_slots_def)
  then show "in_request r m'" using assms(1) m' by (simp add: in_request_def)
  show "apart r m m'" "a < length (am_objects m')" "am_states m' = am_states m" "am_current m' = am_current m"
    using m' by (auto intro: apart_states)
qed

lemma call_method_keeps:
  assumes "(name, handler) \<in> set methods" "good e" "in_request r m" "call_method handler e ident params n m = Done (resp, n', m')"
  shows "in_request r m' \<and> apart r m m'"
proof -
  obtain before where b: "current_slots m = Done before" using assms(4) by (auto simp: call_method_def)
  obtain result err n1 m1 where h: "handler e params n m = Done (result, err, n1, m1)" using assms(4) b by (auto simp: call_method_def)
  note r = assms(4) [unfolded call_method_def b h bind_outcome.simps prod.case]
  have m1: "in_request r m1" "apart r m m1" using method_keeps [OF assms(1,2,3) h] by simp_all
  obtain resp1 m2 where m2: "(if ident = None then (None, m1)
      else case build_response ident result BM_JSONRPC_ERR_SERVER err m1 of (a, m2) \<Rightarrow> (Some a, m2)) = (resp1, m2)" by (rule prod.exhaust)
  have k: "in_request r m2" "apart r m1 m2" "\<And>a. resp1 = Some a \<Longrightarrow> a < length (am_objects m2)"
    using m2 m1 build_response_keeps [OF m1(1), of ident result BM_JSONRPC_ERR_SERVER err] by (auto split: if_splits prod.splits)
  obtain st where st: "am_current m2 = Some r" "am_states m2 r = Some st" using k(1) by (auto simp: in_request_def)
  then have "attach_slots resp1 (drop (length before) (as_slots st)) m2 = Done m'" using r m2 by (auto simp: current_slots_def)
  then have "in_request r m'" "apart r m2 m'"
    using attach_in_request [OF k(1) st(2) set_drop_subset k(3), of resp1 "length before"] by auto
  then show ?thesis using m1(2) k(2) apart_trans by blast
qed

lemma one_request_keeps:
  assumes "good e" "in_request r m" "process_one_request methods e req n m = Done (resp, n', m')"
  shows "in_request r m' \<and> apart r m m'"
proof -
  let ?built = "\<exists>ident code err a. build_response ident None code err m = (a, m')"
  have "m' = m \<or> ?built \<or> (\<exists>name handler ident params. (name, handler) \<in> set methods \<and> call_method handler e ident params n m = Done (resp, n', m'))"
    using assms(3) by (auto simp: process_one_request_def Let_def split: cjson.splits option.splits prod.splits if_splits dest: map_of_SomeD)
  then show ?thesis using call_method_keeps [OF _ assms(1,2)] build_response_keeps(1,2) [OF assms(2)] assms(2) apart_refl by metis
qed

lemma batch_keeps:
  assumes "\<forall>i. good (snd (env i)) \<and> (\<forall>rp\<in>set (fst (env i)). report_ok rp)"
  shows "in_request r m \<Longrightarrow> process_batch ssl methods env i reqs n m = Done (resps, n', m') \<Longrightarrow> in_request r m' \<and> apart r m m'"
proof (induction reqs arbitrary: i n m resps)
  case (Cons req reqs)
  obtain m1 resp n1 m2 resps2 where s: "run_reports ssl (fst (env i)) m = Done m1"
      "process_one_request methods (snd (env i)) req n m1 = Done (resp, n1, m2)"
      "process_batch ssl methods env (Suc i) reqs n1 m2 = Done (resps2, n', m')"
    using Cons.prems(2) by auto
  have "in_request r m1" "apart r m m1" using reports_in_request [OF Cons.prems(1), of "fst (env i)" ssl] assms s(1) by auto
  moreover have "in_request r m2 \<and> apart r m1 m2" using one_request_keeps [OF _ calculation(1) s(2)] assms by blast
  ultimately show ?case using Cons.IH [OF _ s(3)] apart_trans by blast
qed simp

lemma jsonrpc_request_keeps:
  assumes "\<forall>i. good (snd (env i)) \<and> (\<forall>rp\<in>set (fst (env i)). report_ok rp)" "in_request r m"
    "process_jsonrpc_request ssl parse methods env body n m = Done (tree, n', m')"
  shows "in_request r m' \<and> apart r m m'"
proof -
  have "(\<exists>code err a. build_response None None code err m = (a, m')) \<or>
      (\<exists>reqs resps. process_batch ssl methods env 0 reqs n m = Done (resps, n', m')) \<or>
      (\<exists>req resp. process_one_request methods (snd (env 0)) req n m = Done (resp, n', m'))"
    using assms(3) unfolding process_jsonrpc_request_def jsonrpc_error_def
    by (auto split: option.splits cjson.splits prod.splits if_splits)
  then show ?thesis
  proof (elim disjE exE)
    fix code err a assume "build_response None None code err m = (a, m')"
    from build_response_keeps [OF assms(2) this] show ?thesis by simp
  next
    fix reqs resps assume "process_batch ssl methods env 0 reqs n m = Done (resps, n', m')"
    from batch_keeps [OF assms(1,2) this] show ?thesis .
  next
    fix req resp assume "process_one_request methods (snd (env 0)) req n m = Done (resp, n', m')"
    from one_request_keeps [OF _ assms(2) this] assms(1) show ?thesis by blast
  qed
qed

end

section \<open>Connections\<close>

text \<open>
  The server with its connections. \<open>aw_answered\<close>: a response has been queued, or the connection is being
  closed; libmicrohttpd then ends the request. The other threads of the daemon change the node.
\<close>

record 'n api_world =
  aw_node :: 'n
  aw_mem :: api_mem
  aw_ctx :: "nat \<rightharpoonup> api_request_ctx"
  aw_answered :: "nat \<Rightarrow> bool"
  aw_replies :: "(nat \<times> http_reply) list"

definition api_world_start :: "bytes list option \<Rightarrow> 'n \<Rightarrow> 'n api_world" where
  "api_world_start queue n = \<lparr>aw_node = n, aw_mem = api_mem_start queue, aw_ctx = Map.empty, aw_answered = (\<lambda>_. False), aw_replies = []\<rparr>"

definition access_env_ok :: "('e \<Rightarrow> bool) \<Rightarrow> 'e access_env \<Rightarrow> bool" where
  "access_env_ok good env \<longleftrightarrow> (\<forall>h r. ae_state env h = Some r \<longrightarrow> h r = None) \<and> (\<forall>rp\<in>set (ae_late env). report_ok rp) \<and>
     (\<forall>i. good (snd (ae_calls env i)) \<and> (\<forall>rp\<in>set (fst (ae_calls env i)). report_ok rp))"

text \<open>
  libmicrohttpd calls the handler for a connection that is not suspended and whose request is not answered, and it
  ends the request of a connection that is not suspended.
\<close>

inductive api_step ::
  "openssl \<Rightarrow> (bytes \<Rightarrow> cjson option) \<Rightarrow> (cjson \<Rightarrow> bytes option) \<Rightarrow> api_credentials \<Rightarrow> (bytes \<times> ('e, 'n) api_handler) list \<Rightarrow> ('e \<Rightarrow> bool)
     \<Rightarrow> 'n api_world \<Rightarrow> 'n api_world \<Rightarrow> bool"
  for ssl parse print config methods good where
  access: "\<not> am_mhd (aw_mem w) c \<Longrightarrow> \<not> aw_answered w c \<Longrightarrow> access_env_ok good env \<Longrightarrow>
    api_access_handler ssl parse print config methods env c http_method auth upload (aw_ctx w c) (aw_node w) (aw_mem w) = Done (res, ctx, n, m) \<Longrightarrow>
    api_step ssl parse print config methods good w
      (w\<lparr>aw_node := n, aw_mem := m, aw_ctx := (aw_ctx w)(c := ctx), aw_answered := (aw_answered w)(c := (res \<noteq> MHD_YES None)),
         aw_replies := aw_replies w @ (case res of MHD_YES (Some reply) \<Rightarrow> [(c, reply)] | _ \<Rightarrow> [])\<rparr>)"
| report: "report_ok rp \<Longrightarrow> run_report ssl rp (aw_mem w) = Done m \<Longrightarrow> api_step ssl parse print config methods good w (w\<lparr>aw_mem := m\<rparr>)"
| completed: "\<not> am_mhd (aw_mem w) c \<Longrightarrow> api_request_completed (aw_ctx w c) (aw_mem w) = Done m \<Longrightarrow>
    api_step ssl parse print config methods good w
      (w\<lparr>aw_mem := m, aw_ctx := (aw_ctx w)(c := None), aw_answered := (aw_answered w)(c := False)\<rparr>)"
| other_threads: "api_step ssl parse print config methods good w (w\<lparr>aw_node := n\<rparr>)"

text \<open>
  A processed request has its state, of which no other connection knows; what is outstanding keeps the
  connection suspended.
\<close>

definition ctx_inv :: "api_mem \<Rightarrow> (nat \<rightharpoonup> api_request_ctx) \<Rightarrow> bool" where
  "ctx_inv m ctxs \<longleftrightarrow>
     (\<forall>c cx r. ctxs c = Some cx \<longrightarrow> cx_async cx = Some r \<longrightarrow>
        (\<exists>st. am_states m r = Some st \<and> (0 < as_outstanding st \<longrightarrow> as_suspended st \<and> as_connection st = c))) \<and>
     (\<forall>r c. waits m r c \<longrightarrow> (\<exists>cx. ctxs c = Some cx \<and> cx_async cx = Some r)) \<and>
     (\<forall>c c' cx cx' r. ctxs c = Some cx \<longrightarrow> ctxs c' = Some cx' \<longrightarrow> cx_async cx = Some r \<longrightarrow> cx_async cx' = Some r \<longrightarrow> c = c')"

definition api_world_ok :: "'n api_world \<Rightarrow> bool" where
  "api_world_ok w \<longleftrightarrow> mem_inv None (aw_mem w) \<and> am_current (aw_mem w) = None \<and> ctx_inv (aw_mem w) (aw_ctx w)"

lemma api_world_ok_start: "api_world_ok (api_world_start queue n)"
  by (simp add: api_world_ok_def api_world_start_def mem_inv_start ctx_inv_def waits_def) (simp add: api_mem_start_def)

lemma outstanding_nonneg: "mem_inv None m \<Longrightarrow> am_states m r = Some st \<Longrightarrow> 0 \<le> as_outstanding st"
  by (simp add: mem_inv_def state_inv_def)

text \<open>A request of a connection that is not suspended has nothing outstanding.\<close>

lemma nothing_outstanding:
  assumes "api_world_ok w" "aw_ctx w c = Some cx" "cx_async cx = Some r" "\<not> am_mhd (aw_mem w) c"
  obtains st where "am_states (aw_mem w) r = Some st" "as_outstanding st = 0"
proof -
  obtain st where st: "am_states (aw_mem w) r = Some st" "0 < as_outstanding st \<longrightarrow> as_suspended st \<and> as_connection st = c"
    using assms(1,2,3) unfolding api_world_ok_def ctx_inv_def by blast
  have inv: "mem_inv None (aw_mem w)" using assms(1) by (simp add: api_world_ok_def)
  have "\<not> 0 < as_outstanding st" using st assms(4) inv unfolding mem_inv_def state_inv_def by blast
  then show thesis using outstanding_nonneg [OF inv st(1)] st that by force
qed

text \<open>The worker changes what is outstanding, and nothing else that the contexts rely on.\<close>

lemma waits_view: "state_view m' r = state_view m r \<Longrightarrow> waits m' r c = waits m r c"
  by (cases "am_states m r"; cases "am_states m' r") (auto simp: waits_def state_view_def)

lemma ctx_inv_reports:
  assumes "ctx_inv m ctxs" "only_reports m m'"
  shows "ctx_inv m' ctxs"
proof -
  have v: "state_view m' r = state_view m r" for r using assms(2) by (simp add: only_reports_def)
  have "\<exists>st. am_states m' r = Some st \<and> (0 < as_outstanding st \<longrightarrow> as_suspended st \<and> as_connection st = c)"
    if cx: "ctxs c = Some cx" "cx_async cx = Some r" for c cx r
  proof -
    obtain st where st: "am_states m r = Some st" "0 < as_outstanding st \<longrightarrow> as_suspended st \<and> as_connection st = c"
      using assms(1) cx unfolding ctx_inv_def by blast
    then obtain st' where st': "am_states m' r = Some st'" "as_suspended st' = as_suspended st" "as_connection st' = as_connection st"
      using v [of r] by (auto simp: state_view_def)
    then show ?thesis using st assms(2) unfolding only_reports_def less_outstanding_def by fastforce
  qed
  moreover have "waits m' = waits m" using waits_view v by (intro ext) blast
  ultimately show ?thesis using assms(1) unfolding ctx_inv_def by simp
qed

text \<open>While a request is processed, the contexts of the others are as they were.\<close>

lemma ctx_inv_new:
  assumes ctx: "ctx_inv m ctxs" "ctxs c = Some cx" "cx_async cx = None" and ap: "apart r m m1" and new: "am_states m r = None"
    and other: "\<And>r'. r' \<noteq> r \<Longrightarrow> am_states m' r' = am_states m1 r'"
    and st: "am_states m' r = Some st" "0 < as_outstanding st \<Longrightarrow> as_suspended st" "as_suspended st \<Longrightarrow> as_connection st = c" and "cx_async cx' = Some r"
  shows "ctx_inv m' (ctxs(c \<mapsto> cx'))"
proof -
  have view: "state_view m' r' = state_view m r'" "less_outstanding m m' r'" if "r' \<noteq> r" for r'
    using ap other [OF that] that by (simp_all add: apart_def state_view_def less_outstanding_def)
  have old: "r' \<noteq> r \<and> (\<exists>st. am_states m' r' = Some st \<and> (0 < as_outstanding st \<longrightarrow> as_suspended st \<and> as_connection st = d))"
    if cx: "ctxs d = Some x" "cx_async x = Some r'" for d x r'
  proof -
    obtain s0 where s0: "am_states m r' = Some s0" "0 < as_outstanding s0 \<longrightarrow> as_suspended s0 \<and> as_connection s0 = d"
      using ctx(1) cx unfolding ctx_inv_def by blast
    have r': "r' \<noteq> r" using s0 new by auto
    then obtain s1 where "am_states m' r' = Some s1" "as_suspended s1 = as_suspended s0" "as_connection s1 = as_connection s0"
      using view(1) [OF r'] s0(1) by (auto simp: state_view_def)
    then show ?thesis using s0 view(2) [OF r'] r' unfolding less_outstanding_def by fastforce
  qed
  have w: "waits m' r' d \<longleftrightarrow> (if r' = r then as_suspended st \<and> d = c else waits m r' d)" for r' d
    using waits_view [OF view(1)] st by (auto simp: waits_def)
  show ?thesis unfolding ctx_inv_def
  proof (intro conjI allI impI)
    fix d x r' assume "(ctxs(c \<mapsto> cx')) d = Some x" "cx_async x = Some r'"
    then show "\<exists>st. am_states m' r' = Some st \<and> (0 < as_outstanding st \<longrightarrow> as_suspended st \<and> as_connection st = d)"
      using old st assms(10) by (cases "d = c") auto
  next
    fix r' d assume "waits m' r' d"
    then show "\<exists>x. (ctxs(c \<mapsto> cx')) d = Some x \<and> cx_async x = Some r'"
      using ctx assms(10) unfolding ctx_inv_def w by (cases "r' = r") fastforce+
  next
    fix d d' x x' r' assume "(ctxs(c \<mapsto> cx')) d = Some x" "(ctxs(c \<mapsto> cx')) d' = Some x'" "cx_async x = Some r'" "cx_async x' = Some r'"
    then show "d = d'" using old ctx(1) assms(10) unfolding ctx_inv_def by (cases "d = c"; cases "d' = c") fastforce+
  qed
qed

context api_methods
begin

lemma process_body_keeps:
  assumes ok: "mem_inv None m" "ctx_inv m ctxs" and cx: "ctxs c = Some cx" "cx_async cx = None" and env: "access_env_ok good env"
    and run: "process_body ssl parse print methods env c cx n m = Done (res, cx', n', m')"
  shows "mem_inv None m' \<and> (am_current m = None \<longrightarrow> am_current m' = None) \<and> ctx_inv m' (ctxs(c \<mapsto> cx'))"
proof (cases "ae_state env (am_states m)")
  case None
  then show ?thesis using ok cx run by (auto simp: process_body_def fun_upd_idem)
next
  case (Some r)
  have new: "am_states m r = None" using env Some by (auto simp: access_env_ok_def)
  obtain tree n1 m1 where m1: "process_jsonrpc_request ssl parse methods (ae_calls env) (cx_body cx) n (request_begin r m) = Done (tree, n1, m1)"
    using run Some by (auto simp: process_body_def)
  note r1 = run [unfolded process_body_def Some option.case m1 bind_outcome.simps prod.case]
  have k1: "in_request r m1" "apart r m m1"
    using request_begin_keeps [OF ok(1) new] jsonrpc_request_keeps [OF _ _ m1, of r] env apart_trans by (auto simp: access_env_ok_def)
  have i1: "mem_inv None (m1\<lparr>am_current := None\<rparr>)"
    using k1(1) mem_inv_frame [of m1 "m1\<lparr>am_current := None\<rparr>" None] by (simp add: in_request_def same_slots_def mem_inv_def objects_inv_def)
  obtain m2 where m2: "run_reports ssl (ae_late env) (m1\<lparr>am_current := None\<rparr>) = Done m2" "mem_inv None m2" "only_reports (m1\<lparr>am_current := None\<rparr>) m2"
    using run_reports_inv [OF i1, of "ae_late env" ssl] env by (auto simp: access_env_ok_def)
  note r2 = r1 [unfolded m2(1) bind_outcome.simps]
  have ap: "apart r m m2"
  proof -
    have "apart r m1 (m1\<lparr>am_current := None\<rparr>)" by (rule apart_states) auto
    then show ?thesis using k1(2) only_reports_apart [OF m2(3)] apart_trans by blast
  qed
  obtain st where st: "am_states m2 r = Some st" "\<not> as_suspended st"
    using view_live [of m2 "m1\<lparr>am_current := None\<rparr>" r] m2(3) k1(1) by (auto simp: only_reports_def in_request_def)
  have free: "\<not> waits m2 r' c" for r'
  proof
    assume w: "waits m2 r' c"
    then have "r' \<noteq> r" using st by (auto simp: waits_def)
    then have "waits m r' c" using w waits_view [of m2 r' m c] ap by (simp add: apart_def)
    then show False using ok(2) cx unfolding ctx_inv_def by fastforce
  qed
  obtain b m3 st3 where m3: "suspend_if_outstanding c r m2 = Done (b, m3)" "mem_inv None m3" "am_states m3 r = Some st3"
      "as_outstanding st3 = as_outstanding st" "b = (0 < as_outstanding st)" "b \<longrightarrow> as_suspended st3 \<and> as_connection st3 = c" "\<not> b \<longrightarrow> m3 = m2"
      "\<forall>r'. r' \<noteq> r \<longrightarrow> am_states m3 r' = am_states m2 r'" "am_current m3 = am_current m2"
    using suspend_keeps [OF m2(2) st free] by blast
  have cur: "am_current m3 = None" using m3(9) m2(3) by (simp add: only_reports_def)
  define cx1 where "cx1 = cx\<lparr>cx_tree := tree, cx_async := Some r\<rparr>"
  note r3 = r2 [unfolded m3(1) bind_outcome.simps prod.case Let_def cx1_def [symmetric]]
  note new' = ctx_inv_new [OF ok(2) cx ap new]
  show ?thesis
  proof (cases b)
    case True
    then have "m' = m3" "cx' = cx1" using r3 by simp_all
    moreover have "ctx_inv m3 (ctxs(c \<mapsto> cx1))" using m3 True by (intro new' [of m3 st3]) (auto simp: cx1_def)
    ultimately show ?thesis using m3(2) cur by simp
  next
    case False
    then have z: "m3 = m2" "as_outstanding st3 = 0" using m3 outstanding_nonneg [OF m3(2,3)] by auto
    obtain m4 st4 where m4: "finish_async r m3 = Done m4" "mem_inv None m4" "am_states m4 r = Some st4" "as_outstanding st4 = 0" "\<not> as_suspended st4"
        "\<forall>r'. r' \<noteq> r \<longrightarrow> am_states m4 r' = am_states m3 r'" "am_current m4 = am_current m3"
      using finish_keeps [OF m3(2,3) z(2)] by blast
    have "m' = m4" "cx' = cx1\<lparr>cx_tree := None\<rparr>" using r3 False m4(1) by (simp_all add: finish_async_response_def)
    moreover have "ctx_inv m4 (ctxs(c \<mapsto> cx1\<lparr>cx_tree := None\<rparr>))" using m4 z by (intro new' [of m4 st4]) (auto simp: cx1_def)
    ultimately show ?thesis using m4 cur by simp
  qed
qed

end

text \<open>A context whose state is not changed.\<close>

lemma ctx_inv_same:
  assumes "ctx_inv m ctxs" "ctxs c = Some cx" "cx_async cx' = cx_async cx"
  shows "ctx_inv m (ctxs(c \<mapsto> cx'))"
  using assms unfolding ctx_inv_def by (auto split: if_splits) fastforce

lemma ctx_inv_finished:
  assumes ctx: "ctx_inv m ctxs" "ctxs c = Some cx" "cx_async cx = Some r"
    and st: "am_states m' r = Some st" "as_outstanding st = 0" "\<not> as_suspended st" and other: "\<forall>r'. r' \<noteq> r \<longrightarrow> am_states m' r' = am_states m r'"
  shows "ctx_inv m' ctxs"
proof -
  have w: "waits m' r' d \<Longrightarrow> waits m r' d" for r' d using st other by (cases "r' = r") (auto simp: waits_def)
  have "\<exists>st. am_states m' r' = Some st \<and> (0 < as_outstanding st \<longrightarrow> as_suspended st \<and> as_connection st = d)"
    if "ctxs d = Some x" "cx_async x = Some r'" for d x r'
    using that ctx(1) st other unfolding ctx_inv_def by (cases "r' = r") auto
  then show ?thesis using ctx(1) w unfolding ctx_inv_def by blast
qed

lemma ctx_inv_freed:
  assumes ctx: "ctx_inv m ctxs" "ctxs c = Some cx" "cx_async cx = Some r" and m': "am_states m' = (am_states m)(r := None)"
  shows "ctx_inv m' (ctxs(c := None))"
proof -
  have w: "waits m' r' d \<longleftrightarrow> r' \<noteq> r \<and> waits m r' d" for r' d by (auto simp: waits_def m')
  have r: "r' \<noteq> r" if "(ctxs(c := None)) d = Some x" "cx_async x = Some r'" for d x r'
  proof
    assume "r' = r"
    moreover have "ctxs d = Some x" "d \<noteq> c" using that(1) by (auto split: if_splits)
    ultimately show False using ctx that(2) unfolding ctx_inv_def by metis
  qed
  show ?thesis unfolding ctx_inv_def
  proof (intro conjI allI impI)
    fix d x r' assume a: "(ctxs(c := None)) d = Some x" "cx_async x = Some r'"
    then have "ctxs d = Some x" "am_states m' r' = am_states m r'" using r [OF a] by (auto simp: m' split: if_splits)
    then show "\<exists>st. am_states m' r' = Some st \<and> (0 < as_outstanding st \<longrightarrow> as_suspended st \<and> as_connection st = d)"
      using ctx(1) a(2) unfolding ctx_inv_def by metis
  next
    fix r' d assume "waits m' r' d"
    then obtain x where "ctxs d = Some x" "cx_async x = Some r'" "r' \<noteq> r" using ctx(1) unfolding w ctx_inv_def by blast
    then show "\<exists>x. (ctxs(c := None)) d = Some x \<and> cx_async x = Some r'" using ctx(2,3) by (cases "d = c") auto
  next
    fix d d' x x' r' assume "(ctxs(c := None)) d = Some x" "(ctxs(c := None)) d' = Some x'" "cx_async x = Some r'" "cx_async x' = Some r'"
    then show "d = d'" using ctx(1) unfolding ctx_inv_def by (auto split: if_splits)
  qed
qed

lemma ctx_inv_dropped: "ctx_inv m ctxs \<Longrightarrow> \<forall>cx. ctxs c = Some cx \<longrightarrow> cx_async cx = None \<Longrightarrow> ctx_inv m (ctxs(c := None))"
  unfolding ctx_inv_def by (auto split: if_splits) (metis option.distinct(1))+

lemma ctx_inv_opened: "ctx_inv m ctxs \<Longrightarrow> ctxs c = None \<Longrightarrow> cx_async cx = None \<Longrightarrow> ctx_inv m (ctxs(c \<mapsto> cx))"
  unfolding ctx_inv_def by (auto split: if_splits) (metis option.distinct(1))+

lemma receive_chunk_async: "receive_chunk mem chunk cx = Done cx' \<Longrightarrow> cx_async cx' = cx_async cx"
  by (auto simp: receive_chunk_def Let_def split: if_splits)

text \<open>The request of a connection that is not suspended can be finished and freed.\<close>

lemma finish_response_keeps:
  assumes "api_world_ok w" "aw_ctx w c = Some cx" "cx_async cx = Some r" "\<not> am_mhd (aw_mem w) c"
  shows "\<exists>res m'. finish_async_response print ok r cx (aw_mem w) = Done (res, cx\<lparr>cx_tree := None\<rparr>, m') \<and> mem_inv None m' \<and>
    am_current m' = None \<and> ctx_inv m' ((aw_ctx w)(c \<mapsto> cx\<lparr>cx_tree := None\<rparr>))"
proof -
  obtain st where st: "am_states (aw_mem w) r = Some st" "as_outstanding st = 0" using nothing_outstanding [OF assms] .
  have inv: "mem_inv None (aw_mem w)" "am_current (aw_mem w) = None" "ctx_inv (aw_mem w) (aw_ctx w)" using assms(1) by (simp_all add: api_world_ok_def)
  obtain m' st' where m': "finish_async r (aw_mem w) = Done m'" "mem_inv None m'" "am_states m' r = Some st'" "as_outstanding st' = 0" "\<not> as_suspended st'"
      "\<forall>r'. r' \<noteq> r \<longrightarrow> am_states m' r' = am_states (aw_mem w) r'" "am_current m' = am_current (aw_mem w)"
    using finish_keeps [OF inv(1) st] by blast
  have "ctx_inv m' (aw_ctx w)" by (rule ctx_inv_finished [OF inv(3) assms(2,3) m'(3,4,5,6)])
  from ctx_inv_same [OF this assms(2), of "cx\<lparr>cx_tree := None\<rparr>"] show ?thesis using m' inv(2) by (simp add: finish_async_response_def)
qed

lemma completed_keeps:
  assumes "api_world_ok w" "\<not> am_mhd (aw_mem w) c"
  shows "\<exists>m'. api_request_completed (aw_ctx w c) (aw_mem w) = Done m' \<and> mem_inv None m' \<and> am_current m' = None \<and> ctx_inv m' ((aw_ctx w)(c := None))"
proof (cases "\<exists>cx r. aw_ctx w c = Some cx \<and> cx_async cx = Some r")
  case True
  then obtain cx r where cx: "aw_ctx w c = Some cx" "cx_async cx = Some r" by blast
  have inv: "mem_inv None (aw_mem w)" "am_current (aw_mem w) = None" "ctx_inv (aw_mem w) (aw_ctx w)" using assms(1) by (simp_all add: api_world_ok_def)
  obtain st where st: "am_states (aw_mem w) r = Some st" "as_outstanding st = 0" using nothing_outstanding [OF assms(1) cx assms(2)] .
  obtain m' where m': "api_async_state_free (Some r) (aw_mem w) = Done m'" "mem_inv None m'" "am_states m' = (am_states (aw_mem w))(r := None)"
      "am_current m' = am_current (aw_mem w)" using free_keeps [OF inv(1) st] by blast
  then show ?thesis using cx inv ctx_inv_freed [OF inv(3) cx m'(3)] by (simp add: api_request_completed_def)
next
  case False
  then have "\<forall>cx. aw_ctx w c = Some cx \<longrightarrow> cx_async cx = None" by auto
  then show ?thesis using assms(1) ctx_inv_dropped [of "aw_mem w" "aw_ctx w" c]
    by (cases "aw_ctx w c") (auto simp: api_request_completed_def api_world_ok_def api_async_state_free_def)
qed

context api_methods
begin

lemma access_keeps:
  assumes ok: "api_world_ok w" "\<not> am_mhd (aw_mem w) c" and env: "access_env_ok good env"
    and run: "api_access_handler ssl parse print config methods env c http_method auth upload (aw_ctx w c) (aw_node w) (aw_mem w) = Done (res, ctx, n, m)"
  shows "mem_inv None m \<and> am_current m = None \<and> ctx_inv m ((aw_ctx w)(c := ctx))"
proof -
  have inv: "mem_inv None (aw_mem w)" "am_current (aw_mem w) = None" "ctx_inv (aw_mem w) (aw_ctx w)" using ok(1) by (simp_all add: api_world_ok_def)
  show ?thesis
  proof (cases "aw_ctx w c")
    case None
    then have "m = aw_mem w" "ctx = None \<or> ctx = Some fresh_ctx" using run by (auto simp: api_access_handler_def split: if_splits)
    then show ?thesis using inv None ctx_inv_opened [OF inv(3) None, of fresh_ctx] by (auto simp: fresh_ctx_def fun_upd_idem)
  next
    case (Some cx)
    note r = run [unfolded api_access_handler_def Some option.case]
    consider "upload \<noteq> []" | q where "upload = []" "cx_async cx = Some q" | "upload = []" "cx_async cx = None" "cx_too_large cx"
      | "upload = []" "cx_async cx = None" "\<not> cx_too_large cx" by fastforce
    then show ?thesis
    proof cases
      case 1
      then obtain cx1 where "receive_chunk (ae_grow env) upload cx = Done cx1" "m = aw_mem w" "ctx = Some cx1" using r by auto
      then show ?thesis using inv ctx_inv_same [OF inv(3) Some receive_chunk_async] by simp
    next
      case 2
      then show ?thesis using r finish_response_keeps [OF ok(1) Some 2(2) ok(2), of print "ae_response env"] by auto
    next
      case 3
      then show ?thesis using r inv Some by (auto simp: fun_upd_idem)
    next
      case 4
      then show ?thesis using r process_body_keeps [OF inv(1,3) Some 4(2) env] inv(2) by auto
    qed
  qed
qed

lemma step_ok: "api_step ssl parse print config methods good w w' \<Longrightarrow> api_world_ok w \<Longrightarrow> api_world_ok w'"
proof (induction rule: api_step.induct)
  case (access w c env http_method auth upload res ctx n m)
  then show ?case using access_keeps [OF access.prems access.hyps(1,3,4)] by (simp add: api_world_ok_def)
next
  case (report rp w m)
  then have "mem_inv None m" "only_reports (aw_mem w) m" using run_report_inv [of None "aw_mem w" rp ssl] by (auto simp: api_world_ok_def)
  then show ?case using report.prems ctx_inv_reports [of "aw_mem w" "aw_ctx w" m] by (simp add: api_world_ok_def only_reports_def)
next
  case (completed w c m)
  then show ?case using completed_keeps [OF completed.prems completed.hyps(1)] by (simp add: api_world_ok_def)
qed (simp add: api_world_ok_def)

lemma reachable_ok: "(api_step ssl parse print config methods good)\<^sup>*\<^sup>* (api_world_start queue n) w \<Longrightarrow> api_world_ok w"
  by (induction rule: rtranclp_induct) (auto intro: api_world_ok_start step_ok)

end

end
