(* ===== verification/Config_Store.thy ===== *)
theory Config_Store
  imports Bm_Prelude
begin

text \<open>
  The settings that are kept in a database (\<open>src/core/config_store.c\<close>): the SOCKS5 proxies for onion peers and
  for other peers, and the key of the onion service. Each table has at most one row.
\<close>

abbreviation BM_TOR_ONION_KEY_MAX_LEN :: nat where "BM_TOR_ONION_KEY_MAX_LEN \<equiv> 160"

record bm_socks_proxy_config =
  sp_enabled :: int
  sp_host :: bytes
  sp_port :: int

record config_db =
  t_socks_proxy :: "bm_socks_proxy_config option"
  t_socks_proxy_clearnet :: "bm_socks_proxy_config option"
  t_tor_onion :: "bytes option option"

definition bm_config_store_init_schema :: config_db where
  "bm_config_store_init_schema = \<lparr>t_socks_proxy = None, t_socks_proxy_clearnet = None, t_tor_onion = None\<rparr>"

text \<open>\<open>ok\<close>: the statement is prepared and carried out.\<close>

definition get_socks_proxy_from_table :: "bool \<Rightarrow> bm_socks_proxy_config option \<Rightarrow> bm_socks_proxy_config option" where
  "get_socks_proxy_from_table ok table =
     (if \<not> ok then None
      else Some (case table of
             None \<Rightarrow> \<lparr>sp_enabled = 0, sp_host = lit ''127.0.0.1'', sp_port = 9050\<rparr>
           | Some row \<Rightarrow> row\<lparr>sp_host := take 255 (sp_host row)\<rparr>))"

definition set_socks_proxy_to_table ::
  "bool \<Rightarrow> bm_socks_proxy_config \<Rightarrow> bm_socks_proxy_config option \<Rightarrow> int \<times> bm_socks_proxy_config option" where
  "set_socks_proxy_to_table ok cfg table = (if ok then (0, Some (cfg\<lparr>sp_host := c_str (sp_host cfg)\<rparr>)) else (-1, table))"

definition bm_config_store_get_socks_proxy_onion :: "bool \<Rightarrow> config_db \<Rightarrow> bm_socks_proxy_config option" where
  "bm_config_store_get_socks_proxy_onion ok db = get_socks_proxy_from_table ok (t_socks_proxy db)"

definition bm_config_store_set_socks_proxy_onion :: "bool \<Rightarrow> bm_socks_proxy_config \<Rightarrow> config_db \<Rightarrow> int \<times> config_db" where
  "bm_config_store_set_socks_proxy_onion ok cfg db =
     (case set_socks_proxy_to_table ok cfg (t_socks_proxy db) of (rc, t) \<Rightarrow> (rc, db\<lparr>t_socks_proxy := t\<rparr>))"

definition bm_config_store_get_socks_proxy_clearnet :: "bool \<Rightarrow> config_db \<Rightarrow> bm_socks_proxy_config option" where
  "bm_config_store_get_socks_proxy_clearnet ok db = get_socks_proxy_from_table ok (t_socks_proxy_clearnet db)"

definition bm_config_store_set_socks_proxy_clearnet :: "bool \<Rightarrow> bm_socks_proxy_config \<Rightarrow> config_db \<Rightarrow> int \<times> config_db" where
  "bm_config_store_set_socks_proxy_clearnet ok cfg db =
     (case set_socks_proxy_to_table ok cfg (t_socks_proxy_clearnet db) of (rc, t) \<Rightarrow> (rc, db\<lparr>t_socks_proxy_clearnet := t\<rparr>))"

text \<open>The result is 1 with the key, 0 when there is none, or -1; \<open>out_size\<close> bytes are the caller's.\<close>

definition bm_config_store_get_tor_onion_key :: "bool \<Rightarrow> nat \<Rightarrow> config_db \<Rightarrow> int \<times> bytes" where
  "bm_config_store_get_tor_onion_key ok out_size db =
     (if \<not> ok then (-1, [])
      else (case t_tor_onion db of
              Some (Some key) \<Rightarrow> (1, take (out_size - 1) key)
            | _ \<Rightarrow> (0, [])))"

definition bm_config_store_set_tor_onion_key :: "bool \<Rightarrow> bytes \<Rightarrow> config_db \<Rightarrow> int \<times> config_db" where
  "bm_config_store_set_tor_onion_key ok private_key db =
     (if ok then (0, db\<lparr>t_tor_onion := Some (Some (c_str private_key))\<rparr>) else (-1, db))"

section \<open>The tables as settings\<close>

text \<open>A setting is a pair of a reader and a writer: the writer's value is what is read, and nothing else changes.\<close>

locale setting =
  fixes reader :: "bool \<Rightarrow> config_db \<Rightarrow> bm_socks_proxy_config option"
    and writer :: "bool \<Rightarrow> bm_socks_proxy_config \<Rightarrow> config_db \<Rightarrow> int \<times> config_db"
  assumes read_written: "length (sp_host cfg) < 256 \<Longrightarrow> 0 \<notin> set (sp_host cfg) \<Longrightarrow> reader True (snd (writer True cfg db)) = Some cfg"
    and write_code: "fst (writer ok cfg db) = (if ok then 0 else -1)"
    and write_refused: "snd (writer False cfg db) = db"
    and reader_fails: "reader False db = None"
begin

lemma last_write_wins:
  assumes "length (sp_host b) < 256" "0 \<notin> set (sp_host b)"
  shows "reader True (snd (writer True b (snd (writer ok a db)))) = Some b"
  by (rule read_written [OF assms])

lemma failed_write_keeps: "reader ok (snd (writer False cfg db)) = reader ok db"
  by (simp add: write_refused)

end

interpretation onion: setting bm_config_store_get_socks_proxy_onion bm_config_store_set_socks_proxy_onion
  by unfold_locales (auto simp: bm_config_store_get_socks_proxy_onion_def bm_config_store_set_socks_proxy_onion_def
      get_socks_proxy_from_table_def set_socks_proxy_to_table_def c_str_id)

interpretation clearnet: setting bm_config_store_get_socks_proxy_clearnet bm_config_store_set_socks_proxy_clearnet
  by unfold_locales (auto simp: bm_config_store_get_socks_proxy_clearnet_def bm_config_store_set_socks_proxy_clearnet_def
      get_socks_proxy_from_table_def set_socks_proxy_to_table_def c_str_id)

lemma proxies_apart:
  "bm_config_store_get_socks_proxy_clearnet ok (snd (bm_config_store_set_socks_proxy_onion ok' cfg db)) = bm_config_store_get_socks_proxy_clearnet ok db"
  "bm_config_store_get_socks_proxy_onion ok (snd (bm_config_store_set_socks_proxy_clearnet ok' cfg db)) = bm_config_store_get_socks_proxy_onion ok db"
  by (simp_all add: bm_config_store_get_socks_proxy_clearnet_def bm_config_store_set_socks_proxy_onion_def
      bm_config_store_get_socks_proxy_onion_def bm_config_store_set_socks_proxy_clearnet_def split: prod.split)

lemma onion_key_roundtrip:
  "length key < BM_TOR_ONION_KEY_MAX_LEN \<Longrightarrow> 0 \<notin> set key \<Longrightarrow>
     bm_config_store_get_tor_onion_key True BM_TOR_ONION_KEY_MAX_LEN (snd (bm_config_store_set_tor_onion_key True key db)) = (1, key)"
  by (simp add: bm_config_store_get_tor_onion_key_def bm_config_store_set_tor_onion_key_def c_str_id)

end
