(* ===== verification/Api_Methods.thy ===== *)
theory Api_Methods
  imports Api_Server Config_Store Object_Sync Json
begin

text \<open>
  The methods of the JSON-RPC server (\<open>src/core/api_server.c\<close>, the functions \<open>h_...\<close> and the table \<open>METHODS\<close>),
  without the post-quantum build. The databases are those of the node; the server has a proof-of-work queue, as
  the daemon configures it, and a database of messages.

  A conversion of a number outside the range of its type, which C leaves undefined, is a \<open>Fault\<close>; a search for an
  address that does not end is one too.
\<close>

abbreviation BM_MAX_SUBJECT_PLUS_BODY_LEN :: nat where "BM_MAX_SUBJECT_PLUS_BODY_LEN \<equiv> 2 ^ 18 - 500"
abbreviation BM_GETPUBKEY_NONCE_TRIALS_PER_BYTE :: u64 where "BM_GETPUBKEY_NONCE_TRIALS_PER_BYTE \<equiv> 1000"
abbreviation BM_GETPUBKEY_PAYLOAD_LENGTH_EXTRA_BYTES :: u64 where "BM_GETPUBKEY_PAYLOAD_LENGTH_EXTRA_BYTES \<equiv> 1000"
abbreviation BM_GETPUBKEY_REQUEST_TTL_SECONDS :: u64 where "BM_GETPUBKEY_REQUEST_TTL_SECONDS \<equiv> 2 * 24 * 60 * 60"
abbreviation BM_GETPUBKEY_REQUEST_COOLDOWN_SECONDS :: int where "BM_GETPUBKEY_REQUEST_COOLDOWN_SECONDS \<equiv> 10 * 60"
abbreviation BM_API_CONVERT_V3_DEFAULT_LIMIT :: nat where "BM_API_CONVERT_V3_DEFAULT_LIMIT \<equiv> 1000"
abbreviation BM_API_CONVERT_V3_MAX_LIMIT :: nat where "BM_API_CONVERT_V3_MAX_LIMIT \<equiv> BM_KEYRING_UNLOCK_ALL_MAX_IDENTITIES"
abbreviation BM_API_UNLOCK_ADDRESSES_MAX :: nat where "BM_API_UNLOCK_ADDRESSES_MAX \<equiv> BM_KEYRING_UNLOCK_ALL_MAX_IDENTITIES"

section \<open>What a method works with\<close>

text \<open>The libraries and the settings of the configuration.\<close>

record 'b api_lib =
  al_bn :: "'b bignum"
  al_ssl :: openssl
  al_kdf :: kdf_lib
  al_ntop :: "sockaddr \<Rightarrow> bytes"
  al_default_nonce_trials_per_byte :: u64
  al_default_payload_length_extra_bytes :: u64

text \<open>The node of the daemon, the settings, and the connections of the registry with their descriptors.\<close>

record api_node =
  an_sync :: sync_node
  an_has_pool :: bool
  an_config :: "config_db option"
  an_registry :: "(int \<times> bm_fd_data) list option"

text \<open>
  What the system gives to one call: the answers of SQLite in the order of the statements, memory, the time (and the time when a send is submitted), and
  what the keyring, the search through the pool, the send pipeline and the slot of a send are given.
\<close>

record api_env =
  av_ok :: "nat \<Rightarrow> bool"
  av_mem :: bool
  av_now :: int
  av_send_now :: int
  av_keyring :: kr_env
  av_many :: "nat \<Rightarrow> kr_env"
  av_convert :: "nat \<Rightarrow> kr_env \<times> (bool \<times> bool) \<times> bool"
  av_pages :: "nat \<Rightarrow> bool"
  av_list :: "bool \<times> bool \<times> bool"
  av_backfill_list :: "(bool \<times> bool \<times> bool) \<times> bool"
  av_backfill :: "nat \<Rightarrow> bool \<times> (u64 \<Rightarrow> bool) \<times> bool \<times> int"
  av_backfill_many :: "nat \<Rightarrow> bool \<times> (nat \<Rightarrow> (u64 \<Rightarrow> bool) \<times> bool)"
  av_pipe :: pipe_env
  av_ecies :: ecies_random
  av_job :: "nat option \<times> nat"
  av_request_job :: "nat option \<times> nat"
  av_slot :: slot_env

text \<open>Most methods do not send: their result is a value, or an error message on the left.\<close>

type_synonym plain_method = "api_env \<Rightarrow> cjson option \<Rightarrow> api_node \<Rightarrow> ((bytes + cjson) \<times> api_node) outcome"

definition plain :: "plain_method \<Rightarrow> (api_env, api_node) api_handler" where
  "plain f e params n m =
     bind_outcome (f e params n) (\<lambda>(r, n1).
       Done (case r of Inr v \<Rightarrow> Some v | Inl _ \<Rightarrow> None, case r of Inr _ \<Rightarrow> None | Inl msg \<Rightarrow> Some msg, n1, m))"

abbreviation with_identities :: "identity_db \<Rightarrow> api_node \<Rightarrow> api_node" where
  "with_identities db n \<equiv> n\<lparr>an_sync := (an_sync n)\<lparr>sn_identities := db\<rparr>\<rparr>"

abbreviation with_keyring :: "keyring \<Rightarrow> api_node \<Rightarrow> api_node" where
  "with_keyring kr n \<equiv> n\<lparr>an_sync := (an_sync n)\<lparr>sn_keyring := kr\<rparr>\<rparr>"

abbreviation with_messages :: "messages_db \<Rightarrow> api_node \<Rightarrow> api_node" where
  "with_messages db n \<equiv> n\<lparr>an_sync := (an_sync n)\<lparr>sn_messages := db\<rparr>\<rparr>"

text \<open>Conversions of a \<open>double\<close>, which cut the fraction off.\<close>

definition truncated :: "rat \<Rightarrow> int" where
  "truncated q = (if 0 \<le> q then floor q else ceiling q)"

fun to_uint64 :: "double \<Rightarrow> u64 outcome" where
  "to_uint64 (Finite q) = (if 0 \<le> truncated q \<and> truncated q < 2 ^ 64 then Done (word_of_int (truncated q)) else Fault)"
| "to_uint64 (Infinite s) = Fault"

fun to_c_int :: "double \<Rightarrow> int outcome" where
  "to_c_int (Finite q) = (if - (2 ^ 31) \<le> truncated q \<and> truncated q < 2 ^ 31 then Done (truncated q) else Fault)"
| "to_c_int (Infinite s) = Fault"

definition u64_or :: "cjson option \<Rightarrow> u64 \<Rightarrow> u64 outcome" where
  "u64_or v dflt = (if v = None then Done dflt else to_uint64 (json_num v))"

definition c_int_or :: "cjson option \<Rightarrow> int \<Rightarrow> int outcome" where
  "c_int_or v dflt = (if v = None then Done dflt else to_c_int (json_num v))"

text \<open>\<open>sscanf\<close> with the format \<open>%2x\<close>: blanks are skipped, a sign counts, and \<open>0x\<close> has no digits left.\<close>

definition scan_hex2 :: "bytes \<Rightarrow> byte option" where
  "scan_hex2 s =
     (let t = dropWhile white s;
          signed = t \<noteq> [] \<and> (hd t = 0x2b \<or> hd t = 0x2d);
          field = (if signed then take 1 (tl t) else take 2 t);
          digits = takeWhile (\<lambda>b. hex_digit b \<noteq> None) field;
          v = fold (\<lambda>b k. 16 * k + the (hex_digit b)) digits 0
      in if digits = [] \<or> (length field = 2 \<and> field ! 0 = 0x30 \<and> (field ! 1 = 0x78 \<or> field ! 1 = 0x58)) then None
         else Some (if signed \<and> hd t = 0x2d then - word_of_nat v else word_of_nat v))"

fun hex_decode_loop :: "nat \<Rightarrow> bytes \<Rightarrow> bytes option" where
  "hex_decode_loop 0 s = Some []"
| "hex_decode_loop (Suc k) s =
     (case scan_hex2 s of None \<Rightarrow> None | Some b \<Rightarrow> map_option ((#) b) (hex_decode_loop k (drop 2 s)))"

definition hex_decode_fixed :: "bytes \<Rightarrow> nat \<Rightarrow> bytes option" where
  "hex_decode_fixed hex out_len = (if strlen hex \<noteq> out_len * 2 then None else hex_decode_loop out_len (c_str hex))"

definition is_true :: "cjson option \<Rightarrow> bool" where
  "is_true v \<longleftrightarrow> v = Some (CJ_Bool True)"

section \<open>The keyring\<close>

definition h_unlockAddress :: "'b api_lib \<Rightarrow> plain_method" where
  "h_unlockAddress L e params n =
     (case (param_str params 0, param_str params 1) of
        (Some address, Some passphrase) \<Rightarrow>
          (case bm_keyring_unlock (al_ssl L) (al_kdf L) (av_keyring e) 0 address passphrase (sn_identities (an_sync n)) (sn_keyring (an_sync n)) of
             (rc, kr) \<Rightarrow>
               let n1 = with_keyring kr n
               in if rc = 0 \<and> an_has_pool n
                  then bind_outcome (bm_object_sync_backfill_trial_decrypt (al_ssl L) (fst (av_backfill_list e)) (snd (av_backfill_list e))
                         (av_backfill e) (sn_pool (an_sync n1)) kr (Some address) (av_now e) (sn_messages (an_sync n1)))
                         (\<lambda>(count, mdb). Done (Inr (CJ_Bool True), with_messages mdb n1))
                  else Done (Inr (CJ_Bool (rc = 0)), n1))
      | _ \<Rightarrow> Done (Inl (lit ''unlockAddress requires [address, passphrase]''), n))"

definition h_unlockAllAddresses :: "'b api_lib \<Rightarrow> plain_method" where
  "h_unlockAllAddresses L e params n =
     (case param_str params 0 of
        None \<Rightarrow> Done (Inl (lit ''unlockAllAddresses requires [passphrase]''), n)
      | Some passphrase \<Rightarrow>
          let count = length (identities (sn_identities (an_sync n)))
          in (case bm_keyring_unlock_all (al_ssl L) (al_kdf L) (av_list e) (map (av_many e) [0..<count]) passphrase
                     (sn_identities (an_sync n), sn_keyring (an_sync n)) of
                (rc, results, db, kr) \<Rightarrow>
                  let n1 = with_keyring kr (with_identities db n)
                  in if rc = -2
                     then Done (Inl (take 255 (lit ''unlockAllAddresses refused: '' @ dec count @
                            lit '' identities exceeds the limit of 10000 (trial decryption of every incoming msg would stall the network thread); unlock the addresses you need with unlockAddresses'')), n1)
                     else if rc \<noteq> 0 then Done (Inl (lit ''failed to list identities''), n1)
                     else Done (Inr (CJ_Array (map (\<lambda>r. CJ_Object [(lit ''address'', json_str (Some (ua_address r))),
                            (lit ''unlocked'', CJ_Bool (ua_unlocked r))]) results)), n1)))"

definition unlocked_entry :: "bm_unlock_all_entry \<Rightarrow> cjson" where
  "unlocked_entry r =
     CJ_Object ([(lit ''address'', json_str (Some (ua_address r))), (lit ''unlocked'', CJ_Bool (ua_unlocked r))] @
       (if ua_unlocked r then []
        else [(lit ''error'', json_str (Some (if ua_not_found r then lit ''address not found'' else lit ''passphrase mismatch'')))]))"

definition h_unlockAddresses :: "'b api_lib \<Rightarrow> plain_method" where
  "h_unlockAddresses L e params n =
     (case (param_at params 0, param_str params 1) of
        (Some (CJ_Array items), Some passphrase) \<Rightarrow>
          if param_at params 2 \<noteq> None \<and> \<not> (\<exists>b\<in>{True, False}. param_at params 2 = Some (CJ_Bool b))
          then Done (Inl (lit ''backfill must be a boolean''), n)
          else if BM_API_UNLOCK_ADDRESSES_MAX < length items
          then Done (Inl (lit ''unlockAddresses accepts at most 10000 addresses per call''), n)
          else if \<not> av_mem e then Done (Inl (lit ''out of memory''), n)
          else if \<exists>i\<in>set items. json_cstr (Some i) = None then Done (Inl (lit ''addresses must be an array of strings''), n)
          else
            let addresses = map (\<lambda>i. the (json_cstr (Some i))) items
            in (case bm_keyring_unlock_addresses (al_ssl L) (al_kdf L) (av_ok e 0) (map (av_many e) [0..<length addresses]) passphrase addresses
                       (sn_identities (an_sync n), sn_keyring (an_sync n)) of
                  (results, db, kr) \<Rightarrow>
                    let n1 = with_keyring kr (with_identities db n);
                        unlocked = map fst (filter (ua_unlocked \<circ> snd) (zip addresses results));
                        arr = (lit ''results'', CJ_Array (map unlocked_entry results))
                    in if \<not> is_true (param_at params 2) then Done (Inr (CJ_Object [arr]), n1)
                       else if \<not> an_has_pool n then Done (Inr (CJ_Object [arr, (lit ''backfilledMessages'', json_int 0)]), n1)
                       else bind_outcome (bm_object_sync_backfill_trial_decrypt_addresses (al_ssl L) (fst (av_backfill_list e)) (snd (av_backfill_list e))
                              (av_backfill_many e) (sn_pool (an_sync n1)) kr unlocked (av_now e) (sn_messages (an_sync n1)))
                              (\<lambda>(count, mdb). Done (Inr (CJ_Object [arr, (lit ''backfilledMessages'', json_int (if 0 < count then count else 0))]),
                                 with_messages mdb n1)))
      | _ \<Rightarrow> Done (Inl (lit ''unlockAddresses requires [addresses, passphrase, backfill(optional)]''), n))"

definition h_exportAddress :: "'b api_lib \<Rightarrow> plain_method" where
  "h_exportAddress L e params n =
     (case (param_str params 0, param_str params 1) of
        (Some address, Some passphrase) \<Rightarrow>
          (case bm_keyring_export (al_kdf L) (av_ok e 0, av_ok e 1) address passphrase (sn_identities (an_sync n)) of
             None \<Rightarrow> Done (Inl (lit ''export failed (wrong passphrase or address not found)''), n)
           | Some (ps, pe) \<Rightarrow>
               bind_outcome (bm_address_encode_wif (al_ssl L) ps) (\<lambda>signing_wif.
               bind_outcome (bm_address_encode_wif (al_ssl L) pe) (\<lambda>encryption_wif.
                 Done (if signing_wif = None \<or> encryption_wif = None then Inl (lit ''WIF encoding failed'')
                       else Inr (CJ_Object [(lit ''signingWIF'', json_str signing_wif), (lit ''encryptionWIF'', json_str encryption_wif)]), n))))
      | _ \<Rightarrow> Done (Inl (lit ''exportAddress requires [address, passphrase]''), n))"

definition h_lockAddress :: plain_method where
  "h_lockAddress e params n =
     (case param_str params 0 of
        None \<Rightarrow> Done (Inl (lit ''lockAddress requires [address]''), n)
      | Some address \<Rightarrow> (case bm_keyring_lock address (sn_keyring (an_sync n)) of (rc, kr) \<Rightarrow> Done (Inr (CJ_Bool (rc = 0)), with_keyring kr n)))"

definition h_lockAllAddresses :: plain_method where
  "h_lockAllAddresses e params n = Done (Inr (CJ_Bool True), with_keyring (bm_keyring_lock_all (sn_keyring (an_sync n))) n)"

definition h_deleteAddress :: plain_method where
  "h_deleteAddress e params n =
     (case param_str params 0 of
        None \<Rightarrow> Done (Inl (lit ''deleteAddress requires [address]''), n)
      | Some address \<Rightarrow>
          (case bm_keyring_delete_identity (av_ok e 0) address (sn_identities (an_sync n)) (sn_keyring (an_sync n)) of
             (rc, db, kr) \<Rightarrow> Done (Inr (CJ_Bool (rc = 0)), with_keyring kr (with_identities db n))))"

section \<open>Version 3 addresses\<close>

text \<open>
  For one address: what the keyring is given, the answers for the two updates of the messages, and the answer for the
  deletion. The result is the entry and whether there is no error in it.
\<close>

definition convert_error :: "int \<Rightarrow> bytes option" where
  "convert_error rc =
     (if rc = BM_KEYRING_CONVERT_ERR_NOT_FOUND then Some (lit ''address not found'')
      else if rc = BM_KEYRING_CONVERT_ERR_NOT_V3 then Some (lit ''not a v3 address'')
      else if rc = BM_KEYRING_CONVERT_ERR_PASSPHRASE then Some (lit ''wrong passphrase'')
      else if rc \<noteq> 0 then Some (lit ''failed to prepare the v4 sibling'')
      else None)"

definition convert_one_v3_to_v4 ::
  "'b api_lib \<Rightarrow> kr_env \<times> (bool \<times> bool) \<times> bool \<Rightarrow> bytes \<Rightarrow> members \<Rightarrow> bm_keyring_convert_session \<Rightarrow> api_node
     \<Rightarrow> (bytes option \<times> members \<times> bm_keyring_convert_session \<times> api_node) outcome" where
  "convert_one_v3_to_v4 L env v3_address result_entry session n =
     (case env of (kenv, rename_ok, delete_ok) \<Rightarrow>
        bind_outcome (bm_keyring_ensure_v4_sibling (al_ssl L) (al_kdf L) kenv v3_address (session, sn_identities (an_sync n), sn_keyring (an_sync n)))
        (\<lambda>((rc, v4_address, created), session1, db, kr).
          let n1 = with_keyring kr (with_identities db n);
              (err, n2) =
                (case convert_error rc of
                   Some err \<Rightarrow> (Some err, n1)
                 | None \<Rightarrow>
                     (case bm_messages_store_rename_own_address rename_ok v3_address v4_address (sn_messages (an_sync n1)) of
                        (rc2, mdb) \<Rightarrow>
                          let n3 = with_messages mdb n1
                          in if rc2 \<noteq> 0 then (Some (lit ''failed to rewrite inbox/sent addresses (v4 is ready; retry to finish)''), n3)
                             else (case bm_keyring_delete_identity delete_ok v3_address (sn_identities (an_sync n3)) (sn_keyring (an_sync n3)) of
                                     (rc3, db3, kr3) \<Rightarrow>
                                       (if rc3 \<noteq> 0 then Some (lit ''failed to delete the v3 identity (v4 is ready; retry to finish)'') else None,
                                        with_keyring kr3 (with_identities db3 n3)))));
              entry = result_entry @ (if rc = 0 then [(lit ''v4Address'', json_str (Some v4_address)), (lit ''created'', CJ_Bool created)] else []) @
                (case err of None \<Rightarrow> [] | Some msg \<Rightarrow> [(lit ''error'', json_str (Some msg))])
          in Done (err, entry, session1, n2)))"

definition h_convertAddressToV4 :: "'b api_lib \<Rightarrow> plain_method" where
  "h_convertAddressToV4 L e params n =
     (case (param_str params 0, param_str params 1) of
        (Some address, Some passphrase) \<Rightarrow>
          bind_outcome (convert_one_v3_to_v4 L (av_convert e 0) address [(lit ''v3Address'', json_str (Some address))]
            (bm_keyring_convert_session_init passphrase) n) (\<lambda>(err, result, session, n1).
            Done (case err of None \<Rightarrow> Inr (CJ_Object result) | Some msg \<Rightarrow> Inl msg, n1))
      | _ \<Rightarrow> Done (Inl (lit ''convertAddressToV4 requires [v3Address, passphrase]''), n))"

text \<open>A page of addresses; \<open>k\<close> counts the conversions.\<close>

fun convert_page ::
  "'b api_lib \<Rightarrow> api_env \<Rightarrow> nat \<Rightarrow> bytes list \<Rightarrow> bm_keyring_convert_session \<Rightarrow> api_node
     \<Rightarrow> (cjson list \<times> cjson list \<times> bm_keyring_convert_session \<times> api_node) outcome" where
  "convert_page L e k [] session n = Done ([], [], session, n)"
| "convert_page L e k (a # as) session n =
     bind_outcome (convert_one_v3_to_v4 L (av_convert e k) a [(lit ''v3Address'', json_str (Some a))] session n) (\<lambda>(err, entry, session1, n1).
     bind_outcome (convert_page L e (Suc k) as session1 n1) (\<lambda>(converted, failed, session2, n2).
       Done (if err = None then CJ_Object entry # converted else converted,
             if err = None then failed else CJ_Object entry # failed, session2, n2)))"

text \<open>
  The loop over the pages. Its fuel is more than the number of pages: each page that is not empty has a conversion that
  counts against the limit, or a failure that raises the offset in a list that does not grow.
\<close>

fun convert_loop ::
  "'b api_lib \<Rightarrow> api_env \<Rightarrow> nat \<Rightarrow> nat \<Rightarrow> cjson list \<Rightarrow> cjson list \<Rightarrow> nat \<Rightarrow> bm_keyring_convert_session \<Rightarrow> api_node
     \<Rightarrow> (cjson list \<times> cjson list \<times> api_node) outcome" where
  "convert_loop L e limit 0 converted failed k session n = Fault"
| "convert_loop L e limit (Suc fuel) converted failed k session n =
     (if limit \<le> length converted then Done (converted, failed, n)
      else (case bm_identity_store_list_by_version (av_pages e k) 3 (limit - length converted) (length failed) (sn_identities (an_sync n)) of
              None \<Rightarrow> Done (converted, failed, n)
            | Some page \<Rightarrow>
                bind_outcome (convert_page L e k (map is_address page) session n) (\<lambda>(c, f, session1, n1).
                  if page = [] then Done (converted, failed, n1)
                  else convert_loop L e limit fuel (converted @ c) (failed @ f) (k + length page) session1 n1)))"

definition count_v3 :: "api_node \<Rightarrow> nat" where
  "count_v3 n = length (filter (\<lambda>r. ir_address_version r = 3) (identities (sn_identities (an_sync n))))"

definition h_convertV3AddressesToV4 :: "'b api_lib \<Rightarrow> plain_method" where
  "h_convertV3AddressesToV4 L e params n =
     (case param_str params 0 of
        None \<Rightarrow> Done (Inl (lit ''convertV3AddressesToV4 requires [passphrase, limit(optional)]''), n)
      | Some passphrase \<Rightarrow>
          let limit = (case param_at params 1 of
                None \<Rightarrow> Some BM_API_CONVERT_V3_DEFAULT_LIMIT
              | Some (CJ_Number (Finite v)) \<Rightarrow>
                  if v < 1 \<or> of_nat BM_API_CONVERT_V3_MAX_LIMIT < v then None else Some (nat (truncated v))
              | Some _ \<Rightarrow> None)
          in (case limit of
                None \<Rightarrow> Done (Inl (lit ''limit must be a number between 1 and 10000''), n)
              | Some max_done \<Rightarrow>
                  bind_outcome (convert_loop L e max_done (Suc (max_done + count_v3 n)) [] [] 0 (bm_keyring_convert_session_init passphrase) n)
                    (\<lambda>(converted, failed, n1).
                      Done (Inr (CJ_Object [(lit ''converted'', CJ_Array converted), (lit ''failed'', CJ_Array failed),
                        (lit ''remaining'', json_int (case bm_identity_store_count_by_version (av_ok e 0) 3 (sn_identities (an_sync n1)) of
                           None \<Rightarrow> 0 | Some c \<Rightarrow> int c))]), n1))))"

section \<open>Addresses\<close>

definition h_listAddresses :: plain_method where
  "h_listAddresses e params n =
     (case bm_identity_store_list (av_ok e 0) (sn_identities (an_sync n)) of
        None \<Rightarrow> Done (Inl (lit ''failed to list identities''), n)
      | Some l \<Rightarrow>
          Done (Inr (CJ_Array (map (\<lambda>i. CJ_Object [(lit ''address'', json_str (Some (is_address i))), (lit ''label'', json_str (Some (is_label i))),
            (lit ''enabled'', CJ_Bool (is_enabled i \<noteq> 0)),
            (lit ''unlocked'', CJ_Bool (bm_keyring_find_by_address (is_address i) (sn_keyring (an_sync n)) \<noteq> None)),
            (lit ''isChan'', CJ_Bool (is_is_chan i \<noteq> 0))]) l)), n))"

text \<open>The key pairs of a passphrase; a search that does not end is a \<open>Fault\<close>.\<close>

definition generated :: "'b api_lib \<Rightarrow> bytes \<Rightarrow> int \<Rightarrow> bm_generated_address option outcome" where
  "generated L passphrase null_bytes =
     (case bm_address_generate_deterministic (al_ssl L) passphrase (nat null_bytes) of None \<Rightarrow> Fault | Some r \<Rightarrow> Done r)"

text \<open>The part that \<open>createDeterministicAddress\<close> and \<open>joinChan\<close> share; the result has the address.\<close>

definition store_generated ::
  "'b api_lib \<Rightarrow> api_env \<Rightarrow> bytes \<Rightarrow> int \<Rightarrow> u64 \<Rightarrow> u64 \<Rightarrow> bytes option \<Rightarrow> bytes \<Rightarrow> bytes \<Rightarrow> api_node \<Rightarrow> ((bytes + bytes) \<times> api_node) outcome" where
  "store_generated L e passphrase null_bytes version stream label store_passphrase store_error n =
     bind_outcome (generated L passphrase null_bytes) (\<lambda>gen.
       case gen of
         None \<Rightarrow> Done (Inl (lit ''address generation failed''), n)
       | Some g \<Rightarrow>
           bind_outcome (bm_address_encode (al_ssl L) version stream (ripe g)) (\<lambda>enc.
             case enc of
               None \<Rightarrow> Done (Inl (lit ''address encoding failed''), n)
             | Some address \<Rightarrow>
                 (case bm_keyring_create_identity (al_kdf L) (av_keyring e) address (Some (case label of Some l \<Rightarrow> l | None \<Rightarrow> []))
                         (to_int32 version) (to_int32 stream) (pub_signing g) (pub_encryption g) (priv_signing g) (priv_encryption g)
                         store_passphrase (al_default_nonce_trials_per_byte L) (al_default_payload_length_extra_bytes L) (sn_identities (an_sync n)) of
                    (rc, db) \<Rightarrow>
                      let n1 = with_identities db n
                      in Done (if rc \<noteq> 0 then Inl store_error else Inr address, n1))))"

definition h_createDeterministicAddress :: "'b api_lib \<Rightarrow> plain_method" where
  "h_createDeterministicAddress L e params n =
     (case (param_str params 0, param_at params 1, param_at params 2, param_at params 3, param_str params 5) of
        (Some passphrase, Some version_v, Some stream_v, Some null_bytes_v, Some store_passphrase) \<Rightarrow>
          bind_outcome (to_uint64 (json_num (Some version_v))) (\<lambda>version.
          bind_outcome (to_uint64 (json_num (Some stream_v))) (\<lambda>stream.
          bind_outcome (to_c_int (json_num (Some null_bytes_v))) (\<lambda>null_bytes.
            if version < 3 \<or> 4 < version then Done (Inl (lit ''addressVersion must be 3 or 4''), n)
            else bind_outcome (store_generated L e passphrase null_bytes version stream (param_str params 4) store_passphrase
                   (lit ''failed to store identity (duplicate address?)'') n) (\<lambda>(r, n1).
                   Done (map_sum id (\<lambda>a. json_str (Some a)) r, n1)))))
      | _ \<Rightarrow> Done (Inl (lit ''createDeterministicAddress requires [passphrase, addressVersion, stream, ripeNullBytes, label, storePassphrase]''), n))"

definition h_joinChan :: "'b api_lib \<Rightarrow> plain_method" where
  "h_joinChan L e params n =
     (case (param_str params 0, param_str params 2) of
        (Some passphrase, Some store_passphrase) \<Rightarrow>
          bind_outcome (store_generated L e passphrase 1 4 1 (param_str params 1) store_passphrase
            (lit ''failed to store chan identity (already joined this chan?)'') n) (\<lambda>(r, n1).
            Done (case r of
              Inl err \<Rightarrow> (Inl err, n1)
            | Inr address \<Rightarrow>
                (Inr (json_str (Some address)), with_identities (snd (bm_keyring_mark_as_chan (av_ok e 0) address (sn_identities (an_sync n1)))) n1)))
      | _ \<Rightarrow> Done (Inl (lit ''joinChan requires [passphrase, label, storePassphrase]''), n))"

definition h_setAddressLabel :: plain_method where
  "h_setAddressLabel e params n =
     (case (param_str params 0, param_str params 1) of
        (Some address, Some label) \<Rightarrow>
          (case bm_identity_store_update_label (av_ok e 0) address label (sn_identities (an_sync n)) of
             (rc, db) \<Rightarrow> Done (if rc \<noteq> 0 then Inl (lit ''address not found'') else Inr (CJ_Bool True), with_identities db n))
      | _ \<Rightarrow> Done (Inl (lit ''setAddressLabel requires [address, label]''), n))"

section \<open>Imported keys\<close>

text \<open>The checks of an import: the version, the stream and the key pairs, or the error.\<close>

definition import_keys ::
  "'b api_lib \<Rightarrow> bytes \<Rightarrow> bytes \<Rightarrow> bytes \<Rightarrow> bytes \<Rightarrow> bytes + (u64 \<times> u64 \<times> bytes \<times> bytes \<times> bytes \<times> bytes)" where
  "import_keys L address signing_wif encryption_wif wif_error =
     (case bm_address_decode (al_bn L) (al_ssl L) address of
        None \<Rightarrow> Inl (lit ''invalid address'')
      | Some (version, stream, ripe_from_address) \<Rightarrow>
          (case (bm_address_decode_wif (al_bn L) (al_ssl L) signing_wif, bm_address_decode_wif (al_bn L) (al_ssl L) encryption_wif) of
             (Some ps, Some pe) \<Rightarrow>
               (case (bm_address_get_public_key (al_ssl L) ps, bm_address_get_public_key (al_ssl L) pe) of
                  (Some pubs, Some pube) \<Rightarrow>
                    if bm_address_calc_ripe (al_ssl L) pubs pube \<noteq> ripe_from_address then Inl (lit ''WIF keys do not match the given address'')
                    else Inr (version, stream, pubs, pube, ps, pe)
                | _ \<Rightarrow> Inl (lit ''failed to derive public key from WIF''))
           | _ \<Rightarrow> Inl wif_error))"

definition h_importAddress :: "'b api_lib \<Rightarrow> plain_method" where
  "h_importAddress L e params n =
     (case (param_str params 0, param_str params 1, param_str params 2, param_str params 4) of
        (Some address, Some signing_wif, Some encryption_wif, Some store_passphrase) \<Rightarrow>
          (case import_keys L address signing_wif encryption_wif (lit ''invalid WIF (signingWIF/encryptionWIF)'') of
             Inl err \<Rightarrow> Done (Inl err, n)
           | Inr (version, stream, pubs, pube, ps, pe) \<Rightarrow>
               bind_outcome (u64_or (param_at params 5) (al_default_nonce_trials_per_byte L)) (\<lambda>nonce_trials.
               bind_outcome (u64_or (param_at params 6) (al_default_payload_length_extra_bytes L)) (\<lambda>payload_extra.
                 case bm_keyring_import_identity (al_kdf L) (av_keyring e) address (Some (case param_str params 3 of Some l \<Rightarrow> l | None \<Rightarrow> []))
                        (to_int32 version) (to_int32 stream) pubs pube ps pe store_passphrase nonce_trials payload_extra (sn_identities (an_sync n)) of
                   (rc, db) \<Rightarrow>
                     if rc \<noteq> 0
                     then Done (Inl (lit ''failed to store identity (duplicate address, or storePassphrase does not match the existing vault passphrase?)''),
                            with_identities db n)
                     else Done (Inr (CJ_Bool True), with_identities
                            (if is_true (param_at params 7) then snd (bm_keyring_mark_as_chan (av_ok e 0) address db) else db) n))))
      | _ \<Rightarrow> Done (Inl (lit ''importAddress requires [address, signingWIF, encryptionWIF, label, storePassphrase, nonceTrialsPerByte?, payloadLengthExtraBytes?]''), n))"

text \<open>A member of an entry; an entry that is not an object has none.\<close>

fun entry_get :: "cjson \<Rightarrow> bytes \<Rightarrow> cjson option" where
  "entry_get (CJ_Object ms) key = json_obj_get ms key"
| "entry_get v key = None"

text \<open>
  One entry of the import. \<open>i\<close> is its position: the keyring is given \<open>av_many e i\<close>, and \<open>av_ok e i\<close> answers the
  marking of a chan.
\<close>

definition import_entry ::
  "'b api_lib \<Rightarrow> api_env \<Rightarrow> nat \<Rightarrow> bytes \<Rightarrow> cjson \<Rightarrow> identity_db \<Rightarrow> (bytes option \<times> identity_db) outcome" where
  "import_entry L e i master_kek entry db =
     (case (json_cstr (entry_get entry (lit ''address'')), json_cstr (entry_get entry (lit ''signingWIF'')),
            json_cstr (entry_get entry (lit ''encryptionWIF''))) of
        (Some address, Some signing_wif, Some encryption_wif) \<Rightarrow>
          (case import_keys L address signing_wif encryption_wif (lit ''invalid WIF'') of
             Inl err \<Rightarrow> Done (Some err, db)
           | Inr (version, stream, pubs, pube, ps, pe) \<Rightarrow>
               bind_outcome (u64_or (entry_get entry (lit ''nonceTrialsPerByte'')) (al_default_nonce_trials_per_byte L)) (\<lambda>nonce_trials.
               bind_outcome (u64_or (entry_get entry (lit ''payloadLengthExtraBytes'')) (al_default_payload_length_extra_bytes L)) (\<lambda>payload_extra.
                 case bm_keyring_import_identity_with_master_kek (al_kdf L) (av_many e i) 0 0 address
                        (Some (case json_cstr (entry_get entry (lit ''label'')) of Some l \<Rightarrow> l | None \<Rightarrow> []))
                        (to_int32 version) (to_int32 stream) pubs pube ps pe master_kek nonce_trials payload_extra db of
                   (rc, db1) \<Rightarrow>
                     Done (if rc \<noteq> 0 then (Some (lit ''failed to store identity (duplicate address?)''), db1)
                           else (None, if is_true (entry_get entry (lit ''isChan'')) then snd (bm_keyring_mark_as_chan (av_ok e i) address db1) else db1)))))
      | _ \<Rightarrow> Done (Some (lit ''missing address/signingWIF/encryptionWIF''), db))"

fun import_loop ::
  "'b api_lib \<Rightarrow> api_env \<Rightarrow> nat \<Rightarrow> bytes \<Rightarrow> cjson list \<Rightarrow> identity_db \<Rightarrow> (cjson list \<times> identity_db) outcome" where
  "import_loop L e i master_kek [] db = Done ([], db)"
| "import_loop L e i master_kek (entry # rest) db =
     bind_outcome (import_entry L e i master_kek entry db) (\<lambda>(err, db1).
     bind_outcome (import_loop L e (Suc i) master_kek rest db1) (\<lambda>(results, db2).
       Done (CJ_Object ([(lit ''address'', json_str (Some (case json_cstr (entry_get entry (lit ''address'')) of Some a \<Rightarrow> a | None \<Rightarrow> lit ''(missing)''))),
              (lit ''success'', CJ_Bool (err = None))] @ (case err of None \<Rightarrow> [] | Some msg \<Rightarrow> [(lit ''error'', json_str (Some msg))])) # results, db2)))"

definition h_importAddressesBulk :: "'b api_lib \<Rightarrow> plain_method" where
  "h_importAddressesBulk L e params n =
     (case (param_at params 0, param_str params 1) of
        (Some (CJ_Array items), Some store_passphrase) \<Rightarrow>
          (case bm_keyring_resolve_or_create_vault_master_kek (al_kdf L) (av_keyring e) store_passphrase (sn_identities (an_sync n)) of
             (None, db) \<Rightarrow> Done (Inl (lit ''storePassphrase does not match the existing vault passphrase''), with_identities db n)
           | (Some master_kek, db) \<Rightarrow>
               bind_outcome (import_loop L e 0 master_kek items db) (\<lambda>(results, db1). Done (Inr (CJ_Array results), with_identities db1 n)))
      | _ \<Rightarrow> Done (Inl (lit ''importAddressesBulk requires [entries, storePassphrase]''), n))"

definition h_cachePubkey :: "'b api_lib \<Rightarrow> plain_method" where
  "h_cachePubkey L e params n =
     (case (param_str params 0, param_str params 1, param_str params 2) of
        (Some address, Some signing_hex, Some encryption_hex) \<Rightarrow>
          (case bm_address_decode (al_bn L) (al_ssl L) address of
             None \<Rightarrow> Done (Inl (lit ''invalid address''), n)
           | Some (version, stream, r) \<Rightarrow>
               (case (hex_decode_fixed signing_hex 65, hex_decode_fixed encryption_hex 65) of
                  (Some sign, Some enc) \<Rightarrow>
                    (case bm_pubkey_cache_upsert (av_ok e 0)
                            \<lparr>cp_ripe = r, cp_tag = replicate 32 0, cp_address_version = version, cp_stream = stream, cp_behavior_bitfield = 0, cp_signing_pubkey = sign,
                             cp_encryption_pubkey = enc, cp_nonce_trials_per_byte = 0, cp_payload_length_extra_bytes = 0\<rparr>
                            (av_now e) (sn_pubkeys (an_sync n)) of
                       (rc, pdb) \<Rightarrow> Done (if rc \<noteq> 0 then Inl (lit ''failed to store pubkey cache entry'') else Inr (CJ_Bool True),
                         n\<lparr>an_sync := (an_sync n)\<lparr>sn_pubkeys := pdb\<rparr>\<rparr>))
                | _ \<Rightarrow> Done (Inl (lit ''pubkeys must be exactly 130 hex characters (65 bytes) each''), n)))
      | _ \<Rightarrow> Done (Inl (lit ''cachePubkey requires [address, signingPubkeyHex, encryptionPubkeyHex] (each 130 hex characters, 65 bytes, 0x04||X||Y)''), n))"

section \<open>Sending\<close>

definition check_subject_body_length :: "bytes \<Rightarrow> bytes \<Rightarrow> nat \<Rightarrow> bytes option" where
  "check_subject_body_length subject body limit =
     (let total = strlen subject + strlen body
      in if total \<le> limit then None
         else Some (take 191 (lit ''Message is too long. subject + body = '' @ dec total @ lit '' bytes, but the maximum is '' @ dec limit @ lit '' bytes.'')))"

text \<open>The request for the key of the receiver, when the key is unknown and none was asked for lately.\<close>

definition request_pubkey_if_unknown :: "'b api_lib \<Rightarrow> api_env \<Rightarrow> bytes \<Rightarrow> sync_node \<Rightarrow> sync_node outcome" where
  "request_pubkey_if_unknown L e to_address s =
     (case bm_address_decode (al_bn L) (al_ssl L) to_address of
        None \<Rightarrow> Done s
      | Some (to_version, to_stream, to_ripe) \<Rightarrow>
          if bm_pubkey_cache_lookup_by_ripe (av_ok e 0) to_ripe (sn_pubkeys s) \<noteq> None \<or>
             bm_pubkey_cache_has_recent_request (av_ok e 1) to_ripe (av_now e) BM_GETPUBKEY_REQUEST_COOLDOWN_SECONDS (sn_pubkeys s) then Done s
          else
            let payload = bm_build_getpubkey (al_ssl L) to_version to_stream to_ripe (word_of_int (av_now e) + BM_GETPUBKEY_REQUEST_TTL_SECONDS)
            in bind_outcome (bm_pow_get_target (word_of_nat (length payload)) BM_GETPUBKEY_REQUEST_TTL_SECONDS
                   BM_GETPUBKEY_NONCE_TRIALS_PER_BYTE BM_GETPUBKEY_PAYLOAD_LENGTH_EXTRA_BYTES) (\<lambda>target.
               bind_outcome (submit_pow False (fst (av_request_job e)) (snd (av_request_job e)) payload target (Some (0x47 # to_ripe))
                   (Other_done Getpubkey_request) (sn_pow s)) (\<lambda>(r, ps).
                 Done (s\<lparr>sn_pow := ps,
                   sn_pubkeys := snd (bm_pubkey_cache_record_request (av_ok e 2) to_ripe to_version to_stream (av_now e) (sn_pubkeys s))\<rparr>))))"

definition submit_message ::
  "'b api_lib \<Rightarrow> api_env \<Rightarrow> bytes \<Rightarrow> bytes \<Rightarrow> bytes \<Rightarrow> bytes \<Rightarrow> u64 \<Rightarrow> int \<Rightarrow> nat \<Rightarrow> api_node \<Rightarrow> (int \<times> api_node) outcome" where
  "submit_message L e from_address to_address subject body ttl_seconds ack_stealth_level slot n =
     (let s = an_sync n
      in bind_outcome (bm_send_pipeline_send_message_async (al_bn L) (al_ssl L) (av_pipe e) (fst (av_job e)) (snd (av_job e)) (sn_keyring s)
           (sn_identities s) from_address to_address subject body ttl_seconds ack_stealth_level None
           (av_send_now e + BM_RESEND_INITIAL_INTERVAL_SECONDS) (av_send_now e) (Api_done slot) (sn_pubkeys s, sn_pow s)) (\<lambda>(rc, pdb, ps).
           Done (rc, n\<lparr>an_sync := s\<lparr>sn_pubkeys := pdb, sn_pow := ps\<rparr>\<rparr>)))"

definition h_sendMessage :: "'b api_lib \<Rightarrow> (api_env, api_node) api_handler" where
  "h_sendMessage L e params n m =
     (case (param_str params 0, param_str params 1, param_str params 2, param_str params 3) of
        (Some from_address, Some to_address, Some subject, Some body) \<Rightarrow>
          (case check_subject_body_length subject body BM_MAX_SUBJECT_PLUS_BODY_LEN of
             Some err \<Rightarrow> Done (None, Some err, n, m)
           | None \<Rightarrow>
               bind_outcome (request_pubkey_if_unknown L e to_address (an_sync n)) (\<lambda>s.
               bind_outcome (u64_or (param_at params 4) (2 * 24 * 60 * 60)) (\<lambda>ttl_seconds.
               bind_outcome (c_int_or (param_at params 5) 1) (\<lambda>ack_stealth_level.
                 send_in_slot (al_ssl L) (av_slot e)
                   (lit ''send failed (is fromAddress unlocked? is toAddress valid? if the recipient'' @ [39] @ lit ''s key was not yet cached, a getpubkey request was broadcast automatically; retry sendMessage once it has been received, or supply it directly via cachePubkey. Otherwise the PoW queue may be full)'')
                   (submit_message L e from_address to_address subject body ttl_seconds ack_stealth_level) (n\<lparr>an_sync := s\<rparr>) m))))
      | _ \<Rightarrow> Done (None, Some (lit ''sendMessage requires [fromAddress, toAddress, subject, body, ttlSeconds?, ackStealthLevel?]. The recipient'' @ [39] @ lit ''s public key is always resolved from pubkey_cache; register it first via cachePubkey if needed.''), n, m))"

definition submit_broadcast ::
  "'b api_lib \<Rightarrow> api_env \<Rightarrow> bytes \<Rightarrow> bytes \<Rightarrow> bytes \<Rightarrow> u64 \<Rightarrow> nat \<Rightarrow> api_node \<Rightarrow> (int \<times> api_node) outcome" where
  "submit_broadcast L e from_address subject body ttl_seconds slot n =
     (let s = an_sync n
      in bind_outcome (bm_send_pipeline_send_broadcast_async (al_ssl L) (av_ecies e) (av_mem e) (fst (av_job e)) (snd (av_job e)) (sn_keyring s)
           from_address subject body ttl_seconds (av_send_now e) (Api_done slot) (sn_pow s)) (\<lambda>(rc, ps).
           Done (rc, n\<lparr>an_sync := s\<lparr>sn_pow := ps\<rparr>\<rparr>)))"

definition h_sendBroadcast :: "'b api_lib \<Rightarrow> (api_env, api_node) api_handler" where
  "h_sendBroadcast L e params n m =
     (case (param_str params 0, param_str params 1, param_str params 2) of
        (Some from_address, Some subject, Some body) \<Rightarrow>
          (case check_subject_body_length subject body BM_MAX_SUBJECT_PLUS_BODY_LEN of
             Some err \<Rightarrow> Done (None, Some err, n, m)
           | None \<Rightarrow>
               bind_outcome (u64_or (param_at params 3) (2 * 24 * 60 * 60)) (\<lambda>ttl_seconds.
                 send_in_slot (al_ssl L) (av_slot e) (lit ''broadcast failed (is fromAddress unlocked? or the PoW queue may be full)'')
                   (submit_broadcast L e from_address subject body ttl_seconds) n m))
      | _ \<Rightarrow> Done (None, Some (lit ''sendBroadcast requires [fromAddress, subject, body, ttlSeconds?]''), n, m))"

section \<open>Subscriptions and the address book\<close>

definition check_known_address :: "'b api_lib \<Rightarrow> bytes \<Rightarrow> bytes option" where
  "check_known_address L address = (if bm_address_decode (al_bn L) (al_ssl L) address = None then Some (lit ''invalid address'') else None)"

definition h_addSubscription :: "'b api_lib \<Rightarrow> plain_method" where
  "h_addSubscription L e params n =
     (case param_str params 0 of
        None \<Rightarrow> Done (Inl (lit ''addSubscription requires [address, label?]''), n)
      | Some address \<Rightarrow>
          (case check_known_address L address of
             Some err \<Rightarrow> Done (Inl err, n)
           | None \<Rightarrow>
               (case bm_messages_store_add_subscription (av_ok e 0) address (case param_str params 1 of Some l \<Rightarrow> l | None \<Rightarrow> []) (sn_messages (an_sync n)) of
                  (rc, mdb) \<Rightarrow> Done (Inr (CJ_Bool (rc = 0)), with_messages mdb n))))"

definition h_removeSubscription :: plain_method where
  "h_removeSubscription e params n =
     (case param_str params 0 of
        None \<Rightarrow> Done (Inl (lit ''removeSubscription requires [address]''), n)
      | Some address \<Rightarrow>
          (case bm_messages_store_remove_subscription (av_ok e 0) address (sn_messages (an_sync n)) of
             (rc, mdb) \<Rightarrow> Done (Inr (CJ_Bool (rc = 0)), with_messages mdb n)))"

definition labelled_json :: "bytes \<times> bytes \<Rightarrow> cjson" where
  "labelled_json l = CJ_Object [(lit ''address'', json_str (Some (fst l))), (lit ''label'', json_str (Some (snd l)))]"

definition h_listSubscriptions :: plain_method where
  "h_listSubscriptions e params n =
     (case bm_messages_store_list_subscriptions (av_ok e 0) (sn_messages (an_sync n)) of
        None \<Rightarrow> Done (Inl (lit ''failed to list subscriptions''), n)
      | Some l \<Rightarrow> Done (Inr (CJ_Array (map labelled_json l)), n))"

definition h_addAddressBookEntry :: "'b api_lib \<Rightarrow> plain_method" where
  "h_addAddressBookEntry L e params n =
     (case (param_str params 0, param_str params 1) of
        (Some address, Some label) \<Rightarrow>
          (case check_known_address L address of
             Some err \<Rightarrow> Done (Inl err, n)
           | None \<Rightarrow>
               (case bm_messages_store_add_address_book_entry (av_ok e 0) address label (sn_messages (an_sync n)) of
                  (rc, mdb) \<Rightarrow>
                    Done (if rc \<noteq> 0 then Inl (lit ''address already exists in address book'') else Inr (CJ_Bool True), with_messages mdb n)))
      | _ \<Rightarrow> Done (Inl (lit ''addAddressBookEntry requires [address, label]''), n))"

definition h_deleteAddressBookEntry :: plain_method where
  "h_deleteAddressBookEntry e params n =
     (case param_str params 0 of
        None \<Rightarrow> Done (Inl (lit ''deleteAddressBookEntry requires [address]''), n)
      | Some address \<Rightarrow>
          (case bm_messages_store_remove_address_book_entry (av_ok e 0) address (sn_messages (an_sync n)) of
             (rc, mdb) \<Rightarrow> Done (Inr (CJ_Bool (rc = 0)), with_messages mdb n)))"

definition h_listAddressBookEntries :: plain_method where
  "h_listAddressBookEntries e params n =
     (case bm_messages_store_list_address_book (av_ok e 0) (sn_messages (an_sync n)) of
        None \<Rightarrow> Done (Inl (lit ''failed to list address book''), n)
      | Some l \<Rightarrow> Done (Inr (CJ_Array (map labelled_json l)), n))"

section \<open>Settings and peers\<close>

definition get_socks_proxy_common :: "(bool \<Rightarrow> config_db \<Rightarrow> bm_socks_proxy_config option) \<Rightarrow> plain_method" where
  "get_socks_proxy_common getter e params n =
     (case an_config n of
        None \<Rightarrow> Done (Inl (lit ''config store is not available''), n)
      | Some db \<Rightarrow>
          (case getter (av_ok e 0) db of
             None \<Rightarrow> Done (Inl (lit ''failed to read socks proxy config''), n)
           | Some proxy \<Rightarrow>
               Done (Inr (CJ_Object [(lit ''enabled'', CJ_Bool (sp_enabled proxy \<noteq> 0)), (lit ''host'', json_str (Some (sp_host proxy))),
                 (lit ''port'', json_int (sp_port proxy))]), n)))"

definition set_socks_proxy_common ::
  "(bool \<Rightarrow> bm_socks_proxy_config \<Rightarrow> config_db \<Rightarrow> int \<times> config_db) \<Rightarrow> bytes \<Rightarrow> plain_method" where
  "set_socks_proxy_common setter usage_error e params n =
     (case an_config n of
        None \<Rightarrow> Done (Inl (lit ''config store is not available''), n)
      | Some db \<Rightarrow>
          (case (param_at params 0, param_str params 1, param_at params 2) of
             (Some enabled_v, Some host, Some port_v) \<Rightarrow>
               if strlen host = 0 \<or> 256 \<le> strlen host then Done (Inl (lit ''host must be non-empty and shorter than 256 bytes''), n)
               else bind_outcome (to_c_int (json_num (Some port_v))) (\<lambda>port.
                 if port \<le> 0 \<or> 65535 < port then Done (Inl (lit ''port must be between 1 and 65535''), n)
                 else (case setter (av_ok e 0) \<lparr>sp_enabled = (if json_num (Some enabled_v) \<noteq> Finite 0 then 1 else 0), sp_host = c_str host, sp_port = port\<rparr> db of
                         (rc, db1) \<Rightarrow>
                           Done (if rc \<noteq> 0 then Inl (lit ''failed to store socks proxy config'') else Inr (CJ_Bool True), n\<lparr>an_config := Some db1\<rparr>)))
           | _ \<Rightarrow> Done (Inl usage_error, n)))"

definition h_getSocksProxyOnion :: plain_method where
  "h_getSocksProxyOnion = get_socks_proxy_common bm_config_store_get_socks_proxy_onion"

definition h_setSocksProxyOnion :: plain_method where
  "h_setSocksProxyOnion = set_socks_proxy_common bm_config_store_set_socks_proxy_onion (lit ''setSocksProxyOnion requires [enabled, host, port]'')"

definition h_getSocksProxyClearnet :: plain_method where
  "h_getSocksProxyClearnet = get_socks_proxy_common bm_config_store_get_socks_proxy_clearnet"

definition h_setSocksProxyClearnet :: plain_method where
  "h_setSocksProxyClearnet = set_socks_proxy_common bm_config_store_set_socks_proxy_clearnet (lit ''setSocksProxyClearnet requires [enabled, host, port]'')"

definition h_addPeer :: plain_method where
  "h_addPeer e params n =
     (case sn_peers (an_sync n) of
        None \<Rightarrow> Done (Inl (lit ''peer store is not available''), n)
      | Some db \<Rightarrow>
          (case (param_str params 0, param_at params 1) of
             (Some ip_address, Some port_v) \<Rightarrow>
               if strlen ip_address = 0 \<or> 64 \<le> strlen ip_address then Done (Inl (lit ''ipAddress must be non-empty and shorter than 64 bytes''), n)
               else bind_outcome (to_c_int (json_num (Some port_v))) (\<lambda>port.
                 if port \<le> 0 \<or> 65535 < port then Done (Inl (lit ''port must be between 1 and 65535''), n)
                 else bind_outcome (c_int_or (param_at params 2) 1) (\<lambda>stream.
                   case bm_peer_manager_upsert_learned (av_ok e 0) ip_address port stream 1 (av_now e) (lit ''manual'') db of
                     (rc, db1) \<Rightarrow>
                       Done (if rc \<noteq> 0 then Inl (lit ''failed to store peer'') else Inr (CJ_Bool True),
                         n\<lparr>an_sync := (an_sync n)\<lparr>sn_peers := Some db1\<rparr>\<rparr>)))
           | _ \<Rightarrow> Done (Inl (lit ''addPeer requires [ipAddress, port, stream?]''), n)))"

definition list_connections_one :: "(sockaddr \<Rightarrow> bytes) \<Rightarrow> int \<times> bm_fd_data \<Rightarrow> cjson" where
  "list_connections_one ntop c =
     (case c of (fd, conn) \<Rightarrow>
        (case bm_network_resolve_peer_ip_port ntop conn of (ip, port) \<Rightarrow>
           CJ_Object [(lit ''host'', json_str (Some ip)), (lit ''port'', json_int port), (lit ''fd'', json_int fd),
             (lit ''fullyEstablished'', CJ_Bool (handshake_complete conn)), (lit ''userAgent'', json_str (fd_user_agent conn)),
             (lit ''sentBytes'', json_int (uint (fd_bytes_sent conn))), (lit ''receivedBytes'', json_int (uint (fd_bytes_received conn)))]))"

definition h_listConnections :: "'b api_lib \<Rightarrow> plain_method" where
  "h_listConnections L e params n =
     (case an_registry n of
        None \<Rightarrow> Done (Inl (lit ''connection registry is not available''), n)
      | Some conns \<Rightarrow>
          let peers = filter (\<lambda>c. fd_type (snd c) \<noteq> BM_FD_LISTEN_SOCKET) conns;
              listed = (\<lambda>inbound. CJ_Array (map (list_connections_one (al_ntop L))
                (filter (\<lambda>c. (fd_type (snd c) = BM_FD_SERVER_SOCKET) = inbound) peers)))
          in Done (Inr (CJ_Object [(lit ''inbound'', listed True), (lit ''outbound'', listed False)]), n))"

definition h_getNetworkStats :: plain_method where
  "h_getNetworkStats e params n =
     (case bm_network_get_stats (sn_stats (an_sync n)) of (bytes_sent, bytes_received) \<Rightarrow>
        Done (Inr (CJ_Object [(lit ''sentBytes'', json_int (uint bytes_sent)), (lit ''receivedBytes'', json_int (uint bytes_received))]), n))"

section \<open>Messages\<close>

definition inbox_json :: "inbox_row \<Rightarrow> cjson" where
  "inbox_json r = CJ_Object [(lit ''msgId'', json_str (Some (hex_encode (in_msg_id r)))), (lit ''toAddress'', json_str (Some (in_to_address r))),
     (lit ''fromAddress'', json_str (Some (in_from_address r))), (lit ''subject'', json_str (Some (in_subject r))),
     (lit ''body'', json_str (Some (in_body r))), (lit ''receivedTime'', json_int (in_received_time r)),
     (lit ''read'', CJ_Bool (in_read r \<noteq> 0)), (lit ''folder'', json_str (Some (in_folder r)))]"

definition h_getInboxMessages :: plain_method where
  "h_getInboxMessages e params n =
     (case bm_messages_store_list_inbox (av_ok e 0) (param_str params 0) (sn_messages (an_sync n)) of
        None \<Rightarrow> Done (Inl (lit ''failed to list inbox''), n)
      | Some l \<Rightarrow> Done (Inr (CJ_Array (map inbox_json l)), n))"

definition sent_json :: "sent_row \<Rightarrow> cjson" where
  "sent_json r = CJ_Object [(lit ''msgId'', json_str (Some (hex_encode (sr_msg_id r)))), (lit ''toAddress'', json_str (Some (sr_to_address r))),
     (lit ''fromAddress'', json_str (Some (sr_from_address r))), (lit ''subject'', json_str (Some (sr_subject r))),
     (lit ''body'', json_str (Some (sr_body r))), (lit ''status'', json_str (Some (sr_status r))), (lit ''sentTime'', json_int (sr_sent_time r)),
     (lit ''ttl'', json_int (sr_ttl r)), (lit ''resendCount'', json_int (int (sr_resend_count r)))]"

definition h_getSentMessages :: plain_method where
  "h_getSentMessages e params n =
     (case bm_messages_store_list_sent (av_ok e 0) (sn_messages (an_sync n)) of
        None \<Rightarrow> Done (Inl (lit ''failed to list sent''), n)
      | Some l \<Rightarrow> Done (Inr (CJ_Array (map sent_json l)), n))"

definition h_trashMessage :: plain_method where
  "h_trashMessage e params n =
     (case param_str params 0 of
        None \<Rightarrow> Done (Inl (lit ''trashMessage requires [msgId]''), n)
      | Some msg_id_hex \<Rightarrow>
          (case hex_decode_fixed msg_id_hex 32 of
             None \<Rightarrow> Done (Inl (lit ''msgId must be a 64-character hex string''), n)
           | Some msg_id \<Rightarrow>
               (case bm_messages_store_trash_inbox_message (av_ok e 0) msg_id (sn_messages (an_sync n)) of
                  (inbox_rc, mdb1) \<Rightarrow>
                    (case bm_messages_store_trash_sent_message (av_ok e 1) msg_id mdb1 of
                       (sent_rc, mdb2) \<Rightarrow>
                         Done (if inbox_rc \<noteq> 0 \<and> sent_rc \<noteq> 0 then Inl (lit ''failed to trash message'') else Inr (CJ_Bool True),
                           with_messages mdb2 n)))))"

section \<open>The table of methods\<close>

definition METHODS :: "'b api_lib \<Rightarrow> (bytes \<times> (api_env, api_node) api_handler) list" where
  "METHODS L =
     [(lit ''unlockAddress'', plain (h_unlockAddress L)),
      (lit ''unlockAllAddresses'', plain (h_unlockAllAddresses L)),
      (lit ''unlockAddresses'', plain (h_unlockAddresses L)),
      (lit ''exportAddress'', plain (h_exportAddress L)),
      (lit ''lockAddress'', plain h_lockAddress),
      (lit ''lockAllAddresses'', plain h_lockAllAddresses),
      (lit ''deleteAddress'', plain h_deleteAddress),
      (lit ''convertAddressToV4'', plain (h_convertAddressToV4 L)),
      (lit ''convertV3AddressesToV4'', plain (h_convertV3AddressesToV4 L)),
      (lit ''listAddresses'', plain h_listAddresses),
      (lit ''createDeterministicAddress'', plain (h_createDeterministicAddress L)),
      (lit ''setAddressLabel'', plain h_setAddressLabel),
      (lit ''importAddress'', plain (h_importAddress L)),
      (lit ''importAddressesBulk'', plain (h_importAddressesBulk L)),
      (lit ''joinChan'', plain (h_joinChan L)),
      (lit ''cachePubkey'', plain (h_cachePubkey L)),
      (lit ''sendMessage'', h_sendMessage L),
      (lit ''sendBroadcast'', h_sendBroadcast L),
      (lit ''getInboxMessages'', plain h_getInboxMessages),
      (lit ''getSentMessages'', plain h_getSentMessages),
      (lit ''trashMessage'', plain h_trashMessage),
      (lit ''addSubscription'', plain (h_addSubscription L)),
      (lit ''removeSubscription'', plain h_removeSubscription),
      (lit ''listSubscriptions'', plain h_listSubscriptions),
      (lit ''addAddressBookEntry'', plain (h_addAddressBookEntry L)),
      (lit ''deleteAddressBookEntry'', plain h_deleteAddressBookEntry),
      (lit ''listAddressBookEntries'', plain h_listAddressBookEntries),
      (lit ''getSocksProxyOnion'', plain h_getSocksProxyOnion),
      (lit ''setSocksProxyOnion'', plain h_setSocksProxyOnion),
      (lit ''getSocksProxyClearnet'', plain h_getSocksProxyClearnet),
      (lit ''setSocksProxyClearnet'', plain h_setSocksProxyClearnet),
      (lit ''addPeer'', plain h_addPeer),
      (lit ''listConnections'', plain (h_listConnections L)),
      (lit ''getNetworkStats'', plain h_getNetworkStats)]"

section \<open>The methods keep the memory of the server\<close>

lemma plain_keeps: "plain f e params n m = Done (result, err, n', m') \<Longrightarrow> m' = m"
  by (auto simp: plain_def)

lemma method_cases:
  "(name, handler) \<in> set (METHODS L) \<Longrightarrow> (\<exists>f. handler = plain f) \<or> handler = h_sendMessage L \<or> handler = h_sendBroadcast L"
  unfolding METHODS_def by auto

lemma sendMessage_sends:
  "h_sendMessage L e params n m = Done (result, err, n', m') \<Longrightarrow>
     m' = m \<or> (\<exists>fail submit n1. send_in_slot (al_ssl L) (av_slot e) fail submit n1 m = Done (result, err, n', m'))"
  unfolding h_sendMessage_def by (auto split: option.splits)

lemma sendBroadcast_sends:
  "h_sendBroadcast L e params n m = Done (result, err, n', m') \<Longrightarrow>
     m' = m \<or> (\<exists>fail submit n1. send_in_slot (al_ssl L) (av_slot e) fail submit n1 m = Done (result, err, n', m'))"
  unfolding h_sendBroadcast_def by (auto split: option.splits)

abbreviation api_env_ok :: "api_env \<Rightarrow> bool" where
  "api_env_ok e \<equiv> slot_env_ok (av_slot e)"

interpretation rpc: api_methods "METHODS L" api_env_ok for L :: "'b api_lib"
proof unfold_locales
  fix name handler e r m params n result err n' m'
  assume h: "(name, handler) \<in> set (METHODS L)" "api_env_ok e" "in_request r m" "handler e params n m = Done (result, err, n', m')"
  then have "m' = m \<or> (\<exists>fail submit n1. send_in_slot (al_ssl L) (av_slot e) fail submit n1 m = Done (result, err, n', m'))"
    using method_cases [OF h(1)] plain_keeps sendMessage_sends sendBroadcast_sends by metis
  then show "in_request r m' \<and> apart r m m'" using send_in_slot_keeps [OF h(3,2)] h(3) by (elim disjE exE) simp_all
qed

end
