(* ===== verification/Api_Calls.thy ===== *)
theory Api_Calls
  imports Api_Methods
begin

text \<open>
  What single methods of the JSON-RPC server promise: the conversion of version 3 addresses returns and keeps the private
  keys, and the settings of the proxies are read as they were written.
\<close>

section \<open>The conversion of all addresses returns\<close>

definition v3_rows :: "identity_db \<Rightarrow> nat" where
  "v3_rows db = length (filter (\<lambda>r. ir_address_version r = 3) (identities db))"

lemma count_v3_rows: "count_v3 n = v3_rows (sn_identities (an_sync n))"
  by (simp add: count_v3_def v3_rows_def)

lemma v3_update: "(\<And>r. ir_address_version (f r) = ir_address_version r) \<Longrightarrow> v3_rows (update_row a f db) = v3_rows db"
  by (simp add: v3_rows_def update_row_def filter_map comp_def if_distrib cong: if_cong)

lemma v3_chan [simp]: "v3_rows (snd (bm_identity_store_set_is_chan ok a c db)) = v3_rows db"
  by (simp add: bm_identity_store_set_is_chan_def v3_update)

lemma v3_label [simp]: "v3_rows (snd (bm_identity_store_update_label ok a l db)) = v3_rows db"
  by (simp add: bm_identity_store_update_label_def v3_update)

lemma v3_stored [simp]:
  "v3_rows (snd (store_new_identity_with_kek lib ok nonces now a label 4 stream spub epub sk ek algo salt params kek nt eb db)) = v3_rows db"
  by (simp add: store_new_identity_with_kek_def bm_identity_store_insert_def v3_rows_def split: option.split)

lemma v3_delete: "v3_rows (snd (bm_identity_store_delete ok a db)) \<le> v3_rows db"
proof -
  have "length (filter (\<lambda>x. Q x \<and> P x) xs) \<le> length (filter P xs)" for P Q and xs :: "bm_identity_row list" by (induction xs) auto
  then show ?thesis by (simp add: bm_identity_store_delete_def v3_rows_def)
qed

text \<open>The row of the sibling is new.\<close>

lemma stored_is_new:
  "store_new_identity_with_kek lib ok nonces now a label ver stream spub epub sk ek algo salt params kek nt eb db = (0, db') \<Longrightarrow> strlen a < 64 \<Longrightarrow>
     find_row a db = None"
  by (auto simp: store_new_identity_with_kek_def strlen_def split: option.splits dest!: find_row_insert(2)) (simp_all add: find_row_def)

lemma new_sibling_is_new: "new_sibling lib env session is_vault v3 v4a sk ek db = (Inr v4, db') \<Longrightarrow> strlen v4a < 64 \<Longrightarrow> find_row v4a db = None"
  by (auto simp: new_sibling_def bm_keyring_import_identity_with_master_kek_def bm_keyring_create_identity_def
      split: if_splits option.splits prod.splits dest: stored_is_new)

lemma new_sibling_v3: "new_sibling lib env session is_vault v3 v4a sk ek db = (res, db') \<Longrightarrow> v3_rows db' = v3_rows db"
proof -
  have "v3_rows (snd (bm_keyring_import_identity_with_master_kek lib env i j a label 4 stream spub epub sk ek master nt eb db)) = v3_rows db"
    for i j a label stream spub epub master nt eb
    by (simp add: bm_keyring_import_identity_with_master_kek_def split: option.split)
  moreover have "v3_rows (snd (bm_keyring_create_identity lib env2 a label 4 stream spub epub sk ek p nt eb db)) = v3_rows db"
    for env2 a label stream spub epub p nt eb
    by (simp add: bm_keyring_create_identity_def split: option.split)
  ultimately show "new_sibling lib env session is_vault v3 v4a sk ek db = (res, db') \<Longrightarrow> v3_rows db' = v3_rows db"
    unfolding new_sibling_def by (auto split: prod.splits option.splits if_splits) (metis snd_conv v3_chan)+
qed

lemma existing_sibling_v3: "existing_sibling env v3 v4 v4a (db, kr) = (res, db', kr') \<Longrightarrow> v3_rows db' = v3_rows db"
  by (auto simp: existing_sibling_def Let_def split: if_splits)


lemma ensure_v4_sibling_v3:
  "\<exists>r session' db' kr'. bm_keyring_ensure_v4_sibling ssl lib env a (session, db, kr) = Done (r, session', db', kr') \<and> v3_rows db' = v3_rows db \<and>
     (fst r = 0 \<and> snd (snd r) \<longrightarrow> find_row (fst (snd r)) db = None)"
proof (cases "bm_identity_store_load (ke_ok env 0) a db")
  case load: (Some v3)
  obtain have1 session1 where m: "(if c_str (ir_kdf_algo v3) = lit ''vault-hkdf'' then session_master_kek lib (ke_ok env 1) db session else (True, session)) =
      (have1, session1)" by (rule prod.exhaust)
  define kek_rc where "kek_rc = (if c_str (ir_kdf_algo v3) = lit ''vault-hkdf''
      then (if have1 then hkdf_expand_wrap_key lib (cs_master_kek session1) (ir_kdf_salt v3) (ir_address v3) else None)
      else resolve_kek_for_row lib (ke_ok env 1) v3 (cs_passphrase session1) db)"
  obtain enc where enc: "bm_address_encode ssl 4 (word_of_int (ir_stream v3))
      (bm_address_calc_ripe ssl (ir_signing_pubkey v3) (ir_encryption_pubkey v3)) = Done enc" using address_encode_returns by blast
  note unf = bm_keyring_ensure_v4_sibling_def prod.case load option.case Let_def m kek_rc_def [symmetric]
  show ?thesis
  proof (cases "ir_address_version v3 = 3 \<and> Option.bind kek_rc (\<lambda>kek. unwrap_row lib kek (ir_address v3) v3) \<noteq> None \<and> enc \<noteq> None")
    case False
    then show ?thesis unfolding unf by (auto simp: enc split: option.split)
  next
    case True
    then obtain sk ek addr where k: "ir_address_version v3 = 3" "Option.bind kek_rc (\<lambda>kek. unwrap_row lib kek (ir_address v3) v3) = Some (sk, ek)"
      "enc = Some addr" by auto
    define v4a where "v4a = take (BM_KEYRING_MAX_ADDRESS_LEN - 1) addr"
    obtain res db1 kr1 where r: "(case bm_identity_store_load (ke_ok env 2) v4a db of Some v4 \<Rightarrow> existing_sibling env v3 v4 v4a (db, kr)
        | None \<Rightarrow> (case new_sibling lib env session1 (c_str (ir_kdf_algo v3) = lit ''vault-hkdf'') v3 v4a sk ek db of (r, d) \<Rightarrow> (r, d, kr))) = (res, db1, kr1)"
      by (rule prod_cases3)
    have new: "strlen v4a < 64" by (simp add: v4a_def take_c_str)
    have "v3_rows db1 = v3_rows db" using r new_sibling_v3 existing_sibling_v3 by (auto split: option.splits prod.splits)
    moreover have "find_row v4a db = None" if "res = Inr v4" "bm_identity_store_load (ke_ok env 2) v4a db = None" for v4
      using r that new new_sibling_is_new by (auto split: prod.splits)
    ultimately show ?thesis unfolding unf k enc bind_outcome.simps v4a_def [symmetric] r by (auto split: sum.split prod.split)
  qed
qed (auto simp: bm_keyring_ensure_v4_sibling_def)

lemma convert_one_v3:
  "\<exists>err entry' session' n'. convert_one_v3_to_v4 L env a entry session n = Done (err, entry', session', n') \<and> count_v3 n' \<le> count_v3 n"
proof -
  obtain kenv rename_ok delete_ok where env: "env = (kenv, rename_ok, delete_ok)" by (rule prod_cases3)
  obtain rc v4a created session1 db kr where s: "bm_keyring_ensure_v4_sibling (al_ssl L) (al_kdf L) kenv a (session, sn_identities (an_sync n), sn_keyring (an_sync n)) =
      Done ((rc, v4a, created), session1, db, kr)" "v3_rows db = count_v3 n"
    using ensure_v4_sibling_v3 [of "al_ssl L" "al_kdf L" kenv a session "sn_identities (an_sync n)" "sn_keyring (an_sync n)"] by (auto simp: count_v3_rows)
  obtain rc2 mdb where r: "bm_messages_store_rename_own_address rename_ok a v4a (sn_messages (an_sync n)) = (rc2, mdb)" by (rule prod.exhaust)
  obtain rc3 db3 kr3 where d: "bm_keyring_delete_identity delete_ok a db kr = (rc3, db3, kr3)" by (rule prod_cases3)
  have "v3_rows db3 \<le> count_v3 n" using d v3_delete [of delete_ok a db] s(2) by (auto simp: bm_keyring_delete_identity_def split: prod.splits)
  then show ?thesis using s r d unfolding convert_one_v3_to_v4_def env
    by (cases "convert_error rc"; cases "rc2 = 0") (simp_all add: Let_def count_v3_rows)
qed

lemma convert_page_v3:
  "\<exists>c f session' n'. convert_page L e k as session n = Done (c, f, session', n') \<and> length c + length f = length as \<and> count_v3 n' \<le> count_v3 n"
proof (induction as arbitrary: k session n)
  case (Cons a as)
  obtain err entry session1 n1 where one: "convert_one_v3_to_v4 L (av_convert e k) a [(lit ''v3Address'', json_str (Some a))] session n =
      Done (err, entry, session1, n1)" "count_v3 n1 \<le> count_v3 n" using convert_one_v3 by blast
  obtain c f session2 n2 where "convert_page L e (Suc k) as session1 n1 = Done (c, f, session2, n2)" "length c + length f = length as"
    "count_v3 n2 \<le> count_v3 n1" using Cons.IH by blast
  then show ?case using one by auto
qed simp

lemma convert_loop_returns:
  "length converted \<le> limit \<Longrightarrow> length failed \<le> K \<Longrightarrow> count_v3 n \<le> K \<Longrightarrow> limit - length converted + (K - length failed) < fuel \<Longrightarrow>
   \<exists>c f n'. convert_loop L e limit fuel converted failed k session n = Done (c, f, n') \<and> length c \<le> limit \<and> count_v3 n' \<le> K \<and>
     ((\<forall>i. av_pages e i) \<longrightarrow> length c < limit \<longrightarrow> count_v3 n' \<le> length f)"
proof (induction fuel arbitrary: converted failed k session n)
  case (Suc fuel)
  let ?list = "bm_identity_store_list_by_version (av_pages e k) 3 (limit - length converted) (length failed) (sn_identities (an_sync n))"
  show ?case
  proof (cases "length converted < limit \<and> av_pages e k")
    case False
    then show ?thesis using Suc.prems by (auto simp: bm_identity_store_list_by_version_def)
  next
    case True
    then obtain rows where rows: "?list = Some (collect_identity_summaries (take (limit - length converted) (drop (length failed) rows)))"
        "length rows = count_v3 n"
      by (simp add: bm_identity_store_list_by_version_def count_v3_def)
    define page where "page = collect_identity_summaries (take (limit - length converted) (drop (length failed) rows))"
    have page: "?list = Some page" "length page \<le> limit - length converted" "length page \<le> count_v3 n - length failed"
        "page = [] \<longrightarrow> count_v3 n \<le> length failed"
      using rows True by (simp_all add: page_def collect_identity_summaries_def)
    obtain c f session1 n1 where cp: "convert_page L e k (map is_address page) session n = Done (c, f, session1, n1)" "length c + length f = length page"
        "count_v3 n1 \<le> count_v3 n" using convert_page_v3 [of L e k "map is_address page" session n] by auto
    show ?thesis
    proof (cases "page = []")
      case True
      then show ?thesis using page cp Suc.prems \<open>length converted < limit \<and> av_pages e k\<close> by simp
    next
      case False
      then have "1 \<le> length page" by (cases page) simp_all
      then have "limit - length (converted @ c) + (K - length (failed @ f)) < fuel"
        using Suc.prems page(2,3) cp(2) unfolding length_append by arith
      then have "\<exists>c' f' n'. convert_loop L e limit fuel (converted @ c) (failed @ f) (k + length page) session1 n1 = Done (c', f', n') \<and> length c' \<le> limit \<and>
          count_v3 n' \<le> K \<and> ((\<forall>i. av_pages e i) \<longrightarrow> length c' < limit \<longrightarrow> count_v3 n' \<le> length f')"
        using Suc.prems page(2,3) cp(2,3) by (intro Suc.IH) auto
      then show ?thesis using page(1) cp(1) False True by simp
    qed
  qed
qed simp

text \<open>What a conversion that reports success did.\<close>

lemma convert_one_done:
  assumes "convert_one_v3_to_v4 L (kenv, rename_ok, delete_ok) a entry session n = Done (None, entry', session', n')"
  obtains v4a created db kr where "bm_keyring_ensure_v4_sibling (al_ssl L) (al_kdf L) kenv a (session, sn_identities (an_sync n), sn_keyring (an_sync n)) =
      Done ((0, v4a, created), session', db, kr)" "entry' = entry @ [(lit ''v4Address'', json_str (Some v4a)), (lit ''created'', CJ_Bool created)]"
    "sn_identities (an_sync n') = snd (bm_identity_store_delete True a db)"
proof -
  obtain rc v4a created session1 db kr where s: "bm_keyring_ensure_v4_sibling (al_ssl L) (al_kdf L) kenv a (session, sn_identities (an_sync n), sn_keyring (an_sync n)) =
      Done ((rc, v4a, created), session1, db, kr)"
    using ensure_v4_sibling_v3 [of "al_ssl L" "al_kdf L" kenv a session "sn_identities (an_sync n)" "sn_keyring (an_sync n)"] by auto
  obtain rc2 mdb where r: "bm_messages_store_rename_own_address rename_ok a v4a (sn_messages (an_sync n)) = (rc2, mdb)" by (rule prod.exhaust)
  have ok: "convert_error rc = None" "rc2 = 0" "delete_ok"
    using assms s r by (auto simp: convert_one_v3_to_v4_def Let_def bm_keyring_delete_identity_def bm_identity_store_delete_def split: option.splits prod.splits if_splits)
  then have "rc = 0" by (simp add: convert_error_def split: if_splits)
  then show thesis using that [of v4a created db kr] assms s r ok by (auto simp: convert_one_v3_to_v4_def Let_def bm_keyring_delete_identity_def split: prod.splits)
qed

section \<open>The proxies\<close>

text \<open>The methods for a proxy, for every setting.\<close>

context setting
begin

lemma proxy_stored:
  assumes "an_config n = Some db" "0 < strlen host" "strlen host < 256" "1 \<le> port" "port \<le> 65535" "av_ok e 0" "av_ok e' 0"
  shows "\<exists>n'. set_socks_proxy_common writer usage_error e (Some (CJ_Array [enabled, CJ_String host, CJ_Number (Finite (of_int port))])) n = Done (Inr (CJ_Bool True), n') \<and>
    get_socks_proxy_common reader e' q n' =
      Done (Inr (CJ_Object [(lit ''enabled'', CJ_Bool (\<exists>v. enabled = CJ_Number v \<and> v \<noteq> Finite 0)), (lit ''host'', CJ_String (c_str host)), (lit ''port'', json_int port)]), n') \<and>
    (\<exists>cfg. an_config n' = Some (snd (writer True cfg db)))"
proof -
  define cfg where "cfg = \<lparr>sp_enabled = (if json_num (Some enabled) \<noteq> Finite 0 then 1 else 0), sp_host = c_str host, sp_port = port\<rparr>"
  obtain db1 where w: "writer True cfg db = (0, db1)" using write_code [of True cfg db] by (cases "writer True cfg db") simp
  have r: "reader True db1 = Some cfg" using read_written [of cfg db] w assms(3) by (simp add: cfg_def strlen_def)
  have num: "(json_num (Some enabled) \<noteq> Finite 0) = (\<exists>v. enabled = CJ_Number v \<and> v \<noteq> Finite 0)" by (cases enabled) auto
  have port: "to_c_int (Finite (of_int port)) = Done port" using assms(4,5) by (simp add: truncated_def)
  have "set_socks_proxy_common writer usage_error e (Some (CJ_Array [enabled, CJ_String host, CJ_Number (Finite (of_int port))])) n =
      Done (Inr (CJ_Bool True), n\<lparr>an_config := Some db1\<rparr>)"
    using assms w port by (simp add: set_socks_proxy_common_def param_str_def strlen_def cfg_def del: to_c_int.simps)
  moreover have "get_socks_proxy_common reader e' q (n\<lparr>an_config := Some db1\<rparr>) =
      Done (Inr (CJ_Object [(lit ''enabled'', CJ_Bool (\<exists>v. enabled = CJ_Number v \<and> v \<noteq> Finite 0)), (lit ''host'', CJ_String (c_str host)), (lit ''port'', json_int port)]),
        n\<lparr>an_config := Some db1\<rparr>)"
    unfolding num [symmetric] using r assms(7) by (simp add: get_socks_proxy_common_def cfg_def)
  ultimately show ?thesis using w by (intro exI [of _ "n\<lparr>an_config := Some db1\<rparr>"]) (auto intro: exI [of _ cfg])
qed

end

text \<open>A node with one version 3 identity, for the witnesses.\<close>

definition sample_api_lib :: "nat api_lib" where
  "sample_api_lib = \<lparr>al_bn = nat_bignum, al_ssl = plain_ssl, al_kdf = plain_kdf, al_ntop = (\<lambda>_. []), al_default_nonce_trials_per_byte = 1000,
     al_default_payload_length_extra_bytes = 1000\<rparr>"

definition sample_v3_identity :: identity_db where
  "sample_v3_identity = snd (bm_keyring_create_identity plain_kdf plain_kr_env (lit ''v3'') None 3 1 (replicate 65 1) (replicate 65 2)
     (replicate 32 3) (replicate 32 4) [1] 1000 1000 \<lparr>identities = [], vault = None\<rparr>)"

definition sample_api_node :: "identity_db \<Rightarrow> api_node" where
  "sample_api_node db = \<lparr>an_sync = bm_object_sync_ctx_init [] db \<lparr>t_pubkey_cache = [], t_pubkey_requests = [], t_self_responses = []\<rparr>
       \<lparr>inbox = [], sent = [], address_book = [], subscriptions = []\<rparr> None [] False None
       \<lparr>ps_queue = bm_pow_queue_init 4, ps_callbacks = \<lambda>_. None\<rparr> bm_dandelion_module_init \<lparr>net_bytes_sent = 0, net_bytes_received = 0\<rparr>,
     an_has_pool = False, an_config = None, an_registry = None\<rparr>"

definition first_free :: "(nat \<rightharpoonup> 'a) \<Rightarrow> nat option" where
  "first_free h = find (\<lambda>a. h a = None) [0..<8]"

lemma first_free_new: "first_free h = Some a \<Longrightarrow> h a = None"
  by (auto simp: first_free_def find_Some_iff)

definition sample_api_env :: "send_report list \<Rightarrow> api_env" where
  "sample_api_env reports = \<lparr>av_ok = (\<lambda>_. True), av_mem = True, av_now = 5, av_send_now = 5, av_keyring = plain_kr_env, av_many = (\<lambda>_. plain_kr_env),
     av_convert = (\<lambda>_. (plain_kr_env, (True, True), True)), av_pages = (\<lambda>_. True), av_list = (True, True, True), av_backfill_list = ((True, True, True), True),
     av_backfill = (\<lambda>_. (True, \<lambda>_. True, True, 5)), av_backfill_many = (\<lambda>_. (True, \<lambda>_. (\<lambda>_. True, True))),
     av_pipe = \<lparr>pe_ok = \<lambda>_. True, pe_mem_job = True, pe_mem_strings = True, pe_mem_ack = True, pe_mem_packet = True, pe_msg_id = Some (replicate 32 5),
       pe_ack_random = Some (replicate 32 6), pe_ack_seed = Some 7, pe_ack_dummy = \<lambda>n. Some (replicate n 1), pe_ack_rnd = (Some [2], Some (replicate 16 1)),
       pe_msg_rnd = (Some [2], Some (replicate 16 1))\<rparr>,
     av_ecies = (Some [2], Some (replicate 16 1)), av_job = (Some 1, 2), av_request_job = (Some 3, 4),
     av_slot = \<lparr>sv_alloc = first_free, sv_grow = True, sv_container = True, sv_reports = reports\<rparr>\<rparr>"

section \<open>Properties\<close>

text \<open>
  C6: The conversion of all version 3 addresses ends, whatever passphrases, database errors and failing entries there are: it
  converts at most as many as its limit, and if the database can be read and the limit is not reached, then no address is left untried: the
  version 3 identities that remain are at most as many as the failures that it reports.
\<close>

theorem convert_all_returns:
  assumes "param_str params 0 = Some passphrase"
    and "param_at params 1 = None \<and> limit = 1000 \<or>
      (\<exists>v. param_at params 1 = Some (CJ_Number (Finite v)) \<and> 1 \<le> v \<and> v \<le> 10000 \<and> limit = nat (floor v))"
  shows "\<exists>converted failed remaining n'. h_convertV3AddressesToV4 L e params n =
      Done (Inr (CJ_Object [(lit ''converted'', CJ_Array converted), (lit ''failed'', CJ_Array failed), (lit ''remaining'', json_int remaining)]), n') \<and>
    length converted \<le> limit \<and> count_v3 n' \<le> count_v3 n \<and>
    ((\<forall>i. av_pages e i) \<and> av_ok e 0 \<longrightarrow> remaining = int (count_v3 n') \<and> (length converted < limit \<longrightarrow> count_v3 n' \<le> length failed))"
proof -
  obtain c f n' where "convert_loop L e limit (Suc (limit + count_v3 n)) [] [] 0 (bm_keyring_convert_session_init passphrase) n = Done (c, f, n')"
    "length c \<le> limit" "count_v3 n' \<le> count_v3 n" "(\<forall>i. av_pages e i) \<longrightarrow> length c < limit \<longrightarrow> count_v3 n' \<le> length f"
    using convert_loop_returns [of "[]" limit "[]" "count_v3 n" n "Suc (limit + count_v3 n)" L e 0 "bm_keyring_convert_session_init passphrase"] by auto
  moreover have "bm_identity_store_count_by_version True 3 (sn_identities (an_sync n')) = Some (count_v3 n')" for n'
    by (simp add: bm_identity_store_count_by_version_def count_v3_def)
  moreover have "h_convertV3AddressesToV4 L e params n =
      bind_outcome (convert_loop L e limit (Suc (limit + count_v3 n)) [] [] 0 (bm_keyring_convert_session_init passphrase) n) (\<lambda>(converted, failed, n1).
        Done (Inr (CJ_Object [(lit ''converted'', CJ_Array converted), (lit ''failed'', CJ_Array failed),
          (lit ''remaining'', json_int (case bm_identity_store_count_by_version (av_ok e 0) 3 (sn_identities (an_sync n1)) of None \<Rightarrow> 0 | Some c \<Rightarrow> int c))]), n1))"
    using assms unfolding h_convertV3AddressesToV4_def by (auto simp: truncated_def simp del: convert_loop.simps)
  ultimately show ?thesis by (auto simp del: convert_loop.simps)
qed

theorem convert_all_returns_witness:
  "\<exists>converted failed remaining n'.
    h_convertV3AddressesToV4 sample_api_lib (sample_api_env []) (Some (CJ_Array [CJ_String [2]])) (sample_api_node sample_v3_identity) =
      Done (Inr (CJ_Object [(lit ''converted'', CJ_Array converted), (lit ''failed'', CJ_Array failed), (lit ''remaining'', json_int remaining)]), n') \<and>
    length converted \<le> 1000 \<and> count_v3 n' \<le> 1"
proof -
  have "count_v3 (sample_api_node sample_v3_identity) = 1" by code_simp
  then show ?thesis
    using convert_all_returns [of "Some (CJ_Array [CJ_String [2]])" "[2]" 1000 sample_api_lib "sample_api_env []" "sample_api_node sample_v3_identity"]
    by (auto simp: param_str_def c_str_def)
qed

text \<open>
  C5: When \<open>convertAddressToV4\<close> reports that it has created the version 4 address, the version 3 identity is gone, and the
  passphrase opens for the new address exactly the private keys that it opened for the old one.
\<close>

theorem convert_keeps_keys:
  assumes "gcm_ok (al_kdf L)" "param_str params 0 = Some a" "param_str params 1 = Some p" "strlen a < 64" "rnd_fills (fst (av_convert e 0)) [16, 12, 12]"
    and "h_convertAddressToV4 L e params n = Done (Inr (CJ_Object [old, (lit ''v4Address'', CJ_String v4), (lit ''created'', CJ_Bool True)]), n')"
  shows "\<exists>k. bm_keyring_export (al_kdf L) (True, True) a p (sn_identities (an_sync n)) = Some k \<and>
    bm_keyring_export (al_kdf L) (True, True) v4 p (sn_identities (an_sync n')) = Some k \<and> find_row a (sn_identities (an_sync n')) = None"
proof -
  obtain kenv rename_ok delete_ok where env: "av_convert e 0 = (kenv, rename_ok, delete_ok)" by (rule prod_cases3)
  obtain entry session' where "convert_one_v3_to_v4 L (kenv, rename_ok, delete_ok) a [(lit ''v3Address'', json_str (Some a))]
      (bm_keyring_convert_session_init p) n = Done (None, entry, session', n')"
    "entry = [old, (lit ''v4Address'', CJ_String v4), (lit ''created'', CJ_Bool True)]"
    using assms(2,3,6) env unfolding h_convertAddressToV4_def
    by (cases "convert_one_v3_to_v4 L (av_convert e 0) a [(lit ''v3Address'', json_str (Some a))] (bm_keyring_convert_session_init p) n")
      (auto split: option.splits)
  then obtain v4a db kr where s: "bm_keyring_ensure_v4_sibling (al_ssl L) (al_kdf L) kenv a (bm_keyring_convert_session_init p, sn_identities (an_sync n), sn_keyring (an_sync n)) =
      Done ((0, v4a, True), session', db, kr)" "v4 = c_str v4a" "sn_identities (an_sync n') = snd (bm_identity_store_delete True a db)"
    by (auto elim!: convert_one_done)
  have "session_ok (al_kdf L) (bm_keyring_convert_session_init p) (sn_identities (an_sync n))"
    by (simp add: session_ok_def bm_keyring_convert_session_init_def)
  from sibling_ok [OF assms(1) this s(1)] obtain k where k: "bm_keyring_export (al_kdf L) (True, True) a p (sn_identities (an_sync n)) = Some k"
    "bm_keyring_export (al_kdf L) (True, True) v4a p db = Some k"
    using assms(4,5) env by (auto simp: bm_keyring_convert_session_init_def)
  have "find_row v4a (sn_identities (an_sync n)) = None"
    using ensure_v4_sibling_v3 [of "al_ssl L" "al_kdf L" kenv a "bm_keyring_convert_session_init p" "sn_identities (an_sync n)" "sn_keyring (an_sync n)"] s(1) by auto
  moreover have "find_row a (sn_identities (an_sync n)) \<noteq> None" using k(1) unfolding export_bare by (auto simp: bind_eq_Some_conv)
  ultimately have ne: "c_str v4a \<noteq> c_str a" by (auto simp: find_row_def)
  have keys: "row_keys lib v (c_str x) = row_keys lib v x" for lib v x by (simp add: row_keys_def unwrap_row_def fun_eq_iff)
  have "find_row v4 (sn_identities (an_sync n')) = find_row v4a db" "vault (sn_identities (an_sync n')) = vault db"
    using s(2,3) ne find_row_delete [of v4a a db] by (simp_all add: find_row_def bm_identity_store_delete_def)
  then have "bm_keyring_export (al_kdf L) (True, True) v4 p (sn_identities (an_sync n')) = Some k"
    using k(2) unfolding export_bare by (simp add: s(2) keys)
  moreover have "find_row a (sn_identities (an_sync n')) = None" using s(3) find_row_delete [of a a db] by simp
  ultimately show ?thesis using k(1) by blast
qed

lemma sample_conversion:
  "\<exists>v4 n'. h_convertAddressToV4 sample_api_lib (sample_api_env []) (Some (CJ_Array [CJ_String (lit ''v3''), CJ_String [1]])) (sample_api_node sample_v3_identity) =
    Done (Inr (CJ_Object [(lit ''v3Address'', CJ_String (lit ''v3'')), (lit ''v4Address'', CJ_String v4), (lit ''created'', CJ_Bool True)]), n')"
proof -
  define row where "row = hd (identities sample_v3_identity)"
  have db: "sample_v3_identity = \<lparr>identities = [row], vault = None\<rparr>" unfolding row_def by code_simp
  have row: "ir_address row = lit ''v3''" "ir_address_version row = 3" "c_str (ir_kdf_algo row) = lit ''scrypt''" "ir_stream row = 1"
    "ir_signing_pubkey row = replicate 65 1" "ir_encryption_pubkey row = replicate 65 2" "ir_label row = []" "ir_is_chan row = 0"
    unfolding row_def by code_simp+
  have load: "bm_identity_store_load True (lit ''v3'') sample_v3_identity = Some row" unfolding row_def by code_simp
  have keys: "Option.bind (resolve_kek_for_row plain_kdf True row [1] sample_v3_identity) (\<lambda>kek. unwrap_row plain_kdf kek (lit ''v3'') row) =
      Some (replicate 32 3, replicate 32 4)" unfolding row_def by code_simp
  obtain addr s where enc: "bm_address_encode plain_ssl 4 1 (bm_address_calc_ripe plain_ssl (replicate 65 1) (replicate 65 2)) = Done (Some addr)"
      and addr: "addr = lit ''BM-'' @ s"
  proof -
    have "length (bm_address_calc_ripe plain_ssl (replicate 65 1) (replicate 65 2)) = 20" by code_simp
    then show thesis using that address_encode_returns [of plain_ssl 4 1 "bm_address_calc_ripe plain_ssl (replicate 65 1) (replicate 65 2)"] by blast
  qed
  define v4a where "v4a = take 63 addr"
  have ne: "c_str v4a \<noteq> lit ''v3''" by (simp add: v4a_def addr c_str_def)
  have none: "bm_identity_store_load True v4a sample_v3_identity = None"
    using ne by (simp add: bm_identity_store_load_def find_row_def db row)
  have cut: "take 63 (c_str v4a) = c_str v4a" using take_c_str [of addr] by (simp add: v4a_def strlen_def)
  have "\<exists>v4 db1. new_sibling plain_kdf plain_kr_env (bm_keyring_convert_session_init [1]) False row v4a (replicate 32 3) (replicate 32 4) sample_v3_identity = (Inr v4, db1)"
    using ne by (simp add: new_sibling_def bm_keyring_create_identity_def bm_keyring_internal_new_scrypt_kek_def plain_kr_env_def derive_kek_def plain_kdf_def
        store_new_identity_with_kek_def bm_keyring_internal_wrap_def bm_identity_store_insert_def bm_identity_store_load_def find_row_def db row cut
        bm_keyring_convert_session_init_def)
  then obtain v4 db1 where new: "new_sibling plain_kdf plain_kr_env (bm_keyring_convert_session_init [1]) False row v4a (replicate 32 3) (replicate 32 4) sample_v3_identity =
      (Inr v4, db1)" by blast
  have env: "ke_ok plain_kr_env = (\<lambda>_. True)" "cs_passphrase (bm_keyring_convert_session_init [1]) = [1]"
    by (simp_all add: plain_kr_env_def bm_keyring_convert_session_init_def)
  have "bm_keyring_ensure_v4_sibling plain_ssl plain_kdf plain_kr_env (lit ''v3'') (bm_keyring_convert_session_init [1], sample_v3_identity, []) =
      Done ((0, v4a, True), bm_keyring_convert_session_init [1], db1, [])"
    using load keys none new row enc unfolding bm_keyring_ensure_v4_sibling_def
    by (simp add: env v4a_def [symmetric] Let_def bm_keyring_find_by_address_def)
  then show ?thesis
    by (simp add: h_convertAddressToV4_def param_str_def convert_one_v3_to_v4_def sample_api_env_def sample_api_lib_def sample_api_node_def
        bm_object_sync_ctx_init_def convert_error_def bm_keyring_delete_identity_def bm_identity_store_delete_def Let_def
        BM_KEYRING_CONVERT_ERR_NOT_FOUND_def BM_KEYRING_CONVERT_ERR_NOT_V3_def BM_KEYRING_CONVERT_ERR_PASSPHRASE_def
        bm_messages_store_rename_own_address_def c_str_def)
qed

theorem convert_keeps_keys_witness:
  "\<exists>v4 n'. h_convertAddressToV4 sample_api_lib (sample_api_env []) (Some (CJ_Array [CJ_String (lit ''v3''), CJ_String [1]])) (sample_api_node sample_v3_identity) =
      Done (Inr (CJ_Object [(lit ''v3Address'', CJ_String (lit ''v3'')), (lit ''v4Address'', CJ_String v4), (lit ''created'', CJ_Bool True)]), n') \<and>
    bm_keyring_export plain_kdf (True, True) v4 [1] (sn_identities (an_sync n')) = Some (replicate 32 3, replicate 32 4)"
proof -
  obtain v4 n' where c: "h_convertAddressToV4 sample_api_lib (sample_api_env []) (Some (CJ_Array [CJ_String (lit ''v3''), CJ_String [1]])) (sample_api_node sample_v3_identity) =
      Done (Inr (CJ_Object [(lit ''v3Address'', CJ_String (lit ''v3'')), (lit ''v4Address'', CJ_String v4), (lit ''created'', CJ_Bool True)]), n')"
    using sample_conversion by blast
  have lib: "al_kdf sample_api_lib = plain_kdf" "fst (av_convert (sample_api_env []) 0) = plain_kr_env" "sn_identities (an_sync (sample_api_node db)) = db" for db
    by (simp_all add: sample_api_lib_def sample_api_env_def sample_api_node_def bm_object_sync_ctx_init_def)
  have "bm_keyring_export plain_kdf (True, True) (lit ''v3'') [1] sample_v3_identity = Some (replicate 32 3, replicate 32 4)" by code_simp
  moreover have "\<exists>k. bm_keyring_export (al_kdf sample_api_lib) (True, True) (lit ''v3'') [1] (sn_identities (an_sync (sample_api_node sample_v3_identity))) = Some k \<and>
      bm_keyring_export (al_kdf sample_api_lib) (True, True) v4 [1] (sn_identities (an_sync n')) = Some k \<and> find_row (lit ''v3'') (sn_identities (an_sync n')) = None"
    by (rule convert_keeps_keys [OF _ _ _ _ _ c])
      (simp_all add: lib plain_kdf_ok param_str_def rnd_fills_def plain_kr_env_def strlen_def c_str_def less_Suc_eq)
  ultimately show ?thesis using c by (auto simp: lib)
qed

text \<open>
  C7: A SOCKS proxy that is set over the API is what the API then reads, host and port included, and the proxy of the other peers is
  unchanged. The proxy is on only if \<open>enabled\<close> is a number other than 0: for the boolean that \<open>getSocksProxyOnion\<close>
  itself returns, \<open>true\<close> included, it is stored as off and the call reports success.
\<close>

theorem socks_proxy_stored:
  assumes "an_config n = Some db" "0 < strlen host" "strlen host < 256" "1 \<le> port" "port \<le> 65535" "av_ok e 0" "av_ok e' 0"
  shows "\<exists>n'. h_setSocksProxyOnion e (Some (CJ_Array [enabled, CJ_String host, CJ_Number (Finite (of_int port))])) n = Done (Inr (CJ_Bool True), n') \<and>
    h_getSocksProxyOnion e' q n' =
      Done (Inr (CJ_Object [(lit ''enabled'', CJ_Bool (\<exists>v. enabled = CJ_Number v \<and> v \<noteq> Finite 0)), (lit ''host'', CJ_String (c_str host)), (lit ''port'', json_int port)]), n') \<and>
    map_outcome fst (h_getSocksProxyClearnet e' q n') = map_outcome fst (h_getSocksProxyClearnet e' q n)"
proof -
  obtain n' cfg where n': "h_setSocksProxyOnion e (Some (CJ_Array [enabled, CJ_String host, CJ_Number (Finite (of_int port))])) n = Done (Inr (CJ_Bool True), n')"
    "h_getSocksProxyOnion e' q n' =
      Done (Inr (CJ_Object [(lit ''enabled'', CJ_Bool (\<exists>v. enabled = CJ_Number v \<and> v \<noteq> Finite 0)), (lit ''host'', CJ_String (c_str host)), (lit ''port'', json_int port)]), n')"
    "an_config n' = Some (snd (bm_config_store_set_socks_proxy_onion True cfg db))"
    using onion.proxy_stored [OF assms] unfolding h_setSocksProxyOnion_def h_getSocksProxyOnion_def by blast
  have "map_outcome fst (h_getSocksProxyClearnet e' q n') = map_outcome fst (h_getSocksProxyClearnet e' q n)"
    using assms(1) n'(3) by (simp add: h_getSocksProxyClearnet_def get_socks_proxy_common_def proxies_apart split: option.split)
  then show ?thesis using n'(1,2) by blast
qed

theorem socks_proxy_stored_witness:
  "\<exists>n'. h_setSocksProxyOnion (sample_api_env []) (Some (CJ_Array [CJ_Bool True, CJ_String (lit ''tor''), CJ_Number (Finite 9050)]))
      ((sample_api_node sample_v3_identity)\<lparr>an_config := Some bm_config_store_init_schema\<rparr>) = Done (Inr (CJ_Bool True), n') \<and>
    h_getSocksProxyOnion (sample_api_env []) None n' =
      Done (Inr (CJ_Object [(lit ''enabled'', CJ_Bool False), (lit ''host'', CJ_String (lit ''tor'')), (lit ''port'', json_int 9050)]), n')"
  using socks_proxy_stored [of "(sample_api_node sample_v3_identity)\<lparr>an_config := Some bm_config_store_init_schema\<rparr>" bm_config_store_init_schema
      "lit ''tor''" 9050 "sample_api_env []" "sample_api_env []" "CJ_Bool True" None]
  by (auto simp: strlen_def c_str_def sample_api_env_def)

end
