(* ===== verification/Api_Connections.thy ===== *)
theory Api_Connections
  imports Api_Calls
begin

text \<open>
  What the JSON-RPC server promises to its clients: authentication, the responses to a batch, and that every connection that
  is suspended for a send is answered.
\<close>

section \<open>Authentication\<close>

lemma or_zero_iff: "(a :: 'a::len word) OR b = 0 \<longleftrightarrow> a = 0 \<and> b = 0"
  by (auto simp: bit_eq_iff bit_or_iff)

lemma xor_zero_iff: "(a :: 'a::len word) XOR b = 0 \<longleftrightarrow> a = b"
  by (auto simp: bit_eq_iff bit_xor_iff)

lemma constant_time_fold:
  "fold (\<lambda>(x, y) diff. diff OR (x XOR y)) ps (d :: byte) = 0 \<longleftrightarrow> d = 0 \<and> (\<forall>(x, y)\<in>set ps. x = y)"
  by (induction ps arbitrary: d) (auto simp: or_zero_iff xor_zero_iff)

lemma constant_time_equal_iff: "constant_time_equal a b \<longleftrightarrow> a = b"
proof -
  have "length a = length b \<Longrightarrow> (\<forall>(x, y)\<in>set (zip a b). x = y) \<longleftrightarrow> a = b"
    by (induction a b rule: list_induct2) auto
  then show ?thesis by (auto simp: constant_time_equal_def constant_time_fold)
qed

text \<open>The client knows the user name and the password, or none are asked for.\<close>

definition authorised :: "api_credentials \<Rightarrow> basic_auth_info \<Rightarrow> bool" where
  "authorised config auth \<longleftrightarrow>
     (\<forall>username. ac_username config = Some username \<longrightarrow>
        (\<exists>pass. auth = Some (c_str username, pass) \<and> (case pass of None \<Rightarrow> [] | Some p \<Rightarrow> p) = (case ac_password config of None \<Rightarrow> [] | Some p \<Rightarrow> c_str p)))"

lemma check_basic_auth_iff: "check_basic_auth config auth \<longleftrightarrow> authorised config auth"
  by (auto simp: check_basic_auth_def authorised_def constant_time_equal_iff Let_def split: option.splits)

section \<open>The body of a request\<close>

lemma body_cap_enough: "0 < c \<Longrightarrow> need \<le> body_cap c need"
  by (induction c need rule: body_cap.induct) (subst body_cap.simps, auto)

lemma receive_chunk_returns: "\<exists>cx'. receive_chunk mem chunk cx = Done cx' \<and> (cx_too_large cx' \<or> cx_body cx' = cx_body cx @ chunk)"
  using body_cap_enough [of "if cx_body_cap cx = 0 then 4096 else cx_body_cap cx" "length (cx_body cx) + length chunk + 1"]
  by (auto simp: receive_chunk_def Let_def)

section \<open>Responses\<close>

text \<open>Which requests get a response, and what the response is.\<close>

fun request_id :: "cjson \<Rightarrow> cjson option" where
  "request_id (CJ_Object ms) = map_of ms (lit ''id'')"
| "request_id v = None"

fun wants_reply :: "cjson \<Rightarrow> bool" where
  "wants_reply (CJ_Object ms) \<longleftrightarrow> map_of ms (lit ''id'') \<noteq> None"
| "wants_reply v \<longleftrightarrow> True"

text \<open>The id of a request is repeated in the response: a string or a number as it is, anything else and no id at all as null.\<close>

definition echoes :: "cjson option \<Rightarrow> cjson \<Rightarrow> bool" where
  "echoes ident i \<longleftrightarrow> (\<forall>s. ident = Some (CJ_String s) \<longrightarrow> i = CJ_String s) \<and> (\<forall>d. ident = Some (CJ_Number d) \<longrightarrow> i = CJ_Number d) \<and>
     ((\<nexists>s. ident = Some (CJ_String s)) \<and> (\<nexists>d. ident = Some (CJ_Number d)) \<longrightarrow> i = CJ_Null)"

definition answers :: "cjson \<Rightarrow> members \<Rightarrow> bool" where
  "answers req ms \<longleftrightarrow> (\<exists>key v i. ms = [(lit ''jsonrpc'', CJ_String (lit ''2.0'')), (key, v), (lit ''id'', i)] \<and>
     key \<in> {lit ''result'', lit ''error''} \<and> echoes (request_id req) i)"

lemma response_id_echoes: "echoes ident (response_id ident)"
  by (cases ident rule: response_id.cases) (auto simp: echoes_def)

lemma response_answers: "request_id req = ident \<Longrightarrow> answers req (response_members ident result code err)"
  by (auto simp: answers_def response_members_def c_str_def response_id_echoes split: option.split)

definition replied :: "cjson \<Rightarrow> nat option \<Rightarrow> api_mem \<Rightarrow> bool" where
  "replied req resp m \<longleftrightarrow> (resp \<noteq> None) = wants_reply req \<and>
     (\<forall>a. resp = Some a \<longrightarrow> a < length (am_objects m) \<and> answers req (am_objects m ! a))"

lemma replied_built: "build_response ident result code err m = (a, m') \<Longrightarrow> request_id req = ident \<Longrightarrow> wants_reply req \<Longrightarrow> replied req (Some a) m'"
  by (auto simp: build_response_def replied_def response_answers)

lemma replied_apart: "replied req resp m \<Longrightarrow> apart r m m' \<Longrightarrow> replied req resp m'"
  by (auto simp: replied_def apart_def nth_append)

context api_methods
begin

lemma call_method_replies:
  assumes "(name, handler) \<in> set methods" "good e" "in_request r m" "call_method handler e ident params n m = Done (resp, n', m')"
    and "request_id req = ident" "wants_reply req = (ident \<noteq> None)"
  shows "replied req resp m'"
proof -
  obtain before where b: "current_slots m = Done before" using assms(4) by (auto simp: call_method_def)
  obtain result err n1 m1 where h: "handler e params n m = Done (result, err, n1, m1)" using assms(4) b by (auto simp: call_method_def)
  note r = assms(4) [unfolded call_method_def b h bind_outcome.simps prod.case]
  have m1: "in_request r m1" using method_keeps [OF assms(1,2,3) h] by simp
  obtain resp1 m2 where m2: "(if ident = None then (None, m1)
      else case build_response ident result BM_JSONRPC_ERR_SERVER err m1 of (a, m2) \<Rightarrow> (Some a, m2)) = (resp1, m2)" by (rule prod.exhaust)
  have k: "in_request r m2" "\<And>a. resp1 = Some a \<Longrightarrow> a < length (am_objects m2)"
    using m2 m1 build_response_keeps [OF m1, of ident result BM_JSONRPC_ERR_SERVER err] by (auto split: if_splits prod.splits)
  obtain st where st: "am_current m2 = Some r" "am_states m2 r = Some st" using k(1) by (auto simp: in_request_def)
  then have a: "attach_slots resp1 (drop (length before) (as_slots st)) m2 = Done m'" "resp = resp1" using r m2 by (auto simp: current_slots_def)
  have "replied req resp1 m2" using m2 assms(5,6) replied_built by (auto split: if_splits prod.splits) (simp add: replied_def)
  moreover have "apart r m2 m'" using attach_in_request [OF k(1) st(2) set_drop_subset k(2), of resp1 "length before"] a by auto
  ultimately show ?thesis using replied_apart a(2) by blast
qed

lemma one_request_replies:
  assumes "good e" "in_request r m" "process_one_request methods e req n m = Done (resp, n', m')"
  shows "replied req resp m'"
proof (cases req)
  case (CJ_Object ms)
  have built: "replied req (Some a) m1" if "build_response (json_obj_get ms (lit ''id'')) None code (Some msg) m = (a, m1)"
    "json_obj_get ms (lit ''id'') \<noteq> None" for a m1 code msg
    using replied_built [OF that(1), of req] that(2) CJ_Object by (simp add: json_obj_get_def)
  have none: "replied req None m" if "json_obj_get ms (lit ''id'') = None" using that CJ_Object by (simp add: replied_def json_obj_get_def)
  show ?thesis
  proof (cases "\<exists>name handler. json_cstr (json_obj_get ms (lit ''method'')) = Some name \<and> map_of methods name = Some handler")
    case True
    then obtain name handler where h: "json_cstr (json_obj_get ms (lit ''method'')) = Some name" "map_of methods name = Some handler" by blast
    then have "call_method handler e (json_obj_get ms (lit ''id'')) (json_obj_get ms (lit ''params'')) n m = Done (resp, n', m')"
      using assms(3) CJ_Object by (simp add: process_one_request_def Let_def)
    from call_method_replies [OF map_of_SomeD [OF h(2)] assms(1,2) this] show ?thesis by (simp add: CJ_Object json_obj_get_def)
  next
    case False
    then show ?thesis using assms(3) CJ_Object none built
      by (auto simp: process_one_request_def Let_def split: option.splits if_splits prod.splits)
  qed
qed (use assms(3) replied_built [of None None BM_JSONRPC_ERR_INVALID_REQUEST] in \<open>auto simp: process_one_request_def split: prod.splits\<close>)

lemma batch_replies:
  assumes "\<forall>i. good (snd (env i)) \<and> (\<forall>rp\<in>set (fst (env i)). report_ok rp)"
  shows "in_request r m \<Longrightarrow> process_batch ssl methods env i reqs n m = Done (resps, n', m') \<Longrightarrow>
    list_all2 (\<lambda>req a. a < length (am_objects m') \<and> answers req (am_objects m' ! a)) (filter wants_reply reqs) resps"
proof (induction reqs arbitrary: i n m resps)
  case (Cons req reqs)
  obtain m1 resp n1 m2 resps2 where s: "run_reports ssl (fst (env i)) m = Done m1"
      "process_one_request methods (snd (env i)) req n m1 = Done (resp, n1, m2)"
      "process_batch ssl methods env (Suc i) reqs n1 m2 = Done (resps2, n', m')"
      "resps = (case resp of None \<Rightarrow> resps2 | Some a \<Rightarrow> a # resps2)"
    using Cons.prems(2) by auto
  have "in_request r m1" using reports_in_request [OF Cons.prems(1), of "fst (env i)" ssl] assms s(1) by auto
  then have m2: "in_request r m2" "replied req resp m2"
    using one_request_keeps [OF _ _ s(2)] one_request_replies [OF _ _ s(2)] assms by blast+
  have "replied req resp m'" using m2 batch_keeps [OF assms m2(1) s(3)] replied_apart by blast
  then show ?case using Cons.IH [OF m2(1) s(3)] s(4) by (cases resp) (auto simp: replied_def)
qed simp

end

section \<open>Samples\<close>

definition sample_credentials :: api_credentials where
  "sample_credentials = \<lparr>ac_username = Some (lit ''me''), ac_password = Some (lit ''pw'')\<rparr>"

definition sample_access_env :: "api_env access_env" where
  "sample_access_env = \<lparr>ae_ctx = True, ae_grow = True, ae_state = first_free, ae_response = (True, True), ae_calls = (\<lambda>_. ([], sample_api_env [])), ae_late = []\<rparr>"

lemma sample_access_env_ok: "access_env_ok api_env_ok sample_access_env"
  by (simp add: access_env_ok_def sample_access_env_def sample_api_env_def slot_env_ok_def first_free_new)

definition sample_user :: bm_unlocked_identity where
  "sample_user = \<lparr>ui_address = lit ''BM-a'', ui_ripe = replicate 20 1, ui_priv_signing = [9], ui_priv_encryption = [8],
     ui_pub_signing = 4 # pad_to 64 [9], ui_pub_encryption = 4 # pad_to 64 [8], ui_address_version = 4, ui_stream = 1,
     ui_nonce_trials_per_byte = 1000, ui_payload_length_extra_bytes = 1000, ui_is_chan = False, ui_unlocked_at = 0\<rparr>"

definition sample_broadcast_call :: cjson where
  "sample_broadcast_call = CJ_Object [(lit ''id'', CJ_Number (Finite 7)), (lit ''method'', CJ_String (lit ''sendBroadcast'')),
     (lit ''params'', CJ_Array [CJ_String (lit ''BM-a''), CJ_String (lit ''hi''), CJ_String (lit ''yo'')])]"

definition sample_sending_node :: api_node where
  "sample_sending_node = with_keyring [sample_user] (sample_api_node sample_v3_identity)"

lemma sample_broadcast_submitted:
  "\<exists>ps'. bm_send_pipeline_send_broadcast_async plain_ssl (Some [2], Some (replicate 16 1)) True (Some 1) 2 [sample_user] (lit ''BM-a'')
     (lit ''hi'') (lit ''yo'') (2 * 24 * 60 * 60) 5 d \<lparr>ps_queue = bm_pow_queue_init 4, ps_callbacks = \<lambda>_. None\<rparr> = Done (0, ps')"
proof -
  have u: "identity_info (ui_address_version sample_user) sample_user = sample_sender" by (simp add: identity_info_def sample_user_def sample_sender_def)
  obtain payload where p: "bm_build_broadcast plain_ssl (Some [2], Some (replicate 16 1)) sample_sender (ui_ripe sample_user) (lit ''hi'') (lit ''yo'')
      (word_of_int 5 + 2 * 24 * 60 * 60) = Some payload" using sample_broadcast_built by blast
  obtain target where t: "bm_pow_get_target (word_of_nat (length payload)) (2 * 24 * 60 * 60) 1000 1000 = Done target"
  proof -
    define x where "x = unat (word_of_nat (length payload) :: u64)"
    have x: "x < 18446744073709551616" using unsigned_less [of "word_of_nat (length payload) :: u64"] by (simp add: x_def)
    have d: "172800 * (x + 8 + 1000) div 65536 \<le> 172800 * (x + 8 + 1000)" by (rule div_le_dividend)
    have "1000 * (x + 8 + 1000 + d) < 340282366920938463463374607431768211456" if "d \<le> 172800 * (x + 8 + 1000)" for d using x that by simp
    from this [OF d] have "1000 * (x + 8 + 1000 + 172800 * (x + 8 + 1000) div 65536) < 340282366920938463463374607431768211456" .
    then show thesis using that pow_target_value [of 1000 "2 * 24 * 60 * 60" "word_of_nat (length payload)" 1000] x unfolding x_def [symmetric] by auto
  qed
  have f: "bm_keyring_find_by_address (lit ''BM-a'') [sample_user] = Some sample_user"
    by (simp add: bm_keyring_find_by_address_def same_address_def sample_user_def c_str_def)
  show ?thesis
    unfolding bm_send_pipeline_send_broadcast_async_def build_legacy_broadcast_def f option.case u p
    using t by (simp add: sample_user_def submit_pow_def bm_pow_queue_submit_def bm_pow_queue_init_def link_tail_def empty_list_def)
qed

text \<open>The request is accepted, its body comes, and the connection waits for the broadcast.\<close>

lemma sample_suspended:
  "\<exists>cx n m. api_access_handler plain_ssl (\<lambda>_. Some sample_broadcast_call) (\<lambda>_. None) sample_credentials (METHODS sample_api_lib) sample_access_env 3
      (lit ''POST'') None [] (Some fresh_ctx) sample_sending_node (api_mem_start (Some [])) = Done (MHD_YES None, Some cx, n, m) \<and> am_mhd m 3"
proof -
  let ?m = "request_begin 0 (api_mem_start (Some []))"
  obtain ps :: "(send_done, sync_job) pow_state" where ps: "bm_send_pipeline_send_broadcast_async plain_ssl (Some [2], Some (replicate 16 1)) True (Some 1) 2 [sample_user] (lit ''BM-a'')
     (lit ''hi'') (lit ''yo'') (2 * 24 * 60 * 60) 5 (Api_done 0) \<lparr>ps_queue = bm_pow_queue_init 4, ps_callbacks = \<lambda>_. None\<rparr> = Done (0, ps)"
    using sample_broadcast_submitted [of "Api_done 0"] by (elim exE)
  have env: "al_ssl sample_api_lib = plain_ssl" "av_ecies (sample_api_env []) = (Some [2], Some (replicate 16 1))" "av_mem (sample_api_env [])"
      "av_job (sample_api_env []) = (Some 1, 2)" "av_send_now (sample_api_env []) = 5"
      "av_slot (sample_api_env []) = \<lparr>sv_alloc = first_free, sv_grow = True, sv_container = True, sv_reports = []\<rparr>"
    by (simp_all add: sample_api_lib_def sample_api_env_def)
  have node: "sn_keyring (an_sync sample_sending_node) = [sample_user]"
      "sn_pow (an_sync sample_sending_node) = \<lparr>ps_queue = bm_pow_queue_init 4, ps_callbacks = \<lambda>_. None\<rparr>"
    by (simp_all add: sample_sending_node_def sample_api_node_def bm_object_sync_ctx_init_def)
  have "\<exists>n1. submit_broadcast sample_api_lib (sample_api_env []) (lit ''BM-a'') (lit ''hi'') (lit ''yo'') (2 * 24 * 60 * 60) 0 sample_sending_node = Done (0, n1)"
    unfolding submit_broadcast_def Let_def env node fst_conv snd_conv eqTrueI [OF env(3)] ps bind_outcome.simps prod.case by blast
  then obtain n1 where sub: "submit_broadcast sample_api_lib (sample_api_env []) (lit ''BM-a'') (lit ''hi'') (lit ''yo'') (2 * 24 * 60 * 60) 0 sample_sending_node = Done (0, n1)"
    by blast
  define p where "p = CJ_Array [CJ_String (lit ''BM-a''), CJ_String (lit ''hi''), CJ_String (lit ''yo'')]"
  define m1 where "m1 = api_mem_start (Some [])\<lparr>am_states := [0 \<mapsto> fresh_state\<lparr>as_slots := [0], as_slot_cap := 4, as_outstanding := 1\<rparr>],
    am_current := Some 0, am_slots := [0 \<mapsto> (fresh_slot (Some 0))\<lparr>sl_placeholder := Some 0\<rparr>], am_objects := [[]], am_jobs := [0]\<rparr>"
  have send: "h_sendBroadcast sample_api_lib (sample_api_env []) (Some p) sample_sending_node ?m = Done (Some (CJ_At 0), None, n1, m1)"
  proof -
    have par: "param_str (Some p) 0 = Some (lit ''BM-a'')" "param_str (Some p) 1 = Some (lit ''hi'')" "param_str (Some p) 2 = Some (lit ''yo'')"
        "param_at (Some p) 3 = None" by (simp_all add: p_def param_str_def c_str_def)
    have len: "check_subject_body_length (lit ''hi'') (lit ''yo'') BM_MAX_SUBJECT_PLUS_BODY_LEN = None"
      by (simp add: check_subject_body_length_def strlen_def c_str_def)
    have free: "first_free (am_slots ?m) = Some 0" by (simp add: first_free_def request_begin_def api_mem_start_def upt_rec)
    have "send_in_slot plain_ssl (av_slot (sample_api_env [])) msg (submit_broadcast sample_api_lib (sample_api_env []) (lit ''BM-a'') (lit ''hi'') (lit ''yo'') (2 * 24 * 60 * 60))
        sample_sending_node ?m = Done (Some (CJ_At 0), None, n1, m1)" for msg
      unfolding send_in_slot_def env slot_env.simps free send_slot_begin_def
      using sub by (simp add: request_begin_def api_mem_start_def fresh_state_def fresh_slot_def Let_def send_slot_end_def m1_def)
    then show ?thesis unfolding h_sendBroadcast_def par prod.case option.case len u64_or_def env(1) by simp
  qed
  define m2 where "m2 = m1\<lparr>am_objects := [[], response_members (Some (CJ_Number (Finite 7))) (Some (CJ_At 0)) BM_JSONRPC_ERR_SERVER None],
    am_slots := [0 \<mapsto> (fresh_slot (Some 0))\<lparr>sl_placeholder := Some 0, sl_resp := Some 1\<rparr>]\<rparr>"
  have table: "map_of (METHODS sample_api_lib) (lit ''sendBroadcast'') = Some (h_sendBroadcast sample_api_lib)" by (simp add: METHODS_def)
  have call: "call_method (h_sendBroadcast sample_api_lib) (sample_api_env []) (Some (CJ_Number (Finite 7))) (Some p) sample_sending_node ?m = Done (Some 1, n1, m2)"
    unfolding call_method_def send
    by (simp add: current_slots_def request_begin_def api_mem_start_def fresh_state_def build_response_def m1_def m2_def)
  have one: "process_one_request (METHODS sample_api_lib) (sample_api_env []) sample_broadcast_call sample_sending_node ?m = Done (Some 1, n1, m2)"
  proof -
    obtain ms where ms: "sample_broadcast_call = CJ_Object ms" by (simp add: sample_broadcast_call_def)
    then have get: "json_obj_get ms (lit ''method'') = Some (CJ_String (lit ''sendBroadcast''))" "json_obj_get ms (lit ''params'') = Some p"
        "json_obj_get ms (lit ''id'') = Some (CJ_Number (Finite 7))"
      by (auto simp: sample_broadcast_call_def json_obj_get_def p_def)
    have "json_cstr (Some (CJ_String (lit ''sendBroadcast''))) = Some (lit ''sendBroadcast'')" by (simp add: c_str_def)
    then show ?thesis unfolding process_one_request_def Let_def ms cjson.case get by (simp only: option.case table call)
  qed
  then have "process_jsonrpc_request plain_ssl (\<lambda>_. Some sample_broadcast_call) (METHODS sample_api_lib) (ae_calls sample_access_env) body sample_sending_node ?m =
      Done (Some (CJ_At 1), n1, m2)" for body
    unfolding process_jsonrpc_request_def by (simp add: sample_broadcast_call_def sample_access_env_def)
  moreover have "first_free (am_states (api_mem_start (Some []))) = Some 0" by (simp add: first_free_def api_mem_start_def upt_rec)
  ultimately show ?thesis unfolding api_access_handler_def process_body_def
    by (simp add: fresh_ctx_def sample_access_env_def suspend_if_outstanding_def m2_def m1_def fresh_state_def MHD_suspend_connection_def api_mem_start_def)
qed

definition sample_batch :: "cjson list" where
  "sample_batch = [CJ_Null, CJ_Object [(lit ''method'', CJ_String (lit ''getNetworkStats''))],
     CJ_Object [(lit ''method'', CJ_String (lit ''getNetworkStats'')), (lit ''id'', CJ_Number (Finite 7))]]"

lemma sample_batch_run:
  "\<exists>tree n' m'. process_jsonrpc_request plain_ssl (\<lambda>_. Some (CJ_Array sample_batch)) (METHODS sample_api_lib) (ae_calls sample_access_env) []
    sample_sending_node (request_begin 0 (api_mem_start None)) = Done (tree, n', m')"
proof -
  have table: "map_of (METHODS sample_api_lib) (lit ''getNetworkStats'') = Some (plain h_getNetworkStats)" by (simp add: METHODS_def)
  have one: "\<exists>resp n' m'. process_one_request (METHODS sample_api_lib) e req n m = Done (resp, n', m') \<and> am_current m' = am_current m \<and> am_states m' = am_states m"
    if "req \<in> set sample_batch" "\<exists>st. am_current m = Some 0 \<and> am_states m 0 = Some st" for e req n m
    using that table by (auto simp: sample_batch_def process_one_request_def json_obj_get_def c_str_def call_method_def current_slots_def plain_def
        h_getNetworkStats_def build_response_def split: prod.split)
  have "\<exists>resps n' m'. process_batch plain_ssl (METHODS sample_api_lib) (ae_calls sample_access_env) i reqs n m = Done (resps, n', m')"
    if "set reqs \<subseteq> set sample_batch" "\<exists>st. am_current m = Some 0 \<and> am_states m 0 = Some st" for i reqs n m
    using that
  proof (induction reqs arbitrary: i n m)
    case (Cons req reqs)
    obtain resp n1 m1 where m1: "process_one_request (METHODS sample_api_lib) (snd (ae_calls sample_access_env i)) req n m = Done (resp, n1, m1)"
        "am_current m1 = am_current m" "am_states m1 = am_states m"
      using one [of req m "snd (ae_calls sample_access_env i)" n] Cons.prems by auto
    have "fst (ae_calls sample_access_env i) = []" by (simp add: sample_access_env_def)
    then show ?case using m1 Cons.IH [of m1 "Suc i" n1] Cons.prems by (auto simp: m1)
  qed simp
  from this [of sample_batch "request_begin 0 (api_mem_start None)" 0 sample_sending_node]
  obtain resps n' m' where "process_batch plain_ssl (METHODS sample_api_lib) (ae_calls sample_access_env) 0 sample_batch sample_sending_node
    (request_begin 0 (api_mem_start None)) = Done (resps, n', m')" by (auto simp: request_begin_def)
  moreover have "sample_batch \<noteq> []" "length sample_batch \<le> 256" by (simp_all add: sample_batch_def)
  ultimately show ?thesis unfolding process_jsonrpc_request_def by simp
qed

section \<open>Properties\<close>

text \<open>
  C3: Nothing happens for a client that does not know the password. A request starts (it gets a context) exactly when it is a POST
  with the user name and the password of the configuration; until then the node and the server are unchanged and the
  reply is a refusal. A JSON reply is only given in the context of a request.
\<close>

theorem api_needs_credentials:
  assumes "api_access_handler ssl parse print config (METHODS L) env c http_method auth upload ctx n m = Done (res, ctx', n', m')"
  shows "(ctx = None \<longrightarrow> n' = n \<and> m' = m \<and> (ctx' \<noteq> None \<longleftrightarrow> http_method = lit ''POST'' \<and> authorised config auth \<and> ae_ctx env) \<and>
      (ctx' = None \<longrightarrow> res = MHD_NO \<or> res = MHD_YES (Some Auth_required) \<or> res = MHD_YES (Some (Text_reply 405 (lit ''POST only'' @ [10]))))) \<and>
    (\<forall>text. res = MHD_YES (Some (Json_reply text)) \<longrightarrow> ctx \<noteq> None)"
proof (cases ctx)
  case None
  then show ?thesis using assms unfolding api_access_handler_def check_basic_auth_iff
    by (auto simp: queue_reply_def split: if_splits)
qed simp

theorem api_needs_credentials_witness:
  "\<not> authorised sample_credentials (Some (lit ''me'', Some (lit ''guess''))) \<and>
   api_access_handler plain_ssl (\<lambda>_. None) (\<lambda>_. None) sample_credentials (METHODS sample_api_lib) sample_access_env 3 (lit ''POST'')
     (Some (lit ''me'', Some (lit ''guess''))) [] None sample_sending_node (api_mem_start None) = Done (MHD_YES (Some Auth_required), None, sample_sending_node, api_mem_start None)"
proof -
  have run: "api_access_handler plain_ssl (\<lambda>_. None) (\<lambda>_. None) sample_credentials (METHODS sample_api_lib) sample_access_env 3 (lit ''POST'')
     (Some (lit ''me'', Some (lit ''guess''))) [] None sample_sending_node (api_mem_start None) = Done (MHD_YES (Some Auth_required), None, sample_sending_node, api_mem_start None)"
    by (simp add: api_access_handler_def check_basic_auth_def sample_credentials_def constant_time_equal_iff c_str_def sample_access_env_def queue_reply_def)
  then show ?thesis using api_needs_credentials [OF run] by (simp add: sample_access_env_def)
qed

text \<open>
  C4: A batch is answered completely and in order. Whatever its requests do and whatever the worker reports in between, the
  responses are one for each request that has an id or is not an object, in the order of the requests; each has the id of its
  request and either a result or an error; there is no response to a notification, and no body at all if there are only notifications.
\<close>

theorem batch_answered:
  assumes "(api_step ssl parse print config (METHODS L) api_env_ok)\<^sup>*\<^sup>* (api_world_start broadcast n0) w" "am_states (aw_mem w) r = None"
    and "\<forall>i. api_env_ok (snd (env i)) \<and> (\<forall>rp\<in>set (fst (env i)). report_ok rp)"
    and "parse body = Some (CJ_Array reqs)" "reqs \<noteq> []" "length reqs \<le> 256"
    and "process_jsonrpc_request ssl parse (METHODS L) env body n (request_begin r (aw_mem w)) = Done (tree, n', m')"
  shows "\<exists>resps. tree = (if resps = [] then None else Some (CJ_Array (map CJ_At resps))) \<and>
    list_all2 (\<lambda>req a. a < length (am_objects m') \<and> answers req (am_objects m' ! a)) (filter wants_reply reqs) resps"
proof -
  have "api_world_ok w" using rpc.reachable_ok [OF assms(1)] .
  then have "in_request r (request_begin r (aw_mem w))" using request_begin_keeps assms(2) by (simp add: api_world_ok_def)
  moreover obtain resps where "process_batch ssl (METHODS L) env 0 reqs n (request_begin r (aw_mem w)) = Done (resps, n', m')"
    "tree = (if resps = [] then None else Some (CJ_Array (map CJ_At resps)))"
    using assms(4-7) by (auto simp: process_jsonrpc_request_def)
  ultimately show ?thesis using rpc.batch_replies [OF assms(3)] by blast
qed

theorem batch_answered_witness:
  "\<exists>a b n' m'. process_jsonrpc_request plain_ssl (\<lambda>_. Some (CJ_Array sample_batch)) (METHODS sample_api_lib) (ae_calls sample_access_env) []
      sample_sending_node (request_begin 0 (api_mem_start None)) = Done (Some (CJ_Array [CJ_At a, CJ_At b]), n', m') \<and>
    map_of (am_objects m' ! a) (lit ''id'') = Some CJ_Null \<and> map_of (am_objects m' ! b) (lit ''id'') = Some (CJ_Number (Finite 7))"
proof -
  let ?run = "process_jsonrpc_request plain_ssl (\<lambda>_. Some (CJ_Array sample_batch)) (METHODS sample_api_lib) (ae_calls sample_access_env) []
    sample_sending_node (request_begin 0 (api_mem_start None))"
  obtain tree n' m' where run: "?run = Done (tree, n', m')" using sample_batch_run by blast
  have "\<exists>resps. tree = (if resps = [] then None else Some (CJ_Array (map CJ_At resps))) \<and>
      list_all2 (\<lambda>req a. a < length (am_objects m') \<and> answers req (am_objects m' ! a)) (filter wants_reply sample_batch) resps"
    by (rule batch_answered [where w = "api_world_start None sample_sending_node" and r = 0 and env = "ae_calls sample_access_env" and n = sample_sending_node
        and config = sample_credentials and print = "\<lambda>_. None", OF rtranclp.rtrancl_refl])
      (use sample_access_env_ok run in \<open>simp_all add: access_env_ok_def api_world_start_def api_mem_start_def sample_batch_def\<close>)
  then show ?thesis using run by (auto simp: sample_batch_def list_all2_Cons1 answers_def echoes_def)
qed

text \<open>
  C2: No connection is lost and no memory is used after it was freed. Under every interleaving of clients, the worker of the
  proof-of-work queue and libmicrohttpd: a report of the worker finds its slot and its request alive; the request of a connection that is not
  suspended can be finished and freed; a connection is suspended only while a send of its own request is owed a report; the
  counter of suspended requests is not 0 while one is suspended, so a stop of the server waits for them; and once the owed reports have
  come, in any order, no connection is suspended.
\<close>

theorem api_connections_safe:
  assumes "(api_step ssl parse print config (METHODS L) api_env_ok)\<^sup>*\<^sup>* (api_world_start broadcast n0) w"
  shows "(\<forall>rp. report_ok rp \<longrightarrow> run_report ssl rp (aw_mem w) \<noteq> Fault) \<and>
    (\<forall>c. \<not> am_mhd (aw_mem w) c \<longrightarrow> api_request_completed (aw_ctx w c) (aw_mem w) \<noteq> Fault \<and>
       (\<forall>cx r ok. aw_ctx w c = Some cx \<and> cx_async cx = Some r \<longrightarrow> finish_async_response print ok r cx (aw_mem w) \<noteq> Fault)) \<and>
    (\<forall>c. am_mhd (aw_mem w) c \<longrightarrow> 0 < am_suspended (aw_mem w) \<and>
       (\<exists>cx r st s. aw_ctx w c = Some cx \<and> cx_async cx = Some r \<and> am_states (aw_mem w) r = Some st \<and> s \<in> set (as_slots st) \<and> s \<in> set (am_jobs (aw_mem w)))) \<and>
    (\<forall>rps. (\<forall>rp\<in>set rps. report_ok rp) \<and> set (am_jobs (aw_mem w)) \<subseteq> rp_slot ` set rps \<longrightarrow>
       (\<exists>m'. run_reports ssl rps (aw_mem w) = Done m' \<and> (\<forall>c. \<not> am_mhd m' c)))"
proof -
  have ok: "api_world_ok w" using rpc.reachable_ok [OF assms] .
  then have inv: "mem_inv None (aw_mem w)" "ctx_inv (aw_mem w) (aw_ctx w)" by (simp_all add: api_world_ok_def)
  have 1: "run_report ssl rp (aw_mem w) \<noteq> Fault" if "report_ok rp" for rp using run_report_inv [OF inv(1) that, of ssl] by auto
  have 2: "api_request_completed (aw_ctx w c) (aw_mem w) \<noteq> Fault" if "\<not> am_mhd (aw_mem w) c" for c using completed_keeps [OF ok that] by auto
  have 3: "finish_async_response print b r cx (aw_mem w) \<noteq> Fault" if "\<not> am_mhd (aw_mem w) c" "aw_ctx w c = Some cx" "cx_async cx = Some r" for c cx r b
    using finish_response_keeps [OF ok that(2,3,1), of print b] by auto
  have 4: "0 < am_suspended (aw_mem w) \<and>
       (\<exists>cx r st s. aw_ctx w c = Some cx \<and> cx_async cx = Some r \<and> am_states (aw_mem w) r = Some st \<and> s \<in> set (as_slots st) \<and> s \<in> set (am_jobs (aw_mem w)))"
    if c: "am_mhd (aw_mem w) c" for c
  proof -
    obtain r st s where j: "am_states (aw_mem w) r = Some st" "as_suspended st" "as_connection st = c" "s \<in> set (as_slots st)" "s \<in> set (am_jobs (aw_mem w))"
      using suspended_job [OF inv(1) c] by blast
    then have wr: "waits (aw_mem w) r c" by (auto simp: waits_def)
    have "finite {r. \<exists>c. waits (aw_mem w) r c}" "int (card {r. \<exists>c. waits (aw_mem w) r c}) \<le> am_suspended (aw_mem w)"
      using inv(1) by (simp_all add: mem_inv_def conns_inv_def)
    moreover have "0 < card {r. \<exists>c. waits (aw_mem w) r c}" using wr calculation(1) by (auto simp: card_gt_0_iff)
    ultimately have "0 < am_suspended (aw_mem w)" by linarith
    then show ?thesis using j wr inv(2) unfolding ctx_inv_def by blast
  qed
  have 5: "\<exists>m'. run_reports ssl rps (aw_mem w) = Done m' \<and> (\<forall>c. \<not> am_mhd m' c)"
    if "\<forall>rp\<in>set rps. report_ok rp" "set (am_jobs (aw_mem w)) \<subseteq> rp_slot ` set rps" for rps
    using all_reported [OF inv(1) that] by blast
  show ?thesis using 1 2 3 4 5 by blast
qed

theorem api_connections_safe_witness:
  "\<exists>w. (api_step plain_ssl (\<lambda>_. Some sample_broadcast_call) (\<lambda>_. None) sample_credentials (METHODS sample_api_lib) api_env_ok)\<^sup>*\<^sup>*
      (api_world_start (Some []) sample_sending_node) w \<and>
    am_mhd (aw_mem w) 3 \<and> am_jobs (aw_mem w) \<noteq> []"
proof -
  let ?step = "api_step plain_ssl (\<lambda>_. Some sample_broadcast_call) (\<lambda>_. None) sample_credentials (METHODS sample_api_lib) api_env_ok"
  define w0 where "w0 = api_world_start (Some []) sample_sending_node"
  define w1 where "w1 = w0\<lparr>aw_ctx := [3 \<mapsto> fresh_ctx]\<rparr>"
  have "api_access_handler plain_ssl (\<lambda>_. Some sample_broadcast_call) (\<lambda>_. None) sample_credentials (METHODS sample_api_lib) sample_access_env 3
      (lit ''POST'') (Some (lit ''me'', Some (lit ''pw''))) [] (aw_ctx w0 3) (aw_node w0) (aw_mem w0) = Done (MHD_YES None, Some fresh_ctx, aw_node w0, aw_mem w0)"
    by (simp add: api_access_handler_def w0_def api_world_start_def check_basic_auth_def sample_credentials_def constant_time_equal_iff c_str_def sample_access_env_def)
  from api_step.access [OF _ _ sample_access_env_ok this] have s1: "?step w0 w1"
    by (simp add: w0_def w1_def api_world_start_def api_mem_start_def fun_upd_def)
  obtain cx n m where run: "api_access_handler plain_ssl (\<lambda>_. Some sample_broadcast_call) (\<lambda>_. None) sample_credentials (METHODS sample_api_lib) sample_access_env 3
      (lit ''POST'') None [] (aw_ctx w1 3) (aw_node w1) (aw_mem w1) = Done (MHD_YES None, Some cx, n, m)" and m: "am_mhd m 3"
    using sample_suspended by (auto simp: w1_def w0_def api_world_start_def)
  from api_step.access [OF _ _ sample_access_env_ok run] obtain w2 where s2: "?step w1 w2" "aw_mem w2 = m"
    by (simp add: w0_def w1_def api_world_start_def api_mem_start_def)
  have steps: "?step\<^sup>*\<^sup>* w0 w2" using s1 s2(1) by (meson converse_rtranclp_into_rtranclp rtranclp.rtrancl_refl)
  moreover have "am_jobs (aw_mem w2) \<noteq> []" using api_connections_safe [OF steps [unfolded w0_def]] m s2(2) by fastforce
  ultimately show ?thesis using m s2(2) unfolding w0_def by blast
qed

end
