(* ===== verification/Socks.thy ===== *)
theory Socks
  imports Event_Loop Config_Store
begin

text \<open>
  How the connector opens a connection to a peer (\<open>src/infra/peer_connector.c\<close>, up to \<open>open_peer_connection\<close>): a
  TCP connection with a timeout, and the SOCKS5 handshake with a proxy.

  What the sockets answer is an argument: the addresses that the resolver gives with what becomes of a connection to each, and for
  the handshake what \<open>send\<close> and \<open>recv\<close> return in the order of the calls. \<open>None\<close> inside the outcome means that the
  answers do not end the handshake. A write outside a buffer of the stack is a \<open>Fault\<close>.

  The theory shows that no descriptor is lost, that the peer's name is given to the proxy only, and that the handshake takes
  exactly the reply of the proxy from the stream, however it is cut; and that a reply with a name of 255 bytes is written over the end
  of a buffer.
\<close>

section \<open>TCP\<close>

text \<open>\<open>connect\<close> succeeds or fails at once, or \<open>select\<close> tells whether the socket is writable, and then its error is read.\<close>

datatype connect_answer = Connected | Connect_failed | In_progress bool int

record addr_attempt =
  at_socket :: "int option"
  at_connect :: connect_answer

fun connect_ok :: "connect_answer \<Rightarrow> bool" where
  "connect_ok Connected = True"
| "connect_ok Connect_failed = False"
| "connect_ok (In_progress ready so_error) = (ready \<and> so_error = 0)"

text \<open>The descriptor, and the descriptors that were closed on the way.\<close>

fun connect_loop :: "addr_attempt list \<Rightarrow> int option \<times> int list" where
  "connect_loop [] = (None, [])"
| "connect_loop (p # ps) =
     (case at_socket p of
        None \<Rightarrow> connect_loop ps
      | Some sock \<Rightarrow>
          if connect_ok (at_connect p) then (Some sock, [])
          else (case connect_loop ps of (r, closed) \<Rightarrow> (r, sock # closed)))"

text \<open>The resolver: the name and the port are what the machine looks up and connects to.\<close>

type_synonym resolver = "bytes \<Rightarrow> int \<Rightarrow> addr_attempt list option"

definition connect_with_timeout :: "resolver \<Rightarrow> bytes \<Rightarrow> int \<Rightarrow> int option \<times> int list" where
  "connect_with_timeout getaddrinfo ip port = (case getaddrinfo (c_str ip) port of None \<Rightarrow> (None, []) | Some res \<Rightarrow> connect_loop res)"

section \<open>Sending and receiving all\<close>

text \<open>The result is the return code and what went out; the answers that are left are for the next call.\<close>

fun socks5_send_all :: "write_answer list \<Rightarrow> bytes \<Rightarrow> (int \<times> bytes \<times> write_answer list) option" where
  "socks5_send_all as [] = Some (0, [], as)"
| "socks5_send_all [] (b # bs) = None"
| "socks5_send_all (a # as) (b # bs) =
     (case a of
        Wrote n \<Rightarrow>
          if n = 0 then Some (-1, [], as)
          else map_option (\<lambda>(rc, out, as'). (rc, take n (b # bs) @ out, as')) (socks5_send_all as (drop n (b # bs)))
      | Write_again Select_ready \<Rightarrow> socks5_send_all as (b # bs)
      | _ \<Rightarrow> Some (-1, [], as))"

text \<open>What \<open>recv\<close> finds; what it does not take stays for the next call.\<close>

datatype recv_answer = Got bytes | Recv_closed | Recv_again select_answer | Recv_error

text \<open>\<open>cap\<close> is the size of the buffer, \<open>got\<close> what is in it, \<open>need\<close> what is still to come.\<close>

fun recv_loop :: "nat \<Rightarrow> bytes \<Rightarrow> nat \<Rightarrow> recv_answer list \<Rightarrow> (int \<times> bytes \<times> recv_answer list) option outcome" where
  "recv_loop cap got need as =
     (if need = 0 then Done (Some (0, got, as))
      else (case as of
              [] \<Rightarrow> Done None
            | Got bs # as' \<Rightarrow>
                let chunk = take need bs
                in if chunk = [] then Done (Some (-1, got, as'))
                   else if cap < length got + length chunk then Fault
                   else if need < length bs then Done (Some (0, got @ chunk, Got (drop need bs) # as'))
                   else recv_loop cap (got @ chunk) (need - length chunk) as'
            | Recv_again Select_ready # as' \<Rightarrow> recv_loop cap got need as'
            | _ # as' \<Rightarrow> Done (Some (-1, got, as'))))"

declare recv_loop.simps [simp del]

definition socks5_recv_all :: "nat \<Rightarrow> nat \<Rightarrow> recv_answer list \<Rightarrow> (int \<times> bytes \<times> recv_answer list) option outcome" where
  "socks5_recv_all cap len as = recv_loop cap [] len as"


section \<open>The handshake\<close>

definition socks5_rep_to_string :: "byte \<Rightarrow> bytes" where
  "socks5_rep_to_string rep =
     (if rep = 0x00 then lit ''succeeded''
      else if rep = 0x01 then lit ''general SOCKS server failure''
      else if rep = 0x02 then lit ''connection not allowed by ruleset''
      else if rep = 0x03 then lit ''network unreachable''
      else if rep = 0x04 then lit ''host unreachable''
      else if rep = 0x05 then lit ''connection refused''
      else if rep = 0x06 then lit ''TTL expired''
      else if rep = 0x07 then lit ''command not supported''
      else if rep = 0x08 then lit ''address type not supported''
      else lit ''unknown REP code'')"

definition socks5_greeting :: bytes where "socks5_greeting = [0x05, 0x01, 0x00]"

definition socks5_request :: "bytes \<Rightarrow> int \<Rightarrow> bytes" where
  "socks5_request dest_host dest_port =
     [0x05, 0x01, 0x00, 0x03, word_of_nat (strlen dest_host)] @ c_str dest_host @ [word_of_int (dest_port div 256), word_of_int dest_port]"

text \<open>The length of the address in the reply; \<open>None\<close> is an error.\<close>

definition bnd_addr_len :: "byte \<Rightarrow> recv_answer list \<Rightarrow> (nat option \<times> recv_answer list) option outcome" where
  "bnd_addr_len atyp rs =
     (if atyp = 0x01 then Done (Some (Some 4, rs))
      else if atyp = 0x04 then Done (Some (Some 16, rs))
      else if atyp = 0x03
      then bind_run (socks5_recv_all 1 1 rs) (\<lambda>(rc, len_byte, rs1). Done (Some (if rc \<noteq> 0 then None else Some (unat (len_byte ! 0)), rs1)))
      else Done (Some (None, rs)))"

text \<open>The result: the return code, what was sent, and what is left to receive.\<close>

definition socks5_connect :: "bytes \<Rightarrow> int \<Rightarrow> write_answer list \<Rightarrow> recv_answer list \<Rightarrow> (int \<times> bytes \<times> recv_answer list) option outcome" where
  "socks5_connect dest_host dest_port ws rs =
     (if strlen dest_host = 0 \<or> 255 < strlen dest_host then Done (Some (-1, [], rs))
      else
        bind_run (Done (socks5_send_all ws socks5_greeting)) (\<lambda>(rc, out1, ws1).
          if rc \<noteq> 0 then Done (Some (-1, out1, rs))
          else bind_run (socks5_recv_all 2 2 rs) (\<lambda>(rc, method_resp, rs1).
            if rc \<noteq> 0 \<or> method_resp ! 0 \<noteq> 0x05 \<or> method_resp ! 1 \<noteq> 0x00 then Done (Some (-1, out1, rs1))
            else bind_run (Done (socks5_send_all ws1 (socks5_request dest_host dest_port))) (\<lambda>(rc, out2, ws2).
              if rc \<noteq> 0 then Done (Some (-1, out1 @ out2, rs1))
              else bind_run (socks5_recv_all 4 4 rs1) (\<lambda>(rc, reply_head, rs2).
                if rc \<noteq> 0 \<or> reply_head ! 0 \<noteq> 0x05 \<or> reply_head ! 1 \<noteq> 0x00 then Done (Some (-1, out1 @ out2, rs2))
                else bind_run (bnd_addr_len (reply_head ! 3) rs2) (\<lambda>(len, rs3).
                  case len of
                    None \<Rightarrow> Done (Some (-1, out1 @ out2, rs3))
                  | Some n \<Rightarrow>
                      bind_run (socks5_recv_all 256 (n + 2) rs3) (\<lambda>(rc, discard, rs4).
                        Done (Some (if rc \<noteq> 0 then -1 else 0, out1 @ out2, rs4)))))))))"

definition is_onion_host :: "bytes \<Rightarrow> bool" where
  "is_onion_host host \<longleftrightarrow> 6 < strlen host \<and> drop (strlen host - 6) (c_str host) = lit ''.onion''"

text \<open>
  What the system gives for one connection. The result: the descriptor, which hosts the machine itself looked up and connected to, and the
  descriptors that were closed.
\<close>

record open_env =
  op_resolver :: resolver
  op_writes :: "write_answer list"
  op_reads :: "recv_answer list"

definition open_peer_connection ::
  "open_env \<Rightarrow> bytes \<Rightarrow> int \<Rightarrow> bm_socks_proxy_config option \<Rightarrow> (int option \<times> (bytes \<times> int) list \<times> int list) option outcome" where
  "open_peer_connection env ip port socks_proxy =
     (case socks_proxy of
        Some proxy \<Rightarrow>
          if sp_enabled proxy \<noteq> 0
          then (case connect_with_timeout (op_resolver env) (sp_host proxy) (sp_port proxy) of
                  (None, closed) \<Rightarrow> Done (Some (None, [(c_str (sp_host proxy), sp_port proxy)], closed))
                | (Some sock, closed) \<Rightarrow>
                    bind_run (socks5_connect ip port (op_writes env) (op_reads env)) (\<lambda>(rc, _, _).
                      Done (Some (if rc \<noteq> 0 then (None, [(c_str (sp_host proxy), sp_port proxy)], closed @ [sock])
                                  else (Some sock, [(c_str (sp_host proxy), sp_port proxy)], closed)))))
          else (case connect_with_timeout (op_resolver env) ip port of (r, closed) \<Rightarrow> Done (Some (r, [(c_str ip, port)], closed)))
      | None \<Rightarrow> (case connect_with_timeout (op_resolver env) ip port of (r, closed) \<Rightarrow> Done (Some (r, [(c_str ip, port)], closed))))"

section \<open>Descriptors\<close>

definition opened :: "addr_attempt list \<Rightarrow> int list" where
  "opened ps = map (the \<circ> at_socket) (filter (\<lambda>p. at_socket p \<noteq> None) ps)"

text \<open>The sockets that are opened before the loop ends are closed, all but the one that is returned.\<close>

lemma connect_loop_closes:
  "connect_loop ps = (r, closed) \<Longrightarrow> \<exists>used rest. ps = used @ rest \<and> opened used = closed @ (case r of None \<Rightarrow> [] | Some s \<Rightarrow> [s]) \<and> (r = None \<longrightarrow> rest = [])"
proof (induction ps arbitrary: closed)
  case (Cons p ps)
  obtain r' c' where loop: "connect_loop ps = (r', c')" by (rule prod.exhaust)
  show ?case
  proof (cases "at_socket p")
    case None
    then obtain used rest where "ps = used @ rest" "opened used = closed @ (case r of None \<Rightarrow> [] | Some s \<Rightarrow> [s])" "r = None \<longrightarrow> rest = []"
      using Cons by auto
    then show ?thesis using None by (intro exI [of _ "p # used"] exI [of _ rest]) (simp add: opened_def)
  next
    case (Some s)
    show ?thesis
    proof (cases "connect_ok (at_connect p)")
      case True
      then show ?thesis using Some Cons.prems by (intro exI [of _ "[p]"] exI [of _ ps]) (auto simp: opened_def)
    next
      case False
      then have e: "r = r'" "closed = s # c'" using Some Cons.prems loop by auto
      obtain used rest where "ps = used @ rest" "opened used = c' @ (case r' of None \<Rightarrow> [] | Some s \<Rightarrow> [s])" "r' = None \<longrightarrow> rest = []"
        using Cons.IH [of c'] loop e by auto
      then show ?thesis using e Some by (intro exI [of _ "p # used"] exI [of _ rest]) (simp add: opened_def)
    qed
  qed
qed (simp add: opened_def)

section \<open>The stream of the proxy\<close>

text \<open>What is received, when nothing goes wrong.\<close>

fun flowing :: "recv_answer \<Rightarrow> bool" where
  "flowing (Got bs) = (bs \<noteq> [])"
| "flowing (Recv_again s) = (s = Select_ready)"
| "flowing _ = False"

fun received :: "recv_answer list \<Rightarrow> bytes" where
  "received [] = []"
| "received (Got bs # as) = bs @ received as"
| "received (_ # as) = received as"

lemma recv_loop_stream:
  "list_all flowing as \<Longrightarrow> length got + need \<le> cap \<Longrightarrow> need \<le> length (received as) \<Longrightarrow>
     \<exists>as'. recv_loop cap got need as = Done (Some (0, got @ take need (received as), as')) \<and> received as' = drop need (received as) \<and> list_all flowing as'"
proof (induction as arbitrary: got need)
  case (Cons a as)
  show ?case
  proof (cases a)
    case (Got bs)
    then have ne: "bs \<noteq> []" and rest: "list_all flowing as" using Cons.prems(1) by simp_all
    show ?thesis
    proof (cases "need = 0 \<or> need < length bs")
      case True
      then show ?thesis using Got ne rest Cons.prems by (subst recv_loop.simps) (auto simp: Let_def)
    next
      case False
      then have "length (got @ bs) + (need - length bs) \<le> cap" "need - length bs \<le> length (received as)" using Cons.prems Got by auto
      from Cons.IH [OF rest this] show ?thesis using False Got ne Cons.prems(2) by (subst recv_loop.simps) (auto simp: Let_def)
    qed
  next
    case (Recv_again s)
    then show ?thesis using Cons by (subst recv_loop.simps) auto
  qed (use Cons.prems in simp_all)
qed (simp add: recv_loop.simps)

lemma recv_all_stream:
  "list_all flowing as \<Longrightarrow> len \<le> cap \<Longrightarrow> received as = bs @ rest \<Longrightarrow> length bs = len \<Longrightarrow>
     \<exists>as'. socks5_recv_all cap len as = Done (Some (0, bs, as')) \<and> received as' = rest \<and> list_all flowing as'"
  using recv_loop_stream [of as "[]" len cap] by (simp add: socks5_recv_all_def)

text \<open>Sending: what is accepted goes out in order.\<close>

fun taking :: "write_answer \<Rightarrow> bool" where
  "taking (Wrote n) = (0 < n)"
| "taking (Write_again s) = (s = Select_ready)"
| "taking _ = False"

lemma send_all_out: "socks5_send_all as bs = Some (rc, out, as') \<Longrightarrow> rc = 0 \<and> out = bs \<or> rc = -1 \<and> (\<exists>rest. bs = out @ rest)"
proof (induction as bs arbitrary: out rule: socks5_send_all.induct)
  case (3 a as b bs)
  show ?case
  proof (cases a)
    case (Wrote n)
    show ?thesis
    proof (cases "n = 0")
      case False
      then obtain out' where o: "socks5_send_all as (drop n (b # bs)) = Some (rc, out', as')" "out = take n (b # bs) @ out'"
        using "3.prems" Wrote by auto
      from "3.IH"(1) [OF Wrote False o(1)] show ?thesis using o(2) by (metis append.assoc append_take_drop_id)
    qed (use "3.prems" Wrote in auto)
  next
    case (Write_again s)
    then show ?thesis using 3 by (cases s) auto
  qed (use "3.prems" in auto)
qed auto

text \<open>Each write takes at least a byte.\<close>

definition writes :: "write_answer list \<Rightarrow> nat" where
  "writes as = length (filter (\<lambda>a. \<exists>n. a = Wrote n) as)"

lemma send_all_done:
  "list_all taking as \<Longrightarrow> length bs \<le> writes as \<Longrightarrow>
     \<exists>as'. socks5_send_all as bs = Some (0, bs, as') \<and> list_all taking as' \<and> writes as \<le> writes as' + length bs"
proof (induction as bs rule: socks5_send_all.induct)
  case (3 a as b bs)
  show ?case
  proof (cases a)
    case (Wrote n)
    then have n: "0 < n" and ok: "list_all taking as" using "3.prems"(1) by simp_all
    have "length (drop n (b # bs)) \<le> writes as" using n "3.prems"(2) Wrote by (cases n) (simp_all add: writes_def)
    from "3.IH"(1) [OF Wrote _ ok this] n obtain as' where as': "socks5_send_all as (drop n (b # bs)) = Some (0, drop n (b # bs), as')"
      "list_all taking as'" "writes as \<le> writes as' + length (drop n (b # bs))" by auto
    have "writes (a # as) = Suc (writes as)" using Wrote by (simp add: writes_def)
    moreover have "Suc (length (drop n (b # bs))) \<le> length (b # bs)" using n by (cases n) simp_all
    ultimately show ?thesis using as' Wrote n by (auto simp del: drop_Cons' length_drop)
  next
    case (Write_again s)
    then show ?thesis using 3 by (cases s) (auto simp: writes_def)
  qed (use "3.prems"(1) in simp_all)
qed (auto simp: writes_def)

text \<open>The address and the port at the end of the proxy's reply.\<close>

definition bound_address :: "byte \<Rightarrow> bytes \<Rightarrow> bool" where
  "bound_address atyp addr \<longleftrightarrow>
     atyp = 1 \<and> length addr = 4 \<or> atyp = 4 \<and> length addr = 16 \<or> atyp = 3 \<and> addr \<noteq> [] \<and> length (tl addr) = unat (hd addr)"

lemma bnd_addr_len_reads:
  assumes "bound_address atyp addr" "list_all flowing rs" "received rs = addr @ rest"
  shows "\<exists>n rs1 name. bnd_addr_len atyp rs = Done (Some (Some n, rs1)) \<and> list_all flowing rs1 \<and> received rs1 = name @ rest \<and> length name = n \<and>
    n = length addr - (if atyp = 3 then 1 else 0)"
proof (cases "atyp = 3")
  case True
  then obtain l name where a: "addr = l # name" "length name = unat l" using assms(1) by (cases addr) (auto simp: bound_address_def)
  obtain rs1 where "socks5_recv_all 1 1 rs = Done (Some (0, [l], rs1))" "received rs1 = name @ rest" "list_all flowing rs1"
    using recv_all_stream [OF assms(2), of 1 1 "[l]" "name @ rest"] assms(3) a by auto
  then show ?thesis using True a by (simp add: bnd_addr_len_def bind_run_def)
next
  case False
  then show ?thesis using assms by (auto simp: bound_address_def bnd_addr_len_def)
qed

lemma handshake_until_address:
  assumes "0 < strlen host" "strlen host \<le> 255" "list_all taking ws" "strlen host + 10 \<le> writes ws"
    and "list_all flowing rs" "received rs = [5, 0] @ [5, 0, rsv, atyp] @ addr @ rest" "bound_address atyp addr"
  shows "\<exists>n rs1 name. list_all flowing rs1 \<and> received rs1 = name @ rest \<and> length name = n \<and> n = length addr - (if atyp = 3 then 1 else 0) \<and>
    socks5_connect host port ws rs =
      bind_run (socks5_recv_all 256 (n + 2) rs1) (\<lambda>(rc, discard, rs4). Done (Some (if rc \<noteq> 0 then -1 else 0, socks5_greeting @ socks5_request host port, rs4)))"
proof -
  have len: "length socks5_greeting = 3" "length (socks5_request host port) = strlen host + 7" by (simp_all add: socks5_greeting_def socks5_request_def strlen_def)
  obtain ws1 where ws1: "socks5_send_all ws socks5_greeting = Some (0, socks5_greeting, ws1)" "list_all taking ws1" "writes ws \<le> writes ws1 + 3"
    using send_all_done [OF assms(3), of socks5_greeting] assms(4) len by auto
  obtain ws2 where ws2: "socks5_send_all ws1 (socks5_request host port) = Some (0, socks5_request host port, ws2)"
    using send_all_done [OF ws1(2), of "socks5_request host port"] ws1(3) assms(4) len by auto
  obtain rs1 where rs1: "socks5_recv_all 2 2 rs = Done (Some (0, [5, 0], rs1))" "received rs1 = [5, 0, rsv, atyp] @ addr @ rest" "list_all flowing rs1"
    using recv_all_stream [OF assms(5), of 2 2 "[5, 0]" "[5, 0, rsv, atyp] @ addr @ rest"] assms(6) by auto
  obtain rs2 where rs2: "socks5_recv_all 4 4 rs1 = Done (Some (0, [5, 0, rsv, atyp], rs2))" "received rs2 = addr @ rest" "list_all flowing rs2"
    using recv_all_stream [OF rs1(3), of 4 4 "[5, 0, rsv, atyp]" "addr @ rest"] rs1(2) by auto
  obtain n rs3 name where n: "bnd_addr_len atyp rs2 = Done (Some (Some n, rs3))" "list_all flowing rs3" "received rs3 = name @ rest" "length name = n"
      "n = length addr - (if atyp = 3 then 1 else 0)"
    using bnd_addr_len_reads [OF assms(7) rs2(3,2)] by blast
  have "socks5_connect host port ws rs =
      bind_run (socks5_recv_all 256 (n + 2) rs3) (\<lambda>(rc, discard, rs4). Done (Some (if rc \<noteq> 0 then -1 else 0, socks5_greeting @ socks5_request host port, rs4)))"
    using assms(1,2) ws1(1) ws2 rs1(1) rs2(1) n(1) unfolding socks5_connect_def by (simp add: bind_run_def)
  then show ?thesis using n by blast
qed

section \<open>Properties\<close>

text \<open>
  C12: The handshake is transparent. However the sockets cut what is sent and received, the proxy gets the greeting and the request with the
  name of the peer, as it is, and its port, and when its reply reports success, with an address of any kind but a name of more than 254 bytes,
  the handshake succeeds and leaves in the stream exactly what follows the reply: the first bytes of the peer are not lost.
\<close>

theorem socks5_transparent:
  assumes "0 < strlen host" "strlen host \<le> 255" "list_all taking ws" "strlen host + 10 \<le> writes ws"
    and "list_all flowing rs" "received rs = [5, 0] @ [5, 0, rsv, atyp] @ addr @ bnd_port @ peer" "bound_address atyp addr" "length bnd_port = 2" "length addr \<le> 255"
  shows "\<exists>rs'. socks5_connect host port ws rs = Done (Some (0, socks5_greeting @ socks5_request host port, rs')) \<and> received rs' = peer"
proof -
  obtain n rs1 name where n: "list_all flowing rs1" "received rs1 = name @ bnd_port @ peer" "length name = n" "n = length addr - (if atyp = 3 then 1 else 0)"
      "socks5_connect host port ws rs =
        bind_run (socks5_recv_all 256 (n + 2) rs1) (\<lambda>(rc, discard, rs4). Done (Some (if rc \<noteq> 0 then -1 else 0, socks5_greeting @ socks5_request host port, rs4)))"
    using handshake_until_address [OF assms(1-7), of port] by blast
  have "n + 2 \<le> 256" using n(4) assms(7,9) by (auto simp: bound_address_def split: if_splits)
  then obtain rs' where "socks5_recv_all 256 (n + 2) rs1 = Done (Some (0, name @ bnd_port, rs'))" "received rs' = peer"
    using recv_all_stream [OF n(1), of "n + 2" 256 "name @ bnd_port" peer] n(2,3) assms(8) by auto
  then show ?thesis using n(5) by (simp add: bind_run_def)
qed

theorem socks5_transparent_witness:
  "\<exists>rs'. socks5_connect (lit ''x.onion'') 8444 (replicate 30 (Wrote 1)) (map (\<lambda>b. Got [b]) ([5, 0] @ [5, 0, 0, 1] @ [127, 0, 0, 1] @ [0, 80]) @ [Recv_again Select_ready, Got [9, 9]]) =
      Done (Some (0, socks5_greeting @ socks5_request (lit ''x.onion'') 8444, rs')) \<and> received rs' = [9, 9]"
  by (rule socks5_transparent [where addr = "[127, 0, 0, 1]" and bnd_port = "[0, 80]" and rsv = 0 and atyp = 1])
    (simp_all add: strlen_def c_str_def writes_def bound_address_def list_all_iff filter_replicate)

lemma recv_overflow:
  "list_all flowing as \<Longrightarrow> length got \<le> cap \<Longrightarrow> cap < length got + need \<Longrightarrow> need \<le> length (received as) \<Longrightarrow> recv_loop cap got need as = Fault"
proof (induction as arbitrary: got need)
  case (Cons a as)
  show ?case
  proof (cases a)
    case (Got bs)
    then have ne: "bs \<noteq> []" and rest: "list_all flowing as" using Cons.prems(1) by simp_all
    show ?thesis
    proof (cases "cap < length got + length (take need bs)")
      case True
      then show ?thesis using Got ne Cons.prems(2,3) by (subst recv_loop.simps) (auto simp: Let_def)
    next
      case False
      then have small: "\<not> need < length bs" using Cons.prems(3) by auto
      then have "recv_loop cap (got @ bs) (need - length bs) as = Fault" using Cons.prems Got False by (intro Cons.IH [OF rest]) auto
      then show ?thesis using small False Got ne Cons.prems(2,3) by (subst recv_loop.simps) (auto simp: Let_def)
    qed
  next
    case (Recv_again s)
    then show ?thesis using Cons by (subst recv_loop.simps) auto
  qed (use Cons.prems in simp_all)
qed simp

text \<open>Nothing but such a reply makes the handshake write outside its buffers.\<close>

lemma recv_loop_fits: "length got + need \<le> cap \<Longrightarrow> recv_loop cap got need as \<noteq> Fault"
proof (induction as arbitrary: got need)
  case (Cons a as)
  show ?case
  proof (cases a)
    case (Got bs)
    have "length (got @ take need bs) + (need - length (take need bs)) \<le> cap" using Cons.prems by simp
    from Cons.IH [OF this] show ?thesis using Cons.prems Got by (subst recv_loop.simps) (auto simp: Let_def min_def not_less)
  next
    case (Recv_again s)
    then show ?thesis using Cons by (cases s) (subst recv_loop.simps, simp)+
  qed (subst recv_loop.simps, simp)+
qed (subst recv_loop.simps, simp)

lemma recv_loop_prefix:
  "recv_loop cap got need as = Done (Some (0, out, as')) \<Longrightarrow> \<exists>bs. out = got @ bs \<and> length bs = need \<and> received as = bs @ received as'"
proof (induction as arbitrary: got need)
  case Nil
  then show ?case by (subst (asm) recv_loop.simps) (simp split: if_splits)
next
  case (Cons a as)
  show ?case
  proof (cases "need = 0")
    case True
    then show ?thesis using Cons.prems by (subst (asm) recv_loop.simps) simp
  next
    case False
    show ?thesis
    proof (cases a)
      case (Got bs)
      consider "need < length bs" "out = got @ take need bs" "as' = Got (drop need bs) # as"
        | "\<not> need < length bs" "recv_loop cap (got @ bs) (need - length bs) as = Done (Some (0, out, as'))"
        using Cons.prems False Got by (subst (asm) recv_loop.simps) (auto simp: Let_def split: if_splits)
      then show ?thesis
      proof cases
        case 2
        from Cons.IH [OF 2(2)] show ?thesis using 2(1) Got by auto
      qed (use Got in simp)
    next
      case (Recv_again s)
      then show ?thesis using Cons False by (cases s) (subst (asm) recv_loop.simps, simp)+
    qed (use Cons.prems False in \<open>(subst (asm) recv_loop.simps, simp)+\<close>)
  qed
qed

lemma recv_all_cases:
  assumes "len \<le> cap"
  obtains "socks5_recv_all cap len as = Done None"
    | rc out as' where "socks5_recv_all cap len as = Done (Some (rc, out, as'))" "rc = 0 \<longrightarrow> length out = len \<and> received as = out @ received as'"
proof (cases "socks5_recv_all cap len as")
  case Fault
  then show thesis using recv_loop_fits [of "[]" len cap as] assms by (simp add: socks5_recv_all_def)
next
  case (Done r)
  show thesis
  proof (cases r)
    case (Some x)
    obtain rc out as' where x: "x = (rc, out, as')" by (cases x)
    have "rc = 0 \<longrightarrow> length out = len \<and> received as = out @ received as'"
      using recv_loop_prefix [of cap "[]" len as out as'] Done Some x by (auto simp: socks5_recv_all_def)
    then show thesis using that(2) Done Some x by simp
  qed (use that(1) Done in simp)
qed

text \<open>A reply whose bound address is a name of 255 bytes.\<close>

definition names_255 :: "bytes \<Rightarrow> bool" where
  "names_255 bs \<longleftrightarrow> (\<exists>rsv. take 7 bs = [5, 0, 5, 0, rsv, 3, 255])"

lemma bnd_addr_len_cases:
  obtains "bnd_addr_len atyp rs = Done None"
    | len rs' where "bnd_addr_len atyp rs = Done (Some (len, rs'))" "\<And>n. len = Some n \<Longrightarrow> n \<le> 254 \<or> n = 255 \<and> atyp = 3 \<and> (\<exists>rest. received rs = 255 # rest)"
proof (cases "atyp = 3")
  case True
  show thesis
  proof (cases rule: recv_all_cases [OF order_refl, of 1 rs])
    case 1
    then show thesis using that(1) True by (simp add: bnd_addr_len_def)
  next
    case (2 rc out rs')
    have "unat (out ! 0) \<le> 254 \<or> unat (out ! 0) = 255 \<and> (\<exists>rest. received rs = 255 # rest)" if "rc = 0"
    proof -
      obtain b where b: "out = [b]" "received rs = b # received rs'" using 2(2) \<open>rc = 0\<close> by (auto simp: length_Suc_conv)
      have "unat b < 256" using unsigned_less [of b, where ?'a = nat] by simp
      then have "unat b = 255 \<or> unat b \<le> 254" by linarith
      moreover have "b = 255" if "unat b = 255" by (rule unsigned_word_eqI [where ?'a = nat]) (simp add: that)
      ultimately show ?thesis using b by auto
    qed
    then show thesis using True 2(1)
      by (intro that(2) [of "if rc \<noteq> 0 then None else Some (unat (out ! 0))" rs']) (auto simp: bnd_addr_len_def split: if_splits)
  qed
next
  case False
  then show thesis using that(2) by (cases "atyp = 1 \<or> atyp = 4") (auto simp: bnd_addr_len_def)
qed

lemma socks5_connect_fits:
  assumes "\<not> names_255 (received rs)"
  shows "socks5_connect host port ws rs \<noteq> Fault"
proof -
  define last where "last out = (\<lambda>(len, rs3). case len of None \<Rightarrow> Done (Some (-1, out, rs3))
    | Some n \<Rightarrow> bind_run (socks5_recv_all 256 (n + 2) rs3) (\<lambda>(rc, discard, rs4). Done (Some (if rc \<noteq> 0 then -1 else (0 :: int), out, rs4))))" for out :: bytes
  have fits: "last out (len, rs3) \<noteq> Fault" if "\<And>n. len = Some n \<Longrightarrow> n \<le> 254" for out len rs3
  proof (cases len)
    case (Some n)
    then have "n + 2 \<le> 256" using that by fastforce
    then show ?thesis by (rule recv_all_cases [of "n + 2" 256 rs3]) (simp_all add: Some last_def bind_run_def)
  qed (simp add: last_def)
  have address: "bind_run (bnd_addr_len (head ! 3) rs2) (last out) \<noteq> Fault"
    if got: "received rs = [5, 0] @ head @ received rs2" and four: "length head = 4" "head ! 0 = 5" "head ! 1 = 0" for head rs2 out
  proof -
    obtain rsv atyp where h: "head = [5, 0, rsv, atyp]" using four by (auto simp: length_Suc_conv numeral_eq_Suc)
    show ?thesis
    proof (cases rule: bnd_addr_len_cases [of "head ! 3" rs2])
      case (2 len rs')
      have "n \<le> 254" if "len = Some n" for n
        using 2(2) [OF that] assms got h by (auto simp: names_255_def)
      then show ?thesis using 2(1) fits by (simp add: bind_run_def)
    qed (simp add: bind_run_def)
  qed
  define request where "request out1 ws1 rs1 = bind_run (Done (socks5_send_all ws1 (socks5_request host port))) (\<lambda>(rc, out2, ws2).
      if rc \<noteq> 0 then Done (Some (-1, out1 @ out2, rs1))
      else bind_run (socks5_recv_all 4 4 rs1) (\<lambda>(rc, reply_head, rs2).
        if rc \<noteq> 0 \<or> reply_head ! 0 \<noteq> 0x05 \<or> reply_head ! 1 \<noteq> 0x00 then Done (Some (-1 :: int, out1 @ out2, rs2))
        else bind_run (bnd_addr_len (reply_head ! 3) rs2) (last (out1 @ out2))))" for out1 ws1 rs1
  have asked: "request out1 ws1 rs1 \<noteq> Fault" if r: "received rs = [5, 0] @ received rs1" for out1 ws1 rs1
  proof (cases "socks5_send_all ws1 (socks5_request host port)")
    case (Some x)
    obtain rc out2 ws2 where x: "x = (rc, out2, ws2)" by (cases x)
    show ?thesis
    proof (cases rule: recv_all_cases [OF order_refl, of 4 rs1])
      case (2 rc2 head rs2)
      have "bind_run (bnd_addr_len (head ! 3) rs2) (last (out1 @ out2)) \<noteq> Fault" if "rc2 = 0" "head ! 0 = 5" "head ! 1 = 0"
        by (rule address) (use that r 2(2) in auto)
      then show ?thesis using Some x 2(1) by (auto simp: request_def bind_run_def)
    qed (use Some x in \<open>simp_all add: request_def bind_run_def\<close>)
  qed (simp add: request_def bind_run_def)
  have eq: "socks5_connect host port ws rs =
     (if strlen host = 0 \<or> 255 < strlen host then Done (Some (-1, [], rs))
      else bind_run (Done (socks5_send_all ws socks5_greeting)) (\<lambda>(rc, out1, ws1).
          if rc \<noteq> 0 then Done (Some (-1, out1, rs))
          else bind_run (socks5_recv_all 2 2 rs) (\<lambda>(rc, method_resp, rs1).
            if rc \<noteq> 0 \<or> method_resp ! 0 \<noteq> 0x05 \<or> method_resp ! 1 \<noteq> 0x00 then Done (Some (-1, out1, rs1)) else request out1 ws1 rs1)))"
    unfolding socks5_connect_def request_def last_def ..
  show ?thesis
  proof (cases "socks5_send_all ws socks5_greeting")
    case (Some x)
    obtain rc out1 ws1 where x: "x = (rc, out1, ws1)" by (cases x)
    show ?thesis
    proof (cases rule: recv_all_cases [OF order_refl, of 2 rs])
      case (2 rc2 resp rs1)
      have "request out1 ws1 rs1 \<noteq> Fault" if "rc2 = 0" "resp ! 0 = 5" "resp ! 1 = 0"
      proof (rule asked)
        have "resp = [5, 0]" using that 2(2) by (auto simp: length_Suc_conv numeral_eq_Suc)
        then show "received rs = [5, 0] @ received rs1" using that 2(2) by simp
      qed
      then show ?thesis unfolding eq using Some x 2(1) by (auto simp: bind_run_def)
    qed (use Some x in \<open>simp_all add: eq bind_run_def\<close>)
  qed (simp add: eq bind_run_def)
qed

lemma open_peer_connection_fits:
  assumes "\<not> names_255 (received (op_reads env))"
  shows "open_peer_connection env ip port proxy \<noteq> Fault"
proof -
  have "bind_run (socks5_connect ip port (op_writes env) (op_reads env)) (\<lambda>(rc, _, _). Done (Some (f rc))) \<noteq> Fault" for f :: "int \<Rightarrow> int option \<times> (bytes \<times> int) list \<times> int list"
    using socks5_connect_fits [OF assms, of ip port "op_writes env"]
    by (cases "socks5_connect ip port (op_writes env) (op_reads env)") (auto simp: bind_run_def split: option.splits)
  then show ?thesis by (auto simp: open_peer_connection_def split: option.splits prod.splits)
qed

text \<open>
  C13: A proxy can write over the end of the connector's buffer: the array for the bound address and port has 256 bytes, but an address that is
  a name has up to 255 bytes and the port 2 more. When the reply has a name of 255 bytes, the last byte is written outside the array.
\<close>

theorem socks5_long_name_faults:
  assumes "0 < strlen host" "strlen host \<le> 255" "list_all taking ws" "strlen host + 10 \<le> writes ws"
    and "list_all flowing rs" "received rs = [5, 0] @ [5, 0, rsv, 3] @ (255 # name) @ bnd_port @ peer" "length name = 255" "length bnd_port = 2"
  shows "socks5_connect host port ws rs = Fault"
proof -
  have b: "bound_address 3 (255 # name)" using assms(7) by (simp add: bound_address_def)
  obtain n rs1 nm where n: "list_all flowing rs1" "received rs1 = nm @ bnd_port @ peer" "length nm = n" "n = 255"
      "socks5_connect host port ws rs =
        bind_run (socks5_recv_all 256 (n + 2) rs1) (\<lambda>(rc, discard, rs4). Done (Some (if rc \<noteq> 0 then -1 else 0, socks5_greeting @ socks5_request host port, rs4)))"
    using handshake_until_address [OF assms(1-6) b, of port] assms(7) by auto
  have "socks5_recv_all 256 (n + 2) rs1 = Fault"
    unfolding socks5_recv_all_def by (rule recv_overflow) (use n assms(8) in simp_all)
  then show ?thesis using n(5) by (simp add: bind_run_def)
qed

theorem socks5_long_name_faults_witness:
  "socks5_connect (lit ''x.onion'') 8444 (replicate 30 (Wrote 1)) [Got [5, 0], Got ([5, 0, 0, 3, 255] @ replicate 257 0)] = Fault"
proof -
  have "replicate 257 (0::byte) = replicate 255 0 @ [0, 0]" using replicate_add [of 255 2 "0::byte"] by (simp add: numeral_2_eq_2)
  then show ?thesis
    by (intro socks5_long_name_faults [where name = "replicate 255 0" and bnd_port = "[0, 0]" and rsv = 0 and peer = "[]"])
      (simp_all add: strlen_def c_str_def writes_def filter_replicate list_all_iff)
qed

end
