(* ===== verification/Peer_Connector.thy ===== *)
theory Peer_Connector
  imports Socks Peer_Manager
begin

text \<open>
  The thread that opens connections (\<open>src/infra/peer_connector.c\<close>, from \<open>uniform_random\<close> on): the choice of a peer by
  lot, weighted with its rating, and the loop that opens connections until there are enough of them. The registry pointer is never
  null, as in \<open>src/main.c\<close>.

  What the system gives in each round of the loop is an argument; a list of rounds that ends before the loop does gives
  \<open>None\<close>. Here the connector runs alone; how its steps interleave with the other
  threads is in \<open>Event_Loop\<close>.

  The theory shows that the loop makes a bounded number of rounds in any stretch of time and ends when a round takes few seconds, that
  it registers no more connections than allowed and no second one to the same peer, that it leaves peers that failed alone for the time
  of their cooldown, and that the name of a peer does not pass by its proxy. It does not fault unless the reply of a proxy does in \<open>Socks\<close>.
\<close>

abbreviation MAX_CANDIDATES :: nat where "MAX_CANDIDATES \<equiv> 256"
abbreviation CHOOSE_CANDIDATE_MAX_ATTEMPTS :: nat where "CHOOSE_CANDIDATE_MAX_ATTEMPTS \<equiv> 50"
abbreviation BM_PEER_LOW_RATING_COOLDOWN_SECONDS :: int where "BM_PEER_LOW_RATING_COOLDOWN_SECONDS \<equiv> 1800"

section \<open>Choosing a peer\<close>

text \<open>The random number of four bytes; the division by \<open>2\<^sup>3\<^sup>2\<close> is exact.\<close>

definition uniform_random :: "u32 \<Rightarrow> rat" where
  "uniform_random r = of_nat (unat r) / 2 ^ 32"

text \<open>The double nearest to \<open>0.05\<close>, and the comparison of the quotient with a number.\<close>

definition CHOOSE_CANDIDATE_BASE_PROB :: rat where "CHOOSE_CANDIDATE_BASE_PROB = 3602879701896397 / 2 ^ 56"

definition candidate_prob :: "rat \<Rightarrow> double" where
  "candidate_prob rating =
     (case round_double (1 - rating) of
        Infinite neg \<Rightarrow> Finite 0
      | Finite d \<Rightarrow> if d = 0 then Infinite False else round_double (CHOOSE_CANDIDATE_BASE_PROB / d))"

fun exceeds :: "double \<Rightarrow> rat \<Rightarrow> bool" where
  "exceeds (Finite x) y = (y < x)"
| "exceeds (Infinite neg) y = (\<not> neg)"

text \<open>The numbers of one attempt: for the index, and for the decision, which is drawn only when it is needed.\<close>

fun choose_loop ::
  "(sockaddr \<Rightarrow> bytes) \<Rightarrow> conn_mem \<times> bm_peer_registry \<Rightarrow> bm_peer_entry list \<Rightarrow> int \<Rightarrow> (u32 \<times> u32) list \<Rightarrow> nat option outcome" where
  "choose_loop ntop s candidates now [] = Done None"
| "choose_loop ntop s candidates now ((r, u) # draws) =
     (let idx = unat r mod length candidates; c = candidates ! idx
      in bind_outcome (bm_peer_registry_has_peer ntop (bp_ip_address c) (bp_port c) s) (\<lambda>has_peer.
           if has_peer then choose_loop ntop s candidates now draws
           else if bp_rating c < 0 \<and> now - bp_last_attempt c < BM_PEER_LOW_RATING_COOLDOWN_SECONDS
           then choose_loop ntop s candidates now draws
           else if 1 \<le> bp_rating c then Done (Some idx)
           else if exceeds (candidate_prob (bp_rating c)) (uniform_random u) then Done (Some idx)
           else choose_loop ntop s candidates now draws))"

definition bm_peer_connector_choose_candidate_index ::
  "(sockaddr \<Rightarrow> bytes) \<Rightarrow> (nat \<Rightarrow> u32 \<times> u32) \<Rightarrow> bm_peer_entry list \<Rightarrow> conn_mem \<times> bm_peer_registry \<Rightarrow> nat \<Rightarrow> int \<Rightarrow> nat option outcome" where
  "bm_peer_connector_choose_candidate_index ntop draws candidates s max_attempts now =
     (if candidates = [] then Done None else choose_loop ntop s candidates now (map draws [0..<max_attempts]))"

section \<open>Opening a connection\<close>

text \<open>
  The thread's state; \<open>cn_contacts\<close> are the hosts and ports that the machine itself looked up and connected to, \<open>cn_tried\<close> the
  peers that were chosen, with the time and the rating at which each was.
\<close>

record 'u connector =
  cn_node :: "'u net_node"
  cn_peers :: peers_db
  cn_contacts :: "(bytes \<times> int) list"
  cn_closed :: "int list"
  cn_tried :: "(bm_peer_entry \<times> int) list"

record version_env =
  ve_time :: u64
  ve_random :: "u64 option"
  ve_alloc :: allocator
  ve_ctl :: bool
  ve_send :: "send_answer list"
  ve_now :: int

record round_env =
  ce_stop :: bool
  ce_now :: int
  ce_draws :: "nat \<Rightarrow> u32 \<times> u32"
  ce_attempt :: bool
  ce_open :: open_env
  ce_conn :: accept_env
  ce_version :: version_env
  ce_result :: "bool \<times> int"

text \<open>What follows when there is a descriptor: the structure, the event loop, the first message and the registry.\<close>

definition start_connection ::
  "protocol_globals \<Rightarrow> openssl \<Rightarrow> bytes \<Rightarrow> round_env \<Rightarrow> bm_peer_entry \<Rightarrow> 'u net_node \<Rightarrow> (bool \<times> 'u net_node) option outcome" where
  "start_connection g ssl user_agent e cand w =
     (let a = ce_conn e; v = ce_version e
      in case bm_fd_data_new (ae_mem a) BM_FD_CLIENT_SOCKET (ae_local a) (ae_peer a) (ae_time a) (ae_heap a) of
           None \<Rightarrow> Done (Some (False, w))
         | Some conn0 \<Rightarrow>
             (case bm_network_epoll_register (ae_ctl a)
                 (conn0\<lparr>logical_peer_ip := take (BM_PEER_IP_STRLEN - 1) (c_str (bp_ip_address cand)), logical_peer_port := bp_port cand\<rparr>) of
                (rc, conn1) \<Rightarrow>
                  if rc \<noteq> 0 then bind_outcome (bm_fd_data_free (send_queued_bytes conn1 + 1) conn1) (\<lambda>_. Done (Some (False, w)))
                  else bind_run (bm_post_version g ssl (ve_time v) (ve_random v) (ve_alloc v (heap (send_queue conn1))) (ve_ctl v) (ve_send v)
                      user_agent 3 (fd_peer_addr conn1) bm_unspecified_ipv4_address (ve_now v) (n_stats w, conn1)) (\<lambda>(rc, st, conn2).
                    if rc \<noteq> 0
                    then bind_outcome (bm_fd_data_free (send_queued_bytes conn2 + 1) conn2) (\<lambda>_. Done (Some (False, w\<lparr>n_stats := st\<rparr>)))
                    else bind_outcome (bm_peer_registry_add (ae_grow a) (ae_addr a (n_mem w))
                        ((n_mem w)(ae_addr a (n_mem w) \<mapsto> conn2), n_reg w)) (\<lambda>(m, reg).
                      Done (Some (True, w\<lparr>n_stats := st, n_mem := m, n_reg := reg\<rparr>))))))"

text \<open>The proxy for a host: the two configurations of the settings store.\<close>

type_synonym proxies = "bm_socks_proxy_config \<times> bm_socks_proxy_config"

definition proxy_for :: "proxies \<Rightarrow> bytes \<Rightarrow> bm_socks_proxy_config" where
  "proxy_for proxies ip = (if is_onion_host ip then fst proxies else snd proxies)"

text \<open>One candidate: whether there is a new connection. A failure is recorded in the database.\<close>

definition try_candidate ::
  "protocol_globals \<Rightarrow> openssl \<Rightarrow> bytes \<Rightarrow> proxies \<Rightarrow> round_env \<Rightarrow> bm_peer_entry \<Rightarrow> 'u connector \<Rightarrow> (bool \<times> 'u connector) option outcome" where
  "try_candidate g ssl user_agent proxies e cand s =
     (let ip = bp_ip_address cand; port = bp_port cand;
          failed = (\<lambda>s. s\<lparr>cn_peers := snd (bm_peer_manager_record_result (fst (ce_result e)) (snd (ce_result e)) ip port 1 False (cn_peers s))\<rparr>)
      in bind_run (open_peer_connection (ce_open e) ip port (Some (proxy_for proxies ip))) (\<lambda>(fd, contacts, closed).
           let s1 = s\<lparr>cn_contacts := cn_contacts s @ contacts, cn_closed := cn_closed s @ closed\<rparr>
           in case fd of
                None \<Rightarrow> Done (Some (False, failed s1))
              | Some sock \<Rightarrow>
                  bind_run (start_connection g ssl user_agent e cand (cn_node s1)) (\<lambda>(ok, w).
                    Done (Some (if ok then (True, s1\<lparr>cn_node := w\<rparr>)
                                else (False, failed (s1\<lparr>cn_node := w, cn_closed := cn_closed s1 @ [sock]\<rparr>)))))))"

definition rating_after_failure :: "rat \<Rightarrow> rat" where
  "rating_after_failure rating = max_minus_one (plus_double rating (- tenth))"

text \<open>The loop over the candidates, which it keeps up to date with the database.\<close>

fun candidate_loop ::
  "protocol_globals \<Rightarrow> openssl \<Rightarrow> (sockaddr \<Rightarrow> bytes) \<Rightarrow> bytes \<Rightarrow> proxies \<Rightarrow> round_env list \<Rightarrow> int \<Rightarrow> int \<Rightarrow> bm_peer_entry list
     \<Rightarrow> 'u connector \<Rightarrow> (int \<times> 'u connector) option outcome" where
  "candidate_loop g ssl ntop user_agent proxies es want n_connected candidates s =
     (if want \<le> n_connected then Done (Some (n_connected, s))
      else (case es of
              [] \<Rightarrow> Done None
            | e # es' \<Rightarrow>
                if ce_stop e then Done (Some (n_connected, s))
                else bind_outcome (bm_peer_connector_choose_candidate_index ntop (ce_draws e) candidates (n_mem (cn_node s), n_reg (cn_node s))
                    CHOOSE_CANDIDATE_MAX_ATTEMPTS (ce_now e)) (\<lambda>chosen.
                  case chosen of
                    None \<Rightarrow> Done (Some (n_connected, s))
                  | Some i \<Rightarrow>
                      let cand = (candidates ! i)\<lparr>bp_last_attempt := ce_now e\<rparr>;
                          s1 = s\<lparr>cn_peers := snd (bm_peer_manager_record_attempt (ce_attempt e) (bp_ip_address cand) (bp_port cand) 1
                                   (ce_now e) (cn_peers s)),
                                 cn_tried := cn_tried s @ [(candidates ! i, ce_now e)]\<rparr>
                      in bind_run (try_candidate g ssl user_agent proxies e cand s1) (\<lambda>(ok, s2).
                           if ok then candidate_loop g ssl ntop user_agent proxies es' want (n_connected + 1) (candidates[i := cand]) s2
                           else candidate_loop g ssl ntop user_agent proxies es' want n_connected
                             (candidates[i := cand\<lparr>bp_rating := rating_after_failure (bp_rating cand)\<rparr>]) s2))))"

declare candidate_loop.simps [simp del]

text \<open>
  The configuration of the thread, and what the system gives for one call: SQLite's answers for the cleanup and the bootstrap with
  their times, the file of observed nodes, and the answers for the settings and the list of candidates.
\<close>

record bm_peer_connector_config =
  cc_testnet :: bool
  cc_max_outbound :: int
  cc_user_agent :: bytes
  cc_config_db :: "config_db option"

record call_env =
  cl_cleanup :: "bool \<times> int"
  cl_seed :: "bool \<times> bool \<times> (nat \<Rightarrow> bool) \<times> (nat \<Rightarrow> bool)"
  cl_seed_time :: "int \<times> int"
  cl_nodes_file :: "bytes option"
  cl_config :: "bool \<times> bool"
  cl_list :: bool

text \<open>Without a settings store the structures stay zeroed; a store that cannot be read leaves the default, and its error is not looked at.\<close>

definition no_proxy :: bm_socks_proxy_config where "no_proxy = \<lparr>sp_enabled = 0, sp_host = [], sp_port = 0\<rparr>"

definition proxy_or_default :: "bm_socks_proxy_config option \<Rightarrow> bm_socks_proxy_config" where
  "proxy_or_default r = (case r of None \<Rightarrow> \<lparr>sp_enabled = 0, sp_host = lit ''127.0.0.1'', sp_port = 9050\<rparr> | Some p \<Rightarrow> p)"

definition read_proxies :: "bool \<times> bool \<Rightarrow> config_db option \<Rightarrow> proxies" where
  "read_proxies ok cdb =
     (case cdb of
        None \<Rightarrow> (no_proxy, no_proxy)
      | Some db \<Rightarrow> (proxy_or_default (bm_config_store_get_socks_proxy_onion (fst ok) db),
                    proxy_or_default (bm_config_store_get_socks_proxy_clearnet (snd ok) db)))"

definition bm_peer_connector_connect_initial ::
  "protocol_globals \<Rightarrow> openssl \<Rightarrow> (sockaddr \<Rightarrow> bytes) \<Rightarrow> bm_peer_connector_config \<Rightarrow> call_env \<Rightarrow> round_env list \<Rightarrow> 'u connector
     \<Rightarrow> (int \<times> 'u connector) option outcome" where
  "bm_peer_connector_connect_initial g ssl ntop config env es s =
     (let db1 = snd (bm_peer_manager_cleanup (fst (cl_cleanup env)) (snd (cl_cleanup env)) (cn_peers s));
          db2 = snd (bm_peer_manager_seed_bootstrap (cl_seed env) (cl_seed_time env) (cc_testnet config) (cl_nodes_file env) db1);
          s2 = s\<lparr>cn_peers := db2\<rparr>;
          proxies = read_proxies (cl_config env) (cc_config_db config)
      in bind_outcome (bm_peer_registry_count_by_type BM_FD_CLIENT_SOCKET (n_mem (cn_node s2), n_reg (cn_node s2))) (\<lambda>already_connected.
           if cc_max_outbound config \<le> int already_connected then Done (Some (0, s2))
           else (case bm_peer_manager_list_top (cl_list env) 1 MAX_CANDIDATES (cn_peers s2) of
                   None \<Rightarrow> Done (Some (-1, s2))
                 | Some candidates \<Rightarrow>
                     candidate_loop g ssl ntop (cc_user_agent config) proxies es (cc_max_outbound config - int already_connected) 0 candidates s2)))"

section \<open>The choice\<close>

text \<open>The names of the registered connections.\<close>

definition conn_name :: "(sockaddr \<Rightarrow> bytes) \<Rightarrow> bm_fd_data \<Rightarrow> bytes \<times> int" where
  "conn_name ntop d = (case bm_network_resolve_peer_ip_port ntop d of (ip, port) \<Rightarrow> (c_str ip, port))"

definition registered :: "'u net_node \<Rightarrow> bm_fd_data list" where
  "registered w = map (\<lambda>c. the (n_mem w c)) (reg_conns (n_reg w))"

definition peer_names :: "(sockaddr \<Rightarrow> bytes) \<Rightarrow> 'u net_node \<Rightarrow> (bytes \<times> int) list" where
  "peer_names ntop w = map (conn_name ntop) (registered w)"

lemma has_peer_loop_Done:
  "set cs \<subseteq> dom m \<Longrightarrow> has_peer_loop ntop m ip port cs = Done ((c_str ip, port) \<in> (\<lambda>c. conn_name ntop (the (m c))) ` set cs)"
proof (induction cs)
  case (Cons c cs)
  then obtain d where "m c = Some d" by auto
  then show ?case using Cons by (auto simp: conn_name_def split: prod.splits)
qed simp

lemma registered_exist: "node_ok w \<Longrightarrow> set (reg_conns (n_reg w)) \<subseteq> dom (n_mem w)"
  by (simp add: node_ok_def registry_inv_def reg_members_def)

lemma registry_has_peer:
  assumes "node_ok w"
  shows "bm_peer_registry_has_peer ntop ip port (n_mem w, n_reg w) = Done ((c_str ip, port) \<in> set (peer_names ntop w))"
  using has_peer_loop_Done [OF registered_exist [OF assms], of ntop ip port] by (simp add: bm_peer_registry_has_peer_def peer_names_def registered_def image_image)

text \<open>What may be chosen.\<close>

definition eligible :: "(sockaddr \<Rightarrow> bytes) \<Rightarrow> 'u net_node \<Rightarrow> int \<Rightarrow> bm_peer_entry \<Rightarrow> bool" where
  "eligible ntop w now c \<longleftrightarrow> (c_str (bp_ip_address c), bp_port c) \<notin> set (peer_names ntop w) \<and>
     (0 \<le> bp_rating c \<or> BM_PEER_LOW_RATING_COOLDOWN_SECONDS \<le> now - bp_last_attempt c)"

lemma choose_loop_eligible:
  assumes "node_ok w" "candidates \<noteq> []"
  shows "\<exists>r. choose_loop ntop (n_mem w, n_reg w) candidates now draws = Done r \<and>
    (\<forall>i. r = Some i \<longrightarrow> i < length candidates \<and> eligible ntop w now (candidates ! i))"
proof (induction draws)
  case (Cons d draws)
  obtain r u where d: "d = (r, u)" by (cases d)
  obtain x where x: "choose_loop ntop (n_mem w, n_reg w) candidates now draws = Done x"
    "\<forall>i. x = Some i \<longrightarrow> i < length candidates \<and> eligible ntop w now (candidates ! i)" using Cons by blast
  have "unat r mod length candidates < length candidates" using assms(2) by simp
  then show ?case unfolding d using x registry_has_peer [OF assms(1), of ntop] by (auto simp: Let_def eligible_def)
qed simp

lemma choose_eligible:
  assumes "node_ok w"
  shows "\<exists>r. bm_peer_connector_choose_candidate_index ntop draws candidates (n_mem w, n_reg w) n now = Done r \<and>
    (\<forall>i. r = Some i \<longrightarrow> i < length candidates \<and> eligible ntop w now (candidates ! i))"
  using choose_loop_eligible [OF assms] by (simp add: bm_peer_connector_choose_candidate_index_def)

section \<open>A new connection\<close>

text \<open>The allocator gives memory that is not in use, \<open>epoll_ctl\<close> works, and no reply of a proxy is longer than its buffer.\<close>

definition round_ok :: "round_env \<Rightarrow> bool" where
  "round_ok e \<longleftrightarrow> (\<forall>m. finite (dom m) \<longrightarrow> m (ae_addr (ce_conn e) m) = None) \<and> alloc_ok (ve_alloc (ce_version e)) \<and> ve_ctl (ce_version e) \<and>
     (\<forall>ip port proxy. open_peer_connection (ce_open e) ip port proxy \<noteq> Fault)"

text \<open>The same with a condition on what the proxy sends: no name of 255 bytes.\<close>

definition round_safe :: "round_env \<Rightarrow> bool" where
  "round_safe e \<longleftrightarrow> (\<forall>m. finite (dom m) \<longrightarrow> m (ae_addr (ce_conn e) m) = None) \<and> alloc_ok (ve_alloc (ce_version e)) \<and> ve_ctl (ce_version e) \<and>
     \<not> names_255 (received (op_reads (ce_open e)))"

lemma round_safe_ok: "round_safe e \<Longrightarrow> round_ok e"
  by (simp add: round_safe_def round_ok_def open_peer_connection_fits)

text \<open>\<open>grow\<close>: the registry has memory for the connection.\<close>

definition started :: "bool \<Rightarrow> bm_peer_entry \<Rightarrow> 'u net_node \<Rightarrow> 'u net_node \<Rightarrow> bool" where
  "started grow cand w w' \<longleftrightarrow> (\<exists>a d. n_mem w a = None \<and> n_mem w' = (n_mem w)(a \<mapsto> d) \<and> fd_type d = BM_FD_CLIENT_SOCKET \<and>
     logical_peer_ip d = take 63 (c_str (bp_ip_address cand)) \<and> logical_peer_port d = bp_port cand \<and>
     reg_conns (n_reg w') \<in> {reg_conns (n_reg w), reg_conns (n_reg w) @ [a]} \<and> (grow \<longrightarrow> reg_conns (n_reg w') = reg_conns (n_reg w) @ [a]))"

definition next_gen :: "'u net_node \<Rightarrow> 'u net_node \<Rightarrow> bool" where
  "next_gen w w' \<longleftrightarrow> next_generation (n_reg w') = next_generation (n_reg w) \<or> next_generation (n_reg w') = next_generation (n_reg w) + 1"

lemma register_started:
  assumes "node_ok w" "n_mem w a = None" "conn_ok d" "room_for 1 (n_reg w)" "fd_type d = BM_FD_CLIENT_SOCKET"
    "logical_peer_ip d = take 63 (c_str (bp_ip_address cand))" "logical_peer_port d = bp_port cand"
  shows "\<exists>m reg. bm_peer_registry_add grow a ((n_mem w)(a \<mapsto> d), n_reg w) = Done (m, reg) \<and>
    node_ok (w\<lparr>n_mem := m, n_reg := reg\<rparr>) \<and> started grow cand w (w\<lparr>n_mem := m, n_reg := reg\<rparr>) \<and> next_gen w (w\<lparr>n_mem := m, n_reg := reg\<rparr>)"
proof -
  obtain m reg where add: "bm_peer_registry_add grow a ((n_mem w)(a \<mapsto> d), n_reg w) = Done (m, reg)"
    by (cases "reg_capacity (n_reg w) \<le> length (reg_conns (n_reg w)) \<and> \<not> grow") (auto simp: bm_peer_registry_add_def Let_def)
  then have "\<exists>d'. m = (n_mem w)(a \<mapsto> d') \<and> fd_type d' = fd_type d \<and> logical_peer_ip d' = logical_peer_ip d \<and>
      logical_peer_port d' = logical_peer_port d" "reg_conns reg \<in> {reg_conns (n_reg w), reg_conns (n_reg w) @ [a]}"
    "grow \<longrightarrow> reg_conns reg = reg_conns (n_reg w) @ [a]" "next_generation reg = next_generation (n_reg w) \<or> next_generation reg = next_generation (n_reg w) + 1"
    by (auto simp: bm_peer_registry_add_def Let_def split: if_splits)
  then show ?thesis using add assms connect_keeps [OF assms(1-4) add] by (auto simp: started_def next_gen_def)
qed

lemma start_connection_ok:
  assumes "node_ok w" "round_ok e" "room_for 1 (n_reg w)"
  shows "\<exists>r. start_connection g ssl user_agent e cand w = Done r \<and>
    (\<forall>ok w'. r = Some (ok, w') \<longrightarrow> node_ok w' \<and> next_gen w w' \<and>
      (if ok then started (ae_grow (ce_conn e)) cand w w' else n_mem w' = n_mem w \<and> n_reg w' = n_reg w))"
proof -
  let ?a = "ce_conn e" and ?v = "ce_version e"
  have stats: "node_ok (w\<lparr>n_stats := st\<rparr>)" for st using assms(1) by (simp add: node_ok_def)
  have same: "next_gen w w" "next_gen w (w\<lparr>n_stats := st\<rparr>)" for st by (simp_all add: next_gen_def)
  show ?thesis
  proof (cases "bm_fd_data_new (ae_mem ?a) BM_FD_CLIENT_SOCKET (ae_local ?a) (ae_peer ?a) (ae_time ?a) (ae_heap ?a)")
    case None
    then show ?thesis using assms(1) same by (simp add: start_connection_def)
  next
    case (Some conn0)
    let ?conn = "conn0\<lparr>logical_peer_ip := take 63 (c_str (bp_ip_address cand)), logical_peer_port := bp_port cand\<rparr>"
    obtain rc conn1 where reg: "bm_network_epoll_register (ae_ctl ?a) ?conn = (rc, conn1)" by force
    have "conn1 = (snd (bm_network_epoll_register (ae_ctl ?a) conn0))\<lparr>logical_peer_ip := take 63 (c_str (bp_ip_address cand)), logical_peer_port := bp_port cand\<rparr>"
      using reg by (cases "ae_ctl ?a") (auto simp: bm_network_epoll_register_def)
    then have ok1: "conn_ok conn1" using conn_ok_new(2) [OF Some, of "ae_ctl ?a"] by simp
    have name1: "fd_type conn1 = BM_FD_CLIENT_SOCKET" "logical_peer_ip conn1 = take 63 (c_str (bp_ip_address cand))"
        "logical_peer_port conn1 = bp_port cand"
      using Some reg by (auto simp: bm_network_epoll_register_def bm_fd_data_new_def split: if_splits option.splits)
    obtain h where h: "bm_fd_data_free (send_queued_bytes conn1 + 1) conn1 = Done h" using conn_ok_holds [OF ok1] free_fault_free by blast
    show ?thesis
    proof (cases "rc = 0")
      case False
      then show ?thesis using assms(1) same Some reg h by (simp add: start_connection_def)
    next
      case True
      let ?send = "bm_post_version g ssl (ve_time ?v) (ve_random ?v) (ve_alloc ?v (heap (send_queue conn1))) (ve_ctl ?v) (ve_send ?v)
                      user_agent 3 (fd_peer_addr conn1) bm_unspecified_ipv4_address (ve_now ?v) (n_stats w, conn1)"
      obtain r where r: "?send = Done r" "\<forall>rc st' conn'. r = Some (rc, st', conn') \<longrightarrow> conn_ok conn' \<and> same_rest conn1 conn'"
        using conn_ok_send [OF ok1] assms(2) unfolding bm_post_version_def round_ok_def by metis
      show ?thesis
      proof (cases r)
        case None
        then show ?thesis using Some reg True r(1) by (simp add: start_connection_def)
      next
        case sent: (Some x)
        obtain rc2 st conn2 where x: "x = (rc2, st, conn2)" by (cases x)
        have ok2: "conn_ok conn2" "same_rest conn1 conn2" using r(2) sent x by blast+
        have eq: "start_connection g ssl user_agent e cand w =
          (if rc2 \<noteq> 0 then bind_outcome (bm_fd_data_free (send_queued_bytes conn2 + 1) conn2) (\<lambda>_. Done (Some (False, w\<lparr>n_stats := st\<rparr>)))
           else bind_outcome (bm_peer_registry_add (ae_grow ?a) (ae_addr ?a (n_mem w))
                        ((n_mem w)(ae_addr ?a (n_mem w) \<mapsto> conn2), n_reg w)) (\<lambda>(m, reg).
                      Done (Some (True, w\<lparr>n_stats := st, n_mem := m, n_reg := reg\<rparr>))))"
          using Some reg True r(1) sent x by (simp add: start_connection_def Let_def)
        obtain h2 where h2: "bm_fd_data_free (send_queued_bytes conn2 + 1) conn2 = Done h2" using conn_ok_holds [OF ok2(1)] free_fault_free by blast
        have new: "n_mem w (ae_addr ?a (n_mem w)) = None" using assms(1,2) by (simp add: round_ok_def node_ok_def)
        obtain m reg' where add: "bm_peer_registry_add (ae_grow ?a) (ae_addr ?a (n_mem w)) ((n_mem w)(ae_addr ?a (n_mem w) \<mapsto> conn2), n_reg w) = Done (m, reg')"
            "node_ok (w\<lparr>n_mem := m, n_reg := reg'\<rparr>)" "started (ae_grow (ce_conn e)) cand w (w\<lparr>n_mem := m, n_reg := reg'\<rparr>)" "next_gen w (w\<lparr>n_mem := m, n_reg := reg'\<rparr>)"
          using register_started [OF assms(1) new ok2(1) assms(3), of cand "ae_grow ?a"] name1 ok2(2) by (auto simp: same_rest_def)
        then show ?thesis unfolding eq using h2 stats same by (auto simp: started_def next_gen_def node_ok_def)
      qed
    qed
  qed
qed

section \<open>What a run does\<close>

definition outbound :: "'u net_node \<Rightarrow> nat" where
  "outbound w = length (filter (\<lambda>d. fd_type d = BM_FD_CLIENT_SOCKET) (registered w))"

lemma deref_all_map: "set cs \<subseteq> dom m \<Longrightarrow> deref_all m cs = Done (map (\<lambda>c. the (m c)) cs)"
  by (induction cs) auto

lemma count_outbound:
  assumes "node_ok w"
  shows "bm_peer_registry_count_by_type BM_FD_CLIENT_SOCKET (n_mem w, n_reg w) = Done (outbound w)"
  using deref_all_map [OF registered_exist [OF assms]] by (simp add: bm_peer_registry_count_by_type_def outbound_def registered_def)

text \<open>The new connection is at most the one more that is registered; the others are as they were.\<close>

lemma started_registered:
  assumes "node_ok w" "started grow cand w w'"
  shows "\<exists>d. fd_type d = BM_FD_CLIENT_SOCKET \<and> logical_peer_ip d = take 63 (c_str (bp_ip_address cand)) \<and> logical_peer_port d = bp_port cand \<and>
    registered w' \<in> {registered w, registered w @ [d]} \<and> (grow \<longrightarrow> registered w' = registered w @ [d])"
proof -
  obtain a d where d: "n_mem w a = None" "n_mem w' = (n_mem w)(a \<mapsto> d)" "fd_type d = BM_FD_CLIENT_SOCKET"
      "logical_peer_ip d = take 63 (c_str (bp_ip_address cand))" "logical_peer_port d = bp_port cand"
      "reg_conns (n_reg w') \<in> {reg_conns (n_reg w), reg_conns (n_reg w) @ [a]}" "grow \<longrightarrow> reg_conns (n_reg w') = reg_conns (n_reg w) @ [a]"
    using assms(2) unfolding started_def by blast
  have "a \<notin> set (reg_conns (n_reg w))" using registered_exist [OF assms(1)] d(1) by auto
  then have "map (\<lambda>c. the (n_mem w' c)) (reg_conns (n_reg w)) = registered w" using d(2) by (auto simp: registered_def)
  then show ?thesis using d by (intro exI [of _ d]) (auto simp: registered_def)
qed

lemma started_outbound: "node_ok w \<Longrightarrow> started grow cand w w' \<Longrightarrow> outbound w' \<le> Suc (outbound w) \<and> (grow \<longrightarrow> outbound w' = Suc (outbound w))"
  using started_registered [of w grow cand w'] unfolding outbound_def by auto

definition named :: "bm_peer_entry \<Rightarrow> bool" where
  "named c \<longleftrightarrow> 0 < strlen (bp_ip_address c) \<and> strlen (bp_ip_address c) \<le> 63"

lemma started_names:
  assumes "node_ok w" "started grow cand w w'" "named cand" "(c_str (bp_ip_address cand), bp_port cand) \<notin> set (peer_names ntop w)"
    "distinct (peer_names ntop w)"
  shows "distinct (peer_names ntop w')"
proof -
  obtain d where d: "logical_peer_ip d = take 63 (c_str (bp_ip_address cand))" "logical_peer_port d = bp_port cand"
      "registered w' \<in> {registered w, registered w @ [d]}"
    using started_registered [OF assms(1,2)] by blast
  have "take 63 (c_str (bp_ip_address cand)) = c_str (bp_ip_address cand)" "c_str (bp_ip_address cand) \<noteq> []"
    using assms(3) by (simp_all add: named_def strlen_def)
  then have "conn_name ntop d = (c_str (bp_ip_address cand), bp_port cand)" using d(1,2) by (simp add: conn_name_def bm_network_resolve_peer_ip_port_def)
  then show ?thesis using d(3) assms(4,5) by (auto simp: peer_names_def)
qed

text \<open>Which host the machine contacts for a peer.\<close>

definition contact :: "proxies \<Rightarrow> bm_peer_entry \<Rightarrow> bytes \<times> int" where
  "contact proxies c =
     (let p = proxy_for proxies (bp_ip_address c) in if sp_enabled p \<noteq> 0 then (c_str (sp_host p), sp_port p) else (c_str (bp_ip_address c), bp_port c))"

lemma open_contacts:
  "open_peer_connection env (bp_ip_address c) (bp_port c) (Some (proxy_for proxies (bp_ip_address c))) = Done (Some (fd, contacts, fds)) \<Longrightarrow>
     contacts = [contact proxies c]"
  by (auto simp: open_peer_connection_def contact_def bind_run_def Let_def split: if_splits prod.splits option.splits)

text \<open>
  A run: the peers it tries are among \<open>keys\<close> and not in their cooldown, the machine contacts exactly one host for each of them, at most
  \<open>k\<close> connections are new, and none of them is a second one to the same peer.
\<close>

definition peer_key :: "bm_peer_entry \<Rightarrow> bytes \<times> int" where "peer_key c = (bp_ip_address c, bp_port c)"

definition rested :: "bm_peer_entry \<Rightarrow> int \<Rightarrow> bool" where
  "rested c t \<longleftrightarrow> 0 \<le> bp_rating c \<or> BM_PEER_LOW_RATING_COOLDOWN_SECONDS \<le> t - bp_last_attempt c"

definition connector_run ::
  "bool \<Rightarrow> (sockaddr \<Rightarrow> bytes) \<Rightarrow> proxies \<Rightarrow> (bytes \<times> int) set \<Rightarrow> 'u connector \<Rightarrow> nat \<Rightarrow> 'u connector \<Rightarrow> bool" where
  "connector_run grow ntop proxies keys s k s' \<longleftrightarrow>
     node_ok (cn_node s') \<and> outbound (cn_node s') \<le> outbound (cn_node s) + k \<and> (grow \<longrightarrow> outbound (cn_node s') = outbound (cn_node s) + k) \<and> peer_step\<^sup>*\<^sup>* (cn_peers s) (cn_peers s') \<and>
     (\<exists>tried. cn_tried s' = cn_tried s @ tried \<and> cn_contacts s' = cn_contacts s @ map (\<lambda>(c, t). contact proxies c) tried \<and>
       (\<forall>(c, t) \<in> set tried. peer_key c \<in> keys \<and> rested c t) \<and>
       ((\<forall>(c, t) \<in> set tried. named c) \<and> distinct (peer_names ntop (cn_node s)) \<longrightarrow> distinct (peer_names ntop (cn_node s'))))"

lemma connector_run_refl: "node_ok (cn_node s) \<Longrightarrow> connector_run grow ntop proxies keys s 0 s"
  by (simp add: connector_run_def)

lemma connector_run_trans:
  assumes "connector_run grow ntop proxies keys s j s1" "connector_run grow ntop proxies keys s1 k s2"
  shows "connector_run grow ntop proxies keys s (j + k) s2"
proof -
  obtain t1 where t1: "cn_tried s1 = cn_tried s @ t1" "cn_contacts s1 = cn_contacts s @ map (\<lambda>(c, t). contact proxies c) t1"
      "\<forall>(c, t) \<in> set t1. peer_key c \<in> keys \<and> rested c t"
      "(\<forall>(c, t) \<in> set t1. named c) \<and> distinct (peer_names ntop (cn_node s)) \<longrightarrow> distinct (peer_names ntop (cn_node s1))"
    using assms(1) unfolding connector_run_def by blast
  obtain t2 where t2: "cn_tried s2 = cn_tried s1 @ t2" "cn_contacts s2 = cn_contacts s1 @ map (\<lambda>(c, t). contact proxies c) t2"
      "\<forall>(c, t) \<in> set t2. peer_key c \<in> keys \<and> rested c t"
      "(\<forall>(c, t) \<in> set t2. named c) \<and> distinct (peer_names ntop (cn_node s1)) \<longrightarrow> distinct (peer_names ntop (cn_node s2))"
    using assms(2) unfolding connector_run_def by blast
  have "node_ok (cn_node s2)" "outbound (cn_node s2) \<le> outbound (cn_node s) + (j + k)" using assms unfolding connector_run_def by linarith+
  moreover have "grow \<longrightarrow> outbound (cn_node s2) = outbound (cn_node s) + (j + k)" using assms unfolding connector_run_def by (metis add.assoc)
  moreover have "peer_step\<^sup>*\<^sup>* (cn_peers s) (cn_peers s1)" "peer_step\<^sup>*\<^sup>* (cn_peers s1) (cn_peers s2)"
    using assms unfolding connector_run_def by blast+
  then have "peer_step\<^sup>*\<^sup>* (cn_peers s) (cn_peers s2)" by (rule rtranclp_trans)
  ultimately show ?thesis unfolding connector_run_def using t1 t2 by (intro conjI exI [of _ "t1 @ t2"]) auto
qed

lemma contact_attempt [simp]: "contact proxies (c\<lparr>bp_last_attempt := t\<rparr>) = contact proxies c"
  by (simp add: contact_def Let_def)

lemma started_attempt [simp]: "started grow (c\<lparr>bp_last_attempt := t\<rparr>) w w' = started grow c w w'"
  by (simp add: started_def)

lemma try_candidate_ok:
  assumes "node_ok (cn_node s)" "round_ok e" "room_for 1 (n_reg (cn_node s))"
  shows "\<exists>r. try_candidate g ssl user_agent proxies e cand s = Done r \<and>
    (\<forall>ok s'. r = Some (ok, s') \<longrightarrow> node_ok (cn_node s') \<and> next_gen (cn_node s) (cn_node s') \<and>
      (if ok then started (ae_grow (ce_conn e)) cand (cn_node s) (cn_node s') else n_mem (cn_node s') = n_mem (cn_node s) \<and> n_reg (cn_node s') = n_reg (cn_node s)) \<and>
      cn_tried s' = cn_tried s \<and> cn_contacts s' = cn_contacts s @ [contact proxies cand] \<and> peer_step\<^sup>*\<^sup>* (cn_peers s) (cn_peers s'))"
proof -
  let ?open = "open_peer_connection (ce_open e) (bp_ip_address cand) (bp_port cand) (Some (proxy_for proxies (bp_ip_address cand)))"
  have "?open \<noteq> Fault" using assms(2) unfolding round_ok_def by blast
  then obtain r where r: "?open = Done r" by (cases ?open) auto
  have same: "next_gen w w" for w :: "'a net_node" by (simp add: next_gen_def)
  have failed: "peer_step\<^sup>*\<^sup>* db (snd (bm_peer_manager_record_result ok now ip port 1 False db))" for ok now ip port db
    by (rule r_into_rtranclp) (rule peer_step.result)
  obtain q where q: "start_connection g ssl user_agent e cand (cn_node s) = Done q"
      "\<forall>ok w'. q = Some (ok, w') \<longrightarrow> node_ok w' \<and> next_gen (cn_node s) w' \<and>
        (if ok then started (ae_grow (ce_conn e)) cand (cn_node s) w' else n_mem w' = n_mem (cn_node s) \<and> n_reg w' = n_reg (cn_node s))"
    using start_connection_ok [OF assms, of g ssl user_agent cand] by blast
  show ?thesis
  proof (cases r)
    case None
    then show ?thesis using r by (simp add: try_candidate_def Let_def)
  next
    case (Some x)
    obtain fd contacts fds where x: "x = (fd, contacts, fds)" by (cases x)
    have c: "contacts = [contact proxies cand]" using open_contacts [of "ce_open e" cand proxies fd contacts fds] r Some x by simp
    show ?thesis
    proof (cases fd)
      case None
      then show ?thesis using r Some x c assms(1) same failed by (simp add: try_candidate_def Let_def)
    next
      case fd: (Some sock)
      show ?thesis
      proof (cases q)
        case None
        then show ?thesis using r Some x fd q(1) by (simp add: try_candidate_def Let_def)
      next
        case started: (Some y)
        obtain ok w' where y: "y = (ok, w')" by (cases y)
        then show ?thesis using r Some x c fd q started failed by (simp add: try_candidate_def Let_def)
      qed
    qed
  qed
qed

text \<open>One round of the loop.\<close>

lemma round_run:
  assumes "node_ok (cn_node s)" "eligible ntop (cn_node s) now c" "peer_key c \<in> keys"
    and "node_ok (cn_node s')" "cn_tried s' = cn_tried s @ [(c, now)]" "cn_contacts s' = cn_contacts s @ [contact proxies c]" "peer_step\<^sup>*\<^sup>* (cn_peers s) (cn_peers s')"
    and "if ok then started with_room c (cn_node s) (cn_node s') else n_mem (cn_node s') = n_mem (cn_node s) \<and> n_reg (cn_node s') = n_reg (cn_node s)"
    and "grow \<longrightarrow> with_room"
  shows "connector_run grow ntop proxies keys s (if ok then 1 else 0) s'"
proof (cases ok)
  case True
  then show ?thesis
    using assms started_outbound [OF assms(1), of with_room c] started_names [OF assms(1), of with_room c]
    by (auto simp: connector_run_def eligible_def rested_def)
next
  case False
  then have "registered (cn_node s') = registered (cn_node s)" using assms(8) by (simp add: registered_def)
  then show ?thesis using False assms by (auto simp: connector_run_def eligible_def rested_def outbound_def peer_names_def)
qed

definition after_attempt :: "nat \<Rightarrow> int \<Rightarrow> bool \<Rightarrow> bm_peer_entry list \<Rightarrow> bm_peer_entry list" where
  "after_attempt i now ok candidates =
     (let c = (candidates ! i)\<lparr>bp_last_attempt := now\<rparr>
      in candidates[i := if ok then c else c\<lparr>bp_rating := rating_after_failure (bp_rating c)\<rparr>])"

lemma after_attempt_keys: "i < length candidates \<Longrightarrow> peer_key ` set (after_attempt i now ok candidates) = peer_key ` set candidates"
proof -
  assume i: "i < length candidates"
  have "map peer_key (after_attempt i now ok candidates) = (map peer_key candidates)[i := peer_key (candidates ! i)]"
    unfolding after_attempt_def Let_def map_update by (rule arg_cong [where f = "list_update _ _"]) (simp add: peer_key_def)
  then have "map peer_key (after_attempt i now ok candidates) = map peer_key candidates" by (simp add: map_update [symmetric])
  then show ?thesis by (metis list.set_map)
qed

lemma candidate_loop_round:
  assumes "node_ok (cn_node s)" "round_ok e" "room_for (Suc k) (n_reg (cn_node s))" "n < want" "\<not> ce_stop e"
    and "peer_key ` set candidates \<subseteq> keys" "grow \<longrightarrow> ae_grow (ce_conn e)"
  shows "candidate_loop g ssl ntop user_agent proxies (e # es) want n candidates s = Done (Some (n, s)) \<or>
    (\<exists>i s1 r. i < length candidates \<and> eligible ntop (cn_node s) (ce_now e) (candidates ! i) \<and>
      try_candidate g ssl user_agent proxies e ((candidates ! i)\<lparr>bp_last_attempt := ce_now e\<rparr>) s1 = Done r \<and>
      candidate_loop g ssl ntop user_agent proxies (e # es) want n candidates s =
        (case r of
           None \<Rightarrow> Done None
         | Some (ok, s2) \<Rightarrow> candidate_loop g ssl ntop user_agent proxies es want (if ok then n + 1 else n) (after_attempt i (ce_now e) ok candidates) s2) \<and>
      (\<forall>ok s2. r = Some (ok, s2) \<longrightarrow> connector_run grow ntop proxies keys s (if ok then 1 else 0) s2 \<and> room_for k (n_reg (cn_node s2))))"
proof -
  let ?choice = "bm_peer_connector_choose_candidate_index ntop (ce_draws e) candidates (n_mem (cn_node s), n_reg (cn_node s))
                    CHOOSE_CANDIDATE_MAX_ATTEMPTS (ce_now e)"
  obtain chosen where ch: "?choice = Done chosen" "\<forall>i. chosen = Some i \<longrightarrow> i < length candidates \<and> eligible ntop (cn_node s) (ce_now e) (candidates ! i)"
    using choose_eligible [OF assms(1)] by blast
  show ?thesis
  proof (cases chosen)
    case None
    then show ?thesis using ch(1) assms(4,5) by (subst (1) candidate_loop.simps) simp
  next
    case (Some i)
    let ?c = "candidates ! i"
    let ?s1 = "s\<lparr>cn_peers := snd (bm_peer_manager_record_attempt (ce_attempt e) (bp_ip_address ?c) (bp_port ?c) 1 (ce_now e) (cn_peers s)),
                 cn_tried := cn_tried s @ [(?c, ce_now e)]\<rparr>"
    have i: "i < length candidates" "eligible ntop (cn_node s) (ce_now e) ?c" using ch(2) Some by blast+
    then have key: "peer_key ?c \<in> keys" using assms(6) by auto
    have s1: "node_ok (cn_node ?s1)" "room_for 1 (n_reg (cn_node ?s1))" using assms(1,3) by (simp_all add: room_for_def)
    obtain r where r: "try_candidate g ssl user_agent proxies e (?c\<lparr>bp_last_attempt := ce_now e\<rparr>) ?s1 = Done r"
        "\<forall>ok s'. r = Some (ok, s') \<longrightarrow> node_ok (cn_node s') \<and> next_gen (cn_node ?s1) (cn_node s') \<and>
          (if ok then started (ae_grow (ce_conn e)) (?c\<lparr>bp_last_attempt := ce_now e\<rparr>) (cn_node ?s1) (cn_node s')
           else n_mem (cn_node s') = n_mem (cn_node ?s1) \<and> n_reg (cn_node s') = n_reg (cn_node ?s1)) \<and>
          cn_tried s' = cn_tried ?s1 \<and> cn_contacts s' = cn_contacts ?s1 @ [contact proxies (?c\<lparr>bp_last_attempt := ce_now e\<rparr>)] \<and>
          peer_step\<^sup>*\<^sup>* (cn_peers ?s1) (cn_peers s')"
      using try_candidate_ok [OF s1(1) assms(2) s1(2), of g ssl user_agent proxies "?c\<lparr>bp_last_attempt := ce_now e\<rparr>"] by blast
    have run: "connector_run grow ntop proxies keys s (if ok then 1 else 0) s2 \<and> room_for k (n_reg (cn_node s2))" if "r = Some (ok, s2)" for ok s2
    proof -
      note made = r(2) [THEN spec, THEN spec, THEN mp, OF that]
      have "peer_step (cn_peers s) (cn_peers ?s1)" by (simp add: peer_step.attempt)
      then have "peer_step\<^sup>*\<^sup>* (cn_peers s) (cn_peers s2)" using made by (meson converse_rtranclp_into_rtranclp)
      then have "connector_run grow ntop proxies keys s (if ok then 1 else 0) s2"
        using made assms(7) by (intro round_run [OF assms(1) i(2) key, where with_room = "ae_grow (ce_conn e)"]) (simp_all split: if_splits)
      moreover have "next_gen (cn_node s) (cn_node s2)" using made by simp
      ultimately show ?thesis using room_for_step(2) [OF assms(3)] by (simp add: next_gen_def)
    qed
    have "candidate_loop g ssl ntop user_agent proxies (e # es) want n candidates s =
        (case r of
           None \<Rightarrow> Done None
         | Some (ok, s2) \<Rightarrow> candidate_loop g ssl ntop user_agent proxies es want (if ok then n + 1 else n) (after_attempt i (ce_now e) ok candidates) s2)"
      unfolding candidate_loop.simps [of g ssl ntop user_agent proxies "e # es"] using assms(4,5) r(1)
      by (cases r) (simp_all add: ch(1) Some after_attempt_def Let_def split: prod.splits)
    then show ?thesis using i r(1) run by blast
  qed
qed

lemma candidate_loop_run:
  assumes "node_ok (cn_node s)" "\<forall>e\<in>set es. round_ok e" "room_for (length es) (n_reg (cn_node s))" "peer_key ` set candidates \<subseteq> keys"
    "grow \<longrightarrow> (\<forall>e\<in>set es. ae_grow (ce_conn e))"
  shows "\<exists>r. candidate_loop g ssl ntop user_agent proxies es want n candidates s = Done r \<and>
    (\<forall>n' s'. r = Some (n', s') \<longrightarrow> n \<le> n' \<and> (n' \<le> want \<or> n' = n) \<and> connector_run grow ntop proxies keys s (nat (n' - n)) s')"
  using assms
proof (induction es arbitrary: s n candidates)
  case Nil
  then show ?case by (simp add: candidate_loop.simps connector_run_refl)
next
  case (Cons e es)
  show ?case
  proof (cases "want \<le> n \<or> ce_stop e")
    case True
    then show ?thesis using Cons.prems(1) by (subst candidate_loop.simps) (auto simp: connector_run_refl)
  next
    case False
    then have round: "n < want" "\<not> ce_stop e" by simp_all
    have e: "round_ok e" "room_for (Suc (length es)) (n_reg (cn_node s))" using Cons.prems(2,3) by simp_all
    consider (stop) "candidate_loop g ssl ntop user_agent proxies (e # es) want n candidates s = Done (Some (n, s))"
      | (tried) i r where "i < length candidates"
          "candidate_loop g ssl ntop user_agent proxies (e # es) want n candidates s = (case r of None \<Rightarrow> Done None
             | Some (ok, s2) \<Rightarrow> candidate_loop g ssl ntop user_agent proxies es want (if ok then n + 1 else n) (after_attempt i (ce_now e) ok candidates) s2)"
          "\<forall>ok s2. r = Some (ok, s2) \<longrightarrow> connector_run grow ntop proxies keys s (if ok then 1 else 0) s2 \<and> room_for (length es) (n_reg (cn_node s2))"
      using candidate_loop_round [OF Cons.prems(1) e round Cons.prems(4), where grow = grow] Cons.prems(5) by simp blast
    then show ?thesis
    proof cases
      case stop
      then show ?thesis using Cons.prems(1) by (simp add: connector_run_refl)
    next
      case (tried i r)
      show ?thesis
      proof (cases r)
        case None
        then show ?thesis using tried(2) by simp
      next
        case (Some x)
        obtain ok s2 where x: "x = (ok, s2)" by (cases x)
        have run: "connector_run grow ntop proxies keys s (if ok then 1 else 0) s2" "room_for (length es) (n_reg (cn_node s2))"
          using tried(3) Some x by blast+
        let ?n = "if ok then n + 1 else n"
        have keys: "peer_key ` set (after_attempt i (ce_now e) ok candidates) \<subseteq> keys"
          using after_attempt_keys [OF tried(1)] Cons.prems(4) by metis
        have ok2: "node_ok (cn_node s2)" using run(1) unfolding connector_run_def by blast
        have es: "\<forall>e\<in>set es. round_ok e" using Cons.prems(2) by simp
        obtain q where q: "candidate_loop g ssl ntop user_agent proxies es want ?n (after_attempt i (ce_now e) ok candidates) s2 = Done q"
            "\<forall>n' s'. q = Some (n', s') \<longrightarrow> ?n \<le> n' \<and> (n' \<le> want \<or> n' = ?n) \<and> connector_run grow ntop proxies keys s2 (nat (n' - ?n)) s'"
          using Cons.IH [OF ok2 es run(2) keys, of ?n] Cons.prems(5) by auto
        have "n \<le> n' \<and> (n' \<le> want \<or> n' = n) \<and> connector_run grow ntop proxies keys s (nat (n' - n)) s'" if "q = Some (n', s')" for n' s'
        proof -
          have n': "?n \<le> n'" "n' \<le> want \<or> n' = ?n" and run2: "connector_run grow ntop proxies keys s2 (nat (n' - ?n)) s'" using q(2) that by blast+
          have "nat (n' - n) = (if ok then 1 else 0) + nat (n' - ?n)" using n'(1) by (auto split: if_splits)
          then have "connector_run grow ntop proxies keys s (nat (n' - n)) s'" using connector_run_trans [OF run(1) run2] by (simp only:)
          then show ?thesis using n' round(1) by (cases ok) auto
        qed
        then show ?thesis using tried(2) Some x q(1) by auto
      qed
    qed
  qed
qed

section \<open>The loop ends\<close>

lemma round_double_close:
  assumes "\<bar>q\<bar> < 2"
  shows "\<exists>x. round_double q = Finite x \<and> \<bar>x - q\<bar> \<le> 1 / 2 ^ 53"
proof (cases "q = 0")
  case True
  then show ?thesis by (simp add: round_double_def)
next
  case False
  let ?e = "ulp_exp \<bar>q\<bar>"
  define v where "v = (of_int (round_even (\<bar>q\<bar> / 2 powi ?e)) * 2 powi ?e :: rat)"
  have "ilog 2 \<bar>q\<bar> \<le> 0"
  proof (cases "1 \<le> \<bar>q\<bar>")
    case True
    then have "\<lfloor>\<bar>q\<bar>\<rfloor> = 1" using assms by (intro floor_unique) simp_all
    then show ?thesis using True by (simp add: ilog_def floorlog_def)
  qed (simp add: ilog_def)
  then have e: "?e \<le> - 52" by (simp add: ulp_exp_def)
  have "2 powi ?e \<le> (2 powi - 52 :: rat)" using e by (intro power_int_increasing) simp_all
  then have small: "2 powi ?e \<le> (1 / 2 ^ 52 :: rat)" by (simp add: power_int_def field_simps)
  have pos: "(0 :: rat) < 2 powi ?e" by simp
  have "v - \<bar>q\<bar> = (of_int (round_even (\<bar>q\<bar> / 2 powi ?e)) - \<bar>q\<bar> / 2 powi ?e) * 2 powi ?e" using pos by (simp add: v_def field_simps)
  then have "\<bar>v - \<bar>q\<bar>\<bar> \<le> 1 / 2 * 2 powi ?e"
    using mult_right_mono [OF round_even_error [of "\<bar>q\<bar> / 2 powi ?e"], of "2 powi ?e"] pos by (simp add: abs_mult)
  then have near: "\<bar>v - \<bar>q\<bar>\<bar> \<le> 1 / 2 ^ 53" using small by simp
  have "v - \<bar>q\<bar> \<le> 1 / 2 ^ 53" by (rule order_trans [OF abs_ge_self near])
  then have "v < 3" using assms by simp
  moreover have "(3 :: rat) < 2 ^ 1024" by simp
  ultimately have "\<not> 2 ^ 1024 \<le> v" unfolding not_le by (rule less_trans)
  then have "round_double q = Finite (if q < 0 then - v else v)" using False by (simp add: round_double_def v_def Let_def)
  moreover have "\<bar>(if q < 0 then - v else v) - q\<bar> = \<bar>v - \<bar>q\<bar>\<bar>" by auto
  ultimately show ?thesis using near by auto
qed

text \<open>A failure takes at least an eleventh from a rating.\<close>

lemma rating_falls:
  assumes "- 1 \<le> r" "r \<le> 1"
  shows "rating_after_failure r \<le> r - 1 / 11 \<or> rating_after_failure r = - 1" "r < 0 \<Longrightarrow> rating_after_failure r < 0"
proof -
  have "\<bar>r - tenth\<bar> < 2" using assms by (simp add: tenth_def abs_less_iff)
  then obtain x where x: "round_double (r + - tenth) = Finite x" "\<bar>x - (r - tenth)\<bar> \<le> 1 / 2 ^ 53" using round_double_close by fastforce
  have "x - (r - tenth) \<le> 1 / 2 ^ 53" by (rule order_trans [OF abs_ge_self x(2)])
  then have "x \<le> r - 1 / 11" by (simp add: tenth_def)
  then show "rating_after_failure r \<le> r - 1 / 11 \<or> rating_after_failure r = - 1" "r < 0 \<Longrightarrow> rating_after_failure r < 0"
    using x(1) by (auto simp: rating_after_failure_def plus_double_def)
qed

text \<open>
  How often a peer may still fail until the time \<open>t1\<close>, when all attempts are made from \<open>t0\<close> on: while its rating is not negative,
  each failure takes an eleventh; then there is half an hour between two attempts.
\<close>

definition budget :: "int \<Rightarrow> int \<Rightarrow> bm_peer_entry \<Rightarrow> nat" where
  "budget t0 t1 c = (if bp_rating c < 0 then nat ((t1 - max (bp_last_attempt c) (t0 - 1800)) div 1800)
     else nat \<lfloor>11 * bp_rating c\<rfloor> + 1 + nat ((t1 - t0) div 1800))"

definition rated :: "bm_peer_entry \<Rightarrow> bool" where "rated c \<longleftrightarrow> - 1 \<le> bp_rating c \<and> bp_rating c \<le> 1"

lemma budget_le:
  assumes "rated c" "t0 \<le> t1"
  shows "budget t0 t1 c \<le> 12 + nat ((t1 - t0) div 1800)"
proof -
  have "11 * bp_rating c \<le> of_int 11" using assms(1) by (simp add: rated_def)
  then have "\<lfloor>11 * bp_rating c\<rfloor> \<le> 11" by (metis floor_mono floor_of_int)
  then have "nat \<lfloor>11 * bp_rating c\<rfloor> \<le> 11" by (simp only: nat_le_iff of_nat_numeral)
  moreover have "(t1 - max (bp_last_attempt c) (t0 - 1800)) div 1800 \<le> (t1 - t0 + 1800) div 1800" by (rule zdiv_mono1) simp_all
  then have "nat ((t1 - max (bp_last_attempt c) (t0 - 1800)) div 1800) \<le> 1 + nat ((t1 - t0) div 1800)" using assms(2) by simp
  ultimately show ?thesis by (simp add: budget_def)
qed

lemma budget_falls:
  assumes "rated c" "rested c now" "t0 \<le> now" "now \<le> t1"
  defines "c1 \<equiv> c\<lparr>bp_last_attempt := now\<rparr>"
  shows "budget t0 t1 c1 \<le> budget t0 t1 c"
    "budget t0 t1 (c1\<lparr>bp_rating := rating_after_failure (bp_rating c)\<rparr>) < budget t0 t1 c"
    "rated (c1\<lparr>bp_rating := rating_after_failure (bp_rating c)\<rparr>)" "rated c1"
proof -
  have r: "- 1 \<le> bp_rating c" "bp_rating c \<le> 1" using assms(1) by (simp_all add: rated_def)
  show "rated (c1\<lparr>bp_rating := rating_after_failure (bp_rating c)\<rparr>)" "rated c1"
    using rating_down [OF r] r by (simp_all add: rated_def rating_after_failure_def c1_def)
  have wait: "nat ((t1 - max now (t0 - 1800)) div 1800) < nat ((t1 - max (bp_last_attempt c) (t0 - 1800)) div 1800)" if "bp_rating c < 0"
  proof -
    have "t1 - max now (t0 - 1800) + 1800 \<le> t1 - max (bp_last_attempt c) (t0 - 1800)" using assms(2,3) that by (auto simp: rested_def max_def)
    then have "(t1 - max now (t0 - 1800) + 1800) div 1800 \<le> (t1 - max (bp_last_attempt c) (t0 - 1800)) div 1800" by (rule zdiv_mono1) simp
    moreover have "(t1 - max now (t0 - 1800) + 1800) div 1800 = (t1 - max now (t0 - 1800)) div 1800 + 1" by simp
    moreover have "0 \<le> (t1 - max now (t0 - 1800)) div 1800" using assms(3,4) by (simp add: max_def pos_imp_zdiv_nonneg_iff)
    ultimately show ?thesis by linarith
  qed
  show "budget t0 t1 c1 \<le> budget t0 t1 c" using less_imp_le [OF wait] by (cases "bp_rating c < 0") (simp_all add: c1_def budget_def)
  show "budget t0 t1 (c1\<lparr>bp_rating := rating_after_failure (bp_rating c)\<rparr>) < budget t0 t1 c"
  proof (cases "bp_rating c < 0")
    case True
    then show ?thesis using rating_falls(2) [OF r] wait by (simp add: budget_def c1_def)
  next
    case False
    show ?thesis
    proof (cases "rating_after_failure (bp_rating c) < 0")
      case True
      have "(t1 - max now (t0 - 1800)) div 1800 \<le> (t1 - t0) div 1800" using assms(3) by (intro zdiv_mono1) simp_all
      then have "nat ((t1 - max now (t0 - 1800)) div 1800) \<le> nat ((t1 - t0) div 1800)" by (rule nat_mono)
      then show ?thesis using True False by (simp add: budget_def c1_def)
    next
      case pos: False
      then have "11 * rating_after_failure (bp_rating c) + 1 \<le> 11 * bp_rating c" using rating_falls(1) [OF r] by auto
      then have "\<lfloor>11 * rating_after_failure (bp_rating c)\<rfloor> + 1 \<le> \<lfloor>11 * bp_rating c\<rfloor>" by linarith
      moreover have "0 \<le> \<lfloor>11 * rating_after_failure (bp_rating c)\<rfloor>" using pos by simp
      ultimately have "nat \<lfloor>11 * rating_after_failure (bp_rating c)\<rfloor> < nat \<lfloor>11 * bp_rating c\<rfloor>" by (simp only: nat_less_eq_zless)
      then show ?thesis using False pos by (simp add: budget_def c1_def)
    qed
  qed
qed

text \<open>The system answers: the attempt to connect ends, and a write that does not end with the queue ends with an error or a full socket.\<close>

definition round_ends :: "round_env \<Rightarrow> bool" where
  "round_ends e \<longleftrightarrow> (\<forall>ip port proxy. open_peer_connection (ce_open e) ip port proxy \<noteq> Done None) \<and>
     (Send_again \<in> set (ve_send (ce_version e)) \<or> Send_error \<in> set (ve_send (ce_version e)))"

lemma flush_loop_returns: "Send_again \<in> set as \<or> Send_error \<in> set as \<Longrightarrow> flush_loop as now (st, conn) \<noteq> Done None"
proof (induction as arbitrary: st conn)
  case (Cons a as)
  show ?case
  proof (cases "head (send_queue conn)")
    case (Some p)
    then show ?thesis using Cons
      by (subst flush_loop.simps) (cases a; auto simp: Let_def split: option.splits prod.splits; metis prod.exhaust)
  qed (simp add: flush_loop.simps)
qed simp

lemma send_returns: "Send_again \<in> set as \<or> Send_error \<in> set as \<Longrightarrow> bm_network_send new_chunk ctl as data now (st, conn) \<noteq> Done None"
  using flush_loop_returns [of as] by (auto simp: bm_network_send_def flush_locked_def split: option.splits)

lemma start_connection_returns:
  assumes "round_ends e"
  shows "start_connection g ssl user_agent e cand w \<noteq> Done None"
  using send_returns [of "ve_send (ce_version e)"] assms
  by (auto simp: start_connection_def round_ends_def bind_run_def bm_post_version_def Let_def split: option.splits prod.splits if_splits)

lemma try_candidate_returns:
  assumes "round_ends e"
  shows "try_candidate g ssl user_agent proxies e cand s \<noteq> Done None"
  using start_connection_returns [OF assms, of g ssl user_agent cand "cn_node s"] assms
  by (auto simp: try_candidate_def round_ends_def bind_run_def Let_def split: option.splits prod.splits if_splits)

lemma sum_list_update_less:
  fixes f :: "'a \<Rightarrow> nat"
  assumes "i < length xs"
  shows "sum_list (map f (xs[i := x])) + f (xs ! i) = sum_list (map f xs) + f x"
  using assms by (induction xs arbitrary: i) (auto split: nat.splits)

lemma after_attempt_budget:
  assumes "i < length candidates" "\<forall>c\<in>set candidates. rated c" "rested (candidates ! i) now" "t0 \<le> now" "now \<le> t1"
    and after: "xs = after_attempt i now ok candidates"
  shows "sum_list (map (budget t0 t1) xs) + (if ok then 0 else 1) \<le> sum_list (map (budget t0 t1) candidates)" "\<forall>c\<in>set xs. rated c"
proof -
  let ?c = "candidates ! i"
  let ?x = "if ok then ?c\<lparr>bp_last_attempt := now\<rparr> else ?c\<lparr>bp_last_attempt := now, bp_rating := rating_after_failure (bp_rating ?c)\<rparr>"
  have xs: "xs = candidates[i := ?x]" by (simp add: after after_attempt_def Let_def)
  have "rated ?c" using assms(1,2) by simp
  note b = budget_falls [OF this assms(3-5)]
  have "budget t0 t1 ?x + (if ok then 0 else 1) \<le> budget t0 t1 ?c" using b(1,2) by auto
  then show "sum_list (map (budget t0 t1) xs) + (if ok then 0 else 1) \<le> sum_list (map (budget t0 t1) candidates)"
    using sum_list_update_less [OF assms(1), of "budget t0 t1" ?x] unfolding xs by linarith
  have "rated ?x" using b(3,4) by simp
  then show "\<forall>c\<in>set xs. rated c" using assms(2) set_update_subset_insert [of candidates i ?x] unfolding xs by blast
qed

lemma candidate_loop_returns:
  assumes "node_ok (cn_node s)" "\<forall>e\<in>set es. round_ok e \<and> round_ends e \<and> t0 \<le> ce_now e \<and> ce_now e \<le> t1"
    "room_for (length es) (n_reg (cn_node s))" "\<forall>c\<in>set candidates. rated c"
    "nat (want - n) + sum_list (map (budget t0 t1) candidates) < length es"
  shows "\<exists>n' s'. candidate_loop g ssl ntop user_agent proxies es want n candidates s = Done (Some (n', s'))"
  using assms
proof (induction es arbitrary: s n candidates)
  case (Cons e es)
  show ?case
  proof (cases "want \<le> n \<or> ce_stop e")
    case True
    then show ?thesis by (subst candidate_loop.simps) auto
  next
    case False
    then have round: "n < want" "\<not> ce_stop e" by simp_all
    have e: "round_ok e" "room_for (Suc (length es)) (n_reg (cn_node s))" "round_ends e" "t0 \<le> ce_now e" "ce_now e \<le> t1"
      using Cons.prems(2,3) by simp_all
    consider (stop) "candidate_loop g ssl ntop user_agent proxies (e # es) want n candidates s = Done (Some (n, s))"
      | (tried) i s1 r where "i < length candidates" "eligible ntop (cn_node s) (ce_now e) (candidates ! i)"
          "try_candidate g ssl user_agent proxies e ((candidates ! i)\<lparr>bp_last_attempt := ce_now e\<rparr>) s1 = Done r"
          "candidate_loop g ssl ntop user_agent proxies (e # es) want n candidates s = (case r of None \<Rightarrow> Done None
             | Some (ok, s2) \<Rightarrow> candidate_loop g ssl ntop user_agent proxies es want (if ok then n + 1 else n) (after_attempt i (ce_now e) ok candidates) s2)"
          "\<forall>ok s2. r = Some (ok, s2) \<longrightarrow> connector_run False ntop proxies UNIV s (if ok then 1 else 0) s2 \<and> room_for (length es) (n_reg (cn_node s2))"
      using candidate_loop_round [OF Cons.prems(1) e(1,2) round subset_UNIV, where grow = False] by blast
    then show ?thesis
    proof cases
      case (tried i s1 r)
      have "r \<noteq> None" using try_candidate_returns [OF e(3)] tried(3) by metis
      then obtain ok s2 where r: "r = Some (ok, s2)" by auto
      have run: "node_ok (cn_node s2)" "room_for (length es) (n_reg (cn_node s2))" using tried(5) r unfolding connector_run_def by blast+
      have rest: "rested (candidates ! i) (ce_now e)" using tried(2) by (auto simp: eligible_def rested_def)
      note b = after_attempt_budget [OF tried(1) Cons.prems(4) rest e(4,5) refl, of ok]
      have "nat (want - (if ok then n + 1 else n)) + sum_list (map (budget t0 t1) (after_attempt i (ce_now e) ok candidates)) < length es"
        using b(1) Cons.prems(5) round(1) by (cases ok) auto
      then show ?thesis using Cons.IH [OF run(1) _ run(2) b(2), of "if ok then n + 1 else n"] Cons.prems(2) tried(4) r by simp
    qed blast
  qed
qed simp

section \<open>A call of the connector\<close>

definition prepared :: "bm_peer_connector_config \<Rightarrow> call_env \<Rightarrow> peers_db \<Rightarrow> peers_db" where
  "prepared config env db =
     snd (bm_peer_manager_seed_bootstrap (cl_seed env) (cl_seed_time env) (cc_testnet config) (cl_nodes_file env)
       (snd (bm_peer_manager_cleanup (fst (cl_cleanup env)) (snd (cl_cleanup env)) db)))"

lemma prepared_steps: "peer_step\<^sup>*\<^sup>* db (prepared config env db)"
  unfolding prepared_def by (meson peer_step.cleanup peer_step.seeded r_into_rtranclp rtranclp.rtrancl_into_rtrancl)

lemma peers_ok_steps: "peer_step\<^sup>*\<^sup>* db db' \<Longrightarrow> peers_ok db \<Longrightarrow> peers_ok db'"
  by (induction rule: rtranclp_induct) (auto intro: peer_step_ok)

text \<open>The candidates: peers of the table, never the node itself.\<close>

definition candidate_rows :: "peers_db \<Rightarrow> host_row set" where
  "candidate_rows db = {r \<in> set db. hr_stream r = 1 \<and> hr_is_self r = 0}"

lemma list_top_rows:
  assumes "bm_peer_manager_list_top ok 1 n db = Some candidates"
  shows "set candidates \<subseteq> peer_entry ` candidate_rows db" "length candidates \<le> n" "peers_ok db \<Longrightarrow> \<forall>c\<in>set candidates. rated c"
proof -
  have c: "candidates = map peer_entry (best_rated n (\<lambda>r. hr_stream r = 1 \<and> hr_is_self r = 0) db)"
    using assms by (simp add: bm_peer_manager_list_top_def split: if_splits)
  note b = best_rated_props [where n = n and P = "\<lambda>r. hr_stream r = 1 \<and> hr_is_self r = 0" and db = db]
  show "set candidates \<subseteq> peer_entry ` candidate_rows db" using b(1) by (auto simp: c candidate_rows_def)
  show "length candidates \<le> n" using b(3) by (simp add: c)
  show "\<forall>c\<in>set candidates. rated c" if "peers_ok db" using b(1) peers_ok_row [OF that] by (auto simp: c rated_def peer_entry_def)
qed

lemma connect_initial_cases:
  assumes "node_ok (cn_node s)"
  shows "bm_peer_connector_connect_initial g ssl ntop config env es s =
    (let s2 = s\<lparr>cn_peers := prepared config env (cn_peers s)\<rparr>
     in if cc_max_outbound config \<le> int (outbound (cn_node s)) then Done (Some (0, s2))
        else case bm_peer_manager_list_top (cl_list env) 1 MAX_CANDIDATES (prepared config env (cn_peers s)) of
               None \<Rightarrow> Done (Some (-1, s2))
             | Some candidates \<Rightarrow> candidate_loop g ssl ntop (cc_user_agent config) (read_proxies (cl_config env) (cc_config_db config)) es
                 (cc_max_outbound config - int (outbound (cn_node s))) 0 candidates s2)"
  using count_outbound [OF assms] by (simp add: bm_peer_connector_connect_initial_def prepared_def Let_def split: option.split)

text \<open>What a call did, whether or not it made new connections.\<close>

lemma connect_initial_run:
  assumes "node_ok (cn_node s)" "\<forall>e\<in>set es. round_ok e" "room_for (length es) (n_reg (cn_node s))"
    "grow \<longrightarrow> (\<forall>e\<in>set es. ae_grow (ce_conn e))"
  shows "\<exists>r. bm_peer_connector_connect_initial g ssl ntop config env es s = Done r \<and>
    (\<forall>n s'. r = Some (n, s') \<longrightarrow> -1 \<le> n \<and> (0 < n \<longrightarrow> int (outbound (cn_node s)) + n \<le> cc_max_outbound config) \<and>
      connector_run grow ntop (read_proxies (cl_config env) (cc_config_db config))
        ((peer_key \<circ> peer_entry) ` candidate_rows (prepared config env (cn_peers s))) (s\<lparr>cn_peers := prepared config env (cn_peers s)\<rparr>) (nat n) s')"
proof -
  let ?db = "prepared config env (cn_peers s)" and ?proxies = "read_proxies (cl_config env) (cc_config_db config)"
  let ?keys = "(peer_key \<circ> peer_entry) ` candidate_rows ?db" and ?s = "s\<lparr>cn_peers := prepared config env (cn_peers s)\<rparr>"
  have ok: "node_ok (cn_node ?s)" "room_for (length es) (n_reg (cn_node ?s))" using assms(1,3) by simp_all
  note same = connector_run_refl [OF ok(1), of grow ntop ?proxies ?keys]
  show ?thesis
  proof (cases "cc_max_outbound config \<le> int (outbound (cn_node s)) \<or> bm_peer_manager_list_top (cl_list env) 1 MAX_CANDIDATES ?db = None")
    case True
    then have "\<exists>n. n \<in> {-1, 0} \<and> bm_peer_connector_connect_initial g ssl ntop config env es s = Done (Some (n, ?s))"
      unfolding connect_initial_cases [OF assms(1)] Let_def by (cases "cc_max_outbound config \<le> int (outbound (cn_node s))") simp_all
    then show ?thesis using same by (elim exE conjE insertE) simp_all
  next
    case False
    then obtain candidates where c: "bm_peer_manager_list_top (cl_list env) 1 MAX_CANDIDATES ?db = Some candidates" by auto
    let ?want = "cc_max_outbound config - int (outbound (cn_node s))"
    have keys: "peer_key ` set candidates \<subseteq> ?keys" using list_top_rows(1) [OF c] by auto
    obtain r where r: "candidate_loop g ssl ntop (cc_user_agent config) ?proxies es ?want 0 candidates ?s = Done r"
        "\<forall>n' s'. r = Some (n', s') \<longrightarrow> 0 \<le> n' \<and> (n' \<le> ?want \<or> n' = 0) \<and> connector_run grow ntop ?proxies ?keys ?s (nat (n' - 0)) s'"
      using candidate_loop_run [OF ok(1) assms(2) ok(2) keys assms(4), of g ssl ntop "cc_user_agent config" ?proxies ?want 0]
      by (elim exE conjE) (rule that)
    have "bm_peer_connector_connect_initial g ssl ntop config env es s = Done r"
      using connect_initial_cases [OF assms(1), of g ssl ntop config env es] False c r(1) by (simp add: Let_def)
    moreover have "-1 \<le> n \<and> (0 < n \<longrightarrow> int (outbound (cn_node s)) + n \<le> cc_max_outbound config) \<and> connector_run grow ntop ?proxies ?keys ?s (nat n) s'"
      if "r = Some (n, s')" for n s' using r(2) [THEN spec, THEN spec, THEN mp, OF that] by auto
    ultimately show ?thesis by blast
  qed
qed

section \<open>Properties\<close>

text \<open>In any stretch of time a call makes a bounded number of rounds.\<close>

lemma connector_bounded:
  assumes "node_ok (cn_node s)" "peers_ok (cn_peers s)" "start \<le> stop"
    "\<forall>e\<in>set es. round_ok e \<and> round_ends e \<and> start \<le> ce_now e \<and> ce_now e \<le> stop" "room_for (length es) (n_reg (cn_node s))"
    and k: "k = min MAX_CANDIDATES (length (filter (\<lambda>r. hr_stream r = 1 \<and> hr_is_self r = 0) (prepared config env (cn_peers s))))"
    and "nat (cc_max_outbound config) + k * (12 + nat ((stop - start) div 1800)) < length es"
  shows "\<exists>n s'. bm_peer_connector_connect_initial g ssl ntop config env es s = Done (Some (n, s'))"
proof -
  let ?db = "prepared config env (cn_peers s)" and ?s = "s\<lparr>cn_peers := prepared config env (cn_peers s)\<rparr>"
  let ?b = "12 + nat ((stop - start) div 1800)"
  have ok: "node_ok (cn_node ?s)" "room_for (length es) (n_reg (cn_node ?s))" using assms(1,5) by simp_all
  have loop: "\<exists>n s'. candidate_loop g ssl ntop (cc_user_agent config) proxies es (cc_max_outbound config - int (outbound (cn_node s))) 0 candidates ?s = Done (Some (n, s'))"
    if c: "bm_peer_manager_list_top (cl_list env) 1 MAX_CANDIDATES ?db = Some candidates" for candidates proxies
  proof -
    have rated: "\<forall>c\<in>set candidates. rated c" using list_top_rows(3) [OF c] peers_ok_steps [OF prepared_steps assms(2)] by blast
    then have "sum_list (map (budget start stop) candidates) \<le> ?b * length candidates"
    proof (induction candidates)
      case (Cons x xs)
      then have "sum_list (map (budget start stop) xs) \<le> ?b * length xs" "budget start stop x \<le> ?b" using budget_le [OF _ assms(3)] by simp_all
      then show ?case by simp
    qed simp
    also have "length candidates = k"
      using c unfolding k by (auto simp: bm_peer_manager_list_top_def best_rated_def min.commute split: if_splits)
    finally have "nat (cc_max_outbound config - int (outbound (cn_node s)) - 0) + sum_list (map (budget start stop) candidates) < length es"
      using assms(7) by (simp add: mult.commute)
    then show ?thesis by (intro candidate_loop_returns [OF ok(1) assms(4) ok(2) rated]) simp
  qed
  then show ?thesis unfolding connect_initial_cases [OF assms(1)] Let_def by (auto split: option.split)
qed

text \<open>
  C8: A call of the connector ends. Every peer that cannot be reached loses at least an eleventh of its rating, in double arithmetic, until it
  is negative and the cooldown of half an hour keeps it away; so a peer fails at most twelve times and once for each further half hour. Hence the loop
  ends, whatever it draws, if the time of a round, on average at most \<open>pace\<close> seconds, times the number of candidates \<open>k\<close> is less than half
  an hour: for the 256 candidates of the code up to seven seconds, which the timeout of 5 seconds keeps without proxies, and for 71 candidates
  the 25 seconds of both timeouts. It then has not more than the stated number of rounds. (With more and slower peers they leave their cooldown
  faster than the loop can try them, and its end depends on what it draws.)
\<close>

theorem connector_ends:
  assumes "node_ok (cn_node s)" "peers_ok (cn_peers s)" "\<forall>e\<in>set es. round_safe e \<and> round_ends e \<and> start \<le> ce_now e"
    "\<forall>i<length es. ce_now (es ! i) \<le> start + int (pace * i)" "room_for (length es) (n_reg (cn_node s))"
    and "k = min MAX_CANDIDATES (length (filter (\<lambda>r. hr_stream r = 1 \<and> hr_is_self r = 0) (prepared config env (cn_peers s))))"
    and "pace * k < 1800" "1800 * (nat (cc_max_outbound config) + 12 * k) < length es"
  shows "\<exists>n s'. bm_peer_connector_connect_initial g ssl ntop config env es s = Done (Some (n, s'))"
proof (rule connector_bounded [OF assms(1,2) _ _ assms(5,6)])
  let ?L = "length es"
  show "start \<le> start + int (pace * ?L)" by simp
  show "\<forall>e\<in>set es. round_ok e \<and> round_ends e \<and> start \<le> ce_now e \<and> ce_now e \<le> start + int (pace * ?L)"
  proof
    fix e assume e: "e \<in> set es"
    then obtain i where i: "i < ?L" "e = es ! i" by (metis in_set_conv_nth)
    have "pace * i \<le> pace * ?L" using i(1) by simp
    then have "int (pace * i) \<le> int (pace * ?L)" by (simp only: of_nat_le_iff)
    then show "round_ok e \<and> round_ends e \<and> start \<le> ce_now e \<and> ce_now e \<le> start + int (pace * ?L)"
      using assms(3,4) e i round_safe_ok by fastforce
  qed
  have nat: "nat ((start + int (pace * ?L) - start) div 1800) = pace * ?L div 1800"
    by (simp add: nat_div_distrib nat_mult_distrib)
  have "1800 * (k * (pace * ?L div 1800)) \<le> k * (pace * ?L)" by (simp add: mult.left_commute [of 1800])
  also have "\<dots> = (pace * k) * ?L" by simp
  also have "\<dots> \<le> 1799 * ?L" using assms(7) by (intro mult_right_mono) simp_all
  finally have "1800 * (k * (pace * ?L div 1800)) + ?L \<le> 1800 * ?L" by simp
  then have "1800 * (nat (cc_max_outbound config) + k * (12 + pace * ?L div 1800)) < 1800 * ?L" using assms(8) by (simp add: algebra_simps)
  then show "nat (cc_max_outbound config) + k * (12 + nat ((start + int (pace * ?L) - start) div 1800)) < ?L" unfolding nat by simp
qed

definition sample_round :: "bool \<Rightarrow> round_env" where
  "sample_round stop = \<lparr>ce_stop = stop, ce_now = 100, ce_draws = (\<lambda>_. (0, 0)), ce_attempt = True,
     ce_open = \<lparr>op_resolver = (\<lambda>_ _. None), op_writes = [], op_reads = []\<rparr>, ce_conn = sample_accept,
     ce_version = \<lparr>ve_time = 100, ve_random = Some 1, ve_alloc = (\<lambda>_. None), ve_ctl = True, ve_send = [Send_again], ve_now = 100\<rparr>,
     ce_result = (True, 100)\<rparr>"

lemma sample_round_ok: "round_safe (sample_round stop)" "round_ends (sample_round stop)" "ce_now (sample_round stop) = 100"
  by (auto simp: round_safe_def names_255_def round_ends_def sample_round_def sample_accept_def fresh_addr_new alloc_ok_def open_peer_connection_def
      connect_with_timeout_def split: option.splits)

definition sample_call :: "bool \<Rightarrow> call_env" where
  "sample_call readable = \<lparr>cl_cleanup = (True, 100), cl_seed = (True, True, \<lambda>_. True, \<lambda>_. True), cl_seed_time = (100, 100), cl_nodes_file = None,
     cl_config = (readable, readable), cl_list = True\<rparr>"

definition sample_connector :: "unit connector" where
  "sample_connector = \<lparr>cn_node = one_conn_node,
     cn_peers = [\<lparr>hr_ip_address = lit ''x.onion'', hr_port = 8444, hr_stream = 1, hr_services = 1, hr_last_seen = 90, hr_rating = 1,
       hr_source = lit ''learned'', hr_is_self = 0, hr_last_attempt = 0\<rparr>], cn_contacts = [], cn_closed = [], cn_tried = []\<rparr>"

definition sample_config :: "config_db option \<Rightarrow> bm_peer_connector_config" where
  "sample_config db = \<lparr>cc_testnet = False, cc_max_outbound = 8, cc_user_agent = lit ''/bm/'', cc_config_db = db\<rparr>"

lemma sample_connector_ok: "node_ok (cn_node sample_connector)" "peers_ok (cn_peers sample_connector)" "n \<le> 100000 \<Longrightarrow> room_for n (n_reg (cn_node sample_connector))"
  using one_conn_node_ok by (simp_all add: sample_connector_def peers_ok_def room_for_def one_conn_node_def bm_peer_registry_init_def)

lemma sample_prepared: "prepared (sample_config db) (sample_call readable) (cn_peers sample_connector) = cn_peers sample_connector"
  by (simp add: prepared_def sample_connector_def sample_call_def bm_peer_manager_cleanup_def forgotten_def bm_peer_manager_seed_bootstrap_def)

theorem connector_ends_witness:
  "\<exists>n s'. bm_peer_connector_connect_initial protocol_init plain_ssl (\<lambda>_. []) (sample_config None) (sample_call True)
     (replicate 40000 (sample_round False)) sample_connector = Done (Some (n, s'))"
  by (rule connector_ends [where start = 100 and pace = 25 and k = 1])
    (use sample_connector_ok sample_round_ok in \<open>simp_all add: sample_prepared\<close>, simp_all add: sample_config_def sample_connector_def)

text \<open>
  C9: The connector keeps its limits. A call does not fault, unless a proxy answers with a name of 255 bytes (C13), and what it leaves is sound;
  there are not more outgoing connections than the maximum, unless there were before, and as long as the registry finds memory there are as many
  more as the call reports; each peer that it tried is in the table, in the node's stream and not the node itself, and if its rating
  was negative, the last attempt was at least half an hour ago; and if the registered connections were to different peers, they still are. (A
  connection that the registry could not take for want of memory is not counted and does not keep the connector from a second one.)
\<close>

theorem connector_limits:
  assumes "node_ok (cn_node s)" "\<forall>e\<in>set es. round_safe e" "room_for (length es) (n_reg (cn_node s))"
  shows "\<exists>r. bm_peer_connector_connect_initial g ssl ntop config env es s = Done r \<and>
    (\<forall>n s'. r = Some (n, s') \<longrightarrow> node_ok (cn_node s') \<and>
      int (outbound (cn_node s')) \<le> max (int (outbound (cn_node s))) (cc_max_outbound config) \<and>
      ((\<forall>e\<in>set es. ae_grow (ce_conn e)) \<longrightarrow> outbound (cn_node s') = outbound (cn_node s) + nat n) \<and>
      (\<exists>tried. cn_tried s' = cn_tried s @ tried \<and>
        (\<forall>(c, t) \<in> set tried. (0 \<le> bp_rating c \<or> 1800 \<le> t - bp_last_attempt c) \<and>
          (\<exists>row\<in>set (prepared config env (cn_peers s)). hr_stream row = 1 \<and> hr_is_self row = 0 \<and>
            bp_ip_address c = take 63 (hr_ip_address row) \<and> bp_port c = hr_port row)) \<and>
        ((\<forall>(c, t) \<in> set tried. named c) \<and> distinct (peer_names ntop (cn_node s)) \<longrightarrow> distinct (peer_names ntop (cn_node s')))))"
proof -
  let ?keys = "(peer_key \<circ> peer_entry) ` candidate_rows (prepared config env (cn_peers s))"
  have ok: "\<forall>e\<in>set es. round_ok e" using assms(2) round_safe_ok by blast
  obtain r where r: "bm_peer_connector_connect_initial g ssl ntop config env es s = Done r"
    "\<forall>n s'. r = Some (n, s') \<longrightarrow> -1 \<le> n \<and> (0 < n \<longrightarrow> int (outbound (cn_node s)) + n \<le> cc_max_outbound config) \<and>
      connector_run (\<forall>e\<in>set es. ae_grow (ce_conn e)) ntop (read_proxies (cl_config env) (cc_config_db config)) ?keys (s\<lparr>cn_peers := prepared config env (cn_peers s)\<rparr>) (nat n) s'"
    using connect_initial_run [OF assms(1) ok assms(3) imp_refl, of g ssl ntop config env] by (elim exE conjE) (rule that)
  have key: "\<exists>row\<in>set db. hr_stream row = 1 \<and> hr_is_self row = 0 \<and> bp_ip_address c = take 63 (hr_ip_address row) \<and> bp_port c = hr_port row"
    if "peer_key c \<in> (peer_key \<circ> peer_entry) ` candidate_rows db" for c db
    using that by (auto simp: candidate_rows_def peer_key_def peer_entry_def)
  show ?thesis
  proof (intro exI [of _ r] conjI allI impI r(1))
    fix n s'
    assume "r = Some (n, s')"
    note res = r(2) [THEN spec, THEN spec, THEN mp, OF this]
    then have run: "connector_run (\<forall>e\<in>set es. ae_grow (ce_conn e)) ntop (read_proxies (cl_config env) (cc_config_db config)) ?keys (s\<lparr>cn_peers := prepared config env (cn_peers s)\<rparr>) (nat n) s'"
      by blast
    then show "node_ok (cn_node s')" unfolding connector_run_def by blast
    have "outbound (cn_node s') \<le> outbound (cn_node s) + nat n" using run unfolding connector_run_def by simp
    then show "int (outbound (cn_node s')) \<le> max (int (outbound (cn_node s))) (cc_max_outbound config)" using res by (cases "0 < n") auto
    show "outbound (cn_node s') = outbound (cn_node s) + nat n" if "\<forall>e\<in>set es. ae_grow (ce_conn e)"
      using run that unfolding connector_run_def by simp
    show "\<exists>tried. cn_tried s' = cn_tried s @ tried \<and>
        (\<forall>(c, t) \<in> set tried. (0 \<le> bp_rating c \<or> 1800 \<le> t - bp_last_attempt c) \<and>
          (\<exists>row\<in>set (prepared config env (cn_peers s)). hr_stream row = 1 \<and> hr_is_self row = 0 \<and>
            bp_ip_address c = take 63 (hr_ip_address row) \<and> bp_port c = hr_port row)) \<and>
        ((\<forall>(c, t) \<in> set tried. named c) \<and> distinct (peer_names ntop (cn_node s)) \<longrightarrow> distinct (peer_names ntop (cn_node s')))"
      using run unfolding connector_run_def rested_def by (elim conjE exE) (intro exI conjI, simp, use key in fastforce, simp)
  qed
qed

theorem connector_limits_witness:
  "\<exists>r. bm_peer_connector_connect_initial protocol_init plain_ssl (\<lambda>_. []) (sample_config None) (sample_call True) [sample_round False, sample_round True]
      sample_connector = Done r \<and> (\<forall>n s'. r = Some (n, s') \<longrightarrow> int (outbound (cn_node s')) \<le> max (int (outbound (cn_node sample_connector))) 8)"
  using connector_limits [of sample_connector "[sample_round False, sample_round True]" protocol_init plain_ssl "\<lambda>_. []" "sample_config None" "sample_call True"]
    sample_connector_ok(1,3) sample_round_ok(1) by (auto simp: sample_config_def)

text \<open>Every host that a call contacts, in the order of the peers that it tries.\<close>

lemma connect_initial_contacts:
  assumes "node_ok (cn_node s)" "\<forall>e\<in>set es. round_ok e" "room_for (length es) (n_reg (cn_node s))"
  shows "\<exists>r. bm_peer_connector_connect_initial g ssl ntop config env es s = Done r \<and>
    (\<forall>n s'. r = Some (n, s') \<longrightarrow> (\<exists>tried. cn_tried s' = cn_tried s @ tried \<and>
      cn_contacts s' = cn_contacts s @ map (\<lambda>(c, t). contact (read_proxies (cl_config env) (cc_config_db config)) c) tried))"
proof -
  let ?proxies = "read_proxies (cl_config env) (cc_config_db config)" and ?s = "s\<lparr>cn_peers := prepared config env (cn_peers s)\<rparr>"
  have run: "\<exists>tried. cn_tried s' = cn_tried s @ tried \<and> cn_contacts s' = cn_contacts s @ map (\<lambda>(c, t). contact ?proxies c) tried"
    if "connector_run False ntop ?proxies keys ?s k s'" for keys k s'
    using that unfolding connector_run_def by auto
  have "False \<longrightarrow> (\<forall>e\<in>set es. ae_grow (ce_conn e))" by simp
  from connect_initial_run [OF assms this, of g ssl ntop config env] show ?thesis
    by (elim exE conjE) (intro exI conjI, assumption, use run in blast)
qed

text \<open>
  C10: The proxies keep the names of the peers. When proxies for onion peers and for the others are set and enabled in the settings store, and
  it can be read, then for each peer that the connector tries the machine itself contacts the proxy of its kind and nothing else: no name or
  address of a peer is looked up or connected to directly.
\<close>

theorem proxies_keep_names:
  assumes "node_ok (cn_node s)" "\<forall>e\<in>set es. round_ok e" "room_for (length es) (n_reg (cn_node s))"
    and "cc_config_db config =
      Some (snd (bm_config_store_set_socks_proxy_clearnet True clearnet (snd (bm_config_store_set_socks_proxy_onion True onion db))))"
    and "sp_enabled onion \<noteq> 0" "length (sp_host onion) < 256" "0 \<notin> set (sp_host onion)"
    and "sp_enabled clearnet \<noteq> 0" "length (sp_host clearnet) < 256" "0 \<notin> set (sp_host clearnet)"
    and "cl_config env = (True, True)"
  shows "\<exists>r. bm_peer_connector_connect_initial g ssl ntop config env es s = Done r \<and>
    (\<forall>n s'. r = Some (n, s') \<longrightarrow> (\<exists>tried. cn_tried s' = cn_tried s @ tried \<and>
      cn_contacts s' = cn_contacts s @ map (\<lambda>(c, t). if is_onion_host (bp_ip_address c) then (sp_host onion, sp_port onion)
        else (sp_host clearnet, sp_port clearnet)) tried))"
proof -
  have "read_proxies (cl_config env) (cc_config_db config) = (onion, clearnet)"
    unfolding assms(4,11) read_proxies_def by (simp add: proxies_apart onion.read_written [OF assms(6,7)] clearnet.read_written [OF assms(9,10)] proxy_or_default_def)
  then have "contact (read_proxies (cl_config env) (cc_config_db config)) c =
      (if is_onion_host (bp_ip_address c) then (sp_host onion, sp_port onion) else (sp_host clearnet, sp_port clearnet))" for c
    using assms(5,7,8,10) by (simp add: contact_def proxy_for_def c_str_id)
  then show ?thesis using connect_initial_contacts [OF assms(1-3), of g ssl ntop config env] by simp
qed

definition sample_proxy :: bm_socks_proxy_config where
  "sample_proxy = \<lparr>sp_enabled = 1, sp_host = lit ''127.0.0.1'', sp_port = 9050\<rparr>"

definition sample_settings :: config_db where
  "sample_settings = snd (bm_config_store_set_socks_proxy_clearnet True sample_proxy
     (snd (bm_config_store_set_socks_proxy_onion True sample_proxy bm_config_store_init_schema)))"

theorem proxies_keep_names_witness:
  "\<exists>r. bm_peer_connector_connect_initial protocol_init plain_ssl (\<lambda>_. []) (sample_config (Some sample_settings)) (sample_call True)
      [sample_round False, sample_round True] sample_connector = Done r \<and>
    (\<forall>n s'. r = Some (n, s') \<longrightarrow> set (cn_contacts s') \<subseteq> {(lit ''127.0.0.1'', 9050)})"
proof -
  have "\<exists>r. bm_peer_connector_connect_initial protocol_init plain_ssl (\<lambda>_. []) (sample_config (Some sample_settings)) (sample_call True)
      [sample_round False, sample_round True] sample_connector = Done r \<and>
    (\<forall>n s'. r = Some (n, s') \<longrightarrow> (\<exists>tried. cn_tried s' = cn_tried sample_connector @ tried \<and>
      cn_contacts s' = cn_contacts sample_connector @ map (\<lambda>(c, t). if is_onion_host (bp_ip_address c) then (sp_host sample_proxy, sp_port sample_proxy)
        else (sp_host sample_proxy, sp_port sample_proxy)) tried))"
    by (rule proxies_keep_names [where db = bm_config_store_init_schema])
      (use sample_connector_ok(1,3) round_safe_ok [OF sample_round_ok(1)] in \<open>simp_all add: sample_config_def sample_settings_def sample_proxy_def sample_call_def\<close>)
  then show ?thesis by (fastforce simp: sample_connector_def sample_proxy_def)
qed

text \<open>
  C11: When the settings store cannot be read, the connector goes past the proxies: it does not look at the error of the store and takes the
  defaults, in which no proxy is enabled. Whatever proxies are set, the machine then looks up and connects to each peer itself, onion names
  included.
\<close>

theorem unread_settings_bypass_proxies:
  assumes "node_ok (cn_node s)" "\<forall>e\<in>set es. round_ok e" "room_for (length es) (n_reg (cn_node s))"
    and "cl_config env = (False, False)"
  shows "\<exists>r. bm_peer_connector_connect_initial g ssl ntop config env es s = Done r \<and>
    (\<forall>n s'. r = Some (n, s') \<longrightarrow> (\<exists>tried. cn_tried s' = cn_tried s @ tried \<and>
      cn_contacts s' = cn_contacts s @ map (\<lambda>(c, t). (c_str (bp_ip_address c), bp_port c)) tried))"
proof -
  have "contact (read_proxies (cl_config env) (cc_config_db config)) c = (c_str (bp_ip_address c), bp_port c)" for c
    unfolding assms(4) contact_def proxy_for_def read_proxies_def
    by (simp add: onion.reader_fails clearnet.reader_fails proxy_or_default_def no_proxy_def split: option.split)
  then show ?thesis using connect_initial_contacts [OF assms(1-3), of g ssl ntop config env] by simp
qed

lemma sample_unread:
  "\<exists>n s'. bm_peer_connector_connect_initial protocol_init plain_ssl (\<lambda>_. []) (sample_config (Some sample_settings)) (sample_call False)
      [sample_round False, sample_round True] sample_connector = Done (Some (n, s')) \<and> cn_contacts s' = [(lit ''x.onion'', 8444)]"
proof -
  let ?row = "hd (cn_peers sample_connector)" and ?w = "cn_node sample_connector"
  let ?proxies = "read_proxies (cl_config (sample_call False)) (cc_config_db (sample_config (Some sample_settings)))"
  have db: "cn_peers sample_connector = [?row]" "prepared (sample_config (Some sample_settings)) (sample_call False) (cn_peers sample_connector) = [?row]"
    by (simp_all add: prepared_def sample_connector_def sample_call_def bm_peer_manager_cleanup_def forgotten_def bm_peer_manager_seed_bootstrap_def)
  have c: "bm_peer_manager_list_top (cl_list (sample_call False)) 1 MAX_CANDIDATES [?row] = Some [peer_entry ?row]"
    by (simp add: bm_peer_manager_list_top_def sample_call_def sample_connector_def best_rated_def)
  have out: "outbound ?w = 0" "registered ?w = []" by (simp_all add: outbound_def registered_def sample_connector_def one_conn_node_def bm_peer_registry_init_def)
  have "bm_peer_registry_has_peer (\<lambda>_. []) ip port (n_mem ?w, n_reg ?w) = Done False" for ip port
    using registry_has_peer [OF sample_connector_ok(1), of "\<lambda>_. []"] out(2) by (simp add: peer_names_def)
  then have pick: "bm_peer_connector_choose_candidate_index (\<lambda>_. []) (ce_draws (sample_round False)) [peer_entry ?row] (n_mem ?w, n_reg ?w)
      CHOOSE_CANDIDATE_MAX_ATTEMPTS (ce_now (sample_round False)) = Done (Some 0)"
    by (simp add: bm_peer_connector_choose_candidate_index_def sample_round_def upt_conv_Cons peer_entry_def sample_connector_def)
  have proxy: "sp_enabled (proxy_for ?proxies ip) = 0" for ip
    by (simp add: proxy_for_def read_proxies_def sample_config_def sample_call_def onion.reader_fails clearnet.reader_fails proxy_or_default_def)
  have attempt: "\<exists>s1. try_candidate protocol_init plain_ssl ua ?proxies (sample_round False) cand s = Done (Some (False, s1)) \<and>
      cn_contacts s1 = cn_contacts s @ [(c_str (bp_ip_address cand), bp_port cand)]" for ua cand and s :: "unit connector"
    using proxy [of "bp_ip_address cand"]
    by (simp add: try_candidate_def Let_def open_peer_connection_def sample_round_def connect_with_timeout_def)
  have row: "c_str (bp_ip_address (peer_entry ?row)) = lit ''x.onion''" "bp_port (peer_entry ?row) = 8444"
    by (simp_all add: peer_entry_def sample_connector_def c_str_def)
  define s2 where "s2 = sample_connector\<lparr>cn_peers := [?row]\<rparr>"
  have s2: "cn_node s2 = ?w" "cn_contacts s2 = []" by (simp_all add: s2_def sample_connector_def)
  let ?cand = "(peer_entry ?row)\<lparr>bp_last_attempt := 100\<rparr>"
  let ?s3 = "s2\<lparr>cn_peers := snd (bm_peer_manager_record_attempt True (bp_ip_address ?cand) (bp_port ?cand) 1 100 (cn_peers s2)),
    cn_tried := cn_tried s2 @ [(peer_entry ?row, 100)]\<rparr>"
  obtain s' where s': "try_candidate protocol_init plain_ssl (lit ''/bm/'') ?proxies (sample_round False) ?cand ?s3 = Done (Some (False, s'))"
      "cn_contacts s' = cn_contacts ?s3 @ [(c_str (bp_ip_address ?cand), bp_port ?cand)]"
    using attempt by blast
  have "candidate_loop protocol_init plain_ssl (\<lambda>_. []) (lit ''/bm/'') ?proxies [sample_round False, sample_round True] 8 0 [peer_entry ?row] s2 = Done (Some (0, s'))"
    using pick s'(1) by (subst candidate_loop.simps) (simp add: s2(1) sample_round_ok(3), simp add: candidate_loop.simps sample_round_def)
  then have "bm_peer_connector_connect_initial protocol_init plain_ssl (\<lambda>_. []) (sample_config (Some sample_settings)) (sample_call False)
      [sample_round False, sample_round True] sample_connector = Done (Some (0, s'))"
    using connect_initial_cases [OF sample_connector_ok(1), of protocol_init plain_ssl "\<lambda>_. []" "sample_config (Some sample_settings)" "sample_call False"] db(2) c out(1)
    by (simp add: Let_def s2_def sample_config_def)
  then show ?thesis using s'(2) s2(2) row by simp
qed

theorem unread_settings_bypass_proxies_witness:
  "\<exists>n s' c t. bm_peer_connector_connect_initial protocol_init plain_ssl (\<lambda>_. []) (sample_config (Some sample_settings)) (sample_call False)
      [sample_round False, sample_round True] sample_connector = Done (Some (n, s')) \<and> cn_tried s' = [(c, t)] \<and>
      cn_contacts s' = [(c_str (bp_ip_address c), bp_port c)] \<and> cn_contacts s' = [(lit ''x.onion'', 8444)]"
proof -
  obtain n s' where run: "bm_peer_connector_connect_initial protocol_init plain_ssl (\<lambda>_. []) (sample_config (Some sample_settings)) (sample_call False)
      [sample_round False, sample_round True] sample_connector = Done (Some (n, s'))" "cn_contacts s' = [(lit ''x.onion'', 8444)]"
    using sample_unread by blast
  moreover have "\<exists>r. bm_peer_connector_connect_initial protocol_init plain_ssl (\<lambda>_. []) (sample_config (Some sample_settings)) (sample_call False)
      [sample_round False, sample_round True] sample_connector = Done r \<and>
    (\<forall>n s'. r = Some (n, s') \<longrightarrow> (\<exists>tried. cn_tried s' = cn_tried sample_connector @ tried \<and>
      cn_contacts s' = cn_contacts sample_connector @ map (\<lambda>(c, t). (c_str (bp_ip_address c), bp_port c)) tried))"
    by (rule unread_settings_bypass_proxies) (use sample_connector_ok(1,3) round_safe_ok [OF sample_round_ok(1)] in \<open>simp_all add: sample_call_def\<close>)
  ultimately obtain tried where "cn_tried s' = tried" "cn_contacts s' = map (\<lambda>(c, t). (c_str (bp_ip_address c), bp_port c)) tried"
    by (auto simp: sample_connector_def)
  then show ?thesis using run by (cases tried) auto
qed

end
