(* ===== verification/Tor_Control.thy ===== *)
theory Tor_Control
  imports Socks Double
begin

text \<open>
  The onion service of the node (\<open>src/infra/tor_control.c\<close>): the dialogue with the control port of Tor that authenticates with a cookie file
  and adds a service.

  The socket blocks with a timeout; what it takes and gives is an argument. A write that takes nothing and a read that gives nothing stand for an
  error, the end of the stream or the timeout. \<open>None\<close> means that the answers do not end the dialogue.

  The theory shows that the replies are reassembled however the stream is cut, that the node shows Tor the cookie of the file that Tor names, and
  which address and key it takes for its service.
\<close>

abbreviation BM_TOR_CONTROL_MAX_LINES :: nat where "BM_TOR_CONTROL_MAX_LINES \<equiv> 16"
abbreviation BM_TOR_CONTROL_LINE_CAP :: nat where "BM_TOR_CONTROL_LINE_CAP \<equiv> 512"
abbreviation LINE_READER_CAP :: nat where "LINE_READER_CAP \<equiv> 4096"

abbreviation crlf :: bytes where "crlf \<equiv> [13, 10]"

section \<open>The socket\<close>

text \<open>A local socket answers at once; the path is cut to \<open>sun_path\<close>. \<open>unix\<close> gives for a path the descriptor and whether it is connected.\<close>

definition connect_unix :: "(bytes \<Rightarrow> int option \<times> bool) \<Rightarrow> bytes \<Rightarrow> int option \<times> int list" where
  "connect_unix unix path =
     (case unix (take 107 (c_str path)) of
        (None, _) \<Rightarrow> (None, [])
      | (Some sock, is_connected) \<Rightarrow> if is_connected then (Some sock, []) else (None, [sock]))"

definition connect_tcp_with_timeout :: "resolver \<Rightarrow> bytes \<Rightarrow> int \<Rightarrow> int option \<times> int list" where
  "connect_tcp_with_timeout getaddrinfo host port =
     (case getaddrinfo (c_str host) port of None \<Rightarrow> (None, []) | Some res \<Rightarrow> connect_loop res)"

fun send_all_blocking :: "nat list \<Rightarrow> bytes \<Rightarrow> (int \<times> bytes \<times> nat list) option" where
  "send_all_blocking ns [] = Some (0, [], ns)"
| "send_all_blocking [] (b # bs) = None"
| "send_all_blocking (n # ns) (b # bs) =
     (if n = 0 then Some (-1, [], ns)
      else map_option (\<lambda>(rc, out, ns'). (rc, take n (b # bs) @ out, ns')) (send_all_blocking ns (drop n (b # bs))))"

section \<open>Lines\<close>

record line_reader =
  lr_buf :: bytes
  lr_start :: nat

definition line_reader_init :: line_reader where "line_reader_init = \<lparr>lr_buf = [], lr_start = 0\<rparr>"

text \<open>The first end of a line.\<close>

fun find_crlf :: "bytes \<Rightarrow> nat option" where
  "find_crlf (a # b # bs) = (if a = 13 \<and> b = 10 then Some 0 else map_option Suc (find_crlf (b # bs)))"
| "find_crlf _ = None"

function line_reader_next :: "nat \<Rightarrow> bytes list \<Rightarrow> line_reader \<Rightarrow> (bytes option \<times> line_reader \<times> bytes list) option" where
  "line_reader_next out_cap reads r =
     (let pending = drop (lr_start r) (lr_buf r)
      in case find_crlf pending of
           Some line_len \<Rightarrow>
             Some (Some (take (if out_cap \<le> line_len then out_cap - 1 else line_len) pending), r\<lparr>lr_start := lr_start r + line_len + 2\<rparr>, reads)
         | None \<Rightarrow>
             let r1 = \<lparr>lr_buf = pending, lr_start = 0\<rparr>; room = LINE_READER_CAP - length pending
             in if LINE_READER_CAP \<le> length pending then Some (None, r1, reads)
                else (case reads of
                        [] \<Rightarrow> None
                      | bs # reads' \<Rightarrow>
                          if bs = [] then Some (None, r1, reads')
                          else line_reader_next out_cap (if room < length bs then drop room bs # reads' else reads')
                                 \<lparr>lr_buf = pending @ take room bs, lr_start = 0\<rparr>))"
  by pat_completeness auto
termination
  by (relation "measure (\<lambda>(out_cap, reads, r). sum_list (map (Suc \<circ> length) reads))") auto

declare line_reader_next.simps [simp del]

record reply_line =
  rl_code :: nat
  rl_sep :: byte
  rl_text :: bytes

definition parse_reply_line :: "bytes \<Rightarrow> reply_line option" where
  "parse_reply_line raw =
     (let s = c_str raw
      in if length s < 4 \<or> \<not> is_digit (s ! 0) \<or> \<not> is_digit (s ! 1) \<or> \<not> is_digit (s ! 2) then None
         else Some \<lparr>rl_code = digits_val (take 3 s), rl_sep = s ! 3, rl_text = take (BM_TOR_CONTROL_LINE_CAP - 1) (drop 4 s)\<rparr>)"

text \<open>At most \<open>n\<close> lines; the last one has a space after its code. The inner \<open>None\<close> is an error.\<close>

fun read_full_reply :: "nat \<Rightarrow> bytes list \<Rightarrow> line_reader \<Rightarrow> (reply_line list option \<times> line_reader \<times> bytes list) option" where
  "read_full_reply 0 reads lr = Some (None, lr, reads)"
| "read_full_reply (Suc n) reads lr =
     Option.bind (line_reader_next BM_TOR_CONTROL_LINE_CAP reads lr) (\<lambda>(raw, lr1, reads1).
       case Option.bind raw parse_reply_line of
         None \<Rightarrow> Some (None, lr1, reads1)
       | Some l \<Rightarrow>
           if rl_sep l = 43 then Some (None, lr1, reads1)
           else if rl_sep l = 32 then Some (Some [l], lr1, reads1)
           else map_option (\<lambda>(ls, lr2, reads2). (map_option ((#) l) ls, lr2, reads2)) (read_full_reply n reads1 lr1))"

definition find_line_with_prefix :: "bytes \<Rightarrow> reply_line list \<Rightarrow> reply_line option" where
  "find_line_with_prefix pre lines = find (\<lambda>l. take (length pre) (rl_text l) = pre) lines"

section \<open>The cookie\<close>

definition tor_hex_digits :: bytes where "tor_hex_digits = lit ''0123456789abcdef''"

definition tor_hex_encode :: "bytes \<Rightarrow> bytes" where
  "tor_hex_encode data = concat (map (\<lambda>b. [tor_hex_digits ! unat (drop_bit 4 b AND 0xf), tor_hex_digits ! unat (b AND 0xf)]) data)"

text \<open>\<open>strstr\<close>: the rest of the string from the first occurrence of the marker.\<close>

fun strstr :: "bytes \<Rightarrow> bytes \<Rightarrow> bytes option" where
  "strstr marker [] = (if marker = [] then Some [] else None)"
| "strstr marker (b # bs) = (if take (length marker) (b # bs) = marker then Some (b # bs) else strstr marker bs)"

definition extract_cookie_file :: "nat \<Rightarrow> bytes \<Rightarrow> bytes option" where
  "extract_cookie_file out_cap auth_line_text =
     Option.bind (strstr (lit ''COOKIEFILE='' @ [34]) auth_line_text) (\<lambda>found.
       let start = drop 12 found; path = takeWhile (\<lambda>b. b \<noteq> 34) start
       in if 34 \<notin> set start \<or> out_cap \<le> length path then None else Some path)"

definition auth_methods_support_cookie :: "bytes \<Rightarrow> bool" where
  "auth_methods_support_cookie auth_line_text =
     (case strstr (lit ''METHODS='') auth_line_text of
        None \<Rightarrow> False
      | Some found \<Rightarrow> strstr (lit ''COOKIE'') (take 127 (takeWhile (\<lambda>b. b \<noteq> 32) (drop 8 found))) \<noteq> None)"

section \<open>The dialogue\<close>

record bm_tor_control_config =
  control_socket_path :: "bytes option"
  control_host :: "bytes option"
  control_port :: int

text \<open>\<open>te_file\<close>: the contents of a file, \<open>None\<close> when it cannot be opened.\<close>

record tor_env =
  te_unix :: "bytes \<Rightarrow> int option \<times> bool"
  te_resolver :: resolver
  te_writes :: "nat list"
  te_reads :: "bytes list"
  te_file :: "bytes \<Rightarrow> bytes option"

definition tor_connect :: "tor_env \<Rightarrow> bm_tor_control_config \<Rightarrow> int option \<times> int list" where
  "tor_connect env config =
     (case (case control_socket_path config of None \<Rightarrow> (None, []) | Some path \<Rightarrow> connect_unix (te_unix env) path) of
        (Some fd, closed1) \<Rightarrow> (Some fd, closed1)
      | (None, closed1) \<Rightarrow>
          (case control_host config of
             None \<Rightarrow> (None, closed1)
           | Some host \<Rightarrow> (case connect_tcp_with_timeout (te_resolver env) host (control_port config) of (r, closed2) \<Rightarrow> (r, closed1 @ closed2))))"

text \<open>The last line of a reply that reports success.\<close>

definition reply_ok :: "reply_line list \<Rightarrow> bool" where
  "reply_ok lines \<longleftrightarrow> rl_code (last lines) = 250"

text \<open>From the reply to \<open>PROTOCOLINFO\<close> to the command with the cookie; \<open>None\<close> is an error.\<close>

definition authenticate_command :: "(bytes \<Rightarrow> bytes option) \<Rightarrow> reply_line list \<Rightarrow> bytes option" where
  "authenticate_command file lines =
     (if \<not> reply_ok lines then None
      else Option.bind (find_line_with_prefix (lit ''AUTH '') lines) (\<lambda>auth_line.
        if \<not> auth_methods_support_cookie (rl_text auth_line) then None
        else Option.bind (extract_cookie_file 512 (rl_text auth_line)) (\<lambda>cookie_path.
          Option.bind (file cookie_path) (\<lambda>contents.
            let cookie = take 64 contents
            in if cookie = [] then None else Some (lit ''AUTHENTICATE '' @ tor_hex_encode cookie @ crlf)))))"

text \<open>The result: the descriptor, what was sent, and the descriptors that were closed.\<close>

definition bm_tor_control_connect_and_authenticate ::
  "tor_env \<Rightarrow> bm_tor_control_config \<Rightarrow> (int option \<times> bytes \<times> int list) option" where
  "bm_tor_control_connect_and_authenticate env config =
     (case tor_connect env config of
        (None, shut) \<Rightarrow> Some (None, [], shut)
      | (Some fd, shut) \<Rightarrow>
          Option.bind (send_all_blocking (te_writes env) (lit ''PROTOCOLINFO 1'' @ crlf)) (\<lambda>(rc, out1, ws1).
            if rc \<noteq> 0 then Some (None, out1, shut @ [fd])
            else Option.bind (read_full_reply BM_TOR_CONTROL_MAX_LINES (te_reads env) line_reader_init) (\<lambda>(reply, lr1, reads1).
              case Option.bind reply (authenticate_command (te_file env)) of
                None \<Rightarrow> Some (None, out1, shut @ [fd])
              | Some auth_cmd \<Rightarrow>
                  Option.bind (send_all_blocking ws1 auth_cmd) (\<lambda>(rc, out2, ws2).
                    if rc \<noteq> 0 then Some (None, out1 @ out2, shut @ [fd])
                    else Option.bind (read_full_reply BM_TOR_CONTROL_MAX_LINES reads1 lr1) (\<lambda>(reply2, lr2, reads2).
                      case reply2 of
                        None \<Rightarrow> Some (None, out1 @ out2, shut @ [fd])
                      | Some lines2 \<Rightarrow> if reply_ok lines2 then Some (Some fd, out1 @ out2, shut) else Some (None, out1 @ out2, shut @ [fd]))))))"

text \<open>
  \<open>mem\<close>: whether the memory for the address and for the key is given. The result: the address and the key, or \<open>None\<close> for an error, and what was
  sent.
\<close>

definition add_onion_command :: "bytes option \<Rightarrow> int \<Rightarrow> int \<Rightarrow> bytes" where
  "add_onion_command existing_private_key virtual_port local_port =
     lit ''ADD_ONION '' @ (case existing_private_key of None \<Rightarrow> lit ''NEW:ED25519-V3'' | Some key \<Rightarrow> c_str key) @ lit '' Port='' @
     fmt_lld virtual_port @ lit '',127.0.0.1:'' @ fmt_lld local_port @ crlf"

definition onion_of_reply :: "bool \<times> bool \<Rightarrow> bool \<Rightarrow> reply_line list \<Rightarrow> (bytes \<times> bytes option) option" where
  "onion_of_reply mem new_key lines =
     (if \<not> reply_ok lines then None
      else Option.bind (find_line_with_prefix (lit ''ServiceID='') lines) (\<lambda>service_id_line.
        let onion_address = drop 10 (rl_text service_id_line) @ lit ''.onion''
        in if \<not> fst mem then None
           else if \<not> new_key then Some (onion_address, None)
           else Option.bind (find_line_with_prefix (lit ''PrivateKey='') lines) (\<lambda>pk_line.
             if \<not> snd mem then None else Some (onion_address, Some (drop 11 (rl_text pk_line))))))"

definition bm_tor_control_add_onion ::
  "bool \<times> bool \<Rightarrow> nat list \<Rightarrow> bytes list \<Rightarrow> bytes option \<Rightarrow> int \<Rightarrow> int \<Rightarrow> ((bytes \<times> bytes option) option \<times> bytes) option" where
  "bm_tor_control_add_onion mem ws reads existing_private_key virtual_port local_port =
     (let cmd = add_onion_command existing_private_key virtual_port local_port
      in if 512 \<le> length cmd then Some (None, [])
         else Option.bind (send_all_blocking ws cmd) (\<lambda>(rc, out, ws1).
           if rc \<noteq> 0 then Some (None, out)
           else Option.bind (read_full_reply BM_TOR_CONTROL_MAX_LINES reads line_reader_init) (\<lambda>(reply, lr1, reads1).
             Some (Option.bind reply (onion_of_reply mem (existing_private_key = None)), out))))"

section \<open>The stream of Tor\<close>

lemma find_crlf_take: "find_crlf xs = Some n \<Longrightarrow> find_crlf (take k xs) = (if n + 2 \<le> k then Some n else None)"
proof (induction xs arbitrary: n k rule: find_crlf.induct)
  case (1 a b bs)
  show ?case
  proof (cases k)
    case (Suc j)
    show ?thesis
    proof (cases j)
      case 0
      then show ?thesis using Suc "1.prems" by simp
    next
      case (Suc i)
      show ?thesis
      proof (cases "a = 13 \<and> b = 10")
        case True
        then show ?thesis using \<open>k = Suc j\<close> Suc "1.prems" by auto
      next
        case False
        then obtain m where m: "find_crlf (b # bs) = Some m" "n = Suc m" using "1.prems" by auto
        show ?thesis using "1.IH" [OF False m(1), of j] \<open>k = Suc j\<close> Suc False m(2) by auto
      qed
    qed
  qed simp
qed simp_all

lemma find_crlf_append: "find_crlf xs = Some n \<Longrightarrow> find_crlf (xs @ ys) = Some n"
  by (induction xs arbitrary: n rule: find_crlf.induct) (auto split: if_splits)

definition unread :: "line_reader \<Rightarrow> bytes list \<Rightarrow> bytes" where
  "unread r reads = drop (lr_start r) (lr_buf r) @ concat reads"

lemma line_reader_next_stream:
  "[] \<notin> set reads \<Longrightarrow> find_crlf (unread r reads) = Some n \<Longrightarrow> n + 2 \<le> LINE_READER_CAP \<Longrightarrow> n < out_cap \<Longrightarrow>
     \<exists>r' reads'. line_reader_next out_cap reads r = Some (Some (take n (unread r reads)), r', reads') \<and>
       unread r' reads' = drop (n + 2) (unread r reads) \<and> [] \<notin> set reads'"
proof (induction out_cap reads r rule: line_reader_next.induct)
  case (1 out_cap reads r)
  define pending where "pending = drop (lr_start r) (lr_buf r)"
  have unr: "unread r reads = pending @ concat reads" by (simp add: unread_def pending_def)
  have "pending = take (length pending) (unread r reads)" by (simp add: unr)
  then have f: "find_crlf pending = (if n + 2 \<le> length pending then Some n else None)" using find_crlf_take [OF "1.prems"(2)] by metis
  show ?case
  proof (cases "n + 2 \<le> length pending")
    case True
    have "drop (lr_start r + n + 2) (lr_buf r) = drop (n + 2) pending" by (simp add: pending_def add.commute add.left_commute)
    then show ?thesis using True f "1.prems"(1,4) unfolding line_reader_next.simps [of out_cap reads r] pending_def [symmetric] Let_def
      by (simp add: unr) (simp add: unread_def)
  next
    case False
    then have small: "length pending < LINE_READER_CAP" using "1.prems"(3) by simp
    have "reads \<noteq> []" using False f "1.prems"(2) by (auto simp: unr)
    then obtain bs rest where reads: "reads = bs # rest" by (cases reads) auto
    let ?room = "LINE_READER_CAP - length pending"
    let ?reads = "if ?room < length bs then drop ?room bs # rest else rest"
    let ?r = "\<lparr>lr_buf = pending @ take ?room bs, lr_start = 0\<rparr>"
    have ne: "bs \<noteq> []" "[] \<notin> set ?reads" using "1.prems"(1) reads by auto
    have "unread ?r ?reads = unread r reads" by (auto simp: unread_def reads pending_def [symmetric])
    then have ih: "\<exists>r' reads'. line_reader_next out_cap ?reads ?r = Some (Some (take n (unread r reads)), r', reads') \<and>
        unread r' reads' = drop (n + 2) (unread r reads) \<and> [] \<notin> set reads'"
      using "1.IH" [of pending "\<lparr>lr_buf = pending, lr_start = 0\<rparr>" ?room bs rest] False f small ne "1.prems"(2-4) reads
      by (simp add: pending_def [symmetric])
    have "line_reader_next out_cap reads r = line_reader_next out_cap ?reads ?r"
      unfolding line_reader_next.simps [of out_cap reads r] pending_def [symmetric] Let_def using False f small ne(1) reads by simp
    then show ?thesis using ih by simp
  qed
qed

text \<open>A reply: lines of at most 511 bytes, of which the last has a space after its code, and none announces a block of data.\<close>

definition reply_text :: "bytes list \<Rightarrow> bytes" where
  "reply_text raws = concat (map (\<lambda>l. l @ crlf) raws)"

definition reply :: "bytes list \<Rightarrow> reply_line list \<Rightarrow> bool" where
  "reply raws lines \<longleftrightarrow> raws \<noteq> [] \<and> length raws \<le> BM_TOR_CONTROL_MAX_LINES \<and>
     (\<forall>l\<in>set raws. length l < BM_TOR_CONTROL_LINE_CAP \<and> find_crlf (l @ crlf) = Some (length l)) \<and>
     map parse_reply_line raws = map Some lines \<and> (\<forall>l\<in>set (butlast lines). rl_sep l \<notin> {32, 43}) \<and> rl_sep (last lines) = 32"

lemma read_reply_stream:
  "raws \<noteq> [] \<Longrightarrow> length raws \<le> n \<Longrightarrow> \<forall>l\<in>set raws. length l < BM_TOR_CONTROL_LINE_CAP \<and> find_crlf (l @ crlf) = Some (length l) \<Longrightarrow>
     map parse_reply_line raws = map Some lines \<Longrightarrow> \<forall>l\<in>set (butlast lines). rl_sep l \<notin> {32, 43} \<Longrightarrow> rl_sep (last lines) = 32 \<Longrightarrow>
     [] \<notin> set reads \<Longrightarrow> unread lr reads = reply_text raws @ rest \<Longrightarrow>
     \<exists>lr' reads'. read_full_reply n reads lr = Some (Some lines, lr', reads') \<and> unread lr' reads' = rest \<and> [] \<notin> set reads'"
proof (induction raws arbitrary: n lines reads lr)
  case (Cons raw raws)
  obtain l ls where lines: "lines = l # ls" "parse_reply_line raw = Some l" "map parse_reply_line raws = map Some ls" using Cons.prems(4) by auto
  obtain m where n: "n = Suc m" "length raws \<le> m" using Cons.prems(2) by (cases n) auto
  have raw: "length raw < 512" "find_crlf (raw @ crlf) = Some (length raw)" using Cons.prems(3) by auto
  have stream: "unread lr reads = (raw @ crlf) @ reply_text raws @ rest" using Cons.prems(8) by (simp add: reply_text_def)
  then have "find_crlf (unread lr reads) = Some (length raw)" using find_crlf_append [OF raw(2)] by metis
  then obtain lr1 reads1 where next_line: "line_reader_next 512 reads lr = Some (Some raw, lr1, reads1)" "unread lr1 reads1 = reply_text raws @ rest" "[] \<notin> set reads1"
    using line_reader_next_stream [OF Cons.prems(7), of lr "length raw" 512] raw(1) stream by auto
  show ?case
  proof (cases "raws = []")
    case True
    then show ?thesis using lines next_line n(1) Cons.prems(6) by (simp add: reply_text_def)
  next
    case False
    then have ls: "ls \<noteq> []" using lines(3) by auto
    then have "rl_sep l \<notin> {32, 43}" "\<forall>l\<in>set (butlast ls). rl_sep l \<notin> {32, 43}" "rl_sep (last ls) = 32" using Cons.prems(5,6) lines(1) by auto
    moreover obtain lr' reads' where "read_full_reply m reads1 lr1 = Some (Some ls, lr', reads')" "unread lr' reads' = rest" "[] \<notin> set reads'"
      using Cons.IH [OF False n(2) _ lines(3) calculation(2,3) next_line(3,2)] Cons.prems(3) by auto
    ultimately show ?thesis using lines next_line(1) n(1) by simp
  qed
qed simp

lemma read_full_reply_stream:
  "reply raws lines \<Longrightarrow> [] \<notin> set reads \<Longrightarrow> unread lr reads = reply_text raws @ rest \<Longrightarrow>
     \<exists>lr' reads'. read_full_reply BM_TOR_CONTROL_MAX_LINES reads lr = Some (Some lines, lr', reads') \<and> unread lr' reads' = rest \<and> [] \<notin> set reads'"
  unfolding reply_def by (elim conjE) (rule read_reply_stream)

lemma unread_init [simp]: "unread line_reader_init reads = concat reads"
  by (simp add: unread_def line_reader_init_def)

text \<open>Each write takes at least a byte.\<close>

lemma send_all_blocking_done:
  "0 \<notin> set ns \<Longrightarrow> length bs \<le> length ns \<Longrightarrow> \<exists>ns'. send_all_blocking ns bs = Some (0, bs, ns') \<and> 0 \<notin> set ns' \<and> length ns \<le> length ns' + length bs"
proof (induction ns bs rule: send_all_blocking.induct)
  case (3 n ns b bs)
  then have n: "n \<noteq> 0" "0 \<notin> set ns" "length (drop n (b # bs)) \<le> length ns" by auto
  from "3.IH" [OF n] obtain ns' where ns': "send_all_blocking ns (drop n (b # bs)) = Some (0, drop n (b # bs), ns')" "0 \<notin> set ns'"
      "length ns \<le> length ns' + length (drop n (b # bs))" by blast
  then show ?case using n(1) by (cases n) auto
qed auto

section \<open>The line with the cookie file\<close>

lemma strstr_here: "take (length m) s = m \<Longrightarrow> strstr m s = Some s"
  by (cases s) auto

lemma strstr_infix: "strstr m (a @ m @ b) \<noteq> None"
  by (induction a) (simp_all add: strstr_here)

text \<open>A marker that ends with a byte that does not occur before it is found at its first place.\<close>

lemma strstr_first:
  assumes "c \<notin> set a" "c \<notin> set m"
  shows "strstr (m @ [c]) (a @ m @ [c] @ b) = Some (m @ [c] @ b)"
  using assms
proof (induction a)
  case Nil
  then show ?case by (simp add: strstr_here)
next
  case (Cons x a)
  have "take (Suc (length m)) ((x # a) @ m @ [c] @ b) ! length m \<noteq> c"
    using Cons.prems by (auto simp: nth_append nth_Cons in_set_conv_nth split: nat.splits)
  then have "take (length (m @ [c])) ((x # a) @ m @ [c] @ b) \<noteq> m @ [c]" by (metis length_append_singleton nth_append_length)
  then show ?case using Cons by simp
qed

definition auth_text :: "bytes \<Rightarrow> bytes \<Rightarrow> bytes" where
  "auth_text methods path = lit ''AUTH METHODS='' @ methods @ lit '' COOKIEFILE='' @ [34] @ path @ [34]"

lemma auth_text_cookie:
  assumes "32 \<notin> set methods" "length methods < 128" "methods = a @ lit ''COOKIE'' @ b"
  shows "auth_methods_support_cookie (auth_text methods path)"
proof -
  have "strstr (lit ''METHODS='') (auth_text methods path) = Some (drop 5 (auth_text methods path))" by (simp add: auth_text_def)
  moreover have "drop 8 (drop 5 (auth_text methods path)) = methods @ 32 # lit ''COOKIEFILE='' @ [34] @ path @ [34]" by (simp add: auth_text_def)
  moreover have "takeWhile (\<lambda>c. c \<noteq> 32) (methods @ 32 # rest) = methods" for rest using assms(1) by (induction methods) auto
  ultimately show ?thesis using assms(2,3) strstr_infix [of "lit ''COOKIE''" a b] by (simp add: auth_methods_support_cookie_def)
qed

lemma auth_text_path:
  assumes "34 \<notin> set methods" "34 \<notin> set path" "length path < cap"
  shows "extract_cookie_file cap (auth_text methods path) = Some path"
proof -
  let ?m = "lit ''COOKIEFILE=''" and ?a = "lit ''AUTH METHODS='' @ methods @ lit '' ''"
  have "auth_text methods path = ?a @ ?m @ [34] @ path @ [34]" by (simp add: auth_text_def)
  moreover have quote: "34 \<notin> set ?a" "34 \<notin> set ?m" using assms(1) by auto
  ultimately have "strstr (?m @ [34]) (auth_text methods path) = Some (?m @ [34] @ path @ [34])"
    using strstr_first [OF quote, of "path @ [34]"] by (simp only:)
  moreover have "drop 12 (?m @ [34] @ path @ [34]) = path @ [34]" by simp
  moreover have "takeWhile (\<lambda>c. c \<noteq> 34) (path @ [34]) = path" using assms(2) by (induction path) auto
  ultimately show ?thesis using assms(3) by (simp add: extract_cookie_file_def)
qed

section \<open>Properties\<close>

text \<open>
  C14: The node authenticates with Tor. However the stream is cut, when Tor's reply to \<open>PROTOCOLINFO\<close> offers cookies and names a file that the node can
  read, the node sends the first 64 bytes of that file in hexadecimal digits, and when Tor accepts, the connection is kept.
\<close>

theorem tor_cookie_shown:
  assumes "tor_connect env config = (Some fd, fds)" "0 \<notin> set (te_writes env)" "300 \<le> length (te_writes env)"
    and "[] \<notin> set (te_reads env)" "concat (te_reads env) = reply_text raws1 @ reply_text raws2 @ rest"
    and "reply raws1 lines1" "rl_code (last lines1) = 250" "reply raws2 lines2" "rl_code (last lines2) = 250"
    and "find_line_with_prefix (lit ''AUTH '') lines1 = Some l" "rl_text l = auth_text methods path"
    and "32 \<notin> set methods" "34 \<notin> set methods" "length methods < 128" "methods = a @ lit ''COOKIE'' @ b" "34 \<notin> set path" "length path < 512"
    and "te_file env path = Some cookie" "cookie \<noteq> []"
  shows "bm_tor_control_connect_and_authenticate env config =
    Some (Some fd, lit ''PROTOCOLINFO 1'' @ crlf @ lit ''AUTHENTICATE '' @ tor_hex_encode (take 64 cookie) @ crlf, fds)"
proof -
  let ?info = "lit ''PROTOCOLINFO 1'' @ crlf" and ?cmd = "lit ''AUTHENTICATE '' @ tor_hex_encode (take 64 cookie) @ crlf"
  have "length (tor_hex_encode bs) = 2 * length bs" for bs by (induction bs) (simp_all add: tor_hex_encode_def)
  then have len: "length ?cmd \<le> 143" by simp
  obtain ws1 where ws1: "send_all_blocking (te_writes env) ?info = Some (0, ?info, ws1)" "0 \<notin> set ws1" "300 \<le> length ws1 + length ?info"
    using send_all_blocking_done [OF assms(2), of ?info] assms(3) by auto
  obtain ws2 where ws2: "send_all_blocking ws1 ?cmd = Some (0, ?cmd, ws2)"
    using send_all_blocking_done [OF ws1(2), of ?cmd] ws1(3) len by auto
  obtain lr1 reads1 where r1: "read_full_reply 16 (te_reads env) line_reader_init = Some (Some lines1, lr1, reads1)"
      "unread lr1 reads1 = reply_text raws2 @ rest" "[] \<notin> set reads1"
    using read_full_reply_stream [OF assms(6,4), of line_reader_init] assms(5) by auto
  obtain lr2 reads2 where r2: "read_full_reply 16 reads1 lr1 = Some (Some lines2, lr2, reads2)"
    using read_full_reply_stream [OF assms(8) r1(3,2)] by auto
  have "authenticate_command (te_file env) lines1 = Some ?cmd"
    using assms(7,10,11,18,19) auth_text_cookie [OF assms(12,14,15)] auth_text_path [OF assms(13,16,17)]
    by (simp add: authenticate_command_def reply_ok_def Let_def)
  then show ?thesis unfolding bm_tor_control_connect_and_authenticate_def
    using assms(1,9) ws1(1) r1(1) ws2 r2 by (simp add: reply_ok_def)
qed

definition sample_tor :: tor_env where
  "sample_tor = \<lparr>te_unix = (\<lambda>_. (Some 7, True)), te_resolver = (\<lambda>_ _. None), te_writes = replicate 300 1,
     te_reads = map (\<lambda>b. [b]) (reply_text [lit ''250-AUTH METHODS=COOKIE COOKIEFILE='' @ [34] @ lit ''/c'' @ [34], lit ''250 OK''] @ reply_text [lit ''250 OK'']),
     te_file = (\<lambda>p. if p = lit ''/c'' then Some [171] else None)\<rparr>"

theorem tor_cookie_shown_witness:
  "bm_tor_control_connect_and_authenticate sample_tor \<lparr>control_socket_path = Some (lit ''/run/tor''), control_host = None, control_port = 0\<rparr> =
     Some (Some 7, lit ''PROTOCOLINFO 1'' @ crlf @ lit ''AUTHENTICATE ab'' @ crlf, [])"
proof -
  let ?raws1 = "[lit ''250-AUTH METHODS=COOKIE COOKIEFILE='' @ [34] @ lit ''/c'' @ [34], lit ''250 OK'']"
  let ?ok = "\<lparr>rl_code = 250, rl_sep = 32, rl_text = lit ''OK''\<rparr>" and ?auth = "\<lparr>rl_code = 250, rl_sep = 45, rl_text = auth_text (lit ''COOKIE'') (lit ''/c'')\<rparr>"
  have "reply ?raws1 [?auth, ?ok]" "reply [lit ''250 OK''] [?ok]"
    by (simp_all add: reply_def parse_reply_line_def c_str_def auth_text_def digits_val_def)
  moreover have "concat (map (\<lambda>b. [b]) xs) = xs" for xs :: bytes by (induction xs) auto
  ultimately have "bm_tor_control_connect_and_authenticate sample_tor \<lparr>control_socket_path = Some (lit ''/run/tor''), control_host = None, control_port = 0\<rparr> =
      Some (Some 7, lit ''PROTOCOLINFO 1'' @ crlf @ lit ''AUTHENTICATE '' @ tor_hex_encode (take 64 [171]) @ crlf, [])"
    by (intro tor_cookie_shown [where ?raws1.0 = ?raws1 and ?raws2.0 = "[lit ''250 OK'']" and ?lines1.0 = "[?auth, ?ok]" and ?lines2.0 = "[?ok]" and l = ?auth
        and methods = "lit ''COOKIE''" and path = "lit ''/c''" and a = "[]" and b = "[]" and rest = "[]"])
      (simp_all add: sample_tor_def tor_connect_def connect_unix_def find_line_with_prefix_def auth_text_def image_iff)
  then show ?thesis by (simp add: tor_hex_encode_def tor_hex_digits_def)
qed

text \<open>
  C15: The node takes its onion address from Tor. However the reply is cut, when Tor accepts the command and its reply names a service, the node's
  address is that name with \<open>.onion\<close>; without a key of its own, the node takes the private key of the reply, and with one, the command carries it and
  no other key is taken. The command has the two ports and is sent whole.
\<close>

theorem onion_service_added:
  assumes "0 \<notin> set ws" "length (add_onion_command key virtual_port local_port) < 512" "512 \<le> length ws"
    and "[] \<notin> set reads" "concat reads = reply_text raws @ rest" "reply raws lines" "rl_code (last lines) = 250"
    and "find_line_with_prefix (lit ''ServiceID='') lines = Some id_line" "rl_text id_line = lit ''ServiceID='' @ service_id"
    and "key = None \<Longrightarrow> \<exists>pk_line. find_line_with_prefix (lit ''PrivateKey='') lines = Some pk_line \<and> rl_text pk_line = lit ''PrivateKey='' @ private_key"
  shows "bm_tor_control_add_onion (True, True) ws reads key virtual_port local_port =
    Some (Some (service_id @ lit ''.onion'', if key = None then Some private_key else None), add_onion_command key virtual_port local_port)"
proof -
  let ?cmd = "add_onion_command key virtual_port local_port"
  obtain ws1 where ws1: "send_all_blocking ws ?cmd = Some (0, ?cmd, ws1)" using send_all_blocking_done [OF assms(1), of ?cmd] assms(2,3) by auto
  obtain lr1 reads1 where r1: "read_full_reply 16 reads line_reader_init = Some (Some lines, lr1, reads1)"
    using read_full_reply_stream [OF assms(6,4), of line_reader_init] assms(5) by auto
  have "onion_of_reply (True, True) (key = None) lines = Some (service_id @ lit ''.onion'', if key = None then Some private_key else None)"
    using assms(7-10) by (auto simp: onion_of_reply_def reply_ok_def Let_def)
  then show ?thesis using ws1 r1 assms(2) by (simp add: bm_tor_control_add_onion_def Let_def)
qed

theorem onion_service_added_witness:
  "bm_tor_control_add_onion (True, True) (replicate 512 100) [lit ''250-Serv'', lit ''iceID=abc'' @ [13], [10] @ lit ''250-PrivateKey=K'' @ crlf @ lit ''250 OK'', crlf] None 8444 8445 =
     Some (Some (lit ''abc.onion'', Some (lit ''K'')), add_onion_command None 8444 8445)"
proof -
  let ?raws = "[lit ''250-ServiceID=abc'', lit ''250-PrivateKey=K'', lit ''250 OK'']"
  let ?id = "\<lparr>rl_code = 250, rl_sep = 45, rl_text = lit ''ServiceID=abc''\<rparr>" and ?pk = "\<lparr>rl_code = 250, rl_sep = 45, rl_text = lit ''PrivateKey=K''\<rparr>"
    and ?ok = "\<lparr>rl_code = 250, rl_sep = 32, rl_text = lit ''OK''\<rparr>"
  have reply: "reply ?raws [?id, ?pk, ?ok]" by (simp add: reply_def parse_reply_line_def c_str_def digits_val_def)
  have "bm_tor_control_add_onion (True, True) (replicate 512 100) [lit ''250-Serv'', lit ''iceID=abc'' @ [13], [10] @ lit ''250-PrivateKey=K'' @ crlf @ lit ''250 OK'', crlf] None 8444 8445 =
     Some (Some (lit ''abc'' @ lit ''.onion'', if (None :: bytes option) = None then Some (lit ''K'') else None), add_onion_command None 8444 8445)"
    by (rule onion_service_added [where raws = ?raws and rest = "[]" and id_line = ?id, OF _ _ _ _ _ reply])
      (simp_all add: add_onion_command_def fmt_lld_def dec.simps reply_text_def find_line_with_prefix_def)
  then show ?thesis by simp
qed

end
