(* ===== verification/Spec2Isabelle.thy ===== *)
theory Spec2Isabelle
  imports Delivery Json Api_Connections Peer_Connector Tor_Control
begin

text \<open>
  A verification development for a Bitmessage node written in C: the daemon \<open>bitmessaged\<close> with its library
  under \<open>src/\<close>. The node keeps identities under a passphrase, exchanges objects with other nodes,
  decrypts the objects that are meant for its user, and sends messages with a proof of work and an
  acknowledgement.

  \<^bold>\<open>The parts and their theories.\<close> Each theory opens with what it holds; definitions carry the names of the C
  functions and types they translate.

  \<^item> \<open>Bm_Prelude\<close>: bytes, C strings, big-endian octets, and the type \<open>outcome\<close>: an access outside an
    array, through a null pointer or to freed memory is \<open>Fault\<close>, a result is \<open>Done\<close>.
  \<^item> \<open>Varint\<close>, \<open>Base58\<close>, \<open>Hashing\<close>, \<open>Json\<close> with \<open>Double\<close>: the codecs of \<open>src/common\<close>.
  \<^item> \<open>Queue\<close>: the queue between threads (\<open>common/queue.c\<close>), a linked list on an explicit heap.
  \<^item> \<open>Address\<close>, \<open>Crypto\<close>, \<open>Objects\<close>, \<open>Trial_Decrypt\<close>, \<open>Broadcast\<close>, \<open>Pubkey_Cache\<close>: addresses, ECIES and
    ECDSA, the builders of objects, and the decryption and parsing of what others built
    (\<open>core/address.c\<close>, \<open>crypto.c\<close>, \<open>message_builder.c\<close>, \<open>trial_decrypt.c\<close>, \<open>broadcast_decrypt.c\<close>,
    \<open>pubkey_cache.c\<close>, \<open>infra/object.c\<close>).
  \<^item> \<open>Identity_Store\<close>, \<open>Keyring\<close>: identities, their wrapped keys, the vault, and the unlocked keys
    (\<open>core/identity_store.c\<close>, \<open>keyring.c\<close>).
  \<^item> \<open>Messages_Store\<close>, \<open>Object_Store\<close>, \<open>Peer_Manager\<close>: the tables of messages, objects and peers
    (\<open>core/messages_store.c\<close>, \<open>infra/object_store.c\<close>, \<open>core/peer_manager.c\<close>).
  \<^item> \<open>Pow_Engine\<close>, \<open>Pow_Queue\<close>: the search for a proof of work, alone and by threads, and the queue of jobs
    with its worker (\<open>src/pow\<close>).
  \<^item> \<open>Protocol\<close>, \<open>Network\<close>, \<open>Receiving\<close>, \<open>Dandelion\<close>, \<open>Peer_Registry\<close>, \<open>Event_Loop\<close>: packets, connections
    with their send and receive buffers, the registry of connections, and the thread that serves them
    (\<open>infra/protocol.c\<close>, \<open>network.c\<close>, \<open>dandelion.c\<close>, \<open>peer_registry.c\<close>).
  \<^item> \<open>Inventory\<close>, \<open>Object_Sync\<close>, \<open>Dispatch\<close>: what a node does with the messages of a connection and with
    the objects they bring (\<open>infra/object_sync.c\<close>), and \<open>Send_Pipeline\<close>: how the user's messages are sent
    (\<open>core/send_pipeline.c\<close>).
  \<^item> \<open>Socks\<close>, \<open>Peer_Connector\<close>: how connections to peers are opened, directly or through a SOCKS5 proxy, and the
    choice of the peers (\<open>infra/peer_connector.c\<close>). \<open>Tor_Control\<close>: the dialogue that publishes the node as an onion service
    (\<open>infra/tor_control.c\<close>).
  \<^item> \<open>Delivery\<close>: two nodes together.
  \<^item> \<open>Config_Store\<close>: the settings in the database (\<open>core/config_store.c\<close>). \<open>Api_Async\<close>, \<open>Api_Server\<close>, \<open>Api_Methods\<close>: the
    JSON-RPC server (\<open>core/api_server.c\<close>): its memory of sends that are answered later, the handling of HTTP requests and
    batches, and the methods. \<open>Api_Calls\<close>, \<open>Api_Connections\<close>: what it promises.

  \<^bold>\<open>State and effects.\<close> A component's state is a record, an operation returns the new state. Tables of SQLite are
  lists of rows in the order of insertion, with the conflict clauses of the statements written out. What the
  system decides is an argument: whether an allocation or a statement succeeds, the time, random bytes, how
  much a socket takes. OpenSSL's primitives are the record \<open>openssl\<close> (and \<open>kdf_lib\<close> for the keyring), with the
  laws that the theorems need in \<open>openssl_ok\<close>; every theorem with such a law has a witness in which an
  instance of the record satisfies it. Threads are step relations: each step is what a thread does while it holds
  a lock. A call of \<open>bm_peer_registry_broadcast_inv\<close> inside a handler is an entry in a log of the node; what the
  call does to the connections is a step of its own.

  \<^bold>\<open>Interfaces.\<close> The linked lists of \<open>Queue\<close> and \<open>Pow_Queue\<close> share a locale whose laws are proved for the model's
  heap; the index of \<open>Dandelion\<close> is shown to behave as a map and its clients use that; the event loop is
  proved for every handler that keeps a connection sound; the connector reads its proxies through the contract of a setting; the JSON-RPC server is proved for every table of methods that keep its
  memory well formed, and the table of the program is an instance; the methods for a proxy are proved for every setting.

  \<^bold>\<open>What is shown.\<close> Round trips: varints, base58, addresses, JSON, packets, version messages, ECIES, messages,
  broadcasts and public keys. Authenticity: what decryption accepts was signed by the key it names. The stream of a connection:
  packets arrive as they were sent however they are cut, requests are answered in order, queues stay within
  their limits, and no thread touches a freed connection, as long as none is freed while it is being opened by the connector, whose
  steps interleave with the others. A message of a peer is handled without fault, but for the parsers named below and the
  processing of an object, and leaves a sound node. The proof of work: the target is exact, the search
  returns a valid nonce under every schedule, each accepted job is answered once. Dandelion's index refines a
  map and a fluffed object stays fluffed. Keys stay recoverable with their passphrase through every sequence of
  operations of the keyring. The table of peers stays well formed. The connector makes a bounded number of attempts in
  any stretch of time and ends when trying all its candidates once takes less than the cooldown, keeps its limits and its peers' cooldowns, and
  leaves the names of peers to their proxies; the SOCKS5 handshake takes exactly the proxy's reply from the stream, and the replies of Tor are understood however they are cut. A message that is sent is delivered and its
  acknowledgement ends the sending. The JSON-RPC server does nothing for a client without the password, answers batches
  completely, never uses freed memory, and every connection that it suspends is resumed once its sends are reported; the conversion of
  addresses ends and loses no key. Where the code does not do what it means to, a theorem shows what it does:
  payloads that make parsers leave their buffers, a race of the connector, a proxy's reply that is too long for its buffer, settings
  that cannot be read and so switch the proxies off, an identity that stays unlocked, a proxy that
  \<open>true\<close> switches off.

  \<^bold>\<open>Bounds and fuel.\<close> Machine integers are words of their width. Loops over data are structural; the searches
  that may not end (proof of work, deterministic addresses) are partial functions into \<open>option\<close>, with theorems that they
  return; the walk over the waiting jobs has as fuel the number of jobs plus one, and running out would be a fault,
  which is excluded; the conversion of all addresses has as fuel its limit plus the number of version 3 identities, and
  a theorem shows that it is enough. Loops that wait for a socket take the answers of the socket as a list; \<open>None\<close> inside the
  outcome means that the answers do not end the loop.

  \<^bold>\<open>Not modelled.\<close> The post-quantum extension (\<open>src/pq\<close>, \<open>core/pq_*.c\<close> and the parts of other files under
  \<open>BM_HAVE_PQ\<close>), which is only compiled on request; the start and the stop of the HTTP daemon in
  \<open>bm_api_server_thread\<close>, with cJSON and libmicrohttpd, which are arguments of the model; the command line client \<open>src/cli\<close>; \<open>main.c\<close>, which starts the threads;
  the thread around the connector, which calls it every 30 seconds; settings files, logging, the creation
  of database schemas and the release of memory that is not shared.
\<close>

end
